(* ===== verification/Prelude.thy ===== *)
theory Prelude
  imports Main "HOL-Library.Word" "HOL-Library.Signed_Division" "HOL-Library.Char_ord"
    "HOL-Library.List_Lexorder"
begin

text \<open>
  What every component shares: results and the early return of a failed call, the machine
  integer ranges of the source with its checked, wrapping and truncating operations, Euclid's
  loop, and the digit strings that labels and identifiers are printed with.
\<close>

named_theorems result_simps \<open>facts that open a call that returned\<close>

section \<open>Results\<close>

text \<open>
  A fallible call returns \<open>Inl\<close> of an error or \<open>Inr\<close> of a value. \<open>bindR\<close> is the question
  mark operator: the first error ends the function.
\<close>

definition bindR :: "'e + 'a \<Rightarrow> ('a \<Rightarrow> 'e + 'b) \<Rightarrow> 'e + 'b" where
  "bindR m f = (case m of Inl e \<Rightarrow> Inl e | Inr x \<Rightarrow> f x)"

definition mapR :: "('a \<Rightarrow> 'b) \<Rightarrow> 'e + 'a \<Rightarrow> 'e + 'b" where
  "mapR f m = (case m of Inl e \<Rightarrow> Inl e | Inr x \<Rightarrow> Inr (f x))"

definition map_errR :: "('e \<Rightarrow> 'f) \<Rightarrow> 'e + 'a \<Rightarrow> 'f + 'a" where
  "map_errR g m = (case m of Inl e \<Rightarrow> Inl (g e) | Inr x \<Rightarrow> Inr x)"

definition ok_or :: "'a option \<Rightarrow> 'e \<Rightarrow> 'e + 'a" where
  "ok_or m e = (case m of None \<Rightarrow> Inl e | Some x \<Rightarrow> Inr x)"

definition is_ok :: "'e + 'a \<Rightarrow> bool" where
  "is_ok m = (case m of Inl _ \<Rightarrow> False | Inr _ \<Rightarrow> True)"

text \<open>A loop that calls a fallible function on each element and collects the values.\<close>

fun traverse :: "('a \<Rightarrow> 'e + 'b) \<Rightarrow> 'a list \<Rightarrow> 'e + 'b list" where
  "traverse f [] = Inr []"
| "traverse f (x # xs) = bindR (f x) (\<lambda>y. bindR (traverse f xs) (\<lambda>ys. Inr (y # ys)))"

text \<open>A loop that threads a state through fallible steps.\<close>

fun foldR :: "('a \<Rightarrow> 's \<Rightarrow> 'e + 's) \<Rightarrow> 'a list \<Rightarrow> 's \<Rightarrow> 'e + 's" where
  "foldR f [] s = Inr s"
| "foldR f (x # xs) s = bindR (f x s) (foldR f xs)"

lemma bindR_simps [simp]: "bindR (Inl e) f = Inl e" "bindR (Inr x) f = f x"
  by (simp_all add: bindR_def)

lemma bindR_cong [fundef_cong]:
  "m = m' \<Longrightarrow> (\<And>x. m' = Inr x \<Longrightarrow> f x = g x) \<Longrightarrow> bindR m f = bindR m' g"
  by (cases m') auto

lemma bindR_Inr [result_simps]: "bindR m f = Inr y \<longleftrightarrow> (\<exists>x. m = Inr x \<and> f x = Inr y)"
  by (cases m) auto

lemma bindR_Inl: "bindR m f = Inl e \<longleftrightarrow> m = Inl e \<or> (\<exists>x. m = Inr x \<and> f x = Inl e)"
  by (cases m) auto

lemma mapR_simps [simp]: "mapR f (Inl e) = Inl e" "mapR f (Inr x) = Inr (f x)"
  by (simp_all add: mapR_def)

lemma mapR_Inr [result_simps]: "mapR f m = Inr y \<longleftrightarrow> (\<exists>x. m = Inr x \<and> y = f x)"
  by (cases m) auto

lemma map_errR_simps [simp]: "map_errR g (Inl e) = Inl (g e)" "map_errR g (Inr x) = Inr x"
  by (simp_all add: map_errR_def)

lemma map_errR_Inr [result_simps]: "map_errR g m = Inr y \<longleftrightarrow> m = Inr y"
  by (cases m) auto

lemma ok_or_simps [simp]: "ok_or None e = Inl e" "ok_or (Some x) e = Inr x"
  by (simp_all add: ok_or_def)

lemma ok_or_Inr [result_simps]: "ok_or m e = Inr y \<longleftrightarrow> m = Some y"
  by (cases m) auto

lemma is_ok_simps [simp]: "\<not> is_ok (Inl e)" "is_ok (Inr x)"
  by (simp_all add: is_ok_def)

lemma is_ok_iff: "is_ok m \<longleftrightarrow> (\<exists>x. m = Inr x)"
  by (cases m) auto

lemma if_Inr [result_simps]:
  "(if b then Inl e else m) = Inr y \<longleftrightarrow> \<not> b \<and> m = Inr y"
  "(if b then m else Inl e) = Inr y \<longleftrightarrow> b \<and> m = Inr y"
  by auto

text \<open>That a call returns a given value, as a test that never compares errors.\<close>

definition returns :: "'e + 'a \<Rightarrow> 'a \<Rightarrow> bool" where
  "returns m x = (case m of Inl _ \<Rightarrow> False | Inr y \<Rightarrow> y = x)"

lemma returns_iff: "returns m x \<longleftrightarrow> m = Inr x"
  by (cases m) (auto simp: returns_def)

lemma traverse_length: "traverse f xs = Inr ys \<Longrightarrow> length ys = length xs"
  by (induction xs arbitrary: ys) (auto simp: result_simps)

lemma traverse_nth: "traverse f xs = Inr ys \<Longrightarrow> i < length xs \<Longrightarrow> f (xs ! i) = Inr (ys ! i)"
proof (induction xs arbitrary: ys i)
  case Nil
  then show ?case by simp
next
  case (Cons x xs)
  then show ?case by (cases i) (auto simp: result_simps)
qed

lemma traverse_append:
  "traverse f (xs @ ys) = bindR (traverse f xs) (\<lambda>us. bindR (traverse f ys) (\<lambda>vs. Inr (us @ vs)))"
proof (induction xs)
  case Nil
  then show ?case by (cases "traverse f ys") auto
next
  case (Cons x xs)
  then show ?case
    by (cases "f x"; cases "traverse f xs"; cases "traverse f ys") auto
qed

lemma foldR_append: "foldR f (xs @ ys) s = bindR (foldR f xs s) (foldR f ys)"
proof (induction xs arbitrary: s)
  case Nil
  then show ?case by simp
next
  case (Cons x xs)
  then show ?case by (cases "f x s") auto
qed

lemma foldR_invariant:
  assumes "foldR f xs s = Inr t" and "P s"
    and "\<And>x s t. x \<in> set xs \<Longrightarrow> P s \<Longrightarrow> f x s = Inr t \<Longrightarrow> P t"
  shows "P t"
  using assms by (induction xs arbitrary: s) (auto simp: result_simps)

text \<open>A call that may also panic: an outer \<open>None\<close> is a failed \<open>expect\<close>.\<close>

definition bindP :: "('e + 'a) option \<Rightarrow> ('a \<Rightarrow> ('e + 'b) option) \<Rightarrow> ('e + 'b) option" where
  "bindP m f = (case m of None \<Rightarrow> None | Some (Inl e) \<Rightarrow> Some (Inl e) | Some (Inr x) \<Rightarrow> f x)"

fun traverseP :: "('a \<Rightarrow> ('e + 'b) option) \<Rightarrow> 'a list \<Rightarrow> ('e + 'b list) option" where
  "traverseP f [] = Some (Inr [])"
| "traverseP f (x # xs) = bindP (f x) (\<lambda>y. bindP (traverseP f xs) (\<lambda>ys. Some (Inr (y # ys))))"

lemma bindP_simps [simp]: "bindP None f = None" "bindP (Some (Inl e)) f = Some (Inl e)" "bindP (Some (Inr x)) f = f x"
  by (simp_all add: bindP_def)

lemma bindP_cong [fundef_cong]:
  "m = m' \<Longrightarrow> (\<And>x. m' = Some (Inr x) \<Longrightarrow> f x = g x) \<Longrightarrow> bindP m f = bindP m' g"
  by (auto simp: bindP_def split: option.splits sum.splits)

lemma bindP_Inr [result_simps]: "bindP m f = Some (Inr y) \<longleftrightarrow> (\<exists>x. m = Some (Inr x) \<and> f x = Some (Inr y))"
  by (auto simp: bindP_def split: option.splits sum.splits)

lemma bindP_None: "bindP m f = None \<longleftrightarrow> m = None \<or> (\<exists>x. m = Some (Inr x) \<and> f x = None)"
  by (auto simp: bindP_def split: option.splits sum.splits)

lemma Some_bindR: "Some (bindR m f) = bindP (Some m) (\<lambda>x. Some (f x))"
  by (cases m) auto

lemma traverseP_None: "traverseP f xs = None \<Longrightarrow> \<exists>x\<in>set xs. f x = None"
  by (induction xs) (auto simp: bindP_None)

lemma traverseP_Inr: "traverseP f xs = Some (Inr ys) \<longleftrightarrow> list_all2 (\<lambda>x y. f x = Some (Inr y)) xs ys"
  by (induction xs arbitrary: ys) (auto simp: result_simps list_all2_Cons1)

section \<open>Machine integers\<close>

text \<open>
  The source's \<open>u32\<close>, \<open>u64\<close>, \<open>i64\<close>, \<open>u128\<close> and \<open>i128\<close> values are integers with their range
  as a predicate. A checked operation returns \<open>None\<close> out of range; an unchecked \<open>i128\<close>
  operation wraps, as the release build does.
\<close>

definition in_u16 :: "int \<Rightarrow> bool" where
  "in_u16 x \<longleftrightarrow> 0 \<le> x \<and> x < 2 ^ 16"

definition in_u32 :: "int \<Rightarrow> bool" where
  "in_u32 x \<longleftrightarrow> 0 \<le> x \<and> x < 2 ^ 32"

definition in_u64 :: "int \<Rightarrow> bool" where
  "in_u64 x \<longleftrightarrow> 0 \<le> x \<and> x < 2 ^ 64"

definition in_i64 :: "int \<Rightarrow> bool" where
  "in_i64 x \<longleftrightarrow> - (2 ^ 63) \<le> x \<and> x < 2 ^ 63"

definition in_i128 :: "int \<Rightarrow> bool" where
  "in_i128 x \<longleftrightarrow> - (2 ^ 127) \<le> x \<and> x < 2 ^ 127"

definition checked_u64 :: "int \<Rightarrow> int option" where
  "checked_u64 x = (if in_u64 x then Some x else None)"

definition checked_u32 :: "int \<Rightarrow> int option" where
  "checked_u32 x = (if in_u32 x then Some x else None)"

definition checked_i64 :: "int \<Rightarrow> int option" where
  "checked_i64 x = (if in_i64 x then Some x else None)"

definition checked_i128 :: "int \<Rightarrow> int option" where
  "checked_i128 x = (if in_i128 x then Some x else None)"

definition wrap_i64 :: "int \<Rightarrow> int" where
  "wrap_i64 x = (x + 2 ^ 63) mod 2 ^ 64 - 2 ^ 63"

definition wrap_i128 :: "int \<Rightarrow> int" where
  "wrap_i128 x = (x + 2 ^ 127) mod 2 ^ 128 - 2 ^ 127"

lemmas int_ranges = in_u16_def in_u32_def in_u64_def in_i64_def in_i128_def

lemma checked_Some [result_simps]:
  "checked_u64 x = Some y \<longleftrightarrow> in_u64 x \<and> y = x"
  "checked_u32 x = Some y \<longleftrightarrow> in_u32 x \<and> y = x"
  "checked_i64 x = Some y \<longleftrightarrow> in_i64 x \<and> y = x"
  "checked_i128 x = Some y \<longleftrightarrow> in_i128 x \<and> y = x"
  by (auto simp: checked_u64_def checked_u32_def checked_i64_def checked_i128_def)

lemma checked_in_range [simp]:
  "in_u64 x \<Longrightarrow> checked_u64 x = Some x"
  "in_u32 x \<Longrightarrow> checked_u32 x = Some x"
  "in_i64 x \<Longrightarrow> checked_i64 x = Some x"
  "in_i128 x \<Longrightarrow> checked_i128 x = Some x"
  by (simp_all add: checked_u64_def checked_u32_def checked_i64_def checked_i128_def)

lemma wrap_i64_id [simp]: "in_i64 x \<Longrightarrow> wrap_i64 x = x"
  by (simp add: wrap_i64_def in_i64_def)

lemma wrap_i128_id [simp]: "in_i128 x \<Longrightarrow> wrap_i128 x = x"
  by (simp add: wrap_i128_def in_i128_def)

lemma wrap_i64_in: "in_i64 (wrap_i64 x)"
proof -
  have "0 \<le> (x + 2 ^ 63) mod (2 ^ 64 :: int)" "(x + 2 ^ 63) mod (2 ^ 64 :: int) < 2 ^ 64"
    by simp_all
  then show ?thesis by (simp add: wrap_i64_def in_i64_def)
qed

lemma in_i64_in_i128: "in_i64 x \<Longrightarrow> in_i128 x"
  by (simp add: int_ranges)

text \<open>Signed quotient and remainder truncate toward zero.\<close>

lemma sdiv_pos: "0 < (b::int) \<Longrightarrow> a sdiv b = (if 0 \<le> a then a div b else - ((- a) div b))"
  by (auto simp: signed_divide_int_def sgn_if)

lemma smod_pos: "0 < (b::int) \<Longrightarrow> a smod b = (if 0 \<le> a then a mod b else - ((- a) mod b))"
  by (cases "a = 0") (auto simp: signed_modulo_int_def sgn_if)

lemma sdiv_smod:
  assumes "0 < (b::int)"
  shows "a sdiv b * b + a smod b = a"
proof -
  have "(- a) div b * b + (- a) mod b = - a" by (rule div_mult_mod_eq)
  moreover have "a div b * b + a mod b = a" by (rule div_mult_mod_eq)
  moreover have "- ((- a) div b) * b = - ((- a) div b * b)" by simp
  ultimately show ?thesis
    unfolding sdiv_pos[OF assms] smod_pos[OF assms] by (cases "0 \<le> a"; simp only: if_True if_False simp_thms; linarith)
qed

lemma smod_abs_less: "0 < (b::int) \<Longrightarrow> \<bar>a smod b\<bar> < b"
  by (auto simp: smod_pos)

section \<open>Euclid's loop\<close>

text \<open>
  The loop both numeric modules of the source contain: replace the pair by the right value and
  the remainder until the right value is zero. \<open>%\<close> truncates, so on the non-negative values the
  callers pass it is the mathematical remainder.
\<close>

function euclid_loop :: "int \<Rightarrow> int \<Rightarrow> int" where
  "euclid_loop left right = (if right = 0 then left else euclid_loop right (left smod right))"
  by pat_completeness auto
termination
  by (relation "measure (\<lambda>(left, right). nat \<bar>right\<bar>)")
    (auto simp: signed_modulo_int_def abs_mult sgn_if)

declare euclid_loop.simps [simp del]

lemma euclid_loop_0 [simp]: "euclid_loop left 0 = left"
  by (subst euclid_loop.simps) simp

lemma euclid_loop_step: "right \<noteq> 0 \<Longrightarrow> euclid_loop left right = euclid_loop right (left smod right)"
  by (subst euclid_loop.simps) simp

lemma euclid_loop_gcd: "0 \<le> left \<Longrightarrow> 0 \<le> right \<Longrightarrow> euclid_loop left right = gcd left right"
proof (induction left right rule: euclid_loop.induct)
  case (1 left right)
  show ?case
  proof (cases "right = 0")
    case True
    with "1.prems" show ?thesis by simp
  next
    case False
    with "1.prems" have pos: "0 < right" by simp
    then have rem: "left smod right = left mod right"
      using "1.prems" by (simp add: smod_pos)
    have "euclid_loop right (left smod right) = gcd right (left smod right)"
      using False "1.prems" pos rem by (intro "1.IH") simp_all
    then show ?thesis
      using False rem by (simp add: euclid_loop_step gcd_red_int[symmetric])
  qed
qed

section \<open>Digit strings\<close>

text \<open>
  The decimal digits of a number, most significant first; a label pads them with zeros on the
  left to a width. Reading folds the digits from the left.
\<close>

fun dec_digits :: "nat \<Rightarrow> nat list" where
  "dec_digits n = (if n < 10 then [n] else dec_digits (n div 10) @ [n mod 10])"

declare dec_digits.simps [simp del]

definition pad_digits :: "nat \<Rightarrow> nat list \<Rightarrow> nat list" where
  "pad_digits w ds = replicate (w - length ds) 0 @ ds"

definition digits_value :: "nat list \<Rightarrow> nat" where
  "digits_value ds = foldl (\<lambda>acc d. acc * 10 + d) 0 ds"

lemma digits_value_Nil [simp]: "digits_value [] = 0"
  by (simp add: digits_value_def)

lemma digits_value_snoc [simp]: "digits_value (ds @ [d]) = digits_value ds * 10 + d"
  by (simp add: digits_value_def)

lemma digits_value_replicate [simp]: "digits_value (replicate k 0 @ ds) = digits_value ds"
  by (induction k) (simp_all add: digits_value_def)

lemma digits_value_dec [simp]: "digits_value (dec_digits n) = n"
proof (induction n rule: dec_digits.induct)
  case (1 n)
  show ?case
  proof (cases "n < 10")
    case True
    then show ?thesis by (subst dec_digits.simps) (simp add: digits_value_def)
  next
    case False
    with "1.IH" show ?thesis by (subst dec_digits.simps) simp
  qed
qed

lemma digits_value_pad [simp]: "digits_value (pad_digits w ds) = digits_value ds"
  by (simp add: pad_digits_def)

lemma dec_digits_small: "d \<in> set (dec_digits n) \<Longrightarrow> d < 10"
proof (induction n rule: dec_digits.induct)
  case (1 n)
  show ?case
  proof (cases "n < 10")
    case True
    with "1.prems" show ?thesis by (subst (asm) dec_digits.simps) simp
  next
    case False
    with "1.prems" have "d \<in> set (dec_digits (n div 10)) \<or> d = n mod 10"
      by (subst (asm) dec_digits.simps) auto
    with "1.IH"[OF False] show ?thesis by auto
  qed
qed

lemma pad_digits_small: "d \<in> set (pad_digits w ds) \<Longrightarrow> (\<And>e. e \<in> set ds \<Longrightarrow> e < 10) \<Longrightarrow> d < 10"
  by (auto simp: pad_digits_def)

lemma dec_digits_nonempty [simp]: "dec_digits n \<noteq> []"
  by (subst dec_digits.simps) simp

lemma length_pad_digits: "length (pad_digits w ds) = max w (length ds)"
  by (simp add: pad_digits_def)

lemma length_dec_digits_le: "n < 10 ^ k \<Longrightarrow> 0 < k \<Longrightarrow> length (dec_digits n) \<le> k"
proof (induction n arbitrary: k rule: dec_digits.induct)
  case (1 n)
  show ?case
  proof (cases "n < 10")
    case True
    with "1.prems" show ?thesis by (subst dec_digits.simps) simp
  next
    case False
    with "1.prems"(1) obtain j where j: "k = Suc j" "0 < j"
      by (cases k; cases "k - 1") auto
    with "1.prems"(1) have "n div 10 < 10 ^ j" by auto
    with "1.IH"[OF False, of j] False j show ?thesis by (subst dec_digits.simps) simp
  qed
qed

lemma length_dec_digits_mono: "m \<le> n \<Longrightarrow> length (dec_digits m) \<le> length (dec_digits n)"
proof (induction n arbitrary: m rule: dec_digits.induct)
  case (1 n)
  show ?case
  proof (cases "m < 10")
    case True
    have "length (dec_digits m) = 1" using True by (subst dec_digits.simps) simp
    moreover have "0 < length (dec_digits n)" by simp
    ultimately show ?thesis by linarith
  next
    case False
    then have "\<not> n < 10" using "1.prems" by simp
    with "1.IH"[of "m div 10"] "1.prems" have "length (dec_digits (m div 10)) \<le> length (dec_digits (n div 10))"
      by (simp add: div_le_mono)
    with False \<open>\<not> n < 10\<close> show ?thesis
      by (subst dec_digits.simps, subst (2) dec_digits.simps) simp
  qed
qed

text \<open>Digits as ASCII characters.\<close>

definition digit_char :: "nat \<Rightarrow> char" where
  "digit_char d = char_of (48 + d)"

definition is_digit :: "char \<Rightarrow> bool" where
  "is_digit c \<longleftrightarrow> 48 \<le> (of_char c :: nat) \<and> (of_char c :: nat) \<le> 57"

definition char_digit :: "char \<Rightarrow> nat" where
  "char_digit c = of_char c - 48"

lemma of_char_digit [simp]: "d < 10 \<Longrightarrow> (of_char (digit_char d) :: nat) = 48 + d"
  by (simp add: digit_char_def)

lemma is_digit_char [simp]: "d < 10 \<Longrightarrow> is_digit (digit_char d)"
  by (simp add: is_digit_def)

lemma char_digit_char [simp]: "d < 10 \<Longrightarrow> char_digit (digit_char d) = d"
  by (simp add: char_digit_def)

lemma digit_char_digit: "is_digit c \<Longrightarrow> digit_char (char_digit c) = c \<and> char_digit c < 10"
  by (auto simp: is_digit_def char_digit_def digit_char_def)

definition show_nat :: "nat \<Rightarrow> string" where
  "show_nat n = map digit_char (dec_digits n)"

definition show_padded :: "nat \<Rightarrow> nat \<Rightarrow> string" where
  "show_padded w n = map digit_char (pad_digits w (dec_digits n))"

definition show_unsigned :: "int \<Rightarrow> string" where
  "show_unsigned n = show_nat (nat n)"

definition show_signed :: "int \<Rightarrow> string" where
  "show_signed n = (if n < 0 then CHR ''-'' # show_nat (nat (- n)) else show_nat (nat n))"

lemma show_padded_digits: "c \<in> set (show_padded w n) \<Longrightarrow> is_digit c"
  by (auto simp: show_padded_def dest!: pad_digits_small intro: dec_digits_small)

lemma show_padded_value: "digits_value (map char_digit (show_padded w n)) = n"
proof -
  have "map (char_digit \<circ> digit_char) (pad_digits w (dec_digits n)) = pad_digits w (dec_digits n)"
    by (rule map_idI) (auto dest!: pad_digits_small intro: dec_digits_small)
  then show ?thesis by (simp add: show_padded_def)
qed

lemma length_show_padded: "length (show_padded w n) = max w (length (dec_digits n))"
  by (simp add: show_padded_def length_pad_digits)

section \<open>White space\<close>

text \<open>
  A name is blank when trimming Unicode white space leaves nothing. On UTF-8 bytes: the ASCII
  white space, U+0085 and U+00A0, U+1680, U+2000 to U+200A, U+2028, U+2029, U+202F, U+205F and
  U+3000.
\<close>

definition blank1 :: "nat \<Rightarrow> bool" where
  "blank1 b \<longleftrightarrow> (9 \<le> b \<and> b \<le> 13) \<or> b = 32"

definition blank2 :: "nat \<Rightarrow> nat \<Rightarrow> bool" where
  "blank2 a b \<longleftrightarrow> a = 194 \<and> (b = 133 \<or> b = 160)"

definition blank3 :: "nat \<Rightarrow> nat \<Rightarrow> nat \<Rightarrow> bool" where
  "blank3 a b c \<longleftrightarrow> (a = 225 \<and> b = 154 \<and> c = 128)
     \<or> (a = 226 \<and> b = 128 \<and> ((128 \<le> c \<and> c \<le> 138) \<or> c = 168 \<or> c = 169 \<or> c = 175))
     \<or> (a = 226 \<and> b = 129 \<and> c = 159) \<or> (a = 227 \<and> b = 128 \<and> c = 128)"

fun is_blank :: "string \<Rightarrow> bool" where
  "is_blank [] = True"
| "is_blank [a] = blank1 (of_char a)"
| "is_blank [a, b] = ((blank1 (of_char a) \<and> blank1 (of_char b)) \<or> blank2 (of_char a) (of_char b))"
| "is_blank (a # b # c # rest) =
     ((blank1 (of_char a) \<and> is_blank (b # c # rest))
      \<or> (blank2 (of_char a) (of_char b) \<and> is_blank (c # rest))
      \<or> (blank3 (of_char a) (of_char b) (of_char c) \<and> is_blank rest))"

text \<open>Whether trimming leaves a string as it is: no white space at either end.\<close>

fun starts_blank :: "string \<Rightarrow> bool" where
  "starts_blank (a # b # c # rest) =
     (blank1 (of_char a) \<or> blank2 (of_char a) (of_char b) \<or> blank3 (of_char a) (of_char b) (of_char c))"
| "starts_blank [a, b] = (blank1 (of_char a) \<or> blank2 (of_char a) (of_char b))"
| "starts_blank [a] = blank1 (of_char a)"
| "starts_blank [] = False"

fun ends_blank_rev :: "string \<Rightarrow> bool" where
  "ends_blank_rev (c # b # a # rest) =
     (blank1 (of_char c) \<or> blank2 (of_char b) (of_char c) \<or> blank3 (of_char a) (of_char b) (of_char c))"
| "ends_blank_rev [c, b] = (blank1 (of_char c) \<or> blank2 (of_char b) (of_char c))"
| "ends_blank_rev [c] = blank1 (of_char c)"
| "ends_blank_rev [] = False"

definition is_trimmed :: "string \<Rightarrow> bool" where
  "is_trimmed s \<longleftrightarrow> \<not> starts_blank s \<and> \<not> ends_blank_rev (rev s)"

text \<open>
  Characters a label may not contain: the control characters U+0000 to U+001F and U+007F to U+009F,
  on UTF-8 bytes.
\<close>

fun has_control :: "string \<Rightarrow> bool" where
  "has_control (a # b # rest) =
     (of_char a < (32 :: nat) \<or> of_char a = (127 :: nat)
      \<or> of_char a = (194 :: nat) \<and> 128 \<le> (of_char b :: nat) \<and> (of_char b :: nat) < 160 \<or> has_control (b # rest))"
| "has_control [a] = (of_char a < (32 :: nat) \<or> of_char a = (127 :: nat))"
| "has_control [] = False"

end
