(* ===== verification/Ordered.thy ===== *)
theory Ordered
  imports Prelude
begin

text \<open>
  The ordered collections of the source. A \<open>BTreeMap\<close> is the list of its entries in increasing
  key order and a \<open>BTreeSet\<close> the increasing list of its elements, so that iteration is the list
  itself; \<open>map_of\<close> and \<open>set\<close> are what a lookup sees. \<open>om_ok\<close> and \<open>os_ok\<close> are the order.
\<close>

section \<open>Sets\<close>

definition os_ok :: "'a::linorder list \<Rightarrow> bool" where
  "os_ok s \<longleftrightarrow> sorted_wrt (<) s"

fun os_insert :: "'a::linorder \<Rightarrow> 'a list \<Rightarrow> 'a list" where
  "os_insert x [] = [x]"
| "os_insert x (y # ys) = (if x < y then x # y # ys else if x = y then y # ys else y # os_insert x ys)"

definition os_remove :: "'a::linorder \<Rightarrow> 'a list \<Rightarrow> 'a list" where
  "os_remove x s = filter (\<lambda>y. y \<noteq> x) s"

definition os_extend :: "'a::linorder list \<Rightarrow> 'a list \<Rightarrow> 'a list" where
  "os_extend s xs = fold os_insert xs s"

definition os_of :: "'a::linorder list \<Rightarrow> 'a list" where
  "os_of xs = os_extend [] xs"

definition os_disjoint :: "'a list \<Rightarrow> 'a list \<Rightarrow> bool" where
  "os_disjoint s t \<longleftrightarrow> list_all (\<lambda>x. \<not> List.member t x) s"

lemma os_ok_simps [simp]:
  "os_ok []" "os_ok (x # s) \<longleftrightarrow> os_ok s \<and> (\<forall>y\<in>set s. x < y)"
  by (auto simp: os_ok_def)

lemma set_os_insert [simp]: "set (os_insert x s) = insert x (set s)"
  by (induction s) auto

lemma os_ok_insert [simp]: "os_ok s \<Longrightarrow> os_ok (os_insert x s)"
  by (induction s) auto

lemma set_os_remove [simp]: "set (os_remove x s) = set s - {x}"
  by (auto simp: os_remove_def)

lemma os_ok_filter [simp]: "os_ok s \<Longrightarrow> os_ok (filter P s)"
  by (induction s) auto

lemma os_ok_remove [simp]: "os_ok s \<Longrightarrow> os_ok (os_remove x s)"
  by (simp add: os_remove_def)

lemma set_os_extend [simp]: "set (os_extend s xs) = set s \<union> set xs"
  unfolding os_extend_def by (induction xs arbitrary: s) auto

lemma os_ok_extend [simp]: "os_ok s \<Longrightarrow> os_ok (os_extend s xs)"
  unfolding os_extend_def by (induction xs arbitrary: s) auto

lemma os_of_simps [simp]: "set (os_of xs) = set xs" "os_ok (os_of xs)"
  by (simp_all add: os_of_def)

lemma os_disjoint_iff: "os_disjoint s t \<longleftrightarrow> set s \<inter> set t = {}"
  by (auto simp: os_disjoint_def list_all_iff List.member_iff)

lemma os_distinct: "os_ok s \<Longrightarrow> distinct s"
  by (induction s) auto

lemma os_length: "os_ok s \<Longrightarrow> length s = card (set s)"
  by (simp add: os_distinct distinct_card)

lemma os_ext: "os_ok s \<Longrightarrow> os_ok t \<Longrightarrow> set s = set t \<Longrightarrow> s = t"
  unfolding os_ok_def strict_sorted_iff using sorted_distinct_set_unique by blast

section \<open>Maps\<close>

definition om_ok :: "('k::linorder \<times> 'v) list \<Rightarrow> bool" where
  "om_ok m \<longleftrightarrow> os_ok (map fst m)"

fun om_insert :: "'k::linorder \<Rightarrow> 'v \<Rightarrow> ('k \<times> 'v) list \<Rightarrow> ('k \<times> 'v) list" where
  "om_insert k v [] = [(k, v)]"
| "om_insert k v ((k', v') # m) =
     (if k < k' then (k, v) # (k', v') # m else if k = k' then (k, v) # m else (k', v') # om_insert k v m)"

definition om_remove :: "'k::linorder \<Rightarrow> ('k \<times> 'v) list \<Rightarrow> ('k \<times> 'v) list" where
  "om_remove k m = filter (\<lambda>(k', _). k' \<noteq> k) m"

text \<open>The value at a present key, changed in place.\<close>

definition om_update :: "'k::linorder \<Rightarrow> ('v \<Rightarrow> 'v) \<Rightarrow> ('k \<times> 'v) list \<Rightarrow> ('k \<times> 'v) list" where
  "om_update k f m = map (\<lambda>(k', v). (k', if k' = k then f v else v)) m"

definition om_has :: "('k \<times> 'v) list \<Rightarrow> 'k \<Rightarrow> bool" where
  "om_has m k \<longleftrightarrow> map_of m k \<noteq> None"

lemma om_ok_simps [simp]:
  "om_ok []" "om_ok ((k, v) # m) \<longleftrightarrow> om_ok m \<and> (\<forall>x\<in>fst ` set m. k < x)"
  by (auto simp: om_ok_def)

lemma om_insert_keys [simp]: "fst ` set (om_insert k v m) = insert k (fst ` set m)"
  by (induction k v m rule: om_insert.induct) (simp_all add: insert_commute)

lemma om_ok_insert [simp]: "om_ok m \<Longrightarrow> om_ok (om_insert k v m)"
proof (induction k v m rule: om_insert.induct)
  case (2 k v k' v' m)
  then show ?case by (cases k k' rule: linorder_cases) (auto simp del: om_insert_keys simp: om_insert_keys dest: less_trans)
qed simp

lemma map_of_om_insert [simp]: "om_ok m \<Longrightarrow> map_of (om_insert k v m) = (map_of m)(k \<mapsto> v)"
proof (induction m)
  case (Cons e m)
  obtain k' v' where e: "e = (k', v')" by (cases e)
  have "k < k' \<Longrightarrow> map_of m k = None" using Cons.prems e by (auto simp: map_of_eq_None_iff)
  then show ?case using Cons e by (auto intro: fun_upd_twist)
qed simp

lemma om_ok_filter [simp]: "om_ok m \<Longrightarrow> om_ok (filter P m)"
  by (induction m) auto

lemma om_ok_remove [simp]: "om_ok m \<Longrightarrow> om_ok (om_remove k m)"
  by (simp add: om_remove_def)

lemma map_of_om_remove [simp]: "map_of (om_remove k m) = (map_of m)(k := None)"
  unfolding om_remove_def by (induction m) auto

lemma om_update_keys [simp]: "map fst (om_update k f m) = map fst m"
  by (induction m) (auto simp: om_update_def)

lemma om_ok_update [simp]: "om_ok (om_update k f m) \<longleftrightarrow> om_ok m"
  by (simp add: om_ok_def)

lemma om_update_lookup [simp]:
  "map_of (om_update k f m) k' = (if k' = k then map_option f (map_of m k) else map_of m k')"
  by (induction m) (auto simp: om_update_def)

lemma map_of_filter_key: "map_of (filter (\<lambda>(k, _). P k) m) k = (if P k then map_of m k else None)"
  by (induction m) auto

lemma om_distinct: "om_ok m \<Longrightarrow> distinct (map fst m)"
  by (simp add: om_ok_def os_distinct)

lemma om_has_iff: "om_has m k \<longleftrightarrow> k \<in> fst ` set m"
  by (simp add: om_has_def map_of_eq_None_iff)

lemma om_has_dom: "om_has m k \<longleftrightarrow> k \<in> dom (map_of m)"
  by (auto simp: om_has_def)

lemma om_keys_dom: "fst ` set m = dom (map_of m)"
  by (rule dom_map_of_conv_image_fst[symmetric])

lemma om_update_dom [simp]: "dom (map_of (om_update k f m)) = dom (map_of m)"
  unfolding om_keys_dom[symmetric] by (induction m) (auto simp: om_update_def)

lemma om_entry: "om_ok m \<Longrightarrow> (k, v) \<in> set m \<longleftrightarrow> map_of m k = Some v"
  by (simp add: om_distinct)

lemma om_ext: "om_ok m \<Longrightarrow> om_ok n \<Longrightarrow> map_of m = map_of n \<Longrightarrow> m = n"
proof -
  assume m: "om_ok m" and n: "om_ok n" and eq: "map_of m = map_of n"
  have entries: "map (\<lambda>k. (k, the (map_of m k))) (map fst m) = m" if "distinct (map fst m)" for m :: "('a \<times> 'b) list"
    using that unfolding map_map by (intro map_idI) auto
  have "set (map fst m) = set (map fst n)" using eq by (simp add: om_keys_dom)
  then have "map fst m = map fst n" using m n by (auto simp: om_ok_def intro: os_ext)
  then show "m = n" using entries[OF om_distinct[OF m]] entries[OF om_distinct[OF n]] eq by simp
qed

section \<open>Paths\<close>

text \<open>A path that leaves \<open>V\<close> does so through the border: what a worklist search rests on.\<close>

lemma leaves_closed:
  assumes "(n, t) \<in> r\<^sup>*" "n \<in> V" "t \<notin> V" "r `` V \<subseteq> V \<union> P"
  shows "\<exists>p\<in>P. (p, t) \<in> r\<^sup>*"
  using assms(1-3)
proof (induction rule: converse_rtrancl_induct)
  case (step y z)
  then have "z \<in> V \<union> P" using assms(4) by blast
  with step show ?case by blast
qed simp

end
