(* ===== verification/CoreError.thy ===== *)
theory CoreError
  imports Ordered
begin

text \<open>
  \<open>superi-core/src/error.rs\<close>: the shared error value every subsystem returns, its two
  classifications with their permanent string codes, and the context frames a caller appends.
  A field map is an ordered map; rendering walks it in key order, as the source's ordered map
  does. The retained lower-level error is kept by its rendered text.
\<close>

section \<open>Codes\<close>

text \<open>
  A closed classification and its permanent codes: looking a code up gives back the value, and
  nothing else has a code. Every code table of the crate promises these two laws.
\<close>

locale code_table =
  fixes to_code :: "'a \<Rightarrow> string"
    and of_code :: "string \<Rightarrow> 'a option"
    and every :: "'a list"
  assumes of_to_code: "of_code (to_code x) = Some x"
    and to_of_code: "of_code s = Some x \<Longrightarrow> to_code x = s"
    and every_complete: "x \<in> set every"
begin

lemma code_injective:
  assumes "to_code x = to_code y"
  shows "x = y"
proof -
  have "Some x = of_code (to_code y)" unfolding assms[symmetric] by (rule of_to_code[symmetric])
  also have "\<dots> = Some y" by (rule of_to_code)
  finally show ?thesis by simp
qed

lemma of_code_iff: "of_code s = Some x \<longleftrightarrow> to_code x = s"
  using of_to_code to_of_code by blast

lemma codes_known: "(of_code s \<noteq> None) = (s \<in> to_code ` set every)"
proof -
  have "(of_code s \<noteq> None) = (\<exists>x. to_code x = s)" by (simp add: of_code_iff)
  with every_complete show ?thesis by auto
qed

end

datatype error_category = InvalidInput | NotFound | Conflict | Unsupported | PermissionDenied
  | ResourceExhausted | Unavailable | Timeout | Cancelled | CorruptData | Internal

definition error_category_all :: "error_category list" where
  "error_category_all = [InvalidInput, NotFound, Conflict, Unsupported, PermissionDenied,
     ResourceExhausted, Unavailable, Timeout, Cancelled, CorruptData, Internal]"

fun error_category_code :: "error_category \<Rightarrow> string" where
  "error_category_code InvalidInput = ''invalid_input''"
| "error_category_code NotFound = ''not_found''"
| "error_category_code Conflict = ''conflict''"
| "error_category_code Unsupported = ''unsupported''"
| "error_category_code PermissionDenied = ''permission_denied''"
| "error_category_code ResourceExhausted = ''resource_exhausted''"
| "error_category_code Unavailable = ''unavailable''"
| "error_category_code Timeout = ''timeout''"
| "error_category_code Cancelled = ''cancelled''"
| "error_category_code CorruptData = ''corrupt_data''"
| "error_category_code Internal = ''internal''"

definition error_category_from_code :: "string \<Rightarrow> error_category option" where
  "error_category_from_code code =
     (if code = ''invalid_input'' then Some InvalidInput
      else if code = ''not_found'' then Some NotFound
      else if code = ''conflict'' then Some Conflict
      else if code = ''unsupported'' then Some Unsupported
      else if code = ''permission_denied'' then Some PermissionDenied
      else if code = ''resource_exhausted'' then Some ResourceExhausted
      else if code = ''unavailable'' then Some Unavailable
      else if code = ''timeout'' then Some Timeout
      else if code = ''cancelled'' then Some Cancelled
      else if code = ''corrupt_data'' then Some CorruptData
      else if code = ''internal'' then Some Internal
      else None)"

datatype recoverability = Retryable | Degraded | UserCorrectable | Terminal

definition recoverability_all :: "recoverability list" where
  "recoverability_all = [Retryable, Degraded, UserCorrectable, Terminal]"

fun recoverability_code :: "recoverability \<Rightarrow> string" where
  "recoverability_code Retryable = ''retryable''"
| "recoverability_code Degraded = ''degraded''"
| "recoverability_code UserCorrectable = ''user_correctable''"
| "recoverability_code Terminal = ''terminal''"

definition recoverability_from_code :: "string \<Rightarrow> recoverability option" where
  "recoverability_from_code code =
     (if code = ''retryable'' then Some Retryable
      else if code = ''degraded'' then Some Degraded
      else if code = ''user_correctable'' then Some UserCorrectable
      else if code = ''terminal'' then Some Terminal
      else None)"

interpretation category_codes: code_table error_category_code error_category_from_code error_category_all
proof unfold_locales
  show "error_category_from_code (error_category_code x) = Some x" for x
    by (cases x) (simp_all add: error_category_from_code_def)
  show "error_category_from_code s = Some x \<Longrightarrow> error_category_code x = s" for s x
    by (auto simp: error_category_from_code_def split: if_splits)
  show "x \<in> set error_category_all" for x
    by (cases x) (simp_all add: error_category_all_def)
qed

interpretation recoverability_codes: code_table recoverability_code recoverability_from_code recoverability_all
proof unfold_locales
  show "recoverability_from_code (recoverability_code x) = Some x" for x
    by (cases x) (simp_all add: recoverability_from_code_def)
  show "recoverability_from_code s = Some x \<Longrightarrow> recoverability_code x = s" for s x
    by (auto simp: recoverability_from_code_def split: if_splits)
  show "x \<in> set recoverability_all" for x
    by (cases x) (simp_all add: recoverability_all_def)
qed

section \<open>Context frames\<close>

record error_context =
  ctx_component :: string
  ctx_operation :: string
  ctx_fields :: "(string \<times> string) list"

definition ctx_new :: "string \<Rightarrow> string \<Rightarrow> error_context" where
  "ctx_new component operation =
     \<lparr>ctx_component = component, ctx_operation = operation, ctx_fields = []\<rparr>"

text \<open>Inserting returns the value the key had before.\<close>

definition ctx_insert_field :: "error_context \<Rightarrow> string \<Rightarrow> string \<Rightarrow> error_context \<times> string option" where
  "ctx_insert_field c key value =
     (c\<lparr>ctx_fields := om_insert key value (ctx_fields c)\<rparr>, map_of (ctx_fields c) key)"

definition ctx_with_field :: "error_context \<Rightarrow> string \<Rightarrow> string \<Rightarrow> error_context" where
  "ctx_with_field c key value = fst (ctx_insert_field c key value)"

definition ctx_field :: "error_context \<Rightarrow> string \<Rightarrow> string option" where
  "ctx_field c key = map_of (ctx_fields c) key"

fun join :: "string \<Rightarrow> string list \<Rightarrow> string" where
  "join sep [] = []"
| "join sep [x] = x"
| "join sep (x # y # ys) = x @ sep @ join sep (y # ys)"

definition ctx_display :: "error_context \<Rightarrow> string" where
  "ctx_display c =
     ctx_component c @ ''.'' @ ctx_operation c @
     (if ctx_fields c \<noteq> []
      then ''('' @ join '', '' (map (\<lambda>(key, value). key @ ''='' @ value) (ctx_fields c)) @ '')''
      else [])"

section \<open>Errors\<close>

record error_value =
  err_category :: error_category
  err_recoverability :: recoverability
  err_message :: string
  err_contexts :: "error_context list"
  err_source :: "string option"

type_synonym 'a result = "error_value + 'a"

definition err_new :: "error_category \<Rightarrow> recoverability \<Rightarrow> string \<Rightarrow> error_value" where
  "err_new category recoverability message =
     \<lparr>err_category = category, err_recoverability = recoverability, err_message = message,
      err_contexts = [], err_source = None\<rparr>"

definition err_with_source :: "error_category \<Rightarrow> recoverability \<Rightarrow> string \<Rightarrow> string \<Rightarrow> error_value" where
  "err_with_source category recoverability message source =
     \<lparr>err_category = category, err_recoverability = recoverability, err_message = message,
      err_contexts = [], err_source = Some source\<rparr>"

definition err_push_context :: "error_value \<Rightarrow> error_context \<Rightarrow> error_value" where
  "err_push_context e c = e\<lparr>err_contexts := err_contexts e @ [c]\<rparr>"

definition err_with_context :: "error_value \<Rightarrow> error_context \<Rightarrow> error_value" where
  "err_with_context e c = err_push_context e c"

definition err_display :: "error_value \<Rightarrow> string" where
  "err_display e =
     err_message e @
     (if err_contexts e \<noteq> []
      then '' ['' @ join '' -> '' (map ctx_display (rev (err_contexts e))) @ '']''
      else [])"

definition with_error_context :: "'a result \<Rightarrow> error_context \<Rightarrow> 'a result" where
  "with_error_context r c = map_errR (\<lambda>e. err_push_context e c) r"

lemma with_error_context_Inr [result_simps]: "with_error_context r c = Inr x \<longleftrightarrow> r = Inr x"
  by (simp add: with_error_context_def map_errR_Inr)

lemma with_error_context_simps [simp]:
  "with_error_context (Inr x) c = Inr x"
  "with_error_context (Inl e) c = Inl (err_push_context e c)"
  by (simp_all add: with_error_context_def)

text \<open>
  Adding context changes no classification, message or source, and the innermost frame stays
  first.
\<close>

lemma err_push_context_frame [simp]:
  "err_category (err_push_context e c) = err_category e"
  "err_recoverability (err_push_context e c) = err_recoverability e"
  "err_message (err_push_context e c) = err_message e"
  "err_source (err_push_context e c) = err_source e"
  "err_contexts (err_push_context e c) = err_contexts e @ [c]"
  by (simp_all add: err_push_context_def)

lemma err_new_fields [simp]:
  "err_category (err_new k r m) = k"
  "err_recoverability (err_new k r m) = r"
  "err_message (err_new k r m) = m"
  "err_contexts (err_new k r m) = []"
  by (simp_all add: err_new_def)

end
