(* ===== verification/CoreTime.thy ===== *)
theory CoreTime
  imports CoreError
begin

text \<open>
  \<open>superi-core/src/time.rs\<close>: exact time. A timebase is a reduced positive rational count of
  units per second, a coordinate is a signed 64-bit value in a timebase, and durations and
  half-open ranges are built from both. Equality and order of coordinates compare physical
  time. The stored fields are integers with the source's ranges as predicates (\<open>tb_ok\<close>,
  \<open>rt_ok\<close>, \<open>du_ok\<close>, \<open>tr_ok\<close>); the unchecked 128-bit products are written with their wrap.
  \<open>secs\<close> is the abstract value: the rational number of seconds.
\<close>

section \<open>Errors of the module\<close>

definition invalid_time :: "string \<Rightarrow> string \<Rightarrow> error_value" where
  "invalid_time operation message =
     err_with_context (err_new InvalidInput UserCorrectable message)
       (ctx_new ''superi-core.time'' operation)"

definition overflow_time :: "string \<Rightarrow> error_value" where
  "overflow_time operation =
     invalid_time operation ''time value exceeds the supported coordinate range''"

lemma invalid_time_cong [cong]: "invalid_time operation message = invalid_time operation message"
  by (rule refl)

section \<open>Timebases and frame rates\<close>

record timebase =
  tb_numerator :: int
  tb_denominator :: int

definition tb_from_reduced :: "int \<Rightarrow> int \<Rightarrow> timebase" where
  "tb_from_reduced numerator denominator = \<lparr>tb_numerator = numerator, tb_denominator = denominator\<rparr>"

definition tb_seconds :: timebase where
  "tb_seconds = tb_from_reduced 1 1"

definition tb_milliseconds :: timebase where
  "tb_milliseconds = tb_from_reduced 1000 1"

definition tb_microseconds :: timebase where
  "tb_microseconds = tb_from_reduced 1000000 1"

definition tb_nanoseconds :: timebase where
  "tb_nanoseconds = tb_from_reduced 1000000000 1"

text \<open>The two private loops of the module, on \<open>u32\<close> and on \<open>i128\<close>.\<close>

definition greatest_common_divisor :: "int \<Rightarrow> int \<Rightarrow> int" where
  "greatest_common_divisor left right = euclid_loop left right"

definition greatest_common_divisor_i128 :: "int \<Rightarrow> int \<Rightarrow> int" where
  "greatest_common_divisor_i128 left right = euclid_loop left right"

definition tb_new :: "int \<Rightarrow> int \<Rightarrow> timebase result" where
  "tb_new numerator denominator =
     (if numerator = 0
      then Inl (invalid_time ''create_timebase'' ''timebase numerator must be greater than zero'')
      else if denominator = 0
      then Inl (invalid_time ''create_timebase'' ''timebase denominator must be greater than zero'')
      else let divisor = greatest_common_divisor numerator denominator
           in Inr (tb_from_reduced (numerator div divisor) (denominator div divisor)))"

definition tb_integer :: "int \<Rightarrow> timebase result" where
  "tb_integer units_per_second = tb_new units_per_second 1"

definition tb_is_integral :: "timebase \<Rightarrow> bool" where
  "tb_is_integral tb \<longleftrightarrow> tb_denominator tb = 1"

definition tb_display :: "timebase \<Rightarrow> string" where
  "tb_display tb =
     (if tb_denominator tb = 1 then show_unsigned (tb_numerator tb) @ '' units/s''
      else show_unsigned (tb_numerator tb) @ ''/'' @ show_unsigned (tb_denominator tb) @ '' units/s'')"

record frame_rate =
  fr_timebase :: timebase

definition fr_of :: "int \<Rightarrow> int \<Rightarrow> frame_rate" where
  "fr_of numerator denominator = \<lparr>fr_timebase = tb_from_reduced numerator denominator\<rparr>"

definition fps_24 :: frame_rate where "fps_24 = fr_of 24 1"
definition fps_25 :: frame_rate where "fps_25 = fr_of 25 1"
definition fps_30 :: frame_rate where "fps_30 = fr_of 30 1"
definition fps_48 :: frame_rate where "fps_48 = fr_of 48 1"
definition fps_50 :: frame_rate where "fps_50 = fr_of 50 1"
definition fps_60 :: frame_rate where "fps_60 = fr_of 60 1"
definition fps_24000_1001 :: frame_rate where "fps_24000_1001 = fr_of 24000 1001"
definition fps_30000_1001 :: frame_rate where "fps_30000_1001 = fr_of 30000 1001"
definition fps_60000_1001 :: frame_rate where "fps_60000_1001 = fr_of 60000 1001"

definition fr_new :: "int \<Rightarrow> int \<Rightarrow> frame_rate result" where
  "fr_new numerator denominator = mapR (\<lambda>tb. \<lparr>fr_timebase = tb\<rparr>) (tb_new numerator denominator)"

definition fr_numerator :: "frame_rate \<Rightarrow> int" where
  "fr_numerator r = tb_numerator (fr_timebase r)"

definition fr_denominator :: "frame_rate \<Rightarrow> int" where
  "fr_denominator r = tb_denominator (fr_timebase r)"

text \<open>The result is cast to \<open>u32\<close>.\<close>

definition fr_nominal_fps :: "frame_rate \<Rightarrow> int" where
  "fr_nominal_fps r =
     ((fr_numerator r + fr_denominator r div 2) div fr_denominator r) mod 2 ^ 32"

definition fr_display :: "frame_rate \<Rightarrow> string" where
  "fr_display r =
     (if fr_denominator r = 1 then show_unsigned (fr_numerator r) @ '' fps''
      else show_unsigned (fr_numerator r) @ ''/'' @ show_unsigned (fr_denominator r) @ '' fps'')"

section \<open>Coordinates\<close>

datatype time_rounding = RoundExact | RoundFloor | RoundCeil | RoundTowardZero | RoundNearestTiesEven

record rational_time =
  rt_value :: int
  rt_timebase :: timebase

record sample_time =
  st_sample :: int
  st_sample_rate :: int

record duration =
  du_value :: int
  du_timebase :: timebase

record time_range =
  tr_start :: rational_time
  tr_duration :: duration

definition rt_new :: "int \<Rightarrow> timebase \<Rightarrow> rational_time" where
  "rt_new value tb = \<lparr>rt_value = value, rt_timebase = tb\<rparr>"

definition rt_zero :: "timebase \<Rightarrow> rational_time" where
  "rt_zero tb = rt_new 0 tb"

definition rt_from_frames :: "int \<Rightarrow> frame_rate \<Rightarrow> rational_time" where
  "rt_from_frames frame r = rt_new frame (fr_timebase r)"

definition rt_is_zero :: "rational_time \<Rightarrow> bool" where
  "rt_is_zero t \<longleftrightarrow> rt_value t = 0"

definition rt_is_negative :: "rational_time \<Rightarrow> bool" where
  "rt_is_negative t \<longleftrightarrow> rt_value t < 0"

definition rt_display :: "rational_time \<Rightarrow> string" where
  "rt_display t = show_signed (rt_value t) @ '' @ '' @ tb_display (rt_timebase t)"

text \<open>Division under an explicit rounding rule; the rounded value must fit an \<open>i64\<close>.\<close>

definition divide_time :: "int \<Rightarrow> int \<Rightarrow> time_rounding \<Rightarrow> string \<Rightarrow> int result" where
  "divide_time numerator denominator rounding operation =
     (let quotient = numerator sdiv denominator;
          remainder = numerator smod denominator
      in bindR
           (case rounding of
              RoundExact \<Rightarrow>
                (if remainder \<noteq> 0
                 then Inl (invalid_time operation
                        ''time conversion is not exact at the requested timebase'')
                 else Inr quotient)
            | RoundFloor \<Rightarrow> Inr (if remainder < 0 then quotient - 1 else quotient)
            | RoundCeil \<Rightarrow> Inr (if remainder > 0 then quotient + 1 else quotient)
            | RoundTowardZero \<Rightarrow> Inr quotient
            | RoundNearestTiesEven \<Rightarrow>
                (let doubled_remainder = wrap_i128 (\<bar>remainder\<bar> * 2)
                 in Inr (if doubled_remainder < denominator then quotient
                         else if doubled_remainder > denominator then quotient + sgn numerator
                         else if quotient smod 2 = 0 then quotient
                         else quotient + sgn numerator)))
           (\<lambda>rounded. ok_or (checked_i64 rounded) (overflow_time operation)))"

definition rt_checked_rescale :: "rational_time \<Rightarrow> timebase \<Rightarrow> time_rounding \<Rightarrow> rational_time result" where
  "rt_checked_rescale t target rounding =
     (if rt_timebase t = target then Inr t
      else let numerator = wrap_i128 (wrap_i128 (rt_value t * tb_denominator (rt_timebase t))
                             * tb_numerator target);
               denominator = wrap_i128 (tb_numerator (rt_timebase t) * tb_denominator target)
           in bindR (divide_time numerator denominator rounding ''rescale_time'')
                (\<lambda>value. Inr (rt_new value target)))"

definition rt_to_frames :: "rational_time \<Rightarrow> frame_rate \<Rightarrow> time_rounding \<Rightarrow> int result" where
  "rt_to_frames t r rounding = mapR rt_value (rt_checked_rescale t (fr_timebase r) rounding)"

datatype binary_time_operation = AddTime | SubtractTime

fun binary_time_operation_name :: "binary_time_operation \<Rightarrow> string" where
  "binary_time_operation_name AddTime = ''add_time''"
| "binary_time_operation_name SubtractTime = ''subtract_time''"

definition rt_units_at :: "rational_time \<Rightarrow> timebase \<Rightarrow> (int \<times> int) result" where
  "rt_units_at t target =
     bindR (ok_or (Option.bind (checked_i128 (rt_value t * tb_denominator (rt_timebase t)))
                     (\<lambda>value. checked_i128 (value * tb_numerator target)))
              (overflow_time ''convert_time'')) (\<lambda>numerator.
     bindR (ok_or (checked_i128 (tb_numerator (rt_timebase t) * tb_denominator target))
              (overflow_time ''convert_time'')) (\<lambda>denominator.
     let common_divisor = greatest_common_divisor_i128 \<bar>numerator\<bar> denominator
     in Inr (numerator sdiv common_divisor, denominator sdiv common_divisor)))"

definition rt_checked_binary_at ::
  "rational_time \<Rightarrow> rational_time \<Rightarrow> timebase \<Rightarrow> time_rounding \<Rightarrow> binary_time_operation
     \<Rightarrow> rational_time result" where
  "rt_checked_binary_at t other result_timebase rounding operation =
     (let overflow = overflow_time (binary_time_operation_name operation) in
      bindR (rt_units_at t result_timebase) (\<lambda>(left_numerator, left_denominator).
      bindR (rt_units_at other result_timebase) (\<lambda>(right_numerator, right_denominator).
      let common_divisor = greatest_common_divisor_i128 left_denominator right_denominator;
          left_multiplier = right_denominator sdiv common_divisor;
          right_multiplier = left_denominator sdiv common_divisor in
      bindR (ok_or (checked_i128 (left_numerator * left_multiplier)) overflow) (\<lambda>left.
      bindR (ok_or (checked_i128 (right_numerator * right_multiplier)) overflow) (\<lambda>right.
      bindR (ok_or (case operation of
                      AddTime \<Rightarrow> checked_i128 (left + right)
                    | SubtractTime \<Rightarrow> checked_i128 (left - right)) overflow) (\<lambda>numerator.
      bindR (ok_or (checked_i128 (left_denominator * left_multiplier)) overflow) (\<lambda>denominator.
      bindR (divide_time numerator denominator rounding (binary_time_operation_name operation)) (\<lambda>value.
        Inr (rt_new value result_timebase)))))))))"

definition rt_checked_add_at ::
  "rational_time \<Rightarrow> rational_time \<Rightarrow> timebase \<Rightarrow> time_rounding \<Rightarrow> rational_time result" where
  "rt_checked_add_at t other result_timebase rounding =
     rt_checked_binary_at t other result_timebase rounding AddTime"

definition rt_checked_sub_at ::
  "rational_time \<Rightarrow> rational_time \<Rightarrow> timebase \<Rightarrow> time_rounding \<Rightarrow> rational_time result" where
  "rt_checked_sub_at t other result_timebase rounding =
     rt_checked_binary_at t other result_timebase rounding SubtractTime"

datatype ordering = Less | Equal | Greater

definition int_cmp :: "int \<Rightarrow> int \<Rightarrow> ordering" where
  "int_cmp a b = (if a < b then Less else if a = b then Equal else Greater)"

definition rt_compare :: "rational_time \<Rightarrow> rational_time \<Rightarrow> ordering" where
  "rt_compare t other =
     int_cmp (wrap_i128 (wrap_i128 (rt_value t * tb_denominator (rt_timebase t))
                * tb_numerator (rt_timebase other)))
             (wrap_i128 (wrap_i128 (rt_value other * tb_denominator (rt_timebase other))
                * tb_numerator (rt_timebase t)))"

text \<open>The comparison operators of \<open>PartialEq\<close> and \<open>PartialOrd\<close>.\<close>

definition rt_eq :: "rational_time \<Rightarrow> rational_time \<Rightarrow> bool" where
  "rt_eq t other \<longleftrightarrow> rt_compare t other = Equal"

definition rt_lt :: "rational_time \<Rightarrow> rational_time \<Rightarrow> bool" where
  "rt_lt t other \<longleftrightarrow> rt_compare t other = Less"

definition rt_le :: "rational_time \<Rightarrow> rational_time \<Rightarrow> bool" where
  "rt_le t other \<longleftrightarrow> rt_compare t other \<noteq> Greater"

section \<open>Sample positions\<close>

definition st_new :: "int \<Rightarrow> int \<Rightarrow> sample_time result" where
  "st_new sample sample_rate =
     (if sample_rate = 0
      then Inl (invalid_time ''create_sample_time'' ''sample rate must be greater than zero'')
      else Inr \<lparr>st_sample = sample, st_sample_rate = sample_rate\<rparr>)"

definition st_timebase :: "sample_time \<Rightarrow> timebase" where
  "st_timebase s = tb_from_reduced (st_sample_rate s) 1"

definition st_rational_time :: "sample_time \<Rightarrow> rational_time" where
  "st_rational_time s = rt_new (st_sample s) (st_timebase s)"

definition st_eq :: "sample_time \<Rightarrow> sample_time \<Rightarrow> bool" where
  "st_eq s other \<longleftrightarrow> rt_eq (st_rational_time s) (st_rational_time other)"

definition st_lt :: "sample_time \<Rightarrow> sample_time \<Rightarrow> bool" where
  "st_lt s other \<longleftrightarrow> rt_lt (st_rational_time s) (st_rational_time other)"

definition st_le :: "sample_time \<Rightarrow> sample_time \<Rightarrow> bool" where
  "st_le s other \<longleftrightarrow> rt_le (st_rational_time s) (st_rational_time other)"

definition st_checked_resample :: "sample_time \<Rightarrow> int \<Rightarrow> time_rounding \<Rightarrow> sample_time result" where
  "st_checked_resample s target_sample_rate rounding =
     bindR (tb_integer target_sample_rate) (\<lambda>target.
     bindR (rt_checked_rescale (st_rational_time s) target rounding) (\<lambda>rescaled.
       st_new (rt_value rescaled) target_sample_rate))"

section \<open>Durations\<close>

definition du_new :: "int \<Rightarrow> timebase \<Rightarrow> duration result" where
  "du_new value tb =
     (if value > 2 ^ 63 - 1 then Inl (overflow_time ''create_duration'')
      else Inr \<lparr>du_value = value, du_timebase = tb\<rparr>)"

definition du_zero :: "timebase \<Rightarrow> duration" where
  "du_zero tb = \<lparr>du_value = 0, du_timebase = tb\<rparr>"

definition du_from_frames :: "int \<Rightarrow> frame_rate \<Rightarrow> duration result" where
  "du_from_frames frame_count r = du_new frame_count (fr_timebase r)"

definition du_from_samples :: "int \<Rightarrow> int \<Rightarrow> duration result" where
  "du_from_samples sample_count sample_rate =
     bindR (tb_integer sample_rate) (\<lambda>tb. du_new sample_count tb)"

definition du_is_zero :: "duration \<Rightarrow> bool" where
  "du_is_zero d \<longleftrightarrow> du_value d = 0"

definition du_rational_time :: "duration \<Rightarrow> rational_time" where
  "du_rational_time d = rt_new (wrap_i64 (du_value d)) (du_timebase d)"

definition du_eq :: "duration \<Rightarrow> duration \<Rightarrow> bool" where
  "du_eq d other \<longleftrightarrow> rt_eq (du_rational_time d) (du_rational_time other)"

definition du_lt :: "duration \<Rightarrow> duration \<Rightarrow> bool" where
  "du_lt d other \<longleftrightarrow> rt_lt (du_rational_time d) (du_rational_time other)"

definition du_le :: "duration \<Rightarrow> duration \<Rightarrow> bool" where
  "du_le d other \<longleftrightarrow> rt_le (du_rational_time d) (du_rational_time other)"

definition du_checked_rescale :: "duration \<Rightarrow> timebase \<Rightarrow> time_rounding \<Rightarrow> duration result" where
  "du_checked_rescale d target rounding =
     bindR (rt_checked_rescale (du_rational_time d) target rounding) (\<lambda>converted.
     bindR (ok_or (checked_u64 (rt_value converted))
              (invalid_time ''rescale_duration'' ''duration became negative'')) (\<lambda>value.
       du_new value target))"

section \<open>Ranges\<close>

definition tr_new :: "rational_time \<Rightarrow> duration \<Rightarrow> time_range result" where
  "tr_new start dur =
     (if rt_timebase start \<noteq> du_timebase dur
      then Inl (invalid_time ''create_time_range''
             ''range start and duration must use the same timebase'')
      else bindR (ok_or (checked_i64 (rt_value start + wrap_i64 (du_value dur)))
                    (overflow_time ''create_time_range''))
             (\<lambda>_. Inr \<lparr>tr_start = start, tr_duration = dur\<rparr>))"

definition tr_from_start_end :: "rational_time \<Rightarrow> rational_time \<Rightarrow> time_range result" where
  "tr_from_start_end start end_exclusive =
     (if rt_timebase start \<noteq> rt_timebase end_exclusive
      then Inl (invalid_time ''create_time_range_from_end''
             ''range endpoints must use the same timebase'')
      else bindR (ok_or (checked_i64 (rt_value end_exclusive - rt_value start))
                    (overflow_time ''create_time_range_from_end'')) (\<lambda>value.
           bindR (ok_or (checked_u64 value)
                    (invalid_time ''create_time_range_from_end''
                       ''range end must not occur before its start'')) (\<lambda>value.
           bindR (du_new value (rt_timebase start)) (\<lambda>dur. tr_new start dur))))"

definition tr_timebase :: "time_range \<Rightarrow> timebase" where
  "tr_timebase r = rt_timebase (tr_start r)"

definition tr_is_empty :: "time_range \<Rightarrow> bool" where
  "tr_is_empty r \<longleftrightarrow> du_is_zero (tr_duration r)"

definition tr_end_exclusive :: "time_range \<Rightarrow> rational_time result" where
  "tr_end_exclusive r =
     bindR (ok_or (checked_i64 (rt_value (tr_start r) + wrap_i64 (du_value (tr_duration r))))
              (overflow_time ''time_range_end'')) (\<lambda>value.
       Inr (rt_new value (tr_timebase r)))"

definition tr_eq :: "time_range \<Rightarrow> time_range \<Rightarrow> bool" where
  "tr_eq r other \<longleftrightarrow> rt_eq (tr_start r) (tr_start other) \<and> du_eq (tr_duration r) (tr_duration other)"

definition tr_contains :: "time_range \<Rightarrow> rational_time \<Rightarrow> bool result" where
  "tr_contains r time =
     bindR (tr_end_exclusive r) (\<lambda>end_time.
       Inr (rt_le (tr_start r) time \<and> rt_lt time end_time))"

definition tr_intersects :: "time_range \<Rightarrow> time_range \<Rightarrow> bool result" where
  "tr_intersects r other =
     (if tr_is_empty r \<or> tr_is_empty other then Inr False
      else bindR (tr_end_exclusive r) (\<lambda>self_end.
           bindR (tr_end_exclusive other) (\<lambda>other_end.
             Inr (rt_lt (tr_start r) other_end \<and> rt_lt (tr_start other) self_end))))"

definition tr_checked_rescale :: "time_range \<Rightarrow> timebase \<Rightarrow> time_rounding \<Rightarrow> time_range result" where
  "tr_checked_rescale r target rounding =
     bindR (rt_checked_rescale (tr_start r) target rounding) (\<lambda>start.
     bindR (tr_end_exclusive r) (\<lambda>end_time.
     bindR (rt_checked_rescale end_time target rounding) (\<lambda>end_time.
       tr_from_start_end start end_time)))"

end
