(* ===== verification/CoreTimeLaws.thy ===== *)
theory CoreTimeLaws
  imports CoreTime Complex_Main
begin

text \<open>
  The laws of exact time: the abstraction of a coordinate to rational seconds, the 128-bit
  bounds, comparison, rounding, rescaling, addition and subtraction, and ranges. The locale
  \<open>physical_time\<close> is the contract of a type whose comparison operators are those of its
  physical time; coordinates, sample positions and durations interpret it.
\<close>

section \<open>Well-formed values\<close>

definition tb_ok :: "timebase \<Rightarrow> bool" where
  "tb_ok tb \<longleftrightarrow> 0 < tb_numerator tb \<and> tb_numerator tb < 2 ^ 32
     \<and> 0 < tb_denominator tb \<and> tb_denominator tb < 2 ^ 32
     \<and> coprime (tb_numerator tb) (tb_denominator tb)"

definition rt_ok :: "rational_time \<Rightarrow> bool" where
  "rt_ok t \<longleftrightarrow> in_i64 (rt_value t) \<and> tb_ok (rt_timebase t)"

definition st_ok :: "sample_time \<Rightarrow> bool" where
  "st_ok s \<longleftrightarrow> in_i64 (st_sample s) \<and> 0 < st_sample_rate s \<and> st_sample_rate s < 2 ^ 32"

definition du_ok :: "duration \<Rightarrow> bool" where
  "du_ok d \<longleftrightarrow> 0 \<le> du_value d \<and> du_value d < 2 ^ 63 \<and> tb_ok (du_timebase d)"

definition tr_ok :: "time_range \<Rightarrow> bool" where
  "tr_ok r \<longleftrightarrow> rt_ok (tr_start r) \<and> du_ok (tr_duration r)
     \<and> du_timebase (tr_duration r) = rt_timebase (tr_start r)
     \<and> in_i64 (rt_value (tr_start r) + du_value (tr_duration r))"

definition rate :: "timebase \<Rightarrow> rat" where
  "rate tb = of_int (tb_numerator tb) / of_int (tb_denominator tb)"

definition secs :: "rational_time \<Rightarrow> rat" where
  "secs t = of_int (rt_value t) / rate (rt_timebase t)"

lemma rt_new_simps [simp]:
  "rt_value (rt_new v tb) = v" "rt_timebase (rt_new v tb) = tb"
  by (simp_all add: rt_new_def)

lemma rt_new_eta [simp]: "rt_new (rt_value t) (rt_timebase t) = t"
  by (simp add: rt_new_def)

lemma rt_new_eq_iff [simp]: "rt_new v tb = rt_new w tb' \<longleftrightarrow> v = w \<and> tb = tb'"
  by (simp add: rt_new_def)

lemma rt_zero_simps [simp]: "rt_value (rt_zero tb) = 0" "rt_timebase (rt_zero tb) = tb"
  by (simp_all add: rt_zero_def)

lemma rate_pos: "tb_ok tb \<Longrightarrow> 0 < rate tb"
  by (simp add: rate_def tb_ok_def)

lemma secs_rate: "tb_ok (rt_timebase t) \<Longrightarrow> secs t * rate (rt_timebase t) = of_int (rt_value t)"
  using rate_pos[of "rt_timebase t"] by (simp add: secs_def)

lemma tb_ok_from_reduced_1 [simp]: "0 < n \<Longrightarrow> n < 2 ^ 32 \<Longrightarrow> tb_ok (tb_from_reduced n 1)"
  by (simp add: tb_ok_def tb_from_reduced_def)

lemma div_factor_le: "0 < g \<Longrightarrow> 0 \<le> n \<Longrightarrow> g dvd n \<Longrightarrow> n div g \<le> (n::int)"
  using mult_left_mono[of 1 g "n div g"] by (simp add: pos_imp_zdiv_nonneg_iff)

lemma tb_new_ok:
  assumes "in_u32 n" "in_u32 d" and new: "tb_new n d = Inr tb"
  shows "tb_ok tb \<and> rate tb = of_int n / of_int d"
proof -
  let ?g = "gcd n d"
  from new have pos: "0 < n" "0 < d" using assms(1,2)
    by (auto simp: tb_new_def int_ranges split: if_splits)
  then have tb: "tb = tb_from_reduced (n div ?g) (d div ?g)"
    using new by (simp add: tb_new_def greatest_common_divisor_def euclid_loop_gcd Let_def)
  have g: "0 < ?g" "?g dvd n" "?g dvd d" using pos by simp_all
  have "n div ?g \<le> n" "d div ?g \<le> d" using pos g by (simp_all add: div_factor_le)
  moreover have "0 < n div ?g" "0 < d div ?g"
    using pos g by (simp_all add: pos_imp_zdiv_pos_iff zdvd_imp_le)
  moreover have "coprime (n div ?g) (d div ?g)" using pos by (simp add: div_gcd_coprime)
  ultimately have "tb_ok tb" using assms(1,2) tb
    by (simp add: tb_ok_def tb_from_reduced_def int_ranges)
  moreover have "rate tb = of_int n / of_int d"
  proof -
    have "of_int n = (of_int (n div ?g) * of_int ?g :: rat)"
      "of_int d = (of_int (d div ?g) * of_int ?g :: rat)"
      using g by (simp_all flip: of_int_mult)
    then show ?thesis using tb g(1) by (simp add: rate_def tb_from_reduced_def)
  qed
  ultimately show ?thesis ..
qed

lemma tb_integer_ok: "0 < n \<Longrightarrow> n < 2 ^ 32 \<Longrightarrow> tb_integer n = Inr (tb_from_reduced n 1)"
  by (simp add: tb_integer_def tb_new_def greatest_common_divisor_def euclid_loop_gcd Let_def)

section \<open>Bounds of the 128-bit products\<close>

lemma product_bound:
  fixes v d n :: int
  assumes "in_i64 v" "0 < d" "d < 2 ^ 32" "0 < n" "n < 2 ^ 32"
  shows "in_i128 (v * d)" "in_i128 (v * d * n)"
proof -
  have v: "\<bar>v\<bar> \<le> 2 ^ 63" using assms(1) by (auto simp: in_i64_def)
  have vd: "\<bar>v * d\<bar> \<le> 2 ^ 63 * (2 ^ 32 - 1)"
    unfolding abs_mult by (rule mult_mono) (use v assms in auto)
  have vdn: "\<bar>v * d * n\<bar> \<le> 2 ^ 63 * (2 ^ 32 - 1) * (2 ^ 32 - 1)"
    unfolding abs_mult[of "v * d"] by (rule mult_mono) (use vd assms in auto)
  from vd show "in_i128 (v * d)" by (auto simp: in_i128_def abs_le_iff)
  from vdn show "in_i128 (v * d * n)" by (auto simp: in_i128_def abs_le_iff)
qed

lemma product_bound_u32:
  fixes n d :: int
  assumes "0 < n" "n < 2 ^ 32" "0 < d" "d < 2 ^ 32"
  shows "in_i128 (n * d)" "n * d \<le> 2 ^ 64" "0 < n * d"
proof -
  have "n * d \<le> 2 ^ 32 * 2 ^ 32" by (rule mult_mono) (use assms in auto)
  moreover show "0 < n * d" using assms by simp
  ultimately show "in_i128 (n * d)" "n * d \<le> 2 ^ 64" by (simp_all add: in_i128_def)
qed

lemma compare_products:
  assumes "rt_ok t" "tb_ok tb"
  shows "wrap_i128 (wrap_i128 (rt_value t * tb_denominator (rt_timebase t)) * tb_numerator tb)
       = rt_value t * tb_denominator (rt_timebase t) * tb_numerator tb"
  using assms product_bound[of "rt_value t" "tb_denominator (rt_timebase t)" "tb_numerator tb"]
  by (simp add: rt_ok_def tb_ok_def)

section \<open>Comparison\<close>

lemma frac_cross:
  fixes a b n m :: int
  assumes "0 < n" "0 < m"
  shows "(of_int a / of_int n :: rat) < of_int b / of_int m \<longleftrightarrow> a * m < b * n"
    and "(of_int a / of_int n :: rat) = of_int b / of_int m \<longleftrightarrow> a * m = b * n"
proof -
  have pos: "0 < (of_int n :: rat)" "0 < (of_int m :: rat)" using assms by simp_all
  have "(of_int a / of_int n :: rat) < of_int b / of_int m \<longleftrightarrow> of_int a * of_int m < (of_int b * of_int n :: rat)"
    using pos by (simp add: field_simps)
  then show "(of_int a / of_int n :: rat) < of_int b / of_int m \<longleftrightarrow> a * m < b * n"
    by (simp only: of_int_mult[symmetric] of_int_less_iff)
  have "(of_int a / of_int n :: rat) = of_int b / of_int m \<longleftrightarrow> of_int a * of_int m = (of_int b * of_int n :: rat)"
    using pos by (simp add: field_simps)
  then show "(of_int a / of_int n :: rat) = of_int b / of_int m \<longleftrightarrow> a * m = b * n"
    by (simp only: of_int_mult[symmetric] of_int_eq_iff)
qed

lemma secs_fraction:
  "secs t = of_int (rt_value t * tb_denominator (rt_timebase t)) / of_int (tb_numerator (rt_timebase t))"
  by (simp add: secs_def rate_def)

lemma secs_cross:
  assumes "tb_ok (rt_timebase a)" "tb_ok (rt_timebase b)"
  shows "secs a < secs b \<longleftrightarrow>
      rt_value a * tb_denominator (rt_timebase a) * tb_numerator (rt_timebase b)
      < rt_value b * tb_denominator (rt_timebase b) * tb_numerator (rt_timebase a)"
    and "secs a = secs b \<longleftrightarrow>
      rt_value a * tb_denominator (rt_timebase a) * tb_numerator (rt_timebase b)
      = rt_value b * tb_denominator (rt_timebase b) * tb_numerator (rt_timebase a)"
  unfolding secs_fraction using assms by (simp_all only: tb_ok_def frac_cross)

lemma rt_compare_secs:
  assumes "rt_ok a" "rt_ok b"
  shows "rt_compare a b = (if secs a < secs b then Less else if secs a = secs b then Equal else Greater)"
proof -
  have ok: "tb_ok (rt_timebase a)" "tb_ok (rt_timebase b)" using assms by (simp_all add: rt_ok_def)
  show ?thesis
    unfolding rt_compare_def compare_products[OF assms(1) ok(2)] compare_products[OF assms(2) ok(1)]
      int_cmp_def secs_cross[OF ok] by simp
qed

text \<open>
  A type whose comparison operators compare physical time: the operators are then a total
  preorder with the laws every caller relies on.
\<close>

locale physical_time =
  fixes ok :: "'a \<Rightarrow> bool"
    and seconds :: "'a \<Rightarrow> rat"
    and eq :: "'a \<Rightarrow> 'a \<Rightarrow> bool"
    and lt :: "'a \<Rightarrow> 'a \<Rightarrow> bool"
    and le :: "'a \<Rightarrow> 'a \<Rightarrow> bool"
  assumes eq_seconds: "ok a \<Longrightarrow> ok b \<Longrightarrow> eq a b \<longleftrightarrow> seconds a = seconds b"
    and lt_seconds: "ok a \<Longrightarrow> ok b \<Longrightarrow> lt a b \<longleftrightarrow> seconds a < seconds b"
    and le_seconds: "ok a \<Longrightarrow> ok b \<Longrightarrow> le a b \<longleftrightarrow> seconds a \<le> seconds b"
begin

lemma le_refl: "ok a \<Longrightarrow> le a a"
  by (simp add: le_seconds)

lemma le_trans: "ok a \<Longrightarrow> ok b \<Longrightarrow> ok c \<Longrightarrow> le a b \<Longrightarrow> le b c \<Longrightarrow> le a c"
  by (auto simp: le_seconds)

lemma le_antisym: "ok a \<Longrightarrow> ok b \<Longrightarrow> le a b \<Longrightarrow> le b a \<Longrightarrow> eq a b"
  by (simp add: le_seconds eq_seconds)

lemma lt_not_le: "ok a \<Longrightarrow> ok b \<Longrightarrow> lt a b \<longleftrightarrow> \<not> le b a"
  by (simp add: lt_seconds le_seconds not_le)

lemma trichotomy: "ok a \<Longrightarrow> ok b \<Longrightarrow> lt a b \<or> eq a b \<or> lt b a"
  by (auto simp: lt_seconds eq_seconds)

lemma eq_equivalence: "ok a \<Longrightarrow> ok b \<Longrightarrow> ok c \<Longrightarrow> eq a a \<and> (eq a b \<longrightarrow> eq b a) \<and> (eq a b \<and> eq b c \<longrightarrow> eq a c)"
  by (simp add: eq_seconds)

end

interpretation rt_time: physical_time rt_ok secs rt_eq rt_lt rt_le
  by unfold_locales (auto simp: rt_eq_def rt_lt_def rt_le_def rt_compare_secs)

lemma st_rational_ok: "st_ok s \<Longrightarrow> rt_ok (st_rational_time s)"
  by (simp add: st_ok_def rt_ok_def st_rational_time_def st_timebase_def)

interpretation st_time: physical_time st_ok "\<lambda>s. secs (st_rational_time s)" st_eq st_lt st_le
  by unfold_locales
    (simp_all add: st_eq_def st_lt_def st_le_def st_rational_ok rt_time.eq_seconds
      rt_time.lt_seconds rt_time.le_seconds)

lemma du_rational_simps:
  "du_ok d \<Longrightarrow> rt_value (du_rational_time d) = du_value d"
  "rt_timebase (du_rational_time d) = du_timebase d"
  by (simp_all add: du_rational_time_def du_ok_def in_i64_def)

lemma du_rational_ok: "du_ok d \<Longrightarrow> rt_ok (du_rational_time d)"
  by (simp add: rt_ok_def du_rational_simps) (simp add: du_ok_def in_i64_def)

interpretation du_time: physical_time du_ok "\<lambda>d. secs (du_rational_time d)" du_eq du_lt du_le
  by unfold_locales
    (simp_all add: du_eq_def du_lt_def du_le_def du_rational_ok rt_time.eq_seconds
      rt_time.lt_seconds rt_time.le_seconds)

text \<open>In one timebase the operators compare the stored values.\<close>

lemma rt_same_timebase:
  assumes "rt_ok a" "rt_ok b" "rt_timebase a = rt_timebase b"
  shows "rt_eq a b \<longleftrightarrow> rt_value a = rt_value b"
    and "rt_lt a b \<longleftrightarrow> rt_value a < rt_value b"
    and "rt_le a b \<longleftrightarrow> rt_value a \<le> rt_value b"
proof -
  have "0 < rate (rt_timebase b)" using assms(2) by (simp add: rate_pos rt_ok_def)
  then show "rt_eq a b \<longleftrightarrow> rt_value a = rt_value b" "rt_lt a b \<longleftrightarrow> rt_value a < rt_value b"
    "rt_le a b \<longleftrightarrow> rt_value a \<le> rt_value b"
    using assms
    by (simp_all add: rt_time.eq_seconds rt_time.lt_seconds rt_time.le_seconds secs_def
        divide_strict_right_mono divide_right_mono divide_less_cancel divide_le_cancel)
qed

lemma du_same_timebase:
  assumes "du_ok a" "du_ok b" "du_timebase a = du_timebase b"
  shows "du_eq a b \<longleftrightarrow> du_value a = du_value b"
    and "du_lt a b \<longleftrightarrow> du_value a < du_value b"
    and "du_le a b \<longleftrightarrow> du_value a \<le> du_value b"
  using assms
  by (simp_all add: du_eq_def du_lt_def du_le_def rt_same_timebase du_rational_ok du_rational_simps)

section \<open>Rounding\<close>

text \<open>What each rounding rule promises of the integer it picks for a rational.\<close>

definition rounds_to :: "time_rounding \<Rightarrow> rat \<Rightarrow> int \<Rightarrow> bool" where
  "rounds_to rounding x q =
     (case rounding of
        RoundExact \<Rightarrow> of_int q = x
      | RoundFloor \<Rightarrow> q = \<lfloor>x\<rfloor>
      | RoundCeil \<Rightarrow> q = \<lceil>x\<rceil>
      | RoundTowardZero \<Rightarrow> q = (if 0 \<le> x then \<lfloor>x\<rfloor> else \<lceil>x\<rceil>)
      | RoundNearestTiesEven \<Rightarrow> \<bar>2 * (x - of_int q)\<bar> \<le> 1 \<and> (\<bar>2 * (x - of_int q)\<bar> = 1 \<longrightarrow> even q))"

definition nearest_even :: "int \<Rightarrow> int \<Rightarrow> int \<Rightarrow> bool" where
  "nearest_even n d q \<longleftrightarrow> \<bar>2 * (n - q * d)\<bar> \<le> d \<and> (\<bar>2 * (n - q * d)\<bar> = d \<longrightarrow> even q)"

lemma nearest_even_unique:
  assumes "0 < d" "nearest_even n d p" "nearest_even n d q"
  shows "p = q"
proof (rule ccontr)
  assume "p \<noteq> q"
  have "\<bar>2 * ((p - q) * d)\<bar> \<le> 2 * d"
    using assms(2,3) unfolding nearest_even_def by (auto simp: algebra_simps abs_le_iff)
  then have "\<bar>p - q\<bar> * d \<le> 1 * d" using assms(1) by (simp add: abs_mult)
  then have "\<bar>p - q\<bar> \<le> 1" using assms(1) by (simp only: mult_le_cancel_right)
  with \<open>p \<noteq> q\<close> have "p = q + 1 \<or> q = p + 1" by linarith
  then show False
    using assms unfolding nearest_even_def by (auto simp: algebra_simps abs_if split: if_splits)
qed

lemma rounds_to_nearest:
  assumes "0 < d"
  shows "rounds_to RoundNearestTiesEven (of_int n / of_int d) q \<longleftrightarrow> nearest_even n d q"
proof -
  have d: "0 < (of_int d :: rat)" using assms by simp
  have "2 * (of_int n / of_int d - of_int q) = (of_int (2 * (n - q * d)) / of_int d :: rat)"
    using d by (simp add: field_simps)
  then have "\<bar>2 * (of_int n / of_int d - of_int q)\<bar> = (of_int \<bar>2 * (n - q * d)\<bar> / of_int d :: rat)"
    using d by simp
  then show ?thesis
    unfolding rounds_to_def nearest_even_def using d
    by (auto simp: divide_le_eq_1 divide_eq_1_iff simp del: of_int_mult of_int_diff of_int_abs)
qed

lemma sdiv_smod_sign:
  assumes "0 < (d::int)"
  shows "0 \<le> n \<Longrightarrow> 0 \<le> n smod d" "n \<le> 0 \<Longrightarrow> n smod d \<le> 0"
  using assms by (auto simp: smod_pos)

lemma floor_sdiv:
  assumes "0 < (d::int)"
  shows "\<lfloor>of_int n / of_int d :: rat\<rfloor> = (if n smod d < 0 then n sdiv d - 1 else n sdiv d)"
proof -
  have eq: "n sdiv d * d + n smod d = n" by (rule sdiv_smod[OF assms])
  have lt: "\<bar>n smod d\<bar> < d" by (rule smod_abs_less[OF assms])
  have "n div d = (if n smod d < 0 then n sdiv d - 1 else n sdiv d)"
  proof (cases "n smod d < 0")
    case True
    have "n div d = n sdiv d - 1"
      by (rule int_div_pos_eq[of _ _ _ "n smod d + d"]) (use eq lt True in \<open>auto simp: algebra_simps\<close>)
    with True show ?thesis by simp
  next
    case False
    have "n div d = n sdiv d"
      by (rule int_div_pos_eq[of _ _ _ "n smod d"]) (use eq lt False in \<open>auto simp: algebra_simps\<close>)
    with False show ?thesis by simp
  qed
  then show ?thesis by (simp add: floor_divide_of_int_eq)
qed

lemma smod_minus_pos: "0 < (d::int) \<Longrightarrow> (- n) smod d = - (n smod d)"
  by (auto simp: smod_pos)

lemma sdiv_minus_pos: "0 < (d::int) \<Longrightarrow> (- n) sdiv d = - (n sdiv d)"
  by (auto simp: sdiv_pos)

lemma ceiling_sdiv:
  assumes "0 < (d::int)"
  shows "\<lceil>of_int n / of_int d :: rat\<rceil> = (if n smod d > 0 then n sdiv d + 1 else n sdiv d)"
  using floor_sdiv[OF assms, of "- n"]
  by (simp add: ceiling_def smod_minus_pos[OF assms] sdiv_minus_pos[OF assms])

lemma divide_time_nearest:
  assumes "0 < d" "d \<le> 2 ^ 126"
  shows "divide_time n d RoundNearestTiesEven operation = Inr q
     \<longleftrightarrow> in_i64 q \<and> nearest_even n d q"
proof -
  let ?q = "n sdiv d" and ?r = "n smod d"
  have eq: "?q * d + ?r = n" by (rule sdiv_smod[OF assms(1)])
  have lt: "\<bar>?r\<bar> < d" by (rule smod_abs_less[OF assms(1)])
  then have "in_i128 (\<bar>?r\<bar> * 2)" using assms(2) by (simp add: in_i128_def)
  then have w: "wrap_i128 (\<bar>?r\<bar> * 2) = \<bar>?r\<bar> * 2" by simp
  define c where "c = (if \<bar>?r\<bar> * 2 < d then ?q else if \<bar>?r\<bar> * 2 > d then ?q + sgn n
    else if ?q smod 2 = 0 then ?q else ?q + sgn n)"
  have run: "divide_time n d RoundNearestTiesEven operation = Inr q \<longleftrightarrow> in_i64 c \<and> q = c"
    unfolding c_def by (auto simp: divide_time_def Let_def w result_simps)
  have even_iff: "?q smod 2 = 0 \<longleftrightarrow> even ?q" by (simp add: smod_pos flip: even_iff_mod_2_eq_zero)
  have sign: "0 < ?r \<Longrightarrow> sgn n = 1" "?r < 0 \<Longrightarrow> sgn n = - 1"
    using sdiv_smod_sign[OF assms(1), of n] by (cases n "0 :: int" rule: linorder_cases; simp)+
  have diff: "n - ?q * d = ?r" "n - (?q + 1) * d = ?r - d" "n - (?q - 1) * d = ?r + d"
    using eq by (simp_all add: algebra_simps)
  have "nearest_even n d c"
  proof (cases "\<bar>?r\<bar> * 2 < d \<or> \<bar>?r\<bar> * 2 = d \<and> even ?q")
    case True
    then have "c = ?q" by (auto simp: c_def even_iff)
    with True diff(1) show ?thesis by (auto simp: nearest_even_def abs_mult)
  next
    case False
    then have big: "d \<le> \<bar>?r\<bar> * 2" and odd: "\<bar>?r\<bar> * 2 = d \<Longrightarrow> odd ?q" and c: "c = ?q + sgn n"
      by (auto simp: c_def even_iff)
    from big assms(1) consider "0 < ?r" | "?r < 0" by linarith
    then show ?thesis
    proof cases
      case 1
      with c sign have "c = ?q + 1" by simp
      with 1 big odd lt diff(2) show ?thesis by (auto simp: nearest_even_def abs_if)
    next
      case 2
      with c sign have "c = ?q - 1" by simp
      with 2 big odd lt diff(3) show ?thesis by (auto simp: nearest_even_def abs_if)
    qed
  qed
  then show ?thesis unfolding run using nearest_even_unique[OF assms(1)] by blast
qed

lemma rounds_to_exact:
  assumes "0 < d"
  shows "rounds_to RoundExact (of_int n / of_int d) q \<longleftrightarrow> n smod d = 0 \<and> q = n sdiv d"
proof -
  have "rounds_to RoundExact (of_int n / of_int d) q \<longleftrightarrow> q * d = n"
    using assms by (simp add: rounds_to_def field_simps flip: of_int_mult)
  also have "\<dots> \<longleftrightarrow> n smod d = 0 \<and> q = n sdiv d"
  proof
    assume "q * d = n"
    then have "n smod d = (q - n sdiv d) * d" using sdiv_smod[OF assms, of n] by (simp add: algebra_simps)
    moreover from this have "\<bar>q - n sdiv d\<bar> * d < 1 * d"
      using smod_abs_less[OF assms, of n] assms by (simp add: abs_mult)
    then have "\<bar>q - n sdiv d\<bar> < 1" using assms by (simp only: mult_less_cancel_right_pos)
    ultimately show "n smod d = 0 \<and> q = n sdiv d" by simp
  qed (use sdiv_smod[OF assms, of n] in simp)
  finally show ?thesis .
qed

lemma divide_time_spec:
  assumes "0 < d" "rounding = RoundNearestTiesEven \<Longrightarrow> d \<le> 2 ^ 126"
  shows "divide_time n d rounding operation = Inr q
     \<longleftrightarrow> in_i64 q \<and> rounds_to rounding (of_int n / of_int d) q"
proof (cases rounding)
  case RoundExact
  show ?thesis unfolding RoundExact rounds_to_exact[OF assms(1)]
    by (auto simp: divide_time_def Let_def result_simps)
next
  case RoundFloor
  then show ?thesis
    by (auto simp: divide_time_def Let_def result_simps rounds_to_def floor_sdiv[OF assms(1)])
next
  case RoundCeil
  then show ?thesis
    by (auto simp: divide_time_def Let_def result_simps rounds_to_def ceiling_sdiv[OF assms(1)])
next
  case RoundTowardZero
  have "(0 \<le> (of_int n / of_int d :: rat)) = (0 \<le> n)"
    using assms(1) by (simp add: zero_le_divide_iff)
  then show ?thesis unfolding RoundTowardZero
    using sdiv_smod_sign[OF assms(1), of n]
    by (auto simp: divide_time_def Let_def result_simps rounds_to_def
        floor_sdiv[OF assms(1)] ceiling_sdiv[OF assms(1)])
next
  case RoundNearestTiesEven
  then show ?thesis
    using assms by (simp add: divide_time_nearest rounds_to_nearest)
qed

section \<open>Rescaling\<close>

lemma divide_time_in_i64: "divide_time n d rounding operation = Inr q \<Longrightarrow> in_i64 q"
  by (auto simp: divide_time_def Let_def result_simps)

lemma secs_target:
  assumes "tb_ok (rt_timebase t)" "tb_ok target"
  shows "secs t * rate target
     = of_int (rt_value t * tb_denominator (rt_timebase t) * tb_numerator target)
       / of_int (tb_numerator (rt_timebase t) * tb_denominator target)"
  using assms by (simp add: secs_def rate_def tb_ok_def)

lemma rescale_spec:
  assumes "rt_ok t" "tb_ok target" "rt_timebase t \<noteq> target"
  shows "rt_checked_rescale t target rounding = Inr t'
     \<longleftrightarrow> rt_timebase t' = target \<and> in_i64 (rt_value t')
        \<and> rounds_to rounding (secs t * rate target) (rt_value t')"
proof -
  let ?n = "rt_value t * tb_denominator (rt_timebase t) * tb_numerator target"
  let ?d = "tb_numerator (rt_timebase t) * tb_denominator target"
  have src: "tb_ok (rt_timebase t)" using assms(1) by (simp add: rt_ok_def)
  have d: "0 < ?d" "?d \<le> 2 ^ 64" "wrap_i128 ?d = ?d"
    using product_bound_u32[of "tb_numerator (rt_timebase t)" "tb_denominator target"] src assms(2)
    by (simp_all add: tb_ok_def)
  from d(2) have d126: "?d \<le> 2 ^ 126" by simp
  have "rt_checked_rescale t target rounding = Inr t' \<longleftrightarrow>
     (\<exists>q. divide_time ?n ?d rounding ''rescale_time'' = Inr q \<and> t' = rt_new q target)"
    unfolding rt_checked_rescale_def compare_products[OF assms(1,2)] d(3)
    using assms(3) by (auto simp: Let_def result_simps)
  also have "\<dots> \<longleftrightarrow> rt_timebase t' = target \<and> in_i64 (rt_value t')
        \<and> rounds_to rounding (secs t * rate target) (rt_value t')"
    unfolding divide_time_spec[OF d(1) d126] secs_target[OF src assms(2), symmetric]
    by (cases t') (auto simp: rt_new_def)
  finally show ?thesis .
qed

lemma rescale_same [simp]: "rt_checked_rescale t (rt_timebase t) rounding = Inr t"
  by (simp add: rt_checked_rescale_def)

lemma rounds_to_int: "rounds_to rounding (of_int v) v"
  by (cases rounding) (simp_all add: rounds_to_def)

lemma rescale_rounds:
  assumes "rt_ok t" "tb_ok target" "rt_checked_rescale t target rounding = Inr t'"
  shows "rt_ok t' \<and> rt_timebase t' = target \<and> rounds_to rounding (secs t * rate target) (rt_value t')"
proof (cases "rt_timebase t = target")
  case True
  then have "secs t * rate target = of_int (rt_value t)" using assms(1) by (auto simp: secs_rate rt_ok_def)
  then show ?thesis
    using True assms by (auto simp: rounds_to_int)
next
  case False
  with rescale_spec[OF assms(1,2)] assms show ?thesis by (simp add: rt_ok_def)
qed

lemma rounds_to_exact_secs:
  assumes "tb_ok target"
  shows "rounds_to RoundExact (x * rate target) v \<longleftrightarrow> secs (rt_new v target) = x"
  using rate_pos[OF assms] by (auto simp: rounds_to_def secs_def field_simps)

lemma rescale_exact:
  assumes "rt_ok t" "tb_ok target"
  shows "rt_checked_rescale t target RoundExact = Inr t'
     \<longleftrightarrow> rt_ok t' \<and> rt_timebase t' = target \<and> secs t' = secs t"
proof (cases "rt_timebase t = target")
  case True
  have "rt_ok t' \<and> rt_timebase t' = target \<and> secs t' = secs t \<longleftrightarrow> t' = t"
    using True assms(1) rate_pos[OF assms(2)] by (auto simp: secs_def intro: rational_time.equality)
  then show ?thesis using True by auto
next
  case False
  have "rt_new (rt_value t') target = t'" if "rt_timebase t' = target" using that by auto
  then show ?thesis
    unfolding rescale_spec[OF assms False] rounds_to_exact_secs[OF assms(2)]
    using assms(2) by (auto simp: rt_ok_def)
qed

section \<open>Addition and subtraction\<close>

lemma gcd_loop_i128 [simp]:
  "0 \<le> a \<Longrightarrow> 0 \<le> b \<Longrightarrow> greatest_common_divisor_i128 a b = gcd a b"
  by (simp add: greatest_common_divisor_i128_def euclid_loop_gcd)

lemma sdiv_dvd: "0 < (g::int) \<Longrightarrow> g dvd a \<Longrightarrow> a sdiv g * g = a"
  using sdiv_smod[of g a] by (auto simp: smod_pos dvd_eq_mod_eq_0 zmod_zminus1_eq_if split: if_splits)

lemma sdiv_mult_self: "0 < (k::int) \<Longrightarrow> (v * k) sdiv k = v"
  using sdiv_dvd[of k "v * k"] by simp

lemma frac_scale: "0 < g \<Longrightarrow> of_int (a * g) / of_int (b * g) = (of_int a / of_int b :: rat)"
  by simp

text \<open>
  The units of a coordinate at a clock, as a reduced fraction; its denominator divides the
  product of the source numerator and the target denominator.
\<close>

lemma units_at_spec:
  assumes "rt_ok t" "tb_ok target"
  shows "\<exists>n d. rt_units_at t target = Inr (n, d) \<and> 0 < d
     \<and> d dvd tb_numerator (rt_timebase t) * tb_denominator target
     \<and> secs t * rate target = of_int n / of_int d"
proof -
  let ?n = "rt_value t * tb_denominator (rt_timebase t) * tb_numerator target"
  let ?d = "tb_numerator (rt_timebase t) * tb_denominator target"
  let ?g = "gcd \<bar>?n\<bar> ?d"
  have src: "tb_ok (rt_timebase t)" using assms(1) by (simp add: rt_ok_def)
  have d: "0 < ?d" "in_i128 ?d"
    using product_bound_u32[of "tb_numerator (rt_timebase t)" "tb_denominator target"] src assms(2)
    by (simp_all add: tb_ok_def)
  have n: "in_i128 (rt_value t * tb_denominator (rt_timebase t))" "in_i128 ?n"
    using product_bound[of "rt_value t" "tb_denominator (rt_timebase t)" "tb_numerator target"]
      assms src by (simp_all add: rt_ok_def tb_ok_def)
  have "?d \<noteq> 0" using d(1) by linarith
  then have g: "0 < ?g" by (auto simp only: gcd_pos_int)
  have g_dvd: "?g dvd ?n" "?g dvd ?d" by simp_all
  have run: "rt_units_at t target = Inr (?n sdiv ?g, ?d sdiv ?g)"
    using n d by (simp add: rt_units_at_def Let_def del: gcd_abs1_int)
  have dd: "?d sdiv ?g * ?g = ?d" and nn: "?n sdiv ?g * ?g = ?n"
    using sdiv_dvd[OF g g_dvd(1)] sdiv_dvd[OF g g_dvd(2)] by simp_all
  have pos: "0 < ?d sdiv ?g" using dd d(1) g by (metis zero_less_mult_pos2)
  have "?d sdiv ?g dvd ?d" using dd by (metis dvd_triv_left)
  moreover have "secs t * rate target = of_int (?n sdiv ?g) / of_int (?d sdiv ?g)"
  proof -
    have "secs t * rate target = of_int (?n sdiv ?g * ?g) / of_int (?d sdiv ?g * ?g)"
      unfolding dd nn by (rule secs_target[OF src assms(2)])
    then show ?thesis unfolding frac_scale[OF g] .
  qed
  ultimately show ?thesis using run pos by blast
qed

text \<open>
  The common denominator of two such fractions divides the product of three 32-bit values, so
  no step of the addition can push it out of range.
\<close>

lemma common_denominator:
  fixes p q n m k :: int
  assumes "0 < p" "0 < q" "p dvd n * k" "q dvd m * k" "0 < n" "0 < m" "0 < k"
    "n < 2 ^ 32" "m < 2 ^ 32" "k < 2 ^ 32"
  shows "p * (q sdiv gcd p q) = lcm p q" "lcm p q \<le> 2 ^ 96" "0 < lcm p q"
proof -
  have g: "0 < gcd p q" using assms(1) by (simp add: gcd_pos_int)
  then have "q sdiv gcd p q * gcd p q = q" by (rule sdiv_dvd) simp
  then have "p * (q sdiv gcd p q) * gcd p q = p * q" by (simp add: algebra_simps)
  also have "\<dots> = lcm p q * gcd p q" using assms(1,2) prod_gcd_lcm_int[of p q] by (simp add: abs_mult mult.commute)
  finally have "p * (q sdiv gcd p q) * gcd p q = lcm p q * gcd p q" .
  with g show "p * (q sdiv gcd p q) = lcm p q" by (metis mult_right_cancel less_irrefl)
  have "lcm p q dvd n * m * k"
  proof (rule lcm_least)
    show "p dvd n * m * k" using assms(3) by (metis dvd_mult mult.assoc mult.commute)
    show "q dvd n * m * k" using assms(4) by (metis dvd_mult mult.assoc)
  qed
  then have "lcm p q \<le> n * m * k" using assms(5-7) by (simp add: zdvd_imp_le)
  also have "\<dots> \<le> 2 ^ 32 * 2 ^ 32 * 2 ^ 32" by (intro mult_mono) (use assms in auto)
  finally show "lcm p q \<le> 2 ^ 96" by simp
  show "0 < lcm p q" using assms(1,2) by (simp add: lcm_pos_int)
qed

definition combine :: "binary_time_operation \<Rightarrow> rat \<Rightarrow> rat \<Rightarrow> rat" where
  "combine operation x y = (case operation of AddTime \<Rightarrow> x + y | SubtractTime \<Rightarrow> x - y)"

lemma binary_rounds:
  assumes "rt_ok a" "rt_ok b" "tb_ok tb"
    and run: "rt_checked_binary_at a b tb rounding operation = Inr t"
  shows "rt_ok t \<and> rt_timebase t = tb
     \<and> rounds_to rounding (combine operation (secs a) (secs b) * rate tb) (rt_value t)"
proof -
  obtain p q where u: "rt_units_at a tb = Inr (p, q)" "0 < q"
      "q dvd tb_numerator (rt_timebase a) * tb_denominator tb"
      "secs a * rate tb = of_int p / of_int q"
    using units_at_spec[OF assms(1,3)] by blast
  obtain r s where v: "rt_units_at b tb = Inr (r, s)" "0 < s"
      "s dvd tb_numerator (rt_timebase b) * tb_denominator tb"
      "secs b * rate tb = of_int r / of_int s"
    using units_at_spec[OF assms(2,3)] by blast
  let ?g = "gcd q s"
  let ?l = "s sdiv ?g" and ?r = "q sdiv ?g"
  let ?num = "case operation of AddTime \<Rightarrow> p * ?l + r * ?r | SubtractTime \<Rightarrow> p * ?l - r * ?r"
  have tbs: "tb_ok (rt_timebase a)" "tb_ok (rt_timebase b)" using assms by (simp_all add: rt_ok_def)
  have den: "q * ?l = lcm q s" "lcm q s \<le> 2 ^ 96" "0 < lcm q s"
    using common_denominator[OF u(2) v(2) u(3) v(3)] tbs assms(3) by (simp_all add: tb_ok_def)
  have den': "s * ?r = lcm q s"
    using common_denominator(1)[OF v(2) u(2) v(3) u(3)] tbs assms(3)
    by (simp add: tb_ok_def gcd.commute lcm.commute)
  have g: "0 < ?g" using u(2) by (simp add: gcd_pos_int)
  have run': "\<exists>val. divide_time ?num (lcm q s) rounding (binary_time_operation_name operation) = Inr val
     \<and> t = rt_new val tb"
    using run u(1,2) v(1,2) den(1)
    by (cases operation) (auto simp: rt_checked_binary_at_def Let_def result_simps)
  then obtain val where val:
    "divide_time ?num (lcm q s) rounding (binary_time_operation_name operation) = Inr val"
    "t = rt_new val tb" by blast
  have frac: "of_int ?num / of_int (lcm q s) = combine operation (secs a) (secs b) * rate tb"
  proof -
    have pos: "0 < ?l" "0 < ?r"
      using den(1,3) den' u(2) v(2) by (metis zero_less_mult_pos)+
    have "of_int p / of_int q = (of_int (p * ?l) / of_int (lcm q s) :: rat)"
      by (rule frac_scale[OF pos(1), of p q, unfolded den(1), symmetric])
    moreover have "of_int r / of_int s = (of_int (r * ?r) / of_int (lcm q s) :: rat)"
      by (rule frac_scale[OF pos(2), of r s, unfolded den', symmetric])
    moreover have "combine operation (secs a) (secs b) * rate tb
      = combine operation (of_int p / of_int q) (of_int r / of_int s)"
      unfolding u(4)[symmetric] v(4)[symmetric] by (cases operation) (simp_all add: combine_def algebra_simps)
    ultimately show ?thesis
      by (cases operation) (simp_all add: combine_def add_divide_distrib diff_divide_distrib)
  qed
  have "lcm q s \<le> 2 ^ 126" using den(2) by simp
  with val(1) divide_time_spec[OF den(3)] have "in_i64 val"
    "rounds_to rounding (combine operation (secs a) (secs b) * rate tb) val"
    by (simp_all add: frac)
  with val(2) assms(3) show ?thesis by (simp add: rt_ok_def)
qed

lemma add_exact:
  assumes "rt_ok a" "rt_ok b" "tb_ok tb" "rt_checked_add_at a b tb RoundExact = Inr t"
  shows "rt_ok t \<and> rt_timebase t = tb \<and> secs t = secs a + secs b"
  using binary_rounds[OF assms(1-3) assms(4)[unfolded rt_checked_add_at_def]]
  by (auto simp: combine_def rounds_to_exact_secs[OF assms(3)] dest!: sym[of "rt_timebase t"])

lemma sub_exact:
  assumes "rt_ok a" "rt_ok b" "tb_ok tb" "rt_checked_sub_at a b tb RoundExact = Inr t"
  shows "rt_ok t \<and> rt_timebase t = tb \<and> secs t = secs a - secs b"
  using binary_rounds[OF assms(1-3) assms(4)[unfolded rt_checked_sub_at_def]]
  by (auto simp: combine_def rounds_to_exact_secs[OF assms(3)] dest!: sym[of "rt_timebase t"])

text \<open>In one timebase the operations are checked 64-bit addition and subtraction.\<close>

lemma units_at_same:
  assumes "rt_ok t"
  shows "rt_units_at t (rt_timebase t) = Inr (rt_value t, 1)"
proof -
  let ?tb = "rt_timebase t"
  let ?k = "tb_denominator ?tb * tb_numerator ?tb"
  have ok: "tb_ok ?tb" using assms by (simp add: rt_ok_def)
  have k: "0 < ?k" "in_i128 ?k" using product_bound_u32[of "tb_denominator ?tb" "tb_numerator ?tb"] ok
    by (simp_all add: tb_ok_def)
  have n: "in_i128 (rt_value t * tb_denominator ?tb)" "in_i128 (rt_value t * ?k)"
    using product_bound[of "rt_value t" "tb_denominator ?tb" "tb_numerator ?tb"] assms ok
    by (simp_all add: rt_ok_def tb_ok_def mult.assoc)
  have "gcd \<bar>rt_value t * ?k\<bar> ?k = ?k" using k(1) by (simp add: gcd_proj2_if_dvd_int)
  moreover have "(rt_value t * ?k) sdiv ?k = rt_value t" "?k sdiv ?k = 1"
    using sdiv_mult_self[OF k(1)] sdiv_mult_self[OF k(1), of 1] by simp_all
  ultimately show ?thesis
    using n k by (simp add: rt_units_at_def Let_def mult.commute[of "tb_numerator ?tb"] mult.assoc del: gcd_abs1_int)
qed

lemma divide_time_1:
  "divide_time n 1 rounding operation = ok_or (checked_i64 n) (overflow_time operation)"
proof -
  have "n sdiv 1 = n" "n smod 1 = 0" by (simp_all add: sdiv_pos smod_pos)
  moreover have "wrap_i128 0 = 0" by (simp add: wrap_i128_def)
  ultimately show ?thesis by (cases rounding) (simp_all add: divide_time_def Let_def)
qed

lemma in_i64_sum: "in_i64 a \<Longrightarrow> in_i64 b \<Longrightarrow> in_i128 (a + b) \<and> in_i128 (a - b)"
  by (simp add: int_ranges)

lemma add_same_timebase:
  assumes "rt_ok a" "rt_ok b" "rt_timebase a = tb" "rt_timebase b = tb"
  shows "rt_checked_add_at a b tb rounding
     = (if in_i64 (rt_value a + rt_value b) then Inr (rt_new (rt_value a + rt_value b) tb)
        else Inl (overflow_time ''add_time''))"
proof -
  have one: "(1::int) sdiv 1 = 1" by (simp add: sdiv_pos)
  have i: "in_i128 (1::int)" by (simp add: in_i128_def)
  show ?thesis
    using units_at_same[OF assms(1)] units_at_same[OF assms(2)] assms
      in_i64_sum[of "rt_value a" "rt_value b"]
    by (auto simp: rt_checked_add_at_def rt_checked_binary_at_def Let_def one i rt_ok_def
        in_i64_in_i128 divide_time_1 checked_i64_def)
qed

lemma sub_same_timebase:
  assumes "rt_ok a" "rt_ok b" "rt_timebase a = tb" "rt_timebase b = tb"
  shows "rt_checked_sub_at a b tb rounding
     = (if in_i64 (rt_value a - rt_value b) then Inr (rt_new (rt_value a - rt_value b) tb)
        else Inl (overflow_time ''subtract_time''))"
proof -
  have one: "(1::int) sdiv 1 = 1" by (simp add: sdiv_pos)
  have i: "in_i128 (1::int)" by (simp add: in_i128_def)
  show ?thesis
    using units_at_same[OF assms(1)] units_at_same[OF assms(2)] assms
      in_i64_sum[of "rt_value a" "rt_value b"]
    by (auto simp: rt_checked_sub_at_def rt_checked_binary_at_def Let_def one i rt_ok_def
        in_i64_in_i128 divide_time_1 checked_i64_def)
qed

section \<open>Durations and ranges\<close>

lemma du_new_ok:
  "0 \<le> v \<Longrightarrow> tb_ok tb \<Longrightarrow> du_new v tb = Inr d \<longleftrightarrow> v < 2 ^ 63 \<and> d = \<lparr>du_value = v, du_timebase = tb\<rparr>"
  by (auto simp: du_new_def)

lemma du_zero_ok [simp]: "tb_ok tb \<Longrightarrow> du_ok (du_zero tb)"
  by (simp add: du_ok_def du_zero_def)

lemma du_wrap [simp]: "du_ok d \<Longrightarrow> wrap_i64 (du_value d) = du_value d"
  by (simp add: du_ok_def in_i64_def)

lemma rt_zero_ok [simp]: "tb_ok tb \<Longrightarrow> rt_ok (rt_zero tb)"
  by (simp add: rt_ok_def in_i64_def)

definition tr_end :: "time_range \<Rightarrow> int" where
  "tr_end r = rt_value (tr_start r) + du_value (tr_duration r)"

lemma tr_new_iff:
  assumes "rt_ok s" "du_ok d"
  shows "tr_new s d = Inr r \<longleftrightarrow> rt_timebase s = du_timebase d
     \<and> in_i64 (rt_value s + du_value d) \<and> r = \<lparr>tr_start = s, tr_duration = d\<rparr>"
  using assms by (auto simp: tr_new_def result_simps)

lemma tr_new_ok:
  assumes "rt_ok s" "du_ok d" "tr_new s d = Inr r"
  shows "tr_ok r \<and> tr_start r = s \<and> tr_duration r = d"
  using assms tr_new_iff[OF assms(1,2)] by (simp add: tr_ok_def)

lemma tr_end_ok:
  assumes "tr_ok r"
  shows "tr_end_exclusive r = Inr (rt_new (tr_end r) (tr_timebase r))"
    and "rt_ok (rt_new (tr_end r) (tr_timebase r))"
  using assms by (simp_all add: tr_end_exclusive_def tr_ok_def rt_ok_def tr_end_def tr_timebase_def)

lemma tr_from_start_end_iff:
  assumes "rt_ok s" "rt_ok e"
  shows "tr_from_start_end s e = Inr r \<longleftrightarrow> rt_timebase s = rt_timebase e
     \<and> rt_value s \<le> rt_value e \<and> rt_value e - rt_value s < 2 ^ 63
     \<and> r = \<lparr>tr_start = s, tr_duration = \<lparr>du_value = rt_value e - rt_value s, du_timebase = rt_timebase s\<rparr>\<rparr>"
proof (cases "rt_timebase s = rt_timebase e \<and> rt_value s \<le> rt_value e \<and> rt_value e - rt_value s < 2 ^ 63")
  case True
  let ?d = "\<lparr>du_value = rt_value e - rt_value s, du_timebase = rt_timebase s\<rparr>"
  have d: "du_ok ?d" using True assms by (simp add: du_ok_def rt_ok_def)
  have "in_i64 (rt_value e - rt_value s)" "in_u64 (rt_value e - rt_value s)"
    using True by (simp_all add: int_ranges)
  then have "tr_from_start_end s e = tr_new s ?d"
    using True by (simp add: tr_from_start_end_def du_new_def)
  then show ?thesis using tr_new_iff[OF assms(1) d] True assms(2) by (auto simp: rt_ok_def)
next
  case False
  then show ?thesis
    by (auto simp: tr_from_start_end_def du_new_def result_simps int_ranges)
qed

lemma tr_from_start_end_ok:
  assumes "rt_ok s" "rt_ok e" "tr_from_start_end s e = Inr r"
  shows "tr_ok r \<and> tr_start r = s \<and> tr_end r = rt_value e \<and> tr_timebase r = rt_timebase s
     \<and> rt_value s \<le> rt_value e \<and> rt_timebase e = rt_timebase s"
  using assms tr_from_start_end_iff[OF assms(1,2)]
  by (auto simp: tr_ok_def rt_ok_def du_ok_def tr_end_def tr_timebase_def)

lemma tr_contains_ok:
  assumes "tr_ok r" "rt_ok t"
  shows "tr_contains r t
     = Inr (secs (tr_start r) \<le> secs t \<and> secs t < secs (rt_new (tr_end r) (tr_timebase r)))"
  using assms tr_end_ok[OF assms(1)]
  by (simp add: tr_contains_def rt_time.le_seconds rt_time.lt_seconds tr_ok_def)

lemma tr_contains_same_timebase:
  assumes "tr_ok r" "rt_ok t" "rt_timebase t = tr_timebase r"
  shows "tr_contains r t = Inr (rt_value (tr_start r) \<le> rt_value t \<and> rt_value t < tr_end r)"
proof -
  have s: "rt_ok (tr_start r)" using assms(1) by (simp add: tr_ok_def)
  show ?thesis
    using tr_end_ok[OF assms(1)] rt_same_timebase(3)[OF s assms(2)]
      rt_same_timebase(2)[OF assms(2) tr_end_ok(2)[OF assms(1)]] assms(3)
    by (simp add: tr_contains_def tr_timebase_def)
qed

lemma tr_end_secs:
  assumes "tr_ok r"
  shows "secs (rt_new (tr_end r) (tr_timebase r)) = secs (tr_start r) + secs (du_rational_time (tr_duration r))"
  using assms by (simp add: tr_end_def tr_timebase_def secs_def tr_ok_def du_rational_simps add_divide_distrib)

lemma tr_empty_secs:
  assumes "tr_ok r"
  shows "tr_is_empty r \<longleftrightarrow> secs (du_rational_time (tr_duration r)) = 0"
proof -
  have "0 < rate (du_timebase (tr_duration r))" using rate_pos[of "du_timebase (tr_duration r)"] assms
    unfolding tr_ok_def du_ok_def by blast
  then show ?thesis
    using assms by (simp add: tr_is_empty_def du_is_zero_def secs_def tr_ok_def du_rational_simps)
qed

lemma du_secs_nonneg: "du_ok d \<Longrightarrow> 0 \<le> secs (du_rational_time d)"
  using rate_pos[of "du_timebase d"] by (simp add: secs_def du_rational_simps du_ok_def)

lemma tr_intersects_ok:
  assumes "tr_ok r" "tr_ok q"
  shows "tr_intersects r q = Inr (\<exists>x. secs (tr_start r) \<le> x \<and> x < secs (rt_new (tr_end r) (tr_timebase r))
     \<and> secs (tr_start q) \<le> x \<and> x < secs (rt_new (tr_end q) (tr_timebase q)))"
proof -
  let ?a = "secs (tr_start r)" and ?b = "secs (rt_new (tr_end r) (tr_timebase r))"
  let ?c = "secs (tr_start q)" and ?d = "secs (rt_new (tr_end q) (tr_timebase q))"
  have ex: "(\<exists>x. ?a \<le> x \<and> x < ?b \<and> ?c \<le> x \<and> x < ?d) \<longleftrightarrow> ?a < ?b \<and> ?c < ?d \<and> ?a < ?d \<and> ?c < ?b"
    by (auto intro: exI[of _ "max ?a ?c"])
  have len: "?b = ?a + secs (du_rational_time (tr_duration r))" "?d = ?c + secs (du_rational_time (tr_duration q))"
    using assms by (simp_all add: tr_end_secs)
  have ne: "?a < ?b \<longleftrightarrow> \<not> tr_is_empty r" "?c < ?d \<longleftrightarrow> \<not> tr_is_empty q"
    using du_secs_nonneg[of "tr_duration r"] du_secs_nonneg[of "tr_duration q"] assms
    unfolding len tr_empty_secs[OF assms(1)] tr_empty_secs[OF assms(2)] by (auto simp: tr_ok_def)
  show ?thesis
    unfolding ex ne using tr_end_ok[OF assms(1)] tr_end_ok[OF assms(2)] assms
    by (simp add: tr_intersects_def rt_time.lt_seconds tr_ok_def)
qed

lemma du_rescale_exact:
  assumes "du_ok d" "tb_ok tb" "du_checked_rescale d tb RoundExact = Inr e"
  shows "du_ok e \<and> du_timebase e = tb \<and> secs (du_rational_time e) = secs (du_rational_time d)"
proof -
  from assms(3) obtain c where c: "rt_checked_rescale (du_rational_time d) tb RoundExact = Inr c"
    "in_u64 (rt_value c)" "du_new (rt_value c) tb = Inr e"
    by (auto simp: du_checked_rescale_def result_simps)
  from c(1) rescale_exact[OF du_rational_ok[OF assms(1)] assms(2)]
  have c': "rt_ok c" "rt_timebase c = tb" "secs c = secs (du_rational_time d)" by auto
  from c(2,3) assms(2) have e: "e = \<lparr>du_value = rt_value c, du_timebase = tb\<rparr>" "0 \<le> rt_value c" "rt_value c < 2 ^ 63"
    by (auto simp: du_new_ok in_u64_def)
  then have ok: "du_ok e" using assms(2) by (simp add: du_ok_def)
  have "du_rational_time e = c" using e c'(2) ok du_rational_simps[of e]
    by (auto intro!: rational_time.equality)
  then show ?thesis using ok e(1) c'(3) by simp
qed

lemma du_rescale_same: "du_ok d \<Longrightarrow> du_checked_rescale d (du_timebase d) rounding = Inr d"
proof -
  assume ok: "du_ok d"
  then have "rt_checked_rescale (du_rational_time d) (du_timebase d) rounding = Inr (du_rational_time d)"
    using rescale_same[of "du_rational_time d"] by (simp add: du_rational_simps)
  moreover have "du_new (du_value d) (du_timebase d) = Inr d" "in_u64 (du_value d)"
    using ok by (simp_all add: du_new_def du_ok_def in_u64_def)
  ultimately show ?thesis using ok by (simp add: du_checked_rescale_def du_rational_simps)
qed


end
