(* ===== verification/CoreTimecode.thy ===== *)
theory CoreTimecode
  imports CoreTimeLaws
begin

text \<open>
  \<open>superi-core/src/timecode.rs\<close>: frame labels. A timecode is a continuous signed frame count
  with a format; drop-frame formats omit labels, never frames. Parsing works on the label's
  bytes. The lemmas relate the label arithmetic of printing and of parsing, and show that the
  two are inverse.
\<close>

section \<open>Formats and errors\<close>

datatype timecode_mode = NonDropFrame | DropFrame

fun mode_separator :: "timecode_mode \<Rightarrow> char" where
  "mode_separator NonDropFrame = CHR '':''"
| "mode_separator DropFrame = CHR '';''"

record timecode_format =
  tf_rate :: frame_rate
  tf_mode :: timecode_mode
  tf_drop_frames_per_minute :: int

datatype timecode_component = Hours | Minutes | Seconds | Frames

fun component_display :: "timecode_component \<Rightarrow> string" where
  "component_display Hours = ''hours''"
| "component_display Minutes = ''minutes''"
| "component_display Seconds = ''seconds''"
| "component_display Frames = ''frames''"

datatype timecode_error =
    InvalidSyntax
  | SeparatorMismatch (expected: char) (found: char)
  | ComponentOutOfRange (component: timecode_component) (component_value: int) (maximum: int)
  | DroppedFrameLabel (minute: int) (frame: int)
  | UnsupportedDropFrameRate (unsupported_rate: frame_rate)
  | FormatMismatch (left: timecode_format) (right: timecode_format)
  | ArithmeticOverflow
  | NegativeZero
  | TimeError (time_error: error_value)

fun timecode_error_code :: "timecode_error \<Rightarrow> string" where
  "timecode_error_code InvalidSyntax = ''invalid_syntax''"
| "timecode_error_code (SeparatorMismatch _ _) = ''separator_mismatch''"
| "timecode_error_code (ComponentOutOfRange _ _ _) = ''component_out_of_range''"
| "timecode_error_code (DroppedFrameLabel _ _) = ''dropped_frame_label''"
| "timecode_error_code (UnsupportedDropFrameRate _) = ''unsupported_drop_frame_rate''"
| "timecode_error_code (FormatMismatch _ _) = ''format_mismatch''"
| "timecode_error_code ArithmeticOverflow = ''arithmetic_overflow''"
| "timecode_error_code NegativeZero = ''negative_zero''"
| "timecode_error_code (TimeError _) = ''time_conversion''"

type_synonym 'a tc_result = "timecode_error + 'a"

definition tf_non_drop :: "frame_rate \<Rightarrow> timecode_format" where
  "tf_non_drop r = \<lparr>tf_rate = r, tf_mode = NonDropFrame, tf_drop_frames_per_minute = 0\<rparr>"

definition tf_drop_frame :: "frame_rate \<Rightarrow> timecode_format tc_result" where
  "tf_drop_frame r =
     (let nominal_fps = fr_nominal_fps r;
          expected_numerator = checked_u32 (nominal_fps * 1000);
          supported = (fr_denominator r = 1001 \<and> expected_numerator = Some (fr_numerator r)
            \<and> nominal_fps mod 30 = 0)
      in if \<not> supported then Inl (UnsupportedDropFrameRate r)
         else Inr \<lparr>tf_rate = r, tf_mode = DropFrame, tf_drop_frames_per_minute = nominal_fps div 15\<rparr>)"

definition tf_nominal_fps :: "timecode_format \<Rightarrow> int" where
  "tf_nominal_fps f = max (fr_nominal_fps (tf_rate f)) 1"

section \<open>Labels\<close>

record timecode =
  tc_frames :: int
  tc_format :: timecode_format

definition tc_from_frames :: "int \<Rightarrow> timecode_format \<Rightarrow> timecode" where
  "tc_from_frames frames format = \<lparr>tc_frames = frames, tc_format = format\<rparr>"

text \<open>The private helpers at the end of the module; the loop of \<open>digit_count\<close> is \<open>count_digits\<close>.\<close>

definition parse_digits :: "string \<Rightarrow> int tc_result" where
  "parse_digits text =
     (if text = [] \<or> \<not> list_all is_digit text then Inl InvalidSyntax
      else ok_or (checked_u64 (int (digits_value (map char_digit text)))) ArithmeticOverflow)"

definition validate_component :: "timecode_component \<Rightarrow> int \<Rightarrow> int \<Rightarrow> unit tc_result" where
  "validate_component c val max_value =
     (if val > max_value then Inl (ComponentOutOfRange c val max_value) else Inr ())"

fun count_digits :: "nat \<Rightarrow> nat \<Rightarrow> nat" where
  "count_digits remaining digits =
     (if remaining \<noteq> 0 then count_digits (remaining div 10) (digits + 1) else digits)"

declare count_digits.simps [simp del]

definition digit_count :: "int \<Rightarrow> nat" where
  "digit_count val = (if val = 0 then 1 else count_digits (nat val) 0)"

definition frame_width :: "timecode_format \<Rightarrow> nat" where
  "frame_width f = max (digit_count (max 0 (tf_nominal_fps f - 1))) 2"

definition delimiter_positions :: "string \<Rightarrow> (nat \<times> char) list" where
  "delimiter_positions body =
     filter (\<lambda>(_, character). character = CHR '':'' \<or> character = CHR '';'') (enumerate 0 body)"

text \<open>The half-open slice of a string between two byte positions.\<close>

definition slice_text :: "string \<Rightarrow> nat \<Rightarrow> nat \<Rightarrow> string" where
  "slice_text s from until = take (until - from) (drop from s)"

text \<open>
  The parser, in the four parts its body has: the arithmetic of validated fields, the fields,
  the delimiters, the sign.
\<close>

definition label_frames :: "timecode_format \<Rightarrow> int \<Rightarrow> int \<Rightarrow> int \<Rightarrow> int \<Rightarrow> int tc_result" where
  "label_frames f hours minutes seconds frames =
     bindR (ok_or (Option.bind (checked_i128 (hours * 60)) (\<lambda>val. checked_i128 (val + minutes)))
              ArithmeticOverflow) (\<lambda>total_minutes.
     bindR (ok_or (Option.bind (checked_i128 (total_minutes * 60)) (\<lambda>val. checked_i128 (val + seconds)))
              ArithmeticOverflow) (\<lambda>total_seconds.
     bindR (ok_or (Option.bind (checked_i128 (total_seconds * tf_nominal_fps f))
                     (\<lambda>val. checked_i128 (val + frames))) ArithmeticOverflow) (\<lambda>nominal_count.
     let dropped_minutes = total_minutes - total_minutes sdiv 10 in
     bindR (ok_or (checked_i128 (dropped_minutes * tf_drop_frames_per_minute f)) ArithmeticOverflow) (\<lambda>dropped_labels.
       ok_or (checked_i128 (nominal_count - dropped_labels)) ArithmeticOverflow))))"

definition parse_fields ::
  "bool \<Rightarrow> timecode_format \<Rightarrow> string \<Rightarrow> string \<Rightarrow> string \<Rightarrow> string \<Rightarrow> timecode tc_result" where
  "parse_fields negative f hours_text minutes_text seconds_text frames_text =
     (if length hours_text < 2 \<or> length minutes_text \<noteq> 2 \<or> length seconds_text \<noteq> 2
         \<or> length frames_text \<noteq> frame_width f
      then Inl InvalidSyntax
      else
        bindR (parse_digits hours_text) (\<lambda>hours.
        bindR (parse_digits minutes_text) (\<lambda>minutes.
        bindR (parse_digits seconds_text) (\<lambda>seconds.
        bindR (parse_digits frames_text) (\<lambda>frames.
        bindR (validate_component Minutes minutes 59) (\<lambda>_.
        bindR (validate_component Seconds seconds 59) (\<lambda>_.
        bindR (validate_component Frames frames (tf_nominal_fps f - 1)) (\<lambda>_.
        if tf_mode f = DropFrame \<and> minutes mod 10 \<noteq> 0 \<and> seconds = 0
           \<and> frames < tf_drop_frames_per_minute f
        then Inl (DroppedFrameLabel (minutes mod 256) (frames mod 2 ^ 32))
        else
        bindR (label_frames f hours minutes seconds frames) (\<lambda>magnitude.
        bindR (if negative then ok_or (checked_i128 (- magnitude)) ArithmeticOverflow
               else Inr magnitude) (\<lambda>signed_frames.
        bindR (ok_or (checked_i64 signed_frames) ArithmeticOverflow) (\<lambda>continuous_frames.
        if negative \<and> continuous_frames = 0 then Inl NegativeZero
        else Inr (tc_from_frames continuous_frames f))))))))))))"

definition parse_body :: "bool \<Rightarrow> string \<Rightarrow> timecode_format \<Rightarrow> timecode tc_result" where
  "parse_body negative body f =
     (let positions = delimiter_positions body
      in if length positions \<noteq> 3 \<or> snd (positions ! 0) \<noteq> CHR '':'' \<or> snd (positions ! 1) \<noteq> CHR '':''
         then Inl InvalidSyntax
         else let found_separator = snd (positions ! 2);
                  expected_separator = mode_separator (tf_mode f)
         in if found_separator \<noteq> expected_separator
         then Inl (SeparatorMismatch expected_separator found_separator)
         else let first = fst (positions ! 0); second = fst (positions ! 1); third = fst (positions ! 2)
              in parse_fields negative f (slice_text body 0 first) (slice_text body (first + 1) second)
                   (slice_text body (second + 1) third) (slice_text body (third + 1) (length body)))"

definition tc_parse :: "string \<Rightarrow> timecode_format \<Rightarrow> timecode tc_result" where
  "tc_parse label f =
     (case label of
        [] \<Rightarrow> parse_body False label f
      | c # rest \<Rightarrow> if c = CHR ''-'' then parse_body True rest f else parse_body False label f)"

definition tc_checked_add_frames :: "timecode \<Rightarrow> int \<Rightarrow> timecode tc_result" where
  "tc_checked_add_frames t delta =
     ok_or (map_option (\<lambda>frames. tc_from_frames frames (tc_format t)) (checked_i64 (tc_frames t + delta)))
       ArithmeticOverflow"

definition tc_checked_sub_frames :: "timecode \<Rightarrow> int \<Rightarrow> timecode tc_result" where
  "tc_checked_sub_frames t delta =
     ok_or (map_option (\<lambda>frames. tc_from_frames frames (tc_format t)) (checked_i64 (tc_frames t - delta)))
       ArithmeticOverflow"

definition tc_checked_duration_since :: "timecode \<Rightarrow> timecode \<Rightarrow> int tc_result" where
  "tc_checked_duration_since t earlier =
     (if tc_format t \<noteq> tc_format earlier then Inl (FormatMismatch (tc_format t) (tc_format earlier))
      else ok_or (checked_i64 (tc_frames t - tc_frames earlier)) ArithmeticOverflow)"

definition tc_to_rational_time :: "timecode \<Rightarrow> rational_time" where
  "tc_to_rational_time t = rt_from_frames (tc_frames t) (tf_rate (tc_format t))"

definition tc_converted_to :: "timecode \<Rightarrow> timecode_format \<Rightarrow> time_rounding \<Rightarrow> timecode tc_result" where
  "tc_converted_to t target rounding =
     bindR (map_errR TimeError (rt_to_frames (tc_to_rational_time t) (tf_rate target) rounding))
       (\<lambda>frames. Inr (tc_from_frames frames target))"

text \<open>
  The 128-bit products of printing stay in range for every stored format, so they are written
  without a wrap.
\<close>

definition display_count :: "timecode \<Rightarrow> int" where
  "display_count t =
     (let continuous = \<bar>tc_frames t\<bar>
      in if tf_mode (tc_format t) = NonDropFrame then continuous
         else let nominal = tf_nominal_fps (tc_format t);
                  drop_frames = tf_drop_frames_per_minute (tc_format t);
                  frames_per_minute = nominal * 60 - drop_frames;
                  frames_per_ten_minutes = nominal * 600 - drop_frames * 9;
                  ten_minute_cycles = continuous sdiv frames_per_ten_minutes;
                  remainder = continuous smod frames_per_ten_minutes;
                  label_count = continuous + ten_minute_cycles * drop_frames * 9
         in if remainder \<ge> drop_frames
            then label_count + drop_frames * ((remainder - drop_frames) sdiv frames_per_minute)
            else label_count)"

definition tc_display :: "timecode \<Rightarrow> string" where
  "tc_display t =
     (let nominal = tf_nominal_fps (tc_format t);
          count = display_count t;
          frames_per_hour = nominal * 3600;
          frames_per_minute = nominal * 60;
          hours = count sdiv frames_per_hour;
          after_hours = count smod frames_per_hour;
          minutes = after_hours sdiv frames_per_minute;
          after_minutes = after_hours smod frames_per_minute;
          seconds = after_minutes sdiv nominal;
          frames = after_minutes smod nominal
      in (if tc_frames t < 0 then ''-'' else [])
         @ show_padded 2 (nat hours) @ '':'' @ show_padded 2 (nat minutes) @ '':''
         @ show_padded 2 (nat seconds) @ [mode_separator (tf_mode (tc_format t))]
         @ show_padded (frame_width (tc_format t)) (nat frames))"

section \<open>Lemmas\<close>

lemma count_digits_dec: "0 < n \<Longrightarrow> count_digits n k = k + length (dec_digits n)"
proof (induction n arbitrary: k rule: dec_digits.induct)
  case (1 n)
  show ?case
  proof (cases "n < 10")
    case True
    with "1.prems" show ?thesis
      by (subst count_digits.simps, subst count_digits.simps, subst dec_digits.simps) simp
  next
    case False
    with "1.IH"[OF False] show ?thesis
      by (subst count_digits.simps, subst dec_digits.simps) simp
  qed
qed

lemma digit_count_dec: "0 \<le> v \<Longrightarrow> digit_count v = length (dec_digits (nat v))"
proof -
  have "length (dec_digits 0) = 1" by (subst dec_digits.simps) simp
  then show "0 \<le> v \<Longrightarrow> ?thesis" by (simp add: digit_count_def count_digits_dec)
qed

text \<open>A format the two constructors can return.\<close>

definition tf_ok :: "timecode_format \<Rightarrow> bool" where
  "tf_ok f \<longleftrightarrow> tb_ok (fr_timebase (tf_rate f))
     \<and> (tf_mode f = NonDropFrame \<longrightarrow> tf_drop_frames_per_minute f = 0)
     \<and> (tf_mode f = DropFrame \<longrightarrow>
          (\<exists>k>0. tf_nominal_fps f = 30 * k \<and> tf_drop_frames_per_minute f = 2 * k))"

definition tc_ok :: "timecode \<Rightarrow> bool" where
  "tc_ok t \<longleftrightarrow> in_i64 (tc_frames t) \<and> tf_ok (tc_format t)"

lemma tf_non_drop_ok: "tb_ok (fr_timebase r) \<Longrightarrow> tf_ok (tf_non_drop r)"
  by (simp add: tf_ok_def tf_non_drop_def)

lemma tf_drop_frame_ok:
  assumes "tb_ok (fr_timebase r)" "tf_drop_frame r = Inr f"
  shows "tf_ok f \<and> tf_rate f = r \<and> tf_mode f = DropFrame"
proof -
  let ?n = "fr_nominal_fps r"
  from assms(2) have f: "f = \<lparr>tf_rate = r, tf_mode = DropFrame, tf_drop_frames_per_minute = ?n div 15\<rparr>"
    and m: "?n mod 30 = 0" and num: "?n * 1000 = fr_numerator r"
    by (auto simp: tf_drop_frame_def Let_def result_simps checked_u32_def split: if_splits)
  from num assms(1) have pos: "0 < ?n" by (simp add: tb_ok_def fr_numerator_def)
  from m obtain k where k: "?n = 30 * k" by (metis mod_0_imp_dvd dvdE mod_eq_0_iff_dvd)
  then have "0 < k" "?n div 15 = 2 * k" using pos by simp_all
  with f k pos assms(1) show ?thesis
    by (auto simp: tf_ok_def tf_nominal_fps_def)
qed

lemma nominal_pos: "0 < tf_nominal_fps f"
  by (simp add: tf_nominal_fps_def)

lemma nominal_less: "tf_ok f \<Longrightarrow> tf_nominal_fps f < 2 ^ 32"
proof -
  have "fr_nominal_fps (tf_rate f) < 2 ^ 32" by (simp add: fr_nominal_fps_def)
  then show ?thesis by (simp add: tf_nominal_fps_def)
qed

lemma frame_width_dec: "frame_width f = max (length (dec_digits (nat (tf_nominal_fps f - 1)))) 2"
  using nominal_pos[of f] by (simp add: frame_width_def digit_count_dec max_def)

section \<open>The label arithmetic\<close>

text \<open>
  A label is counted as if no label were dropped: minutes, and a remainder within the minute.
  The two directions between label count and frame count are inverse on labels that are not
  dropped.
\<close>

definition drop_adjust :: "int \<Rightarrow> int \<Rightarrow> int \<Rightarrow> int" where
  "drop_adjust n d label = label - d * (label div (60 * n) - label div (60 * n) div 10)"

definition label_kept :: "int \<Rightarrow> int \<Rightarrow> int \<Rightarrow> bool" where
  "label_kept n d label \<longleftrightarrow> (label div (60 * n) mod 10 \<noteq> 0 \<longrightarrow> d \<le> label mod (60 * n))"

definition drop_label :: "int \<Rightarrow> int \<Rightarrow> int \<Rightarrow> int" where
  "drop_label n d c =
     (let fpt = n * 600 - d * 9; r = c mod fpt
      in c + c div fpt * d * 9 + (if d \<le> r then d * ((r - d) div (n * 60 - d)) else 0))"

lemma drop_label_parts:
  fixes n d q m x :: int
  assumes "0 < n" "0 \<le> d" "d < 60 * n" "0 \<le> q" "0 \<le> m" "m \<le> 9" "0 \<le> x" "x < 60 * n"
    "m = 0 \<or> d \<le> x"
  defines "label \<equiv> 60 * n * (10 * q + m) + x"
  shows "drop_adjust n d label = q * (n * 600 - d * 9) + (m * (n * 60 - d) + x)"
    and "drop_label n d (drop_adjust n d label) = label"
    and "label_kept n d label"
proof -
  have dm: "label div (60 * n) = 10 * q + m" "label mod (60 * n) = x"
    using assms(1,7,8) unfolding label_def by simp_all
  have ten: "(10 * q + m) div 10 = q" "(10 * q + m) mod 10 = m" using assms(5,6) by simp_all
  show c: "drop_adjust n d label = q * (n * 600 - d * 9) + (m * (n * 60 - d) + x)"
    unfolding drop_adjust_def dm ten by (simp add: label_def algebra_simps)
  show "label_kept n d label" unfolding label_kept_def dm ten using assms(9) by auto
  let ?r = "m * (n * 60 - d) + x"
  have fpm: "0 < n * 60 - d" using assms(3) by simp
  have "m * (n * 60 - d) \<le> 9 * (n * 60 - d)" using assms(6) fpm by (intro mult_right_mono) simp_all
  then have r: "?r < n * 600 - d * 9" using assms(8) by (simp add: algebra_simps)
  have "0 \<le> m * (n * 60 - d)" using assms(5) fpm by simp
  with assms(7) have r0: "0 \<le> ?r" by linarith
  have qr: "drop_adjust n d label div (n * 600 - d * 9) = q" "drop_adjust n d label mod (n * 600 - d * 9) = ?r"
    unfolding c using r r0 by simp_all
  show "drop_label n d (drop_adjust n d label) = label"
  proof (cases "d \<le> ?r")
    case True
    have "(?r - d) div (n * 60 - d) = m"
    proof (cases "d \<le> x")
      case True
      have eq: "?r - d = m * (n * 60 - d) + (x - d)" by simp
      show ?thesis unfolding eq using True assms(8) fpm by simp
    qed (use True assms(9) in auto)
    with True have "drop_label n d (drop_adjust n d label)
      = q * (n * 600 - d * 9) + ?r + q * d * 9 + d * m"
      unfolding drop_label_def Let_def qr by (simp only: c if_True)
    then show ?thesis by (simp add: label_def algebra_simps)
  next
    case False
    then have "m = 0" using assms(5,7,9) fpm by (auto simp: not_le)
      (smt (verit) mult_nonneg_nonneg)
    moreover from False have "drop_label n d (drop_adjust n d label)
      = q * (n * 600 - d * 9) + ?r + q * d * 9"
      unfolding drop_label_def Let_def qr by (simp only: c if_False add_0_right)
    ultimately show ?thesis by (simp add: label_def algebra_simps)
  qed
qed

lemma label_parts:
  fixes n :: int
  assumes "0 < n" "0 \<le> label"
  obtains q m x where "label = 60 * n * (10 * q + m) + x" "0 \<le> q" "0 \<le> m" "m \<le> 9" "0 \<le> x" "x < 60 * n"
    "label div (60 * n) mod 10 = m" "label mod (60 * n) = x"
proof
  let ?t = "label div (60 * n)"
  have t: "?t = 10 * (?t div 10) + ?t mod 10" by simp
  show "label = 60 * n * (10 * (?t div 10) + ?t mod 10) + label mod (60 * n)"
    unfolding t[symmetric] by simp
  show "0 \<le> ?t div 10" using assms by (simp add: pos_imp_zdiv_nonneg_iff)
qed (use assms in simp_all)

lemma label_inverse:
  assumes "0 < n" "0 \<le> d" "d < 60 * n" "0 \<le> label" "label_kept n d label"
  shows "drop_label n d (drop_adjust n d label) = label"
proof -
  obtain q m x where p: "label = 60 * n * (10 * q + m) + x" "0 \<le> q" "0 \<le> m" "m \<le> 9" "0 \<le> x" "x < 60 * n"
    "label div (60 * n) mod 10 = m" "label mod (60 * n) = x" using label_parts[OF assms(1,4)] by blast
  with assms(5) have "m = 0 \<or> d \<le> x" by (auto simp: label_kept_def)
  with drop_label_parts(2)[OF assms(1-3) p(2-6)] p(1) show ?thesis by simp
qed

lemma frame_inverse:
  assumes "0 < n" "0 \<le> d" "d < 60 * n" "0 \<le> c"
  shows "drop_adjust n d (drop_label n d c) = c" "label_kept n d (drop_label n d c)" "c \<le> drop_label n d c"
    "drop_label n d c \<le> c + d * 9 * (c + 1)"
proof -
  let ?fpt = "n * 600 - d * 9" and ?fpm = "n * 60 - d"
  have fpm: "0 < ?fpm" and fpt: "0 < ?fpt" using assms(1,3) by simp_all
  define q r m where "q = c div ?fpt" and "r = c mod ?fpt"
    and "m = (if d \<le> r then (r - d) div ?fpm else 0)"
  define x where "x = r - m * ?fpm"
  have q: "0 \<le> q" "q \<le> c" using assms(4) fpt by (simp_all add: q_def pos_imp_zdiv_nonneg_iff div_factor_le)
      (metis assms(4) div_by_1 fpt int_one_le_iff_zero_less zdiv_mono2 zero_less_one)
  have r: "0 \<le> r" "r < ?fpt" using fpt by (simp_all add: r_def)
  have m: "0 \<le> m" using fpm by (simp add: m_def pos_imp_zdiv_nonneg_iff)
  have "r - d \<le> 10 * ?fpm - 1" using r(2) assms(2) by simp
  then have "(r - d) div ?fpm \<le> (10 * ?fpm - 1) div ?fpm" using fpm by (intro zdiv_mono1)
  also have "(10 * ?fpm - 1) div ?fpm = 9"
    by (rule int_div_pos_eq[of _ _ _ "?fpm - 1"]) (use fpm in \<open>simp_all add: algebra_simps\<close>)
  finally have m9: "m \<le> 9" by (simp add: m_def)
  have x: "0 \<le> x" "x < 60 * n" "m = 0 \<or> d \<le> x"
  proof -
    have "r - d = (r - d) div ?fpm * ?fpm + (r - d) mod ?fpm" "0 \<le> (r - d) mod ?fpm" "(r - d) mod ?fpm < ?fpm"
      using fpm by (simp_all only: div_mult_mod_eq pos_mod_sign pos_mod_bound)
    moreover have "x = (if d \<le> r then d + (r - d - (r - d) div ?fpm * ?fpm) else r)" "d \<le> r \<or> m = 0"
      by (simp_all add: x_def m_def)
    ultimately show "0 \<le> x" "x < 60 * n" "m = 0 \<or> d \<le> x"
      using r assms(2,3) by (cases "d \<le> r"; simp only: if_True if_False; linarith)+
  qed
  have lab: "drop_label n d c = 60 * n * (10 * q + m) + x"
  proof -
    have "c = q * ?fpt + r" by (simp only: q_def r_def div_mult_mod_eq)
    then show ?thesis
      unfolding drop_label_def Let_def q_def[symmetric] r_def[symmetric]
      by (auto simp: x_def m_def algebra_simps)
  qed
  note parts = drop_label_parts[OF assms(1-3) q(1) m m9 x]
  have "drop_adjust n d (drop_label n d c) = q * ?fpt + (m * ?fpm + x)" using parts(1) lab by simp
  also have "\<dots> = q * ?fpt + r" by (simp add: x_def)
  also have "\<dots> = c" by (simp only: q_def r_def div_mult_mod_eq)
  finally show "drop_adjust n d (drop_label n d c) = c" .
  show "label_kept n d (drop_label n d c)" using parts(3) lab by simp
  show "c \<le> drop_label n d c"
    using q(1) assms(2) m unfolding drop_label_def Let_def q_def[symmetric] r_def[symmetric]
    by (auto simp: m_def split: if_splits)
  have "drop_label n d c = c + q * d * 9 + d * m"
    unfolding drop_label_def Let_def q_def[symmetric] r_def[symmetric] by (simp add: m_def)
  also have "\<dots> \<le> c + c * d * 9 + d * 9"
    using q assms(2) m m9 by (intro add_mono mult_mono) auto
  finally show "drop_label n d c \<le> c + d * 9 * (c + 1)" by (simp add: algebra_simps)
qed

section \<open>Fields of a label\<close>

lemma display_count_label:
  assumes "tf_ok (tc_format t)"
  shows "display_count t = drop_label (tf_nominal_fps (tc_format t))
     (tf_drop_frames_per_minute (tc_format t)) \<bar>tc_frames t\<bar>"
proof (cases "tf_mode (tc_format t)")
  case NonDropFrame
  then show ?thesis using assms
    by (auto simp: display_count_def drop_label_def tf_ok_def Let_def)
next
  case DropFrame
  with assms obtain k where k: "0 < k" "tf_nominal_fps (tc_format t) = 30 * k"
    "tf_drop_frames_per_minute (tc_format t) = 2 * k" by (auto simp: tf_ok_def)
  have "0 < 30 * k * 600 - 2 * k * 9" "0 < 30 * k * 60 - 2 * k" using k(1) by simp_all
  then show ?thesis unfolding display_count_def drop_label_def Let_def k(2,3)
    using DropFrame by (simp add: sdiv_pos smod_pos del: right_diff_distrib_numeral)
qed

lemma tf_drop_bounds:
  assumes "tf_ok f"
  shows "0 \<le> tf_drop_frames_per_minute f" "tf_drop_frames_per_minute f < 60 * tf_nominal_fps f"
    "tf_drop_frames_per_minute f < 2 ^ 32"
proof -
  consider "tf_drop_frames_per_minute f = 0"
    | k where "0 < k" "tf_nominal_fps f = 30 * k" "tf_drop_frames_per_minute f = 2 * k"
    using assms by (cases "tf_mode f") (auto simp: tf_ok_def)
  then show "0 \<le> tf_drop_frames_per_minute f" "tf_drop_frames_per_minute f < 60 * tf_nominal_fps f"
    "tf_drop_frames_per_minute f < 2 ^ 32"
    using nominal_pos[of f] nominal_less[OF assms] by (cases; simp)+
qed

lemma label_fields:
  fixes n c :: int
  assumes "0 < n" "0 \<le> c"
  defines "h \<equiv> c div (n * 3600)" and "m \<equiv> c mod (n * 3600) div (n * 60)"
    and "s \<equiv> c mod (n * 3600) mod (n * 60) div n" and "fr \<equiv> c mod (n * 3600) mod (n * 60) mod n"
  shows "h * 60 + m = c div (60 * n)" "s = c mod (60 * n) div n" "fr = c mod (60 * n) mod n"
    "((h * 60 + m) * 60 + s) * n + fr = c"
    "0 \<le> h" "0 \<le> m" "m \<le> 59" "0 \<le> s" "s \<le> 59" "0 \<le> fr" "fr < n"
proof -
  have h: "h = c div (60 * n) div 60"
    unfolding h_def using zdiv_zmult2_eq[of 60 c "60 * n"] by (simp add: mult.commute)
  have mod: "c mod (n * 3600) = (n * 60) * (c div (n * 60) mod 60) + c mod (n * 60)"
    using zmod_zmult2_eq[of 60 c "n * 60"] by (simp add: mult.assoc)
  have n60: "0 < n * 60" using assms(1) by simp
  have m: "m = c div (n * 60) mod 60" unfolding m_def mod using n60 by simp
  have cm: "c mod (n * 3600) mod (n * 60) = c mod (n * 60)"
    unfolding mod using n60 by (simp add: mod_mult_self4)
  show tm: "h * 60 + m = c div (60 * n)" unfolding h m by (simp add: mult.commute)
  show s: "s = c mod (60 * n) div n" unfolding s_def cm by (simp add: mult.commute)
  show fr: "fr = c mod (60 * n) mod n" unfolding fr_def cm by (simp add: mult.commute)
  show "((h * 60 + m) * 60 + s) * n + fr = c"
  proof -
    have "s * n + fr = c mod (60 * n)" unfolding s fr by (rule div_mult_mod_eq)
    moreover have "c = c div (60 * n) * (60 * n) + c mod (60 * n)" by (simp only: div_mult_mod_eq)
    ultimately have "c = (h * 60 + m) * (60 * n) + (s * n + fr)" using tm by simp
    then show ?thesis by (simp add: algebra_simps)
  qed
  show "0 \<le> h" using assms by (simp add: h_def pos_imp_zdiv_nonneg_iff)
  show "0 \<le> m" "m \<le> 59" using pos_mod_bound[of 60 "c div (n * 60)"] unfolding m by simp_all
  have r: "0 \<le> c mod (60 * n)" "c mod (60 * n) < 60 * n" using assms(1) by simp_all
  show "0 \<le> s" using r assms(1) by (simp add: s pos_imp_zdiv_nonneg_iff)
  have "s \<le> (60 * n - 1) div n" unfolding s using r assms(1) by (intro zdiv_mono1) simp_all
  also have "(60 * n - 1) div n = 59"
    by (rule int_div_pos_eq[of _ _ _ "n - 1"]) (use assms(1) in \<open>simp_all add: algebra_simps\<close>)
  finally show "s \<le> 59" .
  show "0 \<le> fr" "fr < n" using assms(1) by (simp_all add: fr)
qed

lemma label_ranges:
  fixes h m s p fr q :: int
  assumes "0 \<le> h" "h < 2 ^ 64" "0 \<le> m" "m \<le> 59" "0 \<le> s" "s \<le> 59" "0 \<le> p" "p \<le> 2 ^ 108"
    "0 \<le> p + fr" "p + fr < 2 ^ 109" "0 \<le> q" "q \<le> 2 ^ 70 * 2 ^ 32"
  shows "in_i128 (h * 60)" "in_i128 (h * 60 + m)" "in_i128 ((h * 60 + m) * 60)"
    "in_i128 ((h * 60 + m) * 60 + s)" "in_i128 p" "in_i128 (p + fr)" "in_i128 q" "in_i128 (p + fr - q)"
  using assms by (simp_all add: in_i128_def)

lemma label_frames_adjust:
  assumes "tf_ok f" "0 \<le> h" "h < 2 ^ 64" "0 \<le> m" "m \<le> 59" "0 \<le> s" "s \<le> 59" "0 \<le> fr"
    "fr < tf_nominal_fps f"
  shows "label_frames f h m s fr = Inr (drop_adjust (tf_nominal_fps f) (tf_drop_frames_per_minute f)
     (((h * 60 + m) * 60 + s) * tf_nominal_fps f + fr))"
    and "0 \<le> drop_adjust (tf_nominal_fps f) (tf_drop_frames_per_minute f)
     (((h * 60 + m) * 60 + s) * tf_nominal_fps f + fr)"
proof -
  let ?n = "tf_nominal_fps f" and ?d = "tf_drop_frames_per_minute f"
  let ?tm = "h * 60 + m"
  let ?ts = "?tm * 60 + s"
  let ?label = "?ts * ?n + fr"
  have n: "0 < ?n" "?n < 2 ^ 32" using nominal_pos nominal_less[OF assms(1)] by simp_all
  note d = tf_drop_bounds[OF assms(1)]
  have tm: "0 \<le> ?tm" "?tm < 2 ^ 70" using assms by simp_all
  have ts: "0 \<le> ?ts" "?ts < 2 ^ 76" using tm assms by simp_all
  have prod: "?ts * ?n \<le> 2 ^ 76 * 2 ^ 32" by (rule mult_mono) (use ts n in auto)
  have label: "0 \<le> ?ts * ?n" "?ts * ?n \<le> 2 ^ 108" "0 \<le> ?label" "?label < 2 ^ 109"
    using prod ts n assms by simp_all
  have kept: "?tm - ?tm sdiv 10 = ?tm - ?tm div 10" using tm by (simp add: sdiv_pos)
  have dm: "0 \<le> ?tm - ?tm div 10" "?tm - ?tm div 10 < 2 ^ 70" using tm by simp_all
  have dl: "0 \<le> (?tm - ?tm div 10) * ?d" "(?tm - ?tm div 10) * ?d \<le> 2 ^ 70 * 2 ^ 32"
    using dm d by (simp, intro mult_mono, auto)
  have part: "?label div (60 * ?n) = ?tm"
  proof (rule int_div_pos_eq[of _ _ _ "s * ?n + fr"])
    have "s * ?n \<le> 59 * ?n" "0 \<le> s * ?n" using n assms by (simp_all add: mult_right_mono)
    then show "0 \<le> s * ?n + fr" "s * ?n + fr < 60 * ?n" using assms by linarith+
  qed (simp add: algebra_simps)
  have "?d * (?tm - ?tm div 10) \<le> (60 * ?n) * (?tm - ?tm div 10)"
    using d(2) dm(1) by (intro mult_right_mono) simp_all
  also have "\<dots> \<le> (60 * ?n) * ?tm" using n tm by (intro mult_left_mono) simp_all
  also have "\<dots> \<le> ?label" using n assms by (simp add: algebra_simps)
  finally show nonneg: "0 \<le> drop_adjust ?n ?d ?label" unfolding drop_adjust_def part by simp
  have adj: "drop_adjust ?n ?d ?label = ?label - (?tm - ?tm div 10) * ?d"
    unfolding drop_adjust_def part by (simp add: mult.commute)
  have ranges: "in_i128 (h * 60)" "in_i128 ?tm" "in_i128 (?tm * 60)" "in_i128 ?ts" "in_i128 (?ts * ?n)"
    "in_i128 ?label" "in_i128 ((?tm - ?tm div 10) * ?d)" "in_i128 (?label - (?tm - ?tm div 10) * ?d)"
    using label_ranges[of h m s "?ts * ?n" fr "(?tm - ?tm div 10) * ?d"] assms label dl by simp_all
  show "label_frames f h m s fr = Inr (drop_adjust ?n ?d ?label)"
    unfolding label_frames_def adj
    by (simp only: ranges checked_in_range kept Let_def bind.bind_lunit ok_or_simps bindR_simps)
qed

section \<open>Texts of a label\<close>

lemma show_padded_ascii: "list_all is_digit (show_padded w n)"
  by (auto simp: list_all_iff show_padded_digits)

lemma show_padded_nonempty: "show_padded w n \<noteq> []"
  using length_show_padded[of w n] dec_digits_nonempty[of n] by (metis length_0_conv max_nat.eq_neutr_iff)

lemma parse_digits_shown: "int n < 2 ^ 64 \<Longrightarrow> parse_digits (show_padded w n) = Inr (int n)"
  by (simp add: parse_digits_def show_padded_nonempty show_padded_ascii show_padded_value
      checked_u64_def in_u64_def)

lemma digit_not_delimiter: "is_digit c \<Longrightarrow> c \<noteq> CHR '':'' \<and> c \<noteq> CHR '';''"
  by (auto simp: is_digit_def)

definition label_body :: "string \<Rightarrow> string \<Rightarrow> string \<Rightarrow> char \<Rightarrow> string \<Rightarrow> string" where
  "label_body hs ms ss sep fs = hs @ CHR '':'' # ms @ CHR '':'' # ss @ sep # fs"

lemma no_delimiters:
  "list_all is_digit xs \<Longrightarrow> filter (\<lambda>(_, c). c = CHR '':'' \<or> c = CHR '';'') (enumerate n xs) = []"
  by (induction xs arbitrary: n) (auto dest: digit_not_delimiter)

lemma delimiters_of_body:
  assumes "list_all is_digit hs" "list_all is_digit ms" "list_all is_digit ss" "list_all is_digit fs"
    "sep = CHR '':'' \<or> sep = CHR '';''"
  shows "delimiter_positions (label_body hs ms ss sep fs) =
     [(length hs, CHR '':''), (length hs + 1 + length ms, CHR '':''),
      (length hs + 1 + length ms + 1 + length ss, sep)]"
  using assms
  by (auto simp: delimiter_positions_def label_body_def enumerate_append_eq no_delimiters)

lemma slice_rest: "slice_text (pre @ fs) (length pre) (length (pre @ fs)) = fs"
  by (simp add: slice_text_def)

lemma slices_of_body:
  "slice_text (label_body hs ms ss sep fs) 0 (length hs) = hs"
  "slice_text (label_body hs ms ss sep fs) (length hs + 1) (length hs + 1 + length ms) = ms"
  "slice_text (label_body hs ms ss sep fs) (length hs + 1 + length ms + 1)
     (length hs + 1 + length ms + 1 + length ss) = ss"
  "slice_text (label_body hs ms ss sep fs) (length hs + 1 + length ms + 1 + length ss + 1)
     (length (label_body hs ms ss sep fs)) = fs"
proof -
  have eq: "label_body hs ms ss sep fs = (hs @ [CHR '':''] @ ms @ [CHR '':''] @ ss @ [sep]) @ fs"
    by (simp add: label_body_def)
  have len: "length (hs @ [CHR '':''] @ ms @ [CHR '':''] @ ss @ [sep])
    = length hs + 1 + length ms + 1 + length ss + 1" by simp
  show "slice_text (label_body hs ms ss sep fs) (length hs + 1 + length ms + 1 + length ss + 1)
     (length (label_body hs ms ss sep fs)) = fs"
    unfolding eq len[symmetric] by (rule slice_rest)
qed (simp_all add: slice_text_def label_body_def)

lemma parse_body_fields:
  assumes "list_all is_digit hs" "list_all is_digit ms" "list_all is_digit ss" "list_all is_digit fs"
  shows "parse_body negative (label_body hs ms ss (mode_separator (tf_mode f)) fs) f
     = parse_fields negative f hs ms ss fs"
proof -
  have sep: "mode_separator (tf_mode f) = CHR '':'' \<or> mode_separator (tf_mode f) = CHR '';''"
    by (cases "tf_mode f") simp_all
  show ?thesis
    unfolding parse_body_def delimiters_of_body[OF assms sep] Let_def
    by (simp only: list.size nth_Cons_0 nth_Cons_Suc One_nat_def numeral_2_eq_2 fst_conv snd_conv
        slices_of_body[simplified One_nat_def]) (simp add: numeral_3_eq_3)
qed

section \<open>Printing and parsing\<close>

text \<open>What the printer writes: the fields of the label count.\<close>

lemma tc_display_fields:
  assumes "tc_ok t"
  defines "n \<equiv> tf_nominal_fps (tc_format t)"
    and "c \<equiv> drop_label (tf_nominal_fps (tc_format t)) (tf_drop_frames_per_minute (tc_format t)) \<bar>tc_frames t\<bar>"
  shows "tc_display t = (if tc_frames t < 0 then ''-'' else []) @
     label_body (show_padded 2 (nat (c div (n * 3600))))
       (show_padded 2 (nat (c mod (n * 3600) div (n * 60))))
       (show_padded 2 (nat (c mod (n * 3600) mod (n * 60) div n)))
       (mode_separator (tf_mode (tc_format t)))
       (show_padded (frame_width (tc_format t)) (nat (c mod (n * 3600) mod (n * 60) mod n)))"
    and "0 \<le> c"
proof -
  have f: "tf_ok (tc_format t)" using assms(1) by (simp add: tc_ok_def)
  have n: "0 < n" by (simp add: n_def nominal_pos)
  have c: "display_count t = c" unfolding c_def by (rule display_count_label[OF f])
  show c0: "0 \<le> c"
    using frame_inverse(3)[OF nominal_pos tf_drop_bounds(1,2)[OF f], of "\<bar>tc_frames t\<bar>"]
    by (simp add: c_def)
  have r: "0 \<le> c mod (n * 3600)" "0 \<le> c mod (n * 3600) mod (n * 60)" using n by simp_all
  have pos: "0 < n * 3600" "0 < n * 60" using n by simp_all
  show "tc_display t = (if tc_frames t < 0 then ''-'' else []) @
     label_body (show_padded 2 (nat (c div (n * 3600))))
       (show_padded 2 (nat (c mod (n * 3600) div (n * 60))))
       (show_padded 2 (nat (c mod (n * 3600) mod (n * 60) div n)))
       (mode_separator (tf_mode (tc_format t)))
       (show_padded (frame_width (tc_format t)) (nat (c mod (n * 3600) mod (n * 60) mod n)))"
    unfolding tc_display_def Let_def c n_def[symmetric] label_body_def
    using pos n c0 r by (simp add: sdiv_pos smod_pos)
qed

lemma display_count_le:
  assumes "tf_ok f" "0 \<le> c"
  shows "drop_label (tf_nominal_fps f) (tf_drop_frames_per_minute f) c \<le> 2 * c"
proof -
  let ?n = "tf_nominal_fps f" and ?d = "tf_drop_frames_per_minute f"
  let ?l = "drop_label ?n ?d c"
  let ?tm = "?l div (60 * ?n)"
  note inv = frame_inverse[OF nominal_pos tf_drop_bounds(1,2)[OF assms(1)] assms(2)]
  have n: "0 < ?n" by (rule nominal_pos)
  have l: "0 \<le> ?l" using inv(3) assms(2) by simp
  have d15: "15 * ?d \<le> ?n" using assms(1) n by (cases "tf_mode f") (auto simp: tf_ok_def)
  have tm: "0 \<le> ?tm" using l n by (simp add: pos_imp_zdiv_nonneg_iff)
  have "?d * (?tm - ?tm div 10) \<le> ?d * ?tm"
    using tf_drop_bounds(1)[OF assms(1)] tm by (intro mult_left_mono) (simp_all add: pos_imp_zdiv_nonneg_iff)
  moreover have "900 * (?d * ?tm) \<le> (60 * ?n) * ?tm"
    using mult_right_mono[OF d15 tm] by simp
  moreover have "(60 * ?n) * ?tm \<le> ?l"
    using n pos_mod_sign[of "60 * ?n" ?l] by (simp add: minus_mod_eq_mult_div[symmetric])
  moreover have "c = ?l - ?d * (?tm - ?tm div 10)"
    using inv(1) by (simp add: drop_adjust_def)
  ultimately show ?thesis using l by linarith
qed

text \<open>The fields of a kept label parse to the adjusted frame count.\<close>

lemma parse_fields_kept:
  assumes f: "tf_ok f" and h: "0 \<le> h" "h < 2 ^ 64" and m: "0 \<le> m" "m \<le> 59"
    and s: "0 \<le> s" "s \<le> 59" and fr: "0 \<le> fr" "fr < tf_nominal_fps f"
    and texts: "2 \<le> length hs" "length ms = 2" "length ss = 2" "length fs = frame_width f"
    and vals: "parse_digits hs = Inr h" "parse_digits ms = Inr m" "parse_digits ss = Inr s"
      "parse_digits fs = Inr fr"
  defines "label \<equiv> ((h * 60 + m) * 60 + s) * tf_nominal_fps f + fr"
  defines "c \<equiv> drop_adjust (tf_nominal_fps f) (tf_drop_frames_per_minute f) label"
  shows "parse_fields negative f hs ms ss fs =
     (if tf_mode f = DropFrame \<and> m mod 10 \<noteq> 0 \<and> s = 0 \<and> fr < tf_drop_frames_per_minute f
      then Inl (DroppedFrameLabel m fr)
      else let signed_frames = (if negative then - c else c)
           in if \<not> in_i64 signed_frames then Inl ArithmeticOverflow
              else if negative \<and> c = 0 then Inl NegativeZero
              else Inr (tc_from_frames signed_frames f))"
proof -
  have frames: "label_frames f h m s fr = Inr c" "0 \<le> c"
    unfolding c_def label_def by (rule label_frames_adjust[OF f h m s fr])+
  have "0 \<le> label" unfolding label_def using nominal_pos[of f] h m s fr by simp
  then have "0 \<le> label div (60 * tf_nominal_fps f)"
    using nominal_pos[of f] by (simp add: pos_imp_zdiv_nonneg_iff)
  then have "0 \<le> tf_drop_frames_per_minute f * (label div (60 * tf_nominal_fps f)
      - label div (60 * tf_nominal_fps f) div 10)"
    using tf_drop_bounds(1)[OF f] by (intro mult_nonneg_nonneg) simp_all
  then have "c \<le> label" unfolding c_def drop_adjust_def by linarith
  moreover have "label \<le> 2 ^ 110"
  proof -
    have "((h * 60 + m) * 60 + s) * tf_nominal_fps f \<le> 2 ^ 77 * 2 ^ 32"
      by (rule mult_mono) (use h m s nominal_less[OF f] nominal_pos[of f] in auto)
    then show ?thesis using fr nominal_less[OF f] by (simp add: label_def)
  qed
  ultimately have "in_i128 (- c)" using frames(2) by (simp add: in_i128_def)
  moreover have "m mod 256 = m" using m by simp
  moreover have "fr mod 2 ^ 32 = fr" using fr nominal_less[OF f] by simp
  ultimately show ?thesis
    using texts m s fr frames(1)
    by (simp add: parse_fields_def vals validate_component_def checked_i64_def Let_def)
qed

lemma parse_display:
  assumes "tc_ok t"
  shows "tc_parse (tc_display t) (tc_format t) = Inr t"
proof -
  let ?f = "tc_format t"
  let ?n = "tf_nominal_fps ?f" and ?d = "tf_drop_frames_per_minute ?f"
  let ?c = "\<bar>tc_frames t\<bar>"
  let ?l = "drop_label ?n ?d ?c"
  have f: "tf_ok ?f" and fr: "in_i64 (tc_frames t)" using assms by (simp_all add: tc_ok_def)
  note inv = frame_inverse[OF nominal_pos tf_drop_bounds(1,2)[OF f], of ?c, simplified]
  have l: "0 \<le> ?l" "?l \<le> 2 ^ 64"
    using inv(3) display_count_le[OF f, of ?c] fr by (auto simp: in_i64_def)
  define h m s x where "h = ?l div (?n * 3600)" and "m = ?l mod (?n * 3600) div (?n * 60)"
    and "s = ?l mod (?n * 3600) mod (?n * 60) div ?n" and "x = ?l mod (?n * 3600) mod (?n * 60) mod ?n"
  note parts = label_fields[OF nominal_pos[of ?f] l(1), folded h_def m_def s_def x_def]
  have hl: "h < 2 ^ 64"
  proof -
    have "h \<le> ?l div 3600" unfolding h_def
      using l nominal_pos[of ?f] by (intro zdiv_mono2) simp_all
    then show ?thesis using l by simp
  qed
  let ?hs = "show_padded 2 (nat h)" and ?ms = "show_padded 2 (nat m)" and ?ss = "show_padded 2 (nat s)"
    and ?xs = "show_padded (frame_width ?f) (nat x)"
  have digits: "length (dec_digits k) \<le> 2" if "k \<le> 59" for k :: nat
    using that by (intro length_dec_digits_le) simp_all
  have texts: "2 \<le> length ?hs" "length ?ms = 2" "length ?ss = 2" "length ?xs = frame_width ?f"
  proof -
    show "2 \<le> length ?hs" by (simp add: length_show_padded)
    show "length ?ms = 2" "length ?ss = 2"
      using digits[of "nat m"] digits[of "nat s"] parts(7,9) by (simp_all add: length_show_padded)
    have "length (dec_digits (nat x)) \<le> length (dec_digits (nat (?n - 1)))"
      using parts(11) by (intro length_dec_digits_mono) simp
    then show "length ?xs = frame_width ?f" by (simp add: length_show_padded frame_width_dec)
  qed
  have vals: "parse_digits ?hs = Inr h" "parse_digits ?ms = Inr m" "parse_digits ?ss = Inr s" "parse_digits ?xs = Inr x"
    using parts(5-11) hl nominal_less[OF f] by (simp_all add: parse_digits_shown)
  have kept: "\<not> (tf_mode ?f = DropFrame \<and> m mod 10 \<noteq> 0 \<and> s = 0 \<and> x < ?d)"
  proof
    assume a: "tf_mode ?f = DropFrame \<and> m mod 10 \<noteq> 0 \<and> s = 0 \<and> x < ?d"
    have "(h * 60 + m) mod 10 = (m + 10 * (6 * h)) mod 10" by (simp add: algebra_simps)
    also have "\<dots> = m mod 10" by (rule mod_mult_self2)
    finally have "(h * 60 + m) mod 10 = m mod 10" .
    with a parts(1) inv(2) have "?d \<le> ?l mod (60 * ?n)" by (simp add: label_kept_def)
    moreover have "?l mod (60 * ?n) = s * ?n + x"
      using parts(2,3) by (metis div_mult_mod_eq)
    ultimately show False using a by simp
  qed
  have result: "parse_fields (tc_frames t < 0) ?f ?hs ?ms ?ss ?xs = Inr t"
    unfolding parse_fields_kept[OF f parts(5) hl parts(6-11) texts vals] parts(4) inv(1)
    using kept fr by (cases t) (auto simp: Let_def tc_from_frames_def)
  have body: "parse_body (tc_frames t < 0) (label_body ?hs ?ms ?ss (mode_separator (tf_mode ?f)) ?xs) ?f = Inr t"
    by (simp add: parse_body_fields show_padded_ascii result)
  have minus: "\<not> is_digit CHR ''-''" by (simp add: is_digit_def)
  have first: "y \<noteq> CHR ''-''"
    if "label_body ?hs ?ms ?ss (mode_separator (tf_mode ?f)) ?xs = y # ys" for y ys
  proof -
    obtain z zs where z: "?hs = z # zs" using show_padded_nonempty[of 2 "nat h"] by (cases ?hs) auto
    then have "is_digit z" using show_padded_digits[of z 2 "nat h"] by simp
    moreover have "y = z" using that z by (simp add: label_body_def)
    ultimately show ?thesis using minus by auto
  qed
  show ?thesis
  proof (cases "tc_frames t < 0")
    case True
    then show ?thesis
      using body by (simp add: tc_parse_def tc_display_fields(1)[OF assms, folded h_def m_def s_def x_def])
  next
    case False
    with body show ?thesis
      using first by (auto simp: tc_parse_def tc_display_fields(1)[OF assms, folded h_def m_def s_def x_def]
          split: list.splits)
  qed
qed

text \<open>The other direction: what a parsed label looks like.\<close>

lemma digits_value_inj:
  "length xs = length ys \<Longrightarrow> (\<And>d. d \<in> set xs \<Longrightarrow> d < 10) \<Longrightarrow> (\<And>d. d \<in> set ys \<Longrightarrow> d < 10)
     \<Longrightarrow> digits_value xs = digits_value ys \<Longrightarrow> xs = ys"
proof (induction xs arbitrary: ys rule: rev_induct)
  case Nil
  then show ?case by simp
next
  case (snoc x xs)
  from snoc.prems(1) obtain y zs where ys: "ys = zs @ [y]" "length xs = length zs"
    by (cases ys rule: rev_cases) auto
  have d: "x < 10" "y < 10" using snoc.prems(2,3) ys by auto
  have v: "digits_value xs * 10 + x = digits_value zs * 10 + y" using snoc.prems(4) ys by simp
  have "x = (digits_value xs * 10 + x) mod 10" "y = (digits_value zs * 10 + y) mod 10" using d by simp_all
  with v have xy: "x = y" by simp
  with v have "digits_value xs = digits_value zs" by simp
  with snoc.IH[OF ys(2)] snoc.prems(2,3) ys(1) have "xs = zs" by simp
  with xy ys(1) show ?case by simp
qed

lemma digit_texts_inj:
  assumes "list_all is_digit xs" "list_all is_digit ys" "length xs = length ys"
    "digits_value (map char_digit xs) = digits_value (map char_digit ys)"
  shows "xs = ys"
proof -
  have "map char_digit xs = map char_digit ys"
    using assms by (intro digits_value_inj) (auto simp: list_all_iff dest: digit_char_digit)
  then have "map (digit_char \<circ> char_digit) xs = map (digit_char \<circ> char_digit) ys"
    by (simp flip: map_map)
  moreover have "map (digit_char \<circ> char_digit) zs = zs" if "list_all is_digit zs" for zs
    using that by (intro map_idI) (auto simp: list_all_iff dest: digit_char_digit)
  ultimately show ?thesis using assms(1,2) by simp
qed

lemma parse_digits_Inr:
  "parse_digits text = Inr v \<longleftrightarrow> text \<noteq> [] \<and> list_all is_digit text
     \<and> v = int (digits_value (map char_digit text)) \<and> v < 2 ^ 64"
  by (auto simp: parse_digits_def result_simps in_u64_def)

lemma delimiter_positions_split:
  assumes "delimiter_positions body = [(a, x), (b, y), (c, z)]"
  shows "body = slice_text body 0 a @ x # slice_text body (a + 1) b @ y # slice_text body (b + 1) c
     @ z # slice_text body (c + 1) (length body)"
proof -
  have "sorted_wrt (\<lambda>p q. fst p < fst q) (enumerate 0 body)"
    using sorted_wrt_upt by (metis enumerate_eq_zip map_fst_zip length_upt sorted_wrt_map minus_nat.diff_0 add_0)
  then have "sorted_wrt (\<lambda>p q. fst p < fst q) (delimiter_positions body)"
    unfolding delimiter_positions_def by (rule sorted_wrt_filter)
  then have abc: "a < b" "b < c" by (simp_all add: assms)
  have "set (delimiter_positions body) \<subseteq> set (enumerate 0 body)"
    unfolding delimiter_positions_def by (rule filter_is_subset)
  then have at: "a < length body" "body ! a = x" "b < length body" "body ! b = y" "c < length body" "body ! c = z"
    by (auto simp: assms in_set_enumerate_eq)
  have "body = take a body @ x # drop (a + 1) body"
    using id_take_nth_drop[OF at(1)] at(2) by simp
  also have "drop (a + 1) body = take (b - (a + 1)) (drop (a + 1) body) @ y # drop (b + 1) body"
    using id_take_nth_drop[of "b - (a + 1)" "drop (a + 1) body"] at abc by simp
  also have "drop (b + 1) body = take (c - (b + 1)) (drop (b + 1) body) @ z # drop (c + 1) body"
    using id_take_nth_drop[of "c - (b + 1)" "drop (b + 1) body"] at abc by simp
  finally show ?thesis by (simp add: slice_text_def)
qed

lemma parse_body_Inr:
  assumes "parse_body negative body f = Inr t"
  obtains hs ms ss fs where "body = label_body hs ms ss (mode_separator (tf_mode f)) fs"
    "parse_fields negative f hs ms ss fs = Inr t"
proof -
  let ?p = "delimiter_positions body"
  from assms have p: "length ?p = 3" "snd (?p ! 0) = CHR '':''" "snd (?p ! 1) = CHR '':''"
    "snd (?p ! 2) = mode_separator (tf_mode f)"
    and run: "parse_fields negative f (slice_text body 0 (fst (?p ! 0)))
      (slice_text body (fst (?p ! 0) + 1) (fst (?p ! 1))) (slice_text body (fst (?p ! 1) + 1) (fst (?p ! 2)))
      (slice_text body (fst (?p ! 2) + 1) (length body)) = Inr t"
    by (auto simp: parse_body_def Let_def split: if_splits)
  have "?p = [?p ! 0, ?p ! 1, ?p ! 2]"
    using p(1) by (simp add: list_eq_iff_nth_eq less_Suc_eq numeral_3_eq_3 numeral_2_eq_2)
  then have "?p = [(fst (?p ! 0), CHR '':''), (fst (?p ! 1), CHR '':''), (fst (?p ! 2), mode_separator (tf_mode f))]"
    using p by (metis prod.collapse)
  from that[OF delimiter_positions_split[OF this, folded label_body_def] run] show thesis .
qed

lemma label_fields_unique:
  fixes n h m s x :: int
  assumes "0 \<le> m" "m \<le> 59" "0 \<le> s" "s \<le> 59" "0 \<le> x" "x < n"
  defines "l \<equiv> ((h * 60 + m) * 60 + s) * n + x"
  shows "l div (n * 3600) = h" "l mod (n * 3600) div (n * 60) = m"
    "l mod (n * 3600) mod (n * 60) div n = s" "l mod (n * 3600) mod (n * 60) mod n = x"
    "l div (60 * n) = h * 60 + m" "l mod (60 * n) = s * n + x"
proof -
  have n: "0 < n" using assms by simp
  have s: "0 \<le> s * n + x" "s * n + x < n * 60"
  proof -
    have "s * n \<le> 59 * n" using assms n by (intro mult_right_mono) simp_all
    then show "s * n + x < n * 60" using assms by linarith
  qed (use assms n in simp)
  have m: "0 \<le> m * (n * 60) + (s * n + x)" "m * (n * 60) + (s * n + x) < n * 3600"
  proof -
    have "m * (n * 60) \<le> 59 * (n * 60)" using assms n by (intro mult_right_mono) simp_all
    then show "m * (n * 60) + (s * n + x) < n * 3600" using s by linarith
  qed (use assms n s in simp)
  have l: "l = h * (n * 3600) + (m * (n * 60) + (s * n + x))" by (simp add: l_def algebra_simps)
  have l2: "l = (h * 60 + m) * (60 * n) + (s * n + x)" by (simp add: l_def algebra_simps)
  show "l div (n * 3600) = h" by (rule int_div_pos_eq[of _ _ _ "m * (n * 60) + (s * n + x)"]) (use l m in simp_all)
  have r1: "l mod (n * 3600) = m * (n * 60) + (s * n + x)"
    by (rule int_mod_pos_eq[of _ _ h]) (use l m in simp_all)
  show "l mod (n * 3600) div (n * 60) = m" unfolding r1
    by (rule int_div_pos_eq[of _ _ _ "s * n + x"]) (use s in simp_all)
  have r2: "l mod (n * 3600) mod (n * 60) = s * n + x" unfolding r1
    by (rule int_mod_pos_eq[of _ _ m]) (use s in simp_all)
  show "l mod (n * 3600) mod (n * 60) div n = s" unfolding r2
    by (rule int_div_pos_eq[of _ _ _ x]) (use assms in simp_all)
  show "l mod (n * 3600) mod (n * 60) mod n = x" unfolding r2
    by (rule int_mod_pos_eq[of _ _ s]) (use assms in simp_all)
  show "l div (60 * n) = h * 60 + m"
    by (rule int_div_pos_eq[of _ _ _ "s * n + x"]) (use l2 s in simp_all)
  show "l mod (60 * n) = s * n + x"
    by (rule int_mod_pos_eq[of _ _ "h * 60 + m"]) (use l2 s in simp_all)
qed

lemma parse_fields_Inr:
  assumes "parse_fields negative f hs ms ss fs = Inr t"
  obtains h m s x where "2 \<le> length hs" "length ms = 2" "length ss = 2" "length fs = frame_width f"
    "parse_digits hs = Inr h" "parse_digits ms = Inr m" "parse_digits ss = Inr s" "parse_digits fs = Inr x"
    "m \<le> 59" "s \<le> 59" "x \<le> tf_nominal_fps f - 1"
  using assms
  by (auto simp: parse_fields_def result_simps validate_component_def split: if_splits)

text \<open>A label of canonical length that parses is the one that is printed.\<close>

lemma display_parse_fields:
  assumes f: "tf_ok f" and run: "parse_fields negative f hs ms ss fs = Inr t"
  shows "tc_ok t \<and> tc_format t = f \<and> (tc_frames t < 0 \<longleftrightarrow> negative)
     \<and> (\<exists>w. tc_display t = (if negative then ''-'' else [])
          @ label_body (show_padded 2 w) ms ss (mode_separator (tf_mode f)) fs
          \<and> list_all is_digit hs \<and> digits_value (map char_digit hs) = w)"
proof -
  obtain h m s x where texts: "2 \<le> length hs" "length ms = 2" "length ss = 2" "length fs = frame_width f"
    and vals: "parse_digits hs = Inr h" "parse_digits ms = Inr m" "parse_digits ss = Inr s" "parse_digits fs = Inr x"
    and le: "m \<le> 59" "s \<le> 59" "x \<le> tf_nominal_fps f - 1"
    using parse_fields_Inr[OF run] by blast
  let ?n = "tf_nominal_fps f" and ?d = "tf_drop_frames_per_minute f"
  from vals have b: "0 \<le> h" "h < 2 ^ 64" "0 \<le> m" "0 \<le> s" "0 \<le> x" by (auto simp: parse_digits_Inr)
  have x: "x < ?n" using le(3) by simp
  let ?l = "((h * 60 + m) * 60 + s) * ?n + x"
  let ?c = "drop_adjust ?n ?d ?l"
  note parsed = parse_fields_kept[OF f b(1,2,3) le(1) b(4) le(2) b(5) x texts vals, of negative]
  have c0: "0 \<le> ?c" by (rule label_frames_adjust(2)[OF f b(1,2,3) le(1) b(4) le(2) b(5) x])
  from run parsed have t: "t = tc_from_frames (if negative then - ?c else ?c) f"
    and ok: "in_i64 (if negative then - ?c else ?c)" "negative \<Longrightarrow> ?c \<noteq> 0"
    and kept: "\<not> (tf_mode f = DropFrame \<and> m mod 10 \<noteq> 0 \<and> s = 0 \<and> x < ?d)"
    by (auto simp: Let_def split: if_splits)
  have tc: "tc_ok t" "tc_format t = f" "tc_frames t = (if negative then - ?c else ?c)"
    using t ok f by (simp_all add: tc_ok_def tc_from_frames_def)
  have neg: "tc_frames t < 0 \<longleftrightarrow> negative" using tc(3) ok(2) c0 by auto
  note u = label_fields_unique[OF b(3) le(1) b(4) le(2) b(5) x, of h]
  have l0: "0 \<le> ?l" using b nominal_pos[of f] by simp
  have "label_kept ?n ?d ?l"
  proof -
    have ten: "(h * 60 + m) mod 10 = m mod 10"
      using mod_mult_self2[of m 10 "6 * h"] by (simp add: algebra_simps)
    have "?d \<le> s * ?n + x" if "m mod 10 \<noteq> 0"
    proof (cases "tf_mode f")
      case NonDropFrame
      then show ?thesis using f b nominal_pos[of f] by (simp add: tf_ok_def)
    next
      case DropFrame
      then obtain k where k: "0 < k" "?n = 30 * k" "?d = 2 * k" using f by (auto simp: tf_ok_def)
      show ?thesis
      proof (cases "s = 0")
        case False
        then have "1 * ?n \<le> s * ?n" using b k by (intro mult_right_mono) simp_all
        moreover have "?d \<le> ?n" using k by simp
        ultimately show ?thesis using b by linarith
      qed (use kept DropFrame that in simp)
    qed
    then show ?thesis unfolding label_kept_def u ten by simp
  qed
  then have lab: "drop_label ?n ?d \<bar>tc_frames t\<bar> = ?l"
    using label_inverse[OF nominal_pos[of f] tf_drop_bounds(1,2)[OF f] l0] c0 tc(3) by (simp split: if_splits)
  have same: "show_padded w (nat v) = str" if "parse_digits str = Inr v" "length (show_padded w (nat v)) = length str" for str v w
    using that digit_texts_inj[of "show_padded w (nat v)" str]
    by (simp add: parse_digits_Inr show_padded_ascii show_padded_value)
  have d2: "length (dec_digits k) \<le> 2" if "k \<le> 59" for k :: nat
    using that by (intro length_dec_digits_le) simp_all
  have ms: "show_padded 2 (nat m) = ms" and ss: "show_padded 2 (nat s) = ss"
    using same[OF vals(2), of 2] same[OF vals(3), of 2] texts le d2[of "nat m"] d2[of "nat s"]
    by (simp_all add: length_show_padded)
  have fs: "show_padded (frame_width f) (nat x) = fs"
  proof (rule same[OF vals(4)])
    have "length (dec_digits (nat x)) \<le> length (dec_digits (nat (?n - 1)))"
      using le(3) by (intro length_dec_digits_mono) simp
    then show "length (show_padded (frame_width f) (nat x)) = length fs"
      using texts by (simp add: length_show_padded frame_width_dec)
  qed
  have "tc_display t = (if negative then ''-'' else [])
     @ label_body (show_padded 2 (nat h)) ms ss (mode_separator (tf_mode f)) fs"
    using tc_display_fields(1)[OF tc(1)] unfolding tc(2) lab u neg ms ss fs .
  with tc neg vals(1) show ?thesis by (auto simp: parse_digits_Inr)
qed

lemma display_parse:
  assumes "tf_ok f" "tc_parse label f = Inr t" "length label = length (tc_display t)"
  shows "tc_display t = label"
proof -
  define negative body where "negative \<longleftrightarrow> label \<noteq> [] \<and> hd label = CHR ''-''"
    and "body = (if negative then tl label else label)"
  have label: "label = (if negative then ''-'' else []) @ body"
    by (cases label) (auto simp: negative_def body_def)
  have "parse_body negative body f = Inr t"
    using assms(2) by (auto simp: tc_parse_def negative_def body_def split: list.splits if_splits)
  then obtain hs ms ss fs where body: "body = label_body hs ms ss (mode_separator (tf_mode f)) fs"
    and run: "parse_fields negative f hs ms ss fs = Inr t" by (rule parse_body_Inr)
  from display_parse_fields[OF assms(1) run] obtain w where w:
    "tc_display t = (if negative then ''-'' else [])
       @ label_body (show_padded 2 w) ms ss (mode_separator (tf_mode f)) fs"
    "list_all is_digit hs" "digits_value (map char_digit hs) = w" by blast
  have "length (show_padded 2 w) = length hs"
    using assms(3) by (simp add: label body w(1) label_body_def)
  then have "show_padded 2 w = hs"
    using w by (intro digit_texts_inj) (simp_all add: show_padded_ascii show_padded_value)
  with w(1) label body show ?thesis by simp
qed

section \<open>Properties\<close>

definition df30 :: timecode_format where
  "df30 = \<lparr>tf_rate = fps_30000_1001, tf_mode = DropFrame, tf_drop_frames_per_minute = 2\<rparr>"

lemma df30_ok: "tf_drop_frame fps_30000_1001 = Inr df30" "tf_ok df30"
proof -
  show df: "tf_drop_frame fps_30000_1001 = Inr df30"
    by (simp add: df30_def tf_drop_frame_def fps_30000_1001_def fr_of_def fr_nominal_fps_def fr_numerator_def
        fr_denominator_def tb_from_reduced_def checked_u32_def in_u32_def)
  have "coprime (30000::int) 1001" by (simp add: coprime_iff_gcd_eq_1 gcd_non_0_int)
  then have "tb_ok (fr_timebase fps_30000_1001)"
    by (simp add: fps_30000_1001_def fr_of_def tb_ok_def tb_from_reduced_def)
  with tf_drop_frame_ok df show "tf_ok df30" by blast
qed

text \<open>
  C38: Printing a frame count and parsing the label under the same format gives back the count,
  for every supported format, drop-frame or not, and every signed 64-bit count.
\<close>

theorem timecode_parse_display:
  assumes "tc_ok t"
  shows "tc_parse (tc_display t) (tc_format t) = Inr t"
  by (rule parse_display[OF assms])

text \<open>The first label after the first dropped pair.\<close>

theorem timecode_parse_display_witness:
  "tc_display (tc_from_frames 1800 df30) = ''00:01:00;02''
   \<and> tc_parse ''00:01:00;02'' df30 = Inr (tc_from_frames 1800 df30)"
proof -
  have d: "tc_display (tc_from_frames 1800 df30) = ''00:01:00;02''" by code_simp
  have "tc_ok (tc_from_frames 1800 df30)"
    by (simp add: tc_ok_def tc_from_frames_def in_i64_def df30_ok)
  from timecode_parse_display[OF this] d show ?thesis by (simp add: tc_from_frames_def)
qed

text \<open>
  A label that parses and has the length of the printed form of its result is that
  printed form: two different labels of canonical length never name the same frame, and the
  omitted labels of a drop-frame format never parse.
\<close>

theorem timecode_display_parse:
  assumes "tf_ok f" "tc_parse label f = Inr t" "length label = length (tc_display t)"
  shows "tc_display t = label"
  by (rule display_parse[OF assms])

theorem timecode_display_parse_witness:
  "tc_display (tc_from_frames (-1798) df30) = ''-00:00:59;28''"
proof -
  have "returns (tc_parse ''-00:00:59;28'' df30) (tc_from_frames (-1798) df30)" by code_simp
  then have p: "tc_parse ''-00:00:59;28'' df30 = Inr (tc_from_frames (-1798) df30)"
    by (simp add: returns_iff)
  have "length (tc_display (tc_from_frames (-1798) df30)) = 12" by code_simp
  then have "length ''-00:00:59;28'' = length (tc_display (tc_from_frames (-1798) df30))" by simp
  from timecode_display_parse[OF df30_ok(2) p this] show ?thesis .
qed

end
