(* ===== verification/CoreIds.thy ===== *)
theory CoreIds
  imports CoreError
begin

text \<open>
  \<open>superi-core/src/ids.rs\<close>: typed 128-bit identifiers. The macro \<open>define_identifier!\<close> declares
  one struct per kind around a \<open>u128\<close>; here one type \<open>'k typed_id\<close> over \<open>128 word\<close> whose
  phantom parameter keeps the kinds apart, so that a clip identifier is no track identifier.
  Printing and parsing take the kind the struct's constant \<open>KIND\<close> holds.
\<close>

unbundle bit_operations_syntax

datatype identifier_kind =
  ProjectKind | MediaKind | BinKind | SmartCollectionKind | TrackKind | ClipKind | TimelineKind | GapKind
  | TransitionKind | GeneratorKind | CaptionKind | MarkerKind | NodeKind | ParameterKind | JobKind
  | CacheKind | DeviceKind | GraphKind | PortKind | EdgeKind | ResourceKind | MulticamAngleKind

definition identifier_kind_all :: "identifier_kind list" where
  "identifier_kind_all =
     [ProjectKind, MediaKind, BinKind, SmartCollectionKind, TrackKind, ClipKind, TimelineKind, GapKind,
      TransitionKind, GeneratorKind, CaptionKind, MarkerKind, NodeKind, ParameterKind, JobKind,
      CacheKind, DeviceKind, GraphKind, PortKind, EdgeKind, ResourceKind, MulticamAngleKind]"

fun identifier_kind_code :: "identifier_kind \<Rightarrow> string" where
  "identifier_kind_code ProjectKind = ''project''"
| "identifier_kind_code MediaKind = ''media''"
| "identifier_kind_code BinKind = ''bin''"
| "identifier_kind_code SmartCollectionKind = ''smart_collection''"
| "identifier_kind_code TrackKind = ''track''"
| "identifier_kind_code ClipKind = ''clip''"
| "identifier_kind_code TimelineKind = ''timeline''"
| "identifier_kind_code GapKind = ''gap''"
| "identifier_kind_code TransitionKind = ''transition''"
| "identifier_kind_code GeneratorKind = ''generator''"
| "identifier_kind_code CaptionKind = ''caption''"
| "identifier_kind_code MarkerKind = ''marker''"
| "identifier_kind_code NodeKind = ''node''"
| "identifier_kind_code ParameterKind = ''parameter''"
| "identifier_kind_code JobKind = ''job''"
| "identifier_kind_code CacheKind = ''cache''"
| "identifier_kind_code DeviceKind = ''device''"
| "identifier_kind_code GraphKind = ''graph''"
| "identifier_kind_code PortKind = ''port''"
| "identifier_kind_code EdgeKind = ''edge''"
| "identifier_kind_code ResourceKind = ''resource''"
| "identifier_kind_code MulticamAngleKind = ''multicam-angle''"

definition identifier_kind_from_code :: "string \<Rightarrow> identifier_kind option" where
  "identifier_kind_from_code code =
     (if code = ''project'' then Some ProjectKind
      else if code = ''media'' then Some MediaKind
      else if code = ''bin'' then Some BinKind
      else if code = ''smart_collection'' then Some SmartCollectionKind
      else if code = ''track'' then Some TrackKind
      else if code = ''clip'' then Some ClipKind
      else if code = ''timeline'' then Some TimelineKind
      else if code = ''gap'' then Some GapKind
      else if code = ''transition'' then Some TransitionKind
      else if code = ''generator'' then Some GeneratorKind
      else if code = ''caption'' then Some CaptionKind
      else if code = ''marker'' then Some MarkerKind
      else if code = ''node'' then Some NodeKind
      else if code = ''parameter'' then Some ParameterKind
      else if code = ''job'' then Some JobKind
      else if code = ''cache'' then Some CacheKind
      else if code = ''device'' then Some DeviceKind
      else if code = ''graph'' then Some GraphKind
      else if code = ''port'' then Some PortKind
      else if code = ''edge'' then Some EdgeKind
      else if code = ''resource'' then Some ResourceKind
      else if code = ''multicam-angle'' then Some MulticamAngleKind
      else None)"

interpretation kind_codes: code_table identifier_kind_code identifier_kind_from_code identifier_kind_all
proof unfold_locales
  show "identifier_kind_from_code (identifier_kind_code x) = Some x" for x
    by (cases x) (simp_all add: identifier_kind_from_code_def)
  show "identifier_kind_from_code s = Some x \<Longrightarrow> identifier_kind_code x = s" for s x
    by (auto simp: identifier_kind_from_code_def split: if_splits)
  show "x \<in> set identifier_kind_all" for x
    by (cases x) (simp_all add: identifier_kind_all_def)
qed

section \<open>Identifier values\<close>

datatype (dead 'k) typed_id = TypedId (raw_id: "128 word")

typedecl project_domain
typedecl media_domain
typedecl track_domain
typedecl clip_domain
typedecl timeline_domain
typedecl gap_domain
typedecl transition_domain
typedecl generator_domain
typedecl caption_domain
typedecl marker_domain
typedecl node_domain
typedecl graph_domain
typedecl port_domain
typedecl edge_domain
typedecl job_domain
typedecl cache_domain
typedecl device_domain
typedecl multicam_angle_domain
typedecl parameter_domain
typedecl bin_domain
typedecl smart_collection_domain

type_synonym project_id = "project_domain typed_id"
type_synonym media_id = "media_domain typed_id"
type_synonym track_id = "track_domain typed_id"
type_synonym clip_id = "clip_domain typed_id"
type_synonym timeline_id = "timeline_domain typed_id"
type_synonym gap_id = "gap_domain typed_id"
type_synonym transition_id = "transition_domain typed_id"
type_synonym generator_id = "generator_domain typed_id"
type_synonym caption_id = "caption_domain typed_id"
type_synonym marker_id = "marker_domain typed_id"
type_synonym node_id = "node_domain typed_id"
type_synonym graph_id = "graph_domain typed_id"
type_synonym port_id = "port_domain typed_id"
type_synonym edge_id = "edge_domain typed_id"
type_synonym job_id = "job_domain typed_id"
type_synonym cache_id = "cache_domain typed_id"
type_synonym device_id = "device_domain typed_id"
type_synonym multicam_angle_id = "multicam_angle_domain typed_id"
type_synonym parameter_id = "parameter_domain typed_id"
type_synonym bin_id = "bin_domain typed_id"
type_synonym smart_collection_id = "smart_collection_domain typed_id"

text \<open>The derived order of the struct is the order of its one field.\<close>

instantiation typed_id :: (type) linorder
begin

definition less_eq_typed_id :: "'a typed_id \<Rightarrow> 'a typed_id \<Rightarrow> bool" where
  "less_eq_typed_id x y \<longleftrightarrow> raw_id x \<le> raw_id y"

definition less_typed_id :: "'a typed_id \<Rightarrow> 'a typed_id \<Rightarrow> bool" where
  "less_typed_id x y \<longleftrightarrow> raw_id x < raw_id y"

instance
  by standard (auto simp: less_eq_typed_id_def less_typed_id_def typed_id.expand)

end

section \<open>Printing and parsing\<close>

datatype parse_identifier_error =
    MissingSeparator
  | UnknownKind
  | UnexpectedKind identifier_kind identifier_kind
  | InvalidLength nat nat
  | InvalidHex nat

fun split_once :: "char \<Rightarrow> string \<Rightarrow> (string \<times> string) option" where
  "split_once d [] = None"
| "split_once d (c # cs) =
     (if c = d then Some ([], cs)
      else map_option (\<lambda>(before, after). (c # before, after)) (split_once d cs))"

definition hex_nibble :: "char \<Rightarrow> nat option" where
  "hex_nibble c =
     (let byte = (of_char c :: nat)
      in if 48 \<le> byte \<and> byte \<le> 57 then Some (byte - 48)
         else if 97 \<le> byte \<and> byte \<le> 102 then Some (byte - 97 + 10)
         else None)"

text \<open>The loop over the payload, with the index of the byte it reads.\<close>

fun parse_hex :: "nat \<Rightarrow> string \<Rightarrow> 128 word \<Rightarrow> parse_identifier_error + 128 word" where
  "parse_hex index [] raw = Inr raw"
| "parse_hex index (c # cs) raw =
     (case hex_nibble c of
        None \<Rightarrow> Inl (InvalidHex index)
      | Some nibble \<Rightarrow> parse_hex (Suc index) cs (push_bit 4 raw OR word_of_nat nibble))"

definition parse_identifier :: "string \<Rightarrow> identifier_kind \<Rightarrow> parse_identifier_error + 128 word" where
  "parse_identifier input expected =
     bindR (ok_or (split_once CHR '':'' input) MissingSeparator) (\<lambda>(kind_code, payload).
     bindR (ok_or (identifier_kind_from_code kind_code) UnknownKind) (\<lambda>actual.
       if actual \<noteq> expected then Inl (UnexpectedKind expected actual)
       else if length payload \<noteq> 32 then Inl (InvalidLength 32 (length payload))
       else parse_hex 0 payload 0))"

definition id_from_str :: "identifier_kind \<Rightarrow> string \<Rightarrow> parse_identifier_error + 'k typed_id" where
  "id_from_str kind input = mapR TypedId (parse_identifier input kind)"

definition hex_char :: "nat \<Rightarrow> char" where
  "hex_char d = char_of (if d < 10 then 48 + d else 87 + d)"

fun hex_digits :: "nat \<Rightarrow> nat \<Rightarrow> nat list" where
  "hex_digits 0 n = []"
| "hex_digits (Suc w) n = hex_digits w (n div 16) @ [n mod 16]"

definition id_display :: "identifier_kind \<Rightarrow> 'k typed_id \<Rightarrow> string" where
  "id_display kind x =
     identifier_kind_code kind @ '':'' @ map hex_char (hex_digits 32 (unat (raw_id x)))"

section \<open>Round trip\<close>

lemma split_once_first: "d \<notin> set xs \<Longrightarrow> split_once d (xs @ d # ys) = Some (xs, ys)"
  by (induction xs) auto

lemma split_once_Some: "split_once d s = Some (xs, ys) \<Longrightarrow> s = xs @ d # ys \<and> d \<notin> set xs"
  by (induction s arbitrary: xs) (auto split: if_splits)

lemma kind_code_no_colon: "CHR '':'' \<notin> set (identifier_kind_code k)"
  by (cases k) simp_all

lemma length_hex_digits [simp]: "length (hex_digits w n) = w"
  by (induction w arbitrary: n) simp_all

lemma hex_digits_small: "d \<in> set (hex_digits w n) \<Longrightarrow> d < 16"
  by (induction w arbitrary: n) auto

lemma hex_nibble_char: "d < 16 \<Longrightarrow> hex_nibble (hex_char d) = Some d"
  by (auto simp: hex_nibble_def hex_char_def Let_def)

lemma hex_nibble_Some: "hex_nibble c = Some d \<Longrightarrow> d < 16 \<and> hex_char d = c"
  by (auto simp: hex_nibble_def hex_char_def Let_def split: if_splits)

text \<open>One step of the loop is multiplication by sixteen and addition, as long as it fits.\<close>

lemma shift_or_nibble:
  fixes raw :: "128 word"
  assumes "unat raw * 16 + d < 2 ^ 128" and "d < 16"
  shows "unat (push_bit 4 raw OR word_of_nat d) = unat raw * 16 + d"
proof -
  have "push_bit 4 (unat raw) OR d = unat raw * 16 + d"
  proof -
    have "\<not> bit (push_bit 4 (unat raw)) n \<or> \<not> bit d n" for n
    proof (cases "n < 4")
      case True
      then show ?thesis by (simp add: bit_push_bit_iff)
    next
      case False
      then have "d div 2 ^ n = 0" using assms(2)
        by (intro div_less) (rule less_le_trans[of d "2 ^ 4" "2 ^ n"], simp, rule power_increasing, simp_all)
      then have "\<not> bit d n" by (simp add: bit_iff_odd)
      then show ?thesis ..
    qed
    then have "push_bit 4 (unat raw) + d = push_bit 4 (unat raw) OR d"
      by (rule disjunctive_add)
    then show ?thesis by (simp add: push_bit_eq_mult)
  qed
  moreover have "unat (push_bit 4 raw) = push_bit 4 (unat raw)"
  proof -
    have "unat (push_bit 4 raw) = take_bit 128 (push_bit 4 (unat raw))"
      by (subst unsigned_push_bit_eq) simp
    also have "\<dots> = push_bit 4 (unat raw)"
      using assms(1) by (intro take_bit_nat_eq_self) (simp add: push_bit_eq_mult)
    finally show ?thesis .
  qed
  moreover have "unat (word_of_nat d :: 128 word) = d"
    using assms(2) by (simp add: unat_of_nat)
  ultimately show ?thesis by (simp only: unsigned_or_eq)
qed

definition hex_value :: "nat list \<Rightarrow> nat" where
  "hex_value ds = foldl (\<lambda>acc d. acc * 16 + d) 0 ds"

lemma hex_value_digits: "hex_value (hex_digits w n) = n mod 16 ^ w"
proof (induction w arbitrary: n)
  case 0
  then show ?case by (simp add: hex_value_def)
next
  case (Suc w)
  have "n mod (16 * 16 ^ w) = 16 * (n div 16 mod 16 ^ w) + n mod 16"
    by (rule mod_mult2_eq)
  then show ?case using Suc by (simp add: hex_value_def)
qed

lemma foldl_hex: "foldl (\<lambda>acc d. acc * 16 + d) a ds = a * 16 ^ length ds + hex_value ds"
proof (induction ds rule: rev_induct)
  case Nil
  then show ?case by (simp add: hex_value_def)
next
  case (snoc d ds)
  then show ?case by (simp add: hex_value_def algebra_simps)
qed

lemma hex_value_less: "(\<And>d. d \<in> set ds \<Longrightarrow> d < 16) \<Longrightarrow> hex_value ds < 16 ^ length ds"
proof (induction ds rule: rev_induct)
  case Nil
  then show ?case by (simp add: hex_value_def)
next
  case (snoc d ds)
  then have "hex_value ds < 16 ^ length ds" "d < 16" by simp_all
  then have "hex_value ds * 16 + d < 16 * 16 ^ length ds" by linarith
  then show ?case by (simp add: hex_value_def)
qed

lemma hex_digits_value: "(\<And>d. d \<in> set ds \<Longrightarrow> d < 16) \<Longrightarrow> hex_digits (length ds) (hex_value ds) = ds"
proof (induction ds rule: rev_induct)
  case Nil
  then show ?case by simp
next
  case (snoc d ds)
  then show ?case by (simp add: hex_value_def)
qed

lemma parse_hex_digits:
  assumes "\<And>d. d \<in> set ds \<Longrightarrow> d < 16"
    and "unat raw * 16 ^ length ds + hex_value ds < 2 ^ 128"
  shows "\<exists>w. parse_hex i (map hex_char ds) raw = Inr w
     \<and> unat w = unat raw * 16 ^ length ds + hex_value ds"
  using assms
proof (induction ds arbitrary: i raw)
  case Nil
  then show ?case by (simp add: hex_value_def)
next
  case (Cons d ds)
  have val: "hex_value (d # ds) = d * 16 ^ length ds + hex_value ds"
    using foldl_hex[of d ds] by (simp add: hex_value_def)
  have d: "d < 16" using Cons.prems(1) by simp
  have total: "(unat raw * 16 + d) * 16 ^ length ds + hex_value ds < 2 ^ 128"
    using Cons.prems(2) unfolding val by (simp add: algebra_simps)
  have "unat raw * 16 + d \<le> (unat raw * 16 + d) * 16 ^ length ds" by simp
  with total have fits: "unat raw * 16 + d < 2 ^ 128" by linarith
  note step = shift_or_nibble[OF fits d]
  have "\<exists>w. parse_hex (Suc i) (map hex_char ds) (push_bit 4 raw OR word_of_nat d) = Inr w
     \<and> unat w = (unat raw * 16 + d) * 16 ^ length ds + hex_value ds"
    using Cons.IH[of "push_bit 4 raw OR word_of_nat d" "Suc i"] Cons.prems(1) total
    unfolding step by simp
  then show ?case
    using d val by (auto simp: hex_nibble_char algebra_simps)
qed

lemma parse_hex_canonical: "parse_hex i s raw = Inr w \<Longrightarrow> \<exists>ds. s = map hex_char ds \<and> (\<forall>d\<in>set ds. d < 16)"
proof (induction s arbitrary: i raw)
  case Nil
  then show ?case by simp
next
  case (Cons c cs)
  then obtain d where d: "hex_nibble c = Some d" by (auto split: option.splits)
  with Cons.prems Cons.IH obtain ds where "cs = map hex_char ds" "\<forall>d\<in>set ds. d < 16"
    by fastforce
  with hex_nibble_Some[OF d] show ?case by (intro exI[of _ "d # ds"]) auto
qed

lemma id_parse_display: "id_from_str kind (id_display kind x) = Inr x"
proof -
  let ?ds = "hex_digits 32 (unat (raw_id x))"
  have bound: "unat (raw_id x) < 16 ^ 32" using unsigned_less[of "raw_id x"] by simp
  then have val: "hex_value ?ds = unat (raw_id x)" by (simp add: hex_value_digits)
  have "\<exists>w. parse_hex 0 (map hex_char ?ds) 0 = Inr w \<and> unat w = unat (raw_id x)"
    using parse_hex_digits[of ?ds 0 0] hex_digits_small bound unfolding val by simp
  then have "parse_hex 0 (map hex_char ?ds) 0 = Inr (raw_id x)"
    by (auto simp: unsigned_word_eqI)
  moreover have "split_once CHR '':'' (id_display kind x) = Some (identifier_kind_code kind, map hex_char ?ds)"
    unfolding id_display_def using split_once_first[OF kind_code_no_colon, of kind] by simp
  ultimately show ?thesis
    by (simp add: id_from_str_def parse_identifier_def kind_codes.of_to_code)
qed

lemma id_display_parse:
  assumes "id_from_str kind s = Inr x"
  shows "id_display kind x = s"
proof -
  from assms obtain code payload where
    split: "split_once CHR '':'' s = Some (code, payload)" and
    code: "identifier_kind_from_code code = Some kind" and
    len: "length payload = 32" and
    hex: "parse_hex 0 payload 0 = Inr (raw_id x)"
    by (auto simp: id_from_str_def parse_identifier_def result_simps split: prod.splits if_splits)
  from hex parse_hex_canonical obtain ds where
    ds: "payload = map hex_char ds" "\<forall>d\<in>set ds. d < 16" by blast
  then have lds: "length ds = 32" using len by simp
  have "hex_value ds < 16 ^ 32" using hex_value_less[of ds] ds(2) lds by simp
  then have "\<exists>w. parse_hex 0 (map hex_char ds) 0 = Inr w \<and> unat w = hex_value ds"
    using parse_hex_digits[of ds 0 0] ds(2) by simp
  with hex ds(1) have "unat (raw_id x) = hex_value ds" by simp
  then have "hex_digits 32 (unat (raw_id x)) = ds"
    using hex_digits_value[of ds] ds(2) lds by simp
  then show ?thesis
    using split_once_Some[OF split] kind_codes.to_of_code[OF code] ds(1)
    by (simp add: id_display_def)
qed

text \<open>
  A string parses as an identifier of a kind exactly when it is the printed form of the
  result under that kind: printing is injective, every printed identifier is accepted, and no
  other spelling of it (another kind, upper-case digits, other lengths) is.
\<close>

theorem identifier_text_canonical:
  "id_from_str kind s = Inr x \<longleftrightarrow> s = id_display kind x"
  using id_parse_display id_display_parse by metis

end
