(* ===== verification/TrackSemantics.thy ===== *)
theory TrackSemantics
  imports CoreIds CoreTimeLaws
begin

text \<open>
  \<open>superi-timeline/src/model.rs\<close>, lines 34 to 1001: what a track carries. Video compositing,
  audio routing over an ordered channel layout (\<open>superi-core/src/pixel.rs\<close>), sample-accurate
  audio spans with their continuity audit, caption languages and data schemas. Strings are
  their UTF-8 bytes.
\<close>

section \<open>Errors of the module\<close>

definition invalid_model :: "string \<Rightarrow> string \<Rightarrow> error_value" where
  "invalid_model operation message =
     err_with_context (err_new InvalidInput UserCorrectable message)
       (ctx_new ''superi-timeline.model'' operation)"

lemma invalid_model_cong [cong]: "invalid_model operation message = invalid_model operation message"
  by (rule refl)

section \<open>Channel layouts\<close>

datatype channel_position = FrontLeft | FrontRight | FrontCenter | LowFrequency | BackLeft
  | BackRight | FrontLeftOfCenter | FrontRightOfCenter | BackCenter | SideLeft | SideRight
  | TopCenter | TopFrontLeft | TopFrontCenter | TopFrontRight | TopBackLeft | TopBackCenter
  | TopBackRight | Discrete (discrete_index: int)

record channel_layout =
  layout_positions :: "channel_position list"

definition invalid_layout :: "string \<Rightarrow> nat \<Rightarrow> error_value" where
  "invalid_layout message channel_count =
     err_with_context (err_new InvalidInput UserCorrectable message)
       (ctx_with_field (ctx_new ''superi-core.pixel'' ''create_channel_layout'')
          ''channel_count'' (show_nat channel_count))"

lemma invalid_layout_cong [cong]: "invalid_layout message n = invalid_layout message n"
  by (rule refl)

text \<open>The loop over the positions, with the ones already seen.\<close>

fun check_distinct :: "channel_position list \<Rightarrow> channel_position list \<Rightarrow> nat \<Rightarrow> unit result" where
  "check_distinct seen [] n = Inr ()"
| "check_distinct seen (p # ps) n =
     (if p \<in> set seen
      then Inl (invalid_layout ''channel layout contains a duplicate position'' n)
      else check_distinct (seen @ [p]) ps n)"

definition layout_new :: "channel_position list \<Rightarrow> channel_layout result" where
  "layout_new positions =
     (if positions = []
      then Inl (invalid_layout ''channel layout must contain at least one position'' 0)
      else bindR (check_distinct [] positions (length positions))
             (\<lambda>_. Inr \<lparr>layout_positions = positions\<rparr>))"

section \<open>Video and audio semantics\<close>

datatype track_kind = VideoKind | AudioKind | CaptionTrackKind | DataKind

datatype video_compositing = CompositeOver | CompositeReplace

record video_track_semantics =
  vs_frame_rate :: frame_rate
  vs_compositing :: video_compositing

definition vs_new :: "frame_rate \<Rightarrow> video_compositing \<Rightarrow> video_track_semantics" where
  "vs_new fr compositing = \<lparr>vs_frame_rate = fr, vs_compositing = compositing\<rparr>"

definition vs_with_compositing :: "video_track_semantics \<Rightarrow> video_compositing \<Rightarrow> video_track_semantics" where
  "vs_with_compositing s compositing = vs_new (vs_frame_rate s) compositing"

datatype audio_route_destination = MainBus | TrackBus track_id

datatype audio_channel_target = TargetChannel channel_position | TargetMuted

record audio_channel_route =
  route_source :: channel_position
  route_target :: audio_channel_target

record audio_routing =
  routing_destination :: audio_route_destination
  routing_layout :: channel_layout
  routing_routes :: "audio_channel_route list"

fun check_routes :: "channel_layout \<Rightarrow> audio_channel_route list \<Rightarrow> audio_channel_route list \<Rightarrow> unit result" where
  "check_routes layout seen [] = Inr ()"
| "check_routes layout seen (route # rest) =
     (if list_ex (\<lambda>candidate. route_source candidate = route_source route) seen
      then Inl (invalid_model ''create_audio_routing'' ''audio routing contains a duplicate source channel'')
      else case route_target route of
             TargetChannel position \<Rightarrow>
               if position \<notin> set (layout_positions layout)
               then Inl (invalid_model ''create_audio_routing''
                      ''audio route target is absent from the destination layout'')
               else check_routes layout (seen @ [route]) rest
           | TargetMuted \<Rightarrow> check_routes layout (seen @ [route]) rest)"

definition routing_new ::
  "audio_route_destination \<Rightarrow> channel_layout \<Rightarrow> audio_channel_route list \<Rightarrow> audio_routing result" where
  "routing_new destination layout routes =
     (if routes = []
      then Inl (invalid_model ''create_audio_routing''
             ''audio routing must contain at least one source decision'')
      else bindR (check_routes layout [] routes) (\<lambda>_.
        Inr \<lparr>routing_destination = destination, routing_layout = layout, routing_routes = routes\<rparr>))"

record audio_track_semantics =
  as_sample_rate :: int
  as_channel_layout :: channel_layout
  as_routing :: audio_routing

definition as_new :: "int \<Rightarrow> channel_layout \<Rightarrow> audio_routing \<Rightarrow> audio_track_semantics result" where
  "as_new sample_rate layout routing =
     bindR (tb_integer sample_rate) (\<lambda>_.
     if length (routing_routes routing) \<noteq> length (layout_positions layout)
        \<or> list_ex (\<lambda>(route, position). route_source route \<noteq> position)
             (zip (routing_routes routing) (layout_positions layout))
     then Inl (invalid_model ''create_audio_track_semantics''
            ''audio routing must describe every source channel exactly once in stream order'')
     else Inr \<lparr>as_sample_rate = sample_rate, as_channel_layout = layout, as_routing = routing\<rparr>)"

text \<open>The source unwraps the result; a stored sample rate is nonzero.\<close>

definition as_timebase :: "audio_track_semantics \<Rightarrow> timebase" where
  "as_timebase s = projr (tb_integer (as_sample_rate s))"

definition as_with_routing :: "audio_track_semantics \<Rightarrow> audio_routing \<Rightarrow> audio_track_semantics result" where
  "as_with_routing s routing = as_new (as_sample_rate s) (as_channel_layout s) routing"

section \<open>Audio spans\<close>

record audio_span =
  sp_clip_id :: clip_id
  sp_record_start :: sample_time
  sp_source_start :: sample_time
  sp_sample_count :: int

definition sp_sample_rate :: "audio_span \<Rightarrow> int" where
  "sp_sample_rate s = st_sample_rate (sp_source_start s)"

definition checked_sample_end :: "sample_time \<Rightarrow> int \<Rightarrow> string \<Rightarrow> sample_time result" where
  "checked_sample_end start sample_count operation =
     bindR (ok_or (checked_i64 sample_count)
              (invalid_model operation ''audio span exceeds the supported sample coordinate range'')) (\<lambda>sample_count.
     bindR (ok_or (checked_i64 (st_sample start + sample_count))
              (invalid_model operation ''audio span exceeds the supported sample coordinate range'')) (\<lambda>sample.
       st_new sample (st_sample_rate start)))"

definition sp_from_sample_starts ::
  "clip_id \<Rightarrow> sample_time \<Rightarrow> sample_time \<Rightarrow> int \<Rightarrow> audio_span result" where
  "sp_from_sample_starts clip record_start source_start sample_count =
     (if st_sample_rate record_start \<noteq> st_sample_rate source_start
      then Inl (invalid_model ''create_audio_span''
             ''audio record and source positions must use one sample rate'')
      else if sample_count = 0
      then Inl (invalid_model ''create_audio_span''
             ''audio span must contain at least one sample frame'')
      else bindR (checked_sample_end record_start sample_count ''create_audio_span'') (\<lambda>_.
           bindR (checked_sample_end source_start sample_count ''create_audio_span'') (\<lambda>_.
             Inr \<lparr>sp_clip_id = clip, sp_record_start = record_start, sp_source_start = source_start,
                  sp_sample_count = sample_count\<rparr>)))"

definition sp_new :: "clip_id \<Rightarrow> rational_time \<Rightarrow> sample_time \<Rightarrow> int \<Rightarrow> audio_span result" where
  "sp_new clip record_start source_start sample_count =
     bindR (map_errR (\<lambda>_. invalid_model ''create_audio_span''
                       ''audio record start must fall on an exact sample boundary'')
              (rt_checked_rescale record_start (st_timebase source_start) RoundExact)) (\<lambda>rescaled.
     bindR (st_new (rt_value rescaled) (st_sample_rate source_start)) (\<lambda>record_start.
       sp_from_sample_starts clip record_start source_start sample_count))"

definition sp_record_end :: "audio_span \<Rightarrow> sample_time result" where
  "sp_record_end s = checked_sample_end (sp_record_start s) (sp_sample_count s) ''audio_span_record_end''"

definition sp_source_end :: "audio_span \<Rightarrow> sample_time result" where
  "sp_source_end s = checked_sample_end (sp_source_start s) (sp_sample_count s) ''audio_span_source_end''"

definition sp_record_range :: "audio_span \<Rightarrow> time_range result" where
  "sp_record_range s =
     bindR (du_from_samples (sp_sample_count s) (sp_sample_rate s)) (\<lambda>d.
       tr_new (st_rational_time (sp_record_start s)) d)"

definition sp_source_range :: "audio_span \<Rightarrow> time_range result" where
  "sp_source_range s =
     bindR (du_from_samples (sp_sample_count s) (sp_sample_rate s)) (\<lambda>d.
       tr_new (st_rational_time (sp_source_start s)) d)"

definition sp_split_at :: "audio_span \<Rightarrow> int \<Rightarrow> (audio_span \<times> audio_span) result" where
  "sp_split_at s sample_offset =
     (if sample_offset = 0 \<or> sample_offset \<ge> sp_sample_count s
      then Inl (invalid_model ''split_audio_span'' ''audio split must fall strictly inside the span'')
      else
      bindR (sp_from_sample_starts (sp_clip_id s) (sp_record_start s) (sp_source_start s) sample_offset) (\<lambda>left.
      bindR (checked_sample_end (sp_record_start s) sample_offset ''split_audio_span'') (\<lambda>record_start.
      bindR (checked_sample_end (sp_source_start s) sample_offset ''split_audio_span'') (\<lambda>source_start.
      bindR (sp_from_sample_starts (sp_clip_id s) record_start source_start (sp_sample_count s - sample_offset)) (\<lambda>right.
        Inr (left, right))))))"

definition sp_trim_start :: "audio_span \<Rightarrow> int \<Rightarrow> audio_span result" where
  "sp_trim_start s sample_count =
     (if sample_count \<ge> sp_sample_count s
      then Inl (invalid_model ''trim_audio_span_start'' ''audio trim must leave at least one sample frame'')
      else
      bindR (checked_sample_end (sp_record_start s) sample_count ''trim_audio_span_start'') (\<lambda>record_start.
      bindR (checked_sample_end (sp_source_start s) sample_count ''trim_audio_span_start'') (\<lambda>source_start.
        sp_from_sample_starts (sp_clip_id s) record_start source_start (sp_sample_count s - sample_count))))"

definition sp_trim_end :: "audio_span \<Rightarrow> int \<Rightarrow> audio_span result" where
  "sp_trim_end s sample_count =
     (if sample_count \<ge> sp_sample_count s
      then Inl (invalid_model ''trim_audio_span_end'' ''audio trim must leave at least one sample frame'')
      else sp_from_sample_starts (sp_clip_id s) (sp_record_start s) (sp_source_start s)
             (sp_sample_count s - sample_count))"

section \<open>The continuity audit\<close>

datatype audio_record_continuity = Seamless | RecordGap int | RecordOverlap int

datatype audio_source_continuity = Continuous | Discontinuous sample_time sample_time
  | DifferentClip clip_id clip_id

record audio_seam =
  seam_left_clip_id :: clip_id
  seam_right_clip_id :: clip_id
  seam_record :: audio_record_continuity
  seam_source :: audio_source_continuity

definition audit_pair :: "audio_span \<Rightarrow> audio_span \<Rightarrow> audio_seam result" where
  "audit_pair left right =
     (if st_sample (sp_record_start right) < st_sample (sp_record_start left)
      then Inl (invalid_model ''audit_audio_continuity''
             ''audio spans must be supplied in nondecreasing record order'')
      else
      bindR (sp_record_end left) (\<lambda>left_record_end.
      bindR (ok_or (checked_i64 (st_sample (sp_record_start right) - st_sample left_record_end))
               (invalid_model ''audit_audio_continuity''
                  ''audio seam exceeds the supported sample coordinate range'')) (\<lambda>record_delta.
      let continuity = (case int_cmp record_delta 0 of
                          Equal \<Rightarrow> Seamless
                        | Greater \<Rightarrow> RecordGap \<bar>record_delta\<bar>
                        | Less \<Rightarrow> RecordOverlap \<bar>record_delta\<bar>)
      in bindR (if sp_clip_id left = sp_clip_id right
                then bindR (sp_source_end left) (\<lambda>expected.
                  let actual = sp_source_start right
                  in Inr (if st_eq expected actual then Continuous else Discontinuous expected actual))
                else Inr (DifferentClip (sp_clip_id left) (sp_clip_id right))) (\<lambda>source.
           Inr \<lparr>seam_left_clip_id = sp_clip_id left, seam_right_clip_id = sp_clip_id right,
                seam_record = continuity, seam_source = source\<rparr>))))"

fun audit_pairs :: "audio_span list \<Rightarrow> audio_seam list result" where
  "audit_pairs (left # right # rest) =
     bindR (audit_pair left right) (\<lambda>seam.
     bindR (audit_pairs (right # rest)) (\<lambda>seams. Inr (seam # seams)))"
| "audit_pairs _ = Inr []"

definition as_audit_continuity :: "audio_track_semantics \<Rightarrow> audio_span list \<Rightarrow> audio_seam list result" where
  "as_audit_continuity s spans =
     (if list_ex (\<lambda>span. sp_sample_rate span \<noteq> as_sample_rate s) spans
      then Inl (invalid_model ''audit_audio_continuity''
             ''audio span sample rate must match its track sample rate'')
      else audit_pairs spans)"

definition has_uninterrupted_record_coverage :: "audio_seam list \<Rightarrow> bool" where
  "has_uninterrupted_record_coverage seams =
     list_all (\<lambda>seam. case seam_record seam of RecordGap _ \<Rightarrow> False | _ \<Rightarrow> True) seams"

section \<open>Language tags\<close>

definition is_alpha :: "char \<Rightarrow> bool" where
  "is_alpha c \<longleftrightarrow> (65 \<le> (of_char c :: nat) \<and> (of_char c :: nat) \<le> 90) \<or> (97 \<le> (of_char c :: nat) \<and> (of_char c :: nat) \<le> 122)"

definition is_alnum :: "char \<Rightarrow> bool" where
  "is_alnum c \<longleftrightarrow> is_alpha c \<or> is_digit c"

definition is_ascii :: "string \<Rightarrow> bool" where
  "is_ascii s \<longleftrightarrow> list_all (\<lambda>c. (of_char c :: nat) < 128) s"

definition to_lower :: "char \<Rightarrow> char" where
  "to_lower c = (if 65 \<le> (of_char c :: nat) \<and> (of_char c :: nat) \<le> 90 then char_of ((of_char c :: nat) + 32) else c)"

fun split_on :: "char \<Rightarrow> string \<Rightarrow> string list" where
  "split_on d [] = [[]]"
| "split_on d (c # cs) =
     (if c = d then [] # split_on d cs
      else case split_on d cs of (s # ss) \<Rightarrow> (c # s) # ss | [] \<Rightarrow> [[c]])"

definition grandfathered :: "string list" where
  "grandfathered = [''art-lojban'', ''cel-gaulish'', ''en-gb-oed'', ''i-ami'', ''i-bnn'',
     ''i-default'', ''i-enochian'', ''i-hak'', ''i-klingon'', ''i-lux'', ''i-mingo'',
     ''i-navajo'', ''i-pwn'', ''i-tao'', ''i-tay'', ''i-tsu'', ''no-bok'', ''no-nyn'',
     ''sgn-be-fr'', ''sgn-be-nl'', ''sgn-ch-de'', ''zh-guoyu'', ''zh-hakka'', ''zh-min'',
     ''zh-min-nan'', ''zh-xiang'']"

definition is_language_variant :: "string \<Rightarrow> bool" where
  "is_language_variant subtag \<longleftrightarrow>
     (length subtag \<ge> 5 \<and> list_all is_alnum subtag)
     \<or> (length subtag = 4 \<and> is_digit (hd subtag) \<and> list_all is_alnum (tl subtag))"

text \<open>
  The index of the source advances through the subtags; here the subtags not yet read are the
  state.
\<close>

fun skip_extlangs :: "nat \<Rightarrow> string list \<Rightarrow> string list" where
  "skip_extlangs 0 subtags = subtags"
| "skip_extlangs (Suc n) [] = []"
| "skip_extlangs (Suc n) (s # ss) =
     (if length s = 3 \<and> list_all is_alpha s then skip_extlangs n ss else s # ss)"

fun skip_variants :: "string list \<Rightarrow> string list \<Rightarrow> string list option" where
  "skip_variants variants [] = Some []"
| "skip_variants variants (s # ss) =
     (if is_language_variant s
      then if s \<in> set variants then None else skip_variants (variants @ [s]) ss
      else Some (s # ss))"

function skip_extensions :: "string list \<Rightarrow> string list \<Rightarrow> string list option" where
  "skip_extensions singletons subtags =
     (case subtags of
        [] \<Rightarrow> Some []
      | s # ss \<Rightarrow>
          if length s = 1 \<and> s \<noteq> ''x''
          then if s \<in> set singletons then None
               else let rest = dropWhile (\<lambda>t. length t \<ge> 2) ss
                    in if length rest = length ss then None
                       else skip_extensions (singletons @ [s]) rest
          else Some (s # ss))"
  by pat_completeness auto
termination
  by (relation "measure (\<lambda>(_, subtags). length subtags)")
    (auto simp: length_dropWhile_le less_Suc_eq_le)

definition is_well_formed_language_tag :: "string \<Rightarrow> bool" where
  "is_well_formed_language_tag tag =
     (if tag \<in> set grandfathered then True
      else let subtags = split_on (CHR ''-'') tag
      in if list_ex (\<lambda>s. s = [] \<or> length s > 8 \<or> \<not> list_all is_alnum s) subtags then False
      else if hd subtags = ''x'' then length subtags > 1
      else let language = hd subtags
      in if \<not> (2 \<le> length language \<and> length language \<le> 8) \<or> \<not> list_all is_alpha language then False
      else let rest = (if length language \<le> 3 then skip_extlangs 3 (tl subtags) else tl subtags);
               rest = (case rest of
                  s # ss \<Rightarrow> if length s = 4 \<and> list_all is_alpha s then ss else rest
                | [] \<Rightarrow> rest);
               rest = (case rest of
                  s # ss \<Rightarrow> if (length s = 2 \<and> list_all is_alpha s) \<or> (length s = 3 \<and> list_all is_digit s)
                            then ss else rest
                | [] \<Rightarrow> rest)
      in case skip_variants [] rest of
           None \<Rightarrow> False
         | Some rest \<Rightarrow>
             (case skip_extensions [] rest of
                None \<Rightarrow> False
              | Some rest \<Rightarrow>
                  (case rest of
                     [] \<Rightarrow> True
                   | s # ss \<Rightarrow> s = ''x'' \<and> ss \<noteq> [])))"

datatype language_tag = LanguageTag (language_text: string)

definition language_tag_new :: "string \<Rightarrow> language_tag result" where
  "language_tag_new tag =
     (let tag = map to_lower tag
      in if tag = [] \<or> length tag > 255 \<or> \<not> is_ascii tag
         then Inl (invalid_model ''create_language_tag''
                ''language tag must contain between 1 and 255 ASCII bytes'')
         else if \<not> is_well_formed_language_tag tag
         then Inl (invalid_model ''create_language_tag'' ''language tag contains invalid BCP 47 syntax'')
         else Inr (LanguageTag tag))"

section \<open>Caption and data semantics\<close>

datatype caption_purpose = PurposeCaptions | PurposeSubtitles | PurposeDescriptions | PurposeChapters

record caption_track_semantics =
  cs_timebase :: timebase
  cs_language :: language_tag
  cs_purpose :: caption_purpose

record data_schema =
  ds_scheme_id_uri :: string
  ds_value :: "string option"

text \<open>ASCII whitespace or an ASCII control byte.\<close>

definition is_space_or_control :: "char \<Rightarrow> bool" where
  "is_space_or_control c \<longleftrightarrow> (of_char c :: nat) \<le> 32 \<or> (of_char c :: nat) = 127"

definition validate_data_label :: "string \<Rightarrow> string \<Rightarrow> string \<Rightarrow> unit result" where
  "validate_data_label val operation message =
     (if val = [] \<or> length val > 1024 \<or> \<not> is_ascii val \<or> list_ex is_space_or_control val
      then Inl (invalid_model operation message) else Inr ())"

definition ds_new :: "string \<Rightarrow> string option \<Rightarrow> data_schema result" where
  "ds_new scheme_id_uri val =
     bindR (validate_data_label scheme_id_uri ''create_data_schema''
              ''data scheme identifier must be nonempty bounded ASCII without whitespace'') (\<lambda>_.
     bindR (case val of
              None \<Rightarrow> Inr ()
            | Some v \<Rightarrow> validate_data_label v ''create_data_schema''
                ''data schema value must be nonempty bounded ASCII without control characters'') (\<lambda>_.
       Inr \<lparr>ds_scheme_id_uri = scheme_id_uri, ds_value = val\<rparr>))"

record data_track_semantics =
  dt_timebase :: timebase
  dt_schema :: data_schema

datatype track_semantics =
    VideoSemantics video_track_semantics
  | AudioSemantics audio_track_semantics
  | CaptionSemantics caption_track_semantics
  | DataSemantics data_track_semantics

fun ts_kind :: "track_semantics \<Rightarrow> track_kind" where
  "ts_kind (VideoSemantics _) = VideoKind"
| "ts_kind (AudioSemantics _) = AudioKind"
| "ts_kind (CaptionSemantics _) = CaptionTrackKind"
| "ts_kind (DataSemantics _) = DataKind"

fun ts_timebase :: "track_semantics \<Rightarrow> timebase" where
  "ts_timebase (VideoSemantics s) = fr_timebase (vs_frame_rate s)"
| "ts_timebase (AudioSemantics s) = as_timebase s"
| "ts_timebase (CaptionSemantics s) = cs_timebase s"
| "ts_timebase (DataSemantics s) = dt_timebase s"

declare skip_extensions.simps [simp del]

section \<open>Routing laws\<close>

lemma check_routes_ok:
  "check_routes layout seen routes = Inr u \<Longrightarrow> distinct (map route_source seen)
     \<Longrightarrow> distinct (map route_source (seen @ routes))
       \<and> (\<forall>r\<in>set routes. \<forall>p. route_target r = TargetChannel p \<longrightarrow> p \<in> set (layout_positions layout))"
proof (induction routes arbitrary: seen)
  case (Cons r rs)
  from Cons.prems have new: "route_source r \<notin> route_source ` set seen"
    and rest: "check_routes layout (seen @ [r]) rs = Inr u"
    and target: "\<forall>p. route_target r = TargetChannel p \<longrightarrow> p \<in> set (layout_positions layout)"
    by (auto simp: list_ex_iff split: if_splits audio_channel_target.splits)
  have "distinct (map route_source (seen @ [r]))" using Cons.prems(2) new by simp
  from Cons.IH[OF rest this] target show ?case by auto
qed simp

lemma routing_new_ok:
  assumes "routing_new destination layout routes = Inr r"
  shows "routing_routes r = routes \<and> routes \<noteq> [] \<and> distinct (map route_source routes)
     \<and> (\<forall>x\<in>set routes. \<forall>p. route_target x = TargetChannel p \<longrightarrow> p \<in> set (layout_positions layout))"
  using assms check_routes_ok[of layout "[]" routes]
  by (auto simp: routing_new_def result_simps split: if_splits)

lemma as_new_ok:
  assumes "as_new sample_rate layout routing = Inr s" "in_u32 sample_rate"
  shows "0 < sample_rate \<and> map route_source (routing_routes routing) = layout_positions layout
     \<and> as_timebase s = tb_from_reduced sample_rate 1 \<and> tb_ok (as_timebase s)"
proof -
  let ?bad = "length (routing_routes routing) \<noteq> length (layout_positions layout)
    \<or> list_ex (\<lambda>(route, position). route_source route \<noteq> position) (zip (routing_routes routing) (layout_positions layout))"
  from assms(1) obtain tb where tb: "tb_integer sample_rate = Inr tb" and bad: "\<not> ?bad"
    and s: "s = \<lparr>as_sample_rate = sample_rate, as_channel_layout = layout, as_routing = routing\<rparr>"
    unfolding as_new_def bindR_Inr if_Inr by blast
  from tb have "sample_rate \<noteq> 0" by (auto simp: tb_integer_def tb_new_def)
  from bad have len: "length (routing_routes routing) = length (layout_positions layout)"
    and eq: "\<forall>(r, p)\<in>set (zip (routing_routes routing) (layout_positions layout)). route_source r = p"
    unfolding list_ex_iff by blast+
  have "map route_source (routing_routes routing) = layout_positions layout"
  proof (rule nth_equalityI)
    fix i
    assume "i < length (map route_source (routing_routes routing))"
    then have "(routing_routes routing ! i, layout_positions layout ! i)
      \<in> set (zip (routing_routes routing) (layout_positions layout))" using len unfolding in_set_zip by auto
    with eq \<open>i < _\<close> show "map route_source (routing_routes routing) ! i = layout_positions layout ! i" by auto
  qed (simp add: len)
  moreover have "0 < sample_rate" using \<open>sample_rate \<noteq> 0\<close> assms(2) by (simp add: in_u32_def)
  ultimately show ?thesis using s assms(2) by (simp add: as_timebase_def tb_integer_ok in_u32_def)
qed

section \<open>Span laws\<close>

definition sp_ok :: "audio_span \<Rightarrow> bool" where
  "sp_ok s \<longleftrightarrow> st_ok (sp_record_start s) \<and> st_ok (sp_source_start s)
     \<and> st_sample_rate (sp_record_start s) = st_sample_rate (sp_source_start s)
     \<and> 0 < sp_sample_count s \<and> sp_sample_count s < 2 ^ 63
     \<and> in_i64 (st_sample (sp_record_start s) + sp_sample_count s)
     \<and> in_i64 (st_sample (sp_source_start s) + sp_sample_count s)"

definition sp_first :: "audio_span \<Rightarrow> int" where
  "sp_first s = st_sample (sp_record_start s)"

definition sp_last :: "audio_span \<Rightarrow> int" where
  "sp_last s = sp_first s + sp_sample_count s"

lemma sample_end_iff:
  assumes "st_ok t" "0 \<le> n"
  shows "checked_sample_end t n operation = Inr e \<longleftrightarrow> n < 2 ^ 63 \<and> in_i64 (st_sample t + n)
     \<and> e = \<lparr>st_sample = st_sample t + n, st_sample_rate = st_sample_rate t\<rparr>"
  using assms by (auto simp: checked_sample_end_def result_simps st_new_def st_ok_def in_i64_def)

lemma sp_from_starts_iff:
  assumes "st_ok r" "st_ok t" "0 \<le> n"
  shows "sp_from_sample_starts c r t n = Inr s
     \<longleftrightarrow> s = \<lparr>sp_clip_id = c, sp_record_start = r, sp_source_start = t, sp_sample_count = n\<rparr> \<and> sp_ok s"
proof -
  have "sp_from_sample_starts c r t n = Inr s \<longleftrightarrow>
    st_sample_rate r = st_sample_rate t \<and> n \<noteq> 0 \<and> n < 2 ^ 63 \<and> in_i64 (st_sample r + n) \<and> in_i64 (st_sample t + n)
    \<and> s = \<lparr>sp_clip_id = c, sp_record_start = r, sp_source_start = t, sp_sample_count = n\<rparr>"
    by (auto simp: sp_from_sample_starts_def result_simps sample_end_iff[OF assms(1,3)] sample_end_iff[OF assms(2,3)])
  then show ?thesis using assms by (auto simp: sp_ok_def)
qed

lemma sp_advanced_ok:
  assumes "sp_ok s" "0 \<le> k" "k < sp_sample_count s"
  shows "checked_sample_end (sp_record_start s) k op
      = Inr \<lparr>st_sample = st_sample (sp_record_start s) + k, st_sample_rate = st_sample_rate (sp_record_start s)\<rparr>"
    "checked_sample_end (sp_source_start s) k op
      = Inr \<lparr>st_sample = st_sample (sp_source_start s) + k, st_sample_rate = st_sample_rate (sp_source_start s)\<rparr>"
  using assms by (simp_all add: sample_end_iff sp_ok_def) (simp_all add: in_i64_def st_ok_def)

text \<open>A split inside the span always succeeds, and the halves join without a seam.\<close>

lemma sp_split_halves:
  assumes s: "sp_ok s" and k: "0 < k" "k < sp_sample_count s"
  obtains l r where "sp_split_at s k = Inr (l, r)" "sp_ok l" "sp_ok r"
    "sp_first l = sp_first s" "sp_last l = sp_first s + k" "sp_first r = sp_first s + k" "sp_last r = sp_last s"
    "sp_source_start l = sp_source_start s" "st_sample (sp_source_start r) = st_sample (sp_source_start s) + k"
    "audit_pair l r = Inr \<lparr>seam_left_clip_id = sp_clip_id s, seam_right_clip_id = sp_clip_id s,
       seam_record = Seamless, seam_source = Continuous\<rparr>"
proof -
  let ?rs = "sp_record_start s" and ?ss = "sp_source_start s"
  let ?rk = "\<lparr>st_sample = st_sample ?rs + k, st_sample_rate = st_sample_rate ?rs\<rparr>"
  let ?sk = "\<lparr>st_sample = st_sample ?ss + k, st_sample_rate = st_sample_rate ?ss\<rparr>"
  let ?l = "\<lparr>sp_clip_id = sp_clip_id s, sp_record_start = ?rs, sp_source_start = ?ss, sp_sample_count = k\<rparr>"
  let ?r = "\<lparr>sp_clip_id = sp_clip_id s, sp_record_start = ?rk, sp_source_start = ?sk, sp_sample_count = sp_sample_count s - k\<rparr>"
  have st: "st_ok ?rs" "st_ok ?ss" "st_ok ?rk" "st_ok ?sk"
    using s k by (auto simp: sp_ok_def st_ok_def in_i64_def)
  have l: "sp_ok ?l" and r: "sp_ok ?r" using s k st by (auto simp: sp_ok_def in_i64_def st_ok_def)
  have "sp_from_sample_starts (sp_clip_id s) ?rs ?ss k = Inr ?l"
    "sp_from_sample_starts (sp_clip_id s) ?rk ?sk (sp_sample_count s - k) = Inr ?r"
    using k l r sp_from_starts_iff[OF st(1,2), of k] sp_from_starts_iff[OF st(3,4), of "sp_sample_count s - k"]
    by simp_all
  then have split: "sp_split_at s k = Inr (?l, ?r)"
    using k sp_advanced_ok[OF s, of k] by (simp add: sp_split_at_def)
  have ends: "sp_record_end ?l = Inr ?rk" "sp_source_end ?l = Inr ?sk"
    using l by (simp_all add: sp_record_end_def sp_source_end_def sample_end_iff sp_ok_def)
  have "st_eq ?sk ?sk" using st(4) by (simp add: st_time.eq_seconds)
  then have "audit_pair ?l ?r = Inr \<lparr>seam_left_clip_id = sp_clip_id s, seam_right_clip_id = sp_clip_id s,
       seam_record = Seamless, seam_source = Continuous\<rparr>"
    using k by (simp add: audit_pair_def ends Let_def int_cmp_def checked_i64_def in_i64_def)
  with that[OF split l r] show thesis by (simp add: sp_first_def sp_last_def)
qed

section \<open>Coverage\<close>

lemma audit_pair_record:
  assumes "sp_ok l" "sp_ok r" "audit_pair l r = Inr seam"
  shows "sp_first l \<le> sp_first r \<and> (case seam_record seam of
      Seamless \<Rightarrow> sp_first r = sp_last l
    | RecordGap n \<Rightarrow> sp_first r = sp_last l + n \<and> 0 < n
    | RecordOverlap n \<Rightarrow> sp_first r = sp_last l - n \<and> 0 < n)"
proof -
  have e: "sp_record_end l = Inr \<lparr>st_sample = sp_last l, st_sample_rate = st_sample_rate (sp_record_start l)\<rparr>"
    using assms(1) by (simp add: sp_record_end_def sample_end_iff sp_ok_def sp_last_def sp_first_def)
  show ?thesis using assms(3)
    by (auto simp: audit_pair_def e result_simps Let_def int_cmp_def sp_first_def split: if_splits ordering.splits)
qed

lemma audit_covers:
  assumes "audit_pairs spans = Inr seams" "\<forall>s\<in>set spans. sp_ok s"
    "has_uninterrupted_record_coverage seams" "spans \<noteq> []"
    "sp_first (hd spans) \<le> x" "\<exists>s\<in>set spans. x < sp_last s"
  shows "\<exists>s\<in>set spans. sp_first s \<le> x \<and> x < sp_last s"
  using assms
proof (induction spans arbitrary: seams rule: audit_pairs.induct)
  case (1 l r rest)
  then obtain seam seams' where run: "audit_pair l r = Inr seam" "audit_pairs (r # rest) = Inr seams'"
    "seams = seam # seams'" by (auto simp: result_simps)
  have pair: "sp_first r \<le> sp_last l"
    using audit_pair_record[OF _ _ run(1)] "1.prems"(2,3) run(3)
    by (auto simp: has_uninterrupted_record_coverage_def split: audio_record_continuity.splits)
  show ?case
  proof (cases "x < sp_last l")
    case True
    with "1.prems"(5) show ?thesis by auto
  next
    case False
    then have "\<exists>s\<in>set (r # rest). sp_first s \<le> x \<and> x < sp_last s"
      using "1.prems" run pair
      by (intro "1.IH"[OF run(1,2)]) (auto simp: has_uninterrupted_record_coverage_def)
    then show ?thesis by auto
  qed
qed auto

section \<open>Properties\<close>

definition span48k :: "int \<Rightarrow> int \<Rightarrow> int \<Rightarrow> audio_span" where
  "span48k r s n = \<lparr>sp_clip_id = TypedId 7, sp_record_start = \<lparr>st_sample = r, st_sample_rate = 48000\<rparr>,
     sp_source_start = \<lparr>st_sample = s, st_sample_rate = 48000\<rparr>, sp_sample_count = n\<rparr>"

lemma span48k_ok: "\<bar>r\<bar> \<le> 1000000 \<Longrightarrow> \<bar>s\<bar> \<le> 1000000 \<Longrightarrow> 0 < n \<Longrightarrow> n \<le> 1000000 \<Longrightarrow> sp_ok (span48k r s n)"
  by (auto simp: span48k_def sp_ok_def st_ok_def in_i64_def abs_le_iff)

text \<open>
  Splitting an audio span at any sample strictly inside it succeeds; the halves partition
  its record samples, and the continuity audit of the pair reports a seamless record and a
  continuous source.
\<close>

theorem audio_split_seamless:
  assumes "sp_ok s" "0 < k" "k < sp_sample_count s"
  shows "\<exists>l r. sp_split_at s k = Inr (l, r) \<and> sp_ok l \<and> sp_ok r
     \<and> sp_first l = sp_first s \<and> sp_last l = sp_first r \<and> sp_last r = sp_last s
     \<and> audit_pairs [l, r] = Inr [\<lparr>seam_left_clip_id = sp_clip_id s, seam_right_clip_id = sp_clip_id s,
          seam_record = Seamless, seam_source = Continuous\<rparr>]"
proof -
  obtain l r where "sp_split_at s k = Inr (l, r)" "sp_ok l" "sp_ok r" "sp_first l = sp_first s"
    "sp_last l = sp_first s + k" "sp_first r = sp_first s + k" "sp_last r = sp_last s"
    "audit_pair l r = Inr \<lparr>seam_left_clip_id = sp_clip_id s, seam_right_clip_id = sp_clip_id s,
       seam_record = Seamless, seam_source = Continuous\<rparr>"
    by (rule sp_split_halves[OF assms]) blast
  then show ?thesis by (intro exI[of _ l] exI[of _ r]) simp
qed

theorem audio_split_seamless_witness:
  "\<exists>l r. sp_split_at (span48k 0 500 1000) 400 = Inr (l, r) \<and> sp_last l = 400 \<and> sp_first r = 400
     \<and> (\<exists>seam. audit_pairs [l, r] = Inr [seam] \<and> seam_record seam = Seamless)"
proof -
  have ok: "sp_ok (span48k 0 500 1000)" by (simp add: span48k_ok)
  have run: "returns (mapR (\<lambda>(l, r). (sp_last l, sp_first r)) (sp_split_at (span48k 0 500 1000) 400)) (400, 400)"
    by code_simp
  obtain l r where h: "sp_split_at (span48k 0 500 1000) 400 = Inr (l, r)"
    "audit_pairs [l, r] = Inr [\<lparr>seam_left_clip_id = sp_clip_id (span48k 0 500 1000),
       seam_right_clip_id = sp_clip_id (span48k 0 500 1000), seam_record = Seamless, seam_source = Continuous\<rparr>]"
    using audio_split_seamless[OF ok, of 400] by (auto simp: span48k_def)
  from run h(1) have "sp_last l = 400" "sp_first r = 400" by (auto simp: returns_iff)
  with h show ?thesis by auto
qed

text \<open>
  When the audit of a list of spans reports no gap at any seam, every sample from the start
  of the first span to the furthest end of any of them lies in some span.
\<close>

theorem audio_audit_covers:
  assumes "as_audit_continuity t spans = Inr seams" "\<forall>s\<in>set spans. sp_ok s"
    "has_uninterrupted_record_coverage seams" "spans \<noteq> []"
    "sp_first (hd spans) \<le> x" "\<exists>s\<in>set spans. x < sp_last s"
  shows "\<exists>s\<in>set spans. sp_first s \<le> x \<and> x < sp_last s"
  using assms(1) by (intro audit_covers[OF _ assms(2-6)]) (auto simp: as_audit_continuity_def split: if_splits)

definition mono48k :: audio_track_semantics where
  "mono48k = \<lparr>as_sample_rate = 48000, as_channel_layout = \<lparr>layout_positions = [FrontCenter]\<rparr>,
     as_routing = \<lparr>routing_destination = MainBus, routing_layout = \<lparr>layout_positions = [FrontCenter]\<rparr>,
       routing_routes = [\<lparr>route_source = FrontCenter, route_target = TargetChannel FrontCenter\<rparr>]\<rparr>\<rparr>"

theorem audio_audit_covers_witness:
  "\<exists>s\<in>set [span48k 0 0 100, span48k 80 80 50, span48k 130 0 10]. sp_first s \<le> 135 \<and> 135 < sp_last s"
proof -
  let ?spans = "[span48k 0 0 100, span48k 80 80 50, span48k 130 0 10]"
  have "(case as_audit_continuity mono48k ?spans of Inl _ \<Rightarrow> False
     | Inr seams \<Rightarrow> has_uninterrupted_record_coverage seams)" by code_simp
  then obtain seams where "as_audit_continuity mono48k ?spans = Inr seams" "has_uninterrupted_record_coverage seams"
    by (auto split: sum.splits)
  moreover have "\<forall>s\<in>set ?spans. sp_ok s" by (simp add: span48k_ok)
  moreover have "sp_first (hd ?spans) \<le> 135" "\<exists>s\<in>set ?spans. 135 < sp_last s"
    by (simp_all add: span48k_def sp_first_def sp_last_def)
  ultimately show ?thesis by (intro audio_audit_covers[of mono48k ?spans seams 135]) simp_all
qed

end
