(* ===== verification/Retime.thy ===== *)
theory Retime
  imports CoreTimeLaws
begin

text \<open>
  \<open>superi-timeline/src/retime.rs\<close>: the map from a clip's record clock to its source clock, as a
  list of constant-rate segments. A map is only built through \<open>ctm_new\<close>, which checks that the
  segments cover the clip without a gap and that the mapping is continuous at every seam.
\<close>

section \<open>Errors of the module\<close>

definition invalid_retime :: "string \<Rightarrow> string \<Rightarrow> error_value" where
  "invalid_retime operation message =
     err_with_context (err_new InvalidInput UserCorrectable message)
       (ctx_new ''superi-timeline.retime'' operation)"

definition overflow_retime :: "string \<Rightarrow> error_value" where
  "overflow_retime operation =
     invalid_retime operation ''retime value exceeds the supported exact coordinate range''"

lemma invalid_retime_cong [cong]: "invalid_retime operation message = invalid_retime operation message"
  by (rule refl)

section \<open>Playback rates\<close>

record playback_rate =
  pr_numerator :: int
  pr_denominator :: int

definition pr_normal :: playback_rate where
  "pr_normal = \<lparr>pr_numerator = 1, pr_denominator = 1\<rparr>"

definition pr_freeze :: playback_rate where
  "pr_freeze = \<lparr>pr_numerator = 0, pr_denominator = 1\<rparr>"

definition pr_reverse :: playback_rate where
  "pr_reverse = \<lparr>pr_numerator = -1, pr_denominator = 1\<rparr>"

definition greatest_common_divisor_u64 :: "int \<Rightarrow> int \<Rightarrow> int" where
  "greatest_common_divisor_u64 left right = euclid_loop left right"

definition pr_new :: "int \<Rightarrow> int \<Rightarrow> playback_rate result" where
  "pr_new numerator denominator =
     (if denominator = 0
      then Inl (invalid_retime ''create_playback_rate''
             ''playback rate denominator must be greater than zero'')
      else if numerator = 0 then Inr pr_freeze
      else let divisor = greatest_common_divisor_u64 \<bar>numerator\<bar> denominator;
               magnitude = \<bar>numerator\<bar> div divisor
           in bindR (ok_or (checked_i64 magnitude)
                      (invalid_retime ''create_playback_rate''
                         ''playback rate exceeds the supported signed ratio range''))
                (\<lambda>magnitude. Inr \<lparr>pr_numerator = (if numerator < 0 then - magnitude else magnitude),
                                  pr_denominator = denominator div divisor\<rparr>))"

definition pr_is_freeze :: "playback_rate \<Rightarrow> bool" where
  "pr_is_freeze r \<longleftrightarrow> pr_numerator r = 0"

definition pr_is_reverse :: "playback_rate \<Rightarrow> bool" where
  "pr_is_reverse r \<longleftrightarrow> pr_numerator r < 0"

section \<open>Segments\<close>

record retime_segment =
  rs_record_range :: time_range
  rs_source_start :: rational_time
  rs_rate :: playback_rate

text \<open>The doubled remainder is an unchecked 128-bit product.\<close>

definition divide_retime :: "int \<Rightarrow> int \<Rightarrow> time_rounding \<Rightarrow> string \<Rightarrow> (int \<times> bool) result" where
  "divide_retime numerator denominator rounding operation =
     (let quotient = numerator sdiv denominator;
          remainder = numerator smod denominator
      in if remainder = 0
         then mapR (\<lambda>val. (val, True)) (ok_or (checked_i64 quotient) (overflow_retime operation))
         else bindR
           (case rounding of
              RoundExact \<Rightarrow> Inl (invalid_retime operation
                ''retime mapping is not exact at the requested source clock'')
            | RoundFloor \<Rightarrow> Inr (if remainder < 0 then quotient - 1 else quotient)
            | RoundCeil \<Rightarrow> Inr (if remainder > 0 then quotient + 1 else quotient)
            | RoundTowardZero \<Rightarrow> Inr quotient
            | RoundNearestTiesEven \<Rightarrow>
                (let doubled = wrap_i128 (\<bar>remainder\<bar> * 2)
                 in Inr (if doubled < denominator then quotient
                         else if doubled > denominator then quotient + sgn numerator
                         else if quotient smod 2 = 0 then quotient
                         else quotient + sgn numerator)))
           (\<lambda>rounded. mapR (\<lambda>val. (val, False)) (ok_or (checked_i64 rounded) (overflow_retime operation))))"

definition rs_source_time_at_offset ::
  "retime_segment \<Rightarrow> rational_time \<Rightarrow> time_rounding \<Rightarrow> string \<Rightarrow> (rational_time \<times> bool) result" where
  "rs_source_time_at_offset seg offset rounding operation =
     (if pr_is_freeze (rs_rate seg) then Inr (rs_source_start seg, True)
      else let record_timebase = rt_timebase offset;
               source_timebase = rt_timebase (rs_source_start seg)
      in bindR (ok_or (Option.bind (Option.bind (checked_i128 (rt_value offset * tb_denominator record_timebase))
                  (\<lambda>val. checked_i128 (val * pr_numerator (rs_rate seg))))
                  (\<lambda>val. checked_i128 (val * tb_numerator source_timebase)))
                (overflow_retime operation)) (\<lambda>numerator.
         bindR (ok_or (Option.bind (checked_i128 (tb_numerator record_timebase * pr_denominator (rs_rate seg)))
                  (\<lambda>val. checked_i128 (val * tb_denominator source_timebase)))
                (overflow_retime operation)) (\<lambda>denominator.
         bindR (divide_retime numerator denominator rounding operation) (\<lambda>(delta, exact).
         bindR (ok_or (checked_i64 (rt_value (rs_source_start seg) + delta)) (overflow_retime operation)) (\<lambda>val.
           Inr (rt_new val source_timebase, exact))))))"

definition rs_source_time_at ::
  "retime_segment \<Rightarrow> rational_time \<Rightarrow> time_rounding \<Rightarrow> string \<Rightarrow> (rational_time \<times> bool) result" where
  "rs_source_time_at seg record_time rounding operation =
     bindR (rt_checked_sub_at record_time (tr_start (rs_record_range seg))
              (tr_timebase (rs_record_range seg)) RoundExact) (\<lambda>offset.
       rs_source_time_at_offset seg offset rounding operation)"

definition rs_source_end :: "retime_segment \<Rightarrow> rational_time result" where
  "rs_source_end seg =
     mapR fst (rs_source_time_at_offset seg (du_rational_time (tr_duration (rs_record_range seg)))
                 RoundExact ''validate_retime_continuity'')"

definition rs_new :: "time_range \<Rightarrow> rational_time \<Rightarrow> playback_rate \<Rightarrow> retime_segment result" where
  "rs_new record_range source_start playback =
     (if tr_is_empty record_range
      then Inl (invalid_retime ''create_retime_segment''
             ''retime segment record range must be nonempty'')
      else if rt_is_negative (tr_start record_range)
      then Inl (invalid_retime ''create_retime_segment''
             ''retime segment record range must not start before clip-local zero'')
      else let seg = \<lparr>rs_record_range = record_range, rs_source_start = source_start, rs_rate = playback\<rparr>
           in bindR (rs_source_time_at_offset seg (du_rational_time (tr_duration record_range))
                       RoundExact ''create_retime_segment'') (\<lambda>_. Inr seg))"

section \<open>Maps\<close>

datatype retime_mode = ModeIdentity | ModeSpeedChange | ModeReverse | ModeFreeze | ModeTimeRemap

datatype retime_resolution = ResolvedExact | ResolvedHeld | ResolvedRounded time_rounding

record mapped_source_time =
  mst_time :: rational_time
  mst_resolution :: retime_resolution
  mst_segment_index :: nat

record clip_time_map =
  ctm_record_duration :: duration
  ctm_source_timebase :: timebase
  ctm_segments :: "retime_segment list"

text \<open>The loop of the constructor: the remaining segments and the expected start.\<close>

fun ctm_check :: "timebase \<Rightarrow> timebase \<Rightarrow> retime_segment list \<Rightarrow> rational_time \<Rightarrow> rational_time result" where
  "ctm_check record_timebase source_timebase [] expected_start = Inr expected_start"
| "ctm_check record_timebase source_timebase (seg # rest) expected_start =
     (if tr_timebase (rs_record_range seg) \<noteq> record_timebase
      then Inl (invalid_retime ''create_clip_time_map''
             ''every retime segment must use the clip record clock'')
      else if rt_timebase (rs_source_start seg) \<noteq> source_timebase
      then Inl (invalid_retime ''create_clip_time_map''
             ''every retime segment must use the clip source clock'')
      else if \<not> rt_eq (tr_start (rs_record_range seg)) expected_start
      then Inl (invalid_retime ''create_clip_time_map''
             ''retime segments must provide contiguous gapless record coverage'')
      else bindR (tr_end_exclusive (rs_record_range seg)) (\<lambda>next_start.
           bindR (case rest of
                    [] \<Rightarrow> Inr ()
                  | following # _ \<Rightarrow>
                      bindR (rs_source_end seg) (\<lambda>source_end.
                        if \<not> rt_eq source_end (rs_source_start following)
                        then Inl (invalid_retime ''create_clip_time_map''
                               ''retime segment source mapping must remain continuous at every seam'')
                        else Inr ()))
             (\<lambda>_. ctm_check record_timebase source_timebase rest next_start)))"

definition ctm_new :: "duration \<Rightarrow> timebase \<Rightarrow> retime_segment list \<Rightarrow> clip_time_map result" where
  "ctm_new record_duration source_timebase segments =
     (if du_is_zero record_duration
      then Inl (invalid_retime ''create_clip_time_map'' ''clip time map duration must be nonzero'')
      else if segments = []
      then Inl (invalid_retime ''create_clip_time_map''
             ''clip time map must contain at least one segment'')
      else bindR (ctm_check (du_timebase record_duration) source_timebase segments
                    (rt_zero (du_timebase record_duration))) (\<lambda>expected_start.
           bindR (ok_or (checked_i64 (du_value record_duration))
                    (overflow_retime ''create_clip_time_map'')) (\<lambda>end_value.
           let expected_end = rt_new end_value (du_timebase record_duration)
           in if \<not> rt_eq expected_start expected_end
              then Inl (invalid_retime ''create_clip_time_map''
                     ''retime segments must exactly cover the complete clip duration'')
              else Inr \<lparr>ctm_record_duration = record_duration, ctm_source_timebase = source_timebase,
                        ctm_segments = segments\<rparr>)))"

definition ctm_speed :: "duration \<Rightarrow> rational_time \<Rightarrow> playback_rate \<Rightarrow> clip_time_map result" where
  "ctm_speed record_duration source_start playback =
     bindR (tr_new (rt_zero (du_timebase record_duration)) record_duration) (\<lambda>record_range.
     bindR (rs_new record_range source_start playback) (\<lambda>seg.
       ctm_new record_duration (rt_timebase source_start) [seg]))"

definition ctm_freeze :: "duration \<Rightarrow> rational_time \<Rightarrow> clip_time_map result" where
  "ctm_freeze record_duration source_time = ctm_speed record_duration source_time pr_freeze"

definition ctm_reverse :: "duration \<Rightarrow> rational_time \<Rightarrow> clip_time_map result" where
  "ctm_reverse record_duration first_source_sample =
     ctm_speed record_duration first_source_sample pr_reverse"

definition ctm_identity :: "duration \<Rightarrow> rational_time \<Rightarrow> clip_time_map result" where
  "ctm_identity record_duration source_start = ctm_speed record_duration source_start pr_normal"

definition ctm_mode :: "clip_time_map \<Rightarrow> retime_mode" where
  "ctm_mode m =
     (if length (ctm_segments m) > 1 then ModeTimeRemap
      else let playback = rs_rate (ctm_segments m ! 0)
           in if pr_is_freeze playback then ModeFreeze
              else if pr_is_reverse playback then ModeReverse
              else if playback = pr_normal then ModeIdentity
              else ModeSpeedChange)"

text \<open>
  The library's \<open>partition_point\<close> returns the length of the prefix on which the predicate
  holds; the segment starts are sorted.
\<close>

definition partition_point :: "('a \<Rightarrow> bool) \<Rightarrow> 'a list \<Rightarrow> nat" where
  "partition_point p xs = length (takeWhile p xs)"

definition ctm_source_time_at ::
  "clip_time_map \<Rightarrow> rational_time \<Rightarrow> time_rounding \<Rightarrow> mapped_source_time result" where
  "ctm_source_time_at m record_time rounding =
     bindR (tr_new (rt_zero (du_timebase (ctm_record_duration m))) (ctm_record_duration m)) (\<lambda>complete.
     bindR (tr_contains complete record_time) (\<lambda>inside.
     if \<not> inside
     then Inl (invalid_retime ''resolve_retime_source''
            ''retime query must lie inside the half-open clip record duration'')
     else let index = partition_point (\<lambda>seg. rt_le (tr_start (rs_record_range seg)) record_time)
                        (ctm_segments m) - 1;
              seg = ctm_segments m ! index
     in bindR (tr_contains (rs_record_range seg) record_time) (\<lambda>covered.
     if \<not> covered
     then Inl (invalid_retime ''resolve_retime_source''
            ''retime query did not resolve to complete segment coverage'')
     else bindR (rs_source_time_at seg record_time rounding ''resolve_retime_source'') (\<lambda>(time, exact).
       Inr \<lparr>mst_time = time,
            mst_resolution = (if pr_is_freeze (rs_rate seg) then ResolvedHeld
              else if exact then ResolvedExact else ResolvedRounded rounding),
            mst_segment_index = index\<rparr>))))"

definition ctm_validate_binding :: "clip_time_map \<Rightarrow> duration \<Rightarrow> timebase \<Rightarrow> unit result" where
  "ctm_validate_binding m record_duration source_timebase =
     (if \<not> du_eq (ctm_record_duration m) record_duration
         \<or> du_timebase (ctm_record_duration m) \<noteq> du_timebase record_duration
      then Inl (invalid_retime ''bind_clip_time_map''
             ''clip time map must use and exactly cover the clip record duration'')
      else if ctm_source_timebase m \<noteq> source_timebase
      then Inl (invalid_retime ''bind_clip_time_map''
             ''clip time map must use the clip source clock'')
      else Inr ())"

text \<open>One step of the loop of \<open>slice\<close>: nothing, or the part of the segment in the range.\<close>

definition ctm_slice_segment ::
  "time_range \<Rightarrow> rational_time \<Rightarrow> retime_segment \<Rightarrow> retime_segment option result" where
  "ctm_slice_segment window range_end seg =
     bindR (tr_end_exclusive (rs_record_range seg)) (\<lambda>segment_end.
     let start = (if rt_lt (tr_start window) (tr_start (rs_record_range seg))
                  then tr_start (rs_record_range seg) else tr_start window);
         until = (if rt_lt segment_end range_end then segment_end else range_end)
     in if rt_le until start then Inr None
        else
        bindR (rs_source_time_at seg start RoundExact ''slice_clip_time_map'') (\<lambda>(source_start, _).
        bindR (rt_checked_sub_at start (tr_start window) (tr_timebase window) RoundExact) (\<lambda>rebased_start.
        bindR (rt_checked_sub_at until (tr_start window) (tr_timebase window) RoundExact) (\<lambda>rebased_end.
        bindR (tr_from_start_end rebased_start rebased_end) (\<lambda>rebased.
        bindR (rs_new rebased source_start (rs_rate seg)) (\<lambda>piece. Inr (Some piece)))))))"

definition ctm_slice :: "clip_time_map \<Rightarrow> time_range \<Rightarrow> clip_time_map result" where
  "ctm_slice m window =
     bindR (tr_new (rt_zero (du_timebase (ctm_record_duration m))) (ctm_record_duration m)) (\<lambda>complete.
     bindR (if tr_is_empty window \<or> tr_timebase window \<noteq> tr_timebase complete
               \<or> rt_lt (tr_start window) (tr_start complete)
            then Inr True
            else bindR (tr_end_exclusive window) (\<lambda>range_end.
                 bindR (tr_end_exclusive complete) (\<lambda>complete_end. Inr (rt_lt complete_end range_end))))
       (\<lambda>outside.
     if outside
     then Inl (invalid_retime ''slice_clip_time_map''
            ''retime slice must be a nonempty subrange of the clip duration'')
     else
     bindR (tr_end_exclusive window) (\<lambda>range_end.
     bindR (traverse (ctm_slice_segment window range_end) (ctm_segments m)) (\<lambda>pieces.
       ctm_new (tr_duration window) (ctm_source_timebase m) (List.map_filter id pieces)))))"

definition ctm_rescale_record_clock :: "clip_time_map \<Rightarrow> duration \<Rightarrow> clip_time_map result" where
  "ctm_rescale_record_clock m dur =
     (if \<not> du_eq (ctm_record_duration m) dur
      then Inl (invalid_retime ''rescale_clip_time_map''
             ''record clock replacement must preserve the clip duration'')
      else
      bindR (traverse (\<lambda>seg.
               bindR (tr_checked_rescale (rs_record_range seg) (du_timebase dur) RoundExact) (\<lambda>window.
                 rs_new window (rs_source_start seg) (rs_rate seg))) (ctm_segments m)) (\<lambda>segments.
        ctm_new dur (ctm_source_timebase m) segments))"

definition ctm_translate_source ::
  "clip_time_map \<Rightarrow> rational_time \<Rightarrow> rational_time \<Rightarrow> clip_time_map result" where
  "ctm_translate_source m old_anchor new_anchor =
     (if rt_timebase old_anchor \<noteq> ctm_source_timebase m
      then Inl (invalid_retime ''translate_clip_time_map''
             ''old source anchor must use the current retime source clock'')
      else
      bindR (traverse (\<lambda>seg.
               bindR (rt_checked_sub_at (rs_source_start seg) old_anchor (rt_timebase old_anchor) RoundExact) (\<lambda>offset.
               bindR (rt_checked_rescale offset (rt_timebase new_anchor) RoundExact) (\<lambda>offset.
               bindR (rt_checked_add_at new_anchor offset (rt_timebase new_anchor) RoundExact) (\<lambda>source_start.
                 rs_new (rs_record_range seg) source_start (rs_rate seg))))) (ctm_segments m)) (\<lambda>segments.
        ctm_new (ctm_record_duration m) (rt_timebase new_anchor) segments))"

end
