(* ===== verification/RetimeLaws.thy ===== *)
theory RetimeLaws
  imports Retime
begin

text \<open>
  The laws of retiming: the value of a playback rate, the rounding of a segment's advance, the
  interior of a validated segment (no query in it overflows), the coverage invariant of a map,
  lookup, and slicing.
\<close>

section \<open>Well-formed rates, segments and maps\<close>

definition pr_ok :: "playback_rate \<Rightarrow> bool" where
  "pr_ok r \<longleftrightarrow> in_i64 (pr_numerator r) \<and> 0 < pr_denominator r \<and> pr_denominator r < 2 ^ 64"

definition pr_value :: "playback_rate \<Rightarrow> rat" where
  "pr_value r = of_int (pr_numerator r) / of_int (pr_denominator r)"

lemma pr_const_ok [simp]: "pr_ok pr_normal" "pr_ok pr_freeze" "pr_ok pr_reverse"
  by (simp_all add: pr_ok_def pr_normal_def pr_freeze_def pr_reverse_def in_i64_def)

lemma pr_const_value [simp]: "pr_value pr_normal = 1" "pr_value pr_freeze = 0" "pr_value pr_reverse = - 1"
  by (simp_all add: pr_value_def pr_normal_def pr_freeze_def pr_reverse_def)

lemma pr_new_ok:
  assumes "in_i64 n" "in_u64 d" "pr_new n d = Inr r"
  shows "pr_ok r \<and> pr_value r = of_int n / of_int d"
proof (cases "n = 0")
  case True
  then have "r = pr_freeze" using assms(3) by (auto simp: pr_new_def split: if_splits)
  with True show ?thesis by simp
next
  case False
  define g k where "g = gcd \<bar>n\<bar> d" and "k = \<bar>n\<bar> div g"
  from assms(2,3) have d: "0 < d" by (auto simp: pr_new_def in_u64_def split: if_splits)
  have g: "0 < g" "g dvd \<bar>n\<bar>" "g dvd d" using d by (simp_all add: g_def gcd_pos_int)
  have loop: "greatest_common_divisor_u64 \<bar>n\<bar> d = g"
    using d by (simp add: greatest_common_divisor_u64_def euclid_loop_gcd g_def)
  have r: "r = \<lparr>pr_numerator = (if n < 0 then - k else k), pr_denominator = d div g\<rparr>" and m: "in_i64 k"
    using assms(3) False d unfolding pr_new_def loop Let_def k_def[symmetric]
    by (auto simp: result_simps)
  have "0 \<le> k" using g by (simp add: k_def pos_imp_zdiv_nonneg_iff)
  then have "in_i64 (pr_numerator r)" using m r by (simp add: in_i64_def)
  moreover have "0 < d div g" using d g zdvd_imp_le[OF g(3) d] by (simp add: pos_imp_zdiv_pos_iff)
  moreover have "d div g \<le> d" using d g by (simp add: div_factor_le)
  ultimately have "pr_ok r" using r assms(2) by (simp add: pr_ok_def in_u64_def)
  moreover have "\<bar>n\<bar> = k * g" "d = d div g * g" using g by (simp_all add: k_def)
  then have "n = pr_numerator r * g" "d = pr_denominator r * g" using r by (auto simp: abs_if split: if_splits)
  then have "of_int n / of_int d = (of_int (pr_numerator r * g) / of_int (pr_denominator r * g) :: rat)" by simp
  then have "pr_value r = of_int n / of_int d" unfolding frac_scale[OF g(1)] by (simp add: pr_value_def)
  ultimately show ?thesis by simp
qed

definition seg_ok :: "retime_segment \<Rightarrow> bool" where
  "seg_ok s \<longleftrightarrow> tr_ok (rs_record_range s) \<and> 0 < du_value (tr_duration (rs_record_range s))
     \<and> 0 \<le> rt_value (tr_start (rs_record_range s)) \<and> rt_ok (rs_source_start s) \<and> pr_ok (rs_rate s)
     \<and> is_ok (rs_source_time_at_offset s (du_rational_time (tr_duration (rs_record_range s)))
          RoundExact ''create_retime_segment'')"

text \<open>The number of source units an offset from the segment's start advances the source.\<close>

definition seg_advance :: "retime_segment \<Rightarrow> rational_time \<Rightarrow> rat" where
  "seg_advance s offset = secs offset * pr_value (rs_rate s) * rate (rt_timebase (rs_source_start s))"

section \<open>Rounding\<close>

lemma rounds_to_int_iff: "rounds_to rounding (of_int v) q \<longleftrightarrow> q = v"
proof (cases "rounding = RoundNearestTiesEven")
  case True
  have "nearest_even v 1 q \<longleftrightarrow> q = v" by (auto simp: nearest_even_def abs_le_iff)
  with True rounds_to_nearest[of 1 v q] show ?thesis by simp
next
  case False
  then show ?thesis by (cases rounding) (auto simp: rounds_to_def)
qed

lemma divide_retime_time:
  "divide_retime n d rounding operation = Inr (q, exact)
     \<longleftrightarrow> divide_time n d rounding operation = Inr q \<and> exact = (n smod d = 0)"
  if "0 < d"
proof -
  have w: "wrap_i128 0 = 0" by (simp add: wrap_i128_def)
  show ?thesis using that
    by (cases rounding) (auto simp: divide_retime_def divide_time_def Let_def result_simps w)
qed

lemma divide_retime_spec:
  assumes "0 < d" "rounding = RoundNearestTiesEven \<Longrightarrow> d \<le> 2 ^ 126"
  shows "divide_retime n d rounding operation = Inr (q, exact)
     \<longleftrightarrow> in_i64 q \<and> rounds_to rounding (of_int n / of_int d) q \<and> exact = (of_int q = (of_int n / of_int d :: rat))"
proof -
  have "n smod d = 0 \<longleftrightarrow> of_int q = (of_int n / of_int d :: rat)" if "rounds_to rounding (of_int n / of_int d) q"
  proof
    assume "n smod d = 0"
    then have "of_int n / of_int d = (of_int (n sdiv d) :: rat)"
      using sdiv_smod[OF assms(1), of n] assms(1) by (simp add: field_simps flip: of_int_mult)
    with that rounds_to_int_iff show "of_int q = (of_int n / of_int d :: rat)" by auto
  next
    assume "of_int q = (of_int n / of_int d :: rat)"
    then show "n smod d = 0" using rounds_to_exact[OF assms(1), of n q] by (simp add: rounds_to_def)
  qed
  moreover have "divide_time n d rounding operation = Inr q
     \<longleftrightarrow> in_i64 q \<and> rounds_to rounding (of_int n / of_int d) q"
    by (rule divide_time_spec) (use assms in auto)
  ultimately show ?thesis unfolding divide_retime_time[OF assms(1)] by blast
qed

text \<open>Every inexact rule picks one of the two neighbours, so the only error is the range.\<close>

lemma divide_time_between:
  assumes "0 < d" "rounding \<noteq> RoundExact"
  obtains c where "divide_time n d rounding operation = ok_or (checked_i64 c) (overflow_time operation)"
    "n div d \<le> c" "c \<le> - ((- n) div d)"
proof -
  let ?q = "n sdiv d" and ?r = "n smod d"
  have fl: "n div d = (if ?r < 0 then ?q - 1 else ?q)"
    using floor_sdiv[OF assms(1), of n] by (simp only: floor_divide_of_int_eq)
  have ce: "- ((- n) div d) = (if ?r > 0 then ?q + 1 else ?q)"
    using ceiling_sdiv[OF assms(1), of n] by (simp only: ceiling_def floor_divide_of_int_eq of_int_minus[symmetric] minus_divide_left)
  have sign: "0 < ?r \<Longrightarrow> sgn n = 1" "?r < 0 \<Longrightarrow> sgn n = - 1"
    using sdiv_smod_sign[OF assms(1), of n] by (cases n "0 :: int" rule: linorder_cases; simp)+
  have w: "wrap_i128 0 = 0" by (simp add: wrap_i128_def)
  define c where "c = (case rounding of RoundFloor \<Rightarrow> (if ?r < 0 then ?q - 1 else ?q)
     | RoundCeil \<Rightarrow> (if ?r > 0 then ?q + 1 else ?q)
     | RoundNearestTiesEven \<Rightarrow> (if wrap_i128 (\<bar>?r\<bar> * 2) < d then ?q else if wrap_i128 (\<bar>?r\<bar> * 2) > d then ?q + sgn n
         else if ?q smod 2 = 0 then ?q else ?q + sgn n)
     | _ \<Rightarrow> ?q)"
  have "divide_time n d rounding operation = ok_or (checked_i64 c) (overflow_time operation)"
    using assms(2) by (cases rounding) (simp_all add: divide_time_def c_def Let_def)
  moreover have "n div d \<le> c \<and> c \<le> - ((- n) div d)"
    unfolding fl ce using sign assms(1) w
    by (cases rounding; cases ?r "0 :: int" rule: linorder_cases) (auto simp: c_def)
  ultimately show thesis using that by blast
qed

section \<open>The interior of a segment\<close>

definition between_zero :: "int \<Rightarrow> int \<Rightarrow> bool" where
  "between_zero x y \<longleftrightarrow> 0 \<le> x \<and> x \<le> y \<or> y \<le> x \<and> x \<le> 0"

lemma between_zero_mult: "between_zero x y \<Longrightarrow> between_zero (x * k) (y * k)"
  by (cases "0 \<le> k") (auto simp: between_zero_def mult_right_mono mult_right_mono_neg
      mult_nonneg_nonneg mult_nonneg_nonpos mult_nonpos_nonneg mult_nonpos_nonpos)

lemma between_zero_range:
  "between_zero x y \<Longrightarrow> in_i128 y \<Longrightarrow> in_i128 x"
  "between_zero x y \<Longrightarrow> in_i64 y \<Longrightarrow> in_i64 x"
  "between_zero x y \<Longrightarrow> in_i64 a \<Longrightarrow> in_i64 (a + y) \<Longrightarrow> in_i64 (a + x)"
  by (auto simp: between_zero_def int_ranges)

lemma between_zero_div:
  assumes "0 < (d::int)" "between_zero n (e * d)" "n div d \<le> c" "c \<le> - ((- n) div d)"
  shows "between_zero c e"
proof (cases "0 \<le> n \<and> n \<le> e * d")
  case True
  then have "0 \<le> n div d" using assms(1) by (simp add: pos_imp_zdiv_nonneg_iff)
  have "- (e * d) div d \<le> (- n) div d" using True assms(1) by (intro zdiv_mono1) simp_all
  moreover have "- (e * d) div d = - e" using assms(1) by (simp flip: mult_minus_left)
  ultimately have "- ((- n) div d) \<le> e" by simp
  with \<open>0 \<le> n div d\<close> show ?thesis using assms(3,4) by (simp add: between_zero_def)
next
  case False
  then have n: "e * d \<le> n" "n \<le> 0" using assms(2) by (auto simp: between_zero_def)
  then have "0 \<le> (- n) div d" using assms(1) by (simp add: pos_imp_zdiv_nonneg_iff)
  moreover have "(e * d) div d \<le> n div d" using n assms(1) by (intro zdiv_mono1) simp_all
  then have "e \<le> n div d" using assms(1) by simp
  ultimately show ?thesis using assms(3,4) by (simp add: between_zero_def)
qed

lemma floor_le_ceil: "\<lfloor>x::rat\<rfloor> \<le> \<lceil>x\<rceil>"
  by (meson of_int_floor_le le_of_int_ceiling order_trans of_int_le_iff)

lemma rounds_to_neighbour:
  assumes "rounds_to rounding x q"
  shows "\<lfloor>x\<rfloor> \<le> q \<and> q \<le> \<lceil>x\<rceil>"
proof (cases rounding)
  case RoundNearestTiesEven
  from assms have "\<bar>2 * (x - of_int q)\<bar> \<le> 1" using RoundNearestTiesEven by (simp add: rounds_to_def)
  then have "x < of_int (q + 1)" "of_int (q - 1) < x" by (auto simp: abs_le_iff)
  then show ?thesis by (simp add: floor_le_iff le_ceiling_iff)
qed (use assms floor_le_ceil in \<open>auto simp: rounds_to_def split: if_splits\<close>)

text \<open>The integers the source divides, and their quotient as the advance.\<close>

definition seg_numerator :: "retime_segment \<Rightarrow> int \<Rightarrow> int" where
  "seg_numerator s v = v * tb_denominator (tr_timebase (rs_record_range s))
     * pr_numerator (rs_rate s) * tb_numerator (rt_timebase (rs_source_start s))"

definition seg_denominator :: "retime_segment \<Rightarrow> int" where
  "seg_denominator s = tb_numerator (tr_timebase (rs_record_range s))
     * pr_denominator (rs_rate s) * tb_denominator (rt_timebase (rs_source_start s))"

lemma seg_ok_timebases:
  assumes "seg_ok s"
  shows "tb_ok (tr_timebase (rs_record_range s))" "tb_ok (rt_timebase (rs_source_start s))"
    "du_timebase (tr_duration (rs_record_range s)) = tr_timebase (rs_record_range s)" "pr_ok (rs_rate s)"
  using assms by (simp_all add: seg_ok_def tr_ok_def rt_ok_def tr_timebase_def)

lemma seg_denominator_pos: "seg_ok s \<Longrightarrow> 0 < seg_denominator s"
  using seg_ok_timebases[of s] by (simp add: seg_denominator_def tb_ok_def pr_ok_def)

lemma seg_advance_fraction:
  assumes "seg_ok s" "rt_timebase offset = tr_timebase (rs_record_range s)"
  shows "seg_advance s offset = of_int (seg_numerator s (rt_value offset)) / of_int (seg_denominator s)"
  using seg_ok_timebases[OF assms(1)]
  by (simp add: seg_advance_def seg_numerator_def seg_denominator_def secs_def rate_def pr_value_def
      assms(2) tb_ok_def pr_ok_def)

lemma offset_run:
  assumes s: "seg_ok s" "\<not> pr_is_freeze (rs_rate s)" and tb: "rt_timebase offset = tr_timebase (rs_record_range s)"
    and ranges: "in_i128 (rt_value offset * tb_denominator (tr_timebase (rs_record_range s)))"
      "in_i128 (rt_value offset * tb_denominator (tr_timebase (rs_record_range s)) * pr_numerator (rs_rate s))"
      "in_i128 (seg_numerator s (rt_value offset))"
      "in_i128 (tb_numerator (tr_timebase (rs_record_range s)) * pr_denominator (rs_rate s))"
      "in_i128 (seg_denominator s)"
  shows "rs_source_time_at_offset s offset rounding operation =
     bindR (divide_retime (seg_numerator s (rt_value offset)) (seg_denominator s) rounding operation) (\<lambda>(delta, exact).
     bindR (ok_or (checked_i64 (rt_value (rs_source_start s) + delta)) (overflow_retime operation)) (\<lambda>val.
       Inr (rt_new val (rt_timebase (rs_source_start s)), exact)))"
  using s(2) tb ranges[unfolded seg_numerator_def seg_denominator_def]
  by (simp add: rs_source_time_at_offset_def Let_def seg_numerator_def seg_denominator_def)

lemma offset_ranges:
  assumes "seg_ok s" "\<not> pr_is_freeze (rs_rate s)"
    and tb: "rt_timebase offset = tr_timebase (rs_record_range s)"
    and run: "rs_source_time_at_offset s offset rounding operation = Inr r"
  shows "in_i128 (rt_value offset * tb_denominator (tr_timebase (rs_record_range s)))"
    "in_i128 (rt_value offset * tb_denominator (tr_timebase (rs_record_range s)) * pr_numerator (rs_rate s))"
    "in_i128 (seg_numerator s (rt_value offset))"
    "in_i128 (tb_numerator (tr_timebase (rs_record_range s)) * pr_denominator (rs_rate s))"
    "in_i128 (seg_denominator s)"
  using run assms(2) tb
  by (auto simp: rs_source_time_at_offset_def result_simps Let_def seg_numerator_def seg_denominator_def bind_eq_Some_conv)

text \<open>The end of a validated segment is a whole number of source units.\<close>

lemma seg_end:
  assumes "seg_ok s" "\<not> pr_is_freeze (rs_rate s)"
  obtains e where "seg_numerator s (du_value (tr_duration (rs_record_range s))) = e * seg_denominator s"
    "in_i64 e" "in_i64 (rt_value (rs_source_start s) + e)"
proof -
  let ?d = "tr_duration (rs_record_range s)"
  have d: "du_ok ?d" using assms(1) by (simp add: seg_ok_def tr_ok_def)
  have off: "rt_timebase (du_rational_time ?d) = tr_timebase (rs_record_range s)" "rt_value (du_rational_time ?d) = du_value ?d"
    using d seg_ok_timebases(3)[OF assms(1)] by (simp_all add: du_rational_simps)
  obtain r where run: "rs_source_time_at_offset s (du_rational_time ?d) RoundExact ''create_retime_segment'' = Inr r"
    using assms(1) unfolding seg_ok_def is_ok_iff by blast
  note ranges = offset_ranges[OF assms off(1) run]
  obtain e x where "divide_retime (seg_numerator s (du_value ?d)) (seg_denominator s) RoundExact ''create_retime_segment'' = Inr (e, x)"
    "in_i64 (rt_value (rs_source_start s) + e)"
    using run unfolding offset_run[OF assms off(1) ranges] off(2) by (auto simp: result_simps)
  moreover from this(1) have "in_i64 e" "of_int e = (of_int (seg_numerator s (du_value ?d)) / of_int (seg_denominator s) :: rat)"
    using divide_retime_spec[OF seg_denominator_pos[OF assms(1)], of RoundExact] by (auto simp: rounds_to_def)
  then have "e * seg_denominator s = seg_numerator s (du_value ?d)"
    using seg_denominator_pos[OF assms(1)] by (simp add: field_simps flip: of_int_mult)
  ultimately show thesis using \<open>in_i64 e\<close> by (intro that[of e]) simp_all
qed

definition interior :: "retime_segment \<Rightarrow> rational_time \<Rightarrow> bool" where
  "interior s offset \<longleftrightarrow> rt_timebase offset = tr_timebase (rs_record_range s)
     \<and> 0 \<le> rt_value offset \<and> rt_value offset \<le> du_value (tr_duration (rs_record_range s))"

lemma interior_run:
  assumes s: "seg_ok s" "\<not> pr_is_freeze (rs_rate s)" and "interior s offset"
  obtains e where "rs_source_time_at_offset s offset rounding operation =
     bindR (divide_retime (seg_numerator s (rt_value offset)) (seg_denominator s) rounding operation) (\<lambda>(delta, exact).
     bindR (ok_or (checked_i64 (rt_value (rs_source_start s) + delta)) (overflow_retime operation)) (\<lambda>val.
       Inr (rt_new val (rt_timebase (rs_source_start s)), exact)))"
    "between_zero (seg_numerator s (rt_value offset)) (e * seg_denominator s)"
    "in_i64 e" "in_i64 (rt_value (rs_source_start s) + e)"
proof -
  let ?d = "tr_duration (rs_record_range s)"
  have d: "du_ok ?d" using s(1) by (simp add: seg_ok_def tr_ok_def)
  have off: "rt_timebase (du_rational_time ?d) = tr_timebase (rs_record_range s)" "rt_value (du_rational_time ?d) = du_value ?d"
    using d seg_ok_timebases(3)[OF s(1)] by (simp_all add: du_rational_simps)
  obtain r where run: "rs_source_time_at_offset s (du_rational_time ?d) RoundExact ''create_retime_segment'' = Inr r"
    using s(1) unfolding seg_ok_def is_ok_iff by blast
  note ranges = offset_ranges[OF s off(1) run, unfolded off(2)]
  have b0: "between_zero (rt_value offset) (du_value ?d)"
    using assms(3) by (simp add: interior_def between_zero_def)
  note b1 = between_zero_mult[OF b0, of "tb_denominator (tr_timebase (rs_record_range s))"]
  note b2 = between_zero_mult[OF b1, of "pr_numerator (rs_rate s)"]
  note b3 = between_zero_mult[OF b2, of "tb_numerator (rt_timebase (rs_source_start s))",
    folded seg_numerator_def]
  have run': "rs_source_time_at_offset s offset rounding operation =
     bindR (divide_retime (seg_numerator s (rt_value offset)) (seg_denominator s) rounding operation) (\<lambda>(delta, exact).
     bindR (ok_or (checked_i64 (rt_value (rs_source_start s) + delta)) (overflow_retime operation)) (\<lambda>val.
       Inr (rt_new val (rt_timebase (rs_source_start s)), exact)))"
    by (rule offset_run[OF s])
      (use assms(3) ranges between_zero_range(1)[OF b1] between_zero_range(1)[OF b2]
        between_zero_range(1)[OF b3] in \<open>simp_all add: interior_def\<close>)
  obtain e where e: "seg_numerator s (du_value ?d) = e * seg_denominator s" "in_i64 e"
    "in_i64 (rt_value (rs_source_start s) + e)" by (rule seg_end[OF s])
  from that[OF run' b3[unfolded e(1)] e(2,3)] show thesis .
qed

text \<open>
  What a query inside a segment returns. For the tie rule the bound keeps the doubled remainder
  in 128 bits.
\<close>

lemma interior_spec:
  assumes s: "seg_ok s" and int: "interior s offset"
    and nte: "rounding = RoundNearestTiesEven \<Longrightarrow> seg_denominator s \<le> 2 ^ 126"
  shows "rs_source_time_at_offset s offset rounding operation = Inr (t, exact)
     \<longleftrightarrow> rt_timebase t = rt_timebase (rs_source_start s)
       \<and> rounds_to rounding (seg_advance s offset) (rt_value t - rt_value (rs_source_start s))
       \<and> exact = (of_int (rt_value t - rt_value (rs_source_start s)) = seg_advance s offset)"
proof (cases "pr_is_freeze (rs_rate s)")
  case True
  then have zero: "seg_advance s offset = of_int 0"
    by (simp add: seg_advance_def pr_value_def pr_is_freeze_def)
  have "rs_source_time_at_offset s offset rounding operation = Inr (t, exact) \<longleftrightarrow> t = rs_source_start s \<and> exact"
    using True by (auto simp: rs_source_time_at_offset_def)
  also have "\<dots> \<longleftrightarrow> rt_timebase t = rt_timebase (rs_source_start s) \<and> rt_value t - rt_value (rs_source_start s) = 0 \<and> exact"
    by (auto intro: rational_time.equality)
  finally show ?thesis unfolding zero rounds_to_int_iff by auto
next
  case False
  obtain e where run: "rs_source_time_at_offset s offset rounding operation =
     bindR (divide_retime (seg_numerator s (rt_value offset)) (seg_denominator s) rounding operation) (\<lambda>(delta, exact).
     bindR (ok_or (checked_i64 (rt_value (rs_source_start s) + delta)) (overflow_retime operation)) (\<lambda>val.
       Inr (rt_new val (rt_timebase (rs_source_start s)), exact)))"
    and e: "between_zero (seg_numerator s (rt_value offset)) (e * seg_denominator s)"
    "in_i64 e" "in_i64 (rt_value (rs_source_start s) + e)" by (rule interior_run[OF s False int])
  have pos: "0 < seg_denominator s" by (rule seg_denominator_pos[OF s])
  have adv: "seg_advance s offset = of_int (seg_numerator s (rt_value offset)) / of_int (seg_denominator s)"
    using seg_advance_fraction[OF s] int by (simp add: interior_def)
  have in_range: "in_i64 q \<and> in_i64 (rt_value (rs_source_start s) + q)"
    if q: "rounds_to rounding (seg_advance s offset) q" for q
  proof -
    have "between_zero q e"
    proof (rule between_zero_div[OF pos e(1)])
      have "\<lfloor>seg_advance s offset\<rfloor> \<le> q \<and> q \<le> \<lceil>seg_advance s offset\<rceil>"
        using q by (rule rounds_to_neighbour)
      then show "seg_numerator s (rt_value offset) div seg_denominator s \<le> q"
        "q \<le> - (- seg_numerator s (rt_value offset) div seg_denominator s)"
        unfolding adv ceiling_def by (simp_all only: floor_divide_of_int_eq of_int_minus[symmetric] minus_divide_left)
    qed
    moreover have "in_i64 (rt_value (rs_source_start s))" using s by (simp add: seg_ok_def rt_ok_def)
    ultimately show ?thesis using between_zero_range(2,3) e(2,3) by blast
  qed
  have spec: "divide_retime (seg_numerator s (rt_value offset)) (seg_denominator s) rounding operation = Inr (q, x)
     \<longleftrightarrow> in_i64 q \<and> rounds_to rounding (seg_advance s offset) q \<and> x = (of_int q = seg_advance s offset)" for q x
    unfolding adv by (rule divide_retime_spec[OF pos nte])
  show ?thesis
  proof
    assume "rs_source_time_at_offset s offset rounding operation = Inr (t, exact)"
    then show "rt_timebase t = rt_timebase (rs_source_start s)
       \<and> rounds_to rounding (seg_advance s offset) (rt_value t - rt_value (rs_source_start s))
       \<and> exact = (of_int (rt_value t - rt_value (rs_source_start s)) = seg_advance s offset)"
      unfolding run by (auto simp: result_simps spec)
  next
    let ?q = "rt_value t - rt_value (rs_source_start s)"
    assume a: "rt_timebase t = rt_timebase (rs_source_start s) \<and> rounds_to rounding (seg_advance s offset) ?q
       \<and> exact = (of_int ?q = seg_advance s offset)"
    then have "divide_retime (seg_numerator s (rt_value offset)) (seg_denominator s) rounding operation = Inr (?q, exact)"
      using in_range[of ?q] by (simp add: spec)
    moreover have "in_i64 (rt_value t)" using in_range[of ?q] a by simp
    ultimately show "rs_source_time_at_offset s offset rounding operation = Inr (t, exact)"
      unfolding run using a by (simp add: rt_new_def)
  qed
qed

text \<open>No inexact rule fails inside a segment.\<close>

lemma interior_total:
  assumes s: "seg_ok s" and int: "interior s offset" and r: "rounding \<noteq> RoundExact"
  shows "is_ok (rs_source_time_at_offset s offset rounding operation)"
proof (cases "pr_is_freeze (rs_rate s)")
  case True
  then show ?thesis by (simp add: rs_source_time_at_offset_def)
next
  case False
  obtain e where run: "rs_source_time_at_offset s offset rounding operation =
     bindR (divide_retime (seg_numerator s (rt_value offset)) (seg_denominator s) rounding operation) (\<lambda>(delta, exact).
     bindR (ok_or (checked_i64 (rt_value (rs_source_start s) + delta)) (overflow_retime operation)) (\<lambda>val.
       Inr (rt_new val (rt_timebase (rs_source_start s)), exact)))"
    and e: "between_zero (seg_numerator s (rt_value offset)) (e * seg_denominator s)"
    "in_i64 e" "in_i64 (rt_value (rs_source_start s) + e)" by (rule interior_run[OF s False int])
  have pos: "0 < seg_denominator s" by (rule seg_denominator_pos[OF s])
  obtain c where c: "divide_time (seg_numerator s (rt_value offset)) (seg_denominator s) rounding operation
      = ok_or (checked_i64 c) (overflow_time operation)"
    "seg_numerator s (rt_value offset) div seg_denominator s \<le> c"
    "c \<le> - ((- seg_numerator s (rt_value offset)) div seg_denominator s)"
    by (rule divide_time_between[OF pos r])
  have "between_zero c e" by (rule between_zero_div[OF pos e(1) c(2,3)])
  moreover have "in_i64 (rt_value (rs_source_start s))" using s by (simp add: seg_ok_def rt_ok_def)
  ultimately have "in_i64 c" "in_i64 (rt_value (rs_source_start s) + c)"
    using between_zero_range(2,3) e(2,3) by blast+
  moreover from this c(1) have "divide_time (seg_numerator s (rt_value offset)) (seg_denominator s) rounding operation = Inr c"
    by simp
  ultimately have ok: "in_i64 (rt_value (rs_source_start s) + c)"
    and "divide_retime (seg_numerator s (rt_value offset)) (seg_denominator s) rounding operation
      = Inr (c, seg_numerator s (rt_value offset) smod seg_denominator s = 0)"
    by (simp_all add: divide_retime_time[OF pos])
  from this(2) ok show ?thesis unfolding run by simp
qed

section \<open>Coverage\<close>

text \<open>
  The segments cover \<open>a\<close> to \<open>b\<close> of the record clock in order without a gap, and the source
  mapping is continuous at every seam.
\<close>

fun segs_cover :: "timebase \<Rightarrow> timebase \<Rightarrow> retime_segment list \<Rightarrow> int \<Rightarrow> int \<Rightarrow> bool" where
  "segs_cover tb stb [] a b \<longleftrightarrow> a = b"
| "segs_cover tb stb (s # ss) a b \<longleftrightarrow>
     seg_ok s \<and> tr_timebase (rs_record_range s) = tb \<and> rt_timebase (rs_source_start s) = stb
     \<and> rt_value (tr_start (rs_record_range s)) = a
     \<and> (ss \<noteq> [] \<longrightarrow> rs_source_end s = Inr (rs_source_start (hd ss)))
     \<and> segs_cover tb stb ss (tr_end (rs_record_range s)) b"

definition ctm_ok :: "clip_time_map \<Rightarrow> bool" where
  "ctm_ok m \<longleftrightarrow> du_ok (ctm_record_duration m) \<and> 0 < du_value (ctm_record_duration m)
     \<and> tb_ok (ctm_source_timebase m) \<and> ctm_segments m \<noteq> []
     \<and> segs_cover (du_timebase (ctm_record_duration m)) (ctm_source_timebase m) (ctm_segments m)
          0 (du_value (ctm_record_duration m))"

lemma offset_timebase:
  assumes "seg_ok s" "interior s offset" "rs_source_time_at_offset s offset RoundExact operation = Inr (t, exact)"
  shows "rt_ok t \<and> rt_timebase t = rt_timebase (rs_source_start s) \<and> exact
     \<and> secs t = secs (rs_source_start s) + secs offset * pr_value (rs_rate s)"
proof -
  let ?q = "rt_value t - rt_value (rs_source_start s)"
  have tb: "rt_timebase t = rt_timebase (rs_source_start s)" "of_int ?q = seg_advance s offset" exact
    using interior_spec[OF assms(1,2), of RoundExact] assms(3) by (auto simp: rounds_to_def)
  have "in_i64 (rt_value t)"
    using assms(1,3) by (cases "pr_is_freeze (rs_rate s)")
      (auto simp: rs_source_time_at_offset_def seg_ok_def rt_ok_def result_simps Let_def)
  moreover have pos: "0 < rate (rt_timebase (rs_source_start s))"
    by (rule rate_pos[OF seg_ok_timebases(2)[OF assms(1)]])
  have "of_int (rt_value t) = of_int (rt_value (rs_source_start s)) + seg_advance s offset"
    using tb(2) by simp
  then have "secs t = secs (rs_source_start s) + secs offset * pr_value (rs_rate s)"
    unfolding seg_advance_def secs_def[of t] secs_def[of "rs_source_start s"] tb(1)
    using pos by (simp add: field_simps)
  ultimately show ?thesis using tb seg_ok_timebases(2)[OF assms(1)] by (simp add: rt_ok_def)
qed

lemma seg_end_interior:
  assumes "seg_ok s"
  shows "interior s (du_rational_time (tr_duration (rs_record_range s)))"
proof -
  have "du_ok (tr_duration (rs_record_range s))" using assms by (simp add: seg_ok_def tr_ok_def)
  then show ?thesis using seg_ok_timebases(3)[OF assms]
    by (simp add: interior_def du_rational_simps) (simp add: du_ok_def)
qed

lemma source_end_ok:
  assumes "seg_ok s" "rs_source_end s = Inr e"
  shows "rt_ok e \<and> rt_timebase e = rt_timebase (rs_source_start s)"
  using assms(2) offset_timebase[OF assms(1) seg_end_interior[OF assms(1)]]
  by (auto simp: rs_source_end_def result_simps)

lemma rt_eq_same:
  assumes "rt_ok a" "rt_ok b" "rt_timebase a = rt_timebase b"
  shows "rt_eq a b \<longleftrightarrow> a = b"
  using rt_same_timebase(1)[OF assms] assms(3) by (auto intro: rational_time.equality)

lemma ctm_check_cover:
  assumes "\<forall>s\<in>set segs. seg_ok s" "tb_ok tb" "in_i64 a"
  shows "ctm_check tb stb segs (rt_new a tb) = Inr e
     \<longleftrightarrow> (\<exists>b. e = rt_new b tb \<and> segs_cover tb stb segs a b)"
  using assms
proof (induction segs arbitrary: a)
  case Nil
  then show ?case by auto
next
  case (Cons s ss)
  let ?r = "rs_record_range s"
  have s: "seg_ok s" using Cons.prems(1) by simp
  then have r: "tr_ok ?r" by (simp add: seg_ok_def)
  note tend = tr_end_ok[OF r]
  show ?case
  proof (cases "tr_timebase ?r = tb \<and> rt_timebase (rs_source_start s) = stb \<and> rt_value (tr_start ?r) = a")
    case True
    then have tb: "tr_timebase ?r = tb" "rt_timebase (rs_source_start s) = stb" "rt_value (tr_start ?r) = a" by simp_all
    have start: "tr_start ?r = rt_new a tb" using tb(1,3) by (simp add: tr_timebase_def rt_new_def)
    have eq: "rt_eq (tr_start ?r) (rt_new a tb)"
      unfolding start using Cons.prems(2,3) by (subst rt_eq_same) (simp_all add: rt_ok_def)
    have ends: "tr_end_exclusive ?r = Inr (rt_new (tr_end ?r) tb)" "in_i64 (tr_end ?r)"
      using tend tb(1) by (simp_all add: rt_ok_def)
    have IH: "ctm_check tb stb ss (rt_new (tr_end ?r) tb) = Inr e
       \<longleftrightarrow> (\<exists>b. e = rt_new b tb \<and> segs_cover tb stb ss (tr_end ?r) b)"
      using Cons.IH[of "tr_end ?r"] Cons.prems ends by simp
    show ?thesis
    proof (cases ss)
      case Nil
      then show ?thesis using tb eq ends s by auto
    next
      case (Cons s' ss')
      have s': "seg_ok s'" using Cons.prems(1) Cons by simp
      then have st: "rt_ok (rs_source_start s')" by (simp add: seg_ok_def)
      have src: "rt_eq se (rs_source_start s') \<longleftrightarrow> se = rs_source_start s'"
        if "rs_source_end s = Inr se" "rt_timebase (rs_source_start s') = stb" for se
        using source_end_ok[OF s that(1)] st tb(2) that(2) by (simp add: rt_eq_same)
      show ?thesis
      proof (cases "rt_timebase (rs_source_start s') = stb")
        case True
        have "ctm_check tb stb (s # ss) (rt_new a tb) = Inr e \<longleftrightarrow>
          rs_source_end s = Inr (rs_source_start s') \<and> ctm_check tb stb ss (rt_new (tr_end ?r) tb) = Inr e"
          using tb eq ends Cons src True by (auto simp: result_simps)
        then show ?thesis unfolding IH using tb s Cons by auto
      next
        case False
        then have "\<not> segs_cover tb stb ss x b" for x b using Cons by simp
        then show ?thesis using IH tb eq ends by (auto simp: result_simps)
      qed
    qed
  next
    case False
    have st: "rt_ok (tr_start ?r)" using r by (simp add: tr_ok_def)
    have "\<not> rt_eq (tr_start ?r) (rt_new a tb)" if "tr_timebase ?r = tb" "rt_value (tr_start ?r) \<noteq> a"
      using that rt_same_timebase(1)[OF st, of "rt_new a tb"] Cons.prems(2,3)
      by (simp add: rt_ok_def tr_timebase_def)
    with False show ?thesis by auto
  qed
qed

lemma ctm_new_iff:
  assumes "du_ok d" "tb_ok stb" "\<forall>s\<in>set segs. seg_ok s"
  shows "ctm_new d stb segs = Inr m
     \<longleftrightarrow> m = \<lparr>ctm_record_duration = d, ctm_source_timebase = stb, ctm_segments = segs\<rparr> \<and> ctm_ok m"
proof (cases "du_is_zero d \<or> segs = []")
  case True
  then show ?thesis by (auto simp: ctm_new_def ctm_ok_def du_is_zero_def)
next
  case False
  let ?tb = "du_timebase d"
  have tb: "tb_ok ?tb" "in_i64 (du_value d)" "in_i64 0" using assms(1) by (simp_all add: du_ok_def in_i64_def)
  have z: "rt_zero ?tb = rt_new 0 ?tb" by (simp add: rt_zero_def)
  have bound: "in_i64 b" if "segs_cover ?tb stb ss a b" "in_i64 a" for ss a b
    using that
  proof (induction ss arbitrary: a)
    case (Cons s ss)
    then have "tr_ok (rs_record_range s)" by (simp add: seg_ok_def)
    then have "in_i64 (tr_end (rs_record_range s))" using tr_end_ok(2) by (auto simp: rt_ok_def)
    with Cons show ?case by auto
  qed simp
  have eq: "rt_eq (rt_new b ?tb) (rt_new (du_value d) ?tb) \<longleftrightarrow> b = du_value d" if "segs_cover ?tb stb segs 0 b" for b
    using bound[OF that tb(3)] tb by (subst rt_eq_same) (simp_all add: rt_ok_def)
  have "ctm_new d stb segs = Inr m \<longleftrightarrow>
    m = \<lparr>ctm_record_duration = d, ctm_source_timebase = stb, ctm_segments = segs\<rparr>
    \<and> segs_cover ?tb stb segs 0 (du_value d)"
    using False tb eq
    by (auto simp: ctm_new_def result_simps z ctm_check_cover[OF assms(3) tb(1,3)] Let_def)
  also have "\<dots> \<longleftrightarrow> m = \<lparr>ctm_record_duration = d, ctm_source_timebase = stb, ctm_segments = segs\<rparr> \<and> ctm_ok m"
    using False assms by (auto simp: ctm_ok_def du_is_zero_def du_ok_def)
  finally show ?thesis .
qed

section \<open>Lookup\<close>

lemma segs_cover_bounds:
  "segs_cover tb stb ss a b \<Longrightarrow> a \<le> b \<and> (ss \<noteq> [] \<longrightarrow> a < b)"
proof (induction ss arbitrary: a)
  case (Cons s ss)
  then have "a < tr_end (rs_record_range s)" by (simp add: tr_end_def seg_ok_def)
  with Cons show ?case by fastforce
qed simp

definition covers :: "retime_segment \<Rightarrow> int \<Rightarrow> bool" where
  "covers s v \<longleftrightarrow> rt_value (tr_start (rs_record_range s)) \<le> v \<and> v < tr_end (rs_record_range s)"

lemma segs_cover_lookup:
  assumes "segs_cover tb stb ss a b" "a \<le> v" "v < b"
  defines "i \<equiv> partition_point (\<lambda>s. rt_value (tr_start (rs_record_range s)) \<le> v) ss - 1"
  shows "i < length ss \<and> covers (ss ! i) v \<and> (\<forall>j<length ss. covers (ss ! j) v \<longrightarrow> j = i)"
  using assms(1-3) unfolding i_def
proof (induction ss arbitrary: a)
  case Nil
  then show ?case by simp
next
  case (Cons s ss)
  let ?P = "\<lambda>s. rt_value (tr_start (rs_record_range s)) \<le> v"
  let ?e = "tr_end (rs_record_range s)"
  have s: "?P s" "rt_value (tr_start (rs_record_range s)) = a" and rest: "segs_cover tb stb ss ?e b" using Cons.prems by simp_all
  have later: "?e \<le> rt_value (tr_start (rs_record_range t))" if "t \<in> set ss" for t
    using rest that
  proof (induction ss arbitrary: s)
    case (Cons u us)
    have "rt_value (tr_start (rs_record_range u)) = tr_end (rs_record_range s)"
      "rt_value (tr_start (rs_record_range u)) \<le> tr_end (rs_record_range u)"
      using Cons.prems(1) by (simp_all add: tr_end_def seg_ok_def)
    with Cons show ?case by fastforce
  qed simp
  show ?case
  proof (cases "v < ?e")
    case True
    have "\<not> ?P t" if "t \<in> set ss" for t using later[OF that] True by simp
    then have "takeWhile ?P ss = []" by (cases ss) auto
    then have "partition_point ?P (s # ss) - 1 = 0" using s by (simp add: partition_point_def)
    moreover have "\<not> covers t v" if "t \<in> set ss" for t using later[OF that] True by (auto simp: covers_def)
    ultimately show ?thesis using s True
      by (auto simp: covers_def nth_Cons split: nat.splits)
  next
    case False
    then have IH: "partition_point ?P ss - 1 < length ss \<and> covers (ss ! (partition_point ?P ss - 1)) v
        \<and> (\<forall>j<length ss. covers (ss ! j) v \<longrightarrow> j = partition_point ?P ss - 1)"
      using Cons.IH[OF rest] Cons.prems(3) by simp
    obtain u us where ss: "ss = u # us" using rest False Cons.prems(3) by (cases ss) auto
    then have "?P u" using rest False by simp
    then have "0 < partition_point ?P ss" using ss by (simp add: partition_point_def)
    then have idx: "partition_point ?P (s # ss) - 1 = Suc (partition_point ?P ss - 1)"
      using s by (simp add: partition_point_def)
    have "\<not> covers s v" using False by (simp add: covers_def)
    then show ?thesis unfolding idx using IH by (auto simp: nth_Cons split: nat.splits)
  qed
qed

lemma segs_cover_nth:
  "segs_cover tb stb ss a b \<Longrightarrow> i < length ss \<Longrightarrow>
     seg_ok (ss ! i) \<and> tr_timebase (rs_record_range (ss ! i)) = tb \<and> rt_timebase (rs_source_start (ss ! i)) = stb
     \<and> a \<le> rt_value (tr_start (rs_record_range (ss ! i))) \<and> tr_end (rs_record_range (ss ! i)) \<le> b"
proof (induction ss arbitrary: a i)
  case (Cons s ss)
  have "a \<le> tr_end (rs_record_range s)" using Cons.prems by (simp add: tr_end_def seg_ok_def)
  moreover have "tr_end (rs_record_range s) \<le> b" using segs_cover_bounds Cons.prems by fastforce
  ultimately show ?case using Cons.IH[of "tr_end (rs_record_range s)" "i - 1"] Cons.prems
    by (cases i) auto
qed simp

lemma rs_source_time_at_same:
  assumes "seg_ok s" "rt_ok t" "rt_timebase t = tr_timebase (rs_record_range s)" "covers s (rt_value t) \<or> rt_value t = tr_end (rs_record_range s)"
  defines "offset \<equiv> rt_new (rt_value t - rt_value (tr_start (rs_record_range s))) (tr_timebase (rs_record_range s))"
  shows "rs_source_time_at s t rounding operation = rs_source_time_at_offset s offset rounding operation"
    and "interior s offset"
proof -
  let ?r = "rs_record_range s"
  have r: "tr_ok ?r" "rt_ok (tr_start ?r)" "rt_timebase (tr_start ?r) = tr_timebase ?r"
    using assms(1) by (simp_all add: seg_ok_def tr_ok_def tr_timebase_def)
  have d: "du_value (tr_duration ?r) < 2 ^ 63" using r(1) by (simp add: tr_ok_def du_ok_def)
  have o: "0 \<le> rt_value t - rt_value (tr_start ?r)" "rt_value t - rt_value (tr_start ?r) \<le> du_value (tr_duration ?r)"
    using assms(1,4) by (auto simp: covers_def tr_end_def seg_ok_def)
  then have "in_i64 (rt_value t - rt_value (tr_start ?r))" using d by (simp add: in_i64_def)
  then have "rt_checked_sub_at t (tr_start ?r) (tr_timebase ?r) RoundExact = Inr offset"
    using sub_same_timebase[OF assms(2) r(2) assms(3) r(3)] by (simp add: offset_def)
  then show "rs_source_time_at s t rounding operation = rs_source_time_at_offset s offset rounding operation"
    by (simp add: rs_source_time_at_def)
  show "interior s offset" using o by (simp add: interior_def offset_def)
qed

definition seg_offset :: "retime_segment \<Rightarrow> int \<Rightarrow> rational_time" where
  "seg_offset s v = rt_new (v - rt_value (tr_start (rs_record_range s))) (tr_timebase (rs_record_range s))"

text \<open>Inside the clip the covering segment answers.\<close>

definition mapped :: "nat \<Rightarrow> retime_segment \<Rightarrow> time_rounding \<Rightarrow> rational_time \<times> bool \<Rightarrow> mapped_source_time" where
  "mapped i s rounding r = \<lparr>mst_time = fst r,
     mst_resolution = (if pr_is_freeze (rs_rate s) then ResolvedHeld
       else if snd r then ResolvedExact else ResolvedRounded rounding),
     mst_segment_index = i\<rparr>"

definition ctm_index :: "clip_time_map \<Rightarrow> int \<Rightarrow> nat" where
  "ctm_index m v = partition_point (\<lambda>s. rt_value (tr_start (rs_record_range s)) \<le> v) (ctm_segments m) - 1"

definition ctm_covering :: "clip_time_map \<Rightarrow> int \<Rightarrow> retime_segment" where
  "ctm_covering m v = ctm_segments m ! ctm_index m v"

lemma ctm_lookup:
  assumes m: "ctm_ok m" and t: "rt_ok t" "rt_timebase t = du_timebase (ctm_record_duration m)"
    and v: "0 \<le> rt_value t" "rt_value t < du_value (ctm_record_duration m)"
  shows "ctm_index m (rt_value t) < length (ctm_segments m)" "covers (ctm_covering m (rt_value t)) (rt_value t)"
    "j < length (ctm_segments m) \<Longrightarrow> covers (ctm_segments m ! j) (rt_value t) \<Longrightarrow> j = ctm_index m (rt_value t)"
    "seg_ok (ctm_covering m (rt_value t))"
    "ctm_source_time_at m t rounding = mapR (mapped (ctm_index m (rt_value t)) (ctm_covering m (rt_value t)) rounding)
       (rs_source_time_at_offset (ctm_covering m (rt_value t)) (seg_offset (ctm_covering m (rt_value t)) (rt_value t)) rounding
          ''resolve_retime_source'')"
proof -
  let ?d = "ctm_record_duration m" and ?ss = "ctm_segments m"
  let ?tb = "du_timebase ?d"
  have d: "du_ok ?d" "tb_ok ?tb" using m by (simp_all add: ctm_ok_def du_ok_def)
  have cov: "segs_cover ?tb (ctm_source_timebase m) ?ss 0 (du_value ?d)" using m by (simp add: ctm_ok_def)
  let ?i = "ctm_index m (rt_value t)"
  note look = segs_cover_lookup[OF cov v, folded ctm_index_def]
  have rle: "partition_point (\<lambda>s. rt_le (tr_start (rs_record_range s)) t) ?ss - 1 = ?i"
  proof -
    have "rt_le (tr_start (rs_record_range s)) t \<longleftrightarrow> rt_value (tr_start (rs_record_range s)) \<le> rt_value t" if s_in: "s \<in> set ?ss" for s
    proof -
      obtain k where "k < length ?ss" "s = ?ss ! k" using s_in by (metis in_set_conv_nth)
      then have "seg_ok s" "tr_timebase (rs_record_range s) = ?tb" using segs_cover_nth[OF cov] by auto
      then show ?thesis using rt_same_timebase(3)[of "tr_start (rs_record_range s)" t] t
        by (simp add: seg_ok_def tr_ok_def tr_timebase_def)
    qed
    then show ?thesis unfolding ctm_index_def partition_point_def by (simp cong: takeWhile_cong)
  qed
  let ?s = "ctm_covering m (rt_value t)"
  have s: "seg_ok ?s" "tr_timebase (rs_record_range ?s) = ?tb"
    using segs_cover_nth[OF cov, of ?i] look by (simp_all add: ctm_covering_def)
  have r: "tr_ok (rs_record_range ?s)" using s(1) by (simp add: seg_ok_def)
  let ?c = "\<lparr>tr_start = rt_zero ?tb, tr_duration = ?d\<rparr>"
  have c: "tr_new (rt_zero ?tb) ?d = Inr ?c" using d by (subst tr_new_iff) (simp_all add: du_ok_def in_i64_def)
  have cok: "tr_ok ?c" using tr_new_ok[OF rt_zero_ok[OF d(2)] d(1) c] by simp
  have inside: "tr_contains ?c t = Inr True"
    using tr_contains_same_timebase[OF cok t(1)] t(2) v by (simp add: tr_timebase_def tr_end_def)
  have covered: "tr_contains (rs_record_range ?s) t = Inr True"
    using tr_contains_same_timebase[OF r t(1)] t(2) s(2) look by (simp add: covers_def ctm_covering_def)
  have q: "rs_source_time_at ?s t rounding op = rs_source_time_at_offset ?s (seg_offset ?s (rt_value t)) rounding op" for rounding op
    using rs_source_time_at_same(1)[OF s(1) t(1)] t(2) s(2) look by (simp add: seg_offset_def ctm_covering_def)
  show "ctm_source_time_at m t rounding = mapR (mapped ?i ?s rounding)
     (rs_source_time_at_offset ?s (seg_offset ?s (rt_value t)) rounding ''resolve_retime_source'')"
    unfolding ctm_source_time_at_def c rle Let_def
    by (cases "rs_source_time_at_offset ?s (seg_offset ?s (rt_value t)) rounding ''resolve_retime_source''")
      (auto simp: inside covered q mapped_def ctm_covering_def[symmetric])
  show "?i < length ?ss" "covers ?s (rt_value t)" "seg_ok ?s"
    using look s(1) by (simp_all add: ctm_covering_def)
  show "j < length ?ss \<Longrightarrow> covers (?ss ! j) (rt_value t) \<Longrightarrow> j = ?i" using look by simp
qed

lemma seg_offset_interior:
  assumes "seg_ok s" "covers s v"
  shows "interior s (seg_offset s v)"
  using assms by (simp add: interior_def seg_offset_def covers_def tr_end_def)

section \<open>Slicing\<close>

text \<open>The abstract source position, in source units, of a record position of a segment.\<close>

definition seg_source :: "retime_segment \<Rightarrow> int \<Rightarrow> rat" where
  "seg_source s v = of_int (rt_value (rs_source_start s)) + seg_advance s (seg_offset s v)"

lemma seg_source_linear:
  assumes "seg_ok s"
  shows "seg_source s v = of_int (rt_value (rs_source_start s))
     + of_int (v - rt_value (tr_start (rs_record_range s)))
       * (pr_value (rs_rate s) * rate (rt_timebase (rs_source_start s)) / rate (tr_timebase (rs_record_range s)))"
  by (simp add: seg_source_def seg_advance_def seg_offset_def secs_def)

text \<open>A piece of a segment: the same rate and clocks, and the same source positions, shifted.\<close>

definition piece_of :: "int \<Rightarrow> retime_segment \<Rightarrow> retime_segment \<Rightarrow> bool" where
  "piece_of a s p \<longleftrightarrow> seg_ok p \<and> rs_rate p = rs_rate s
     \<and> tr_timebase (rs_record_range p) = tr_timebase (rs_record_range s)
     \<and> rt_timebase (rs_source_start p) = rt_timebase (rs_source_start s)
     \<and> (\<forall>v. seg_source p v = seg_source s (v + a))
     \<and> rt_value (tr_start (rs_record_range s)) \<le> rt_value (tr_start (rs_record_range p)) + a
     \<and> tr_end (rs_record_range p) + a \<le> tr_end (rs_record_range s)"

lemma rs_new_ok:
  assumes "tr_ok r" "rt_ok t" "pr_ok p" "rs_new r t p = Inr s"
  shows "seg_ok s \<and> s = \<lparr>rs_record_range = r, rs_source_start = t, rs_rate = p\<rparr>"
  using assms
  by (auto simp: rs_new_def Let_def result_simps seg_ok_def tr_is_empty_def du_is_zero_def
      rt_is_negative_def is_ok_iff tr_ok_def du_ok_def split: if_splits)

lemma slice_segment_piece:
  assumes s: "seg_ok s" and w: "tr_ok w" "tr_timebase w = tr_timebase (rs_record_range s)" "0 \<le> rt_value (tr_start w)"
    and run: "ctm_slice_segment w (rt_new (tr_end w) (tr_timebase w)) s = Inr (Some p)"
  shows "piece_of (rt_value (tr_start w)) s p"
proof -
  let ?r = "rs_record_range s" and ?tb = "tr_timebase w"
  have r: "tr_ok ?r" "rt_ok (tr_start ?r)" "rt_timebase (tr_start ?r) = ?tb" using s w(2) by (simp_all add: seg_ok_def tr_ok_def tr_timebase_def)
  have ws: "rt_ok (tr_start w)" "rt_timebase (tr_start w) = ?tb" using w(1) by (simp_all add: tr_ok_def tr_timebase_def)
  have re: "tr_end_exclusive ?r = Inr (rt_new (tr_end ?r) ?tb)" "rt_ok (rt_new (tr_end ?r) ?tb)"
    using tr_end_ok[OF r(1)] w(2) by simp_all
  have we: "rt_ok (rt_new (tr_end w) ?tb)" by (rule tr_end_ok(2)[OF w(1)])
  define a where "a = rt_value (tr_start w)"
  define x where "x = max (rt_value (tr_start ?r)) a"
  define y where "y = min (tr_end ?r) (tr_end w)"
  have lt: "rt_lt (tr_start w) (tr_start ?r) \<longleftrightarrow> a < rt_value (tr_start ?r)"
    using rt_same_timebase(2)[OF ws(1) r(2)] ws r by (simp add: a_def)
  have start: "(if rt_lt (tr_start w) (tr_start ?r) then tr_start ?r else tr_start w) = rt_new x ?tb"
    unfolding lt using r(3) ws(2) by (auto simp: x_def a_def rt_new_def max_def)
  have lt2: "rt_lt (rt_new (tr_end ?r) ?tb) (rt_new (tr_end w) ?tb) \<longleftrightarrow> tr_end ?r < tr_end w"
    using rt_same_timebase(2)[OF re(2) we] by simp
  have until: "(if rt_lt (rt_new (tr_end ?r) ?tb) (rt_new (tr_end w) ?tb) then rt_new (tr_end ?r) ?tb else rt_new (tr_end w) ?tb) = rt_new y ?tb"
    unfolding lt2 by (simp add: y_def)
  have xy_ok: "rt_ok (rt_new x ?tb)" "rt_ok (rt_new y ?tb)"
    using r ws re we by (auto simp: x_def y_def a_def rt_ok_def max_def min_def)
  from run have xy: "x < y" and run':
    "bindR (rs_source_time_at s (rt_new x ?tb) RoundExact ''slice_clip_time_map'') (\<lambda>(source_start, _).
        bindR (rt_checked_sub_at (rt_new x ?tb) (tr_start w) ?tb RoundExact) (\<lambda>rebased_start.
        bindR (rt_checked_sub_at (rt_new y ?tb) (tr_start w) ?tb RoundExact) (\<lambda>rebased_end.
        bindR (tr_from_start_end rebased_start rebased_end) (\<lambda>rebased.
        bindR (rs_new rebased source_start (rs_rate s)) (\<lambda>piece. Inr (Some piece)))))) = Inr (Some p)"
    unfolding ctm_slice_segment_def re(1) bindR_simps Let_def start until
      rt_same_timebase(3)[OF xy_ok(2,1), simplified]
    by (auto split: if_splits)
  have cov: "covers s x" using xy s by (auto simp: covers_def x_def y_def)
  note q = rs_source_time_at_same[OF s xy_ok(1), simplified, OF w(2) disjI1[OF cov]]
  have i64: "in_i64 (x - a)" "in_i64 (y - a)"
    using xy xy_ok w(3) by (auto simp: x_def a_def rt_ok_def in_i64_def)
  have sub: "rt_checked_sub_at (rt_new x ?tb) (tr_start w) ?tb RoundExact = Inr (rt_new (x - a) ?tb)"
    "rt_checked_sub_at (rt_new y ?tb) (tr_start w) ?tb RoundExact = Inr (rt_new (y - a) ?tb)"
    using sub_same_timebase[OF xy_ok(1) ws(1)] sub_same_timebase[OF xy_ok(2) ws(1)] ws(2) i64
    by (simp_all add: a_def)
  obtain src ex rb where run2: "rs_source_time_at_offset s (seg_offset s x) RoundExact ''slice_clip_time_map'' = Inr (src, ex)"
    "tr_from_start_end (rt_new (x - a) ?tb) (rt_new (y - a) ?tb) = Inr rb" "rs_new rb src (rs_rate s) = Inr p"
    using run' unfolding sub q(1)[unfolded w(2)[symmetric]]
    by (auto simp: result_simps seg_offset_def w(2))
  have ok: "rt_ok (rt_new (x - a) ?tb)" "rt_ok (rt_new (y - a) ?tb)" using i64 xy_ok by (simp_all add: rt_ok_def)
  from tr_from_start_end_ok[OF ok run2(2)] have rb: "tr_ok rb" "tr_start rb = rt_new (x - a) ?tb" "tr_end rb = y - a"
    "tr_timebase rb = ?tb" by simp_all
  have int: "interior s (seg_offset s x)" by (rule seg_offset_interior[OF s cov])
  have src: "rt_ok src" "rt_timebase src = rt_timebase (rs_source_start s)"
    using offset_timebase[OF s int run2(1)] by simp_all
  have adv: "of_int (rt_value src) = seg_source s x"
    using interior_spec[OF s int, of RoundExact] run2(1) by (auto simp: seg_source_def rounds_to_def)
  note p = conjunct1[OF rs_new_ok[OF rb(1) src(1) seg_ok_timebases(4)[OF s] run2(3)]]
    conjunct2[OF rs_new_ok[OF rb(1) src(1) seg_ok_timebases(4)[OF s] run2(3)]]
  have "seg_source p v = seg_source s (v + a)" for v
    unfolding seg_source_linear[OF p(1)] seg_source_linear[OF s]
    using adv[unfolded seg_source_linear[OF s]] p(2) rb(2,4) src(2) w(2)
    by (simp add: algebra_simps add_divide_distrib diff_divide_distrib)
  then show ?thesis
    unfolding piece_of_def a_def[symmetric]
    using p rb src(2) w(2) by (auto simp: x_def y_def)
qed

lemma rounds_to_shift:
  assumes "rounding \<in> {RoundExact, RoundFloor, RoundCeil}"
  shows "rounds_to rounding x q \<longleftrightarrow> rounds_to rounding (of_int k + x) (k + q)"
  using assms by (auto simp: rounds_to_def ceiling_add_of_int[symmetric] add.commute)

lemma seg_query:
  assumes "seg_ok s" "covers s v" "rounding \<in> {RoundExact, RoundFloor, RoundCeil}"
  shows "rs_source_time_at_offset s (seg_offset s v) rounding operation = Inr (t, exact)
     \<longleftrightarrow> rt_timebase t = rt_timebase (rs_source_start s)
       \<and> rounds_to rounding (seg_source s v) (rt_value t) \<and> exact = (of_int (rt_value t) = seg_source s v)"
proof -
  have "rounding \<noteq> RoundNearestTiesEven" using assms(3) by auto
  note spec = interior_spec[OF assms(1) seg_offset_interior[OF assms(1,2)]]
  have "rs_source_time_at_offset s (seg_offset s v) rounding operation = Inr (t, exact)
    \<longleftrightarrow> rt_timebase t = rt_timebase (rs_source_start s)
       \<and> rounds_to rounding (seg_advance s (seg_offset s v)) (rt_value t - rt_value (rs_source_start s))
       \<and> exact = (of_int (rt_value t - rt_value (rs_source_start s)) = seg_advance s (seg_offset s v))"
    by (rule spec) (use assms(3) in auto)
  also have "\<dots> \<longleftrightarrow> rt_timebase t = rt_timebase (rs_source_start s)
       \<and> rounds_to rounding (seg_source s v) (rt_value t) \<and> exact = (of_int (rt_value t) = seg_source s v)"
    using rounds_to_shift[OF assms(3), of "seg_advance s (seg_offset s v)" "rt_value t - rt_value (rs_source_start s)"
        "rt_value (rs_source_start s)"]
    by (auto simp: seg_source_def algebra_simps)
  finally show ?thesis .
qed

lemma map_filter_id_set: "p \<in> set (List.map_filter id ps) \<longleftrightarrow> Some p \<in> set ps"
  by (induction ps) (auto simp: List.map_filter_def)

lemma ctm_slice_pieces:
  assumes m: "ctm_ok m" and w: "tr_ok w" and run: "ctm_slice m w = Inr m'"
  shows "ctm_ok m' \<and> ctm_record_duration m' = tr_duration w \<and> ctm_source_timebase m' = ctm_source_timebase m
     \<and> tr_timebase w = du_timebase (ctm_record_duration m) \<and> 0 \<le> rt_value (tr_start w)
     \<and> tr_end w \<le> du_value (ctm_record_duration m)
     \<and> (\<forall>p\<in>set (ctm_segments m'). \<exists>s\<in>set (ctm_segments m). piece_of (rt_value (tr_start w)) s p)"
proof -
  let ?d = "ctm_record_duration m" and ?ss = "ctm_segments m"
  let ?tb = "du_timebase ?d"
  have d: "du_ok ?d" "tb_ok ?tb" "tb_ok (ctm_source_timebase m)" using m by (simp_all add: ctm_ok_def du_ok_def)
  have cov: "segs_cover ?tb (ctm_source_timebase m) ?ss 0 (du_value ?d)" using m by (simp add: ctm_ok_def)
  let ?c = "\<lparr>tr_start = rt_zero ?tb, tr_duration = ?d\<rparr>"
  have c: "tr_new (rt_zero ?tb) ?d = Inr ?c" using d by (subst tr_new_iff) (simp_all add: du_ok_def in_i64_def)
  have cok: "tr_ok ?c" using tr_new_ok[OF rt_zero_ok[OF d(2)] d(1) c] by simp
  have cend: "tr_end_exclusive ?c = Inr (rt_new (du_value ?d) ?tb)" "rt_ok (rt_new (du_value ?d) ?tb)"
    using tr_end_ok[OF cok] by (simp_all add: tr_end_def tr_timebase_def)
  note wend = tr_end_ok[OF w]
  from run obtain pieces where bounds: "\<not> tr_is_empty w" "tr_timebase w = ?tb" "\<not> rt_lt (tr_start w) (rt_zero ?tb)"
      "\<not> rt_lt (rt_new (du_value ?d) ?tb) (rt_new (tr_end w) ?tb)"
    and pieces: "traverse (ctm_slice_segment w (rt_new (tr_end w) (tr_timebase w))) ?ss = Inr pieces"
    and new: "ctm_new (tr_duration w) (ctm_source_timebase m) (List.map_filter id pieces) = Inr m'"
    unfolding ctm_slice_def c using cend wend
    by (auto simp: result_simps tr_timebase_def split: if_splits)
  have start: "0 \<le> rt_value (tr_start w)"
    using bounds(2,3) rt_same_timebase(2)[of "tr_start w" "rt_zero ?tb"] w d(2)
    by (simp add: tr_ok_def tr_timebase_def)
  have stop: "tr_end w \<le> du_value ?d"
    using bounds(2,4) rt_same_timebase(2)[OF cend(2), of "rt_new (tr_end w) ?tb"] wend by simp
  have piece: "\<exists>s\<in>set ?ss. piece_of (rt_value (tr_start w)) s p" if p: "p \<in> set (List.map_filter id pieces)" for p
  proof -
    from p obtain i where i: "i < length pieces" "pieces ! i = Some p"
      unfolding map_filter_id_set by (metis in_set_conv_nth)
    then have len: "i < length ?ss" using traverse_length[OF pieces] by simp
    have "ctm_slice_segment w (rt_new (tr_end w) (tr_timebase w)) (?ss ! i) = Inr (Some p)"
      using traverse_nth[OF pieces len] i(2) by simp
    moreover have "seg_ok (?ss ! i)" "tr_timebase w = tr_timebase (rs_record_range (?ss ! i))"
      using segs_cover_nth[OF cov len] bounds(2) by simp_all
    ultimately show ?thesis using slice_segment_piece[OF _ w _ start] len by (meson nth_mem)
  qed
  then have ok: "\<forall>s\<in>set (List.map_filter id pieces). seg_ok s" by (auto simp: piece_of_def)
  have wd: "du_ok (tr_duration w)" using w by (simp add: tr_ok_def)
  from new[unfolded ctm_new_iff[OF wd d(3) ok]] show ?thesis using bounds(2) start stop piece by auto
qed

lemma ctm_slice_query:
  assumes m: "ctm_ok m" and w: "tr_ok w" and run: "ctm_slice m w = Inr m'"
    and v: "0 \<le> v" "v < du_value (tr_duration w)" and r: "rounding \<in> {RoundExact, RoundFloor, RoundCeil}"
  shows "(\<exists>i. ctm_source_time_at m' (rt_new v (tr_timebase w)) rounding
        = Inr \<lparr>mst_time = t, mst_resolution = res, mst_segment_index = i\<rparr>)
     \<longleftrightarrow> (\<exists>j. ctm_source_time_at m (rt_new (rt_value (tr_start w) + v) (tr_timebase w)) rounding
        = Inr \<lparr>mst_time = t, mst_resolution = res, mst_segment_index = j\<rparr>)"
proof -
  let ?a = "rt_value (tr_start w)" and ?tb = "tr_timebase w"
  note sl = ctm_slice_pieces[OF m w run]
  have tb: "tb_ok ?tb" "du_timebase (tr_duration w) = ?tb" using w by (simp_all add: tr_ok_def rt_ok_def tr_timebase_def)
  have i64: "in_i64 v" "in_i64 (?a + v)"
    using w v sl by (auto simp: tr_ok_def rt_ok_def du_ok_def tr_end_def in_i64_def)
  have t1: "rt_ok (rt_new v ?tb)" "rt_ok (rt_new (?a + v) ?tb)" using tb i64 by (simp_all add: rt_ok_def)
  have av: "0 \<le> ?a + v" "?a + v < du_value (ctm_record_duration m)" using sl v by (auto simp: tr_end_def)
  have m': "ctm_ok m'" "rt_timebase (rt_new v ?tb) = du_timebase (ctm_record_duration m')"
    "0 \<le> rt_value (rt_new v ?tb)" "rt_value (rt_new v ?tb) < du_value (ctm_record_duration m')"
    using sl tb v by simp_all
  note i = ctm_lookup[OF m'(1) t1(1) m'(2-4), unfolded rt_new_simps]
  have m2: "rt_timebase (rt_new (?a + v) ?tb) = du_timebase (ctm_record_duration m)"
    "0 \<le> rt_value (rt_new (?a + v) ?tb)" "rt_value (rt_new (?a + v) ?tb) < du_value (ctm_record_duration m)"
    using sl av by simp_all
  note j = ctm_lookup[OF m t1(2) m2, unfolded rt_new_simps]
  let ?p = "ctm_covering m' v" and ?s = "ctm_covering m (?a + v)"
  have "?p \<in> set (ctm_segments m')" using i(1) by (simp add: ctm_covering_def)
  then obtain s where s: "s \<in> set (ctm_segments m)" "piece_of ?a s ?p" using sl by blast
  then have "covers s (?a + v)" using i(2) by (auto simp: piece_of_def covers_def)
  moreover obtain k where "k < length (ctm_segments m)" "s = ctm_segments m ! k" using s(1) by (metis in_set_conv_nth)
  ultimately have sj: "s = ?s" using j(3) by (auto simp: ctm_covering_def)
  then have piece: "rs_rate ?p = rs_rate ?s" "rt_timebase (rs_source_start ?p) = rt_timebase (rs_source_start ?s)"
    "seg_source ?p v = seg_source ?s (?a + v)" using s(2) by (simp_all add: piece_of_def add.commute)
  have "rs_source_time_at_offset ?p (seg_offset ?p v) rounding ''resolve_retime_source'' = Inr x
    \<longleftrightarrow> rs_source_time_at_offset ?s (seg_offset ?s (?a + v)) rounding ''resolve_retime_source'' = Inr x" for x
    using seg_query[OF i(4,2) r] seg_query[OF j(4,2) r] piece(2,3) by (cases x) simp
  then show ?thesis unfolding i(5) j(5) by (auto simp: mapR_Inr mapped_def piece(1))
qed

end
