(* ===== verification/Model.thy ===== *)
theory Model
  imports TrackSemantics RetimeLaws
begin

text \<open>
  \<open>superi-timeline/src/model.rs\<close>: the editorial objects. A clip binds a source range to a record
  range of equal physical length and carries a retime map; gaps, generators and captions have a
  record range; a transition sits between two timed items and overlaps them. A track is a list
  of items that tile its record clock from zero. \<open>validate_track\<close> is the contract every edit is
  checked against.
\<close>

section \<open>Errors of the module\<close>

text \<open>\<open>invalid\<close> and \<open>invalid_model\<close> of the source build the same value.\<close>

definition model_not_found :: "string \<Rightarrow> string \<Rightarrow> string \<Rightarrow> string \<Rightarrow> error_value" where
  "model_not_found operation message field val =
     err_with_context (err_new NotFound UserCorrectable message)
       (ctx_with_field (ctx_new ''superi-timeline.model'' operation) field val)"

definition model_conflict :: "string \<Rightarrow> string \<Rightarrow> string \<Rightarrow> string \<Rightarrow> error_value" where
  "model_conflict operation message field val =
     err_with_context (err_new Conflict UserCorrectable message)
       (ctx_with_field (ctx_new ''superi-timeline.model'' operation) field val)"

lemma model_not_found_cong [cong]:
  "model_not_found operation message field val = model_not_found operation message field val"
  by (rule refl)

lemma model_conflict_cong [cong]:
  "model_conflict operation message field val = model_conflict operation message field val"
  by (rule refl)

section \<open>Identities and sources\<close>

datatype editorial_object_id = OClip clip_id | OGap gap_id | OTransition transition_id
  | OGenerator generator_id | OCaption caption_id

fun object_id_display :: "editorial_object_id \<Rightarrow> string" where
  "object_id_display (OClip x) = id_display ClipKind x"
| "object_id_display (OGap x) = id_display GapKind x"
| "object_id_display (OTransition x) = id_display TransitionKind x"
| "object_id_display (OGenerator x) = id_display GeneratorKind x"
| "object_id_display (OCaption x) = id_display CaptionKind x"

text \<open>The derived order: the variants as declared, then the identifiers.\<close>

fun object_rank :: "editorial_object_id \<Rightarrow> nat \<times> 128 word" where
  "object_rank (OClip x) = (0, raw_id x)"
| "object_rank (OGap x) = (1, raw_id x)"
| "object_rank (OTransition x) = (2, raw_id x)"
| "object_rank (OGenerator x) = (3, raw_id x)"
| "object_rank (OCaption x) = (4, raw_id x)"

lemma object_rank_inj: "object_rank x = object_rank y \<longleftrightarrow> x = y"
  by (cases x; cases y) (auto intro: typed_id.expand)

instantiation editorial_object_id :: linorder
begin

definition less_eq_editorial_object_id :: "editorial_object_id \<Rightarrow> editorial_object_id \<Rightarrow> bool" where
  "less_eq_editorial_object_id x y \<longleftrightarrow> fst (object_rank x) < fst (object_rank y)
     \<or> fst (object_rank x) = fst (object_rank y) \<and> snd (object_rank x) \<le> snd (object_rank y)"

definition less_editorial_object_id :: "editorial_object_id \<Rightarrow> editorial_object_id \<Rightarrow> bool" where
  "less_editorial_object_id x y \<longleftrightarrow> fst (object_rank x) < fst (object_rank y)
     \<or> fst (object_rank x) = fst (object_rank y) \<and> snd (object_rank x) < snd (object_rank y)"

instance
  by standard
    (auto simp: less_eq_editorial_object_id_def less_editorial_object_id_def object_rank_inj[symmetric] prod_eq_iff)

end

datatype clip_source = SourceMedia media_id | SourceTimeline timeline_id

section \<open>Clip ranges\<close>

record clip_range_map =
  cr_source_range :: time_range
  cr_record_range :: time_range

definition cr_new :: "time_range \<Rightarrow> time_range \<Rightarrow> clip_range_map result" where
  "cr_new source_range record_range =
     (if tr_is_empty source_range \<or> tr_is_empty record_range
      then Inl (invalid_model ''create_clip_range_map''
             ''clip source and record ranges must both be nonempty'')
      else if \<not> rt_eq (du_rational_time (tr_duration source_range)) (du_rational_time (tr_duration record_range))
      then Inl (invalid_model ''create_clip_range_map''
             ''clip source and record durations must represent equal rational time'')
      else Inr \<lparr>cr_source_range = source_range, cr_record_range = record_range\<rparr>)"

definition map_clip_endpoint :: "time_range \<Rightarrow> time_range \<Rightarrow> rational_time \<Rightarrow> rational_time result" where
  "map_clip_endpoint from_range to_range time =
     bindR (rt_checked_sub_at time (tr_start from_range) (tr_timebase from_range) RoundExact) (\<lambda>offset.
     bindR (rt_checked_rescale offset (tr_timebase to_range) RoundExact) (\<lambda>offset.
       rt_checked_add_at (tr_start to_range) offset (tr_timebase to_range) RoundExact))"

definition map_clip_time ::
  "time_range \<Rightarrow> time_range \<Rightarrow> rational_time \<Rightarrow> string \<Rightarrow> rational_time result" where
  "map_clip_time from_range to_range time operation =
     bindR (tr_contains from_range time) (\<lambda>inside.
     if \<not> inside
     then Inl (invalid_model operation ''mapped time must lie inside the half-open clip range'')
     else map_clip_endpoint from_range to_range time)"

definition map_clip_subrange ::
  "time_range \<Rightarrow> time_range \<Rightarrow> time_range \<Rightarrow> string \<Rightarrow> time_range result" where
  "map_clip_subrange from_range to_range part operation =
     bindR (tr_end_exclusive part) (\<lambda>part_end.
     bindR (if rt_lt (tr_start part) (tr_start from_range) then Inr True
            else bindR (tr_end_exclusive from_range) (\<lambda>from_end. Inr (rt_lt from_end part_end))) (\<lambda>outside.
     if outside
     then Inl (invalid_model operation ''mapped range must lie inside the clip range'')
     else
     bindR (map_clip_endpoint from_range to_range (tr_start part)) (\<lambda>start.
     bindR (map_clip_endpoint from_range to_range part_end) (\<lambda>stop.
       tr_from_start_end start stop))))"

definition cr_source_time_to_record :: "clip_range_map \<Rightarrow> rational_time \<Rightarrow> rational_time result" where
  "cr_source_time_to_record r time =
     map_clip_time (cr_source_range r) (cr_record_range r) time ''map_clip_source_time''"

definition cr_record_time_to_source :: "clip_range_map \<Rightarrow> rational_time \<Rightarrow> rational_time result" where
  "cr_record_time_to_source r time =
     map_clip_time (cr_record_range r) (cr_source_range r) time ''map_clip_record_time''"

definition cr_source_range_to_record :: "clip_range_map \<Rightarrow> time_range \<Rightarrow> time_range result" where
  "cr_source_range_to_record r part =
     map_clip_subrange (cr_source_range r) (cr_record_range r) part ''map_clip_source_range''"

definition cr_record_range_to_source :: "clip_range_map \<Rightarrow> time_range \<Rightarrow> time_range result" where
  "cr_record_range_to_source r part =
     map_clip_subrange (cr_record_range r) (cr_source_range r) part ''map_clip_record_range''"

section \<open>Range contexts\<close>

datatype range_availability = RangeUnknown | FullyAvailable | PartiallyAvailable | RangeUnavailable

datatype sample_availability = SampleUnknown | SampleAvailable | SampleUnavailable

record clip_range_context =
  rc_source :: clip_source
  rc_ranges :: clip_range_map
  rc_time_map :: clip_time_map
  rc_available_range :: "time_range option"

record clip_playback_sample =
  ps_mapped :: mapped_source_time
  ps_availability :: sample_availability

definition rc_availability :: "clip_range_context \<Rightarrow> range_availability result" where
  "rc_availability c =
     (case rc_available_range c of
        None \<Rightarrow> Inr RangeUnknown
      | Some available \<Rightarrow>
          let source = cr_source_range (rc_ranges c)
          in bindR (if rt_le (tr_start available) (tr_start source)
                    then bindR (tr_end_exclusive available) (\<lambda>available_end.
                         bindR (tr_end_exclusive source) (\<lambda>source_end.
                           Inr (rt_le source_end available_end)))
                    else Inr False) (\<lambda>full.
             if full then Inr FullyAvailable
             else bindR (tr_intersects available source) (\<lambda>partial.
                  if partial then Inr PartiallyAvailable else Inr RangeUnavailable)))"

definition rc_playback_sample ::
  "clip_range_context \<Rightarrow> rational_time \<Rightarrow> time_rounding \<Rightarrow> clip_playback_sample result" where
  "rc_playback_sample c record_time rounding =
     (let record_range = cr_record_range (rc_ranges c) in
      bindR (tr_contains record_range record_time) (\<lambda>inside.
      if \<not> inside
      then Inl (invalid_model ''resolve_clip_playback_sample''
             ''playback query must lie inside the half-open clip record range'')
      else
      bindR (rt_checked_sub_at record_time (tr_start record_range) (tr_timebase record_range) RoundExact) (\<lambda>local_time.
      bindR (ctm_source_time_at (rc_time_map c) local_time rounding) (\<lambda>mapped.
      bindR (case rc_available_range c of
               None \<Rightarrow> Inr SampleUnknown
             | Some available \<Rightarrow>
                 bindR (tr_contains available (mst_time mapped)) (\<lambda>there.
                   Inr (if there then SampleAvailable else SampleUnavailable))) (\<lambda>availability.
        Inr \<lparr>ps_mapped = mapped, ps_availability = availability\<rparr>)))))"

section \<open>Clips\<close>

record clip =
  cl_id :: clip_id
  cl_name :: string
  cl_source :: clip_source
  cl_ranges :: clip_range_map
  cl_time_map :: clip_time_map

definition cl_source_range :: "clip \<Rightarrow> time_range" where
  "cl_source_range c = cr_source_range (cl_ranges c)"

definition cl_record_range :: "clip \<Rightarrow> time_range" where
  "cl_record_range c = cr_record_range (cl_ranges c)"

definition cl_new :: "clip_id \<Rightarrow> string \<Rightarrow> clip_source \<Rightarrow> time_range \<Rightarrow> time_range \<Rightarrow> clip result" where
  "cl_new ident name source source_range record_range =
     bindR (cr_new source_range record_range) (\<lambda>ranges.
     bindR (ctm_identity (tr_duration record_range) (tr_start source_range)) (\<lambda>time_map.
       Inr \<lparr>cl_id = ident, cl_name = name, cl_source = source, cl_ranges = ranges,
            cl_time_map = time_map\<rparr>))"

definition cl_source_time_at :: "clip \<Rightarrow> rational_time \<Rightarrow> time_rounding \<Rightarrow> mapped_source_time result" where
  "cl_source_time_at c record_time rounding =
     bindR (tr_contains (cl_record_range c) record_time) (\<lambda>inside.
     if \<not> inside
     then Inl (invalid_model ''resolve_clip_source_time''
            ''playback query must lie inside the half-open clip record range'')
     else
     bindR (rt_checked_sub_at record_time (tr_start (cl_record_range c)) (tr_timebase (cl_record_range c)) RoundExact)
       (\<lambda>local_time. ctm_source_time_at (cl_time_map c) local_time rounding))"

definition cl_set_source :: "clip \<Rightarrow> clip_source \<Rightarrow> clip" where
  "cl_set_source c source = c\<lparr>cl_source := source\<rparr>"

definition cl_set_name :: "clip \<Rightarrow> string \<Rightarrow> clip" where
  "cl_set_name c name = c\<lparr>cl_name := name\<rparr>"

text \<open>A setter that fails leaves the clip as it was: it returns no clip.\<close>

definition cl_set_source_range :: "clip \<Rightarrow> time_range \<Rightarrow> clip result" where
  "cl_set_source_range c source_range =
     bindR (cr_new source_range (cl_record_range c)) (\<lambda>ranges.
     bindR (ctm_translate_source (cl_time_map c) (tr_start (cl_source_range c)) (tr_start source_range)) (\<lambda>time_map.
       Inr (c\<lparr>cl_ranges := ranges, cl_time_map := time_map\<rparr>)))"

definition cl_set_record_range :: "clip \<Rightarrow> time_range \<Rightarrow> clip result" where
  "cl_set_record_range c record_range =
     bindR (cr_new (cl_source_range c) record_range) (\<lambda>ranges.
     bindR (ctm_rescale_record_clock (cl_time_map c) (tr_duration record_range)) (\<lambda>time_map.
       Inr (c\<lparr>cl_ranges := ranges, cl_time_map := time_map\<rparr>)))"

definition cl_set_ranges :: "clip \<Rightarrow> time_range \<Rightarrow> time_range \<Rightarrow> clip result" where
  "cl_set_ranges c source_range record_range =
     bindR (cr_new source_range record_range) (\<lambda>ranges.
     bindR (if du_eq (tr_duration (cl_record_range c)) (tr_duration record_range)
            then bindR (ctm_rescale_record_clock (cl_time_map c) (tr_duration record_range)) (\<lambda>m.
                   ctm_translate_source m (tr_start (cl_source_range c)) (tr_start source_range))
            else if ctm_mode (cl_time_map c) = ModeIdentity
            then ctm_identity (tr_duration record_range) (tr_start source_range)
            else Inl (invalid_model ''replace_clip_ranges''
                   ''retimed range replacement must preserve the clip duration or supply a new time map'')) (\<lambda>time_map.
       Inr (c\<lparr>cl_ranges := ranges, cl_time_map := time_map\<rparr>)))"

definition cl_set_time_map :: "clip \<Rightarrow> clip_time_map \<Rightarrow> clip result" where
  "cl_set_time_map c time_map =
     bindR (ctm_validate_binding time_map (tr_duration (cl_record_range c)) (tr_timebase (cl_source_range c)))
       (\<lambda>_. Inr (c\<lparr>cl_time_map := time_map\<rparr>))"

definition cl_clone_with_id :: "clip \<Rightarrow> clip_id \<Rightarrow> clip" where
  "cl_clone_with_id c ident = c\<lparr>cl_id := ident\<rparr>"

definition cl_slice_with_id :: "clip \<Rightarrow> clip_id \<Rightarrow> time_range \<Rightarrow> clip result" where
  "cl_slice_with_id c ident record_range =
     bindR (cr_record_range_to_source (cl_ranges c) record_range) (\<lambda>source_range.
     bindR (rt_checked_sub_at (tr_start record_range) (tr_start (cl_record_range c))
              (tr_timebase (cl_record_range c)) RoundExact) (\<lambda>local_start.
     bindR (tr_new local_start (tr_duration record_range)) (\<lambda>local_range.
     bindR (ctm_slice (cl_time_map c) local_range) (\<lambda>time_map.
     bindR (cr_new source_range record_range) (\<lambda>ranges.
       Inr \<lparr>cl_id = ident, cl_name = cl_name c, cl_source = cl_source c, cl_ranges = ranges,
            cl_time_map = time_map\<rparr>)))))"

section \<open>Other items\<close>

record gap =
  gp_id :: gap_id
  gp_name :: string
  gp_record_range :: time_range

record generator =
  gn_id :: generator_id
  gn_name :: string
  gn_kind :: string
  gn_parameters :: "(string \<times> string) list"
  gn_record_range :: time_range

definition gn_set_parameter :: "generator \<Rightarrow> string \<Rightarrow> string \<Rightarrow> generator" where
  "gn_set_parameter g key val = g\<lparr>gn_parameters := om_insert key val (gn_parameters g)\<rparr>"

record caption =
  cp_id :: caption_id
  cp_name :: string
  cp_text :: string
  cp_language :: "string option"
  cp_record_range :: time_range

record transition =
  tn_id :: transition_id
  tn_name :: string
  tn_from :: editorial_object_id
  tn_to :: editorial_object_id
  tn_from_offset :: duration
  tn_to_offset :: duration

definition tn_set_endpoints :: "transition \<Rightarrow> editorial_object_id \<Rightarrow> editorial_object_id \<Rightarrow> transition" where
  "tn_set_endpoints t a b = t\<lparr>tn_from := a, tn_to := b\<rparr>"

definition tn_set_offsets :: "transition \<Rightarrow> duration \<Rightarrow> duration \<Rightarrow> transition" where
  "tn_set_offsets t a b = t\<lparr>tn_from_offset := a, tn_to_offset := b\<rparr>"

datatype track_item = IClip clip | IGap gap | ITransition transition | IGenerator generator | ICaption caption

fun item_id :: "track_item \<Rightarrow> editorial_object_id" where
  "item_id (IClip c) = OClip (cl_id c)"
| "item_id (IGap g) = OGap (gp_id g)"
| "item_id (ITransition t) = OTransition (tn_id t)"
| "item_id (IGenerator g) = OGenerator (gn_id g)"
| "item_id (ICaption c) = OCaption (cp_id c)"

fun item_record_range :: "track_item \<Rightarrow> time_range option" where
  "item_record_range (IClip c) = Some (cl_record_range c)"
| "item_record_range (IGap g) = Some (gp_record_range g)"
| "item_record_range (ITransition _) = None"
| "item_record_range (IGenerator g) = Some (gn_record_range g)"
| "item_record_range (ICaption c) = Some (cp_record_range c)"

fun item_as_clip :: "track_item \<Rightarrow> clip option" where
  "item_as_clip (IClip c) = Some c"
| "item_as_clip _ = None"

section \<open>Tracks\<close>

record track =
  tk_id :: track_id
  tk_name :: string
  tk_semantics :: track_semantics
  tk_items :: "track_item list"

definition tk_item :: "track \<Rightarrow> editorial_object_id \<Rightarrow> track_item option" where
  "tk_item t ident = find (\<lambda>item. item_id item = ident) (tk_items t)"

definition tk_replace_items :: "track \<Rightarrow> track_item list \<Rightarrow> track" where
  "tk_replace_items t items = t\<lparr>tk_items := items\<rparr>"

fun find_map :: "('a \<Rightarrow> 'b option) \<Rightarrow> 'a list \<Rightarrow> 'b option" where
  "find_map f [] = None"
| "find_map f (x # xs) = (case f x of None \<Rightarrow> find_map f xs | Some y \<Rightarrow> Some y)"

definition tk_end_time :: "track \<Rightarrow> rational_time result" where
  "tk_end_time t =
     (case find_map item_record_range (rev (tk_items t)) of
        Some r \<Rightarrow> tr_end_exclusive r
      | None \<Rightarrow> Inr (rt_zero (ts_timebase (tk_semantics t))))"

section \<open>Validation\<close>

definition require_text :: "string \<Rightarrow> string \<Rightarrow> string \<Rightarrow> unit result" where
  "require_text operation label val =
     (if is_blank val then Inl (invalid_model operation (label @ '' must not be blank'')) else Inr ())"

definition validate_record_range :: "time_range \<Rightarrow> timebase \<Rightarrow> bool \<Rightarrow> unit result" where
  "validate_record_range r edit_rate allow_empty =
     (if tr_timebase r \<noteq> edit_rate
      then Inl (invalid_model ''validate_record_range'' ''record range must use the track edit clock'')
      else if rt_is_negative (tr_start r)
      then Inl (invalid_model ''validate_record_range'' ''record range must not start before timeline zero'')
      else if \<not> allow_empty \<and> tr_is_empty r
      then Inl (invalid_model ''validate_record_range'' ''editorial item must have a nonzero record duration'')
      else Inr ())"

text \<open>The new value of \<open>prior_end\<close> is returned.\<close>

definition require_contiguous :: "time_range \<Rightarrow> rational_time \<Rightarrow> rational_time result" where
  "require_contiguous r prior_end =
     (if \<not> rt_eq (tr_start r) prior_end
      then Inl (invalid_model ''validate_track_timing''
             ''track items must be contiguous; use an explicit gap for empty time'')
      else tr_end_exclusive r)"

definition validate_transition :: "track_item list \<Rightarrow> nat \<Rightarrow> transition \<Rightarrow> timebase \<Rightarrow> unit result" where
  "validate_transition items index t edit_rate =
     bindR (require_text ''validate_transition'' ''transition name'' (tn_name t)) (\<lambda>_.
     if du_timebase (tn_from_offset t) \<noteq> edit_rate \<or> du_timebase (tn_to_offset t) \<noteq> edit_rate
     then Inl (invalid_model ''validate_transition'' ''transition offsets must use the track edit clock'')
     else if du_is_zero (tn_from_offset t) \<and> du_is_zero (tn_to_offset t)
     then Inl (invalid_model ''validate_transition'' ''transition must consume time from at least one endpoint'')
     else if index = 0
     then Inl (invalid_model ''validate_transition'' ''transition must follow a timed track item'')
     else if \<not> index + 1 < length items
     then Inl (invalid_model ''validate_transition'' ''transition must precede a timed track item'')
     else let previous = items ! (index - 1); following = items ! (index + 1)
     in case (item_record_range previous, item_record_range following) of
          (Some previous_range, Some next_range) \<Rightarrow>
            if tn_from t \<noteq> item_id previous \<or> tn_to t \<noteq> item_id following
            then Inl (invalid_model ''validate_transition''
                   ''transition endpoints must match its adjacent track items'')
            else if du_value (tn_from_offset t) > du_value (tr_duration previous_range)
                 \<or> du_value (tn_to_offset t) > du_value (tr_duration next_range)
            then Inl (invalid_model ''validate_transition''
                   ''transition offsets must fit within adjacent item durations'')
            else Inr ()
        | _ \<Rightarrow> Inl (invalid_model ''validate_transition'' ''adjacent transitions are not valid''))"

fun transition_to_value :: "track_item \<Rightarrow> int" where
  "transition_to_value (ITransition t) = du_value (tn_to_offset t)"
| "transition_to_value _ = 0"

fun transition_from_value :: "track_item \<Rightarrow> int" where
  "transition_from_value (ITransition t) = du_value (tn_from_offset t)"
| "transition_from_value _ = 0"

definition overlap_at :: "track_item list \<Rightarrow> nat \<Rightarrow> unit result" where
  "overlap_at items index =
     (case item_record_range (items ! index) of
        None \<Rightarrow> Inr ()
      | Some r \<Rightarrow>
          let incoming = (if index = 0 then 0 else transition_to_value (items ! (index - 1)));
              outgoing = (if index + 1 < length items then transition_from_value (items ! (index + 1)) else 0)
          in bindR (ok_or (checked_u64 (incoming + outgoing))
                      (invalid_model ''validate_transition''
                         ''combined transition offsets exceed supported duration'')) (\<lambda>consumed.
             if consumed > du_value (tr_duration r)
             then Inl (invalid_model ''validate_transition''
                    ''transitions at both ends of an item must not overlap'')
             else Inr ()))"

definition validate_transition_overlap :: "track_item list \<Rightarrow> unit result" where
  "validate_transition_overlap items =
     bindR (traverse (overlap_at items) [0..<length items]) (\<lambda>_. Inr ())"

definition validate_item ::
  "track_item list \<Rightarrow> timebase \<Rightarrow> nat \<Rightarrow> track_item \<Rightarrow> rational_time \<Rightarrow> rational_time result" where
  "validate_item items edit_rate index item prior_end =
     (case item of
        ITransition t \<Rightarrow>
          bindR (validate_transition items index t edit_rate) (\<lambda>_. Inr prior_end)
      | IClip c \<Rightarrow>
          bindR (require_text ''validate_clip'' ''clip name'' (cl_name c)) (\<lambda>_.
          bindR (validate_record_range (cl_record_range c) edit_rate False) (\<lambda>_.
          if \<not> rt_eq (du_rational_time (tr_duration (cl_source_range c)))
                 (du_rational_time (tr_duration (cl_record_range c)))
          then Inl (invalid_model ''validate_clip''
                 ''clip source and record durations must represent equal rational time'')
          else require_contiguous (cl_record_range c) prior_end))
      | IGap g \<Rightarrow>
          bindR (require_text ''validate_gap'' ''gap name'' (gp_name g)) (\<lambda>_.
          bindR (validate_record_range (gp_record_range g) edit_rate True) (\<lambda>_.
            require_contiguous (gp_record_range g) prior_end))
      | IGenerator g \<Rightarrow>
          bindR (require_text ''validate_generator'' ''generator name'' (gn_name g)) (\<lambda>_.
          bindR (require_text ''validate_generator'' ''generator kind'' (gn_kind g)) (\<lambda>_.
          bindR (traverse (require_text ''validate_generator'' ''generator parameter key'')
                   (map fst (gn_parameters g))) (\<lambda>_.
          bindR (validate_record_range (gn_record_range g) edit_rate False) (\<lambda>_.
            require_contiguous (gn_record_range g) prior_end))))
      | ICaption c \<Rightarrow>
          bindR (require_text ''validate_caption'' ''caption name'' (cp_name c)) (\<lambda>_.
          bindR (require_text ''validate_caption'' ''caption text'' (cp_text c)) (\<lambda>_.
          bindR (case cp_language c of None \<Rightarrow> Inr ()
                 | Some language \<Rightarrow> require_text ''validate_caption'' ''caption language'' language) (\<lambda>_.
          bindR (validate_record_range (cp_record_range c) edit_rate False) (\<lambda>_.
            require_contiguous (cp_record_range c) prior_end)))))"

text \<open>The loop over the items: the object identities seen so far, and the prior end.\<close>

fun validate_items ::
  "track_item list \<Rightarrow> timebase \<Rightarrow> nat \<Rightarrow> track_item list \<Rightarrow> editorial_object_id set \<Rightarrow> rational_time
     \<Rightarrow> (editorial_object_id set) result" where
  "validate_items items edit_rate index [] object_ids prior_end = Inr object_ids"
| "validate_items items edit_rate index (item # rest) object_ids prior_end =
     (if item_id item \<in> object_ids
      then Inl (model_conflict ''validate_track'' ''duplicate editorial object identity'' ''item''
             (object_id_display (item_id item)))
      else bindR (validate_item items edit_rate index item prior_end) (\<lambda>next_end.
             validate_items items edit_rate (index + 1) rest (insert (item_id item) object_ids) next_end))"

definition validate_track :: "track \<Rightarrow> editorial_object_id set \<Rightarrow> (editorial_object_id set) result" where
  "validate_track t object_ids =
     bindR (require_text ''validate_track'' ''track name'' (tk_name t)) (\<lambda>_.
     let edit_rate = ts_timebase (tk_semantics t) in
     bindR (validate_items (tk_items t) edit_rate 0 (tk_items t) object_ids (rt_zero edit_rate)) (\<lambda>ids.
     bindR (validate_transition_overlap (tk_items t)) (\<lambda>_. Inr ids)))"

end
