(* ===== verification/EditOps.thy ===== *)
theory EditOps
  imports Model "HOL-Library.Multiset"
begin

text \<open>
  \<open>superi-timeline/src/edit_ops.rs\<close>: the editing operations on one track. Each takes the track,
  checks its arguments, computes the new item list and returns the edited track with the
  outcome it reports; a failure returns no track. The helpers come first: slicing, moving and
  trimming an item, the cursor over caller-supplied fragment identities, and the rebuilding of
  transitions around the new list of timed items.
\<close>

section \<open>Vocabulary\<close>

datatype edit_kind = KInsert | KOverwrite | KAppend | KReplace | KLinkAudioVideo
  | KSynchronizeAudioVideo | KDetachAudio | KLift | KExtract | KRipple | KRoll | KSlip | KSlide
  | KRazor | KTrim | KExtend | KSetTransition | KThreePoint | KFourPoint | KRetime

fun edit_kind_code :: "edit_kind \<Rightarrow> string" where
  "edit_kind_code KInsert = ''insert''"
| "edit_kind_code KOverwrite = ''overwrite''"
| "edit_kind_code KAppend = ''append''"
| "edit_kind_code KReplace = ''replace''"
| "edit_kind_code KLinkAudioVideo = ''link_audio_video''"
| "edit_kind_code KSynchronizeAudioVideo = ''synchronize_audio_video''"
| "edit_kind_code KDetachAudio = ''detach_audio''"
| "edit_kind_code KLift = ''lift''"
| "edit_kind_code KExtract = ''extract''"
| "edit_kind_code KRipple = ''ripple''"
| "edit_kind_code KRoll = ''roll''"
| "edit_kind_code KSlip = ''slip''"
| "edit_kind_code KSlide = ''slide''"
| "edit_kind_code KRazor = ''razor''"
| "edit_kind_code KTrim = ''trim''"
| "edit_kind_code KExtend = ''extend''"
| "edit_kind_code KSetTransition = ''set_transition''"
| "edit_kind_code KThreePoint = ''three_point''"
| "edit_kind_code KFourPoint = ''four_point''"
| "edit_kind_code KRetime = ''retime''"

datatype edit_side = SideStart | SideEnd

datatype extend_mode = ExtendRipple | ExtendRoll

datatype three_point_placement =
    SourceRangeAtRecordStart time_range rational_time
  | SourceStartOverRecordRange rational_time time_range
  | SourceRangeBacktimedToRecordEnd time_range rational_time
  | SourceEndBacktimedOverRecordRange rational_time time_range

datatype track_duration_change = DurationUnchanged | DurationExtended duration | DurationShortened duration

record edit_fragment =
  ef_original :: editorial_object_id
  ef_created :: editorial_object_id

record edit_outcome =
  eo_kind :: edit_kind
  eo_timeline_id :: timeline_id
  eo_track_id :: track_id
  eo_affected_range :: time_range
  eo_duration_change :: track_duration_change
  eo_inserted_ids :: "editorial_object_id list"
  eo_removed_ids :: "editorial_object_id list"
  eo_modified_ids :: "editorial_object_id list"
  eo_fragments :: "edit_fragment list"
  eo_removed_transitions :: "transition_id list"
  eo_synchronized_tracks :: "track_id list"

definition invalid_edit :: "string \<Rightarrow> string \<Rightarrow> error_value" where
  "invalid_edit operation message =
     err_with_context (err_new InvalidInput UserCorrectable message)
       (ctx_new ''superi-timeline.edit_ops'' operation)"

definition not_found_edit :: "string \<Rightarrow> string \<Rightarrow> error_value" where
  "not_found_edit operation message =
     err_with_context (err_new NotFound UserCorrectable message)
       (ctx_new ''superi-timeline.edit_ops'' operation)"

definition unsupported_edit :: "string \<Rightarrow> string \<Rightarrow> error_value" where
  "unsupported_edit operation message =
     err_with_context (err_new Unsupported UserCorrectable message)
       (ctx_new ''superi-timeline.edit_ops'' operation)"

lemma invalid_edit_cong [cong]: "invalid_edit operation message = invalid_edit operation message"
  by (rule refl)

lemma not_found_edit_cong [cong]: "not_found_edit operation message = not_found_edit operation message"
  by (rule refl)

lemma unsupported_edit_cong [cong]: "unsupported_edit operation message = unsupported_edit operation message"
  by (rule refl)

section \<open>Helpers\<close>

fun is_transition_id :: "editorial_object_id \<Rightarrow> bool" where
  "is_transition_id (OTransition _) = True"
| "is_transition_id _ = False"

fun same_typed_domain :: "editorial_object_id \<Rightarrow> editorial_object_id \<Rightarrow> bool" where
  "same_typed_domain (OClip _) (OClip _) = True"
| "same_typed_domain (OGap _) (OGap _) = True"
| "same_typed_domain (OTransition _) (OTransition _) = True"
| "same_typed_domain (OGenerator _) (OGenerator _) = True"
| "same_typed_domain (OCaption _) (OCaption _) = True"
| "same_typed_domain _ _ = False"

definition push_unique :: "editorial_object_id list \<Rightarrow> editorial_object_id \<Rightarrow> editorial_object_id list" where
  "push_unique vals ident = (if ident \<in> set vals then vals else vals @ [ident])"

fun position :: "('a \<Rightarrow> bool) \<Rightarrow> 'a list \<Rightarrow> nat option" where
  "position p [] = None"
| "position p (x # xs) = (if p x then Some 0 else map_option Suc (position p xs))"

text \<open>The record range of a timed item; the source unwraps it.\<close>

definition timed_range :: "track_item \<Rightarrow> time_range" where
  "timed_range item = the (item_record_range item)"

definition validate_point_clock :: "rational_time \<Rightarrow> timebase \<Rightarrow> string \<Rightarrow> unit result" where
  "validate_point_clock point expected operation =
     (if rt_timebase point \<noteq> expected
      then Inl (invalid_edit operation ''edit point must use the exact target track timebase'')
      else Inr ())"

definition validate_record_clock :: "time_range \<Rightarrow> timebase \<Rightarrow> string \<Rightarrow> unit result" where
  "validate_record_clock r expected operation =
     (if tr_timebase r \<noteq> expected
      then Inl (invalid_edit operation ''record range must use the exact target track timebase'')
      else if tr_is_empty r
      then Inl (invalid_edit operation ''record range must be nonempty'')
      else Inr ())"

definition track_timebase :: "track \<Rightarrow> timebase" where
  "track_timebase t = ts_timebase (tk_semantics t)"

definition track_end :: "track \<Rightarrow> rational_time result" where
  "track_end t =
     (case find_map item_record_range (rev (tk_items t)) of
        Some r \<Rightarrow> tr_end_exclusive r
      | None \<Rightarrow> Inr (rt_zero (track_timebase t)))"

definition validate_edit_range :: "track \<Rightarrow> time_range \<Rightarrow> string \<Rightarrow> unit result" where
  "validate_edit_range t r operation =
     (if tr_timebase r \<noteq> track_timebase t
      then Inl (invalid_edit operation ''edit range must use the exact target track timebase'')
      else if tr_is_empty r
      then Inl (invalid_edit operation ''edit range must be nonempty'')
      else
      bindR (track_end t) (\<lambda>end_time.
      bindR (if rt_is_negative (tr_start r) then Inr True
             else bindR (tr_end_exclusive r) (\<lambda>range_end. Inr (rt_lt end_time range_end))) (\<lambda>outside.
      if outside
      then Inl (invalid_edit operation ''edit range must lie within the current target track duration'')
      else Inr ())))"

definition exact_duration_at :: "duration \<Rightarrow> timebase \<Rightarrow> string \<Rightarrow> duration result" where
  "exact_duration_at d tb operation =
     with_error_context (du_checked_rescale d tb RoundExact)
       (ctx_new ''superi-timeline.edit_ops'' operation)"

fun separate_items :: "track_item list \<Rightarrow> track_item list \<times> transition list" where
  "separate_items [] = ([], [])"
| "separate_items (item # rest) =
     (let (timed, transitions) = separate_items rest in
      case item of ITransition t \<Rightarrow> (timed, t # transitions) | _ \<Rightarrow> (item # timed, transitions))"

text \<open>A stable sort by start value.\<close>

definition sort_timed :: "track_item list \<Rightarrow> track_item list" where
  "sort_timed items = sort_key (\<lambda>item. rt_value (tr_start (timed_range item))) items"

fun set_record_range :: "track_item \<Rightarrow> time_range \<Rightarrow> string \<Rightarrow> track_item result" where
  "set_record_range (IClip c) r operation = mapR IClip (cl_set_record_range c r)"
| "set_record_range (IGap g) r operation = Inr (IGap (g\<lparr>gp_record_range := r\<rparr>))"
| "set_record_range (IGenerator g) r operation = Inr (IGenerator (g\<lparr>gn_record_range := r\<rparr>))"
| "set_record_range (ICaption c) r operation = Inr (ICaption (c\<lparr>cp_record_range := r\<rparr>))"
| "set_record_range (ITransition _) r operation =
     Inl (invalid_edit operation ''transitions do not own a record range'')"

fun clone_with_id :: "track_item \<Rightarrow> editorial_object_id \<Rightarrow> string \<Rightarrow> track_item result" where
  "clone_with_id (IClip c) (OClip ident) operation = Inr (IClip (cl_clone_with_id c ident))"
| "clone_with_id (IGap g) (OGap ident) operation = Inr (IGap (g\<lparr>gp_id := ident\<rparr>))"
| "clone_with_id (IGenerator g) (OGenerator ident) operation = Inr (IGenerator (g\<lparr>gn_id := ident\<rparr>))"
| "clone_with_id (ICaption c) (OCaption ident) operation = Inr (ICaption (c\<lparr>cp_id := ident\<rparr>))"
| "clone_with_id (ITransition _) (OTransition _) operation =
     Inl (invalid_edit operation ''transitions cannot be fragmented as timed objects'')"
| "clone_with_id _ _ operation =
     Inl (invalid_edit operation
       ''fragment identity must have the same typed domain as its original object'')"

definition reposition_item :: "track_item \<Rightarrow> time_range \<Rightarrow> string \<Rightarrow> track_item result" where
  "reposition_item item r operation = set_record_range item r operation"

definition slice_item ::
  "track_item \<Rightarrow> rational_time \<Rightarrow> rational_time \<Rightarrow> editorial_object_id \<Rightarrow> string \<Rightarrow> track_item result" where
  "slice_item item start end_time ident operation =
     (case item_record_range item of
        None \<Rightarrow> Inl (invalid_edit operation ''transitions cannot be split as timed objects'')
      | Some old_range \<Rightarrow>
          bindR (if rt_timebase start \<noteq> tr_timebase old_range \<or> rt_timebase end_time \<noteq> tr_timebase old_range
                    \<or> rt_lt start (tr_start old_range) then Inr True
                 else bindR (tr_end_exclusive old_range) (\<lambda>old_end.
                        Inr (rt_lt old_end end_time \<or> rt_lt end_time start))) (\<lambda>outside.
          if outside
          then Inl (invalid_edit operation ''item slice must lie within its exact record range'')
          else
          bindR (tr_from_start_end start end_time) (\<lambda>new_range.
          case item of
            IClip c \<Rightarrow>
              (case ident of
                 OClip new_id \<Rightarrow> mapR IClip (cl_slice_with_id c new_id new_range)
               | _ \<Rightarrow> Inl (invalid_edit operation
                   ''fragment identity must have the same typed domain as its original object''))
          | _ \<Rightarrow>
              bindR (clone_with_id item ident operation) (\<lambda>sliced.
                set_record_range sliced new_range operation))))"

definition trim_item :: "track_item \<Rightarrow> time_range \<Rightarrow> edit_side \<Rightarrow> string \<Rightarrow> track_item result" where
  "trim_item item new_range moved_side operation =
     (case item_record_range item of
        None \<Rightarrow> Inl (invalid_edit operation ''transitions cannot be trimmed as timed objects'')
      | Some old_range \<Rightarrow>
          (case item of
             IClip c \<Rightarrow>
               let old_source = cl_source_range c in
               bindR (case moved_side of
                        SideStart \<Rightarrow>
                          bindR (rt_checked_sub_at (tr_start new_range) (tr_start old_range)
                                   (tr_timebase old_range) RoundExact) (\<lambda>record_offset.
                          bindR (rt_checked_rescale record_offset (tr_timebase old_source) RoundExact) (\<lambda>source_offset.
                            rt_checked_add_at (tr_start old_source) source_offset (tr_timebase old_source) RoundExact))
                      | SideEnd \<Rightarrow> Inr (tr_start old_source)) (\<lambda>source_start.
               bindR (exact_duration_at (tr_duration new_range) (tr_timebase old_source) operation) (\<lambda>source_duration.
               bindR (tr_new source_start source_duration) (\<lambda>source_range.
                 mapR IClip (cl_set_ranges c source_range new_range))))
           | _ \<Rightarrow> set_record_range item new_range operation))"

definition shift_item_by :: "track_item \<Rightarrow> rational_time \<Rightarrow> timebase \<Rightarrow> string \<Rightarrow> track_item result" where
  "shift_item_by item delta tb operation =
     (let r = timed_range item in
      bindR (rt_checked_add_at (tr_start r) delta tb RoundExact) (\<lambda>start.
      bindR (tr_new start (tr_duration r)) (\<lambda>moved. reposition_item item moved operation)))"

definition shift_item_right :: "track_item \<Rightarrow> duration \<Rightarrow> timebase \<Rightarrow> string \<Rightarrow> track_item result" where
  "shift_item_right item d tb operation =
     (let r = timed_range item in
      bindR (rt_checked_add_at (tr_start r) (du_rational_time d) tb RoundExact) (\<lambda>start.
      bindR (tr_new start (tr_duration r)) (\<lambda>moved. reposition_item item moved operation)))"

definition shift_item_left :: "track_item \<Rightarrow> duration \<Rightarrow> timebase \<Rightarrow> string \<Rightarrow> track_item result" where
  "shift_item_left item d tb operation =
     (let r = timed_range item in
      bindR (rt_checked_sub_at (tr_start r) (du_rational_time d) tb RoundExact) (\<lambda>start.
      bindR (tr_new start (tr_duration r)) (\<lambda>moved. reposition_item item moved operation)))"

definition normalize_material :: "track_item \<Rightarrow> rational_time \<Rightarrow> timebase \<Rightarrow> string \<Rightarrow> track_item result" where
  "normalize_material material place tb operation =
     (case item_record_range material of
        None \<Rightarrow> Inl (invalid_edit operation ''transitions cannot be used as timed edit material'')
      | Some r \<Rightarrow>
          bindR (exact_duration_at (tr_duration r) tb operation) (\<lambda>d.
          if du_is_zero d
          then Inl (invalid_edit operation ''edit material must have a nonzero record duration'')
          else bindR (tr_new place d) (\<lambda>placed. reposition_item material placed operation)))"

subsection \<open>The fragment cursor\<close>

text \<open>The identities the caller supplied, and how many were used.\<close>

record fragment_cursor =
  fc_ids :: "editorial_object_id list"
  fc_next :: nat

definition fc_new :: "editorial_object_id list \<Rightarrow> fragment_cursor" where
  "fc_new ids = \<lparr>fc_ids = ids, fc_next = 0\<rparr>"

definition fc_next_for ::
  "fragment_cursor \<Rightarrow> editorial_object_id \<Rightarrow> string \<Rightarrow> (editorial_object_id \<times> fragment_cursor) result" where
  "fc_next_for c original operation =
     (if \<not> fc_next c < length (fc_ids c)
      then Inl (invalid_edit operation
             ''a caller-supplied right fragment identity is required at this edit boundary'')
      else let ident = fc_ids c ! fc_next c
           in if \<not> same_typed_domain original ident
              then Inl (invalid_edit operation
                     ''fragment identity must have the same typed domain as its original object'')
              else Inr (ident, c\<lparr>fc_next := fc_next c + 1\<rparr>))"

definition fc_finish :: "fragment_cursor \<Rightarrow> string \<Rightarrow> unit result" where
  "fc_finish c operation =
     (if fc_next c \<noteq> length (fc_ids c)
      then Inl (invalid_edit operation ''fragment identity list contains unused identities'')
      else Inr ())"

subsection \<open>Rebuilding transitions\<close>

text \<open>The transition authored between two items that are now neighbours, if it still fits both.\<close>

definition boundary_transition :: "transition list \<Rightarrow> track_item \<Rightarrow> track_item \<Rightarrow> transition option" where
  "boundary_transition transitions left right =
     find (\<lambda>t. tn_from t = item_id left \<and> tn_to t = item_id right) transitions"

definition fitting_transition :: "track_item \<Rightarrow> track_item \<Rightarrow> transition option \<Rightarrow> transition option" where
  "fitting_transition left right boundary =
     (case boundary of
        None \<Rightarrow> None
      | Some t \<Rightarrow>
          if du_lt (tr_duration (timed_range left)) (tn_from_offset t)
             \<or> du_lt (tr_duration (timed_range right)) (tn_to_offset t)
          then None else Some t)"

fun boundaries_of :: "transition list \<Rightarrow> track_item list \<Rightarrow> transition option list" where
  "boundaries_of transitions (left # right # rest) =
     fitting_transition left right (boundary_transition transitions left right)
       # boundaries_of transitions (right # rest)"
| "boundaries_of transitions _ = []"

text \<open>The second pass, at one item: the outgoing transition goes when both together do not fit.\<close>

definition drop_overlap ::
  "track_item list \<Rightarrow> nat \<Rightarrow> transition option list \<Rightarrow> (transition option list) result" where
  "drop_overlap timed item_index boundaries =
     (if item_index = 0 \<or> item_index \<ge> length boundaries then Inr boundaries
      else case (boundaries ! (item_index - 1), boundaries ! item_index) of
             (Some incoming, Some outgoing) \<Rightarrow>
               let item_duration = tr_duration (timed_range (timed ! item_index)) in
               bindR (rt_checked_add_at (du_rational_time (tn_to_offset incoming))
                        (du_rational_time (tn_from_offset outgoing)) (du_timebase item_duration) RoundExact) (\<lambda>combined.
                 Inr (if rt_lt (du_rational_time item_duration) combined
                      then boundaries[item_index := None] else boundaries))
           | _ \<Rightarrow> Inr boundaries)"

text \<open>Interleave: before every item but the first, the transition of its boundary.\<close>

fun interleave :: "track_item list \<Rightarrow> transition option list \<Rightarrow> track_item list" where
  "interleave (x # y # rest) (b # bs) =
     x # (case b of Some t \<Rightarrow> [ITransition t] | None \<Rightarrow> []) @ interleave (y # rest) bs"
| "interleave items _ = items"

definition rebuild_with_transitions ::
  "track_item list \<Rightarrow> transition list \<Rightarrow> (track_item list \<times> transition_id list) result" where
  "rebuild_with_transitions timed transitions =
     bindR (foldR (drop_overlap timed) [0..<length timed] (boundaries_of transitions timed)) (\<lambda>boundaries.
     let kept = List.map_filter (map_option tn_id) boundaries;
         removed = map tn_id (filter (\<lambda>t. tn_id t \<notin> set kept) transitions)
     in Inr (interleave timed boundaries, removed))"

end
