(* ===== verification/TrackEdits.thy ===== *)
theory TrackEdits
  imports EditOps
begin

text \<open>
  The track operations of \<open>superi-timeline/src/edit_ops.rs\<close>, lines 1675 to 2900. An operation
  returns the outcome and the edited track. The source assigns the new items before it builds
  the outcome; when that fails the whole draft is discarded, so the failure returns no track.
\<close>

section \<open>Outcomes\<close>

definition outcome ::
  "edit_kind \<Rightarrow> timeline_id \<Rightarrow> track_id \<Rightarrow> time_range \<Rightarrow> track_duration_change
     \<Rightarrow> editorial_object_id list \<Rightarrow> editorial_object_id list \<Rightarrow> editorial_object_id list
     \<Rightarrow> edit_fragment list \<Rightarrow> transition_id list \<Rightarrow> edit_outcome" where
  "outcome kind timeline_id track_id affected change inserted removed modified fragments removed_transitions =
     \<lparr>eo_kind = kind, eo_timeline_id = timeline_id, eo_track_id = track_id, eo_affected_range = affected,
      eo_duration_change = change, eo_inserted_ids = inserted, eo_removed_ids = removed,
      eo_modified_ids = modified, eo_fragments = fragments, eo_removed_transitions = removed_transitions,
      eo_synchronized_tracks = []\<rparr>"

type_synonym edit_result = "(edit_outcome \<times> track) result"

section \<open>Insert and append\<close>

text \<open>The mutable state of an edit loop: the items produced so far and what is reported.\<close>

record edit_pass =
  ep_cursor :: fragment_cursor
  ep_output :: "track_item list"
  ep_removed :: "editorial_object_id list"
  ep_modified :: "editorial_object_id list"
  ep_fragments :: "edit_fragment list"

definition ep_start :: "editorial_object_id list \<Rightarrow> edit_pass" where
  "ep_start fragment_ids = \<lparr>ep_cursor = fc_new fragment_ids, ep_output = [], ep_removed = [],
     ep_modified = [], ep_fragments = []\<rparr>"

definition insert_step ::
  "rational_time \<Rightarrow> duration \<Rightarrow> timebase \<Rightarrow> track_item \<Rightarrow> edit_pass \<Rightarrow> edit_pass result" where
  "insert_step point material_duration tb item p =
     (let item_range = timed_range item in
      bindR (tr_end_exclusive item_range) (\<lambda>item_end.
      if rt_lt (tr_start item_range) point \<and> rt_lt point item_end
      then
        bindR (slice_item item (tr_start item_range) point (item_id item) ''insert'') (\<lambda>left.
        bindR (fc_next_for (ep_cursor p) (item_id item) ''insert'') (\<lambda>(right_id, cursor).
        bindR (slice_item item point item_end right_id ''insert'') (\<lambda>right.
        bindR (shift_item_right right material_duration tb ''insert'') (\<lambda>right.
          Inr (p\<lparr>ep_cursor := cursor, ep_output := ep_output p @ [left, right],
                 ep_modified := push_unique (push_unique (ep_modified p) (item_id item)) right_id,
                 ep_fragments := ep_fragments p @ [\<lparr>ef_original = item_id item, ef_created = right_id\<rparr>]\<rparr>)))))
      else if rt_le point (tr_start item_range)
      then
        bindR (shift_item_right item material_duration tb ''insert'') (\<lambda>shifted.
          Inr (p\<lparr>ep_output := ep_output p @ [shifted],
                 ep_modified := push_unique (ep_modified p) (item_id item)\<rparr>))
      else Inr (p\<lparr>ep_output := ep_output p @ [item]\<rparr>)))"

definition apply_insert ::
  "track \<Rightarrow> timeline_id \<Rightarrow> track_id \<Rightarrow> rational_time \<Rightarrow> track_item \<Rightarrow> editorial_object_id list \<Rightarrow> edit_result" where
  "apply_insert t timeline_id track_id point material fragment_ids =
     (let tb = track_timebase t in
      bindR (validate_point_clock point tb ''insert'') (\<lambda>_.
      bindR (track_end t) (\<lambda>end_time.
      if rt_is_negative point \<or> rt_lt end_time point
      then Inl (invalid_edit ''insert'' ''insert point must lie between track start and track end'')
      else
      bindR (normalize_material material point tb ''insert'') (\<lambda>material.
      let material_duration = tr_duration (timed_range material) in
      bindR (tr_new point material_duration) (\<lambda>affected_range.
      let (timed, transitions) = separate_items (tk_items t) in
      bindR (foldR (insert_step point material_duration tb) timed (ep_start fragment_ids)) (\<lambda>p.
      bindR (fc_finish (ep_cursor p) ''insert'') (\<lambda>_.
      bindR (rebuild_with_transitions (sort_timed (ep_output p @ [material])) transitions) (\<lambda>(items, removed_transitions).
        Inr (outcome KInsert timeline_id track_id affected_range (DurationExtended material_duration)
               [item_id material] [] (ep_modified p) (ep_fragments p) removed_transitions,
             tk_replace_items t items)))))))))"

definition apply_append :: "track \<Rightarrow> timeline_id \<Rightarrow> track_id \<Rightarrow> track_item \<Rightarrow> edit_result" where
  "apply_append t timeline_id track_id material =
     (let tb = track_timebase t in
      bindR (track_end t) (\<lambda>point.
      bindR (normalize_material material point tb ''append'') (\<lambda>material.
      let d = tr_duration (timed_range material) in
      bindR (tr_new point d) (\<lambda>affected_range.
      let (timed, transitions) = separate_items (tk_items t) in
      bindR (rebuild_with_transitions (sort_timed (timed @ [material])) transitions) (\<lambda>(items, removed_transitions).
        Inr (outcome KAppend timeline_id track_id affected_range (DurationExtended d)
               [item_id material] [] [] [] removed_transitions,
             tk_replace_items t items))))))"

section \<open>Range replacement: overwrite, lift and extract\<close>

definition replace_step ::
  "time_range \<Rightarrow> rational_time \<Rightarrow> bool \<Rightarrow> timebase \<Rightarrow> string \<Rightarrow> track_item \<Rightarrow> edit_pass \<Rightarrow> edit_pass result" where
  "replace_step r range_end close_range tb operation item p =
     (let item_range = timed_range item in
      bindR (tr_end_exclusive item_range) (\<lambda>item_end.
      if rt_le item_end (tr_start r) then Inr (p\<lparr>ep_output := ep_output p @ [item]\<rparr>)
      else if rt_le range_end (tr_start item_range)
      then (if close_range
            then bindR (shift_item_left item (tr_duration r) tb operation) (\<lambda>shifted.
                   Inr (p\<lparr>ep_output := ep_output p @ [shifted],
                          ep_modified := push_unique (ep_modified p) (item_id item)\<rparr>))
            else Inr (p\<lparr>ep_output := ep_output p @ [item]\<rparr>))
      else
      let keep_left = rt_lt (tr_start item_range) (tr_start r);
          keep_right = rt_lt range_end item_end in
      bindR (if keep_left
             then bindR (slice_item item (tr_start item_range) (tr_start r) (item_id item) operation) (\<lambda>left.
                    Inr (p\<lparr>ep_output := ep_output p @ [left],
                           ep_modified := push_unique (ep_modified p) (item_id item)\<rparr>))
             else Inr p) (\<lambda>p.
      if keep_right
      then
        bindR (if keep_left
               then bindR (fc_next_for (ep_cursor p) (item_id item) operation) (\<lambda>(created, cursor).
                      Inr (created, p\<lparr>ep_cursor := cursor,
                        ep_fragments := ep_fragments p @ [\<lparr>ef_original = item_id item, ef_created = created\<rparr>]\<rparr>))
               else Inr (item_id item, p)) (\<lambda>(right_id, p).
        bindR (slice_item item range_end item_end right_id operation) (\<lambda>right.
        bindR (if close_range then shift_item_left right (tr_duration r) tb operation else Inr right) (\<lambda>right.
          Inr (p\<lparr>ep_output := ep_output p @ [right],
                 ep_modified := push_unique (ep_modified p) right_id\<rparr>))))
      else if \<not> keep_left
      then Inr (p\<lparr>ep_removed := ep_removed p @ [item_id item]\<rparr>)
      else Inr p)))"

definition apply_range_replacement ::
  "track \<Rightarrow> timeline_id \<Rightarrow> track_id \<Rightarrow> edit_kind \<Rightarrow> time_range \<Rightarrow> track_item option \<Rightarrow> editorial_object_id list
     \<Rightarrow> bool \<Rightarrow> track_duration_change \<Rightarrow> edit_result" where
  "apply_range_replacement t timeline_id track_id kind r replacement fragment_ids close_range change =
     (let operation = edit_kind_code kind; tb = track_timebase t in
      bindR (tr_end_exclusive r) (\<lambda>range_end.
      let (timed, transitions) = separate_items (tk_items t) in
      bindR (foldR (replace_step r range_end close_range tb operation) timed (ep_start fragment_ids)) (\<lambda>p.
      bindR (fc_finish (ep_cursor p) operation) (\<lambda>_.
      let (inserted_ids, output) = (case replacement of
             None \<Rightarrow> ([], ep_output p)
           | Some item \<Rightarrow> ([item_id item], ep_output p @ [item])) in
      bindR (rebuild_with_transitions (sort_timed output) transitions) (\<lambda>(items, removed_transitions).
        Inr (outcome kind timeline_id track_id r change inserted_ids (ep_removed p) (ep_modified p)
               (ep_fragments p) removed_transitions,
             tk_replace_items t items))))))"

definition apply_overwrite ::
  "track \<Rightarrow> timeline_id \<Rightarrow> track_id \<Rightarrow> rational_time \<Rightarrow> track_item \<Rightarrow> editorial_object_id list \<Rightarrow> edit_result" where
  "apply_overwrite t timeline_id track_id point material fragment_ids =
     (let tb = track_timebase t in
      bindR (validate_point_clock point tb ''overwrite'') (\<lambda>_.
      bindR (normalize_material material point tb ''overwrite'') (\<lambda>material.
      let d = tr_duration (timed_range material) in
      bindR (tr_new point d) (\<lambda>r.
      bindR (validate_edit_range t r ''overwrite'') (\<lambda>_.
        apply_range_replacement t timeline_id track_id KOverwrite r (Some material) fragment_ids False
          DurationUnchanged)))))"

definition apply_lift ::
  "track \<Rightarrow> timeline_id \<Rightarrow> track_id \<Rightarrow> time_range \<Rightarrow> gap \<Rightarrow> editorial_object_id list \<Rightarrow> edit_result" where
  "apply_lift t timeline_id track_id r g fragment_ids =
     bindR (validate_edit_range t r ''lift'') (\<lambda>_.
     if \<not> du_eq (tr_duration (gp_record_range g)) (tr_duration r)
     then Inl (invalid_edit ''lift'' ''lift gap duration must exactly match the lifted record range'')
     else apply_range_replacement t timeline_id track_id KLift r
            (Some (IGap \<lparr>gp_id = gp_id g, gp_name = gp_name g, gp_record_range = r\<rparr>)) fragment_ids False
            DurationUnchanged)"

definition apply_extract ::
  "track \<Rightarrow> timeline_id \<Rightarrow> track_id \<Rightarrow> time_range \<Rightarrow> editorial_object_id list \<Rightarrow> edit_result" where
  "apply_extract t timeline_id track_id r fragment_ids =
     bindR (validate_edit_range t r ''extract'') (\<lambda>_.
       apply_range_replacement t timeline_id track_id KExtract r None fragment_ids True
         (DurationShortened (tr_duration r)))"

section \<open>Replace\<close>

definition apply_replace ::
  "track \<Rightarrow> timeline_id \<Rightarrow> track_id \<Rightarrow> editorial_object_id \<Rightarrow> track_item \<Rightarrow> edit_result" where
  "apply_replace t timeline_id track_id target_id material =
     (if is_transition_id target_id
      then Inl (invalid_edit ''replace'' ''replace targets must be timed editorial objects'')
      else
      let tb = track_timebase t; (timed, transitions) = separate_items (tk_items t) in
      bindR (ok_or (position (\<lambda>item. item_id item = target_id) timed)
               (not_found_edit ''replace'' ''replace target was not found on the target track'')) (\<lambda>target_index.
      let target_range = timed_range (timed ! target_index) in
      bindR (normalize_material material (tr_start target_range) tb ''replace'') (\<lambda>material.
      if \<not> du_eq (tr_duration (timed_range material)) (tr_duration target_range)
      then Inl (invalid_edit ''replace'' ''replacement material must exactly match the target record duration'')
      else
      let inserted_id = item_id material in
      bindR (rebuild_with_transitions (timed[target_index := material]) transitions) (\<lambda>(items, removed_transitions).
      let same_identity = (target_id = inserted_id) in
        Inr (outcome KReplace timeline_id track_id target_range DurationUnchanged
               (if same_identity then [] else [inserted_id])
               (if same_identity then [] else [target_id])
               (if same_identity then [target_id] else []) [] removed_transitions,
             tk_replace_items t items)))))"

section \<open>Ripple and roll\<close>

definition apply_ripple ::
  "track \<Rightarrow> timeline_id \<Rightarrow> track_id \<Rightarrow> editorial_object_id \<Rightarrow> edit_side \<Rightarrow> rational_time \<Rightarrow> edit_result" where
  "apply_ripple t timeline_id track_id target_id side to =
     (if is_transition_id target_id
      then Inl (invalid_edit ''ripple'' ''ripple targets must be timed editorial objects'')
      else
      let tb = track_timebase t in
      bindR (validate_point_clock to tb ''ripple'') (\<lambda>_.
      let (timed, transitions) = separate_items (tk_items t) in
      bindR (ok_or (position (\<lambda>item. item_id item = target_id) timed)
               (not_found_edit ''ripple'' ''ripple target was not found on the target track'')) (\<lambda>target_index.
      let old_range = timed_range (timed ! target_index) in
      bindR (tr_end_exclusive old_range) (\<lambda>old_end.
      bindR (case side of
               SideStart \<Rightarrow>
                 (if rt_le old_end to
                  then Inl (invalid_edit ''ripple'' ''ripple start must remain before the target end'')
                  else
                  bindR (rt_checked_sub_at to (tr_start old_range) tb RoundExact) (\<lambda>removed.
                  bindR (rt_checked_sub_at old_end removed tb RoundExact) (\<lambda>new_end.
                  bindR (tr_from_start_end (tr_start old_range) new_end) (\<lambda>r.
                  bindR (rt_checked_sub_at new_end old_end tb RoundExact) (\<lambda>delta. Inr (r, delta))))))
             | SideEnd \<Rightarrow>
                 (if rt_le to (tr_start old_range)
                  then Inl (invalid_edit ''ripple'' ''ripple end must remain after the target start'')
                  else
                  bindR (tr_from_start_end (tr_start old_range) to) (\<lambda>r.
                  bindR (rt_checked_sub_at to old_end tb RoundExact) (\<lambda>delta. Inr (r, delta))))) (\<lambda>(new_range, delta).
      if rt_is_zero delta
      then Inl (invalid_edit ''ripple'' ''ripple edit must move its edge'')
      else
      bindR (trim_item (timed ! target_index) new_range side ''ripple'') (\<lambda>trimmed.
      bindR (traverse (\<lambda>item. shift_item_by item delta tb ''ripple'') (drop (target_index + 1) timed)) (\<lambda>shifted.
      let modified_ids = fold (\<lambda>item ids. push_unique ids (item_id item)) shifted [target_id] in
      bindR (rebuild_with_transitions (take target_index timed @ trimmed # shifted) transitions) (\<lambda>(items, removed_transitions).
      bindR (du_new \<bar>rt_value delta\<bar> tb) (\<lambda>magnitude.
      let change = (if rt_is_negative delta then DurationShortened magnitude else DurationExtended magnitude);
          edge = (case side of SideStart \<Rightarrow> tr_start old_range | SideEnd \<Rightarrow> old_end);
          affected_start = (if rt_lt to edge then to else edge) in
      bindR (tr_new affected_start magnitude) (\<lambda>affected_range.
        Inr (outcome KRipple timeline_id track_id affected_range change [] [] modified_ids [] removed_transitions,
             tk_replace_items t items)))))))))))"

definition apply_roll ::
  "track \<Rightarrow> timeline_id \<Rightarrow> track_id \<Rightarrow> editorial_object_id \<Rightarrow> editorial_object_id \<Rightarrow> rational_time \<Rightarrow> edit_result" where
  "apply_roll t timeline_id track_id left_id right_id to =
     (let tb = track_timebase t in
      bindR (validate_point_clock to tb ''roll'') (\<lambda>_.
      let (timed, transitions) = separate_items (tk_items t) in
      bindR (ok_or (position (\<lambda>item. item_id item = left_id) timed)
               (not_found_edit ''roll'' ''left roll target was not found'')) (\<lambda>left_index.
      bindR (ok_or (position (\<lambda>item. item_id item = right_id) timed)
               (not_found_edit ''roll'' ''right roll target was not found'')) (\<lambda>right_index.
      if right_index \<noteq> left_index + 1
      then Inl (invalid_edit ''roll'' ''roll targets must be adjacent timed objects in record order'')
      else
      let left_range = timed_range (timed ! left_index); right_range = timed_range (timed ! right_index) in
      bindR (tr_end_exclusive left_range) (\<lambda>left_end.
      if \<not> rt_eq left_end (tr_start right_range)
      then Inl (invalid_edit ''roll'' ''roll targets must share one exact edit point'')
      else
      bindR (if rt_le to (tr_start left_range) then Inr True
             else bindR (tr_end_exclusive right_range) (\<lambda>right_end. Inr (rt_le right_end to))) (\<lambda>outside.
      if outside
      then Inl (invalid_edit ''roll'' ''roll point must remain inside the combined two-item span'')
      else if rt_eq to (tr_start right_range)
      then Inl (invalid_edit ''roll'' ''roll edit must move its cut'')
      else
      bindR (tr_end_exclusive right_range) (\<lambda>right_end.
      bindR (tr_from_start_end (tr_start left_range) right_end) (\<lambda>combined_range.
      bindR (tr_from_start_end (tr_start left_range) to) (\<lambda>new_left.
      bindR (trim_item (timed ! left_index) new_left SideEnd ''roll'') (\<lambda>left.
      bindR (tr_from_start_end to right_end) (\<lambda>new_right.
      bindR (trim_item (timed ! right_index) new_right SideStart ''roll'') (\<lambda>right.
      bindR (rebuild_with_transitions (timed[left_index := left, right_index := right]) transitions) (\<lambda>(items, removed_transitions).
        Inr (outcome KRoll timeline_id track_id combined_range DurationUnchanged [] [] [left_id, right_id] []
               removed_transitions,
             tk_replace_items t items))))))))))))))"

section \<open>Slip and retime\<close>

text \<open>The first item with an identity, updated in place.\<close>

definition update_clip ::
  "track \<Rightarrow> clip_id \<Rightarrow> error_value \<Rightarrow> (clip \<Rightarrow> clip result) \<Rightarrow> (clip \<times> track) result" where
  "update_clip t ident not_a_clip f =
     bindR (ok_or (position (\<lambda>item. item_id item = OClip ident) (tk_items t))
              (model_not_found ''find_item'' ''editorial item was not found'' ''item''
                 (object_id_display (OClip ident)))) (\<lambda>index.
     bindR (ok_or (item_as_clip (tk_items t ! index)) not_a_clip) (\<lambda>c.
     bindR (f c) (\<lambda>edited.
       Inr (edited, tk_replace_items t ((tk_items t)[index := IClip edited])))))"

definition apply_slip :: "track \<Rightarrow> timeline_id \<Rightarrow> track_id \<Rightarrow> clip_id \<Rightarrow> rational_time \<Rightarrow> edit_result" where
  "apply_slip t timeline_id track_id ident source_start =
     bindR (update_clip t ident (invalid_edit ''slip'' ''slip targets must be source-bearing clips'') (\<lambda>c.
              let old_source = cl_source_range c in
              if rt_timebase source_start \<noteq> tr_timebase old_source
              then Inl (invalid_edit ''slip'' ''slip source point must use the exact clip source timebase'')
              else if rt_eq source_start (tr_start old_source)
              then Inl (invalid_edit ''slip'' ''slip edit must move its source range'')
              else bindR (tr_new source_start (tr_duration old_source)) (\<lambda>r. cl_set_source_range c r))) (\<lambda>(c, t).
       Inr (outcome KSlip timeline_id track_id (cl_record_range c) DurationUnchanged [] [] [OClip ident] [] [], t))"

text \<open>Maps compare by the source's derived equality: times and durations by physical value.\<close>

definition rs_eq :: "retime_segment \<Rightarrow> retime_segment \<Rightarrow> bool" where
  "rs_eq a b \<longleftrightarrow> tr_eq (rs_record_range a) (rs_record_range b)
     \<and> rt_eq (rs_source_start a) (rs_source_start b) \<and> rs_rate a = rs_rate b"

definition ctm_eq :: "clip_time_map \<Rightarrow> clip_time_map \<Rightarrow> bool" where
  "ctm_eq a b \<longleftrightarrow> du_eq (ctm_record_duration a) (ctm_record_duration b)
     \<and> ctm_source_timebase a = ctm_source_timebase b \<and> list_all2 rs_eq (ctm_segments a) (ctm_segments b)"

definition apply_retime :: "track \<Rightarrow> timeline_id \<Rightarrow> track_id \<Rightarrow> clip_id \<Rightarrow> clip_time_map \<Rightarrow> edit_result" where
  "apply_retime t timeline_id track_id ident time_map =
     bindR (update_clip t ident (invalid_edit ''retime'' ''retime targets must be source-bearing clips'') (\<lambda>c.
              if ctm_eq (cl_time_map c) time_map
              then Inl (invalid_edit ''retime'' ''retime edit must change the clip time map'')
              else cl_set_time_map c time_map)) (\<lambda>(c, t).
       Inr (outcome KRetime timeline_id track_id (cl_record_range c) DurationUnchanged [] [] [OClip ident] [] [], t))"

section \<open>Slide and razor\<close>

definition apply_slide :: "track \<Rightarrow> timeline_id \<Rightarrow> track_id \<Rightarrow> clip_id \<Rightarrow> rational_time \<Rightarrow> edit_result" where
  "apply_slide t timeline_id track_id ident to =
     (let tb = track_timebase t in
      bindR (validate_point_clock to tb ''slide'') (\<lambda>_.
      let (timed, transitions) = separate_items (tk_items t); center_id = OClip ident in
      bindR (ok_or (position (\<lambda>item. item_id item = center_id) timed)
               (not_found_edit ''slide'' ''slide clip was not found on the target track'')) (\<lambda>center.
      if center = 0 \<or> center + 1 \<ge> length timed
      then Inl (invalid_edit ''slide'' ''slide requires one adjacent clip on each side'')
      else if item_as_clip (timed ! (center - 1)) = None \<or> item_as_clip (timed ! center) = None
              \<or> item_as_clip (timed ! (center + 1)) = None
      then Inl (invalid_edit ''slide'' ''slide requires three adjacent source-bearing clips'')
      else
      let left_range = timed_range (timed ! (center - 1)); center_range = timed_range (timed ! center);
          right_range = timed_range (timed ! (center + 1)) in
      bindR (rt_checked_add_at to (du_rational_time (tr_duration center_range)) tb RoundExact) (\<lambda>new_center_end.
      bindR (if rt_le to (tr_start left_range) then Inr True
             else bindR (tr_end_exclusive right_range) (\<lambda>right_end. Inr (rt_le right_end new_center_end))) (\<lambda>outside.
      if outside
      then Inl (invalid_edit ''slide'' ''slide must leave both adjacent clips with nonzero duration'')
      else if rt_eq to (tr_start center_range)
      then Inl (invalid_edit ''slide'' ''slide edit must move its center clip'')
      else
      bindR (tr_from_start_end (tr_start left_range) to) (\<lambda>new_left.
      bindR (trim_item (timed ! (center - 1)) new_left SideEnd ''slide'') (\<lambda>left.
      bindR (tr_new to (tr_duration center_range)) (\<lambda>new_center.
      bindR (reposition_item (timed ! center) new_center ''slide'') (\<lambda>moved.
      bindR (tr_end_exclusive right_range) (\<lambda>right_end.
      bindR (tr_from_start_end new_center_end right_end) (\<lambda>new_right.
      bindR (trim_item (timed ! (center + 1)) new_right SideStart ''slide'') (\<lambda>right.
      bindR (tr_from_start_end (tr_start left_range) right_end) (\<lambda>affected_range.
      bindR (rebuild_with_transitions (timed[center - 1 := left, center := moved, center + 1 := right]) transitions)
        (\<lambda>(items, removed_transitions).
        Inr (outcome KSlide timeline_id track_id affected_range DurationUnchanged [] []
               [item_id left, center_id, item_id right] [] removed_transitions,
             tk_replace_items t items)))))))))))))))"

definition apply_razor ::
  "track \<Rightarrow> timeline_id \<Rightarrow> track_id \<Rightarrow> editorial_object_id \<Rightarrow> rational_time \<Rightarrow> editorial_object_id \<Rightarrow> edit_result" where
  "apply_razor t timeline_id track_id target_id point fragment_id =
     (if is_transition_id target_id
      then Inl (invalid_edit ''razor'' ''transitions cannot be independently razored'')
      else if \<not> same_typed_domain target_id fragment_id
      then Inl (invalid_edit ''razor''
             ''razor fragment identity must have the same typed domain as its original object'')
      else
      let tb = track_timebase t in
      bindR (validate_point_clock point tb ''razor'') (\<lambda>_.
      let (timed, transitions) = separate_items (tk_items t) in
      bindR (ok_or (position (\<lambda>item. item_id item = target_id) timed)
               (not_found_edit ''razor'' ''razor target was not found on the target track'')) (\<lambda>index.
      let r = timed_range (timed ! index) in
      bindR (if rt_le point (tr_start r) then Inr True
             else bindR (tr_end_exclusive r) (\<lambda>range_end. Inr (rt_le range_end point))) (\<lambda>outside.
      if outside
      then Inl (invalid_edit ''razor'' ''razor point must lie strictly inside the target record range'')
      else
      bindR (slice_item (timed ! index) (tr_start r) point target_id ''razor'') (\<lambda>left.
      bindR (tr_end_exclusive r) (\<lambda>range_end.
      bindR (slice_item (timed ! index) point range_end fragment_id ''razor'') (\<lambda>right.
      bindR (rebuild_with_transitions (take index timed @ left # right # drop (index + 1) timed) transitions)
        (\<lambda>(items, removed_transitions).
        Inr (outcome KRazor timeline_id track_id r DurationUnchanged [fragment_id] [] [target_id, fragment_id]
               [\<lparr>ef_original = target_id, ef_created = fragment_id\<rparr>] removed_transitions,
             tk_replace_items t items)))))))))"

section \<open>Trim and extend\<close>

text \<open>
  The four cases of the trim: the moved edge, and whether it moves into the object or out of it.
  Each returns the timed items and the inserted, removed and modified identities.
\<close>

type_synonym trim_pass =
  "track_item list \<times> editorial_object_id list \<times> editorial_object_id list \<times> editorial_object_id list"

fun is_gap :: "track_item \<Rightarrow> bool" where
  "is_gap (IGap _) = True"
| "is_gap _ = False"

definition trim_gap :: "gap_id option \<Rightarrow> time_range \<Rightarrow> track_item result" where
  "trim_gap gap_ident r =
     bindR (ok_or gap_ident
              (invalid_edit ''trim''
                 ''an inward trim without an adjacent gap requires a caller-supplied gap identity''))
       (\<lambda>ident. Inr (IGap \<lparr>gp_id = ident, gp_name = ''trim gap'', gp_record_range = r\<rparr>))"

definition insert_at :: "nat \<Rightarrow> 'a \<Rightarrow> 'a list \<Rightarrow> 'a list" where
  "insert_at n x xs = take n xs @ x # drop n xs"

definition remove_at :: "nat \<Rightarrow> 'a list \<Rightarrow> 'a list" where
  "remove_at n xs = take n xs @ drop (n + 1) xs"

definition trim_end_inward ::
  "track_item list \<Rightarrow> nat \<Rightarrow> time_range \<Rightarrow> rational_time \<Rightarrow> rational_time \<Rightarrow> gap_id option
     \<Rightarrow> editorial_object_id \<Rightarrow> trim_pass result" where
  "trim_end_inward timed target_index new_range to old_boundary gap_ident target_id =
     bindR (trim_item (timed ! target_index) new_range SideEnd ''trim'') (\<lambda>trimmed.
     let timed = timed[target_index := trimmed] in
     bindR (tr_from_start_end to old_boundary) (\<lambda>gap_range.
     if target_index + 1 < length timed \<and> is_gap (timed ! (target_index + 1))
     then
       bindR (tr_end_exclusive (timed_range (timed ! (target_index + 1)))) (\<lambda>next_end.
       bindR (tr_from_start_end to next_end) (\<lambda>r.
       bindR (set_record_range (timed ! (target_index + 1)) r ''trim'') (\<lambda>grown.
         Inr (timed[target_index + 1 := grown], [], [], push_unique [target_id] (item_id grown)))))
     else
       bindR (trim_gap gap_ident gap_range) (\<lambda>g.
         Inr (insert_at (target_index + 1) g timed, [item_id g], [], [target_id]))))"

definition trim_end_outward ::
  "track_item list \<Rightarrow> nat \<Rightarrow> time_range \<Rightarrow> rational_time \<Rightarrow> editorial_object_id \<Rightarrow> trim_pass result" where
  "trim_end_outward timed target_index new_range to target_id =
     (let next_index = target_index + 1 in
      if \<not> next_index < length timed
      then Inl (invalid_edit ''trim'' ''outward end trim requires an adjacent gap'')
      else if \<not> is_gap (timed ! next_index)
      then Inl (invalid_edit ''trim'' ''outward end trim may consume only an adjacent gap'')
      else
      bindR (tr_end_exclusive (timed_range (timed ! next_index))) (\<lambda>gap_end.
      if rt_lt gap_end to
      then Inl (invalid_edit ''trim'' ''outward end trim exceeds the adjacent gap'')
      else
      bindR (trim_item (timed ! target_index) new_range SideEnd ''trim'') (\<lambda>trimmed.
      let timed = timed[target_index := trimmed] in
      if rt_eq to gap_end
      then Inr (remove_at next_index timed, [], [item_id (timed ! next_index)], [target_id])
      else
      bindR (tr_from_start_end to gap_end) (\<lambda>r.
      bindR (set_record_range (timed ! next_index) r ''trim'') (\<lambda>shrunk.
        Inr (timed[next_index := shrunk], [], [], push_unique [target_id] (item_id shrunk)))))))"

definition trim_start_inward ::
  "track_item list \<Rightarrow> nat \<Rightarrow> time_range \<Rightarrow> rational_time \<Rightarrow> rational_time \<Rightarrow> gap_id option
     \<Rightarrow> editorial_object_id \<Rightarrow> trim_pass result" where
  "trim_start_inward timed target_index new_range to old_boundary gap_ident target_id =
     bindR (trim_item (timed ! target_index) new_range SideStart ''trim'') (\<lambda>trimmed.
     let timed = timed[target_index := trimmed] in
     if target_index > 0 \<and> is_gap (timed ! (target_index - 1))
     then
       bindR (tr_from_start_end (tr_start (timed_range (timed ! (target_index - 1)))) to) (\<lambda>r.
       bindR (set_record_range (timed ! (target_index - 1)) r ''trim'') (\<lambda>grown.
         Inr (timed[target_index - 1 := grown], [], [], push_unique [target_id] (item_id grown))))
     else
       bindR (ok_or gap_ident
                (invalid_edit ''trim''
                   ''an inward trim without an adjacent gap requires a caller-supplied gap identity'')) (\<lambda>_.
       bindR (tr_from_start_end old_boundary to) (\<lambda>r.
       bindR (trim_gap gap_ident r) (\<lambda>g.
         Inr (insert_at target_index g timed, [item_id g], [], [target_id])))))"

definition trim_start_outward ::
  "track_item list \<Rightarrow> nat \<Rightarrow> time_range \<Rightarrow> rational_time \<Rightarrow> editorial_object_id \<Rightarrow> trim_pass result" where
  "trim_start_outward timed target_index new_range to target_id =
     (if target_index = 0 \<or> \<not> is_gap (timed ! (target_index - 1))
      then Inl (invalid_edit ''trim'' ''outward start trim requires an adjacent gap'')
      else
      let previous_index = target_index - 1; gap_range = timed_range (timed ! previous_index) in
      if rt_lt to (tr_start gap_range)
      then Inl (invalid_edit ''trim'' ''outward start trim exceeds the adjacent gap'')
      else
      bindR (trim_item (timed ! target_index) new_range SideStart ''trim'') (\<lambda>trimmed.
      let timed = timed[target_index := trimmed] in
      if rt_eq to (tr_start gap_range)
      then Inr (remove_at previous_index timed, [], [item_id (timed ! previous_index)], [target_id])
      else
      bindR (tr_from_start_end (tr_start gap_range) to) (\<lambda>r.
      bindR (set_record_range (timed ! previous_index) r ''trim'') (\<lambda>shrunk.
        Inr (timed[previous_index := shrunk], [], [], push_unique [target_id] (item_id shrunk))))))"

definition apply_trim ::
  "track \<Rightarrow> timeline_id \<Rightarrow> track_id \<Rightarrow> editorial_object_id \<Rightarrow> edit_side \<Rightarrow> rational_time \<Rightarrow> gap_id option
     \<Rightarrow> edit_result" where
  "apply_trim t timeline_id track_id target_id side to gap_ident =
     (if is_transition_id target_id
      then Inl (invalid_edit ''trim'' ''trim targets must be timed editorial objects'')
      else
      let tb = track_timebase t in
      bindR (validate_point_clock to tb ''trim'') (\<lambda>_.
      let (timed, transitions) = separate_items (tk_items t) in
      bindR (ok_or (position (\<lambda>item. item_id item = target_id) timed)
               (not_found_edit ''trim'' ''trim target was not found on the target track'')) (\<lambda>target_index.
      let old_range = timed_range (timed ! target_index) in
      bindR (case side of SideStart \<Rightarrow> Inr (tr_start old_range) | SideEnd \<Rightarrow> tr_end_exclusive old_range) (\<lambda>old_boundary.
      if rt_eq to old_boundary
      then Inl (invalid_edit ''trim'' ''trim edit must move its edge'')
      else
      bindR (case side of
               SideStart \<Rightarrow>
                 bindR (tr_end_exclusive old_range) (\<lambda>old_end.
                 if rt_lt to old_end then tr_from_start_end to old_end
                 else Inl (invalid_edit ''trim'' ''trimmed object must retain a nonzero record duration''))
             | SideEnd \<Rightarrow>
                 if rt_lt (tr_start old_range) to then tr_from_start_end (tr_start old_range) to
                 else Inl (invalid_edit ''trim'' ''trimmed object must retain a nonzero record duration'')) (\<lambda>new_range.
      bindR (case side of
               SideEnd \<Rightarrow>
                 if rt_lt to old_boundary
                 then trim_end_inward timed target_index new_range to old_boundary gap_ident target_id
                 else trim_end_outward timed target_index new_range to target_id
             | SideStart \<Rightarrow>
                 if rt_lt old_boundary to
                 then trim_start_inward timed target_index new_range to old_boundary gap_ident target_id
                 else trim_start_outward timed target_index new_range to target_id)
        (\<lambda>(timed, inserted_ids, removed_ids, modified_ids).
      bindR (rt_checked_sub_at to old_boundary tb RoundExact) (\<lambda>moved.
      bindR (du_new \<bar>rt_value moved\<bar> tb) (\<lambda>magnitude.
      let affected_start = (if rt_lt to old_boundary then to else old_boundary) in
      bindR (rebuild_with_transitions timed transitions) (\<lambda>(items, removed_transitions).
      bindR (tr_new affected_start magnitude) (\<lambda>affected_range.
        Inr (outcome KTrim timeline_id track_id affected_range DurationUnchanged inserted_ids removed_ids
               modified_ids [] removed_transitions,
             tk_replace_items t items)))))))))))"

definition apply_extend ::
  "track \<Rightarrow> timeline_id \<Rightarrow> track_id \<Rightarrow> editorial_object_id \<Rightarrow> edit_side \<Rightarrow> rational_time \<Rightarrow> extend_mode
     \<Rightarrow> edit_result" where
  "apply_extend t timeline_id track_id target_id side to mode =
     bindR (case mode of
              ExtendRipple \<Rightarrow> apply_ripple t timeline_id track_id target_id side to
            | ExtendRoll \<Rightarrow>
                let (timed, _) = separate_items (tk_items t) in
                bindR (ok_or (position (\<lambda>item. item_id item = target_id) timed)
                         (not_found_edit ''extend'' ''extend target was not found'')) (\<lambda>index.
                case side of
                  SideEnd \<Rightarrow>
                    if index + 1 < length timed
                    then apply_roll t timeline_id track_id target_id (item_id (timed ! (index + 1))) to
                    else Inl (invalid_edit ''extend''
                           ''roll extend requires an adjacent timed object on the moved edge'')
                | SideStart \<Rightarrow>
                    if index > 0
                    then apply_roll t timeline_id track_id (item_id (timed ! (index - 1))) target_id to
                    else Inl (invalid_edit ''extend''
                           ''roll extend requires an adjacent timed object on the moved edge'')))
       (\<lambda>(out, t). Inr (out\<lparr>eo_kind := KExtend\<rparr>, t))"

section \<open>Transition handles\<close>

definition transition_handle_range :: "rational_time \<Rightarrow> duration \<Rightarrow> duration \<Rightarrow> time_range result" where
  "transition_handle_range cut_point from_offset to_offset =
     bindR (ok_or (checked_i64 (du_value from_offset))
              (invalid_edit ''set_transition'' ''transition from handle exceeds the supported exact range'')) (\<lambda>from_value.
     bindR (ok_or (checked_i64 (du_value to_offset))
              (invalid_edit ''set_transition'' ''transition to handle exceeds the supported exact range'')) (\<lambda>to_value.
     bindR (ok_or (checked_i64 (rt_value cut_point - from_value))
              (invalid_edit ''set_transition'' ''transition from handle exceeds the supported exact range'')) (\<lambda>start.
     bindR (ok_or (checked_i64 (rt_value cut_point + to_value))
              (invalid_edit ''set_transition'' ''transition to handle exceeds the supported exact range'')) (\<lambda>stop.
       tr_from_start_end (rt_new start (rt_timebase cut_point)) (rt_new stop (rt_timebase cut_point))))))"

definition apply_set_transition ::
  "track \<Rightarrow> timeline_id \<Rightarrow> track_id \<Rightarrow> transition_id \<Rightarrow> duration \<Rightarrow> duration \<Rightarrow> edit_result" where
  "apply_set_transition t timeline_id track_id transition_ident from_offset to_offset =
     (let tb = track_timebase t in
      if du_timebase from_offset \<noteq> tb \<or> du_timebase to_offset \<noteq> tb
      then Inl (invalid_edit ''set_transition'' ''transition handles must use the exact target track clock'')
      else if du_is_zero from_offset \<and> du_is_zero to_offset
      then Inl (invalid_edit ''set_transition'' ''transition handle duration must be nonzero'')
      else
      let object_id = OTransition transition_ident in
      bindR (ok_or (position (\<lambda>item. item_id item = object_id) (tk_items t))
               (not_found_edit ''set_transition'' ''transition was not found'')) (\<lambda>index.
      case tk_items t ! index of
        ITransition tr \<Rightarrow>
          if du_eq (tn_from_offset tr) from_offset \<and> du_eq (tn_to_offset tr) to_offset
          then Inl (invalid_edit ''set_transition'' ''transition handle edit must change at least one offset'')
          else
          bindR (ok_or (if index = 0 then None else item_record_range (tk_items t ! (index - 1)))
                   (invalid_edit ''set_transition'' ''transition must retain a preceding timed endpoint'')) (\<lambda>previous.
          bindR (tr_end_exclusive previous) (\<lambda>cut_point.
          bindR (transition_handle_range cut_point (tn_from_offset tr) (tn_to_offset tr)) (\<lambda>old_range.
          bindR (transition_handle_range cut_point from_offset to_offset) (\<lambda>new_range.
          let edited = tk_replace_items t ((tk_items t)[index := ITransition (tn_set_offsets tr from_offset to_offset)]);
              affected_start = (if rt_lt (tr_start old_range) (tr_start new_range)
                                then tr_start old_range else tr_start new_range) in
          bindR (tr_end_exclusive old_range) (\<lambda>old_end.
          bindR (tr_end_exclusive new_range) (\<lambda>new_end.
          bindR (tr_from_start_end affected_start (if rt_lt new_end old_end then old_end else new_end)) (\<lambda>affected_range.
            Inr (outcome KSetTransition timeline_id track_id affected_range DurationUnchanged [] [] [object_id] [] [],
                 edited))))))))
      | _ \<Rightarrow> Inl (invalid_edit ''set_transition'' ''transition identity resolved to an unrelated item'')))"

section \<open>Three and four point edits\<close>

definition three_point_ranges :: "timebase \<Rightarrow> three_point_placement \<Rightarrow> (time_range \<times> time_range) result" where
  "three_point_ranges tb placement =
     (case placement of
        SourceRangeAtRecordStart source_range record_start \<Rightarrow>
          bindR (validate_point_clock record_start tb ''three_point'') (\<lambda>_.
          bindR (exact_duration_at (tr_duration source_range) tb ''three_point'') (\<lambda>d.
          bindR (tr_new record_start d) (\<lambda>record_range. Inr (source_range, record_range))))
      | SourceStartOverRecordRange source_start record_range \<Rightarrow>
          bindR (validate_record_clock record_range tb ''three_point'') (\<lambda>_.
          bindR (exact_duration_at (tr_duration record_range) (rt_timebase source_start) ''three_point'') (\<lambda>d.
          bindR (tr_new source_start d) (\<lambda>source_range. Inr (source_range, record_range))))
      | SourceRangeBacktimedToRecordEnd source_range record_end \<Rightarrow>
          bindR (validate_point_clock record_end tb ''three_point'') (\<lambda>_.
          bindR (exact_duration_at (tr_duration source_range) tb ''three_point'') (\<lambda>d.
          bindR (rt_checked_sub_at record_end (du_rational_time d) tb RoundExact) (\<lambda>record_start.
          bindR (tr_new record_start d) (\<lambda>record_range. Inr (source_range, record_range)))))
      | SourceEndBacktimedOverRecordRange source_end record_range \<Rightarrow>
          bindR (validate_record_clock record_range tb ''three_point'') (\<lambda>_.
          bindR (exact_duration_at (tr_duration record_range) (rt_timebase source_end) ''three_point'') (\<lambda>d.
          bindR (rt_checked_sub_at source_end (du_rational_time d) (rt_timebase source_end) RoundExact) (\<lambda>source_start.
          bindR (tr_new source_start d) (\<lambda>source_range. Inr (source_range, record_range))))))"

definition apply_three_point ::
  "track \<Rightarrow> timeline_id \<Rightarrow> track_id \<Rightarrow> clip \<Rightarrow> three_point_placement \<Rightarrow> editorial_object_id list \<Rightarrow> edit_result" where
  "apply_three_point t timeline_id track_id c placement fragment_ids =
     bindR (three_point_ranges (track_timebase t) placement) (\<lambda>(source_range, record_range).
     bindR (cl_set_ranges c source_range record_range) (\<lambda>placed.
     bindR (apply_overwrite t timeline_id track_id (tr_start record_range) (IClip placed) fragment_ids) (\<lambda>(out, t).
       Inr (out\<lparr>eo_kind := KThreePoint\<rparr>, t))))"

definition apply_four_point ::
  "track \<Rightarrow> timeline_id \<Rightarrow> track_id \<Rightarrow> clip \<Rightarrow> time_range \<Rightarrow> time_range \<Rightarrow> editorial_object_id list \<Rightarrow> edit_result" where
  "apply_four_point t timeline_id track_id c source_range record_range fragment_ids =
     bindR (validate_record_clock record_range (track_timebase t) ''four_point'') (\<lambda>_.
     if \<not> rt_eq (du_rational_time (tr_duration source_range)) (du_rational_time (tr_duration record_range))
     then Inl (unsupported_edit ''four_point''
            ''four-point fit-to-fill requires the P2.W02.C008 time-remapping capability'')
     else
     bindR (cl_set_ranges c source_range record_range) (\<lambda>placed.
     bindR (apply_overwrite t timeline_id track_id (tr_start record_range) (IClip placed) fragment_ids) (\<lambda>(out, t).
       Inr (out\<lparr>eo_kind := KFourPoint\<rparr>, t))))"

end
