(* ===== verification/ItemLaws.thy ===== *)
theory ItemLaws
  imports TrackEdits
begin

text \<open>
  The laws of the editorial items: what a well-formed clip is, that the constructor and every
  setter keep it, and what slicing, moving and placing an item do to its range and to what it
  plays at a tick of the record clock.
\<close>

section \<open>Well-formed items\<close>

definition clip_ok :: "clip \<Rightarrow> bool" where
  "clip_ok c \<longleftrightarrow> tr_ok (cl_source_range c) \<and> tr_ok (cl_record_range c)
     \<and> secs (du_rational_time (tr_duration (cl_source_range c))) = secs (du_rational_time (tr_duration (cl_record_range c)))
     \<and> ctm_ok (cl_time_map c) \<and> ctm_record_duration (cl_time_map c) = tr_duration (cl_record_range c)
     \<and> ctm_source_timebase (cl_time_map c) = tr_timebase (cl_source_range c)"

fun item_ok :: "timebase \<Rightarrow> track_item \<Rightarrow> bool" where
  "item_ok tb (IClip c) \<longleftrightarrow> clip_ok c \<and> tr_timebase (cl_record_range c) = tb"
| "item_ok tb (IGap g) \<longleftrightarrow> tr_ok (gp_record_range g) \<and> tr_timebase (gp_record_range g) = tb"
| "item_ok tb (IGenerator g) \<longleftrightarrow> tr_ok (gn_record_range g) \<and> tr_timebase (gn_record_range g) = tb"
| "item_ok tb (ICaption c) \<longleftrightarrow> tr_ok (cp_record_range c) \<and> tr_timebase (cp_record_range c) = tb"
| "item_ok tb (ITransition t) \<longleftrightarrow> False"

definition item_start :: "track_item \<Rightarrow> int" where
  "item_start x = rt_value (tr_start (timed_range x))"

definition item_stop :: "track_item \<Rightarrow> int" where
  "item_stop x = tr_end (timed_range x)"

lemma timed_range_simps [simp]:
  "timed_range (IClip c) = cl_record_range c" "timed_range (IGap g) = gp_record_range g"
  "timed_range (IGenerator n) = gn_record_range n" "timed_range (ICaption p) = cp_record_range p"
  by (simp_all add: timed_range_def)

lemma item_ok_range:
  assumes "item_ok tb x"
  shows "item_record_range x = Some (timed_range x)" "tr_ok (timed_range x)"
    "tr_timebase (timed_range x) = tb" "tb_ok tb" "item_start x \<le> item_stop x"
    "in_i64 (item_start x)" "in_i64 (item_stop x)"
proof -
  show r: "item_record_range x = Some (timed_range x)" "tr_ok (timed_range x)"
    "tr_timebase (timed_range x) = tb" using assms by (cases x; simp add: clip_ok_def)+
  then show "tb_ok tb" "item_start x \<le> item_stop x" "in_i64 (item_start x)" "in_i64 (item_stop x)"
    by (auto simp: tr_ok_def rt_ok_def du_ok_def tr_timebase_def item_start_def item_stop_def tr_end_def)
qed

lemma item_range_eq:
  assumes "item_ok tb x"
  shows "tr_start (timed_range x) = rt_new (item_start x) tb"
    "tr_end_exclusive (timed_range x) = Inr (rt_new (item_stop x) tb)"
    "rt_ok (rt_new (item_start x) tb)" "rt_ok (rt_new (item_stop x) tb)"
    "du_value (tr_duration (timed_range x)) = item_stop x - item_start x"
    "du_timebase (tr_duration (timed_range x)) = tb"
proof -
  note r = item_ok_range[OF assms]
  show "tr_start (timed_range x) = rt_new (item_start x) tb"
    using r(3) by (auto simp: item_start_def tr_timebase_def intro: rational_time.equality)
  show "tr_end_exclusive (timed_range x) = Inr (rt_new (item_stop x) tb)" "rt_ok (rt_new (item_stop x) tb)"
    using tr_end_ok[OF r(2)] r(3) by (simp_all add: item_stop_def)
  show "rt_ok (rt_new (item_start x) tb)" using r by (simp add: rt_ok_def)
  show "du_value (tr_duration (timed_range x)) = item_stop x - item_start x"
    "du_timebase (tr_duration (timed_range x)) = tb"
    using r by (auto simp: tr_ok_def tr_timebase_def item_stop_def item_start_def tr_end_def)
qed

section \<open>Clip ranges\<close>

lemma cr_new_iff:
  assumes "tr_ok s" "tr_ok r"
  shows "cr_new s r = Inr m \<longleftrightarrow> 0 < du_value (tr_duration s) \<and> 0 < du_value (tr_duration r)
     \<and> secs (du_rational_time (tr_duration s)) = secs (du_rational_time (tr_duration r))
     \<and> m = \<lparr>cr_source_range = s, cr_record_range = r\<rparr>"
proof -
  have "du_ok (tr_duration s)" "du_ok (tr_duration r)" using assms by (simp_all add: tr_ok_def)
  then show ?thesis
    by (auto simp: cr_new_def result_simps tr_is_empty_def du_is_zero_def du_ok_def
      rt_time.eq_seconds du_rational_ok)
qed

section \<open>Retime maps under a setter\<close>

lemma ctm_new_ok:
  assumes "du_ok d" "tb_ok stb" "\<forall>s\<in>set segs. seg_ok s" "ctm_new d stb segs = Inr m"
  shows "ctm_ok m" "ctm_record_duration m = d" "ctm_source_timebase m = stb" "ctm_segments m = segs"
  using ctm_new_iff[OF assms(1-3), of m] assms(4) by (metis clip_time_map.select_convs)+

lemma ctm_speed_ok:
  assumes "du_ok d" "rt_ok s" "pr_ok p" "ctm_speed d s p = Inr m"
  shows "ctm_ok m \<and> ctm_record_duration m = d \<and> ctm_source_timebase m = rt_timebase s"
proof -
  have tb: "tb_ok (du_timebase d)" "tb_ok (rt_timebase s)" using assms by (simp_all add: du_ok_def rt_ok_def)
  from assms(4) obtain r seg where r: "tr_new (rt_zero (du_timebase d)) d = Inr r"
    and seg: "rs_new r s p = Inr seg" and m: "ctm_new d (rt_timebase s) [seg] = Inr m"
    by (auto simp: ctm_speed_def result_simps)
  have "tr_ok r" using tr_new_ok[OF _ assms(1) r] tb by simp
  from rs_new_ok[OF this assms(2,3) seg] have "seg_ok seg" by (rule conjunct1)
  then show ?thesis using ctm_new_ok[OF assms(1) tb(2) _ m] by simp
qed

lemma ctm_identity_ok:
  "du_ok d \<Longrightarrow> rt_ok s \<Longrightarrow> ctm_identity d s = Inr m
    \<Longrightarrow> ctm_ok m \<and> ctm_record_duration m = d \<and> ctm_source_timebase m = rt_timebase s"
  using ctm_speed_ok[OF _ _ pr_const_ok(1)] by (simp add: ctm_identity_def)

lemma ctm_segments_ok: "ctm_ok m \<Longrightarrow> s \<in> set (ctm_segments m) \<Longrightarrow> seg_ok s
    \<and> tr_timebase (rs_record_range s) = du_timebase (ctm_record_duration m)
    \<and> rt_timebase (rs_source_start s) = ctm_source_timebase m"
  using segs_cover_nth by (fastforce simp: ctm_ok_def in_set_conv_nth)

lemma tr_rescale_ok:
  assumes "tr_ok r" "tb_ok tb" "tr_checked_rescale r tb RoundExact = Inr q"
  shows "tr_ok q \<and> tr_timebase q = tb \<and> (tr_timebase r = tb \<longrightarrow> q = r)"
proof -
  note e = tr_end_ok[OF assms(1)]
  from assms(3) obtain s t where s: "rt_checked_rescale (tr_start r) tb RoundExact = Inr s"
    and t: "rt_checked_rescale (rt_new (tr_end r) (tr_timebase r)) tb RoundExact = Inr t"
    and q: "tr_from_start_end s t = Inr q" by (auto simp: tr_checked_rescale_def result_simps e)
  have st: "rt_ok s" "rt_timebase s = tb" "rt_ok t" "rt_timebase t = tb"
    using rescale_exact[OF _ assms(2)] s t e assms(1) by (auto simp: tr_ok_def)
  have "q = r" if "tr_timebase r = tb"
  proof -
    have "s = tr_start r" "t = rt_new (tr_end r) tb" using s t that by (auto simp: rt_checked_rescale_def tr_timebase_def)
    then show ?thesis
      using q st assms(1) that
      by (auto simp: tr_from_start_end_iff tr_ok_def tr_end_def tr_timebase_def intro!: time_range.equality duration.equality)
  qed
  then show ?thesis using tr_from_start_end_ok[OF st(1,3) q] st by auto
qed

lemma rescale_clock_ok:
  assumes m: "ctm_ok m" and d: "du_ok d" and run: "ctm_rescale_record_clock m d = Inr m'"
  shows "ctm_ok m' \<and> ctm_record_duration m' = d \<and> ctm_source_timebase m' = ctm_source_timebase m"
    and "du_timebase d = du_timebase (ctm_record_duration m) \<Longrightarrow> m' = m"
proof -
  from run obtain segs where segs: "traverse (\<lambda>seg. bindR (tr_checked_rescale (rs_record_range seg) (du_timebase d) RoundExact)
        (\<lambda>window. rs_new window (rs_source_start seg) (rs_rate seg))) (ctm_segments m) = Inr segs"
    and eq: "du_eq (ctm_record_duration m) d" and m': "ctm_new d (ctm_source_timebase m) segs = Inr m'"
    by (auto simp: ctm_rescale_record_clock_def result_simps split: if_splits)
  have tb: "tb_ok (du_timebase d)" "tb_ok (ctm_source_timebase m)" using d m by (simp_all add: du_ok_def ctm_ok_def)
  have seg: "seg_ok (segs ! i) \<and> (du_timebase d = du_timebase (ctm_record_duration m) \<longrightarrow> segs ! i = ctm_segments m ! i)"
    if i: "i < length (ctm_segments m)" for i
  proof -
    let ?s = "ctm_segments m ! i"
    have s: "seg_ok ?s" "tr_timebase (rs_record_range ?s) = du_timebase (ctm_record_duration m)"
      using ctm_segments_ok[OF m, of ?s] i by simp_all
    from traverse_nth[OF segs i] obtain w where w: "tr_checked_rescale (rs_record_range ?s) (du_timebase d) RoundExact = Inr w"
      "rs_new w (rs_source_start ?s) (rs_rate ?s) = Inr (segs ! i)" by (auto simp: result_simps)
    have "tr_ok (rs_record_range ?s)" "rt_ok (rs_source_start ?s)" "pr_ok (rs_rate ?s)" using s by (simp_all add: seg_ok_def)
    with tr_rescale_ok[OF _ tb(1) w(1)] rs_new_ok[OF _ _ _ w(2)] s show ?thesis by auto
  qed
  have len: "length segs = length (ctm_segments m)" by (rule traverse_length[OF segs])
  have "\<forall>s\<in>set segs. seg_ok s" using seg len by (auto simp: in_set_conv_nth)
  note new = ctm_new_ok[OF d tb(2) this m']
  then show "ctm_ok m' \<and> ctm_record_duration m' = d \<and> ctm_source_timebase m' = ctm_source_timebase m" by simp
  assume same: "du_timebase d = du_timebase (ctm_record_duration m)"
  have "segs = ctm_segments m" using seg same len by (intro nth_equalityI) auto
  moreover have "d = ctm_record_duration m"
    using du_same_timebase(1)[of "ctm_record_duration m" d] eq same d m by (auto simp: ctm_ok_def intro: duration.equality)
  ultimately show "m' = m" using new by (auto intro: clip_time_map.equality)
qed

lemma translate_ok:
  assumes m: "ctm_ok m" and a: "rt_ok a" "rt_ok b" and run: "ctm_translate_source m a b = Inr m'"
  shows "ctm_ok m' \<and> ctm_record_duration m' = ctm_record_duration m \<and> ctm_source_timebase m' = rt_timebase b"
proof -
  let ?f = "\<lambda>seg. bindR (rt_checked_sub_at (rs_source_start seg) a (rt_timebase a) RoundExact) (\<lambda>offset.
    bindR (rt_checked_rescale offset (rt_timebase b) RoundExact) (\<lambda>offset.
    bindR (rt_checked_add_at b offset (rt_timebase b) RoundExact) (\<lambda>source_start.
      rs_new (rs_record_range seg) source_start (rs_rate seg))))"
  from run obtain segs where segs: "traverse ?f (ctm_segments m) = Inr segs"
    and m': "ctm_new (ctm_record_duration m) (rt_timebase b) segs = Inr m'"
    by (auto simp: ctm_translate_source_def result_simps split: if_splits)
  have tb: "tb_ok (rt_timebase a)" "tb_ok (rt_timebase b)" using a by (simp_all add: rt_ok_def)
  have seg: "seg_ok (segs ! i)" if i: "i < length (ctm_segments m)" for i
  proof -
    let ?s = "ctm_segments m ! i"
    have s: "tr_ok (rs_record_range ?s)" "rt_ok (rs_source_start ?s)" "pr_ok (rs_rate ?s)"
      using ctm_segments_ok[OF m, of ?s] i by (simp_all add: seg_ok_def)
    from traverse_nth[OF segs i] obtain o1 o2 st where st:
      "rt_checked_sub_at (rs_source_start ?s) a (rt_timebase a) RoundExact = Inr o1"
      "rt_checked_rescale o1 (rt_timebase b) RoundExact = Inr o2"
      "rt_checked_add_at b o2 (rt_timebase b) RoundExact = Inr st"
      "rs_new (rs_record_range ?s) st (rs_rate ?s) = Inr (segs ! i)" by (auto simp: result_simps)
    have "rt_ok o1" using sub_exact[OF s(2) a(1) tb(1) st(1)] by simp
    with st(2) have "rt_ok o2" using rescale_exact[OF _ tb(2)] by blast
    with add_exact[OF a(2) _ tb(2) st(3)] have "rt_ok st" by simp
    from rs_new_ok[OF s(1) this s(3) st(4)] show ?thesis by (rule conjunct1)
  qed
  have "\<forall>s\<in>set segs. seg_ok s" using seg traverse_length[OF segs] by (auto simp: in_set_conv_nth)
  from ctm_new_ok[OF _ tb(2) this m'] m show ?thesis by (simp add: ctm_ok_def)
qed

section \<open>Clips under every operation\<close>

lemma clip_okD:
  assumes "clip_ok c"
  shows "tr_ok (cl_source_range c)" "tr_ok (cl_record_range c)" "ctm_ok (cl_time_map c)"
    "ctm_record_duration (cl_time_map c) = tr_duration (cl_record_range c)"
    "ctm_source_timebase (cl_time_map c) = tr_timebase (cl_source_range c)"
    "secs (du_rational_time (tr_duration (cl_source_range c))) = secs (du_rational_time (tr_duration (cl_record_range c)))"
    "0 < du_value (tr_duration (cl_record_range c))"
  using assms by (auto simp: clip_ok_def ctm_ok_def)

lemma tr_okD: "tr_ok r \<Longrightarrow> rt_ok (tr_start r) \<and> du_ok (tr_duration r) \<and> tb_ok (tr_timebase r)
    \<and> du_timebase (tr_duration r) = tr_timebase r \<and> rt_timebase (tr_start r) = tr_timebase r"
  by (simp add: tr_ok_def rt_ok_def tr_timebase_def)

text \<open>A clip built from checked ranges and a bound map.\<close>

lemma clip_ok_built:
  assumes "tr_ok s" "tr_ok r" "cr_new s r = Inr ranges" "ctm_ok m"
    "ctm_record_duration m = tr_duration r" "ctm_source_timebase m = tr_timebase s"
    "cl_ranges c = ranges" "cl_time_map c = m"
  shows "clip_ok c \<and> cl_source_range c = s \<and> cl_record_range c = r"
  using assms cr_new_iff[OF assms(1,2)] by (simp add: clip_ok_def cl_source_range_def cl_record_range_def)

lemma cl_new_ok:
  assumes "tr_ok s" "tr_ok r" "cl_new ident name source s r = Inr c"
  shows "clip_ok c \<and> cl_source_range c = s \<and> cl_record_range c = r"
proof -
  from assms(3) obtain ranges m where run: "cr_new s r = Inr ranges" "ctm_identity (tr_duration r) (tr_start s) = Inr m"
    "c = \<lparr>cl_id = ident, cl_name = name, cl_source = source, cl_ranges = ranges, cl_time_map = m\<rparr>"
    by (auto simp: cl_new_def result_simps)
  show ?thesis using run(3) ctm_identity_ok[OF _ _ run(2)] tr_okD[OF assms(1)] tr_okD[OF assms(2)]
    by (intro clip_ok_built[OF assms(1,2) run(1), of m]) simp_all
qed

lemma cl_set_source_range_ok:
  assumes c: "clip_ok c" and s: "tr_ok s" and run: "cl_set_source_range c s = Inr c'"
  shows "clip_ok c' \<and> cl_source_range c' = s \<and> cl_record_range c' = cl_record_range c \<and> cl_id c' = cl_id c"
proof -
  note k = clip_okD[OF c]
  from run obtain ranges m where run: "cr_new s (cl_record_range c) = Inr ranges"
    "ctm_translate_source (cl_time_map c) (tr_start (cl_source_range c)) (tr_start s) = Inr m"
    "c' = c\<lparr>cl_ranges := ranges, cl_time_map := m\<rparr>" by (auto simp: cl_set_source_range_def result_simps)
  have m: "ctm_ok m" "ctm_record_duration m = tr_duration (cl_record_range c)" "ctm_source_timebase m = tr_timebase s"
    using translate_ok[OF k(3) _ _ run(2)] k(4) tr_okD[OF k(1)] tr_okD[OF s] by simp_all
  show ?thesis using clip_ok_built[OF s k(2) run(1) m, of c'] run(3) by simp
qed

lemma cl_set_record_range_ok:
  assumes c: "clip_ok c" and r: "tr_ok r" and run: "cl_set_record_range c r = Inr c'"
  shows "clip_ok c' \<and> cl_record_range c' = r \<and> cl_source_range c' = cl_source_range c \<and> cl_id c' = cl_id c
     \<and> cl_source c' = cl_source c
     \<and> (tr_timebase r = tr_timebase (cl_record_range c) \<longrightarrow> cl_time_map c' = cl_time_map c)"
proof -
  note k = clip_okD[OF c]
  from run obtain ranges m where run: "cr_new (cl_source_range c) r = Inr ranges"
    "ctm_rescale_record_clock (cl_time_map c) (tr_duration r) = Inr m"
    "c' = c\<lparr>cl_ranges := ranges, cl_time_map := m\<rparr>" by (auto simp: cl_set_record_range_def result_simps)
  have d: "du_ok (tr_duration r)" using r by (simp add: tr_ok_def)
  note m = rescale_clock_ok[OF k(3) d run(2)]
  have same: "m = cl_time_map c" if "tr_timebase r = tr_timebase (cl_record_range c)"
    using m(2) that k(4) tr_okD[OF r] tr_okD[OF k(2)] by simp
  show ?thesis using clip_ok_built[OF k(1) r run(1), of m c'] m(1) k(5) run(3) same by auto
qed

lemma cl_set_ranges_ok:
  assumes c: "clip_ok c" and s: "tr_ok s" and r: "tr_ok r" and run: "cl_set_ranges c s r = Inr c'"
  shows "clip_ok c' \<and> cl_source_range c' = s \<and> cl_record_range c' = r \<and> cl_id c' = cl_id c"
proof -
  note k = clip_okD[OF c]
  from run obtain ranges m where ranges: "cr_new s r = Inr ranges"
    and m: "(if du_eq (tr_duration (cl_record_range c)) (tr_duration r)
            then bindR (ctm_rescale_record_clock (cl_time_map c) (tr_duration r)) (\<lambda>m.
                   ctm_translate_source m (tr_start (cl_source_range c)) (tr_start s))
            else if ctm_mode (cl_time_map c) = ModeIdentity
            then ctm_identity (tr_duration r) (tr_start s)
            else Inl (invalid_model ''replace_clip_ranges''
                   ''retimed range replacement must preserve the clip duration or supply a new time map'')) = Inr m"
    and c': "c' = c\<lparr>cl_ranges := ranges, cl_time_map := m\<rparr>" unfolding cl_set_ranges_def bindR_Inr by auto
  have ok: "du_ok (tr_duration r)" "rt_ok (tr_start s)" "rt_ok (tr_start (cl_source_range c))"
    using r s k(1) by (simp_all add: tr_ok_def)
  have "ctm_ok m \<and> ctm_record_duration m = tr_duration r \<and> ctm_source_timebase m = rt_timebase (tr_start s)"
  proof (cases "du_eq (tr_duration (cl_record_range c)) (tr_duration r)")
    case True
    with m obtain m1 where m1: "ctm_rescale_record_clock (cl_time_map c) (tr_duration r) = Inr m1"
      "ctm_translate_source m1 (tr_start (cl_source_range c)) (tr_start s) = Inr m" by (auto simp: bindR_Inr)
    from rescale_clock_ok(1)[OF k(3) ok(1) m1(1)] translate_ok[OF _ ok(3,2) m1(2)] show ?thesis by simp
  next
    case False
    with m have "ctm_identity (tr_duration r) (tr_start s) = Inr m" by (auto split: if_splits)
    then show ?thesis by (rule ctm_identity_ok[OF ok(1,2)])
  qed
  then show ?thesis using clip_ok_built[OF s r ranges, of m c'] c' tr_okD[OF s] by simp
qed

lemma cl_set_time_map_ok:
  assumes c: "clip_ok c" and m: "ctm_ok m" and run: "cl_set_time_map c m = Inr c'"
  shows "clip_ok c' \<and> cl_record_range c' = cl_record_range c \<and> cl_source_range c' = cl_source_range c
     \<and> cl_id c' = cl_id c \<and> cl_time_map c' = m"
proof -
  note k = clip_okD[OF c]
  from run have b: "ctm_validate_binding m (tr_duration (cl_record_range c)) (tr_timebase (cl_source_range c)) = Inr ()"
    and c': "c' = c\<lparr>cl_time_map := m\<rparr>" by (auto simp: cl_set_time_map_def result_simps)
  have d: "du_ok (ctm_record_duration m)" "du_ok (tr_duration (cl_record_range c))"
    using m k(2) by (simp_all add: ctm_ok_def tr_ok_def)
  from b have "du_eq (ctm_record_duration m) (tr_duration (cl_record_range c))"
    "du_timebase (ctm_record_duration m) = du_timebase (tr_duration (cl_record_range c))"
    and st: "ctm_source_timebase m = tr_timebase (cl_source_range c)"
    by (auto simp: ctm_validate_binding_def split: if_splits)
  then have "ctm_record_duration m = tr_duration (cl_record_range c)"
    using du_same_timebase(1)[OF d] by (simp add: duration.equality)
  then show ?thesis
    using c c' m st by (simp add: clip_ok_def cl_source_range_def cl_record_range_def)
qed

section \<open>Mapping times between the ranges of a clip\<close>

lemma map_endpoint_exact:
  assumes f: "tr_ok f" and t: "tr_ok t" and x: "rt_ok x" and run: "map_clip_endpoint f t x = Inr y"
  shows "rt_ok y \<and> rt_timebase y = tr_timebase t \<and> secs y = secs (tr_start t) + (secs x - secs (tr_start f))"
proof -
  from run obtain o1 o2 where o: "rt_checked_sub_at x (tr_start f) (tr_timebase f) RoundExact = Inr o1"
    "rt_checked_rescale o1 (tr_timebase t) RoundExact = Inr o2"
    "rt_checked_add_at (tr_start t) o2 (tr_timebase t) RoundExact = Inr y"
    by (auto simp: map_clip_endpoint_def result_simps)
  have f': "rt_ok (tr_start f)" "tb_ok (tr_timebase f)" and t': "rt_ok (tr_start t)" "tb_ok (tr_timebase t)"
    using tr_okD[OF f] tr_okD[OF t] by simp_all
  have o1: "rt_ok o1" "secs o1 = secs x - secs (tr_start f)" using sub_exact[OF x f' o(1)] by simp_all
  have o2: "rt_ok o2" "secs o2 = secs o1" using rescale_exact[OF o1(1) t'(2)] o(2) by auto
  show ?thesis using add_exact[OF t'(1) o2(1) t'(2) o(3)] o1 o2 by simp
qed

lemma tr_end_secs_duration:
  "tr_ok r \<Longrightarrow> secs (du_rational_time (tr_duration r)) = secs (rt_new (tr_end r) (tr_timebase r)) - secs (tr_start r)"
  by (simp add: tr_end_secs)

lemma map_subrange_exact:
  assumes f: "tr_ok f" and t: "tr_ok t" and p: "tr_ok p" and run: "map_clip_subrange f t p operation = Inr q"
  shows "tr_ok q \<and> tr_timebase q = tr_timebase t
     \<and> secs (tr_start q) = secs (tr_start t) + (secs (tr_start p) - secs (tr_start f))
     \<and> secs (du_rational_time (tr_duration q)) = secs (du_rational_time (tr_duration p))"
    and "secs (tr_start f) \<le> secs (tr_start p)"
    "secs (rt_new (tr_end p) (tr_timebase p)) \<le> secs (rt_new (tr_end f) (tr_timebase f))"
proof -
  note pe = tr_end_ok[OF p] and fe = tr_end_ok[OF f]
  from run have in_: "\<not> rt_lt (tr_start p) (tr_start f)"
    "\<not> rt_lt (rt_new (tr_end f) (tr_timebase f)) (rt_new (tr_end p) (tr_timebase p))"
    by (auto simp: map_clip_subrange_def pe fe split: if_splits)
  from run in_ obtain a b where a: "map_clip_endpoint f t (tr_start p) = Inr a"
    and b: "map_clip_endpoint f t (rt_new (tr_end p) (tr_timebase p)) = Inr b"
    and q: "tr_from_start_end a b = Inr q" by (auto simp: map_clip_subrange_def pe fe result_simps split: if_splits)
  have ps: "rt_ok (tr_start p)" "rt_ok (tr_start f)" using p f by (simp_all add: tr_ok_def)
  show "secs (tr_start f) \<le> secs (tr_start p)"
    "secs (rt_new (tr_end p) (tr_timebase p)) \<le> secs (rt_new (tr_end f) (tr_timebase f))"
    using in_ ps pe(2) fe(2) by (simp_all add: rt_time.lt_seconds)
  note ae = map_endpoint_exact[OF f t ps(1) a] and be = map_endpoint_exact[OF f t pe(2) b]
  have q': "tr_ok q" "tr_start q = a" "tr_end q = rt_value b" "tr_timebase q = tr_timebase t"
    using tr_from_start_end_ok[OF _ _ q] ae be by auto
  have "rt_new (tr_end q) (tr_timebase q) = b" using q' be rt_new_eta[of b] by simp
  then show "tr_ok q \<and> tr_timebase q = tr_timebase t
     \<and> secs (tr_start q) = secs (tr_start t) + (secs (tr_start p) - secs (tr_start f))
     \<and> secs (du_rational_time (tr_duration q)) = secs (du_rational_time (tr_duration p))"
    using q'(1,2,4) ae be tr_end_secs_duration[OF q'(1)] tr_end_secs_duration[OF p] by simp
qed

lemma cl_slice_ok:
  assumes c: "clip_ok c" and r: "tr_ok r" "tr_timebase r = tr_timebase (cl_record_range c)"
    and run: "cl_slice_with_id c ident r = Inr c'"
  shows "clip_ok c' \<and> cl_record_range c' = r \<and> cl_id c' = ident \<and> cl_source c' = cl_source c
     \<and> (\<exists>w. tr_ok w \<and> tr_timebase w = tr_timebase r \<and> tr_duration w = tr_duration r
          \<and> rt_value (tr_start w) = rt_value (tr_start r) - rt_value (tr_start (cl_record_range c))
          \<and> ctm_slice (cl_time_map c) w = Inr (cl_time_map c'))"
proof -
  note k = clip_okD[OF c]
  from run obtain sr ls w m ranges where run: "cr_record_range_to_source (cl_ranges c) r = Inr sr"
    "rt_checked_sub_at (tr_start r) (tr_start (cl_record_range c)) (tr_timebase (cl_record_range c)) RoundExact = Inr ls"
    "tr_new ls (tr_duration r) = Inr w" "ctm_slice (cl_time_map c) w = Inr m" "cr_new sr r = Inr ranges"
    "c' = \<lparr>cl_id = ident, cl_name = cl_name c, cl_source = cl_source c, cl_ranges = ranges, cl_time_map = m\<rparr>"
    by (auto simp: cl_slice_with_id_def result_simps)
  have rs: "rt_ok (tr_start r)" "rt_ok (tr_start (cl_record_range c))" "du_ok (tr_duration r)"
    using r k(2) by (simp_all add: tr_ok_def)
  let ?v = "rt_value (tr_start r) - rt_value (tr_start (cl_record_range c))"
  have tb: "rt_timebase (tr_start r) = tr_timebase r" "rt_timebase (tr_start (cl_record_range c)) = tr_timebase r"
    using r(2) by (simp_all add: tr_timebase_def)
  have "in_i64 ?v \<and> ls = rt_new ?v (tr_timebase r)"
    using run(2) sub_same_timebase[OF rs(1,2) tb, of RoundExact] unfolding r(2)[symmetric] by (simp split: if_splits)
  then have ls: "ls = rt_new ?v (tr_timebase r)" "rt_ok ls" using tr_okD[OF r(1)] by (simp_all add: rt_ok_def)
  note w = tr_new_ok[OF ls(2) rs(3) run(3)]
  note m = ctm_slice_pieces[OF k(3) conjunct1[OF w] run(4)]
  have sr: "tr_ok sr" "tr_timebase sr = tr_timebase (cl_source_range c)"
    using map_subrange_exact(1)[OF k(2) k(1) r(1)] run(1)
    unfolding cr_record_range_to_source_def cl_source_range_def cl_record_range_def by blast+
  have "clip_ok c' \<and> cl_record_range c' = r"
    using clip_ok_built[OF sr(1) r(1) run(5), of m c'] m w k(5) sr(2) run(6) by simp
  then show ?thesis
    using run(4,6) w ls by (intro conjI exI[of _ w]) (simp_all add: tr_timebase_def)
qed

section \<open>What an item plays\<close>

text \<open>
  The frame an item presents at a tick of its record clock: for a clip its source and what its
  retime map resolves there, for the other items their content. A resolution that fails is no
  source time.
\<close>

datatype frame = FrameClip clip_source "(rational_time \<times> retime_resolution) option" | FrameGap
  | FrameGenerator string "(string \<times> string) list" | FrameCaption string "string option" | FrameNone

fun resolved :: "mapped_source_time result \<Rightarrow> (rational_time \<times> retime_resolution) option" where
  "resolved (Inl _) = None"
| "resolved (Inr m) = Some (mst_time m, mst_resolution m)"

fun item_frame :: "time_rounding \<Rightarrow> track_item \<Rightarrow> int \<Rightarrow> frame" where
  "item_frame rounding (IClip c) v =
     FrameClip (cl_source c) (resolved (cl_source_time_at c (rt_new v (tr_timebase (cl_record_range c))) rounding))"
| "item_frame rounding (IGap g) v = FrameGap"
| "item_frame rounding (IGenerator g) v = FrameGenerator (gn_kind g) (gn_parameters g)"
| "item_frame rounding (ICaption c) v = FrameCaption (cp_text c) (cp_language c)"
| "item_frame rounding (ITransition t) v = FrameNone"

lemma clip_resolves:
  assumes c: "clip_ok c" and v: "rt_value (tr_start (cl_record_range c)) \<le> v" "v < tr_end (cl_record_range c)"
  shows "cl_source_time_at c (rt_new v (tr_timebase (cl_record_range c))) rounding
    = ctm_source_time_at (cl_time_map c)
        (rt_new (v - rt_value (tr_start (cl_record_range c))) (tr_timebase (cl_record_range c))) rounding"
proof -
  let ?r = "cl_record_range c" and ?tb = "tr_timebase (cl_record_range c)"
  note k = clip_okD[OF c]
  note r = tr_okD[OF k(2)]
  have i: "in_i64 v" "in_i64 (v - rt_value (tr_start ?r))"
    using v k(2) by (auto simp: tr_ok_def rt_ok_def du_ok_def tr_end_def in_i64_def)
  have t: "rt_ok (rt_new v ?tb)" using i r by (simp add: rt_ok_def)
  have tb: "rt_timebase (rt_new v ?tb) = ?tb" "rt_timebase (tr_start ?r) = ?tb" using r by simp_all
  have "tr_contains ?r (rt_new v ?tb) = Inr True"
    using tr_contains_same_timebase[OF k(2) t tb(1)] v by simp
  moreover have "rt_checked_sub_at (rt_new v ?tb) (tr_start ?r) ?tb RoundExact
      = Inr (rt_new (v - rt_value (tr_start ?r)) ?tb)"
    using sub_same_timebase[OF t conjunct1[OF r] tb] i by simp
  ultimately show ?thesis by (simp add: cl_source_time_at_def)
qed

text \<open>The rounding rules whose result does not depend on where a segment starts.\<close>

definition stable_rounding :: "time_rounding \<Rightarrow> bool" where
  "stable_rounding rounding \<longleftrightarrow> rounding \<in> {RoundExact, RoundFloor, RoundCeil}"

lemma resolved_Some: "resolved a = Some (t, res)
    \<longleftrightarrow> (\<exists>i. a = Inr \<lparr>mst_time = t, mst_resolution = res, mst_segment_index = i\<rparr>)"
proof (cases a)
  case (Inr x)
  then show ?thesis by (cases x) auto
qed simp

lemma resolved_eq:
  assumes "\<And>t res. resolved a = Some (t, res) \<longleftrightarrow> resolved b = Some (t, res)"
  shows "resolved a = resolved b"
proof (cases "resolved a")
  case None
  with assms show ?thesis by (cases "resolved b") (auto simp del: resolved.simps)
next
  case (Some p)
  with assms[of "fst p" "snd p"] show ?thesis by simp
qed

lemma clip_slice_frame:
  assumes c: "clip_ok c" and r: "tr_ok r" "tr_timebase r = tr_timebase (cl_record_range c)"
    and run: "cl_slice_with_id c ident r = Inr c'" and st: "stable_rounding rounding"
    and v: "rt_value (tr_start r) \<le> v" "v < tr_end r"
    and inside: "rt_value (tr_start (cl_record_range c)) \<le> rt_value (tr_start r)" "tr_end r \<le> tr_end (cl_record_range c)"
  shows "item_frame rounding (IClip c') v = item_frame rounding (IClip c) v"
proof -
  let ?a = "rt_value (tr_start r)" and ?s = "rt_value (tr_start (cl_record_range c))"
  note sl = cl_slice_ok[OF c r run]
  then obtain w where w: "tr_ok w" "tr_timebase w = tr_timebase r" "tr_duration w = tr_duration r"
    "rt_value (tr_start w) = ?a - ?s" "ctm_slice (cl_time_map c) w = Inr (cl_time_map c')" by blast
  have c': "clip_ok c'" "cl_record_range c' = r" "cl_source c' = cl_source c" using sl by simp_all
  have r1: "cl_source_time_at c' (rt_new v (tr_timebase r)) rounding
      = ctm_source_time_at (cl_time_map c') (rt_new (v - ?a) (tr_timebase r)) rounding"
    using clip_resolves[OF c'(1), of v rounding] c'(2) v by simp
  have r2: "cl_source_time_at c (rt_new v (tr_timebase r)) rounding
      = ctm_source_time_at (cl_time_map c) (rt_new (v - ?s) (tr_timebase r)) rounding"
    using clip_resolves[OF c, of v rounding] v inside r(2) by simp
  have off: "0 \<le> v - ?a" "v - ?a < du_value (tr_duration w)" using v w(3) by (simp_all add: tr_end_def)
  have shift: "rt_value (tr_start w) + (v - ?a) = v - ?s" using w(4) by simp
  have "resolved (ctm_source_time_at (cl_time_map c') (rt_new (v - ?a) (tr_timebase r)) rounding)
      = resolved (ctm_source_time_at (cl_time_map c) (rt_new (v - ?s) (tr_timebase r)) rounding)"
    using ctm_slice_query[OF clip_okD(3)[OF c] w(1,5) off, of rounding] st
    unfolding shift w(2) stable_rounding_def by (intro resolved_eq) (simp add: resolved_Some)
  then show ?thesis using c' r1 r2 r(2) by simp
qed

section \<open>Items under the edit helpers\<close>

text \<open>\<open>y\<close> covers the ticks from \<open>a\<close> to \<open>b\<close> and plays there what \<open>x\<close> plays \<open>k\<close> ticks earlier.\<close>

definition plays_part :: "timebase \<Rightarrow> track_item \<Rightarrow> int \<Rightarrow> track_item \<Rightarrow> int \<Rightarrow> int \<Rightarrow> bool" where
  "plays_part tb x k y a b \<longleftrightarrow> item_ok tb y \<and> item_start y = a \<and> item_stop y = b
     \<and> item_start x \<le> a - k \<and> b - k \<le> item_stop x
     \<and> (\<forall>rounding v. stable_rounding rounding \<longrightarrow> a \<le> v \<longrightarrow> v < b
          \<longrightarrow> item_frame rounding y v = item_frame rounding x (v - k))"

lemma plays_part_refl: "item_ok tb x \<Longrightarrow> plays_part tb x 0 x (item_start x) (item_stop x)"
  by (simp add: plays_part_def)

lemma plays_part_trans:
  "plays_part tb x k y a b \<Longrightarrow> plays_part tb y j z c d \<Longrightarrow> plays_part tb x (k + j) z c d"
  by (auto simp: plays_part_def algebra_simps)

lemma set_range_other:
  assumes "item_ok tb x" "\<forall>c. x \<noteq> IClip c" "tr_ok r" "tr_timebase r = tb" "set_record_range x r operation = Inr y"
  shows "item_ok tb y \<and> timed_range y = r \<and> item_frame rounding y v = item_frame rounding x w \<and> item_id y = item_id x"
  using assms by (cases x) auto

lemma clone_other:
  assumes "item_ok tb x" "\<forall>c. x \<noteq> IClip c" "clone_with_id x ident operation = Inr y"
  shows "item_ok tb y \<and> timed_range y = timed_range x \<and> item_frame rounding y v = item_frame rounding x v
     \<and> item_id y = ident \<and> (\<forall>c. y \<noteq> IClip c)"
  using assms by (cases x; cases ident) auto

text \<open>The last part of \<open>slice_item\<close>, once the new range is known.\<close>

definition slice_part :: "track_item \<Rightarrow> time_range \<Rightarrow> editorial_object_id \<Rightarrow> string \<Rightarrow> track_item result" where
  "slice_part x q ident operation =
     (case x of
        IClip c \<Rightarrow>
          (case ident of
             OClip new_id \<Rightarrow> mapR IClip (cl_slice_with_id c new_id q)
           | _ \<Rightarrow> Inl (invalid_edit operation
               ''fragment identity must have the same typed domain as its original object''))
      | _ \<Rightarrow> bindR (clone_with_id x ident operation) (\<lambda>sliced. set_record_range sliced q operation))"

lemma slice_part_clip:
  "slice_part (IClip c) q ident operation = Inr y
    \<Longrightarrow> \<exists>i c'. ident = OClip i \<and> cl_slice_with_id c i q = Inr c' \<and> y = IClip c'"
  by (cases ident) (auto simp: slice_part_def result_simps)

lemma slice_part_other:
  "slice_part x q ident operation = Inr y \<Longrightarrow> \<forall>c. x \<noteq> IClip c
    \<Longrightarrow> \<exists>z. clone_with_id x ident operation = Inr z \<and> set_record_range z q operation = Inr y"
  by (cases x) (auto simp: slice_part_def result_simps)

lemma slice_item_plays:
  assumes x: "item_ok tb x" and ab: "in_i64 a" "in_i64 b"
    and run: "slice_item x (rt_new a tb) (rt_new b tb) ident operation = Inr y"
  shows "plays_part tb x 0 y a b \<and> a \<le> b \<and> item_id y = ident"
proof -
  note r = item_ok_range[OF x] and e = item_range_eq[OF x]
  have ok: "rt_ok (rt_new a tb)" "rt_ok (rt_new b tb)" using ab r by (simp_all add: rt_ok_def)
  have in1: "\<not> rt_lt (rt_new a tb) (tr_start (timed_range x))"
    "\<not> rt_lt (rt_new (item_stop x) tb) (rt_new b tb)" "\<not> rt_lt (rt_new b tb) (rt_new a tb)"
    using run r(1) e by (auto simp: slice_item_def split: if_splits)
  then have in2: "item_start x \<le> a" "b \<le> item_stop x" "a \<le> b"
    using rt_same_timebase(2)[OF ok(1) e(3)] rt_same_timebase(2)[OF e(4) ok(2)] rt_same_timebase(2)[OF ok(2,1)] e(1)
    by auto
  have tbs: "tr_timebase (timed_range x) = tb" "tr_start (timed_range x) = rt_new (item_start x) tb" using r e by simp_all
  have "slice_item x (rt_new a tb) (rt_new b tb) ident operation =
     bindR (tr_from_start_end (rt_new a tb) (rt_new b tb)) (\<lambda>new_range. slice_part x new_range ident operation)"
    using r(1) e(2) in1 by (simp add: slice_item_def slice_part_def tbs(1) cong: track_item.case_cong)
  with run obtain q where q: "tr_from_start_end (rt_new a tb) (rt_new b tb) = Inr q"
    "slice_part x q ident operation = Inr y" by (auto simp: result_simps)
  have qq: "tr_ok q" "rt_value (tr_start q) = a" "tr_end q = b" "tr_timebase q = tb"
    using tr_from_start_end_ok[OF ok q(1)] by auto
  show ?thesis
  proof (cases "\<exists>c. x = IClip c")
    case True
    then obtain c i c' where c: "x = IClip c" "ident = OClip i" "cl_slice_with_id c i q = Inr c'" "y = IClip c'"
      using slice_part_clip q(2) by blast
    have co: "clip_ok c" "tr_timebase q = tr_timebase (cl_record_range c)" using x c qq by simp_all
    have "item_frame rounding y v = item_frame rounding x v"
      if "stable_rounding rounding" "a \<le> v" "v < b" for rounding v
      using clip_slice_frame[OF co(1) qq(1) co(2) c(3) that(1), of v] that qq in2 c
      by (simp add: item_start_def item_stop_def)
    then show ?thesis
      using cl_slice_ok[OF co(1) qq(1) co(2) c(3)] c qq in2 co
      by (auto simp: plays_part_def item_start_def item_stop_def)
  next
    case False
    then obtain z where z: "clone_with_id x ident operation = Inr z" "set_record_range z q operation = Inr y"
      using slice_part_other[OF q(2)] by auto
    have cl: "item_ok tb z" "\<forall>c. z \<noteq> IClip c" "item_id z = ident" "\<And>rounding v. item_frame rounding z v = item_frame rounding x v"
      using clone_other[OF x _ z(1)] False by blast+
    from set_range_other[OF cl(1,2) qq(1,4) z(2)] cl(3,4) show ?thesis
      using in2 qq by (auto simp: plays_part_def item_start_def item_stop_def)
  qed
qed

lemma set_range_ok:
  assumes x: "item_ok tb x" and r: "tr_ok r" "tr_timebase r = tb'"
    and run: "set_record_range x r operation = Inr y"
  shows "item_ok tb' y \<and> timed_range y = r \<and> item_id y = item_id x"
proof (cases x)
  case (IClip c)
  with run obtain c' where c': "cl_set_record_range c r = Inr c'" "y = IClip c'" by (auto simp: result_simps)
  show ?thesis using cl_set_record_range_ok[OF _ r(1) c'(1)] x IClip c'(2) r(2) by auto
qed (use assms in auto)

lemma move_plays:
  assumes x: "item_ok tb x" and r: "tr_new (rt_new (item_start x + k) tb) (tr_duration (timed_range x)) = Inr r"
    and k: "in_i64 (item_start x + k)" and run: "set_record_range x r operation = Inr y"
  shows "plays_part tb x k y (item_start x + k) (item_stop x + k) \<and> item_id y = item_id x"
proof -
  note xr = item_ok_range[OF x] and e = item_range_eq[OF x]
  have s: "rt_ok (rt_new (item_start x + k) tb)" using k xr(4) by (simp add: rt_ok_def)
  have d: "du_ok (tr_duration (timed_range x))" using xr(2) by (simp add: tr_ok_def)
  note rr = tr_new_ok[OF s d r]
  have tb: "tr_timebase r = tb" using rr by (simp add: tr_timebase_def)
  have stop: "tr_end r = item_stop x + k" using rr e(5) by (simp add: tr_end_def)
  note y = set_range_ok[OF x conjunct1[OF rr] tb run]
  have "item_frame rounding y v = item_frame rounding x (v - k)"
    if v: "item_start x + k \<le> v" "v < item_stop x + k" for rounding v
  proof (cases "\<exists>c. x = IClip c")
    case False
    then show ?thesis using set_range_other[OF x _ conjunct1[OF rr] tb run] by blast
  next
    case True
    then obtain c c' where c: "x = IClip c" "cl_set_record_range c r = Inr c'" "y = IClip c'"
      using run by (auto simp: result_simps)
    have co: "clip_ok c" "tr_timebase (cl_record_range c) = tb" using x c by simp_all
    note c' = cl_set_record_range_ok[OF co(1) conjunct1[OF rr] c(2)]
    have "cl_source_time_at c' (rt_new v tb) rounding = cl_source_time_at c (rt_new (v - k) tb) rounding"
      using clip_resolves[OF conjunct1[OF c'], of v rounding] clip_resolves[OF co(1), of "v - k" rounding]
        c' co v rr stop tb c by (simp add: item_start_def item_stop_def algebra_simps)
    then show ?thesis using c c' co tb by simp
  qed
  then show ?thesis using y rr stop by (simp add: plays_part_def item_start_def item_stop_def)
qed

lemma shift_by_plays:
  assumes x: "item_ok tb x" and d: "rt_ok (rt_new k tb)"
    and run: "shift_item_by x (rt_new k tb) tb operation = Inr y"
  shows "plays_part tb x k y (item_start x + k) (item_stop x + k) \<and> item_id y = item_id x"
proof -
  note e = item_range_eq[OF x]
  from run obtain s r where s: "rt_checked_add_at (rt_new (item_start x) tb) (rt_new k tb) tb RoundExact = Inr s"
    and r: "tr_new s (tr_duration (timed_range x)) = Inr r" "set_record_range x r operation = Inr y"
    by (auto simp: shift_item_by_def reposition_item_def result_simps e(1))
  have "in_i64 (item_start x + k) \<and> s = rt_new (item_start x + k) tb"
    using s add_same_timebase[OF e(3) d, of tb RoundExact] by (simp split: if_splits)
  then show ?thesis using move_plays[OF x _ _ r(2)] r(1) by simp
qed

lemma shift_right_plays:
  assumes x: "item_ok tb x" and d: "du_ok d" "du_timebase d = tb" and run: "shift_item_right x d tb operation = Inr y"
  shows "plays_part tb x (du_value d) y (item_start x + du_value d) (item_stop x + du_value d) \<and> item_id y = item_id x"
proof -
  have "du_rational_time d = rt_new (du_value d) tb" using du_rational_simps[of d] d
    by (auto intro: rational_time.equality)
  moreover have "rt_ok (rt_new (du_value d) tb)" using du_rational_ok[OF d(1)] calculation by simp
  moreover have "shift_item_by x (du_rational_time d) tb operation = Inr y"
    using run by (simp add: shift_item_right_def shift_item_by_def)
  ultimately show ?thesis using shift_by_plays[OF x, of "du_value d"] by simp
qed

lemma shift_left_plays:
  assumes x: "item_ok tb x" and d: "du_ok d" "du_timebase d = tb" and run: "shift_item_left x d tb operation = Inr y"
  shows "plays_part tb x (- du_value d) y (item_start x - du_value d) (item_stop x - du_value d) \<and> item_id y = item_id x"
proof -
  note e = item_range_eq[OF x]
  have dr: "du_rational_time d = rt_new (du_value d) tb" using du_rational_simps[of d] d
    by (auto intro: rational_time.equality)
  have dok: "rt_ok (rt_new (du_value d) tb)" using du_rational_ok[OF d(1)] dr by simp
  from run obtain s r where s: "rt_checked_sub_at (rt_new (item_start x) tb) (rt_new (du_value d) tb) tb RoundExact = Inr s"
    and r: "tr_new s (tr_duration (timed_range x)) = Inr r" "set_record_range x r operation = Inr y"
    by (auto simp: shift_item_left_def reposition_item_def result_simps e(1) dr)
  have "in_i64 (item_start x - du_value d) \<and> s = rt_new (item_start x - du_value d) tb"
    using s sub_same_timebase[OF e(3) dok, of tb RoundExact] by (simp split: if_splits)
  then show ?thesis using move_plays[OF x, of "- du_value d" r operation y] r by simp
qed

text \<open>Material is placed at a point with the same physical duration, on the track's clock.\<close>

lemma normalize_ok:
  assumes x: "item_ok tb' x" and p: "rt_ok (rt_new a tb)"
    and run: "normalize_material x (rt_new a tb) tb operation = Inr y"
  shows "item_ok tb y \<and> item_start y = a \<and> a < item_stop y \<and> item_id y = item_id x
     \<and> secs (du_rational_time (tr_duration (timed_range y))) = secs (du_rational_time (tr_duration (timed_range x)))"
proof -
  note r = item_ok_range[OF x]
  from run r(1) obtain d q where d: "du_checked_rescale (tr_duration (timed_range x)) tb RoundExact = Inr d"
    "\<not> du_is_zero d" and q: "tr_new (rt_new a tb) d = Inr q" "set_record_range x q operation = Inr y"
    by (auto simp: normalize_material_def reposition_item_def exact_duration_at_def with_error_context_def
      result_simps split: if_splits)
  have tb: "tb_ok tb" using p by (simp add: rt_ok_def)
  have dok: "du_ok d" "du_timebase d = tb"
    "secs (du_rational_time d) = secs (du_rational_time (tr_duration (timed_range x)))"
    using du_rescale_exact[OF _ tb d(1)] r(2) by (simp_all add: tr_ok_def)
  note qq = tr_new_ok[OF p dok(1) q(1)]
  have "0 < du_value d" using d(2) dok(1) by (simp add: du_is_zero_def du_ok_def)
  then show ?thesis
    using set_range_ok[OF x conjunct1[OF qq] _ q(2), of tb] qq dok
    by (auto simp: item_start_def item_stop_def tr_end_def tr_timebase_def)
qed

lemma trim_item_ok:
  assumes x: "item_ok tb x" and r: "tr_ok r" "tr_timebase r = tb"
    and run: "trim_item x r side operation = Inr y"
  shows "item_ok tb y \<and> timed_range y = r \<and> item_id y = item_id x"
proof (cases "\<exists>c. x = IClip c")
  case False
  then have "set_record_range x r operation = Inr y" using run item_ok_range(1)[OF x]
    by (cases x) (auto simp: trim_item_def)
  then show ?thesis by (rule set_range_ok[OF x r])
next
  case True
  then obtain c where c: "x = IClip c" by blast
  have co: "clip_ok c" "tr_timebase (cl_record_range c) = tb" using x c by simp_all
  note k = clip_okD[OF co(1)] and sr = tr_okD[OF clip_okD(1)[OF co(1)]] and rr = tr_okD[OF clip_okD(2)[OF co(1)]]
  let ?start = "case side of
      SideStart \<Rightarrow> bindR (rt_checked_sub_at (tr_start r) (tr_start (cl_record_range c)) (tr_timebase (cl_record_range c)) RoundExact)
        (\<lambda>record_offset. bindR (rt_checked_rescale record_offset (tr_timebase (cl_source_range c)) RoundExact)
        (\<lambda>source_offset. rt_checked_add_at (tr_start (cl_source_range c)) source_offset (tr_timebase (cl_source_range c)) RoundExact))
    | SideEnd \<Rightarrow> Inr (tr_start (cl_source_range c))"
  from run c obtain s d q c' where s: "?start = Inr s"
    and d: "exact_duration_at (tr_duration r) (tr_timebase (cl_source_range c)) operation = Inr d"
    and q: "tr_new s d = Inr q" and c': "cl_set_ranges c q r = Inr c'" "y = IClip c'"
    by (auto simp: trim_item_def Let_def bindR_Inr mapR_Inr cong: edit_side.case_cong)
  have sok: "rt_ok s"
  proof (cases side)
    case SideEnd
    with s sr show ?thesis by simp
  next
    case SideStart
    with s obtain o1 o2 where o: "rt_checked_sub_at (tr_start r) (tr_start (cl_record_range c)) (tr_timebase (cl_record_range c)) RoundExact = Inr o1"
      "rt_checked_rescale o1 (tr_timebase (cl_source_range c)) RoundExact = Inr o2"
      "rt_checked_add_at (tr_start (cl_source_range c)) o2 (tr_timebase (cl_source_range c)) RoundExact = Inr s"
      by (auto simp: bindR_Inr)
    have "rt_ok o1" using sub_exact[OF _ _ _ o(1)] tr_okD[OF r(1)] rr by simp
    with o(2) have "rt_ok o2" using rescale_exact[of o1 "tr_timebase (cl_source_range c)" o2] sr by simp
    with add_exact[OF _ _ _ o(3)] sr show ?thesis by simp
  qed
  have "du_ok d" using d du_rescale_exact[of "tr_duration r" "tr_timebase (cl_source_range c)" d] tr_okD[OF r(1)] sr
    by (simp add: exact_duration_at_def with_error_context_def map_errR_Inr)
  from tr_new_ok[OF sok this q] have "tr_ok q" by simp
  from cl_set_ranges_ok[OF co(1) this r(1) c'(1)] show ?thesis using c c'(2) r(2) by simp
qed

end
