(* ===== verification/Tiling.thy ===== *)
theory Tiling
  imports Prelude "HOL-Library.Multiset"
begin

text \<open>
  Lists of items that tile an interval of integer ticks: each item starts where the previous
  one stops. The locale \<open>tiling\<close> is the contract of such items (they do not stop before they
  start); inside it, what a tiling shows at a tick, and the removal of an interval from a
  tiling with the rest moved by an offset, which is what every insertion and range replacement
  of an edit does.
\<close>

section \<open>Chains\<close>

fun chain :: "('a \<Rightarrow> int) \<Rightarrow> ('a \<Rightarrow> int) \<Rightarrow> int \<Rightarrow> 'a list \<Rightarrow> int \<Rightarrow> bool" where
  "chain start stop a [] b \<longleftrightarrow> a = b"
| "chain start stop a (x # xs) b \<longleftrightarrow> start x = a \<and> chain start stop (stop x) xs b"

text \<open>What the first item that covers a tick shows there.\<close>

definition shown :: "('a \<Rightarrow> int) \<Rightarrow> ('a \<Rightarrow> int) \<Rightarrow> ('a \<Rightarrow> int \<Rightarrow> 'f) \<Rightarrow> 'a list \<Rightarrow> int \<Rightarrow> 'f option" where
  "shown start stop frame xs v = map_option (\<lambda>x. frame x v) (find (\<lambda>x. start x \<le> v \<and> v < stop x) xs)"

lemma chain_append:
  "chain start stop a (xs @ ys) c \<longleftrightarrow> (\<exists>b. chain start stop a xs b \<and> chain start stop b ys c)"
  by (induction xs arbitrary: a) auto

lemma chain_functional: "chain start stop a xs b \<Longrightarrow> chain start stop a xs c \<Longrightarrow> b = c"
  by (induction xs arbitrary: a) auto

lemma shown_Nil [simp]: "shown start stop frame [] v = None"
  by (simp add: shown_def)

lemma shown_Cons:
  "shown start stop frame (x # xs) v
    = (if start x \<le> v \<and> v < stop x then Some (frame x v) else shown start stop frame xs v)"
  by (simp add: shown_def)

text \<open>A stable sort puts a last item behind those that start no later and before the rest.\<close>

lemma sort_key_last:
  fixes f :: "'a \<Rightarrow> 'b::linorder"
  assumes "sorted (map f L)" "sorted (map f R)" "\<forall>x\<in>set L. f x \<le> f m" "\<forall>x\<in>set R. f m < f x"
  shows "sort_key f (L @ R @ [m]) = L @ m # R"
proof (rule properties_for_sort_key)
  show "mset (L @ m # R) = mset (L @ R @ [m])" by simp
  show "sorted (map f (L @ m # R))" using assms by (force simp: sorted_append)
  show "filter (\<lambda>x. f k = f x) (L @ m # R) = filter (\<lambda>x. f k = f x) (L @ R @ [m])" for k
  proof (cases "f k = f m")
    case True
    then have "filter (\<lambda>x. f k = f x) R = []" using assms(4) by (force simp: filter_empty_conv)
    then show ?thesis using True by simp
  qed simp
qed

section \<open>The interface\<close>

locale tiling =
  fixes ok :: "'a \<Rightarrow> bool"
    and start :: "'a \<Rightarrow> int"
    and stop :: "'a \<Rightarrow> int"
    and frame :: "'a \<Rightarrow> int \<Rightarrow> 'f"
  assumes ordered: "ok x \<Longrightarrow> start x \<le> stop x"
begin

lemma chain_le: "\<forall>x\<in>set xs. ok x \<Longrightarrow> chain start stop a xs b \<Longrightarrow> a \<le> b"
proof (induction xs arbitrary: a)
  case (Cons y ys)
  then have "stop y \<le> b" "start y = a" "start y \<le> stop y" using ordered[of y] by auto
  then show ?case by simp
qed simp

lemma chain_bounds:
  "\<forall>x\<in>set xs. ok x \<Longrightarrow> chain start stop a xs b \<Longrightarrow> x \<in> set xs \<Longrightarrow> a \<le> start x \<and> stop x \<le> b"
proof (induction xs arbitrary: a)
  case (Cons y ys)
  then have "stop y \<le> b" "start y \<le> stop y" using chain_le[of ys "stop y" b] ordered[of y] by auto
  with Cons.prems Cons.IH[of "stop y"] show ?case by auto
qed simp

lemma chain_sorted: "\<forall>x\<in>set xs. ok x \<Longrightarrow> chain start stop a xs b \<Longrightarrow> sorted (map start xs)"
proof (induction xs arbitrary: a)
  case (Cons y ys)
  then have "start y \<le> stop y" "chain start stop (stop y) ys b" using ordered[of y] by auto
  moreover have "\<forall>x\<in>set ys. stop y \<le> start x" using chain_bounds[of ys "stop y" b] Cons.prems by auto
  ultimately show ?case using Cons by force
qed simp

lemma shown_before: "\<forall>x\<in>set xs. ok x \<Longrightarrow> chain start stop a xs b \<Longrightarrow> v < a \<Longrightarrow> shown start stop frame xs v = None"
  using chain_bounds[of xs a b] by (fastforce simp: shown_def find_None_iff)

lemma shown_after: "\<forall>x\<in>set xs. ok x \<Longrightarrow> chain start stop a xs b \<Longrightarrow> b \<le> v \<Longrightarrow> shown start stop frame xs v = None"
  using chain_bounds[of xs a b] by (fastforce simp: shown_def find_None_iff)

lemma shown_append:
  assumes "\<forall>x\<in>set (xs @ ys). ok x" "chain start stop a xs b" "chain start stop b ys c"
  shows "shown start stop frame (xs @ ys) v
    = (if v < b then shown start stop frame xs v else shown start stop frame ys v)"
proof (cases "v < b")
  case True
  have "shown start stop frame ys v = None" using shown_before[of ys b c v] assms True by simp
  moreover have "shown start stop frame (xs @ ys) v = (case shown start stop frame xs v of None \<Rightarrow> shown start stop frame ys v | Some f \<Rightarrow> Some f)"
    by (induction xs) (auto simp: shown_Cons)
  ultimately show ?thesis using True by (auto split: option.splits)
next
  case False
  have "shown start stop frame xs v = None" using shown_after[of xs a b v] assms False by simp
  moreover have "shown start stop frame (xs @ ys) v = (case shown start stop frame xs v of None \<Rightarrow> shown start stop frame ys v | Some f \<Rightarrow> Some f)"
    by (induction xs) (auto simp: shown_Cons)
  ultimately show ?thesis using False by (auto split: option.splits)
qed

text \<open>Every tick of the interval shows something: that is what covering without a gap means.\<close>

lemma shown_covered:
  "\<forall>x\<in>set xs. ok x \<Longrightarrow> chain start stop a xs b \<Longrightarrow> a \<le> v \<Longrightarrow> v < b
    \<Longrightarrow> \<exists>x\<in>set xs. start x \<le> v \<and> v < stop x \<and> shown start stop frame xs v = Some (frame x v)"
proof (induction xs arbitrary: a)
  case (Cons y ys)
  show ?case
  proof (cases "v < stop y")
    case True
    with Cons.prems show ?thesis by (auto simp: shown_Cons)
  next
    case False
    with Cons.prems Cons.IH[of "stop y"] show ?thesis by (auto simp: shown_Cons)
  qed
qed simp

text \<open>
  The interval from \<open>a\<close> to \<open>b\<close> taken out of a tiling of \<open>s\<close> to \<open>e\<close>, what follows moved by \<open>k\<close>:
  \<open>L\<close> is what stays before, \<open>R\<close> what stays after.
\<close>

definition cut_out :: "int \<Rightarrow> int \<Rightarrow> int \<Rightarrow> 'a list \<Rightarrow> int \<Rightarrow> int \<Rightarrow> 'a list \<Rightarrow> 'a list \<Rightarrow> bool" where
  "cut_out a b k xs s e L R \<longleftrightarrow>
     (\<forall>x\<in>set L. ok x \<and> start x \<le> a) \<and> (\<forall>x\<in>set R. ok x)
     \<and> chain start stop (min s a) L (min e a) \<and> chain start stop (max s b + k) R (max e b + k)
     \<and> (\<forall>v. s \<le> v \<longrightarrow> v < e \<longrightarrow> (v < a \<longrightarrow> shown start stop frame L v = shown start stop frame xs v)
          \<and> (b \<le> v \<longrightarrow> shown start stop frame R (v + k) = shown start stop frame xs v))"

text \<open>As the loops build it: nothing is put before the cut any more once its end was passed.\<close>

definition cut_loop :: "int \<Rightarrow> int \<Rightarrow> int \<Rightarrow> 'a list \<Rightarrow> int \<Rightarrow> int \<Rightarrow> 'a list \<Rightarrow> 'a list \<Rightarrow> bool" where
  "cut_loop a b k xs s e L R \<longleftrightarrow> cut_out a b k xs s e L R \<and> (b \<le> s \<longrightarrow> L = []) \<and> (R \<noteq> [] \<longrightarrow> b \<le> e)"

lemma cut_loop_Nil: "cut_loop a b k [] s s [] []"
  by (simp add: cut_loop_def cut_out_def)

lemma cut_loop_append:
  assumes ab: "a \<le> b" and ok: "\<forall>x\<in>set (xs @ ys). ok x"
    and ch: "chain start stop s xs m" "chain start stop m ys e"
    and c1: "cut_loop a b k xs s m l r" and c2: "cut_loop a b k ys m e L R"
  shows "cut_loop a b k (xs @ ys) s e (l @ L) (r @ R) \<and> l @ r @ L @ R = (l @ L) @ (r @ R)"
proof -
  have le: "s \<le> m" "m \<le> e" using chain_le[of xs s m] chain_le[of ys m e] ok ch by auto
  have rL: "r = [] \<or> L = []" using c1 c2 le by (auto simp: cut_loop_def cut_out_def)
  have lL: "\<forall>x\<in>set (l @ L). ok x" "chain start stop (min s a) l (min m a)" "chain start stop (min m a) L (min e a)"
    using c1 c2 by (auto simp: cut_loop_def cut_out_def)
  have rR: "\<forall>x\<in>set (r @ R). ok x" "chain start stop (max s b + k) r (max m b + k)" "chain start stop (max m b + k) R (max e b + k)"
    using c1 c2 by (auto simp: cut_loop_def cut_out_def)
  have front: "shown start stop frame (l @ L) v = shown start stop frame (xs @ ys) v" if "s \<le> v" "v < e" "v < a" for v
    using shown_append[OF lL] shown_append[OF ok ch] c1 c2 that by (auto simp: cut_loop_def cut_out_def)
  have rear: "shown start stop frame (r @ R) (v + k) = shown start stop frame (xs @ ys) v" if "s \<le> v" "v < e" "b \<le> v" for v
    using shown_append[OF rR] shown_append[OF ok ch] c1 c2 that by (auto simp: cut_loop_def cut_out_def)
  have "chain start stop (min s a) (l @ L) (min e a)" "chain start stop (max s b + k) (r @ R) (max e b + k)"
    using lL rR by (auto simp: chain_append)
  moreover have "(b \<le> s \<longrightarrow> l @ L = [])" "(r @ R \<noteq> [] \<longrightarrow> b \<le> e)"
    using c1 c2 le by (auto simp: cut_loop_def cut_out_def)
  moreover have "\<forall>x\<in>set (l @ L). ok x \<and> start x \<le> a" using c1 c2 by (auto simp: cut_loop_def cut_out_def)
  ultimately have "cut_loop a b k (xs @ ys) s e (l @ L) (r @ R)"
    using rR(1) front rear by (auto simp: cut_loop_def cut_out_def)
  then show ?thesis using rL by auto
qed

text \<open>The whole edit: the remains around a new item, sorted by start.\<close>

lemma cut_out_fill:
  assumes ok: "\<forall>x\<in>set xs. ok x" "ok m" and ch: "chain start stop s xs e" and cut: "cut_out a b k xs s e L R"
    and m: "start m = a" "stop m = b + k" "a < b + k" and inside: "s \<le> a" "a \<le> b" "b \<le> e"
  shows "sort_key start (L @ R @ [m]) = L @ m # R"
    "chain start stop s (L @ m # R) (e + k)" "\<forall>x\<in>set (L @ m # R). ok x"
    "\<And>v. s \<le> v \<Longrightarrow> v < e + k \<Longrightarrow> shown start stop frame (L @ m # R) v
      = (if v < a then shown start stop frame xs v else if v < b + k then Some (frame m v)
         else shown start stop frame xs (v - k))"
proof -
  have L: "\<forall>x\<in>set L. ok x" "chain start stop s L a" "\<forall>x\<in>set L. start x \<le> a"
    using cut inside by (auto simp: cut_out_def min.absorb1 min.absorb2)
  have R: "\<forall>x\<in>set R. ok x" "chain start stop (b + k) R (e + k)" using cut inside by (auto simp: cut_out_def max.absorb1 max.absorb2)
  show "sort_key start (L @ R @ [m]) = L @ m # R"
    using chain_sorted[OF L(1,2)] chain_sorted[OF R] L(3) chain_bounds[OF R] m
    by (intro sort_key_last) fastforce+
  have mR: "chain start stop a (m # R) (e + k)" using R(2) m by simp
  show "chain start stop s (L @ m # R) (e + k)" using L(2) mR by (auto simp: chain_append)
  show ok': "\<forall>x\<in>set (L @ m # R). ok x" using L R ok by auto
  fix v assume v: "s \<le> v" "v < e + k"
  have "shown start stop frame (L @ m # R) v = (if v < a then shown start stop frame L v else shown start stop frame (m # R) v)"
    by (rule shown_append[OF ok' L(2) mR])
  moreover have "v < a \<Longrightarrow> shown start stop frame L v = shown start stop frame xs v"
    using cut v inside by (auto simp: cut_out_def)
  moreover have "b + k \<le> v \<Longrightarrow> shown start stop frame R v = shown start stop frame xs (v - k)"
    using cut v inside unfolding cut_out_def by (metis diff_add_cancel diff_less_eq inside(1,2) le_diff_eq order_trans)
  ultimately show "shown start stop frame (L @ m # R) v
      = (if v < a then shown start stop frame xs v else if v < b + k then Some (frame m v)
         else shown start stop frame xs (v - k))"
    using m by (auto simp: shown_Cons)
qed

text \<open>The remains closed up, with nothing put in.\<close>

lemma cut_out_close:
  assumes ok: "\<forall>x\<in>set xs. ok x" and ch: "chain start stop s xs e" and cut: "cut_out a b (a - b) xs s e L R"
    and inside: "s \<le> a" "a \<le> b" "b \<le> e"
  shows "sort_key start (L @ R) = L @ R"
    "chain start stop s (L @ R) (e + (a - b))" "\<forall>x\<in>set (L @ R). ok x"
    "\<And>v. s \<le> v \<Longrightarrow> v < e + (a - b) \<Longrightarrow> shown start stop frame (L @ R) v
      = (if v < a then shown start stop frame xs v else shown start stop frame xs (v + (b - a)))"
proof -
  have L: "\<forall>x\<in>set L. ok x" "chain start stop s L a"
    using cut inside by (auto simp: cut_out_def min.absorb1 min.absorb2)
  have R: "\<forall>x\<in>set R. ok x" "chain start stop a R (e + (a - b))" using cut inside by (auto simp: cut_out_def max.absorb1 max.absorb2)
  show all: "chain start stop s (L @ R) (e + (a - b))" using L(2) R(2) by (auto simp: chain_append)
  show ok': "\<forall>x\<in>set (L @ R). ok x" using L R by auto
  show "sort_key start (L @ R) = L @ R" using chain_sorted[OF ok' all] by (rule sort_key_id_if_sorted)
  fix v assume v: "s \<le> v" "v < e + (a - b)"
  have "shown start stop frame (L @ R) v = (if v < a then shown start stop frame L v else shown start stop frame R v)"
    by (rule shown_append[OF ok' L(2) R(2)])
  moreover have "v < a \<Longrightarrow> shown start stop frame L v = shown start stop frame xs v"
    using cut v inside by (auto simp: cut_out_def)
  moreover have "shown start stop frame R v = shown start stop frame xs (v + (b - a))" if "a \<le> v"
  proof -
    have "s \<le> v + (b - a)" "v + (b - a) < e" "b \<le> v + (b - a)" using that v inside by auto
    then have "shown start stop frame R (v + (b - a) + (a - b)) = shown start stop frame xs (v + (b - a))"
      using cut by (auto simp: cut_out_def)
    then show ?thesis by simp
  qed
  ultimately show "shown start stop frame (L @ R) v
      = (if v < a then shown start stop frame xs v else shown start stop frame xs (v + (b - a)))" by auto
qed

end

end
