(* ===== verification/TrackLaws.thy ===== *)
theory TrackLaws
  imports ItemLaws Tiling
begin

text \<open>
  The track operations on a well-formed track: its timed items tile the record clock from zero
  to the end of the track. The loops of insert and of the range replacements are cuts of that
  tiling, and the rebuilding of transitions leaves the timed items alone.
\<close>

abbreviation tiles :: "int \<Rightarrow> track_item list \<Rightarrow> int \<Rightarrow> bool" where
  "tiles \<equiv> chain item_start item_stop"

abbreviation frame_at :: "time_rounding \<Rightarrow> track_item list \<Rightarrow> int \<Rightarrow> frame option" where
  "frame_at rounding \<equiv> shown item_start item_stop (item_frame rounding)"

interpretation track_tiles: tiling "item_ok tb" item_start item_stop "item_frame rounding" for tb rounding
  by unfold_locales (rule item_ok_range(5))

section \<open>One item of a loop\<close>

lemma shown_single: "shown start stop frame [x] v = (if start x \<le> v \<and> v < stop x then Some (frame x v) else None)"
  by (simp add: shown_def)

lemma keep_before:
  assumes "item_ok tb x" "item_start x \<le> a" "item_stop x \<le> a" "a \<le> b" "b \<le> item_start x \<longrightarrow> False"
  shows "track_tiles.cut_loop tb rounding a b k [x] (item_start x) (item_stop x) [x] []"
  using assms item_ok_range(5)[OF assms(1)] by (auto simp: track_tiles.cut_loop_def track_tiles.cut_out_def min_def max_def shown_single)

lemma move_after:
  assumes "item_ok tb x" "b \<le> item_start x" "a \<le> b" "stable_rounding rounding"
    "plays_part tb x k y (item_start x + k) (item_stop x + k)"
  shows "track_tiles.cut_loop tb rounding a b k [x] (item_start x) (item_stop x) [] [y]"
  using assms item_ok_range(5)[OF assms(1)]
  by (auto simp: track_tiles.cut_loop_def track_tiles.cut_out_def plays_part_def min_def max_def shown_single)

lemma drop_inside:
  assumes "item_ok tb x" "a \<le> item_start x" "item_stop x \<le> b" "a < b" "a < item_stop x"
  shows "track_tiles.cut_loop tb rounding a b k [x] (item_start x) (item_stop x) [] []"
  using assms item_ok_range(5)[OF assms(1)] by (auto simp: track_tiles.cut_loop_def track_tiles.cut_out_def min_def max_def shown_single)

lemma keep_left_part:
  assumes "item_ok tb x" "item_start x < a" "a < item_stop x" "item_stop x \<le> b" "stable_rounding rounding"
    "plays_part tb x 0 l (item_start x) a"
  shows "track_tiles.cut_loop tb rounding a b k [x] (item_start x) (item_stop x) [l] []"
  using assms by (auto simp: track_tiles.cut_loop_def track_tiles.cut_out_def plays_part_def min_def max_def shown_single)

lemma keep_right_part:
  assumes "item_ok tb x" "a \<le> item_start x" "item_start x < b" "b < item_stop x" "a \<le> b" "stable_rounding rounding"
    "plays_part tb x k r (b + k) (item_stop x + k)"
  shows "track_tiles.cut_loop tb rounding a b k [x] (item_start x) (item_stop x) [] [r]"
  using assms by (auto simp: track_tiles.cut_loop_def track_tiles.cut_out_def plays_part_def min_def max_def shown_single)

lemma keep_both_parts:
  assumes "item_ok tb x" "item_start x < a" "b < item_stop x" "a \<le> b" "stable_rounding rounding"
    "plays_part tb x 0 l (item_start x) a" "plays_part tb x k r (b + k) (item_stop x + k)"
  shows "track_tiles.cut_loop tb rounding a b k [x] (item_start x) (item_stop x) [l] [r]"
  using assms by (auto simp: track_tiles.cut_loop_def track_tiles.cut_out_def plays_part_def min_def max_def shown_single)

section \<open>The loop of insert\<close>

lemma item_lt:
  assumes "item_ok tb x" "in_i64 p"
  shows "rt_lt (tr_start (timed_range x)) (rt_new p tb) \<longleftrightarrow> item_start x < p"
    "rt_le (rt_new p tb) (tr_start (timed_range x)) \<longleftrightarrow> p \<le> item_start x"
    "rt_lt (rt_new p tb) (rt_new (item_stop x) tb) \<longleftrightarrow> p < item_stop x"
    "rt_le (rt_new (item_stop x) tb) (rt_new p tb) \<longleftrightarrow> item_stop x \<le> p"
proof -
  note e = item_range_eq[OF assms(1)] and r = item_ok_range[OF assms(1)]
  have p: "rt_ok (rt_new p tb)" using assms(2) r(4) by (simp add: rt_ok_def)
  show "rt_lt (tr_start (timed_range x)) (rt_new p tb) \<longleftrightarrow> item_start x < p"
    "rt_le (rt_new p tb) (tr_start (timed_range x)) \<longleftrightarrow> p \<le> item_start x"
    "rt_lt (rt_new p tb) (rt_new (item_stop x) tb) \<longleftrightarrow> p < item_stop x"
    "rt_le (rt_new (item_stop x) tb) (rt_new p tb) \<longleftrightarrow> item_stop x \<le> p"
    unfolding e(1) using rt_same_timebase[OF e(3) p] rt_same_timebase[OF p e(3)] rt_same_timebase[OF p e(4)]
      rt_same_timebase[OF e(4) p] by simp_all
qed

lemma insert_step_cut:
  assumes x: "item_ok tb x" and p: "in_i64 pt" and d: "du_ok d" "du_timebase d = tb"
    and run: "insert_step (rt_new pt tb) d tb x ps = Inr qs" and st: "stable_rounding rounding"
  shows "\<exists>l r. ep_output qs = ep_output ps @ l @ r
     \<and> track_tiles.cut_loop tb rounding pt pt (du_value d) [x] (item_start x) (item_stop x) l r"
proof -
  note r = item_ok_range[OF x] and e = item_range_eq[OF x] and lt = item_lt[OF x p]
  consider (split) "item_start x < pt" "pt < item_stop x" | (after) "pt \<le> item_start x"
    | (before) "item_start x < pt" "item_stop x \<le> pt" by linarith
  then show ?thesis
  proof cases
    case split
    then obtain left right_id cursor right moved where
      left: "slice_item x (rt_new (item_start x) tb) (rt_new pt tb) (item_id x) ''insert'' = Inr left"
      and right: "slice_item x (rt_new pt tb) (rt_new (item_stop x) tb) right_id ''insert'' = Inr right"
      and moved: "shift_item_right right d tb ''insert'' = Inr moved"
      and out: "ep_output qs = ep_output ps @ [left, moved]"
      using run lt e(1,2) by (auto simp: insert_step_def Let_def result_simps)
    have l: "plays_part tb x 0 left (item_start x) pt" using slice_item_plays[OF x r(6) p left] by simp
    have rr: "plays_part tb x 0 right pt (item_stop x)" using slice_item_plays[OF x p r(7) right] by simp
    then have "item_ok tb right" "item_start right = pt" "item_stop right = item_stop x" by (simp_all add: plays_part_def)
    then have "plays_part tb right (du_value d) moved (pt + du_value d) (item_stop x + du_value d)"
      using shift_right_plays[OF _ d moved] by simp
    from plays_part_trans[OF rr this] keep_both_parts[OF x split order_refl st l] out show ?thesis
      by (intro exI[of _ "[left]"] exI[of _ "[moved]"]) simp
  next
    case after
    then obtain moved where moved: "shift_item_right x d tb ''insert'' = Inr moved"
      and out: "ep_output qs = ep_output ps @ [moved]"
      using run lt e(1,2) by (auto simp: insert_step_def Let_def result_simps)
    from move_after[OF x after order_refl st conjunct1[OF shift_right_plays[OF x d moved]]] out show ?thesis
      by (intro exI[of _ "[]"] exI[of _ "[moved]"]) simp
  next
    case before
    then have out: "ep_output qs = ep_output ps @ [x]" using run lt e(1,2) by (auto simp: insert_step_def Let_def result_simps)
    have "item_start x \<le> pt" "pt \<le> item_start x \<longrightarrow> False" using before by simp_all
    from keep_before[OF x this(1) before(2) order_refl this(2)] out show ?thesis
      by (intro exI[of _ "[x]"] exI[of _ "[]"]) simp
  qed
qed

text \<open>A loop all of whose steps are cuts is a cut.\<close>

lemma fold_cut:
  assumes ab: "a \<le> b" and ok: "\<forall>x\<in>set xs. item_ok tb x" and ch: "tiles s xs e"
    and run: "foldR f xs ps = Inr qs"
    and step: "\<And>x ps qs. item_ok tb x \<Longrightarrow> f x ps = Inr qs \<Longrightarrow> \<exists>l r. ep_output qs = ep_output ps @ l @ r
       \<and> track_tiles.cut_loop tb rounding a b k [x] (item_start x) (item_stop x) l r"
  shows "\<exists>L R. ep_output qs = ep_output ps @ L @ R \<and> track_tiles.cut_loop tb rounding a b k xs s e L R"
  using ok ch run
proof (induction xs arbitrary: s ps)
  case Nil
  then show ?case using track_tiles.cut_loop_Nil by auto
next
  case (Cons x xs)
  from Cons.prems obtain ms where ms: "f x ps = Inr ms" "foldR f xs ms = Inr qs" by (auto simp: result_simps)
  have x: "item_ok tb x" "item_start x = s" "tiles (item_stop x) xs e" using Cons.prems by auto
  obtain l r where l: "ep_output ms = ep_output ps @ l @ r"
    "track_tiles.cut_loop tb rounding a b k [x] s (item_stop x) l r" using step[OF x(1) ms(1)] x(2) by auto
  obtain L R where L: "ep_output qs = ep_output ms @ L @ R"
    "track_tiles.cut_loop tb rounding a b k xs (item_stop x) e L R" using Cons.IH[OF _ x(3) ms(2)] Cons.prems by auto
  have "track_tiles.cut_loop tb rounding a b k ([x] @ xs) s e (l @ L) (r @ R) \<and> l @ r @ L @ R = (l @ L) @ (r @ R)"
    using Cons.prems x by (intro track_tiles.cut_loop_append[OF ab _ _ _ l(2) L(2)]) auto
  then show ?case using l L by (intro exI[of _ "l @ L"] exI[of _ "r @ R"]) simp
qed

lemma insert_loop:
  assumes "\<forall>x\<in>set xs. item_ok tb x" "tiles s xs e" "in_i64 pt" "du_ok d" "du_timebase d = tb"
    "foldR (insert_step (rt_new pt tb) d tb) xs ps = Inr qs" "stable_rounding rounding"
  shows "\<exists>L R. ep_output qs = ep_output ps @ L @ R \<and> track_tiles.cut_loop tb rounding pt pt (du_value d) xs s e L R"
  by (rule fold_cut[OF order_refl assms(1,2,6)]) (rule insert_step_cut[OF _ assms(3-5) _ assms(7)])

section \<open>The loop of a range replacement\<close>

lemma replace_step_cut:
  assumes x: "item_ok tb x" and rng: "tr_ok r" "tr_timebase r = tb" "rt_value (tr_start r) = a" "tr_end r = b" "a < b"
    and run: "replace_step r (rt_new b tb) close tb operation x ps = Inr qs" and st: "stable_rounding rounding"
  shows "\<exists>l q. ep_output qs = ep_output ps @ l @ q
     \<and> track_tiles.cut_loop tb rounding a b (if close then a - b else 0) [x] (item_start x) (item_stop x) l q"
proof -
  note k = item_ok_range[OF x] and e = item_range_eq[OF x]
  have ab: "in_i64 a" "in_i64 b" using rng tr_end_ok(2)[OF rng(1)] by (auto simp: tr_ok_def rt_ok_def)
  have sr: "tr_start r = rt_new a tb" using rng(2,3) rt_new_eta[of "tr_start r"] by (simp add: tr_timebase_def)
  have d: "du_ok (tr_duration r)" "du_timebase (tr_duration r) = tb" "du_value (tr_duration r) = b - a"
    using tr_okD[OF rng(1)] rng(2-4) by (auto simp: tr_end_def)
  note lt = item_lt[OF x ab(1)] item_lt[OF x ab(2)]
  have shift: "plays_part tb z (a - b) y (item_start z + (a - b)) (item_stop z + (a - b))"
    if "item_ok tb z" "shift_item_left z (tr_duration r) tb operation = Inr y" for z y
    using shift_left_plays[OF that(1) d(1,2) that(2)] by (simp add: d(3) algebra_simps)
  have part: "\<exists>y. moved = Inr y \<and> plays_part tb x (if close then a - b else 0) y
        (b + (if close then a - b else 0)) (item_stop x + (if close then a - b else 0))"
    if "slice_item x (rt_new b tb) (rt_new (item_stop x) tb) ident operation = Inr right"
      "moved = (if close then shift_item_left right (tr_duration r) tb operation else Inr right)" "moved = Inr w"
    for ident right moved w
  proof -
    have p: "plays_part tb x 0 right b (item_stop x)" using slice_item_plays[OF x ab(2) k(7) that(1)] by simp
    show ?thesis
    proof (cases close)
      case True
      have "plays_part tb right (a - b) w (b + (a - b)) (item_stop x + (a - b))"
        using shift[of right w] p that(2,3) True by (simp add: plays_part_def)
      from plays_part_trans[OF p this] that(3) True show ?thesis by simp
    next
      case False
      with p that show ?thesis by simp
    qed
  qed
  consider (before) "item_stop x \<le> a" | (after) "a < item_stop x" "b \<le> item_start x"
    | (both) "item_start x < a" "b < item_stop x" | (left) "item_start x < a" "a < item_stop x" "item_stop x \<le> b"
    | (right) "a \<le> item_start x" "item_start x < b" "b < item_stop x"
    | (inside) "a \<le> item_start x" "a < item_stop x" "item_start x < b" "item_stop x \<le> b" by linarith
  then show ?thesis
  proof cases
    case before
    then have out: "ep_output qs = ep_output ps @ [x]" using run lt e(1,2) sr by (auto simp: replace_step_def Let_def result_simps)
    have "item_start x \<le> a" "b \<le> item_start x \<longrightarrow> False" using before k(5) rng(5) by linarith+
    from keep_before[OF x this(1) before _ this(2)] rng(5) out show ?thesis
      by (intro exI[of _ "[x]"] exI[of _ "[]"]) simp
  next
    case after
    then obtain y where "(if close then shift_item_left x (tr_duration r) tb operation else Inr x) = Inr y"
      and out: "ep_output qs = ep_output ps @ [y]"
      using run lt e(1,2) sr by (auto simp: replace_step_def Let_def result_simps split: if_splits)
    then have "plays_part tb x (if close then a - b else 0) y (item_start x + (if close then a - b else 0))
        (item_stop x + (if close then a - b else 0))"
      using shift[OF x] plays_part_refl[OF x] by (auto split: if_splits)
    from move_after[OF x after(2) _ st this, of a] rng(5) out show ?thesis
      by (intro exI[of _ "[]"] exI[of _ "[y]"]) simp
  next
    case both
    then have "\<not> item_stop x \<le> a" "\<not> b \<le> item_start x" using rng(5) by simp_all
    with both run lt e(1,2) sr obtain l ident q w where
      l: "slice_item x (rt_new (item_start x) tb) (rt_new a tb) (item_id x) operation = Inr l"
      and q: "slice_item x (rt_new b tb) (rt_new (item_stop x) tb) ident operation = Inr q"
      and w: "(if close then shift_item_left q (tr_duration r) tb operation else Inr q) = Inr w"
      and out: "ep_output qs = ep_output ps @ [l, w]"
      by (auto simp: replace_step_def Let_def result_simps simp del: if_Inr)
    have "plays_part tb x 0 l (item_start x) a" using slice_item_plays[OF x k(6) ab(1) l] by simp
    from keep_both_parts[OF x both _ st this] part[OF q refl w] w rng(5) out show ?thesis
      by (intro exI[of _ "[l]"] exI[of _ "[w]"]) auto
  next
    case left
    then have "\<not> item_stop x \<le> a" "\<not> b \<le> item_start x" "\<not> b < item_stop x" using rng(5) by simp_all
    with left run lt e(1,2) sr obtain l where
      l: "slice_item x (rt_new (item_start x) tb) (rt_new a tb) (item_id x) operation = Inr l"
      and out: "ep_output qs = ep_output ps @ [l]"
      by (auto simp: replace_step_def Let_def result_simps simp del: if_Inr)
    have "plays_part tb x 0 l (item_start x) a" using slice_item_plays[OF x k(6) ab(1) l] by simp
    from keep_left_part[OF x left st this] out show ?thesis
      by (intro exI[of _ "[l]"] exI[of _ "[]"]) simp
  next
    case right
    then have "\<not> item_stop x \<le> a" "\<not> b \<le> item_start x" "\<not> item_start x < a" using rng(5) by simp_all
    with right run lt e(1,2) sr obtain ident q w where
      q: "slice_item x (rt_new b tb) (rt_new (item_stop x) tb) ident operation = Inr q"
      and w: "(if close then shift_item_left q (tr_duration r) tb operation else Inr q) = Inr w"
      and out: "ep_output qs = ep_output ps @ [w]"
      by (auto simp: replace_step_def Let_def result_simps simp del: if_Inr)
    from keep_right_part[OF x right _ st] part[OF q refl w] w rng(5) out show ?thesis
      by (intro exI[of _ "[]"] exI[of _ "[w]"]) auto
  next
    case inside
    then have "\<not> item_stop x \<le> a" "\<not> b \<le> item_start x" "\<not> item_start x < a" "\<not> b < item_stop x" using rng(5) by simp_all
    with run lt e(1,2) sr have out: "ep_output qs = ep_output ps"
      by (auto simp: replace_step_def Let_def result_simps)
    from drop_inside[OF x inside(1,4) rng(5) inside(2)] out show ?thesis
      by (intro exI[of _ "[]"] exI[of _ "[]"]) simp
  qed
qed

lemma replace_loop:
  assumes "\<forall>x\<in>set xs. item_ok tb x" "tiles s xs e"
    "tr_ok r" "tr_timebase r = tb" "rt_value (tr_start r) = a" "tr_end r = b" "a < b"
    "foldR (replace_step r (rt_new b tb) close tb operation) xs ps = Inr qs" "stable_rounding rounding"
  shows "\<exists>L R. ep_output qs = ep_output ps @ L @ R
    \<and> track_tiles.cut_loop tb rounding a b (if close then a - b else 0) xs s e L R"
  by (rule fold_cut[OF less_imp_le[OF assms(7)] assms(1,2,8)]) (rule replace_step_cut[OF _ assms(3-7) _ assms(9)])

section \<open>The timed items of a track\<close>

fun is_timed :: "track_item \<Rightarrow> bool" where
  "is_timed (ITransition _) = False"
| "is_timed _ = True"

fun transition_of :: "track_item \<Rightarrow> transition option" where
  "transition_of (ITransition t) = Some t"
| "transition_of _ = None"

lemma separate_items_eq: "separate_items xs = (filter is_timed xs, List.map_filter transition_of xs)"
proof (induction xs)
  case (Cons x xs)
  then show ?case by (cases x) (auto simp: List.map_filter_def)
qed (simp add: List.map_filter_def)

lemma timed_not_transition [simp]: "is_timed x \<Longrightarrow> transition_of x = None"
  by (cases x) auto

lemma item_ok_timed: "item_ok tb x \<Longrightarrow> is_timed x"
  by (cases x) auto

definition timed_items :: "track \<Rightarrow> track_item list" where
  "timed_items t = filter is_timed (tk_items t)"

text \<open>The timed items are well-formed on the track's clock and tile it from zero to \<open>e\<close>.\<close>

definition track_tiled :: "track \<Rightarrow> int \<Rightarrow> bool" where
  "track_tiled t e \<longleftrightarrow> tb_ok (track_timebase t) \<and> (\<forall>x\<in>set (timed_items t). item_ok (track_timebase t) x)
     \<and> tiles 0 (timed_items t) e"

lemma track_timebase_replace [simp]: "track_timebase (tk_replace_items t items) = track_timebase t"
  by (simp add: track_timebase_def tk_replace_items_def)

lemma tk_items_replace [simp]: "tk_items (tk_replace_items t items) = items"
  by (simp add: tk_replace_items_def)

lemma find_map_timed: "\<forall>x\<in>set xs. is_timed x \<longrightarrow> item_ok tb x
    \<Longrightarrow> find_map item_record_range xs = map_option timed_range (find is_timed xs)"
proof (induction xs)
  case (Cons x xs)
  then show ?case by (cases x) (auto simp: timed_range_def)
qed simp

lemma find_rev_filter: "find p (rev xs) = (if filter p xs = [] then None else Some (last (filter p xs)))"
proof (induction xs rule: rev_induct)
  case (snoc x xs)
  then show ?case by auto
qed simp

lemma chain_last: "chain start stop a xs b \<Longrightarrow> xs \<noteq> [] \<Longrightarrow> stop (last xs) = b"
  by (induction xs arbitrary: a) (auto split: if_splits)

lemma track_end_tiled:
  assumes "track_tiled t e"
  shows "track_end t = Inr (rt_new e (track_timebase t))" "in_i64 e" "0 \<le> e"
proof -
  let ?tb = "track_timebase t" and ?xs = "timed_items t"
  have ok: "\<forall>x\<in>set ?xs. item_ok ?tb x" "tiles 0 ?xs e" using assms by (simp_all add: track_tiled_def)
  have "\<forall>x\<in>set (rev (tk_items t)). is_timed x \<longrightarrow> item_ok ?tb x" using ok by (simp add: timed_items_def)
  then have f: "find_map item_record_range (rev (tk_items t))
      = (if ?xs = [] then None else Some (timed_range (last ?xs)))"
    by (simp add: find_map_timed find_rev_filter timed_items_def)
  have l: "item_ok ?tb (last ?xs)" "item_stop (last ?xs) = e" if "?xs \<noteq> []"
    using ok chain_last[OF ok(2) that] that by auto
  show "track_end t = Inr (rt_new e ?tb)"
    using f l item_range_eq(2)[of ?tb "last ?xs"] ok(2) by (auto simp: track_end_def rt_zero_def)
  show "in_i64 e" using l item_ok_range(7)[of ?tb "last ?xs"] ok(2) by (cases "?xs = []") (auto simp: in_i64_def)
  show "0 \<le> e" using track_tiles.chain_le[OF ok] .
qed

section \<open>Rebuilding transitions\<close>

lemma interleave_timed:
  "\<forall>x\<in>set xs. is_timed x \<Longrightarrow> filter is_timed (interleave xs bs) = xs"
  by (induction xs bs rule: interleave.induct) (auto split: option.splits)

lemma interleave_transitions:
  "\<forall>x\<in>set xs. is_timed x \<Longrightarrow> length bs = length xs - 1
    \<Longrightarrow> List.map_filter transition_of (interleave xs bs) = List.map_filter id bs"
proof (induction xs bs rule: interleave.induct)
  case (1 x y rest b bs)
  then show ?case by (cases b) (auto simp: List.map_filter_def)
qed (auto simp: List.map_filter_def filter_empty_conv)

lemma boundaries_length: "length (boundaries_of ts xs) = length xs - 1"
  by (induction ts xs rule: boundaries_of.induct) auto

lemma drop_overlap_length: "drop_overlap timed i bs = Inr cs \<Longrightarrow> length cs = length bs"
  by (auto simp: drop_overlap_def Let_def result_simps split: if_splits option.splits)

lemma rebuild_timed:
  assumes "\<forall>x\<in>set timed. is_timed x" "rebuild_with_transitions timed ts = Inr (items, removed)"
  shows "filter is_timed items = timed"
  using assms interleave_timed by (auto simp: rebuild_with_transitions_def Let_def result_simps)

lemma rebuild_tiled:
  assumes "tb_ok (track_timebase t)" "\<forall>x\<in>set timed. item_ok (track_timebase t) x" "tiles 0 timed e"
    "rebuild_with_transitions timed ts = Inr (items, removed)"
  shows "timed_items (tk_replace_items t items) = timed \<and> track_tiled (tk_replace_items t items) e"
proof -
  have "\<forall>x\<in>set timed. is_timed x" using assms(2) item_ok_timed by blast
  from rebuild_timed[OF this assms(4)] assms(1-3) show ?thesis
    by (simp add: timed_items_def track_tiled_def)
qed

lemma sort_timed_eq: "sort_timed xs = sort_key item_start xs"
  by (simp add: sort_timed_def item_start_def[abs_def])

section \<open>What a track plays\<close>

definition track_plays :: "time_rounding \<Rightarrow> track \<Rightarrow> int \<Rightarrow> frame option" where
  "track_plays rounding t v = frame_at rounding (timed_items t) v"

text \<open>
  The specification of an edit that puts \<open>m\<close> in place of the ticks from \<open>a\<close> to \<open>b\<close> and moves the
  rest by \<open>k\<close>.
\<close>

definition spliced :: "track \<Rightarrow> track \<Rightarrow> int \<Rightarrow> int \<Rightarrow> int \<Rightarrow> track_item \<Rightarrow> int \<Rightarrow> bool" where
  "spliced t t' a b k m e \<longleftrightarrow> track_timebase t' = track_timebase t \<and> track_tiled t' (e + k)
     \<and> (\<forall>rounding v. stable_rounding rounding \<longrightarrow> 0 \<le> v \<longrightarrow> v < e + k \<longrightarrow>
          track_plays rounding t' v = (if v < a then track_plays rounding t v
            else if v < b + k then Some (item_frame rounding m v)
            else track_plays rounding t (v - k)))"

lemma splice_rebuilt:
  assumes t: "track_tiled t e" and m: "item_ok (track_timebase t) m" "item_start m = a" "item_stop m = b + k" "a < b + k"
    and inside: "0 \<le> a" "a \<le> b" "b \<le> e"
    and cut: "\<And>rounding. stable_rounding rounding \<Longrightarrow> \<exists>L R. out = L @ R
        \<and> track_tiles.cut_out (track_timebase t) rounding a b k (timed_items t) 0 e L R"
    and re: "rebuild_with_transitions (sort_timed (out @ [m])) ts = Inr (items, removed)"
  shows "spliced t (tk_replace_items t items) a b k m e"
proof -
  let ?tb = "track_timebase t" and ?xs = "timed_items t"
  have ok: "tb_ok ?tb" "\<forall>x\<in>set ?xs. item_ok ?tb x" "tiles 0 ?xs e" using t by (simp_all add: track_tiled_def)
  have fill: "timed_items (tk_replace_items t items) = sort_timed (out @ [m])
      \<and> track_tiled (tk_replace_items t items) (e + k)
      \<and> (\<forall>v. 0 \<le> v \<longrightarrow> v < e + k \<longrightarrow> frame_at rounding (sort_timed (out @ [m])) v
          = (if v < a then frame_at rounding ?xs v else if v < b + k then Some (item_frame rounding m v)
             else frame_at rounding ?xs (v - k)))"
    if st: "stable_rounding rounding" for rounding
  proof -
    obtain L R where LR: "out = L @ R" "track_tiles.cut_out ?tb rounding a b k ?xs 0 e L R" using cut[OF st] by blast
    note f = track_tiles.cut_out_fill[OF ok(2) m(1) ok(3) LR(2) m(2-4) inside]
    have s: "sort_timed (out @ [m]) = L @ m # R" using f(1) LR(1) by (simp add: sort_timed_eq)
    from rebuild_tiled[OF ok(1) f(3,2) re[unfolded s]] f(4) s show ?thesis by simp
  qed
  have "stable_rounding RoundExact" by (simp add: stable_rounding_def)
  with fill show ?thesis by (simp add: spliced_def track_plays_def)
qed

end
