(* ===== verification/EditLaws.thy ===== *)
theory EditLaws
  imports TrackLaws
begin

text \<open>
  What each track operation does to the tiling and to what the track plays: insertions and
  range replacements splice, extract closes up, the edits of neighbouring items patch.
\<close>

section \<open>Insertions and range replacements\<close>

lemma sort_tiles: "\<forall>x\<in>set xs. item_ok tb x \<Longrightarrow> tiles a xs b \<Longrightarrow> sort_timed xs = xs"
  unfolding sort_timed_eq by (rule sort_key_id_if_sorted[OF track_tiles.chain_sorted])

lemma separate_eq: "separate_items (tk_items t) = (timed_items t, List.map_filter transition_of (tk_items t))"
  by (simp add: separate_items_eq timed_items_def)

lemma ep_start_output [simp]: "ep_output (ep_start ids) = []"
  by (simp add: ep_start_def)

lemma insert_spliced:
  assumes t: "track_tiled t e" and p: "in_i64 pt" and m: "item_ok tb' material"
    and run: "apply_insert t tlid trid (rt_new pt (track_timebase t)) material ids = Inr (out, t')"
  shows "\<exists>m. normalize_material material (rt_new pt (track_timebase t)) (track_timebase t) ''insert'' = Inr m
     \<and> item_ok (track_timebase t) m \<and> item_start m = pt \<and> 0 \<le> pt \<and> pt \<le> e
     \<and> eo_duration_change out = DurationExtended (tr_duration (timed_range m))
     \<and> spliced t t' pt pt (item_stop m - pt) m e"
proof -
  let ?tb = "track_timebase t"
  note te = track_end_tiled[OF t]
  have ok: "tb_ok ?tb" "\<forall>x\<in>set (timed_items t). item_ok ?tb x" "tiles 0 (timed_items t) e"
    using t by (simp_all add: track_tiled_def)
  have pok: "rt_ok (rt_new pt ?tb)" "rt_ok (rt_new e ?tb)" using p te(2) ok(1) by (simp_all add: rt_ok_def)
  from run obtain m ps items removed where
    m: "normalize_material material (rt_new pt ?tb) ?tb ''insert'' = Inr m"
    and bounds: "\<not> rt_is_negative (rt_new pt ?tb)" "\<not> rt_lt (rt_new e ?tb) (rt_new pt ?tb)"
    and loop: "foldR (insert_step (rt_new pt ?tb) (tr_duration (timed_range m)) ?tb) (timed_items t) (ep_start ids) = Inr ps"
    and re: "rebuild_with_transitions (sort_timed (ep_output ps @ [m])) (List.map_filter transition_of (tk_items t)) = Inr (items, removed)"
    and t': "t' = tk_replace_items t items" and out: "eo_duration_change out = DurationExtended (tr_duration (timed_range m))"
    by (auto simp: apply_insert_def Let_def bindR_Inr te(1) separate_eq outcome_def split: prod.splits if_splits)
  have in_: "0 \<le> pt" "pt \<le> e" using bounds rt_same_timebase(2)[OF pok(2,1)] by (simp_all add: rt_is_negative_def)
  note mm = normalize_ok[OF assms(3) pok(1) m]
  have mok: "item_ok ?tb m" using mm by simp
  note e = item_range_eq[OF mok]
  have d: "du_ok (tr_duration (timed_range m))" "du_timebase (tr_duration (timed_range m)) = ?tb"
    using item_ok_range(2)[OF mok] e(6) by (simp_all add: tr_ok_def)
  have "spliced t (tk_replace_items t items) pt pt (item_stop m - pt) m e"
  proof (rule splice_rebuilt[OF t mok _ _ _ _ _ _ _ re])
    show "\<exists>L R. ep_output ps = L @ R \<and> track_tiles.cut_out ?tb rounding pt pt (item_stop m - pt) (timed_items t) 0 e L R"
      if "stable_rounding rounding" for rounding
      using insert_loop[OF ok(2,3) p d loop that] e(5) mm by (simp add: track_tiles.cut_loop_def) blast
  qed (use mm in_ in auto)
  with m mok mm in_ out t' show ?thesis by blast
qed

lemma append_spliced:
  assumes t: "track_tiled t e" and m: "item_ok tb' material"
    and run: "apply_append t tlid trid material = Inr (out, t')"
  shows "\<exists>m. normalize_material material (rt_new e (track_timebase t)) (track_timebase t) ''append'' = Inr m
     \<and> item_ok (track_timebase t) m \<and> item_start m = e
     \<and> eo_duration_change out = DurationExtended (tr_duration (timed_range m))
     \<and> spliced t t' e e (item_stop m - e) m e"
proof -
  let ?tb = "track_timebase t"
  note te = track_end_tiled[OF t]
  have ok: "tb_ok ?tb" "\<forall>x\<in>set (timed_items t). item_ok ?tb x" "tiles 0 (timed_items t) e"
    using t by (simp_all add: track_tiled_def)
  have pok: "rt_ok (rt_new e ?tb)" using te(2) ok(1) by (simp add: rt_ok_def)
  from run obtain m items removed where
    m: "normalize_material material (rt_new e ?tb) ?tb ''append'' = Inr m"
    and re: "rebuild_with_transitions (sort_timed (timed_items t @ [m])) (List.map_filter transition_of (tk_items t)) = Inr (items, removed)"
    and t': "t' = tk_replace_items t items" and out: "eo_duration_change out = DurationExtended (tr_duration (timed_range m))"
    by (auto simp: apply_append_def Let_def bindR_Inr te(1) separate_eq outcome_def split: prod.splits)
  note mm = normalize_ok[OF assms(2) pok m]
  have mok: "item_ok ?tb m" using mm by simp
  have "spliced t (tk_replace_items t items) e e (item_stop m - e) m e"
  proof (rule splice_rebuilt[OF t mok _ _ _ _ _ _ _ re])
    show "\<exists>L R. timed_items t = L @ R \<and> track_tiles.cut_out ?tb rounding e e (item_stop m - e) (timed_items t) 0 e L R"
      if "stable_rounding rounding" for rounding
      using track_tiles.chain_bounds[OF ok(2,3)] ok te(3) item_ok_range(5)
      by (intro exI[of _ "timed_items t"] exI[of _ "[]"]) (fastforce simp: track_tiles.cut_out_def)
  qed (use mm te in auto)
  with m mok mm out t' show ?thesis by blast
qed

lemma edit_range_inside:
  assumes t: "track_tiled t e" and r: "tr_ok r" and run: "validate_edit_range t r operation = Inr ()"
  shows "tr_timebase r = track_timebase t" "0 \<le> rt_value (tr_start r)" "rt_value (tr_start r) < tr_end r" "tr_end r \<le> e"
proof -
  note te = track_end_tiled[OF t] and re = tr_end_ok[OF r] and k = tr_okD[OF r]
  have tb: "tr_timebase r = track_timebase t" and ne: "\<not> tr_is_empty r"
    using run by (auto simp: validate_edit_range_def split: if_splits)
  have eok: "rt_ok (rt_new e (track_timebase t))" using te(2) k tb by (simp add: rt_ok_def)
  have "\<not> rt_is_negative (tr_start r)" "\<not> rt_lt (rt_new e (track_timebase t)) (rt_new (tr_end r) (tr_timebase r))"
    using run tb ne te(1) re(1) by (auto simp: validate_edit_range_def split: if_splits)
  then show "tr_timebase r = track_timebase t" "0 \<le> rt_value (tr_start r)" "rt_value (tr_start r) < tr_end r" "tr_end r \<le> e"
    using rt_same_timebase(2)[OF eok re(2)] tb ne k
    by (auto simp: rt_is_negative_def tr_is_empty_def du_is_zero_def tr_end_def du_ok_def)
qed

lemma replacement_spliced:
  assumes t: "track_tiled t e" and r: "tr_ok r" "tr_timebase r = track_timebase t" "rt_value (tr_start r) = a"
    "tr_end r = b" "0 \<le> a" "a < b" "b \<le> e"
    and m: "item_ok (track_timebase t) m" "item_start m = a" "item_stop m = b"
    and run: "apply_range_replacement t tlid trid kind r (Some m) ids False change = Inr (out, t')"
  shows "spliced t t' a b 0 m e \<and> eo_duration_change out = change \<and> eo_kind out = kind"
proof -
  let ?tb = "track_timebase t"
  have ok: "tb_ok ?tb" "\<forall>x\<in>set (timed_items t). item_ok ?tb x" "tiles 0 (timed_items t) e"
    using t by (simp_all add: track_tiled_def)
  from run obtain ps items removed where
    loop: "foldR (replace_step r (rt_new b ?tb) False ?tb (edit_kind_code kind)) (timed_items t) (ep_start ids) = Inr ps"
    and re: "rebuild_with_transitions (sort_timed (ep_output ps @ [m])) (List.map_filter transition_of (tk_items t)) = Inr (items, removed)"
    and t': "t' = tk_replace_items t items" and out: "eo_duration_change out = change" "eo_kind out = kind"
    using tr_end_ok(1)[OF r(1)] r(2,4)
    by (auto simp: apply_range_replacement_def Let_def bindR_Inr separate_eq outcome_def split: prod.splits)
  have "spliced t (tk_replace_items t items) a b 0 m e"
  proof (rule splice_rebuilt[OF t m(1,2) _ _ _ _ _ _ re])
    show "\<exists>L R. ep_output ps = L @ R \<and> track_tiles.cut_out ?tb rounding a b 0 (timed_items t) 0 e L R"
      if "stable_rounding rounding" for rounding
      using replace_loop[OF ok(2,3) r(1-4,6) loop that] by (simp add: track_tiles.cut_loop_def) blast
  qed (use m r in auto)
  then show ?thesis using t' out by simp
qed

text \<open>The specification of an edit that removes the ticks from \<open>a\<close> to \<open>b\<close> and closes up.\<close>

definition closed_up :: "track \<Rightarrow> track \<Rightarrow> int \<Rightarrow> int \<Rightarrow> int \<Rightarrow> bool" where
  "closed_up t t' a b e \<longleftrightarrow> track_timebase t' = track_timebase t \<and> track_tiled t' (e - (b - a))
     \<and> (\<forall>rounding v. stable_rounding rounding \<longrightarrow> 0 \<le> v \<longrightarrow> v < e - (b - a) \<longrightarrow>
          track_plays rounding t' v = track_plays rounding t (if v < a then v else v + (b - a)))"

lemma replacement_closed:
  assumes t: "track_tiled t e" and r: "tr_ok r" "tr_timebase r = track_timebase t" "rt_value (tr_start r) = a"
    "tr_end r = b" "0 \<le> a" "a < b" "b \<le> e"
    and run: "apply_range_replacement t tlid trid kind r None ids True change = Inr (out, t')"
  shows "closed_up t t' a b e \<and> eo_duration_change out = change \<and> eo_kind out = kind"
proof -
  let ?tb = "track_timebase t" and ?xs = "timed_items t"
  have ok: "tb_ok ?tb" "\<forall>x\<in>set ?xs. item_ok ?tb x" "tiles 0 ?xs e"
    using t by (simp_all add: track_tiled_def)
  from run obtain ps items removed where
    loop: "foldR (replace_step r (rt_new b ?tb) True ?tb (edit_kind_code kind)) ?xs (ep_start ids) = Inr ps"
    and re: "rebuild_with_transitions (sort_timed (ep_output ps)) (List.map_filter transition_of (tk_items t)) = Inr (items, removed)"
    and t': "t' = tk_replace_items t items" and out: "eo_duration_change out = change" "eo_kind out = kind"
    using tr_end_ok(1)[OF r(1)] r(2,4)
    by (auto simp: apply_range_replacement_def Let_def bindR_Inr separate_eq outcome_def split: prod.splits)
  have close: "timed_items t' = sort_timed (ep_output ps) \<and> track_tiled t' (e - (b - a))
      \<and> (\<forall>v. 0 \<le> v \<longrightarrow> v < e - (b - a) \<longrightarrow> frame_at rounding (sort_timed (ep_output ps)) v
          = frame_at rounding ?xs (if v < a then v else v + (b - a)))"
    if st: "stable_rounding rounding" for rounding
  proof -
    obtain L R where LR: "ep_output ps = L @ R" "track_tiles.cut_out ?tb rounding a b (a - b) ?xs 0 e L R"
      using replace_loop[OF ok(2,3) r(1-4,6) loop st] by (simp add: track_tiles.cut_loop_def) blast
    note f = track_tiles.cut_out_close[OF ok(2,3) LR(2) r(5) less_imp_le[OF r(6)] r(7)]
    have s: "sort_timed (ep_output ps) = L @ R" using f(1) LR(1) by (simp add: sort_timed_eq)
    have ek: "e + (a - b) = e - (b - a)" by simp
    from rebuild_tiled[OF ok(1) f(3) f(2)[unfolded ek] re[unfolded s]] f(4)[unfolded ek] s t' show ?thesis by simp
  qed
  have "stable_rounding RoundExact" by (simp add: stable_rounding_def)
  with close t' out show ?thesis by (simp add: closed_up_def track_plays_def)
qed

lemma overwrite_spliced:
  assumes t: "track_tiled t e" and p: "in_i64 pt" and m: "item_ok tb' material"
    and run: "apply_overwrite t tlid trid (rt_new pt (track_timebase t)) material ids = Inr (out, t')"
  shows "\<exists>m. normalize_material material (rt_new pt (track_timebase t)) (track_timebase t) ''overwrite'' = Inr m
     \<and> item_ok (track_timebase t) m \<and> item_start m = pt \<and> 0 \<le> pt \<and> item_stop m \<le> e
     \<and> eo_duration_change out = DurationUnchanged \<and> spliced t t' pt (item_stop m) 0 m e"
proof -
  let ?tb = "track_timebase t"
  have tb: "tb_ok ?tb" using t by (simp add: track_tiled_def)
  have pok: "rt_ok (rt_new pt ?tb)" using p tb by (simp add: rt_ok_def)
  from run obtain m r where
    m: "normalize_material material (rt_new pt ?tb) ?tb ''overwrite'' = Inr m"
    and r: "tr_new (rt_new pt ?tb) (tr_duration (timed_range m)) = Inr r"
    and val: "validate_edit_range t r ''overwrite'' = Inr ()"
    and run': "apply_range_replacement t tlid trid KOverwrite r (Some m) ids False DurationUnchanged = Inr (out, t')"
    by (auto simp: apply_overwrite_def Let_def bindR_Inr)
  note mm = normalize_ok[OF assms(3) pok m]
  have mok: "item_ok ?tb m" using mm by simp
  note e = item_range_eq[OF mok]
  have d: "du_ok (tr_duration (timed_range m))" using item_ok_range(2)[OF mok] by (simp add: tr_ok_def)
  note rr = tr_new_ok[OF pok d r]
  have ends: "rt_value (tr_start r) = pt" "tr_end r = item_stop m" using rr e(5) mm by (simp_all add: tr_end_def)
  note in_ = edit_range_inside[OF t conjunct1[OF rr] val]
  from replacement_spliced[OF t conjunct1[OF rr] in_(1) ends _ _ _ mok _ _ run'] in_ ends mm m mok
  show ?thesis by auto
qed

lemma gap_moved: "\<lparr>gp_id = gp_id g, gp_name = gp_name g, gp_record_range = r\<rparr> = g\<lparr>gp_record_range := r\<rparr>"
  by (rule gap.equality) simp_all

lemma lift_spliced:
  assumes t: "track_tiled t e" and r: "tr_ok r" and run: "apply_lift t tlid trid r g ids = Inr (out, t')"
  shows "0 \<le> rt_value (tr_start r) \<and> tr_end r \<le> e \<and> eo_duration_change out = DurationUnchanged
     \<and> spliced t t' (rt_value (tr_start r)) (tr_end r) 0 (IGap (g\<lparr>gp_record_range := r\<rparr>)) e"
proof -
  from run have val: "validate_edit_range t r ''lift'' = Inr ()"
    and run': "apply_range_replacement t tlid trid KLift r (Some (IGap (g\<lparr>gp_record_range := r\<rparr>))) ids False DurationUnchanged = Inr (out, t')"
    by (simp_all add: apply_lift_def bindR_Inr gap_moved if_Inr)
  note in_ = edit_range_inside[OF t r val]
  have "item_ok (track_timebase t) (IGap (g\<lparr>gp_record_range := r\<rparr>))" using r in_(1) by simp
  from replacement_spliced[OF t r in_(1) refl refl in_(2,3,4) this _ _ run'] in_ show ?thesis
    by (simp add: item_start_def item_stop_def)
qed

lemma extract_closed:
  assumes t: "track_tiled t e" and r: "tr_ok r" and run: "apply_extract t tlid trid r ids = Inr (out, t')"
  shows "0 \<le> rt_value (tr_start r) \<and> tr_end r \<le> e \<and> eo_duration_change out = DurationShortened (tr_duration r)
     \<and> closed_up t t' (rt_value (tr_start r)) (tr_end r) e"
proof -
  from run have val: "validate_edit_range t r ''extract'' = Inr ()"
    and run': "apply_range_replacement t tlid trid KExtract r None ids True (DurationShortened (tr_duration r)) = Inr (out, t')"
    by (auto simp: apply_extract_def bindR_Inr)
  note in_ = edit_range_inside[OF t r val]
  from replacement_closed[OF t r in_(1) refl refl in_(2,3,4) run'] in_ show ?thesis by simp
qed

section \<open>Edits of a few neighbouring items\<close>

text \<open>The specification: only the ticks from \<open>b\<close> to \<open>c\<close> may play something else.\<close>

definition patched :: "track \<Rightarrow> track \<Rightarrow> int \<Rightarrow> int \<Rightarrow> int \<Rightarrow> bool" where
  "patched t t' b c e \<longleftrightarrow> track_timebase t' = track_timebase t \<and> track_tiled t' e
     \<and> (\<forall>rounding v. v < b \<or> c \<le> v \<longrightarrow> track_plays rounding t' v = track_plays rounding t v)"

lemma chain_ends: "chain start stop b M c \<Longrightarrow> M \<noteq> [] \<Longrightarrow> b = start (hd M) \<and> c = stop (last M)"
  using chain_last[of start stop b M c] by (cases M) auto

lemma shown_middle:
  assumes ok: "\<forall>x\<in>set (P @ M @ Q). item_ok tb x" and ch: "tiles s P b" "tiles b M c" "tiles c Q e"
  shows "frame_at rounding (P @ M @ Q) v
    = (if v < b then frame_at rounding P v else if v < c then frame_at rounding M v else frame_at rounding Q v)"
proof -
  have mq: "tiles b (M @ Q) e" using ch by (auto simp: chain_append)
  have "frame_at rounding (P @ M @ Q) v = (if v < b then frame_at rounding P v else frame_at rounding (M @ Q) v)"
    by (rule track_tiles.shown_append[OF ok ch(1) mq])
  moreover have "frame_at rounding (M @ Q) v = (if v < c then frame_at rounding M v else frame_at rounding Q v)"
    by (rule track_tiles.shown_append[OF _ ch(2,3), where tb=tb]) (use ok in auto)
  ultimately show ?thesis by simp
qed

lemma shown_patch:
  assumes ok: "\<forall>x\<in>set (P @ M @ Q). item_ok tb x" "\<forall>x\<in>set M'. item_ok tb x"
    and ch: "tiles s P b" "tiles b M c" "tiles c Q e" "tiles b M' c" and v: "v < b \<or> c \<le> v"
  shows "frame_at rounding (P @ M' @ Q) v = frame_at rounding (P @ M @ Q) v"
proof -
  have "b \<le> c" using track_tiles.chain_le[of M tb b c] ok ch by auto
  moreover have "\<forall>x\<in>set (P @ M' @ Q). item_ok tb x" using ok by auto
  ultimately show ?thesis
    using shown_middle[OF ok(1) ch(1-3), of rounding v] shown_middle[OF _ ch(1,4,3), of tb rounding v] v by auto
qed

lemma patch_rebuilt:
  assumes t: "track_tiled t e" and xs: "timed_items t = P @ M @ Q" "M \<noteq> []"
    and M': "\<forall>x\<in>set M'. item_ok (track_timebase t) x" "tiles (item_start (hd M)) M' (item_stop (last M))"
    and re: "rebuild_with_transitions (P @ M' @ Q) ts = Inr (items, removed)"
  shows "patched t (tk_replace_items t items) (item_start (hd M)) (item_stop (last M)) e
    \<and> timed_items (tk_replace_items t items) = P @ M' @ Q"
proof -
  let ?tb = "track_timebase t"
  have ok: "tb_ok ?tb" "\<forall>x\<in>set (P @ M @ Q). item_ok ?tb x" "tiles 0 (P @ M @ Q) e"
    using t xs by (simp_all add: track_tiled_def)
  then obtain b c where ch: "tiles 0 P b" "tiles b M c" "tiles c Q e" by (auto simp: chain_append)
  have bc: "b = item_start (hd M)" "c = item_stop (last M)" using chain_ends[OF ch(2) xs(2)] by simp_all
  have ch': "tiles b M' c" using M' bc by simp
  have "tiles 0 (P @ M' @ Q) e" using ch ch' by (auto simp: chain_append)
  moreover have ok': "\<forall>x\<in>set (P @ M' @ Q). item_ok ?tb x" using ok M' by auto
  ultimately have "timed_items (tk_replace_items t items) = P @ M' @ Q \<and> track_tiled (tk_replace_items t items) e"
    by (rule_tac rebuild_tiled[OF ok(1) _ _ re])
  then show ?thesis
    using shown_patch[OF ok(2) M'(1) ch ch'] xs bc by (simp add: patched_def track_plays_def)
qed

lemma position_Some: "position p xs = Some i \<Longrightarrow> i < length xs \<and> p (xs ! i)"
  by (induction xs arbitrary: i) (auto split: if_splits simp: map_option_case split: option.splits)

lemma split_at_index: "i < length xs \<Longrightarrow> xs = take i xs @ [xs ! i] @ drop (Suc i) xs"
  by (simp add: id_take_nth_drop)

lemma split_at_pair: "Suc i < length xs \<Longrightarrow> xs = take i xs @ [xs ! i, xs ! Suc i] @ drop (Suc (Suc i)) xs"
  by (simp add: Cons_nth_drop_Suc id_take_nth_drop)

lemma update_at: "i < length xs \<Longrightarrow> xs[i := y] = take i xs @ [y] @ drop (Suc i) xs"
  by (simp add: upd_conv_take_nth_drop)

lemma update_pair: "Suc i < length xs \<Longrightarrow> xs[i := y, Suc i := z] = take i xs @ [y, z] @ drop (Suc (Suc i)) xs"
proof -
  assume i: "Suc i < length xs"
  then have "xs[i := y, Suc i := z] = (take i xs @ [xs ! i, xs ! Suc i] @ drop (Suc (Suc i)) xs)[i := y, Suc i := z]"
    using split_at_pair by metis
  also have "\<dots> = take i xs @ [y, z] @ drop (Suc (Suc i)) xs" using i by (simp add: list_update_append)
  finally show ?thesis .
qed

lemma neighbours_meet:
  assumes "track_tiled t e" "Suc i < length (timed_items t)"
  shows "item_stop (timed_items t ! i) = item_start (timed_items t ! Suc i)"
  using assms split_at_pair[OF assms(2)] by (metis (no_types, lifting) chain.simps(2) chain_append track_tiled_def append_Cons)

lemma timed_ok:
  assumes "track_tiled t e" "i < length (timed_items t)"
  shows "item_ok (track_timebase t) (timed_items t ! i)"
  using assms by (simp add: track_tiled_def)

text \<open>An item with a range given by its end points.\<close>

lemma made_range:
  assumes "rt_ok (rt_new a tb)" "rt_ok (rt_new b tb)" "tr_from_start_end (rt_new a tb) (rt_new b tb) = Inr r"
  shows "tr_ok r \<and> tr_timebase r = tb \<and> rt_value (tr_start r) = a \<and> tr_end r = b \<and> a \<le> b"
  using tr_from_start_end_ok[OF assms] by auto

lemma trimmed_item:
  assumes x: "item_ok tb x" and ab: "in_i64 a" "in_i64 b" and r: "tr_from_start_end (rt_new a tb) (rt_new b tb) = Inr r"
    and run: "trim_item x r side operation = Inr y"
  shows "item_ok tb y \<and> item_start y = a \<and> item_stop y = b \<and> item_id y = item_id x"
proof -
  have "rt_ok (rt_new a tb)" "rt_ok (rt_new b tb)" using ab item_ok_range(4)[OF x] by (simp_all add: rt_ok_def)
  note m = made_range[OF this r]
  show ?thesis using trim_item_ok[OF x _ _ run] m by (auto simp: item_start_def item_stop_def)
qed

section \<open>Replace\<close>

lemma replace_patched:
  assumes t: "track_tiled t e" and m: "item_ok tb' material"
    and run: "apply_replace t tlid trid target material = Inr (out, t')"
  shows "\<exists>i m. i < length (timed_items t) \<and> item_id (timed_items t ! i) = target
     \<and> item_start m = item_start (timed_items t ! i) \<and> item_stop m = item_stop (timed_items t ! i)
     \<and> item_id m = item_id material \<and> timed_items t' = (timed_items t)[i := m]
     \<and> patched t t' (item_start (timed_items t ! i)) (item_stop (timed_items t ! i)) e"
proof -
  let ?tb = "track_timebase t" and ?xs = "timed_items t"
  from run obtain i m items removed where i: "position (\<lambda>item. item_id item = target) ?xs = Some i"
    and m: "normalize_material material (tr_start (timed_range (?xs ! i))) ?tb ''replace'' = Inr m"
    and d: "du_eq (tr_duration (timed_range m)) (tr_duration (timed_range (?xs ! i)))"
    and re: "rebuild_with_transitions (?xs[i := m]) (List.map_filter transition_of (tk_items t)) = Inr (items, removed)"
    and t': "t' = tk_replace_items t items"
    by (auto simp: apply_replace_def Let_def bindR_Inr ok_or_Inr separate_eq outcome_def split: prod.splits if_splits)
  note p = position_Some[OF i]
  have x: "item_ok ?tb (?xs ! i)" using timed_ok[OF t] p by simp
  note e = item_range_eq[OF x]
  have mm: "item_ok ?tb m" "item_start m = item_start (?xs ! i)" "item_id m = item_id material"
    using normalize_ok[OF assms(2) e(3)] m e(1) by simp_all
  note em = item_range_eq[OF mm(1)]
  have "du_ok (tr_duration (timed_range m))" "du_ok (tr_duration (timed_range (?xs ! i)))"
    using item_ok_range(2)[OF mm(1)] item_ok_range(2)[OF x] by (simp_all add: tr_ok_def)
  then have stop: "item_stop m = item_stop (?xs ! i)" using d du_same_timebase(1) e(5,6) em(5,6) mm(2) by simp
  have "patched t (tk_replace_items t items) (item_start (hd [?xs ! i])) (item_stop (last [?xs ! i])) e
      \<and> timed_items (tk_replace_items t items) = take i ?xs @ [m] @ drop (Suc i) ?xs"
    by (rule patch_rebuilt[OF t split_at_index _ _ _ re[unfolded update_at[OF conjunct1[OF p]]]]) (use p mm stop in auto)
  then show ?thesis using p mm stop t' update_at[OF conjunct1[OF p], of m] by (intro exI[of _ i] exI[of _ m]) simp
qed

section \<open>Razor\<close>

lemma razor_plays:
  assumes t: "track_tiled t e" and p: "in_i64 pt"
    and run: "apply_razor t tlid trid target (rt_new pt (track_timebase t)) fragment = Inr (out, t')"
  shows "\<exists>i l r. i < length (timed_items t) \<and> item_id (timed_items t ! i) = target
     \<and> item_start (timed_items t ! i) < pt \<and> pt < item_stop (timed_items t ! i)
     \<and> timed_items t' = take i (timed_items t) @ [l, r] @ drop (Suc i) (timed_items t)
     \<and> item_id l = target \<and> item_stop l = pt \<and> item_id r = fragment \<and> item_start r = pt
     \<and> track_timebase t' = track_timebase t \<and> track_tiled t' e
     \<and> (\<forall>rounding v. stable_rounding rounding \<longrightarrow> track_plays rounding t' v = track_plays rounding t v)"
proof -
  let ?tb = "track_timebase t" and ?xs = "timed_items t"
  from run obtain i where i: "position (\<lambda>item. item_id item = target) ?xs = Some i"
    by (auto simp: apply_razor_def Let_def bindR_Inr ok_or_Inr separate_eq split: prod.splits if_splits)
  note p' = position_Some[OF i]
  have x: "item_ok ?tb (?xs ! i)" using timed_ok[OF t] p' by simp
  note e = item_range_eq[OF x] and lt = item_lt[OF x p] and k = item_ok_range[OF x]
  from run i obtain l r items removed where
    outside: "\<not> rt_le (rt_new pt ?tb) (rt_new (item_start (?xs ! i)) ?tb)" "\<not> rt_le (rt_new (item_stop (?xs ! i)) ?tb) (rt_new pt ?tb)"
    and l: "slice_item (?xs ! i) (rt_new (item_start (?xs ! i)) ?tb) (rt_new pt ?tb) target ''razor'' = Inr l"
    and r: "slice_item (?xs ! i) (rt_new pt ?tb) (rt_new (item_stop (?xs ! i)) ?tb) fragment ''razor'' = Inr r"
    and re: "rebuild_with_transitions (take i ?xs @ [l, r] @ drop (Suc i) ?xs) (List.map_filter transition_of (tk_items t)) = Inr (items, removed)"
    and t': "t' = tk_replace_items t items"
    by (auto simp: apply_razor_def Let_def bindR_Inr ok_or_Inr separate_eq e(1,2) split: prod.splits if_splits)
  have in_: "item_start (?xs ! i) < pt" "pt < item_stop (?xs ! i)" using outside lt e(1) by auto
  have pl: "plays_part ?tb (?xs ! i) 0 l (item_start (?xs ! i)) pt" "item_id l = target"
    using slice_item_plays[OF x k(6) p l] by simp_all
  have pr: "plays_part ?tb (?xs ! i) 0 r pt (item_stop (?xs ! i))" "item_id r = fragment"
    using slice_item_plays[OF x p k(7) r] by simp_all
  have lr: "item_ok ?tb l" "item_ok ?tb r" "item_start l = item_start (?xs ! i)" "item_stop l = pt"
    "item_start r = pt" "item_stop r = item_stop (?xs ! i)" using pl pr by (simp_all add: plays_part_def)
  have re': "patched t (tk_replace_items t items) (item_start (hd [?xs ! i])) (item_stop (last [?xs ! i])) e
      \<and> timed_items (tk_replace_items t items) = take i ?xs @ [l, r] @ drop (Suc i) ?xs"
    by (rule patch_rebuilt[OF t split_at_index _ _ _ re]) (use p' lr in auto)
  have ok: "\<forall>y\<in>set ?xs. item_ok ?tb y" "tiles 0 ?xs e" using t by (simp_all add: track_tiled_def)
  have xs: "?xs = take i ?xs @ [?xs ! i] @ drop (Suc i) ?xs" using split_at_index p' by blast
  obtain b c where ch: "tiles 0 (take i ?xs) b" "tiles b [?xs ! i] c" "tiles c (drop (Suc i) ?xs) e"
    using ok(2) unfolding chain_append by (subst (asm) xs) (auto simp: chain_append)
  have bc: "b = item_start (?xs ! i)" "c = item_stop (?xs ! i)" using ch(2) by auto
  have same: "track_plays rounding t' v = track_plays rounding t v" if st: "stable_rounding rounding" for rounding v
  proof (cases "v < b \<or> c \<le> v")
    case True
    then show ?thesis using re' t' bc unfolding patched_def by simp blast
  next
    case False
    have lr_ok: "\<forall>y\<in>set (take i ?xs @ [l, r] @ drop (Suc i) ?xs). item_ok ?tb y" "tiles b [l, r] c"
      using ok(1) lr bc by (auto dest: in_set_takeD in_set_dropD)
    have x_ok: "\<forall>y\<in>set (take i ?xs @ [?xs ! i] @ drop (Suc i) ?xs). item_ok ?tb y"
      using ok(1) x by (auto dest: in_set_takeD in_set_dropD)
    have "frame_at rounding [l, r] v = frame_at rounding [?xs ! i] v"
      using False bc lr pl(1) pr(1) st in_ by (auto simp: shown_Cons plays_part_def)
    then have "frame_at rounding (take i ?xs @ [l, r] @ drop (Suc i) ?xs) v
        = frame_at rounding (take i ?xs @ [?xs ! i] @ drop (Suc i) ?xs) v"
      using shown_middle[OF lr_ok(1) ch(1) lr_ok(2) ch(3), of rounding v] shown_middle[OF x_ok ch, of rounding v] by simp
    with xs have "frame_at rounding (take i ?xs @ [l, r] @ drop (Suc i) ?xs) v = frame_at rounding ?xs v" by simp
    then show ?thesis using re' t' by (simp add: track_plays_def)
  qed
  show ?thesis
    using p' in_ re' t' lr pl pr same
    by (intro exI[of _ i] exI[of _ l] exI[of _ r]) (simp add: patched_def)
qed

section \<open>Roll and slide\<close>

lemma roll_patched:
  assumes t: "track_tiled t e" and p: "in_i64 pt"
    and run: "apply_roll t tlid trid left_id right_id (rt_new pt (track_timebase t)) = Inr (out, t')"
  shows "\<exists>i l r. Suc i < length (timed_items t) \<and> item_id (timed_items t ! i) = left_id
     \<and> item_id (timed_items t ! Suc i) = right_id
     \<and> item_start (timed_items t ! i) < pt \<and> pt < item_stop (timed_items t ! Suc i)
     \<and> timed_items t' = (timed_items t)[i := l, Suc i := r] \<and> item_id l = left_id \<and> item_id r = right_id
     \<and> item_stop l = pt \<and> item_start r = pt
     \<and> patched t t' (item_start (timed_items t ! i)) (item_stop (timed_items t ! Suc i)) e"
proof -
  let ?tb = "track_timebase t" and ?xs = "timed_items t"
  from run obtain i where i: "position (\<lambda>item. item_id item = left_id) ?xs = Some i"
    "position (\<lambda>item. item_id item = right_id) ?xs = Some (Suc i)"
    by (auto simp: apply_roll_def Let_def bindR_Inr ok_or_Inr separate_eq split: prod.splits if_splits)
  note pi = position_Some[OF i(1)] and pj = position_Some[OF i(2)]
  have xy: "item_ok ?tb (?xs ! i)" "item_ok ?tb (?xs ! Suc i)" using timed_ok[OF t] pi pj by simp_all
  note e = item_range_eq[OF xy(1)] and e' = item_range_eq[OF xy(2)]
    and lt = item_lt[OF xy(1) p] and lt' = item_lt[OF xy(2) p]
  from run i obtain ra rb l r items removed where
    outside: "\<not> rt_le (rt_new pt ?tb) (tr_start (timed_range (?xs ! i)))" "\<not> rt_le (rt_new (item_stop (?xs ! Suc i)) ?tb) (rt_new pt ?tb)"
    and ra: "tr_from_start_end (rt_new (item_start (?xs ! i)) ?tb) (rt_new pt ?tb) = Inr ra"
      "trim_item (?xs ! i) ra SideEnd ''roll'' = Inr l"
    and rb: "tr_from_start_end (rt_new pt ?tb) (rt_new (item_stop (?xs ! Suc i)) ?tb) = Inr rb"
      "trim_item (?xs ! Suc i) rb SideStart ''roll'' = Inr r"
    and re: "rebuild_with_transitions (?xs[i := l, Suc i := r]) (List.map_filter transition_of (tk_items t)) = Inr (items, removed)"
    and t': "t' = tk_replace_items t items"
    by (auto simp: apply_roll_def Let_def bindR_Inr ok_or_Inr separate_eq e(1,2) e'(1,2) split: prod.splits if_splits)
  note l = trimmed_item[OF xy(1) item_ok_range(6)[OF xy(1)] p ra]
    and r = trimmed_item[OF xy(2) p item_ok_range(7)[OF xy(2)] rb]
  have in_: "item_start (?xs ! i) < pt" "pt < item_stop (?xs ! Suc i)" using outside lt lt' by auto
  have "patched t (tk_replace_items t items) (item_start (hd [?xs ! i, ?xs ! Suc i])) (item_stop (last [?xs ! i, ?xs ! Suc i])) e
      \<and> timed_items (tk_replace_items t items) = take i ?xs @ [l, r] @ drop (Suc (Suc i)) ?xs"
    by (rule patch_rebuilt[OF t split_at_pair _ _ _ re[unfolded update_pair[OF conjunct1[OF pj]]]]) (use pj l r in auto)
  then show ?thesis using pi pj in_ l r t' update_pair[OF conjunct1[OF pj], of l r]
    by (intro exI[of _ i] exI[of _ l] exI[of _ r]) simp
qed

lemma split_at_triple: "Suc (Suc i) < length xs
    \<Longrightarrow> xs = take i xs @ [xs ! i, xs ! Suc i, xs ! Suc (Suc i)] @ drop (Suc (Suc (Suc i))) xs"
  by (simp add: Cons_nth_drop_Suc id_take_nth_drop)

lemma update_triple:
  assumes "Suc (Suc i) < length xs"
  shows "xs[i := x, Suc i := y, Suc (Suc i) := z] = take i xs @ [x, y, z] @ drop (Suc (Suc (Suc i))) xs"
proof -
  have "xs[i := x, Suc i := y, Suc (Suc i) := z]
      = (take i xs @ [xs ! i, xs ! Suc i, xs ! Suc (Suc i)] @ drop (Suc (Suc (Suc i))) xs)[i := x, Suc i := y, Suc (Suc i) := z]"
    using split_at_triple[OF assms] by metis
  also have "\<dots> = take i xs @ [x, y, z] @ drop (Suc (Suc (Suc i))) xs" using assms by (simp add: list_update_append)
  finally show ?thesis .
qed

lemma slide_patched:
  assumes t: "track_tiled t e" and p: "in_i64 pt"
    and run: "apply_slide t tlid trid ident (rt_new pt (track_timebase t)) = Inr (out, t')"
  shows "\<exists>i l m r. Suc (Suc i) < length (timed_items t) \<and> item_id (timed_items t ! Suc i) = OClip ident
     \<and> timed_items t' = (timed_items t)[i := l, Suc i := m, Suc (Suc i) := r]
     \<and> plays_part (track_timebase t) (timed_items t ! Suc i) (pt - item_start (timed_items t ! Suc i)) m pt
          (item_stop (timed_items t ! Suc i) + (pt - item_start (timed_items t ! Suc i)))
     \<and> item_id l = item_id (timed_items t ! i) \<and> item_id r = item_id (timed_items t ! Suc (Suc i))
     \<and> item_start l < item_stop l \<and> item_stop l = pt \<and> item_start r = item_stop m \<and> item_start r < item_stop r
     \<and> patched t t' (item_start (timed_items t ! i)) (item_stop (timed_items t ! Suc (Suc i))) e"
proof -
  let ?tb = "track_timebase t" and ?xs = "timed_items t"
  from run obtain j where j: "position (\<lambda>item. item_id item = OClip ident) ?xs = Some j" "0 < j" "j + 1 < length ?xs"
    by (auto simp: apply_slide_def Let_def bindR_Inr ok_or_Inr separate_eq split: prod.splits if_splits)
  then obtain i where i: "j = Suc i" by (cases j) auto
  note pj = position_Some[OF j(1)]
  have len: "Suc (Suc i) < length ?xs" using j i by simp
  let ?x = "?xs ! i" and ?y = "?xs ! Suc i" and ?z = "?xs ! Suc (Suc i)"
  have ok: "item_ok ?tb ?x" "item_ok ?tb ?y" "item_ok ?tb ?z" using timed_ok[OF t] len by simp_all
  note ex = item_range_eq[OF ok(1)] and ey = item_range_eq[OF ok(2)] and ez = item_range_eq[OF ok(3)]
  have d: "du_ok (tr_duration (timed_range ?y))" using item_ok_range(2)[OF ok(2)] by (simp add: tr_ok_def)
  have dr: "du_rational_time (tr_duration (timed_range ?y)) = rt_new (item_stop ?y - item_start ?y) ?tb"
    using du_rational_simps[of "tr_duration (timed_range ?y)"] d ey(5,6) by (auto intro: rational_time.equality)
  have pok: "rt_ok (rt_new pt ?tb)" using p ok(2) item_ok_range(4) by (auto simp: rt_ok_def)
  let ?ne = "pt + (item_stop ?y - item_start ?y)"
  from run j(1) i obtain ne la l ma m rb r items removed where
    ne: "rt_checked_add_at (rt_new pt ?tb) (rt_new (item_stop ?y - item_start ?y) ?tb) ?tb RoundExact = Inr ne"
    and outside: "\<not> rt_le (rt_new pt ?tb) (tr_start (timed_range ?x))" "\<not> rt_le (rt_new (item_stop ?z) ?tb) ne"
    and l: "tr_from_start_end (rt_new (item_start ?x) ?tb) (rt_new pt ?tb) = Inr la" "trim_item ?x la SideEnd ''slide'' = Inr l"
    and m: "tr_new (rt_new pt ?tb) (tr_duration (timed_range ?y)) = Inr ma" "reposition_item ?y ma ''slide'' = Inr m"
    and r: "tr_from_start_end ne (rt_new (item_stop ?z) ?tb) = Inr rb" "trim_item ?z rb SideStart ''slide'' = Inr r"
    and re: "rebuild_with_transitions (?xs[i := l, Suc i := m, Suc (Suc i) := r]) (List.map_filter transition_of (tk_items t)) = Inr (items, removed)"
    and t': "t' = tk_replace_items t items"
    by (auto simp: apply_slide_def Let_def bindR_Inr ok_or_Inr separate_eq ex(1,2) ey(1,2) ez(1,2) dr split: prod.splits if_splits)
  have "rt_ok (rt_new (item_stop ?y - item_start ?y) ?tb)" using du_rational_ok[OF d] dr by simp
  then have ne': "ne = rt_new ?ne ?tb" "in_i64 ?ne"
    using ne add_same_timebase[OF pok, of "rt_new (item_stop ?y - item_start ?y) ?tb" ?tb RoundExact] by (auto split: if_splits)
  note l' = trimmed_item[OF ok(1) item_ok_range(6)[OF ok(1)] p l]
    and r' = trimmed_item[OF ok(3) ne'(2) item_ok_range(7)[OF ok(3)] r[unfolded ne'(1)]]
  have mp: "plays_part ?tb ?y (pt - item_start ?y) m pt ?ne"
    using move_plays[OF ok(2), of "pt - item_start ?y" ma] m p by (simp add: reposition_item_def algebra_simps)
  have in_: "item_start ?x < pt" "?ne < item_stop ?z"
    using outside item_lt(2)[OF ok(1) p] item_lt(4)[OF ok(3) ne'(2)] ne'(1) by auto
  have "patched t (tk_replace_items t items) (item_start (hd [?x, ?y, ?z])) (item_stop (last [?x, ?y, ?z])) e
      \<and> timed_items (tk_replace_items t items) = take i ?xs @ [l, m, r] @ drop (Suc (Suc (Suc i))) ?xs"
    by (rule patch_rebuilt[OF t split_at_triple _ _ _ re[unfolded update_triple[OF len]]])
      (use len l' r' mp in \<open>auto simp: plays_part_def\<close>)
  then show ?thesis using pj i len in_ l' r' mp t' update_triple[OF len, of l m r]
    by (intro exI[of _ i] exI[of _ l] exI[of _ m] exI[of _ r]) (simp add: plays_part_def)
qed

section \<open>Ripple\<close>

lemma shift_tail:
  assumes "\<forall>x\<in>set xs. item_ok tb x" "tiles a xs b" "rt_ok (rt_new k tb)"
    "traverse (\<lambda>item. shift_item_by item (rt_new k tb) tb operation) xs = Inr ys"
  shows "(\<forall>y\<in>set ys. item_ok tb y) \<and> tiles (a + k) ys (b + k)
    \<and> (\<forall>rounding v. stable_rounding rounding \<longrightarrow> frame_at rounding ys (v + k) = frame_at rounding xs v)"
  using assms
proof (induction xs arbitrary: a ys)
  case (Cons x xs)
  then obtain y zs where y: "shift_item_by x (rt_new k tb) tb operation = Inr y"
    and zs: "traverse (\<lambda>item. shift_item_by item (rt_new k tb) tb operation) xs = Inr zs" and ys: "ys = y # zs"
    by (auto simp: result_simps)
  have x: "item_ok tb x" "item_start x = a" "tiles (item_stop x) xs b" using Cons.prems by auto
  have pl: "plays_part tb x k y (a + k) (item_stop x + k)" using shift_by_plays[OF x(1) Cons.prems(3) y] x(2) by simp
  have ih: "(\<forall>y\<in>set zs. item_ok tb y) \<and> tiles (item_stop x + k) zs (b + k)
      \<and> (\<forall>rounding v. stable_rounding rounding \<longrightarrow> frame_at rounding zs (v + k) = frame_at rounding xs v)"
    by (rule Cons.IH[OF _ x(3) Cons.prems(3) zs]) (use Cons.prems in auto)
  show ?case using pl ih ys x(2) by (auto simp: plays_part_def shown_Cons)
qed simp

lemma ripple_moves:
  assumes t: "track_tiled t e" and p: "in_i64 pt"
    and run: "apply_ripple t tlid trid target side (rt_new pt (track_timebase t)) = Inr (out, t')"
  shows "\<exists>i x delta. i < length (timed_items t) \<and> item_id (timed_items t ! i) = target
     \<and> delta = (case side of SideStart \<Rightarrow> item_start (timed_items t ! i) - pt | SideEnd \<Rightarrow> pt - item_stop (timed_items t ! i))
     \<and> track_timebase t' = track_timebase t \<and> track_tiled t' (e + delta)
     \<and> timed_items t' ! i = x \<and> i < length (timed_items t')
     \<and> item_id x = target \<and> item_start x = item_start (timed_items t ! i)
     \<and> item_stop x = item_stop (timed_items t ! i) + delta
     \<and> (\<exists>r. tr_ok r \<and> tr_timebase r = track_timebase t \<and> trim_item (timed_items t ! i) r side ''ripple'' = Inr x)
     \<and> (\<forall>rounding v. stable_rounding rounding \<longrightarrow>
          (v < item_start x \<longrightarrow> track_plays rounding t' v = track_plays rounding t v)
          \<and> (item_stop (timed_items t ! i) \<le> v \<longrightarrow> track_plays rounding t' (v + delta) = track_plays rounding t v))"
proof -
  let ?tb = "track_timebase t" and ?xs = "timed_items t"
  from run obtain i where i: "position (\<lambda>item. item_id item = target) ?xs = Some i"
    by (auto simp: apply_ripple_def Let_def bindR_Inr ok_or_Inr separate_eq split: prod.splits if_splits)
  note pi = position_Some[OF i]
  let ?x = "?xs ! i"
  have x: "item_ok ?tb ?x" using timed_ok[OF t] pi by simp
  note e = item_range_eq[OF x] and k = item_ok_range[OF x]
  have pok: "rt_ok (rt_new pt ?tb)" using p k(4) by (simp add: rt_ok_def)
  let ?edge = "case side of
       SideStart \<Rightarrow>
         (if rt_le (rt_new (item_stop ?x) ?tb) (rt_new pt ?tb)
          then Inl (invalid_edit ''ripple'' ''ripple start must remain before the target end'')
          else
          bindR (rt_checked_sub_at (rt_new pt ?tb) (rt_new (item_start ?x) ?tb) ?tb RoundExact) (\<lambda>removed.
          bindR (rt_checked_sub_at (rt_new (item_stop ?x) ?tb) removed ?tb RoundExact) (\<lambda>new_end.
          bindR (tr_from_start_end (rt_new (item_start ?x) ?tb) new_end) (\<lambda>r.
          bindR (rt_checked_sub_at new_end (rt_new (item_stop ?x) ?tb) ?tb RoundExact) (\<lambda>delta. Inr (r, delta))))))
     | SideEnd \<Rightarrow>
         (if rt_le (rt_new pt ?tb) (rt_new (item_start ?x) ?tb)
          then Inl (invalid_edit ''ripple'' ''ripple end must remain after the target start'')
          else
          bindR (tr_from_start_end (rt_new (item_start ?x) ?tb) (rt_new pt ?tb)) (\<lambda>r.
          bindR (rt_checked_sub_at (rt_new pt ?tb) (rt_new (item_stop ?x) ?tb) ?tb RoundExact) (\<lambda>delta. Inr (r, delta))))"
  define delta where "delta = (case side of SideStart \<Rightarrow> item_start ?x - pt | SideEnd \<Rightarrow> pt - item_stop ?x)"
  from run i obtain r dt y ys items removed where edge: "?edge = Inr (r, dt)"
    and y: "trim_item ?x r side ''ripple'' = Inr y"
    and ys: "traverse (\<lambda>item. shift_item_by item dt ?tb ''ripple'') (drop (Suc i) ?xs) = Inr ys"
    and re: "rebuild_with_transitions (take i ?xs @ y # ys) (List.map_filter transition_of (tk_items t)) = Inr (items, removed)"
    and t': "t' = tk_replace_items t items"
    by (auto simp: apply_ripple_def Let_def bindR_Inr ok_or_Inr separate_eq e(1,2) split: prod.splits if_splits
      cong: edit_side.case_cong)
  have r: "tr_from_start_end (rt_new (item_start ?x) ?tb) (rt_new (item_stop ?x + delta) ?tb) = Inr r
      \<and> dt = rt_new delta ?tb \<and> in_i64 delta \<and> in_i64 (item_stop ?x + delta)"
  proof (cases side)
    case SideEnd
    with edge show ?thesis using sub_same_timebase[OF pok e(4), of ?tb RoundExact] p
      by (auto simp: delta_def bindR_Inr split: if_splits)
  next
    case SideStart
    with edge obtain rm ne where rm: "rt_checked_sub_at (rt_new pt ?tb) (rt_new (item_start ?x) ?tb) ?tb RoundExact = Inr rm"
      "rt_checked_sub_at (rt_new (item_stop ?x) ?tb) rm ?tb RoundExact = Inr ne"
      "tr_from_start_end (rt_new (item_start ?x) ?tb) ne = Inr r"
      "rt_checked_sub_at ne (rt_new (item_stop ?x) ?tb) ?tb RoundExact = Inr dt"
      by (auto simp: bindR_Inr split: if_splits)
    have "rm = rt_new (pt - item_start ?x) ?tb \<and> in_i64 (pt - item_start ?x)"
      using rm(1) sub_same_timebase[OF pok e(3), of ?tb RoundExact] by (auto split: if_splits)
    then have "rt_ok rm" "rm = rt_new (- delta) ?tb" using k(4) SideStart by (simp_all add: rt_ok_def delta_def)
    then have "ne = rt_new (item_stop ?x + delta) ?tb \<and> in_i64 (item_stop ?x + delta)"
      using rm(2) sub_same_timebase[OF e(4) _, of rm ?tb RoundExact] by (auto split: if_splits)
    then have "rt_ok ne" "ne = rt_new (item_stop ?x + delta) ?tb" "in_i64 (item_stop ?x + delta)"
      using k(4) by (simp_all add: rt_ok_def)
    then show ?thesis using rm(3,4) sub_same_timebase[OF _ e(4), of ne ?tb RoundExact] by (auto split: if_splits)
  qed
  have yy: "item_ok ?tb y \<and> item_start y = item_start ?x \<and> item_stop y = item_stop ?x + delta \<and> item_id y = item_id ?x"
    using trimmed_item[OF x k(6) conjunct2[OF conjunct2[OF conjunct2[OF r]]] conjunct1[OF r] y] by simp
  have "rt_ok (rt_new (item_stop ?x + delta) ?tb)" using r k(4) by (simp add: rt_ok_def)
  then have rr: "tr_ok r \<and> tr_timebase r = ?tb" using made_range[OF e(3) _ conjunct1[OF r]] by simp
  have ok: "tb_ok ?tb" "\<forall>y\<in>set ?xs. item_ok ?tb y" "tiles 0 ?xs e" using t by (simp_all add: track_tiled_def)
  have xs: "?xs = take i ?xs @ [?x] @ drop (Suc i) ?xs" using split_at_index pi by blast
  obtain b c where ch: "tiles 0 (take i ?xs) b" "tiles b [?x] c" "tiles c (drop (Suc i) ?xs) e"
    using ok(3) by (subst (asm) xs) (auto simp: chain_append)
  have bc: "b = item_start ?x" "c = item_stop ?x" using ch(2) by auto
  have okt: "\<forall>y\<in>set (take i ?xs). item_ok ?tb y" "\<forall>y\<in>set (drop (Suc i) ?xs). item_ok ?tb y"
    using ok(2) by (auto dest: in_set_takeD in_set_dropD)
  have dok: "rt_ok (rt_new delta ?tb)" using r k(4) by (simp add: rt_ok_def)
  note tail = shift_tail[OF okt(2) ch(3) dok ys[unfolded conjunct1[OF conjunct2[OF r]]]]
  have ys': "tiles (c + delta) ys (e + delta)" "tiles b [y] (c + delta)" using tail yy bc by auto
  have all_ok: "\<forall>z\<in>set (take i ?xs @ [y] @ ys). item_ok ?tb z" using okt(1) yy tail by auto
  have x_ok: "\<forall>z\<in>set (take i ?xs @ [?x] @ drop (Suc i) ?xs). item_ok ?tb z" using okt x by auto
  have "tiles 0 (take i ?xs @ [y] @ ys) (e + delta)" using ch(1) ys' by (auto simp: chain_append)
  from rebuild_tiled[OF ok(1) all_ok this] re
  have re': "timed_items t' = take i ?xs @ [y] @ ys" "track_tiled t' (e + delta)" "track_timebase t' = ?tb"
    using t' by auto
  have yle: "item_start y \<le> item_stop y" using yy item_ok_range(5)[of ?tb y] by simp
  have "frame_at rounding (take i ?xs @ [y] @ ys) v = frame_at rounding ?xs v" if "v < b" for rounding v
    using shown_middle[OF all_ok ch(1) ys'(2,1), of rounding v] shown_middle[OF x_ok ch, of rounding v] that xs by simp
  moreover have "frame_at rounding (take i ?xs @ [y] @ ys) (v + delta) = frame_at rounding ?xs v"
    if "c \<le> v" "stable_rounding rounding" for rounding v
    using shown_middle[OF all_ok ch(1) ys'(2,1), of rounding "v + delta"] shown_middle[OF x_ok ch, of rounding v]
      that xs tail yle yy bc item_ok_range(5)[OF x] by simp
  ultimately show ?thesis
    using pi yy re' bc delta_def rr y
    by (intro exI[of _ i] exI[of _ y] exI[of _ delta]) (auto simp: track_plays_def nth_append min_def)
qed

section \<open>Trim\<close>

text \<open>The target and at most the neighbouring gap are replaced by items that cover the same ticks.\<close>

definition trim_patch :: "timebase \<Rightarrow> track_item list \<Rightarrow> nat \<Rightarrow> track_item \<Rightarrow> track_item list \<Rightarrow> bool" where
  "trim_patch tb xs i y ys \<longleftrightarrow> (\<exists>P M Q M'. xs = P @ M @ Q \<and> ys = P @ M' @ Q \<and> M \<noteq> [] \<and> (\<forall>z\<in>set M'. item_ok tb z)
     \<and> tiles (item_start (hd M)) M' (item_stop (last M)) \<and> y \<in> set M' \<and> (\<forall>z\<in>set M. z = xs ! i \<or> is_gap z))"

lemma trim_patchI:
  "xs = P @ M @ Q \<Longrightarrow> ys = P @ M' @ Q \<Longrightarrow> M \<noteq> [] \<Longrightarrow> (\<forall>z\<in>set M'. item_ok tb z)
    \<Longrightarrow> tiles (item_start (hd M)) M' (item_stop (last M)) \<Longrightarrow> y \<in> set M' \<Longrightarrow> (\<forall>z\<in>set M. z = xs ! i \<or> is_gap z)
    \<Longrightarrow> trim_patch tb xs i y ys"
  unfolding trim_patch_def by blast

lemma gap_range_set:
  assumes "item_ok tb g" "in_i64 a" "in_i64 b" "tr_from_start_end (rt_new a tb) (rt_new b tb) = Inr r"
    "set_record_range g r operation = Inr h"
  shows "item_ok tb h \<and> item_start h = a \<and> item_stop h = b"
proof -
  have "rt_ok (rt_new a tb)" "rt_ok (rt_new b tb)" using assms(2,3) item_ok_range(4)[OF assms(1)] by (simp_all add: rt_ok_def)
  note m = made_range[OF this assms(4)]
  show ?thesis using set_range_ok[OF assms(1) _ _ assms(5)] m by (auto simp: item_start_def item_stop_def)
qed

lemma gap_made:
  assumes "tb_ok tb" "in_i64 a" "in_i64 b" "tr_from_start_end (rt_new a tb) (rt_new b tb) = Inr r" "trim_gap ident r = Inr g"
  shows "item_ok tb g \<and> item_start g = a \<and> item_stop g = b"
proof -
  have "rt_ok (rt_new a tb)" "rt_ok (rt_new b tb)" using assms(1-3) by (simp_all add: rt_ok_def)
  note m = made_range[OF this assms(4)]
  show ?thesis using m assms(5) by (auto simp: trim_gap_def result_simps item_start_def item_stop_def)
qed

lemma insert_at_next: "i < length xs \<Longrightarrow> insert_at (i + 1) g (xs[i := y]) = take i xs @ [y, g] @ drop (Suc i) xs"
  by (simp add: insert_at_def upd_conv_take_nth_drop)

lemma insert_at_here: "i < length xs \<Longrightarrow> insert_at i g (xs[i := y]) = take i xs @ [g, y] @ drop (Suc i) xs"
  by (simp add: insert_at_def upd_conv_take_nth_drop)

lemma remove_at_next: "Suc i < length xs \<Longrightarrow> remove_at (Suc i) (xs[i := y]) = take i xs @ [y] @ drop (Suc (Suc i)) xs"
  by (simp add: remove_at_def upd_conv_take_nth_drop take_Suc_conv_app_nth)

lemma remove_at_previous: "Suc i < length xs \<Longrightarrow> remove_at i (xs[Suc i := y]) = take i xs @ [y] @ drop (Suc (Suc i)) xs"
  by (simp add: remove_at_def upd_conv_take_nth_drop min_def)

lemma update_pair_right: "Suc i < length xs \<Longrightarrow> xs[Suc i := z, i := y] = take i xs @ [y, z] @ drop (Suc (Suc i)) xs"
  using update_pair[of i xs y z] by (simp add: list_update_swap)

lemma trim_end_inward_patch:
  assumes ok: "\<forall>x\<in>set xs. item_ok tb x" and ch: "tiles s xs e" and i: "i < length xs" and p: "in_i64 pt"
    and r: "tr_from_start_end (rt_new (item_start (xs ! i)) tb) (rt_new pt tb) = Inr r"
    and run: "trim_end_inward xs i r (rt_new pt tb) (rt_new (item_stop (xs ! i)) tb) gap_ident target = Inr (ys, ins, rem, mods)"
  shows "\<exists>y. trim_patch tb xs i y ys \<and> item_id y = item_id (xs ! i) \<and> item_start y = item_start (xs ! i) \<and> item_stop y = pt"
proof -
  let ?x = "xs ! i"
  have x: "item_ok tb ?x" using ok i by simp
  note k = item_ok_range[OF x]
  from run obtain y gr where y: "trim_item ?x r SideEnd ''trim'' = Inr y"
    and gr: "tr_from_start_end (rt_new pt tb) (rt_new (item_stop ?x) tb) = Inr gr"
    by (auto simp: trim_end_inward_def Let_def bindR_Inr split: if_splits)
  note yy = trimmed_item[OF x k(6) p r y]
  show ?thesis
  proof (cases "Suc i < length xs \<and> is_gap (xs ! Suc i)")
    case True
    let ?g = "xs ! Suc i"
    have g: "item_ok tb ?g" "item_start ?g = item_stop ?x"
      using ok True ch split_at_pair[of i xs] by (auto) (metis append_Cons chain.simps(2) chain_append)
    from run y gr True obtain hr h where h: "tr_from_start_end (rt_new pt tb) (rt_new (item_stop ?g) tb) = Inr hr"
      "set_record_range ?g hr ''trim'' = Inr h" and ys: "ys = xs[i := y, Suc i := h]"
      by (auto simp: trim_end_inward_def Let_def bindR_Inr item_range_eq(2)[OF g(1)])
    note hh = gap_range_set[OF g(1) p item_ok_range(7)[OF g(1)] h]
    show ?thesis
      using True ys yy hh update_pair[of i xs y h] split_at_pair[of i xs]
      by (intro exI[of _ y] conjI trim_patchI[of xs "take i xs" "[?x, ?g]" "drop (Suc (Suc i)) xs" ys "[y, h]"]) auto
  next
    case False
    with run y gr i obtain g where g: "trim_gap gap_ident gr = Inr g" and ys: "ys = insert_at (i + 1) g (xs[i := y])"
      by (auto simp: trim_end_inward_def Let_def bindR_Inr split: if_splits)
    note gg = gap_made[OF k(4) p k(7) gr g]
    show ?thesis
      using ys yy gg i insert_at_next[OF i, of g y] split_at_index[OF i]
      by (intro exI[of _ y] conjI trim_patchI[of xs "take i xs" "[?x]" "drop (Suc i) xs" ys "[y, g]"]) auto
  qed
qed

lemma trim_end_outward_patch:
  assumes ok: "\<forall>x\<in>set xs. item_ok tb x" and ch: "tiles s xs e" and i: "i < length xs" and p: "in_i64 pt"
    and r: "tr_from_start_end (rt_new (item_start (xs ! i)) tb) (rt_new pt tb) = Inr r"
    and run: "trim_end_outward xs i r (rt_new pt tb) target = Inr (ys, ins, rem, mods)"
  shows "\<exists>y. trim_patch tb xs i y ys \<and> item_id y = item_id (xs ! i) \<and> item_start y = item_start (xs ! i) \<and> item_stop y = pt"
proof -
  let ?x = "xs ! i" and ?g = "xs ! Suc i"
  have x: "item_ok tb ?x" using ok i by simp
  note k = item_ok_range[OF x]
  from run have len: "Suc i < length xs" "is_gap ?g" by (auto simp: trim_end_outward_def Let_def split: if_splits)
  have g: "item_ok tb ?g" "item_start ?g = item_stop ?x"
    using ok len ch split_at_pair[of i xs] by (auto) (metis append_Cons chain.simps(2) chain_append)
  note e = item_range_eq[OF g(1)]
  have pok: "rt_ok (rt_new pt tb)" using p k(4) by (simp add: rt_ok_def)
  from run len obtain y where y: "trim_item ?x r SideEnd ''trim'' = Inr y"
    by (auto simp: trim_end_outward_def Let_def bindR_Inr e(2) split: if_splits)
  note yy = trimmed_item[OF x k(6) p r y]
  show ?thesis
  proof (cases "pt = item_stop ?g")
    case True
    then have "ys = remove_at (Suc i) (xs[i := y])"
      using run len y rt_same_timebase(1)[OF pok e(4)] by (auto simp: trim_end_outward_def Let_def bindR_Inr e(2) split: if_splits)
    with yy len True remove_at_next[of i xs y] split_at_pair[of i xs] show ?thesis
      by (intro exI[of _ y] conjI trim_patchI[of xs "take i xs" "[?x, ?g]" "drop (Suc (Suc i)) xs" ys "[y]"]) auto
  next
    case False
    then obtain hr h where h: "tr_from_start_end (rt_new pt tb) (rt_new (item_stop ?g) tb) = Inr hr"
      "set_record_range ?g hr ''trim'' = Inr h" and ys: "ys = xs[i := y, Suc i := h]"
      using run len y rt_same_timebase(1)[OF pok e(4)] by (auto simp: trim_end_outward_def Let_def bindR_Inr e(2) split: if_splits)
    note hh = gap_range_set[OF g(1) p item_ok_range(7)[OF g(1)] h]
    show ?thesis
      using len ys yy hh update_pair[of i xs y h] split_at_pair[of i xs]
      by (intro exI[of _ y] conjI trim_patchI[of xs "take i xs" "[?x, ?g]" "drop (Suc (Suc i)) xs" ys "[y, h]"]) auto
  qed
qed

lemma trim_start_inward_patch:
  assumes ok: "\<forall>x\<in>set xs. item_ok tb x" and ch: "tiles s xs e" and i: "i < length xs" and p: "in_i64 pt"
    and r: "tr_from_start_end (rt_new pt tb) (rt_new (item_stop (xs ! i)) tb) = Inr r"
    and run: "trim_start_inward xs i r (rt_new pt tb) (rt_new (item_start (xs ! i)) tb) gap_ident target = Inr (ys, ins, rem, mods)"
  shows "\<exists>y. trim_patch tb xs i y ys \<and> item_id y = item_id (xs ! i) \<and> item_start y = pt \<and> item_stop y = item_stop (xs ! i)"
proof -
  let ?x = "xs ! i"
  have x: "item_ok tb ?x" using ok i by simp
  note k = item_ok_range[OF x]
  from run obtain y where y: "trim_item ?x r SideStart ''trim'' = Inr y"
    by (auto simp: trim_start_inward_def Let_def bindR_Inr split: if_splits)
  note yy = trimmed_item[OF x p k(7) r y]
  show ?thesis
  proof (cases "0 < i \<and> is_gap (xs ! (i - 1))")
    case True
    then obtain j where j: "i = Suc j" by (cases i) auto
    let ?g = "xs ! j"
    have len: "Suc j < length xs" using i j by simp
    have g: "item_ok tb ?g" "item_stop ?g = item_start ?x"
      using ok len ch split_at_pair[OF len] j by (auto) (metis append_Cons chain.simps(2) chain_append)
    from run y True j obtain hr h where h: "tr_from_start_end (rt_new (item_start ?g) tb) (rt_new pt tb) = Inr hr"
      "set_record_range ?g hr ''trim'' = Inr h" and ys: "ys = xs[Suc j := y, j := h]"
      by (auto simp: trim_start_inward_def Let_def bindR_Inr item_range_eq(1)[OF g(1)])
    note hh = gap_range_set[OF g(1) item_ok_range(6)[OF g(1)] p h]
    show ?thesis
      using True ys yy hh update_pair_right[OF len, of y h] split_at_pair[OF len] j
      by (intro exI[of _ y] conjI trim_patchI[of xs "take j xs" "[?g, ?x]" "drop (Suc (Suc j)) xs" ys "[h, y]"]) auto
  next
    case False
    with run y obtain gr g where gr: "tr_from_start_end (rt_new (item_start ?x) tb) (rt_new pt tb) = Inr gr"
      and g: "trim_gap gap_ident gr = Inr g" and ys: "ys = insert_at i g (xs[i := y])"
      by (auto simp: trim_start_inward_def Let_def bindR_Inr split: if_splits)
    note gg = gap_made[OF k(4) k(6) p gr g]
    show ?thesis
      using ys yy gg i insert_at_here[OF i, of g y] split_at_index[OF i]
      by (intro exI[of _ y] conjI trim_patchI[of xs "take i xs" "[?x]" "drop (Suc i) xs" ys "[g, y]"]) auto
  qed
qed

lemma trim_start_outward_patch:
  assumes ok: "\<forall>x\<in>set xs. item_ok tb x" and ch: "tiles s xs e" and i: "i < length xs" and p: "in_i64 pt"
    and r: "tr_from_start_end (rt_new pt tb) (rt_new (item_stop (xs ! i)) tb) = Inr r"
    and run: "trim_start_outward xs i r (rt_new pt tb) target = Inr (ys, ins, rem, mods)"
  shows "\<exists>y. trim_patch tb xs i y ys \<and> item_id y = item_id (xs ! i) \<and> item_start y = pt \<and> item_stop y = item_stop (xs ! i)"
proof -
  let ?x = "xs ! i"
  have x: "item_ok tb ?x" using ok i by simp
  note k = item_ok_range[OF x]
  from run have i0: "i \<noteq> 0" "is_gap (xs ! (i - 1))" by (auto simp: trim_start_outward_def Let_def split: if_splits)
  then obtain j where j: "i = Suc j" by (cases i) auto
  let ?g = "xs ! j"
  have len: "Suc j < length xs" "is_gap ?g" using i i0 j by simp_all
  have g: "item_ok tb ?g" "item_stop ?g = item_start ?x"
    using ok len ch split_at_pair[OF len(1)] j by (auto) (metis append_Cons chain.simps(2) chain_append)
  note e = item_range_eq[OF g(1)]
  have pok: "rt_ok (rt_new pt tb)" using p k(4) by (simp add: rt_ok_def)
  from run i0 j obtain y where y: "trim_item ?x r SideStart ''trim'' = Inr y"
    by (auto simp: trim_start_outward_def Let_def bindR_Inr e(1) split: if_splits)
  note yy = trimmed_item[OF x p k(7) r y]
  show ?thesis
  proof (cases "pt = item_start ?g")
    case True
    then have "ys = remove_at j (xs[Suc j := y])"
      using run i0 j y rt_same_timebase(1)[OF pok e(3)] by (auto simp: trim_start_outward_def Let_def bindR_Inr e(1) split: if_splits)
    with yy len True j remove_at_previous[OF len(1), of y] split_at_pair[OF len(1)] show ?thesis
      by (intro exI[of _ y] conjI trim_patchI[of xs "take j xs" "[?g, ?x]" "drop (Suc (Suc j)) xs" ys "[y]"]) auto
  next
    case False
    then obtain hr h where h: "tr_from_start_end (rt_new (item_start ?g) tb) (rt_new pt tb) = Inr hr"
      "set_record_range ?g hr ''trim'' = Inr h" and ys: "ys = xs[Suc j := y, j := h]"
      using run i0 j y rt_same_timebase(1)[OF pok e(3)] by (auto simp: trim_start_outward_def Let_def bindR_Inr e(1) split: if_splits)
    note hh = gap_range_set[OF g(1) item_ok_range(6)[OF g(1)] p h]
    show ?thesis
      using len ys yy hh update_pair_right[OF len(1), of y h] split_at_pair[OF len(1)] j
      by (intro exI[of _ y] conjI trim_patchI[of xs "take j xs" "[?g, ?x]" "drop (Suc (Suc j)) xs" ys "[h, y]"]) auto
  qed
qed

lemma trim_patch_plays:
  assumes t: "track_tiled t e" and i: "i < length (timed_items t)" and p: "trim_patch (track_timebase t) (timed_items t) i y ys"
    and re: "rebuild_with_transitions ys ts = Inr (items, removed)"
  shows "timed_items (tk_replace_items t items) = ys \<and> track_tiled (tk_replace_items t items) e \<and> y \<in> set ys
    \<and> (\<forall>rounding v. \<not> (item_start (timed_items t ! i) \<le> v \<and> v < item_stop (timed_items t ! i))
        \<longrightarrow> track_plays rounding t v \<noteq> Some FrameGap
        \<longrightarrow> track_plays rounding (tk_replace_items t items) v = track_plays rounding t v)"
proof -
  let ?tb = "track_timebase t" and ?xs = "timed_items t"
  from p obtain P M Q M' where xs: "?xs = P @ M @ Q" and ys: "ys = P @ M' @ Q" and M: "M \<noteq> []"
    and M': "\<forall>z\<in>set M'. item_ok ?tb z" "tiles (item_start (hd M)) M' (item_stop (last M))" "y \<in> set M'"
    and gaps: "\<forall>z\<in>set M. z = ?xs ! i \<or> is_gap z" unfolding trim_patch_def by blast
  note patch = patch_rebuilt[OF t xs M M'(1,2) re[unfolded ys]]
  have ok: "\<forall>x\<in>set (P @ M @ Q). item_ok ?tb x" "tiles 0 (P @ M @ Q) e" using t xs by (simp_all add: track_tiled_def)
  then obtain b c where ch: "tiles 0 P b" "tiles b M c" "tiles c Q e" by (auto simp: chain_append)
  have bc: "b = item_start (hd M)" "c = item_stop (last M)" using chain_ends[OF ch(2) M] by simp_all
  have "track_plays rounding (tk_replace_items t items) v = track_plays rounding t v"
    if out: "\<not> (item_start (?xs ! i) \<le> v \<and> v < item_stop (?xs ! i))" and ng: "track_plays rounding t v \<noteq> Some FrameGap" for rounding v
  proof (cases "v < b \<or> c \<le> v")
    case True
    with patch bc show ?thesis unfolding patched_def by blast
  next
    case False
    then have "\<exists>z\<in>set M. item_start z \<le> v \<and> v < item_stop z \<and> frame_at rounding M v = Some (item_frame rounding z v)"
      using ok ch(2) by (intro track_tiles.shown_covered[of M ?tb b c]) auto
    then obtain z where z: "z \<in> set M" "item_start z \<le> v" "v < item_stop z" "frame_at rounding M v = Some (item_frame rounding z v)" by blast
    have "is_gap z" using gaps z out by auto
    then have "item_frame rounding z v = FrameGap" by (cases z) auto
    moreover have "track_plays rounding t v = frame_at rounding M v"
      using shown_middle[OF ok(1) ch, of rounding v] False xs by (simp add: track_plays_def)
    ultimately show ?thesis using ng z by simp
  qed
  then show ?thesis using patch ys M'(3) by (auto simp: patched_def)
qed

lemma trim_moves_edge:
  assumes t: "track_tiled t e" and p: "in_i64 pt"
    and run: "apply_trim t tlid trid target side (rt_new pt (track_timebase t)) gap_ident = Inr (out, t')"
  shows "\<exists>i y. i < length (timed_items t) \<and> item_id (timed_items t ! i) = target
     \<and> track_timebase t' = track_timebase t \<and> track_tiled t' e \<and> eo_duration_change out = DurationUnchanged
     \<and> y \<in> set (timed_items t') \<and> item_id y = target \<and> item_start y < item_stop y
     \<and> (case side of SideStart \<Rightarrow> item_start y = pt \<and> item_stop y = item_stop (timed_items t ! i)
         | SideEnd \<Rightarrow> item_start y = item_start (timed_items t ! i) \<and> item_stop y = pt)
     \<and> (\<forall>rounding v. \<not> (item_start (timed_items t ! i) \<le> v \<and> v < item_stop (timed_items t ! i))
          \<longrightarrow> track_plays rounding t v \<noteq> Some FrameGap \<longrightarrow> track_plays rounding t' v = track_plays rounding t v)"
proof -
  let ?tb = "track_timebase t" and ?xs = "timed_items t"
  from run obtain i where i: "position (\<lambda>item. item_id item = target) ?xs = Some i"
    by (auto simp: apply_trim_def Let_def bindR_Inr ok_or_Inr separate_eq split: prod.splits if_splits)
  note pi = position_Some[OF i]
  let ?x = "?xs ! i"
  have x: "item_ok ?tb ?x" using timed_ok[OF t] pi by simp
  note e = item_range_eq[OF x] and k = item_ok_range[OF x]
  have pok: "rt_ok (rt_new pt ?tb)" using p k(4) by (simp add: rt_ok_def)
  have ok: "\<forall>y\<in>set ?xs. item_ok ?tb y" "tiles 0 ?xs e" using t by (simp_all add: track_tiled_def)
  let ?old = "case side of SideStart \<Rightarrow> item_start ?x | SideEnd \<Rightarrow> item_stop ?x"
  have old: "(case side of SideStart \<Rightarrow> Inr (rt_new (item_start ?x) ?tb) | SideEnd \<Rightarrow> Inr (rt_new (item_stop ?x) ?tb))
      = (Inr (rt_new ?old ?tb) :: rational_time result)" by (cases side) simp_all
  let ?new = "case side of
      SideStart \<Rightarrow> (if rt_lt (rt_new pt ?tb) (rt_new (item_stop ?x) ?tb) then tr_from_start_end (rt_new pt ?tb) (rt_new (item_stop ?x) ?tb)
         else Inl (invalid_edit ''trim'' ''trimmed object must retain a nonzero record duration''))
    | SideEnd \<Rightarrow> (if rt_lt (rt_new (item_start ?x) ?tb) (rt_new pt ?tb) then tr_from_start_end (rt_new (item_start ?x) ?tb) (rt_new pt ?tb)
         else Inl (invalid_edit ''trim'' ''trimmed object must retain a nonzero record duration''))"
  let ?pass = "\<lambda>r. case side of
      SideEnd \<Rightarrow> if rt_lt (rt_new pt ?tb) (rt_new ?old ?tb)
        then trim_end_inward ?xs i r (rt_new pt ?tb) (rt_new ?old ?tb) gap_ident target
        else trim_end_outward ?xs i r (rt_new pt ?tb) target
    | SideStart \<Rightarrow> if rt_lt (rt_new ?old ?tb) (rt_new pt ?tb)
        then trim_start_inward ?xs i r (rt_new pt ?tb) (rt_new ?old ?tb) gap_ident target
        else trim_start_outward ?xs i r (rt_new pt ?tb) target"
  from run i obtain r ys ins rem mods items removed where r: "?new = Inr r" and ys: "?pass r = Inr (ys, ins, rem, mods)"
    and re: "rebuild_with_transitions ys (List.map_filter transition_of (tk_items t)) = Inr (items, removed)"
    and t': "t' = tk_replace_items t items" and out: "eo_duration_change out = DurationUnchanged"
    by (auto simp: apply_trim_def Let_def bindR_Inr ok_or_Inr separate_eq e(1,2) old outcome_def
      split: prod.splits if_splits cong: edit_side.case_cong)
  have "\<exists>y. trim_patch ?tb ?xs i y ys \<and> item_id y = target \<and> item_start y < item_stop y
     \<and> (case side of SideStart \<Rightarrow> item_start y = pt \<and> item_stop y = item_stop ?x
         | SideEnd \<Rightarrow> item_start y = item_start ?x \<and> item_stop y = pt)"
  proof (cases side)
    case SideEnd
    then have r': "tr_from_start_end (rt_new (item_start ?x) ?tb) (rt_new pt ?tb) = Inr r" "item_start ?x < pt"
      using r rt_same_timebase(2)[OF e(3) pok] by (auto split: if_splits)
    have "\<exists>y. trim_patch ?tb ?xs i y ys \<and> item_id y = item_id ?x \<and> item_start y = item_start ?x \<and> item_stop y = pt"
      using ys SideEnd trim_end_inward_patch[OF ok conjunct1[OF pi] p r'(1)] trim_end_outward_patch[OF ok conjunct1[OF pi] p r'(1)]
      by (auto split: if_splits)
    then show ?thesis using SideEnd pi r'(2) by auto
  next
    case SideStart
    then have r': "tr_from_start_end (rt_new pt ?tb) (rt_new (item_stop ?x) ?tb) = Inr r" "pt < item_stop ?x"
      using r rt_same_timebase(2)[OF pok e(4)] by (auto split: if_splits)
    have "\<exists>y. trim_patch ?tb ?xs i y ys \<and> item_id y = item_id ?x \<and> item_start y = pt \<and> item_stop y = item_stop ?x"
      using ys SideStart trim_start_inward_patch[OF ok conjunct1[OF pi] p r'(1)] trim_start_outward_patch[OF ok conjunct1[OF pi] p r'(1)]
      by (auto split: if_splits)
    then show ?thesis using SideStart pi r'(2) by auto
  qed
  then obtain y where y: "trim_patch ?tb ?xs i y ys" "item_id y = target" "item_start y < item_stop y"
    "case side of SideStart \<Rightarrow> item_start y = pt \<and> item_stop y = item_stop ?x
         | SideEnd \<Rightarrow> item_start y = item_start ?x \<and> item_stop y = pt" by blast
  note res = trim_patch_plays[OF t conjunct1[OF pi] y(1) re]
  show ?thesis using pi y res out t' by (intro exI[of _ i] exI[of _ y]) simp
qed

section \<open>Transitions left by an edit\<close>

text \<open>
  Every transition the rebuilding keeps is one of the old ones, sits between the two items it
  names, fits both of them, and does not meet its neighbour inside an item.
\<close>

definition fits_between :: "track_item list \<Rightarrow> transition list \<Rightarrow> nat \<Rightarrow> transition \<Rightarrow> bool" where
  "fits_between timed ts i t \<longleftrightarrow> Suc i < length timed \<and> t \<in> set ts
     \<and> tn_from t = item_id (timed ! i) \<and> tn_to t = item_id (timed ! Suc i)
     \<and> \<not> du_lt (tr_duration (timed_range (timed ! i))) (tn_from_offset t)
     \<and> \<not> du_lt (tr_duration (timed_range (timed ! Suc i))) (tn_to_offset t)"

lemma boundaries_fit:
  "i < length (boundaries_of ts xs) \<Longrightarrow> boundaries_of ts xs ! i = Some t \<Longrightarrow> fits_between xs ts i t"
proof (induction ts xs arbitrary: i rule: boundaries_of.induct)
  case (1 ts left right rest)
  show ?case
  proof (cases i)
    case 0
    with 1 show ?thesis
      by (auto simp: fits_between_def fitting_transition_def boundary_transition_def find_Some_iff nth_Cons'
        split: option.splits if_splits)
  next
    case (Suc j)
    with 1 show ?thesis by (auto simp: fits_between_def)
  qed
qed auto

lemma drop_overlap_keeps:
  "drop_overlap timed i bs = Inr cs \<Longrightarrow> cs = bs \<or> cs = bs[i := None]"
  by (auto simp: drop_overlap_def Let_def result_simps split: if_splits option.splits)

lemma overlap_loop_fit:
  assumes "foldR (drop_overlap timed) is bs = Inr cs" "\<And>i t. i < length bs \<Longrightarrow> bs ! i = Some t \<Longrightarrow> fits_between timed ts i t"
  shows "length cs = length bs \<and> (\<forall>i t. i < length cs \<longrightarrow> cs ! i = Some t \<longrightarrow> fits_between timed ts i t)"
proof -
  let ?P = "\<lambda>cs. length cs = length bs \<and> (\<forall>i t. i < length cs \<longrightarrow> cs ! i = Some t \<longrightarrow> fits_between timed ts i t)"
  have step: "?P ds" if "?P cs" "drop_overlap timed x cs = Inr ds" for x cs ds
    using that(1) drop_overlap_keeps[OF that(2)]
  proof (elim disjE)
    assume "ds = cs[x := None]"
    with that(1) show ?thesis by (cases "x < length cs") (auto simp: nth_list_update split: if_splits)
  qed simp
  show ?thesis by (rule foldR_invariant[OF assms(1), of ?P]) (use assms(2) step in blast)+
qed

section \<open>Edits of one clip in place\<close>

lemma update_clip_patched:
  assumes t: "track_tiled t e" and run: "update_clip t ident err f = Inr (c', t')"
    and keep: "\<And>c c'. clip_ok c \<Longrightarrow> f c = Inr c' \<Longrightarrow> clip_ok c' \<and> cl_record_range c' = cl_record_range c \<and> cl_id c' = cl_id c"
  shows "\<exists>i c. i < length (timed_items t) \<and> timed_items t ! i = IClip c \<and> cl_id c = ident \<and> clip_ok c \<and> f c = Inr c'
     \<and> clip_ok c' \<and> cl_record_range c' = cl_record_range c \<and> cl_id c' = ident
     \<and> timed_items t' = (timed_items t)[i := IClip c']
     \<and> patched t t' (rt_value (tr_start (cl_record_range c))) (tr_end (cl_record_range c)) e"
proof -
  let ?tb = "track_timebase t"
  from run obtain j c where j: "position (\<lambda>item. item_id item = OClip ident) (tk_items t) = Some j"
    and c: "item_as_clip (tk_items t ! j) = Some c" and f: "f c = Inr c'"
    and t': "t' = tk_replace_items t ((tk_items t)[j := IClip c'])"
    by (auto simp: update_clip_def bindR_Inr ok_or_Inr)
  have jl: "j < length (tk_items t)" "tk_items t ! j = IClip c" "cl_id c = ident"
    using position_Some[OF j] c by (auto split: track_item.splits elim: item_as_clip.elims)
  let ?P = "filter is_timed (take j (tk_items t))" and ?Q = "filter is_timed (drop (Suc j) (tk_items t))"
  have xs: "timed_items t = ?P @ [IClip c] @ ?Q"
    using arg_cong[OF split_at_index[OF jl(1)], of "filter is_timed"] jl(2) by (simp add: timed_items_def)
  have xs': "timed_items t' = ?P @ [IClip c'] @ ?Q" using jl t' by (simp add: timed_items_def upd_conv_take_nth_drop)
  have ok: "tb_ok ?tb" "\<forall>x\<in>set (?P @ [IClip c] @ ?Q). item_ok ?tb x" "tiles 0 (?P @ [IClip c] @ ?Q) e"
    using t unfolding track_tiled_def xs by auto
  have co: "clip_ok c" "tr_timebase (cl_record_range c) = ?tb" using ok(2) by auto
  note k = keep[OF co(1) f]
  obtain b d where ch: "tiles 0 ?P b" "tiles b [IClip c] d" "tiles d ?Q e" using ok(3) by (auto simp: chain_append)
  have bd: "b = rt_value (tr_start (cl_record_range c))" "d = tr_end (cl_record_range c)"
    using ch(2) by (auto simp: item_start_def item_stop_def)
  have m': "\<forall>x\<in>set [IClip c']. item_ok ?tb x" "tiles b [IClip c'] d" using k co bd by (auto simp: item_start_def item_stop_def)
  have "tiles 0 (?P @ [IClip c'] @ ?Q) e" using ch m' unfolding chain_append by blast
  then have "track_tiled t' e"
    using ok(1,2) m'(1) unfolding track_tiled_def xs' by (simp add: t')
  moreover have "track_plays rounding t' v = track_plays rounding t v" if "v < b \<or> d \<le> v" for rounding v
    using shown_patch[OF ok(2) m'(1) ch m'(2) that] by (simp add: track_plays_def xs xs')
  ultimately have "patched t t' b d e" using t' by (simp add: patched_def)
  moreover have "timed_items t' = (timed_items t)[length ?P := IClip c']" unfolding xs xs' by simp
  ultimately show ?thesis using xs jl k co f bd
    by (intro exI[of _ "length ?P"] exI[of _ c]) simp
qed

lemma retime_patched:
  assumes t: "track_tiled t e" and m: "ctm_ok m" and run: "apply_retime t tlid trid ident m = Inr (out, t')"
  shows "\<exists>i c c'. i < length (timed_items t) \<and> timed_items t ! i = IClip c \<and> cl_id c = ident
     \<and> clip_ok c' \<and> cl_time_map c' = m \<and> cl_record_range c' = cl_record_range c
     \<and> timed_items t' = (timed_items t)[i := IClip c']
     \<and> patched t t' (rt_value (tr_start (cl_record_range c))) (tr_end (cl_record_range c)) e"
proof -
  let ?f = "\<lambda>c. if ctm_eq (cl_time_map c) m then Inl (invalid_edit ''retime'' ''retime edit must change the clip time map'')
    else cl_set_time_map c m"
  from run obtain c' where up: "update_clip t ident (invalid_edit ''retime'' ''retime targets must be source-bearing clips'') ?f = Inr (c', t')"
    by (auto simp: apply_retime_def bindR_Inr)
  have "clip_ok c' \<and> cl_record_range c' = cl_record_range c \<and> cl_id c' = cl_id c" if "clip_ok c" "?f c = Inr c'" for c c'
    using cl_set_time_map_ok[OF that(1) m] that(2) by (auto split: if_splits)
  from update_clip_patched[OF t up this] obtain i c where i: "i < length (timed_items t)" "timed_items t ! i = IClip c"
    "cl_id c = ident" "clip_ok c" "?f c = Inr c'" "clip_ok c'" "cl_record_range c' = cl_record_range c"
    "timed_items t' = (timed_items t)[i := IClip c']"
    "patched t t' (rt_value (tr_start (cl_record_range c))) (tr_end (cl_record_range c)) e" by blast
  from i(5) have "cl_set_time_map c m = Inr c'" by (simp split: if_splits)
  then have "cl_time_map c' = m" using cl_set_time_map_ok[OF i(4) m] by simp
  with i show ?thesis by blast
qed

section \<open>Slip\<close>

text \<open>Translating a map within its source clock moves every source start by the same amount.\<close>

definition seg_moved :: "int \<Rightarrow> retime_segment \<Rightarrow> retime_segment \<Rightarrow> bool" where
  "seg_moved k s s' \<longleftrightarrow> rs_record_range s' = rs_record_range s \<and> rs_rate s' = rs_rate s
     \<and> rs_source_start s' = rt_new (rt_value (rs_source_start s) + k) (rt_timebase (rs_source_start s))"

lemma translate_same_clock:
  assumes m: "ctm_ok m" and a: "rt_ok (rt_new x tb)" "rt_ok (rt_new y tb)" and tb: "ctm_source_timebase m = tb"
    and run: "ctm_translate_source m (rt_new x tb) (rt_new y tb) = Inr m'"
  shows "ctm_record_duration m' = ctm_record_duration m \<and> list_all2 (seg_moved (y - x)) (ctm_segments m) (ctm_segments m')"
proof -
  from run obtain segs where segs: "traverse (\<lambda>seg.
        bindR (rt_checked_sub_at (rs_source_start seg) (rt_new x tb) tb RoundExact) (\<lambda>offset.
        bindR (rt_checked_rescale offset tb RoundExact) (\<lambda>offset.
        bindR (rt_checked_add_at (rt_new y tb) offset tb RoundExact) (\<lambda>source_start.
          rs_new (rs_record_range seg) source_start (rs_rate seg))))) (ctm_segments m) = Inr segs"
    and m': "ctm_new (ctm_record_duration m) tb segs = Inr m'"
    by (auto simp: ctm_translate_source_def result_simps split: if_splits)
  have seg: "seg_ok (segs ! i) \<and> seg_moved (y - x) (ctm_segments m ! i) (segs ! i)" if i: "i < length (ctm_segments m)" for i
  proof -
    let ?s = "ctm_segments m ! i"
    have s: "tr_ok (rs_record_range ?s)" "rt_ok (rs_source_start ?s)" "pr_ok (rs_rate ?s)" "rt_timebase (rs_source_start ?s) = tb"
      using ctm_segments_ok[OF m, of ?s] i tb by (simp_all add: seg_ok_def)
    from traverse_nth[OF segs i] obtain o1 o2 st where st:
      "rt_checked_sub_at (rs_source_start ?s) (rt_new x tb) tb RoundExact = Inr o1"
      "rt_checked_rescale o1 tb RoundExact = Inr o2"
      "rt_checked_add_at (rt_new y tb) o2 tb RoundExact = Inr st"
      "rs_new (rs_record_range ?s) st (rs_rate ?s) = Inr (segs ! i)" by (auto simp: result_simps)
    have "o1 = rt_new (rt_value (rs_source_start ?s) - x) tb \<and> in_i64 (rt_value (rs_source_start ?s) - x)"
      using st(1) sub_same_timebase[OF s(2) a(1) s(4), of RoundExact] by (simp split: if_splits)
    then have o1: "o1 = rt_new (rt_value (rs_source_start ?s) - x) tb" "rt_ok o1"
      using a(1) by (simp_all add: rt_ok_def)
    then have o2: "o2 = o1" using st(2) by (simp add: rt_checked_rescale_def)
    have "st = rt_new (rt_value (rs_source_start ?s) + (y - x)) tb \<and> rt_ok st"
      using st(3) add_same_timebase[OF a(2) o1(2), of tb RoundExact] o1(1) o2 a(1)
      by (auto simp: rt_ok_def algebra_simps split: if_splits)
    with rs_new_ok[OF s(1) _ s(3) st(4)] s(4) show ?thesis by (auto simp: seg_moved_def)
  qed
  have len: "length segs = length (ctm_segments m)" by (rule traverse_length[OF segs])
  have all: "\<forall>s\<in>set segs. seg_ok s" using seg len by (auto simp: in_set_conv_nth)
  have d: "du_ok (ctm_record_duration m)" "tb_ok tb" using m a by (simp_all add: ctm_ok_def rt_ok_def)
  note new = ctm_new_ok[OF d all m']
  show ?thesis using new seg len by (auto simp: list_all2_conv_all_nth)
qed

lemma moved_offset:
  assumes "seg_moved k s s'" "rs_source_time_at_offset s offset rounding operation = Inr (t, exact)"
    "rs_source_time_at_offset s' offset rounding operation = Inr (t', exact')"
  shows "exact' = exact \<and> t' = rt_new (rt_value t + k) (rt_timebase t)"
  using assms
  by (auto simp: rs_source_time_at_offset_def seg_moved_def result_simps Let_def split: if_splits)

lemma moved_prefix:
  "list_all2 (seg_moved k) xs ys \<Longrightarrow> length (takeWhile (\<lambda>s. rt_le (tr_start (rs_record_range s)) v) ys)
    = length (takeWhile (\<lambda>s. rt_le (tr_start (rs_record_range s)) v) xs)"
  by (induction rule: list_all2_induct) (auto simp: seg_moved_def)

lemma moved_resolves:
  assumes m: "ctm_ok m" and mv: "ctm_record_duration m' = ctm_record_duration m" "list_all2 (seg_moved k) (ctm_segments m) (ctm_segments m')"
    and run: "ctm_source_time_at m v rounding = Inr r" "ctm_source_time_at m' v rounding = Inr r'"
  shows "mst_time r' = rt_new (rt_value (mst_time r) + k) (rt_timebase (mst_time r))
    \<and> mst_resolution r' = mst_resolution r \<and> mst_segment_index r' = mst_segment_index r"
proof -
  let ?i = "partition_point (\<lambda>s. rt_le (tr_start (rs_record_range s)) v) (ctm_segments m) - 1"
  have i': "partition_point (\<lambda>s. rt_le (tr_start (rs_record_range s)) v) (ctm_segments m') - 1 = ?i"
    using moved_prefix[OF mv(2)] by (simp add: partition_point_def)
  have ne: "ctm_segments m \<noteq> []" using m by (simp add: ctm_ok_def)
  have "?i < length (ctm_segments m)"
    using ne length_takeWhile_le[of "\<lambda>s. rt_le (tr_start (rs_record_range s)) v" "ctm_segments m"]
    by (cases "ctm_segments m") (auto simp: partition_point_def)
  then have s: "seg_moved k (ctm_segments m ! ?i) (ctm_segments m' ! ?i)" using mv(2) by (simp add: list_all2_conv_all_nth)
  from run i' mv(1) obtain o1 t1 x1 t2 x2 where o: "rt_checked_sub_at v (tr_start (rs_record_range (ctm_segments m ! ?i)))
        (tr_timebase (rs_record_range (ctm_segments m ! ?i))) RoundExact = Inr o1"
    and a: "rs_source_time_at_offset (ctm_segments m ! ?i) o1 rounding ''resolve_retime_source'' = Inr (t1, x1)"
    and b: "rs_source_time_at_offset (ctm_segments m' ! ?i) o1 rounding ''resolve_retime_source'' = Inr (t2, x2)"
    and r: "r = \<lparr>mst_time = t1, mst_resolution = (if pr_is_freeze (rs_rate (ctm_segments m ! ?i)) then ResolvedHeld
              else if x1 then ResolvedExact else ResolvedRounded rounding), mst_segment_index = ?i\<rparr>"
      "r' = \<lparr>mst_time = t2, mst_resolution = (if pr_is_freeze (rs_rate (ctm_segments m' ! ?i)) then ResolvedHeld
              else if x2 then ResolvedExact else ResolvedRounded rounding), mst_segment_index = ?i\<rparr>"
    using s by (auto simp: ctm_source_time_at_def rs_source_time_at_def Let_def bindR_Inr seg_moved_def split: if_splits)
  from moved_offset[OF s a b] r s show ?thesis by (simp add: seg_moved_def)
qed

lemma slip_moves_source:
  assumes t: "track_tiled t e" and p: "rt_ok p"
    and run: "apply_slip t tlid trid ident p = Inr (out, t')"
  shows "\<exists>i c c'. i < length (timed_items t) \<and> timed_items t ! i = IClip c \<and> cl_id c = ident \<and> clip_ok c'
     \<and> tr_start (cl_source_range c') = p \<and> tr_duration (cl_source_range c') = tr_duration (cl_source_range c)
     \<and> cl_record_range c' = cl_record_range c \<and> timed_items t' = (timed_items t)[i := IClip c']
     \<and> patched t t' (rt_value (tr_start (cl_record_range c))) (tr_end (cl_record_range c)) e
     \<and> (\<forall>v rounding r r'. cl_source_time_at c v rounding = Inr r \<longrightarrow> cl_source_time_at c' v rounding = Inr r'
          \<longrightarrow> rt_value (mst_time r') - rt_value (mst_time r) = rt_value p - rt_value (tr_start (cl_source_range c))
              \<and> mst_resolution r' = mst_resolution r)"
proof -
  let ?f = "\<lambda>c. let old_source = cl_source_range c in
              if rt_timebase p \<noteq> tr_timebase old_source
              then Inl (invalid_edit ''slip'' ''slip source point must use the exact clip source timebase'')
              else if rt_eq p (tr_start old_source)
              then Inl (invalid_edit ''slip'' ''slip edit must move its source range'')
              else bindR (tr_new p (tr_duration old_source)) (\<lambda>r. cl_set_source_range c r)"
  from run obtain c' where up: "update_clip t ident (invalid_edit ''slip'' ''slip targets must be source-bearing clips'') ?f = Inr (c', t')"
    by (auto simp: apply_slip_def bindR_Inr)
  have f: "\<exists>r. rt_timebase p = tr_timebase (cl_source_range c) \<and> tr_ok r \<and> tr_start r = p
      \<and> tr_duration r = tr_duration (cl_source_range c) \<and> cl_set_source_range c r = Inr c'"
    if "clip_ok c" "?f c = Inr c'" for c c'
  proof -
    from that(2) obtain r where r: "rt_timebase p = tr_timebase (cl_source_range c)"
      "tr_new p (tr_duration (cl_source_range c)) = Inr r" "cl_set_source_range c r = Inr c'"
      by (auto simp: Let_def bindR_Inr split: if_splits)
    have "du_ok (tr_duration (cl_source_range c))" using clip_okD(1)[OF that(1)] by (simp add: tr_ok_def)
    from tr_new_ok[OF p this r(2)] r show ?thesis by blast
  qed
  have "clip_ok c' \<and> cl_record_range c' = cl_record_range c \<and> cl_id c' = cl_id c" if "clip_ok c" "?f c = Inr c'" for c c'
    using f[OF that] cl_set_source_range_ok[OF that(1)] by blast
  from update_clip_patched[OF t up this] obtain i c where i: "i < length (timed_items t)" "timed_items t ! i = IClip c" "cl_id c = ident"
    "clip_ok c" "?f c = Inr c'" "clip_ok c'" "cl_record_range c' = cl_record_range c" "timed_items t' = (timed_items t)[i := IClip c']"
    "patched t t' (rt_value (tr_start (cl_record_range c))) (tr_end (cl_record_range c)) e" by blast
  from f[OF i(4,5)] obtain r where r: "rt_timebase p = tr_timebase (cl_source_range c)" "tr_ok r" "tr_start r = p"
      "tr_duration r = tr_duration (cl_source_range c)" "cl_set_source_range c r = Inr c'" by blast
  have src: "cl_source_range c' = r" using cl_set_source_range_ok[OF i(4) r(2,5)] by simp
  let ?x = "rt_value (tr_start (cl_source_range c))" and ?y = "rt_value p" and ?stb = "tr_timebase (cl_source_range c)"
  note k = clip_okD[OF i(4)]
  have anchors: "tr_start (cl_source_range c) = rt_new ?x ?stb" "p = rt_new ?y ?stb"
    using rt_new_eta[of "tr_start (cl_source_range c)"] rt_new_eta[of p] r(1) by (simp_all add: tr_timebase_def)
  from r(5) have tr: "ctm_translate_source (cl_time_map c) (rt_new ?x ?stb) (rt_new ?y ?stb) = Inr (cl_time_map c')"
    using anchors r(3) by (auto simp: cl_set_source_range_def bindR_Inr)
  have "rt_ok (rt_new ?x ?stb)" "rt_ok (rt_new ?y ?stb)" using tr_okD[OF k(1)] p anchors by metis+
  note mv = translate_same_clock[OF k(3) this k(5) tr]
  have "rt_value (mst_time q') - rt_value (mst_time q) = ?y - ?x \<and> mst_resolution q' = mst_resolution q"
    if q: "cl_source_time_at c v rounding = Inr q" "cl_source_time_at c' v rounding = Inr q'" for v rounding q q'
  proof -
    from q(1) obtain l where l: "rt_checked_sub_at v (tr_start (cl_record_range c)) (tr_timebase (cl_record_range c)) RoundExact = Inr l"
      "ctm_source_time_at (cl_time_map c) l rounding = Inr q" by (auto simp: cl_source_time_at_def bindR_Inr split: if_splits)
    with q(2) i(7) have "ctm_source_time_at (cl_time_map c') l rounding = Inr q'"
      by (auto simp: cl_source_time_at_def bindR_Inr split: if_splits)
    from moved_resolves[OF k(3) _ _ l(2) this, of "?y - ?x"] mv show ?thesis by simp
  qed
  then show ?thesis using i r src by (intro exI[of _ i] exI[of _ c] exI[of _ c']) auto
qed

end
