(* ===== verification/CoreTimeProps.thy ===== *)
theory CoreTimeProps
  imports CoreTimeLaws
begin

text \<open>
  The properties of the time module, each with an application to concrete clocks: 24 and 48
  units per second and the NTSC clock 30000/1001.
\<close>

section \<open>Clocks used in the applications\<close>

definition tb24 :: timebase where "tb24 = tb_from_reduced 24 1"
definition tb48 :: timebase where "tb48 = tb_from_reduced 48 1"
definition tb30n :: timebase where "tb30n = tb_from_reduced 30000 1001"

lemma clocks_ok [simp]: "tb_ok tb24" "tb_ok tb48" "tb_ok tb30n"
proof -
  have "coprime (30000::int) 1001" by (simp add: coprime_iff_gcd_eq_1 gcd_non_0_int)
  then show "tb_ok tb24" "tb_ok tb48" "tb_ok tb30n"
    by (simp_all add: tb24_def tb48_def tb30n_def tb_ok_def tb_from_reduced_def)
qed

lemma clocks_distinct [simp]: "tb24 \<noteq> tb48" "tb48 \<noteq> tb24" "tb24 \<noteq> tb30n" "tb30n \<noteq> tb24"
  by (simp_all add: tb24_def tb48_def tb30n_def tb_from_reduced_def)

lemma clock_rates: "rate tb24 = 24" "rate tb48 = 48" "rate tb30n = 30000 / 1001"
  by (simp_all add: rate_def tb24_def tb48_def tb30n_def tb_from_reduced_def)

lemma small_coordinate_ok [simp]:
  "tb_ok tb \<Longrightarrow> \<bar>v\<bar> \<le> 1000000 \<Longrightarrow> rt_ok (rt_new v tb)"
  by (simp add: rt_ok_def in_i64_def abs_le_iff)

lemma small_range_ok [simp]:
  "tb_ok tb \<Longrightarrow> \<bar>v\<bar> \<le> 1000000 \<Longrightarrow> 0 \<le> d \<Longrightarrow> d \<le> 1000000
     \<Longrightarrow> tr_ok \<lparr>tr_start = rt_new v tb, tr_duration = \<lparr>du_value = d, du_timebase = tb\<rparr>\<rparr>"
  by (simp add: tr_ok_def du_ok_def in_i64_def abs_le_iff)

section \<open>Comparison\<close>

text \<open>
  C34: Two coordinates compare exactly as their rational numbers of seconds do, whatever their
  timebases: no 128-bit product wraps. So do the operators for equality, less and less or equal.
\<close>

theorem compare_is_physical:
  assumes "rt_ok a" "rt_ok b"
  shows "rt_compare a b = (if secs a < secs b then Less else if secs a = secs b then Equal else Greater)
     \<and> (rt_eq a b \<longleftrightarrow> secs a = secs b) \<and> (rt_lt a b \<longleftrightarrow> secs a < secs b) \<and> (rt_le a b \<longleftrightarrow> secs a \<le> secs b)"
  using rt_compare_secs[OF assms] rt_time.eq_seconds[OF assms] rt_time.lt_seconds[OF assms] rt_time.le_seconds[OF assms]
  by simp

theorem compare_is_physical_witness:
  "rt_ok (rt_new 24 tb24) \<and> rt_ok (rt_new 30 tb30n) \<and> rt_compare (rt_new 24 tb24) (rt_new 30 tb30n) = Less"
proof -
  have h: "rt_ok (rt_new 24 tb24)" "rt_ok (rt_new 30 tb30n)" by simp_all
  with compare_is_physical[OF h] show ?thesis by (simp add: secs_def clock_rates)
qed

section \<open>Rescaling\<close>

text \<open>
  C37: An exact rescale returns a coordinate exactly when one of the target clock has the same
  physical time and fits 64 bits, and it returns that coordinate.
\<close>

theorem rescale_exact_iff:
  assumes "rt_ok t" "tb_ok target"
  shows "rt_checked_rescale t target RoundExact = Inr t'
     \<longleftrightarrow> rt_ok t' \<and> rt_timebase t' = target \<and> secs t' = secs t"
  by (rule rescale_exact[OF assms])

theorem rescale_exact_iff_witness:
  "rt_ok (rt_new 24 tb24) \<and> tb_ok tb48
   \<and> rt_checked_rescale (rt_new 24 tb24) tb48 RoundExact = Inr (rt_new 48 tb48)"
proof -
  have h: "rt_ok (rt_new 24 tb24)" "tb_ok tb48" by simp_all
  with rescale_exact_iff[OF h, of "rt_new 48 tb48"] show ?thesis by (simp add: secs_def clock_rates)
qed

lemma rounds_to_whole: "rounds_to rounding (of_int v) q \<Longrightarrow> q = v"
  by (cases rounding) (auto simp: rounds_to_def)

text \<open>
  C35: A rescale under any rule returns the rule's rounding of the physical time on the target
  clock. It fails exactly when that integer leaves 64 bits, or when the rule is exact and the time
  is not a whole number of units.
\<close>

theorem rescale_rounding:
  assumes "rt_ok t" "tb_ok target"
  shows "(rt_checked_rescale t target rounding = Inr t'
       \<longleftrightarrow> rt_timebase t' = target \<and> in_i64 (rt_value t')
          \<and> rounds_to rounding (secs t * rate target) (rt_value t'))
     \<and> (\<not> is_ok (rt_checked_rescale t target rounding)
       \<longleftrightarrow> (\<forall>q. rounds_to rounding (secs t * rate target) q \<longrightarrow> \<not> in_i64 q))"
proof (intro conjI)
  show spec: "rt_checked_rescale t target rounding = Inr t'
     \<longleftrightarrow> rt_timebase t' = target \<and> in_i64 (rt_value t')
        \<and> rounds_to rounding (secs t * rate target) (rt_value t')" for t'
  proof (cases "rt_timebase t = target")
    case True
    have "secs t * rate target = of_int (rt_value t)" using secs_rate assms(2) True by metis
    then have "rounds_to rounding (secs t * rate target) q \<longleftrightarrow> q = rt_value t" for q
      by (auto simp: rounds_to_int dest: rounds_to_whole)
    then show ?thesis using True assms(1) by (cases t; cases t') (auto simp: rt_checked_rescale_def rt_ok_def)
  qed (rule rescale_spec[OF assms])
  have "is_ok (rt_checked_rescale t target rounding)
     \<longleftrightarrow> (\<exists>q. in_i64 q \<and> rounds_to rounding (secs t * rate target) q)"
  proof
    assume "\<exists>q. in_i64 q \<and> rounds_to rounding (secs t * rate target) q"
    then obtain q where "in_i64 q" "rounds_to rounding (secs t * rate target) q" by blast
    with spec[of "rt_new q target"] show "is_ok (rt_checked_rescale t target rounding)" by simp
  qed (auto simp: is_ok_iff spec)
  then show "\<not> is_ok (rt_checked_rescale t target rounding)
     \<longleftrightarrow> (\<forall>q. rounds_to rounding (secs t * rate target) q \<longrightarrow> \<not> in_i64 q)"
    by blast
qed

text \<open>25/24 s is 50 units of the 48 clock; 1/24 s is 1.2487... of the NTSC clock.\<close>

theorem rescale_rounding_witness:
  "rt_ok (rt_new 1 tb24) \<and> tb_ok tb30n
   \<and> rt_checked_rescale (rt_new 1 tb24) tb30n RoundNearestTiesEven = Inr (rt_new 1 tb30n)
   \<and> \<not> is_ok (rt_checked_rescale (rt_new 1 tb24) tb30n RoundExact)"
proof -
  have h: "rt_ok (rt_new 1 tb24)" "tb_ok tb30n" by simp_all
  have x: "secs (rt_new 1 tb24) * rate tb30n = 1250 / 1001" by (simp add: secs_def clock_rates)
  have no: "(of_int q :: rat) \<noteq> 1250 / 1001" for q
  proof
    assume "(of_int q :: rat) = 1250 / 1001"
    then have "(of_int (1001 * q) :: rat) = of_int 1250" by simp
    then have "1001 * q = 1250" by (simp only: of_int_eq_iff)
    then have "(1001 * q) mod 1001 = 1250 mod 1001" by simp
    then show False by simp
  qed
  have near: "rounds_to RoundNearestTiesEven (1250 / 1001) 1"
    unfolding rounds_to_def time_rounding.case by (simp only: of_int_1) simp
  have "rt_checked_rescale (rt_new 1 tb24) tb30n RoundNearestTiesEven = Inr (rt_new 1 tb30n)"
    using conjunct1[OF rescale_rounding[OF h, of RoundNearestTiesEven "rt_new 1 tb30n"]]
    unfolding x rt_new_simps using near by (simp add: in_i64_def)
  moreover have "\<not> is_ok (rt_checked_rescale (rt_new 1 tb24) tb30n RoundExact)"
    using conjunct2[OF rescale_rounding[OF h, of RoundExact]]
    unfolding x rounds_to_def time_rounding.case using no by blast
  ultimately show ?thesis using h by simp
qed

text \<open>
  A time that rescales exactly to another clock rescales back to itself, under every
  rounding rule on the way back.
\<close>

theorem rescale_roundtrip:
  assumes "rt_ok t" "tb_ok target" "rt_checked_rescale t target RoundExact = Inr t'"
  shows "rt_checked_rescale t' (rt_timebase t) rounding = Inr t"
proof (cases "rt_timebase t = target")
  case True
  then show ?thesis using assms(3) by (auto simp: rt_checked_rescale_def)
next
  case False
  from rescale_exact[OF assms(1,2), of t'] assms(3)
  have t': "rt_ok t'" "rt_timebase t' = target" "secs t' = secs t" by simp_all
  have tb: "tb_ok (rt_timebase t)" "in_i64 (rt_value t)" using assms(1) by (simp_all add: rt_ok_def)
  have "secs t' * rate (rt_timebase t) = of_int (rt_value t)" using t'(3) secs_rate[OF tb(1)] by simp
  with rescale_spec[OF t'(1) tb(1), of rounding t] False t'(2) tb(2) show ?thesis
    by (simp add: rounds_to_int)
qed

theorem rescale_roundtrip_witness:
  "rt_checked_rescale (rt_new 48 tb48) tb24 RoundFloor = Inr (rt_new 24 tb24)"
proof -
  have h: "rt_ok (rt_new 24 tb24)" "tb_ok tb48" by simp_all
  have "rt_checked_rescale (rt_new 24 tb24) tb48 RoundExact = Inr (rt_new 48 tb48)"
    using h rescale_exact[OF h, of "rt_new 48 tb48"] by (simp add: secs_def clock_rates)
  from rescale_roundtrip[OF h this, of RoundFloor] show ?thesis by simp
qed

section \<open>Addition and subtraction\<close>

text \<open>
  Addition and subtraction at a result clock: whatever the clocks of the operands, a
  returned coordinate is well formed, has the result clock, and its value is the rule's rounding
  of the exact sum or difference of the physical times.
\<close>

theorem binary_time_rounds:
  assumes "rt_ok a" "rt_ok b" "tb_ok tb" "rt_checked_binary_at a b tb rounding operation = Inr t"
  shows "rt_ok t \<and> rt_timebase t = tb
     \<and> rounds_to rounding (combine operation (secs a) (secs b) * rate tb) (rt_value t)"
  by (rule binary_rounds[OF assms])

theorem binary_time_rounds_witness:
  "\<exists>t. rt_checked_binary_at (rt_new 1 tb24) (rt_new 1 tb48) tb48 RoundExact AddTime = Inr t
     \<and> rt_timebase t = tb48 \<and> (of_int (rt_value t) :: rat) = 3"
proof -
  have h: "rt_ok (rt_new 1 tb24)" "rt_ok (rt_new 1 tb48)" "tb_ok tb48" by simp_all
  have "gcd (48::int) 24 = 24" by (simp add: gcd_non_0_int)
  then have run: "rt_checked_binary_at (rt_new 1 tb24) (rt_new 1 tb48) tb48 RoundExact AddTime = Inr (rt_new 3 tb48)"
    by (simp add: rt_checked_binary_at_def rt_units_at_def tb24_def tb48_def tb_from_reduced_def
        checked_i128_def in_i128_def sdiv_pos smod_pos divide_time_def checked_i64_def in_i64_def Let_def)
  from binary_time_rounds[OF h run] show ?thesis
    using run by (simp add: rounds_to_def combine_def secs_def clock_rates)
qed

section \<open>Ranges\<close>

text \<open>
  A half-open range contains a coordinate of any clock exactly when the coordinate's
  physical time lies between the start and the end; the end of a constructed range always exists.
\<close>

theorem range_contains_physical:
  assumes "rt_ok s" "du_ok d" "tr_new s d = Inr r" "rt_ok t"
  shows "tr_contains r t = Inr (secs s \<le> secs t \<and> secs t < secs s + secs (du_rational_time d))"
proof -
  from tr_new_ok[OF assms(1-3)] have r: "tr_ok r" "tr_start r = s" "tr_duration r = d" by simp_all
  show ?thesis using tr_contains_ok[OF r(1) assms(4)] tr_end_secs[OF r(1)] r(2,3) by simp
qed

theorem range_contains_physical_witness:
  "\<exists>r. tr_new (rt_new 0 tb24) \<lparr>du_value = 24, du_timebase = tb24\<rparr> = Inr r
     \<and> tr_contains r (rt_new 47 tb48) = Inr True \<and> tr_contains r (rt_new 48 tb48) = Inr False"
proof -
  let ?d = "\<lparr>du_value = 24, du_timebase = tb24\<rparr>"
  let ?r = "\<lparr>tr_start = rt_new 0 tb24, tr_duration = ?d\<rparr>"
  have h: "rt_ok (rt_new 0 tb24)" "du_ok ?d" "tr_new (rt_new 0 tb24) ?d = Inr ?r"
    by (simp_all add: du_ok_def tr_new_def in_i64_def)
  have d: "secs (du_rational_time ?d) = 1"
    using h(2) by (simp add: secs_def du_rational_simps clock_rates)
  have "tr_contains ?r (rt_new 47 tb48) = Inr True"
    using range_contains_physical[OF h, of "rt_new 47 tb48"] d by (simp add: secs_def clock_rates)
  moreover have "tr_contains ?r (rt_new 48 tb48) = Inr False"
    using range_contains_physical[OF h, of "rt_new 48 tb48"] d by (simp add: secs_def clock_rates)
  ultimately show ?thesis using h(3) by auto
qed

text \<open>
  Two ranges, possibly of different clocks, are reported to intersect exactly when some
  physical time lies in both; an empty range intersects nothing.
\<close>

theorem range_intersects_physical:
  assumes "tr_ok r" "tr_ok q"
  shows "tr_intersects r q = Inr (\<exists>x. secs (tr_start r) \<le> x \<and> x < secs (rt_new (tr_end r) (tr_timebase r))
     \<and> secs (tr_start q) \<le> x \<and> x < secs (rt_new (tr_end q) (tr_timebase q)))"
  by (rule tr_intersects_ok[OF assms])

theorem range_intersects_physical_witness:
  "tr_intersects \<lparr>tr_start = rt_new 0 tb24, tr_duration = \<lparr>du_value = 24, du_timebase = tb24\<rparr>\<rparr>
     \<lparr>tr_start = rt_new 48 tb48, tr_duration = \<lparr>du_value = 5, du_timebase = tb48\<rparr>\<rparr> = Inr False"
proof -
  have h: "tr_ok \<lparr>tr_start = rt_new 0 tb24, tr_duration = \<lparr>du_value = 24, du_timebase = tb24\<rparr>\<rparr>"
    "tr_ok \<lparr>tr_start = rt_new 48 tb48, tr_duration = \<lparr>du_value = 5, du_timebase = tb48\<rparr>\<rparr>"
    by simp_all
  show ?thesis
    unfolding range_intersects_physical[OF h] by (auto simp: secs_def clock_rates tr_end_def tr_timebase_def)
qed

section \<open>Types\<close>

definition yields :: "('a \<Rightarrow> bool) \<Rightarrow> 'a result \<Rightarrow> bool" where
  "yields P m = (case m of Inl _ \<Rightarrow> True | Inr x \<Rightarrow> P x)"

lemma yieldsI: "(\<And>x. m = Inr x \<Longrightarrow> P x) \<Longrightarrow> yields P m"
  by (simp add: yields_def split: sum.split)

lemma rescaled_duration_ok:
  assumes "du_ok d" "tb_ok tb" "du_checked_rescale d tb rounding = Inr e"
  shows "du_ok e \<and> du_timebase e = tb"
  using assms(2,3) by (auto simp: du_checked_rescale_def du_new_ok in_u64_def du_ok_def result_simps)

lemma rescaled_range_ok:
  assumes "tr_ok r" "tb_ok tb" "tr_checked_rescale r tb rounding = Inr q"
  shows "tr_ok q \<and> tr_timebase q = tb"
proof -
  have s: "rt_ok (tr_start r)" using assms(1) by (simp add: tr_ok_def)
  obtain a b where a: "rt_checked_rescale (tr_start r) tb rounding = Inr a"
    "rt_checked_rescale (rt_new (tr_end r) (tr_timebase r)) tb rounding = Inr b" "tr_from_start_end a b = Inr q"
    using assms(3) tr_end_ok(1)[OF assms(1)] by (auto simp: tr_checked_rescale_def result_simps)
  show ?thesis
    using tr_from_start_end_ok[OF _ _ a(3)] rescale_rounds[OF s assms(2) a(1)] rescale_rounds[OF tr_end_ok(2)[OF assms(1)] assms(2) a(2)]
    by auto
qed

lemma integer_clock_ok:
  assumes "in_u32 n" "tb_integer n = Inr tb"
  shows "tb_ok tb \<and> tb = tb_from_reduced n 1"
proof -
  have "0 < n" "n < 2 ^ 32" using assms by (auto simp: tb_integer_def tb_new_def in_u32_def split: if_splits)
  then show ?thesis using assms tb_integer_ok tb_new_ok[of n 1 tb] by (auto simp: tb_integer_def in_u32_def)
qed

text \<open>
  C36: Time values keep their types: from clocks of 32-bit terms, coordinates and samples of 64 bits, durations below
  2 to the 63 and ranges whose end is a coordinate, every fallible operation of the module either
  reports an error or returns such a value, on the clock that was asked for; the end of a range and
  the tests against a range always return.
\<close>

theorem time_operations_typed:
  assumes "rt_ok a" "rt_ok b" "du_ok d" "tr_ok r" "tr_ok r'" "tb_ok tb" "tb_ok (fr_timebase f)" "st_ok s"
    "in_u32 n" "in_u32 m" "in_i64 v" "in_u64 u"
  shows "yields (\<lambda>c. tb_ok c \<and> rate c = of_int n / of_int m) (tb_new n m)
     \<and> yields (\<lambda>c. tb_ok c \<and> c = tb_from_reduced n 1) (tb_integer n)
     \<and> yields (\<lambda>g. tb_ok (fr_timebase g)) (fr_new n m)
     \<and> yields (\<lambda>t. rt_ok t \<and> rt_timebase t = tb) (rt_checked_rescale a tb rounding)
     \<and> yields in_i64 (rt_to_frames a f rounding)
     \<and> yields (\<lambda>t. rt_ok t \<and> rt_timebase t = tb) (rt_checked_add_at a b tb rounding)
     \<and> yields (\<lambda>t. rt_ok t \<and> rt_timebase t = tb) (rt_checked_sub_at a b tb rounding)
     \<and> yields (\<lambda>q. st_ok q \<and> st_sample q = v \<and> st_sample_rate q = n) (st_new v n)
     \<and> yields (\<lambda>q. st_ok q \<and> st_sample_rate q = n) (st_checked_resample s n rounding)
     \<and> yields (\<lambda>e. du_ok e \<and> du_value e = u \<and> du_timebase e = tb) (du_new u tb)
     \<and> yields (\<lambda>e. du_ok e \<and> du_value e = u \<and> du_timebase e = fr_timebase f) (du_from_frames u f)
     \<and> yields (\<lambda>e. du_ok e \<and> du_value e = u \<and> du_timebase e = tb_from_reduced n 1) (du_from_samples u n)
     \<and> yields (\<lambda>e. du_ok e \<and> du_timebase e = tb) (du_checked_rescale d tb rounding)
     \<and> yields (\<lambda>q. tr_ok q \<and> tr_start q = a \<and> tr_duration q = d) (tr_new a d)
     \<and> yields (\<lambda>q. tr_ok q \<and> tr_start q = a) (tr_from_start_end a b)
     \<and> (\<exists>t. tr_end_exclusive r = Inr t \<and> rt_ok t \<and> rt_timebase t = tr_timebase r)
     \<and> is_ok (tr_contains r a) \<and> is_ok (tr_intersects r r')
     \<and> yields (\<lambda>q. tr_ok q \<and> tr_timebase q = tb) (tr_checked_rescale r tb rounding)"
proof (intro conjI yieldsI)
  fix t show "rt_ok t" "rt_timebase t = tb" if "rt_checked_rescale a tb rounding = Inr t"
    using rescale_rounds[OF assms(1,6) that] by simp_all
  show "rt_ok t" "rt_timebase t = tb" if "rt_checked_add_at a b tb rounding = Inr t"
    using binary_rounds[OF assms(1,2,6) that[unfolded rt_checked_add_at_def]] by simp_all
  show "rt_ok t" "rt_timebase t = tb" if "rt_checked_sub_at a b tb rounding = Inr t"
    using binary_rounds[OF assms(1,2,6) that[unfolded rt_checked_sub_at_def]] by simp_all
next
  show "\<exists>t. tr_end_exclusive r = Inr t \<and> rt_ok t \<and> rt_timebase t = tr_timebase r" using tr_end_ok[OF assms(4)] by simp
  show "is_ok (tr_contains r a)" using tr_contains_ok[OF assms(4,1)] by simp
  show "is_ok (tr_intersects r r')" using tr_intersects_ok[OF assms(4,5)] by simp
next
  fix c show "tb_ok c" "rate c = of_int n / of_int m" if "tb_new n m = Inr c" using tb_new_ok[OF assms(9,10) that] by simp_all
  show "tb_ok c" "c = tb_from_reduced n 1" if "tb_integer n = Inr c" using integer_clock_ok[OF assms(9) that] by blast+
next
  fix g show "tb_ok (fr_timebase g)" if "fr_new n m = Inr g"
    using that tb_new_ok[OF assms(9,10)] by (auto simp: fr_new_def result_simps)
next
  fix k show "in_i64 k" if "rt_to_frames a f rounding = Inr k"
    using that rescale_rounds[OF assms(1,7)] by (auto simp: rt_to_frames_def result_simps rt_ok_def)
next
  fix q show "st_ok q" "st_sample q = v" "st_sample_rate q = n" if "st_new v n = Inr q"
    using that assms(9,11) by (auto simp: st_new_def st_ok_def in_u32_def split: if_splits)
  show "st_ok q" "st_sample_rate q = n" if resampled: "st_checked_resample s n rounding = Inr q"
  proof -
    obtain c t where c: "tb_integer n = Inr c" "rt_checked_rescale (st_rational_time s) c rounding = Inr t" "st_new (rt_value t) n = Inr q"
      using resampled by (auto simp: st_checked_resample_def result_simps)
    have "in_i64 (rt_value t)"
      using rescale_rounds[OF st_rational_ok[OF assms(8)] conjunct1[OF integer_clock_ok[OF assms(9) c(1)]] c(2)] by (simp add: rt_ok_def)
    then show "st_ok q" "st_sample_rate q = n"
      using c(3) assms(9) by (auto simp: st_new_def st_ok_def in_u32_def split: if_splits)
  qed
next
  have new: "du_ok e \<and> du_value e = u \<and> du_timebase e = c" if "tb_ok c" "du_new u c = Inr e" for e c
    using that assms(12) by (auto simp: du_new_ok in_u64_def du_ok_def)
  fix e show "du_ok e" "du_value e = u" "du_timebase e = tb" if "du_new u tb = Inr e"
    using new[OF assms(6) that] by simp_all
  show "du_ok e" "du_value e = u" "du_timebase e = fr_timebase f" if "du_from_frames u f = Inr e"
    using new[OF assms(7) that[unfolded du_from_frames_def]] by simp_all
  show "du_ok e" "du_value e = u" "du_timebase e = tb_from_reduced n 1" if "du_from_samples u n = Inr e"
    using that new integer_clock_ok[OF assms(9)] by (auto simp: du_from_samples_def result_simps)
  show "du_ok e" "du_timebase e = tb" if "du_checked_rescale d tb rounding = Inr e"
    using rescaled_duration_ok[OF assms(3,6) that] by simp_all
next
  fix q show "tr_ok q" "tr_start q = a" "tr_duration q = d" if "tr_new a d = Inr q"
    using tr_new_ok[OF assms(1,3) that] by simp_all
  show "tr_ok q" "tr_start q = a" if "tr_from_start_end a b = Inr q"
    using tr_from_start_end_ok[OF assms(1,2) that] by simp_all
  show "tr_ok q" "tr_timebase q = tb" if "tr_checked_rescale r tb rounding = Inr q"
    using rescaled_range_ok[OF assms(4,6) that] by simp_all
qed

theorem time_operations_typed_witness:
  "\<exists>t q. rt_checked_add_at (rt_new 1 tb24) (rt_new 1 tb30n) tb48 RoundNearestTiesEven = Inr t \<and> rt_ok t \<and> rt_timebase t = tb48
     \<and> st_checked_resample \<lparr>st_sample = 480, st_sample_rate = 48000\<rparr> 44100 RoundNearestTiesEven = Inr q \<and> st_ok q"
proof -
  let ?s = "\<lparr>st_sample = 480, st_sample_rate = 48000\<rparr>"
  have "is_ok (rt_checked_add_at (rt_new 1 tb24) (rt_new 1 tb30n) tb48 RoundNearestTiesEven)"
    "is_ok (st_checked_resample ?s 44100 RoundNearestTiesEven)" by code_simp+
  then obtain t q where t: "rt_checked_add_at (rt_new 1 tb24) (rt_new 1 tb30n) tb48 RoundNearestTiesEven = Inr t"
    "st_checked_resample ?s 44100 RoundNearestTiesEven = Inr q" by (auto simp: is_ok_iff)
  have ok: "rt_ok (rt_new 1 tb24)" "rt_ok (rt_new 1 tb30n)" "du_ok (du_zero tb24)"
    "tr_ok \<lparr>tr_start = rt_new 0 tb24, tr_duration = \<lparr>du_value = 0, du_timebase = tb24\<rparr>\<rparr>"
    "tr_ok \<lparr>tr_start = rt_new 0 tb48, tr_duration = \<lparr>du_value = 5, du_timebase = tb48\<rparr>\<rparr>" "tb_ok tb48" by simp_all
  have more: "tb_ok (fr_timebase fps_24)" "st_ok ?s" "in_u32 44100" "in_u32 1" "in_i64 0" "in_u64 0"
    by (simp_all add: fps_24_def fr_of_def st_ok_def in_i64_def in_u32_def in_u64_def)
  show ?thesis using time_operations_typed[OF ok more, of RoundNearestTiesEven] t by (simp add: yields_def)
qed

end
