(* ===== verification/RetimeProps.thy ===== *)
theory RetimeProps
  imports RetimeLaws CoreTimeProps
begin

text \<open>
  The properties of retiming, applied to a map of two seconds at 24 units per second that plays
  the first second at double speed and the second one in reverse.
\<close>

definition range24 :: "int \<Rightarrow> int \<Rightarrow> time_range" where
  "range24 v n = \<lparr>tr_start = rt_new v tb24, tr_duration = \<lparr>du_value = n, du_timebase = tb24\<rparr>\<rparr>"

definition seg_double :: retime_segment where
  "seg_double = \<lparr>rs_record_range = range24 0 24, rs_source_start = rt_new 0 tb24,
     rs_rate = \<lparr>pr_numerator = 2, pr_denominator = 1\<rparr>\<rparr>"

definition seg_back :: retime_segment where
  "seg_back = \<lparr>rs_record_range = range24 24 24, rs_source_start = rt_new 48 tb24, rs_rate = pr_reverse\<rparr>"

definition ramp_duration :: duration where
  "ramp_duration = \<lparr>du_value = 48, du_timebase = tb24\<rparr>"

definition ramp :: clip_time_map where
  "ramp = \<lparr>ctm_record_duration = ramp_duration, ctm_source_timebase = tb24, ctm_segments = [seg_double, seg_back]\<rparr>"

lemma range24_ok: "\<bar>v\<bar> \<le> 1000000 \<Longrightarrow> 0 \<le> n \<Longrightarrow> n \<le> 1000000 \<Longrightarrow> tr_ok (range24 v n)"
  by (simp add: range24_def)

lemma ramp_segments_ok: "\<forall>s\<in>set [seg_double, seg_back]. seg_ok s"
proof -
  have "is_ok (rs_source_time_at_offset seg_double (du_rational_time (tr_duration (rs_record_range seg_double)))
    RoundExact ''create_retime_segment'')" by code_simp
  moreover have "is_ok (rs_source_time_at_offset seg_back (du_rational_time (tr_duration (rs_record_range seg_back)))
    RoundExact ''create_retime_segment'')" by code_simp
  moreover have "tr_ok (range24 0 24)" "tr_ok (range24 24 24)" by (simp_all add: range24_ok)
  moreover have "pr_ok \<lparr>pr_numerator = 2, pr_denominator = 1\<rparr>" by (simp add: pr_ok_def in_i64_def)
  ultimately show ?thesis
    by (simp add: seg_ok_def) (simp add: seg_double_def seg_back_def range24_def)
qed

lemma ramp_duration_ok: "du_ok ramp_duration"
  by (simp add: ramp_duration_def du_ok_def)

lemma ramp_built: "ctm_new ramp_duration tb24 [seg_double, seg_back] = Inr ramp"
proof -
  have "returns (ctm_new ramp_duration tb24 [seg_double, seg_back]) ramp" by code_simp
  then show ?thesis by (simp add: returns_iff)
qed

lemma ramp_ok: "ctm_ok ramp"
  using ramp_built ctm_new_iff[OF ramp_duration_ok clocks_ok(1) ramp_segments_ok] by simp

text \<open>
  C25: A map is built exactly when its segments, each valid by itself, cover the clip from zero
  to its duration without gap or overlap on the clip's clocks, and the source position is
  continuous at every seam; the map then holds what was passed.
\<close>

theorem retime_map_built_iff:
  assumes "du_ok d" "tb_ok stb" "\<forall>s\<in>set segs. seg_ok s"
  shows "ctm_new d stb segs = Inr m
     \<longleftrightarrow> m = \<lparr>ctm_record_duration = d, ctm_source_timebase = stb, ctm_segments = segs\<rparr> \<and> ctm_ok m"
  by (rule ctm_new_iff[OF assms])

theorem retime_map_built_iff_witness:
  "ctm_ok ramp \<and> \<not> is_ok (ctm_new ramp_duration tb24 [seg_back, seg_double])"
proof -
  have no: "\<not> ctm_ok \<lparr>ctm_record_duration = ramp_duration, ctm_source_timebase = tb24,
      ctm_segments = [seg_back, seg_double]\<rparr>"
    by (simp add: ctm_ok_def seg_back_def range24_def)
  have ok: "\<forall>s\<in>set [seg_back, seg_double]. seg_ok s" using ramp_segments_ok by simp
  show ?thesis
    using retime_map_built_iff[OF ramp_duration_ok clocks_ok(1) ramp_segments_ok, of ramp] ramp_built
      retime_map_built_iff[OF ramp_duration_ok clocks_ok(1) ok] no
    by (auto simp: is_ok_iff)
qed

text \<open>
  Inside the clip a query with any inexact rounding rule always answers: one segment covers
  the record time, and the source time is its start plus the rule's rounding of the exact
  advance; no product or sum of the computation leaves its range. For the tie rule the divisor
  must leave room to double the remainder.
\<close>

theorem retime_resolves:
  assumes "ctm_ok m" "rt_ok t" "rt_timebase t = du_timebase (ctm_record_duration m)"
    "0 \<le> rt_value t" "rt_value t < du_value (ctm_record_duration m)" "rounding \<noteq> RoundExact"
    "rounding = RoundNearestTiesEven \<longrightarrow> (\<forall>s\<in>set (ctm_segments m). seg_denominator s \<le> 2 ^ 126)"
  shows "\<exists>i s r. i < length (ctm_segments m) \<and> s = ctm_segments m ! i \<and> covers s (rt_value t)
     \<and> ctm_source_time_at m t rounding = Inr r \<and> mst_segment_index r = i
     \<and> rt_timebase (mst_time r) = ctm_source_timebase m
     \<and> rounds_to rounding (seg_advance s (seg_offset s (rt_value t)))
          (rt_value (mst_time r) - rt_value (rs_source_start s))"
proof -
  let ?v = "rt_value t" and ?s = "ctm_covering m (rt_value t)" and ?i = "ctm_index m (rt_value t)"
  note look = ctm_lookup[OF assms(1-5)]
  have s: "?s \<in> set (ctm_segments m)" using look(1) by (simp add: ctm_covering_def)
  have int: "interior ?s (seg_offset ?s ?v)" by (rule seg_offset_interior[OF look(4,2)])
  obtain u x where run: "rs_source_time_at_offset ?s (seg_offset ?s ?v) rounding ''resolve_retime_source'' = Inr (u, x)"
    using interior_total[OF look(4) int assms(6), of "''resolve_retime_source''"] by (auto simp: is_ok_iff)
  have u: "rt_timebase u = rt_timebase (rs_source_start ?s)"
    "rounds_to rounding (seg_advance ?s (seg_offset ?s ?v)) (rt_value u - rt_value (rs_source_start ?s))"
    using interior_spec[OF look(4) int, of rounding] run assms(7) s by auto
  have "rt_timebase (rs_source_start ?s) = ctm_source_timebase m"
    using segs_cover_nth look(1) assms(1) by (auto simp: ctm_ok_def ctm_covering_def)
  then show ?thesis
    using look(1,2) u run look(5)[of rounding]
    by (intro exI[of _ ?i] exI[of _ ?s] exI[of _ "mapped ?i ?s rounding (u, x)"])
      (simp add: mapped_def ctm_covering_def)
qed

theorem retime_resolves_witness:
  "\<exists>r. ctm_source_time_at ramp (rt_new 30 tb24) RoundNearestTiesEven = Inr r \<and> mst_segment_index r = 1
     \<and> mst_time r = rt_new 42 tb24"
proof -
  have run: "returns (ctm_source_time_at ramp (rt_new 30 tb24) RoundNearestTiesEven)
      \<lparr>mst_time = rt_new 42 tb24, mst_resolution = ResolvedExact, mst_segment_index = 1\<rparr>" by code_simp
  have "\<exists>i s r. i < length (ctm_segments ramp) \<and> s = ctm_segments ramp ! i \<and> covers s (rt_value (rt_new 30 tb24))
     \<and> ctm_source_time_at ramp (rt_new 30 tb24) RoundNearestTiesEven = Inr r \<and> mst_segment_index r = i
     \<and> rt_timebase (mst_time r) = ctm_source_timebase ramp
     \<and> rounds_to RoundNearestTiesEven (seg_advance s (seg_offset s (rt_value (rt_new 30 tb24))))
          (rt_value (mst_time r) - rt_value (rs_source_start s))"
    by (rule retime_resolves[OF ramp_ok])
      (simp_all add: ramp_def ramp_duration_def seg_denominator_def seg_double_def seg_back_def range24_def
        tr_timebase_def tb24_def tb_from_reduced_def pr_reverse_def rt_ok_def in_i64_def tb_ok_def)
  with run show ?thesis by (auto simp: returns_iff)
qed

text \<open>
  C26: Slicing a map to a subrange preserves playback: under the exact, floor and ceiling rules
  the slice answers a query exactly as the original map does at the shifted record time, with
  the same source time and resolution, and fails exactly where the original fails.
\<close>

theorem retime_slice_preserves_playback:
  assumes "ctm_ok m" "tr_ok w" "ctm_slice m w = Inr m'" "0 \<le> v" "v < du_value (tr_duration w)"
    "rounding \<in> {RoundExact, RoundFloor, RoundCeil}"
  shows "ctm_ok m' \<and>
    ((\<exists>i. ctm_source_time_at m' (rt_new v (tr_timebase w)) rounding
        = Inr \<lparr>mst_time = t, mst_resolution = res, mst_segment_index = i\<rparr>)
     \<longleftrightarrow> (\<exists>j. ctm_source_time_at m (rt_new (rt_value (tr_start w) + v) (tr_timebase w)) rounding
        = Inr \<lparr>mst_time = t, mst_resolution = res, mst_segment_index = j\<rparr>))"
  using ctm_slice_pieces[OF assms(1-3)] ctm_slice_query[OF assms] by blast

theorem retime_slice_preserves_playback_witness:
  "\<exists>m' i. ctm_slice ramp (range24 12 24) = Inr m' \<and> ctm_ok m'
     \<and> ctm_source_time_at m' (rt_new 18 tb24) RoundExact
        = Inr \<lparr>mst_time = rt_new 42 tb24, mst_resolution = ResolvedExact, mst_segment_index = i\<rparr>"
proof -
  have "is_ok (ctm_slice ramp (range24 12 24))" by code_simp
  then obtain m' where m': "ctm_slice ramp (range24 12 24) = Inr m'" by (auto simp: is_ok_iff)
  have "returns (ctm_source_time_at ramp (rt_new 30 tb24) RoundExact)
      \<lparr>mst_time = rt_new 42 tb24, mst_resolution = ResolvedExact, mst_segment_index = 1\<rparr>" by code_simp
  then have run: "\<exists>j. ctm_source_time_at ramp (rt_new 30 tb24) RoundExact
      = Inr \<lparr>mst_time = rt_new 42 tb24, mst_resolution = ResolvedExact, mst_segment_index = j\<rparr>"
    by (auto simp: returns_iff)
  have "tr_ok (range24 12 24)" by (simp add: range24_ok)
  from retime_slice_preserves_playback[OF ramp_ok this m', of 18 RoundExact "rt_new 42 tb24" ResolvedExact] run
  show ?thesis using m' by (simp add: range24_def tr_timebase_def)
qed

text \<open>
  The doubled remainder of the tie rule is an unchecked product. With a divisor above the bound
  a remainder of three quarters rounds down.
\<close>

lemma divide_retime_wraps:
  "divide_retime (3 * 2 ^ 125) (2 ^ 127 - 1) RoundNearestTiesEven operation = Inr (0, False)"
  by (simp add: divide_retime_def Let_def sdiv_pos smod_pos wrap_i128_def checked_i64_def in_i64_def)

end
