(* ===== verification/EditProps.thy ===== *)
theory EditProps
  imports EditLaws RetimeProps
begin

text \<open>
  The properties of the track edits, each applied to a small track at 24 frames per second.
  \<open>spliced\<close>, \<open>closed_up\<close> and \<open>patched\<close> of theory \<open>EditLaws\<close> are the specifications: they say, for
  every tick of the record clock, what the edited track plays in terms of the old one.
\<close>

section \<open>A track used in the applications\<close>

text \<open>Two seconds of one clip, half a second of a gap, one second of a second clip.\<close>

definition shot :: "128 word \<Rightarrow> int \<Rightarrow> int \<Rightarrow> int \<Rightarrow> clip" where
  "shot ident source record_start len =
     \<lparr>cl_id = TypedId ident, cl_name = ''shot'', cl_source = SourceMedia (TypedId 9),
      cl_ranges = \<lparr>cr_source_range = range24 source len, cr_record_range = range24 record_start len\<rparr>,
      cl_time_map = \<lparr>ctm_record_duration = \<lparr>du_value = len, du_timebase = tb24\<rparr>, ctm_source_timebase = tb24,
        ctm_segments = [\<lparr>rs_record_range = range24 0 len, rs_source_start = rt_new source tb24, rs_rate = pr_normal\<rparr>]\<rparr>\<rparr>"

definition hole :: "128 word \<Rightarrow> int \<Rightarrow> int \<Rightarrow> gap" where
  "hole ident start len = \<lparr>gp_id = TypedId ident, gp_name = ''gap'', gp_record_range = range24 start len\<rparr>"

definition reel :: track where
  "reel = \<lparr>tk_id = TypedId 1, tk_name = ''V1'', tk_semantics = VideoSemantics (vs_new fps_24 CompositeOver),
     tk_items = [IClip (shot 10 100 0 48), IGap (hole 11 48 12), IClip (shot 12 500 60 24)]\<rparr>"

lemma reel_clock: "track_timebase reel = tb24"
  by (simp add: track_timebase_def reel_def vs_new_def fps_24_def fr_of_def tb24_def)

lemma shot_ok:
  assumes "\<bar>source\<bar> \<le> 100000" "\<bar>start\<bar> \<le> 100000" "0 < len" "len \<le> 100000"
  shows "clip_ok (shot ident source start len)"
proof -
  have r: "tr_ok (range24 source len)" "tr_ok (range24 start len)" "tr_ok (range24 0 len)" using assms by (simp_all add: range24_ok)
  let ?s = "\<lparr>rs_record_range = range24 0 len, rs_source_start = rt_new source tb24, rs_rate = pr_normal\<rparr>"
  have d: "du_rational_time (tr_duration (range24 0 len)) = rt_new len tb24"
    using assms by (simp add: range24_def du_rational_time_def in_i64_def)
  have i: "in_i64 (source + len)" "in_i128 len" "in_i128 (len * 24)" "in_i64 len" "in_i128 24"
    using assms by (auto simp: int_ranges abs_le_iff)
  have dv: "(len * 24) sdiv 24 = len" "(len * 24) smod 24 = 0" using assms by (simp_all add: sdiv_pos smod_pos)
  have "is_ok (rs_source_time_at_offset ?s (rt_new len tb24) RoundExact ''create_retime_segment'')"
    using i dv by (simp add: rs_source_time_at_offset_def pr_is_freeze_def pr_normal_def tb24_def tb_from_reduced_def
      divide_retime_def)
  then have "seg_ok ?s" using r assms d
    by (simp add: seg_ok_def) (simp add: range24_def in_i64_def rt_ok_def abs_le_iff)
  then have "ctm_ok (cl_time_map (shot ident source start len))"
    using assms by (simp add: ctm_ok_def shot_def range24_def tr_end_def tr_timebase_def du_ok_def)
  then show ?thesis using r
    by (simp add: clip_ok_def shot_def cl_source_range_def cl_record_range_def) (simp add: range24_def tr_timebase_def)
qed

lemma hole_ok: "\<bar>start\<bar> \<le> 100000 \<Longrightarrow> 0 \<le> len \<Longrightarrow> len \<le> 100000 \<Longrightarrow> item_ok tb24 (IGap (hole ident start len))"
  by (simp add: hole_def range24_ok) (simp add: range24_def tr_timebase_def)

lemma shot_item_ok:
  "\<bar>source\<bar> \<le> 100000 \<Longrightarrow> \<bar>start\<bar> \<le> 100000 \<Longrightarrow> 0 < len \<Longrightarrow> len \<le> 100000
    \<Longrightarrow> item_ok tb24 (IClip (shot ident source start len))"
  by (simp add: shot_ok) (simp add: shot_def cl_record_range_def range24_def tr_timebase_def)

lemma shot_bounds [simp]:
  "item_start (IClip (shot ident source start len)) = start" "item_stop (IClip (shot ident source start len)) = start + len"
  "item_start (IGap (hole ident start len)) = start" "item_stop (IGap (hole ident start len)) = start + len"
  by (simp_all add: item_start_def item_stop_def shot_def hole_def cl_record_range_def range24_def tr_end_def)

lemma reel_tiled: "track_tiled reel 84"
proof -
  have items: "timed_items reel = [IClip (shot 10 100 0 48), IGap (hole 11 48 12), IClip (shot 12 500 60 24)]"
    by (simp add: timed_items_def reel_def)
  show ?thesis
    unfolding track_tiled_def reel_clock items using shot_item_ok[of 100 0 48 10] shot_item_ok[of 500 60 24 12] hole_ok[of 48 12 11]
    by simp
qed

lemma reel_items: "timed_items reel = [IClip (shot 10 100 0 48), IGap (hole 11 48 12), IClip (shot 12 500 60 24)]"
  by (simp add: timed_items_def reel_def)

section \<open>Insertions and range replacements\<close>

text \<open>
  C2: An insert on a track whose items tile its clock from zero to its end leaves a track tiled to
  that end plus the material's duration, which is the change it reports: before the point the track
  plays what it did, at the point the placed material, and after it what it played, later by
  that duration. The item the point falls into is split without a change of what it plays.
\<close>

theorem insert_splices:
  assumes "track_tiled t e" "in_i64 pt" "item_ok tb' material"
    "apply_insert t tlid trid (rt_new pt (track_timebase t)) material ids = Inr (out, t')"
  shows "\<exists>m. normalize_material material (rt_new pt (track_timebase t)) (track_timebase t) ''insert'' = Inr m
     \<and> item_ok (track_timebase t) m \<and> item_start m = pt \<and> 0 \<le> pt \<and> pt \<le> e
     \<and> eo_duration_change out = DurationExtended (tr_duration (timed_range m))
     \<and> spliced t t' pt pt (item_stop m - pt) m e"
  by (rule insert_spliced[OF assms])

theorem insert_splices_witness:
  "\<exists>out t' m. apply_insert reel (TypedId 1) (TypedId 1) (rt_new 54 tb24) (IClip (shot 20 7 0 12)) [OGap (TypedId 21)]
      = Inr (out, t') \<and> track_timebase t' = tb24 \<and> spliced reel t' 54 54 (item_stop m - 54) m 84"
proof -
  have "is_ok (apply_insert reel (TypedId 1) (TypedId 1) (rt_new 54 tb24) (IClip (shot 20 7 0 12)) [OGap (TypedId 21)])"
    by code_simp
  then obtain out t' where run: "apply_insert reel (TypedId 1) (TypedId 1) (rt_new 54 tb24) (IClip (shot 20 7 0 12)) [OGap (TypedId 21)]
      = Inr (out, t')" by (auto simp: is_ok_iff)
  have m: "item_ok tb24 (IClip (shot 20 7 0 12))" by (rule shot_item_ok) simp_all
  have "in_i64 54" by (simp add: in_i64_def)
  from insert_splices[OF reel_tiled this m, unfolded reel_clock, OF run] obtain m
    where "spliced reel t' 54 54 (item_stop m - 54) m 84" by blast
  then show ?thesis using run reel_clock by (auto simp: spliced_def)
qed

text \<open>
  An append places the material at the end of the track, tiled to the new end, and changes
  nothing before it.
\<close>

theorem append_splices:
  assumes "track_tiled t e" "item_ok tb' material" "apply_append t tlid trid material = Inr (out, t')"
  shows "\<exists>m. normalize_material material (rt_new e (track_timebase t)) (track_timebase t) ''append'' = Inr m
     \<and> item_ok (track_timebase t) m \<and> item_start m = e
     \<and> eo_duration_change out = DurationExtended (tr_duration (timed_range m))
     \<and> spliced t t' e e (item_stop m - e) m e"
  by (rule append_spliced[OF assms])

theorem append_splices_witness:
  "\<exists>out t' m. apply_append reel (TypedId 1) (TypedId 1) (IGap (hole 20 0 12)) = Inr (out, t')
     \<and> spliced reel t' 84 84 (item_stop m - 84) m 84"
proof -
  have "is_ok (apply_append reel (TypedId 1) (TypedId 1) (IGap (hole 20 0 12)))" by code_simp
  then obtain out t' where run: "apply_append reel (TypedId 1) (TypedId 1) (IGap (hole 20 0 12)) = Inr (out, t')"
    by (auto simp: is_ok_iff)
  have "item_ok tb24 (IGap (hole 20 0 12))" by (rule hole_ok) simp_all
  from append_splices[OF reel_tiled this run] run show ?thesis by blast
qed

text \<open>
  C3: An overwrite keeps the duration of the track: over the material's range it plays the
  material, everywhere else exactly what it played before.
\<close>

theorem overwrite_splices:
  assumes "track_tiled t e" "in_i64 pt" "item_ok tb' material"
    "apply_overwrite t tlid trid (rt_new pt (track_timebase t)) material ids = Inr (out, t')"
  shows "\<exists>m. normalize_material material (rt_new pt (track_timebase t)) (track_timebase t) ''overwrite'' = Inr m
     \<and> item_ok (track_timebase t) m \<and> item_start m = pt \<and> 0 \<le> pt \<and> item_stop m \<le> e
     \<and> eo_duration_change out = DurationUnchanged \<and> spliced t t' pt (item_stop m) 0 m e"
  by (rule overwrite_spliced[OF assms])

theorem overwrite_splices_witness:
  "\<exists>out t' m. apply_overwrite reel (TypedId 1) (TypedId 1) (rt_new 50 tb24) (IClip (shot 20 7 0 4)) [OGap (TypedId 21)]
      = Inr (out, t') \<and> spliced reel t' 50 (item_stop m) 0 m 84"
proof -
  have "is_ok (apply_overwrite reel (TypedId 1) (TypedId 1) (rt_new 50 tb24) (IClip (shot 20 7 0 4)) [OGap (TypedId 21)])"
    by code_simp
  then obtain out t' where run: "apply_overwrite reel (TypedId 1) (TypedId 1) (rt_new 50 tb24) (IClip (shot 20 7 0 4)) [OGap (TypedId 21)]
      = Inr (out, t')" by (auto simp: is_ok_iff)
  have m: "item_ok tb24 (IClip (shot 20 7 0 4))" by (rule shot_item_ok) simp_all
  have "in_i64 50" by (simp add: in_i64_def)
  from overwrite_splices[OF reel_tiled this m, unfolded reel_clock, OF run] run show ?thesis by blast
qed

text \<open>
  A lift keeps the duration of the track: it plays the gap over the lifted range and
  everywhere else what it played before.
\<close>

theorem lift_splices:
  assumes "track_tiled t e" "tr_ok r" "apply_lift t tlid trid r g ids = Inr (out, t')"
  shows "0 \<le> rt_value (tr_start r) \<and> tr_end r \<le> e \<and> eo_duration_change out = DurationUnchanged
     \<and> spliced t t' (rt_value (tr_start r)) (tr_end r) 0 (IGap (g\<lparr>gp_record_range := r\<rparr>)) e"
  by (rule lift_spliced[OF assms])

theorem lift_splices_witness:
  "\<exists>out t'. apply_lift reel (TypedId 1) (TypedId 1) (range24 48 12) (hole 20 0 12) [] = Inr (out, t')
     \<and> track_tiled t' 84"
proof -
  have "is_ok (apply_lift reel (TypedId 1) (TypedId 1) (range24 48 12) (hole 20 0 12) [])" by code_simp
  then obtain out t' where run: "apply_lift reel (TypedId 1) (TypedId 1) (range24 48 12) (hole 20 0 12) [] = Inr (out, t')"
    by (auto simp: is_ok_iff)
  have "tr_ok (range24 48 12)" by (rule range24_ok) simp_all
  from lift_splices[OF reel_tiled this run] run show ?thesis by (auto simp: spliced_def)
qed

text \<open>
  C4: An extract shortens the track by the range: before the range it plays what it did, and
  from its start on what it played from the end of the range on.
\<close>

theorem extract_closes:
  assumes "track_tiled t e" "tr_ok r" "apply_extract t tlid trid r ids = Inr (out, t')"
  shows "0 \<le> rt_value (tr_start r) \<and> tr_end r \<le> e \<and> eo_duration_change out = DurationShortened (tr_duration r)
     \<and> closed_up t t' (rt_value (tr_start r)) (tr_end r) e"
  by (rule extract_closed[OF assms])

theorem extract_closes_witness:
  "\<exists>out t'. apply_extract reel (TypedId 1) (TypedId 1) (range24 50 4) [OGap (TypedId 21)] = Inr (out, t')
     \<and> track_tiled t' 80"
proof -
  have "is_ok (apply_extract reel (TypedId 1) (TypedId 1) (range24 50 4) [OGap (TypedId 21)])" by code_simp
  then obtain out t' where run: "apply_extract reel (TypedId 1) (TypedId 1) (range24 50 4) [OGap (TypedId 21)] = Inr (out, t')"
    by (auto simp: is_ok_iff)
  have r: "tr_ok (range24 50 4)" by (rule range24_ok) simp_all
  from extract_closes[OF reel_tiled r run] have "closed_up reel t' 50 54 84" by (simp add: range24_def tr_end_def)
  then show ?thesis using run by (auto simp: closed_up_def)
qed

section \<open>Edits of neighbouring items\<close>

text \<open>
  C31: A razor cut splits the target at the point into two adjacent items, the left with its
  identity and the right with the fragment's, and the track plays at every tick exactly what
  it played before.
\<close>

theorem razor_plays_the_same:
  assumes "track_tiled t e" "in_i64 pt"
    "apply_razor t tlid trid target (rt_new pt (track_timebase t)) fragment = Inr (out, t')"
  shows "\<exists>i l r. i < length (timed_items t) \<and> item_id (timed_items t ! i) = target
     \<and> item_start (timed_items t ! i) < pt \<and> pt < item_stop (timed_items t ! i)
     \<and> timed_items t' = take i (timed_items t) @ [l, r] @ drop (Suc i) (timed_items t)
     \<and> item_id l = target \<and> item_stop l = pt \<and> item_id r = fragment \<and> item_start r = pt
     \<and> track_timebase t' = track_timebase t \<and> track_tiled t' e
     \<and> (\<forall>rounding v. stable_rounding rounding \<longrightarrow> track_plays rounding t' v = track_plays rounding t v)"
  by (rule razor_plays[OF assms])

theorem razor_plays_the_same_witness:
  "\<exists>out t'. apply_razor reel (TypedId 1) (TypedId 1) (OClip (TypedId 12)) (rt_new 70 tb24) (OClip (TypedId 21)) = Inr (out, t')
     \<and> track_plays RoundExact t' 75 = track_plays RoundExact reel 75 \<and> track_tiled t' 84"
proof -
  have "is_ok (apply_razor reel (TypedId 1) (TypedId 1) (OClip (TypedId 12)) (rt_new 70 tb24) (OClip (TypedId 21)))" by code_simp
  then obtain out t' where run: "apply_razor reel (TypedId 1) (TypedId 1) (OClip (TypedId 12)) (rt_new 70 tb24) (OClip (TypedId 21))
      = Inr (out, t')" by (auto simp: is_ok_iff)
  have "in_i64 70" by (simp add: in_i64_def)
  from razor_plays_the_same[OF reel_tiled this, unfolded reel_clock, OF run] run
  show ?thesis by (auto simp: stable_rounding_def)
qed

text \<open>
  A roll moves the cut between two adjacent items to the point, inside their combined span,
  keeps both identities and the duration of the track, and changes nothing outside the span.
\<close>

theorem roll_moves_cut:
  assumes "track_tiled t e" "in_i64 pt"
    "apply_roll t tlid trid left_id right_id (rt_new pt (track_timebase t)) = Inr (out, t')"
  shows "\<exists>i l r. Suc i < length (timed_items t) \<and> item_id (timed_items t ! i) = left_id
     \<and> item_id (timed_items t ! Suc i) = right_id
     \<and> item_start (timed_items t ! i) < pt \<and> pt < item_stop (timed_items t ! Suc i)
     \<and> timed_items t' = (timed_items t)[i := l, Suc i := r] \<and> item_id l = left_id \<and> item_id r = right_id
     \<and> item_stop l = pt \<and> item_start r = pt
     \<and> patched t t' (item_start (timed_items t ! i)) (item_stop (timed_items t ! Suc i)) e"
  by (rule roll_patched[OF assms])

theorem roll_moves_cut_witness:
  "\<exists>out t'. apply_roll reel (TypedId 1) (TypedId 1) (OGap (TypedId 11)) (OClip (TypedId 12)) (rt_new 63 tb24) = Inr (out, t')
     \<and> track_tiled t' 84"
proof -
  have "is_ok (apply_roll reel (TypedId 1) (TypedId 1) (OGap (TypedId 11)) (OClip (TypedId 12)) (rt_new 63 tb24))" by code_simp
  then obtain out t' where run: "apply_roll reel (TypedId 1) (TypedId 1) (OGap (TypedId 11)) (OClip (TypedId 12)) (rt_new 63 tb24)
      = Inr (out, t')" by (auto simp: is_ok_iff)
  have "in_i64 63" by (simp add: in_i64_def)
  from roll_moves_cut[OF reel_tiled this, unfolded reel_clock, OF run] run show ?thesis by (auto simp: patched_def)
qed

text \<open>
  C32: A ripple moves the chosen edge of the target and the rest of the track with it: the
  target keeps its start and changes its length by the reported amount, what was before it
  plays as before, and what was after it plays the same, moved by that amount.
\<close>

theorem ripple_moves_rest:
  assumes "track_tiled t e" "in_i64 pt"
    "apply_ripple t tlid trid target side (rt_new pt (track_timebase t)) = Inr (out, t')"
  shows "\<exists>i x delta. i < length (timed_items t) \<and> item_id (timed_items t ! i) = target
     \<and> delta = (case side of SideStart \<Rightarrow> item_start (timed_items t ! i) - pt | SideEnd \<Rightarrow> pt - item_stop (timed_items t ! i))
     \<and> track_timebase t' = track_timebase t \<and> track_tiled t' (e + delta)
     \<and> timed_items t' ! i = x \<and> i < length (timed_items t')
     \<and> item_id x = target \<and> item_start x = item_start (timed_items t ! i)
     \<and> item_stop x = item_stop (timed_items t ! i) + delta
     \<and> (\<forall>rounding v. stable_rounding rounding \<longrightarrow>
          (v < item_start x \<longrightarrow> track_plays rounding t' v = track_plays rounding t v)
          \<and> (item_stop (timed_items t ! i) \<le> v \<longrightarrow> track_plays rounding t' (v + delta) = track_plays rounding t v))"
  using ripple_moves[OF assms] by blast

theorem ripple_moves_rest_witness:
  "\<exists>out t' delta. apply_ripple reel (TypedId 1) (TypedId 1) (OGap (TypedId 11)) SideEnd (rt_new 54 tb24) = Inr (out, t')
     \<and> track_tiled t' (84 + delta)"
proof -
  have "is_ok (apply_ripple reel (TypedId 1) (TypedId 1) (OGap (TypedId 11)) SideEnd (rt_new 54 tb24))" by code_simp
  then obtain out t' where run: "apply_ripple reel (TypedId 1) (TypedId 1) (OGap (TypedId 11)) SideEnd (rt_new 54 tb24)
      = Inr (out, t')" by (auto simp: is_ok_iff)
  have "in_i64 54" by (simp add: in_i64_def)
  from ripple_moves_rest[OF reel_tiled this, unfolded reel_clock, OF run] run show ?thesis by blast
qed

text \<open>
  A trim moves one edge of the target to the point and keeps the other edge and the track's
  duration; outside the target's old range nothing that was not a gap plays differently, so the
  trim takes its time from, or gives it to, a gap only.
\<close>

theorem trim_moves_one_edge:
  assumes "track_tiled t e" "in_i64 pt"
    "apply_trim t tlid trid target side (rt_new pt (track_timebase t)) gap_ident = Inr (out, t')"
  shows "\<exists>i y. i < length (timed_items t) \<and> item_id (timed_items t ! i) = target
     \<and> track_timebase t' = track_timebase t \<and> track_tiled t' e \<and> eo_duration_change out = DurationUnchanged
     \<and> y \<in> set (timed_items t') \<and> item_id y = target \<and> item_start y < item_stop y
     \<and> (case side of SideStart \<Rightarrow> item_start y = pt \<and> item_stop y = item_stop (timed_items t ! i)
         | SideEnd \<Rightarrow> item_start y = item_start (timed_items t ! i) \<and> item_stop y = pt)
     \<and> (\<forall>rounding v. \<not> (item_start (timed_items t ! i) \<le> v \<and> v < item_stop (timed_items t ! i))
          \<longrightarrow> track_plays rounding t v \<noteq> Some FrameGap \<longrightarrow> track_plays rounding t' v = track_plays rounding t v)"
  by (rule trim_moves_edge[OF assms])

theorem trim_moves_one_edge_witness:
  "\<exists>out t'. apply_trim reel (TypedId 1) (TypedId 1) (OClip (TypedId 12)) SideStart (rt_new 48 tb24) None = Inr (out, t')
     \<and> track_tiled t' 84"
proof -
  have "is_ok (apply_trim reel (TypedId 1) (TypedId 1) (OClip (TypedId 12)) SideStart (rt_new 48 tb24) None)" by code_simp
  then obtain out t' where run: "apply_trim reel (TypedId 1) (TypedId 1) (OClip (TypedId 12)) SideStart (rt_new 48 tb24) None
      = Inr (out, t')" by (auto simp: is_ok_iff)
  have "in_i64 48" by (simp add: in_i64_def)
  from trim_moves_one_edge[OF reel_tiled this, unfolded reel_clock, OF run] run show ?thesis by blast
qed

text \<open>
  The start case of \<open>trim_item\<close> derives the source offset from the record start it is given;
  the ripple passes the old one.
\<close>

lemma trim_start_same:
  assumes c: "clip_ok c" and r: "tr_ok r" "tr_start r = tr_start (cl_record_range c)"
    and run: "trim_item (IClip c) r SideStart operation = Inr (IClip c')"
  shows "tr_start (cl_source_range c') = tr_start (cl_source_range c)"
proof -
  note k = clip_okD[OF c] and sr = tr_okD[OF clip_okD(1)[OF c]] and rr = tr_okD[OF clip_okD(2)[OF c]]
  from run obtain o1 o2 s d q where o: "rt_checked_sub_at (tr_start r) (tr_start (cl_record_range c)) (tr_timebase (cl_record_range c)) RoundExact = Inr o1"
      "rt_checked_rescale o1 (tr_timebase (cl_source_range c)) RoundExact = Inr o2"
      "rt_checked_add_at (tr_start (cl_source_range c)) o2 (tr_timebase (cl_source_range c)) RoundExact = Inr s"
    and d: "exact_duration_at (tr_duration r) (tr_timebase (cl_source_range c)) operation = Inr d"
    and q: "tr_new s d = Inr q" "cl_set_ranges c q r = Inr c'"
    by (auto simp: trim_item_def Let_def bindR_Inr mapR_Inr)
  have o1: "rt_ok o1" "secs o1 = 0" using sub_exact[OF _ _ _ o(1)] r rr by simp_all
  have o2: "rt_ok o2" "secs o2 = 0" using rescale_exact[OF o1(1), of "tr_timebase (cl_source_range c)" o2] o(2) o1(2) sr by simp_all
  have s: "rt_ok s" "rt_timebase s = tr_timebase (cl_source_range c)" "secs s = secs (tr_start (cl_source_range c))"
    using add_exact[OF _ o2(1) _ o(3)] sr o2(2) by simp_all
  have "rt_eq s (tr_start (cl_source_range c))" using rt_time.eq_seconds[OF s(1)] sr s(3) by simp
  then have "s = tr_start (cl_source_range c)" using rt_eq_same[OF s(1)] sr s(2) by simp
  moreover have "du_ok d" using d du_rescale_exact[of "tr_duration r" "tr_timebase (cl_source_range c)" d] tr_okD[OF r(1)] sr
    by (simp add: exact_duration_at_def with_error_context_def map_errR_Inr)
  then have "tr_ok q" "tr_start q = s" using tr_new_ok[OF s(1) _ q(1)] by simp_all
  moreover have "cl_source_range c' = q" using cl_set_ranges_ok[OF c \<open>tr_ok q\<close> r(1) q(2)] by simp
  ultimately show ?thesis by simp
qed

text \<open>
  A ripple of a clip's start never moves its in-point: whatever the point, the edited clip
  starts at the same record time with the same first source time, and only its tail is longer
  or shorter. The documentation of the operation says that the named edge moves.
\<close>

theorem ripple_start_keeps_in_point:
  assumes "track_tiled t e" "in_i64 pt"
    "apply_ripple t tlid trid (OClip ident) SideStart (rt_new pt (track_timebase t)) = Inr (out, t')"
  shows "\<exists>i c c'. i < length (timed_items t) \<and> timed_items t ! i = IClip c \<and> cl_id c = ident
     \<and> i < length (timed_items t') \<and> timed_items t' ! i = IClip c'
     \<and> tr_start (cl_record_range c') = tr_start (cl_record_range c)
     \<and> tr_start (cl_source_range c') = tr_start (cl_source_range c)
     \<and> tr_end (cl_record_range c') = tr_end (cl_record_range c) - (pt - rt_value (tr_start (cl_record_range c)))"
proof -
  obtain i x r where i: "i < length (timed_items t)" "item_id (timed_items t ! i) = OClip ident" "track_tiled t' (e + (item_start (timed_items t ! i) - pt))"
    "track_timebase t' = track_timebase t" "timed_items t' ! i = x" "i < length (timed_items t')"
    "item_start x = item_start (timed_items t ! i)" "item_stop x = item_stop (timed_items t ! i) + (item_start (timed_items t ! i) - pt)"
    and r: "tr_ok r" "tr_timebase r = track_timebase t" "trim_item (timed_items t ! i) r SideStart ''ripple'' = Inr x"
    using ripple_moves[OF assms] by auto
  obtain c where c: "timed_items t ! i = IClip c" "cl_id c = ident" using i(2) by (cases "timed_items t ! i") auto
  have x: "item_ok (track_timebase t) (timed_items t ! i)" using timed_ok[OF assms(1) i(1)] .
  note y = trim_item_ok[OF x r]
  have "item_id x = OClip ident" using y i(2) by simp
  then obtain c' where c': "x = IClip c'" by (cases x) auto
  have co: "clip_ok c" using x c by simp
  have st: "tr_start (cl_record_range c') = tr_start (cl_record_range c)"
    using item_range_eq(1)[OF x] item_range_eq(1)[of "track_timebase t" x] y i(7) c c' r(2) by simp
  have "cl_record_range c' = r" using y c' by simp
  then have "tr_start (cl_source_range c') = tr_start (cl_source_range c)"
    using trim_start_same[OF co r(1)] r(3) c c' st by simp
  then show ?thesis using i c c' st by (intro exI[of _ i] exI[of _ c] exI[of _ c']) (simp add: item_start_def item_stop_def)
qed

theorem ripple_start_keeps_in_point_witness:
  "\<exists>out t' c'. apply_ripple reel (TypedId 1) (TypedId 1) (OClip (TypedId 12)) SideStart (rt_new 66 tb24) = Inr (out, t')
     \<and> timed_items t' ! 2 = IClip c' \<and> tr_start (cl_source_range c') = rt_new 500 tb24 \<and> tr_end (cl_record_range c') = 78"
proof -
  have "is_ok (apply_ripple reel (TypedId 1) (TypedId 1) (OClip (TypedId 12)) SideStart (rt_new 66 tb24))" by code_simp
  then obtain out t' where run: "apply_ripple reel (TypedId 1) (TypedId 1) (OClip (TypedId 12)) SideStart (rt_new 66 tb24)
      = Inr (out, t')" by (auto simp: is_ok_iff)
  have "in_i64 66" by (simp add: in_i64_def)
  from ripple_start_keeps_in_point[OF reel_tiled this, unfolded reel_clock, OF run] obtain i c c' where
    i: "i < length (timed_items reel)" "timed_items reel ! i = IClip c" "cl_id c = TypedId 12" "timed_items t' ! i = IClip c'"
    "tr_start (cl_source_range c') = tr_start (cl_source_range c)"
    "tr_end (cl_record_range c') = tr_end (cl_record_range c) - (66 - rt_value (tr_start (cl_record_range c)))"
    by blast
  have "i = 0 \<or> i = 1 \<or> i = 2" using i(1) unfolding reel_items by auto
  then have "i = 2 \<and> c = shot 12 500 60 24" using i(2,3) unfolding reel_items by (auto simp: shot_def)
  then show ?thesis using run i
    by (auto simp: shot_def cl_source_range_def cl_record_range_def range24_def tr_end_def)
qed

text \<open>
  A replacement puts the material in the target's place with the target's exact range;
  nothing outside the range changes.
\<close>

theorem replace_keeps_range:
  assumes "track_tiled t e" "item_ok tb' material" "apply_replace t tlid trid target material = Inr (out, t')"
  shows "\<exists>i m. i < length (timed_items t) \<and> item_id (timed_items t ! i) = target
     \<and> item_start m = item_start (timed_items t ! i) \<and> item_stop m = item_stop (timed_items t ! i)
     \<and> item_id m = item_id material \<and> timed_items t' = (timed_items t)[i := m]
     \<and> patched t t' (item_start (timed_items t ! i)) (item_stop (timed_items t ! i)) e"
  by (rule replace_patched[OF assms])

theorem replace_keeps_range_witness:
  "\<exists>out t'. apply_replace reel (TypedId 1) (TypedId 1) (OGap (TypedId 11)) (IClip (shot 20 7 0 12)) = Inr (out, t')
     \<and> track_tiled t' 84"
proof -
  have "is_ok (apply_replace reel (TypedId 1) (TypedId 1) (OGap (TypedId 11)) (IClip (shot 20 7 0 12)))" by code_simp
  then obtain out t' where run: "apply_replace reel (TypedId 1) (TypedId 1) (OGap (TypedId 11)) (IClip (shot 20 7 0 12))
      = Inr (out, t')" by (auto simp: is_ok_iff)
  have "item_ok tb24 (IClip (shot 20 7 0 12))" by (rule shot_item_ok) simp_all
  from replace_keeps_range[OF reel_tiled this run] run show ?thesis by (auto simp: patched_def)
qed

section \<open>Edits of one clip\<close>

text \<open>
  A slip keeps the clip's place and length and moves every source time it resolves, whatever
  its retime map, by exactly the distance its source range moved.
\<close>

theorem slip_moves_every_sample:
  assumes "track_tiled t e" "rt_ok p" "apply_slip t tlid trid ident p = Inr (out, t')"
  shows "\<exists>i c c'. i < length (timed_items t) \<and> timed_items t ! i = IClip c \<and> cl_id c = ident \<and> clip_ok c'
     \<and> tr_start (cl_source_range c') = p \<and> tr_duration (cl_source_range c') = tr_duration (cl_source_range c)
     \<and> cl_record_range c' = cl_record_range c \<and> timed_items t' = (timed_items t)[i := IClip c']
     \<and> patched t t' (rt_value (tr_start (cl_record_range c))) (tr_end (cl_record_range c)) e
     \<and> (\<forall>v rounding r r'. cl_source_time_at c v rounding = Inr r \<longrightarrow> cl_source_time_at c' v rounding = Inr r'
          \<longrightarrow> rt_value (mst_time r') - rt_value (mst_time r) = rt_value p - rt_value (tr_start (cl_source_range c))
              \<and> mst_resolution r' = mst_resolution r)"
  by (rule slip_moves_source[OF assms])

theorem slip_moves_every_sample_witness:
  "\<exists>out t'. apply_slip reel (TypedId 1) (TypedId 1) (TypedId 12) (rt_new 520 tb24) = Inr (out, t') \<and> track_tiled t' 84"
proof -
  have "is_ok (apply_slip reel (TypedId 1) (TypedId 1) (TypedId 12) (rt_new 520 tb24))" by code_simp
  then obtain out t' where run: "apply_slip reel (TypedId 1) (TypedId 1) (TypedId 12) (rt_new 520 tb24) = Inr (out, t')"
    by (auto simp: is_ok_iff)
  have "rt_ok (rt_new 520 tb24)" by simp
  from slip_moves_every_sample[OF reel_tiled this run] run show ?thesis by (auto simp: patched_def)
qed

text \<open>
  A slide moves the clip as it is, with what it plays, and gives the time to, or takes it
  from, the two clips next to it, which keep a nonzero length; nothing outside the three clips
  changes.
\<close>

theorem slide_moves_clip:
  assumes "track_tiled t e" "in_i64 pt"
    "apply_slide t tlid trid ident (rt_new pt (track_timebase t)) = Inr (out, t')"
  shows "\<exists>i l m r. Suc (Suc i) < length (timed_items t) \<and> item_id (timed_items t ! Suc i) = OClip ident
     \<and> timed_items t' = (timed_items t)[i := l, Suc i := m, Suc (Suc i) := r]
     \<and> plays_part (track_timebase t) (timed_items t ! Suc i) (pt - item_start (timed_items t ! Suc i)) m pt
          (item_stop (timed_items t ! Suc i) + (pt - item_start (timed_items t ! Suc i)))
     \<and> item_id l = item_id (timed_items t ! i) \<and> item_id r = item_id (timed_items t ! Suc (Suc i))
     \<and> item_start l < item_stop l \<and> item_stop l = pt \<and> item_start r = item_stop m \<and> item_start r < item_stop r
     \<and> patched t t' (item_start (timed_items t ! i)) (item_stop (timed_items t ! Suc (Suc i))) e"
  by (rule slide_patched[OF assms])

definition three_shots :: track where
  "three_shots = reel\<lparr>tk_items := [IClip (shot 10 100 0 48), IClip (shot 11 7 48 12), IClip (shot 12 500 60 24)]\<rparr>"

lemma three_shots_tiled: "track_timebase three_shots = tb24" "track_tiled three_shots 84"
proof -
  show tb: "track_timebase three_shots = tb24" using reel_clock by (simp add: track_timebase_def three_shots_def)
  have items: "timed_items three_shots = [IClip (shot 10 100 0 48), IClip (shot 11 7 48 12), IClip (shot 12 500 60 24)]"
    by (simp add: timed_items_def three_shots_def)
  show "track_tiled three_shots 84"
    unfolding track_tiled_def tb items using shot_item_ok[of 100 0 48 10] shot_item_ok[of 7 48 12 11] shot_item_ok[of 500 60 24 12]
    by simp
qed

theorem slide_moves_clip_witness:
  "\<exists>out t'. apply_slide three_shots (TypedId 1) (TypedId 1) (TypedId 11) (rt_new 50 tb24) = Inr (out, t') \<and> track_tiled t' 84"
proof -
  have "is_ok (apply_slide three_shots (TypedId 1) (TypedId 1) (TypedId 11) (rt_new 50 tb24))" by code_simp
  then obtain out t' where run: "apply_slide three_shots (TypedId 1) (TypedId 1) (TypedId 11) (rt_new 50 tb24) = Inr (out, t')"
    by (auto simp: is_ok_iff)
  have "in_i64 50" by (simp add: in_i64_def)
  from slide_moves_clip[OF three_shots_tiled(2) this, unfolded three_shots_tiled(1), OF run] run show ?thesis
    by (auto simp: patched_def)
qed

end
