(* ===== verification/TrackValid.thy ===== *)
theory TrackValid
  imports EditProps
begin

text \<open>
  What the validation of a track (\<open>model.rs\<close>, \<open>validate_track\<close> and the functions it calls) accepts
  and what an edit rebuilds: the transitions \<open>rebuild_with_transitions\<close> keeps pass every check of
  the validation, so a track rebuilt from tiled items validates, and a track that validates is tiled.
\<close>

section \<open>The transitions of a rebuilt track\<close>

text \<open>Where the item \<open>i\<close> of the timed list stands once the transitions are put in.\<close>

definition place :: "transition option list \<Rightarrow> nat \<Rightarrow> nat" where
  "place bs i = i + length (filter (\<lambda>b. b \<noteq> None) (take i bs))"

lemma place_0 [simp]: "place bs 0 = 0"
  by (simp add: place_def)

lemma place_Suc_Cons: "place (b # bs) (Suc i) = place bs i + (if b = None then 1 else 2)"
  by (simp add: place_def)

lemma place_Suc: "i < length bs \<Longrightarrow> place bs (Suc i) = place bs i + (if bs ! i = None then 1 else 2)"
  by (simp add: place_def take_Suc_conv_app_nth)

lemma interleave_ne: "xs \<noteq> [] \<Longrightarrow> interleave xs bs \<noteq> []"
  by (cases xs; cases bs; cases "tl xs") auto

lemma interleave_places:
  assumes "length bs = length xs - 1" "i < length xs"
  shows "place bs i < length (interleave xs bs) \<and> interleave xs bs ! place bs i = xs ! i
    \<and> (\<forall>t. i < length bs \<longrightarrow> bs ! i = Some t \<longrightarrow> interleave xs bs ! Suc (place bs i) = ITransition t)
    \<and> (Suc (place bs i) < length (interleave xs bs) \<longleftrightarrow> i < length bs)"
  using assms
proof (induction xs bs arbitrary: i rule: interleave.induct)
  case (1 x y rest b bs)
  show ?case
  proof (cases i)
    case 0
    with interleave_ne[of "y # rest" bs] show ?thesis by (cases b) auto
  next
    case (Suc j)
    with "1.prems" have j: "length bs = length (y # rest) - 1" "j < length (y # rest)" by auto
    from "1.IH"[OF j] Suc show ?thesis by (cases b) (auto simp: place_Suc_Cons)
  qed
qed (auto simp: place_def)

lemma interleave_index:
  assumes "length bs = length xs - 1" "j < length (interleave xs bs)"
  shows "\<exists>i < length xs. j = place bs i \<or> (\<exists>t. i < length bs \<and> bs ! i = Some t \<and> j = Suc (place bs i))"
  using assms
proof (induction xs bs arbitrary: j rule: interleave.induct)
  case (1 x y rest b bs)
  have len: "length bs = length (y # rest) - 1" using "1.prems" by simp
  let ?k = "if b = None then 1 else 2 :: nat"
  show ?case
  proof (cases "j < ?k")
    case True
    then have "j = 0 \<or> (j = 1 \<and> b \<noteq> None)" by (auto split: if_splits)
    then show ?thesis by (intro exI[of _ 0]) auto
  next
    case False
    then have "j - ?k < length (interleave (y # rest) bs)" using "1.prems" by (cases b) auto
    from "1.IH"[OF len this] obtain i where i: "i < length (y # rest)"
      "j - ?k = place bs i \<or> (\<exists>t. i < length bs \<and> bs ! i = Some t \<and> j - ?k = Suc (place bs i))" by blast
    then have "j = place (b # bs) (Suc i) \<or> (\<exists>t. Suc i < length (b # bs) \<and> (b # bs) ! Suc i = Some t \<and> j = Suc (place (b # bs) (Suc i)))"
      using False by (auto simp: place_Suc_Cons)
    with i show ?thesis by (intro exI[of _ "Suc i"]) auto
  qed
qed (auto simp: place_def)

text \<open>An authored transition on a track's clock, as the validation asks for it.\<close>

definition authored :: "timebase \<Rightarrow> transition \<Rightarrow> bool" where
  "authored tb t \<longleftrightarrow> \<not> is_blank (tn_name t) \<and> du_ok (tn_from_offset t) \<and> du_ok (tn_to_offset t)
     \<and> du_timebase (tn_from_offset t) = tb \<and> du_timebase (tn_to_offset t) = tb
     \<and> \<not> (du_value (tn_from_offset t) = 0 \<and> du_value (tn_to_offset t) = 0)"

lemma fits_values:
  assumes "\<forall>x\<in>set xs. item_ok tb x" "\<forall>t\<in>set ts. authored tb t" "fits_between xs ts i t"
  shows "authored tb t \<and> du_value (tn_from_offset t) \<le> du_value (tr_duration (timed_range (xs ! i)))
    \<and> du_value (tn_to_offset t) \<le> du_value (tr_duration (timed_range (xs ! Suc i)))"
proof -
  have t: "authored tb t" and len: "Suc i < length xs" using assms(2,3) by (auto simp: fits_between_def)
  have x: "item_ok tb (xs ! i)" "item_ok tb (xs ! Suc i)" using assms(1) len by auto
  have d: "du_ok (tr_duration (timed_range (xs ! i)))" "du_ok (tr_duration (timed_range (xs ! Suc i)))"
    using item_ok_range(2)[OF x(1)] item_ok_range(2)[OF x(2)] by (simp_all add: tr_ok_def)
  show ?thesis
    using assms(3) t du_same_timebase(2)[OF d(1)] du_same_timebase(2)[OF d(2)] item_range_eq(6)[OF x(1)] item_range_eq(6)[OF x(2)]
    by (auto simp: fits_between_def authored_def not_less)
qed

text \<open>After the pass over the items no item is used twice.\<close>

definition no_overlap :: "track_item list \<Rightarrow> transition option list \<Rightarrow> nat \<Rightarrow> bool" where
  "no_overlap xs bs i \<longleftrightarrow> (\<forall>a b. 0 < i \<longrightarrow> i < length bs \<longrightarrow> bs ! (i - 1) = Some a \<longrightarrow> bs ! i = Some b
     \<longrightarrow> du_value (tn_to_offset a) + du_value (tn_from_offset b) \<le> du_value (tr_duration (timed_range (xs ! i))))"

lemma drop_overlap_spec:
  assumes xs: "\<forall>x\<in>set xs. item_ok tb x" "length bs = length xs - 1" "\<forall>i t. i < length bs \<longrightarrow> bs ! i = Some t \<longrightarrow> authored tb t"
    and run: "drop_overlap xs n bs = Inr cs" and before: "\<forall>i<n. no_overlap xs bs i"
  shows "\<forall>i<Suc n. no_overlap xs cs i"
proof -
  have old: "\<forall>i<n. no_overlap xs cs i"
  proof (intro allI impI)
    fix i assume "i < n"
    then have "no_overlap xs bs i" using before by simp
    moreover have "cs ! (i - 1) = bs ! (i - 1)" "cs ! i = bs ! i" "length cs = length bs"
      using drop_overlap_keeps[OF run] \<open>i < n\<close> by auto
    ultimately show "no_overlap xs cs i" by (simp add: no_overlap_def)
  qed
  have "no_overlap xs cs n"
    unfolding no_overlap_def
  proof (intro allI impI)
    fix a b assume n: "0 < n" "n < length cs" and ab: "cs ! (n - 1) = Some a" "cs ! n = Some b"
    have cs: "cs = bs" using drop_overlap_keeps[OF run] n ab by auto
    have "n - 1 < length bs" using n cs by simp
    then have ok: "authored tb a" "authored tb b" using xs(3) n ab cs by blast+
    have x: "item_ok tb (xs ! n)" using xs(1,2) n cs by simp
    let ?d = "tr_duration (timed_range (xs ! n))"
    have d: "du_ok ?d" "du_timebase ?d = tb" using item_ok_range(2)[OF x] item_range_eq(6)[OF x] by (simp_all add: tr_ok_def)
    let ?p = "du_rational_time (tn_to_offset a)" and ?q = "du_rational_time (tn_from_offset b)"
    have pq: "rt_ok ?p" "rt_ok ?q" "rt_timebase ?p = tb" "rt_timebase ?q = tb"
      "rt_value ?p = du_value (tn_to_offset a)" "rt_value ?q = du_value (tn_from_offset b)"
      using ok by (simp_all add: authored_def du_rational_ok du_rational_simps)
    have dr: "rt_ok (du_rational_time ?d)" "rt_timebase (du_rational_time ?d) = tb" "rt_value (du_rational_time ?d) = du_value ?d"
      using d by (simp_all add: du_rational_ok du_rational_simps)
    from run cs n ab obtain c where c: "rt_checked_add_at ?p ?q tb RoundExact = Inr c"
      and keep: "bs = (if rt_lt (du_rational_time ?d) c then bs[n := None] else bs)"
      by (auto simp: drop_overlap_def Let_def bindR_Inr d(2))
    have "\<not> rt_lt (du_rational_time ?d) c"
    proof
      assume "rt_lt (du_rational_time ?d) c"
      then have "bs ! n = None" using keep n cs by (metis nth_list_update_eq)
      then show False using ab cs by simp
    qed
    moreover have "c = rt_new (rt_value ?p + rt_value ?q) tb \<and> rt_ok c"
      using c add_same_timebase[OF pq(1,2,3,4), of RoundExact] pq(1,3) by (auto simp: rt_ok_def split: if_splits)
    ultimately show "du_value (tn_to_offset a) + du_value (tn_from_offset b) \<le> du_value ?d"
      using rt_same_timebase(2)[OF dr(1), of c] dr pq(5,6) by auto
  qed
  with old show ?thesis by (auto simp: less_Suc_eq)
qed

lemma overlap_pass:
  assumes xs: "\<forall>x\<in>set xs. item_ok tb x" and ts: "\<forall>t\<in>set ts. authored tb t"
    and run: "foldR (drop_overlap xs) [0..<n] (boundaries_of ts xs) = Inr cs"
  shows "length cs = length xs - 1 \<and> (\<forall>i t. i < length cs \<longrightarrow> cs ! i = Some t \<longrightarrow> fits_between xs ts i t)
    \<and> (\<forall>i<n. no_overlap xs cs i)"
  using run
proof (induction n arbitrary: cs)
  case 0
  then show ?case using boundaries_fit[of _ ts xs] boundaries_length[of ts xs] by auto
next
  case (Suc n)
  from Suc.prems obtain bs where bs: "foldR (drop_overlap xs) [0..<n] (boundaries_of ts xs) = Inr bs"
    and step: "drop_overlap xs n bs = Inr cs" by (auto simp: foldR_append bindR_Inr)
  note ih = Suc.IH[OF bs]
  have fit: "length cs = length bs \<and> (\<forall>i t. i < length cs \<longrightarrow> cs ! i = Some t \<longrightarrow> fits_between xs ts i t)"
    by (rule overlap_loop_fit[of xs "[n]" bs]) (use step ih in auto)
  have "\<forall>i t. i < length bs \<longrightarrow> bs ! i = Some t \<longrightarrow> authored tb t" using ih ts by (auto simp: fits_between_def)
  from drop_overlap_spec[OF xs _ this step] ih fit show ?case by simp
qed

lemma rebuilt_transition:
  assumes xs: "\<forall>x\<in>set xs. item_ok tb x" and ts: "\<forall>t\<in>set ts. authored tb t"
    and run: "rebuild_with_transitions xs ts = Inr (items, removed)"
    and j: "j < length items" "items ! j = ITransition t"
  shows "t \<in> set ts \<and> validate_transition items j t tb = Inr ()"
proof -
  from run obtain cs where cs: "foldR (drop_overlap xs) [0..<length xs] (boundaries_of ts xs) = Inr cs"
    and items: "items = interleave xs cs" by (auto simp: rebuild_with_transitions_def Let_def bindR_Inr)
  note pass = overlap_pass[OF xs ts cs]
  have len: "length cs = length xs - 1" using pass by simp
  obtain i where i: "i < length xs" "j = place cs i \<or> (\<exists>t. i < length cs \<and> cs ! i = Some t \<and> j = Suc (place cs i))"
    using interleave_index[OF len, of j] j(1) items by blast
  note at = interleave_places[OF len i(1)]
  have "is_timed (xs ! i)" using item_ok_timed xs i(1) nth_mem by blast
  then have "j \<noteq> place cs i" using at j(2) items by (cases "xs ! i") auto
  then have jj: "i < length cs" "cs ! i = Some t" "j = Suc (place cs i)" using i(2) at j(2) items by auto
  have si: "Suc i < length xs" using jj len by simp
  note at' = interleave_places[OF len si]
  have next_: "Suc j = place cs (Suc i)" using place_Suc[OF jj(1)] jj by simp
  have fit: "fits_between xs ts i t" using pass jj by blast
  note v = fits_values[OF xs ts fit]
  have x: "item_ok tb (xs ! i)" "item_ok tb (xs ! Suc i)" using xs si by auto
  have "items ! (j - 1) = xs ! i" "items ! (j + 1) = xs ! Suc i" "j + 1 < length items" "j \<noteq> 0"
    using at at' jj next_ items by auto
  then show ?thesis using v fit item_ok_range(1)[OF x(1)] item_ok_range(1)[OF x(2)]
    by (auto simp: validate_transition_def require_text_def authored_def fits_between_def du_is_zero_def)
qed

lemma rebuilt_overlap:
  assumes xs: "\<forall>x\<in>set xs. item_ok tb x" and ts: "\<forall>t\<in>set ts. authored tb t"
    and run: "rebuild_with_transitions xs ts = Inr (items, removed)" and j: "j < length items"
  shows "overlap_at items j = Inr ()"
proof -
  from run obtain cs where cs: "foldR (drop_overlap xs) [0..<length xs] (boundaries_of ts xs) = Inr cs"
    and items: "items = interleave xs cs" by (auto simp: rebuild_with_transitions_def Let_def bindR_Inr)
  note pass = overlap_pass[OF xs ts cs]
  have len: "length cs = length xs - 1" using pass by simp
  obtain i where i: "i < length xs" "j = place cs i \<or> (\<exists>t. i < length cs \<and> cs ! i = Some t \<and> j = Suc (place cs i))"
    using interleave_index[OF len, of j] j items by blast
  note at = interleave_places[OF len i(1)]
  show ?thesis
  proof (cases "j = place cs i")
    case False
    then obtain t where "items ! j = ITransition t" using i(2) at items by auto
    then show ?thesis by (simp add: overlap_at_def)
  next
    case True
    have x: "item_ok tb (xs ! i)" using xs i(1) by simp
    have ij: "items ! j = xs ! i" using at True items by simp
    let ?d = "du_value (tr_duration (timed_range (xs ! i)))"
    let ?in = "if j = 0 then 0 else transition_to_value (items ! (j - 1))"
    let ?out = "if j + 1 < length items then transition_from_value (items ! (j + 1)) else 0"
    have vals: "cs ! n = Some t \<Longrightarrow> n < length cs \<Longrightarrow> authored tb t \<and> du_value (tn_from_offset t) \<le> du_value (tr_duration (timed_range (xs ! n)))
        \<and> du_value (tn_to_offset t) \<le> du_value (tr_duration (timed_range (xs ! Suc n)))" for n t
      using fits_values[OF xs ts] pass by blast
    have timed_zero: "transition_to_value y = 0 \<and> transition_from_value y = 0" if "is_timed y" for y
      using that by (cases y) auto
    have timed: "is_timed (xs ! n)" if "n < length xs" for n using item_ok_timed xs that nth_mem by blast
    have inc: "?in = (if 0 < i then case cs ! (i - 1) of None \<Rightarrow> 0 | Some t \<Rightarrow> du_value (tn_to_offset t) else 0)"
    proof (cases i)
      case 0
      then show ?thesis using True by simp
    next
      case (Suc n)
      then have n: "n < length cs" "n < length xs" using i(1) len by auto
      note at'' = interleave_places[OF len n(2)]
      show ?thesis
      proof (cases "cs ! n")
        case None
        then have "j = Suc (place cs n)" using True Suc place_Suc[OF n(1)] by simp
        then show ?thesis using at'' items None Suc timed_zero[OF timed[OF n(2)]] by simp
      next
        case (Some t)
        then have "j = Suc (Suc (place cs n))" using True Suc place_Suc[OF n(1)] by simp
        then show ?thesis using at'' items Some Suc n by simp
      qed
    qed
    have out: "?out = (if i < length cs then case cs ! i of None \<Rightarrow> 0 | Some t \<Rightarrow> du_value (tn_from_offset t) else 0)"
    proof (cases "i < length cs")
      case False
      then show ?thesis using at True items by simp
    next
      case c: True
      then have si: "Suc i < length xs" using len by simp
      show ?thesis
      proof (cases "cs ! i")
        case None
        then have "Suc j = place cs (Suc i)" using True place_Suc[OF c] by simp
        then have "items ! Suc j = xs ! Suc i" using interleave_places[OF len si] items by simp
        then show ?thesis using at c None True items timed_zero[OF timed[OF si]] by simp
      next
        case (Some t)
        then show ?thesis using at c True items by simp
      qed
    qed
    have d0: "0 \<le> ?d" using item_ok_range(2)[OF x] by (simp add: tr_ok_def du_ok_def)
    have "0 \<le> ?in + ?out \<and> ?in + ?out \<le> ?d"
    proof (cases "0 < i \<and> i < length cs \<and> cs ! (i - 1) \<noteq> None \<and> cs ! i \<noteq> None")
      case both: True
      then obtain a b where ab: "cs ! (i - 1) = Some a" "cs ! i = Some b" by auto
      have "no_overlap xs cs i" using pass i(1) by simp
      then have "du_value (tn_to_offset a) + du_value (tn_from_offset b) \<le> ?d" using both ab by (simp add: no_overlap_def)
      then show ?thesis using inc out ab both vals[OF ab(1)] vals[OF ab(2)] by (auto simp: authored_def du_ok_def)
    next
      case one: False
      show ?thesis
      proof (cases "0 < i \<and> cs ! (i - 1) \<noteq> None")
        case True
        then obtain a where a: "cs ! (i - 1) = Some a" "i - 1 < length cs" using i(1) len by auto
        then show ?thesis using inc out one True vals[OF a] by (auto simp: authored_def du_ok_def)
      next
        case False
        then have "?in = 0" using inc by auto
        moreover have "0 \<le> ?out \<and> ?out \<le> ?d" using out d0 vals[of i] by (auto simp: authored_def du_ok_def split: option.splits)
        ultimately show ?thesis by linarith
      qed
    qed
    moreover have "?d < 2 ^ 63" using item_ok_range(2)[OF x] by (simp add: tr_ok_def du_ok_def)
    ultimately show ?thesis
      using ij item_ok_range(1)[OF x] by (simp add: overlap_at_def Let_def in_u64_def)
  qed
qed

lemma rebuilt_no_overlap:
  assumes xs: "\<forall>x\<in>set xs. item_ok tb x" and ts: "\<forall>t\<in>set ts. authored tb t"
    and run: "rebuild_with_transitions xs ts = Inr (items, removed)"
  shows "validate_transition_overlap items = Inr ()"
proof -
  have "traverse (overlap_at items) js = Inr (map (\<lambda>_. ()) js)" if "\<forall>j\<in>set js. j < length items" for js
    using that rebuilt_overlap[OF xs ts run] by (induction js) auto
  then show ?thesis by (simp add: validate_transition_overlap_def)
qed

section \<open>The validation of a track\<close>

text \<open>What the validation asks of a timed item besides its place.\<close>

fun item_named :: "track_item \<Rightarrow> bool" where
  "item_named (IClip c) \<longleftrightarrow> \<not> is_blank (cl_name c)"
| "item_named (IGap g) \<longleftrightarrow> \<not> is_blank (gp_name g)"
| "item_named (IGenerator g) \<longleftrightarrow> \<not> is_blank (gn_name g) \<and> \<not> is_blank (gn_kind g)
     \<and> (\<forall>key\<in>fst ` set (gn_parameters g). \<not> is_blank key)
     \<and> \<not> tr_is_empty (gn_record_range g)"
| "item_named (ICaption c) \<longleftrightarrow> \<not> is_blank (cp_name c) \<and> \<not> is_blank (cp_text c)
     \<and> (\<forall>language. cp_language c = Some language \<longrightarrow> \<not> is_blank language) \<and> \<not> tr_is_empty (cp_record_range c)"
| "item_named (ITransition t) \<longleftrightarrow> False"

lemma require_text_iff: "require_text operation label v = Inr () \<longleftrightarrow> \<not> is_blank v"
  by (simp add: require_text_def)

lemma require_text_all: "(\<forall>x\<in>set xs. \<not> is_blank x) \<Longrightarrow> traverse (require_text operation label) xs = Inr (map (\<lambda>_. ()) xs)"
  by (induction xs) (auto simp: require_text_def)

lemma record_range_valid:
  assumes "tr_ok r" "tr_timebase r = tb" "0 \<le> rt_value (tr_start r)" "allow \<or> \<not> tr_is_empty r"
  shows "validate_record_range r tb allow = Inr ()"
  using assms by (auto simp: validate_record_range_def rt_is_negative_def)

lemma validate_item_timed:
  assumes x: "item_ok tb x" "item_named x" "0 \<le> item_start x"
  shows "validate_item items tb n x (rt_new (item_start x) tb) = Inr (rt_new (item_stop x) tb)"
proof -
  note r = item_ok_range[OF x(1)] and e = item_range_eq[OF x(1)]
  have "rt_eq (rt_new (item_start x) tb) (rt_new (item_start x) tb)" using rt_eq_same[OF e(3) e(3)] by simp
  then have c: "require_contiguous (timed_range x) (rt_new (item_start x) tb) = Inr (rt_new (item_stop x) tb)"
    using e(1,2) by (simp add: require_contiguous_def)
  have v: "validate_record_range (timed_range x) tb allow = Inr ()" if "allow \<or> \<not> tr_is_empty (timed_range x)" for allow
    using record_range_valid[OF r(2,3) _ that] x(3) by (simp add: item_start_def)
  show ?thesis
  proof (cases x)
    case (IClip cl)
    have ok: "clip_ok cl" using x(1) IClip by simp
    note k = clip_okD[OF ok]
    have "\<not> tr_is_empty (cl_record_range cl)" using k(7) by (simp add: tr_is_empty_def du_is_zero_def)
    moreover have "rt_eq (du_rational_time (tr_duration (cl_source_range cl))) (du_rational_time (tr_duration (cl_record_range cl)))"
      using k(1,2,6) by (simp add: rt_time.eq_seconds du_rational_ok tr_ok_def)
    ultimately show ?thesis using x(2) c v[of False] IClip by (simp add: validate_item_def require_text_def)
  next
    case (IGap g)
    then show ?thesis using x(2) c v[of True] by (simp add: validate_item_def require_text_def)
  next
    case (IGenerator g)
    then show ?thesis using x(2) c v[of False] by (simp add: validate_item_def require_text_def require_text_all)
  next
    case (ICaption p)
    then show ?thesis using x(2) c v[of False] by (cases "cp_language p") (simp_all add: validate_item_def require_text_def)
  qed (use x(1) in simp)
qed

lemma validate_items_ok:
  assumes "rest = drop n items" "distinct (map item_id rest)" "\<forall>x\<in>set rest. item_id x \<notin> ids"
    and "\<forall>x\<in>set rest. is_timed x \<longrightarrow> item_ok tb x \<and> item_named x"
    and "\<And>j t. n \<le> j \<Longrightarrow> j < length items \<Longrightarrow> items ! j = ITransition t \<Longrightarrow> validate_transition items j t tb = Inr ()"
    and "tiles a (filter is_timed rest) e" "0 \<le> a"
  shows "validate_items items tb n rest ids (rt_new a tb) = Inr (ids \<union> item_id ` set rest)"
  using assms
proof (induction rest arbitrary: n ids a)
  case Nil
  then show ?case by simp
next
  case (Cons x rest)
  have n: "n < length items" "items ! n = x" "rest = drop (Suc n) items"
    using Cons.prems(1) by (metis drop_all list.distinct(1) not_le_imp_less)
      (metis Cons.prems(1) nth_via_drop, metis Cons.prems(1) drop_Suc list.sel(3) tl_drop)
  have d: "distinct (map item_id rest)" using Cons.prems(2) by simp
  have fresh: "\<forall>y\<in>set rest. item_id y \<notin> insert (item_id x) ids"
  proof
    fix y assume y: "y \<in> set rest"
    have "item_id x \<notin> item_id ` set rest" using Cons.prems(2) by simp
    then have "item_id y \<noteq> item_id x" using y by (metis imageI)
    then show "item_id y \<notin> insert (item_id x) ids" using Cons.prems(3) y by simp
  qed
  have t: "\<forall>y\<in>set rest. is_timed y \<longrightarrow> item_ok tb y \<and> item_named y" using Cons.prems(4) by simp
  have tr: "validate_transition items j t tb = Inr ()"
    if "Suc n \<le> j" "j < length items" "items ! j = ITransition t" for j t using Cons.prems(5) that by simp
  show ?case
  proof (cases "is_timed x")
    case True
    have x: "item_ok tb x" "item_named x" "item_start x = a" "tiles (item_stop x) (filter is_timed rest) e"
      using True Cons.prems(4,6) by auto
    have le: "0 \<le> item_stop x" using item_ok_range(5)[OF x(1)] x(3) Cons.prems(7) by simp
    have ih: "validate_items items tb (Suc n) rest (insert (item_id x) ids) (rt_new (item_stop x) tb)
        = Inr (insert (item_id x) ids \<union> item_id ` set rest)"
      by (rule Cons.IH[OF n(3) d fresh t _ x(4) le]) (rule tr)
    have v: "validate_item items tb n x (rt_new a tb) = Inr (rt_new (item_stop x) tb)"
      using validate_item_timed[OF x(1,2), of items n] x(3) Cons.prems(7) by simp
    have "item_id x \<notin> ids" using Cons.prems(3) by simp
    with ih v show ?thesis by simp
  next
    case False
    then obtain u where u: "x = ITransition u" by (cases x) auto
    have v: "validate_transition items n u tb = Inr ()" using Cons.prems(5)[of n u] n u by simp
    have a: "tiles a (filter is_timed rest) e" using Cons.prems(6) False by simp
    have ih: "validate_items items tb (Suc n) rest (insert (item_id x) ids) (rt_new a tb)
        = Inr (insert (item_id x) ids \<union> item_id ` set rest)"
      by (rule Cons.IH[OF n(3) d fresh t _ a Cons.prems(7)]) (rule tr)
    from ih v u Cons.prems(3) show ?thesis by (simp add: validate_item_def)
  qed
qed

lemma rebuilt_track_valid:
  assumes t: "tb_ok (track_timebase t)" "\<not> is_blank (tk_name t)"
    and xs: "\<forall>x\<in>set xs. item_ok (track_timebase t) x \<and> item_named x" "tiles 0 xs e"
    and ts: "\<forall>tr\<in>set ts. authored (track_timebase t) tr"
    and run: "rebuild_with_transitions xs ts = Inr (items, removed)"
    and ids: "distinct (map item_id items)" "\<forall>x\<in>set items. item_id x \<notin> ids"
  shows "validate_track (tk_replace_items t items) ids = Inr (ids \<union> item_id ` set items)"
proof -
  let ?tb = "track_timebase t"
  have ok: "\<forall>x\<in>set xs. item_ok ?tb x" using xs by simp
  have timed: "filter is_timed items = xs" using rebuild_timed[OF _ run] ok item_ok_timed by blast
  then have "\<forall>x\<in>set items. is_timed x \<longrightarrow> x \<in> set xs" by auto
  then have "validate_items items ?tb 0 items ids (rt_new 0 ?tb) = Inr (ids \<union> item_id ` set items)"
    using validate_items_ok[of items 0 items ids ?tb 0 e] ids timed xs rebuilt_transition[OF ok ts run] by simp
  then show ?thesis
    using rebuilt_no_overlap[OF ok ts run] t(2)
    by (simp add: validate_track_def require_text_def Let_def rt_zero_def track_timebase_def tk_replace_items_def)
qed

text \<open>And the other way: a validated track is tiled.\<close>

lemma contiguous_item:
  assumes x: "\<exists>tb'. item_ok tb' x" and a: "rt_ok (rt_new a tb)" and run: "validate_item items tb n x (rt_new a tb) = Inr p"
  shows "item_ok tb x \<and> item_start x = a \<and> p = rt_new (item_stop x) tb"
proof -
  from x obtain tb' where tb': "item_ok tb' x" by blast
  note r = item_ok_range[OF tb']
  have tb: "tr_timebase (timed_range x) = tb \<and> require_contiguous (timed_range x) (rt_new a tb) = Inr p"
    using run tb' by (cases x) (auto simp: validate_item_def bindR_Inr validate_record_range_def split: if_splits)
  then have x': "item_ok tb x" using tb' r(3) by simp
  note e = item_range_eq[OF x']
  have "rt_eq (rt_new (item_start x) tb) (rt_new a tb)" "p = rt_new (item_stop x) tb"
    using tb e(1,2) by (auto simp: require_contiguous_def split: if_splits)
  then show ?thesis using x' rt_eq_same[OF e(3) a] by simp
qed

lemma validated_items_tile:
  assumes "validate_items items tb n rest ids (rt_new a tb) = Inr ids'" "rt_ok (rt_new a tb)"
    and "\<forall>x\<in>set rest. is_timed x \<longrightarrow> (\<exists>tb'. item_ok tb' x)"
  shows "(\<forall>x\<in>set (filter is_timed rest). item_ok tb x) \<and> (\<exists>e. tiles a (filter is_timed rest) e)
    \<and> distinct (map item_id rest) \<and> (\<forall>x\<in>set rest. item_id x \<notin> ids) \<and> ids' = ids \<union> item_id ` set rest"
  using assms
proof (induction rest arbitrary: n ids a)
  case (Cons x rest)
  from Cons.prems(1) obtain p where p: "validate_item items tb n x (rt_new a tb) = Inr p"
    and rest: "validate_items items tb (n + 1) rest (insert (item_id x) ids) p = Inr ids'" and new: "item_id x \<notin> ids"
    by (auto simp: bindR_Inr split: if_splits)
  have t: "\<forall>y\<in>set rest. is_timed y \<longrightarrow> (\<exists>tb'. item_ok tb' y)" using Cons.prems(3) by simp
  show ?case
  proof (cases "is_timed x")
    case True
    have x: "item_ok tb x" "item_start x = a" "p = rt_new (item_stop x) tb"
      using contiguous_item[OF _ Cons.prems(2) p] Cons.prems(3) True by auto
    have "rt_ok (rt_new (item_stop x) tb)" using item_range_eq(4)[OF x(1)] .
    from Cons.IH[OF rest[unfolded x(3)] this t] x new True show ?thesis by auto
  next
    case False
    then obtain u where "x = ITransition u" by (cases x) auto
    with p have "p = rt_new a tb" by (auto simp: validate_item_def bindR_Inr)
    from Cons.IH[OF rest[unfolded this] Cons.prems(2) t] new False show ?thesis by auto
  qed
qed auto

lemma validated_track_tiled:
  assumes tb: "tb_ok (track_timebase t)" and x: "\<forall>x\<in>set (timed_items t). \<exists>tb'. item_ok tb' x"
    and run: "validate_track t ids = Inr ids'"
  shows "(\<exists>e. track_tiled t e) \<and> distinct (map item_id (tk_items t)) \<and> (\<forall>x\<in>set (tk_items t). item_id x \<notin> ids)
    \<and> ids' = ids \<union> item_id ` set (tk_items t)"
proof -
  from run have v: "validate_items (tk_items t) (track_timebase t) 0 (tk_items t) ids (rt_new 0 (track_timebase t)) = Inr ids'"
    by (auto simp: validate_track_def Let_def bindR_Inr rt_zero_def track_timebase_def)
  have "rt_ok (rt_new 0 (track_timebase t))" using tb by (simp add: rt_ok_def in_i64_def)
  from validated_items_tile[OF v this] x tb show ?thesis by (simp add: track_tiled_def timed_items_def)
qed

section \<open>An edit leaves a track that validates\<close>

lemma set_range_named:
  assumes "item_named x" "set_record_range x r operation = Inr y" "tr_is_empty r \<Longrightarrow> tr_is_empty (timed_range x)"
  shows "item_named y"
  using assms by (cases x) (auto simp: cl_set_record_range_def result_simps)

lemma clone_named:
  "item_named x \<Longrightarrow> clone_with_id x ident operation = Inr y \<Longrightarrow> item_named y \<and> timed_range y = timed_range x"
  by (cases x; cases ident) (auto simp: cl_clone_with_id_def cl_record_range_def)

lemma slice_named:
  assumes x: "item_ok tb x" "item_named x" and ab: "rt_ok p" "rt_ok q" and lt: "rt_lt p q"
    and run: "slice_item x p q ident operation = Inr y"
  shows "item_named y"
proof -
  note r = item_ok_range[OF x(1)]
  from run r(1) obtain w where w: "tr_from_start_end p q = Inr w" and part: "slice_part x w ident operation = Inr y"
    by (auto simp: slice_item_def slice_part_def bindR_Inr cong: track_item.case_cong split: if_splits)
  have wq: "tr_ok w" "rt_value (tr_start w) = rt_value p" "tr_end w = rt_value q"
    using tr_from_start_end_ok[OF ab w] by auto
  have "rt_timebase p = rt_timebase q"
    using w by (auto simp: tr_from_start_end_def bindR_Inr split: if_splits)
  then have "rt_value p < rt_value q" using rt_same_timebase(2)[OF ab] lt by simp
  then have ne: "\<not> tr_is_empty w" using wq by (simp add: tr_end_def tr_is_empty_def du_is_zero_def)
  show ?thesis
  proof (cases "\<exists>c. x = IClip c")
    case True
    then obtain c i c' where "x = IClip c" "cl_slice_with_id c i w = Inr c'" "y = IClip c'"
      using slice_part_clip part by blast
    then show ?thesis using x(2) by (auto simp: cl_slice_with_id_def result_simps)
  next
    case False
    then obtain z where "clone_with_id x ident operation = Inr z" "set_record_range z w operation = Inr y"
      using slice_part_other[OF part] by auto
    then show ?thesis using clone_named[OF x(2)] set_range_named ne by blast
  qed
qed

lemma tr_new_duration: "tr_new s d = Inr r \<Longrightarrow> tr_duration r = d"
  by (auto simp: tr_new_def bindR_Inr split: if_splits)

lemma move_named:
  assumes "item_named x" "tr_new s (tr_duration (timed_range x)) = Inr r" "reposition_item x r operation = Inr y"
  shows "item_named y"
  using assms(3) by (auto simp: reposition_item_def tr_is_empty_def tr_new_duration[OF assms(2)] intro: set_range_named[OF assms(1)])

lemma shift_named:
  "item_named x \<Longrightarrow> shift_item_right x d tb operation = Inr y \<Longrightarrow> item_named y"
  "item_named x \<Longrightarrow> shift_item_left x d tb operation = Inr y \<Longrightarrow> item_named y"
  by (auto simp: shift_item_right_def shift_item_left_def bindR_Inr Let_def intro: move_named)

lemma normalize_named:
  assumes "item_named x" "normalize_material x p tb operation = Inr y" shows "item_named y"
proof -
  from assms(2) obtain r d w where "item_record_range x = Some r" "\<not> du_is_zero d" "tr_new p d = Inr w"
    "set_record_range x w operation = Inr y"
    by (auto simp: normalize_material_def reposition_item_def bindR_Inr split: option.splits if_splits)
  then show ?thesis using set_range_named[OF assms(1), of w operation y] tr_new_duration[of p d w]
    by (auto simp: tr_is_empty_def)
qed

lemma insert_step_named:
  assumes x: "item_ok tb x" "item_named x" and p: "rt_ok pt"
    and run: "insert_step pt d tb x ps = Inr qs" and old: "\<forall>y\<in>set (ep_output ps). item_named y"
  shows "\<forall>y\<in>set (ep_output qs). item_named y"
proof -
  note e = item_range_eq[OF x(1)]
  have ok: "rt_ok (tr_start (timed_range x))" "rt_ok (rt_new (item_stop x) tb)" using e by simp_all
  note slice = slice_named[OF x ok(1) p] slice_named[OF x p ok(2)]
  show ?thesis using run old x(2)
    by (auto simp: insert_step_def Let_def bindR_Inr e(2) split: if_splits prod.splits; meson slice shift_named)
qed

lemma replace_step_named:
  assumes x: "item_ok tb x" "item_named x" and p: "tr_ok r" "rt_ok re"
    and run: "replace_step r re close tb operation x ps = Inr qs" and old: "\<forall>y\<in>set (ep_output ps). item_named y"
  shows "\<forall>y\<in>set (ep_output qs). item_named y"
proof -
  note e = item_range_eq[OF x(1)]
  have ok: "rt_ok (tr_start (timed_range x))" "rt_ok (rt_new (item_stop x) tb)" "rt_ok (tr_start r)"
    using e p by (simp_all add: tr_ok_def)
  note slice = slice_named[OF x ok(1,3)] slice_named[OF x p(2) ok(2)]
  show ?thesis using run old x(2)
    by (auto simp: replace_step_def Let_def bindR_Inr e(2) split: if_splits prod.splits; meson slice shift_named)
qed

lemma foldR_named:
  assumes step: "\<And>x ps qs. x \<in> set xs \<Longrightarrow> f x ps = Inr qs \<Longrightarrow> \<forall>y\<in>set (ep_output ps). item_named y
      \<Longrightarrow> \<forall>y\<in>set (ep_output qs). item_named y"
    and "foldR f xs ps = Inr qs" "\<forall>y\<in>set (ep_output ps). item_named y"
  shows "\<forall>y\<in>set (ep_output qs). item_named y"
  using assms
proof (induction xs arbitrary: ps)
  case (Cons x xs)
  from Cons.prems(2) obtain rs where rs: "f x ps = Inr rs" "foldR f xs rs = Inr qs" by (auto simp: bindR_Inr)
  have n: "\<forall>y\<in>set (ep_output rs). item_named y" by (rule Cons.prems(1)[OF _ rs(1) Cons.prems(3)]) simp
  show ?case by (rule Cons.IH[OF _ rs(2) n]) (rule Cons.prems(1), auto)
qed simp

text \<open>The items of an edited track are the rebuilt list, so only fresh identities are left to ask for.\<close>

definition track_named :: "track \<Rightarrow> bool" where
  "track_named t \<longleftrightarrow> \<not> is_blank (tk_name t) \<and> (\<forall>x\<in>set (timed_items t). item_named x)
     \<and> (\<forall>u. ITransition u \<in> set (tk_items t) \<longrightarrow> authored (track_timebase t) u)"

lemma rebuilt_edit_valid:
  assumes t: "track_named t" and t': "track_tiled (tk_replace_items t items) e"
    and re: "rebuild_with_transitions (sort_timed xs) (List.map_filter transition_of (tk_items t)) = Inr (items, removed)"
    and xs: "\<forall>x\<in>set xs. item_named x"
    and ids: "distinct (map item_id items)" "\<forall>x\<in>set items. item_id x \<notin> ids"
  shows "validate_track (tk_replace_items t items) ids = Inr (ids \<union> item_id ` set items)"
proof -
  let ?tb = "track_timebase t" and ?t' = "tk_replace_items t items"
  have timed: "\<forall>x\<in>set (sort_timed xs). is_timed x"
    using xs by (auto simp: sort_timed_eq) (metis is_timed.simps(1) item_named.simps(5) is_timed.elims(3))
  have f: "filter is_timed items = sort_timed xs" by (rule rebuild_timed[OF timed re])
  have tile: "\<forall>x\<in>set (sort_timed xs). item_ok ?tb x" "tiles 0 (sort_timed xs) e" "tb_ok ?tb"
    using t' f by (simp_all add: track_tiled_def timed_items_def track_timebase_def tk_replace_items_def)
  have named: "\<forall>x\<in>set (sort_timed xs). item_ok ?tb x \<and> item_named x" using tile(1) xs by (simp add: sort_timed_eq)
  have auth: "\<forall>u\<in>set (List.map_filter transition_of (tk_items t)). authored ?tb u"
    using t by (auto simp: track_named_def map_filter_def elim!: transition_of.elims)
  show ?thesis
    by (rule rebuilt_track_valid[OF tile(3) _ named tile(2) auth re ids]) (use t in \<open>simp add: track_named_def\<close>)
qed

lemma insert_valid:
  assumes t: "track_tiled t e" "track_named t" and p: "in_i64 pt" and m: "item_ok tb' material" "item_named material"
    and run: "apply_insert t tlid trid (rt_new pt (track_timebase t)) material ids = Inr (out, t')"
    and ids: "distinct (map item_id (tk_items t'))" "\<forall>x\<in>set (tk_items t'). item_id x \<notin> seen"
  shows "validate_track t' seen = Inr (seen \<union> item_id ` set (tk_items t'))"
proof -
  let ?tb = "track_timebase t"
  from insert_spliced[OF t(1) p m(1) run] obtain e' where t': "track_tiled t' e'" by (auto simp: spliced_def)
  have ok: "\<forall>x\<in>set (timed_items t). item_ok ?tb x \<and> item_named x" "rt_ok (rt_new pt ?tb)"
    using t p by (simp_all add: track_tiled_def track_named_def rt_ok_def)
  from run obtain m ps items removed where
    m': "normalize_material material (rt_new pt ?tb) ?tb ''insert'' = Inr m"
    and loop: "foldR (insert_step (rt_new pt ?tb) (tr_duration (timed_range m)) ?tb) (timed_items t) (ep_start ids) = Inr ps"
    and re: "rebuild_with_transitions (sort_timed (ep_output ps @ [m])) (List.map_filter transition_of (tk_items t)) = Inr (items, removed)"
    and t'': "t' = tk_replace_items t items"
    by (auto simp: apply_insert_def Let_def bindR_Inr separate_eq split: prod.splits if_splits)
  have "\<forall>y\<in>set (ep_output ps). item_named y"
    by (rule foldR_named[OF _ loop]) (use ok insert_step_named in \<open>auto simp: ep_start_def\<close>)
  then have "\<forall>y\<in>set (ep_output ps @ [m]). item_named y" using normalize_named[OF m(2) m'] by auto
  from rebuilt_edit_valid[OF t(2) t'[unfolded t''] re this] ids t'' show ?thesis by (simp add: tk_replace_items_def)
qed

lemma extract_valid:
  assumes t: "track_tiled t e" "track_named t" and r: "tr_ok r"
    and run: "apply_extract t tlid trid r fragments = Inr (out, t')"
    and ids: "distinct (map item_id (tk_items t'))" "\<forall>x\<in>set (tk_items t'). item_id x \<notin> seen"
  shows "validate_track t' seen = Inr (seen \<union> item_id ` set (tk_items t'))"
proof -
  let ?tb = "track_timebase t"
  from extract_closed[OF t(1) r run] obtain e' where t': "track_tiled t' e'" by (auto simp: closed_up_def)
  have ok: "\<forall>x\<in>set (timed_items t). item_ok ?tb x \<and> item_named x" using t by (simp add: track_tiled_def track_named_def)
  from run have val: "validate_edit_range t r ''extract'' = Inr ()" by (auto simp: apply_extract_def bindR_Inr)
  note in_ = edit_range_inside[OF t(1) r val]
  have re: "rt_ok (rt_new (tr_end r) ?tb)" using tr_end_ok(2)[OF r] in_(1) by simp
  from run obtain ps items removed where
    loop: "foldR (replace_step r (rt_new (tr_end r) ?tb) True ?tb ''extract'') (timed_items t) (ep_start fragments) = Inr ps"
    and re': "rebuild_with_transitions (sort_timed (ep_output ps)) (List.map_filter transition_of (tk_items t)) = Inr (items, removed)"
    and t'': "t' = tk_replace_items t items"
    using tr_end_ok(1)[OF r] in_(1)
    by (auto simp: apply_extract_def apply_range_replacement_def Let_def bindR_Inr separate_eq edit_kind_code.simps split: prod.splits)
  have "\<forall>y\<in>set (ep_output ps). item_named y"
    by (rule foldR_named[OF _ loop]) (use ok replace_step_named[OF _ _ r re] in \<open>auto simp: ep_start_def\<close>)
  from rebuilt_edit_valid[OF t(2) t'[unfolded t''] re' this] ids t'' show ?thesis by (simp add: tk_replace_items_def)
qed

section \<open>The properties\<close>

text \<open>
  The loop invariant of every edit. A list of named items that tile the record clock from zero,
  put back together with the transitions of the old track, passes the whole validation of the
  track whatever transitions had to be dropped: every kept transition stands between two items
  that cover its offsets, and no item is overlapped twice beyond its duration.
\<close>

theorem rebuilt_track_validates:
  assumes "tb_ok (track_timebase t)" "\<not> is_blank (tk_name t)"
    "\<forall>x\<in>set xs. item_ok (track_timebase t) x \<and> item_named x" "tiles 0 xs e"
    "\<forall>tr\<in>set ts. authored (track_timebase t) tr"
    "rebuild_with_transitions xs ts = Inr (items, removed)"
    "distinct (map item_id items)" "\<forall>x\<in>set items. item_id x \<notin> ids"
  shows "validate_track (tk_replace_items t items) ids = Inr (ids \<union> item_id ` set items)"
  by (rule rebuilt_track_valid[OF assms])

lemma example_names [simp]:
  "\<not> is_blank ''V1''" "\<not> is_blank ''shot''" "\<not> is_blank ''gap''" "\<not> is_blank ''dissolve''"
  by code_simp+

declare is_blank.simps [simp del]

lemma reel_named: "track_named reel"
  by (auto simp: track_named_def reel_items) (auto simp: reel_def shot_def hole_def)

definition dissolve :: transition where
  "dissolve = \<lparr>tn_id = TypedId 30, tn_name = ''dissolve'',
     tn_from = OClip (TypedId 10), tn_to = OGap (TypedId 11), tn_from_offset = \<lparr>du_value = 6, du_timebase = tb24\<rparr>, tn_to_offset = \<lparr>du_value = 4, du_timebase = tb24\<rparr>\<rparr>"

theorem rebuilt_track_validates_witness:
  "\<exists>items ids. rebuild_with_transitions (timed_items reel) [dissolve] = Inr (items, []) \<and> length items = 4
     \<and> validate_track (tk_replace_items reel items) {} = Inr ids"
proof -
  have "case rebuild_with_transitions (timed_items reel) [dissolve] of Inl _ \<Rightarrow> False
      | Inr (items, removed) \<Rightarrow> distinct (map item_id items) \<and> removed = [] \<and> length items = 4"
    by code_simp
  then obtain items where run: "rebuild_with_transitions (timed_items reel) [dissolve] = Inr (items, [])"
    and d: "distinct (map item_id items)" "length items = 4" by (auto split: sum.splits)
  have n: "\<forall>x\<in>set (timed_items reel). item_ok (track_timebase reel) x \<and> item_named x"
    using reel_tiled reel_named by (simp add: track_tiled_def track_named_def)
  have a: "\<forall>tr\<in>set [dissolve]. authored (track_timebase reel) tr"
    by (simp add: authored_def dissolve_def reel_clock  du_ok_def tb24_def)
  have t: "tb_ok (track_timebase reel)" "\<not> is_blank (tk_name reel)" "tiles 0 (timed_items reel) 84"
    using reel_tiled reel_named by (auto simp: track_tiled_def track_named_def)
  from rebuilt_track_validates[OF t(1,2) n t(3) a run d(1), of "{}"] run d(2) show ?thesis by auto
qed

text \<open>
  C1: An insert into a valid track of valid material leaves a track that passes the whole
  validation, if the identities it ends up with are fresh: the split pieces keep names, clocks and
  non-empty ranges, and the transitions that no longer fit are gone.
\<close>

theorem inserted_track_validates:
  assumes "track_tiled t e" "track_named t" "in_i64 pt" "item_ok tb' material" "item_named material"
    "apply_insert t tlid trid (rt_new pt (track_timebase t)) material fragments = Inr (out, t')"
    "distinct (map item_id (tk_items t'))" "\<forall>x\<in>set (tk_items t'). item_id x \<notin> seen"
  shows "validate_track t' seen = Inr (seen \<union> item_id ` set (tk_items t'))"
  by (rule insert_valid[OF assms])

theorem inserted_track_validates_witness:
  "\<exists>out t' ids. apply_insert reel (TypedId 1) (TypedId 1) (rt_new 54 tb24) (IClip (shot 20 7 0 12)) [OGap (TypedId 21)]
      = Inr (out, t') \<and> validate_track t' {} = Inr ids"
proof -
  have "case apply_insert reel (TypedId 1) (TypedId 1) (rt_new 54 tb24) (IClip (shot 20 7 0 12)) [OGap (TypedId 21)] of
      Inl _ \<Rightarrow> False | Inr (out, t') \<Rightarrow> distinct (map item_id (tk_items t'))"
    by code_simp
  then obtain out t' where run: "apply_insert reel (TypedId 1) (TypedId 1) (rt_new 54 tb24) (IClip (shot 20 7 0 12)) [OGap (TypedId 21)]
      = Inr (out, t')" and d: "distinct (map item_id (tk_items t'))" by (auto split: sum.splits)
  have m: "item_ok tb24 (IClip (shot 20 7 0 12))" "item_named (IClip (shot 20 7 0 12))"
    by (rule shot_item_ok, simp_all, simp add: shot_def)
  have "in_i64 54" by (simp add: in_i64_def)
  from inserted_track_validates[OF reel_tiled reel_named this m, unfolded reel_clock, OF run d, of "{}"] run
  show ?thesis by auto
qed

text \<open>The same for an extract, which closes the track up over the removed range.\<close>

theorem extracted_track_validates:
  assumes "track_tiled t e" "track_named t" "tr_ok r" "apply_extract t tlid trid r fragments = Inr (out, t')"
    "distinct (map item_id (tk_items t'))" "\<forall>x\<in>set (tk_items t'). item_id x \<notin> seen"
  shows "validate_track t' seen = Inr (seen \<union> item_id ` set (tk_items t'))"
  by (rule extract_valid[OF assms])

theorem extracted_track_validates_witness:
  "\<exists>out t' ids. apply_extract reel (TypedId 1) (TypedId 1) (range24 50 4) [OGap (TypedId 21)] = Inr (out, t')
     \<and> validate_track t' {} = Inr ids"
proof -
  have "case apply_extract reel (TypedId 1) (TypedId 1) (range24 50 4) [OGap (TypedId 21)] of
      Inl _ \<Rightarrow> False | Inr (out, t') \<Rightarrow> distinct (map item_id (tk_items t'))" by code_simp
  then obtain out t' where run: "apply_extract reel (TypedId 1) (TypedId 1) (range24 50 4) [OGap (TypedId 21)] = Inr (out, t')"
    and d: "distinct (map item_id (tk_items t'))" by (auto split: sum.splits)
  have r: "tr_ok (range24 50 4)" by (rule range24_ok) simp_all
  from extracted_track_validates[OF reel_tiled reel_named r run d, of "{}"] run show ?thesis by auto
qed

text \<open>
  A track of well-formed items that passes the validation is tiled: its timed items abut on the
  track's own clock from zero to the end, and all its identities are distinct and new to the
  timeline, whose identities it extends by exactly its own.
\<close>

theorem validated_track_tiles:
  assumes "tb_ok (track_timebase t)" "\<forall>x\<in>set (timed_items t). \<exists>tb'. item_ok tb' x"
    "validate_track t ids = Inr ids'"
  shows "(\<exists>e. track_tiled t e) \<and> distinct (map item_id (tk_items t)) \<and> (\<forall>x\<in>set (tk_items t). item_id x \<notin> ids)
    \<and> ids' = ids \<union> item_id ` set (tk_items t)"
  by (rule validated_track_tiled[OF assms])

theorem validated_track_tiles_witness:
  "\<exists>ids. validate_track reel {} = Inr ids \<and> ids = item_id ` set (tk_items reel)"
proof -
  have "is_ok (validate_track reel {})" by code_simp
  then obtain ids where run: "validate_track reel {} = Inr ids" by (auto simp: is_ok_iff)
  have "tb_ok (track_timebase reel)" "\<forall>x\<in>set (timed_items reel). \<exists>tb'. item_ok tb' x"
    using reel_tiled by (auto simp: track_tiled_def)
  from validated_track_tiles[OF this run] run show ?thesis by auto
qed

end
