(* ===== verification/Dag.thy ===== *)
theory Dag
  imports CoreIds
begin

text \<open>
  \<open>superi-graph/src/dag.rs\<close>: the directed acyclic graph every node graph of the program is stored
  in. The ordered maps are those of theory \<open>Ordered\<close>. An operation returns the edited graph; the
  outer option is the panic of an \<open>expect\<close>, of an index by a missing key or of an underflow, so
  \<open>None\<close> stands for a crash and \<open>Some (Inl e)\<close> for a returned error.
\<close>

section \<open>Data\<close>

record graph_endpoint =
  ge_node_id :: node_id
  ge_port_id :: port_id

record graph_edge =
  gd_id :: edge_id
  gd_source :: graph_endpoint
  gd_destination :: graph_endpoint

record 'n dag =
  dg_id :: graph_id
  dg_nodes :: "(node_id \<times> 'n) list"
  dg_edges :: "(edge_id \<times> graph_edge) list"
  dg_incoming :: "(node_id \<times> edge_id list) list"
  dg_outgoing :: "(node_id \<times> edge_id list) list"

definition dag_new :: "graph_id \<Rightarrow> 'n dag" where
  "dag_new ident = \<lparr>dg_id = ident, dg_nodes = [], dg_edges = [], dg_incoming = [], dg_outgoing = []\<rparr>"

section \<open>Errors\<close>

definition dag_error ::
  "'n dag \<Rightarrow> error_category \<Rightarrow> string \<Rightarrow> string \<Rightarrow> (string \<times> string) list \<Rightarrow> error_value" where
  "dag_error g category operation message details =
     err_with_context (err_new category UserCorrectable message)
       (fold (\<lambda>(name, val) c. fst (ctx_insert_field c name val)) details
         (ctx_with_field (ctx_new ''superi-graph.dag'' operation) ''graph_id'' (id_display GraphKind (dg_id g))))"

definition dag_edge_error :: "'n dag \<Rightarrow> error_category \<Rightarrow> string \<Rightarrow> graph_edge \<Rightarrow> error_value" where
  "dag_edge_error g category message e =
     dag_error g category ''insert_edge'' message
       [(''edge_id'', id_display EdgeKind (gd_id e)),
        (''source_node_id'', id_display NodeKind (ge_node_id (gd_source e))),
        (''destination_node_id'', id_display NodeKind (ge_node_id (gd_destination e)))]"

lemma dag_error_cong [cong]:
  "dag_error g category operation message details = dag_error g category operation message details"
  by (rule refl)

lemma dag_edge_error_cong [cong]: "dag_edge_error g category message e = dag_edge_error g category message e"
  by (rule refl)

section \<open>Nodes\<close>

definition dag_insert_node :: "'n dag \<Rightarrow> node_id \<Rightarrow> 'n \<Rightarrow> 'n dag result" where
  "dag_insert_node g ident n =
     (if om_has (dg_nodes g) ident
      then Inl (dag_error g Conflict ''insert_node'' ''graph node identity already exists''
             [(''node_id'', id_display NodeKind ident)])
      else Inr (g\<lparr>dg_nodes := om_insert ident n (dg_nodes g),
                  dg_incoming := om_insert ident [] (dg_incoming g),
                  dg_outgoing := om_insert ident [] (dg_outgoing g)\<rparr>))"

definition has_edges :: "(node_id \<times> edge_id list) list \<Rightarrow> node_id \<Rightarrow> bool" where
  "has_edges adjacent ident = (case map_of adjacent ident of None \<Rightarrow> False | Some edges \<Rightarrow> edges \<noteq> [])"

definition dag_remove_node :: "'n dag \<Rightarrow> node_id \<Rightarrow> ('n \<times> 'n dag) result" where
  "dag_remove_node g ident =
     (case map_of (dg_nodes g) ident of
        None \<Rightarrow> Inl (dag_error g NotFound ''remove_node'' ''graph node does not exist''
                     [(''node_id'', id_display NodeKind ident)])
      | Some n \<Rightarrow>
          if has_edges (dg_incoming g) ident \<or> has_edges (dg_outgoing g) ident
          then Inl (dag_error g Conflict ''remove_node'' ''graph node must be disconnected before removal''
                 [(''node_id'', id_display NodeKind ident)])
          else Inr (n, g\<lparr>dg_nodes := om_remove ident (dg_nodes g),
                         dg_incoming := om_remove ident (dg_incoming g),
                         dg_outgoing := om_remove ident (dg_outgoing g)\<rparr>))"

section \<open>Reachability\<close>

definition edge_destination :: "'n dag \<Rightarrow> edge_id \<Rightarrow> node_id option" where
  "edge_destination g e = map_option (\<lambda>edge. ge_node_id (gd_destination edge)) (map_of (dg_edges g) e)"

text \<open>The destinations of the outgoing edges of a node, in edge order.\<close>

definition successors :: "'n dag \<Rightarrow> node_id \<Rightarrow> node_id list option" where
  "successors g n = Option.bind (map_of (dg_outgoing g) n) (\<lambda>edges. those (map (edge_destination g) edges))"

lemma successors_known: "successors g n = Some ns \<Longrightarrow> n \<in> fst ` set (dg_outgoing g)"
  by (auto simp: successors_def bind_eq_Some_conv om_keys_dom)

text \<open>
  The depth-first loop. The vector \<open>pending\<close> is pushed and popped at its end, so the list here
  has its last element first. A node is visited once, which bounds the loop.
\<close>

function (sequential) reaches_loop :: "'n dag \<Rightarrow> node_id \<Rightarrow> node_id list \<Rightarrow> node_id list \<Rightarrow> bool option" where
  "reaches_loop g target visited [] = Some False"
| "reaches_loop g target visited (n # pending) =
     (if n = target then Some True
      else if List.member visited n then reaches_loop g target visited pending
      else case successors g n of
             None \<Rightarrow> None
           | Some next_nodes \<Rightarrow> reaches_loop g target (os_insert n visited) (rev next_nodes @ pending))"
  by pat_completeness auto

termination
proof (relation "measures [\<lambda>(g, target, visited, pending). card (fst ` set (dg_outgoing g) - set visited),
    \<lambda>(g, target, visited, pending). length pending]", goal_cases)
  case (3 g target visited n pending next_nodes)
  let ?a = "fst ` set (dg_outgoing g)"
  have "n \<in> ?a - set visited" using successors_known[OF 3(3)] 3(2) by (simp add: List.member_iff)
  then have "card (?a - insert n (set visited)) < card (?a - set visited)"
    by (intro psubset_card_mono) auto
  then show ?case by simp
qed auto

definition reaches :: "'n dag \<Rightarrow> node_id \<Rightarrow> node_id \<Rightarrow> bool option" where
  "reaches g start target = reaches_loop g target [] [start]"

section \<open>Edges\<close>

definition dag_insert_edge :: "'n dag \<Rightarrow> graph_edge \<Rightarrow> 'n dag result option" where
  "dag_insert_edge g e =
     (let source = ge_node_id (gd_source e); destination = ge_node_id (gd_destination e) in
      if om_has (dg_edges g) (gd_id e)
      then Some (Inl (dag_edge_error g Conflict ''graph edge identity already exists'' e))
      else if \<not> om_has (dg_nodes g) source
      then Some (Inl (dag_edge_error g NotFound ''graph edge source node does not exist'' e))
      else if \<not> om_has (dg_nodes g) destination
      then Some (Inl (dag_edge_error g NotFound ''graph edge destination node does not exist'' e))
      else case (if source = destination then Some True else reaches g destination source) of
        None \<Rightarrow> None
      | Some True \<Rightarrow> Some (Inl (dag_edge_error g Conflict ''graph edge would create a directed cycle'' e))
      | Some False \<Rightarrow>
          if om_has (dg_outgoing g) source \<and> om_has (dg_incoming g) destination
          then Some (Inr (g\<lparr>dg_edges := om_insert (gd_id e) e (dg_edges g),
                            dg_outgoing := om_update source (os_insert (gd_id e)) (dg_outgoing g),
                            dg_incoming := om_update destination (os_insert (gd_id e)) (dg_incoming g)\<rparr>))
          else None)"

definition dag_remove_edge :: "'n dag \<Rightarrow> edge_id \<Rightarrow> (graph_edge \<times> 'n dag) result option" where
  "dag_remove_edge g ident =
     (case map_of (dg_edges g) ident of
        None \<Rightarrow> Some (Inl (dag_error g NotFound ''remove_edge'' ''graph edge does not exist''
                        [(''edge_id'', id_display EdgeKind ident)]))
      | Some e \<Rightarrow>
          let source = ge_node_id (gd_source e); destination = ge_node_id (gd_destination e) in
          if om_has (dg_outgoing g) source \<and> om_has (dg_incoming g) destination
          then Some (Inr (e, g\<lparr>dg_edges := om_remove ident (dg_edges g),
                               dg_outgoing := om_update source (os_remove ident) (dg_outgoing g),
                               dg_incoming := om_update destination (os_remove ident) (dg_incoming g)\<rparr>))
          else None)"

section \<open>The topological order\<close>

type_synonym degrees = "(node_id \<times> nat) list"

text \<open>One outgoing edge of an emitted node: the destination has one fewer open input.\<close>

definition release_edge :: "'n dag \<Rightarrow> edge_id \<Rightarrow> degrees \<times> node_id list \<Rightarrow> (degrees \<times> node_id list) option" where
  "release_edge g e = (\<lambda>(indegree, ready).
     Option.bind (edge_destination g e) (\<lambda>destination.
     Option.bind (map_of indegree destination) (\<lambda>degree.
     if degree = 0 then None
     else Some (om_update destination (\<lambda>d. d - 1) indegree,
                if degree - 1 = 0 then os_insert destination ready else ready))))"

fun release_edges :: "'n dag \<Rightarrow> edge_id list \<Rightarrow> degrees \<times> node_id list \<Rightarrow> (degrees \<times> node_id list) option" where
  "release_edges g [] state = Some state"
| "release_edges g (e # es) state = Option.bind (release_edge g e state) (release_edges g es)"

text \<open>An edge moves at most as much into the ready set as it takes off the degrees.\<close>

definition topo_size :: "degrees \<times> node_id list \<Rightarrow> nat" where
  "topo_size = (\<lambda>(indegree, ready). sum_list (map snd indegree) + length ready)"

lemma os_insert_length: "length (os_insert x s) \<le> Suc (length s)"
  by (induction s) auto

lemma decrement_sum:
  "map_of m k = Some d \<Longrightarrow> 0 < d \<Longrightarrow> Suc (sum_list (map snd (om_update k (\<lambda>d. d - 1) m))) \<le> sum_list (map snd m)"
proof (induction m)
  case (Cons x m)
  obtain k' v where x: "x = (k', v)" by (cases x)
  have le: "sum_list (map snd (om_update k (\<lambda>d. d - 1) m)) \<le> sum_list (map snd m)"
    by (induction m) (auto simp: om_update_def)
  show ?case
  proof (cases "k' = k")
    case True
    then show ?thesis using Cons.prems x le by (simp add: om_update_def)
  next
    case False
    then show ?thesis using Cons x by (simp add: om_update_def)
  qed
qed simp

lemma release_edge_size:
  assumes "release_edge g e state = Some state'" shows "topo_size state' \<le> topo_size state"
proof -
  obtain indegree ready where state: "state = (indegree, ready)" by (cases state)
  from assms obtain n degree where n: "map_of indegree n = Some degree" "0 < degree"
    and state': "state' = (om_update n (\<lambda>d. d - 1) indegree, if degree - 1 = 0 then os_insert n ready else ready)"
    by (auto simp: release_edge_def state bind_eq_Some_conv split: if_splits)
  show ?thesis using decrement_sum[OF n] os_insert_length[of n ready]
    by (simp add: topo_size_def state state')
qed

lemma release_edges_size: "release_edges g es state = Some state' \<Longrightarrow> topo_size state' \<le> topo_size state"
  by (induction es arbitrary: state)
    (auto simp: bind_eq_Some_conv dest!: release_edge_size intro: order_trans)

function topo_loop :: "'n dag \<Rightarrow> degrees \<times> node_id list \<Rightarrow> node_id list \<Rightarrow> node_id list option" where
  "topo_loop g (indegree, []) order = Some order"
| "topo_loop g (indegree, n # ready) order =
     (case map_of (dg_outgoing g) n of
        None \<Rightarrow> None
      | Some edges \<Rightarrow>
          case release_edges g edges (indegree, ready) of
            None \<Rightarrow> None
          | Some state \<Rightarrow> topo_loop g state (order @ [n]))"
  by pat_completeness auto

termination
proof (relation "measure (\<lambda>(g, state, order). topo_size state)", goal_cases)
  case (2 g indegree n ready order edges state)
  have "topo_size state \<le> topo_size (indegree, ready)" by (rule release_edges_size[OF 2(2)])
  then show ?case by (simp add: topo_size_def split: prod.splits)
qed simp

definition topological_order :: "'n dag \<Rightarrow> node_id list option" where
  "topological_order g =
     (let indegree = map (\<lambda>(n, edges). (n, length edges)) (dg_incoming g);
          ready = map fst (filter (\<lambda>(n, degree). degree = 0) indegree) in
      topo_loop g (indegree, ready) [])"

end
