(* ===== verification/DagLaws.thy ===== *)
theory DagLaws
  imports Dag
begin

text \<open>
  The invariant of the graph store, what the reachability search answers, and why the topological
  order is complete. \<open>arrows\<close> is the relation on nodes the edges draw.
\<close>

section \<open>The invariant\<close>

abbreviation edge_from :: "graph_edge \<Rightarrow> node_id" where
  "edge_from e \<equiv> ge_node_id (gd_source e)"

abbreviation edge_to :: "graph_edge \<Rightarrow> node_id" where
  "edge_to e \<equiv> ge_node_id (gd_destination e)"

definition arrows :: "'n dag \<Rightarrow> (node_id \<times> node_id) set" where
  "arrows g = (\<lambda>e. (edge_from e, edge_to e)) ` ran (map_of (dg_edges g))"

lemma arrowsI: "map_of (dg_edges g) i = Some e \<Longrightarrow> (edge_from e, edge_to e) \<in> arrows g"
  unfolding arrows_def by (auto intro: ranI)

lemma arrowsE:
  assumes "(n, m) \<in> arrows g" obtains i e where "map_of (dg_edges g) i = Some e" "edge_from e = n" "edge_to e = m"
  using assms that by (auto simp: arrows_def ran_def)

text \<open>The adjacency of one direction lists exactly the edges at each node.\<close>

definition adjacent_ok :: "'n dag \<Rightarrow> (graph_edge \<Rightarrow> node_id) \<Rightarrow> (node_id \<times> edge_id list) list \<Rightarrow> bool" where
  "adjacent_ok g at_node adj \<longleftrightarrow> om_ok adj \<and> dom (map_of adj) = dom (map_of (dg_nodes g))
     \<and> (\<forall>n es. map_of adj n = Some es \<longrightarrow> os_ok es
          \<and> set es = {i. \<exists>e. map_of (dg_edges g) i = Some e \<and> at_node e = n})"

definition dag_linked :: "'n dag \<Rightarrow> bool" where
  "dag_linked g \<longleftrightarrow> om_ok (dg_nodes g) \<and> om_ok (dg_edges g)
     \<and> (\<forall>i e. map_of (dg_edges g) i = Some e \<longrightarrow> gd_id e = i
          \<and> edge_from e \<in> dom (map_of (dg_nodes g)) \<and> edge_to e \<in> dom (map_of (dg_nodes g)))
     \<and> adjacent_ok g edge_from (dg_outgoing g) \<and> adjacent_ok g edge_to (dg_incoming g)"

definition dag_ok :: "'n dag \<Rightarrow> bool" where
  "dag_ok g \<longleftrightarrow> dag_linked g \<and> acyclic (arrows g)"

lemma adjacentD:
  assumes "adjacent_ok g at_node adj" "n \<in> dom (map_of (dg_nodes g))"
  obtains es where "map_of adj n = Some es" "os_ok es"
    "set es = {i. \<exists>e. map_of (dg_edges g) i = Some e \<and> at_node e = n}"
proof -
  have "n \<in> dom (map_of adj)" using assms by (simp add: adjacent_ok_def)
  then obtain es where es: "map_of adj n = Some es" by blast
  then show ?thesis using assms(1) that by (auto simp: adjacent_ok_def)
qed

lemma adjacent_insert_node:
  assumes "adjacent_ok g at_node adj" "\<And>e i. map_of (dg_edges g) i = Some e \<Longrightarrow> at_node e \<in> dom (map_of (dg_nodes g))"
    "\<not> om_has (dg_nodes g) n" "om_ok (dg_nodes g)"
    "dg_edges g' = dg_edges g" "dg_nodes g' = om_insert n x (dg_nodes g)"
  shows "adjacent_ok g' at_node (om_insert n [] adj)"
proof -
  have n: "n \<notin> dom (map_of (dg_nodes g))" using assms(3) by (simp add: om_has_dom)
  have ok: "om_ok adj" "dom (map_of adj) = dom (map_of (dg_nodes g))" using assms(1) by (simp_all add: adjacent_ok_def)
  have "{i. \<exists>e. map_of (dg_edges g) i = Some e \<and> at_node e = n} = {}" using assms(2) n by blast
  then show ?thesis
    using assms ok by (auto simp: adjacent_ok_def)
qed

lemma adjacent_remove_node:
  assumes "adjacent_ok g at_node adj" "dg_edges g' = dg_edges g" "dg_nodes g' = om_remove n (dg_nodes g)"
  shows "adjacent_ok g' at_node (om_remove n adj)"
  using assms by (auto simp: adjacent_ok_def split: if_splits)

lemma adjacent_insert_edge:
  assumes a: "adjacent_ok g at_node adj" and e: "\<not> om_has (dg_edges g) (gd_id e)" "om_ok (dg_edges g)"
    and g': "dg_edges g' = om_insert (gd_id e) e (dg_edges g)" "dg_nodes g' = dg_nodes g"
  shows "adjacent_ok g' at_node (om_update (at_node e) (os_insert (gd_id e)) adj)"
proof -
  have fresh: "map_of (dg_edges g) (gd_id e) = None" using e(1) by (simp add: om_has_def)
  show ?thesis
    unfolding adjacent_ok_def
  proof (intro conjI allI impI)
    show "om_ok (om_update (at_node e) (os_insert (gd_id e)) adj)" using a by (simp add: adjacent_ok_def)
    show "dom (map_of (om_update (at_node e) (os_insert (gd_id e)) adj)) = dom (map_of (dg_nodes g'))"
      using a g'(2) by (auto simp: adjacent_ok_def)
  next
    fix n es assume es: "map_of (om_update (at_node e) (os_insert (gd_id e)) adj) n = Some es"
    then obtain es0 where es0: "map_of adj n = Some es0" "es = (if n = at_node e then os_insert (gd_id e) es0 else es0)"
      by (auto split: if_splits)
    have old: "os_ok es0" "set es0 = {i. \<exists>e. map_of (dg_edges g) i = Some e \<and> at_node e = n}"
      using a es0(1) by (auto simp: adjacent_ok_def)
    show "os_ok es" using old(1) es0(2) by simp
    show "set es = {i. \<exists>d. map_of (dg_edges g') i = Some d \<and> at_node d = n}"
      using old(2) es0(2) e(2) fresh g'(1) by auto
  qed
qed

lemma adjacent_remove_edge:
  assumes a: "adjacent_ok g at_node adj" and e: "map_of (dg_edges g) i = Some e"
    and g': "dg_edges g' = om_remove i (dg_edges g)" "dg_nodes g' = dg_nodes g"
  shows "adjacent_ok g' at_node (om_update (at_node e) (os_remove i) adj)"
  unfolding adjacent_ok_def
proof (intro conjI allI impI)
  show "om_ok (om_update (at_node e) (os_remove i) adj)" using a by (simp add: adjacent_ok_def)
  show "dom (map_of (om_update (at_node e) (os_remove i) adj)) = dom (map_of (dg_nodes g'))"
    using a g'(2) by (auto simp: adjacent_ok_def)
next
  fix n es assume es: "map_of (om_update (at_node e) (os_remove i) adj) n = Some es"
  then obtain es0 where es0: "map_of adj n = Some es0" "es = (if n = at_node e then os_remove i es0 else es0)"
    by (auto split: if_splits)
  have old: "os_ok es0" "set es0 = {i. \<exists>e. map_of (dg_edges g) i = Some e \<and> at_node e = n}"
    using a es0(1) by (auto simp: adjacent_ok_def)
  show "os_ok es" using old(1) es0(2) by simp
  show "set es = {j. \<exists>d. map_of (dg_edges g') j = Some d \<and> at_node d = n}"
    using old(2) es0(2) e g'(1) by (auto split: if_splits)
qed

section \<open>The reachability search\<close>

lemma those_map_Some: "(\<And>x. x \<in> set xs \<Longrightarrow> f x = Some (h x)) \<Longrightarrow> those (map f xs) = Some (map h xs)"
  by (induction xs) auto

lemma successors_ok:
  assumes g: "dag_linked g" and n: "n \<in> dom (map_of (dg_nodes g))"
  obtains ns where "successors g n = Some ns" "set ns = arrows g `` {n}"
proof -
  have adj: "adjacent_ok g edge_from (dg_outgoing g)" using g by (simp add: dag_linked_def)
  obtain es where es: "map_of (dg_outgoing g) n = Some es" "os_ok es"
    "set es = {i. \<exists>e. map_of (dg_edges g) i = Some e \<and> edge_from e = n}"
    by (rule adjacentD[OF adj n])
  let ?h = "\<lambda>i. edge_to (the (map_of (dg_edges g) i))"
  have "those (map (edge_destination g) es) = Some (map ?h es)"
    by (rule those_map_Some) (use es(3) in \<open>auto simp: edge_destination_def\<close>)
  then have "successors g n = Some (map ?h es)" using es(1) by (simp add: successors_def)
  moreover have "set (map ?h es) = arrows g `` {n}"
  proof (intro set_eqI iffI)
    fix m assume "m \<in> set (map ?h es)"
    then obtain i where "i \<in> set es" "m = ?h i" by auto
    then show "m \<in> arrows g `` {n}" using es(3) arrowsI[of g i] by auto
  next
    fix m assume "m \<in> arrows g `` {n}"
    then obtain i e where e: "map_of (dg_edges g) i = Some e" "edge_from e = n" "m = edge_to e"
      by (auto elim: arrowsE)
    then have "i \<in> set es" "m = ?h i" using es(3) by auto
    then show "m \<in> set (map ?h es)" by simp
  qed
  ultimately show ?thesis using that by blast
qed

lemma reaches_loop_correct:
  assumes "dag_linked g" "set pending \<subseteq> dom (map_of (dg_nodes g))" "target \<notin> set visited"
    "arrows g `` set visited \<subseteq> set visited \<union> set pending"
  shows "reaches_loop g target visited pending = Some (\<exists>n\<in>set pending. (n, target) \<in> (arrows g)\<^sup>*)"
  using assms
proof (induction g target visited pending rule: reaches_loop.induct)
  case (2 g target visited n pending)
  show ?case
  proof (cases "n = target")
    case False
    show ?thesis
    proof (cases "n \<in> set visited")
      case True
      have "reaches_loop g target visited pending = Some (\<exists>n\<in>set pending. (n, target) \<in> (arrows g)\<^sup>*)"
        by (rule "2.IH"(1)) (use False True "2.prems" in \<open>auto simp: List.member_iff\<close>)
      moreover have "\<exists>p\<in>set pending. (p, target) \<in> (arrows g)\<^sup>*" if "(n, target) \<in> (arrows g)\<^sup>*"
        by (rule leaves_closed[OF that True "2.prems"(3)]) (use True "2.prems"(4) in auto)
      ultimately show ?thesis using False True by (auto simp: List.member_iff)
    next
      case new: False
      obtain ns where ns: "successors g n = Some ns" "set ns = arrows g `` {n}"
        using successors_ok[OF "2.prems"(1)] "2.prems"(2) by auto
      have "set ns \<subseteq> dom (map_of (dg_nodes g))"
        using ns(2) "2.prems"(1) by (auto simp: dag_linked_def elim!: arrowsE)
      then have "reaches_loop g target (os_insert n visited) (rev ns @ pending)
          = Some (\<exists>n\<in>set (rev ns @ pending). (n, target) \<in> (arrows g)\<^sup>*)"
        by (intro "2.IH"(2)) (use False new ns "2.prems" in \<open>auto simp: List.member_iff\<close>)
      moreover have "(n, target) \<in> (arrows g)\<^sup>* \<longleftrightarrow> (\<exists>m\<in>set ns. (m, target) \<in> (arrows g)\<^sup>*)"
        using False ns(2) by (auto elim: converse_rtranclE intro: converse_rtrancl_into_rtrancl)
      ultimately show ?thesis using False new ns(1) by (auto simp: List.member_iff)
    qed
  qed auto
qed simp

lemma reaches_correct:
  assumes "dag_linked g" "n \<in> dom (map_of (dg_nodes g))"
  shows "reaches g n target = Some ((n, target) \<in> (arrows g)\<^sup>*)"
  using reaches_loop_correct[of g "[n]" target "[]"] assms by (simp add: reaches_def)

section \<open>The operations\<close>

lemma dag_new_ok: "dag_ok (dag_new ident)"
  by (simp add: dag_ok_def dag_linked_def adjacent_ok_def arrows_def dag_new_def acyclic_def)

lemma insert_node_ok:
  assumes g: "dag_ok g" and run: "dag_insert_node g ident n = Inr g'"
  shows "dag_ok g' \<and> map_of (dg_nodes g') = (map_of (dg_nodes g))(ident \<mapsto> n) \<and> dg_edges g' = dg_edges g"
proof -
  from run have new: "\<not> om_has (dg_nodes g) ident" and g': "g' = g\<lparr>dg_nodes := om_insert ident n (dg_nodes g),
      dg_incoming := om_insert ident [] (dg_incoming g), dg_outgoing := om_insert ident [] (dg_outgoing g)\<rparr>"
    by (auto simp: dag_insert_node_def split: if_splits)
  have ok: "om_ok (dg_nodes g)" using g by (simp add: dag_ok_def dag_linked_def)
  have "adjacent_ok g' edge_from (om_insert ident [] (dg_outgoing g))" "adjacent_ok g' edge_to (om_insert ident [] (dg_incoming g))"
    by (rule adjacent_insert_node[OF _ _ new ok]; use g g' in \<open>auto simp: dag_ok_def dag_linked_def\<close>)+
  moreover have "arrows g' = arrows g" using g' by (simp add: arrows_def)
  ultimately show ?thesis using g g' ok by (auto simp: dag_ok_def dag_linked_def)
qed

lemma no_edges: "has_edges adj n \<longleftrightarrow> (\<exists>es. map_of adj n = Some es \<and> es \<noteq> [])"
  by (auto simp: has_edges_def split: option.splits)

lemma remove_node_ok:
  assumes g: "dag_ok g" and run: "dag_remove_node g ident = Inr (n, g')"
  shows "dag_ok g' \<and> map_of (dg_nodes g) ident = Some n \<and> map_of (dg_nodes g') = (map_of (dg_nodes g))(ident := None)
     \<and> dg_edges g' = dg_edges g"
proof -
  from run have n: "map_of (dg_nodes g) ident = Some n"
    and free: "\<not> has_edges (dg_incoming g) ident" "\<not> has_edges (dg_outgoing g) ident"
    and g': "g' = g\<lparr>dg_nodes := om_remove ident (dg_nodes g), dg_incoming := om_remove ident (dg_incoming g),
      dg_outgoing := om_remove ident (dg_outgoing g)\<rparr>"
    by (auto simp: dag_remove_node_def split: option.splits if_splits)
  have lk: "dag_linked g" using g by (simp add: dag_ok_def)
  then have adj: "adjacent_ok g edge_from (dg_outgoing g)" "adjacent_ok g edge_to (dg_incoming g)"
    by (simp_all add: dag_linked_def)
  have d: "ident \<in> dom (map_of (dg_nodes g))" using n by auto
  have clear: "edge_from e \<noteq> ident \<and> edge_to e \<noteq> ident" if "map_of (dg_edges g) i = Some e" for i e
  proof -
    obtain es es' where es: "map_of (dg_outgoing g) ident = Some es"
      "set es = {i. \<exists>e. map_of (dg_edges g) i = Some e \<and> edge_from e = ident}"
      and es': "map_of (dg_incoming g) ident = Some es'"
      "set es' = {i. \<exists>e. map_of (dg_edges g) i = Some e \<and> edge_to e = ident}"
      by (rule adjacentD[OF adj(1) d], rule adjacentD[OF adj(2) d])
    then have "es = []" "es' = []" using free by (simp_all add: no_edges)
    then show ?thesis using es(2) es'(2) that by auto
  qed
  have "adjacent_ok g' edge_from (om_remove ident (dg_outgoing g))" "adjacent_ok g' edge_to (om_remove ident (dg_incoming g))"
    by (rule adjacent_remove_node; use adj g' in simp)+
  moreover have "arrows g' = arrows g" using g' by (simp add: arrows_def)
  ultimately show ?thesis using g g' n clear by (auto simp: dag_ok_def dag_linked_def)
qed

lemma insert_edge_result:
  assumes g: "dag_ok g"
  shows "dag_insert_edge g e \<noteq> None"
    and "(\<exists>g'. dag_insert_edge g e = Some (Inr g')) \<longleftrightarrow> map_of (dg_edges g) (gd_id e) = None
        \<and> edge_from e \<in> dom (map_of (dg_nodes g)) \<and> edge_to e \<in> dom (map_of (dg_nodes g))
        \<and> acyclic (insert (edge_from e, edge_to e) (arrows g))"
    and "dag_insert_edge g e = Some (Inr g') \<Longrightarrow> dag_ok g' \<and> dg_nodes g' = dg_nodes g
        \<and> map_of (dg_edges g') = (map_of (dg_edges g))(gd_id e \<mapsto> e)
        \<and> arrows g' = insert (edge_from e, edge_to e) (arrows g)"
proof -
  let ?s = "edge_from e" and ?t = "edge_to e"
  have lk: "dag_linked g" and ac: "acyclic (arrows g)" using g by (simp_all add: dag_ok_def)
  have adj: "adjacent_ok g edge_from (dg_outgoing g)" "adjacent_ok g edge_to (dg_incoming g)"
    using lk by (simp_all add: dag_linked_def)
  have eok: "om_ok (dg_edges g)" using lk by (simp add: dag_linked_def)
  have cyc: "acyclic (insert (?s, ?t) (arrows g)) \<longleftrightarrow> (?t, ?s) \<notin> (arrows g)\<^sup>*" using ac by (simp add: acyclic_insert)
  have search: "(if ?s = ?t then Some True else reaches g ?t ?s) = Some ((?t, ?s) \<in> (arrows g)\<^sup>*)"
    if "?t \<in> dom (map_of (dg_nodes g))" using reaches_correct[OF lk that] by auto
  have doms: "dom (map_of (dg_outgoing g)) = dom (map_of (dg_nodes g))" "dom (map_of (dg_incoming g)) = dom (map_of (dg_nodes g))"
    using adj by (simp_all add: adjacent_ok_def)
  let ?g = "g\<lparr>dg_edges := om_insert (gd_id e) e (dg_edges g),
      dg_outgoing := om_update ?s (os_insert (gd_id e)) (dg_outgoing g),
      dg_incoming := om_update ?t (os_insert (gd_id e)) (dg_incoming g)\<rparr>"
  have run: "\<exists>err. dag_insert_edge g e = Some (if map_of (dg_edges g) (gd_id e) = None
        \<and> ?s \<in> dom (map_of (dg_nodes g)) \<and> ?t \<in> dom (map_of (dg_nodes g)) \<and> (?t, ?s) \<notin> (arrows g)\<^sup>*
      then Inr ?g else Inl err)"
  proof (cases "om_has (dg_edges g) (gd_id e) \<or> \<not> om_has (dg_nodes g) ?s \<or> \<not> om_has (dg_nodes g) ?t")
    case True
    then have no: "\<not> (map_of (dg_edges g) (gd_id e) = None \<and> ?s \<in> dom (map_of (dg_nodes g))
      \<and> ?t \<in> dom (map_of (dg_nodes g)) \<and> (?t, ?s) \<notin> (arrows g)\<^sup>*)"
      by (auto simp: om_has_def)
    have "\<exists>err. dag_insert_edge g e = Some (Inl err)" using True by (auto simp: dag_insert_edge_def Let_def)
    then show ?thesis unfolding if_not_P[OF no] .
  next
    case False
    then have in_: "?s \<in> dom (map_of (dg_nodes g))" "?t \<in> dom (map_of (dg_nodes g))" "map_of (dg_edges g) (gd_id e) = None"
      by (auto simp: om_has_def)
    have has: "om_has (dg_outgoing g) ?s" "om_has (dg_incoming g) ?t" using in_ doms by (simp_all only: om_has_dom)
    show ?thesis using False has in_ search[OF in_(2)]
      by (cases "(?t, ?s) \<in> (arrows g)\<^sup>*") (simp_all add: dag_insert_edge_def Let_def)
  qed
  then show "dag_insert_edge g e \<noteq> None" by auto
  show "(\<exists>g'. dag_insert_edge g e = Some (Inr g')) \<longleftrightarrow> map_of (dg_edges g) (gd_id e) = None
        \<and> ?s \<in> dom (map_of (dg_nodes g)) \<and> ?t \<in> dom (map_of (dg_nodes g)) \<and> acyclic (insert (?s, ?t) (arrows g))"
    using run unfolding cyc by (auto split: if_splits)
  assume r: "dag_insert_edge g e = Some (Inr g')"
  with run have c: "map_of (dg_edges g) (gd_id e) = None" "?s \<in> dom (map_of (dg_nodes g))" "?t \<in> dom (map_of (dg_nodes g))"
    "(?t, ?s) \<notin> (arrows g)\<^sup>*" and g': "g' = ?g" by (auto split: if_splits)
  have fresh: "\<not> om_has (dg_edges g) (gd_id e)" using c(1) by (simp add: om_has_def)
  have "adjacent_ok g' edge_from (dg_outgoing g')" "adjacent_ok g' edge_to (dg_incoming g')"
    using adjacent_insert_edge[OF adj(1) fresh eok, of g'] adjacent_insert_edge[OF adj(2) fresh eok, of g'] g' by simp_all
  moreover have arr: "arrows g' = insert (?s, ?t) (arrows g)"
    using c(1) eok g' by (simp add: arrows_def ran_map_upd)
  moreover have "acyclic (arrows g')" using arr cyc c(4) by simp
  ultimately show "dag_ok g' \<and> dg_nodes g' = dg_nodes g \<and> map_of (dg_edges g') = (map_of (dg_edges g))(gd_id e \<mapsto> e)
      \<and> arrows g' = insert (?s, ?t) (arrows g)"
    using lk c(2,3) g' eok by (auto simp: dag_ok_def dag_linked_def)
qed

lemma remove_edge_result:
  assumes g: "dag_ok g"
  shows "dag_remove_edge g i \<noteq> None"
    and "dag_remove_edge g i = Some (Inr (e, g')) \<Longrightarrow> dag_ok g' \<and> map_of (dg_edges g) i = Some e
        \<and> dg_nodes g' = dg_nodes g \<and> map_of (dg_edges g') = (map_of (dg_edges g))(i := None)
        \<and> arrows g' \<subseteq> arrows g"
proof -
  have lk: "dag_linked g" and ac: "acyclic (arrows g)" using g by (simp_all add: dag_ok_def)
  have adj: "adjacent_ok g edge_from (dg_outgoing g)" "adjacent_ok g edge_to (dg_incoming g)"
    using lk by (simp_all add: dag_linked_def)
  have doms: "dom (map_of (dg_outgoing g)) = dom (map_of (dg_nodes g))" "dom (map_of (dg_incoming g)) = dom (map_of (dg_nodes g))"
    using adj by (simp_all add: adjacent_ok_def)
  have ends: "edge_from e \<in> dom (map_of (dg_nodes g)) \<and> edge_to e \<in> dom (map_of (dg_nodes g))"
    if "map_of (dg_edges g) i = Some e" for e using lk that by (auto simp: dag_linked_def)
  show "dag_remove_edge g i \<noteq> None"
    using ends doms by (auto simp: dag_remove_edge_def Let_def om_has_dom split: option.splits)
  assume "dag_remove_edge g i = Some (Inr (e, g'))"
  then have e: "map_of (dg_edges g) i = Some e" and g': "g' = g\<lparr>dg_edges := om_remove i (dg_edges g),
      dg_outgoing := om_update (edge_from e) (os_remove i) (dg_outgoing g),
      dg_incoming := om_update (edge_to e) (os_remove i) (dg_incoming g)\<rparr>"
    by (auto simp: dag_remove_edge_def Let_def split: option.splits if_splits)
  have "adjacent_ok g' edge_from (dg_outgoing g')" "adjacent_ok g' edge_to (dg_incoming g')"
    using adjacent_remove_edge[OF adj(1) e, of g'] adjacent_remove_edge[OF adj(2) e, of g'] g' by simp_all
  moreover have sub: "arrows g' \<subseteq> arrows g" using g' by (auto simp: arrows_def ran_def split: if_splits)
  moreover have "acyclic (arrows g')" using acyclic_subset[OF ac sub] .
  ultimately show "dag_ok g' \<and> map_of (dg_edges g) i = Some e
        \<and> dg_nodes g' = dg_nodes g \<and> map_of (dg_edges g') = (map_of (dg_edges g))(i := None) \<and> arrows g' \<subseteq> arrows g"
    using lk g' e by (auto simp: dag_ok_def dag_linked_def split: if_splits)
qed

section \<open>The topological order\<close>

text \<open>
  Between two edges of the loop: \<open>D\<close> are the emitted nodes, \<open>rem\<close> the outgoing edges of the last
  of them still to be released. The degree of a node counts its open inputs.
\<close>

definition open_inputs :: "'n dag \<Rightarrow> node_id set \<Rightarrow> edge_id set \<Rightarrow> node_id \<Rightarrow> edge_id set" where
  "open_inputs g D rem m = {i. \<exists>e. map_of (dg_edges g) i = Some e \<and> edge_to e = m \<and> (edge_from e \<notin> D \<or> i \<in> rem)}"

definition topo_inv :: "'n dag \<Rightarrow> node_id set \<Rightarrow> edge_id set \<Rightarrow> degrees \<Rightarrow> node_id list \<Rightarrow> bool" where
  "topo_inv g D rem indegree ready \<longleftrightarrow>
     (\<forall>m. map_of indegree m = (if m \<in> dom (map_of (dg_nodes g)) then Some (card (open_inputs g D rem m)) else None))
     \<and> os_ok ready
     \<and> set ready = {m \<in> dom (map_of (dg_nodes g)). m \<notin> D \<and> open_inputs g D rem m = {}}
     \<and> (\<forall>i e. map_of (dg_edges g) i = Some e \<longrightarrow> i \<in> rem \<longrightarrow> edge_to e \<notin> D)"

lemma open_inputs_finite: "finite (open_inputs g D rem m)"
proof (rule finite_subset)
  show "open_inputs g D rem m \<subseteq> dom (map_of (dg_edges g))" by (auto simp: open_inputs_def)
qed (rule finite_dom_map_of)

lemma release_edge_step:
  assumes g: "dag_linked g" and inv: "topo_inv g D rem indegree ready" and i: "i \<in> rem" "map_of (dg_edges g) i = Some e"
    and D: "edge_from e \<in> D"
  shows "\<exists>indegree' ready'. release_edge g i (indegree, ready) = Some (indegree', ready')
     \<and> topo_inv g D (rem - {i}) indegree' ready'"
proof -
  let ?m = "edge_to e" and ?N = "dom (map_of (dg_nodes g))"
  have m: "?m \<in> ?N" "?m \<notin> D" using g inv i by (auto simp: dag_linked_def topo_inv_def)
  have mem: "i \<in> open_inputs g D rem ?m" using i by (auto simp: open_inputs_def)
  have other: "open_inputs g D (rem - {i}) n = open_inputs g D rem n" if "n \<noteq> ?m" for n
    using i that by (auto simp: open_inputs_def)
  have this_: "open_inputs g D (rem - {i}) ?m = open_inputs g D rem ?m - {i}"
    using i D by (auto simp: open_inputs_def)
  have card: "card (open_inputs g D (rem - {i}) ?m) = card (open_inputs g D rem ?m) - 1"
    using mem this_ open_inputs_finite[of g D rem ?m] by simp
  have pos: "card (open_inputs g D rem ?m) \<noteq> 0" using mem open_inputs_finite[of g D rem ?m] by auto
  have deg: "map_of indegree ?m = Some (card (open_inputs g D rem ?m))" using inv m(1) by (simp add: topo_inv_def)
  let ?ind = "om_update ?m (\<lambda>d. d - 1) indegree"
  let ?ready = "if card (open_inputs g D rem ?m) - 1 = 0 then os_insert ?m ready else ready"
  have run: "release_edge g i (indegree, ready) = Some (?ind, ?ready)"
    using i(2) deg pos by (simp add: release_edge_def edge_destination_def)
  have empty: "open_inputs g D (rem - {i}) ?m = {} \<longleftrightarrow> card (open_inputs g D rem ?m) - 1 = 0"
    using card open_inputs_finite[of g D "rem - {i}" ?m] by (metis card_0_eq)
  have d: "map_of ?ind n = (if n \<in> ?N then Some (card (open_inputs g D (rem - {i}) n)) else None)" for n
    using inv m(1) card other[of n] by (simp add: topo_inv_def)
  have old: "set ready = {n \<in> ?N. n \<notin> D \<and> open_inputs g D rem n = {}}" "os_ok ready" using inv by (simp_all add: topo_inv_def)
  have not_yet: "open_inputs g D rem ?m \<noteq> {}" using mem by blast
  have "set ?ready = {n \<in> ?N. n \<notin> D \<and> open_inputs g D (rem - {i}) n = {}}"
  proof (intro set_eqI)
    fix n
    show "n \<in> set ?ready \<longleftrightarrow> n \<in> {n \<in> ?N. n \<notin> D \<and> open_inputs g D (rem - {i}) n = {}}"
    proof (cases "n = ?m")
      case True
      then show ?thesis using old(1) m empty not_yet by auto
    next
      case False
      then show ?thesis using old(1) other[OF False] by auto
    qed
  qed
  moreover have "os_ok ?ready" using old(2) by simp
  moreover have "\<forall>j d. map_of (dg_edges g) j = Some d \<longrightarrow> j \<in> rem - {i} \<longrightarrow> edge_to d \<notin> D"
    using inv by (auto simp: topo_inv_def)
  ultimately have "topo_inv g D (rem - {i}) ?ind ?ready" unfolding topo_inv_def using d by blast
  with run show ?thesis by blast
qed

lemma release_edges_all:
  assumes "dag_linked g" "topo_inv g D (set es) indegree ready" "distinct es"
    "\<forall>i\<in>set es. \<exists>e. map_of (dg_edges g) i = Some e \<and> edge_from e \<in> D"
  shows "\<exists>indegree' ready'. release_edges g es (indegree, ready) = Some (indegree', ready') \<and> topo_inv g D {} indegree' ready'"
  using assms
proof (induction es arbitrary: indegree ready)
  case (Cons i es)
  from Cons.prems(4) obtain e where e: "map_of (dg_edges g) i = Some e" "edge_from e \<in> D" by auto
  from release_edge_step[OF Cons.prems(1,2) _ e] obtain ind' ready' where
    step: "release_edge g i (indegree, ready) = Some (ind', ready')" "topo_inv g D (set (i # es) - {i}) ind' ready'" by auto
  have "set (i # es) - {i} = set es" using Cons.prems(3) by auto
  with step(2) have "topo_inv g D (set es) ind' ready'" by simp
  from Cons.IH[OF Cons.prems(1) this] Cons.prems(3,4) step(1) show ?case by simp
qed simp

text \<open>The nodes that may be emitted after \<open>D\<close>: all their predecessors are out.\<close>

definition available :: "'n dag \<Rightarrow> node_id set \<Rightarrow> node_id set" where
  "available g D = {m \<in> dom (map_of (dg_nodes g)). m \<notin> D \<and> (\<forall>n. (n, m) \<in> arrows g \<longrightarrow> n \<in> D)}"

text \<open>Every position holds the least node available after those before it.\<close>

definition stable_order :: "'n dag \<Rightarrow> node_id list \<Rightarrow> bool" where
  "stable_order g order \<longleftrightarrow> (\<forall>i < length order. order ! i \<in> available g (set (take i order))
     \<and> (\<forall>m\<in>available g (set (take i order)). order ! i \<le> m))"

lemma ready_available: "topo_inv g D {} indegree ready \<Longrightarrow> set ready = available g D"
  unfolding topo_inv_def available_def open_inputs_def by (auto elim!: arrowsE) (metis arrowsI)

lemma stable_snoc:
  assumes "stable_order g order" "n \<in> available g (set order)" "\<forall>m\<in>available g (set order). n \<le> m"
  shows "stable_order g (order @ [n])"
  using assms by (auto simp: stable_order_def nth_append less_Suc_eq)

lemma emit_inv:
  assumes g: "dag_ok g" and inv: "topo_inv g D {} indegree (n # ready)"
    and closed: "\<forall>a b. (a, b) \<in> arrows g \<longrightarrow> b \<in> D \<longrightarrow> a \<in> D"
    and es: "set es = {i. \<exists>e. map_of (dg_edges g) i = Some e \<and> edge_from e = n}"
  shows "topo_inv g (insert n D) (set es) indegree ready"
    and "\<forall>a b. (a, b) \<in> arrows g \<longrightarrow> b \<in> insert n D \<longrightarrow> a \<in> insert n D"
proof -
  have n: "n \<in> available g D" using ready_available[OF inv] by auto
  have "open_inputs g (insert n D) (set es) = open_inputs g D {}"
    using es n by (auto simp: open_inputs_def available_def fun_eq_iff)
  moreover have "edge_to e \<notin> insert n D" if e: "map_of (dg_edges g) i = Some e" "i \<in> set es" for i e
  proof -
    have arr: "(n, edge_to e) \<in> arrows g" using arrowsI[OF e(1)] e es by auto
    have "edge_to e \<noteq> n" using arr g by (auto simp: dag_ok_def acyclic_def)
    moreover have "edge_to e \<notin> D" using arr closed n by (auto simp: available_def)
    ultimately show ?thesis by simp
  qed
  ultimately show "topo_inv g (insert n D) (set es) indegree ready"
    using inv by (auto simp: topo_inv_def)
  show "\<forall>a b. (a, b) \<in> arrows g \<longrightarrow> b \<in> insert n D \<longrightarrow> a \<in> insert n D"
    using closed n by (auto simp: available_def)
qed

lemma all_emitted:
  assumes g: "dag_ok g" and D: "D \<subseteq> dom (map_of (dg_nodes g))" and none: "available g D = {}"
  shows "D = dom (map_of (dg_nodes g))"
proof (rule ccontr)
  let ?N = "dom (map_of (dg_nodes g))"
  assume "D \<noteq> ?N"
  then have ne: "?N - D \<noteq> {}" using D by blast
  have "finite (arrows g)" unfolding arrows_def by (intro finite_imageI finite_ran finite_dom_map_of)
  then have "wf (arrows g)" using g by (simp add: dag_ok_def finite_acyclic_wf)
  then obtain m where m: "m \<in> ?N - D" "\<forall>n. (n, m) \<in> arrows g \<longrightarrow> n \<notin> ?N - D"
    using ne wfE_min' by metis
  have "n \<in> ?N" if "(n, m) \<in> arrows g" for n using that g by (auto simp: dag_ok_def dag_linked_def elim!: arrowsE)
  with m have "m \<in> available g D" by (auto simp: available_def)
  with none show False by simp
qed

lemma topo_loop_complete:
  assumes "dag_ok g" "topo_inv g (set order) {} (fst state) (snd state)" "distinct order"
    "set order \<subseteq> dom (map_of (dg_nodes g))" "\<forall>a b. (a, b) \<in> arrows g \<longrightarrow> b \<in> set order \<longrightarrow> a \<in> set order"
    "stable_order g order"
  shows "\<exists>full. topo_loop g state order = Some full \<and> distinct full \<and> set full = dom (map_of (dg_nodes g)) \<and> stable_order g full"
  using assms
proof (induction g state order rule: topo_loop.induct)
  case (1 g indegree order)
  then have "available g (set order) = {}" using ready_available[of g "set order" indegree "[]"] by simp
  with all_emitted[OF "1.prems"(1,4)] "1.prems" show ?case by simp
next
  case (2 g indegree n ready order)
  have inv: "topo_inv g (set order) {} indegree (n # ready)" using "2.prems"(2) by simp
  have av: "set (n # ready) = available g (set order)" by (rule ready_available[OF inv])
  have n: "n \<in> available g (set order)" using av by auto
  have sorted: "os_ok (n # ready)" using inv by (simp only: topo_inv_def)
  have least: "\<forall>m\<in>available g (set order). n \<le> m"
    using sorted unfolding av[symmetric] by auto
  have lk: "dag_linked g" using "2.prems"(1) by (simp add: dag_ok_def)
  then have adj: "adjacent_ok g edge_from (dg_outgoing g)" by (simp add: dag_linked_def)
  have nn: "n \<in> dom (map_of (dg_nodes g))" using n by (simp add: available_def)
  obtain es where es: "map_of (dg_outgoing g) n = Some es" "os_ok es"
    "set es = {i. \<exists>e. map_of (dg_edges g) i = Some e \<and> edge_from e = n}"
    by (rule adjacentD[OF adj nn])
  note emit = emit_inv[OF "2.prems"(1) inv "2.prems"(5) es(3)]
  obtain ind' ready' where rel: "release_edges g es (indegree, ready) = Some (ind', ready')"
    "topo_inv g (insert n (set order)) {} ind' ready'"
    using release_edges_all[OF lk emit(1) os_distinct[OF es(2)]] es(3) by auto
  have "\<exists>full. topo_loop g (ind', ready') (order @ [n]) = Some full \<and> distinct full
      \<and> set full = dom (map_of (dg_nodes g)) \<and> stable_order g full"
  proof (rule "2.IH"[OF es(1) rel(1) "2.prems"(1)])
    show "stable_order g (order @ [n])" by (rule stable_snoc[OF "2.prems"(6) n least])
    show "distinct (order @ [n])" using "2.prems"(3) n by (auto simp: available_def)
  qed (use "2.prems"(4) emit(2) rel(2) nn in auto)
  then show ?case using es(1) rel(1) by simp
qed

lemma topological_order_complete:
  assumes g: "dag_ok g"
  shows "\<exists>order. topological_order g = Some order \<and> distinct order \<and> set order = dom (map_of (dg_nodes g)) \<and> stable_order g order"
proof -
  have adj: "adjacent_ok g edge_to (dg_incoming g)" using g by (simp add: dag_ok_def dag_linked_def)
  let ?ind = "map (\<lambda>(n, edges). (n, length edges)) (dg_incoming g)"
  have deg: "map_of ?ind m = map_option length (map_of (dg_incoming g) m)" for m by (simp add: map_of_map)
  have card: "map_of ?ind m = (if m \<in> dom (map_of (dg_nodes g)) then Some (card (open_inputs g {} {} m)) else None)" for m
  proof (cases "m \<in> dom (map_of (dg_nodes g))")
    case True
    obtain es where es: "map_of (dg_incoming g) m = Some es" "os_ok es"
      "set es = {i. \<exists>e. map_of (dg_edges g) i = Some e \<and> edge_to e = m}"
      by (rule adjacentD[OF adj True])
    then show ?thesis using True deg[of m] os_length[OF es(2)] by (simp add: open_inputs_def)
  next
    case False
    then have "m \<notin> dom (map_of (dg_incoming g))" using adj by (simp add: adjacent_ok_def)
    then show ?thesis using False deg[of m] by auto
  qed
  have ok: "om_ok ?ind" using adj by (simp add: adjacent_ok_def om_ok_def comp_def case_prod_unfold)
  let ?ready = "map fst (filter (\<lambda>(n, degree). degree = 0) ?ind)"
  have "os_ok ?ready" using om_ok_filter[OF ok] by (simp add: om_ok_def)
  moreover have "set ?ready = {m \<in> dom (map_of (dg_nodes g)). m \<notin> {} \<and> open_inputs g {} {} m = {}}"
  proof -
    have "m \<in> set ?ready \<longleftrightarrow> map_of ?ind m = Some 0" for m
      using om_entry[OF ok, of m 0] by force
    then have mem: "m \<in> set ?ready \<longleftrightarrow> m \<in> dom (map_of (dg_nodes g)) \<and> card (open_inputs g {} {} m) = 0" for m
      unfolding card by simp
    show ?thesis by (intro set_eqI) (unfold mem, simp add: open_inputs_finite)
  qed
  ultimately have "topo_inv g {} {} ?ind ?ready" using card by (simp add: topo_inv_def)
  then show ?thesis
    using topo_loop_complete[OF g, of "[]" "(?ind, ?ready)"] by (simp add: topological_order_def Let_def stable_order_def)
qed

text \<open>In such an order every edge runs forward.\<close>

lemma stable_order_sorted:
  assumes "stable_order g order" "(n, m) \<in> arrows g" "j < length order" "order ! j = m"
  shows "\<exists>i<j. order ! i = n"
proof -
  have "n \<in> set (take j order)" using assms by (auto simp: stable_order_def available_def)
  then show ?thesis using assms(3) by (auto simp: in_set_conv_nth)
qed

end
