(* ===== verification/DagProps.thy ===== *)
theory DagProps
  imports DagLaws
begin

text \<open>
  The properties of the graph store. \<open>dag_built\<close> is what a client of the API can hold: a new
  graph, changed by any sequence of calls that succeeded.
\<close>

section \<open>Reachable graphs\<close>

text \<open>The mutable borrow of a payload: the client replaces it by \<open>f\<close> of itself.\<close>

definition dag_node_mut :: "'n dag \<Rightarrow> node_id \<Rightarrow> ('n \<Rightarrow> 'n) \<Rightarrow> 'n dag option" where
  "dag_node_mut g n f =
     (if om_has (dg_nodes g) n then Some (g\<lparr>dg_nodes := om_update n f (dg_nodes g)\<rparr>) else None)"

inductive dag_built :: "'n dag \<Rightarrow> bool" where
  built_new: "dag_built (dag_new ident)"
| built_insert_node: "dag_built g \<Longrightarrow> dag_insert_node g n x = Inr g' \<Longrightarrow> dag_built g'"
| built_remove_node: "dag_built g \<Longrightarrow> dag_remove_node g n = Inr (x, g') \<Longrightarrow> dag_built g'"
| built_node_mut: "dag_built g \<Longrightarrow> dag_node_mut g n f = Some g' \<Longrightarrow> dag_built g'"
| built_insert_edge: "dag_built g \<Longrightarrow> dag_insert_edge g e = Some (Inr g') \<Longrightarrow> dag_built g'"
| built_remove_edge: "dag_built g \<Longrightarrow> dag_remove_edge g i = Some (Inr (e, g')) \<Longrightarrow> dag_built g'"

lemma node_mut_ok:
  assumes "dag_ok g" "dag_node_mut g n f = Some g'" shows "dag_ok g'"
proof -
  have g': "g' = g\<lparr>dg_nodes := om_update n f (dg_nodes g)\<rparr>" using assms(2) by (simp add: dag_node_mut_def split: if_splits)
  then have "arrows g' = arrows g" by (simp add: arrows_def)
  with assms(1) g' show ?thesis by (simp add: dag_ok_def dag_linked_def adjacent_ok_def)
qed

lemma built_ok: "dag_built g \<Longrightarrow> dag_ok g"
proof (induction rule: dag_built.induct)
  case (built_new ident)
  show ?case by (rule dag_new_ok)
next
  case (built_insert_node g n x g')
  then show ?case using insert_node_ok[of g n x g'] by simp
next
  case (built_remove_node g n x g')
  then show ?case using remove_node_ok[of g n x g'] by simp
next
  case (built_node_mut g n f g')
  then show ?case using node_mut_ok[of g n f g'] by simp
next
  case (built_insert_edge g e g')
  then show ?case using insert_edge_result(3)[of g e g'] by simp
next
  case (built_remove_edge g i e g')
  then show ?case using remove_edge_result(2)[of g i e g'] by simp
qed

text \<open>
  C9: Whatever succeeds on the graph leaves it linked and acyclic: the adjacency of both directions
  lists exactly the stored edges, every edge ends at stored nodes, and no path returns to its start.
\<close>

theorem built_graph_acyclic: "dag_built g \<Longrightarrow> dag_linked g \<and> acyclic (arrows g)"
  using built_ok by (simp add: dag_ok_def)

text \<open>A graph for the applications: two inputs into a blend, and a viewer.\<close>

definition wire :: "128 word \<Rightarrow> 128 word \<Rightarrow> 128 word \<Rightarrow> graph_edge" where
  "wire e n m = \<lparr>gd_id = TypedId e, gd_source = \<lparr>ge_node_id = TypedId n, ge_port_id = TypedId 0\<rparr>,
     gd_destination = \<lparr>ge_node_id = TypedId m, ge_port_id = TypedId 1\<rparr>\<rparr>"

definition blend_nodes :: "nat dag" where
  "blend_nodes = \<lparr>dg_id = TypedId 1, dg_nodes = [(TypedId 1, 10), (TypedId 2, 20), (TypedId 3, 30), (TypedId 4, 40)],
     dg_edges = [], dg_incoming = [(TypedId 1, []), (TypedId 2, []), (TypedId 3, []), (TypedId 4, [])],
     dg_outgoing = [(TypedId 1, []), (TypedId 2, []), (TypedId 3, []), (TypedId 4, [])]\<rparr>"

lemma blend_nodes_built: "dag_built blend_nodes"
proof -
  have "bindR (dag_insert_node (dag_new (TypedId 1)) (TypedId 3) 30) (\<lambda>g.
      bindR (dag_insert_node g (TypedId 1) 10) (\<lambda>g. bindR (dag_insert_node g (TypedId 4) 40) (\<lambda>g.
      dag_insert_node g (TypedId 2) 20))) = Inr blend_nodes" by code_simp
  then obtain g g1 g2 where "dag_insert_node (dag_new (TypedId 1)) (TypedId 3) 30 = Inr g"
    "dag_insert_node g (TypedId 1) 10 = Inr g1" "dag_insert_node g1 (TypedId 4) 40 = Inr g2"
    and last: "dag_insert_node g2 (TypedId 2) 20 = Inr blend_nodes" by (auto simp: bindR_Inr)
  then have "dag_built g2" using built_new built_insert_node by metis
  then show ?thesis by (rule built_insert_node[OF _ last])
qed

definition blend :: "nat dag" where
  "blend = blend_nodes\<lparr>dg_edges := [(TypedId 7, wire 7 4 1), (TypedId 8, wire 8 2 1), (TypedId 9, wire 9 1 3)],
     dg_incoming := [(TypedId 1, [TypedId 7, TypedId 8]), (TypedId 2, []), (TypedId 3, [TypedId 9]), (TypedId 4, [])],
     dg_outgoing := [(TypedId 1, [TypedId 9]), (TypedId 2, [TypedId 8]), (TypedId 3, []), (TypedId 4, [TypedId 7])]\<rparr>"

text \<open>The edges of one call after the other.\<close>

fun insert_edges :: "'n dag \<Rightarrow> graph_edge list \<Rightarrow> 'n dag option" where
  "insert_edges g [] = Some g"
| "insert_edges g (e # es) = (case dag_insert_edge g e of Some (Inr g') \<Rightarrow> insert_edges g' es | _ \<Rightarrow> None)"

lemma insert_edges_built: "insert_edges g es = Some g' \<Longrightarrow> dag_built g \<Longrightarrow> dag_built g'"
  by (induction es arbitrary: g) (auto split: option.splits sum.splits intro: built_insert_edge)

lemma blend_built: "dag_built blend"
proof -
  have "insert_edges blend_nodes [wire 9 1 3, wire 7 4 1, wire 8 2 1] = Some blend" by code_simp
  then show ?thesis using insert_edges_built blend_nodes_built by blast
qed

lemma blend_ok: "dag_ok blend"
  by (rule built_ok[OF blend_built])

theorem built_graph_acyclic_witness: "dag_linked blend \<and> acyclic (arrows blend)"
  by (rule built_graph_acyclic[OF blend_built])

text \<open>
  C10: An edge is accepted exactly when its identity is new, both its nodes are stored, and the graph
  with it has no cycle; the search for a path ends on every graph, and nothing panics.
\<close>

theorem insert_edge_iff_acyclic:
  assumes "dag_ok g"
  shows "dag_insert_edge g e \<noteq> None
    \<and> ((\<exists>g'. dag_insert_edge g e = Some (Inr g')) \<longleftrightarrow> map_of (dg_edges g) (gd_id e) = None
        \<and> ge_node_id (gd_source e) \<in> dom (map_of (dg_nodes g)) \<and> ge_node_id (gd_destination e) \<in> dom (map_of (dg_nodes g))
        \<and> acyclic (insert (ge_node_id (gd_source e), ge_node_id (gd_destination e)) (arrows g)))"
  using insert_edge_result(1,2)[OF assms] by blast

theorem insert_edge_iff_acyclic_witness:
  "(\<exists>err. dag_insert_edge blend (wire 6 3 4) = Some (Inl err)) \<and> \<not> acyclic (insert (TypedId 3, TypedId 4) (arrows blend))"
proof -
  have r: "case dag_insert_edge blend (wire 6 3 4) of Some (Inl _) \<Rightarrow> True | _ \<Rightarrow> False" by code_simp
  then obtain err where err: "dag_insert_edge blend (wire 6 3 4) = Some (Inl err)" by (auto split: option.splits sum.splits)
  then have "\<not> acyclic (insert (TypedId 3, TypedId 4) (arrows blend))"
    using insert_edge_iff_acyclic[OF blend_ok, of "wire 6 3 4"] by (simp add: wire_def blend_def blend_nodes_def dom_def)
  with err show ?thesis by blast
qed

text \<open>
  The depth-first search answers whether there is a path, of any length, along the stored edges.
\<close>

theorem reaches_iff_path:
  assumes "dag_linked g" "start \<in> dom (map_of (dg_nodes g))"
  shows "reaches g start target = Some ((start, target) \<in> (arrows g)\<^sup>*)"
  by (rule reaches_correct[OF assms])

theorem reaches_iff_path_witness:
  "(TypedId 2, TypedId 3) \<in> (arrows blend)\<^sup>* \<and> (TypedId 2, TypedId 4) \<notin> (arrows blend)\<^sup>*"
proof -
  have "reaches blend (TypedId 2) (TypedId 3) = Some True" "reaches blend (TypedId 2) (TypedId 4) = Some False"
    by code_simp+
  moreover have "dag_linked blend" "TypedId 2 \<in> dom (map_of (dg_nodes blend))"
    using blend_ok by (simp_all add: dag_ok_def blend_def blend_nodes_def dom_def)
  ultimately show ?thesis using reaches_iff_path by (metis option.inject)
qed

text \<open>
  C5: The topological order is complete and canonical: it lists every node once, and each position
  holds the least identity among the nodes whose predecessors all stand before it, so every edge
  runs forward. No lookup of the loop can fail and no degree goes below zero.
\<close>

theorem topological_order_stable:
  assumes "dag_ok g"
  shows "\<exists>order. topological_order g = Some order \<and> distinct order \<and> set order = dom (map_of (dg_nodes g))
     \<and> stable_order g order \<and> (\<forall>n m j. (n, m) \<in> arrows g \<longrightarrow> j < length order \<longrightarrow> order ! j = m \<longrightarrow> (\<exists>i<j. order ! i = n))"
  using topological_order_complete[OF assms] stable_order_sorted by blast

theorem topological_order_stable_witness:
  "topological_order blend = Some [TypedId 2, TypedId 4, TypedId 1, TypedId 3]
     \<and> stable_order blend [TypedId 2, TypedId 4, TypedId 1, TypedId 3]"
proof -
  have "topological_order blend = Some [TypedId 2, TypedId 4, TypedId 1, TypedId 3]" by code_simp
  with topological_order_stable[OF blend_ok] show ?thesis by auto
qed

lemma os_remove_insert: "os_ok s \<Longrightarrow> x \<notin> set s \<Longrightarrow> os_remove x (os_insert x s) = s"
  by (intro os_ext) auto

lemma om_remove_insert: "om_ok m \<Longrightarrow> map_of m k = None \<Longrightarrow> om_remove k (om_insert k v m) = m"
  by (intro om_ext) (auto simp: fun_eq_iff)

lemma om_update_undo:
  assumes "om_ok m" "\<And>v. map_of m k = Some v \<Longrightarrow> f (h v) = v"
  shows "om_update k f (om_update k h m) = m"
  using assms by (intro om_ext) (auto simp: fun_eq_iff option.map_comp comp_def intro!: option.map_ident_strong)

text \<open>Removing an edge right after its insertion gives back the graph, to the last entry.\<close>

theorem insert_remove_edge:
  assumes "dag_ok g" "dag_insert_edge g e = Some (Inr g')"
  shows "dag_remove_edge g' (gd_id e) = Some (Inr (e, g))"
proof -
  let ?s = "edge_from e" and ?t = "edge_to e"
  have lk: "dag_linked g" using assms(1) by (simp add: dag_ok_def)
  then have adj: "adjacent_ok g edge_from (dg_outgoing g)" "adjacent_ok g edge_to (dg_incoming g)" "om_ok (dg_edges g)"
    by (simp_all add: dag_linked_def)
  have fresh: "map_of (dg_edges g) (gd_id e) = None"
    and ends: "?s \<in> dom (map_of (dg_nodes g))" "?t \<in> dom (map_of (dg_nodes g))"
    using insert_edge_result(2)[OF assms(1), of e] assms(2) by auto
  have g': "g' = g\<lparr>dg_edges := om_insert (gd_id e) e (dg_edges g),
      dg_outgoing := om_update ?s (os_insert (gd_id e)) (dg_outgoing g),
      dg_incoming := om_update ?t (os_insert (gd_id e)) (dg_incoming g)\<rparr>"
    using assms(2) by (auto simp: dag_insert_edge_def Let_def split: if_splits option.splits bool.splits)
  have undo: "om_update n (os_remove (gd_id e)) (om_update n (os_insert (gd_id e)) a) = a"
    if "adjacent_ok g at_node a" for n a at_node
  proof (rule om_update_undo)
    fix es assume "map_of a n = Some es"
    then have "os_ok es" "gd_id e \<notin> set es" using that fresh by (auto simp: adjacent_ok_def)
    then show "os_remove (gd_id e) (os_insert (gd_id e) es) = es" by (rule os_remove_insert)
  qed (use that in \<open>simp add: adjacent_ok_def\<close>)
  have has: "om_has (dg_outgoing g') ?s" "om_has (dg_incoming g') ?t" "map_of (dg_edges g') (gd_id e) = Some e"
    using ends adj g' by (auto simp: om_has_dom adjacent_ok_def)
  then show ?thesis
    using g' undo[OF adj(1)] undo[OF adj(2)] om_remove_insert[OF adj(3) fresh]
    by (simp add: dag_remove_edge_def Let_def)
qed

theorem insert_remove_edge_witness:
  "\<exists>g'. dag_insert_edge blend (wire 5 4 3) = Some (Inr g') \<and> dag_remove_edge g' (TypedId 5) = Some (Inr (wire 5 4 3, blend))"
proof -
  have "case dag_insert_edge blend (wire 5 4 3) of Some (Inr _) \<Rightarrow> True | _ \<Rightarrow> False" by code_simp
  then obtain g' where g': "dag_insert_edge blend (wire 5 4 3) = Some (Inr g')" by (auto split: option.splits sum.splits)
  from insert_remove_edge[OF blend_ok g'] g' show ?thesis by (simp add: wire_def)
qed

end
