(* ===== verification/Regions.thy ===== *)
theory Regions
  imports CoreError "HOL-Library.Product_Lexorder"
begin

text \<open>
  Half-open pixel rectangles (\<open>superi-core/src/geometry.rs\<close>) and the exact unions of them that
  invalidation works with (first part of \<open>superi-graph/src/invalidation.rs\<close>). A coordinate is an
  \<open>i32\<close>; only the translation and the size constructor add, and both check.
\<close>

section \<open>Rectangles\<close>

definition in_i32 :: "int \<Rightarrow> bool" where
  "in_i32 x \<longleftrightarrow> - (2 ^ 31) \<le> x \<and> x < 2 ^ 31"

definition checked_i32 :: "int \<Rightarrow> int option" where
  "checked_i32 x = (if in_i32 x then Some x else None)"

record pixel_bounds =
  pb_min_x :: int
  pb_min_y :: int
  pb_max_x :: int
  pb_max_y :: int

definition invalid_geometry :: "string \<Rightarrow> string \<Rightarrow> error_value" where
  "invalid_geometry operation message =
     err_with_context (err_new InvalidInput UserCorrectable message) (ctx_new ''superi-core.geometry'' operation)"

lemma invalid_geometry_cong [cong]: "invalid_geometry operation message = invalid_geometry operation message"
  by (rule refl)

definition pb_new :: "int \<Rightarrow> int \<Rightarrow> int \<Rightarrow> int \<Rightarrow> pixel_bounds result" where
  "pb_new min_x min_y max_x max_y =
     (if max_x < min_x \<or> max_y < min_y
      then Inl (invalid_geometry ''create_pixel_bounds'' ''pixel-bound minimum edges must not exceed maximum edges'')
      else Inr \<lparr>pb_min_x = min_x, pb_min_y = min_y, pb_max_x = max_x, pb_max_y = max_y\<rparr>)"

definition pb_from_origin_size :: "int \<Rightarrow> int \<Rightarrow> int \<Rightarrow> int \<Rightarrow> pixel_bounds result" where
  "pb_from_origin_size min_x min_y width height =
     bindR (ok_or (checked_i32 (min_x + width))
       (invalid_geometry ''create_pixel_bounds'' ''pixel bounds exceed the supported coordinate range'')) (\<lambda>max_x.
     bindR (ok_or (checked_i32 (min_y + height))
       (invalid_geometry ''create_pixel_bounds'' ''pixel bounds exceed the supported coordinate range'')) (\<lambda>max_y.
       pb_new min_x min_y max_x max_y))"

definition pb_width :: "pixel_bounds \<Rightarrow> int" where
  "pb_width b = take_bit 32 (pb_max_x b - pb_min_x b)"

definition pb_height :: "pixel_bounds \<Rightarrow> int" where
  "pb_height b = take_bit 32 (pb_max_y b - pb_min_y b)"

definition pb_is_empty :: "pixel_bounds \<Rightarrow> bool" where
  "pb_is_empty b \<longleftrightarrow> pb_min_x b = pb_max_x b \<or> pb_min_y b = pb_max_y b"

definition pb_contains :: "pixel_bounds \<Rightarrow> int \<Rightarrow> int \<Rightarrow> bool" where
  "pb_contains b x y \<longleftrightarrow> pb_min_x b \<le> x \<and> x < pb_max_x b \<and> pb_min_y b \<le> y \<and> y < pb_max_y b"

definition pb_intersection :: "pixel_bounds \<Rightarrow> pixel_bounds \<Rightarrow> pixel_bounds option" where
  "pb_intersection a b =
     (let min_x = max (pb_min_x a) (pb_min_x b); min_y = max (pb_min_y a) (pb_min_y b);
          max_x = min (pb_max_x a) (pb_max_x b); max_y = min (pb_max_y a) (pb_max_y b) in
      if min_x < max_x \<and> min_y < max_y
      then Some \<lparr>pb_min_x = min_x, pb_min_y = min_y, pb_max_x = max_x, pb_max_y = max_y\<rparr> else None)"

definition pb_union :: "pixel_bounds \<Rightarrow> pixel_bounds \<Rightarrow> pixel_bounds" where
  "pb_union a b =
     (if pb_is_empty a then b else if pb_is_empty b then a
      else \<lparr>pb_min_x = min (pb_min_x a) (pb_min_x b), pb_min_y = min (pb_min_y a) (pb_min_y b),
            pb_max_x = max (pb_max_x a) (pb_max_x b), pb_max_y = max (pb_max_y a) (pb_max_y b)\<rparr>)"

definition pb_checked_translate :: "pixel_bounds \<Rightarrow> int \<Rightarrow> int \<Rightarrow> pixel_bounds result" where
  "pb_checked_translate b x y =
     (case (checked_i32 (pb_min_x b + x), checked_i32 (pb_min_y b + y), checked_i32 (pb_max_x b + x), checked_i32 (pb_max_y b + y)) of
        (Some min_x, Some min_y, Some max_x, Some max_y) \<Rightarrow>
          Inr \<lparr>pb_min_x = min_x, pb_min_y = min_y, pb_max_x = max_x, pb_max_y = max_y\<rparr>
      | _ \<Rightarrow> Inl (invalid_geometry ''translate_pixel_bounds'' ''pixel bounds exceed the supported coordinate range''))"

section \<open>Normalization\<close>

text \<open>
  The rows of one column strip: the intervals in order, each merged into the last one when it
  starts inside or at its end.
\<close>

definition merge_interval :: "(int \<times> int) list \<Rightarrow> int \<times> int \<Rightarrow> (int \<times> int) list" where
  "merge_interval merged = (\<lambda>(min_y, max_y).
     if merged \<noteq> [] \<and> min_y \<le> snd (last merged)
     then butlast merged @ [(fst (last merged), max (snd (last merged)) max_y)]
     else merged @ [(min_y, max_y)])"

definition merge_intervals :: "(int \<times> int) list \<Rightarrow> (int \<times> int) list" where
  "merge_intervals intervals = foldl merge_interval [] (sort intervals)"

record region_strip =
  rg_min_x :: int
  rg_max_x :: int
  rg_y_intervals :: "(int \<times> int) list"

text \<open>One pair of neighbouring vertical edges.\<close>

definition strip_step :: "pixel_bounds list \<Rightarrow> region_strip list \<Rightarrow> int \<times> int \<Rightarrow> region_strip list" where
  "strip_step regions strips = (\<lambda>(min_x, max_x).
     let merged = merge_intervals
           (map (\<lambda>r. (pb_min_y r, pb_max_y r)) (filter (\<lambda>r. pb_min_x r \<le> min_x \<and> max_x \<le> pb_max_x r) regions)) in
     if merged = [] then strips
     else if strips \<noteq> [] \<and> rg_max_x (last strips) = min_x \<and> rg_y_intervals (last strips) = merged
     then butlast strips @ [(last strips)\<lparr>rg_max_x := max_x\<rparr>]
     else strips @ [\<lparr>rg_min_x = min_x, rg_max_x = max_x, rg_y_intervals = merged\<rparr>])"

definition region_strips :: "pixel_bounds list \<Rightarrow> region_strip list" where
  "region_strips regions =
     (let x_edges = os_of (concat (map (\<lambda>r. [pb_min_x r, pb_max_x r]) regions))
      in foldl (strip_step regions) [] (zip x_edges (tl x_edges)))"

text \<open>The rectangles of the strips; \<open>None\<close> when one of them is no valid rectangle.\<close>

definition strip_rectangles :: "region_strip \<Rightarrow> pixel_bounds result list" where
  "strip_rectangles s = map (\<lambda>(min_y, max_y). pb_new (rg_min_x s) min_y (rg_max_x s) max_y) (rg_y_intervals s)"

definition expect_all :: "'a result list \<Rightarrow> 'a list option" where
  "expect_all rs = those (map (\<lambda>r. case r of Inl _ \<Rightarrow> None | Inr x \<Rightarrow> Some x) rs)"

definition normalize_regions :: "pixel_bounds list \<Rightarrow> pixel_bounds list option" where
  "normalize_regions regions =
     (let regions = filter (\<lambda>r. \<not> pb_is_empty r) regions in
      if regions = [] then Some [] else expect_all (concat (map strip_rectangles (region_strips regions))))"

section \<open>Dirty sets\<close>

datatype dirty_region = FullFrame | Bounds pixel_bounds

record dirty_region_set =
  dr_full_frame :: bool
  dr_regions :: "pixel_bounds list"

definition dirty_empty :: dirty_region_set where
  "dirty_empty = \<lparr>dr_full_frame = False, dr_regions = []\<rparr>"

definition dirty_full_frame :: dirty_region_set where
  "dirty_full_frame = \<lparr>dr_full_frame = True, dr_regions = []\<rparr>"

definition dirty_is_empty :: "dirty_region_set \<Rightarrow> bool" where
  "dirty_is_empty d \<longleftrightarrow> \<not> dr_full_frame d \<and> dr_regions d = []"

definition dirty_insert :: "dirty_region_set \<Rightarrow> dirty_region \<Rightarrow> dirty_region_set option" where
  "dirty_insert d region =
     (case region of
        FullFrame \<Rightarrow> Some (d\<lparr>dr_full_frame := True, dr_regions := []\<rparr>)
      | Bounds bounds \<Rightarrow>
          if \<not> dr_full_frame d \<and> \<not> pb_is_empty bounds
          then map_option (\<lambda>regions. d\<lparr>dr_regions := regions\<rparr>) (normalize_regions (dr_regions d @ [bounds]))
          else Some d)"

definition dirty_from_region :: "dirty_region \<Rightarrow> dirty_region_set option" where
  "dirty_from_region region = dirty_insert dirty_empty region"

definition dirty_union_with :: "dirty_region_set \<Rightarrow> dirty_region_set \<Rightarrow> dirty_region_set option" where
  "dirty_union_with d other =
     (if dr_full_frame d \<or> dirty_is_empty other then Some d
      else if dr_full_frame other then Some (d\<lparr>dr_full_frame := True, dr_regions := []\<rparr>)
      else map_option (\<lambda>regions. d\<lparr>dr_regions := regions\<rparr>) (normalize_regions (dr_regions d @ dr_regions other)))"

definition dirty_clip_to :: "dirty_region_set \<Rightarrow> pixel_bounds \<Rightarrow> dirty_region_set option" where
  "dirty_clip_to d requested =
     (if pb_is_empty requested \<or> dirty_is_empty d then Some dirty_empty
      else if dr_full_frame d then dirty_from_region (Bounds requested)
      else map_option (\<lambda>regions. \<lparr>dr_full_frame = False, dr_regions = regions\<rparr>)
             (normalize_regions (List.map_filter (\<lambda>region. pb_intersection region requested) (dr_regions d))))"

end
