(* ===== verification/RegionLaws.thy ===== *)
theory RegionLaws
  imports Regions
begin

text \<open>
  Normalization gives the canonical form of a set of pixels. Both levels of it are sequences of
  labelled runs, ordered, nonempty and maximal: the intervals of a column, and the strips of the
  plane labelled with their columns. Such a sequence is determined by what it says at each point.
\<close>

section \<open>Maximal runs\<close>

fun runs_ok :: "(int \<times> int \<times> 'l) list \<Rightarrow> bool" where
  "runs_ok [] = True"
| "runs_ok [(lo, hi, l)] = (lo < hi)"
| "runs_ok ((lo, hi, l) # (lo', hi', l') # rs) =
     (lo < hi \<and> hi \<le> lo' \<and> (hi = lo' \<longrightarrow> l \<noteq> l') \<and> runs_ok ((lo', hi', l') # rs))"

fun run_at :: "(int \<times> int \<times> 'l) list \<Rightarrow> int \<Rightarrow> 'l option" where
  "run_at [] x = None"
| "run_at ((lo, hi, l) # rs) x = (if lo \<le> x \<and> x < hi then Some l else run_at rs x)"

lemma runs_ok_tail: "runs_ok (r # rs) \<Longrightarrow> runs_ok rs"
  by (cases r; cases rs) auto

lemma runs_ok_head: "runs_ok ((lo, hi, l) # rs) \<Longrightarrow> lo < hi"
  by (cases rs) auto

lemma runs_ok_after: "runs_ok ((lo, hi, l) # rs) \<Longrightarrow> (lo', hi', l') \<in> set rs \<Longrightarrow> hi \<le> lo' \<and> lo' < hi'"
proof (induction rs arbitrary: lo hi l)
  case (Cons r rs)
  obtain a b m where r: "r = (a, b, m)" by (cases r)
  have "hi \<le> a" "runs_ok ((a, b, m) # rs)" using Cons.prems(1) by (simp_all add: r)
  with Cons.IH[of a b m] Cons.prems(2) runs_ok_head[of a b m rs] show ?case by (auto simp: r)
qed simp

lemma runs_ok_pos: "runs_ok rs \<Longrightarrow> (lo, hi, l) \<in> set rs \<Longrightarrow> lo < hi"
  by (induction rs rule: runs_ok.induct) auto

lemma run_at_before: "runs_ok ((lo, hi, l) # rs) \<Longrightarrow> x < hi \<Longrightarrow> run_at rs x = None"
proof (induction rs arbitrary: lo hi l)
  case (Cons r rs)
  obtain a b m where r: "r = (a, b, m)" by (cases r)
  have ok: "hi \<le> a" "runs_ok ((a, b, m) # rs)" using Cons.prems(1) by (simp_all add: r)
  then have "a < b" by (blast dest: runs_ok_head)
  with ok Cons.IH[OF ok(2)] Cons.prems(2) show ?case by (simp add: r)
qed simp

lemma run_at_head: "runs_ok ((lo, hi, l) # rs) \<Longrightarrow> lo \<le> x \<Longrightarrow> x < hi \<Longrightarrow> run_at ((lo, hi, l) # rs) x = Some l"
  by simp

lemma run_at_less: "runs_ok ((lo, hi, l) # rs) \<Longrightarrow> x < lo \<Longrightarrow> run_at ((lo, hi, l) # rs) x = None"
  using run_at_before[of lo hi l rs x] runs_ok_head[of lo hi l rs] by simp

lemma run_at_end: "runs_ok ((lo, hi, l) # rs) \<Longrightarrow> run_at ((lo, hi, l) # rs) hi \<noteq> Some l"
proof (cases rs)
  case (Cons r rs')
  obtain a b m where r: "r = (a, b, m)" by (cases r)
  assume "runs_ok ((lo, hi, l) # rs)"
  then have ok: "hi \<le> a" "hi = a \<longrightarrow> l \<noteq> m" "runs_ok ((a, b, m) # rs')" by (simp_all add: Cons r)
  show ?thesis
  proof (cases "hi = a")
    case True
    then show ?thesis using ok(2) runs_ok_head[OF ok(3)] by (simp add: Cons r)
  next
    case False
    then show ?thesis using ok(1) run_at_less[OF ok(3), of hi] by (simp add: Cons r)
  qed
qed simp

theorem runs_unique:
  "runs_ok rs \<Longrightarrow> runs_ok ss \<Longrightarrow> (\<And>x. run_at rs x = run_at ss x) \<Longrightarrow> rs = ss"
proof (induction rs arbitrary: ss)
  case Nil
  show ?case
  proof (cases ss)
    case (Cons s ss')
    obtain lo hi l where s: "s = (lo, hi, l)" by (cases s)
    have "run_at ss lo = Some l" using Nil.prems(2) runs_ok_head[of lo hi l ss'] by (simp add: Cons s)
    with Nil.prems(3)[of lo] show ?thesis by simp
  qed simp
next
  case (Cons r rs)
  obtain lo hi l where r: "r = (lo, hi, l)" by (cases r)
  have ok: "runs_ok ((lo, hi, l) # rs)" using Cons.prems(1) by (simp add: r)
  have same: "run_at ((lo, hi, l) # rs) x = run_at ss x" for x using Cons.prems(3)[of x] by (simp only: r)
  have pos: "lo < hi" by (rule runs_ok_head[OF ok])
  obtain s ss' where ss: "ss = s # ss'" using same[of lo] pos by (cases ss) auto
  obtain a b m where s: "s = (a, b, m)" by (cases s)
  have ok': "runs_ok ((a, b, m) # ss')" using Cons.prems(2) by (simp add: ss s)
  have pos': "a < b" by (rule runs_ok_head[OF ok'])
  have lo: "lo = a"
  proof (rule ccontr)
    assume "lo \<noteq> a"
    then consider "lo < a" | "a < lo" by linarith
    then show False
    proof cases
      case 1
      have "run_at ((lo, hi, l) # rs) lo = Some l" using pos by simp
      moreover have "run_at ss lo = None" unfolding ss s by (rule run_at_less[OF ok' 1])
      ultimately show False using same[of lo] by simp
    next
      case 2
      have "run_at ss a = Some m" using pos' by (simp add: ss s)
      moreover have "run_at ((lo, hi, l) # rs) a = None" by (rule run_at_less[OF ok 2])
      ultimately show False using same[of a] by simp
    qed
  qed
  have l: "l = m" using same[of lo] pos pos' lo by (simp add: ss s)
  have hi: "hi = b"
  proof (rule ccontr)
    assume "hi \<noteq> b"
    then consider "hi < b" | "b < hi" by linarith
    then show False
    proof cases
      case 1
      have "run_at ss hi = Some l" using 1 pos lo l by (simp add: ss s)
      then show False using same[of hi] run_at_end[OF ok] by simp
    next
      case 2
      have "run_at ((lo, hi, l) # rs) b = Some l" using 2 pos' lo by simp
      then show False using same[of b] run_at_end[OF ok'] l by (simp add: ss s del: run_at.simps)
    qed
  qed
  have "run_at rs x = run_at ss' x" for x
  proof (cases "x < hi")
    case True
    then show ?thesis using run_at_before[OF ok, of x] run_at_before[OF ok', of x] hi by simp
  next
    case False
    then show ?thesis using same[of x] hi by (simp add: ss s)
  qed
  then have "rs = ss'" by (rule Cons.IH[OF runs_ok_tail[OF ok] runs_ok_tail[OF ok']])
  then show ?case by (simp add: r ss s lo l hi)
qed

text \<open>Appending a run behind the last one, and lengthening the last one.\<close>

lemma runs_ok_snoc:
  "runs_ok rs \<Longrightarrow> lo < hi \<Longrightarrow> (\<And>a b m. rs \<noteq> [] \<Longrightarrow> last rs = (a, b, m) \<Longrightarrow> b \<le> lo \<and> (b = lo \<longrightarrow> m \<noteq> l))
     \<Longrightarrow> runs_ok (rs @ [(lo, hi, l)])"
proof (induction rs rule: runs_ok.induct)
  case (3 a b m a' b' m' rs)
  then show ?case by (auto split: if_splits)
qed auto

lemma runs_ok_lengthen: "runs_ok (rs @ [(lo, hi, l)]) \<Longrightarrow> hi \<le> hi' \<Longrightarrow> runs_ok (rs @ [(lo, hi', l)])"
proof (induction rs rule: runs_ok.induct)
  case (3 a b m a' b' m' rs)
  then show ?case by auto
qed auto

lemma run_at_append: "run_at (rs @ ss) x = (case run_at rs x of None \<Rightarrow> run_at ss x | Some l \<Rightarrow> Some l)"
  by (induction rs) auto

lemma run_at_Some: "run_at rs x = Some l \<Longrightarrow> \<exists>lo hi. (lo, hi, l) \<in> set rs \<and> lo \<le> x \<and> x < hi"
proof (induction rs)
  case (Cons r rs)
  obtain a b m where r: "r = (a, b, m)" by (cases r)
  show ?case
  proof (cases "a \<le> x \<and> x < b")
    case True
    then have "m = l" using Cons.prems r by simp
    with True r show ?thesis by (intro exI[of _ a] exI[of _ b]) simp
  next
    case False
    then have "run_at rs x = Some l" using Cons.prems r by auto
    from Cons.IH[OF this] show ?thesis by auto
  qed
qed simp

lemma run_at_in: "runs_ok rs \<Longrightarrow> (lo, hi, l) \<in> set rs \<Longrightarrow> lo \<le> x \<Longrightarrow> x < hi \<Longrightarrow> run_at rs x = Some l"
proof (induction rs)
  case (Cons r rs)
  obtain a b m where r: "r = (a, b, m)" by (cases r)
  have ok: "runs_ok ((a, b, m) # rs)" using Cons.prems(1) by (simp add: r)
  show ?case
  proof (cases "(lo, hi, l) = r")
    case True
    then show ?thesis using Cons.prems(3,4) by (auto simp: True[symmetric])
  next
    case False
    then have mem: "(lo, hi, l) \<in> set rs" using Cons.prems(2) by simp
    then have "b \<le> x" using runs_ok_after[OF ok mem] Cons.prems(3) by simp
    then show ?thesis using Cons.IH[OF runs_ok_tail[OF ok] mem Cons.prems(3,4)] by (simp add: r)
  qed
qed simp

section \<open>Merged intervals\<close>

definition as_runs :: "(int \<times> int) list \<Rightarrow> (int \<times> int \<times> unit) list" where
  "as_runs is = map (\<lambda>(lo, hi). (lo, hi, ())) is"

definition covered :: "(int \<times> int) list \<Rightarrow> int \<Rightarrow> bool" where
  "covered is y \<longleftrightarrow> (\<exists>(lo, hi)\<in>set is. lo \<le> y \<and> y < hi)"

lemma covered_simps [simp]:
  "\<not> covered [] y" "covered (i # is) y \<longleftrightarrow> fst i \<le> y \<and> y < snd i \<or> covered is y"
  "covered (is @ js) y \<longleftrightarrow> covered is y \<or> covered js y"
  by (auto simp: covered_def split: prod.splits)

lemma covered_mset: "set is = set js \<Longrightarrow> covered is = covered js"
  by (simp add: covered_def fun_eq_iff)

lemma run_at_runs: "run_at (as_runs is) y = (if covered is y then Some () else None)"
  by (induction "is") (auto simp: as_runs_def)

text \<open>The loop keeps maximal runs of the points it has seen, and starts no run behind what comes.\<close>

definition merge_inv :: "(int \<times> int) list \<Rightarrow> (int \<times> int) list \<Rightarrow> bool" where
  "merge_inv seen merged \<longleftrightarrow> runs_ok (as_runs merged) \<and> covered merged = covered seen
     \<and> (\<forall>(lo, hi)\<in>set merged. \<exists>i\<in>set seen. fst i = lo)"

lemma merge_interval_inv:
  assumes inv: "merge_inv seen merged" and i: "lo < hi" and later: "\<forall>i\<in>set seen. fst i \<le> lo"
  shows "merge_inv (seen @ [(lo, hi)]) (merge_interval merged (lo, hi))"
proof (cases "merged \<noteq> [] \<and> lo \<le> snd (last merged)")
  case True
  then obtain init a b where m: "merged = init @ [(a, b)]" by (metis append_butlast_last_id surj_pair)
  have b: "lo \<le> b" using True by (simp add: m)
  have ok: "runs_ok (as_runs init @ [(a, b, ())])" using inv by (simp add: merge_inv_def m as_runs_def)
  have start: "\<exists>i\<in>set seen. fst i = a" using inv by (auto simp: merge_inv_def m)
  then have a: "a \<le> lo" using later by auto
  have "runs_ok (as_runs init @ [(a, max b hi, ())])" using ok by (rule runs_ok_lengthen) simp
  moreover have "covered (init @ [(a, max b hi)]) = covered (seen @ [(lo, hi)])"
  proof
    fix y
    have "covered (init @ [(a, b)]) y \<longleftrightarrow> covered seen y" using inv by (simp add: merge_inv_def m)
    then show "covered (init @ [(a, max b hi)]) y = covered (seen @ [(lo, hi)]) y" using a b by auto
  qed
  moreover have "\<forall>(l, h)\<in>set (init @ [(a, max b hi)]). \<exists>i\<in>set (seen @ [(lo, hi)]). fst i = l"
    using inv start by (auto simp: merge_inv_def m)
  ultimately show ?thesis using True by (simp add: merge_inv_def merge_interval_def m as_runs_def)
next
  case False
  have ok: "runs_ok (as_runs merged)" using inv by (simp add: merge_inv_def)
  have "runs_ok (as_runs merged @ [(lo, hi, ())])"
  proof (rule runs_ok_snoc[OF ok i])
    fix a b m assume "as_runs merged \<noteq> []" "last (as_runs merged) = (a, b, m)"
    then have "merged \<noteq> []" "snd (last merged) = b" by (auto simp: as_runs_def last_map split: prod.splits)
    with False show "b \<le> lo \<and> (b = lo \<longrightarrow> m \<noteq> ())" by simp
  qed
  moreover have "\<forall>(l, h)\<in>set (merged @ [(lo, hi)]). \<exists>i\<in>set (seen @ [(lo, hi)]). fst i = l"
    using inv by (auto simp: merge_inv_def)
  ultimately show ?thesis using False inv by (auto simp: merge_inv_def merge_interval_def as_runs_def fun_eq_iff)
qed

lemma merge_fold_inv:
  "merge_inv seen merged \<Longrightarrow> \<forall>(lo, hi)\<in>set is. lo < hi \<Longrightarrow> sorted (map fst is) \<Longrightarrow> \<forall>s\<in>set seen. \<forall>i\<in>set is. fst s \<le> fst i
     \<Longrightarrow> merge_inv (seen @ is) (foldl merge_interval merged is)"
proof (induction "is" arbitrary: seen merged)
  case (Cons i "is")
  obtain lo hi where i: "i = (lo, hi)" by (cases i)
  have "merge_inv (seen @ [(lo, hi)]) (merge_interval merged (lo, hi))"
    using Cons.prems by (intro merge_interval_inv) (auto simp: i)
  then have "merge_inv ((seen @ [(lo, hi)]) @ is) (foldl merge_interval (merge_interval merged (lo, hi)) is)"
    using Cons.prems by (intro Cons.IH) (auto simp: i)
  then show ?case by (simp add: i)
qed simp

lemma sorted_fst: "sorted (is :: (int \<times> int) list) \<Longrightarrow> sorted (map fst is)"
  by (rule sorted_wrt_map_mono[of "(\<le>)"]) (auto simp: less_eq_prod_def)

lemma merge_intervals_ok:
  assumes "\<forall>(lo, hi)\<in>set is. lo < hi"
  shows "runs_ok (as_runs (merge_intervals is))" "covered (merge_intervals is) = covered is"
proof -
  have "merge_inv ([] @ sort is) (foldl merge_interval [] (sort is))"
    using assms by (intro merge_fold_inv) (auto simp: merge_inv_def as_runs_def sorted_fst)
  moreover have "covered (sort is) = covered is" by (rule covered_mset) simp
  ultimately show "runs_ok (as_runs (merge_intervals is))" "covered (merge_intervals is) = covered is"
    by (simp_all add: merge_inv_def merge_intervals_def)
qed

lemma as_runs_inj: "as_runs is = as_runs js \<Longrightarrow> is = js"
  by (auto simp: as_runs_def inj_on_def split: prod.splits elim!: map_injective)

text \<open>The merged intervals are the canonical form of the points.\<close>

lemma merge_intervals_canonical:
  assumes "\<forall>(lo, hi)\<in>set is. lo < hi" "\<forall>(lo, hi)\<in>set js. lo < hi"
  shows "merge_intervals is = merge_intervals js \<longleftrightarrow> covered is = covered js"
proof
  assume "covered is = covered js"
  then have "as_runs (merge_intervals is) = as_runs (merge_intervals js)"
    by (intro runs_unique merge_intervals_ok(1)[OF assms(1)] merge_intervals_ok(1)[OF assms(2)])
      (simp add: run_at_runs merge_intervals_ok(2)[OF assms(1)] merge_intervals_ok(2)[OF assms(2)])
  then show "merge_intervals is = merge_intervals js" by (rule as_runs_inj)
next
  assume "merge_intervals is = merge_intervals js"
  then show "covered is = covered js"
    using merge_intervals_ok(2)[OF assms(1)] merge_intervals_ok(2)[OF assms(2)] by metis
qed

section \<open>Strips\<close>

definition pb_ok :: "pixel_bounds \<Rightarrow> bool" where
  "pb_ok r \<longleftrightarrow> pb_min_x r \<le> pb_max_x r \<and> pb_min_y r \<le> pb_max_y r"

definition solid :: "pixel_bounds \<Rightarrow> bool" where
  "solid r \<longleftrightarrow> pb_min_x r < pb_max_x r \<and> pb_min_y r < pb_max_y r"

text \<open>What is dirty in the column at \<open>x\<close>.\<close>

definition column :: "pixel_bounds list \<Rightarrow> int \<Rightarrow> (int \<times> int) list" where
  "column regions x = merge_intervals
     (map (\<lambda>r. (pb_min_y r, pb_max_y r)) (filter (\<lambda>r. pb_min_x r \<le> x \<and> x < pb_max_x r) regions))"

definition column_label :: "pixel_bounds list \<Rightarrow> int \<Rightarrow> (int \<times> int) list option" where
  "column_label regions x = (if column regions x = [] then None else Some (column regions x))"

definition strip_runs :: "region_strip list \<Rightarrow> (int \<times> int \<times> (int \<times> int) list) list" where
  "strip_runs strips = map (\<lambda>s. (rg_min_x s, rg_max_x s, rg_y_intervals s)) strips"

definition edges_of :: "pixel_bounds list \<Rightarrow> int set" where
  "edges_of regions = (\<Union>r\<in>set regions. {pb_min_x r, pb_max_x r})"

definition strips_inv :: "pixel_bounds list \<Rightarrow> int \<Rightarrow> region_strip list \<Rightarrow> bool" where
  "strips_inv regions e strips \<longleftrightarrow> runs_ok (strip_runs strips) \<and> (\<forall>s\<in>set strips. rg_max_x s \<le> e)
     \<and> (\<forall>x<e. run_at (strip_runs strips) x = column_label regions x)"

lemma column_window:
  assumes "\<forall>v\<in>edges_of regions. v \<le> a \<or> b \<le> v" "a \<le> x" "x < b"
  shows "merge_intervals (map (\<lambda>r. (pb_min_y r, pb_max_y r)) (filter (\<lambda>r. pb_min_x r \<le> a \<and> b \<le> pb_max_x r) regions))
    = column regions x"
proof -
  have "filter (\<lambda>r. pb_min_x r \<le> a \<and> b \<le> pb_max_x r) regions = filter (\<lambda>r. pb_min_x r \<le> x \<and> x < pb_max_x r) regions"
  proof (rule filter_cong[OF refl])
    fix r assume "r \<in> set regions"
    then have "pb_min_x r \<le> a \<or> b \<le> pb_min_x r" "pb_max_x r \<le> a \<or> b \<le> pb_max_x r"
      using assms(1) by (auto simp: edges_of_def)
    then show "(pb_min_x r \<le> a \<and> b \<le> pb_max_x r) = (pb_min_x r \<le> x \<and> x < pb_max_x r)" using assms(2,3) by linarith
  qed
  then show ?thesis by (simp add: column_def)
qed

lemma strip_step_inv:
  assumes inv: "strips_inv regions a strips" and ab: "a < b" and edges: "\<forall>v\<in>edges_of regions. v \<le> a \<or> b \<le> v"
  shows "strips_inv regions b (strip_step regions strips (a, b))"
proof -
  define merged where "merged = merge_intervals
    (map (\<lambda>r. (pb_min_y r, pb_max_y r)) (filter (\<lambda>r. pb_min_x r \<le> a \<and> b \<le> pb_max_x r) regions))"
  have col: "column regions x = merged" if "a \<le> x" "x < b" for x
    unfolding merged_def by (rule column_window[OF edges that, symmetric])
  have ok: "runs_ok (strip_runs strips)" and le: "\<forall>s\<in>set strips. rg_max_x s \<le> a"
    and at: "\<And>x. x < a \<Longrightarrow> run_at (strip_runs strips) x = column_label regions x" using inv by (auto simp: strips_inv_def)
  have after: "run_at (strip_runs strips) x = None" if "a \<le> x" for x
  proof (cases "run_at (strip_runs strips) x")
    case (Some l)
    then obtain lo hi where "(lo, hi, l) \<in> set (strip_runs strips)" "x < hi" using run_at_Some[OF Some] by blast
    then have "hi \<le> a" using le by (auto simp: strip_runs_def)
    with \<open>x < hi\<close> that show ?thesis by simp
  qed
  show ?thesis
  proof (cases "merged = []")
    case True
    have "run_at (strip_runs strips) x = column_label regions x" if "x < b" for x
      using at[of x] after[of x] col[of x] that True by (cases "x < a") (simp_all add: column_label_def)
    then show ?thesis using True ok le ab by (auto simp: strips_inv_def strip_step_def merged_def[symmetric])
  next
    case full: False
    show ?thesis
    proof (cases "strips \<noteq> [] \<and> rg_max_x (last strips) = a \<and> rg_y_intervals (last strips) = merged")
      case True
      then obtain init s where s: "strips = init @ [s]" "rg_max_x s = a" "rg_y_intervals s = merged"
        by (metis append_butlast_last_id)
      let ?new = "init @ [s\<lparr>rg_max_x := b\<rparr>]"
      have runs: "strip_runs strips = strip_runs init @ [(rg_min_x s, a, merged)]"
        "strip_runs ?new = strip_runs init @ [(rg_min_x s, b, merged)]" using s by (simp_all add: strip_runs_def)
      have ok': "runs_ok (strip_runs ?new)" using ok ab unfolding runs by (auto intro: runs_ok_lengthen)
      have "(rg_min_x s, a, merged) \<in> set (strip_runs strips)" by (simp add: runs)
      then have s_pos: "rg_min_x s < a"
        by (rule runs_ok_pos[OF ok])
      have "run_at (strip_runs ?new) x = column_label regions x" if "x < b" for x
      proof (cases "x < a")
        case x: True
        have "run_at (strip_runs ?new) x = run_at (strip_runs strips) x"
          using x ab unfolding runs run_at_append by (simp split: option.splits)
        then show ?thesis using at[OF x] by simp
      next
        case False
        have "run_at (strip_runs init) x = None" using after[of x] False unfolding runs run_at_append
          by (simp split: option.splits)
        then have "run_at (strip_runs ?new) x = Some merged"
          using False that s_pos unfolding runs run_at_append by simp
        then show ?thesis using col[of x] False that full by (simp add: column_label_def)
      qed
      moreover have "strip_step regions strips (a, b) = ?new"
        using True full s by (simp add: strip_step_def merged_def[symmetric])
      ultimately show ?thesis using ok' le s ab by (auto simp: strips_inv_def)
    next
      case False
      let ?new = "strips @ [\<lparr>rg_min_x = a, rg_max_x = b, rg_y_intervals = merged\<rparr>]"
      have runs: "strip_runs ?new = strip_runs strips @ [(a, b, merged)]" by (simp add: strip_runs_def)
      have ok': "runs_ok (strip_runs ?new)" unfolding runs
      proof (rule runs_ok_snoc[OF ok ab])
        fix lo hi m assume "strip_runs strips \<noteq> []" "last (strip_runs strips) = (lo, hi, m)"
        then have l: "strips \<noteq> []" "rg_max_x (last strips) = hi" "rg_y_intervals (last strips) = m"
          by (auto simp: strip_runs_def last_map)
        then have "hi \<le> a" using le by auto
        with l False show "hi \<le> a \<and> (hi = a \<longrightarrow> m \<noteq> merged)" by auto
      qed
      have "run_at (strip_runs ?new) x = column_label regions x" if "x < b" for x
        using at[of x] after[of x] col[of x] that full unfolding runs run_at_append
        by (cases "x < a") (auto simp: column_label_def split: option.splits)
      moreover have "strip_step regions strips (a, b) = ?new"
        using False full by (auto simp: strip_step_def merged_def[symmetric])
      ultimately show ?thesis using ok' le ab by (auto simp: strips_inv_def)
    qed
  qed
qed

lemma strip_fold_inv:
  "strips_inv regions e strips \<Longrightarrow> os_ok (e # es) \<Longrightarrow> \<forall>v\<in>edges_of regions. v \<le> e \<or> v \<in> set es
     \<Longrightarrow> strips_inv regions (last (e # es)) (foldl (strip_step regions) strips (zip (e # es) es))"
proof (induction es arbitrary: e strips)
  case (Cons e' es)
  have "strips_inv regions e' (strip_step regions strips (e, e'))"
    using Cons.prems by (intro strip_step_inv) (auto dest: less_imp_le)
  moreover have "\<forall>v\<in>edges_of regions. v \<le> e' \<or> v \<in> set es" using Cons.prems(2,3) by force
  ultimately have "strips_inv regions (last (e' # es))
      (foldl (strip_step regions) (strip_step regions strips (e, e')) (zip (e' # es) es))"
    using Cons.prems(2) by (intro Cons.IH) auto
  then show ?case by simp
qed simp

lemma os_ok_last: "os_ok xs \<Longrightarrow> v \<in> set xs \<Longrightarrow> v \<le> last xs"
  by (induction xs) (auto dest: less_imp_le)

lemma column_outside:
  assumes "\<And>r. r \<in> set regions \<Longrightarrow> x < pb_min_x r \<or> pb_max_x r \<le> x"
  shows "column_label regions x = None"
proof -
  have "filter (\<lambda>r. pb_min_x r \<le> x \<and> x < pb_max_x r) regions = []" using assms by (force simp: filter_empty_conv)
  then show ?thesis by (simp add: column_label_def column_def merge_intervals_def)
qed

text \<open>The strips are the maximal runs of equal nonempty columns.\<close>

lemma region_strips_runs:
  assumes solid: "\<forall>r\<in>set regions. solid r"
  shows "runs_ok (strip_runs (region_strips regions))"
    "run_at (strip_runs (region_strips regions)) x = column_label regions x"
proof -
  let ?es = "os_of (concat (map (\<lambda>r. [pb_min_x r, pb_max_x r]) regions))"
  have set_es: "set ?es = edges_of regions" by (auto simp: edges_of_def)
  have "runs_ok (strip_runs (region_strips regions)) \<and> run_at (strip_runs (region_strips regions)) x = column_label regions x"
  proof (cases ?es)
    case Nil
    then have "regions = []" using set_es by (cases regions) (auto simp: edges_of_def)
    then have "region_strips regions = []" by (simp add: region_strips_def os_of_def os_extend_def)
    then show ?thesis using \<open>regions = []\<close> by (simp add: strip_runs_def column_label_def column_def merge_intervals_def)
  next
    case (Cons e es)
    have ok: "os_ok (e # es)" by (metis Cons os_of_simps(2))
    have set_e: "edges_of regions = set (e # es)" using set_es by (simp add: Cons)
    have start: "strips_inv regions e []"
    proof -
      have "column_label regions x = None" if "x < e" for x
      proof (rule column_outside)
        fix r assume "r \<in> set regions"
        then have "pb_min_x r \<in> set (e # es)" unfolding set_e[symmetric] by (auto simp: edges_of_def)
        then have "e \<le> pb_min_x r" using ok by auto
        with that show "x < pb_min_x r \<or> pb_max_x r \<le> x" by simp
      qed
      then show ?thesis by (simp add: strips_inv_def strip_runs_def)
    qed
    have eq: "region_strips regions = foldl (strip_step regions) [] (zip (e # es) es)"
      by (simp add: region_strips_def Cons Let_def)
    have inv: "strips_inv regions (last (e # es)) (region_strips regions)"
      unfolding eq using set_e by (intro strip_fold_inv[OF start ok]) auto
    have "run_at (strip_runs (region_strips regions)) x = column_label regions x"
    proof (cases "x < last (e # es)")
      case True
      then show ?thesis using inv by (simp add: strips_inv_def)
    next
      case False
      have "column_label regions x = None"
      proof (rule column_outside)
        fix r assume "r \<in> set regions"
        then have "pb_max_x r \<in> set (e # es)" unfolding set_e[symmetric] by (auto simp: edges_of_def)
        moreover have "v \<le> last (e # es)" if "v \<in> set (e # es)" for v
          by (rule os_ok_last[OF ok that])
        ultimately show "x < pb_min_x r \<or> pb_max_x r \<le> x" using False by (auto simp: not_less intro: order_trans)
      qed
      moreover have "run_at (strip_runs (region_strips regions)) x = None"
      proof (cases "run_at (strip_runs (region_strips regions)) x")
        case (Some l)
        then obtain lo hi where "(lo, hi, l) \<in> set (strip_runs (region_strips regions))" "x < hi" using run_at_Some[OF Some] by blast
        then have "hi \<le> last (e # es)" using inv by (auto simp: strips_inv_def strip_runs_def)
        with \<open>x < hi\<close> False show ?thesis by simp
      qed
      ultimately show ?thesis by simp
    qed
    with inv show ?thesis by (simp add: strips_inv_def)
  qed
  then show "runs_ok (strip_runs (region_strips regions))"
    "run_at (strip_runs (region_strips regions)) x = column_label regions x" by simp_all
qed

section \<open>Rectangles again\<close>

definition points :: "pixel_bounds list \<Rightarrow> int \<Rightarrow> int \<Rightarrow> bool" where
  "points rs x y \<longleftrightarrow> (\<exists>r\<in>set rs. pb_contains r x y)"

lemma covered_column:
  assumes "\<forall>r\<in>set regions. solid r"
  shows "covered (column regions x) y \<longleftrightarrow> points regions x y"
proof -
  let ?ys = "map (\<lambda>r. (pb_min_y r, pb_max_y r)) (filter (\<lambda>r. pb_min_x r \<le> x \<and> x < pb_max_x r) regions)"
  have "\<forall>(lo, hi)\<in>set ?ys. lo < hi" using assms by (auto simp: solid_def)
  then have "covered (column regions x) = covered ?ys" by (simp add: column_def merge_intervals_ok(2))
  then show ?thesis by (auto simp: covered_def points_def pb_contains_def)
qed

lemma column_cong:
  assumes "\<forall>r\<in>set rs. solid r" "\<forall>r\<in>set ss. solid r" "\<And>y. points rs x y = points ss x y"
  shows "column rs x = column ss x"
proof -
  let ?ys = "\<lambda>rs. map (\<lambda>r. (pb_min_y r, pb_max_y r)) (filter (\<lambda>r. pb_min_x r \<le> x \<and> x < pb_max_x r) rs)"
  have pos: "\<forall>(lo, hi)\<in>set (?ys rs). lo < hi" "\<forall>(lo, hi)\<in>set (?ys ss). lo < hi"
    using assms(1,2) by (auto simp: solid_def)
  have "covered (?ys rs) = covered (?ys ss)"
  proof
    fix y
    have "covered (column rs x) y = covered (column ss x) y"
      using assms by (simp add: covered_column)
    then show "covered (?ys rs) y = covered (?ys ss) y"
      by (simp add: column_def merge_intervals_ok(2)[OF pos(1)] merge_intervals_ok(2)[OF pos(2)])
  qed
  then show ?thesis unfolding column_def by (simp only: merge_intervals_canonical[OF pos])
qed

text \<open>Regions with the same pixels have the same strips.\<close>

lemma region_strips_cong:
  assumes "\<forall>r\<in>set rs. solid r" "\<forall>r\<in>set ss. solid r" "points rs = points ss"
  shows "region_strips rs = region_strips ss"
proof -
  have "strip_runs (region_strips rs) = strip_runs (region_strips ss)"
    using column_cong[OF assms(1,2)] assms(3)
    by (intro runs_unique region_strips_runs(1)[OF assms(1)] region_strips_runs(1)[OF assms(2)])
      (simp add: region_strips_runs(2)[OF assms(1)] region_strips_runs(2)[OF assms(2)] column_label_def)
  moreover have "inj (\<lambda>s :: region_strip. (rg_min_x s, rg_max_x s, rg_y_intervals s))" by (auto simp: inj_def)
  ultimately show ?thesis unfolding strip_runs_def by (rule map_injective)
qed

definition strip_boxes :: "region_strip \<Rightarrow> pixel_bounds list" where
  "strip_boxes s = map (\<lambda>(lo, hi). \<lparr>pb_min_x = rg_min_x s, pb_min_y = lo, pb_max_x = rg_max_x s, pb_max_y = hi\<rparr>)
     (rg_y_intervals s)"

lemma strip_facts:
  assumes solid: "\<forall>r\<in>set regions. solid r" and s: "s \<in> set (region_strips regions)"
  shows "rg_min_x s < rg_max_x s" "runs_ok (as_runs (rg_y_intervals s))"
proof -
  have run: "(rg_min_x s, rg_max_x s, rg_y_intervals s) \<in> set (strip_runs (region_strips regions))"
    using s by (auto simp: strip_runs_def)
  show pos: "rg_min_x s < rg_max_x s" by (rule runs_ok_pos[OF region_strips_runs(1)[OF solid] run])
  have "run_at (strip_runs (region_strips regions)) (rg_min_x s) = Some (rg_y_intervals s)"
    using run_at_in[OF region_strips_runs(1)[OF solid] run] pos by simp
  then have "rg_y_intervals s = column regions (rg_min_x s)"
    by (simp add: region_strips_runs(2)[OF solid] column_label_def split: if_splits)
  moreover have "\<forall>(lo, hi)\<in>set (map (\<lambda>r. (pb_min_y r, pb_max_y r)) (filter (\<lambda>r. pb_min_x r \<le> rg_min_x s \<and> rg_min_x s < pb_max_x r) regions)). lo < hi"
    using solid by (auto simp: solid_def)
  ultimately show "runs_ok (as_runs (rg_y_intervals s))" by (simp add: column_def merge_intervals_ok(1))
qed

lemma as_runs_pos: "runs_ok (as_runs is) \<Longrightarrow> (lo, hi) \<in> set is \<Longrightarrow> lo < hi"
  by (rule runs_ok_pos[of "as_runs is" lo hi "()"]) (auto simp: as_runs_def)

lemma expect_all_map: "(\<And>x. x \<in> set xs \<Longrightarrow> f x = Inr (g x)) \<Longrightarrow> expect_all (map f xs) = Some (map g xs)"
  unfolding expect_all_def by (induction xs) auto

lemma expect_all_append:
  "expect_all rs = Some xs \<Longrightarrow> expect_all ss = Some ys \<Longrightarrow> expect_all (rs @ ss) = Some (xs @ ys)"
  unfolding expect_all_def by (induction rs arbitrary: xs) (auto split: option.splits sum.splits)

lemma normalize_boxes:
  assumes solid: "\<forall>r\<in>set regions. solid r"
  shows "expect_all (concat (map strip_rectangles (region_strips regions)))
    = Some (concat (map strip_boxes (region_strips regions)))"
proof -
  have one: "expect_all (strip_rectangles s) = Some (strip_boxes s)" if s: "s \<in> set (region_strips regions)" for s
    unfolding strip_rectangles_def strip_boxes_def
  proof (rule expect_all_map)
    fix i assume "i \<in> set (rg_y_intervals s)"
    then have "fst i < snd i" using as_runs_pos[OF strip_facts(2)[OF solid s], of "fst i" "snd i"] by simp
    then show "(case i of (min_y, max_y) \<Rightarrow> pb_new (rg_min_x s) min_y (rg_max_x s) max_y)
        = Inr (case i of (lo, hi) \<Rightarrow> \<lparr>pb_min_x = rg_min_x s, pb_min_y = lo, pb_max_x = rg_max_x s, pb_max_y = hi\<rparr>)"
      using strip_facts(1)[OF solid s] by (cases i) (simp add: pb_new_def)
  qed
  have "set ss \<subseteq> set (region_strips regions) \<Longrightarrow>
      expect_all (concat (map strip_rectangles ss)) = Some (concat (map strip_boxes ss))" for ss
  proof (induction ss)
    case (Cons s ss)
    then show ?case using expect_all_append[OF one] by simp
  qed (simp add: expect_all_def)
  then show ?thesis by simp
qed

lemma filter_solid: "\<forall>r\<in>set regions. pb_ok r \<Longrightarrow> \<forall>r\<in>set (filter (\<lambda>r. \<not> pb_is_empty r) regions). solid r"
  by (auto simp: pb_ok_def solid_def pb_is_empty_def)

lemma points_filter: "points (filter (\<lambda>r. \<not> pb_is_empty r) regions) = points regions"
  by (auto simp: points_def pb_is_empty_def pb_contains_def fun_eq_iff)

definition normal_form :: "pixel_bounds list \<Rightarrow> pixel_bounds list" where
  "normal_form regions = concat (map strip_boxes (region_strips (filter (\<lambda>r. \<not> pb_is_empty r) regions)))"

lemma normalize_result: "\<forall>r\<in>set regions. pb_ok r \<Longrightarrow> normalize_regions regions = Some (normal_form regions)"
proof -
  assume "\<forall>r\<in>set regions. pb_ok r"
  from normalize_boxes[OF filter_solid[OF this]] show ?thesis
    by (cases "filter (\<lambda>r. \<not> pb_is_empty r) regions")
      (simp_all add: normalize_regions_def normal_form_def region_strips_def os_of_def os_extend_def Let_def)
qed

lemma normal_form_solid:
  assumes "\<forall>r\<in>set regions. pb_ok r" "b \<in> set (normal_form regions)" shows "solid b"
proof -
  note solid = filter_solid[OF assms(1)]
  obtain s i where s: "s \<in> set (region_strips (filter (\<lambda>r. \<not> pb_is_empty r) regions))" "i \<in> set (rg_y_intervals s)"
    "b = \<lparr>pb_min_x = rg_min_x s, pb_min_y = fst i, pb_max_x = rg_max_x s, pb_max_y = snd i\<rparr>"
    using assms(2) by (auto simp: normal_form_def strip_boxes_def split: prod.splits)
  have "fst i < snd i" using as_runs_pos[OF strip_facts(2)[OF solid s(1)], of "fst i" "snd i"] s(2) by simp
  then show ?thesis using strip_facts(1)[OF solid s(1)] s(3) by (simp add: solid_def)
qed

lemma points_boxes: "points (strip_boxes s) x y \<longleftrightarrow> rg_min_x s \<le> x \<and> x < rg_max_x s \<and> covered (rg_y_intervals s) y"
  by (auto simp: points_def strip_boxes_def pb_contains_def covered_def split: prod.splits)

lemma normal_form_points:
  assumes "\<forall>r\<in>set regions. pb_ok r" shows "points (normal_form regions) = points regions"
proof (intro ext)
  fix x y
  let ?rs = "filter (\<lambda>r. \<not> pb_is_empty r) regions"
  let ?strips = "region_strips ?rs"
  note solid = filter_solid[OF assms]
  note ok = region_strips_runs(1)[OF solid]
  have "points (normal_form regions) x y \<longleftrightarrow> (\<exists>s\<in>set ?strips. points (strip_boxes s) x y)"
    by (auto simp: normal_form_def points_def)
  also have "\<dots> \<longleftrightarrow> (\<exists>l. run_at (strip_runs ?strips) x = Some l \<and> covered l y)"
  proof
    assume "\<exists>s\<in>set ?strips. points (strip_boxes s) x y"
    then obtain s where s: "s \<in> set ?strips" "rg_min_x s \<le> x" "x < rg_max_x s" "covered (rg_y_intervals s) y"
      by (auto simp: points_boxes)
    then have "(rg_min_x s, rg_max_x s, rg_y_intervals s) \<in> set (strip_runs ?strips)" by (auto simp: strip_runs_def)
    from run_at_in[OF ok this s(2,3)] s(4) show "\<exists>l. run_at (strip_runs ?strips) x = Some l \<and> covered l y" by blast
  next
    assume "\<exists>l. run_at (strip_runs ?strips) x = Some l \<and> covered l y"
    then obtain l where l: "run_at (strip_runs ?strips) x = Some l" "covered l y" by blast
    then obtain lo hi where "(lo, hi, l) \<in> set (strip_runs ?strips)" "lo \<le> x" "x < hi" using run_at_Some[OF l(1)] by blast
    then show "\<exists>s\<in>set ?strips. points (strip_boxes s) x y" using l(2) by (force simp: strip_runs_def points_boxes)
  qed
  also have "\<dots> \<longleftrightarrow> points ?rs x y"
    using covered_column[OF solid, of x y] by (auto simp: region_strips_runs(2)[OF solid] column_label_def)
  finally show "points (normal_form regions) x y = points regions x y" by (simp add: points_filter)
qed

lemma normal_form_cong:
  "\<forall>r\<in>set rs. pb_ok r \<Longrightarrow> \<forall>r\<in>set ss. pb_ok r \<Longrightarrow> points rs = points ss \<Longrightarrow> normal_form rs = normal_form ss"
  unfolding normal_form_def using region_strips_cong[OF filter_solid filter_solid, of rs ss] by (simp add: points_filter)

text \<open>No pixel lies in two of the rectangles.\<close>

definition apart :: "pixel_bounds \<Rightarrow> pixel_bounds \<Rightarrow> bool" where
  "apart a b \<longleftrightarrow> \<not> (\<exists>x y. pb_contains a x y \<and> pb_contains b x y)"

lemma strip_boxes_apart: "runs_ok (as_runs (rg_y_intervals s)) \<Longrightarrow> sorted_wrt apart (strip_boxes s)"
proof -
  have "runs_ok (as_runs is) \<Longrightarrow> sorted_wrt apart
      (map (\<lambda>(lo, hi). \<lparr>pb_min_x = a, pb_min_y = lo, pb_max_x = b, pb_max_y = hi\<rparr>) is)" for a b "is"
  proof (induction "is")
    case (Cons i "is")
    obtain lo hi where i: "i = (lo, hi)" by (cases i)
    have ok: "runs_ok ((lo, hi, ()) # as_runs is)" using Cons.prems by (simp add: i as_runs_def)
    have "hi \<le> lo'" if "(lo', hi') \<in> set is" for lo' hi'
      using runs_ok_after[OF ok, of lo' hi' "()"] that by (force simp: as_runs_def)
    then have "apart \<lparr>pb_min_x = a, pb_min_y = lo, pb_max_x = b, pb_max_y = hi\<rparr>
        \<lparr>pb_min_x = a, pb_min_y = fst j, pb_max_x = b, pb_max_y = snd j\<rparr>" if "j \<in> set is" for j
      using that by (cases j) (force simp: apart_def pb_contains_def)
    then show ?case using Cons.IH runs_ok_tail[OF ok] by (auto simp: i)
  qed simp
  then show "runs_ok (as_runs (rg_y_intervals s)) \<Longrightarrow> sorted_wrt apart (strip_boxes s)" by (simp add: strip_boxes_def)
qed

lemma strips_apart:
  "runs_ok (strip_runs strips) \<Longrightarrow> \<forall>s\<in>set strips. runs_ok (as_runs (rg_y_intervals s))
     \<Longrightarrow> sorted_wrt apart (concat (map strip_boxes strips))"
proof (induction strips)
  case (Cons s strips)
  have ok: "runs_ok ((rg_min_x s, rg_max_x s, rg_y_intervals s) # strip_runs strips)"
    using Cons.prems(1) by (simp add: strip_runs_def)
  have "rg_max_x s \<le> rg_min_x t" if "t \<in> set strips" for t
    using runs_ok_after[OF ok, of "rg_min_x t" "rg_max_x t" "rg_y_intervals t"] that by (auto simp: strip_runs_def)
  then have "\<forall>a\<in>set (strip_boxes s). \<forall>b\<in>set (concat (map strip_boxes strips)). apart a b"
    by (fastforce simp: strip_boxes_def apart_def pb_contains_def)
  then show ?case using Cons.IH[OF runs_ok_tail[OF ok]] Cons.prems(2) strip_boxes_apart[of s]
    by (simp add: sorted_wrt_append)
qed simp

lemma normal_form_apart: "\<forall>r\<in>set regions. pb_ok r \<Longrightarrow> sorted_wrt apart (normal_form regions)"
  unfolding normal_form_def
  by (intro strips_apart region_strips_runs(1) filter_solid ballI strip_facts(2)[OF filter_solid]) simp_all

end
