(* ===== verification/Invalidation.thy ===== *)
theory Invalidation
  imports DagProps RegionLaws
begin

text \<open>
  \<open>superi-graph/src/invalidation.rs\<close>: the propagation of dirty regions through a graph, node by node
  in topological order. The mapping of regions across an edge is the caller's; its error ends the
  propagation. The outer option is the panic of an \<open>expect\<close>.
\<close>

section \<open>Propagation\<close>

record invalidation_seed =
  is_node_id :: node_id
  is_dirty_regions :: dirty_region_set

definition seed_from_region :: "node_id \<Rightarrow> dirty_region \<Rightarrow> invalidation_seed option" where
  "seed_from_region n region =
     map_option (\<lambda>d. \<lparr>is_node_id = n, is_dirty_regions = d\<rparr>) (dirty_from_region region)"

type_synonym invalidation_plan = "(node_id \<times> dirty_region_set) list"

type_synonym 'n edge_map = "'n dag \<Rightarrow> graph_edge \<Rightarrow> dirty_region_set \<Rightarrow> dirty_region_set result"

definition unknown_seed_error :: "'n dag \<Rightarrow> node_id \<Rightarrow> error_value" where
  "unknown_seed_error g n =
     err_with_context (err_new NotFound UserCorrectable ''invalidation seed node does not exist'')
       (ctx_with_field (ctx_with_field (ctx_new ''superi-graph.invalidation'' ''propagate_invalidation'')
         ''graph_id'' (id_display GraphKind (dg_id g))) ''node_id'' (id_display NodeKind n))"

lemma unknown_seed_error_cong [cong]: "unknown_seed_error g n = unknown_seed_error g n"
  by (rule refl)

definition map_edge_context :: "'n dag \<Rightarrow> graph_edge \<Rightarrow> error_context" where
  "map_edge_context g e =
     fold (\<lambda>(key, val) x. ctx_with_field x key val)
       [(''graph_id'', id_display GraphKind (dg_id g)), (''edge_id'', id_display EdgeKind (gd_id e)),
        (''source_node_id'', id_display NodeKind (ge_node_id (gd_source e))),
        (''destination_node_id'', id_display NodeKind (ge_node_id (gd_destination e)))]
       (ctx_new ''superi-graph.invalidation'' ''map_dirty_edge'')"

text \<open>A node's entry, made empty when it is missing, united with more.\<close>

type_synonym dirty_map = "(node_id \<times> dirty_region_set) list"

definition dirty_of :: "dirty_map \<Rightarrow> node_id \<Rightarrow> dirty_region_set" where
  "dirty_of m n = (case map_of m n of None \<Rightarrow> dirty_empty | Some d \<Rightarrow> d)"

definition mark_dirty :: "node_id \<Rightarrow> dirty_region_set \<Rightarrow> dirty_map \<Rightarrow> dirty_map option" where
  "mark_dirty n d m = map_option (\<lambda>u. om_insert n u m) (dirty_union_with (dirty_of m n) d)"

fun mark_seeds :: "invalidation_seed list \<Rightarrow> dirty_map \<Rightarrow> dirty_map option" where
  "mark_seeds [] m = Some m"
| "mark_seeds (s # seeds) m = Option.bind (mark_dirty (is_node_id s) (is_dirty_regions s) m) (mark_seeds seeds)"

text \<open>The loop over the outgoing edges of one dirty node.\<close>

fun spread_edges ::
  "'n edge_map \<Rightarrow> 'n dag \<Rightarrow> dirty_region_set \<Rightarrow> edge_id list \<Rightarrow> dirty_map \<Rightarrow> dirty_map result option" where
  "spread_edges map_edge g d [] m = Some (Inr m)"
| "spread_edges map_edge g d (i # es) m =
     (case map_of (dg_edges g) i of
        None \<Rightarrow> None
      | Some e \<Rightarrow>
          (case map_edge g e d of
             Inl err \<Rightarrow> Some (Inl (err_push_context err (map_edge_context g e)))
           | Inr mapped \<Rightarrow>
               if dirty_is_empty mapped then spread_edges map_edge g d es m
               else Option.bind (mark_dirty (ge_node_id (gd_destination e)) mapped m) (spread_edges map_edge g d es)))"

text \<open>The loop over the nodes in topological order.\<close>

fun spread_nodes ::
  "'n edge_map \<Rightarrow> 'n dag \<Rightarrow> node_id list \<Rightarrow> dirty_map \<Rightarrow> invalidation_plan \<Rightarrow> invalidation_plan result option" where
  "spread_nodes map_edge g [] m plan = Some (Inr plan)"
| "spread_nodes map_edge g (n # ns) m plan =
     (case map_of m n of
        None \<Rightarrow> spread_nodes map_edge g ns m plan
      | Some d \<Rightarrow>
          if dirty_is_empty d then spread_nodes map_edge g ns m plan
          else
          (case map_of (dg_outgoing g) n of
             None \<Rightarrow> None
           | Some es \<Rightarrow>
               (case spread_edges map_edge g d es m of
                  None \<Rightarrow> None
                | Some (Inl e) \<Rightarrow> Some (Inl e)
                | Some (Inr m) \<Rightarrow> spread_nodes map_edge g ns m (plan @ [(n, d)]))))"

definition propagate_invalidation_with ::
  "'n edge_map \<Rightarrow> 'n dag \<Rightarrow> invalidation_seed list \<Rightarrow> invalidation_plan result option" where
  "propagate_invalidation_with map_edge g seeds =
     (case find (\<lambda>s. \<not> om_has (dg_nodes g) (is_node_id s)) seeds of
        Some s \<Rightarrow> Some (Inl (unknown_seed_error g (is_node_id s)))
      | None \<Rightarrow>
          Option.bind (mark_seeds seeds []) (\<lambda>m.
          Option.bind (topological_order g) (\<lambda>order. spread_nodes map_edge g order m [])))"

definition propagate_dependency_invalidation ::
  "'n dag \<Rightarrow> invalidation_seed list \<Rightarrow> invalidation_plan result option" where
  "propagate_dependency_invalidation g seeds = propagate_invalidation_with (\<lambda>_ _ dirty. Inr dirty) g seeds"

definition plan_dirty_regions :: "invalidation_plan \<Rightarrow> node_id \<Rightarrow> dirty_region_set option" where
  "plan_dirty_regions plan n = map_option snd (find (\<lambda>(m, _). m = n) plan)"

definition plan_requested_work :: "invalidation_plan \<Rightarrow> node_id \<Rightarrow> pixel_bounds \<Rightarrow> dirty_region_set option" where
  "plan_requested_work plan n requested =
     (case plan_dirty_regions plan n of None \<Rightarrow> Some dirty_empty | Some d \<Rightarrow> dirty_clip_to d requested)"

end
