(* ===== verification/InvalidationProps.thy ===== *)
theory InvalidationProps
  imports Invalidation
begin

text \<open>
  The properties of invalidation: normalization is exact and canonical, the operations on dirty sets
  are the operations on sets of pixels, and the propagation computes the solution of the dataflow
  equations of the graph: what is dirty at a node is what was seeded there and what its inputs pass
  on.
\<close>

section \<open>Dirty sets\<close>

definition dirty_at :: "dirty_region_set \<Rightarrow> int \<Rightarrow> int \<Rightarrow> bool" where
  "dirty_at d x y \<longleftrightarrow> dr_full_frame d \<or> points (dr_regions d) x y"

definition dirty_ok :: "dirty_region_set \<Rightarrow> bool" where
  "dirty_ok d \<longleftrightarrow> (\<forall>r\<in>set (dr_regions d). pb_ok r) \<and> (if dr_full_frame d then dr_regions d = [] else normal_form (dr_regions d) = dr_regions d)"

lemma solid_ok: "solid r \<Longrightarrow> pb_ok r"
  by (simp add: solid_def pb_ok_def)

lemma points_append: "points (rs @ ss) x y \<longleftrightarrow> points rs x y \<or> points ss x y"
  by (auto simp: points_def)

lemma normal_form_idem: "\<forall>r\<in>set rs. pb_ok r \<Longrightarrow> normal_form (normal_form rs) = normal_form rs"
  by (rule normal_form_cong) (auto simp: normal_form_points intro: solid_ok normal_form_solid)

lemma dirty_ok_normal: "\<forall>r\<in>set rs. pb_ok r \<Longrightarrow> dirty_ok \<lparr>dr_full_frame = False, dr_regions = normal_form rs\<rparr>"
  by (auto simp: dirty_ok_def normal_form_idem intro: solid_ok normal_form_solid)

lemma dirty_ok_simps [simp]: "dirty_ok dirty_empty" "dirty_ok dirty_full_frame"
  by (simp_all add: dirty_ok_def dirty_empty_def dirty_full_frame_def normal_form_def region_strips_def os_of_def os_extend_def)

lemma dirty_at_simps [simp]: "\<not> dirty_at dirty_empty x y" "dirty_at dirty_full_frame x y"
  by (simp_all add: dirty_at_def dirty_empty_def dirty_full_frame_def points_def)

lemma dirty_ok_solid: "dirty_ok d \<Longrightarrow> r \<in> set (dr_regions d) \<Longrightarrow> solid r"
  unfolding dirty_ok_def by (metis list.set(1) empty_iff normal_form_solid)

lemma dirty_is_empty_iff: "dirty_ok d \<Longrightarrow> dirty_is_empty d \<longleftrightarrow> (\<forall>x y. \<not> dirty_at d x y)"
proof -
  assume ok: "dirty_ok d"
  have "dirty_at d (pb_min_x r) (pb_min_y r)" if "r \<in> set (dr_regions d)" for r
    using dirty_ok_solid[OF ok that] that by (auto simp: dirty_at_def points_def pb_contains_def solid_def)
  then show ?thesis by (cases "dr_regions d") (auto simp: dirty_is_empty_def dirty_at_def points_def)
qed

text \<open>Finite regions never cover everything, so the pixels determine the set.\<close>

lemma max_edge: "\<exists>x. \<forall>r\<in>set rs. pb_max_x r \<le> x"
proof (induction rs)
  case (Cons r rs)
  then obtain x where "\<forall>r\<in>set rs. pb_max_x r \<le> x" by blast
  then show ?case by (intro exI[of _ "max x (pb_max_x r)"]) auto
qed simp

lemma points_bounded: "\<exists>x. \<forall>y. \<not> points rs x y"
proof -
  obtain x where "\<forall>r\<in>set rs. pb_max_x r \<le> x" using max_edge by blast
  then show ?thesis by (intro exI[of _ x]) (force simp: points_def pb_contains_def)
qed

lemma dirty_ext:
  assumes "dirty_ok d" "dirty_ok e" "\<And>x y. dirty_at d x y = dirty_at e x y" shows "d = e"
proof -
  have full: "dr_full_frame d = dr_full_frame e"
    using points_bounded[of "dr_regions d"] points_bounded[of "dr_regions e"] assms(3) unfolding dirty_at_def by metis
  have "dr_regions d = dr_regions e"
  proof (cases "dr_full_frame d")
    case True
    then show ?thesis using assms(1,2) full by (simp add: dirty_ok_def)
  next
    case False
    have "points (dr_regions d) = points (dr_regions e)" using assms(3) False full by (simp add: dirty_at_def fun_eq_iff)
    then have "normal_form (dr_regions d) = normal_form (dr_regions e)"
      using assms(1,2) by (intro normal_form_cong) (simp_all add: dirty_ok_def)
    then show ?thesis using assms(1,2) False full by (simp add: dirty_ok_def)
  qed
  with full show ?thesis by simp
qed

lemma dirty_union:
  assumes "dirty_ok d" "dirty_ok e"
  shows "\<exists>u. dirty_union_with d e = Some u \<and> dirty_ok u \<and> (\<forall>x y. dirty_at u x y \<longleftrightarrow> dirty_at d x y \<or> dirty_at e x y)"
proof (cases "dr_full_frame d \<or> dirty_is_empty e")
  case True
  then show ?thesis using assms dirty_is_empty_iff[OF assms(2)] by (auto simp: dirty_union_with_def dirty_at_def)
next
  case False
  show ?thesis
  proof (cases "dr_full_frame e")
    case True
    then show ?thesis using False by (simp add: dirty_union_with_def dirty_at_def dirty_ok_def)
  next
    case fin: False
    have ok: "\<forall>r\<in>set (dr_regions d @ dr_regions e). pb_ok r" using assms by (auto simp: dirty_ok_def)
    have full: "dr_full_frame d = False" using False by simp
    have "d\<lparr>dr_regions := normal_form (dr_regions d @ dr_regions e)\<rparr>
        = \<lparr>dr_full_frame = False, dr_regions = normal_form (dr_regions d @ dr_regions e)\<rparr>" using full by simp
    then have "dirty_union_with d e = Some \<lparr>dr_full_frame = False, dr_regions = normal_form (dr_regions d @ dr_regions e)\<rparr>"
      using False fin normalize_result[OF ok] by (simp add: dirty_union_with_def)
    then show ?thesis using dirty_ok_normal[OF ok] False fin normal_form_points[OF ok]
      by (auto simp: dirty_at_def points_append)
  qed
qed

definition region_at :: "dirty_region \<Rightarrow> int \<Rightarrow> int \<Rightarrow> bool" where
  "region_at region x y = (case region of FullFrame \<Rightarrow> True | Bounds b \<Rightarrow> pb_contains b x y)"

lemma dirty_insert_ok:
  assumes "dirty_ok d" "\<And>b. region = Bounds b \<Longrightarrow> pb_ok b"
  shows "\<exists>u. dirty_insert d region = Some u \<and> dirty_ok u \<and> (\<forall>x y. dirty_at u x y \<longleftrightarrow> dirty_at d x y \<or> region_at region x y)"
proof (cases region)
  case FullFrame
  then show ?thesis by (simp add: dirty_insert_def dirty_ok_def dirty_at_def region_at_def)
next
  case (Bounds b)
  show ?thesis
  proof (cases "\<not> dr_full_frame d \<and> \<not> pb_is_empty b")
    case True
    have ok: "\<forall>r\<in>set (dr_regions d @ [b]). pb_ok r" using assms Bounds by (auto simp: dirty_ok_def)
    let ?u = "\<lparr>dr_full_frame = False, dr_regions = normal_form (dr_regions d @ [b])\<rparr>"
    have "d\<lparr>dr_regions := normal_form (dr_regions d @ [b])\<rparr> = ?u" using True by simp
    then have run: "dirty_insert d region = Some ?u"
      using Bounds True normalize_result[OF ok] by (simp add: dirty_insert_def)
    have "dirty_at ?u x y \<longleftrightarrow> dirty_at d x y \<or> region_at region x y" for x y
      using True normal_form_points[OF ok] by (simp add: dirty_at_def points_append region_at_def Bounds) (simp add: points_def)
    then show ?thesis using run dirty_ok_normal[OF ok] by blast
  next
    case False
    then have "\<not> dr_full_frame d \<Longrightarrow> \<not> pb_contains b x y" for x y by (auto simp: pb_is_empty_def pb_contains_def)
    then show ?thesis using Bounds False assms(1) by (auto simp: dirty_insert_def dirty_at_def region_at_def)
  qed
qed

lemma pb_intersection_contains:
  "pb_contains a x y \<and> pb_contains b x y \<longleftrightarrow> (\<exists>c. pb_intersection a b = Some c \<and> pb_contains c x y)"
  by (auto simp: pb_intersection_def pb_contains_def Let_def)

lemma pb_intersection_ok: "pb_intersection a b = Some c \<Longrightarrow> pb_ok c"
  by (auto simp: pb_intersection_def pb_ok_def Let_def split: if_splits)

lemma points_clip:
  "points (List.map_filter (\<lambda>region. pb_intersection region b) rs) x y \<longleftrightarrow> points rs x y \<and> pb_contains b x y"
proof (induction rs)
  case (Cons r rs)
  have "points (case c of None \<Rightarrow> ss | Some c \<Rightarrow> c # ss) x y \<longleftrightarrow> (\<exists>k. c = Some k \<and> pb_contains k x y) \<or> points ss x y" for c ss
    by (auto simp: points_def split: option.split)
  moreover have "points (r # rs) x y \<longleftrightarrow> pb_contains r x y \<or> points rs x y" by (auto simp: points_def)
  ultimately show ?case using Cons.IH pb_intersection_contains[of r x y b] by (auto simp: List.map_filter_simps(1))
qed (simp add: List.map_filter_simps points_def)

lemma dirty_clip_ok:
  assumes "dirty_ok d" "pb_ok b"
  shows "\<exists>u. dirty_clip_to d b = Some u \<and> dirty_ok u \<and> (\<forall>x y. dirty_at u x y \<longleftrightarrow> dirty_at d x y \<and> pb_contains b x y)"
proof (cases "pb_is_empty b \<or> dirty_is_empty d")
  case True
  then have "\<not> (dirty_at d x y \<and> pb_contains b x y)" for x y
    using dirty_is_empty_iff[OF assms(1)] by (auto simp: pb_is_empty_def pb_contains_def)
  then show ?thesis using True by (simp add: dirty_clip_to_def)
next
  case False
  show ?thesis
  proof (cases "dr_full_frame d")
    case True
    then show ?thesis using False dirty_insert_ok[of dirty_empty "Bounds b"] assms(2)
      by (auto simp: dirty_clip_to_def dirty_from_region_def dirty_at_def[of d] region_at_def)
  next
    case fin: False
    let ?rs = "List.map_filter (\<lambda>region. pb_intersection region b) (dr_regions d)"
    have ok: "\<forall>r\<in>set ?rs. pb_ok r" by (auto simp: List.map_filter_def intro: pb_intersection_ok)
    have "points ?rs x y \<longleftrightarrow> points (dr_regions d) x y \<and> pb_contains b x y" for x y
      by (rule points_clip)
    then show ?thesis using False fin normalize_result[OF ok] dirty_ok_normal[OF ok] normal_form_points[OF ok]
      by (simp add: dirty_clip_to_def dirty_at_def)
  qed
qed

text \<open>
  C27: Normalization of valid rectangles never panics and is canonical: the result has exactly the
  pixels of the input, its rectangles are nonempty and no two share a pixel, and two inputs give
  the same list exactly when they have the same pixels.
\<close>

theorem normalization_canonical:
  assumes "\<forall>r\<in>set rs. pb_ok r" "\<forall>r\<in>set ss. pb_ok r"
  shows "\<exists>ns. normalize_regions rs = Some ns
    \<and> (\<forall>x y. (\<exists>r\<in>set ns. pb_contains r x y) \<longleftrightarrow> (\<exists>r\<in>set rs. pb_contains r x y))
    \<and> (\<forall>r\<in>set ns. \<not> pb_is_empty r)
    \<and> sorted_wrt (\<lambda>a b. \<not> (\<exists>x y. pb_contains a x y \<and> pb_contains b x y)) ns
    \<and> (normalize_regions ss = Some ns \<longleftrightarrow> (\<forall>x y. (\<exists>r\<in>set rs. pb_contains r x y) \<longleftrightarrow> (\<exists>r\<in>set ss. pb_contains r x y)))"
proof (intro exI[of _ "normal_form rs"] conjI)
  show "normalize_regions rs = Some (normal_form rs)" by (rule normalize_result[OF assms(1)])
  show "\<forall>x y. (\<exists>r\<in>set (normal_form rs). pb_contains r x y) \<longleftrightarrow> (\<exists>r\<in>set rs. pb_contains r x y)"
    using normal_form_points[OF assms(1)] by (simp add: points_def fun_eq_iff)
  show "\<forall>r\<in>set (normal_form rs). \<not> pb_is_empty r"
    using normal_form_solid[OF assms(1)] by (fastforce simp: solid_def pb_is_empty_def)
  show "sorted_wrt (\<lambda>a b. \<not> (\<exists>x y. pb_contains a x y \<and> pb_contains b x y)) (normal_form rs)"
    using normal_form_apart[OF assms(1)] by (simp add: apart_def[abs_def])
  have "normal_form ss = normal_form rs \<longleftrightarrow> points rs = points ss"
    using normal_form_cong[OF assms] normal_form_points[OF assms(1)] normal_form_points[OF assms(2)] by metis
  then show "normalize_regions ss = Some (normal_form rs)
      \<longleftrightarrow> (\<forall>x y. (\<exists>r\<in>set rs. pb_contains r x y) \<longleftrightarrow> (\<exists>r\<in>set ss. pb_contains r x y))"
    by (simp add: normalize_result[OF assms(2)] points_def fun_eq_iff)
qed

theorem normalization_canonical_witness:
  "normalize_regions [\<lparr>pb_min_x = 0, pb_min_y = 0, pb_max_x = 4, pb_max_y = 2\<rparr>, \<lparr>pb_min_x = 0, pb_min_y = 2, pb_max_x = 4, pb_max_y = 3\<rparr>]
     = Some [\<lparr>pb_min_x = 0, pb_min_y = 0, pb_max_x = 4, pb_max_y = 3\<rparr>]
   \<and> ((\<exists>r\<in>set [\<lparr>pb_min_x = 0, pb_min_y = 0, pb_max_x = 4, pb_max_y = 2\<rparr>, \<lparr>pb_min_x = 0, pb_min_y = 2, pb_max_x = 4, pb_max_y = 3\<rparr>]. pb_contains r 3 2)
      \<longleftrightarrow> pb_contains \<lparr>pb_min_x = 0, pb_min_y = 0, pb_max_x = 4, pb_max_y = 3\<rparr> 3 2)"
  (is "normalize_regions ?rs = Some [?r] \<and> _")
proof -
  have "normalize_regions ?rs = Some [?r]" by code_simp
  moreover have "\<forall>r\<in>set ?rs. pb_ok r" by (simp add: pb_ok_def)
  ultimately show ?thesis using normalization_canonical[of ?rs ?rs] by fastforce
qed

section \<open>Marking\<close>

definition marks_ok :: "dirty_map \<Rightarrow> bool" where
  "marks_ok m \<longleftrightarrow> om_ok m \<and> (\<forall>n. dirty_ok (dirty_of m n))"

lemma mark_dirty_ok:
  assumes "marks_ok m" "dirty_ok d"
  shows "\<exists>m'. mark_dirty n d m = Some m' \<and> marks_ok m'
    \<and> (\<forall>k x y. dirty_at (dirty_of m' k) x y \<longleftrightarrow> dirty_at (dirty_of m k) x y \<or> k = n \<and> dirty_at d x y)
    \<and> (\<forall>k. k \<noteq> n \<longrightarrow> dirty_of m' k = dirty_of m k)"
proof -
  obtain u where u: "dirty_union_with (dirty_of m n) d = Some u" "dirty_ok u"
    "\<forall>x y. dirty_at u x y \<longleftrightarrow> dirty_at (dirty_of m n) x y \<or> dirty_at d x y"
    using dirty_union[of "dirty_of m n" d] assms by (auto simp: marks_ok_def)
  have of: "dirty_of (om_insert n u m) k = (if k = n then u else dirty_of m k)" for k
    using assms(1) by (simp add: dirty_of_def marks_ok_def)
  show ?thesis using u assms(1) by (auto simp: mark_dirty_def of marks_ok_def)
qed

lemma mark_seeds_ok:
  "marks_ok m \<Longrightarrow> \<forall>s\<in>set seeds. dirty_ok (is_dirty_regions s) \<Longrightarrow>
     \<exists>m'. mark_seeds seeds m = Some m' \<and> marks_ok m'
       \<and> (\<forall>k x y. dirty_at (dirty_of m' k) x y \<longleftrightarrow> dirty_at (dirty_of m k) x y
            \<or> (\<exists>s\<in>set seeds. is_node_id s = k \<and> dirty_at (is_dirty_regions s) x y))"
proof (induction seeds arbitrary: m)
  case Nil
  then show ?case by simp
next
  case (Cons s seeds)
  obtain m1 where m1: "mark_dirty (is_node_id s) (is_dirty_regions s) m = Some m1" "marks_ok m1"
    "\<forall>k x y. dirty_at (dirty_of m1 k) x y \<longleftrightarrow> dirty_at (dirty_of m k) x y \<or> k = is_node_id s \<and> dirty_at (is_dirty_regions s) x y"
    using mark_dirty_ok[OF Cons.prems(1), of "is_dirty_regions s" "is_node_id s"] Cons.prems(2) by auto
  from Cons.IH[OF m1(2)] Cons.prems(2) m1(1,3) show ?case by auto
qed

text \<open>What the edges \<open>es\<close> of a node with dirty set \<open>d\<close> pass to a node.\<close>

definition passes :: "'n edge_map \<Rightarrow> 'n dag \<Rightarrow> dirty_region_set \<Rightarrow> edge_id \<Rightarrow> node_id \<Rightarrow> int \<Rightarrow> int \<Rightarrow> bool" where
  "passes map_edge g d i k x y \<longleftrightarrow> (\<exists>e mapped. map_of (dg_edges g) i = Some e \<and> ge_node_id (gd_destination e) = k
     \<and> map_edge g e d = Inr mapped \<and> dirty_at mapped x y)"

text \<open>The client's edge map may fail, but a set it returns is canonical, as every set of the program is.\<close>

definition edge_map_ok :: "'n edge_map \<Rightarrow> 'n dag \<Rightarrow> bool" where
  "edge_map_ok map_edge g \<longleftrightarrow> (\<forall>i e d mapped. map_of (dg_edges g) i = Some e \<longrightarrow> dirty_ok d \<longrightarrow>
     map_edge g e d = Inr mapped \<longrightarrow> dirty_ok mapped)"

definition edge_fails :: "'n edge_map \<Rightarrow> 'n dag \<Rightarrow> dirty_region_set \<Rightarrow> edge_id \<Rightarrow> error_value \<Rightarrow> bool" where
  "edge_fails map_edge g d i err \<longleftrightarrow> (\<exists>e failure. map_of (dg_edges g) i = Some e \<and> map_edge g e d = Inl failure
     \<and> err = err_push_context failure (map_edge_context g e))"

lemma spread_edges_ok:
  "edge_map_ok map_edge g \<Longrightarrow> dirty_ok d \<Longrightarrow> \<forall>i\<in>set es. map_of (dg_edges g) i \<noteq> None \<Longrightarrow> marks_ok m \<Longrightarrow>
     case spread_edges map_edge g d es m of
       None \<Rightarrow> False
     | Some (Inl err) \<Rightarrow> \<exists>i\<in>set es. edge_fails map_edge g d i err
     | Some (Inr m') \<Rightarrow> marks_ok m' \<and> (\<forall>i\<in>set es. \<forall>err. \<not> edge_fails map_edge g d i err)
       \<and> (\<forall>k x y. dirty_at (dirty_of m' k) x y \<longleftrightarrow> dirty_at (dirty_of m k) x y \<or> (\<exists>i\<in>set es. passes map_edge g d i k x y))"
proof (induction es arbitrary: m)
  case (Cons i es)
  obtain e where e: "map_of (dg_edges g) i = Some e" using Cons.prems(3) by auto
  note IH = Cons.IH[OF Cons.prems(1,2)]
  show ?case
  proof (cases "map_edge g e d")
    case (Inl failure)
    then show ?thesis using e by (simp add: edge_fails_def)
  next
    case (Inr mapped)
    then have ok: "dirty_ok mapped" using Cons.prems(1,2) e unfolding edge_map_ok_def by blast
    let ?k = "ge_node_id (gd_destination e)"
    have pass: "passes map_edge g d i k x y \<longleftrightarrow> k = ?k \<and> dirty_at mapped x y" for k x y
      using e Inr by (auto simp: passes_def)
    have fine: "\<not> edge_fails map_edge g d i err" for err using e Inr by (simp add: edge_fails_def)
    show ?thesis
    proof (cases "dirty_is_empty mapped")
      case True
      then have "\<not> passes map_edge g d i k x y" for k x y using pass dirty_is_empty_iff[OF ok] by blast
      then show ?thesis using True e Inr fine IH[OF _ Cons.prems(4)] Cons.prems(3)
        by (auto split: option.splits sum.splits)
    next
      case False
      obtain m1 where m1: "mark_dirty ?k mapped m = Some m1" "marks_ok m1"
        "\<forall>k x y. dirty_at (dirty_of m1 k) x y \<longleftrightarrow> dirty_at (dirty_of m k) x y \<or> k = ?k \<and> dirty_at mapped x y"
        using mark_dirty_ok[OF Cons.prems(4) ok, of ?k] by auto
      then show ?thesis using False e Inr fine IH[OF _ m1(2)] Cons.prems(3)
        by (auto simp: pass split: option.splits sum.splits)
    qed
  qed
qed simp

lemma spread_edges_keeps:
  assumes "edge_map_ok map_edge g" "dirty_ok d" "\<forall>i\<in>set es. map_of (dg_edges g) i \<noteq> None" "marks_ok m"
    "spread_edges map_edge g d es m = Some (Inr m')" "\<forall>i\<in>set es. \<forall>e. map_of (dg_edges g) i = Some e \<longrightarrow> edge_to e \<noteq> k"
  shows "dirty_of m' k = dirty_of m k"
proof -
  have m': "marks_ok m'" "\<forall>x y. dirty_at (dirty_of m' k) x y \<longleftrightarrow> dirty_at (dirty_of m k) x y \<or> (\<exists>i\<in>set es. passes map_edge g d i k x y)"
    using spread_edges_ok[OF assms(1-4)] assms(5) by simp_all
  moreover have "\<not> (\<exists>i\<in>set es. passes map_edge g d i k x y)" for x y using assms(6) by (auto simp: passes_def)
  ultimately show ?thesis using assms(4) by (intro dirty_ext) (auto simp: marks_ok_def)
qed

section \<open>The whole propagation\<close>

text \<open>The nodes \<open>ns\<close> are to come after those of \<open>D\<close>, each behind its predecessors.\<close>

fun forward :: "'n dag \<Rightarrow> node_id set \<Rightarrow> node_id list \<Rightarrow> bool" where
  "forward g D [] = True"
| "forward g D (n # ns) = (n \<notin> D \<and> n \<in> dom (map_of (dg_nodes g)) \<and> (\<forall>a. (a, n) \<in> arrows g \<longrightarrow> a \<in> D) \<and> forward g (insert n D) ns)"

lemma stable_forward: "stable_order g (pre @ ns) \<Longrightarrow> forward g (set pre) ns"
proof (induction ns arbitrary: pre)
  case (Cons n ns)
  have "(pre @ n # ns) ! length pre \<in> available g (set (take (length pre) (pre @ n # ns)))"
    using Cons.prems unfolding stable_order_def by (metis length_append length_Cons less_add_same_cancel1 zero_less_Suc)
  then have "n \<in> available g (set pre)" by simp
  moreover have "forward g (set (pre @ [n])) ns" using Cons.IH[of "pre @ [n]"] Cons.prems by simp
  ultimately show ?case by (auto simp: available_def)
qed simp

text \<open>What is dirty when the nodes of \<open>D\<close> have passed on what they have.\<close>

definition balanced ::
  "'n edge_map \<Rightarrow> 'n dag \<Rightarrow> (node_id \<Rightarrow> int \<Rightarrow> int \<Rightarrow> bool) \<Rightarrow> node_id set \<Rightarrow> (node_id \<Rightarrow> dirty_region_set) \<Rightarrow> bool" where
  "balanced map_edge g seeded D dirty \<longleftrightarrow> (\<forall>k x y. dirty_at (dirty k) x y \<longleftrightarrow> seeded k x y
     \<or> (\<exists>i e. map_of (dg_edges g) i = Some e \<and> edge_from e \<in> D \<and> \<not> dirty_is_empty (dirty (edge_from e))
          \<and> passes map_edge g (dirty (edge_from e)) i k x y))"

lemma balanced_skip:
  assumes "balanced map_edge g seeded D dirty" "dirty_is_empty (dirty n)"
  shows "balanced map_edge g seeded (insert n D) dirty"
  using assms unfolding balanced_def by (metis insert_iff)

lemma balanced_emit:
  assumes bal: "balanced map_edge g seeded D dirty"
    and n: "n \<notin> D" "\<not> dirty_is_empty (dirty n)" "\<And>k. k \<in> insert n D \<Longrightarrow> dirty' k = dirty k"
    and es: "set es = {i. \<exists>e. map_of (dg_edges g) i = Some e \<and> edge_from e = n}"
    and new: "\<And>k x y. dirty_at (dirty' k) x y \<longleftrightarrow> dirty_at (dirty k) x y \<or> (\<exists>i\<in>set es. passes map_edge g (dirty n) i k x y)"
  shows "balanced map_edge g seeded (insert n D) dirty'"
  unfolding balanced_def
proof (intro allI)
  fix k x y
  let ?feeds = "\<lambda>D dirty i e. map_of (dg_edges g) i = Some e \<and> edge_from e \<in> D \<and> \<not> dirty_is_empty (dirty (edge_from e))
          \<and> passes map_edge g (dirty (edge_from e)) i k x y"
  have "(\<exists>i e. ?feeds (insert n D) dirty' i e) \<longleftrightarrow> (\<exists>i e. ?feeds D dirty i e) \<or> (\<exists>i\<in>set es. passes map_edge g (dirty n) i k x y)"
  proof
    assume "\<exists>i e. ?feeds (insert n D) dirty' i e"
    then obtain i e where ie: "?feeds (insert n D) dirty' i e" by blast
    then have "dirty' (edge_from e) = dirty (edge_from e)" using n(3) by blast
    then show "(\<exists>i e. ?feeds D dirty i e) \<or> (\<exists>i\<in>set es. passes map_edge g (dirty n) i k x y)"
      using ie es by (cases "edge_from e = n") auto
  next
    assume "(\<exists>i e. ?feeds D dirty i e) \<or> (\<exists>i\<in>set es. passes map_edge g (dirty n) i k x y)"
    then show "\<exists>i e. ?feeds (insert n D) dirty' i e"
    proof
      assume "\<exists>i e. ?feeds D dirty i e"
      then obtain i e where ie: "?feeds D dirty i e" by blast
      then have "dirty' (edge_from e) = dirty (edge_from e)" using n(3) by blast
      with ie show ?thesis by (intro exI[of _ i] exI[of _ e]) simp
    next
      assume "\<exists>i\<in>set es. passes map_edge g (dirty n) i k x y"
      then obtain i e where ie: "map_of (dg_edges g) i = Some e" "edge_from e = n" "passes map_edge g (dirty n) i k x y"
        using es by auto
      moreover have "dirty' n = dirty n" using n(3) by blast
      ultimately show ?thesis using n(2) by (intro exI[of _ i] exI[of _ e]) simp
    qed
  qed
  then show "dirty_at (dirty' k) x y \<longleftrightarrow> seeded k x y \<or> (\<exists>i e. ?feeds (insert n D) dirty' i e)"
    using new[of k x y] bal unfolding balanced_def by metis
qed

text \<open>The plan made so far, for the nodes \<open>pre\<close>.\<close>

definition planned :: "node_id list \<Rightarrow> (node_id \<Rightarrow> dirty_region_set) \<Rightarrow> invalidation_plan" where
  "planned pre dirty = map (\<lambda>n. (n, dirty n)) (filter (\<lambda>n. \<not> dirty_is_empty (dirty n)) pre)"

lemma planned_cong: "(\<And>n. n \<in> set pre \<Longrightarrow> dirty n = dirty' n) \<Longrightarrow> planned pre dirty = planned pre dirty'"
  unfolding planned_def by (induction pre) auto

text \<open>No edge out of a dirty node of \<open>D\<close> failed to map what it carries.\<close>

definition all_mapped ::
  "'n edge_map \<Rightarrow> 'n dag \<Rightarrow> node_id set \<Rightarrow> (node_id \<Rightarrow> dirty_region_set) \<Rightarrow> bool" where
  "all_mapped map_edge g D dirty \<longleftrightarrow> (\<forall>i e err. map_of (dg_edges g) i = Some e \<longrightarrow> edge_from e \<in> D \<longrightarrow>
     \<not> dirty_is_empty (dirty (edge_from e)) \<longrightarrow> \<not> edge_fails map_edge g (dirty (edge_from e)) i err)"

lemma all_mapped_skip:
  "all_mapped map_edge g D dirty \<Longrightarrow> dirty_is_empty (dirty n) \<Longrightarrow> all_mapped map_edge g (insert n D) dirty"
  unfolding all_mapped_def by blast

lemma all_mapped_emit:
  assumes "all_mapped map_edge g D dirty" "\<And>k. k \<in> insert n D \<Longrightarrow> dirty' k = dirty k"
    "set es = {i. \<exists>e. map_of (dg_edges g) i = Some e \<and> edge_from e = n}"
    "\<forall>i\<in>set es. \<forall>err. \<not> edge_fails map_edge g (dirty n) i err"
  shows "all_mapped map_edge g (insert n D) dirty'"
  using assms unfolding all_mapped_def by (metis (mono_tags, lifting) insert_iff mem_Collect_eq)

lemma spread_nodes_ok:
  assumes "edge_map_ok map_edge g" "dag_ok g"
  shows "marks_ok m \<Longrightarrow> forward g (set pre) ns \<Longrightarrow> \<forall>a b. (a, b) \<in> arrows g \<longrightarrow> b \<in> set pre \<longrightarrow> a \<in> set pre \<Longrightarrow>
     balanced map_edge g seeded (set pre) (dirty_of m) \<Longrightarrow> all_mapped map_edge g (set pre) (dirty_of m) \<Longrightarrow>
     case spread_nodes map_edge g ns m (planned pre (dirty_of m)) of
       None \<Rightarrow> False
     | Some (Inl err) \<Rightarrow> \<exists>i d. \<not> dirty_is_empty d \<and> edge_fails map_edge g d i err
     | Some (Inr plan) \<Rightarrow> \<exists>m'. plan = planned (pre @ ns) (dirty_of m') \<and> marks_ok m'
         \<and> balanced map_edge g seeded (set (pre @ ns)) (dirty_of m') \<and> all_mapped map_edge g (set (pre @ ns)) (dirty_of m')"
proof (induction ns arbitrary: pre m)
  case Nil
  then show ?case by auto
next
  case (Cons n ns)
  have fwd: "n \<notin> set pre" "n \<in> dom (map_of (dg_nodes g))" "\<forall>a. (a, n) \<in> arrows g \<longrightarrow> a \<in> set pre" "forward g (set (pre @ [n])) ns"
    using Cons.prems(2) by simp_all
  have closed: "\<forall>a b. (a, b) \<in> arrows g \<longrightarrow> b \<in> set (pre @ [n]) \<longrightarrow> a \<in> set (pre @ [n])" using fwd(3) Cons.prems(3) by auto
  show ?case
  proof (cases "dirty_is_empty (dirty_of m n)")
    case True
    have "spread_nodes map_edge g (n # ns) m plan = spread_nodes map_edge g ns m plan" for plan
      using True by (auto simp: dirty_of_def split: option.splits)
    moreover have "planned pre (dirty_of m) = planned (pre @ [n]) (dirty_of m)" using True by (simp add: planned_def)
    ultimately have run: "spread_nodes map_edge g (n # ns) m (planned pre (dirty_of m)) = spread_nodes map_edge g ns m (planned (pre @ [n]) (dirty_of m))"
      by simp
    have bal: "balanced map_edge g seeded (set (pre @ [n])) (dirty_of m)" "all_mapped map_edge g (set (pre @ [n])) (dirty_of m)"
      using balanced_skip[OF Cons.prems(4) True] all_mapped_skip[OF Cons.prems(5) True] by simp_all
    show ?thesis unfolding run by (rule Cons.IH[OF Cons.prems(1) fwd(4) closed bal, unfolded append_assoc append.simps])
  next
    case False
    then have d: "map_of m n = Some (dirty_of m n)" by (auto simp: dirty_of_def dirty_is_empty_def dirty_empty_def split: option.splits)
    have ok: "dirty_ok (dirty_of m n)" using Cons.prems(1) by (simp add: marks_ok_def)
    obtain es where es: "map_of (dg_outgoing g) n = Some es" "os_ok es"
      "set es = {i. \<exists>e. map_of (dg_edges g) i = Some e \<and> edge_from e = n}"
      using assms(2) fwd(2) by (auto simp: dag_ok_def dag_linked_def elim: adjacentD)
    have stored: "\<forall>i\<in>set es. map_of (dg_edges g) i \<noteq> None" using es(3) by auto
    note spread = spread_edges_ok[OF assms(1) ok stored Cons.prems(1)]
    show ?thesis
    proof (cases "\<exists>m'. spread_edges map_edge g (dirty_of m n) es m = Some (Inr m')")
      case no: False
      then obtain err where "spread_edges map_edge g (dirty_of m n) es m = Some (Inl err)"
        using spread by (auto split: option.splits sum.splits)
      then show ?thesis using spread d False es(1) by auto
    next
      case True
      then obtain m' where run: "spread_edges map_edge g (dirty_of m n) es m = Some (Inr m')" by blast
      then have m': "marks_ok m'" "\<forall>i\<in>set es. \<forall>err. \<not> edge_fails map_edge g (dirty_of m n) i err"
        "\<And>k x y. dirty_at (dirty_of m' k) x y \<longleftrightarrow> dirty_at (dirty_of m k) x y \<or> (\<exists>i\<in>set es. passes map_edge g (dirty_of m n) i k x y)"
        using spread by simp_all
      have same: "dirty_of m' k = dirty_of m k" if k: "k \<in> insert n (set pre)" for k
      proof (rule spread_edges_keeps[OF assms(1) ok stored Cons.prems(1) run], intro ballI allI impI notI)
        fix i e assume "i \<in> set es" "map_of (dg_edges g) i = Some e" "edge_to e = k"
        then have "(n, k) \<in> arrows g" using es(3) arrowsI by fastforce
        then show False using k fwd(1,3) Cons.prems(3) by auto
      qed
      have bal: "balanced map_edge g seeded (set (pre @ [n])) (dirty_of m')" "all_mapped map_edge g (set (pre @ [n])) (dirty_of m')"
        using balanced_emit[OF Cons.prems(4) fwd(1) False same es(3) m'(3)] all_mapped_emit[OF Cons.prems(5) same es(3) m'(2)]
        by simp_all
      have plan: "planned pre (dirty_of m) @ [(n, dirty_of m n)] = planned (pre @ [n]) (dirty_of m')"
        using planned_cong[of pre "dirty_of m" "dirty_of m'"] same False by (simp add: planned_def)
      have step: "spread_nodes map_edge g (n # ns) m (planned pre (dirty_of m)) = spread_nodes map_edge g ns m' (planned (pre @ [n]) (dirty_of m'))"
        using d False es(1) run plan by simp
      show ?thesis unfolding step by (rule Cons.IH[OF m'(1) fwd(4) closed bal, unfolded append_assoc append.simps])
    qed
  qed
qed

lemma plan_lookup:
  "plan_dirty_regions (planned order dirty) n
     = (if n \<in> set order \<and> \<not> dirty_is_empty (dirty n) then Some (dirty n) else None)"
proof (induction order)
  case (Cons a order)
  then show ?case by (auto simp: plan_dirty_regions_def planned_def)
qed (simp add: plan_dirty_regions_def planned_def)

definition seeded_at :: "invalidation_seed list \<Rightarrow> node_id \<Rightarrow> int \<Rightarrow> int \<Rightarrow> bool" where
  "seeded_at seeds n x y \<longleftrightarrow> (\<exists>s\<in>set seeds. is_node_id s = n \<and> dirty_at (is_dirty_regions s) x y)"

definition seeds_ok :: "'n dag \<Rightarrow> invalidation_seed list \<Rightarrow> bool" where
  "seeds_ok g seeds \<longleftrightarrow> (\<forall>s\<in>set seeds. dirty_ok (is_dirty_regions s) \<and> is_node_id s \<in> dom (map_of (dg_nodes g)))"

lemma propagation_result:
  assumes "dag_ok g" "edge_map_ok map_edge g" "seeds_ok g seeds"
  shows "case propagate_invalidation_with map_edge g seeds of
      None \<Rightarrow> False
    | Some (Inl err) \<Rightarrow> \<exists>i d. \<not> dirty_is_empty d \<and> edge_fails map_edge g d i err
    | Some (Inr plan) \<Rightarrow> \<exists>order m. topological_order g = Some order \<and> set order = dom (map_of (dg_nodes g)) \<and> marks_ok m
        \<and> plan = planned order (dirty_of m) \<and> balanced map_edge g (seeded_at seeds) (set order) (dirty_of m)
        \<and> all_mapped map_edge g (set order) (dirty_of m)"
proof -
  obtain order where order: "topological_order g = Some order" "set order = dom (map_of (dg_nodes g))" "stable_order g order"
    using topological_order_complete[OF assms(1)] by blast
  have empty: "marks_ok []" by (simp add: marks_ok_def dirty_of_def)
  obtain m0 where m0: "mark_seeds seeds [] = Some m0" "marks_ok m0"
    "\<forall>k x y. dirty_at (dirty_of m0 k) x y \<longleftrightarrow> seeded_at seeds k x y"
    using mark_seeds_ok[OF empty, of seeds] assms(3) by (auto simp: seeds_ok_def seeded_at_def dirty_of_def)
  have start: "balanced map_edge g (seeded_at seeds) (set []) (dirty_of m0)" "all_mapped map_edge g (set []) (dirty_of m0)"
    using m0(3) by (simp_all add: balanced_def all_mapped_def)
  have "find (\<lambda>s. \<not> om_has (dg_nodes g) (is_node_id s)) seeds = None"
    using assms(3) by (auto simp: seeds_ok_def om_has_dom find_None_iff)
  then have run: "propagate_invalidation_with map_edge g seeds = spread_nodes map_edge g order m0 (planned [] (dirty_of m0))"
    using m0(1) order(1) by (simp add: propagate_invalidation_with_def planned_def)
  have "forward g (set []) order" using stable_forward[of g "[]" order] order(3) by simp
  note spread = spread_nodes_ok[OF assms(2,1) m0(2) this _ start, unfolded append_Nil]
  show ?thesis
  proof (cases "\<exists>plan. propagate_invalidation_with map_edge g seeds = Some (Inr plan)")
    case True
    then obtain plan where "propagate_invalidation_with map_edge g seeds = Some (Inr plan)" by blast
    then show ?thesis using spread order unfolding run by auto
  next
    case False
    then show ?thesis using spread unfolding run by (auto split: option.splits sum.splits)
  qed
qed

lemma unknown_seed:
  assumes "s \<in> set seeds" "is_node_id s \<notin> dom (map_of (dg_nodes g))"
  obtains u where "u \<in> set seeds" "is_node_id u \<notin> dom (map_of (dg_nodes g))"
    "propagate_invalidation_with map_edge g seeds = Some (Inl (unknown_seed_error g (is_node_id u)))"
proof (cases "find (\<lambda>s. \<not> om_has (dg_nodes g) (is_node_id s)) seeds")
  case None
  then show ?thesis using assms by (auto simp: find_None_iff om_has_dom)
next
  case (Some u)
  then have "u \<in> set seeds" "is_node_id u \<notin> dom (map_of (dg_nodes g))" by (auto simp: find_Some_iff om_has_dom)
  with that[OF this] Some show ?thesis by (simp add: propagate_invalidation_with_def)
qed

text \<open>The dirty set of a node in a plan; a node that is not listed is clean.\<close>

definition plan_at :: "invalidation_plan \<Rightarrow> node_id \<Rightarrow> dirty_region_set" where
  "plan_at plan n = (case plan_dirty_regions plan n of None \<Rightarrow> dirty_empty | Some d \<Rightarrow> d)"

lemma plan_at_planned:
  assumes "marks_ok m" "set order = dom (map_of (dg_nodes g))" "dag_linked g" "seeds_ok g seeds"
    "balanced map_edge g (seeded_at seeds) (set order) (dirty_of m)"
  shows "plan_at (planned order (dirty_of m)) n = dirty_of m n"
proof (cases "n \<in> set order")
  case True
  have "dirty_is_empty d \<Longrightarrow> dirty_empty = d" for d by (simp add: dirty_is_empty_def dirty_empty_def)
  then show ?thesis using True by (auto simp: plan_at_def plan_lookup)
next
  case False
  have "\<not> seeded_at seeds n x y" for x y using False assms(2,4) by (auto simp: seeded_at_def seeds_ok_def)
  moreover have "\<not> passes map_edge g d i n x y" for d i x y using False assms(2,3) by (auto simp: passes_def dag_linked_def)
  ultimately have "\<not> dirty_at (dirty_of m n) x y" for x y using assms(5) unfolding balanced_def by blast
  then have "dirty_of m n = dirty_empty" using assms(1) by (intro dirty_ext) (auto simp: marks_ok_def)
  with False show ?thesis by (simp add: plan_at_def plan_lookup)
qed

text \<open>
  C6: Propagation solves the dataflow equations of the graph, whatever the client's edge map does with
  canonical sets. It never panics. A seed on an unknown node, or an edge whose map fails on a dirty
  set, ends it with that error, the failed edge named in its context. Otherwise every edge out of a
  dirty node was mapped, the plan lists the dirty nodes in topological order, and a pixel is dirty at
  a node exactly when a seed says so there or a stored edge from a dirty node maps that node's final
  dirty set to one with the pixel.
\<close>

theorem invalidation_solves_dataflow:
  assumes "dag_ok g" "edge_map_ok map_edge g" "\<forall>s\<in>set seeds. dirty_ok (is_dirty_regions s)"
  shows "case propagate_invalidation_with map_edge g seeds of
      None \<Rightarrow> False
    | Some (Inl err) \<Rightarrow> (\<exists>s\<in>set seeds. is_node_id s \<notin> dom (map_of (dg_nodes g)) \<and> err = unknown_seed_error g (is_node_id s))
        \<or> (is_node_id ` set seeds \<subseteq> dom (map_of (dg_nodes g))
           \<and> (\<exists>i e d failure. map_of (dg_edges g) i = Some e \<and> \<not> dirty_is_empty d \<and> map_edge g e d = Inl failure
                \<and> err = err_push_context failure (map_edge_context g e)))
    | Some (Inr plan) \<Rightarrow> is_node_id ` set seeds \<subseteq> dom (map_of (dg_nodes g))
        \<and> (\<exists>order. topological_order g = Some order \<and> map fst plan = filter (\<lambda>n. \<not> dirty_is_empty (plan_at plan n)) order)
        \<and> (\<forall>i e. map_of (dg_edges g) i = Some e \<and> \<not> dirty_is_empty (plan_at plan (edge_from e)) \<longrightarrow>
             is_ok (map_edge g e (plan_at plan (edge_from e))))
        \<and> (\<forall>n x y. dirty_at (plan_at plan n) x y \<longleftrightarrow>
             (\<exists>s\<in>set seeds. is_node_id s = n \<and> dirty_at (is_dirty_regions s) x y)
             \<or> (\<exists>i e d. map_of (dg_edges g) i = Some e \<and> edge_to e = n \<and> \<not> dirty_is_empty (plan_at plan (edge_from e))
                  \<and> map_edge g e (plan_at plan (edge_from e)) = Inr d \<and> dirty_at d x y))"
proof (cases "is_node_id ` set seeds \<subseteq> dom (map_of (dg_nodes g))")
  case False
  then obtain s where "s \<in> set seeds" "is_node_id s \<notin> dom (map_of (dg_nodes g))" by blast
  then obtain u where "u \<in> set seeds" "is_node_id u \<notin> dom (map_of (dg_nodes g))"
    "propagate_invalidation_with map_edge g seeds = Some (Inl (unknown_seed_error g (is_node_id u)))" by (rule unknown_seed)
  then show ?thesis by auto
next
  case stored: True
  then have seeds: "seeds_ok g seeds" using assms(3) by (auto simp: seeds_ok_def)
  note result = propagation_result[OF assms(1,2) seeds]
  show ?thesis
  proof (cases "\<exists>plan. propagate_invalidation_with map_edge g seeds = Some (Inr plan)")
    case False
    then show ?thesis using result stored by (fastforce simp: edge_fails_def split: option.splits sum.splits)
  next
    case True
    then obtain order m where r: "topological_order g = Some order" "set order = dom (map_of (dg_nodes g))" "marks_ok m"
      "propagate_invalidation_with map_edge g seeds = Some (Inr (planned order (dirty_of m)))"
      "balanced map_edge g (seeded_at seeds) (set order) (dirty_of m)" "all_mapped map_edge g (set order) (dirty_of m)"
      using result by auto
    have lk: "dag_linked g" using assms(1) by (simp add: dag_ok_def)
    note at = plan_at_planned[OF r(3,2) lk seeds r(5)]
    have src: "edge_from e \<in> set order" if "map_of (dg_edges g) i = Some e" for i e using lk r(2) that by (auto simp: dag_linked_def)
    have mapped: "is_ok (map_edge g e (dirty_of m (edge_from e)))"
      if "map_of (dg_edges g) i = Some e" "\<not> dirty_is_empty (dirty_of m (edge_from e))" for i e
      using r(6) that src[OF that(1)] by (cases "map_edge g e (dirty_of m (edge_from e))") (auto simp: all_mapped_def edge_fails_def)
    have feeds: "(\<exists>i e. map_of (dg_edges g) i = Some e \<and> edge_from e \<in> set order \<and> \<not> dirty_is_empty (dirty_of m (edge_from e))
          \<and> passes map_edge g (dirty_of m (edge_from e)) i n x y)
        \<longleftrightarrow> (\<exists>i e d. map_of (dg_edges g) i = Some e \<and> edge_to e = n \<and> \<not> dirty_is_empty (dirty_of m (edge_from e))
          \<and> map_edge g e (dirty_of m (edge_from e)) = Inr d \<and> dirty_at d x y)" for n x y
      unfolding passes_def using src by fastforce
    have "map fst (planned order (dirty_of m)) = filter (\<lambda>n. \<not> dirty_is_empty (dirty_of m n)) order"
      by (simp add: planned_def comp_def)
    then show ?thesis using stored r(1,5) mapped unfolding r(4) balanced_def feeds by (auto simp: at seeded_at_def)
  qed
qed

definition box :: "int \<Rightarrow> int \<Rightarrow> int \<Rightarrow> int \<Rightarrow> dirty_region_set" where
  "box a b c d = \<lparr>dr_full_frame = False, dr_regions = [\<lparr>pb_min_x = a, pb_min_y = b, pb_max_x = c, pb_max_y = d\<rparr>]\<rparr>"

text \<open>An edge map for the application: the second input of a blend shifts by a pixel.\<close>

definition shift_set :: "int \<Rightarrow> dirty_region_set \<Rightarrow> dirty_region_set" where
  "shift_set k d = (if dr_full_frame d then d
     else case normalize_regions (map (\<lambda>r. r\<lparr>pb_min_x := pb_min_x r + k, pb_max_x := pb_max_x r + k\<rparr>) (dr_regions d)) of
       None \<Rightarrow> dirty_empty | Some rs \<Rightarrow> \<lparr>dr_full_frame = False, dr_regions = rs\<rparr>)"

lemma shift_ok: "dirty_ok d \<Longrightarrow> dirty_ok (shift_set k d)"
proof -
  assume d: "dirty_ok d"
  let ?rs = "map (\<lambda>r. r\<lparr>pb_min_x := pb_min_x r + k, pb_max_x := pb_max_x r + k\<rparr>) (dr_regions d)"
  have ok: "\<forall>r\<in>set ?rs. pb_ok r" using d by (auto simp: dirty_ok_def pb_ok_def)
  then show ?thesis using d normalize_result[OF ok] dirty_ok_normal[OF ok] by (simp add: shift_set_def)
qed

definition shift_map :: "nat edge_map" where
  "shift_map g e d = Inr (if gd_id e = TypedId 8 then shift_set 5 d else d)"

lemma shift_map_ok: "edge_map_ok shift_map blend"
  by (simp add: edge_map_ok_def shift_map_def shift_ok)

definition blend_seeds :: "invalidation_seed list" where
  "blend_seeds = [\<lparr>is_node_id = TypedId 2, is_dirty_regions = box 0 0 2 1\<rparr>, \<lparr>is_node_id = TypedId 4, is_dirty_regions = box 4 0 6 1\<rparr>]"

lemma box_ok: "dirty_ok (box 0 0 2 1)" "dirty_ok (box 4 0 6 1)"
proof -
  have "normalize_regions (dr_regions (box 0 0 2 1)) = Some (dr_regions (box 0 0 2 1))"
    "normalize_regions (dr_regions (box 4 0 6 1)) = Some (dr_regions (box 4 0 6 1))" by code_simp+
  then show "dirty_ok (box 0 0 2 1)" "dirty_ok (box 4 0 6 1)"
    using normalize_result[of "dr_regions (box 0 0 2 1)"] normalize_result[of "dr_regions (box 4 0 6 1)"]
    by (simp_all add: box_def dirty_ok_def pb_ok_def)
qed

lemma blend_seeds_ok: "seeds_ok blend blend_seeds"
  using box_ok by (simp add: seeds_ok_def blend_seeds_def blend_def blend_nodes_def dom_def)

theorem invalidation_solves_dataflow_witness:
  "\<exists>plan. propagate_invalidation_with shift_map blend blend_seeds = Some (Inr plan)
     \<and> map fst plan = [TypedId 2, TypedId 4, TypedId 1, TypedId 3]
     \<and> dirty_at (plan_at plan (TypedId 3)) 4 0 \<and> dirty_at (plan_at plan (TypedId 3)) 6 0"
proof -
  have "case propagate_invalidation_with shift_map blend blend_seeds of
      Some (Inr plan) \<Rightarrow> map fst plan = [TypedId 2, TypedId 4, TypedId 1, TypedId 3] \<and> plan_at plan (TypedId 1) = box 4 0 7 1
    | _ \<Rightarrow> False" by code_simp
  then obtain plan where plan: "propagate_invalidation_with shift_map blend blend_seeds = Some (Inr plan)"
    "map fst plan = [TypedId 2, TypedId 4, TypedId 1, TypedId 3]" "plan_at plan (TypedId 1) = box 4 0 7 1"
    by (auto split: option.splits sum.splits)
  have eqn: "dirty_at (plan_at plan n) x y \<longleftrightarrow>
         (\<exists>s\<in>set blend_seeds. is_node_id s = n \<and> dirty_at (is_dirty_regions s) x y)
         \<or> (\<exists>i e d. map_of (dg_edges blend) i = Some e \<and> edge_to e = n \<and> \<not> dirty_is_empty (plan_at plan (edge_from e))
              \<and> shift_map blend e (plan_at plan (edge_from e)) = Inr d \<and> dirty_at d x y)" for n x y
  proof -
    have seeds: "\<forall>s\<in>set blend_seeds. dirty_ok (is_dirty_regions s)" using blend_seeds_ok by (simp add: seeds_ok_def)
    show ?thesis
      using invalidation_solves_dataflow[OF blend_ok shift_map_ok seeds] unfolding plan(1) by simp
  qed
  have edge: "map_of (dg_edges blend) (TypedId 9) = Some (wire 9 1 3)" "edge_to (wire 9 1 3) = TypedId 3"
    "edge_from (wire 9 1 3) = TypedId 1" by (simp_all add: blend_def wire_def)
  have "shift_map blend (wire 9 1 3) (box 4 0 7 1) = Inr (box 4 0 7 1)" by (simp add: shift_map_def wire_def)
  moreover have "\<not> dirty_is_empty (box 4 0 7 1)" by (simp add: box_def dirty_is_empty_def)
  ultimately have step: "dirty_at (box 4 0 7 1) x y \<Longrightarrow> dirty_at (plan_at plan (TypedId 3)) x y" for x y
    unfolding eqn[of "TypedId 3"] using edge plan(3) by (intro disjI2 exI[of _ "TypedId 9"] exI[of _ "wire 9 1 3"]) simp
  have "dirty_at (box 4 0 7 1) 4 0" "dirty_at (box 4 0 7 1) 6 0" by (simp_all add: dirty_at_def box_def points_def pb_contains_def)
  from step[OF this(1)] step[OF this(2)] show ?thesis using plan(1,2) by (intro exI[of _ plan]) simp
qed

text \<open>
  With the identity on every edge, a pixel is dirty at a node exactly when a seed with that pixel
  lies on a node from which the node can be reached along stored edges, the node itself included.
\<close>

theorem dependency_invalidation_reaches:
  assumes "dag_ok g" "seeds_ok g seeds"
  shows "\<exists>plan. propagate_dependency_invalidation g seeds = Some (Inr plan)
    \<and> (\<forall>n x y. dirty_at (plan_at plan n) x y \<longleftrightarrow>
         (\<exists>s\<in>set seeds. (is_node_id s, n) \<in> (arrows g)\<^sup>* \<and> dirty_at (is_dirty_regions s) x y))"
proof -
  have identity: "edge_map_ok (\<lambda>_ _ dirty. Inr dirty) g" by (simp add: edge_map_ok_def)
  obtain order m where r: "topological_order g = Some order" "set order = dom (map_of (dg_nodes g))" "marks_ok m"
    "propagate_invalidation_with (\<lambda>_ _ dirty. Inr dirty) g seeds = Some (Inr (planned order (dirty_of m)))"
    "balanced (\<lambda>_ _ dirty. Inr dirty) g (seeded_at seeds) (set order) (dirty_of m)"
    using propagation_result[OF assms(1) identity assms(2)] by (auto simp: edge_fails_def split: option.splits sum.splits)
  have lk: "dag_linked g" using assms(1) by (simp add: dag_ok_def)
  have src: "edge_from e \<in> set order" if "map_of (dg_edges g) i = Some e" for i e using lk r(2) that by (auto simp: dag_linked_def)
  have eqn: "dirty_at (dirty_of m n) x y \<longleftrightarrow> seeded_at seeds n x y \<or> (\<exists>a. (a, n) \<in> arrows g \<and> dirty_at (dirty_of m a) x y)" for n x y
  proof -
    have some: "dirty_at (dirty_of m a) x y \<Longrightarrow> \<not> dirty_is_empty (dirty_of m a)" for a
      using r(3) dirty_is_empty_iff by (auto simp: marks_ok_def)
    have "(\<exists>i e. map_of (dg_edges g) i = Some e \<and> edge_from e \<in> set order \<and> \<not> dirty_is_empty (dirty_of m (edge_from e))
        \<and> passes (\<lambda>_ _ dirty. Inr dirty) g (dirty_of m (edge_from e)) i n x y)
      \<longleftrightarrow> (\<exists>a. (a, n) \<in> arrows g \<and> dirty_at (dirty_of m a) x y)"
      (is "?l = ?r")
    proof
      show "?l \<Longrightarrow> ?r" by (auto simp: passes_def) (metis arrowsI)
      assume ?r
      then obtain a where a: "(a, n) \<in> arrows g" "dirty_at (dirty_of m a) x y" by blast
      obtain i e where e: "map_of (dg_edges g) i = Some e" "edge_from e = a" "edge_to e = n" by (rule arrowsE[OF a(1)])
      then show ?l using a(2) src[OF e(1)] some by (intro exI[of _ i] exI[of _ e]) (simp add: passes_def)
    qed
    then show ?thesis using r(5) unfolding balanced_def by metis
  qed
  have "finite (arrows g)" unfolding arrows_def by (intro finite_imageI finite_ran finite_dom_map_of)
  then have wf: "wf (arrows g)" using assms(1) by (simp add: dag_ok_def finite_acyclic_wf)
  have "dirty_at (dirty_of m n) x y \<longleftrightarrow> (\<exists>s\<in>set seeds. (is_node_id s, n) \<in> (arrows g)\<^sup>* \<and> dirty_at (is_dirty_regions s) x y)" for n x y
  proof
    show "dirty_at (dirty_of m n) x y \<Longrightarrow> \<exists>s\<in>set seeds. (is_node_id s, n) \<in> (arrows g)\<^sup>* \<and> dirty_at (is_dirty_regions s) x y"
      using wf
    proof (induction n rule: wf_induct_rule)
      case (less n)
      from less.prems eqn[of n x y] consider "seeded_at seeds n x y" | a where "(a, n) \<in> arrows g" "dirty_at (dirty_of m a) x y"
        by blast
      then show ?case
      proof cases
        case 1
        then show ?thesis by (auto simp: seeded_at_def)
      next
        case 2
        from less.IH[OF this] show ?thesis using 2(1) by (meson rtrancl.rtrancl_into_rtrancl)
      qed
    qed
    assume "\<exists>s\<in>set seeds. (is_node_id s, n) \<in> (arrows g)\<^sup>* \<and> dirty_at (is_dirty_regions s) x y"
    then obtain s where s: "s \<in> set seeds" "(is_node_id s, n) \<in> (arrows g)\<^sup>*" "dirty_at (is_dirty_regions s) x y" by blast
    from s(2) show "dirty_at (dirty_of m n) x y"
    proof (induction rule: rtrancl_induct)
      case base
      have "seeded_at seeds (is_node_id s) x y" using s(1,3) by (auto simp: seeded_at_def)
      then show ?case using eqn[of "is_node_id s" x y] by blast
    next
      case (step a b)
      then show ?case using eqn[of b x y] by blast
    qed
  qed
  then show ?thesis using r(4) plan_at_planned[OF r(3,2) lk assms(2) r(5)] by (simp add: propagate_dependency_invalidation_def)
qed

theorem dependency_invalidation_reaches_witness:
  "\<exists>plan. propagate_dependency_invalidation blend blend_seeds = Some (Inr plan) \<and> dirty_at (plan_at plan (TypedId 3)) 1 0"
proof -
  have "reaches blend (TypedId 2) (TypedId 3) = Some True" by code_simp
  then have "(TypedId 2, TypedId 3) \<in> (arrows blend)\<^sup>*"
    using reaches_correct[of blend "TypedId 2" "TypedId 3"] blend_ok by (simp add: dag_ok_def blend_def blend_nodes_def dom_def)
  moreover have "dirty_at (box 0 0 2 1) 1 0" by (simp add: dirty_at_def box_def points_def pb_contains_def)
  ultimately show ?thesis
    using dependency_invalidation_reaches[OF blend_ok blend_seeds_ok] by (fastforce simp: blend_seeds_def)
qed

end
