(* ===== verification/EditState.thy ===== *)
theory EditState
  imports Model
begin

text \<open>
  \<open>superi-timeline/src/edit_state.rs\<close>: what the editor keeps beside the tracks of a timeline, the
  selection, the flags of each track and the two relations on clips, links and groups. A relation
  is a vector of components, each an ordered set of at least two clips, kept in the order of
  their members. As in theory \<open>Dag\<close> an outer \<open>None\<close> is a failed \<open>expect\<close>.
\<close>

section \<open>Data\<close>

definition DEFAULT_TRACK_HEIGHT :: int where "DEFAULT_TRACK_HEIGHT = 72"
definition MIN_TRACK_HEIGHT :: int where "MIN_TRACK_HEIGHT = 48"
definition MAX_TRACK_HEIGHT :: int where "MAX_TRACK_HEIGHT = 320"

datatype selection_update = ReplaceSelection | AddSelection | RemoveSelection
datatype selection_expansion = ExpandRelated | ExpandDirect

record track_edit_state =
  te_track_id :: track_id
  te_height :: int
  te_targeted :: bool
  te_locked :: bool
  te_sync_locked :: bool
  te_muted :: bool
  te_solo :: bool
  te_enabled :: bool

definition te_new :: "track_id \<Rightarrow> track_edit_state" where
  "te_new track_id = \<lparr>te_track_id = track_id, te_height = DEFAULT_TRACK_HEIGHT, te_targeted = False,
     te_locked = False, te_sync_locked = True, te_muted = False, te_solo = False, te_enabled = True\<rparr>"

text \<open>A component is the ordered set of its members.\<close>

type_synonym clip_relation = "clip_id list"

record timeline_edit_state =
  es_selected :: "editorial_object_id list"
  es_tracks :: "(track_id \<times> track_edit_state) list"
  es_linked :: bool
  es_links :: "clip_relation list"
  es_groups :: "clip_relation list"

definition es_from_tracks :: "track list \<Rightarrow> timeline_edit_state" where
  "es_from_tracks tracks =
     \<lparr>es_selected = [], es_tracks = fold (\<lambda>t m. om_insert (tk_id t) (te_new (tk_id t)) m) tracks [],
      es_linked = True, es_links = [], es_groups = []\<rparr>"

section \<open>Errors\<close>

definition es_invalid :: "string \<Rightarrow> string \<Rightarrow> error_value" where
  "es_invalid operation message =
     err_with_context (err_new InvalidInput UserCorrectable message) (ctx_new ''superi-timeline.edit-state'' operation)"

definition es_not_found :: "string \<Rightarrow> string \<Rightarrow> string \<Rightarrow> string \<Rightarrow> error_value" where
  "es_not_found operation message field val =
     err_with_context (err_new NotFound UserCorrectable message)
       (ctx_with_field (ctx_new ''superi-timeline.edit-state'' operation) field val)"

lemma es_invalid_cong [cong]: "es_invalid operation message = es_invalid operation message"
  by (rule refl)

lemma es_not_found_cong [cong]:
  "es_not_found operation message field val = es_not_found operation message field val"
  by (rule refl)

section \<open>The flags of a track\<close>

definition set_linked_selection_enabled :: "timeline_edit_state \<Rightarrow> bool \<Rightarrow> timeline_edit_state" where
  "set_linked_selection_enabled s enabled = s\<lparr>es_linked := enabled\<rparr>"

definition update_track_state ::
  "timeline_edit_state \<Rightarrow> string \<Rightarrow> track_id \<Rightarrow> (track_edit_state \<Rightarrow> track_edit_state) \<Rightarrow> timeline_edit_state result" where
  "update_track_state s operation track_id f =
     (if om_has (es_tracks s) track_id
      then Inr (s\<lparr>es_tracks := om_update track_id f (es_tracks s)\<rparr>)
      else Inl (es_not_found operation ''editorial track was not found'' ''track'' (id_display TrackKind track_id)))"

definition set_track_targeted :: "timeline_edit_state \<Rightarrow> track_id \<Rightarrow> bool \<Rightarrow> timeline_edit_state result" where
  "set_track_targeted s track_id targeted =
     update_track_state s ''set_track_targeted'' track_id (te_targeted_update (\<lambda>_. targeted))"

definition set_track_height :: "timeline_edit_state \<Rightarrow> track_id \<Rightarrow> int \<Rightarrow> timeline_edit_state result" where
  "set_track_height s track_id height =
     (if \<not> (MIN_TRACK_HEIGHT \<le> height \<and> height \<le> MAX_TRACK_HEIGHT)
      then Inl (es_invalid ''set_track_height'' ''track height must be between 48 and 320 logical pixels'')
      else update_track_state s ''set_track_height'' track_id (te_height_update (\<lambda>_. height)))"

definition set_track_locked :: "timeline_edit_state \<Rightarrow> track_id \<Rightarrow> bool \<Rightarrow> timeline_edit_state result" where
  "set_track_locked s track_id locked = update_track_state s ''set_track_locked'' track_id (te_locked_update (\<lambda>_. locked))"

definition set_track_sync_locked :: "timeline_edit_state \<Rightarrow> track_id \<Rightarrow> bool \<Rightarrow> timeline_edit_state result" where
  "set_track_sync_locked s track_id sync_locked =
     update_track_state s ''set_track_sync_locked'' track_id (te_sync_locked_update (\<lambda>_. sync_locked))"

definition set_track_muted :: "timeline_edit_state \<Rightarrow> track_id \<Rightarrow> bool \<Rightarrow> timeline_edit_state result" where
  "set_track_muted s track_id muted = update_track_state s ''set_track_muted'' track_id (te_muted_update (\<lambda>_. muted))"

definition set_track_solo :: "timeline_edit_state \<Rightarrow> track_id \<Rightarrow> bool \<Rightarrow> timeline_edit_state result" where
  "set_track_solo s track_id solo = update_track_state s ''set_track_solo'' track_id (te_solo_update (\<lambda>_. solo))"

definition set_track_enabled :: "timeline_edit_state \<Rightarrow> track_id \<Rightarrow> bool \<Rightarrow> timeline_edit_state result" where
  "set_track_enabled s track_id enabled =
     update_track_state s ''set_track_enabled'' track_id (te_enabled_update (\<lambda>_. enabled))"

section \<open>Relations\<close>

definition relation_for :: "clip_relation list \<Rightarrow> clip_id \<Rightarrow> clip_relation option" where
  "relation_for relations ident = find (\<lambda>r. List.member r ident) relations"

text \<open>The order of the members compares components as their iterators do, word by word.\<close>

definition sort_relations :: "clip_relation list \<Rightarrow> clip_relation list" where
  "sort_relations relations = sort relations"

text \<open>One pass: what is kept so far, and the members gathered so far.\<close>

fun merge_pass :: "clip_relation list \<Rightarrow> clip_relation list \<Rightarrow> clip_id list \<Rightarrow> clip_relation list \<times> clip_id list" where
  "merge_pass [] retained members = (retained, members)"
| "merge_pass (r # relations) retained members =
     (if os_disjoint r members then merge_pass relations (retained @ [r]) members
      else merge_pass relations retained (os_extend members r))"

definition merge_relation :: "clip_relation list \<Rightarrow> clip_id list \<Rightarrow> clip_relation list" where
  "merge_relation relations members =
     (let (retained, members) = merge_pass relations [] members in sort_relations (retained @ [members]))"

definition remove_relation_members :: "clip_relation list \<Rightarrow> clip_id list \<Rightarrow> clip_relation list" where
  "remove_relation_members relations clips =
     sort_relations (filter (\<lambda>r. 2 \<le> length r) (map (filter (\<lambda>c. \<not> List.member clips c)) relations))"

definition replace_relation_member :: "clip_relation list \<Rightarrow> clip_id \<Rightarrow> clip_id \<Rightarrow> clip_relation list" where
  "replace_relation_member relations removed inserted =
     sort_relations (map (\<lambda>r. if List.member r removed then os_insert inserted (os_remove removed r) else r) relations)"

definition reconcile_relations :: "clip_relation list \<Rightarrow> clip_id list \<Rightarrow> clip_relation list" where
  "reconcile_relations relations clip_ids =
     sort_relations (filter (\<lambda>r. 2 \<le> length r) (map (filter (List.member clip_ids)) relations))"

definition require_relationship_size :: "string \<Rightarrow> clip_id list \<Rightarrow> unit result" where
  "require_relationship_size operation members =
     (if length members < 2
      then Inl (es_invalid operation ''a clip relationship requires at least two distinct clips'')
      else Inr ())"

section \<open>The identities of a timeline\<close>

definition object_ids :: "track list \<Rightarrow> editorial_object_id list" where
  "object_ids tracks = os_of (concat (map (\<lambda>t. map item_id (tk_items t)) tracks))"

fun clip_of_object :: "editorial_object_id \<Rightarrow> clip_id option" where
  "clip_of_object (OClip c) = Some c"
| "clip_of_object _ = None"

definition timeline_ids :: "track list \<Rightarrow> track_id list \<times> editorial_object_id list \<times> clip_id list" where
  "timeline_ids tracks =
     (os_of (map tk_id tracks), object_ids tracks, os_of (List.map_filter clip_of_object (object_ids tracks)))"

definition checked_clips :: "string \<Rightarrow> clip_id list \<Rightarrow> track list \<Rightarrow> clip_id list result" where
  "checked_clips operation clips tracks =
     (let (_, _, available) = timeline_ids tracks; clips = os_of clips in
      case find (\<lambda>c. \<not> List.member available c) clips of
        Some c \<Rightarrow> Inl (es_not_found operation ''editorial clip was not found'' ''clip'' (id_display ClipKind c))
      | None \<Rightarrow> Inr clips)"

section \<open>Links and groups\<close>

definition link_clips :: "timeline_edit_state \<Rightarrow> clip_id list \<Rightarrow> track list \<Rightarrow> timeline_edit_state result option" where
  "link_clips s clips tracks =
     (case bindR (checked_clips ''link_clips'' clips tracks) (\<lambda>members.
             bindR (require_relationship_size ''link_clips'' members) (\<lambda>_. Inr members)) of
        Inl e \<Rightarrow> Some (Inl e)
      | Inr [] \<Rightarrow> None
      | Inr (anchor # members) \<Rightarrow>
          let links = merge_relation (es_links s) (anchor # members) in
          case relation_for links anchor of
            None \<Rightarrow> None
          | Some linked_members \<Rightarrow>
              let s = s\<lparr>es_links := links\<rparr> in
              Some (Inr (if list_ex (\<lambda>g. \<not> os_disjoint g linked_members) (es_groups s)
                         then s\<lparr>es_groups := merge_relation (es_groups s) linked_members\<rparr>
                         else s)))"

definition unlink_clips :: "timeline_edit_state \<Rightarrow> clip_id list \<Rightarrow> track list \<Rightarrow> timeline_edit_state result" where
  "unlink_clips s clips tracks =
     bindR (checked_clips ''unlink_clips'' clips tracks) (\<lambda>clips.
       Inr (s\<lparr>es_links := remove_relation_members (es_links s) clips\<rparr>))"

definition group_clips :: "timeline_edit_state \<Rightarrow> clip_id list \<Rightarrow> track list \<Rightarrow> timeline_edit_state result" where
  "group_clips s clips tracks =
     bindR (checked_clips ''group_clips'' clips tracks) (\<lambda>members.
     let linked_members = concat (List.map_filter (relation_for (es_links s)) members);
         members = os_extend members linked_members in
     bindR (require_relationship_size ''group_clips'' members) (\<lambda>_.
       Inr (s\<lparr>es_groups := merge_relation (es_groups s) members\<rparr>)))"

definition ungroup_clips :: "timeline_edit_state \<Rightarrow> clip_id list \<Rightarrow> track list \<Rightarrow> timeline_edit_state result" where
  "ungroup_clips s clips tracks =
     bindR (checked_clips ''ungroup_clips'' clips tracks) (\<lambda>clips.
       Inr (s\<lparr>es_groups := filter (\<lambda>r. os_disjoint r clips) (es_groups s)\<rparr>))"

section \<open>Selection\<close>

lemma relation_for_Some: "relation_for rs c = Some r \<Longrightarrow> r \<in> set rs \<and> c \<in> set r"
  by (auto simp: relation_for_def find_Some_iff List.member_iff)

lemma relation_for_None: "relation_for rs c = None \<longleftrightarrow> (\<forall>r\<in>set rs. c \<notin> set r)"
  by (auto simp: relation_for_def find_None_iff List.member_iff)

definition relation_members :: "timeline_edit_state \<Rightarrow> clip_id set" where
  "relation_members s = \<Union> (set ` set (es_links s)) \<union> \<Union> (set ` set (es_groups s))"

lemma relation_members_simps:
  "relation_for (es_groups s) c = Some r \<Longrightarrow> m \<in> set r \<Longrightarrow> m \<in> relation_members s"
  "relation_for (es_links s) c = Some r \<Longrightarrow> m \<in> set r \<Longrightarrow> m \<in> relation_members s"
  by (auto simp: relation_members_def dest!: relation_for_Some)

text \<open>
  The clips reached over groups and links. The vector \<open>pending\<close> is popped at its end, so the list
  has its last element first.
\<close>

function (sequential) expand_loop ::
  "timeline_edit_state \<Rightarrow> clip_id list \<Rightarrow> clip_id list \<Rightarrow> clip_id list" where
  "expand_loop s visited [] = visited"
| "expand_loop s visited (c # pending) =
     (if List.member visited c then expand_loop s visited pending
      else
      let visited = os_insert c visited;
          fresh = \<lambda>r. rev (filter (\<lambda>m. \<not> List.member visited m) r);
          pending = (case relation_for (es_groups s) c of None \<Rightarrow> pending | Some g \<Rightarrow> fresh g @ pending);
          pending = (if es_linked s
                     then case relation_for (es_links s) c of None \<Rightarrow> pending | Some l \<Rightarrow> fresh l @ pending
                     else pending) in
      expand_loop s visited pending)"
  by pat_completeness auto

termination
proof (relation "measures [\<lambda>(s, visited, pending). card ((set pending \<union> relation_members s) - set visited),
    \<lambda>(s, visited, pending). length pending]", goal_cases)
  case (2 s visited c pending)
  have "(set pending \<union> relation_members s) - set visited = (set (c # pending) \<union> relation_members s) - set visited"
    using 2 by (auto simp: List.member_iff)
  then show ?case by simp
next
  case (3 s visited c pending v fresh p q)
  let ?old = "(set (c # pending) \<union> relation_members s) - set visited"
  have "set p \<subseteq> set pending \<union> relation_members s"
    using 3(3,4) relation_members_simps(1) by (auto split: option.splits)
  then have "set q \<subseteq> set pending \<union> relation_members s"
    using 3(3,5) relation_members_simps(2) by (auto split: option.splits if_splits)
  then have "(set q \<union> relation_members s) - set v \<subseteq> ?old - {c}" using 3(2) by auto
  moreover have "c \<in> ?old" using 3(1) by (simp add: List.member_iff)
  moreover have "finite ?old" by (simp add: relation_members_def)
  ultimately have "card ((set q \<union> relation_members s) - set v) < card ?old"
    by (intro psubset_card_mono) auto
  then show ?case by simp
qed simp

definition expand_selection :: "timeline_edit_state \<Rightarrow> editorial_object_id list \<Rightarrow> editorial_object_id list" where
  "expand_selection s requested =
     os_extend requested (map OClip (expand_loop s [] (rev (List.map_filter clip_of_object requested))))"

definition update_selection ::
  "timeline_edit_state \<Rightarrow> editorial_object_id list \<Rightarrow> selection_update \<Rightarrow> selection_expansion \<Rightarrow> track list
     \<Rightarrow> timeline_edit_state result" where
  "update_selection s objects update expansion tracks =
     (let (_, known, _) = timeline_ids tracks; requested = os_of objects in
      case find (\<lambda>x. \<not> List.member known x) requested of
        Some x \<Rightarrow> Inl (es_not_found ''update_selection'' ''editorial object was not found'' ''object'' (object_id_display x))
      | None \<Rightarrow>
          let expanded = (case expansion of ExpandDirect \<Rightarrow> requested | ExpandRelated \<Rightarrow> expand_selection s requested) in
          Inr (s\<lparr>es_selected := (case update of
                   ReplaceSelection \<Rightarrow> expanded
                 | AddSelection \<Rightarrow> os_extend (es_selected s) expanded
                 | RemoveSelection \<Rightarrow> filter (\<lambda>x. \<not> List.member expanded x) (es_selected s))\<rparr>))"

section \<open>Validation and reconciliation\<close>

fun validate_members :: "string \<Rightarrow> clip_id list \<Rightarrow> clip_id list \<Rightarrow> clip_id list \<Rightarrow> clip_id list result" where
  "validate_members operation clip_ids claimed [] = Inr claimed"
| "validate_members operation clip_ids claimed (c # cs) =
     (if \<not> List.member clip_ids c
      then Inl (es_not_found operation ''clip relationship references a missing clip'' ''clip'' (id_display ClipKind c))
      else if List.member claimed c
      then Inl (es_invalid operation ''one clip cannot belong to multiple components of the same relationship'')
      else validate_members operation clip_ids (os_insert c claimed) cs)"

fun validate_components :: "string \<Rightarrow> clip_id list \<Rightarrow> clip_id list \<Rightarrow> clip_relation list \<Rightarrow> unit result" where
  "validate_components operation clip_ids claimed [] = Inr ()"
| "validate_components operation clip_ids claimed (r # rs) =
     bindR (require_relationship_size operation r) (\<lambda>_.
     bindR (validate_members operation clip_ids claimed r) (\<lambda>claimed.
       validate_components operation clip_ids claimed rs))"

definition validate_relations :: "string \<Rightarrow> clip_relation list \<Rightarrow> clip_id list \<Rightarrow> unit result" where
  "validate_relations operation relations clip_ids = validate_components operation clip_ids [] relations"

fun validate_track_states :: "(track_id \<times> track_edit_state) list \<Rightarrow> track list \<Rightarrow> unit result option" where
  "validate_track_states states [] = Some (Inr ())"
| "validate_track_states states (t # tracks) =
     (case map_of states (tk_id t) of
        None \<Rightarrow> None
      | Some state \<Rightarrow>
          if \<not> (MIN_TRACK_HEIGHT \<le> te_height state \<and> te_height state \<le> MAX_TRACK_HEIGHT)
          then Some (Inl (es_invalid ''validate_edit_state'' ''track height is outside the supported editor lane bounds''))
          else if ts_kind (tk_semantics t) \<noteq> AudioKind \<and> (te_muted state \<or> te_solo state)
          then Some (Inl (es_invalid ''validate_edit_state'' ''mute and solo state is supported only for audio tracks''))
          else validate_track_states states tracks)"

definition es_validate :: "timeline_edit_state \<Rightarrow> track list \<Rightarrow> unit result option" where
  "es_validate s tracks =
     (let (track_ids, known, clip_ids) = timeline_ids tracks in
      if length (es_tracks s) \<noteq> length track_ids \<or> list_ex (\<lambda>(k, _). \<not> List.member track_ids k) (es_tracks s)
      then Some (Inl (es_invalid ''validate_edit_state'' ''track edit state must cover every timeline track exactly once''))
      else case validate_track_states (es_tracks s) tracks of
        None \<Rightarrow> None
      | Some (Inl e) \<Rightarrow> Some (Inl e)
      | Some (Inr _) \<Rightarrow>
          if list_ex (\<lambda>x. \<not> List.member known x) (es_selected s)
          then Some (Inl (es_not_found ''validate_edit_state'' ''selection references a missing editorial object''
                            ''timeline'' ''selection''))
          else Some (bindR (validate_relations ''validate_links'' (es_links s) clip_ids) (\<lambda>_.
                       validate_relations ''validate_groups'' (es_groups s) clip_ids)))"

definition reconcile :: "timeline_edit_state \<Rightarrow> track list \<Rightarrow> timeline_edit_state" where
  "reconcile s tracks =
     (let (track_ids, known, clip_ids) = timeline_ids tracks;
          kept = filter (\<lambda>(k, _). List.member track_ids k) (es_tracks s) in
      s\<lparr>es_tracks := fold (\<lambda>k m. if om_has m k then m else om_insert k (te_new k) m) track_ids kept,
        es_selected := filter (List.member known) (es_selected s),
        es_links := reconcile_relations (es_links s) clip_ids,
        es_groups := reconcile_relations (es_groups s) clip_ids\<rparr>)"

text \<open>The validation comes last, so a failed transfer has already rewritten the state.\<close>

definition transfer_clip_intent ::
  "timeline_edit_state \<Rightarrow> clip_id \<Rightarrow> clip_id \<Rightarrow> track list \<Rightarrow> (unit result \<times> timeline_edit_state) option" where
  "transfer_clip_intent s removed inserted tracks =
     (let selected = (if List.member (es_selected s) (OClip removed)
                      then os_insert (OClip inserted) (os_remove (OClip removed) (es_selected s))
                      else es_selected s);
          s = s\<lparr>es_selected := selected,
                es_links := replace_relation_member (es_links s) removed inserted,
                es_groups := replace_relation_member (es_groups s) removed inserted\<rparr> in
      map_option (\<lambda>r. (r, s)) (es_validate s tracks))"

end
