(* ===== verification/EditStateLaws.thy ===== *)
theory EditStateLaws
  imports EditState "HOL-Library.Multiset"
begin

text \<open>
  The relations on clips as partial equivalences: what the validation accepts, and that every
  operation keeps it. A vector of components is fine when each is an ordered set of at least two
  available clips and no clip occurs twice.
\<close>

section \<open>Components\<close>

definition component_ok :: "clip_id set \<Rightarrow> clip_relation \<Rightarrow> bool" where
  "component_ok clips r \<longleftrightarrow> os_ok r \<and> 2 \<le> length r \<and> set r \<subseteq> clips"

definition relations_ok :: "clip_id set \<Rightarrow> clip_relation list \<Rightarrow> bool" where
  "relations_ok clips rs \<longleftrightarrow> (\<forall>r\<in>set rs. component_ok clips r) \<and> distinct (concat rs)"

lemma relations_ok_Nil [simp]: "relations_ok clips []"
  by (simp add: relations_ok_def)

lemma concat_perm: "mset xs = mset ys \<Longrightarrow> mset (concat xs) = mset (concat ys)"
  by (metis mset_concat mset_map sum_mset_sum_list)

lemma set_sort_relations [simp]: "set (sort_relations rs) = set rs"
  by (simp add: sort_relations_def)

lemma relations_ok_sort [simp]: "relations_ok clips (sort_relations rs) \<longleftrightarrow> relations_ok clips rs"
proof -
  have "mset (concat (sort_relations rs)) = mset (concat rs)"
    by (rule concat_perm) (simp add: sort_relations_def)
  then have "distinct (concat (sort_relations rs)) \<longleftrightarrow> distinct (concat rs)" by (rule mset_eq_imp_distinct_iff)
  then show ?thesis by (simp add: relations_ok_def)
qed

lemma relations_ok_Cons: "relations_ok clips (r # rs) \<longleftrightarrow> component_ok clips r \<and> relations_ok clips rs
    \<and> (\<forall>q\<in>set rs. set r \<inter> set q = {})"
  by (auto simp: relations_ok_def component_ok_def os_distinct)

lemma relations_ok_append: "relations_ok clips (rs @ qs) \<longleftrightarrow> relations_ok clips rs \<and> relations_ok clips qs
    \<and> (\<forall>r\<in>set rs. \<forall>q\<in>set qs. set r \<inter> set q = {})"
  by (induction rs) (auto simp: relations_ok_Cons)

text \<open>Filtering every component and dropping the small ones.\<close>

lemma relations_ok_filter:
  assumes "relations_ok clips rs" "\<And>c. P c \<Longrightarrow> c \<in> clips \<Longrightarrow> c \<in> clips'"
  shows "relations_ok clips' (filter (\<lambda>r. 2 \<le> length r) (map (filter P) rs))"
  using assms
proof (induction rs)
  case (Cons r rs)
  have IH: "relations_ok clips' (filter (\<lambda>r. 2 \<le> length r) (map (filter P) rs))"
    using Cons by (simp add: relations_ok_Cons)
  have "component_ok clips r" "\<forall>q\<in>set rs. \<forall>c\<in>set r. c \<notin> set q"
    using Cons.prems(1) by (auto simp: relations_ok_Cons)
  then have "2 \<le> length (filter P r) \<Longrightarrow> component_ok clips' (filter P r)"
    "\<forall>q\<in>set (filter (\<lambda>r. 2 \<le> length r) (map (filter P) rs)). set (filter P r) \<inter> set q = {}"
    using Cons.prems(2) by (auto simp: component_ok_def)
  with IH show ?case by (simp add: relations_ok_Cons)
qed simp

lemma relations_ok_subset: "relations_ok clips rs \<Longrightarrow> clips \<subseteq> clips' \<Longrightarrow> relations_ok clips' rs"
  by (auto simp: relations_ok_def component_ok_def)

lemma relations_ok_sublist: "relations_ok clips rs \<Longrightarrow> relations_ok clips (filter P rs)"
  by (induction rs) (auto simp: relations_ok_Cons)

lemma component_unique:
  "relations_ok clips rs \<Longrightarrow> r \<in> set rs \<Longrightarrow> q \<in> set rs \<Longrightarrow> c \<in> set r \<Longrightarrow> c \<in> set q \<Longrightarrow> r = q"
  by (induction rs) (auto simp: relations_ok_Cons)

lemma relation_for_iff:
  "relations_ok clips rs \<Longrightarrow> relation_for rs c = Some r \<longleftrightarrow> r \<in> set rs \<and> c \<in> set r"
  using relation_for_Some[of rs c] relation_for_None[of rs c] component_unique[of clips rs]
  by (cases "relation_for rs c") blast+

section \<open>Merging\<close>

lemma merge_pass_result:
  assumes "relations_ok clips rs" "os_ok members" "merge_pass rs retained members = (kept, merged)"
  shows "kept = retained @ filter (\<lambda>r. set r \<inter> set members = {}) rs
    \<and> set merged = set members \<union> (\<Union>r\<in>{r \<in> set rs. set r \<inter> set members \<noteq> {}}. set r) \<and> os_ok merged"
  using assms
proof (induction rs arbitrary: retained members)
  case (Cons r rs)
  have rs: "relations_ok clips rs" and apart: "\<forall>q\<in>set rs. set r \<inter> set q = {}"
    using Cons.prems(1) by (simp_all add: relations_ok_Cons)
  show ?case
  proof (cases "set r \<inter> set members = {}")
    case True
    then have run: "merge_pass rs (retained @ [r]) members = (kept, merged)"
      using Cons.prems(3) by (simp add: os_disjoint_iff)
    have "{q \<in> set (r # rs). set q \<inter> set members \<noteq> {}} = {q \<in> set rs. set q \<inter> set members \<noteq> {}}" using True by auto
    with Cons.IH[OF rs Cons.prems(2) run] True show ?thesis by simp
  next
    case False
    then have run: "merge_pass rs retained (os_extend members r) = (kept, merged)"
      using Cons.prems(3) by (simp add: os_disjoint_iff)
    have ok: "os_ok (os_extend members r)" using Cons.prems(2) by simp
    have same: "set q \<inter> set (os_extend members r) = {} \<longleftrightarrow> set q \<inter> set members = {}" if "q \<in> set rs" for q
      using apart that by auto
    have "filter (\<lambda>q. set q \<inter> set (os_extend members r) = {}) rs = filter (\<lambda>q. set q \<inter> set members = {}) rs"
      using same by (intro filter_cong) auto
    moreover have "{q \<in> set rs. set q \<inter> set (os_extend members r) \<noteq> {}} = {q \<in> set rs. set q \<inter> set members \<noteq> {}}"
      using same by auto
    moreover have "{q \<in> set (r # rs). set q \<inter> set members \<noteq> {}} = insert r {q \<in> set rs. set q \<inter> set members \<noteq> {}}"
      using False by auto
    ultimately show ?thesis using Cons.IH[OF rs ok run] False by (simp add: Un_assoc)
  qed
qed auto

definition absorbed :: "clip_relation list \<Rightarrow> clip_id set \<Rightarrow> clip_id set" where
  "absorbed rs M = M \<union> (\<Union>r\<in>{r \<in> set rs. set r \<inter> M \<noteq> {}}. set r)"

lemma merge_relation_result:
  assumes rs: "relations_ok clips rs" and m: "component_ok clips members"
  obtains merged where "set merged = absorbed rs (set members)" "component_ok clips merged"
    "set (merge_relation rs members) = insert merged {r \<in> set rs. set r \<inter> set members = {}}"
    "relations_ok clips (merge_relation rs members)"
proof -
  obtain kept merged where run: "merge_pass rs [] members = (kept, merged)" by (cases "merge_pass rs [] members")
  have mok: "os_ok members" using m by (simp add: component_ok_def)
  note res = merge_pass_result[OF rs mok run]
  have set_: "set merged = absorbed rs (set members)" using res by (simp add: absorbed_def)
  have sub: "set merged \<subseteq> clips" using m rs unfolding set_ absorbed_def by (auto simp: component_ok_def relations_ok_def)
  have "length members \<le> length merged"
    using os_length[OF mok] os_length[of merged] res card_mono[OF finite_set[of merged], of "set members"] by simp
  then have comp: "component_ok clips merged" using m sub res by (simp add: component_ok_def)
  have apart: "\<forall>r\<in>set kept. set r \<inter> set merged = {}"
  proof
    fix r assume r: "r \<in> set kept"
    then have "r \<in> set rs" "set r \<inter> set members = {}" using res by auto
    moreover have "set r \<inter> set q = {}" if "q \<in> set rs" "set q \<inter> set members \<noteq> {}" for q
      using component_unique[OF rs \<open>r \<in> set rs\<close> that(1)] calculation(2) that(2) by blast
    ultimately show "set r \<inter> set merged = {}" unfolding set_ absorbed_def by blast
  qed
  have "relations_ok clips kept" using res relations_ok_sublist[OF rs] by simp
  then have "relations_ok clips (kept @ [merged])" using comp apart by (auto simp: relations_ok_append relations_ok_Cons)
  then have "relations_ok clips (merge_relation rs members)" by (simp add: merge_relation_def run)
  moreover have "set (merge_relation rs members) = insert merged {r \<in> set rs. set r \<inter> set members = {}}"
    using res by (auto simp: merge_relation_def run)
  ultimately show ?thesis using that set_ comp by blast
qed

section \<open>Validation of the relations\<close>

lemma validate_members_iff:
  "distinct cs \<Longrightarrow> (validate_members operation ids claimed cs = Inr claimed')
    \<Longrightarrow> set cs \<subseteq> set ids \<and> set cs \<inter> set claimed = {} \<and> set claimed' = set claimed \<union> set cs"
proof (induction cs arbitrary: claimed)
  case (Cons c cs)
  then show ?case using Cons.IH[of "os_insert c claimed"] by (simp add: List.member_iff split: if_splits)
qed simp

lemma validate_members_ok:
  "distinct cs \<Longrightarrow> set cs \<subseteq> set ids \<Longrightarrow> set cs \<inter> set claimed = {}
    \<Longrightarrow> \<exists>claimed'. validate_members operation ids claimed cs = Inr claimed' \<and> set claimed' = set claimed \<union> set cs"
proof (induction cs arbitrary: claimed)
  case (Cons c cs)
  then show ?case using Cons.IH[of "os_insert c claimed"] by (simp add: List.member_iff)
qed simp

lemma validate_components_iff:
  assumes "\<forall>r\<in>set rs. os_ok r"
  shows "validate_components operation ids claimed rs = Inr ()
    \<longleftrightarrow> relations_ok (set ids) rs \<and> (\<forall>r\<in>set rs. set r \<inter> set claimed = {})"
  using assms
proof (induction rs arbitrary: claimed)
  case (Cons r rs)
  have d: "distinct r" using Cons.prems by (simp add: os_distinct)
  show ?case
  proof
    assume "validate_components operation ids claimed (r # rs) = Inr ()"
    then obtain claimed' where m: "validate_members operation ids claimed r = Inr claimed'"
      "validate_components operation ids claimed' rs = Inr ()" and len: "2 \<le> length r"
      by (auto simp: bindR_Inr require_relationship_size_def split: if_splits)
    from validate_members_iff[OF d m(1)] Cons.IH[of claimed'] m(2) len Cons.prems
    show "relations_ok (set ids) (r # rs) \<and> (\<forall>q\<in>set (r # rs). set q \<inter> set claimed = {})"
      by (auto simp: relations_ok_Cons component_ok_def)
  next
    assume ok: "relations_ok (set ids) (r # rs) \<and> (\<forall>q\<in>set (r # rs). set q \<inter> set claimed = {})"
    then obtain claimed' where m: "validate_members operation ids claimed r = Inr claimed'" "set claimed' = set claimed \<union> set r"
      using validate_members_ok[OF d, of ids claimed operation] by (auto simp: relations_ok_Cons component_ok_def)
    have "validate_components operation ids claimed' rs = Inr ()"
      using Cons.IH[of claimed'] ok m(2) Cons.prems by (auto simp: relations_ok_Cons)
    then show "validate_components operation ids claimed (r # rs) = Inr ()"
      using m(1) ok by (simp add: relations_ok_Cons component_ok_def require_relationship_size_def)
  qed
qed simp

lemma validate_relations_iff:
  "\<forall>r\<in>set rs. os_ok r \<Longrightarrow> validate_relations operation rs ids = Inr () \<longleftrightarrow> relations_ok (set ids) rs"
  by (simp add: validate_relations_def validate_components_iff)

section \<open>Valid states\<close>

definition timeline_objects :: "track list \<Rightarrow> editorial_object_id set" where
  "timeline_objects tracks = (\<Union>t\<in>set tracks. item_id ` set (tk_items t))"

definition timeline_clips :: "track list \<Rightarrow> clip_id set" where
  "timeline_clips tracks = {c. OClip c \<in> timeline_objects tracks}"

definition state_fits :: "track \<Rightarrow> track_edit_state \<Rightarrow> bool" where
  "state_fits t st \<longleftrightarrow> MIN_TRACK_HEIGHT \<le> te_height st \<and> te_height st \<le> MAX_TRACK_HEIGHT
     \<and> (ts_kind (tk_semantics t) \<noteq> AudioKind \<longrightarrow> \<not> te_muted st \<and> \<not> te_solo st)"

text \<open>What the ordered collections are by construction, and what the validation adds.\<close>

definition es_formed :: "timeline_edit_state \<Rightarrow> bool" where
  "es_formed s \<longleftrightarrow> os_ok (es_selected s) \<and> om_ok (es_tracks s)
     \<and> (\<forall>r\<in>set (es_links s). os_ok r) \<and> (\<forall>r\<in>set (es_groups s). os_ok r)"

definition es_valid :: "track list \<Rightarrow> timeline_edit_state \<Rightarrow> bool" where
  "es_valid tracks s \<longleftrightarrow> os_ok (es_selected s) \<and> om_ok (es_tracks s)
     \<and> dom (map_of (es_tracks s)) = tk_id ` set tracks
     \<and> (\<forall>t\<in>set tracks. \<forall>st. map_of (es_tracks s) (tk_id t) = Some st \<longrightarrow> state_fits t st)
     \<and> set (es_selected s) \<subseteq> timeline_objects tracks
     \<and> relations_ok (timeline_clips tracks) (es_links s) \<and> relations_ok (timeline_clips tracks) (es_groups s)"

lemma es_valid_formed: "es_valid tracks s \<Longrightarrow> es_formed s"
  by (simp add: es_valid_def es_formed_def relations_ok_def component_ok_def)

lemma set_object_ids [simp]: "set (object_ids tracks) = timeline_objects tracks"
  by (auto simp: object_ids_def timeline_objects_def)

lemma clip_of_object_Some: "clip_of_object x = Some c \<longleftrightarrow> x = OClip c"
  by (cases x) auto

lemma set_clips: "set (List.map_filter clip_of_object xs) = {c. OClip c \<in> set xs}"
  by (induction xs) (auto simp: map_filter_def clip_of_object_Some split: option.splits)

lemma set_map_filter_rel: "set (List.map_filter f xs) = {y. \<exists>x\<in>set xs. f x = Some y}"
  by (induction xs) (auto simp: map_filter_def split: option.splits)

lemma timeline_ids_sets:
  "timeline_ids tracks = (ids, objects, clips) \<Longrightarrow>
     set ids = tk_id ` set tracks \<and> os_ok ids \<and> set objects = timeline_objects tracks \<and> set clips = timeline_clips tracks"
  by (auto simp: timeline_ids_def set_clips timeline_clips_def)

lemma timeline_ids_eq:
  obtains ids objects clips where "timeline_ids tracks = (ids, objects, clips)" "set ids = tk_id ` set tracks" "os_ok ids"
    "set objects = timeline_objects tracks" "set clips = timeline_clips tracks"
  using timeline_ids_sets that by (metis prod_cases3)

lemma validate_track_states_result:
  assumes "tk_id ` set tracks \<subseteq> dom (map_of states)"
  shows "\<exists>r. validate_track_states states tracks = Some r
    \<and> (r = Inr () \<longleftrightarrow> (\<forall>t\<in>set tracks. \<forall>st. map_of states (tk_id t) = Some st \<longrightarrow> state_fits t st))"
  using assms
proof (induction tracks)
  case (Cons t tracks)
  then obtain st where st: "map_of states (tk_id t) = Some st" by auto
  show ?case
  proof (cases "state_fits t st")
    case True
    with Cons st show ?thesis by (auto simp: state_fits_def)
  next
    case False
    with st show ?thesis by (auto simp: state_fits_def)
  qed
qed simp

lemma keys_cover:
  assumes "om_ok m" "os_ok ids"
  shows "(length m \<noteq> length ids \<or> list_ex (\<lambda>(k, _). \<not> List.member ids k) m) \<longleftrightarrow> dom (map_of m) \<noteq> set ids"
proof -
  have m: "length m = card (dom (map_of m))"
    using os_length[of "map fst m"] assms(1) by (simp add: om_ok_def om_keys_dom)
  have i: "length ids = card (set ids)" by (rule os_length[OF assms(2)])
  have ex: "list_ex (\<lambda>(k, _). \<not> List.member ids k) m \<longleftrightarrow> \<not> dom (map_of m) \<subseteq> set ids"
    unfolding om_keys_dom[symmetric] by (force simp: list_ex_iff List.member_iff)
  show ?thesis
    using card_subset_eq[of "set ids" "dom (map_of m)"] unfolding ex m i by auto
qed

lemma es_validate_result:
  assumes "es_formed s"
  shows "es_validate s tracks \<noteq> None \<and> (es_validate s tracks = Some (Inr ()) \<longleftrightarrow> es_valid tracks s)"
proof -
  obtain ids objects clips where ids: "timeline_ids tracks = (ids, objects, clips)" "set ids = tk_id ` set tracks" "os_ok ids"
    "set objects = timeline_objects tracks" "set clips = timeline_clips tracks" by (rule timeline_ids_eq)
  have f: "om_ok (es_tracks s)" "\<forall>r\<in>set (es_links s). os_ok r" "\<forall>r\<in>set (es_groups s). os_ok r" "os_ok (es_selected s)"
    using assms by (simp_all add: es_formed_def)
  note cover = keys_cover[OF f(1) ids(3)]
  have sel: "list_ex (\<lambda>x. \<not> List.member objects x) (es_selected s) \<longleftrightarrow> \<not> set (es_selected s) \<subseteq> timeline_objects tracks"
    using ids(4) by (auto simp: list_ex_iff List.member_iff)
  have rel: "bindR (validate_relations ''validate_links'' (es_links s) clips) (\<lambda>_.
        validate_relations ''validate_groups'' (es_groups s) clips) = Inr ()
      \<longleftrightarrow> relations_ok (timeline_clips tracks) (es_links s) \<and> relations_ok (timeline_clips tracks) (es_groups s)"
    using validate_relations_iff[OF f(2)] validate_relations_iff[OF f(3)] ids(5) by (auto simp: bindR_Inr)
  show ?thesis
  proof (cases "dom (map_of (es_tracks s)) = tk_id ` set tracks")
    case False
    then show ?thesis using cover ids by (simp add: es_validate_def es_valid_def)
  next
    case True
    then obtain r where r: "validate_track_states (es_tracks s) tracks = Some r"
      "r = Inr () \<longleftrightarrow> (\<forall>t\<in>set tracks. \<forall>st. map_of (es_tracks s) (tk_id t) = Some st \<longrightarrow> state_fits t st)"
      using validate_track_states_result[of tracks "es_tracks s"] by auto
    have nc: "\<not> (length (es_tracks s) \<noteq> length ids \<or> list_ex (\<lambda>(k, _). \<not> List.member ids k) (es_tracks s))"
      using cover True ids(2) by simp
    have unf: "es_validate s tracks = (case r of Inl e \<Rightarrow> Some (Inl e) | Inr _ \<Rightarrow>
        if list_ex (\<lambda>x. \<not> List.member objects x) (es_selected s)
        then Some (Inl (es_not_found ''validate_edit_state'' ''selection references a missing editorial object''
                            ''timeline'' ''selection''))
        else Some (bindR (validate_relations ''validate_links'' (es_links s) clips) (\<lambda>_.
                       validate_relations ''validate_groups'' (es_groups s) clips)))"
      unfolding es_validate_def ids(1) using nc r(1) by (simp split: sum.splits)
    show ?thesis
    proof (cases r)
      case (Inl e)
      then show ?thesis using unf r(2) by (auto simp: es_valid_def)
    next
      case (Inr u)
      then have u: "r = Inr ()" by simp
      show ?thesis unfolding unf u using r(2) u sel rel f True by (simp add: es_valid_def)
    qed
  qed
qed

lemma checked_clips_ok:
  "checked_clips operation clips tracks = Inr members \<longleftrightarrow> members = os_of clips \<and> set clips \<subseteq> timeline_clips tracks"
proof -
  obtain ids objects avail where ids: "timeline_ids tracks = (ids, objects, avail)" "set avail = timeline_clips tracks"
    by (rule timeline_ids_eq)
  have "(find (\<lambda>c. \<not> List.member avail c) (os_of clips) = None) \<longleftrightarrow> set clips \<subseteq> timeline_clips tracks"
    by (auto simp: find_None_iff List.member_iff ids(2))
  then show ?thesis by (auto simp: checked_clips_def ids(1) split: option.splits)
qed

section \<open>The operations keep a valid state\<close>

text \<open>Every link lies inside one group or outside all of them.\<close>

definition links_inside :: "timeline_edit_state \<Rightarrow> bool" where
  "links_inside s \<longleftrightarrow> (\<forall>l\<in>set (es_links s). \<forall>g\<in>set (es_groups s). set l \<inter> set g = {} \<or> set l \<subseteq> set g)"

lemma initial_states:
  assumes "om_ok m"
  shows "om_ok (fold (\<lambda>t m. om_insert (tk_id t) (te_new (tk_id t)) m) tracks m)
      \<and> (\<forall>k st. map_of (fold (\<lambda>t m. om_insert (tk_id t) (te_new (tk_id t)) m) tracks m) k = Some st \<longrightarrow> map_of m k = Some st \<or> st = te_new k)
      \<and> dom (map_of (fold (\<lambda>t m. om_insert (tk_id t) (te_new (tk_id t)) m) tracks m)) = dom (map_of m) \<union> tk_id ` set tracks"
  using assms
proof (induction tracks arbitrary: m)
  case (Cons t tracks)
  have ok: "om_ok (om_insert (tk_id t) (te_new (tk_id t)) m)" using Cons.prems by simp
  from Cons.IH[OF ok] Cons.prems show ?case by (auto split: if_splits)
qed simp

lemma te_new_fits [simp]: "state_fits t (te_new k)"
  by (simp add: state_fits_def te_new_def MIN_TRACK_HEIGHT_def MAX_TRACK_HEIGHT_def DEFAULT_TRACK_HEIGHT_def)

lemma es_from_tracks_valid: "es_valid tracks (es_from_tracks tracks) \<and> links_inside (es_from_tracks tracks)"
proof -
  define m where "m = fold (\<lambda>t m. om_insert (tk_id t) (te_new (tk_id t)) m) tracks []"
  have m: "om_ok m" "\<forall>k st. map_of m k = Some st \<longrightarrow> st = te_new k" "dom (map_of m) = tk_id ` set tracks"
    using initial_states[OF om_ok_simps(1), of tracks, folded m_def] by (blast, force, simp)
  have "es_from_tracks tracks = \<lparr>es_selected = [], es_tracks = m, es_linked = True, es_links = [], es_groups = []\<rparr>"
    by (simp add: es_from_tracks_def m_def)
  moreover have "state_fits t st" if "map_of m (tk_id t) = Some st" for t st
  proof -
    have "st = te_new (tk_id t)" using m(2) that by blast
    then show ?thesis by (simp only: te_new_fits)
  qed
  ultimately show ?thesis using m(1,3) by (simp add: es_valid_def links_inside_def)
qed

lemma update_track_state_valid:
  assumes s: "es_valid tracks s" and run: "update_track_state s operation k f = Inr s'"
    and f: "\<And>t st. t \<in> set tracks \<Longrightarrow> tk_id t = k \<Longrightarrow> state_fits t st \<Longrightarrow> state_fits t (f st)"
  shows "es_valid tracks s' \<and> (links_inside s \<longrightarrow> links_inside s')"
proof -
  from run have s': "s' = s\<lparr>es_tracks := om_update k f (es_tracks s)\<rparr>" by (simp add: update_track_state_def split: if_splits)
  have "state_fits t st" if "t \<in> set tracks" "map_of (es_tracks s') (tk_id t) = Some st" for t st
    using that s f s' by (auto simp: es_valid_def split: if_splits)
  then show ?thesis using s s' by (simp add: es_valid_def links_inside_def)
qed

text \<open>Growing the groups by a set that no link straddles.\<close>

lemma groups_absorb:
  assumes s: "es_valid tracks s" "links_inside s" and m: "component_ok (timeline_clips tracks) members"
    and l: "\<forall>l\<in>set links. (\<exists>q\<in>set (es_links s). set l = set q) \<and> set l \<inter> set members = {} \<or> set l \<subseteq> set members"
    and g': "g' \<in> set (merge_relation (es_groups s) members)" and ll: "k \<in> set links"
  shows "set k \<inter> set g' = {} \<or> set k \<subseteq> set g'"
proof -
  have rel: "relations_ok (timeline_clips tracks) (es_groups s)" using s(1) by (simp add: es_valid_def)
  obtain merged where merged: "set merged = absorbed (es_groups s) (set members)"
    "set (merge_relation (es_groups s) members) = insert merged {r \<in> set (es_groups s). set r \<inter> set members = {}}"
    by (rule merge_relation_result[OF rel m])
  have k: "(\<exists>q\<in>set (es_links s). set k = set q) \<and> set k \<inter> set members = {} \<or> set k \<subseteq> set members" using l ll by blast
  have old: "set k \<inter> set g = {} \<or> set k \<subseteq> set g" if "g \<in> set (es_groups s)" "\<exists>q\<in>set (es_links s). set k = set q" for g
    using s(2) that by (auto simp: links_inside_def)
  show ?thesis
  proof (cases "g' = merged")
    case True
    show ?thesis
    proof (cases "set k \<subseteq> set members")
      case True
      then show ?thesis using \<open>g' = merged\<close> merged(1) by (auto simp: absorbed_def)
    next
      case False
      with k have q: "\<exists>q\<in>set (es_links s). set k = set q" "set k \<inter> set members = {}" by auto
      show ?thesis
      proof (cases "\<exists>g\<in>set (es_groups s). set g \<inter> set members \<noteq> {} \<and> set k \<inter> set g \<noteq> {}")
        case True
        then obtain g where "g \<in> set (es_groups s)" "set g \<inter> set members \<noteq> {}" "set k \<subseteq> set g" using old q(1) by blast
        then show ?thesis unfolding \<open>g' = merged\<close> merged(1) absorbed_def by blast
      next
        case False
        then show ?thesis unfolding \<open>g' = merged\<close> merged(1) absorbed_def using q(2) by blast
      qed
    qed
  next
    case False
    then have "g' \<in> set (es_groups s)" "set g' \<inter> set members = {}" using g' merged(2) by auto
    then show ?thesis using k old by blast
  qed
qed

lemma link_clips_valid:
  assumes s: "es_valid tracks s"
  shows "\<exists>r. link_clips s clips tracks = Some r \<and> (\<forall>s'. r = Inr s' \<longrightarrow> es_valid tracks s' \<and> (links_inside s \<longrightarrow> links_inside s')
       \<and> (\<exists>l\<in>set (es_links s'). set l = absorbed (es_links s) (set clips)))"
proof -
  let ?C = "timeline_clips tracks" and ?m = "os_of clips"
  have rel: "relations_ok ?C (es_links s)" "relations_ok ?C (es_groups s)" using s by (simp_all add: es_valid_def)
  show ?thesis
  proof (cases "set clips \<subseteq> ?C \<and> 2 \<le> length ?m")
    case False
    have "\<exists>e. bindR (checked_clips ''link_clips'' clips tracks) (\<lambda>members.
             bindR (require_relationship_size ''link_clips'' members) (\<lambda>_. Inr members)) = Inl e"
    proof (cases "checked_clips ''link_clips'' clips tracks")
      case (Inr members)
      then have "members = ?m" "length ?m < 2" using checked_clips_ok[THEN iffD1, OF Inr] False by auto
      then show ?thesis by (simp add: Inr require_relationship_size_def)
    qed simp
    then show ?thesis by (auto simp: link_clips_def)
  next
    case True
    then have m: "component_ok ?C ?m" by (simp add: component_ok_def)
    have ck: "bindR (checked_clips ''link_clips'' clips tracks) (\<lambda>members.
             bindR (require_relationship_size ''link_clips'' members) (\<lambda>_. Inr members)) = Inr ?m"
      using checked_clips_ok[of "''link_clips''" clips tracks ?m] True by (auto simp: require_relationship_size_def)
    obtain anchor ms where an: "?m = anchor # ms" using True by (cases ?m) auto
    obtain L where L: "set L = absorbed (es_links s) (set ?m)" "component_ok ?C L"
      "set (merge_relation (es_links s) ?m) = insert L {r \<in> set (es_links s). set r \<inter> set ?m = {}}"
      "relations_ok ?C (merge_relation (es_links s) ?m)" by (rule merge_relation_result[OF rel(1) m])
    have "anchor \<in> set L" unfolding L(1) absorbed_def an by simp
    then have rf: "relation_for (merge_relation (es_links s) ?m) anchor = Some L" using relation_for_iff[OF L(4)] L(3) by simp
    let ?s = "s\<lparr>es_links := merge_relation (es_links s) ?m\<rparr>"
    let ?hit = "list_ex (\<lambda>g. \<not> os_disjoint g L) (es_groups s)"
    let ?r = "if ?hit then ?s\<lparr>es_groups := merge_relation (es_groups s) L\<rparr> else ?s"
    have run: "link_clips s clips tracks = Some (Inr ?r)"
      unfolding link_clips_def ck using rf by (simp add: an Let_def)
    have apart: "set r \<inter> set L = {}" if "r \<in> set (merge_relation (es_links s) ?m)" "r \<noteq> L" for r
      using component_unique[OF L(4) that(1), of L] L(3) that by auto
    have inside: "links_inside ?r" if straight: "links_inside s"
    proof (cases ?hit)
      case True
      have "\<forall>l\<in>set (merge_relation (es_links s) ?m). (\<exists>q\<in>set (es_links s). set l = set q) \<and> set l \<inter> set L = {} \<or> set l \<subseteq> set L"
        using L(3) apart by auto
      from groups_absorb[OF s straight L(2) this] show ?thesis using True by (auto simp: links_inside_def)
    next
      case False
      then have "\<forall>g\<in>set (es_groups s). set L \<inter> set g = {}" by (auto simp: list_ex_iff os_disjoint_iff)
      then show ?thesis using False straight L(3) by (auto simp: links_inside_def)
    qed
    have "relations_ok ?C (merge_relation (es_groups s) L)"
      by (rule merge_relation_result[OF rel(2) L(2)])
    then have "es_valid tracks ?r" using s L(4) by (simp add: es_valid_def)
    moreover have "\<exists>l\<in>set (es_links ?r). set l = absorbed (es_links s) (set clips)" using L(1,3) by auto
    ultimately show ?thesis using run inside by blast
  qed
qed

lemma group_clips_valid:
  assumes s: "es_valid tracks s" and run: "group_clips s clips tracks = Inr s'"
  shows "es_valid tracks s' \<and> (links_inside s \<longrightarrow> links_inside s')
     \<and> (\<exists>g\<in>set (es_groups s'). set g = absorbed (es_groups s) (absorbed (es_links s) (set clips)))"
proof -
  let ?C = "timeline_clips tracks"
  have rel: "relations_ok ?C (es_links s)" "relations_ok ?C (es_groups s)" using s by (simp_all add: es_valid_def)
  let ?m = "os_extend (os_of clips) (concat (List.map_filter (relation_for (es_links s)) (os_of clips)))"
  from run have c: "set clips \<subseteq> ?C" and len: "2 \<le> length ?m"
    and s': "s' = s\<lparr>es_groups := merge_relation (es_groups s) ?m\<rparr>"
    by (auto simp: group_clips_def bindR_Inr checked_clips_ok Let_def require_relationship_size_def split: if_splits)
  have mf: "set (List.map_filter (relation_for (es_links s)) xs) = {l \<in> set (es_links s). set l \<inter> set xs \<noteq> {}}" for xs
    using relation_for_iff[OF rel(1)] by (auto simp: set_map_filter_rel)
  have set_m: "set ?m = absorbed (es_links s) (set clips)" by (simp add: mf absorbed_def)
  then have sub: "set ?m \<subseteq> ?C" using c rel(1) by (auto simp: absorbed_def relations_ok_def component_ok_def)
  have m: "component_ok ?C ?m" using len sub by (simp add: component_ok_def)
  have "\<forall>l\<in>set (es_links s). (\<exists>q\<in>set (es_links s). set l = set q) \<and> set l \<inter> set ?m = {} \<or> set l \<subseteq> set ?m"
  proof
    fix l assume l: "l \<in> set (es_links s)"
    show "(\<exists>q\<in>set (es_links s). set l = set q) \<and> set l \<inter> set ?m = {} \<or> set l \<subseteq> set ?m"
    proof (cases "set l \<inter> set clips = {}")
      case False
      then show ?thesis using l unfolding set_m absorbed_def by blast
    next
      case True
      have "set l \<inter> set q = {}" if "q \<in> set (es_links s)" "set q \<inter> set clips \<noteq> {}" for q
        using component_unique[OF rel(1) l that(1)] that True by blast
      then have "set l \<inter> set ?m = {}" using True unfolding set_m absorbed_def by blast
      then show ?thesis using l by blast
    qed
  qed
  from groups_absorb[OF s _ m this] have inside: "links_inside s \<Longrightarrow> links_inside s'" by (auto simp: links_inside_def s')
  obtain G where G: "set G = absorbed (es_groups s) (set ?m)" "G \<in> set (merge_relation (es_groups s) ?m)"
    "relations_ok ?C (merge_relation (es_groups s) ?m)"
    by (rule merge_relation_result[OF rel(2) m]) auto
  have "es_valid tracks s'" using s s' G(3) by (simp add: es_valid_def)
  then show ?thesis using inside G(1,2) unfolding set_m by (auto simp: s')
qed

lemma unlink_clips_valid:
  assumes s: "es_valid tracks s" and run: "unlink_clips s clips tracks = Inr s'"
  shows "es_valid tracks s' \<and> (links_inside s \<longrightarrow> links_inside s')"
proof -
  let ?P = "\<lambda>c. \<not> List.member (os_of clips) c"
  from run have s': "s' = s\<lparr>es_links := remove_relation_members (es_links s) (os_of clips)\<rparr>"
    by (auto simp: unlink_clips_def bindR_Inr checked_clips_ok)
  have "relations_ok (timeline_clips tracks) (remove_relation_members (es_links s) (os_of clips))"
    unfolding remove_relation_members_def relations_ok_sort
    by (rule relations_ok_filter) (use s in \<open>auto simp: es_valid_def\<close>)
  moreover have "set l \<inter> set g = {} \<or> set l \<subseteq> set g"
    if straight: "links_inside s" and l: "l \<in> set (es_links s')" and g: "g \<in> set (es_groups s')" for l g
  proof -
    obtain q where "q \<in> set (es_links s)" "l = filter ?P q" using l by (auto simp: s' remove_relation_members_def)
    moreover from this(1) g have "set q \<inter> set g = {} \<or> set q \<subseteq> set g" using straight by (simp add: links_inside_def s')
    ultimately show ?thesis by auto
  qed
  ultimately show ?thesis using s by (simp add: es_valid_def links_inside_def s')
qed

lemma ungroup_clips_valid:
  assumes s: "es_valid tracks s" and run: "ungroup_clips s clips tracks = Inr s'"
  shows "es_valid tracks s' \<and> (links_inside s \<longrightarrow> links_inside s') \<and> (\<forall>g\<in>set (es_groups s'). set g \<inter> set clips = {})"
proof -
  from run have s': "s' = s\<lparr>es_groups := filter (\<lambda>r. os_disjoint r (os_of clips)) (es_groups s)\<rparr>"
    by (auto simp: ungroup_clips_def bindR_Inr checked_clips_ok)
  have "relations_ok (timeline_clips tracks) (es_groups s')"
    using s by (simp add: s' es_valid_def relations_ok_sublist)
  then show ?thesis using s by (auto simp: es_valid_def links_inside_def s' os_disjoint_iff)
qed

section \<open>Selection\<close>

text \<open>Two clips are related when a group, or an enabled link, holds both.\<close>

definition related :: "timeline_edit_state \<Rightarrow> (clip_id \<times> clip_id) set" where
  "related s = {(a, b). (\<exists>g\<in>set (es_groups s). a \<in> set g \<and> b \<in> set g)
     \<or> es_linked s \<and> (\<exists>l\<in>set (es_links s). a \<in> set l \<and> b \<in> set l)}"

lemma in_component:
  "relations_ok clips rs \<Longrightarrow> (\<exists>g\<in>set rs. c \<in> set g \<and> x \<in> set g) \<longleftrightarrow> (\<exists>g. relation_for rs c = Some g \<and> x \<in> set g)"
  by (simp add: relation_for_iff) blast

lemma expand_loop_result:
  assumes "relations_ok C (es_links s)" "relations_ok C (es_groups s)"
    "related s `` set visited \<subseteq> set visited \<union> set pending"
  shows "set (expand_loop s visited pending) = set visited \<union> (related s)\<^sup>* `` set pending"
  using assms
proof (induction s visited pending rule: expand_loop.induct)
  case (2 s visited c pending)
  let ?r = "related s"
  show ?case
  proof (cases "c \<in> set visited")
    case True
    have sub: "?r `` set visited \<subseteq> set visited \<union> set pending" using "2.prems"(3) True by auto
    have IH: "set (expand_loop s visited pending) = set visited \<union> ?r\<^sup>* `` set pending"
      by (rule "2.IH"(1)) (use True "2.prems"(1,2) sub in \<open>auto simp: List.member_iff\<close>)
    have "x \<in> set visited \<union> ?r\<^sup>* `` set pending" if "(c, x) \<in> ?r\<^sup>*" for x
      using leaves_closed[OF that True _ sub] by blast
    then show ?thesis using True IH by (auto simp: List.member_iff)
  next
    case False
    let ?v = "os_insert c visited"
    let ?fresh = "\<lambda>r. rev (filter (\<lambda>m. \<not> List.member ?v m) r)"
    let ?p = "case relation_for (es_groups s) c of None \<Rightarrow> pending | Some g \<Rightarrow> ?fresh g @ pending"
    let ?q = "if es_linked s then case relation_for (es_links s) c of None \<Rightarrow> ?p | Some l \<Rightarrow> ?fresh l @ ?p else ?p"
    have mem_p: "x \<in> set ?p \<longleftrightarrow> x \<in> set pending \<or> (x \<notin> set ?v \<and> (\<exists>g\<in>set (es_groups s). c \<in> set g \<and> x \<in> set g))" for x
      unfolding in_component[OF "2.prems"(2)] by (cases "relation_for (es_groups s) c") (auto simp: List.member_iff)
    have mem_q: "x \<in> set ?q \<longleftrightarrow> x \<in> set pending \<or> (x \<notin> set ?v \<and> (c, x) \<in> ?r)" for x
    proof -
      have r: "(c, x) \<in> ?r \<longleftrightarrow> (\<exists>g\<in>set (es_groups s). c \<in> set g \<and> x \<in> set g)
          \<or> es_linked s \<and> (\<exists>g. relation_for (es_links s) c = Some g \<and> x \<in> set g)"
        unfolding related_def in_component[OF "2.prems"(1), symmetric] by simp
      show ?thesis unfolding r using mem_p[of x]
        by (cases "relation_for (es_links s) c"; cases "es_linked s") (simp_all add: List.member_iff, blast+)
    qed
    have closed: "?r `` set ?v \<subseteq> set ?v \<union> set ?q"
      using "2.prems"(3) mem_q by auto
    have IH: "set (expand_loop s ?v ?q) = set ?v \<union> ?r\<^sup>* `` set ?q"
      by (rule "2.IH"(2)[OF _ refl refl refl refl "2.prems"(1,2) closed]) (use False in \<open>simp add: List.member_iff\<close>)
    have new: "\<not> List.member visited c" using False by (simp add: List.member_iff)
    have step: "expand_loop s visited (c # pending) = expand_loop s ?v ?q"
      by (subst expand_loop.simps(2)) (simp only: new if_False Let_def)
    define q where "q = ?q"
    note mem = mem_q[folded q_def] and step = step[folded q_def] and IH = IH[folded q_def] and closed = closed[folded q_def]
    have up: "x \<in> set ?v \<union> ?r\<^sup>* `` set q" if "(c, x) \<in> ?r\<^sup>*" for x
    proof (cases "x \<in> set ?v")
      case False
      then show ?thesis using leaves_closed[OF that _ False closed] by auto
    next
      case True
      then show ?thesis by blast
    qed
    have down: "x \<in> ?r\<^sup>* `` set (c # pending)" if "y \<in> set q" "(y, x) \<in> ?r\<^sup>*" for x y
      using that mem[of y] by (auto intro: converse_rtrancl_into_rtrancl)
    show ?thesis
    proof (intro equalityI subsetI)
      fix x assume "x \<in> set (expand_loop s visited (c # pending))"
      then consider "x \<in> set visited" | "x = c" | y where "y \<in> set q" "(y, x) \<in> ?r\<^sup>*" using IH step by auto
      then show "x \<in> set visited \<union> ?r\<^sup>* `` set (c # pending)" by cases (use down in auto)
    next
      fix x assume "x \<in> set visited \<union> ?r\<^sup>* `` set (c # pending)"
      then consider "x \<in> set visited" | "(c, x) \<in> ?r\<^sup>*" | p where "p \<in> set pending" "(p, x) \<in> ?r\<^sup>*" by auto
      then have "x \<in> set ?v \<union> ?r\<^sup>* `` set q"
      proof cases
        case 3
        then show ?thesis using mem[of p] by blast
      qed (use up in auto)
      then show "x \<in> set (expand_loop s visited (c # pending))" using IH step by simp
    qed
  qed
qed simp

lemma expand_selection_result:
  assumes s: "es_valid tracks s"
  shows "set (expand_selection s requested) = set requested \<union> OClip ` ((related s)\<^sup>* `` {c. OClip c \<in> set requested})"
proof -
  have "set (expand_loop s [] (rev (List.map_filter clip_of_object requested)))
      = (related s)\<^sup>* `` {c. OClip c \<in> set requested}"
    using expand_loop_result[of "timeline_clips tracks" s "[]" "rev (List.map_filter clip_of_object requested)"] s
    by (simp add: es_valid_def set_clips)
  then show ?thesis by (simp add: expand_selection_def)
qed

lemma related_available:
  assumes "es_valid tracks s" "(a, b) \<in> (related s)\<^sup>*" "a \<in> timeline_clips tracks"
  shows "b \<in> timeline_clips tracks"
  using assms(2,3)
proof (induction rule: rtrancl_induct)
  case (step b c)
  then show ?case using assms(1)
    by (auto simp: related_def es_valid_def relations_ok_def component_ok_def)
qed

lemma update_selection_valid:
  assumes s: "es_valid tracks s" and run: "update_selection s objects update expansion tracks = Inr s'"
  shows "es_valid tracks s' \<and> (links_inside s \<longrightarrow> links_inside s')"
    and "set objects \<subseteq> timeline_objects tracks"
    and "set (es_selected s') =
      (let chosen = (case expansion of ExpandDirect \<Rightarrow> set objects
           | ExpandRelated \<Rightarrow> set objects \<union> OClip ` ((related s)\<^sup>* `` {c. OClip c \<in> set objects})) in
       case update of ReplaceSelection \<Rightarrow> chosen | AddSelection \<Rightarrow> set (es_selected s) \<union> chosen
         | RemoveSelection \<Rightarrow> set (es_selected s) - chosen)"
proof -
  obtain ids known clips where ids: "timeline_ids tracks = (ids, known, clips)" "set known = timeline_objects tracks"
    by (rule timeline_ids_eq)
  let ?e = "case expansion of ExpandDirect \<Rightarrow> os_of objects | ExpandRelated \<Rightarrow> expand_selection s (os_of objects)"
  let ?sel = "case update of ReplaceSelection \<Rightarrow> ?e | AddSelection \<Rightarrow> os_extend (es_selected s) ?e
      | RemoveSelection \<Rightarrow> filter (\<lambda>x. \<not> List.member ?e x) (es_selected s)"
  from run have none: "find (\<lambda>x. \<not> List.member known x) (os_of objects) = None" and s': "s' = s\<lparr>es_selected := ?sel\<rparr>"
    by (auto simp: update_selection_def ids(1) Let_def split: option.splits)
  show sub: "set objects \<subseteq> timeline_objects tracks" using none ids(2) by (auto simp: find_None_iff List.member_iff)
  let ?chosen = "case expansion of ExpandDirect \<Rightarrow> set objects
      | ExpandRelated \<Rightarrow> set objects \<union> OClip ` ((related s)\<^sup>* `` {c. OClip c \<in> set objects})"
  have e: "set ?e = ?chosen" using expand_selection_result[OF s, of "os_of objects"] by (simp split: selection_expansion.split)
  have ok: "os_ok ?e" by (simp add: expand_selection_def split: selection_expansion.split)
  show sel: "set (es_selected s') = (let chosen = ?chosen in
       case update of ReplaceSelection \<Rightarrow> chosen | AddSelection \<Rightarrow> set (es_selected s) \<union> chosen
         | RemoveSelection \<Rightarrow> set (es_selected s) - chosen)"
    using e s' by (auto simp: Let_def List.member_iff split: selection_update.split)
  have "?chosen \<subseteq> timeline_objects tracks"
    using sub related_available[OF s] by (auto simp: timeline_clips_def split: selection_expansion.split)
  then have "set (es_selected s') \<subseteq> timeline_objects tracks"
    using sel s by (auto simp: es_valid_def Let_def split: selection_update.splits)
  moreover have "os_ok (es_selected s')" using ok s s' by (simp add: es_valid_def split: selection_update.split)
  ultimately show "es_valid tracks s' \<and> (links_inside s \<longrightarrow> links_inside s')" using s s' by (simp add: es_valid_def links_inside_def)
qed

section \<open>Reconciliation and transfer\<close>

lemma ensured_states:
  assumes "om_ok m"
  shows "om_ok (fold (\<lambda>k m. if om_has m k then m else om_insert k (te_new k) m) ks m)
    \<and> dom (map_of (fold (\<lambda>k m. if om_has m k then m else om_insert k (te_new k) m) ks m)) = dom (map_of m) \<union> set ks
    \<and> (\<forall>k st. map_of (fold (\<lambda>k m. if om_has m k then m else om_insert k (te_new k) m) ks m) k = Some st
         \<longrightarrow> map_of m k = Some st \<or> map_of m k = None \<and> st = te_new k)"
  using assms
proof (induction ks arbitrary: m)
  case (Cons k ks)
  show ?case
  proof (cases "om_has m k")
    case True
    then show ?thesis using Cons.IH[OF Cons.prems] by (auto simp: om_has_dom)
  next
    case False
    have ok: "om_ok (om_insert k (te_new k) m)" using Cons.prems by simp
    from Cons.IH[OF ok] Cons.prems False show ?thesis by (auto simp: om_has_def split: if_splits)
  qed
qed simp

text \<open>
  After the tracks changed: what stays is cut down to what is left, and every new track gets the
  default flags. The tracks present before keep their kind.
\<close>

lemma reconcile_valid:
  assumes s: "es_formed s" "relations_ok C (es_links s)" "relations_ok C (es_groups s)" "links_inside s"
    and fit: "\<forall>t\<in>set tracks. \<forall>st. map_of (es_tracks s) (tk_id t) = Some st \<longrightarrow> state_fits t st"
  shows "es_valid tracks (reconcile s tracks) \<and> links_inside (reconcile s tracks)
    \<and> set (es_selected (reconcile s tracks)) = set (es_selected s) \<inter> timeline_objects tracks"
proof -
  obtain ids known clips where ids: "timeline_ids tracks = (ids, known, clips)" "set ids = tk_id ` set tracks" "os_ok ids"
    "set known = timeline_objects tracks" "set clips = timeline_clips tracks" by (rule timeline_ids_eq)
  let ?kept = "filter (\<lambda>(k, _). List.member ids k) (es_tracks s)"
  let ?m = "fold (\<lambda>k m. if om_has m k then m else om_insert k (te_new k) m) ids ?kept"
  have r: "reconcile s tracks = s\<lparr>es_tracks := ?m, es_selected := filter (List.member known) (es_selected s),
      es_links := reconcile_relations (es_links s) clips, es_groups := reconcile_relations (es_groups s) clips\<rparr>"
    by (simp add: reconcile_def ids(1) Let_def)
  have ok: "om_ok ?kept" using s(1) by (simp add: es_formed_def)
  have kept: "map_of ?kept k = (if k \<in> set ids then map_of (es_tracks s) k else None)" for k
    by (simp add: map_of_filter_key List.member_iff)
  note m = ensured_states[OF ok, of ids]
  have dom_m: "dom (map_of ?m) = tk_id ` set tracks" using m kept ids(2) by (auto simp: dom_def split: if_splits)
  have fits: "state_fits t st" if t: "t \<in> set tracks" "map_of ?m (tk_id t) = Some st" for t st
  proof -
    have "map_of ?kept (tk_id t) = Some st \<or> st = te_new (tk_id t)" using m t(2) by blast
    then show ?thesis using fit t(1) kept[of "tk_id t"] by (auto split: if_splits)
  qed
  have rel: "relations_ok (timeline_clips tracks) (reconcile_relations rs clips)" if "relations_ok C rs" for rs
    unfolding reconcile_relations_def relations_ok_sort
    by (rule relations_ok_filter[OF that]) (simp add: List.member_iff ids(5))
  have inside: "set l \<inter> set g = {} \<or> set l \<subseteq> set g"
    if "l \<in> set (reconcile_relations (es_links s) clips)" "g \<in> set (reconcile_relations (es_groups s) clips)" for l g
  proof -
    have "l \<in> filter (List.member clips) ` set (es_links s)" using that(1)
      unfolding reconcile_relations_def set_sort_relations set_filter set_map by blast
    then obtain l' where l': "l' \<in> set (es_links s)" "l = filter (List.member clips) l'" by blast
    have "g \<in> filter (List.member clips) ` set (es_groups s)" using that(2)
      unfolding reconcile_relations_def set_sort_relations set_filter set_map by blast
    then obtain g' where g': "g' \<in> set (es_groups s)" "g = filter (List.member clips) g'" by blast
    have "set l' \<inter> set g' = {} \<or> set l' \<subseteq> set g'" using s(4) l'(1) g'(1) by (simp add: links_inside_def)
    then show ?thesis using l'(2) g'(2) by auto
  qed
  have sel: "set (filter (List.member known) (es_selected s)) = set (es_selected s) \<inter> timeline_objects tracks"
    by (auto simp: List.member_iff ids(4))
  have "os_ok (filter (List.member known) (es_selected s))" using s(1) by (simp add: es_formed_def)
  then show ?thesis unfolding r using m dom_m fits rel[OF s(2)] rel[OF s(3)] inside sel
    by (simp add: es_valid_def links_inside_def)
qed

text \<open>A clip replaced by a fresh one takes over its place in the selection and in both relations.\<close>

lemma transfer_formed:
  assumes "es_formed s" and run: "transfer_clip_intent s removed inserted tracks = Some (Inr u, s')"
  shows "es_valid tracks s'"
proof -
  let ?sel = "if List.member (es_selected s) (OClip removed)
      then os_insert (OClip inserted) (os_remove (OClip removed) (es_selected s)) else es_selected s"
  from run have s': "s' = s\<lparr>es_selected := ?sel, es_links := replace_relation_member (es_links s) removed inserted,
      es_groups := replace_relation_member (es_groups s) removed inserted\<rparr>"
    and v: "es_validate s' tracks = Some (Inr ())"
    by (auto simp: transfer_clip_intent_def Let_def)
  have "es_formed s'" using assms(1) by (auto simp: es_formed_def s' replace_relation_member_def)
  then show ?thesis using es_validate_result v by blast
qed

lemma transfer_inside:
  assumes s: "links_inside s" "relation_for (es_links s) inserted = None" "relation_for (es_groups s) inserted = None"
    and run: "transfer_clip_intent s removed inserted tracks = Some (Inr u, s')"
  shows "links_inside s'"
proof -
  from run have s': "es_links s' = replace_relation_member (es_links s) removed inserted"
    "es_groups s' = replace_relation_member (es_groups s) removed inserted"
    by (auto simp: transfer_clip_intent_def Let_def)
  let ?h = "\<lambda>r. if List.member r removed then os_insert inserted (os_remove removed r) else r"
  have "set l \<inter> set g = {} \<or> set l \<subseteq> set g" if "l \<in> set (es_links s')" "g \<in> set (es_groups s')" for l g
  proof -
    have "l \<in> ?h ` set (es_links s)" using that(1) unfolding s' replace_relation_member_def set_sort_relations set_map .
    then obtain l' where l': "l' \<in> set (es_links s)" "l = ?h l'" by blast
    have "g \<in> ?h ` set (es_groups s)" using that(2) unfolding s' replace_relation_member_def set_sort_relations set_map .
    then obtain g' where g': "g' \<in> set (es_groups s)" "g = ?h g'" by blast
    have n: "inserted \<notin> set l'" "inserted \<notin> set g'" using s(2,3) l'(1) g'(1) by (auto simp: relation_for_None)
    have "set l' \<inter> set g' = {} \<or> set l' \<subseteq> set g'" using s(1) l'(1) g'(1) by (simp add: links_inside_def)
    then show ?thesis using n l'(2) g'(2) by (cases "removed \<in> set l'"; cases "removed \<in> set g'") (auto simp: List.member_iff)
  qed
  then show ?thesis by (simp add: links_inside_def)
qed

end
