(* ===== verification/EditStateProps.thy ===== *)
theory EditStateProps
  imports EditStateLaws EditProps
begin

text \<open>
  The properties of the edit state: every sequence of successful calls keeps a state that the
  validation accepts and in which no link straddles a group, ordinary selection is the closure
  under both relations, and reconciliation after an edit restores validity.
\<close>

section \<open>Runs\<close>

text \<open>The guard of \<open>Timeline::set_track_muted\<close> and \<open>Timeline::set_track_solo\<close>.\<close>

definition timeline_set_track_muted ::
  "track list \<Rightarrow> timeline_edit_state \<Rightarrow> track_id \<Rightarrow> bool \<Rightarrow> timeline_edit_state result" where
  "timeline_set_track_muted tracks s ident muted =
     (if muted \<and> (case find (\<lambda>t. tk_id t = ident) tracks of None \<Rightarrow> False | Some t \<Rightarrow> ts_kind (tk_semantics t) \<noteq> AudioKind)
      then Inl (invalid_model ''set_track_muted'' ''mute state is supported only for audio tracks'')
      else set_track_muted s ident muted)"

definition timeline_set_track_solo ::
  "track list \<Rightarrow> timeline_edit_state \<Rightarrow> track_id \<Rightarrow> bool \<Rightarrow> timeline_edit_state result" where
  "timeline_set_track_solo tracks s ident solo =
     (if solo \<and> (case find (\<lambda>t. tk_id t = ident) tracks of None \<Rightarrow> False | Some t \<Rightarrow> ts_kind (tk_semantics t) \<noteq> AudioKind)
      then Inl (invalid_model ''set_track_solo'' ''solo state is supported only for audio tracks'')
      else set_track_solo s ident solo)"

text \<open>
  One call of the timeline that changes the state and succeeds, while the tracks stay. With
  \<open>fresh\<close> a clip's intent is only transferred to a clip that is in no relation yet.
\<close>

inductive es_step :: "track list \<Rightarrow> bool \<Rightarrow> timeline_edit_state \<Rightarrow> timeline_edit_state \<Rightarrow> bool" for tracks fresh where
  step_linked: "es_step tracks fresh s (set_linked_selection_enabled s enabled)"
| step_targeted: "set_track_targeted s k b = Inr s' \<Longrightarrow> es_step tracks fresh s s'"
| step_height: "set_track_height s k h = Inr s' \<Longrightarrow> es_step tracks fresh s s'"
| step_locked: "set_track_locked s k b = Inr s' \<Longrightarrow> es_step tracks fresh s s'"
| step_sync: "set_track_sync_locked s k b = Inr s' \<Longrightarrow> es_step tracks fresh s s'"
| step_enabled: "set_track_enabled s k b = Inr s' \<Longrightarrow> es_step tracks fresh s s'"
| step_muted: "timeline_set_track_muted tracks s k b = Inr s' \<Longrightarrow> es_step tracks fresh s s'"
| step_solo: "timeline_set_track_solo tracks s k b = Inr s' \<Longrightarrow> es_step tracks fresh s s'"
| step_select: "update_selection s objects update expansion tracks = Inr s' \<Longrightarrow> es_step tracks fresh s s'"
| step_link: "link_clips s clips tracks = Some (Inr s') \<Longrightarrow> es_step tracks fresh s s'"
| step_unlink: "unlink_clips s clips tracks = Inr s' \<Longrightarrow> es_step tracks fresh s s'"
| step_group: "group_clips s clips tracks = Inr s' \<Longrightarrow> es_step tracks fresh s s'"
| step_ungroup: "ungroup_clips s clips tracks = Inr s' \<Longrightarrow> es_step tracks fresh s s'"
| step_transfer: "transfer_clip_intent s removed inserted tracks = Some (Inr (), s') \<Longrightarrow>
    (fresh \<Longrightarrow> relation_for (es_links s) inserted = None \<and> relation_for (es_groups s) inserted = None) \<Longrightarrow>
    es_step tracks fresh s s'"

lemma find_track: "distinct (map tk_id tracks) \<Longrightarrow> t \<in> set tracks \<Longrightarrow> find (\<lambda>u. tk_id u = tk_id t) tracks = Some t"
  by (induction tracks) auto

lemma muted_guard:
  assumes "distinct (map tk_id tracks)" "t \<in> set tracks" "tk_id t = k"
    "\<not> (b \<and> (case find (\<lambda>t. tk_id t = k) tracks of None \<Rightarrow> False | Some t \<Rightarrow> ts_kind (tk_semantics t) \<noteq> AudioKind))"
  shows "ts_kind (tk_semantics t) \<noteq> AudioKind \<Longrightarrow> \<not> b"
  using assms find_track[OF assms(1,2)] by auto

lemma es_step_valid:
  assumes "es_step tracks fresh s s'" "distinct (map tk_id tracks)" "es_valid tracks s"
  shows "es_valid tracks s' \<and> (fresh \<longrightarrow> links_inside s \<longrightarrow> links_inside s')"
  using assms(1)
proof (cases rule: es_step.cases)
  case (step_linked enabled)
  then show ?thesis using assms(3) by (simp add: es_valid_def links_inside_def set_linked_selection_enabled_def)
next
  case (step_targeted k b)
  then show ?thesis unfolding set_track_targeted_def
    using update_track_state_valid[OF assms(3)] by (fastforce simp: state_fits_def)
next
  case (step_height k h)
  then have h: "MIN_TRACK_HEIGHT \<le> h \<and> h \<le> MAX_TRACK_HEIGHT"
    and run: "update_track_state s ''set_track_height'' k (te_height_update (\<lambda>_. h)) = Inr s'"
    by (auto simp: set_track_height_def split: if_splits)
  show ?thesis using update_track_state_valid[OF assms(3) run] h by (fastforce simp: state_fits_def)
next
  case (step_locked k b)
  then show ?thesis unfolding set_track_locked_def
    using update_track_state_valid[OF assms(3)] by (fastforce simp: state_fits_def)
next
  case (step_sync k b)
  then show ?thesis unfolding set_track_sync_locked_def
    using update_track_state_valid[OF assms(3)] by (fastforce simp: state_fits_def)
next
  case (step_enabled k b)
  then show ?thesis unfolding set_track_enabled_def
    using update_track_state_valid[OF assms(3)] by (fastforce simp: state_fits_def)
next
  case (step_muted k b)
  note c = step_muted[unfolded timeline_set_track_muted_def set_track_muted_def if_Inr]
  have "es_valid tracks s' \<and> (links_inside s \<longrightarrow> links_inside s')"
    by (rule update_track_state_valid[OF assms(3) conjunct2[OF c]])
      (use muted_guard[OF assms(2) _ _ conjunct1[OF c]] in \<open>auto simp: state_fits_def\<close>)
  then show ?thesis by blast
next
  case (step_solo k b)
  note c = step_solo[unfolded timeline_set_track_solo_def set_track_solo_def if_Inr]
  have "es_valid tracks s' \<and> (links_inside s \<longrightarrow> links_inside s')"
    by (rule update_track_state_valid[OF assms(3) conjunct2[OF c]])
      (use muted_guard[OF assms(2) _ _ conjunct1[OF c]] in \<open>auto simp: state_fits_def\<close>)
  then show ?thesis by blast
next
  case (step_select objects update expansion)
  then show ?thesis using update_selection_valid(1)[OF assms(3)] by blast
next
  case (step_link clips)
  then show ?thesis using link_clips_valid[OF assms(3), of clips] by auto
next
  case (step_unlink clips)
  then show ?thesis using unlink_clips_valid[OF assms(3)] by blast
next
  case (step_group clips)
  then show ?thesis using group_clips_valid[OF assms(3)] by blast
next
  case (step_ungroup clips)
  then show ?thesis using ungroup_clips_valid[OF assms(3)] by blast
next
  case (step_transfer removed inserted)
  then show ?thesis
    using transfer_formed[OF es_valid_formed[OF assms(3)] step_transfer(1)] transfer_inside[OF _ _ _ step_transfer(1)] by blast
qed

section \<open>The properties\<close>

text \<open>
  C11: From the state a timeline starts with, every sequence of successful calls, transfers of a clip's
  intent included, leads to a state the validation accepts without a panic. As long as intents are
  transferred only to clips outside every relation, every link lies inside one group or outside all.
\<close>

theorem edit_state_runs_valid:
  assumes "distinct (map tk_id tracks)" "(es_step tracks fresh)\<^sup>*\<^sup>* (es_from_tracks tracks) s"
  shows "es_validate s tracks = Some (Inr ()) \<and> (fresh \<longrightarrow> links_inside s)"
proof -
  have "es_valid tracks s \<and> (fresh \<longrightarrow> links_inside s)"
    using assms(2)
  proof (induction rule: rtranclp_induct)
    case base
    show ?case using es_from_tracks_valid by blast
  next
    case (step s s')
    then show ?case using es_step_valid[OF step.hyps(2) assms(1)] by blast
  qed
  then show ?thesis using es_validate_result[OF es_valid_formed] by blast
qed

definition reel2 :: track where
  "reel2 = reel\<lparr>tk_id := TypedId 2, tk_items := [IClip (shot 13 100 0 48), IClip (shot 14 500 48 24), IGap (hole 15 72 12)]\<rparr>"

definition linked_state :: timeline_edit_state where
  "linked_state = (es_from_tracks [reel, reel2])\<lparr>es_links := [[TypedId 10, TypedId 13]], es_groups := [[TypedId 12, TypedId 13]]\<rparr>"

definition grouped_state :: timeline_edit_state where
  "grouped_state = (es_from_tracks [reel, reel2])\<lparr>es_groups := [[TypedId 10, TypedId 12, TypedId 13]], es_links := [[TypedId 10, TypedId 13]]\<rparr>"

lemma grouped_run: "(es_step [reel, reel2] True)\<^sup>*\<^sup>* (es_from_tracks [reel, reel2]) grouped_state"
proof -
  let ?s = "(es_from_tracks [reel, reel2])\<lparr>es_groups := [[TypedId 12, TypedId 13]]\<rparr>"
  have "group_clips (es_from_tracks [reel, reel2]) [TypedId 13, TypedId 12] [reel, reel2] = Inr ?s" by code_simp
  then have a: "es_step [reel, reel2] True (es_from_tracks [reel, reel2]) ?s" by (rule step_group)
  have "link_clips ?s [TypedId 10, TypedId 13] [reel, reel2] = Some (Inr grouped_state)" by code_simp
  then have "es_step [reel, reel2] True ?s grouped_state" by (rule step_link)
  with a show ?thesis by (meson converse_rtranclp_into_rtranclp rtranclp.rtrancl_refl)
qed

lemma reels_distinct: "distinct (map tk_id [reel, reel2])"
  by (simp add: reel_def reel2_def)

theorem edit_state_runs_valid_witness:
  "es_validate grouped_state [reel, reel2] = Some (Inr ()) \<and> links_inside grouped_state"
  using edit_state_runs_valid[OF reels_distinct grouped_run] by simp

lemma grouped_valid: "es_valid [reel, reel2] grouped_state \<and> links_inside grouped_state"
  using grouped_run
proof (induction rule: rtranclp_induct)
  case base
  show ?case by (rule es_from_tracks_valid)
next
  case (step s s')
  then show ?case using es_step_valid[OF step.hyps(2) reels_distinct] by blast
qed

text \<open>
  C24: A related selection selects what was asked for and every clip a chain of groups and enabled
  links leads to; a direct one just what was asked for. The update replaces, adds or removes it.
\<close>

theorem selection_follows_relations:
  assumes "es_valid tracks s" "update_selection s objects update expansion tracks = Inr s'"
  shows "set (es_selected s') =
      (let chosen = (case expansion of ExpandDirect \<Rightarrow> set objects
           | ExpandRelated \<Rightarrow> set objects \<union> OClip ` ((related s)\<^sup>* `` {c. OClip c \<in> set objects})) in
       case update of ReplaceSelection \<Rightarrow> chosen | AddSelection \<Rightarrow> set (es_selected s) \<union> chosen
         | RemoveSelection \<Rightarrow> set (es_selected s) - chosen)"
  by (rule update_selection_valid(3)[OF assms])

theorem selection_follows_relations_witness:
  "\<exists>s'. update_selection grouped_state [OClip (TypedId 10)] ReplaceSelection ExpandRelated [reel, reel2] = Inr s'
     \<and> OClip (TypedId 12) \<in> set (es_selected s')
     \<and> set (es_selected s') = {OClip (TypedId 10)} \<union> OClip ` ((related grouped_state)\<^sup>* `` {TypedId 10})"
proof -
  have "case update_selection grouped_state [OClip (TypedId 10)] ReplaceSelection ExpandRelated [reel, reel2] of
      Inl _ \<Rightarrow> False | Inr s' \<Rightarrow> List.member (es_selected s') (OClip (TypedId 12))" by code_simp
  then obtain s' where run: "update_selection grouped_state [OClip (TypedId 10)] ReplaceSelection ExpandRelated [reel, reel2] = Inr s'"
    and m: "OClip (TypedId 12) \<in> set (es_selected s')" by (auto split: sum.splits simp: List.member_iff)
  from selection_follows_relations[OF _ run] grouped_valid m run show ?thesis by simp
qed

text \<open>
  Linking never panics; when it succeeds there is one component that holds the named clips and
  every component they touched, and if a group touches it that group absorbs it.
\<close>

theorem link_merges_components:
  assumes "es_valid tracks s"
  shows "\<exists>r. link_clips s clips tracks = Some r \<and> (\<forall>s'. r = Inr s' \<longrightarrow> es_valid tracks s' \<and> (links_inside s \<longrightarrow> links_inside s')
       \<and> (\<exists>l\<in>set (es_links s'). set l = absorbed (es_links s) (set clips)))"
  by (rule link_clips_valid[OF assms])

theorem link_merges_components_witness:
  "\<exists>s' l. link_clips grouped_state [TypedId 13, TypedId 14] [reel, reel2] = Some (Inr s') \<and> l \<in> set (es_links s')
     \<and> set l = absorbed (es_links grouped_state) {TypedId 13, TypedId 14}"
proof -
  have "case link_clips grouped_state [TypedId 13, TypedId 14] [reel, reel2] of Some (Inr _) \<Rightarrow> True | _ \<Rightarrow> False" by code_simp
  then obtain s' where "link_clips grouped_state [TypedId 13, TypedId 14] [reel, reel2] = Some (Inr s')"
    by (auto split: option.splits sum.splits)
  with link_merges_components[of "[reel, reel2]" grouped_state "[TypedId 13, TypedId 14]"] grouped_valid show ?thesis by auto
qed

text \<open>
  When the tracks of a timeline changed under a state whose relations were sound, reconciling it
  gives a state the validation accepts: flags for exactly the tracks there are, the selection cut
  down to the objects there are, and components of at least two clips that exist.
\<close>

theorem reconcile_restores_validity:
  assumes "es_formed s" "relations_ok C (es_links s)" "relations_ok C (es_groups s)" "links_inside s"
    "\<forall>t\<in>set tracks. \<forall>st. map_of (es_tracks s) (tk_id t) = Some st \<longrightarrow> state_fits t st"
  shows "es_validate (reconcile s tracks) tracks = Some (Inr ()) \<and> links_inside (reconcile s tracks)
    \<and> set (es_selected (reconcile s tracks)) = set (es_selected s) \<inter> timeline_objects tracks"
  using reconcile_valid[OF assms] es_validate_result[OF es_valid_formed] by blast

theorem reconcile_restores_validity_witness:
  "es_validate (reconcile grouped_state [reel2]) [reel2] = Some (Inr ()) \<and> es_groups (reconcile grouped_state [reel2]) = []"
proof -
  have v: "es_valid [reel, reel2] grouped_state" "links_inside grouped_state" using grouped_valid by simp_all
  have "es_validate (reconcile grouped_state [reel2]) [reel2] = Some (Inr ())"
    using reconcile_restores_validity[OF es_valid_formed[OF v(1)] _ _ v(2), of _ "[reel2]"] v(1)
    by (auto simp: es_valid_def)
  moreover have "es_groups (reconcile grouped_state [reel2]) = []" by code_simp
  ultimately show ?thesis by simp
qed

end
