(* ===== verification/Scheduler.thy ===== *)
theory Scheduler
  imports CoreIds
begin

text \<open>
  \<open>superi-concurrency/src/jobs/priority.rs\<close>: the classes of a media job, the choice of a derived
  media candidate, and the weighted scheduler that serves four first-in-first-out queues along a
  cycle of fifteen slots. Enqueueing returns an error for an identity that waits already; the
  outer option of a dispatch is \<open>None\<close> when one of its assertions fails.
\<close>

section \<open>Classifications\<close>

datatype job_kind = FrameJob | TileJob | ProxyJob | AnalysisJob | CacheJob | ExportJob

definition job_kind_all :: "job_kind list" where
  "job_kind_all = [FrameJob, TileJob, ProxyJob, AnalysisJob, CacheJob, ExportJob]"

fun job_kind_code :: "job_kind \<Rightarrow> string" where
  "job_kind_code FrameJob = ''frame''"
| "job_kind_code TileJob = ''tile''"
| "job_kind_code ProxyJob = ''proxy''"
| "job_kind_code AnalysisJob = ''analysis''"
| "job_kind_code CacheJob = ''cache''"
| "job_kind_code ExportJob = ''export''"

definition job_kind_from_code :: "string \<Rightarrow> job_kind option" where
  "job_kind_from_code code =
     (if code = ''frame'' then Some FrameJob
      else if code = ''tile'' then Some TileJob
      else if code = ''proxy'' then Some ProxyJob
      else if code = ''analysis'' then Some AnalysisJob
      else if code = ''cache'' then Some CacheJob
      else if code = ''export'' then Some ExportJob
      else None)"

datatype job_priority = BackgroundPriority | ExportPriority | PlaybackPriority | InteractivePriority

definition job_priority_all :: "job_priority list" where
  "job_priority_all = [BackgroundPriority, ExportPriority, PlaybackPriority, InteractivePriority]"

fun job_priority_code :: "job_priority \<Rightarrow> string" where
  "job_priority_code BackgroundPriority = ''background''"
| "job_priority_code ExportPriority = ''export''"
| "job_priority_code PlaybackPriority = ''playback''"
| "job_priority_code InteractivePriority = ''interactive''"

definition job_priority_from_code :: "string \<Rightarrow> job_priority option" where
  "job_priority_from_code code =
     (if code = ''background'' then Some BackgroundPriority
      else if code = ''export'' then Some ExportPriority
      else if code = ''playback'' then Some PlaybackPriority
      else if code = ''interactive'' then Some InteractivePriority
      else None)"

fun job_priority_rank :: "job_priority \<Rightarrow> nat" where
  "job_priority_rank BackgroundPriority = 0"
| "job_priority_rank ExportPriority = 1"
| "job_priority_rank PlaybackPriority = 2"
| "job_priority_rank InteractivePriority = 3"

fun service_weight :: "job_priority \<Rightarrow> nat" where
  "service_weight BackgroundPriority = 1"
| "service_weight ExportPriority = 2"
| "service_weight PlaybackPriority = 4"
| "service_weight InteractivePriority = 8"

fun maximum_waiting_dispatches :: "job_priority \<Rightarrow> nat" where
  "maximum_waiting_dispatches BackgroundPriority = 14"
| "maximum_waiting_dispatches ExportPriority = 7"
| "maximum_waiting_dispatches PlaybackPriority = 3"
| "maximum_waiting_dispatches InteractivePriority = 1"

datatype derived_quality = EighthQuality | QuarterQuality | HalfQuality | FullQuality

definition derived_quality_all :: "derived_quality list" where
  "derived_quality_all = [EighthQuality, QuarterQuality, HalfQuality, FullQuality]"

fun derived_quality_code :: "derived_quality \<Rightarrow> string" where
  "derived_quality_code EighthQuality = ''eighth''"
| "derived_quality_code QuarterQuality = ''quarter''"
| "derived_quality_code HalfQuality = ''half''"
| "derived_quality_code FullQuality = ''full''"

definition derived_quality_from_code :: "string \<Rightarrow> derived_quality option" where
  "derived_quality_from_code code =
     (if code = ''eighth'' then Some EighthQuality
      else if code = ''quarter'' then Some QuarterQuality
      else if code = ''half'' then Some HalfQuality
      else if code = ''full'' then Some FullQuality
      else None)"

fun derived_quality_rank :: "derived_quality \<Rightarrow> nat" where
  "derived_quality_rank EighthQuality = 0"
| "derived_quality_rank QuarterQuality = 1"
| "derived_quality_rank HalfQuality = 2"
| "derived_quality_rank FullQuality = 3"

text \<open>The derived order is the order of the discriminants.\<close>

instantiation derived_quality :: linorder
begin

definition less_eq_derived_quality :: "derived_quality \<Rightarrow> derived_quality \<Rightarrow> bool" where
  "less_eq_derived_quality x y \<longleftrightarrow> derived_quality_rank x \<le> derived_quality_rank y"

definition less_derived_quality :: "derived_quality \<Rightarrow> derived_quality \<Rightarrow> bool" where
  "less_derived_quality x y \<longleftrightarrow> derived_quality_rank x < derived_quality_rank y"

instance
proof
  show "x \<le> y \<Longrightarrow> y \<le> x \<Longrightarrow> x = y" for x y :: derived_quality
    by (cases x; cases y) (simp_all add: less_eq_derived_quality_def)
qed (auto simp: less_eq_derived_quality_def less_derived_quality_def)

end

datatype derived_fallback_policy = ExactOrSource | LowerQualityOrSource | SourceOnly

definition derived_fallback_policy_all :: "derived_fallback_policy list" where
  "derived_fallback_policy_all = [ExactOrSource, LowerQualityOrSource, SourceOnly]"

fun derived_fallback_policy_code :: "derived_fallback_policy \<Rightarrow> string" where
  "derived_fallback_policy_code ExactOrSource = ''exact_or_source''"
| "derived_fallback_policy_code LowerQualityOrSource = ''lower_quality_or_source''"
| "derived_fallback_policy_code SourceOnly = ''source_only''"

definition derived_fallback_policy_from_code :: "string \<Rightarrow> derived_fallback_policy option" where
  "derived_fallback_policy_from_code code =
     (if code = ''exact_or_source'' then Some ExactOrSource
      else if code = ''lower_quality_or_source'' then Some LowerQualityOrSource
      else if code = ''source_only'' then Some SourceOnly
      else None)"

interpretation job_kind_codes: code_table job_kind_code job_kind_from_code job_kind_all
proof unfold_locales
  show "job_kind_from_code (job_kind_code x) = Some x" for x
    by (cases x) (simp_all add: job_kind_from_code_def)
  show "job_kind_from_code s = Some x \<Longrightarrow> job_kind_code x = s" for s x
    by (auto simp: job_kind_from_code_def split: if_splits)
  show "x \<in> set job_kind_all" for x
    by (cases x) (simp_all add: job_kind_all_def)
qed

interpretation job_priority_codes: code_table job_priority_code job_priority_from_code job_priority_all
proof unfold_locales
  show "job_priority_from_code (job_priority_code x) = Some x" for x
    by (cases x) (simp_all add: job_priority_from_code_def)
  show "job_priority_from_code s = Some x \<Longrightarrow> job_priority_code x = s" for s x
    by (auto simp: job_priority_from_code_def split: if_splits)
  show "x \<in> set job_priority_all" for x
    by (cases x) (simp_all add: job_priority_all_def)
qed

interpretation derived_quality_codes:
  code_table derived_quality_code derived_quality_from_code derived_quality_all
proof unfold_locales
  show "derived_quality_from_code (derived_quality_code x) = Some x" for x
    by (cases x) (simp_all add: derived_quality_from_code_def)
  show "derived_quality_from_code s = Some x \<Longrightarrow> derived_quality_code x = s" for s x
    by (auto simp: derived_quality_from_code_def split: if_splits)
  show "x \<in> set derived_quality_all" for x
    by (cases x) (simp_all add: derived_quality_all_def)
qed

interpretation fallback_policy_codes:
  code_table derived_fallback_policy_code derived_fallback_policy_from_code derived_fallback_policy_all
proof unfold_locales
  show "derived_fallback_policy_from_code (derived_fallback_policy_code x) = Some x" for x
    by (cases x) (simp_all add: derived_fallback_policy_from_code_def)
  show "derived_fallback_policy_from_code s = Some x \<Longrightarrow> derived_fallback_policy_code x = s" for s x
    by (auto simp: derived_fallback_policy_from_code_def split: if_splits)
  show "x \<in> set derived_fallback_policy_all" for x
    by (cases x) (simp_all add: derived_fallback_policy_all_def)
qed

section \<open>Derived media\<close>

record derived_media_candidate =
  dc_cache_id :: cache_id
  dc_source :: media_id
  dc_source_revision :: int
  dc_quality :: derived_quality

datatype derived_selection_reason =
    ExactReason | LowerQualityReason | SourceOnlyPolicyReason | NoFreshCandidateReason
  | RequestedQualityUnavailableReason

fun derived_selection_reason_code :: "derived_selection_reason \<Rightarrow> string" where
  "derived_selection_reason_code ExactReason = ''exact''"
| "derived_selection_reason_code LowerQualityReason = ''lower_quality''"
| "derived_selection_reason_code SourceOnlyPolicyReason = ''source_only_policy''"
| "derived_selection_reason_code NoFreshCandidateReason = ''no_fresh_candidate''"
| "derived_selection_reason_code RequestedQualityUnavailableReason = ''requested_quality_unavailable''"

record derived_media_request =
  dr_source :: media_id
  dr_source_revision :: int
  dr_quality :: derived_quality
  dr_fallback :: derived_fallback_policy

record derived_media_selection =
  ds_source :: media_id
  ds_source_revision :: int
  ds_requested_quality :: derived_quality
  ds_candidate :: "derived_media_candidate option"
  ds_reason :: derived_selection_reason

definition selection_from_source ::
  "derived_media_request \<Rightarrow> derived_selection_reason \<Rightarrow> derived_media_selection" where
  "selection_from_source r reason =
     \<lparr>ds_source = dr_source r, ds_source_revision = dr_source_revision r,
      ds_requested_quality = dr_quality r, ds_candidate = None, ds_reason = reason\<rparr>"

definition selection_derived ::
  "derived_media_request \<Rightarrow> derived_media_candidate \<Rightarrow> derived_selection_reason \<Rightarrow> derived_media_selection" where
  "selection_derived r c reason =
     \<lparr>ds_source = dr_source r, ds_source_revision = dr_source_revision r,
      ds_requested_quality = dr_quality r, ds_candidate = Some c, ds_reason = reason\<rparr>"

record derived_scan =
  sn_fresh :: bool
  sn_exact :: "derived_media_candidate option"
  sn_lower :: "derived_media_candidate option"

text \<open>One turn of the loop over the candidates of the requested source and revision.\<close>

definition scan_candidate :: "derived_media_request \<Rightarrow> derived_media_candidate \<Rightarrow> derived_scan \<Rightarrow> derived_scan" where
  "scan_candidate r c s =
     (let s = s\<lparr>sn_fresh := True\<rparr> in
      if dc_quality c = dr_quality r
      then if (case sn_exact s of Some selected \<Rightarrow> dc_cache_id c < dc_cache_id selected | None \<Rightarrow> True)
           then s\<lparr>sn_exact := Some c\<rparr> else s
      else
      let replaces_lower =
            (case sn_lower s of
               Some selected \<Rightarrow> dc_quality selected < dc_quality c
                 \<or> dc_quality c = dc_quality selected \<and> dc_cache_id c < dc_cache_id selected
             | None \<Rightarrow> True)
      in if dr_fallback r = LowerQualityOrSource \<and> dc_quality c < dr_quality r \<and> replaces_lower
         then s\<lparr>sn_lower := Some c\<rparr> else s)"

definition select_derived :: "derived_media_request \<Rightarrow> derived_media_candidate list \<Rightarrow> derived_media_selection" where
  "select_derived r candidates =
     (if dr_fallback r = SourceOnly then selection_from_source r SourceOnlyPolicyReason
      else
      let s = fold (scan_candidate r)
                (filter (\<lambda>c. dc_source c = dr_source r \<and> dc_source_revision c = dr_source_revision r) candidates)
                \<lparr>sn_fresh = False, sn_exact = None, sn_lower = None\<rparr>
      in case sn_exact s of
           Some c \<Rightarrow> selection_derived r c ExactReason
         | None \<Rightarrow>
             (case sn_lower s of
                Some c \<Rightarrow> selection_derived r c LowerQualityReason
              | None \<Rightarrow> selection_from_source r
                  (if sn_fresh s then RequestedQualityUnavailableReason else NoFreshCandidateReason)))"

section \<open>The scheduler\<close>

record 'p scheduled_job =
  sj_id :: job_id
  sj_kind :: job_kind
  sj_priority :: job_priority
  sj_derived_media :: "derived_media_request option"
  sj_payload :: 'p

definition sj_new :: "job_id \<Rightarrow> job_kind \<Rightarrow> job_priority \<Rightarrow> 'p \<Rightarrow> 'p scheduled_job" where
  "sj_new ident kind priority payload =
     \<lparr>sj_id = ident, sj_kind = kind, sj_priority = priority, sj_derived_media = None, sj_payload = payload\<rparr>"

definition sj_with_derived_media :: "'p scheduled_job \<Rightarrow> derived_media_request \<Rightarrow> 'p scheduled_job" where
  "sj_with_derived_media j request = j\<lparr>sj_derived_media := Some request\<rparr>"

definition SERVICE_PATTERN :: "job_priority list" where
  "SERVICE_PATTERN =
     [InteractivePriority, PlaybackPriority, InteractivePriority, ExportPriority, InteractivePriority,
      PlaybackPriority, InteractivePriority, BackgroundPriority, InteractivePriority, PlaybackPriority,
      InteractivePriority, ExportPriority, InteractivePriority, PlaybackPriority, InteractivePriority]"

text \<open>The array of queues is indexed by rank; the set of waiting identities is ordered.\<close>

record 'p priority_scheduler =
  ps_queues :: "'p scheduled_job list list"
  ps_queued_ids :: "job_id list"
  ps_service_cursor :: nat

definition ps_new :: "'p priority_scheduler" where
  "ps_new = \<lparr>ps_queues = [[], [], [], []], ps_queued_ids = [], ps_service_cursor = 0\<rparr>"

definition ps_queue :: "'p priority_scheduler \<Rightarrow> job_priority \<Rightarrow> 'p scheduled_job list" where
  "ps_queue s p = ps_queues s ! job_priority_rank p"

definition ps_set_queue :: "'p priority_scheduler \<Rightarrow> job_priority \<Rightarrow> 'p scheduled_job list \<Rightarrow> 'p priority_scheduler" where
  "ps_set_queue s p q = s\<lparr>ps_queues := (ps_queues s)[job_priority_rank p := q]\<rparr>"

definition ps_enqueue :: "'p priority_scheduler \<Rightarrow> 'p scheduled_job \<Rightarrow> 'p priority_scheduler result" where
  "ps_enqueue s j =
     (if List.member (ps_queued_ids s) (sj_id j)
      then Inl (err_with_context
             (err_new Conflict UserCorrectable ''job identity is already queued'')
             (ctx_with_field (ctx_with_field (ctx_new ''superi-concurrency.jobs'' ''enqueue'')
               ''job_id'' (id_display JobKind (sj_id j)))
               ''priority'' (job_priority_code (sj_priority j))))
      else Inr (let s = s\<lparr>ps_queued_ids := os_insert (sj_id j) (ps_queued_ids s)\<rparr>
                in ps_set_queue s (sj_priority j) (ps_queue s (sj_priority j) @ [j])))"

definition ps_len :: "'p priority_scheduler \<Rightarrow> nat" where
  "ps_len s = length (ps_queued_ids s)"

definition ps_len_for :: "'p priority_scheduler \<Rightarrow> job_priority \<Rightarrow> nat" where
  "ps_len_for s p = length (ps_queue s p)"

definition ps_is_empty :: "'p priority_scheduler \<Rightarrow> bool" where
  "ps_is_empty s \<longleftrightarrow> ps_queued_ids s = []"

text \<open>
  Taking the front of one queue; the assertion is that the identity index knew it. \<open>None\<close> inside
  is an empty queue.
\<close>

definition ps_next_job_for ::
  "'p priority_scheduler \<Rightarrow> job_priority \<Rightarrow> ('p scheduled_job option \<times> 'p priority_scheduler) option" where
  "ps_next_job_for s p =
     (case ps_queue s p of
        [] \<Rightarrow> Some (None, s)
      | j # rest \<Rightarrow>
          if List.member (ps_queued_ids s) (sj_id j)
          then Some (Some j, (ps_set_queue s p rest)\<lparr>ps_queued_ids := os_remove (sj_id j) (ps_queued_ids s)\<rparr>)
          else None)"

text \<open>The loop over the slots that remain; running out of them is the second assertion.\<close>

fun ps_serve ::
  "nat \<Rightarrow> 'p priority_scheduler \<Rightarrow> ('p scheduled_job option \<times> 'p priority_scheduler) option" where
  "ps_serve 0 s = None"
| "ps_serve (Suc n) s =
     (let priority = SERVICE_PATTERN ! ps_service_cursor s;
          s = s\<lparr>ps_service_cursor := (ps_service_cursor s + 1) mod length SERVICE_PATTERN\<rparr>
      in case ps_queue s priority of
           [] \<Rightarrow> ps_serve n s
         | j # rest \<Rightarrow>
             if List.member (ps_queued_ids s) (sj_id j)
             then Some (Some j, (ps_set_queue s priority rest)\<lparr>ps_queued_ids := os_remove (sj_id j) (ps_queued_ids s)\<rparr>)
             else None)"

definition ps_next_job ::
  "'p priority_scheduler \<Rightarrow> ('p scheduled_job option \<times> 'p priority_scheduler) option" where
  "ps_next_job s = (if ps_is_empty s then Some (None, s) else ps_serve (length SERVICE_PATTERN) s)"

end
