(* ===== verification/SchedulerLaws.thy ===== *)
theory SchedulerLaws
  imports Scheduler
begin

text \<open>
  What the scheduler keeps and how far away a slot of the service cycle can be: the identity index
  is the set of identities in the queues, so no assertion fails and a scheduler with a job always
  dispatches one; a class waits for at most its bound of other slots.
\<close>

section \<open>The invariant\<close>

definition ps_ok :: "'p priority_scheduler \<Rightarrow> bool" where
  "ps_ok s \<longleftrightarrow> length (ps_queues s) = 4 \<and> ps_service_cursor s < length SERVICE_PATTERN \<and> os_ok (ps_queued_ids s)
     \<and> set (ps_queued_ids s) = (\<Union>p. sj_id ` set (ps_queue s p))
     \<and> (\<forall>p. distinct (map sj_id (ps_queue s p)))
     \<and> (\<forall>p. \<forall>j\<in>set (ps_queue s p). sj_priority j = p)
     \<and> (\<forall>p q. p \<noteq> q \<longrightarrow> sj_id ` set (ps_queue s p) \<inter> sj_id ` set (ps_queue s q) = {})"

lemma length_SERVICE_PATTERN [simp]: "length SERVICE_PATTERN = 15"
  by (simp add: SERVICE_PATTERN_def)

lemma rank_less [simp]: "job_priority_rank p < 4"
  by (cases p) simp_all

lemma rank_inj [simp]: "job_priority_rank p = job_priority_rank q \<longleftrightarrow> p = q"
  by (cases p; cases q) simp_all

lemma ps_queue_set [simp]:
  "length (ps_queues s) = 4 \<Longrightarrow> ps_queue (ps_set_queue s p q) p' = (if p' = p then q else ps_queue s p')"
  by (auto simp: ps_queue_def ps_set_queue_def nth_list_update)

lemma ps_set_queue_fields [simp]:
  "length (ps_queues (ps_set_queue s p q)) = length (ps_queues s)"
  "ps_queued_ids (ps_set_queue s p q) = ps_queued_ids s"
  "ps_service_cursor (ps_set_queue s p q) = ps_service_cursor s"
  by (simp_all add: ps_set_queue_def)

lemma ps_queue_other [simp]:
  "ps_queue (s\<lparr>ps_queued_ids := ids\<rparr>) p = ps_queue s p"
  "ps_queue (s\<lparr>ps_service_cursor := c\<rparr>) p = ps_queue s p"
  by (simp_all add: ps_queue_def)

lemma ps_queue_new [simp]: "ps_queue ps_new p = []"
  by (cases p) (simp_all add: ps_queue_def ps_new_def)

lemma ps_ok_new: "ps_ok ps_new"
  by (simp add: ps_ok_def) (simp add: ps_new_def)

lemma ps_ok_cursor: "ps_ok s \<Longrightarrow> c < 15 \<Longrightarrow> ps_ok (s\<lparr>ps_service_cursor := c\<rparr>)"
  by (simp add: ps_ok_def)

lemma ps_ok_len: "ps_ok s \<Longrightarrow> length (ps_queues s) = 4"
  by (simp add: ps_ok_def)

lemma ps_ok_id: "ps_ok s \<Longrightarrow> j \<in> set (ps_queue s p) \<Longrightarrow> sj_id j \<in> set (ps_queued_ids s) \<and> sj_priority j = p"
  unfolding ps_ok_def by blast

lemma ps_is_empty_iff: "ps_ok s \<Longrightarrow> ps_is_empty s \<longleftrightarrow> (\<forall>p. ps_queue s p = [])"
proof -
  assume "ps_ok s"
  then have "set (ps_queued_ids s) = (\<Union>p. sj_id ` set (ps_queue s p))" unfolding ps_ok_def by blast
  then have "set (ps_queued_ids s) = {} \<longleftrightarrow> (\<forall>p. set (ps_queue s p) = {})" by simp
  then show ?thesis by (simp add: ps_is_empty_def)
qed

section \<open>Taking the front of a class\<close>

definition ps_take :: "'p priority_scheduler \<Rightarrow> job_priority \<Rightarrow> 'p priority_scheduler" where
  "ps_take s p = (ps_set_queue s p (tl (ps_queue s p)))
     \<lparr>ps_queued_ids := os_remove (sj_id (hd (ps_queue s p))) (ps_queued_ids s)\<rparr>"

lemma ps_take_queue:
  "ps_ok s \<Longrightarrow> ps_queue (ps_take s p) q = (if q = p then tl (ps_queue s p) else ps_queue s q)"
  by (simp add: ps_take_def ps_ok_len)

lemma ps_take_cursor [simp]: "ps_service_cursor (ps_take s p) = ps_service_cursor s"
  by (simp add: ps_take_def)

lemma ps_ok_take:
  assumes ok: "ps_ok s" and q: "ps_queue s p = j # rest"
  shows "ps_ok (ps_take s p)"
proof -
  note queue = ps_take_queue[OF ok, of p]
  have ids: "set (ps_queued_ids (ps_take s p)) = (\<Union>r. sj_id ` set (ps_queue s r)) - {sj_id j}"
    using ok by (simp add: ps_take_def ps_ok_def q)
  have fresh: "sj_id j \<notin> sj_id ` set rest" "r \<noteq> p \<Longrightarrow> sj_id j \<notin> sj_id ` set (ps_queue s r)" for r
  proof -
    have "distinct (map sj_id (ps_queue s p))" using ok unfolding ps_ok_def by blast
    then show "sj_id j \<notin> sj_id ` set rest" by (simp add: q)
    assume "r \<noteq> p"
    then have "sj_id ` set (ps_queue s r) \<inter> sj_id ` set (ps_queue s p) = {}" using ok unfolding ps_ok_def by blast
    then show "sj_id j \<notin> sj_id ` set (ps_queue s r)" by (auto simp: q)
  qed
  have split: "(\<Union>r. sj_id ` set (ps_queue s r)) - {sj_id j} = (\<Union>r. sj_id ` set (ps_queue (ps_take s p) r))"
  proof -
    have "sj_id ` set (ps_queue (ps_take s p) r) = sj_id ` set (ps_queue s r) - {sj_id j}" for r
      using fresh(1) fresh(2)[of r] by (cases "r = p") (auto simp: queue q)
    then show ?thesis by auto
  qed
  have sub: "set (ps_queue (ps_take s p) r) \<subseteq> set (ps_queue s r)" for r
    by (auto simp: queue q)
  have dist: "distinct (map sj_id (ps_queue (ps_take s p) r))" for r
  proof -
    have "distinct (map sj_id (ps_queue s r))" using ok unfolding ps_ok_def by blast
    then show ?thesis by (auto simp: queue q)
  qed
  have disj: "r \<noteq> r' \<Longrightarrow> sj_id ` set (ps_queue (ps_take s p) r) \<inter> sj_id ` set (ps_queue (ps_take s p) r') = {}" for r r'
  proof -
    assume "r \<noteq> r'"
    then have "sj_id ` set (ps_queue s r) \<inter> sj_id ` set (ps_queue s r') = {}" using ok unfolding ps_ok_def by blast
    then show ?thesis using sub[of r] sub[of r'] by blast
  qed
  show ?thesis unfolding ps_ok_def
  proof (intro conjI allI ballI impI)
    show "length (ps_queues (ps_take s p)) = 4" using ok by (simp add: ps_take_def ps_ok_len)
    show "ps_service_cursor (ps_take s p) < length SERVICE_PATTERN" using ok by (simp add: ps_ok_def)
    show "os_ok (ps_queued_ids (ps_take s p))" using ok by (simp add: ps_take_def ps_ok_def)
    show "set (ps_queued_ids (ps_take s p)) = (\<Union>r. sj_id ` set (ps_queue (ps_take s p) r))"
      using ids split by simp
    show "sj_priority x = r" if "x \<in> set (ps_queue (ps_take s p) r)" for r x
      using ps_ok_id[OF ok] sub that by blast
  qed (use dist disj in auto)
qed

lemma ps_next_job_for_take:
  assumes ok: "ps_ok s"
  shows "ps_next_job_for s p =
    (case ps_queue s p of [] \<Rightarrow> Some (None, s) | j # rest \<Rightarrow> Some (Some j, ps_take s p))"
  using ps_ok_id[OF ok, of _ p]
  by (auto simp: ps_next_job_for_def ps_take_def List.member_iff split: list.splits)

section \<open>The service cycle\<close>

definition slot :: "nat \<Rightarrow> nat \<Rightarrow> job_priority" where
  "slot c k = SERVICE_PATTERN ! ((c + k) mod 15)"

text \<open>Within its bound from every position of the cursor the cycle holds a slot of each class.\<close>

lemma slot_near: "c < 15 \<Longrightarrow> \<exists>d\<le>maximum_waiting_dispatches p. slot c d = p"
proof -
  have "list_all (\<lambda>c. list_all (\<lambda>p. list_ex (\<lambda>d. slot c d = p) [0..<Suc (maximum_waiting_dispatches p)])
      job_priority_all) [0..<15]"
    by code_simp
  moreover assume "c < 15"
  moreover have "p \<in> set job_priority_all" by (rule job_priority_codes.every_complete)
  ultimately have "list_ex (\<lambda>d. slot c d = p) [0..<Suc (maximum_waiting_dispatches p)]"
    by (simp add: list_all_iff del: upt_Suc)
  then obtain d where "d \<in> set [0..<Suc (maximum_waiting_dispatches p)]" "slot c d = p"
    unfolding list_ex_iff by blast
  then show ?thesis by (intro exI[of _ d]) (simp del: upt_Suc)
qed

definition slots_until :: "nat \<Rightarrow> job_priority \<Rightarrow> nat" where
  "slots_until c p = (LEAST d. slot c d = p)"

lemma slots_until:
  assumes "c < 15"
  shows "slot c (slots_until c p) = p" "slots_until c p \<le> maximum_waiting_dispatches p"
    "d < slots_until c p \<Longrightarrow> slot c d \<noteq> p"
proof -
  obtain d where d: "d \<le> maximum_waiting_dispatches p" "slot c d = p" using slot_near[OF assms] by blast
  show "slot c (slots_until c p) = p" unfolding slots_until_def using d(2) by (rule LeastI)
  have "slots_until c p \<le> d" unfolding slots_until_def using d(2) by (rule Least_le)
  with d(1) show "slots_until c p \<le> maximum_waiting_dispatches p" by simp
  show "d < slots_until c p \<Longrightarrow> slot c d \<noteq> p" for d unfolding slots_until_def by (rule not_less_Least)
qed

lemma slot_shift: "slot ((c + m) mod 15) k = slot c (m + k)"
  by (simp add: slot_def add.assoc mod_add_left_eq)

lemma slots_until_less:
  assumes "c < 15" "d < slots_until c p"
  shows "slots_until ((c + Suc d) mod 15) p \<le> slots_until c p - Suc d"
proof -
  have "slot ((c + Suc d) mod 15) (slots_until c p - Suc d) = p"
    using slots_until(1)[OF assms(1), of p] assms(2) by (subst slot_shift) simp
  then show ?thesis unfolding slots_until_def[of "(c + Suc d) mod 15"] by (rule Least_le)
qed

text \<open>The loop skips the empty classes and serves the first one that is not.\<close>

lemma ps_serve_skip:
  assumes "ps_ok s" "\<forall>k<d. ps_queue s (slot (ps_service_cursor s) k) = []"
    "ps_queue s (slot (ps_service_cursor s) d) = j # rest" "d < n"
  shows "ps_serve n s = Some (Some j,
    (ps_take s (slot (ps_service_cursor s) d))\<lparr>ps_service_cursor := (ps_service_cursor s + Suc d) mod 15\<rparr>)"
  using assms
proof (induction d arbitrary: n s)
  case 0
  then obtain m where n: "n = Suc m" by (cases n) auto
  have c: "ps_service_cursor s < 15" using 0(1) by (simp add: ps_ok_def)
  then have q: "ps_queue s (SERVICE_PATTERN ! ps_service_cursor s) = j # rest" using 0(3) by (simp add: slot_def)
  then have "sj_id j \<in> set (ps_queued_ids s)" using ps_ok_id[OF 0(1), of j "SERVICE_PATTERN ! ps_service_cursor s"] by simp
  then show ?case using c q by (simp add: n Let_def List.member_iff slot_def ps_take_def ps_set_queue_def ps_queue_def)
next
  case (Suc d)
  then obtain m where n: "n = Suc m" by (cases n) auto
  let ?s = "s\<lparr>ps_service_cursor := (ps_service_cursor s + 1) mod 15\<rparr>"
  have c: "ps_service_cursor s < 15" using Suc.prems(1) by (simp add: ps_ok_def)
  have shift: "slot (ps_service_cursor ?s) k = slot (ps_service_cursor s) (Suc k)" for k
    using slot_shift[of "ps_service_cursor s" 1 k] by simp
  have "ps_queue s (slot (ps_service_cursor s) 0) = []" using Suc.prems(2) by blast
  then have "ps_serve n s = ps_serve m ?s" using c by (simp add: n Let_def slot_def)
  also have "\<dots> = Some (Some j, (ps_take ?s (slot (ps_service_cursor ?s) d))
      \<lparr>ps_service_cursor := (ps_service_cursor ?s + Suc d) mod 15\<rparr>)"
    using Suc.prems n by (intro Suc.IH) (auto simp: ps_ok_cursor shift[simplified])
  also have "\<dots> = Some (Some j, (ps_take s (slot (ps_service_cursor s) (Suc d)))
      \<lparr>ps_service_cursor := (ps_service_cursor s + Suc (Suc d)) mod 15\<rparr>)"
  proof -
    have "(Suc (ps_service_cursor s) mod 15 + Suc d) mod 15 = (ps_service_cursor s + Suc (Suc d)) mod 15"
      using mod_add_left_eq[of "Suc (ps_service_cursor s)" 15 "Suc d"] by simp
    then show ?thesis unfolding shift by (simp add: ps_take_def ps_set_queue_def ps_queue_def)
  qed
  finally show ?case .
qed

text \<open>
  One dispatch of a scheduler that waits on something: the first slot whose class has a job, and
  the cursor behind it.
\<close>

lemma ps_next_job_serves:
  assumes ok: "ps_ok s" and p: "ps_queue s p \<noteq> []"
  obtains d j rest where "d \<le> slots_until (ps_service_cursor s) p"
    "ps_queue s (slot (ps_service_cursor s) d) = j # rest"
    "ps_next_job s = Some (Some j,
       (ps_take s (slot (ps_service_cursor s) d))\<lparr>ps_service_cursor := (ps_service_cursor s + Suc d) mod 15\<rparr>)"
    "\<forall>k<d. ps_queue s (slot (ps_service_cursor s) k) = []"
proof -
  let ?c = "ps_service_cursor s"
  let ?P = "\<lambda>d. ps_queue s (slot ?c d) \<noteq> []"
  have c: "?c < 15" using ok by (simp add: ps_ok_def)
  have reach: "?P (slots_until ?c p)" using p slots_until(1)[OF c] by simp
  define d where "d = (LEAST d. ?P d)"
  have le: "d \<le> slots_until ?c p" unfolding d_def using reach by (rule Least_le)
  have "?P d" unfolding d_def using reach by (rule LeastI)
  then obtain j rest where q: "ps_queue s (slot ?c d) = j # rest" by (cases "ps_queue s (slot ?c d)") auto
  have before: "\<forall>k<d. ps_queue s (slot ?c k) = []" unfolding d_def using not_less_Least by blast
  have "slots_until ?c p < 15" using slots_until(2)[OF c, of p] by (cases p) simp_all
  with le have "d < 15" by simp
  moreover have "\<not> ps_is_empty s" using p by (simp add: ps_is_empty_iff[OF ok]) blast
  ultimately have "ps_next_job s = Some (Some j,
      (ps_take s (slot ?c d))\<lparr>ps_service_cursor := (?c + Suc d) mod 15\<rparr>)"
    unfolding ps_next_job_def using ps_serve_skip[OF ok before q, of 15] by simp
  from le q this before show thesis by (rule that)
qed

lemma ps_next_job_empty: "ps_ok s \<Longrightarrow> \<forall>p. ps_queue s p = [] \<Longrightarrow> ps_next_job s = Some (None, s)"
  by (simp add: ps_next_job_def ps_is_empty_iff)

section \<open>Enqueueing\<close>

lemma UN_insert_at: "(\<Union>p. if p = q then insert a (f p) else f p) = insert a (\<Union>p. f p)"
proof -
  have "(if p = q then insert a (f p) else f p) = f p \<union> (if p = q then {a} else {})" for p by simp
  moreover have "(\<Union>p. if p = q then {a} else {}) = {a}" by (auto split: if_splits)
  ultimately show ?thesis by (simp add: UN_Un_distrib)
qed

lemma ps_enqueue_Inr:
  assumes "ps_enqueue s j = Inr s'" "ps_ok s"
  shows "ps_queue s' p = (if p = sj_priority j then ps_queue s p @ [j] else ps_queue s p)"
    "ps_service_cursor s' = ps_service_cursor s" "sj_id j \<notin> set (ps_queued_ids s)" "ps_ok s'"
proof -
  have fresh: "sj_id j \<notin> set (ps_queued_ids s)" and
    s': "s' = ps_set_queue (s\<lparr>ps_queued_ids := os_insert (sj_id j) (ps_queued_ids s)\<rparr>) (sj_priority j)
               (ps_queue s (sj_priority j) @ [j])"
    using assms(1) by (auto simp: ps_enqueue_def List.member_iff split: if_splits)
  show "sj_id j \<notin> set (ps_queued_ids s)" by (rule fresh)
  have len: "length (ps_queues s) = 4" by (rule ps_ok_len[OF assms(2)])
  have queue: "ps_queue s' p = (if p = sj_priority j then ps_queue s p @ [j] else ps_queue s p)" for p
    unfolding s' using len by simp
  then show "ps_queue s' p = (if p = sj_priority j then ps_queue s p @ [j] else ps_queue s p)" .
  show "ps_service_cursor s' = ps_service_cursor s" by (simp add: s')
  have new: "sj_id j \<notin> sj_id ` set (ps_queue s p)" for p using fresh assms(2) unfolding ps_ok_def by blast
  have old: "distinct (map sj_id (ps_queue s p))" "x \<in> set (ps_queue s p) \<Longrightarrow> sj_priority x = p"
    "p \<noteq> q \<Longrightarrow> sj_id ` set (ps_queue s p) \<inter> sj_id ` set (ps_queue s q) = {}" for p q x
    using assms(2) unfolding ps_ok_def by blast+
  have set_q: "sj_id ` set (ps_queue s' p) =
      (if p = sj_priority j then insert (sj_id j) (sj_id ` set (ps_queue s p)) else sj_id ` set (ps_queue s p))" for p
    by (simp add: queue)
  show "ps_ok s'" unfolding ps_ok_def
  proof (intro conjI allI ballI impI)
    show "length (ps_queues s') = 4" using len by (simp add: s')
    show "ps_service_cursor s' < length SERVICE_PATTERN" "os_ok (ps_queued_ids s')"
      using assms(2) by (simp_all add: s' ps_ok_def)
    have "set (ps_queued_ids s') = insert (sj_id j) (\<Union>p. sj_id ` set (ps_queue s p))"
      using assms(2) by (simp add: s' ps_ok_def)
    also have "\<dots> = (\<Union>p. sj_id ` set (ps_queue s' p))" unfolding set_q by (rule UN_insert_at[symmetric])
    finally show "set (ps_queued_ids s') = (\<Union>p. sj_id ` set (ps_queue s' p))" .
    show "distinct (map sj_id (ps_queue s' p))" for p using old(1)[of p] new[of p] by (cases "p = sj_priority j") (simp_all add: queue)
    show "sj_priority x = p" if "x \<in> set (ps_queue s' p)" for p x
      using that old(2) by (auto simp: queue split: if_splits)
    show "sj_id ` set (ps_queue s' p) \<inter> sj_id ` set (ps_queue s' q) = {}" if "p \<noteq> q" for p q
      unfolding set_q using old(3)[OF that] new[of p] new[of q] that
      by (cases "p = sj_priority j"; cases "q = sj_priority j"; simp)
  qed
qed

end
