(* ===== verification/SchedulerProps.thy ===== *)
theory SchedulerProps
  imports SchedulerLaws
begin

text \<open>
  The properties of the scheduler over every sequence of calls: it is four first-in-first-out
  queues with one identity each and no assertion fails, no waiting job starves, and a saturated
  cycle gives each class its weight. A derived media request selects the best eligible candidate.
\<close>

section \<open>Runs\<close>

datatype 'p sched_call = CallEnqueue "'p scheduled_job" | CallNext | CallNextFor job_priority

record 'p sched_trace =
  st_accepted :: "'p scheduled_job list"
  st_dispatched :: "'p scheduled_job list"

text \<open>A sequence of calls: what was accepted, what was dispatched, and the state behind them.\<close>

fun ps_run :: "'p sched_call list \<Rightarrow> 'p priority_scheduler \<Rightarrow> ('p sched_trace \<times> 'p priority_scheduler) option" where
  "ps_run [] s = Some (\<lparr>st_accepted = [], st_dispatched = []\<rparr>, s)"
| "ps_run (CallEnqueue j # calls) s =
     (case ps_enqueue s j of
        Inl _ \<Rightarrow> ps_run calls s
      | Inr s \<Rightarrow> map_option (\<lambda>(t, s). (t\<lparr>st_accepted := j # st_accepted t\<rparr>, s)) (ps_run calls s))"
| "ps_run (CallNext # calls) s =
     (case ps_next_job s of
        None \<Rightarrow> None
      | Some (r, s) \<Rightarrow>
          map_option (\<lambda>(t, s). (t\<lparr>st_dispatched := (case r of None \<Rightarrow> [] | Some j \<Rightarrow> [j]) @ st_dispatched t\<rparr>, s))
            (ps_run calls s))"
| "ps_run (CallNextFor p # calls) s =
     (case ps_next_job_for s p of
        None \<Rightarrow> None
      | Some (r, s) \<Rightarrow>
          map_option (\<lambda>(t, s). (t\<lparr>st_dispatched := (case r of None \<Rightarrow> [] | Some j \<Rightarrow> [j]) @ st_dispatched t\<rparr>, s))
            (ps_run calls s))"

text \<open>One dispatch in a state that keeps the invariant: nothing, or the front of one class.\<close>

lemma dispatch_cases:
  assumes ok: "ps_ok s" and call: "c = CallNext \<or> c = CallNextFor p"
  obtains (idle) "\<And>calls. ps_run (c # calls) s = ps_run calls s"
      "c = CallNext \<Longrightarrow> \<forall>q. ps_queue s q = []"
  | (served) s' q j rest where "ps_queue s q = j # rest" "ps_ok s'"
      "\<And>r. ps_queue s' r = (if r = q then rest else ps_queue s r)"
      "\<And>calls. ps_run (c # calls) s = map_option (\<lambda>(t, s). (t\<lparr>st_dispatched := j # st_dispatched t\<rparr>, s)) (ps_run calls s')"
      "c = CallNext \<Longrightarrow> \<forall>r. ps_queue s r \<noteq> [] \<longrightarrow> q = r \<or> slots_until (ps_service_cursor s') r < slots_until (ps_service_cursor s) r"
      "c \<noteq> CallNext \<Longrightarrow> ps_service_cursor s' = ps_service_cursor s"
proof -
  show thesis
  proof (cases "c = CallNext")
    case True
    show ?thesis
    proof (cases "\<forall>q. ps_queue s q = []")
      case empty: True
      show ?thesis
        by (rule idle) (use True empty ok in \<open>simp_all add: ps_next_job_empty case_prod_beta option.map_id0\<close>)
    next
      case False
      then obtain r where r: "ps_queue s r \<noteq> []" by blast
      let ?c = "ps_service_cursor s"
      obtain d j rest where q: "ps_queue s (slot ?c d) = j # rest" and
        next': "ps_next_job s = Some (Some j, (ps_take s (slot ?c d))\<lparr>ps_service_cursor := (?c + Suc d) mod 15\<rparr>)" and
        before: "\<forall>k<d. ps_queue s (slot ?c k) = []"
        by (rule ps_next_job_serves[OF ok r])
      let ?s = "(ps_take s (slot ?c d))\<lparr>ps_service_cursor := (?c + Suc d) mod 15\<rparr>"
      have c: "?c < 15" using ok by (simp add: ps_ok_def)
      have near: "slot ?c d = r \<or> slots_until (ps_service_cursor ?s) r < slots_until ?c r" if "ps_queue s r \<noteq> []" for r
      proof (cases "slots_until ?c r \<le> d")
        case True
        then show ?thesis using before that slots_until(1)[OF c, of r] by (metis le_neq_implies_less)
      next
        case False
        then have "slots_until (ps_service_cursor ?s) r \<le> slots_until ?c r - Suc d"
          using slots_until_less[OF c, of d r] by simp
        with False show ?thesis by linarith
      qed
      show ?thesis
      proof (rule served[of "slot ?c d" j rest ?s])
        show "ps_ok ?s" using ps_ok_take[OF ok q] by (rule ps_ok_cursor) simp
      qed (use q ok next' near True in \<open>simp_all add: ps_take_queue del: add_Suc_right\<close>)
    qed
  next
    case False
    then have c: "c = CallNextFor p" using call by blast
    show ?thesis
    proof (cases "ps_queue s p")
      case Nil
      show ?thesis
        by (rule idle) (use c ok Nil in \<open>simp_all add: ps_next_job_for_take case_prod_beta option.map_id0\<close>)
    next
      case (Cons j rest)
      show ?thesis
      proof (rule served[of p j rest "ps_take s p"])
        show "ps_ok (ps_take s p)" by (rule ps_ok_take[OF ok Cons])
      qed (use c ok Cons in \<open>simp_all add: ps_next_job_for_take ps_take_queue\<close>)
    qed
  qed
qed

lemma ps_run_enqueue:
  assumes "ps_ok s"
  obtains (taken) s' where "ps_enqueue s j = Inr s'" "ps_ok s'"
      "\<And>p. ps_queue s' p = (if p = sj_priority j then ps_queue s p @ [j] else ps_queue s p)"
      "ps_service_cursor s' = ps_service_cursor s"
      "\<And>calls. ps_run (CallEnqueue j # calls) s = map_option (\<lambda>(t, s). (t\<lparr>st_accepted := j # st_accepted t\<rparr>, s)) (ps_run calls s')"
  | (refused) "\<And>calls. ps_run (CallEnqueue j # calls) s = ps_run calls s"
proof (cases "ps_enqueue s j")
  case (Inl e)
  then show thesis by (intro refused) simp
next
  case (Inr s')
  show thesis by (rule taken[OF Inr ps_enqueue_Inr(4,1,2)[OF Inr assms]]) (simp add: Inr)
qed

lemma ps_run_fifo:
  "ps_ok s \<Longrightarrow> \<exists>t s'. ps_run calls s = Some (t, s') \<and> ps_ok s' \<and>
     (\<forall>p. filter (\<lambda>j. sj_priority j = p) (st_dispatched t) @ ps_queue s' p
        = ps_queue s p @ filter (\<lambda>j. sj_priority j = p) (st_accepted t))"
proof (induction calls arbitrary: s)
  case Nil
  then show ?case by simp
next
  case (Cons c calls)
  show ?case
  proof (cases "\<exists>j. c = CallEnqueue j")
    case True
    then obtain j where c: "c = CallEnqueue j" by blast
    show ?thesis
    proof (cases rule: ps_run_enqueue[OF Cons.prems, of j])
      case (1 s')
      from Cons.IH[OF 1(2)] show ?thesis unfolding c 1(5) by (auto simp: 1(3) split: if_splits)
    next
      case 2
      from Cons.IH[OF Cons.prems] show ?thesis unfolding c 2 .
    qed
  next
    case False
    then obtain p where call: "c = CallNext \<or> c = CallNextFor p" by (cases c) auto
    show ?thesis
    proof (cases rule: dispatch_cases[OF Cons.prems call])
      case 1
      from Cons.IH[OF Cons.prems] show ?thesis unfolding 1(1) .
    next
      case (2 s' q j rest)
      have "sj_priority j = q" using ps_ok_id[OF Cons.prems, of j q] 2(1) by simp
      then have "ps_queue s (sj_priority j) = j # rest" "q = sj_priority j" using 2(1) by simp_all
      with Cons.IH[OF 2(2)] show ?thesis unfolding 2(4) by (auto simp: 2(3) split: if_splits)
    qed
  qed
qed

lemma ps_run_serves:
  assumes "ps_ok s" "ps_queue s p = front @ j # rest"
    "length front * Suc (maximum_waiting_dispatches p) + slots_until (ps_service_cursor s) p
       < length (filter (\<lambda>c. c = CallNext) calls)"
  shows "\<exists>t s'. ps_run calls s = Some (t, s') \<and> j \<in> set (st_dispatched t)"
  using assms
proof (induction calls arbitrary: s front rest)
  case Nil
  then show ?case by simp
next
  case (Cons c calls)
  let ?w = "Suc (maximum_waiting_dispatches p)"
  show ?case
  proof (cases "\<exists>i. c = CallEnqueue i")
    case True
    then obtain i where c: "c = CallEnqueue i" by blast
    show ?thesis
    proof (cases rule: ps_run_enqueue[OF Cons.prems(1), of i])
      case (1 s')
      have "\<exists>rest'. ps_queue s' p = front @ j # rest'"
        using Cons.prems(2) by (cases "p = sj_priority i") (simp_all add: 1(3))
      then obtain rest' where q: "ps_queue s' p = front @ j # rest'" by blast
      have "\<exists>t s''. ps_run calls s' = Some (t, s'') \<and> j \<in> set (st_dispatched t)"
        using Cons.prems(3) by (intro Cons.IH[OF 1(2) q]) (simp add: c 1(4))
      then show ?thesis unfolding c 1(5) by auto
    next
      case 2
      show ?thesis unfolding c 2 using Cons.prems(3) by (intro Cons.IH[OF Cons.prems(1,2)]) (simp add: c)
    qed
  next
    case False
    then obtain p' where call: "c = CallNext \<or> c = CallNextFor p'" by (cases c) auto
    show ?thesis
    proof (cases rule: dispatch_cases[OF Cons.prems(1) call])
      case 1
      have "c \<noteq> CallNext" using 1(2) Cons.prems(2) by (metis append_is_Nil_conv list.distinct(1))
      then show ?thesis unfolding 1(1) using Cons.prems(3) by (intro Cons.IH[OF Cons.prems(1,2)]) simp
    next
      case (2 s' q i rest')
      show ?thesis
      proof (cases "q = p \<and> front = []")
        case True
        then have "i = j" using 2(1) Cons.prems(2) by simp
        with ps_run_fifo[OF 2(2), of calls] show ?thesis unfolding 2(4) by auto
      next
        case False
        have near: "slots_until (ps_service_cursor s') p \<le> maximum_waiting_dispatches p"
          using 2(2) by (intro slots_until(2)) (simp add: ps_ok_def)
        have waits: "ps_queue s p \<noteq> []" using Cons.prems(2) by simp
        have "\<exists>t s''. ps_run calls s' = Some (t, s'') \<and> j \<in> set (st_dispatched t)"
        proof (cases "q = p")
          case True
          with False obtain f fs where front: "front = f # fs" by (cases front) auto
          with Cons.prems(2) 2(1) True have "rest' = fs @ j # rest" by simp
          then have "ps_queue s' p = fs @ j # rest" using 2(3) True by simp
          moreover have "length fs * ?w + slots_until (ps_service_cursor s') p
              < length (filter (\<lambda>c. c = CallNext) calls)"
            using Cons.prems(3) near 2(6) by (cases "c = CallNext") (simp_all add: front)
          ultimately show ?thesis by (rule Cons.IH[OF 2(2)])
        next
          case other: False
          then have "ps_queue s' p = front @ j # rest" using 2(3) Cons.prems(2) by simp
          moreover have "length front * ?w + slots_until (ps_service_cursor s') p
              < length (filter (\<lambda>c. c = CallNext) calls)"
          proof (cases "c = CallNext")
            case True
            then have "slots_until (ps_service_cursor s') p < slots_until (ps_service_cursor s) p"
              using 2(5) waits other by blast
            then show ?thesis using Cons.prems(3) True by simp
          next
            case False
            then show ?thesis using Cons.prems(3) 2(6) by simp
          qed
          ultimately show ?thesis by (rule Cons.IH[OF 2(2)])
        qed
        then show ?thesis unfolding 2(4) by auto
      qed
    qed
  qed
qed

text \<open>When each class holds a job for each of its slots, the dispatches are the slots.\<close>

lemma ps_run_saturated:
  assumes "ps_ok s" "\<And>p. length (filter (\<lambda>q. q = p) (map (slot (ps_service_cursor s)) [0..<n])) \<le> length (ps_queue s p)"
  shows "\<exists>t s'. ps_run (replicate n CallNext) s = Some (t, s')
    \<and> map sj_priority (st_dispatched t) = map (slot (ps_service_cursor s)) [0..<n]"
  using assms
proof (induction n arbitrary: s)
  case 0
  then show ?case by simp
next
  case (Suc n)
  let ?c = "ps_service_cursor s"
  have slots: "map (slot ?c) [0..<Suc n] = slot ?c 0 # map (\<lambda>k. slot ?c (Suc k)) [0..<n]"
    by (simp add: map_upt_Suc del: upt_Suc)
  have "ps_queue s (slot ?c 0) \<noteq> []"
    using Suc.prems(2)[of "slot ?c 0"] unfolding slots by auto
  then obtain d j rest where d: "d \<le> slots_until ?c (slot ?c 0)" and q: "ps_queue s (slot ?c d) = j # rest"
    and run: "ps_next_job s = Some (Some j, (ps_take s (slot ?c d))\<lparr>ps_service_cursor := (?c + Suc d) mod 15\<rparr>)"
    by (rule ps_next_job_serves[OF Suc.prems(1)])
  have d: "d = 0" using d by (simp add: slots_until_def)
  let ?s = "(ps_take s (slot ?c 0))\<lparr>ps_service_cursor := (?c + 1) mod 15\<rparr>"
  have shift: "slot ((?c + 1) mod 15) k = slot ?c (Suc k)" for k using slot_shift[of ?c 1 k] by simp
  have slots': "map (slot (ps_service_cursor ?s)) [0..<n] = map (\<lambda>k. slot ?c (Suc k)) [0..<n]"
    using shift by simp
  have ok: "ps_ok ?s" using ps_ok_take[OF Suc.prems(1) q] unfolding d by (rule ps_ok_cursor) simp
  have "\<exists>t s'. ps_run (replicate n CallNext) ?s = Some (t, s')
      \<and> map sj_priority (st_dispatched t) = map (slot (ps_service_cursor ?s)) [0..<n]"
  proof (rule Suc.IH[OF ok])
    fix p
    have "length (filter (\<lambda>q. q = p) (map (slot ?c) [0..<Suc n])) \<le> length (ps_queue s p)" by (rule Suc.prems(2))
    then show "length (filter (\<lambda>q. q = p) (map (slot (ps_service_cursor ?s)) [0..<n])) \<le> length (ps_queue ?s p)"
      unfolding slots slots' by (auto simp: ps_take_queue[OF Suc.prems(1)] simp del: add_Suc_right One_nat_def split: if_splits)
  qed
  then obtain t s' where t: "ps_run (replicate n CallNext) ?s = Some (t, s')"
    "map sj_priority (st_dispatched t) = map (\<lambda>k. slot ?c (Suc k)) [0..<n]"
    unfolding slots' by blast
  have "sj_priority j = slot ?c 0" using ps_ok_id[OF Suc.prems(1), of j "slot ?c 0"] q d by simp
  then show ?case unfolding slots using run t d by simp
qed

lemma slots_weight: "c < 15 \<Longrightarrow> length (filter (\<lambda>q. q = p) (map (slot c) [0..<15])) = service_weight p"
proof -
  have "list_all (\<lambda>c. list_all (\<lambda>p. length (filter (\<lambda>q. q = p) (map (slot c) [0..<15])) = service_weight p)
      job_priority_all) [0..<15]"
    by code_simp
  moreover assume "c < 15"
  moreover have "p \<in> set job_priority_all" by (rule job_priority_codes.every_complete)
  ultimately show ?thesis by (simp add: list_all_iff del: upt_Suc)
qed

section \<open>The derived candidate\<close>

definition candidate_fresh :: "derived_media_request \<Rightarrow> derived_media_candidate \<Rightarrow> bool" where
  "candidate_fresh r c \<longleftrightarrow> dc_source c = dr_source r \<and> dc_source_revision c = dr_source_revision r"

definition candidate_eligible :: "derived_media_request \<Rightarrow> derived_media_candidate \<Rightarrow> bool" where
  "candidate_eligible r c \<longleftrightarrow> candidate_fresh r c \<and> dr_fallback r \<noteq> SourceOnly
     \<and> (dc_quality c = dr_quality r \<or> dr_fallback r = LowerQualityOrSource \<and> dc_quality c < dr_quality r)"

text \<open>The higher quality wins, and the lower identity among equals.\<close>

definition candidate_le :: "derived_media_candidate \<Rightarrow> derived_media_candidate \<Rightarrow> bool" where
  "candidate_le c best \<longleftrightarrow> dc_quality c < dc_quality best
     \<or> dc_quality c = dc_quality best \<and> dc_cache_id best \<le> dc_cache_id c"

definition best_of :: "(derived_media_candidate \<Rightarrow> bool) \<Rightarrow> derived_media_candidate list \<Rightarrow> derived_media_candidate option \<Rightarrow> bool" where
  "best_of P cs m \<longleftrightarrow> (case m of None \<Rightarrow> \<forall>c\<in>set cs. \<not> P c
     | Some best \<Rightarrow> best \<in> set cs \<and> P best \<and> (\<forall>c\<in>set cs. P c \<longrightarrow> candidate_le c best))"

lemma candidate_le_linear: "\<not> candidate_le c d \<Longrightarrow> candidate_le d c"
  by (auto simp: candidate_le_def)

lemma candidate_le_trans: "candidate_le a b \<Longrightarrow> candidate_le b c \<Longrightarrow> candidate_le a c"
  by (auto simp: candidate_le_def)

lemma candidate_le_refl [simp]: "candidate_le c c"
  by (simp add: candidate_le_def)

lemma best_of_skip: "\<not> P c \<Longrightarrow> best_of P cs m \<Longrightarrow> best_of P (cs @ [c]) m"
  by (auto simp: best_of_def split: option.splits)

lemma best_of_keep: "best_of P cs (Some b) \<Longrightarrow> candidate_le c b \<Longrightarrow> best_of P (cs @ [c]) (Some b)"
  by (auto simp: best_of_def)

lemma best_of_replace:
  "best_of P cs m \<Longrightarrow> P c \<Longrightarrow> (\<And>b. m = Some b \<Longrightarrow> candidate_le b c) \<Longrightarrow> best_of P (cs @ [c]) (Some c)"
  by (auto simp: best_of_def split: option.splits intro: candidate_le_trans)

lemma scan_best:
  "let s = fold (scan_candidate r) cs \<lparr>sn_fresh = False, sn_exact = None, sn_lower = None\<rparr> in
   (sn_fresh s \<longleftrightarrow> cs \<noteq> []) \<and> best_of (\<lambda>c. dc_quality c = dr_quality r) cs (sn_exact s)
   \<and> best_of (\<lambda>c. dr_fallback r = LowerQualityOrSource \<and> dc_quality c < dr_quality r) cs (sn_lower s)"
proof (induction cs rule: rev_induct)
  case Nil
  then show ?case by (simp add: best_of_def)
next
  case (snoc c cs)
  let ?E = "\<lambda>c. dc_quality c = dr_quality r"
  let ?L = "\<lambda>c. dr_fallback r = LowerQualityOrSource \<and> dc_quality c < dr_quality r"
  define s where "s = fold (scan_candidate r) cs \<lparr>sn_fresh = False, sn_exact = None, sn_lower = None\<rparr>"
  have ih: "best_of ?E cs (sn_exact s)" "best_of ?L cs (sn_lower s)" using snoc by (simp_all add: s_def Let_def)
  have "sn_fresh (scan_candidate r c s)" by (simp add: scan_candidate_def Let_def)
  moreover have "best_of ?E (cs @ [c]) (sn_exact (scan_candidate r c s))"
  proof (cases "?E c")
    case False
    then show ?thesis using ih(1) by (auto simp: scan_candidate_def Let_def intro: best_of_skip)
  next
    case True
    show ?thesis
    proof (cases "case sn_exact s of Some b \<Rightarrow> dc_cache_id c < dc_cache_id b | None \<Rightarrow> True")
      case replace: True
      have "best_of ?E (cs @ [c]) (Some c)"
        by (rule best_of_replace[OF ih(1) True]) (use replace ih(1) True in \<open>auto simp: candidate_le_def best_of_def\<close>)
      with replace True show ?thesis by (simp add: scan_candidate_def)
    next
      case False
      then obtain b where b: "sn_exact s = Some b" "\<not> dc_cache_id c < dc_cache_id b" by (auto split: option.splits)
      have "best_of ?E (cs @ [c]) (Some b)"
        by (rule best_of_keep) (use ih(1) b True in \<open>auto simp: candidate_le_def best_of_def\<close>)
      with b True show ?thesis by (simp add: scan_candidate_def)
    qed
  qed
  moreover have "best_of ?L (cs @ [c]) (sn_lower (scan_candidate r c s))"
  proof (cases "?L c")
    case False
    then show ?thesis using ih(2) by (auto simp: scan_candidate_def Let_def intro: best_of_skip)
  next
    case True
    then have ne: "dc_quality c \<noteq> dr_quality r" by auto
    show ?thesis
    proof (cases "case sn_lower s of Some b \<Rightarrow> \<not> candidate_le c b | None \<Rightarrow> True")
      case replace: True
      have "best_of ?L (cs @ [c]) (Some c)"
        by (rule best_of_replace[OF ih(2) True]) (use replace in \<open>auto dest: candidate_le_linear\<close>)
      moreover have "sn_lower (scan_candidate r c s) = Some c"
        using replace True ne by (auto simp: scan_candidate_def candidate_le_def Let_def not_less not_le split: option.splits)
      ultimately show ?thesis by simp
    next
      case False
      then obtain b where b: "sn_lower s = Some b" "candidate_le c b" by (auto split: option.splits)
      then have "best_of ?L (cs @ [c]) (Some b)" using best_of_keep ih(2) by metis
      moreover have "sn_lower (scan_candidate r c s) = Some b"
        using b ne by (auto simp: scan_candidate_def candidate_le_def Let_def)
      ultimately show ?thesis by simp
    qed
  qed
  ultimately show ?case by (simp add: s_def Let_def)
qed

section \<open>The properties\<close>

text \<open>
  C30: Whatever is called, no assertion of the scheduler fails, and each class is a first-in-first-out
  queue: what was dispatched from it followed by what still waits is what was accepted, in order. An
  identity waits at most once, and the identity index is what waits.
\<close>

theorem scheduler_is_fifo:
  "\<exists>t s. ps_run calls ps_new = Some (t, s)
     \<and> (\<forall>p. filter (\<lambda>j. sj_priority j = p) (st_dispatched t) @ ps_queue s p
          = filter (\<lambda>j. sj_priority j = p) (st_accepted t))
     \<and> distinct (ps_queued_ids s) \<and> set (ps_queued_ids s) = (\<Union>p. sj_id ` set (ps_queue s p))"
proof -
  obtain t s where run: "ps_run calls ps_new = Some (t, s)" and ok: "ps_ok s" and
    fifo: "\<forall>p. filter (\<lambda>j. sj_priority j = p) (st_dispatched t) @ ps_queue s p
        = filter (\<lambda>j. sj_priority j = p) (st_accepted t)"
    using ps_run_fifo[OF ps_ok_new, of calls] by auto
  have "distinct (ps_queued_ids s)" "set (ps_queued_ids s) = (\<Union>p. sj_id ` set (ps_queue s p))"
    using ok unfolding ps_ok_def by (blast intro: os_distinct)+
  with run fifo show ?thesis by blast
qed

text \<open>
  C12: No waiting job starves. In every reachable state, a job with k jobs of its class in front of
  it is dispatched by the time (k + 1) * (bound + 1) further dispatches were asked for, however many
  jobs of other classes are enqueued meanwhile: the front of a class sees at most
  maximum_waiting_dispatches other dispatches.
\<close>

theorem scheduler_serves_every_job:
  assumes "ps_run before ps_new = Some (t, s)"
    and "ps_queue s p = front @ j # rest"
    and "Suc (length front) * Suc (maximum_waiting_dispatches p) \<le> length (filter (\<lambda>c. c = CallNext) calls)"
  shows "\<exists>t' s'. ps_run calls s = Some (t', s') \<and> j \<in> set (st_dispatched t')"
proof -
  have ok: "ps_ok s" using ps_run_fifo[OF ps_ok_new, of before] assms(1) by auto
  then have "slots_until (ps_service_cursor s) p \<le> maximum_waiting_dispatches p"
    by (intro slots_until(2)) (simp add: ps_ok_def)
  with assms(3) show ?thesis by (intro ps_run_serves[OF ok assms(2)]) simp
qed

text \<open>
  In a saturated cycle each class gets its weight: while every class holds at least its weight of
  jobs, fifteen dispatches in a row are exactly the weight of each class.
\<close>

theorem scheduler_weighted_shares:
  assumes "ps_run before ps_new = Some (t, s)" and "\<forall>p. service_weight p \<le> ps_len_for s p"
  shows "\<exists>t' s'. ps_run (replicate 15 CallNext) s = Some (t', s')
     \<and> (\<forall>p. length (filter (\<lambda>j. sj_priority j = p) (st_dispatched t')) = service_weight p)"
proof -
  have ok: "ps_ok s" using ps_run_fifo[OF ps_ok_new, of before] assms(1) by auto
  then have c: "ps_service_cursor s < 15" by (simp add: ps_ok_def)
  obtain t' s' where run: "ps_run (replicate 15 CallNext) s = Some (t', s')" and
    slots: "map sj_priority (st_dispatched t') = map (slot (ps_service_cursor s)) [0..<15]"
    using ps_run_saturated[OF ok, of 15] assms(2) slots_weight[OF c] by (auto simp: ps_len_for_def)
  have "length (filter (\<lambda>j. sj_priority j = p) (st_dispatched t')) = service_weight p" for p
    using arg_cong[OF slots, of "\<lambda>xs. length (filter (\<lambda>q. q = p) xs)"]
    unfolding slots_weight[OF c] by (simp add: filter_map comp_def)
  with run show ?thesis by blast
qed

text \<open>
  A derived media selection is the best eligible candidate: of the right source and revision,
  no better than requested, of the highest quality there is and of the lowest identity at that
  quality, whatever the order of the candidates. It falls back to the source exactly when no
  candidate is eligible.
\<close>

theorem derived_selection_best:
  "case ds_candidate (select_derived r candidates) of
     None \<Rightarrow> \<forall>c\<in>set candidates. \<not> candidate_eligible r c
   | Some best \<Rightarrow> best \<in> set candidates \<and> candidate_eligible r best
       \<and> (\<forall>c\<in>set candidates. candidate_eligible r c \<longrightarrow> candidate_le c best)"
proof (cases "dr_fallback r = SourceOnly")
  case True
  then show ?thesis by (simp add: select_derived_def selection_from_source_def candidate_eligible_def)
next
  case False
  let ?cs = "filter (\<lambda>c. dc_source c = dr_source r \<and> dc_source_revision c = dr_source_revision r) candidates"
  define s where "s = fold (scan_candidate r) ?cs \<lparr>sn_fresh = False, sn_exact = None, sn_lower = None\<rparr>"
  have scan: "best_of (\<lambda>c. dc_quality c = dr_quality r) ?cs (sn_exact s)"
    "best_of (\<lambda>c. dr_fallback r = LowerQualityOrSource \<and> dc_quality c < dr_quality r) ?cs (sn_lower s)"
    using scan_best[of r ?cs] by (simp_all add: s_def Let_def)
  have sel: "ds_candidate (select_derived r candidates) = (case sn_exact s of Some c \<Rightarrow> Some c | None \<Rightarrow> sn_lower s)"
    using False by (auto simp: select_derived_def s_def[symmetric] selection_derived_def selection_from_source_def
        split: option.splits)
  show ?thesis
  proof (cases "sn_exact s")
    case (Some b)
    then show ?thesis using scan(1) False unfolding sel
      by (auto simp: best_of_def candidate_eligible_def candidate_fresh_def candidate_le_def)
  next
    case None
    then show ?thesis using scan False unfolding sel
      by (auto simp: best_of_def candidate_eligible_def candidate_fresh_def split: option.splits)
  qed
qed

section \<open>Witnesses\<close>

definition sample_job :: "nat \<Rightarrow> job_priority \<Rightarrow> unit scheduled_job" where
  "sample_job n p = sj_new (TypedId (of_nat n)) FrameJob p ()"

definition sample_calls :: "unit sched_call list" where
  "sample_calls = [CallEnqueue (sample_job 1 InteractivePriority), CallEnqueue (sample_job 2 InteractivePriority),
     CallEnqueue (sample_job 3 ExportPriority)]"

definition busy_calls :: "unit sched_call list" where
  "busy_calls = map (\<lambda>n. CallEnqueue (sample_job n
     (if n < 8 then InteractivePriority else if n < 12 then PlaybackPriority else if n < 14 then ExportPriority
      else BackgroundPriority))) [0..<15]"

theorem scheduler_serves_every_job_witness:
  "\<exists>t s t' s'. ps_run sample_calls ps_new = Some (t, s)
     \<and> ps_run (replicate 8 CallNext) s = Some (t', s') \<and> sample_job 3 ExportPriority \<in> set (st_dispatched t')"
proof -
  have "case ps_run sample_calls ps_new of None \<Rightarrow> False
     | Some (t, s) \<Rightarrow> ps_queue s ExportPriority = [sample_job 3 ExportPriority]" by code_simp
  then obtain t s where run: "ps_run sample_calls ps_new = Some (t, s)" and
    q: "ps_queue s ExportPriority = [] @ sample_job 3 ExportPriority # []"
    by (auto split: option.splits)
  have "\<exists>t' s'. ps_run (replicate 8 CallNext) s = Some (t', s') \<and> sample_job 3 ExportPriority \<in> set (st_dispatched t')"
    by (rule scheduler_serves_every_job[OF run q]) simp
  with run show ?thesis by blast
qed

theorem scheduler_weighted_shares_witness:
  "\<exists>t s t' s'. ps_run busy_calls ps_new = Some (t, s) \<and> ps_run (replicate 15 CallNext) s = Some (t', s')
     \<and> length (filter (\<lambda>j. sj_priority j = PlaybackPriority) (st_dispatched t')) = 4"
proof -
  have "case ps_run busy_calls ps_new of None \<Rightarrow> False
     | Some (t, s) \<Rightarrow> list_all (\<lambda>p. service_weight p \<le> ps_len_for s p) job_priority_all" by code_simp
  then obtain t s where run: "ps_run busy_calls ps_new = Some (t, s)" and
    "list_all (\<lambda>p. service_weight p \<le> ps_len_for s p) job_priority_all"
    by (auto split: option.splits)
  then have "\<forall>p. service_weight p \<le> ps_len_for s p"
    using job_priority_codes.every_complete by (auto simp: list_all_iff)
  from scheduler_weighted_shares[OF run this] run show ?thesis by force
qed

definition proxy_request :: derived_media_request where
  "proxy_request = \<lparr>dr_source = TypedId 1, dr_source_revision = 4, dr_quality = HalfQuality,
     dr_fallback = LowerQualityOrSource\<rparr>"

definition proxies :: "derived_media_candidate list" where
  "proxies = [\<lparr>dc_cache_id = TypedId 9, dc_source = TypedId 1, dc_source_revision = 4, dc_quality = EighthQuality\<rparr>,
     \<lparr>dc_cache_id = TypedId 8, dc_source = TypedId 1, dc_source_revision = 4, dc_quality = QuarterQuality\<rparr>,
     \<lparr>dc_cache_id = TypedId 7, dc_source = TypedId 1, dc_source_revision = 3, dc_quality = HalfQuality\<rparr>]"

theorem derived_selection_best_witness:
  "ds_candidate (select_derived proxy_request proxies) = Some (proxies ! 1)
     \<and> candidate_le (proxies ! 0) (proxies ! 1) \<and> \<not> candidate_eligible proxy_request (proxies ! 2)"
proof -
  have run: "ds_candidate (select_derived proxy_request proxies) = Some (proxies ! 1)" by code_simp
  have fits: "candidate_eligible proxy_request (proxies ! 0)" "\<not> candidate_eligible proxy_request (proxies ! 2)" by code_simp+
  have "proxies ! 0 \<in> set proxies" by (simp add: proxies_def)
  with run fits show ?thesis using derived_selection_best[of proxies proxy_request] by simp
qed

end
