(* ===== verification/CacheBudget.thy ===== *)
theory CacheBudget
  imports CoreIds
begin

text \<open>
  \<open>superi-cache/src/eviction.rs\<close>, first part: the memory budgets of the frame caches. A manager
  holds one usage record for everything, one per project and one per device, behind one lock; a
  reservation is admitted when it fits every limit and gives its cost back when it is dropped. The
  methods run under the lock, so concurrent callers are a sequence of calls. The outer option is
  \<open>None\<close> for a failed \<open>expect\<close>, the panic.
\<close>

section \<open>Limits and costs\<close>

definition cache_invalid :: "string \<Rightarrow> string \<Rightarrow> error_value" where
  "cache_invalid operation message =
     err_with_context (err_new InvalidInput UserCorrectable message)
       (ctx_new ''superi-cache.memory-budget'' operation)"

lemma cache_invalid_cong [cong]: "cache_invalid operation message = cache_invalid operation message"
  by (rule refl)

record cache_budget_limit =
  bl_max_bytes :: int
  bl_max_frames :: int

definition bl_new :: "int \<Rightarrow> int \<Rightarrow> cache_budget_limit result" where
  "bl_new max_bytes max_frames =
     (if max_bytes = 0
      then Inl (cache_invalid ''create_budget_limit'' ''cache byte limit must be greater than zero'')
      else if max_frames = 0
      then Inl (cache_invalid ''create_budget_limit'' ''cache frame limit must be greater than zero'')
      else Inr \<lparr>bl_max_bytes = max_bytes, bl_max_frames = max_frames\<rparr>)"

record cache_memory_budgets =
  mb_total :: cache_budget_limit
  mb_per_project :: cache_budget_limit
  mb_per_device :: cache_budget_limit

definition validate_child_limit :: "string \<Rightarrow> cache_budget_limit \<Rightarrow> cache_budget_limit \<Rightarrow> unit result" where
  "validate_child_limit scope child whole =
     (if bl_max_bytes whole < bl_max_bytes child
      then Inl (cache_invalid ''create_memory_budgets''
             (''per-'' @ scope @ '' cache byte limit must not exceed the total byte limit''))
      else if bl_max_frames whole < bl_max_frames child
      then Inl (cache_invalid ''create_memory_budgets''
             (''per-'' @ scope @ '' cache frame limit must not exceed the total frame limit''))
      else Inr ())"

definition mb_new ::
  "cache_budget_limit \<Rightarrow> cache_budget_limit \<Rightarrow> cache_budget_limit \<Rightarrow> cache_memory_budgets result" where
  "mb_new whole per_project per_device =
     bindR (validate_child_limit ''project'' per_project whole) (\<lambda>_.
     bindR (validate_child_limit ''device'' per_device whole) (\<lambda>_.
       Inr \<lparr>mb_total = whole, mb_per_project = per_project, mb_per_device = per_device\<rparr>))"

record cache_cost =
  cc_bytes :: int
  cc_frames :: int

definition cc_new :: "int \<Rightarrow> int \<Rightarrow> cache_cost result" where
  "cc_new bytes frames =
     (if bytes = 0
      then Inl (cache_invalid ''create_cache_cost''
             ''cache reservations must contain at least one payload byte'')
      else if frames = 0
      then Inl (cache_invalid ''create_cache_cost''
             ''cache reservations must contain at least one frame result'')
      else Inr \<lparr>cc_bytes = bytes, cc_frames = frames\<rparr>)"

section \<open>Usage\<close>

record cache_budget_usage =
  bu_bytes :: int
  bu_frames :: int

definition bu_default :: cache_budget_usage where
  "bu_default = \<lparr>bu_bytes = 0, bu_frames = 0\<rparr>"

definition bu_add :: "cache_budget_usage \<Rightarrow> cache_cost \<Rightarrow> cache_budget_usage option" where
  "bu_add u c =
     Option.bind (checked_u64 (bu_bytes u + cc_bytes c)) (\<lambda>bytes.
     Option.bind (checked_u64 (bu_frames u + cc_frames c)) (\<lambda>frames.
       Some \<lparr>bu_bytes = bytes, bu_frames = frames\<rparr>))"

definition bu_subtract :: "cache_budget_usage \<Rightarrow> cache_cost \<Rightarrow> cache_budget_usage option" where
  "bu_subtract u c =
     Option.bind (checked_u64 (bu_bytes u - cc_bytes c)) (\<lambda>bytes.
     Option.bind (checked_u64 (bu_frames u - cc_frames c)) (\<lambda>frames.
       Some \<lparr>bu_bytes = bytes, bu_frames = frames\<rparr>))"

definition bu_is_empty :: "cache_budget_usage \<Rightarrow> bool" where
  "bu_is_empty u \<longleftrightarrow> bu_bytes u = 0 \<and> bu_frames u = 0"

record cache_budget_state =
  bs_total_usage :: cache_budget_usage
  bs_peak_total_usage :: cache_budget_usage
  bs_projects :: "(project_id \<times> cache_budget_usage) list"
  bs_devices :: "(device_id \<times> cache_budget_usage) list"
  bs_active_reservations :: int
  bs_denied_reservations :: int

definition bs_default :: cache_budget_state where
  "bs_default = \<lparr>bs_total_usage = bu_default, bs_peak_total_usage = bu_default, bs_projects = [],
     bs_devices = [], bs_active_reservations = 0, bs_denied_reservations = 0\<rparr>"

definition bs_project_usage :: "cache_budget_state \<Rightarrow> project_id \<Rightarrow> cache_budget_usage" where
  "bs_project_usage s p = (case map_of (bs_projects s) p of None \<Rightarrow> bu_default | Some u \<Rightarrow> u)"

definition bs_device_usage :: "cache_budget_state \<Rightarrow> device_id \<Rightarrow> cache_budget_usage" where
  "bs_device_usage s d = (case map_of (bs_devices s) d of None \<Rightarrow> bu_default | Some u \<Rightarrow> u)"

section \<open>Admission\<close>

datatype limit_kind = TotalBytes | TotalFrames | ProjectBytes | ProjectFrames | DeviceBytes | DeviceFrames

fun limit_kind_code :: "limit_kind \<Rightarrow> string" where
  "limit_kind_code TotalBytes = ''total_bytes''"
| "limit_kind_code TotalFrames = ''total_frames''"
| "limit_kind_code ProjectBytes = ''project_bytes''"
| "limit_kind_code ProjectFrames = ''project_frames''"
| "limit_kind_code DeviceBytes = ''device_bytes''"
| "limit_kind_code DeviceFrames = ''device_frames''"

fun limit_kind_requested :: "limit_kind \<Rightarrow> cache_cost \<Rightarrow> int" where
  "limit_kind_requested TotalBytes c = cc_bytes c"
| "limit_kind_requested ProjectBytes c = cc_bytes c"
| "limit_kind_requested DeviceBytes c = cc_bytes c"
| "limit_kind_requested TotalFrames c = cc_frames c"
| "limit_kind_requested ProjectFrames c = cc_frames c"
| "limit_kind_requested DeviceFrames c = cc_frames c"

datatype cache_pressure_scope = TotalScope | ProjectScope project_id | DeviceScope device_id

fun limit_kind_scope :: "limit_kind \<Rightarrow> project_id \<Rightarrow> device_id option \<Rightarrow> cache_pressure_scope option" where
  "limit_kind_scope TotalBytes p d = Some TotalScope"
| "limit_kind_scope TotalFrames p d = Some TotalScope"
| "limit_kind_scope ProjectBytes p d = Some (ProjectScope p)"
| "limit_kind_scope ProjectFrames p d = Some (ProjectScope p)"
| "limit_kind_scope DeviceBytes p d = map_option DeviceScope d"
| "limit_kind_scope DeviceFrames p d = map_option DeviceScope d"

record limit_failure =
  lf_kind :: limit_kind
  lf_current :: int
  lf_maximum :: int

definition limit_failure_of :: "limit_kind \<Rightarrow> int \<Rightarrow> int \<Rightarrow> int \<Rightarrow> limit_failure option" where
  "limit_failure_of kind current requested maximum =
     (if max 0 (maximum - current) < requested
      then Some \<lparr>lf_kind = kind, lf_current = current, lf_maximum = maximum\<rparr> else None)"

fun first_some :: "'a option list \<Rightarrow> 'a option" where
  "first_some [] = None"
| "first_some (x # xs) = (case x of Some v \<Rightarrow> Some v | None \<Rightarrow> first_some xs)"

definition first_limit_failure ::
  "cache_memory_budgets \<Rightarrow> cache_budget_usage \<Rightarrow> cache_budget_usage \<Rightarrow> cache_budget_usage option \<Rightarrow> cache_cost
     \<Rightarrow> limit_failure option" where
  "first_limit_failure b whole project device c =
     first_some
       [limit_failure_of TotalBytes (bu_bytes whole) (cc_bytes c) (bl_max_bytes (mb_total b)),
        limit_failure_of TotalFrames (bu_frames whole) (cc_frames c) (bl_max_frames (mb_total b)),
        limit_failure_of ProjectBytes (bu_bytes project) (cc_bytes c) (bl_max_bytes (mb_per_project b)),
        limit_failure_of ProjectFrames (bu_frames project) (cc_frames c) (bl_max_frames (mb_per_project b)),
        Option.bind device (\<lambda>u. limit_failure_of DeviceBytes (bu_bytes u) (cc_bytes c) (bl_max_bytes (mb_per_device b))),
        Option.bind device (\<lambda>u. limit_failure_of DeviceFrames (bu_frames u) (cc_frames c) (bl_max_frames (mb_per_device b)))]"

definition budget_exhausted ::
  "limit_failure \<Rightarrow> project_id \<Rightarrow> device_id option \<Rightarrow> cache_cost \<Rightarrow> error_value" where
  "budget_exhausted f p d c =
     (let context = fold (\<lambda>(key, val) x. ctx_with_field x key val)
        [(''limit'', limit_kind_code (lf_kind f)), (''current'', show_unsigned (lf_current f)),
         (''maximum'', show_unsigned (lf_maximum f)), (''requested'', show_unsigned (limit_kind_requested (lf_kind f) c)),
         (''requested_bytes'', show_unsigned (cc_bytes c)), (''requested_frames'', show_unsigned (cc_frames c)),
         (''project'', id_display ProjectKind p)]
        (ctx_new ''superi-cache.memory-budget'' ''reserve_cache_memory'');
        context = (case d of None \<Rightarrow> context | Some d \<Rightarrow> fst (ctx_insert_field context ''device'' (id_display DeviceKind d)))
      in err_with_context (err_new ResourceExhausted Retryable
           ''cache memory budget cannot admit the requested result'') context)"

lemma budget_exhausted_cong [cong]: "budget_exhausted f p d c = budget_exhausted f p d c"
  by (rule refl)

section \<open>The manager\<close>

record 'g cache_reservation =
  cr_project :: project_id
  cr_device :: "device_id option"
  cr_cost :: cache_cost
  cr_gpu :: "'g option"

definition reserve_local ::
  "cache_memory_budgets \<Rightarrow> cache_budget_state \<Rightarrow> project_id \<Rightarrow> device_id option \<Rightarrow> cache_cost
     \<Rightarrow> ('g cache_reservation result \<times> cache_budget_state) option" where
  "reserve_local b s p d c =
     (let project_usage = bs_project_usage s p;
          device_usage = (case d of None \<Rightarrow> bu_default | Some d \<Rightarrow> bs_device_usage s d) in
      case first_limit_failure b (bs_total_usage s) project_usage (map_option (\<lambda>_. device_usage) d) c of
        Some f \<Rightarrow>
          Some (Inl (budget_exhausted f p d c),
                s\<lparr>bs_denied_reservations := min (2 ^ 64 - 1) (bs_denied_reservations s + 1)\<rparr>)
      | None \<Rightarrow>
          Option.bind (bu_add (bs_total_usage s) c) (\<lambda>whole.
          let peak = \<lparr>bu_bytes = max (bu_bytes (bs_peak_total_usage s)) (bu_bytes whole),
                      bu_frames = max (bu_frames (bs_peak_total_usage s)) (bu_frames whole)\<rparr> in
          Option.bind (bu_add project_usage c) (\<lambda>project.
          Option.bind (case d of None \<Rightarrow> Some (bs_devices s)
                       | Some d \<Rightarrow> map_option (\<lambda>u. om_insert d u (bs_devices s)) (bu_add (bs_device_usage s d) c)) (\<lambda>devices.
          Option.bind (checked_u64 (bs_active_reservations s + 1)) (\<lambda>active.
            Some (Inr \<lparr>cr_project = p, cr_device = d, cr_cost = c, cr_gpu = None\<rparr>,
                  s\<lparr>bs_total_usage := whole, bs_peak_total_usage := peak,
                    bs_projects := om_insert p project (bs_projects s), bs_devices := devices,
                    bs_active_reservations := active\<rparr>))))))"

text \<open>Taking a cost off one entry, which goes when nothing is left of it.\<close>

definition release_entry ::
  "'k::linorder \<Rightarrow> cache_cost \<Rightarrow> ('k \<times> cache_budget_usage) list \<Rightarrow> ('k \<times> cache_budget_usage) list option" where
  "release_entry k c m =
     Option.bind (map_of m k) (\<lambda>u.
     Option.bind (bu_subtract u c) (\<lambda>u.
       Some (if bu_is_empty u then om_remove k m else om_insert k u m)))"

definition cb_release ::
  "cache_budget_state \<Rightarrow> project_id \<Rightarrow> device_id option \<Rightarrow> cache_cost \<Rightarrow> cache_budget_state option" where
  "cb_release s p d c =
     Option.bind (bu_subtract (bs_total_usage s) c) (\<lambda>whole.
     Option.bind (release_entry p c (bs_projects s)) (\<lambda>projects.
     Option.bind (case d of None \<Rightarrow> Some (bs_devices s) | Some d \<Rightarrow> release_entry d c (bs_devices s)) (\<lambda>devices.
     Option.bind (checked_u64 (bs_active_reservations s - 1)) (\<lambda>active.
       Some (s\<lparr>bs_total_usage := whole, bs_projects := projects, bs_devices := devices,
               bs_active_reservations := active\<rparr>)))))"

text \<open>Dropping a reservation.\<close>

definition cr_drop :: "cache_budget_state \<Rightarrow> 'g cache_reservation \<Rightarrow> cache_budget_state option" where
  "cr_drop s r = cb_release s (cr_project r) (cr_device r) (cr_cost r)"

definition reserve_host ::
  "cache_memory_budgets \<Rightarrow> cache_budget_state \<Rightarrow> project_id \<Rightarrow> cache_cost
     \<Rightarrow> ('g cache_reservation result \<times> cache_budget_state) option" where
  "reserve_host b s p c = reserve_local b s p None c"

text \<open>
  The device reservation asks the device's memory pool too; \<open>gpu_reserve\<close> is what that pool answers
  for the bytes. When it refuses, the early return drops the local reservation.
\<close>

definition reserve_device ::
  "(int \<Rightarrow> 'g result) \<Rightarrow> cache_memory_budgets \<Rightarrow> cache_budget_state \<Rightarrow> project_id \<Rightarrow> device_id \<Rightarrow> cache_cost
     \<Rightarrow> ('g cache_reservation result \<times> cache_budget_state) option" where
  "reserve_device gpu_reserve b s p d c =
     Option.bind (reserve_local b s p (Some d) c) (\<lambda>(r, s).
       case r of
         Inl e \<Rightarrow> Some (Inl e, s)
       | Inr reservation \<Rightarrow>
           (case gpu_reserve (cc_bytes c) of
              Inr g \<Rightarrow> Some (Inr (reservation\<lparr>cr_gpu := Some g\<rparr>), s)
            | Inl e \<Rightarrow>
                map_option (Pair (Inl (err_with_context e
                    (fold (\<lambda>(key, val) x. ctx_with_field x key val)
                      [(''project'', id_display ProjectKind p), (''device'', id_display DeviceKind d),
                       (''requested_bytes'', show_unsigned (cc_bytes c)), (''requested_frames'', show_unsigned (cc_frames c))]
                      (ctx_new ''superi-cache.memory-budget'' ''reserve_device'')))))
                  (cr_drop s reservation)))"

definition pressure_scope ::
  "cache_memory_budgets \<Rightarrow> cache_budget_state \<Rightarrow> project_id \<Rightarrow> device_id option \<Rightarrow> cache_cost
     \<Rightarrow> cache_pressure_scope option option" where
  "pressure_scope b s p d c =
     (let device_usage = (case d of None \<Rightarrow> bu_default | Some d \<Rightarrow> bs_device_usage s d) in
      case first_limit_failure b (bs_total_usage s) (bs_project_usage s p) (map_option (\<lambda>_. device_usage) d) c of
        None \<Rightarrow> Some None
      | Some f \<Rightarrow> map_option Some (limit_kind_scope (lf_kind f) p d))"

section \<open>Runs\<close>

text \<open>
  The manager with the reservations that are alive. A caller makes a cost and reserves for it, or
  drops one of the live reservations.
\<close>

datatype 'g budget_call =
    ReserveHost project_id int int
  | ReserveDevice project_id device_id int int "'g result"
  | DropReservation nat

definition keep_reservation ::
  "'g cache_reservation list \<Rightarrow> ('g cache_reservation result \<times> cache_budget_state) option
     \<Rightarrow> ('g cache_reservation list \<times> cache_budget_state) option" where
  "keep_reservation live m =
     map_option (\<lambda>(r, s). (case r of Inl _ \<Rightarrow> live | Inr reservation \<Rightarrow> reservation # live, s)) m"

fun budget_step ::
  "cache_memory_budgets \<Rightarrow> 'g budget_call \<Rightarrow> 'g cache_reservation list \<times> cache_budget_state
     \<Rightarrow> ('g cache_reservation list \<times> cache_budget_state) option" where
  "budget_step b (ReserveHost p bytes frames) (live, s) =
     (case cc_new bytes frames of
        Inl _ \<Rightarrow> Some (live, s)
      | Inr c \<Rightarrow> keep_reservation live (reserve_host b s p c))"
| "budget_step b (ReserveDevice p d bytes frames answer) (live, s) =
     (case cc_new bytes frames of
        Inl _ \<Rightarrow> Some (live, s)
      | Inr c \<Rightarrow> keep_reservation live (reserve_device (\<lambda>_. answer) b s p d c))"
| "budget_step b (DropReservation i) (live, s) =
     (if i < length live
      then map_option (Pair (take i live @ drop (Suc i) live)) (cr_drop s (live ! i))
      else Some (live, s))"

fun budget_run ::
  "cache_memory_budgets \<Rightarrow> 'g budget_call list \<Rightarrow> 'g cache_reservation list \<times> cache_budget_state
     \<Rightarrow> ('g cache_reservation list \<times> cache_budget_state) option" where
  "budget_run b [] state = Some state"
| "budget_run b (call # calls) state = Option.bind (budget_step b call state) (budget_run b calls)"

end
