(* ===== verification/CacheBudgetProps.thy ===== *)
theory CacheBudgetProps
  imports CacheBudget
begin

text \<open>
  The budgets account for exactly the live reservations: every counter is the sum of their costs,
  no limit is ever exceeded, no arithmetic of the manager can overflow or underflow, and a
  reservation is admitted exactly when it fits.
\<close>

section \<open>Sums of costs\<close>

definition cost_of :: "'g cache_reservation list \<Rightarrow> cache_budget_usage" where
  "cost_of live = \<lparr>bu_bytes = (\<Sum>r\<leftarrow>live. cc_bytes (cr_cost r)), bu_frames = (\<Sum>r\<leftarrow>live. cc_frames (cr_cost r))\<rparr>"

definition of_project :: "project_id \<Rightarrow> 'g cache_reservation list \<Rightarrow> 'g cache_reservation list" where
  "of_project p live = filter (\<lambda>r. cr_project r = p) live"

definition of_device :: "device_id \<Rightarrow> 'g cache_reservation list \<Rightarrow> 'g cache_reservation list" where
  "of_device d live = filter (\<lambda>r. cr_device r = Some d) live"

definition within :: "cache_budget_usage \<Rightarrow> cache_budget_limit \<Rightarrow> bool" where
  "within u l \<longleftrightarrow> bu_bytes u \<le> bl_max_bytes l \<and> bu_frames u \<le> bl_max_frames l"

definition plus_cost :: "cache_budget_usage \<Rightarrow> cache_cost \<Rightarrow> cache_budget_usage" where
  "plus_cost u c = \<lparr>bu_bytes = bu_bytes u + cc_bytes c, bu_frames = bu_frames u + cc_frames c\<rparr>"

definition cost_ok :: "cache_cost \<Rightarrow> bool" where
  "cost_ok c \<longleftrightarrow> 0 < cc_bytes c \<and> 0 < cc_frames c"

definition limit_ok :: "cache_budget_limit \<Rightarrow> bool" where
  "limit_ok l \<longleftrightarrow> in_u64 (bl_max_bytes l) \<and> in_u64 (bl_max_frames l)"

lemma of_project_simps [simp]:
  "of_project p [] = []" "of_project p (xs @ ys) = of_project p xs @ of_project p ys"
  "of_project p (r # live) = (if cr_project r = p then r # of_project p live else of_project p live)"
  by (simp_all add: of_project_def)

lemma of_device_simps [simp]:
  "of_device d [] = []" "of_device d (xs @ ys) = of_device d xs @ of_device d ys"
  "of_device d (r # live) = (if cr_device r = Some d then r # of_device d live else of_device d live)"
  by (simp_all add: of_device_def)

lemma cost_of_Nil [simp]: "cost_of [] = bu_default"
  by (simp add: cost_of_def bu_default_def)

lemma cost_of_insert: "cost_of (xs @ r # ys) = plus_cost (cost_of (xs @ ys)) (cr_cost r)"
  by (simp add: cost_of_def plus_cost_def)

lemma cost_of_Cons [simp]: "cost_of (r # ys) = plus_cost (cost_of ys) (cr_cost r)"
  using cost_of_insert[of "[]"] by simp

text \<open>Costs are positive, so a usage is empty exactly when nothing is reserved.\<close>

lemma cost_of_pos:
  assumes "\<forall>r\<in>set live. cost_ok (cr_cost r)"
  shows "0 \<le> bu_bytes (cost_of live)" "int (length live) \<le> bu_frames (cost_of live)"
  using assms by (induction live) (auto simp: cost_ok_def plus_cost_def bu_default_def)

lemma cost_of_empty: "\<forall>r\<in>set live. cost_ok (cr_cost r) \<Longrightarrow> bu_is_empty (cost_of live) \<longleftrightarrow> live = []"
  using cost_of_pos[of live] by (cases live) (auto simp: bu_is_empty_def bu_default_def)

lemma bu_add_plus:
  "0 \<le> bu_bytes u \<Longrightarrow> 0 \<le> bu_frames u \<Longrightarrow> cost_ok c \<Longrightarrow> limit_ok l \<Longrightarrow> within (plus_cost u c) l
     \<Longrightarrow> bu_add u c = Some (plus_cost u c)"
  by (simp add: bu_add_def within_def plus_cost_def limit_ok_def cost_ok_def checked_u64_def in_u64_def)

lemma bu_subtract_plus:
  "0 \<le> bu_bytes u \<Longrightarrow> 0 \<le> bu_frames u \<Longrightarrow> in_u64 (bu_bytes u) \<Longrightarrow> in_u64 (bu_frames u)
     \<Longrightarrow> bu_subtract (plus_cost u c) c = Some u"
  by (simp add: bu_subtract_def plus_cost_def)

lemma within_in_u64:
  "within u l \<Longrightarrow> limit_ok l \<Longrightarrow> 0 \<le> bu_bytes u \<Longrightarrow> 0 \<le> bu_frames u \<Longrightarrow> in_u64 (bu_bytes u) \<and> in_u64 (bu_frames u)"
  by (simp add: within_def limit_ok_def in_u64_def)

lemma within_less:
  "within (plus_cost u c) l \<Longrightarrow> cost_ok c \<Longrightarrow> within u l"
  by (simp add: within_def plus_cost_def cost_ok_def)

section \<open>The invariant\<close>

text \<open>The usage recorded for a key: an entry exists exactly while something is reserved under it.\<close>

definition entry_of :: "'g cache_reservation list \<Rightarrow> cache_budget_usage option" where
  "entry_of live = (if live = [] then None else Some (cost_of live))"

definition bs_ok :: "cache_memory_budgets \<Rightarrow> 'g cache_reservation list \<Rightarrow> cache_budget_state \<Rightarrow> bool" where
  "bs_ok b live s \<longleftrightarrow>
     (\<forall>r\<in>set live. cost_ok (cr_cost r))
     \<and> bs_total_usage s = cost_of live \<and> within (cost_of live) (mb_total b)
     \<and> om_ok (bs_projects s) \<and> (\<forall>p. map_of (bs_projects s) p = entry_of (of_project p live))
     \<and> (\<forall>p. within (cost_of (of_project p live)) (mb_per_project b))
     \<and> om_ok (bs_devices s) \<and> (\<forall>d. map_of (bs_devices s) d = entry_of (of_device d live))
     \<and> (\<forall>d. within (cost_of (of_device d live)) (mb_per_device b))
     \<and> bs_active_reservations s = int (length live)
     \<and> within (bs_peak_total_usage s) (mb_total b)
     \<and> bu_bytes (cost_of live) \<le> bu_bytes (bs_peak_total_usage s)
     \<and> bu_frames (cost_of live) \<le> bu_frames (bs_peak_total_usage s)"

definition budgets_ok :: "cache_memory_budgets \<Rightarrow> bool" where
  "budgets_ok b \<longleftrightarrow> limit_ok (mb_total b) \<and> limit_ok (mb_per_project b) \<and> limit_ok (mb_per_device b)"

lemma costs_filter: "\<forall>r\<in>set live. cost_ok (cr_cost r) \<Longrightarrow> \<forall>r\<in>set (of_project p live). cost_ok (cr_cost r)"
  "\<forall>r\<in>set live. cost_ok (cr_cost r) \<Longrightarrow> \<forall>r\<in>set (of_device d live). cost_ok (cr_cost r)"
  by (auto simp: of_project_def of_device_def)

lemma bs_ok_default:
  assumes "budgets_ok b"
  shows "bs_ok b ([] :: 'g cache_reservation list) bs_default"
proof -
  have "within bu_default l" if "limit_ok l" for l
    using that by (simp add: within_def bu_default_def limit_ok_def in_u64_def)
  with assms show ?thesis
    by (simp add: bs_ok_def bs_default_def entry_of_def budgets_ok_def)
qed

lemma bs_ok_usage:
  assumes "bs_ok b live s"
  shows "bs_project_usage s p = cost_of (of_project p live)" "bs_device_usage s d = cost_of (of_device d live)"
  using assms by (auto simp: bs_ok_def bs_project_usage_def bs_device_usage_def entry_of_def)

section \<open>Admission\<close>

lemma limit_failure_None:
  "0 < requested \<Longrightarrow> limit_failure_of k current requested maximum = None \<longleftrightarrow> current + requested \<le> maximum"
  by (auto simp: limit_failure_of_def)

lemma first_some_None: "first_some ms = None \<longleftrightarrow> (\<forall>m\<in>set ms. m = None)"
  by (induction ms) (auto split: option.splits)

definition fits ::
  "cache_memory_budgets \<Rightarrow> 'g cache_reservation list \<Rightarrow> project_id \<Rightarrow> device_id option \<Rightarrow> cache_cost \<Rightarrow> bool" where
  "fits b live p d c \<longleftrightarrow> within (plus_cost (cost_of live) c) (mb_total b)
     \<and> within (plus_cost (cost_of (of_project p live)) c) (mb_per_project b)
     \<and> (case d of None \<Rightarrow> True | Some d \<Rightarrow> within (plus_cost (cost_of (of_device d live)) c) (mb_per_device b))"

lemma first_limit_failure_None:
  assumes "bs_ok b live s" "cost_ok c"
  shows "first_limit_failure b (bs_total_usage s) (bs_project_usage s p)
      (map_option (\<lambda>_. case d of None \<Rightarrow> bu_default | Some d \<Rightarrow> bs_device_usage s d) d) c = None
    \<longleftrightarrow> fits b live p d c"
proof -
  have "bs_total_usage s = cost_of live" using assms(1) by (simp add: bs_ok_def)
  then show ?thesis using assms(2)
    by (cases d) (auto simp: first_limit_failure_def first_some_None limit_failure_None cost_ok_def bs_ok_usage[OF assms(1)]
        fits_def within_def plus_cost_def simp del: first_some.simps)
qed

lemma entry_of_Cons [simp]: "entry_of (r # live) = Some (plus_cost (cost_of live) (cr_cost r))"
  by (simp add: entry_of_def)

text \<open>
  A reservation: refused with nothing changed but the count of denials, or recorded at the head of
  the live ones.
\<close>

lemma reserve_local_cases:
  assumes ok: "bs_ok b (live :: 'g cache_reservation list) s" and b: "budgets_ok b" and c: "cost_ok c"
  obtains (refused) e where "\<not> fits b live p d c"
      "reserve_local b s p d c = Some (Inl e :: 'g cache_reservation result, s\<lparr>bs_denied_reservations := min (2 ^ 64 - 1) (bs_denied_reservations s + 1)\<rparr>)"
  | (admitted) s' where "fits b live p d c"
      "reserve_local b s p d c = Some (Inr \<lparr>cr_project = p, cr_device = d, cr_cost = c, cr_gpu = (None :: 'g option)\<rparr>, s')"
      "\<And>r :: 'g cache_reservation. cr_project r = p \<Longrightarrow> cr_device r = d \<Longrightarrow> cr_cost r = c \<Longrightarrow> bs_ok b (r # live) s'"
proof (cases "fits b live p d c")
  case False
  then obtain f where "first_limit_failure b (bs_total_usage s) (bs_project_usage s p)
      (map_option (\<lambda>_. case d of None \<Rightarrow> bu_default | Some d \<Rightarrow> bs_device_usage s d) d) c = Some f"
    using first_limit_failure_None[OF ok c, of p d] by auto
  then show thesis by (intro refused[OF False]) (simp add: reserve_local_def Let_def)
next
  case True
  note fit = True[unfolded fits_def]
  have none: "first_limit_failure b (bs_total_usage s) (bs_project_usage s p)
      (map_option (\<lambda>_. case d of None \<Rightarrow> bu_default | Some d \<Rightarrow> bs_device_usage s d) d) c = None"
    using first_limit_failure_None[OF ok c, of p d] True by simp
  have costs: "\<forall>r\<in>set live. cost_ok (cr_cost r)" using ok by (simp add: bs_ok_def)
  note pos = cost_of_pos[OF costs] cost_of_pos[OF costs_filter(1)[OF costs]] cost_of_pos[OF costs_filter(2)[OF costs]]
  have limits: "limit_ok (mb_total b)" "limit_ok (mb_per_project b)" "limit_ok (mb_per_device b)"
    using b by (simp_all add: budgets_ok_def)
  have whole: "bu_add (bs_total_usage s) c = Some (plus_cost (cost_of live) c)"
  proof -
    have "bs_total_usage s = cost_of live" using ok by (simp add: bs_ok_def)
    then show ?thesis using bu_add_plus[OF _ _ c limits(1)] pos(1,2) fit by simp
  qed
  have project: "bu_add (bs_project_usage s p) c = Some (plus_cost (cost_of (of_project p live)) c)"
    unfolding bs_ok_usage[OF ok] using bu_add_plus[OF _ _ c limits(2)] pos(3)[of p] pos(4)[of p] fit by simp
  define devices where "devices = (case d of None \<Rightarrow> bs_devices s
    | Some d \<Rightarrow> om_insert d (plus_cost (cost_of (of_device d live)) c) (bs_devices s))"
  have devs: "(case d of None \<Rightarrow> Some (bs_devices s)
      | Some d \<Rightarrow> map_option (\<lambda>u. om_insert d u (bs_devices s)) (bu_add (bs_device_usage s d) c)) = Some devices"
  proof (cases d)
    case (Some d')
    then have "bu_add (bs_device_usage s d') c = Some (plus_cost (cost_of (of_device d' live)) c)"
      unfolding bs_ok_usage[OF ok] using bu_add_plus[OF _ _ c limits(3)] pos(5)[of d'] pos(6)[of d'] fit by simp
    then show ?thesis by (simp add: devices_def Some)
  qed (simp add: devices_def)
  have active: "checked_u64 (bs_active_reservations s + 1) = Some (int (length live) + 1)"
  proof -
    have "int (length live) + 1 \<le> bu_frames (plus_cost (cost_of live) c)"
      using pos(2) c by (simp add: plus_cost_def cost_ok_def)
    also have "\<dots> < 2 ^ 64" using fit limits(1) by (simp add: within_def limit_ok_def in_u64_def)
    finally show ?thesis using ok by (simp add: bs_ok_def checked_u64_def in_u64_def)
  qed
  let ?s = "s\<lparr>bs_total_usage := plus_cost (cost_of live) c,
      bs_peak_total_usage := \<lparr>bu_bytes = max (bu_bytes (bs_peak_total_usage s)) (bu_bytes (plus_cost (cost_of live) c)),
        bu_frames = max (bu_frames (bs_peak_total_usage s)) (bu_frames (plus_cost (cost_of live) c))\<rparr>,
      bs_projects := om_insert p (plus_cost (cost_of (of_project p live)) c) (bs_projects s),
      bs_devices := devices, bs_active_reservations := int (length live) + 1\<rparr>"
  show thesis
  proof (rule admitted[OF True])
    show "reserve_local b s p d c = Some (Inr \<lparr>cr_project = p, cr_device = d, cr_cost = c, cr_gpu = (None :: 'g option)\<rparr>, ?s)"
      by (simp add: reserve_local_def Let_def none whole project devs active del: checked_in_range)
    fix r :: "'g cache_reservation"
    assume r: "cr_project r = p" "cr_device r = d" "cr_cost r = c"
    have "om_ok devices" "map_of devices d' = entry_of (of_device d' (r # live))" for d'
      using ok r by (auto simp: devices_def bs_ok_def split: option.splits)
    then show "bs_ok b (r # live) ?s"
      using ok r fit c by (auto simp: bs_ok_def within_def split: option.splits)
  qed
qed

section \<open>Release\<close>

lemma release_entry_ok:
  assumes "om_ok m" "map_of m k = entry_of (xs @ r # ys)" "\<forall>x\<in>set (xs @ r # ys). cost_ok (cr_cost x)"
    "within (cost_of (xs @ r # ys)) l" "limit_ok l"
  shows "\<exists>m'. release_entry k (cr_cost r) m = Some m' \<and> om_ok m' \<and> map_of m' = (map_of m)(k := entry_of (xs @ ys))"
proof -
  have costs: "\<forall>x\<in>set (xs @ ys). cost_ok (cr_cost x)" "cost_ok (cr_cost r)" using assms(3) by auto
  have pos: "0 \<le> bu_bytes (cost_of (xs @ ys))" "0 \<le> bu_frames (cost_of (xs @ ys))"
    using cost_of_pos[OF costs(1)] by simp_all
  have "within (cost_of (xs @ ys)) l" using assms(4) costs(2) unfolding cost_of_insert by (rule within_less)
  then have "bu_subtract (plus_cost (cost_of (xs @ ys)) (cr_cost r)) (cr_cost r) = Some (cost_of (xs @ ys))"
    using within_in_u64[OF _ assms(5)] pos by (intro bu_subtract_plus) auto
  then show ?thesis using assms(1,2) cost_of_empty[OF costs(1)]
    by (auto simp: release_entry_def entry_of_def cost_of_insert)
qed

lemma cb_release_ok:
  assumes ok: "bs_ok b (xs @ r # ys) s" and b: "budgets_ok b"
  shows "\<exists>s'. cr_drop s r = Some s' \<and> bs_ok b (xs @ ys) s'
    \<and> bs_peak_total_usage s' = bs_peak_total_usage s \<and> bs_denied_reservations s' = bs_denied_reservations s"
proof -
  let ?p = "cr_project r"
  have costs: "\<forall>x\<in>set (xs @ r # ys). cost_ok (cr_cost x)" using ok by (simp add: bs_ok_def)
  then have costs': "\<forall>x\<in>set (xs @ ys). cost_ok (cr_cost x)" "cost_ok (cr_cost r)" by auto
  have limits: "limit_ok (mb_total b)" "limit_ok (mb_per_project b)" "limit_ok (mb_per_device b)"
    using b by (simp_all add: budgets_ok_def)
  have whole: "bu_subtract (bs_total_usage s) (cr_cost r) = Some (cost_of (xs @ ys))"
  proof -
    have "within (cost_of (xs @ ys)) (mb_total b)"
      using ok costs'(2) unfolding bs_ok_def cost_of_insert by (blast intro: within_less)
    moreover have "0 \<le> bu_bytes (cost_of (xs @ ys))" "0 \<le> bu_frames (cost_of (xs @ ys))"
      using cost_of_pos[OF costs'(1)] by simp_all
    moreover have "bs_total_usage s = plus_cost (cost_of (xs @ ys)) (cr_cost r)"
      using ok by (simp add: bs_ok_def cost_of_insert)
    ultimately show ?thesis using within_in_u64[OF _ limits(1)] by (simp add: bu_subtract_plus)
  qed
  have within': "within (cost_of (of_project p (xs @ ys))) (mb_per_project b)"
    "within (cost_of (of_device d (xs @ ys))) (mb_per_device b)" "within (cost_of (xs @ ys)) (mb_total b)" for p d
  proof -
    have w: "within (cost_of (of_project p (xs @ r # ys))) (mb_per_project b)"
      "within (cost_of (of_device d (xs @ r # ys))) (mb_per_device b)" "within (cost_of (xs @ r # ys)) (mb_total b)"
      using ok unfolding bs_ok_def by blast+
    show "within (cost_of (of_project p (xs @ ys))) (mb_per_project b)"
      using w(1) within_less[OF _ costs'(2)] by (auto simp: cost_of_insert split: if_splits)
    show "within (cost_of (of_device d (xs @ ys))) (mb_per_device b)"
      using w(2) within_less[OF _ costs'(2)] by (auto simp: cost_of_insert split: if_splits)
    show "within (cost_of (xs @ ys)) (mb_total b)"
      using w(3) within_less[OF _ costs'(2)] by (simp add: cost_of_insert)
  qed
  obtain projects where projects: "release_entry ?p (cr_cost r) (bs_projects s) = Some projects" "om_ok projects"
    "map_of projects = (map_of (bs_projects s))(?p := entry_of (of_project ?p xs @ of_project ?p ys))"
  proof -
    have "om_ok (bs_projects s)" "map_of (bs_projects s) ?p = entry_of (of_project ?p (xs @ r # ys))"
      "within (cost_of (of_project ?p (xs @ r # ys))) (mb_per_project b)"
      using ok unfolding bs_ok_def by blast+
    then have m: "om_ok (bs_projects s)" "map_of (bs_projects s) ?p = entry_of (of_project ?p xs @ r # of_project ?p ys)"
      "within (cost_of (of_project ?p xs @ r # of_project ?p ys)) (mb_per_project b)" by simp_all
    have "\<forall>x\<in>set (of_project ?p xs @ r # of_project ?p ys). cost_ok (cr_cost x)"
      using costs by (auto simp: of_project_def)
    from release_entry_ok[OF m(1,2) this m(3) limits(2)] show thesis using that by blast
  qed
  obtain devices where devices: "(case cr_device r of None \<Rightarrow> Some (bs_devices s)
      | Some d \<Rightarrow> release_entry d (cr_cost r) (bs_devices s)) = Some devices" "om_ok devices"
    "\<forall>d. map_of devices d = entry_of (of_device d (xs @ ys))"
  proof (cases "cr_device r")
    case None
    show thesis by (rule that[of "bs_devices s"]) (use ok None in \<open>simp_all add: bs_ok_def\<close>)
  next
    case (Some d)
    have "om_ok (bs_devices s)" "\<forall>d. map_of (bs_devices s) d = entry_of (of_device d (xs @ r # ys))"
      "within (cost_of (of_device d (xs @ r # ys))) (mb_per_device b)"
      using ok unfolding bs_ok_def by blast+
    then have m: "om_ok (bs_devices s)" "map_of (bs_devices s) d = entry_of (of_device d xs @ r # of_device d ys)"
      "within (cost_of (of_device d xs @ r # of_device d ys)) (mb_per_device b)"
      "d' \<noteq> d \<Longrightarrow> map_of (bs_devices s) d' = entry_of (of_device d' (xs @ ys))" for d'
      using Some by simp_all
    have "\<forall>x\<in>set (of_device d xs @ r # of_device d ys). cost_ok (cr_cost x)"
      using costs by (auto simp: of_device_def)
    from release_entry_ok[OF m(1,2) this m(3) limits(3)] obtain m' where
      "release_entry d (cr_cost r) (bs_devices s) = Some m'" "om_ok m'"
      "map_of m' = (map_of (bs_devices s))(d := entry_of (of_device d xs @ of_device d ys))" by blast
    then show thesis using m(4) by (intro that[of m']) (auto simp: Some)
  qed
  have active: "checked_u64 (bs_active_reservations s - 1) = Some (int (length (xs @ ys)))"
  proof -
    have "int (length (xs @ ys)) \<le> bu_frames (cost_of (xs @ ys))" by (rule cost_of_pos(2)[OF costs'(1)])
    also have "\<dots> < 2 ^ 64" using within'(3) limits(1) by (simp add: within_def limit_ok_def in_u64_def)
    finally show ?thesis using ok by (simp add: bs_ok_def checked_u64_def in_u64_def)
  qed
  let ?s = "s\<lparr>bs_total_usage := cost_of (xs @ ys), bs_projects := projects, bs_devices := devices,
      bs_active_reservations := int (length (xs @ ys))\<rparr>"
  have run: "cr_drop s r = Some ?s"
    by (simp add: cr_drop_def cb_release_def whole projects devices active del: length_append of_nat_add checked_in_range)
  have entry: "\<forall>p. map_of projects p = entry_of (of_project p (xs @ ys))"
    using ok by (auto simp: projects(3) bs_ok_def)
  have peak: "bu_bytes (cost_of (xs @ ys)) \<le> bu_bytes (cost_of (xs @ r # ys))"
    "bu_frames (cost_of (xs @ ys)) \<le> bu_frames (cost_of (xs @ r # ys))"
    using costs'(2) by (simp_all add: cost_of_insert plus_cost_def cost_ok_def)
  have "bs_ok b (xs @ ys) ?s" unfolding bs_ok_def
    using costs'(1) within' projects(2) entry devices(2,3) ok peak by (simp add: bs_ok_def)
  with run show ?thesis by auto
qed

section \<open>Runs\<close>

text \<open>The numbers a caller passes are machine integers.\<close>

fun call_ok :: "'g budget_call \<Rightarrow> bool" where
  "call_ok (ReserveHost p bytes frames) \<longleftrightarrow> in_u64 bytes \<and> in_u64 frames"
| "call_ok (ReserveDevice p d bytes frames answer) \<longleftrightarrow> in_u64 bytes \<and> in_u64 frames"
| "call_ok (DropReservation i) \<longleftrightarrow> True"

lemma bs_ok_denied: "bs_ok b live (s\<lparr>bs_denied_reservations := n\<rparr>) \<longleftrightarrow> bs_ok b live s"
  by (simp add: bs_ok_def)

lemma cc_new_ok: "cc_new bytes frames = Inr c \<Longrightarrow> in_u64 bytes \<Longrightarrow> in_u64 frames \<Longrightarrow> cost_ok c"
  by (auto simp: cc_new_def cost_ok_def in_u64_def split: if_splits)

lemma reserve_keeps:
  assumes "bs_ok b live s" "budgets_ok b" "cost_ok c"
  shows "\<exists>live' s'. keep_reservation live (reserve_host b s p c :: ('g cache_reservation result \<times> _) option) = Some (live', s')
      \<and> bs_ok b live' s'"
    "\<exists>live' s'. keep_reservation live (reserve_device (\<lambda>_. answer) b s p d c :: ('g cache_reservation result \<times> _) option) = Some (live', s')
      \<and> bs_ok b live' s'"
proof -
  show "\<exists>live' s'. keep_reservation live (reserve_host b s p c :: ('g cache_reservation result \<times> _) option) = Some (live', s') \<and> bs_ok b live' s'"
    by (cases rule: reserve_local_cases[OF assms, of p None])
      (use assms(1) in \<open>auto simp: reserve_host_def keep_reservation_def bs_ok_denied\<close>)
  show "\<exists>live' s'. keep_reservation live (reserve_device (\<lambda>_. answer) b s p d c :: ('g cache_reservation result \<times> _) option) = Some (live', s') \<and> bs_ok b live' s'"
  proof (cases rule: reserve_local_cases[OF assms, of p "Some d"])
    case (1 e)
    then show ?thesis using assms(1) by (simp add: reserve_device_def keep_reservation_def bs_ok_denied)
  next
    case (2 s')
    let ?r = "\<lparr>cr_project = p, cr_device = Some d, cr_cost = c, cr_gpu = (None :: 'g option)\<rparr>"
    show ?thesis
    proof (cases answer)
      case (Inr g)
      then show ?thesis using 2 by (simp add: reserve_device_def keep_reservation_def)
    next
      case (Inl e)
      have "bs_ok b ([] @ ?r # live) s'" using 2(3)[of ?r] by simp
      from cb_release_ok[OF this assms(2)] obtain s'' where "cr_drop s' ?r = Some s''" "bs_ok b live s''" by auto
      then show ?thesis using 2(2) Inl by (simp add: reserve_device_def keep_reservation_def)
    qed
  qed
qed

lemma budget_step_keeps:
  assumes "bs_ok b live s" "budgets_ok b" "call_ok call"
  shows "\<exists>live' s'. budget_step b call (live, s) = Some (live', s') \<and> bs_ok b live' s'"
proof (cases call)
  case (ReserveHost p bytes frames)
  then show ?thesis using assms reserve_keeps(1)[OF assms(1,2) cc_new_ok]
    by (cases "cc_new bytes frames") auto
next
  case (ReserveDevice p d bytes frames answer)
  then show ?thesis using assms reserve_keeps(2)[OF assms(1,2) cc_new_ok]
    by (cases "cc_new bytes frames") auto
next
  case (DropReservation i)
  show ?thesis
  proof (cases "i < length live")
    case True
    then have split: "live = take i live @ live ! i # drop (Suc i) live" by (rule id_take_nth_drop)
    with assms(1) have "bs_ok b (take i live @ live ! i # drop (Suc i) live) s" by simp
    from cb_release_ok[OF this assms(2)] DropReservation True show ?thesis by auto
  next
    case False
    then show ?thesis using DropReservation assms(1) by simp
  qed
qed

lemma budget_run_keeps:
  "bs_ok b live s \<Longrightarrow> budgets_ok b \<Longrightarrow> \<forall>c\<in>set calls. call_ok c
     \<Longrightarrow> \<exists>live' s'. budget_run b calls (live, s) = Some (live', s') \<and> bs_ok b live' s'"
proof (induction calls arbitrary: live s)
  case Nil
  then show ?case by simp
next
  case (Cons c calls)
  then obtain live' s' where "budget_step b c (live, s) = Some (live', s')" "bs_ok b live' s'"
    using budget_step_keeps[of b live s c] by auto
  with Cons show ?case by simp
qed

section \<open>The properties\<close>

text \<open>
  C14: Whatever is reserved and dropped, in any order and from any number of projects and devices, no
  arithmetic of the manager panics; each counter is exactly the sum of the live reservations it is
  about, an entry exists only while something is reserved under it, and no limit is exceeded.
\<close>

theorem budget_accounts_exactly:
  assumes "budgets_ok b" "\<forall>c\<in>set calls. call_ok c"
  shows "\<exists>live s. budget_run b calls ([], bs_default) = Some (live, s)
     \<and> bs_total_usage s = cost_of live \<and> within (bs_total_usage s) (mb_total b)
     \<and> (\<forall>p. bs_project_usage s p = cost_of (of_project p live) \<and> within (bs_project_usage s p) (mb_per_project b)
          \<and> (om_has (bs_projects s) p \<longleftrightarrow> of_project p live \<noteq> []))
     \<and> (\<forall>d. bs_device_usage s d = cost_of (of_device d live) \<and> within (bs_device_usage s d) (mb_per_device b)
          \<and> (om_has (bs_devices s) d \<longleftrightarrow> of_device d live \<noteq> []))
     \<and> bs_active_reservations s = int (length live)"
proof -
  obtain live s where run: "budget_run b calls ([], bs_default) = Some (live, s)" and ok: "bs_ok b live s"
    using budget_run_keeps[OF bs_ok_default[OF assms(1)] assms] by blast
  have "om_has (bs_projects s) p \<longleftrightarrow> of_project p live \<noteq> []" "om_has (bs_devices s) d \<longleftrightarrow> of_device d live \<noteq> []" for p d
    using ok by (auto simp: bs_ok_def om_has_def entry_of_def)
  with run ok show ?thesis by (auto simp: bs_ok_usage[OF ok] bs_ok_def)
qed

text \<open>
  In every reachable state a reservation is admitted exactly when the total, the project and the
  device (if it names one) have room for its cost; a refusal changes nothing but the count of denials.
\<close>

theorem budget_admits_what_fits:
  assumes "budgets_ok b" "\<forall>c\<in>set (calls :: 'g budget_call list). call_ok c" "budget_run b calls ([], bs_default) = Some (live, s)"
    and "cc_new bytes frames = Inr c" "in_u64 bytes" "in_u64 frames"
  shows "\<exists>r s'. reserve_local b s p d c = Some (r :: 'g cache_reservation result, s')
     \<and> (is_ok r \<longleftrightarrow> fits b live p d c)
     \<and> (\<not> is_ok r \<longrightarrow> s' = s\<lparr>bs_denied_reservations := bs_denied_reservations s'\<rparr>)"
proof -
  have ok: "bs_ok b live s" using budget_run_keeps[OF bs_ok_default[OF assms(1)] assms(1,2)] assms(3) by auto
  show ?thesis
    by (cases rule: reserve_local_cases[OF ok assms(1) cc_new_ok[OF assms(4-6)], of p d]) auto
qed

text \<open>
  Dropping a reservation right after it was made gives back every usage record to the last entry,
  the absent ones included; only the recorded peak stays.
\<close>

theorem budget_reserve_drop:
  assumes "budgets_ok b" "\<forall>c\<in>set (calls :: 'g budget_call list). call_ok c" "budget_run b calls ([], bs_default) = Some (live, s)"
    and "cc_new bytes frames = Inr c" "in_u64 bytes" "in_u64 frames"
    and "reserve_local b s p d c = Some (Inr (r :: 'g cache_reservation), s')"
  shows "\<exists>s''. cr_drop s' r = Some s'' \<and> s = s''\<lparr>bs_peak_total_usage := bs_peak_total_usage s\<rparr>"
proof -
  have ok: "bs_ok b live s" using budget_run_keeps[OF bs_ok_default[OF assms(1)] assms(1,2)] assms(3) by auto
  have ok': "bs_ok b ([] @ r # live) s'" "bs_denied_reservations s' = bs_denied_reservations s"
  proof -
    show "bs_ok b ([] @ r # live) s'"
      by (cases rule: reserve_local_cases[OF ok assms(1) cc_new_ok[OF assms(4-6)], of p d]) (use assms(7) in auto)
    show "bs_denied_reservations s' = bs_denied_reservations s"
      using assms(7) by (auto simp: reserve_local_def Let_def bind_eq_Some_conv split: option.splits)
  qed
  obtain s'' where drop: "cr_drop s' r = Some s''" "bs_ok b live s''" "bs_denied_reservations s'' = bs_denied_reservations s"
    using cb_release_ok[OF ok'(1) assms(1)] ok'(2) by auto
  have "bs_projects s = bs_projects s''" "bs_devices s = bs_devices s''"
    using ok drop(2) by (intro om_ext; auto simp: bs_ok_def fun_eq_iff)+
  then have "s = s''\<lparr>bs_peak_total_usage := bs_peak_total_usage s\<rparr>"
    using ok drop(2,3) by (intro cache_budget_state.equality) (simp_all add: bs_ok_def)
  with drop(1) show ?thesis by blast
qed

section \<open>Witnesses\<close>

definition small_budgets :: cache_memory_budgets where
  "small_budgets = \<lparr>mb_total = \<lparr>bl_max_bytes = 100, bl_max_frames = 10\<rparr>,
     mb_per_project = \<lparr>bl_max_bytes = 60, bl_max_frames = 10\<rparr>, mb_per_device = \<lparr>bl_max_bytes = 50, bl_max_frames = 4\<rparr>\<rparr>"

definition budget_calls :: "unit budget_call list" where
  "budget_calls = [ReserveHost (TypedId 1) 40 2, ReserveDevice (TypedId 1) (TypedId 7) 20 1 (Inr ()),
     ReserveHost (TypedId 1) 1 1, ReserveDevice (TypedId 2) (TypedId 7) 30 2 (Inr ()), DropReservation 0]"

lemma small_budgets_ok: "budgets_ok small_budgets"
  by (simp add: small_budgets_def budgets_ok_def limit_ok_def in_u64_def)

lemma budget_calls_ok: "\<forall>c\<in>set budget_calls. call_ok c"
  by (simp add: budget_calls_def in_u64_def)

theorem budget_accounts_exactly_witness:
  "\<exists>live s. budget_run small_budgets budget_calls ([], bs_default) = Some (live, s) \<and> bs_total_usage s = cost_of live"
  using budget_accounts_exactly[OF small_budgets_ok budget_calls_ok] by blast

lemma budget_sample_state:
  obtains live s where "budget_run small_budgets budget_calls ([], bs_default) = Some (live, s)"
    "bs_total_usage s = \<lparr>bu_bytes = 60, bu_frames = 3\<rparr>"
proof -
  have "case budget_run small_budgets budget_calls ([], bs_default) of None \<Rightarrow> False
    | Some (live, s) \<Rightarrow> bs_total_usage s = \<lparr>bu_bytes = 60, bu_frames = 3\<rparr>" by code_simp
  then show thesis using that by (auto split: option.splits)
qed

theorem budget_admits_what_fits_witness:
  "\<exists>live s r s'. budget_run small_budgets budget_calls ([], bs_default) = Some (live, s)
     \<and> reserve_local small_budgets s (TypedId 2) None \<lparr>cc_bytes = 40, cc_frames = 1\<rparr> = Some (r :: unit cache_reservation result, s')
     \<and> (is_ok r \<longleftrightarrow> fits small_budgets live (TypedId 2) None \<lparr>cc_bytes = 40, cc_frames = 1\<rparr>)"
proof -
  obtain live s where run: "budget_run small_budgets budget_calls ([], bs_default) = Some (live, s)"
    by (rule budget_sample_state)
  have c: "cc_new 40 1 = Inr \<lparr>cc_bytes = 40, cc_frames = 1\<rparr>" by (simp add: cc_new_def)
  have "in_u64 40" "in_u64 1" by (simp_all add: in_u64_def)
  from budget_admits_what_fits[OF small_budgets_ok budget_calls_ok run c this] run show ?thesis by blast
qed

theorem budget_reserve_drop_witness:
  "\<exists>s s' s'' (r :: unit cache_reservation).
     reserve_local small_budgets s (TypedId 2) None \<lparr>cc_bytes = 40, cc_frames = 1\<rparr> = Some (Inr r, s')
     \<and> cr_drop s' r = Some s'' \<and> bs_projects s = bs_projects s''"
proof -
  let ?c = "\<lparr>cc_bytes = 40, cc_frames = 1\<rparr> :: cache_cost"
  have all: "case budget_run small_budgets budget_calls ([], bs_default) of None \<Rightarrow> False
    | Some (live, s) \<Rightarrow> (case reserve_local small_budgets s (TypedId 2) None ?c of
        Some (Inr (r :: unit cache_reservation), s') \<Rightarrow> True | _ \<Rightarrow> False)" by code_simp
  obtain live s where run: "budget_run small_budgets budget_calls ([], bs_default) = Some (live, s)"
    by (rule budget_sample_state)
  with all obtain r s' where res: "reserve_local small_budgets s (TypedId 2) None ?c = Some (Inr (r :: unit cache_reservation), s')"
    by (cases "reserve_local small_budgets s (TypedId 2) None ?c :: (unit cache_reservation result \<times> _) option")
      (auto split: sum.splits)
  have c: "cc_new 40 1 = Inr ?c" by (simp add: cc_new_def)
  have "in_u64 40" "in_u64 1" by (simp_all add: in_u64_def)
  from budget_reserve_drop[OF small_budgets_ok budget_calls_ok run c this res] obtain s'' where
    "cr_drop s' r = Some s''" "s = s''\<lparr>bs_peak_total_usage := bs_peak_total_usage s\<rparr>" by blast
  moreover from this(2) have "bs_projects s = bs_projects s''" by (metis cache_budget_state.ext_inject cache_budget_state.surjective cache_budget_state.update_convs(2))
  ultimately show ?thesis using res by blast
qed

end
