(* ===== verification/LruCache.thy ===== *)
theory LruCache
  imports CoreIds "HOL-Library.Product_Lexorder"
begin

text \<open>
  \<open>superi-cache/src/eviction.rs\<close>, second part: the map both memory caches keep their entries in. It
  is an ordered map whose entries carry the stamp of their last access; when the stamps run out
  they are renumbered. The contract is \<open>recency_list\<close>: a list of entries, least recently used
  first, with no stamps at all. The outer option is \<open>None\<close> for a failed \<open>expect\<close>.
\<close>

section \<open>The map\<close>

record 'v lru_entry =
  le_value :: 'v
  le_last_access :: int

record ('k, 'v) lru_map =
  lm_entries :: "('k \<times> 'v lru_entry) list"
  lm_next_access :: int

definition lm_default :: "('k, 'v) lru_map" where
  "lm_default = \<lparr>lm_entries = [], lm_next_access = 0\<rparr>"

text \<open>The keys with their stamps, sorted by stamp and then key.\<close>

definition lm_by_access :: "('k::linorder \<times> 'v lru_entry) list \<Rightarrow> (int \<times> 'k) list" where
  "lm_by_access entries = sort (map (\<lambda>(k, e). (le_last_access e, k)) entries)"

definition normalize_access_stamps :: "('k::linorder, 'v) lru_map \<Rightarrow> ('k, 'v) lru_map" where
  "normalize_access_stamps m =
     (let ordered = lm_by_access (lm_entries m) in
      \<lparr>lm_entries = fold (\<lambda>(access, (_, k)). om_update k (\<lambda>e. e\<lparr>le_last_access := int access\<rparr>))
         (enumerate 0 ordered) (lm_entries m),
       lm_next_access = int (length (lm_entries m))\<rparr>)"

definition take_access_stamp :: "('k::linorder, 'v) lru_map \<Rightarrow> (int \<times> ('k, 'v) lru_map) option" where
  "take_access_stamp m =
     (let m = (if lm_next_access m = 2 ^ 64 - 1 then normalize_access_stamps m else m);
          access = lm_next_access m in
      map_option (\<lambda>following. (access, m\<lparr>lm_next_access := following\<rparr>)) (checked_u64 (access + 1)))"

definition lm_get :: "'k::linorder \<Rightarrow> ('k, 'v) lru_map \<Rightarrow> ('v option \<times> ('k, 'v) lru_map) option" where
  "lm_get k m =
     (if \<not> om_has (lm_entries m) k then Some (None, m)
      else Option.bind (take_access_stamp m) (\<lambda>(access, m).
           Option.bind (map_of (lm_entries m) k) (\<lambda>e.
             Some (Some (le_value e),
                   m\<lparr>lm_entries := om_update k (\<lambda>e. e\<lparr>le_last_access := access\<rparr>) (lm_entries m)\<rparr>))))"

definition lm_insert :: "'k::linorder \<Rightarrow> 'v \<Rightarrow> ('k, 'v) lru_map \<Rightarrow> ('v option \<times> ('k, 'v) lru_map) option" where
  "lm_insert k v m =
     Option.bind (take_access_stamp m) (\<lambda>(last_access, m).
       Some (map_option le_value (map_of (lm_entries m) k),
             m\<lparr>lm_entries := om_insert k \<lparr>le_value = v, le_last_access = last_access\<rparr> (lm_entries m)\<rparr>))"

definition lm_remove :: "'k::linorder \<Rightarrow> ('k, 'v) lru_map \<Rightarrow> 'v option \<times> ('k, 'v) lru_map" where
  "lm_remove k m =
     (map_option le_value (map_of (lm_entries m) k), m\<lparr>lm_entries := om_remove k (lm_entries m)\<rparr>)"

text \<open>Removing the given keys one by one, each of which is expected to be there.\<close>

fun lm_remove_all :: "'k::linorder list \<Rightarrow> ('k, 'v) lru_map \<Rightarrow> (('k \<times> 'v) list \<times> ('k, 'v) lru_map) option" where
  "lm_remove_all [] m = Some ([], m)"
| "lm_remove_all (k # ks) m =
     Option.bind (map_of (lm_entries m) k) (\<lambda>e.
       map_option (\<lambda>(removed, m). ((k, le_value e) # removed, m))
         (lm_remove_all ks (m\<lparr>lm_entries := om_remove k (lm_entries m)\<rparr>)))"

definition lm_remove_where ::
  "('k::linorder \<Rightarrow> 'v \<Rightarrow> bool) \<Rightarrow> ('k, 'v) lru_map \<Rightarrow> (('k \<times> 'v) list \<times> ('k, 'v) lru_map) option" where
  "lm_remove_where predicate m =
     lm_remove_all (map fst (filter (\<lambda>(k, e). predicate k (le_value e)) (lm_entries m))) m"

definition evict_lru_where ::
  "nat \<Rightarrow> ('k::linorder \<Rightarrow> bool) \<Rightarrow> ('k, 'v) lru_map \<Rightarrow> (('k \<times> 'v) list \<times> ('k, 'v) lru_map) option" where
  "evict_lru_where maximum eligible m =
     (if maximum = 0 \<or> lm_entries m = [] then Some ([], m)
      else let victims = lm_by_access (filter (\<lambda>(k, _). eligible k) (lm_entries m));
               victims = take (min maximum (length victims)) victims
           in lm_remove_all (map snd victims) m)"

definition evict_lru :: "nat \<Rightarrow> ('k::linorder, 'v) lru_map \<Rightarrow> (('k \<times> 'v) list \<times> ('k, 'v) lru_map) option" where
  "evict_lru maximum m = evict_lru_where maximum (\<lambda>_. True) m"

section \<open>The contract\<close>

type_synonym ('k, 'v) recency_list = "('k \<times> 'v) list"

definition rl_without :: "'k \<Rightarrow> ('k, 'v) recency_list \<Rightarrow> ('k, 'v) recency_list" where
  "rl_without k l = filter (\<lambda>(k', _). k' \<noteq> k) l"

definition rl_get :: "'k \<Rightarrow> ('k, 'v) recency_list \<Rightarrow> 'v option \<times> ('k, 'v) recency_list" where
  "rl_get k l = (case map_of l k of None \<Rightarrow> (None, l) | Some v \<Rightarrow> (Some v, rl_without k l @ [(k, v)]))"

definition rl_insert :: "'k \<Rightarrow> 'v \<Rightarrow> ('k, 'v) recency_list \<Rightarrow> 'v option \<times> ('k, 'v) recency_list" where
  "rl_insert k v l = (map_of l k, rl_without k l @ [(k, v)])"

definition rl_remove :: "'k \<Rightarrow> ('k, 'v) recency_list \<Rightarrow> 'v option \<times> ('k, 'v) recency_list" where
  "rl_remove k l = (map_of l k, rl_without k l)"

text \<open>The matching entries are returned in key order.\<close>

definition rl_remove_where ::
  "('k::linorder \<Rightarrow> 'v \<Rightarrow> bool) \<Rightarrow> ('k, 'v) recency_list \<Rightarrow> ('k \<times> 'v) list \<times> ('k, 'v) recency_list" where
  "rl_remove_where predicate l =
     (sort_key fst (filter (\<lambda>(k, v). predicate k v) l), filter (\<lambda>(k, v). \<not> predicate k v) l)"

text \<open>The first eligible entries, least recently used first.\<close>

fun rl_evict :: "nat \<Rightarrow> ('k \<Rightarrow> bool) \<Rightarrow> ('k, 'v) recency_list \<Rightarrow> ('k \<times> 'v) list \<times> ('k, 'v) recency_list" where
  "rl_evict n eligible [] = ([], [])"
| "rl_evict n eligible ((k, v) # l) =
     (if 0 < n \<and> eligible k
      then (let (out, l) = rl_evict (n - 1) eligible l in ((k, v) # out, l))
      else (let (out, l) = rl_evict n eligible l in (out, (k, v) # l)))"

section \<open>Runs of both\<close>

datatype ('k, 'v) lru_call =
    LruGet 'k
  | LruInsert 'k 'v
  | LruRemove 'k
  | LruRemoveWhere "'k \<Rightarrow> 'v \<Rightarrow> bool"
  | LruEvict nat "'k \<Rightarrow> bool"

datatype ('k, 'v) lru_answer = LruValue "'v option" | LruEntries "('k \<times> 'v) list"

fun lru_step :: "('k::linorder, 'v) lru_call \<Rightarrow> ('k, 'v) lru_map \<Rightarrow> (('k, 'v) lru_answer \<times> ('k, 'v) lru_map) option" where
  "lru_step (LruGet k) m = map_option (apfst LruValue) (lm_get k m)"
| "lru_step (LruInsert k v) m = map_option (apfst LruValue) (lm_insert k v m)"
| "lru_step (LruRemove k) m = Some (apfst LruValue (lm_remove k m))"
| "lru_step (LruRemoveWhere p) m = map_option (apfst LruEntries) (lm_remove_where p m)"
| "lru_step (LruEvict n p) m = map_option (apfst LruEntries) (evict_lru_where n p m)"

fun rl_step :: "('k::linorder, 'v) lru_call \<Rightarrow> ('k, 'v) recency_list \<Rightarrow> ('k, 'v) lru_answer \<times> ('k, 'v) recency_list" where
  "rl_step (LruGet k) l = apfst LruValue (rl_get k l)"
| "rl_step (LruInsert k v) l = apfst LruValue (rl_insert k v l)"
| "rl_step (LruRemove k) l = apfst LruValue (rl_remove k l)"
| "rl_step (LruRemoveWhere p) l = apfst LruEntries (rl_remove_where p l)"
| "rl_step (LruEvict n p) l = apfst LruEntries (rl_evict n p l)"

fun lru_run :: "('k::linorder, 'v) lru_call list \<Rightarrow> ('k, 'v) lru_map \<Rightarrow> (('k, 'v) lru_answer list \<times> ('k, 'v) lru_map) option" where
  "lru_run [] m = Some ([], m)"
| "lru_run (c # cs) m = Option.bind (lru_step c m) (\<lambda>(a, m). map_option (apfst (\<lambda>as. a # as)) (lru_run cs m))"

fun rl_run :: "('k::linorder, 'v) lru_call list \<Rightarrow> ('k, 'v) recency_list \<Rightarrow> ('k, 'v) lru_answer list \<times> ('k, 'v) recency_list" where
  "rl_run [] l = ([], l)"
| "rl_run (c # cs) l = (let (a, l) = rl_step c l; (as, l) = rl_run cs l in (a # as, l))"

end
