(* ===== verification/LruCacheProps.thy ===== *)
theory LruCacheProps
  imports LruCache
begin

text \<open>
  The stamped map implements the recency list: the stamps increase along the list, and every
  operation, the renumbering included, keeps that and answers the same.
\<close>

section \<open>The simulation relation\<close>

definition stamp_of :: "('k::linorder \<times> 'v lru_entry) list \<Rightarrow> 'k \<Rightarrow> int" where
  "stamp_of es k = (case map_of es k of None \<Rightarrow> 0 | Some e \<Rightarrow> le_last_access e)"

definition lru_sim :: "('k::linorder, 'v) lru_map \<Rightarrow> ('k, 'v) recency_list \<Rightarrow> bool" where
  "lru_sim m l \<longleftrightarrow> om_ok (lm_entries m) \<and> distinct (map fst l)
     \<and> (\<forall>k. map_of l k = map_option le_value (map_of (lm_entries m) k))
     \<and> sorted_wrt (<) (map (\<lambda>(k, _). stamp_of (lm_entries m) k) l)
     \<and> (\<forall>k e. map_of (lm_entries m) k = Some e \<longrightarrow> 0 \<le> le_last_access e \<and> le_last_access e < lm_next_access m)
     \<and> 0 \<le> lm_next_access m \<and> lm_next_access m \<le> 2 ^ 64 - 1"

lemma lru_sim_keys:
  assumes "lru_sim m l"
  shows "fst ` set (lm_entries m) = fst ` set l"
proof -
  have "dom (map_of l) = dom (map_of (lm_entries m))"
    using assms by (auto simp: lru_sim_def dom_def)
  then show ?thesis by (simp add: om_keys_dom)
qed

lemma lru_sim_length:
  assumes "lru_sim m l"
  shows "length (lm_entries m) = length l"
proof -
  have "distinct (map fst (lm_entries m))" "distinct (map fst l)" using assms by (simp_all add: lru_sim_def om_distinct)
  then have "card (set (map fst (lm_entries m))) = length (lm_entries m)" "card (set (map fst l)) = length l"
    by (metis distinct_card length_map)+
  with lru_sim_keys[OF assms] show ?thesis by simp
qed

text \<open>Sorting the entries by stamp gives the list's order.\<close>

lemma sort_eqI:
  fixes xs ys :: "'a::linorder list"
  assumes "sorted ys" "distinct xs" "distinct ys" "set xs = set ys"
  shows "sort xs = ys"
proof -
  have "sorted (sort xs)" "distinct (sort xs)" "set (sort xs) = set ys" using assms by simp_all
  with assms show ?thesis by (metis sorted_distinct_set_unique)
qed

lemma stamp_of_entry: "om_ok es \<Longrightarrow> (k, e) \<in> set es \<Longrightarrow> stamp_of es k = le_last_access e"
  by (simp add: stamp_of_def om_entry)

lemma by_access_sim:
  assumes "lru_sim m l"
  shows "lm_by_access (filter (\<lambda>(k, _). P k) (lm_entries m))
    = map (\<lambda>(k, _). (stamp_of (lm_entries m) k, k)) (filter (\<lambda>(k, _). P k) l)"
proof -
  let ?E = "lm_entries m"
  have om: "om_ok ?E" and dist: "distinct (map fst l)"
    and sorted: "sorted_wrt (<) (map (\<lambda>(k, _). stamp_of ?E k) l)" using assms by (simp_all add: lru_sim_def)
  have eq: "map (\<lambda>(k, e). (le_last_access e, k)) (filter (\<lambda>(k, _). P k) ?E)
      = map (\<lambda>(k, e). (stamp_of ?E k, k)) (filter (\<lambda>(k, _). P k) ?E)"
    by (rule map_cong) (auto simp: stamp_of_entry[OF om])
  have dist_map: "distinct (map (\<lambda>(k, _). (stamp_of ?E k, k)) (filter (\<lambda>(k, _). P k) xs))"
    if "distinct (map fst xs)" for xs :: "('a \<times> 'c) list"
    using that by (induction xs) (force simp: image_iff)+
  have keys: "fst ` set ?E = fst ` set l" by (rule lru_sim_keys[OF assms])
  show ?thesis unfolding lm_by_access_def eq
  proof (rule sort_eqI)
    have "sorted_wrt (\<lambda>x y. fst x < fst y) (map (\<lambda>(k, _). (stamp_of ?E k, k)) l)"
      using sorted by (simp add: sorted_wrt_map case_prod_beta)
    then have "sorted_wrt (\<lambda>x y. fst x < fst y) (map (\<lambda>(k, _). (stamp_of ?E k, k)) (filter (\<lambda>(k, _). P k) l))"
      by (simp add: sorted_wrt_map sorted_wrt_filter)
    then show "sorted (map (\<lambda>(k, _). (stamp_of ?E k, k)) (filter (\<lambda>(k, _). P k) l))"
      by (rule sorted_wrt_mono_rel[rotated]) (auto simp: less_eq_prod_def)
    show "distinct (map (\<lambda>(k, e). (stamp_of ?E k, k)) (filter (\<lambda>(k, _). P k) ?E))"
      by (rule dist_map) (rule om_distinct[OF om])
    show "distinct (map (\<lambda>(k, _). (stamp_of ?E k, k)) (filter (\<lambda>(k, _). P k) l))"
      by (rule dist_map) (rule dist)
    have img: "(\<lambda>(k, _). (stamp_of ?E k, k)) ` set (filter (\<lambda>(k, _). P k) xs)
        = (\<lambda>k. (stamp_of ?E k, k)) ` {k \<in> fst ` set xs. P k}" for xs :: "('a \<times> 'c) list"
      by force
    show "set (map (\<lambda>(k, e). (stamp_of ?E k, k)) (filter (\<lambda>(k, _). P k) ?E))
        = set (map (\<lambda>(k, _). (stamp_of ?E k, k)) (filter (\<lambda>(k, _). P k) l))"
      unfolding set_map img keys ..
  qed
qed

section \<open>Renumbering\<close>

definition renumber :: "nat \<Rightarrow> (int \<times> 'k::linorder) list \<Rightarrow> ('k \<times> 'v lru_entry) list \<Rightarrow> ('k \<times> 'v lru_entry) list" where
  "renumber n xs es =
     fold (\<lambda>(access, (_, k)). om_update k (\<lambda>e. e\<lparr>le_last_access := int access\<rparr>)) (enumerate n xs) es"

lemma renumber_Cons:
  "renumber n ((a, k) # xs) es = renumber (Suc n) xs (om_update k (\<lambda>e. e\<lparr>le_last_access := int n\<rparr>) es)"
  by (simp add: renumber_def)

lemma renumber_ok: "om_ok (renumber n xs es) \<longleftrightarrow> om_ok es"
proof (induction xs arbitrary: n es)
  case (Cons x xs)
  then show ?case by (cases x) (simp add: renumber_Cons)
qed (simp add: renumber_def)

lemma renumber_other: "k \<notin> snd ` set xs \<Longrightarrow> map_of (renumber n xs es) k = map_of es k"
proof (induction xs arbitrary: n es)
  case (Cons x xs)
  then show ?case by (cases x) (simp add: renumber_Cons)
qed (simp add: renumber_def)

lemma renumber_nth:
  "distinct (map snd xs) \<Longrightarrow> i < length xs \<Longrightarrow>
     map_of (renumber n xs es) (snd (xs ! i)) = map_option (\<lambda>e. e\<lparr>le_last_access := int (n + i)\<rparr>) (map_of es (snd (xs ! i)))"
proof (induction xs arbitrary: n es i)
  case (Cons x xs)
  obtain a k where x: "x = (a, k)" by (cases x)
  show ?case
  proof (cases i)
    case 0
    then show ?thesis using Cons.prems by (simp add: x renumber_Cons renumber_other)
  next
    case (Suc j)
    then have "snd (xs ! j) \<in> snd ` set xs" using Cons.prems by simp
    then have "snd (xs ! j) \<noteq> k" using Cons.prems x by auto
    then show ?thesis using Cons.IH[of j "Suc n"] Cons.prems Suc by (simp add: x renumber_Cons)
  qed
qed simp

lemma normalize_sim:
  assumes "lru_sim m l" "int (length l) < 2 ^ 64 - 1"
  shows "lru_sim (normalize_access_stamps m) l" "lm_next_access (normalize_access_stamps m) = int (length l)"
proof -
  let ?E = "lm_entries m"
  let ?xs = "lm_by_access ?E"
  let ?E' = "renumber 0 ?xs ?E"
  have om: "om_ok ?E" and dist: "distinct (map fst l)"
    and vals: "\<forall>k. map_of l k = map_option le_value (map_of ?E k)" using assms(1) by (simp_all add: lru_sim_def)
  have xs: "?xs = map (\<lambda>(k, _). (stamp_of ?E k, k)) l" using by_access_sim[OF assms(1), of "\<lambda>_. True"] by simp
  have norm: "normalize_access_stamps m = \<lparr>lm_entries = ?E', lm_next_access = int (length ?E)\<rparr>"
    by (simp add: normalize_access_stamps_def renumber_def Let_def)
  have keys: "map snd ?xs = map fst l" unfolding xs by (induction l) auto
  have at: "map_of ?E' (fst (l ! i)) = map_option (\<lambda>e. e\<lparr>le_last_access := int i\<rparr>) (map_of ?E (fst (l ! i)))"
    if "i < length l" for i
  proof -
    have "distinct (map snd ?xs)" unfolding keys by (rule dist)
    moreover have "i < length ?xs" "snd (?xs ! i) = fst (l ! i)" using that by (simp_all add: xs case_prod_beta)
    ultimately show ?thesis using renumber_nth[of ?xs i 0 ?E] by simp
  qed
  have vals': "map_of l k = map_option le_value (map_of ?E' k)" for k
  proof (cases "k \<in> fst ` set l")
    case True
    then obtain i where "i < length l" "k = fst (l ! i)" by (auto simp: in_set_conv_nth)
    then show ?thesis using at[of i] vals by (simp add: option.map_comp comp_def)
  next
    case False
    then have "k \<notin> snd ` set ?xs" using keys by (metis set_map)
    then show ?thesis using vals by (simp add: renumber_other)
  qed
  have stamp: "stamp_of ?E' (fst (l ! i)) = int i" if "i < length l" for i
  proof -
    have "map_of l (fst (l ! i)) \<noteq> None" using that by (simp add: map_of_eq_None_iff)
    then obtain e where "map_of ?E (fst (l ! i)) = Some e" using vals by auto
    then show ?thesis using at[OF that] by (simp add: stamp_of_def)
  qed
  have bound: "0 \<le> le_last_access e \<and> le_last_access e < int (length l)" if e: "map_of ?E' k = Some e" for k e
  proof -
    have "map_of l k \<noteq> None" using vals'[of k] e by simp
    then have "k \<in> fst ` set l" by (simp add: map_of_eq_None_iff)
    then obtain i where "i < length l" "k = fst (l ! i)" by (auto simp: in_set_conv_nth)
    then show ?thesis using stamp[of i] e by (simp add: stamp_of_def)
  qed
  have "sorted_wrt (<) (map (\<lambda>(k, _). stamp_of ?E' k) l)"
    by (simp add: sorted_wrt_iff_nth_less case_prod_beta stamp)
  then show "lru_sim (normalize_access_stamps m) l"
    using om dist vals' bound assms(2) unfolding norm by (simp add: lru_sim_def renumber_ok lru_sim_length[OF assms(1)])
  show "lm_next_access (normalize_access_stamps m) = int (length l)"
    unfolding norm by (simp add: lru_sim_length[OF assms(1)])
qed

lemma take_access_stamp_sim:
  assumes "lru_sim m l" "int (length l) < 2 ^ 64 - 1"
  obtains access m' where "take_access_stamp m = Some (access, m')" "lru_sim m' l" "lm_next_access m' = access + 1"
    "\<And>k e. map_of (lm_entries m') k = Some e \<Longrightarrow> le_last_access e < access" "0 \<le> access"
proof -
  let ?m = "if lm_next_access m = 2 ^ 64 - 1 then normalize_access_stamps m else m"
  have sim: "lru_sim ?m l" "lm_next_access ?m < 2 ^ 64 - 1"
    using assms normalize_sim[OF assms] by (auto simp: lru_sim_def)
  then have next_ok: "in_u64 (lm_next_access ?m + 1)" by (simp add: lru_sim_def in_u64_def)
  show thesis
  proof (rule that)
    show "take_access_stamp m = Some (lm_next_access ?m, ?m\<lparr>lm_next_access := lm_next_access ?m + 1\<rparr>)"
      using next_ok by (simp add: take_access_stamp_def Let_def)
    show "lru_sim (?m\<lparr>lm_next_access := lm_next_access ?m + 1\<rparr>) l"
      using sim unfolding lru_sim_def by (auto intro: less_imp_le)
  qed (use sim in \<open>auto simp: lru_sim_def\<close>)
qed

section \<open>Operations\<close>

lemma rl_without_simps [simp]:
  "map_of (rl_without k l) k' = (if k' = k then None else map_of l k')"
  "distinct (map fst l) \<Longrightarrow> distinct (map fst (rl_without k l))"
  "fst ` set (rl_without k l) = fst ` set l - {k}"
  unfolding rl_without_def by (induction l) (auto simp: distinct_map_filter)

lemma sorted_filter_map: "sorted_wrt P (map f xs) \<Longrightarrow> sorted_wrt P (map f (filter Q xs))"
  by (simp add: sorted_wrt_map sorted_wrt_filter)

text \<open>Recording an access as the last of all moves the key to the end.\<close>

lemma lru_sim_touch:
  assumes sim: "lru_sim m l" and "lm_next_access m = access + 1" "0 \<le> access"
    and less: "\<And>k e. map_of (lm_entries m) k = Some e \<Longrightarrow> le_last_access e < access"
    and "om_ok es" "map_of es = (map_of (lm_entries m))(k \<mapsto> \<lparr>le_value = v, le_last_access = access\<rparr>)"
  shows "lru_sim (m\<lparr>lm_entries := es\<rparr>) (rl_without k l @ [(k, v)])"
proof -
  let ?E = "lm_entries m"
  have dist: "distinct (map fst l)" and vals: "\<forall>k. map_of l k = map_option le_value (map_of ?E k)"
    and sorted: "sorted_wrt (<) (map (\<lambda>(k, _). stamp_of ?E k) l)" using sim by (simp_all add: lru_sim_def)
  have same: "stamp_of es k' = stamp_of ?E k'" if "k' \<noteq> k" for k' using that by (simp add: stamp_of_def assms(6))
  have map_eq: "map (\<lambda>(k, _). stamp_of es k) (rl_without k l) = map (\<lambda>(k, _). stamp_of ?E k) (rl_without k l)"
    by (rule map_cong) (auto simp: rl_without_def same)
  have stamps: "stamp_of ?E k' < access" if "k' \<in> fst ` set l" for k'
  proof -
    have "map_of l k' \<noteq> None" using that by (simp add: map_of_eq_None_iff)
    then obtain e where "map_of ?E k' = Some e" using vals by auto
    with less show ?thesis by (simp add: stamp_of_def)
  qed
  have "sorted_wrt (<) (map (\<lambda>(k, _). stamp_of es k) (rl_without k l @ [(k, v)]))"
  proof -
    have "sorted_wrt (<) (map (\<lambda>(k, _). stamp_of ?E k) (rl_without k l))"
      unfolding rl_without_def using sorted by (rule sorted_filter_map)
    moreover have "stamp_of es k = access" by (simp add: stamp_of_def assms(6))
    moreover have "stamp_of ?E (fst x) < access" if "x \<in> set (rl_without k l)" for x
      using stamps[of "fst x"] that by (auto simp: rl_without_def)
    ultimately show ?thesis by (auto simp: sorted_wrt_append map_eq case_prod_beta)
  qed
  moreover have "distinct (map fst (rl_without k l @ [(k, v)]))" using dist by simp
  moreover have "map_of (rl_without k l @ [(k, v)]) k' = map_option le_value (map_of es k')" for k'
    using vals by (simp add: assms(6) map_add_def split: option.split)
  moreover have "map_of es k' = Some e \<Longrightarrow> 0 \<le> le_last_access e \<and> le_last_access e < lm_next_access m" for k' e
    using sim assms(2,3) by (auto simp: assms(6) lru_sim_def split: if_splits)
  ultimately show ?thesis using sim assms(5) by (simp add: lru_sim_def)
qed

lemma lm_get_sim:
  assumes "lru_sim m l" "int (length l) < 2 ^ 64 - 1"
  shows "\<exists>m'. lm_get k m = Some (fst (rl_get k l), m') \<and> lru_sim m' (snd (rl_get k l))"
proof (cases "map_of (lm_entries m) k")
  case None
  then have "map_of l k = None" using assms(1) by (simp add: lru_sim_def)
  with None assms(1) show ?thesis by (simp add: lm_get_def rl_get_def om_has_def)
next
  case (Some e)
  obtain access m' where stamp: "take_access_stamp m = Some (access, m')" "lru_sim m' l" "lm_next_access m' = access + 1"
    "\<And>k e. map_of (lm_entries m') k = Some e \<Longrightarrow> le_last_access e < access" "0 \<le> access"
    by (rule take_access_stamp_sim[OF assms]) blast
  have v: "map_of l k = Some (le_value e)" using assms(1) Some by (simp add: lru_sim_def)
  then obtain e' where e': "map_of (lm_entries m') k = Some e'" "le_value e' = le_value e"
    using stamp(2) by (auto simp: lru_sim_def)
  let ?es = "om_update k (\<lambda>e. e\<lparr>le_last_access := access\<rparr>) (lm_entries m')"
  have "e'\<lparr>le_last_access := access\<rparr> = \<lparr>le_value = le_value e, le_last_access = access\<rparr>" using e'(2) by simp
  then have "map_of ?es = (map_of (lm_entries m'))(k \<mapsto> \<lparr>le_value = le_value e, le_last_access = access\<rparr>)"
    using e'(1) by (auto simp: fun_eq_iff)
  then have "lru_sim (m'\<lparr>lm_entries := ?es\<rparr>) (rl_without k l @ [(k, le_value e)])"
    using stamp(2) by (intro lru_sim_touch[OF stamp(2,3,5,4)]) (simp_all add: lru_sim_def)
  then show ?thesis using Some v stamp(1) e' by (simp add: lm_get_def rl_get_def om_has_def)
qed

lemma lm_insert_sim:
  assumes "lru_sim m l" "int (length l) < 2 ^ 64 - 1"
  shows "\<exists>m'. lm_insert k v m = Some (fst (rl_insert k v l), m') \<and> lru_sim m' (snd (rl_insert k v l))"
proof -
  obtain access m' where stamp: "take_access_stamp m = Some (access, m')" "lru_sim m' l" "lm_next_access m' = access + 1"
    "\<And>k e. map_of (lm_entries m') k = Some e \<Longrightarrow> le_last_access e < access" "0 \<le> access"
    by (rule take_access_stamp_sim[OF assms]) blast
  have om: "om_ok (lm_entries m')" and v: "map_of l k = map_option le_value (map_of (lm_entries m') k)"
    using stamp(2) by (simp_all add: lru_sim_def)
  let ?es = "om_insert k \<lparr>le_value = v, le_last_access = access\<rparr> (lm_entries m')"
  have "lru_sim (m'\<lparr>lm_entries := ?es\<rparr>) (rl_without k l @ [(k, v)])"
    using om by (intro lru_sim_touch[OF stamp(2,3,5,4)]) simp_all
  then show ?thesis using stamp(1) v by (simp add: lm_insert_def rl_insert_def)
qed

lemma lru_sim_without:
  assumes "lru_sim m l"
  shows "lru_sim (m\<lparr>lm_entries := om_remove k (lm_entries m)\<rparr>) (rl_without k l)"
proof -
  let ?E = "lm_entries m"
  have "map (\<lambda>(k', _). stamp_of (om_remove k ?E) k') (rl_without k l) = map (\<lambda>(k, _). stamp_of ?E k) (rl_without k l)"
    by (rule map_cong) (auto simp: rl_without_def stamp_of_def)
  moreover have "sorted_wrt (<) (map (\<lambda>(k, _). stamp_of ?E k) (rl_without k l))"
    unfolding rl_without_def using assms by (intro sorted_filter_map) (simp add: lru_sim_def)
  ultimately have "sorted_wrt (<) (map (\<lambda>(k', _). stamp_of (om_remove k ?E) k') (rl_without k l))" by metis
  then show ?thesis using assms by (auto simp: lru_sim_def split: if_splits)
qed

lemma lm_remove_all_sim:
  "lru_sim m l \<Longrightarrow> distinct ks \<Longrightarrow> set ks \<subseteq> fst ` set l \<Longrightarrow>
     \<exists>m'. lm_remove_all ks m = Some (map (\<lambda>k. (k, the (map_of l k))) ks, m')
       \<and> lru_sim m' (filter (\<lambda>(k, _). k \<notin> set ks) l)"
proof (induction ks arbitrary: m l)
  case Nil
  then show ?case by simp
next
  case (Cons k ks)
  have "map_of l k \<noteq> None" using Cons.prems(3) by (simp add: map_of_eq_None_iff)
  then obtain v where v: "map_of l k = Some v" by blast
  then obtain e where e: "map_of (lm_entries m) k = Some e" "le_value e = v" using Cons.prems(1) by (auto simp: lru_sim_def)
  have "set ks \<subseteq> fst ` set (rl_without k l)" using Cons.prems(2,3) by auto
  then obtain m' where m': "lm_remove_all ks (m\<lparr>lm_entries := om_remove k (lm_entries m)\<rparr>)
      = Some (map (\<lambda>k'. (k', the (map_of (rl_without k l) k'))) ks, m')"
    "lru_sim m' (filter (\<lambda>(k, _). k \<notin> set ks) (rl_without k l))"
    using Cons.IH[OF lru_sim_without[OF Cons.prems(1)], of k] Cons.prems(2) by auto
  have "map (\<lambda>k'. (k', the (map_of (rl_without k l) k'))) ks = map (\<lambda>k. (k, the (map_of l k))) ks"
    using Cons.prems(2) by auto
  moreover have "filter (\<lambda>(k, _). k \<notin> set ks) (rl_without k l) = filter (\<lambda>(k', _). k' \<notin> set (k # ks)) l"
    unfolding rl_without_def by (simp add: filter_filter) (rule filter_cong, auto)
  ultimately show ?case using m' e v by (auto simp del: filter_filter)
qed

lemma lm_remove_where_sim:
  assumes "lru_sim m l"
  shows "\<exists>m'. lm_remove_where p m = Some (fst (rl_remove_where p l), m') \<and> lru_sim m' (snd (rl_remove_where p l))"
proof -
  let ?E = "lm_entries m"
  let ?ks = "map fst (filter (\<lambda>(k, e). p k (le_value e)) ?E)"
  have om: "om_ok ?E" and dist: "distinct (map fst l)"
    and vals: "\<forall>k. map_of l k = map_option le_value (map_of ?E k)" using assms by (simp_all add: lru_sim_def)
  have sorted: "sorted_wrt (<) ?ks" using om_ok_filter[OF om] by (simp add: om_ok_def os_ok_def)
  have in_ks: "k \<in> set ?ks \<longleftrightarrow> (\<exists>v. map_of l k = Some v \<and> p k v)" for k
    using vals om by (force simp: om_entry)
  have pairs: "(k, v) \<in> set l \<longleftrightarrow> map_of l k = Some v" for k v using dist by simp
  have "set ?ks \<subseteq> fst ` set l"
  proof
    fix k assume "k \<in> set ?ks"
    then show "k \<in> fst ` set l" unfolding in_ks by (auto simp: pairs[symmetric] image_iff intro: bexI[rotated])
  qed
  moreover have "distinct ?ks" using sorted by (simp add: strict_sorted_iff)
  ultimately obtain m' where m': "lm_remove_all ?ks m = Some (map (\<lambda>k. (k, the (map_of l k))) ?ks, m')"
    "lru_sim m' (filter (\<lambda>(k, _). k \<notin> set ?ks) l)"
    using lm_remove_all_sim[OF assms] by blast
  have "filter (\<lambda>(k, _). k \<notin> set ?ks) l = filter (\<lambda>(k, v). \<not> p k v) l"
    unfolding in_ks by (rule filter_cong) (auto simp: pairs)
  moreover have "sort_key fst (filter (\<lambda>(k, v). p k v) l) = map (\<lambda>k. (k, the (map_of l k))) ?ks"
  proof -
    let ?us = "sort_key fst (filter (\<lambda>(k, v). p k v) l)"
    have "sorted (map fst ?us)" "distinct (map fst ?us)"
      using distinct_map_filter[OF dist, of "\<lambda>(k, v). p k v"] by (simp_all add: distinct_map)
    moreover have "set (map fst ?us) = set ?ks" unfolding set_eq_iff in_ks by (force simp: pairs)
    moreover have "sorted ?ks" "distinct ?ks" using sorted by (simp_all add: strict_sorted_iff)
    ultimately have keys: "map fst ?us = ?ks" by (metis sorted_distinct_set_unique)
    have "map (\<lambda>k. (k, the (map_of l k))) (map fst ?us) = ?us"
      unfolding map_map by (rule map_idI) (auto simp: pairs)
    then show ?thesis unfolding keys by simp
  qed
  ultimately show ?thesis using m' by (simp add: lm_remove_where_def rl_remove_where_def)
qed

lemma rl_evict_eq:
  "distinct (map fst l) \<Longrightarrow> fst (rl_evict n p l) = take n (filter (\<lambda>(k, _). p k) l)
     \<and> snd (rl_evict n p l) = filter (\<lambda>(k, _). k \<notin> fst ` set (take n (filter (\<lambda>(k, _). p k) l))) l"
proof (induction n p l rule: rl_evict.induct)
  case (1 n p)
  then show ?case by simp
next
  case (2 n p k v l)
  have fresh: "(k, b) \<notin> set (take j (filter (\<lambda>a. p (fst a)) l))" for j b
    using 2(3) by (auto dest!: in_set_takeD intro: rev_image_eqI)
  show ?case
  proof (cases "0 < n \<and> p k")
    case True
    then obtain j where n: "n = Suc j" by (cases n) auto
    have "filter (\<lambda>a. fst a \<noteq> k \<and> fst a \<notin> fst ` set (take j (filter (\<lambda>a. p (fst a)) l))) l
        = filter (\<lambda>a. fst a \<notin> fst ` set (take j (filter (\<lambda>a. p (fst a)) l))) l"
      using 2(3) by (intro filter_cong) (auto intro: rev_image_eqI)
    then show ?thesis using 2(1)[OF True] 2(3) True n by (auto simp: case_prod_beta Let_def)
  next
    case False
    then show ?thesis using 2(2)[OF False] 2(3) fresh by (auto simp: case_prod_beta Let_def)
  qed
qed

lemma evict_sim:
  assumes "lru_sim m l"
  shows "\<exists>m'. evict_lru_where n p m = Some (fst (rl_evict n p l), m') \<and> lru_sim m' (snd (rl_evict n p l))"
proof -
  let ?E = "lm_entries m"
  let ?vs = "take n (filter (\<lambda>(k, _). p k) l)"
  have dist: "distinct (map fst l)" using assms by (simp add: lru_sim_def)
  note eq = rl_evict_eq[OF dist, of n p]
  show ?thesis
  proof (cases "n = 0 \<or> ?E = []")
    case True
    then have vs: "?vs = []" using lru_sim_length[OF assms] by auto
    have "rl_evict n p l = ([], l)" using eq unfolding vs by (simp add: prod_eq_iff case_prod_beta)
    with True assms show ?thesis by (simp add: evict_lru_where_def)
  next
    case False
    have victims: "map snd (take (min n (length (lm_by_access (filter (\<lambda>(k, _). p k) ?E)))) (lm_by_access (filter (\<lambda>(k, _). p k) ?E)))
        = map fst ?vs"
      unfolding by_access_sim[OF assms] by (simp add: take_map min_def case_prod_beta comp_def)
    have "distinct (map fst ?vs)" using dist by (simp add: take_map[symmetric] distinct_map_filter distinct_take)
    moreover have sub: "set ?vs \<subseteq> set l" by (auto dest: in_set_takeD)
    ultimately obtain m' where m': "lm_remove_all (map fst ?vs) m = Some (map (\<lambda>k. (k, the (map_of l k))) (map fst ?vs), m')"
      "lru_sim m' (filter (\<lambda>(k, _). k \<notin> set (map fst ?vs)) l)"
      using lm_remove_all_sim[OF assms, of "map fst ?vs"] by auto
    have "map (\<lambda>k. (k, the (map_of l k))) (map fst ?vs) = ?vs"
      unfolding map_map using sub dist by (intro map_idI) auto
    then show ?thesis using False m' eq victims by (simp add: evict_lru_where_def Let_def)
  qed
qed

section \<open>The property\<close>

lemma length_filter_key: "length (filter (\<lambda>(k, _). P k) l) \<le> length l"
  by simp

lemma rl_step_length: "length (snd (rl_step c l)) \<le> Suc (length l)"
proof (cases c)
  case (LruEvict n p)
  have "length (snd (rl_evict n p l)) \<le> length l"
    by (induction n p l rule: rl_evict.induct) (auto simp: case_prod_beta Let_def)
  then show ?thesis by (simp add: LruEvict)
qed (auto simp: rl_get_def rl_insert_def rl_remove_def rl_remove_where_def rl_without_def
      intro: le_SucI split: option.split)

lemma lru_step_sim:
  assumes "lru_sim m l" "int (length l) < 2 ^ 64 - 1"
  shows "\<exists>m'. lru_step c m = Some (fst (rl_step c l), m') \<and> lru_sim m' (snd (rl_step c l))"
proof (cases c)
  case (LruGet k)
  then show ?thesis using lm_get_sim[OF assms, of k] by auto
next
  case (LruInsert k v)
  then show ?thesis using lm_insert_sim[OF assms, of k v] by auto
next
  case (LruRemove k)
  have "map_of l k = map_option le_value (map_of (lm_entries m) k)" using assms(1) by (simp add: lru_sim_def)
  then show ?thesis using LruRemove lru_sim_without[OF assms(1), of k] by (simp add: lm_remove_def rl_remove_def)
next
  case (LruRemoveWhere p)
  then show ?thesis using lm_remove_where_sim[OF assms(1), of p] by auto
next
  case (LruEvict n p)
  then show ?thesis using evict_sim[OF assms(1), of n p] by auto
qed

lemma lru_run_sim:
  "lru_sim m l \<Longrightarrow> int (length l + length calls) < 2 ^ 64 - 1 \<Longrightarrow>
     \<exists>m'. lru_run calls m = Some (fst (rl_run calls l), m') \<and> lru_sim m' (snd (rl_run calls l))"
proof (induction calls arbitrary: m l)
  case Nil
  then show ?case by simp
next
  case (Cons c calls)
  obtain m' where m': "lru_step c m = Some (fst (rl_step c l), m')" "lru_sim m' (snd (rl_step c l))"
    using lru_step_sim[OF Cons.prems(1)] Cons.prems(2) by auto
  have "int (length (snd (rl_step c l)) + length calls) < 2 ^ 64 - 1"
    using rl_step_length[of c l] Cons.prems(2) by simp
  from Cons.IH[OF m'(2) this] m'(1) show ?case by (auto simp: case_prod_beta Let_def)
qed

text \<open>
  C28: The cache map is a least-recently-used list. Every sequence of lookups, insertions, removals
  and evictions answers exactly what the list of entries in order of last use answers, without a
  panic, and the renumbering of exhausted stamps cannot be observed.
\<close>

theorem lru_map_refines_recency:
  assumes "lru_sim m l" and "int (length l + length calls) < 2 ^ 64 - 1"
  shows "map_option fst (lru_run calls m) = Some (fst (rl_run calls l))"
  using lru_run_sim[OF assms] by auto

lemma lru_sim_default: "lru_sim lm_default []"
  by (simp add: lru_sim_def lm_default_def)

definition worn_map :: "(nat, string) lru_map" where
  "worn_map = \<lparr>lm_entries = [(1, \<lparr>le_value = ''a'', le_last_access = 9\<rparr>), (2, \<lparr>le_value = ''b'', le_last_access = 4\<rparr>)],
     lm_next_access = 2 ^ 64 - 1\<rparr>"

theorem lru_map_refines_recency_witness:
  "map_option fst (lru_run [LruGet 2, LruInsert 3 ''c'', LruEvict 2 (\<lambda>_. True)] worn_map)
     = Some [LruValue (Some ''b''), LruValue None, LruEntries [(1, ''a''), (2, ''b'')]]"
proof -
  have "lru_sim worn_map [(2, ''b''), (1, ''a'')]"
    by (auto simp: lru_sim_def worn_map_def stamp_of_def split: if_splits)
  then have "map_option fst (lru_run [LruGet 2, LruInsert 3 ''c'', LruEvict 2 (\<lambda>_. True)] worn_map)
      = Some (fst (rl_run [LruGet 2, LruInsert 3 ''c'', LruEvict 2 (\<lambda>_. True)] [(2, ''b''), (1, ''a'')]))"
    by (rule lru_map_refines_recency) simp
  also have "fst (rl_run [LruGet 2, LruInsert 3 ''c'', LruEvict 2 (\<lambda>_. True)] [(2 :: nat, ''b''), (1, ''a'')])
      = [LruValue (Some ''b''), LruValue None, LruEntries [(1, ''a''), (2, ''b'')]]"
    by (simp add: rl_get_def rl_insert_def rl_without_def)
  finally show ?thesis .
qed

end
