(* ===== verification/Lifecycle.thy ===== *)
theory Lifecycle
  imports CoreIds
begin

text \<open>
  \<open>superi-concurrency/src/lifecycle.rs\<close>: the coordinator that starts, pauses, puts to sleep and
  stops a fixed set of participants. A transition is published as a phase and a revision packed in
  one 64-bit word and completes when every participant has acknowledged exactly that revision. The
  methods run under one lock, so concurrent callers are a sequence of calls. A closure that fails
  keeps the writes it made before the error, so a step returns its error and the state.
\<close>

section \<open>Phases and the signal\<close>

datatype lifecycle_phase =
    Starting | Running | Pausing | Paused | Resuming | PreparingSleep | Sleeping | Waking | Stopping
  | Stopped | Failed

fun phase_code :: "lifecycle_phase \<Rightarrow> string" where
  "phase_code Starting = ''starting''"
| "phase_code Running = ''running''"
| "phase_code Pausing = ''pausing''"
| "phase_code Paused = ''paused''"
| "phase_code Resuming = ''resuming''"
| "phase_code PreparingSleep = ''preparing_sleep''"
| "phase_code Sleeping = ''sleeping''"
| "phase_code Waking = ''waking''"
| "phase_code Stopping = ''stopping''"
| "phase_code Stopped = ''stopped''"
| "phase_code Failed = ''failed''"

fun requires_acknowledgement :: "lifecycle_phase \<Rightarrow> bool" where
  "requires_acknowledgement Starting = True"
| "requires_acknowledgement Pausing = True"
| "requires_acknowledgement Resuming = True"
| "requires_acknowledgement PreparingSleep = True"
| "requires_acknowledgement Waking = True"
| "requires_acknowledgement Stopping = True"
| "requires_acknowledgement _ = False"

fun phase_discriminant :: "lifecycle_phase \<Rightarrow> int" where
  "phase_discriminant Starting = 0"
| "phase_discriminant Running = 1"
| "phase_discriminant Pausing = 2"
| "phase_discriminant Paused = 3"
| "phase_discriminant Resuming = 4"
| "phase_discriminant PreparingSleep = 5"
| "phase_discriminant Sleeping = 6"
| "phase_discriminant Waking = 7"
| "phase_discriminant Stopping = 8"
| "phase_discriminant Stopped = 9"
| "phase_discriminant Failed = 10"

text \<open>\<open>None\<close> is the unreachable arm.\<close>

definition phase_from_discriminant :: "int \<Rightarrow> lifecycle_phase option" where
  "phase_from_discriminant v =
     (if v = 0 then Some Starting else if v = 1 then Some Running else if v = 2 then Some Pausing
      else if v = 3 then Some Paused else if v = 4 then Some Resuming else if v = 5 then Some PreparingSleep
      else if v = 6 then Some Sleeping else if v = 7 then Some Waking else if v = 8 then Some Stopping
      else if v = 9 then Some Stopped else if v = 10 then Some Failed else None)"

definition MAX_REVISION :: int where
  "MAX_REVISION = drop_bit 8 (2 ^ 64 - 1)"

record signal_snapshot =
  sig_phase :: lifecycle_phase
  sig_revision :: int

definition encode_signal :: "lifecycle_phase \<Rightarrow> int \<Rightarrow> int" where
  "encode_signal phase revision = take_bit 64 (push_bit 8 revision) OR phase_discriminant phase"

definition decode_signal :: "int \<Rightarrow> signal_snapshot option" where
  "decode_signal encoded =
     map_option (\<lambda>phase. \<lparr>sig_phase = phase, sig_revision = drop_bit 8 encoded\<rparr>)
       (phase_from_discriminant (encoded AND 255))"

section \<open>State\<close>

record lifecycle_failure =
  lff_participant :: string
  lff_error :: error_value

record lifecycle_state =
  ls_phase :: lifecycle_phase
  ls_revision :: int
  ls_participants :: "string list"
  ls_pending :: "string list"
  ls_wake_target :: lifecycle_phase
  ls_failure :: "lifecycle_failure option"

record lifecycle_snapshot =
  lsn_phase :: lifecycle_phase
  lsn_revision :: int
  lsn_pending_participants :: "string list"
  lsn_failure :: "lifecycle_failure option"

definition snapshot_from_state :: "lifecycle_state \<Rightarrow> lifecycle_snapshot" where
  "snapshot_from_state s =
     \<lparr>lsn_phase = ls_phase s, lsn_revision = ls_revision s, lsn_pending_participants = ls_pending s,
      lsn_failure = ls_failure s\<rparr>"

record coordinator =
  lc_state :: lifecycle_state
  lc_signal :: int

definition lifecycle_error :: "error_category \<Rightarrow> recoverability \<Rightarrow> string \<Rightarrow> string \<Rightarrow> error_value" where
  "lifecycle_error category recoverability message operation =
     err_with_context (err_new category recoverability message)
       (ctx_new ''superi-concurrency.lifecycle'' operation)"

definition invalid_phase :: "lifecycle_phase \<Rightarrow> string \<Rightarrow> error_value" where
  "invalid_phase current requested =
     err_with_context
       (lifecycle_error Conflict UserCorrectable ''lifecycle request conflicts with the current phase'' ''transition'')
       (ctx_with_field (ctx_with_field (ctx_new ''superi-concurrency.lifecycle'' ''phase_conflict'')
         ''current'' (phase_code current)) ''requested'' requested)"

lemma lifecycle_error_cong [cong]:
  "lifecycle_error category recoverability message operation = lifecycle_error category recoverability message operation"
  by (rule refl)

section \<open>Construction\<close>

text \<open>The loop that registers the names.\<close>

fun register :: "string list \<Rightarrow> string list \<Rightarrow> string list result" where
  "register registered [] = Inr registered"
| "register registered (participant # rest) =
     (if participant = [] \<or> \<not> is_trimmed participant
      then Inl (lifecycle_error InvalidInput UserCorrectable
             ''lifecycle participant names must be nonempty and have no surrounding whitespace'' ''configure'')
      else if List.member registered participant
      then Inl (err_with_context
             (lifecycle_error InvalidInput UserCorrectable ''lifecycle participant names must be unique'' ''configure'')
             (ctx_with_field (ctx_new ''superi-concurrency.lifecycle'' ''duplicate_participant'')
               ''participant'' participant))
      else register (os_insert participant registered) rest)"

definition lc_new :: "string list \<Rightarrow> coordinator result" where
  "lc_new participants =
     bindR (register [] participants) (\<lambda>registered.
     let phase = (if registered = [] then Running else Starting) in
     Inr \<lparr>lc_state = \<lparr>ls_phase = phase, ls_revision = 0, ls_participants = registered,
            ls_pending = (if requires_acknowledgement phase then registered else []),
            ls_wake_target = Running, ls_failure = None\<rparr>,
          lc_signal = encode_signal phase 0\<rparr>)"

definition lc_participant :: "coordinator \<Rightarrow> string \<Rightarrow> string result" where
  "lc_participant c participant =
     (if \<not> List.member (ls_participants (lc_state c)) participant
      then Inl (err_with_context
             (lifecycle_error NotFound UserCorrectable ''lifecycle participant is not registered'' ''participant'')
             (ctx_with_field (ctx_new ''superi-concurrency.lifecycle'' ''lookup'') ''participant'' participant))
      else Inr participant)"

section \<open>Transitions\<close>

definition advance_revision :: "lifecycle_state \<Rightarrow> unit result \<times> lifecycle_state" where
  "advance_revision s =
     (case checked_u64 (ls_revision s + 1) of
        Some revision \<Rightarrow>
          if revision \<le> MAX_REVISION then (Inr (), s\<lparr>ls_revision := revision\<rparr>)
          else (Inl (lifecycle_error Internal Terminal ''lifecycle transition revision space is exhausted''
                  ''advance_revision''), s)
      | None \<Rightarrow> (Inl (lifecycle_error Internal Terminal ''lifecycle transition revision space is exhausted''
                  ''advance_revision''), s))"

text \<open>The early return that keeps the writes made so far.\<close>

definition thenS :: "unit result \<times> 's \<Rightarrow> ('s \<Rightarrow> 'a result \<times> 's) \<Rightarrow> 'a result \<times> 's" where
  "thenS m f = (case m of (Inl e, s) \<Rightarrow> (Inl e, s) | (Inr _, s) \<Rightarrow> f s)"

definition complete_transition :: "lifecycle_state \<Rightarrow> unit result \<times> lifecycle_state" where
  "complete_transition s =
     (case (case ls_phase s of
              Starting \<Rightarrow> Some Running
            | Resuming \<Rightarrow> Some Running
            | Pausing \<Rightarrow> Some Paused
            | PreparingSleep \<Rightarrow> Some Sleeping
            | Waking \<Rightarrow> Some (ls_wake_target s)
            | Stopping \<Rightarrow> Some Stopped
            | _ \<Rightarrow> None) of
        None \<Rightarrow> (Inl (invalid_phase (ls_phase s) ''complete''), s)
      | Some completed \<Rightarrow>
          thenS (advance_revision s) (\<lambda>s. (Inr (), s\<lparr>ls_phase := completed, ls_pending := []\<rparr>)))"

definition begin_transition :: "lifecycle_phase \<Rightarrow> lifecycle_state \<Rightarrow> bool result \<times> lifecycle_state" where
  "begin_transition phase s =
     thenS (advance_revision s) (\<lambda>s.
       let s = s\<lparr>ls_phase := phase, ls_pending := ls_participants s\<rparr> in
       if ls_pending s = [] then thenS (complete_transition s) (\<lambda>s. (Inr True, s)) else (Inr True, s))"

definition lc_update ::
  "string \<Rightarrow> (lifecycle_state \<Rightarrow> bool result \<times> lifecycle_state) \<Rightarrow> coordinator
     \<Rightarrow> lifecycle_snapshot result \<times> coordinator" where
  "lc_update operation update c =
     (case update (lc_state c) of
        (Inl e, s) \<Rightarrow> (Inl (err_push_context e (ctx_new ''superi-concurrency.lifecycle'' operation)), c\<lparr>lc_state := s\<rparr>)
      | (Inr changed, s) \<Rightarrow>
          (Inr (snapshot_from_state s),
           c\<lparr>lc_state := s, lc_signal := (if changed then encode_signal (ls_phase s) (ls_revision s) else lc_signal c)\<rparr>))"

definition request_pause :: "coordinator \<Rightarrow> lifecycle_snapshot result \<times> coordinator" where
  "request_pause = lc_update ''request_pause'' (\<lambda>s.
     if ls_phase s \<in> {Running, Starting, Resuming} then begin_transition Pausing s
     else if ls_phase s = Waking then begin_transition Waking (s\<lparr>ls_wake_target := Paused\<rparr>)
     else if ls_phase s \<in> {Pausing, Paused} then (Inr False, s)
     else (Inl (invalid_phase (ls_phase s) ''pause''), s))"

definition request_resume :: "coordinator \<Rightarrow> lifecycle_snapshot result \<times> coordinator" where
  "request_resume = lc_update ''request_resume'' (\<lambda>s.
     if ls_phase s \<in> {Paused, Pausing} then begin_transition Resuming s
     else if ls_phase s = Waking then begin_transition Waking (s\<lparr>ls_wake_target := Running\<rparr>)
     else if ls_phase s \<in> {Running, Resuming} then (Inr False, s)
     else (Inl (invalid_phase (ls_phase s) ''resume''), s))"

definition request_sleep :: "coordinator \<Rightarrow> lifecycle_snapshot result \<times> coordinator" where
  "request_sleep = lc_update ''request_sleep'' (\<lambda>s.
     if ls_phase s \<in> {Starting, Running, Resuming}
     then begin_transition PreparingSleep (s\<lparr>ls_wake_target := Running\<rparr>)
     else if ls_phase s \<in> {Pausing, Paused}
     then begin_transition PreparingSleep (s\<lparr>ls_wake_target := Paused\<rparr>)
     else if ls_phase s = Waking then begin_transition PreparingSleep s
     else if ls_phase s \<in> {PreparingSleep, Sleeping} then (Inr False, s)
     else (Inl (invalid_phase (ls_phase s) ''sleep''), s))"

definition request_wake :: "coordinator \<Rightarrow> lifecycle_snapshot result \<times> coordinator" where
  "request_wake = lc_update ''request_wake'' (\<lambda>s.
     if ls_phase s \<in> {PreparingSleep, Sleeping} then begin_transition Waking s
     else if ls_phase s \<in> {Starting, Running, Resuming}
     then begin_transition Waking (s\<lparr>ls_wake_target := Running\<rparr>)
     else if ls_phase s \<in> {Pausing, Paused}
     then begin_transition Waking (s\<lparr>ls_wake_target := Paused\<rparr>)
     else if ls_phase s = Waking then (Inr False, s)
     else (Inl (invalid_phase (ls_phase s) ''wake''), s))"

definition request_shutdown :: "coordinator \<Rightarrow> lifecycle_snapshot result \<times> coordinator" where
  "request_shutdown = lc_update ''request_shutdown'' (\<lambda>s.
     if ls_phase s \<in> {Stopping, Stopped} then (Inr False, s) else begin_transition Stopping s)"

definition request_restart :: "coordinator \<Rightarrow> lifecycle_snapshot result \<times> coordinator" where
  "request_restart = lc_update ''request_restart'' (\<lambda>s.
     if ls_phase s \<noteq> Stopped then (Inl (invalid_phase (ls_phase s) ''restart''), s)
     else begin_transition Starting (s\<lparr>ls_failure := None, ls_wake_target := Running\<rparr>))"

definition stale_acknowledgement :: "string \<Rightarrow> signal_snapshot \<Rightarrow> lifecycle_state \<Rightarrow> error_value" where
  "stale_acknowledgement participant observed s =
     err_with_context
       (lifecycle_error Conflict Retryable ''lifecycle acknowledgement refers to a stale transition'' ''acknowledge'')
       (fold (\<lambda>(key, val) x. ctx_with_field x key val)
         [(''participant'', participant), (''observed_phase'', phase_code (sig_phase observed)),
          (''observed_revision'', show_unsigned (sig_revision observed)),
          (''current_phase'', phase_code (ls_phase s)), (''current_revision'', show_unsigned (ls_revision s))]
         (ctx_new ''superi-concurrency.lifecycle'' ''stale_acknowledgement''))"

lemma stale_acknowledgement_cong [cong]:
  "stale_acknowledgement participant observed s = stale_acknowledgement participant observed s"
  by (rule refl)

definition lc_acknowledge :: "string \<Rightarrow> signal_snapshot \<Rightarrow> coordinator \<Rightarrow> lifecycle_snapshot result \<times> coordinator" where
  "lc_acknowledge participant observed = lc_update ''acknowledge'' (\<lambda>s.
     if ls_phase s \<noteq> sig_phase observed \<or> ls_revision s \<noteq> sig_revision observed
     then (Inl (stale_acknowledgement participant observed s), s)
     else if \<not> requires_acknowledgement (ls_phase s)
     then (Inl (invalid_phase (ls_phase s) ''acknowledge''), s)
     else if \<not> List.member (ls_pending s) participant then (Inr False, s)
     else
     let s = s\<lparr>ls_pending := os_remove participant (ls_pending s)\<rparr> in
     if ls_pending s = [] then thenS (complete_transition s) (\<lambda>s. (Inr True, s)) else (Inr False, s))"

definition lc_fail :: "string \<Rightarrow> error_value \<Rightarrow> coordinator \<Rightarrow> lifecycle_snapshot result \<times> coordinator" where
  "lc_fail participant e = lc_update ''fail'' (\<lambda>s.
     if ls_phase s = Stopped then (Inl (invalid_phase (ls_phase s) ''fail''), s)
     else thenS (advance_revision s) (\<lambda>s.
       (Inr True, s\<lparr>ls_phase := Failed, ls_pending := [],
          ls_failure := Some \<lparr>lff_participant = participant, lff_error = e\<rparr>\<rparr>)))"

section \<open>Runs\<close>

text \<open>A caller uses the coordinator, or the handle of a registered participant.\<close>

datatype lifecycle_call =
    CallPause | CallResume | CallSleep | CallWake | CallShutdown | CallRestart
  | CallAcknowledge string signal_snapshot
  | CallFail string error_value

fun lc_call :: "lifecycle_call \<Rightarrow> coordinator \<Rightarrow> lifecycle_snapshot result \<times> coordinator" where
  "lc_call CallPause c = request_pause c"
| "lc_call CallResume c = request_resume c"
| "lc_call CallSleep c = request_sleep c"
| "lc_call CallWake c = request_wake c"
| "lc_call CallShutdown c = request_shutdown c"
| "lc_call CallRestart c = request_restart c"
| "lc_call (CallAcknowledge p observed) c =
     (case lc_participant c p of Inl e \<Rightarrow> (Inl e, c) | Inr p \<Rightarrow> lc_acknowledge p observed c)"
| "lc_call (CallFail p e) c =
     (case lc_participant c p of Inl e \<Rightarrow> (Inl e, c) | Inr p \<Rightarrow> lc_fail p e c)"

fun lc_run :: "lifecycle_call list \<Rightarrow> coordinator \<Rightarrow> coordinator" where
  "lc_run [] c = c"
| "lc_run (call # calls) c = lc_run calls (snd (lc_call call c))"

text \<open>The acknowledgements a run accepted: who, and for which phase and revision.\<close>

fun lc_acknowledged :: "lifecycle_call list \<Rightarrow> coordinator \<Rightarrow> (string \<times> lifecycle_phase \<times> int) list" where
  "lc_acknowledged [] c = []"
| "lc_acknowledged (call # calls) c =
     (case call of
        CallAcknowledge p observed \<Rightarrow>
          if is_ok (fst (lc_call call c)) then [(p, sig_phase observed, sig_revision observed)] else []
      | _ \<Rightarrow> []) @ lc_acknowledged calls (snd (lc_call call c))"

end
