(* ===== verification/LifecycleProps.thy ===== *)
theory LifecycleProps
  imports Lifecycle
begin

text \<open>
  The lifecycle protocol: every run keeps the state consistent with the published signal, a settled
  phase is only ever reached by the acknowledgement of every participant, an acknowledgement of a
  superseded transition is refused, and a transition whose participants all acknowledge completes.
\<close>

section \<open>The signal\<close>

lemma MAX_REVISION_value: "MAX_REVISION = 2 ^ 56 - 1"
  by (simp add: MAX_REVISION_def drop_bit_eq_div)

lemma phase_discriminant_range: "0 \<le> phase_discriminant p" "phase_discriminant p < 256"
  by (cases p; simp)+

lemma phase_from_to: "phase_from_discriminant (phase_discriminant p) = Some p"
  by (cases p) (simp_all add: phase_from_discriminant_def)

lemma encode_signal_value:
  assumes "0 \<le> r" "r \<le> MAX_REVISION"
  shows "encode_signal p r = r * 256 + phase_discriminant p"
proof -
  have "take_bit 64 (push_bit 8 r) = r * 256"
    using assms by (simp add: take_bit_eq_mod push_bit_eq_mult MAX_REVISION_value)
  moreover have "push_bit 8 r + phase_discriminant p = push_bit 8 r OR phase_discriminant p"
  proof (rule disjunctive_add)
    fix n
    have "take_bit 8 (phase_discriminant p) = phase_discriminant p"
      using phase_discriminant_range[of p] by (simp add: take_bit_eq_mod)
    then have "bit (phase_discriminant p) n \<Longrightarrow> n < 8" by (metis bit_take_bit_iff)
    then show "\<not> bit (push_bit 8 r) n \<or> \<not> bit (phase_discriminant p) n" by (auto simp: bit_push_bit_iff)
  qed
  ultimately show ?thesis by (simp add: encode_signal_def push_bit_eq_mult)
qed

lemma decode_encode_signal:
  assumes "0 \<le> r" "r \<le> MAX_REVISION"
  shows "decode_signal (encode_signal p r) = Some \<lparr>sig_phase = p, sig_revision = r\<rparr>"
proof -
  have "(r * 256 + phase_discriminant p) AND 255 = phase_discriminant p"
    using take_bit_eq_mask[of 8 "r * 256 + phase_discriminant p"] phase_discriminant_range[of p]
    by (simp add: mask_eq_exp_minus_1 take_bit_eq_mod)
  moreover have "drop_bit 8 (r * 256 + phase_discriminant p) = r"
    using phase_discriminant_range[of p] by (simp add: drop_bit_eq_div)
  ultimately show ?thesis by (simp add: decode_signal_def encode_signal_value[OF assms] phase_from_to)
qed

section \<open>The invariant\<close>

fun settles :: "lifecycle_phase \<Rightarrow> lifecycle_phase \<Rightarrow> lifecycle_phase option" where
  "settles wake Starting = Some Running"
| "settles wake Resuming = Some Running"
| "settles wake Pausing = Some Paused"
| "settles wake PreparingSleep = Some Sleeping"
| "settles wake Waking = Some wake"
| "settles wake Stopping = Some Stopped"
| "settles wake _ = None"

definition lifecycle_ok :: "coordinator \<Rightarrow> bool" where
  "lifecycle_ok c \<longleftrightarrow> (let s = lc_state c in
     os_ok (ls_participants s) \<and> os_ok (ls_pending s) \<and> set (ls_pending s) \<subseteq> set (ls_participants s)
     \<and> (requires_acknowledgement (ls_phase s) \<longleftrightarrow> ls_pending s \<noteq> [])
     \<and> (ls_wake_target s = Running \<or> ls_wake_target s = Paused)
     \<and> (ls_failure s \<noteq> None \<longrightarrow> ls_phase s \<in> {Failed, Stopping, Stopped})
     \<and> (ls_phase s = Failed \<longrightarrow> ls_failure s \<noteq> None)
     \<and> 0 \<le> ls_revision s \<and> lc_signal c = encode_signal (ls_phase s) (ls_revision s))"

text \<open>What the accepted acknowledgements have to say of a state.\<close>

definition acknowledged_by :: "(string \<times> lifecycle_phase \<times> int) set \<Rightarrow> lifecycle_state \<Rightarrow> bool" where
  "acknowledged_by log s \<longleftrightarrow>
     (requires_acknowledgement (ls_phase s) \<longrightarrow>
        (\<forall>p\<in>set (ls_participants s) - set (ls_pending s). (p, ls_phase s, ls_revision s) \<in> log))
     \<and> (ls_phase s \<in> {Running, Paused, Sleeping, Stopped} \<longrightarrow>
        (\<exists>ph wake. settles wake ph = Some (ls_phase s)
           \<and> (\<forall>p\<in>set (ls_participants s). (p, ph, ls_revision s - 1) \<in> log)))"

lemma advance_revision_ok:
  assumes "0 \<le> ls_revision s" "ls_revision s + 1 \<le> MAX_REVISION"
  shows "advance_revision s = (Inr (), s\<lparr>ls_revision := ls_revision s + 1\<rparr>)"
proof -
  have "in_u64 (ls_revision s + 1)" using assms by (simp add: in_u64_def MAX_REVISION_value)
  with assms show ?thesis by (simp add: advance_revision_def)
qed

lemma complete_transition_ok:
  assumes "0 \<le> ls_revision s" "ls_revision s + 1 \<le> MAX_REVISION" "settles (ls_wake_target s) (ls_phase s) = Some ph"
  shows "complete_transition s = (Inr (), s\<lparr>ls_revision := ls_revision s + 1, ls_phase := ph, ls_pending := []\<rparr>)"
  using assms by (cases "ls_phase s") (simp_all add: complete_transition_def thenS_def advance_revision_ok)

lemma requires_settles: "requires_acknowledgement ph \<Longrightarrow> \<exists>settled. settles wake ph = Some settled"
  by (cases ph) simp_all

lemma settles_done: "settles wake ph = Some settled \<Longrightarrow> wake = Running \<or> wake = Paused \<Longrightarrow>
    \<not> requires_acknowledgement settled \<and> settled \<noteq> Failed \<and> (settled = Stopped \<longleftrightarrow> ph = Stopping)"
  by (cases ph) auto

text \<open>
  A transition in a state with two revisions to spare: the published phase waits for everyone, or
  completes at once when there is nobody.
\<close>

lemma begin_transition_ok:
  assumes "0 \<le> ls_revision s" "ls_revision s + 2 \<le> MAX_REVISION" "settles (ls_wake_target s) ph = Some settled"
  shows "begin_transition ph s = (Inr True,
    if ls_participants s = []
    then s\<lparr>ls_revision := ls_revision s + 2, ls_phase := settled, ls_pending := []\<rparr>
    else s\<lparr>ls_revision := ls_revision s + 1, ls_phase := ph, ls_pending := ls_participants s\<rparr>)"
proof -
  let ?s = "s\<lparr>ls_revision := ls_revision s + 1, ls_phase := ph, ls_pending := ls_participants s\<rparr>"
  have "complete_transition ?s = (Inr (), ?s\<lparr>ls_revision := ls_revision s + 2, ls_phase := settled, ls_pending := []\<rparr>)"
    using assms complete_transition_ok[of ?s settled] by simp
  then show ?thesis using assms
    by (cases "ls_participants s = []") (simp_all add: begin_transition_def thenS_def advance_revision_ok Let_def)
qed

text \<open>
  What one call may do to the state: nothing but the revision-neutral bookkeeping, a new transition,
  the completion of one, or a failure.
\<close>

definition lc_effect :: "(string \<times> lifecycle_phase \<times> int) set \<Rightarrow> coordinator \<Rightarrow> coordinator \<Rightarrow> bool" where
  "lc_effect log c c' \<longleftrightarrow> lifecycle_ok c' \<and> acknowledged_by log (lc_state c')
     \<and> ls_participants (lc_state c') = ls_participants (lc_state c)
     \<and> ls_revision (lc_state c) \<le> ls_revision (lc_state c') \<and> ls_revision (lc_state c') \<le> ls_revision (lc_state c) + 2
     \<and> (ls_revision (lc_state c') = ls_revision (lc_state c) \<longrightarrow> ls_phase (lc_state c') = ls_phase (lc_state c))"

lemma acknowledged_mono: "acknowledged_by log s \<Longrightarrow> log \<subseteq> log' \<Longrightarrow> acknowledged_by log' s"
  unfolding acknowledged_by_def by blast

lemma effect_same: "lifecycle_ok c \<Longrightarrow> acknowledged_by log (lc_state c) \<Longrightarrow> lc_effect log c c"
  by (simp add: lc_effect_def lifecycle_ok_def Let_def)

text \<open>Starting a transition from a state that differs only in its wake target and failure.\<close>

lemma update_begin:
  assumes ok: "lifecycle_ok c" and room: "ls_revision (lc_state c) + 2 \<le> MAX_REVISION"
    and s: "s = (lc_state c)\<lparr>ls_wake_target := wake, ls_failure := failure\<rparr>"
    and wake: "wake = Running \<or> wake = Paused" and ph: "requires_acknowledgement ph"
    and failure: "failure = None \<or> ph = Stopping"
    and update: "update (lc_state c) = begin_transition ph s"
  shows "lc_effect log c (snd (lc_update operation update c))"
proof -
  obtain settled where "settles wake ph = Some settled" using requires_settles[OF ph] by blast
  then have target: "settles (ls_wake_target s) ph = Some settled" by (simp add: s)
  have rev: "0 \<le> ls_revision s" "ls_revision s + 2 \<le> MAX_REVISION" using ok room by (simp_all add: s lifecycle_ok_def Let_def)
  have part: "os_ok (ls_participants (lc_state c))" using ok by (simp add: lifecycle_ok_def Let_def)
  note begin' = begin_transition_ok[OF rev target]
  note facts = settles_done[OF \<open>settles wake ph = Some settled\<close> wake]
  show ?thesis
  proof (cases "ls_participants (lc_state c) = []")
    case True
    have "settled \<in> {Failed, Stopping, Stopped} \<longleftrightarrow> ph = Stopping"
      using facts by (cases settled) auto
    then show ?thesis using True facts failure rev wake part \<open>settles wake ph = Some settled\<close>
      unfolding lc_update_def update begin'
      by (auto simp: lc_effect_def lifecycle_ok_def acknowledged_by_def Let_def s)
  next
    case False
    have "ph \<noteq> Failed" "ph \<notin> {Running, Paused, Sleeping, Stopped}" using ph by (cases ph; simp)+
    then show ?thesis using False failure rev wake part ph
      unfolding lc_update_def update begin'
      by (auto simp: lc_effect_def lifecycle_ok_def acknowledged_by_def Let_def s)
  qed
qed

lemma update_refused:
  assumes "lifecycle_ok c" "acknowledged_by log (lc_state c)"
    and "(\<exists>e. update (lc_state c) = (Inl e, lc_state c)) \<or> update (lc_state c) = (Inr False, lc_state c)"
  shows "lc_effect log c (snd (lc_update operation update c))"
proof -
  have "snd (lc_update operation update c) = c" using assms(3) by (auto simp: lc_update_def)
  then show ?thesis using effect_same[OF assms(1,2)] by simp
qed

lemma no_failure: "lifecycle_ok c \<Longrightarrow> ls_phase (lc_state c) \<notin> {Failed, Stopping, Stopped} \<Longrightarrow> ls_failure (lc_state c) = None"
  by (auto simp: lifecycle_ok_def Let_def)

lemma request_effects:
  assumes ok: "lifecycle_ok c" and log: "acknowledged_by log (lc_state c)"
    and room: "ls_revision (lc_state c) + 2 \<le> MAX_REVISION"
  shows "lc_effect log c (snd (request_pause c))" "lc_effect log c (snd (request_resume c))"
    "lc_effect log c (snd (request_sleep c))" "lc_effect log c (snd (request_wake c))"
    "lc_effect log c (snd (request_shutdown c))" "lc_effect log c (snd (request_restart c))"
proof -
  let ?s = "lc_state c"
  have wake: "ls_wake_target ?s = Running \<or> ls_wake_target ?s = Paused" using ok by (simp add: lifecycle_ok_def Let_def)
  have same: "?s = ?s\<lparr>ls_wake_target := ls_wake_target ?s, ls_failure := ls_failure ?s\<rparr>" by simp
  have target: "?s\<lparr>ls_wake_target := w\<rparr> = ?s\<lparr>ls_wake_target := w, ls_failure := ls_failure ?s\<rparr>" for w by simp
  note keep = update_refused[OF ok log]
  note begin0 = update_begin[OF ok room same wake]
  note begin1 = update_begin[OF ok room target]
  note none = no_failure[OF ok]
  show "lc_effect log c (snd (request_pause c))" unfolding request_pause_def
    by (cases "ls_phase ?s"; (rule begin0 begin1 keep; (simp add: none)?; fail))
  show "lc_effect log c (snd (request_resume c))" unfolding request_resume_def
    by (cases "ls_phase ?s"; (rule begin0 begin1 keep; (simp add: none)?; fail))
  show "lc_effect log c (snd (request_sleep c))" unfolding request_sleep_def
    by (cases "ls_phase ?s"; (rule begin0 begin1 keep; (simp add: none)?; fail))
  show "lc_effect log c (snd (request_wake c))" unfolding request_wake_def
    by (cases "ls_phase ?s"; (rule begin0 begin1 keep; (simp add: none)?; fail))
  show "lc_effect log c (snd (request_shutdown c))" unfolding request_shutdown_def
    by (cases "ls_phase ?s"; (rule begin0 begin1 keep; (simp add: none)?; fail))
  have fresh: "?s\<lparr>ls_failure := None, ls_wake_target := Running\<rparr> = ?s\<lparr>ls_wake_target := Running, ls_failure := None\<rparr>" by simp
  show "lc_effect log c (snd (request_restart c))" unfolding request_restart_def
    by (cases "ls_phase ?s = Stopped"; (rule update_begin[OF ok room fresh] keep; (simp; fail)?; fail))
qed

lemma fail_effect:
  assumes "lifecycle_ok c" "acknowledged_by log (lc_state c)" "ls_revision (lc_state c) + 2 \<le> MAX_REVISION"
  shows "lc_effect log c (snd (lc_fail p e c))"
proof (cases "ls_phase (lc_state c) = Stopped")
  case True
  then show ?thesis unfolding lc_fail_def by (intro update_refused[OF assms(1,2)]) simp
next
  case False
  have "0 \<le> ls_revision (lc_state c)" using assms(1) by (simp add: lifecycle_ok_def Let_def)
  then show ?thesis using False assms
    by (auto simp: lc_fail_def lc_update_def thenS_def advance_revision_ok lc_effect_def lifecycle_ok_def acknowledged_by_def Let_def)
qed

lemma acknowledge_effect:
  assumes ok: "lifecycle_ok c" and log: "acknowledged_by log (lc_state c)"
    and room: "ls_revision (lc_state c) + 2 \<le> MAX_REVISION" and p: "p \<in> set (ls_participants (lc_state c))"
    and entry: "is_ok (fst (lc_acknowledge p observed c)) \<Longrightarrow> (p, sig_phase observed, sig_revision observed) \<in> log"
  shows "lc_effect log c (snd (lc_acknowledge p observed c))"
proof -
  let ?s = "lc_state c"
  let ?s' = "?s\<lparr>ls_pending := os_remove p (ls_pending ?s)\<rparr>"
  let ?body = "\<lambda>s. if ls_phase s \<noteq> sig_phase observed \<or> ls_revision s \<noteq> sig_revision observed
     then (Inl (stale_acknowledgement p observed s), s)
     else if \<not> requires_acknowledgement (ls_phase s)
     then (Inl (invalid_phase (ls_phase s) ''acknowledge''), s)
     else if \<not> List.member (ls_pending s) p then (Inr False, s)
     else
     let s = s\<lparr>ls_pending := os_remove p (ls_pending s)\<rparr> in
     if ls_pending s = [] then thenS (complete_transition s) (\<lambda>s. (Inr True, s)) else (Inr False, s)"
  have def: "lc_acknowledge p observed c = lc_update ''acknowledge'' ?body c" by (simp add: lc_acknowledge_def)
  show ?thesis
  proof (cases "ls_phase ?s = sig_phase observed \<and> ls_revision ?s = sig_revision observed
      \<and> requires_acknowledgement (ls_phase ?s) \<and> List.member (ls_pending ?s) p")
    case False
    then show ?thesis unfolding def by (intro update_refused[OF ok log]) auto
  next
    case True
    then have here: "sig_phase observed = ls_phase ?s" "sig_revision observed = ls_revision ?s"
      and ack: "requires_acknowledgement (ls_phase ?s)" and mem: "p \<in> set (ls_pending ?s)"
      by (auto simp: List.member_iff)
    have wake: "ls_wake_target ?s = Running \<or> ls_wake_target ?s = Paused" and rev: "0 \<le> ls_revision ?s"
      using ok by (simp_all add: lifecycle_ok_def Let_def)
    obtain settled where settled: "settles (ls_wake_target ?s) (ls_phase ?s) = Some settled"
      using requires_settles[OF ack] by blast
    note facts = settles_done[OF settled wake]
    show ?thesis
    proof (cases "ls_pending ?s' = []")
      case last: True
      have complete: "complete_transition ?s' = (Inr (), ?s'\<lparr>ls_revision := ls_revision ?s + 1, ls_phase := settled, ls_pending := []\<rparr>)"
        using complete_transition_ok[of ?s' settled] settled rev room by simp
      have run: "?body ?s = (Inr True, ?s\<lparr>ls_revision := ls_revision ?s + 1, ls_phase := settled, ls_pending := []\<rparr>)"
        using here ack mem last complete by (simp add: thenS_def List.member_iff)
      have "is_ok (fst (lc_acknowledge p observed c))" unfolding def lc_update_def run by simp
      from entry[OF this] have "(p, ls_phase ?s, ls_revision ?s) \<in> log" unfolding here .
      moreover have "set (ls_pending ?s) \<subseteq> {p}" using last by (metis set_os_remove Diff_eq_empty_iff list.set(1) lifecycle_state.select_convs(4) lifecycle_state.update_convs(4) lifecycle_state.surjective)
      ultimately have all: "\<forall>q\<in>set (ls_participants ?s). (q, ls_phase ?s, ls_revision ?s) \<in> log"
        using log ack unfolding acknowledged_by_def by blast
      have fail: "settled \<in> {Failed, Stopping, Stopped} \<longleftrightarrow> ls_phase ?s = Stopping" using facts by (cases settled) auto
      have "ls_failure ?s \<noteq> None \<Longrightarrow> ls_phase ?s = Stopping" using ok ack by (auto simp: lifecycle_ok_def Let_def)
      then show ?thesis unfolding def lc_update_def run lc_effect_def using ok facts rev all settled fail
        by (auto simp: lifecycle_ok_def acknowledged_by_def Let_def)
    next
      case more: False
      then have run: "?body ?s = (Inr False, ?s')" using here ack mem by (simp add: List.member_iff)
      have "is_ok (fst (lc_acknowledge p observed c))" unfolding def lc_update_def run by simp
      from entry[OF this] have "(p, ls_phase ?s, ls_revision ?s) \<in> log" unfolding here .
      then have "acknowledged_by log ?s'" using log ack unfolding acknowledged_by_def by (cases "ls_phase ?s") auto
      then show ?thesis unfolding def lc_update_def run lc_effect_def using ok more ack
        by (auto simp: lifecycle_ok_def Let_def)
    qed
  qed
qed

lemma call_effect:
  assumes "lifecycle_ok c" "acknowledged_by log (lc_state c)" "ls_revision (lc_state c) + 2 \<le> MAX_REVISION"
  shows "lc_effect (log \<union> set (lc_acknowledged [call] c)) c (snd (lc_call call c))"
proof -
  have log: "acknowledged_by (log \<union> set (lc_acknowledged [call] c)) (lc_state c)"
    using assms(2) by (rule acknowledged_mono) blast
  show ?thesis
  proof (cases call)
    case (CallAcknowledge p observed)
    show ?thesis
    proof (cases "p \<in> set (ls_participants (lc_state c))")
      case True
      then have call: "lc_call call c = lc_acknowledge p observed c"
        by (simp add: CallAcknowledge lc_participant_def List.member_iff)
      show ?thesis unfolding call
        by (rule acknowledge_effect[OF assms(1) log assms(3) True]) (use call CallAcknowledge in simp)
    next
      case False
      then have "snd (lc_call call c) = c" by (simp add: CallAcknowledge lc_participant_def List.member_iff)
      then show ?thesis using effect_same[OF assms(1) log] by simp
    qed
  next
    case (CallFail p e)
    then show ?thesis using fail_effect[OF assms(1) log assms(3)] effect_same[OF assms(1) log]
      by (auto simp: lc_participant_def List.member_iff)
  qed (use request_effects[OF assms(1) log assms(3)] in simp_all)
qed

section \<open>Runs\<close>

lemma lc_acknowledged_Cons:
  "lc_acknowledged (call # calls) c = lc_acknowledged [call] c @ lc_acknowledged calls (snd (lc_call call c))"
  by (cases call) simp_all

lemma run_effect:
  "lifecycle_ok c \<Longrightarrow> acknowledged_by log (lc_state c) \<Longrightarrow> ls_revision (lc_state c) + 2 * int (length calls) \<le> MAX_REVISION
     \<Longrightarrow> lifecycle_ok (lc_run calls c) \<and> acknowledged_by (log \<union> set (lc_acknowledged calls c)) (lc_state (lc_run calls c))
       \<and> ls_participants (lc_state (lc_run calls c)) = ls_participants (lc_state c)
       \<and> ls_revision (lc_state c) \<le> ls_revision (lc_state (lc_run calls c))
       \<and> ls_revision (lc_state (lc_run calls c)) \<le> ls_revision (lc_state c) + 2 * int (length calls)
       \<and> (ls_revision (lc_state (lc_run calls c)) = ls_revision (lc_state c)
            \<longrightarrow> ls_phase (lc_state (lc_run calls c)) = ls_phase (lc_state c))"
proof (induction calls arbitrary: c log)
  case Nil
  then show ?case by simp
next
  case (Cons call calls)
  let ?c = "snd (lc_call call c)"
  have "ls_revision (lc_state c) + 2 \<le> MAX_REVISION" using Cons.prems(3) by simp
  from call_effect[OF Cons.prems(1,2) this, of call] have eff: "lifecycle_ok ?c"
    "acknowledged_by (log \<union> set (lc_acknowledged [call] c)) (lc_state ?c)"
    "ls_participants (lc_state ?c) = ls_participants (lc_state c)" "ls_revision (lc_state c) \<le> ls_revision (lc_state ?c)"
    "ls_revision (lc_state ?c) \<le> ls_revision (lc_state c) + 2"
    "ls_revision (lc_state ?c) = ls_revision (lc_state c) \<longrightarrow> ls_phase (lc_state ?c) = ls_phase (lc_state c)"
    by (simp_all add: lc_effect_def)
  have "ls_revision (lc_state ?c) + 2 * int (length calls) \<le> MAX_REVISION" using eff(5) Cons.prems(3) by simp
  note run = Cons.IH[OF eff(1,2) this]
  have log: "log \<union> set (lc_acknowledged (call # calls) c)
      = (log \<union> set (lc_acknowledged [call] c)) \<union> set (lc_acknowledged calls ?c)"
    by (subst lc_acknowledged_Cons) auto
  show ?case unfolding log lc_run.simps using run eff by (auto dest: order_antisym)
qed

lemma register_ok: "register registered ps = Inr r \<Longrightarrow> os_ok registered \<Longrightarrow> os_ok r"
  by (induction ps arbitrary: registered) (auto split: if_splits)

lemma lc_new_ok:
  assumes "lc_new participants = Inr c"
  shows "lifecycle_ok c" "acknowledged_by {} (lc_state c)" "ls_revision (lc_state c) = 0"
proof -
  obtain r where r: "register [] participants = Inr r" and c: "c = \<lparr>lc_state = \<lparr>ls_phase = (if r = [] then Running else Starting),
      ls_revision = 0, ls_participants = r, ls_pending = r, ls_wake_target = Running, ls_failure = None\<rparr>,
      lc_signal = encode_signal (if r = [] then Running else Starting) 0\<rparr>"
    using assms by (auto simp: lc_new_def result_simps Let_def split: if_splits)
  have "os_ok r" using register_ok[OF r] by simp
  then show "lifecycle_ok c" "ls_revision (lc_state c) = 0" by (auto simp: c lifecycle_ok_def)
  have "\<exists>ph wake. settles wake ph = Some Running" by (rule exI[of _ Starting]) simp
  then show "acknowledged_by {} (lc_state c)" by (auto simp: c acknowledged_by_def)
qed

section \<open>The properties\<close>

text \<open>
  C29: Every sequence of up to 2^55 requests, acknowledgements and failures keeps the coordinator
  consistent: the published word decodes to the phase and revision of the state, exactly the phases
  that need acknowledgement have someone pending, only registered names are pending, a failed
  lifecycle knows its failure, and the revision never decreases.
\<close>

theorem lifecycle_runs_consistent:
  assumes "lc_new participants = Inr c0" "2 * int (length calls) \<le> MAX_REVISION" "c = lc_run calls c0"
  shows "decode_signal (lc_signal c) = Some \<lparr>sig_phase = ls_phase (lc_state c), sig_revision = ls_revision (lc_state c)\<rparr>
    \<and> (requires_acknowledgement (ls_phase (lc_state c)) \<longleftrightarrow> ls_pending (lc_state c) \<noteq> [])
    \<and> set (ls_pending (lc_state c)) \<subseteq> set (ls_participants (lc_state c))
    \<and> (ls_phase (lc_state c) = Failed \<longrightarrow> ls_failure (lc_state c) \<noteq> None)
    \<and> (ls_failure (lc_state c) \<noteq> None \<longrightarrow> ls_phase (lc_state c) \<in> {Failed, Stopping, Stopped})
    \<and> 0 \<le> ls_revision (lc_state c) \<and> ls_revision (lc_state c) \<le> 2 * int (length calls)"
proof -
  have run: "lifecycle_ok c" "ls_revision (lc_state c) \<le> 2 * int (length calls)"
    using run_effect[OF lc_new_ok(1,2)[OF assms(1)], of calls] lc_new_ok(3)[OF assms(1)] assms(2,3) by auto
  then have "0 \<le> ls_revision (lc_state c)" "ls_revision (lc_state c) \<le> MAX_REVISION"
    using assms(2) by (auto simp: lifecycle_ok_def Let_def)
  from decode_encode_signal[OF this, of "ls_phase (lc_state c)"] run show ?thesis
    by (auto simp: lifecycle_ok_def Let_def)
qed

text \<open>
  C13: A lifecycle is only ever running, paused, asleep or stopped because every participant
  acknowledged the one transition that led there: the revision just before, in the phase that
  completes to it.
\<close>

theorem lifecycle_settles_by_everyone:
  assumes "lc_new participants = Inr c0" "2 * int (length calls) \<le> MAX_REVISION" "c = lc_run calls c0"
    and "ls_phase (lc_state c) \<in> {Running, Paused, Sleeping, Stopped}"
  shows "\<exists>ph wake. settles wake ph = Some (ls_phase (lc_state c))
    \<and> (\<forall>p\<in>set (ls_participants (lc_state c)). (p, ph, ls_revision (lc_state c) - 1) \<in> set (lc_acknowledged calls c0))"
proof -
  have "acknowledged_by (set (lc_acknowledged calls c0)) (lc_state c)"
    using run_effect[OF lc_new_ok(1,2)[OF assms(1)], of calls] lc_new_ok(3)[OF assms(1)] assms(2,3) by auto
  then show ?thesis using assms(4) unfolding acknowledged_by_def by blast
qed

text \<open>
  An acknowledgement made for a transition that has been superseded is refused, retryably, and
  changes nothing: whatever happened since the signal was read, if the signal differs now the
  observation no longer counts.
\<close>

theorem lifecycle_refuses_stale:
  assumes "lc_new participants = Inr c0" "2 * int (length before + length since) \<le> MAX_REVISION"
    and "c = lc_run before c0" "decode_signal (lc_signal c) = Some observed"
    and "c' = lc_run since c" "lc_signal c' \<noteq> lc_signal c" "p \<in> set (ls_participants (lc_state c'))"
  shows "\<exists>e. lc_call (CallAcknowledge p observed) c' = (Inl e, c') \<and> err_category e = Conflict \<and> err_recoverability e = Retryable"
proof -
  have run: "lifecycle_ok c" "ls_revision (lc_state c) \<le> 2 * int (length before)"
    "acknowledged_by (set (lc_acknowledged before c0)) (lc_state c)"
    using run_effect[OF lc_new_ok(1,2)[OF assms(1)], of before] lc_new_ok(3)[OF assms(1)] assms(2,3) by auto
  then have range: "0 \<le> ls_revision (lc_state c)" "ls_revision (lc_state c) \<le> MAX_REVISION"
    using assms(2) by (auto simp: lifecycle_ok_def Let_def)
  have signal: "lc_signal c = encode_signal (ls_phase (lc_state c)) (ls_revision (lc_state c))"
    using run(1) by (simp add: lifecycle_ok_def Let_def)
  have observed: "observed = \<lparr>sig_phase = ls_phase (lc_state c), sig_revision = ls_revision (lc_state c)\<rparr>"
    using decode_encode_signal[OF range, of "ls_phase (lc_state c)"] assms(4) signal by simp
  have since: "lifecycle_ok c'" "ls_revision (lc_state c') = ls_revision (lc_state c) \<longrightarrow> ls_phase (lc_state c') = ls_phase (lc_state c)"
    using run_effect[OF run(1,3), of since] run(2) assms(2,5) by auto
  then have "ls_revision (lc_state c') \<noteq> ls_revision (lc_state c)"
    using assms(6) signal by (auto simp: lifecycle_ok_def Let_def)
  then show ?thesis using assms(7)
    by (simp add: lc_participant_def List.member_iff lc_acknowledge_def lc_update_def observed
        stale_acknowledgement_def lifecycle_error_def err_with_context_def)
qed

lemma acknowledge_all:
  "lifecycle_ok c \<Longrightarrow> ls_revision (lc_state c) + 1 \<le> MAX_REVISION
     \<Longrightarrow> settles (ls_wake_target (lc_state c)) (ls_phase (lc_state c)) = Some settled
     \<Longrightarrow> observed = \<lparr>sig_phase = ls_phase (lc_state c), sig_revision = ls_revision (lc_state c)\<rparr>
     \<Longrightarrow> set (ls_pending (lc_state c)) \<subseteq> set ps \<Longrightarrow> set (ls_pending (lc_state c)) \<noteq> {}
     \<Longrightarrow> let c' = lc_run (map (\<lambda>p. CallAcknowledge p observed) ps) c
       in ls_phase (lc_state c') = settled \<and> ls_pending (lc_state c') = [] \<and> ls_revision (lc_state c') = ls_revision (lc_state c) + 1"
proof (induction ps arbitrary: c)
  case Nil
  then show ?case by simp
next
  case (Cons p ps)
  let ?s = "lc_state c"
  have ack: "requires_acknowledgement (ls_phase ?s)" using Cons.prems(1,6) by (auto simp: lifecycle_ok_def Let_def)
  have rev: "0 \<le> ls_revision ?s" using Cons.prems(1) by (simp add: lifecycle_ok_def Let_def)
  show ?case
  proof (cases "p \<in> set (ls_pending ?s)")
    case False
    then have "snd (lc_call (CallAcknowledge p observed) c) = c"
      using Cons.prems(4) ack by (auto simp: lc_participant_def lc_acknowledge_def lc_update_def List.member_iff)
    moreover have "set (ls_pending ?s) \<subseteq> set ps" using Cons.prems(5) False by auto
    ultimately show ?thesis using Cons.IH[OF Cons.prems(1-4) _ Cons.prems(6)] by simp
  next
    case True
    then have part: "p \<in> set (ls_participants ?s)" using Cons.prems(1) by (auto simp: lifecycle_ok_def Let_def)
    let ?s' = "?s\<lparr>ls_pending := os_remove p (ls_pending ?s)\<rparr>"
    show ?thesis
    proof (cases "os_remove p (ls_pending ?s) = []")
      case last: True
      let ?c = "snd (lc_call (CallAcknowledge p observed) c)"
      have "complete_transition ?s' = (Inr (), ?s'\<lparr>ls_revision := ls_revision ?s + 1, ls_phase := settled, ls_pending := []\<rparr>)"
        using complete_transition_ok[of ?s' settled] Cons.prems(2,3) rev by simp
      then have c: "lc_state ?c = ?s\<lparr>ls_revision := ls_revision ?s + 1, ls_phase := settled, ls_pending := []\<rparr>"
        using True part last Cons.prems(4) ack
        by (simp add: lc_participant_def lc_acknowledge_def lc_update_def List.member_iff thenS_def Let_def)
      have stale: "lc_state (lc_run (map (\<lambda>p. CallAcknowledge p observed) qs) d) = lc_state d"
        if "ls_revision (lc_state d) \<noteq> sig_revision observed" for qs d
        using that
      proof (induction qs arbitrary: d)
        case (Cons q qs)
        have "lc_state (snd (lc_call (CallAcknowledge q observed) d)) = lc_state d"
          using Cons.prems by (auto simp: lc_participant_def lc_acknowledge_def lc_update_def)
        then show ?case using Cons.IH[of "snd (lc_call (CallAcknowledge q observed) d)"] Cons.prems by simp
      qed simp
      have "lc_state (lc_run (map (\<lambda>p. CallAcknowledge p observed) ps) ?c) = lc_state ?c"
        by (rule stale) (unfold c, simp add: Cons.prems(4))
      then show ?thesis by (simp add: c del: lc_call.simps)
    next
      case more: False
      let ?c = "snd (lc_call (CallAcknowledge p observed) c)"
      have c: "?c = c\<lparr>lc_state := ?s'\<rparr>"
        using True part more Cons.prems(4) ack
        by (simp add: lc_participant_def lc_acknowledge_def lc_update_def List.member_iff)
      have same: "ls_revision (lc_state ?c) = ls_revision ?s" "ls_phase (lc_state ?c) = ls_phase ?s"
        "ls_wake_target (lc_state ?c) = ls_wake_target ?s" "ls_pending (lc_state ?c) = os_remove p (ls_pending ?s)"
        unfolding c by simp_all
      have ok: "lifecycle_ok ?c" unfolding c using Cons.prems(1) more True by (auto simp: lifecycle_ok_def Let_def)
      have sub: "set (os_remove p (ls_pending ?s)) \<subseteq> set ps" using Cons.prems(5) by auto
      have ne: "set (os_remove p (ls_pending ?s)) \<noteq> {}" using more by (simp del: set_os_remove)
      show ?thesis using Cons.IH[of ?c, unfolded same, OF ok Cons.prems(2-4) sub ne] by (simp del: lc_call.simps)
    qed
  qed
qed

text \<open>
  C39: A transition completes once everyone has answered it: if each pending participant acknowledges
  the published signal, in any order, with any repetition and whoever else answers too, the phase
  settles and nobody is pending.
\<close>

theorem lifecycle_transition_completes:
  assumes "lc_new participants = Inr c0" "2 * int (length calls) < MAX_REVISION" "c = lc_run calls c0"
    and "settles (ls_wake_target (lc_state c)) (ls_phase (lc_state c)) = Some settled"
    and "decode_signal (lc_signal c) = Some observed" "set (ls_pending (lc_state c)) \<subseteq> set ps"
  shows "let c' = lc_run (map (\<lambda>p. CallAcknowledge p observed) ps) c
    in ls_phase (lc_state c') = settled \<and> ls_pending (lc_state c') = [] \<and> ls_revision (lc_state c') = ls_revision (lc_state c) + 1"
proof -
  have run: "lifecycle_ok c" "ls_revision (lc_state c) \<le> 2 * int (length calls)"
    using run_effect[OF lc_new_ok(1,2)[OF assms(1)], of calls] lc_new_ok(3)[OF assms(1)] assms(2,3) by auto
  then have range: "0 \<le> ls_revision (lc_state c)" "ls_revision (lc_state c) + 1 \<le> MAX_REVISION"
    using assms(2) by (auto simp: lifecycle_ok_def Let_def)
  have "lc_signal c = encode_signal (ls_phase (lc_state c)) (ls_revision (lc_state c))"
    using run(1) by (simp add: lifecycle_ok_def Let_def)
  then have observed: "observed = \<lparr>sig_phase = ls_phase (lc_state c), sig_revision = ls_revision (lc_state c)\<rparr>"
    using decode_encode_signal[of "ls_revision (lc_state c)" "ls_phase (lc_state c)"] range assms(5) by simp
  have "requires_acknowledgement (ls_phase (lc_state c))" using assms(4) by (cases "ls_phase (lc_state c)") simp_all
  then have "set (ls_pending (lc_state c)) \<noteq> {}" using run(1) by (simp add: lifecycle_ok_def Let_def)
  then show ?thesis by (rule acknowledge_all[OF run(1) range(2) assms(4) observed assms(6)])
qed

section \<open>Witnesses\<close>

definition two_parts :: coordinator where
  "two_parts = \<lparr>lc_state = \<lparr>ls_phase = Starting, ls_revision = 0, ls_participants = [''audio'', ''graph''],
     ls_pending = [''audio'', ''graph''], ls_wake_target = Running, ls_failure = None\<rparr>, lc_signal = 0\<rparr>"

definition started_calls :: "lifecycle_call list" where
  "started_calls = [CallAcknowledge ''graph'' \<lparr>sig_phase = Starting, sig_revision = 0\<rparr>,
     CallAcknowledge ''audio'' \<lparr>sig_phase = Starting, sig_revision = 0\<rparr>]"

lemma two_parts_new: "lc_new [''graph'', ''audio''] = Inr two_parts"
  by code_simp

theorem lifecycle_runs_consistent_witness:
  "decode_signal (lc_signal (lc_run started_calls two_parts)) = Some \<lparr>sig_phase = Running, sig_revision = 1\<rparr>"
proof -
  have "2 * int (length started_calls) \<le> MAX_REVISION" by (simp add: started_calls_def MAX_REVISION_value)
  from lifecycle_runs_consistent[OF two_parts_new this refl]
  have "decode_signal (lc_signal (lc_run started_calls two_parts))
      = Some \<lparr>sig_phase = ls_phase (lc_state (lc_run started_calls two_parts)), sig_revision = ls_revision (lc_state (lc_run started_calls two_parts))\<rparr>"
    by blast
  moreover have "ls_phase (lc_state (lc_run started_calls two_parts)) = Running"
    "ls_revision (lc_state (lc_run started_calls two_parts)) = 1" by code_simp+
  ultimately show ?thesis by simp
qed

theorem lifecycle_settles_by_everyone_witness:
  "\<exists>ph. (''graph'', ph, 0) \<in> set (lc_acknowledged started_calls two_parts)"
proof -
  have "2 * int (length started_calls) \<le> MAX_REVISION" by (simp add: started_calls_def MAX_REVISION_value)
  moreover have here: "ls_phase (lc_state (lc_run started_calls two_parts)) = Running"
    "ls_revision (lc_state (lc_run started_calls two_parts)) = 1"
    "ls_participants (lc_state (lc_run started_calls two_parts)) = [''audio'', ''graph'']" by code_simp+
  ultimately obtain ph where
    "\<forall>p\<in>set [''audio'', ''graph'']. (p, ph, 1 - 1) \<in> set (lc_acknowledged started_calls two_parts)"
    using lifecycle_settles_by_everyone[OF two_parts_new _ refl, of started_calls] unfolding here by auto
  then show ?thesis by auto
qed

theorem lifecycle_refuses_stale_witness:
  "\<exists>e. lc_call (CallAcknowledge ''graph'' \<lparr>sig_phase = Starting, sig_revision = 0\<rparr>) (lc_run [CallPause] two_parts)
     = (Inl e, lc_run [CallPause] two_parts) \<and> err_recoverability e = Retryable"
proof -
  have "2 * int (length [] + length [CallPause]) \<le> MAX_REVISION" by (simp add: MAX_REVISION_value)
  moreover have "decode_signal (lc_signal two_parts) = Some \<lparr>sig_phase = Starting, sig_revision = 0\<rparr>"
    "lc_signal (lc_run [CallPause] two_parts) \<noteq> lc_signal two_parts"
    "''graph'' \<in> set (ls_participants (lc_state (lc_run [CallPause] two_parts)))" by code_simp+
  ultimately show ?thesis
    using lifecycle_refuses_stale[OF two_parts_new, of "[]" "[CallPause]" two_parts _ _ "''graph''"] by auto
qed

theorem lifecycle_transition_completes_witness:
  "ls_phase (lc_state (lc_run (map (\<lambda>p. CallAcknowledge p \<lparr>sig_phase = Waking, sig_revision = 1\<rparr>) [''graph'', ''graph'', ''audio''])
     (lc_run [CallWake] two_parts))) = Running"
proof -
  have "2 * int (length [CallWake]) < MAX_REVISION" by (simp add: MAX_REVISION_value)
  moreover have "settles (ls_wake_target (lc_state (lc_run [CallWake] two_parts))) (ls_phase (lc_state (lc_run [CallWake] two_parts))) = Some Running"
    "decode_signal (lc_signal (lc_run [CallWake] two_parts)) = Some \<lparr>sig_phase = Waking, sig_revision = 1\<rparr>"
    "ls_pending (lc_state (lc_run [CallWake] two_parts)) = [''audio'', ''graph'']" by code_simp+
  ultimately show ?thesis
    using lifecycle_transition_completes[OF two_parts_new _ refl, of "[CallWake]" Running _ "[''graph'', ''graph'', ''audio'']"]
    by (simp add: Let_def del: lc_run.simps list.map)
qed

end
