(* ===== verification/Markers.thy ===== *)
theory Markers
  imports Model "HOL-Library.Product_Lexorder"
begin

text \<open>
  \<open>superi-timeline/src/markers.rs\<close>: typed metadata, markers on a timeline, a track or a timed
  object, and snapping. Labels and notes are UTF-8 bytes. A finite float is its 64 bits: without
  the signs of zero and the values that are no numbers, equality of floats is equality of bits.
\<close>

section \<open>Errors\<close>

definition marker_invalid :: "string \<Rightarrow> string \<Rightarrow> error_value" where
  "marker_invalid operation message =
     err_with_context (err_new InvalidInput UserCorrectable message) (ctx_new ''superi-timeline.markers'' operation)"

definition marker_not_found :: "string \<Rightarrow> string \<Rightarrow> string \<Rightarrow> string \<Rightarrow> error_value" where
  "marker_not_found operation message field val =
     err_with_context (err_new NotFound UserCorrectable message)
       (ctx_with_field (ctx_new ''superi-timeline.markers'' operation) field val)"

definition marker_conflict :: "string \<Rightarrow> string \<Rightarrow> string \<Rightarrow> string \<Rightarrow> error_value" where
  "marker_conflict operation message field val =
     err_with_context (err_new Conflict UserCorrectable message)
       (ctx_with_field (ctx_new ''superi-timeline.markers'' operation) field val)"

lemma marker_error_cong [cong]:
  "marker_invalid operation message = marker_invalid operation message"
  "marker_not_found operation message field val = marker_not_found operation message field val"
  "marker_conflict operation message field val = marker_conflict operation message field val"
  by (rule refl)+

section \<open>Owners and metadata\<close>

datatype marker_owner = OwnerTimeline | OwnerTrack track_id | OwnerObject editorial_object_id

datatype metadata_owner = MetaTimeline | MetaTrack track_id | MetaObject editorial_object_id | MetaMarker marker_id

fun metadata_owner_rank :: "metadata_owner \<Rightarrow> nat \<times> nat \<times> 128 word" where
  "metadata_owner_rank MetaTimeline = (0, 0, 0)"
| "metadata_owner_rank (MetaTrack x) = (1, 0, raw_id x)"
| "metadata_owner_rank (MetaObject x) = (2, object_rank x)"
| "metadata_owner_rank (MetaMarker x) = (3, 0, raw_id x)"

lemma metadata_owner_rank_inj: "metadata_owner_rank x = metadata_owner_rank y \<longleftrightarrow> x = y"
  by (cases x; cases y) (auto simp: object_rank_inj intro: typed_id.expand)

instantiation metadata_owner :: linorder
begin

definition less_eq_metadata_owner :: "metadata_owner \<Rightarrow> metadata_owner \<Rightarrow> bool" where
  "less_eq_metadata_owner x y \<longleftrightarrow> metadata_owner_rank x \<le> metadata_owner_rank y"

definition less_metadata_owner :: "metadata_owner \<Rightarrow> metadata_owner \<Rightarrow> bool" where
  "less_metadata_owner x y \<longleftrightarrow> metadata_owner_rank x < metadata_owner_rank y"

instance
  by standard
    (auto simp: less_eq_metadata_owner_def less_metadata_owner_def metadata_owner_rank_inj[symmetric] less_le_not_le)

end

text \<open>What the derived \<open>Debug\<close> prints of an owner.\<close>

fun object_debug :: "editorial_object_id \<Rightarrow> string" where
  "object_debug (OClip x) = ''Clip(ClipId('' @ id_display ClipKind x @ ''))''"
| "object_debug (OGap x) = ''Gap(GapId('' @ id_display GapKind x @ ''))''"
| "object_debug (OTransition x) = ''Transition(TransitionId('' @ id_display TransitionKind x @ ''))''"
| "object_debug (OGenerator x) = ''Generator(GeneratorId('' @ id_display GeneratorKind x @ ''))''"
| "object_debug (OCaption x) = ''Caption(CaptionId('' @ id_display CaptionKind x @ ''))''"

fun metadata_owner_debug :: "metadata_owner \<Rightarrow> string" where
  "metadata_owner_debug MetaTimeline = ''Timeline''"
| "metadata_owner_debug (MetaTrack x) = ''Track(TrackId('' @ id_display TrackKind x @ ''))''"
| "metadata_owner_debug (MetaObject x) = ''Object('' @ object_debug x @ '')''"
| "metadata_owner_debug (MetaMarker x) = ''Marker(MarkerId('' @ id_display MarkerKind x @ ''))''"

text \<open>A key is a byte string; the constructor admits a canonical alphabet.\<close>

definition key_byte :: "char \<Rightarrow> bool" where
  "key_byte c \<longleftrightarrow> (let b = (of_char c :: nat) in
     48 \<le> b \<and> b \<le> 57 \<or> 65 \<le> b \<and> b \<le> 90 \<or> 97 \<le> b \<and> b \<le> 122 \<or> c = CHR ''.'' \<or> c = CHR ''_'' \<or> c = CHR ''-'' \<or> c = CHR '':'')"

definition metadata_key_new :: "string \<Rightarrow> string result" where
  "metadata_key_new val =
     (if val = [] \<or> \<not> is_trimmed val \<or> \<not> list_all key_byte val
      then Inl (marker_invalid ''create_metadata_key'' ''metadata key must be nonblank canonical ASCII without whitespace'')
      else Inr val)"

datatype metadata_value =
    MetaNull
  | MetaBoolean bool
  | MetaSigned int
  | MetaUnsigned int
  | MetaFloat "64 word"
  | MetaText string
  | MetaTime rational_time
  | MetaRange time_range
  | MetaList "metadata_value list"
  | MetaMap "(string \<times> metadata_value) list"

type_synonym timeline_metadata = "(string \<times> metadata_value) list"

text \<open>Equality of values: times compare as physical times.\<close>

fun mv_eq :: "metadata_value \<Rightarrow> metadata_value \<Rightarrow> bool"
  and mv_list_eq :: "metadata_value list \<Rightarrow> metadata_value list \<Rightarrow> bool"
  and md_eq :: "timeline_metadata \<Rightarrow> timeline_metadata \<Rightarrow> bool" where
  "mv_eq MetaNull v = (v = MetaNull)"
| "mv_eq (MetaBoolean a) v = (v = MetaBoolean a)"
| "mv_eq (MetaSigned a) v = (v = MetaSigned a)"
| "mv_eq (MetaUnsigned a) v = (v = MetaUnsigned a)"
| "mv_eq (MetaFloat a) v = (v = MetaFloat a)"
| "mv_eq (MetaText a) v = (v = MetaText a)"
| "mv_eq (MetaTime a) v = (case v of MetaTime b \<Rightarrow> rt_eq a b | _ \<Rightarrow> False)"
| "mv_eq (MetaRange a) v = (case v of MetaRange b \<Rightarrow> tr_eq a b | _ \<Rightarrow> False)"
| "mv_eq (MetaList as) v = (case v of MetaList bs \<Rightarrow> mv_list_eq as bs | _ \<Rightarrow> False)"
| "mv_eq (MetaMap m) v = (case v of MetaMap n \<Rightarrow> md_eq m n | _ \<Rightarrow> False)"
| "mv_list_eq [] bs = (bs = [])"
| "mv_list_eq (a # as) bs = (case bs of [] \<Rightarrow> False | b # bs \<Rightarrow> mv_eq a b \<and> mv_list_eq as bs)"
| "md_eq [] n = (n = [])"
| "md_eq ((k, a) # m) n = (case n of [] \<Rightarrow> False | (l, b) # n \<Rightarrow> k = l \<and> mv_eq a b \<and> md_eq m n)"

definition md_from_entries :: "(string \<times> metadata_value) list \<Rightarrow> timeline_metadata" where
  "md_from_entries entries = fold (\<lambda>(k, v) m. om_insert k v m) entries []"

section \<open>Markers\<close>

definition marker_label_new :: "string \<Rightarrow> string result" where
  "marker_label_new val =
     (if is_blank val \<or> has_control val
      then Inl (marker_invalid ''create_marker_label'' ''marker label must be nonblank visible text'') else Inr val)"

definition marker_note_new :: "string \<Rightarrow> string result" where
  "marker_note_new val =
     (if is_blank val \<or> List.member val (char_of (0 :: nat))
      then Inl (marker_invalid ''create_marker_note'' ''marker note must be nonblank text without null bytes'') else Inr val)"

datatype marker_flag = RedFlag | PinkFlag | OrangeFlag | YellowFlag | GreenFlag | CyanFlag | BlueFlag | PurpleFlag
  | MagentaFlag | BlackFlag | WhiteFlag

definition marker_flag_all :: "marker_flag list" where
  "marker_flag_all = [RedFlag, PinkFlag, OrangeFlag, YellowFlag, GreenFlag, CyanFlag, BlueFlag, PurpleFlag,
     MagentaFlag, BlackFlag, WhiteFlag]"

fun marker_flag_code :: "marker_flag \<Rightarrow> string" where
  "marker_flag_code RedFlag = ''red''"
| "marker_flag_code PinkFlag = ''pink''"
| "marker_flag_code OrangeFlag = ''orange''"
| "marker_flag_code YellowFlag = ''yellow''"
| "marker_flag_code GreenFlag = ''green''"
| "marker_flag_code CyanFlag = ''cyan''"
| "marker_flag_code BlueFlag = ''blue''"
| "marker_flag_code PurpleFlag = ''purple''"
| "marker_flag_code MagentaFlag = ''magenta''"
| "marker_flag_code BlackFlag = ''black''"
| "marker_flag_code WhiteFlag = ''white''"

definition marker_flag_from_code :: "string \<Rightarrow> marker_flag option" where
  "marker_flag_from_code code = find (\<lambda>flag. marker_flag_code flag = code) marker_flag_all"

interpretation marker_flag_codes: code_table marker_flag_code marker_flag_from_code marker_flag_all
proof
  fix x y :: marker_flag and s :: string
  show "marker_flag_from_code (marker_flag_code x) = Some x"
    by (cases x) (simp_all add: marker_flag_from_code_def marker_flag_all_def)
  show "marker_flag_from_code s = Some y \<Longrightarrow> marker_flag_code y = s"
    by (auto simp: marker_flag_from_code_def find_Some_iff)
  show "x \<in> set marker_flag_all" by (cases x) (simp_all add: marker_flag_all_def)
qed

record marker =
  mk_id :: marker_id
  mk_owner :: marker_owner
  mk_marked_range :: time_range
  mk_label :: "string option"
  mk_flag :: "marker_flag option"
  mk_note :: "string option"
  mk_metadata :: timeline_metadata

definition mk_new :: "marker_id \<Rightarrow> marker_owner \<Rightarrow> time_range \<Rightarrow> marker result" where
  "mk_new ident owner marked_range =
     (if rt_is_negative (tr_start marked_range)
      then Inl (marker_invalid ''create_marker'' ''marker range must not start before its owner zero'')
      else Inr \<lparr>mk_id = ident, mk_owner = owner, mk_marked_range = marked_range, mk_label = None, mk_flag = None,
             mk_note = None, mk_metadata = []\<rparr>)"

definition mk_set_marked_range :: "marker \<Rightarrow> time_range \<Rightarrow> marker result" where
  "mk_set_marked_range m marked_range =
     (if rt_is_negative (tr_start marked_range)
      then Inl (marker_invalid ''set_marker_range'' ''marker range must not start before its owner zero'')
      else Inr (m\<lparr>mk_marked_range := marked_range\<rparr>))"

record timeline_annotations =
  ta_snapping_enabled :: bool
  ta_markers :: "(marker_id \<times> marker) list"
  ta_metadata :: "(metadata_owner \<times> timeline_metadata) list"

definition ta_default :: timeline_annotations where
  "ta_default = \<lparr>ta_snapping_enabled = True, ta_markers = [], ta_metadata = []\<rparr>"

section \<open>Owners on a timeline\<close>

definition find_object :: "track list \<Rightarrow> editorial_object_id \<Rightarrow> (track \<times> track_item) option" where
  "find_object tracks ident = find_map (\<lambda>t. map_option (Pair t) (tk_item t ident)) tracks"

definition owner_clock :: "marker_owner \<Rightarrow> timebase \<Rightarrow> track list \<Rightarrow> timebase option" where
  "owner_clock owner edit_rate tracks =
     (case owner of
        OwnerTimeline \<Rightarrow> Some edit_rate
      | OwnerTrack track_id \<Rightarrow>
          map_option (\<lambda>t. ts_timebase (tk_semantics t)) (find (\<lambda>t. tk_id t = track_id) tracks)
      | OwnerObject object \<Rightarrow>
          Option.bind (find_object tracks object) (\<lambda>(t, item).
            map_option (\<lambda>_. ts_timebase (tk_semantics t)) (item_record_range item)))"

definition marker_owner_exists :: "marker_owner \<Rightarrow> track list \<Rightarrow> bool" where
  "marker_owner_exists owner tracks =
     (case owner of
        OwnerTimeline \<Rightarrow> True
      | OwnerTrack track_id \<Rightarrow> list_ex (\<lambda>t. tk_id t = track_id) tracks
      | OwnerObject object \<Rightarrow> find_object tracks object \<noteq> None)"

definition metadata_owner_exists :: "metadata_owner \<Rightarrow> track list \<Rightarrow> (marker_id \<times> marker) list \<Rightarrow> bool" where
  "metadata_owner_exists owner tracks markers =
     (case owner of
        MetaTimeline \<Rightarrow> True
      | MetaTrack track_id \<Rightarrow> list_ex (\<lambda>t. tk_id t = track_id) tracks
      | MetaObject object \<Rightarrow> find_object tracks object \<noteq> None
      | MetaMarker marker_id \<Rightarrow> om_has markers marker_id)"

definition validate_metadata_owner :: "metadata_owner \<Rightarrow> track list \<Rightarrow> (marker_id \<times> marker) list \<Rightarrow> unit result" where
  "validate_metadata_owner owner tracks markers =
     (if metadata_owner_exists owner tracks markers then Inr ()
      else Inl (marker_not_found ''validate_metadata_owner'' ''metadata owner was not found'' ''owner''
             (metadata_owner_debug owner)))"

definition validate_marker :: "marker \<Rightarrow> timebase \<Rightarrow> track list \<Rightarrow> unit result" where
  "validate_marker m edit_rate tracks =
     bindR (ok_or (owner_clock (mk_owner m) edit_rate tracks)
       (marker_not_found ''validate_marker'' ''marker owner was not found'' ''marker'' (id_display MarkerKind (mk_id m)))) (\<lambda>clock.
     if tr_timebase (mk_marked_range m) \<noteq> clock
     then Inl (marker_invalid ''validate_marker'' ''marker range must use its owner's exact record clock'')
     else if rt_is_negative (tr_start (mk_marked_range m))
     then Inl (marker_invalid ''validate_marker'' ''marker range must not start before its owner zero'')
     else Inr ())"

text \<open>The range on the timeline; \<open>None\<close> when the marked range no longer fits its object.\<close>

definition resolve_marker_range :: "marker \<Rightarrow> timebase \<Rightarrow> track list \<Rightarrow> (time_range option) result option" where
  "resolve_marker_range m edit_rate tracks =
     bindP (Some (validate_marker m edit_rate tracks)) (\<lambda>_.
     case mk_owner m of
       OwnerTimeline \<Rightarrow> Some (Inr (Some (mk_marked_range m)))
     | OwnerTrack _ \<Rightarrow> Some (Inr (Some (mk_marked_range m)))
     | OwnerObject object \<Rightarrow>
         (case find_object tracks object of
            None \<Rightarrow> None
          | Some (_, item) \<Rightarrow> Some (
              bindR (ok_or (item_record_range item)
                (marker_invalid ''resolve_marker_range'' ''object marker owner must have a record range'')) (\<lambda>record_range.
              bindR (tr_end_exclusive (mk_marked_range m)) (\<lambda>marked_end.
              if rt_value marked_end
                 > (case checked_i64 (du_value (tr_duration record_range)) of None \<Rightarrow> 2 ^ 63 - 1 | Some v \<Rightarrow> v)
              then Inr None
              else
              bindR (rt_checked_add_at (tr_start record_range) (tr_start (mk_marked_range m)) (tr_timebase record_range)
                RoundExact) (\<lambda>start.
              bindR (tr_new start (tr_duration (mk_marked_range m))) (\<lambda>r. Inr (Some r))))))))"

section \<open>Annotations\<close>

definition ta_set_snapping_enabled :: "timeline_annotations \<Rightarrow> bool \<Rightarrow> timeline_annotations" where
  "ta_set_snapping_enabled a enabled = a\<lparr>ta_snapping_enabled := enabled\<rparr>"

text \<open>The mutable borrow of a marker: the client replaces it by \<open>f\<close> of itself.\<close>

definition ta_marker_mut :: "timeline_annotations \<Rightarrow> marker_id \<Rightarrow> (marker \<Rightarrow> marker) \<Rightarrow> timeline_annotations result" where
  "ta_marker_mut a ident f =
     (if om_has (ta_markers a) ident
      then Inr (a\<lparr>ta_markers := om_update ident f (ta_markers a)\<rparr>)
      else Inl (marker_not_found ''find_marker'' ''editorial marker was not found'' ''marker'' (id_display MarkerKind ident)))"

definition ta_upsert_marker ::
  "timeline_annotations \<Rightarrow> marker \<Rightarrow> timebase \<Rightarrow> track list \<Rightarrow> (marker option \<times> timeline_annotations) result" where
  "ta_upsert_marker a m edit_rate tracks =
     bindR (validate_marker m edit_rate tracks) (\<lambda>_.
       Inr (map_of (ta_markers a) (mk_id m), a\<lparr>ta_markers := om_insert (mk_id m) m (ta_markers a)\<rparr>))"

definition ta_remove_marker :: "timeline_annotations \<Rightarrow> marker_id \<Rightarrow> marker option \<times> timeline_annotations" where
  "ta_remove_marker a ident = (map_of (ta_markers a) ident, a\<lparr>ta_markers := om_remove ident (ta_markers a)\<rparr>)"

definition ta_set_metadata ::
  "timeline_annotations \<Rightarrow> metadata_owner \<Rightarrow> timeline_metadata \<Rightarrow> track list
     \<Rightarrow> (timeline_metadata option \<times> timeline_annotations) result option" where
  "ta_set_metadata a owner metadata tracks =
     bindP (Some (validate_metadata_owner owner tracks (ta_markers a))) (\<lambda>_.
     case owner of
       MetaMarker ident \<Rightarrow>
         (case map_of (ta_markers a) ident of
            None \<Rightarrow> None
          | Some m \<Rightarrow> Some (Inr (Some (mk_metadata m),
              a\<lparr>ta_markers := om_update ident (mk_metadata_update (\<lambda>_. metadata)) (ta_markers a)\<rparr>)))
     | _ \<Rightarrow> Some (Inr (map_of (ta_metadata a) owner, a\<lparr>ta_metadata := om_insert owner metadata (ta_metadata a)\<rparr>)))"

definition ta_get_metadata :: "timeline_annotations \<Rightarrow> metadata_owner \<Rightarrow> timeline_metadata option" where
  "ta_get_metadata a owner =
     (case owner of
        MetaMarker ident \<Rightarrow> map_option mk_metadata (map_of (ta_markers a) ident)
      | _ \<Rightarrow> map_of (ta_metadata a) owner)"

definition ta_remove_metadata ::
  "timeline_annotations \<Rightarrow> metadata_owner \<Rightarrow> timeline_metadata option \<times> timeline_annotations" where
  "ta_remove_metadata a owner =
     (case owner of
        MetaMarker ident \<Rightarrow> (map_option mk_metadata (map_of (ta_markers a) ident),
          a\<lparr>ta_markers := om_update ident (mk_metadata_update (\<lambda>_. [])) (ta_markers a)\<rparr>)
      | _ \<Rightarrow> (map_of (ta_metadata a) owner, a\<lparr>ta_metadata := om_remove owner (ta_metadata a)\<rparr>))"

definition ta_resolved_marker_range ::
  "timeline_annotations \<Rightarrow> marker_id \<Rightarrow> timebase \<Rightarrow> track list \<Rightarrow> (time_range option) result option" where
  "ta_resolved_marker_range a ident edit_rate tracks =
     (case map_of (ta_markers a) ident of
        None \<Rightarrow> Some (Inl (marker_not_found ''resolve_marker_range'' ''editorial marker was not found'' ''marker''
          (id_display MarkerKind ident)))
      | Some m \<Rightarrow> resolve_marker_range m edit_rate tracks)"

definition ta_reconcile :: "timeline_annotations \<Rightarrow> track list \<Rightarrow> timeline_annotations" where
  "ta_reconcile a tracks =
     (let markers = filter (\<lambda>(_, m). marker_owner_exists (mk_owner m) tracks) (ta_markers a) in
      a\<lparr>ta_markers := markers,
        ta_metadata := filter (\<lambda>(owner, _). metadata_owner_exists owner tracks markers) (ta_metadata a)\<rparr>)"

text \<open>The identities seen so far, over all timelines of the project, are threaded through.\<close>

fun validate_markers :: "timebase \<Rightarrow> track list \<Rightarrow> marker list \<Rightarrow> marker_id set \<Rightarrow> (marker_id set) result" where
  "validate_markers edit_rate tracks [] ids = Inr ids"
| "validate_markers edit_rate tracks (m # ms) ids =
     (if mk_id m \<in> ids
      then Inl (marker_conflict ''validate_markers'' ''duplicate marker identity'' ''marker'' (id_display MarkerKind (mk_id m)))
      else bindR (validate_marker m edit_rate tracks) (\<lambda>_. validate_markers edit_rate tracks ms (insert (mk_id m) ids)))"

definition ta_validate :: "timeline_annotations \<Rightarrow> timebase \<Rightarrow> track list \<Rightarrow> marker_id set \<Rightarrow> (marker_id set) result" where
  "ta_validate a edit_rate tracks ids =
     bindR (validate_markers edit_rate tracks (map snd (ta_markers a)) ids) (\<lambda>ids.
     bindR (traverse (\<lambda>owner. validate_metadata_owner owner tracks (ta_markers a)) (map fst (ta_metadata a))) (\<lambda>_. Inr ids))"

section \<open>Snapping\<close>

datatype snap_target_kind = SnapTimelineStart | SnapPlayhead | SnapItemStart | SnapItemEnd | SnapMarkerStart | SnapMarkerEnd

definition snap_target_kind_all :: "snap_target_kind list" where
  "snap_target_kind_all = [SnapTimelineStart, SnapPlayhead, SnapItemStart, SnapItemEnd, SnapMarkerStart, SnapMarkerEnd]"

datatype snap_target = AtTimelineStart | AtPlayhead | AtItemStart editorial_object_id | AtItemEnd editorial_object_id
  | AtMarkerStart marker_id | AtMarkerEnd marker_id

fun snap_kind :: "snap_target \<Rightarrow> snap_target_kind" where
  "snap_kind AtTimelineStart = SnapTimelineStart"
| "snap_kind AtPlayhead = SnapPlayhead"
| "snap_kind (AtItemStart _) = SnapItemStart"
| "snap_kind (AtItemEnd _) = SnapItemEnd"
| "snap_kind (AtMarkerStart _) = SnapMarkerStart"
| "snap_kind (AtMarkerEnd _) = SnapMarkerEnd"

text \<open>The derived order of the targets: the variants as declared, then their identity.\<close>

fun snap_rank :: "snap_target \<Rightarrow> nat \<times> nat \<times> 128 word" where
  "snap_rank AtTimelineStart = (0, 0, 0)"
| "snap_rank AtPlayhead = (1, 0, 0)"
| "snap_rank (AtItemStart x) = (2, object_rank x)"
| "snap_rank (AtItemEnd x) = (3, object_rank x)"
| "snap_rank (AtMarkerStart x) = (4, 0, raw_id x)"
| "snap_rank (AtMarkerEnd x) = (5, 0, raw_id x)"

lemma snap_rank_inj: "snap_rank x = snap_rank y \<longleftrightarrow> x = y"
  by (cases x; cases y) (auto simp: object_rank_inj intro: typed_id.expand)

record snap_request =
  sr_at :: rational_time
  sr_tolerance :: duration
  sr_playhead :: "rational_time option"
  sr_target_kinds :: "snap_target_kind set"
  sr_excluded_objects :: "editorial_object_id set"
  sr_excluded_markers :: "marker_id set"

definition sr_new :: "rational_time \<Rightarrow> duration \<Rightarrow> snap_request" where
  "sr_new at_time tolerance = \<lparr>sr_at = at_time, sr_tolerance = tolerance, sr_playhead = None,
     sr_target_kinds = set snap_target_kind_all, sr_excluded_objects = {}, sr_excluded_markers = {}\<rparr>"

record snap_match =
  sm_target :: snap_target
  sm_time :: rational_time
  sm_distance :: duration

definition item_candidates :: "snap_request \<Rightarrow> track_item \<Rightarrow> ((snap_target \<times> rational_time) list) result" where
  "item_candidates req item =
     (if item_id item \<in> sr_excluded_objects req then Inr []
      else case item_record_range item of
        None \<Rightarrow> Inr []
      | Some r \<Rightarrow> bindR (tr_end_exclusive r) (\<lambda>e.
          Inr [(AtItemStart (item_id item), tr_start r), (AtItemEnd (item_id item), e)]))"

definition marker_excluded :: "snap_request \<Rightarrow> marker \<Rightarrow> bool" where
  "marker_excluded req m \<longleftrightarrow> mk_id m \<in> sr_excluded_markers req
     \<or> (case mk_owner m of OwnerObject object \<Rightarrow> object \<in> sr_excluded_objects req | _ \<Rightarrow> False)"

definition marker_candidates ::
  "snap_request \<Rightarrow> timebase \<Rightarrow> track list \<Rightarrow> marker \<Rightarrow> ((snap_target \<times> rational_time) list) result option" where
  "marker_candidates req edit_rate tracks m =
     (if marker_excluded req m then Some (Inr [])
      else bindP (resolve_marker_range m edit_rate tracks) (\<lambda>r.
        case r of
          None \<Rightarrow> Some (Inr [])
        | Some r \<Rightarrow> Some (bindR (tr_end_exclusive r) (\<lambda>e.
            Inr [(AtMarkerStart (mk_id m), tr_start r), (AtMarkerEnd (mk_id m), e)]))))"

definition snap_candidates ::
  "timeline_annotations \<Rightarrow> snap_request \<Rightarrow> timebase \<Rightarrow> track list \<Rightarrow> ((snap_target \<times> rational_time) list) result option" where
  "snap_candidates a req edit_rate tracks =
     bindP (Some (traverse (item_candidates req) (concat (map tk_items tracks)))) (\<lambda>items.
     bindP (traverseP (marker_candidates req edit_rate tracks) (map snd (ta_markers a))) (\<lambda>markers.
     Some (Inr ((AtTimelineStart, rt_zero edit_rate)
       # (case sr_playhead req of None \<Rightarrow> [] | Some p \<Rightarrow> [(AtPlayhead, p)]) @ concat items @ concat markers))))"

text \<open>The order on the keys (distance, target, time) the search takes the least of.\<close>

definition snap_key_less :: "int \<times> snap_target \<times> rational_time \<Rightarrow> int \<times> snap_target \<times> rational_time \<Rightarrow> bool" where
  "snap_key_less = (\<lambda>(d, x, t) (d', x', t'). d < d' \<or> d = d' \<and> (snap_rank x < snap_rank x' \<or> x = x' \<and> rt_lt t t'))"

definition snap_step ::
  "snap_request \<Rightarrow> snap_target \<times> rational_time \<Rightarrow> (int \<times> snap_target \<times> rational_time) option
     \<Rightarrow> (int \<times> snap_target \<times> rational_time) option" where
  "snap_step req = (\<lambda>(target, time) best.
     if snap_kind target \<notin> sr_target_kinds req then best
     else case rt_checked_rescale time (rt_timebase (sr_at req)) RoundExact of
       Inl _ \<Rightarrow> best
     | Inr time \<Rightarrow>
         let distance = \<bar>rt_value time - rt_value (sr_at req)\<bar>; key = (distance, target, time) in
         if distance > du_value (sr_tolerance req) then best
         else case best of
           None \<Rightarrow> Some key
         | Some current \<Rightarrow> if snap_key_less key current then Some key else best)"

definition ta_snap ::
  "timeline_annotations \<Rightarrow> snap_request \<Rightarrow> timebase \<Rightarrow> track list \<Rightarrow> (snap_match option) result option" where
  "ta_snap a req edit_rate tracks =
     (if rt_timebase (sr_at req) \<noteq> du_timebase (sr_tolerance req)
      then Some (Inl (marker_invalid ''snap'' ''snap coordinate and tolerance must use the same clock''))
      else if \<not> ta_snapping_enabled a then Some (Inr None)
      else bindP (snap_candidates a req edit_rate tracks) (\<lambda>candidates.
        case fold (snap_step req) candidates None of
          None \<Rightarrow> Some (Inr None)
        | Some (distance, target, time) \<Rightarrow> Some (
            bindR (ok_or (checked_u64 distance) (marker_invalid ''snap'' ''snap distance exceeds the supported duration range'')) (\<lambda>distance.
            bindR (du_new distance (rt_timebase (sr_at req))) (\<lambda>distance.
              Inr (Some \<lparr>sm_target = target, sm_time = time, sm_distance = distance\<rparr>))))))"

end
