(* ===== verification/MarkerProps.thy ===== *)
theory MarkerProps
  imports Markers EditProps
begin

text \<open>
  The properties of markers: snapping takes the nearest point there is, a marker on an object is
  carried along by it, and reconciliation leaves no owner behind that is not there.
\<close>

section \<open>The search for the least key\<close>

definition snap_key :: "snap_request \<Rightarrow> snap_target \<times> rational_time \<Rightarrow> (int \<times> snap_target \<times> rational_time) option" where
  "snap_key req = (\<lambda>(target, time).
     if snap_kind target \<notin> sr_target_kinds req then None
     else case rt_checked_rescale time (rt_timebase (sr_at req)) RoundExact of
       Inl _ \<Rightarrow> None
     | Inr time \<Rightarrow>
         if \<bar>rt_value time - rt_value (sr_at req)\<bar> > du_value (sr_tolerance req) then None
         else Some (\<bar>rt_value time - rt_value (sr_at req)\<bar>, target, time))"

definition snap_num :: "int \<times> snap_target \<times> rational_time \<Rightarrow> int \<times> (nat \<times> nat \<times> 128 word) \<times> int" where
  "snap_num = (\<lambda>(d, x, t). (d, snap_rank x, rt_value t))"

lemma snap_step_key:
  "snap_step req c best = (case snap_key req c of
     None \<Rightarrow> best
   | Some key \<Rightarrow> (case best of None \<Rightarrow> Some key | Some current \<Rightarrow> if snap_key_less key current then Some key else best))"
  by (auto simp: snap_step_def snap_key_def Let_def split: prod.splits sum.splits option.splits)

lemma snap_key_time:
  assumes "rt_ok (sr_at req)" "rt_ok t" "snap_key req (x, t) = Some (d, y, t')"
  shows "y = x" "rt_ok t'" "rt_timebase t' = rt_timebase (sr_at req)" "secs t' = secs t"
    "d = \<bar>rt_value t' - rt_value (sr_at req)\<bar>" "snap_kind x \<in> sr_target_kinds req" "d \<le> du_value (sr_tolerance req)"
proof -
  have r: "rt_checked_rescale t (rt_timebase (sr_at req)) RoundExact = Inr t'"
    "y = x" "d = \<bar>rt_value t' - rt_value (sr_at req)\<bar>" "snap_kind x \<in> sr_target_kinds req" "d \<le> du_value (sr_tolerance req)"
    using assms(3) by (auto simp: snap_key_def split: if_splits sum.splits)
  then show "y = x" "d = \<bar>rt_value t' - rt_value (sr_at req)\<bar>" "snap_kind x \<in> sr_target_kinds req"
    "d \<le> du_value (sr_tolerance req)" by simp_all
  have "tb_ok (rt_timebase (sr_at req))" using assms(1) by (simp add: rt_ok_def)
  from rescale_exact[OF assms(2) this, of t'] r(1)
  show "rt_ok t'" "rt_timebase t' = rt_timebase (sr_at req)" "secs t' = secs t" by simp_all
qed

lemma snap_key_None:
  assumes "rt_ok (sr_at req)" "rt_ok t"
  shows "snap_key req (x, t) = None \<longleftrightarrow> \<not> (snap_kind x \<in> sr_target_kinds req
     \<and> (\<exists>t'. rt_ok t' \<and> rt_timebase t' = rt_timebase (sr_at req) \<and> secs t' = secs t
          \<and> \<bar>rt_value t' - rt_value (sr_at req)\<bar> \<le> du_value (sr_tolerance req)))"
proof -
  have "tb_ok (rt_timebase (sr_at req))" using assms(1) by (simp add: rt_ok_def)
  note ex = rescale_exact[OF assms(2) this]
  show ?thesis
  proof (cases "rt_checked_rescale t (rt_timebase (sr_at req)) RoundExact")
    case (Inl e)
    then show ?thesis using ex by (auto simp: snap_key_def)
  next
    case (Inr t')
    have iff: "rt_ok t'' \<and> rt_timebase t'' = rt_timebase (sr_at req) \<and> secs t'' = secs t \<longleftrightarrow> t'' = t'" for t''
      using ex[of t''] Inr by auto
    have "(\<exists>t''. rt_ok t'' \<and> rt_timebase t'' = rt_timebase (sr_at req) \<and> secs t'' = secs t \<and> P t'') \<longleftrightarrow> P t'" for P :: "rational_time \<Rightarrow> bool"
      using iff by (metis (no_types, lifting))
    then show ?thesis using Inr by (simp add: snap_key_def)
  qed
qed

lemma snap_less_num:
  assumes "rt_ok t" "rt_ok t'" "rt_timebase t = rt_timebase t'"
  shows "snap_key_less (d, x, t) (d', x', t') \<longleftrightarrow> snap_num (d, x, t) < snap_num (d', x', t')"
  using rt_same_timebase(2)[OF assms] by (auto simp: snap_key_less_def snap_num_def snap_rank_inj)

text \<open>A loop that keeps the least key it has met.\<close>

definition least_of :: "('c \<Rightarrow> 'k option) \<Rightarrow> ('k \<Rightarrow> 'o::linorder) \<Rightarrow> 'c list \<Rightarrow> 'k option \<Rightarrow> bool" where
  "least_of key num cs best \<longleftrightarrow> (case best of
     None \<Rightarrow> \<forall>c\<in>set cs. key c = None
   | Some k \<Rightarrow> (\<exists>c\<in>set cs. key c = Some k) \<and> (\<forall>c\<in>set cs. \<forall>k'. key c = Some k' \<longrightarrow> num k \<le> num k'))"

lemma fold_least:
  fixes before :: "'k \<Rightarrow> 'k \<Rightarrow> bool" and num :: "'k \<Rightarrow> 'o::linorder"
  assumes step: "\<And>c best. step c best = (case key c of None \<Rightarrow> best | Some k \<Rightarrow>
      (case best of None \<Rightarrow> Some k | Some b \<Rightarrow> if before k b then Some k else best))"
    and less: "\<And>k b. k \<in> K \<Longrightarrow> b \<in> K \<Longrightarrow> before k b \<longleftrightarrow> num k < num b"
  shows "(\<And>c k. c \<in> set cs \<Longrightarrow> key c = Some k \<Longrightarrow> k \<in> K) \<Longrightarrow> least_of key num cs (fold step cs None)"
proof (induction cs rule: rev_induct)
  case Nil
  then show ?case by (simp add: least_of_def)
next
  case (snoc c cs)
  let ?best = "fold step cs None"
  have IH: "least_of key num cs ?best" by (rule snoc.IH) (auto intro: snoc.prems)
  show ?case
  proof (cases "key c")
    case None
    then have "fold step (cs @ [c]) None = ?best" by (simp add: step[of c])
    then show ?thesis using IH None by (cases ?best) (simp_all add: least_of_def)
  next
    case (Some k)
    show ?thesis
    proof (cases ?best)
      case None
      then show ?thesis using IH Some None by (simp add: least_of_def step[of c])
    next
      case best: (Some b)
      then obtain c' where c': "c' \<in> set cs" "key c' = Some b" and le: "\<And>c k'. c \<in> set cs \<Longrightarrow> key c = Some k' \<Longrightarrow> num b \<le> num k'"
        using IH by (auto simp: least_of_def)
      have "k \<in> K" "b \<in> K" using snoc.prems[of c k] snoc.prems[of c' b] Some c' by simp_all
      then have less: "before k b \<longleftrightarrow> num k < num b" by (rule assms(2))
      show ?thesis
      proof (cases "num k < num b")
        case True
        then have "num k \<le> num k'" if "c \<in> set cs" "key c = Some k'" for c k' using le[OF that] by simp
        then show ?thesis using True best less Some by (auto simp: least_of_def step[of c])
      next
        case False
        then show ?thesis using best less Some c' le by (auto simp: least_of_def step[of c])
      qed
    qed
  qed
qed

text \<open>The keys of good coordinates: all at the clock of the request.\<close>

lemma snap_fold_least:
  assumes "rt_ok (sr_at req)" "\<forall>(x, t)\<in>set cs. rt_ok t"
  shows "least_of (snap_key req) snap_num cs (fold (snap_step req) cs None)"
proof (rule fold_least[OF snap_step_key])
  let ?K = "{(d, x, t). rt_ok t \<and> rt_timebase t = rt_timebase (sr_at req)}"
  show "k \<in> ?K \<Longrightarrow> b \<in> ?K \<Longrightarrow> snap_key_less k b \<longleftrightarrow> snap_num k < snap_num b" for k b
    by (cases k; cases b) (auto simp: snap_less_num)
  fix c k assume c: "c \<in> set cs" "snap_key req c = Some k"
  obtain x t d y t' where e: "c = (x, t)" "k = (d, y, t')" by (cases c; cases k)
  have "rt_ok t" using assms(2) c(1) e(1) by auto
  from snap_key_time(2,3)[OF assms(1) this, of x d y t'] c(2) e show "k \<in> ?K" by simp
qed

text \<open>A point in reach: a wanted kind, representable on the clock of the request, within the tolerance.\<close>

definition snap_reaches :: "snap_request \<Rightarrow> snap_target \<Rightarrow> rational_time \<Rightarrow> bool" where
  "snap_reaches req x t \<longleftrightarrow> snap_kind x \<in> sr_target_kinds req
     \<and> (\<exists>t'. rt_ok t' \<and> rt_timebase t' = rt_timebase (sr_at req) \<and> secs t' = secs t)
     \<and> \<bar>secs t - secs (sr_at req)\<bar> \<le> secs (du_rational_time (sr_tolerance req))"

lemma secs_distance:
  assumes "tb_ok tb" "rt_timebase a = tb" "rt_timebase b = tb"
  shows "\<bar>secs a - secs b\<bar> = of_int \<bar>rt_value a - rt_value b\<bar> / rate tb"
  using rate_pos[OF assms(1)] assms(2,3) by (simp add: secs_def diff_divide_distrib[symmetric])

lemma snap_reaches_key:
  assumes "rt_ok (sr_at req)" "du_ok (sr_tolerance req)" "rt_timebase (sr_at req) = du_timebase (sr_tolerance req)" "rt_ok t"
  shows "snap_reaches req x t \<longleftrightarrow> snap_key req (x, t) \<noteq> None"
proof -
  have tb: "tb_ok (rt_timebase (sr_at req))" using assms(1) by (simp add: rt_ok_def)
  have tol: "secs (du_rational_time (sr_tolerance req)) = of_int (du_value (sr_tolerance req)) / rate (rt_timebase (sr_at req))"
    using assms(2,3) by (simp add: secs_def du_rational_simps)
  have "\<bar>secs t - secs (sr_at req)\<bar> \<le> secs (du_rational_time (sr_tolerance req))
      \<longleftrightarrow> \<bar>rt_value t' - rt_value (sr_at req)\<bar> \<le> du_value (sr_tolerance req)"
    if "rt_timebase t' = rt_timebase (sr_at req)" "secs t' = secs t" for t'
    using rate_pos[OF tb] unfolding tol that(2)[symmetric] secs_distance[OF tb that(1) refl]
    by (simp add: divide_le_cancel del: of_int_abs of_int_diff)
  then show ?thesis unfolding snap_key_None[OF assms(1,4)] snap_reaches_def by blast
qed

lemma snap_match_time:
  assumes at: "rt_ok (sr_at req)" "rt_ok t" and key: "snap_key req (x, t) = Some (d, y, t')" and tol: "du_ok (sr_tolerance req)"
  shows "du_new d (rt_timebase (sr_at req)) = Inr \<lparr>du_value = d, du_timebase = rt_timebase (sr_at req)\<rparr>"
    "in_u64 d" "\<bar>secs t - secs (sr_at req)\<bar> = of_int d / rate (rt_timebase (sr_at req))"
proof -
  note k = snap_key_time[OF at key]
  have tb: "tb_ok (rt_timebase (sr_at req))" using at(1) by (simp add: rt_ok_def)
  have d: "0 \<le> d" "d < 2 ^ 63" using k(5,7) tol by (simp_all add: du_ok_def)
  then show "in_u64 d" by (simp add: in_u64_def)
  show "du_new d (rt_timebase (sr_at req)) = Inr \<lparr>du_value = d, du_timebase = rt_timebase (sr_at req)\<rparr>"
    using d by (simp add: du_new_def in_i64_def)
  show "\<bar>secs t - secs (sr_at req)\<bar> = of_int d / rate (rt_timebase (sr_at req))"
    using secs_distance[OF tb k(3) refl] k(4,5) by simp
qed

text \<open>The points a request is offered: where they come from, and at which coordinate.\<close>

definition snap_offer ::
  "timeline_annotations \<Rightarrow> snap_request \<Rightarrow> timebase \<Rightarrow> track list \<Rightarrow> snap_target \<Rightarrow> rational_time \<Rightarrow> bool" where
  "snap_offer a req edit_rate tracks x t \<longleftrightarrow> (case x of
     AtTimelineStart \<Rightarrow> t = rt_zero edit_rate
   | AtPlayhead \<Rightarrow> sr_playhead req = Some t
   | AtItemStart o' \<Rightarrow> o' \<notin> sr_excluded_objects req \<and> (\<exists>k\<in>set tracks. \<exists>y\<in>set (tk_items k). \<exists>r.
       item_id y = o' \<and> item_record_range y = Some r \<and> t = tr_start r)
   | AtItemEnd o' \<Rightarrow> o' \<notin> sr_excluded_objects req \<and> (\<exists>k\<in>set tracks. \<exists>y\<in>set (tk_items k). \<exists>r.
       item_id y = o' \<and> item_record_range y = Some r \<and> tr_end_exclusive r = Inr t)
   | AtMarkerStart i \<Rightarrow> (\<exists>m\<in>snd ` set (ta_markers a). mk_id m = i \<and> \<not> marker_excluded req m \<and> (\<exists>r.
       resolve_marker_range m edit_rate tracks = Some (Inr (Some r)) \<and> t = tr_start r))
   | AtMarkerEnd i \<Rightarrow> (\<exists>m\<in>snd ` set (ta_markers a). mk_id m = i \<and> \<not> marker_excluded req m \<and> (\<exists>r.
       resolve_marker_range m edit_rate tracks = Some (Inr (Some r)) \<and> tr_end_exclusive r = Inr t)))"

lemma traverse_member:
  assumes "traverse f xs = Inr ys"
  shows "z \<in> set (concat ys) \<longleftrightarrow> (\<exists>x\<in>set xs. \<exists>zs. f x = Inr zs \<and> z \<in> set zs)"
  using assms by (induction xs arbitrary: ys) (auto simp: result_simps)

lemma traverseP_member:
  assumes "traverseP f xs = Some (Inr ys)"
  shows "z \<in> set (concat ys) \<longleftrightarrow> (\<exists>x\<in>set xs. \<exists>zs. f x = Some (Inr zs) \<and> z \<in> set zs)"
  using assms by (induction xs arbitrary: ys) (auto simp: result_simps)

lemma item_candidates_member:
  "(\<exists>zs. item_candidates req y = Inr zs \<and> z \<in> set zs) \<longleftrightarrow>
     item_id y \<notin> sr_excluded_objects req \<and> (\<exists>r e. item_record_range y = Some r \<and> tr_end_exclusive r = Inr e
       \<and> (z = (AtItemStart (item_id y), tr_start r) \<or> z = (AtItemEnd (item_id y), e)))"
  by (auto simp: item_candidates_def result_simps split: option.splits)

lemma marker_candidates_member:
  "(\<exists>zs. marker_candidates req edit_rate tracks m = Some (Inr zs) \<and> z \<in> set zs) \<longleftrightarrow>
     \<not> marker_excluded req m \<and> (\<exists>r e. resolve_marker_range m edit_rate tracks = Some (Inr (Some r)) \<and> tr_end_exclusive r = Inr e
       \<and> (z = (AtMarkerStart (mk_id m), tr_start r) \<or> z = (AtMarkerEnd (mk_id m), e)))"
  unfolding marker_candidates_def bindP_def bindR_def by (auto split: option.splits sum.splits)

lemma snap_candidates_offer:
  assumes cs: "snap_candidates a req edit_rate tracks = Some (Inr cs)"
  shows "(x, t) \<in> set cs \<longleftrightarrow> snap_offer a req edit_rate tracks x t"
proof -
  obtain items markers where it: "traverse (item_candidates req) (concat (map tk_items tracks)) = Inr items"
    and mk: "traverseP (marker_candidates req edit_rate tracks) (map snd (ta_markers a)) = Some (Inr markers)"
    and list: "cs = (AtTimelineStart, rt_zero edit_rate)
       # (case sr_playhead req of None \<Rightarrow> [] | Some p \<Rightarrow> [(AtPlayhead, p)]) @ concat items @ concat markers"
    using cs by (auto simp: snap_candidates_def result_simps)
  have ends: "\<exists>e. tr_end_exclusive r = Inr e"
    if "k \<in> set tracks" "y \<in> set (tk_items k)" "item_id y \<notin> sr_excluded_objects req" "item_record_range y = Some r" for k y r
  proof -
    have "y \<in> set (concat (map tk_items tracks))" using that by auto
    then obtain zs where "item_candidates req y = Inr zs" using it by (metis in_set_conv_nth traverse_nth)
    then show ?thesis using that by (auto simp: item_candidates_def result_simps)
  qed
  have mends: "\<exists>e. tr_end_exclusive r = Inr e"
    if "m \<in> snd ` set (ta_markers a)" "\<not> marker_excluded req m" "resolve_marker_range m edit_rate tracks = Some (Inr (Some r))" for m r
  proof -
    have "\<exists>zs. marker_candidates req edit_rate tracks m = Some (Inr zs)"
      using mk that(1) unfolding traverseP_Inr by (auto simp: list_all2_conv_all_nth in_set_conv_nth) (metis snd_conv)
    then show ?thesis using that by (auto simp: marker_candidates_def result_simps)
  qed
  have items: "(x, t) \<in> set (concat items) \<longleftrightarrow> (\<exists>k\<in>set tracks. \<exists>y\<in>set (tk_items k). item_id y \<notin> sr_excluded_objects req
      \<and> (\<exists>r e. item_record_range y = Some r \<and> tr_end_exclusive r = Inr e
       \<and> ((x, t) = (AtItemStart (item_id y), tr_start r) \<or> (x, t) = (AtItemEnd (item_id y), e))))"
    unfolding traverse_member[OF it] item_candidates_member by auto
  have markers: "(x, t) \<in> set (concat markers) \<longleftrightarrow> (\<exists>m\<in>snd ` set (ta_markers a). \<not> marker_excluded req m
      \<and> (\<exists>r e. resolve_marker_range m edit_rate tracks = Some (Inr (Some r)) \<and> tr_end_exclusive r = Inr e
       \<and> ((x, t) = (AtMarkerStart (mk_id m), tr_start r) \<or> (x, t) = (AtMarkerEnd (mk_id m), e))))"
    unfolding traverseP_member[OF mk] marker_candidates_member by auto
  have "(x, t) \<in> set cs \<longleftrightarrow> (x, t) = (AtTimelineStart, rt_zero edit_rate) \<or> x = AtPlayhead \<and> sr_playhead req = Some t
      \<or> (x, t) \<in> set (concat items) \<or> (x, t) \<in> set (concat markers)"
    unfolding list by (auto split: option.splits)
  note member = this[unfolded items markers]
  show ?thesis
  proof (cases x)
    case (AtItemStart i)
    show ?thesis unfolding AtItemStart member[unfolded AtItemStart] snap_offer_def snap_target.case
      by (simp only: prod.inject snap_target.inject snap_target.distinct simp_thms) (metis ends)
  next
    case (AtItemEnd i)
    show ?thesis unfolding AtItemEnd member[unfolded AtItemEnd] snap_offer_def snap_target.case
      by (simp only: prod.inject snap_target.inject snap_target.distinct simp_thms) (metis)
  next
    case (AtMarkerStart i)
    show ?thesis unfolding AtMarkerStart member[unfolded AtMarkerStart] snap_offer_def snap_target.case
      by (simp only: prod.inject snap_target.inject snap_target.distinct simp_thms) (metis mends)
  next
    case (AtMarkerEnd i)
    show ?thesis unfolding AtMarkerEnd member[unfolded AtMarkerEnd] snap_offer_def snap_target.case
      by (simp only: prod.inject snap_target.inject snap_target.distinct simp_thms) (metis)
  qed (use member in \<open>simp_all add: snap_offer_def\<close>)
qed

section \<open>Markers on objects\<close>

text \<open>What validation says of a marker on an object: the object is there and timed, on one clock with it.\<close>

lemma validate_marker_object:
  assumes "validate_marker m edit_rate tracks = Inr ()" "mk_owner m = OwnerObject object"
  obtains t item r where "find_object tracks object = Some (t, item)" "item_record_range item = Some r"
    "tr_timebase (mk_marked_range m) = ts_timebase (tk_semantics t)" "0 \<le> rt_value (tr_start (mk_marked_range m))"
  using assms by (auto simp: validate_marker_def owner_clock_def result_simps rt_is_negative_def not_less bind_eq_Some_conv split: if_splits)

lemma resolve_marker_total: "resolve_marker_range m edit_rate tracks \<noteq> None"
proof
  assume "resolve_marker_range m edit_rate tracks = None"
  then have v: "validate_marker m edit_rate tracks = Inr ()"
    by (cases "validate_marker m edit_rate tracks") (simp_all add: resolve_marker_range_def)
  then show False using \<open>resolve_marker_range m edit_rate tracks = None\<close>
    by (cases "mk_owner m") (auto simp: resolve_marker_range_def split: option.splits elim: validate_marker_object)
qed

text \<open>
  A marker on an object is carried by it. Whenever its range resolves, it starts at the sum of
  the object's start and its own, it has its own duration, and it lies inside the object; it does
  not resolve exactly when its end has fallen off the object.
\<close>

theorem marker_follows_object:
  assumes "mk_owner m = OwnerObject object" "find_object tracks object = Some (t, item)"
    and "item_ok (ts_timebase (tk_semantics t)) item" "tr_ok (mk_marked_range m)"
    and "resolve_marker_range m edit_rate tracks = Some (Inr answer)"
  shows "case answer of
      Some r \<Rightarrow> secs (tr_start r) = secs (tr_start (timed_range item)) + secs (tr_start (mk_marked_range m))
        \<and> tr_duration r = tr_duration (mk_marked_range m) \<and> item_start item \<le> rt_value (tr_start r) \<and> tr_end r \<le> item_stop item
    | None \<Rightarrow> item_stop item < item_start item + tr_end (mk_marked_range m)"
proof -
  let ?tb = "ts_timebase (tk_semantics t)" and ?mr = "mk_marked_range m"
  note i = item_ok_range[OF assms(3)] and e = item_range_eq[OF assms(3)]
  have v: "validate_marker m edit_rate tracks = Inr ()"
    using assms(5) by (cases "validate_marker m edit_rate tracks") (simp_all add: resolve_marker_range_def)
  have m: "tr_timebase ?mr = ?tb" "0 \<le> rt_value (tr_start ?mr)"
    using validate_marker_object[OF v assms(1)] assms(2) by auto
  obtain r where step: "bindR (tr_end_exclusive ?mr) (\<lambda>marked_end.
        if rt_value marked_end > (case checked_i64 (du_value (tr_duration (timed_range item))) of None \<Rightarrow> 2 ^ 63 - 1 | Some v \<Rightarrow> v)
        then Inr None
        else bindR (rt_checked_add_at (tr_start (timed_range item)) (tr_start ?mr) (tr_timebase (timed_range item)) RoundExact)
          (\<lambda>start. bindR (tr_new start (tr_duration ?mr)) (\<lambda>r. Inr (Some r)))) = Inr answer"
    using assms(1,2,5) v i(1) by (simp add: resolve_marker_range_def)
  have d: "in_i64 (du_value (tr_duration (timed_range item)))" "du_value (tr_duration (timed_range item)) = item_stop item - item_start item"
    using i(2) e(5) by (auto simp: tr_ok_def du_ok_def in_i64_def)
  have mok: "rt_ok (tr_start ?mr)" "du_ok (tr_duration ?mr)" "rt_timebase (tr_start ?mr) = ?tb" "du_timebase (tr_duration ?mr) = ?tb"
    using assms(4) m(1) by (auto simp: tr_ok_def tr_timebase_def)
  show ?thesis
  proof (cases "tr_end ?mr > item_stop item - item_start item")
    case True
    then have "answer = None" using step d by (simp add: tr_end_ok(1)[OF assms(4)])
    then show ?thesis using True by simp
  next
    case False
    obtain st where st: "rt_checked_add_at (tr_start (timed_range item)) (tr_start ?mr) ?tb RoundExact = Inr st"
      "\<exists>r. tr_new st (tr_duration ?mr) = Inr r \<and> answer = Some r"
      using step False d i(3) by (auto simp: tr_end_ok(1)[OF assms(4)] result_simps)
    note start = e(1,3)
    have sum: "rt_ok st" "rt_timebase st = ?tb" "secs st = secs (tr_start (timed_range item)) + secs (tr_start ?mr)"
      using add_exact[OF _ mok(1) i(4) st(1)] start by simp_all
    have val: "rt_value st = item_start item + rt_value (tr_start ?mr)"
      using st(1) add_same_timebase[of "tr_start (timed_range item)" "tr_start ?mr" ?tb RoundExact] start mok
      by (auto split: if_splits)
    obtain r where r: "tr_new st (tr_duration ?mr) = Inr r" "answer = Some r" using st(2) by blast
    then have "r = \<lparr>tr_start = st, tr_duration = tr_duration ?mr\<rparr>" using tr_new_iff[OF sum(1) mok(2)] by simp
    then show ?thesis using r(2) sum(3) val m(2) False by (simp add: tr_end_def)
  qed
qed

section \<open>Snapping\<close>

text \<open>
  C19: Snapping takes the nearest point. The answer is the point on offer with the least physical
  distance to the request, the least target among those equally near, at its exact time on the
  clock of the request; nothing is answered exactly when no point on offer is representable there
  within the tolerance.
\<close>

theorem snap_takes_nearest:
  assumes "rt_ok (sr_at req)" "du_ok (sr_tolerance req)" "rt_timebase (sr_at req) = du_timebase (sr_tolerance req)"
    and "ta_snapping_enabled a" "\<forall>x t. snap_offer a req edit_rate tracks x t \<longrightarrow> rt_ok t"
    and "ta_snap a req edit_rate tracks = Some (Inr answer)"
  shows "case answer of
      None \<Rightarrow> \<forall>x t. snap_offer a req edit_rate tracks x t \<longrightarrow> \<not> snap_reaches req x t
    | Some m \<Rightarrow> \<exists>t. snap_offer a req edit_rate tracks (sm_target m) t \<and> snap_reaches req (sm_target m) t
        \<and> secs (sm_time m) = secs t \<and> rt_timebase (sm_time m) = rt_timebase (sr_at req)
        \<and> secs (du_rational_time (sm_distance m)) = \<bar>secs t - secs (sr_at req)\<bar>
        \<and> (\<forall>x' t'. snap_offer a req edit_rate tracks x' t' \<and> snap_reaches req x' t' \<longrightarrow>
             \<bar>secs t - secs (sr_at req)\<bar> < \<bar>secs t' - secs (sr_at req)\<bar>
             \<or> \<bar>secs t - secs (sr_at req)\<bar> = \<bar>secs t' - secs (sr_at req)\<bar> \<and> snap_rank (sm_target m) \<le> snap_rank x')"
proof -
  let ?tb = "rt_timebase (sr_at req)"
  have tb: "tb_ok ?tb" using assms(1) by (simp add: rt_ok_def)
  obtain cs where cs: "snap_candidates a req edit_rate tracks = Some (Inr cs)"
    using assms(3,4,6) by (auto simp: ta_snap_def result_simps)
  note offer = snap_candidates_offer[OF cs]
  have ok: "\<forall>(x, t)\<in>set cs. rt_ok t" using assms(5) offer by blast
  have least: "least_of (snap_key req) snap_num cs (fold (snap_step req) cs None)"
    by (rule snap_fold_least[OF assms(1) ok])
  have okt: "rt_ok t" if "(x, t) \<in> set cs" for x t using ok that by blast
  note reach = snap_reaches_key[OF assms(1-3) okt]
  show ?thesis
  proof (cases "fold (snap_step req) cs None")
    case None
    then have "answer = None" using assms(3,4,6) cs by (simp add: ta_snap_def)
    moreover have "\<not> snap_reaches req x t" if "(x, t) \<in> set cs" for x t
      using least None reach[OF that] that by (auto simp: least_of_def)
    ultimately show ?thesis using offer by simp
  next
    case (Some k)
    obtain d y u where k: "k = (d, y, u)" by (cases k)
    obtain x t where c: "(x, t) \<in> set cs" "snap_key req (x, t) = Some (d, y, u)" and
      le: "\<And>c k'. c \<in> set cs \<Longrightarrow> snap_key req c = Some k' \<Longrightarrow> snap_num (d, y, u) \<le> snap_num k'"
      using least Some k by (auto simp: least_of_def)
    note kt = snap_key_time[OF assms(1) okt[OF c(1)] c(2)]
      and mt = snap_match_time[OF assms(1) okt[OF c(1)] c(2) assms(2)]
    have ans: "answer = Some \<lparr>sm_target = y, sm_time = u, sm_distance = \<lparr>du_value = d, du_timebase = ?tb\<rparr>\<rparr>"
      using assms(3,4,6) cs Some k mt(1,2) by (simp add: ta_snap_def checked_u64_def)
    have wrap: "du_ok \<lparr>du_value = d, du_timebase = ?tb\<rparr>"
      using kt(5,7) assms(2) tb by (simp add: du_ok_def)
    have order: "\<bar>secs t - secs (sr_at req)\<bar> < \<bar>secs t' - secs (sr_at req)\<bar>
        \<or> \<bar>secs t - secs (sr_at req)\<bar> = \<bar>secs t' - secs (sr_at req)\<bar> \<and> snap_rank y \<le> snap_rank x'"
      if o': "(x', t') \<in> set cs" "snap_reaches req x' t'" for x' t'
    proof -
      obtain d' y' u' where key: "snap_key req (x', t') = Some (d', y', u')" using reach[OF o'(1)] o'(2) by auto
      have "y' = x'" by (rule snap_key_time(1)[OF assms(1) okt[OF o'(1)] key])
      then have "d < d' \<or> d = d' \<and> snap_rank y \<le> snap_rank x'" using le[OF o'(1) key] by (auto simp: snap_num_def)
      then show ?thesis
        unfolding mt(3) snap_match_time(3)[OF assms(1) okt[OF o'(1)] key assms(2)]
        using rate_pos[OF tb] by (simp add: divide_less_cancel)
    qed
    have dist: "secs (du_rational_time \<lparr>du_value = d, du_timebase = ?tb\<rparr>) = \<bar>secs t - secs (sr_at req)\<bar>"
      unfolding mt(3) using du_rational_simps(1)[OF wrap] by (simp add: secs_def du_rational_simps(2))
    have "snap_reaches req y t" using reach[OF c(1)] c(2) kt(1) by simp
    then show ?thesis unfolding ans using c(1) kt dist order offer by (auto intro!: exI[of _ t])
  qed
qed

definition snap_example :: snap_request where
  "snap_example = sr_new (rt_new 50 tb24) \<lparr>du_value = 5, du_timebase = tb24\<rparr>"

lemma reel_offers: "snap_offer ta_default snap_example tb24 [reel] x t \<Longrightarrow> rt_ok t"
proof -
  have "case snap_candidates ta_default snap_example tb24 [reel] of
      Some (Inr cs) \<Rightarrow> list_all (\<lambda>(x, t). rt_timebase t = tb24 \<and> 0 \<le> rt_value t \<and> rt_value t < 100) cs | _ \<Rightarrow> False" by code_simp
  then obtain cs where cs: "snap_candidates ta_default snap_example tb24 [reel] = Some (Inr cs)"
    "\<forall>(x, t)\<in>set cs. rt_timebase t = tb24 \<and> 0 \<le> rt_value t \<and> rt_value t < 100"
    by (auto split: option.splits sum.splits simp: list_all_iff)
  assume "snap_offer ta_default snap_example tb24 [reel] x t"
  then have "(x, t) \<in> set cs" using snap_candidates_offer[OF cs(1)] by blast
  then have t: "rt_timebase t = tb24" "0 \<le> rt_value t" "rt_value t < 100" using cs(2) by auto
  moreover have "tb_ok tb24" by (simp add: tb24_def)
  ultimately show "rt_ok t" by (simp add: rt_ok_def in_i64_def)
qed

theorem snap_takes_nearest_witness:
  "\<exists>m. ta_snap ta_default snap_example tb24 [reel] = Some (Inr (Some m)) \<and> sm_target m = AtItemStart (OGap (TypedId 11))
     \<and> (\<forall>x t. snap_offer ta_default snap_example tb24 [reel] x t \<and> snap_reaches snap_example x t
          \<longrightarrow> secs (du_rational_time (sm_distance m)) \<le> \<bar>secs t - secs (rt_new 50 tb24)\<bar>)"
proof -
  have "case ta_snap ta_default snap_example tb24 [reel] of
      Some (Inr (Some m)) \<Rightarrow> sm_target m = AtItemStart (OGap (TypedId 11)) | _ \<Rightarrow> False" by code_simp
  then obtain m where m: "ta_snap ta_default snap_example tb24 [reel] = Some (Inr (Some m))"
    "sm_target m = AtItemStart (OGap (TypedId 11))" by (auto split: option.splits sum.splits)
  have at_time: "rt_ok (sr_at snap_example)" "du_ok (sr_tolerance snap_example)" "sr_at snap_example = rt_new 50 tb24"
    "rt_timebase (sr_at snap_example) = du_timebase (sr_tolerance snap_example)" "ta_snapping_enabled ta_default"
    by (simp_all add: snap_example_def sr_new_def rt_ok_def du_ok_def tb24_def in_i64_def ta_default_def)
  have offers: "\<forall>x t. snap_offer ta_default snap_example tb24 [reel] x t \<longrightarrow> rt_ok t" using reel_offers by blast
  from snap_takes_nearest[OF at_time(1,2,4,5) offers m(1)] obtain t where
    t: "secs (du_rational_time (sm_distance m)) = \<bar>secs t - secs (rt_new 50 tb24)\<bar>"
    "\<forall>x' t'. snap_offer ta_default snap_example tb24 [reel] x' t' \<and> snap_reaches snap_example x' t' \<longrightarrow>
       \<bar>secs t - secs (rt_new 50 tb24)\<bar> < \<bar>secs t' - secs (rt_new 50 tb24)\<bar>
       \<or> \<bar>secs t - secs (rt_new 50 tb24)\<bar> = \<bar>secs t' - secs (rt_new 50 tb24)\<bar> \<and> snap_rank (sm_target m) \<le> snap_rank x'"
    unfolding at_time(3) by auto
  have "secs (du_rational_time (sm_distance m)) \<le> \<bar>secs t' - secs (rt_new 50 tb24)\<bar>"
    if "snap_offer ta_default snap_example tb24 [reel] x t' \<and> snap_reaches snap_example x t'" for x t'
    using t(2)[rule_format, OF that] unfolding t(1) by linarith
  then show ?thesis using m by blast
qed

definition note_marker :: marker where
  "note_marker = \<lparr>mk_id = TypedId 5, mk_owner = OwnerObject (OClip (TypedId 12)), mk_marked_range = range24 6 4,
     mk_label = Some ''fix'', mk_flag = Some RedFlag, mk_note = None, mk_metadata = []\<rparr>"

theorem marker_follows_object_witness:
  "\<exists>r. resolve_marker_range note_marker tb24 [reel] = Some (Inr (Some r)) \<and> secs (tr_start r) = secs (rt_new 60 tb24) + secs (rt_new 6 tb24)"
proof -
  have "case resolve_marker_range note_marker tb24 [reel] of Some (Inr (Some r)) \<Rightarrow> True | _ \<Rightarrow> False" by code_simp
  then obtain r where r: "resolve_marker_range note_marker tb24 [reel] = Some (Inr (Some r))"
    by (auto split: option.splits sum.splits)
  have f: "find_object [reel] (OClip (TypedId 12)) = Some (reel, IClip (shot 12 500 60 24))"
    by (simp add: find_object_def tk_item_def reel_def shot_def hole_def)
  have ok: "item_ok (ts_timebase (tk_semantics reel)) (IClip (shot 12 500 60 24))"
    using shot_item_ok[of 500 60 24 12] reel_clock by (simp add: track_timebase_def)
  have m: "tr_ok (mk_marked_range note_marker)" by (simp add: note_marker_def range24_ok)
  have o': "mk_owner note_marker = OwnerObject (OClip (TypedId 12))" by (simp add: note_marker_def)
  from marker_follows_object[OF o' f ok m r] have "secs (tr_start r) = secs (tr_start (timed_range (IClip (shot 12 500 60 24)))) + secs (tr_start (range24 6 4))"
    by (simp add: note_marker_def)
  then show ?thesis using r by (simp add: shot_def cl_record_range_def range24_def)
qed

section \<open>Reconciliation\<close>

text \<open>After reconciliation every owner is there, whatever the tracks have become.\<close>

lemma om_has_filter: "om_has (filter P m) k \<Longrightarrow> om_has m k"
  by (auto simp: om_has_iff)

lemma reconciled_owners:
  "(i, m) \<in> set (ta_markers (ta_reconcile a tracks)) \<Longrightarrow> marker_owner_exists (mk_owner m) tracks"
  "(w, v) \<in> set (ta_metadata (ta_reconcile a tracks)) \<Longrightarrow> metadata_owner_exists w tracks (ta_markers (ta_reconcile a tracks))"
  by (auto simp: ta_reconcile_def Let_def)

end
