(* ===== verification/Media.thy ===== *)
theory Media
  imports Markers
begin

text \<open>
  \<open>superi-timeline/src/media.rs\<close>: linked media with their relink state, manual bins that nest, and
  smart collections. The lower-casing of Unicode text is an argument \<open>lower\<close> of the queries; the
  rest is bytes. The sorted vector of a bin is an ordered set, its binary search the membership.
\<close>

section \<open>Errors\<close>

definition media_invalid :: "string \<Rightarrow> string \<Rightarrow> error_value" where
  "media_invalid operation message =
     err_with_context (err_new InvalidInput UserCorrectable message) (ctx_new ''superi-timeline.media'' operation)"

definition media_not_found :: "string \<Rightarrow> string \<Rightarrow> string \<Rightarrow> string \<Rightarrow> error_value" where
  "media_not_found operation message key val =
     err_with_context (err_new NotFound UserCorrectable message)
       (ctx_with_field (ctx_new ''superi-timeline.media'' operation) key val)"

definition media_conflict :: "string \<Rightarrow> string \<Rightarrow> string \<Rightarrow> string \<Rightarrow> error_value" where
  "media_conflict operation message key val =
     err_with_context (err_new Conflict UserCorrectable message)
       (ctx_with_field (ctx_new ''superi-timeline.media'' operation) key val)"

lemma media_error_cong [cong]:
  "media_invalid operation message = media_invalid operation message"
  "media_not_found operation message key val = media_not_found operation message key val"
  "media_conflict operation message key val = media_conflict operation message key val"
  by (rule refl)+

definition media_require_text :: "string \<Rightarrow> string \<Rightarrow> string \<Rightarrow> unit result" where
  "media_require_text operation field val =
     (if is_blank val \<or> has_control val
      then Inl (err_with_context (media_invalid operation ''editorial text must be nonblank visible text'')
             (ctx_with_field (ctx_new ''superi-timeline.media'' operation) ''field'' field))
      else Inr ())"

section \<open>Relinking\<close>

datatype relink_status = RelinkOnline | RelinkMissing | RelinkUnverified | RelinkFingerprintMismatch

datatype relink_decision = RelinkAccepted | RejectedFingerprintMismatch

record media_relink_state =
  rk_status :: relink_status
  rk_expected_fingerprint :: "string option"
  rk_observed_fingerprint :: "string option"
  rk_rejected_target :: "string option"

definition rk_online_without_fingerprint :: media_relink_state where
  "rk_online_without_fingerprint = \<lparr>rk_status = RelinkOnline, rk_expected_fingerprint = None,
     rk_observed_fingerprint = None, rk_rejected_target = None\<rparr>"

definition rk_verified :: "string \<Rightarrow> media_relink_state" where
  "rk_verified fingerprint = \<lparr>rk_status = RelinkOnline, rk_expected_fingerprint = Some fingerprint,
     rk_observed_fingerprint = Some fingerprint, rk_rejected_target = None\<rparr>"

definition rk_validate :: "media_relink_state \<Rightarrow> unit result" where
  "rk_validate s =
     bindR (case rk_expected_fingerprint s of None \<Rightarrow> Inr ()
            | Some v \<Rightarrow> media_require_text ''validate_relink_state'' ''expected fingerprint'' v) (\<lambda>_.
     bindR (case rk_observed_fingerprint s of None \<Rightarrow> Inr ()
            | Some v \<Rightarrow> media_require_text ''validate_relink_state'' ''observed fingerprint'' v) (\<lambda>_.
     bindR (case rk_rejected_target s of None \<Rightarrow> Inr ()
            | Some v \<Rightarrow> media_require_text ''validate_relink_state'' ''rejected target'' v) (\<lambda>_.
     if rk_status s = RelinkFingerprintMismatch
     then bindR (ok_or (rk_expected_fingerprint s)
            (media_invalid ''validate_relink_state'' ''fingerprint mismatch state requires an expected fingerprint'')) (\<lambda>expected.
          bindR (ok_or (rk_observed_fingerprint s)
            (media_invalid ''validate_relink_state'' ''fingerprint mismatch state requires an observed fingerprint'')) (\<lambda>observed.
          if expected = observed \<or> rk_rejected_target s = None
          then Inl (media_invalid ''validate_relink_state''
                 ''fingerprint mismatch state requires distinct evidence and a rejected target'')
          else Inr ()))
     else Inr ())))"

record linked_media_reference =
  lr_id :: media_id
  lr_name :: string
  lr_target :: string
  lr_available_range :: "time_range option"
  lr_metadata :: timeline_metadata
  lr_relink_state :: media_relink_state

definition lr_new :: "media_id \<Rightarrow> string \<Rightarrow> string \<Rightarrow> time_range option \<Rightarrow> linked_media_reference" where
  "lr_new ident name target available_range = \<lparr>lr_id = ident, lr_name = name, lr_target = target,
     lr_available_range = available_range, lr_metadata = [], lr_relink_state = rk_online_without_fingerprint\<rparr>"

definition lr_validate :: "linked_media_reference \<Rightarrow> unit result" where
  "lr_validate m =
     bindR (media_require_text ''validate_media'' ''media name'' (lr_name m)) (\<lambda>_.
     bindR (media_require_text ''validate_media'' ''media target'' (lr_target m)) (\<lambda>_.
       rk_validate (lr_relink_state m)))"

definition lr_with_fingerprint ::
  "media_id \<Rightarrow> string \<Rightarrow> string \<Rightarrow> time_range option \<Rightarrow> string \<Rightarrow> linked_media_reference result" where
  "lr_with_fingerprint ident name target available_range fingerprint =
     bindR (media_require_text ''create_media_reference'' ''media fingerprint'' fingerprint) (\<lambda>_.
     let m = \<lparr>lr_id = ident, lr_name = name, lr_target = target, lr_available_range = available_range,
              lr_metadata = [], lr_relink_state = rk_verified fingerprint\<rparr>
     in bindR (lr_validate m) (\<lambda>_. Inr m))"

definition lr_set_target :: "linked_media_reference \<Rightarrow> string \<Rightarrow> linked_media_reference" where
  "lr_set_target m target = m\<lparr>lr_target := target, lr_relink_state := (lr_relink_state m)\<lparr>rk_status := RelinkUnverified,
     rk_observed_fingerprint := None, rk_rejected_target := None\<rparr>\<rparr>"

definition lr_mark_missing :: "linked_media_reference \<Rightarrow> linked_media_reference" where
  "lr_mark_missing m = m\<lparr>lr_relink_state := (lr_relink_state m)\<lparr>rk_status := RelinkMissing,
     rk_observed_fingerprint := None, rk_rejected_target := None\<rparr>\<rparr>"

definition lr_consider_relink ::
  "linked_media_reference \<Rightarrow> string \<Rightarrow> string \<Rightarrow> (relink_decision \<times> linked_media_reference) result" where
  "lr_consider_relink m candidate_target observed_fingerprint =
     bindR (media_require_text ''consider_relink'' ''candidate target'' candidate_target) (\<lambda>_.
     bindR (media_require_text ''consider_relink'' ''observed fingerprint'' observed_fingerprint) (\<lambda>_.
     let s = lr_relink_state m in
     if (case rk_expected_fingerprint s of None \<Rightarrow> False | Some expected \<Rightarrow> expected \<noteq> observed_fingerprint)
     then Inr (RejectedFingerprintMismatch, m\<lparr>lr_relink_state := s\<lparr>rk_status := RelinkFingerprintMismatch,
            rk_observed_fingerprint := Some observed_fingerprint, rk_rejected_target := Some candidate_target\<rparr>\<rparr>)
     else
     let s = (if rk_expected_fingerprint s = None then s\<lparr>rk_expected_fingerprint := Some observed_fingerprint\<rparr> else s)
     in Inr (RelinkAccepted, m\<lparr>lr_target := candidate_target, lr_relink_state := s\<lparr>rk_status := RelinkOnline,
          rk_observed_fingerprint := Some observed_fingerprint, rk_rejected_target := None\<rparr>\<rparr>)))"

definition lr_restore_relink_state ::
  "linked_media_reference \<Rightarrow> relink_status \<Rightarrow> string option \<Rightarrow> string option \<Rightarrow> string option \<Rightarrow> linked_media_reference result" where
  "lr_restore_relink_state m status expected observed rejected =
     (let s = \<lparr>rk_status = status, rk_expected_fingerprint = expected, rk_observed_fingerprint = observed,
               rk_rejected_target = rejected\<rparr>
      in bindR (rk_validate s) (\<lambda>_. Inr (m\<lparr>lr_relink_state := s\<rparr>)))"

section \<open>Bins\<close>

record media_bin =
  bn_id :: bin_id
  bn_name :: string
  bn_parent :: "bin_id option"
  bn_media_ids :: "media_id list"

definition bn_new :: "bin_id \<Rightarrow> string \<Rightarrow> bin_id option \<Rightarrow> media_bin result" where
  "bn_new ident name parent =
     bindR (media_require_text ''create_bin'' ''bin name'' name) (\<lambda>_.
       Inr \<lparr>bn_id = ident, bn_name = name, bn_parent = parent, bn_media_ids = []\<rparr>)"

definition bn_add_media :: "media_bin \<Rightarrow> media_id \<Rightarrow> bool \<times> media_bin" where
  "bn_add_media b m =
     (if List.member (bn_media_ids b) m then (False, b)
      else (True, b\<lparr>bn_media_ids := os_insert m (bn_media_ids b)\<rparr>))"

definition bn_remove_media :: "media_bin \<Rightarrow> media_id \<Rightarrow> bool \<times> media_bin" where
  "bn_remove_media b m =
     (if List.member (bn_media_ids b) m then (True, b\<lparr>bn_media_ids := os_remove m (bn_media_ids b)\<rparr>)
      else (False, b))"

section \<open>Smart collections\<close>

datatype smart_collection_match = MatchAll | MatchAny

datatype media_predicate =
    NameContains string
  | TargetContains string
  | MetadataExists string
  | MetadataEquals string metadata_value
  | HasRelinkStatus relink_status

fun str_contains :: "string \<Rightarrow> string \<Rightarrow> bool" where
  "str_contains [] part = (part = [])"
| "str_contains (c # cs) part = (take (length part) (c # cs) = part \<or> str_contains cs part)"

fun mp_validate :: "media_predicate \<Rightarrow> unit result" where
  "mp_validate (NameContains val) = media_require_text ''validate_smart_collection'' ''query text'' val"
| "mp_validate (TargetContains val) = media_require_text ''validate_smart_collection'' ''query text'' val"
| "mp_validate _ = Inr ()"

fun mp_matches :: "(string \<Rightarrow> string) \<Rightarrow> media_predicate \<Rightarrow> linked_media_reference \<Rightarrow> bool" where
  "mp_matches lower (NameContains val) m = str_contains (lower (lr_name m)) (lower val)"
| "mp_matches lower (TargetContains val) m = str_contains (lower (lr_target m)) (lower val)"
| "mp_matches lower (MetadataExists key) m = (map_of (lr_metadata m) key \<noteq> None)"
| "mp_matches lower (MetadataEquals key val) m =
     (case map_of (lr_metadata m) key of None \<Rightarrow> False | Some v \<Rightarrow> mv_eq v val)"
| "mp_matches lower (HasRelinkStatus status) m = (rk_status (lr_relink_state m) = status)"

record smart_collection =
  sc_id :: smart_collection_id
  sc_name :: string
  sc_match_mode :: smart_collection_match
  sc_predicates :: "media_predicate list"

definition sc_validate :: "smart_collection \<Rightarrow> unit result" where
  "sc_validate c =
     bindR (media_require_text ''validate_smart_collection'' ''smart collection name'' (sc_name c)) (\<lambda>_.
     if sc_predicates c = []
     then Inl (media_invalid ''validate_smart_collection'' ''smart collection must contain at least one predicate'')
     else bindR (traverse mp_validate (sc_predicates c)) (\<lambda>_. Inr ()))"

definition sc_new ::
  "smart_collection_id \<Rightarrow> string \<Rightarrow> smart_collection_match \<Rightarrow> media_predicate list \<Rightarrow> smart_collection result" where
  "sc_new ident name match_mode predicates =
     (let c = \<lparr>sc_id = ident, sc_name = name, sc_match_mode = match_mode, sc_predicates = predicates\<rparr>
      in bindR (sc_validate c) (\<lambda>_. Inr c))"

definition sc_matches :: "(string \<Rightarrow> string) \<Rightarrow> smart_collection \<Rightarrow> linked_media_reference \<Rightarrow> bool" where
  "sc_matches lower c m =
     (case sc_match_mode c of
        MatchAll \<Rightarrow> list_all (\<lambda>p. mp_matches lower p m) (sc_predicates c)
      | MatchAny \<Rightarrow> list_ex (\<lambda>p. mp_matches lower p m) (sc_predicates c))"

section \<open>The library\<close>

record media_library =
  ml_bins :: "(bin_id \<times> media_bin) list"
  ml_smart_collections :: "(smart_collection_id \<times> smart_collection) list"

definition ml_new :: media_library where
  "ml_new = \<lparr>ml_bins = [], ml_smart_collections = []\<rparr>"

definition ml_bin_mut :: "media_library \<Rightarrow> bin_id \<Rightarrow> (media_bin \<Rightarrow> media_bin) \<Rightarrow> media_library result" where
  "ml_bin_mut l ident f =
     (if om_has (ml_bins l) ident then Inr (l\<lparr>ml_bins := om_update ident f (ml_bins l)\<rparr>)
      else Inl (media_not_found ''find_bin'' ''media bin was not found'' ''bin'' (id_display BinKind ident)))"

definition ml_child_bins :: "media_library \<Rightarrow> bin_id option \<Rightarrow> media_bin list" where
  "ml_child_bins l parent = filter (\<lambda>b. bn_parent b = parent) (map snd (ml_bins l))"

text \<open>The walk from a bin to the root; every turn adds a stored bin to those seen.\<close>

function (sequential) bin_path_loop ::
  "media_library \<Rightarrow> bin_id option \<Rightarrow> bin_id set \<Rightarrow> bin_id list \<Rightarrow> (bin_id list) result" where
  "bin_path_loop l None seen path = Inr path"
| "bin_path_loop l (Some b) seen path =
     (if b \<in> seen
      then Inl (media_conflict ''resolve_bin_path'' ''media bin nesting contains a cycle'' ''bin'' (id_display BinKind b))
      else case map_of (ml_bins l) b of
        None \<Rightarrow> Inl (media_not_found ''resolve_bin_path'' ''media bin parent was not found'' ''bin'' (id_display BinKind b))
      | Some bin \<Rightarrow> bin_path_loop l (bn_parent bin) (insert b seen) (path @ [b]))"
  by pat_completeness auto

termination
proof (relation "measure (\<lambda>(l, b, seen, path). card (dom (map_of (ml_bins l)) - seen))", goal_cases)
  case (2 l b seen path bin)
  then have "dom (map_of (ml_bins l)) - insert b seen \<subset> dom (map_of (ml_bins l)) - seen" by auto
  then show ?case by (simp add: psubset_card_mono finite_dom_map_of)
qed simp

definition ml_bin_path :: "media_library \<Rightarrow> bin_id \<Rightarrow> (bin_id list) result" where
  "ml_bin_path l ident = mapR rev (bin_path_loop l (Some ident) {} [])"

definition ml_upsert_bin :: "media_library \<Rightarrow> media_bin \<Rightarrow> media_bin option \<times> media_library" where
  "ml_upsert_bin l b = (map_of (ml_bins l) (bn_id b), l\<lparr>ml_bins := om_insert (bn_id b) b (ml_bins l)\<rparr>)"

definition ml_remove_bin :: "media_library \<Rightarrow> bin_id \<Rightarrow> media_bin option \<times> media_library" where
  "ml_remove_bin l ident = (map_of (ml_bins l) ident, l\<lparr>ml_bins := om_remove ident (ml_bins l)\<rparr>)"

definition ml_move_media :: "media_library \<Rightarrow> media_id \<Rightarrow> bin_id option \<Rightarrow> media_library result option" where
  "ml_move_media l m target =
     (if (case target of None \<Rightarrow> False | Some t \<Rightarrow> \<not> om_has (ml_bins l) t)
      then Some (Inl (media_not_found ''move_media'' ''target media bin was not found'' ''bin'' (id_display BinKind (the target))))
      else
      let bins = map (\<lambda>(k, b). (k, snd (bn_remove_media b m))) (ml_bins l) in
      case target of
        None \<Rightarrow> Some (Inr (l\<lparr>ml_bins := bins\<rparr>))
      | Some t \<Rightarrow>
          if om_has bins t then Some (Inr (l\<lparr>ml_bins := om_update t (\<lambda>b. snd (bn_add_media b m)) bins\<rparr>)) else None)"

definition ml_smart_collection_mut ::
  "media_library \<Rightarrow> smart_collection_id \<Rightarrow> (smart_collection \<Rightarrow> smart_collection) \<Rightarrow> media_library result" where
  "ml_smart_collection_mut l ident f =
     (if om_has (ml_smart_collections l) ident
      then Inr (l\<lparr>ml_smart_collections := om_update ident f (ml_smart_collections l)\<rparr>)
      else Inl (media_not_found ''find_smart_collection'' ''smart collection was not found'' ''smart_collection''
             (id_display SmartCollectionKind ident)))"

definition ml_upsert_smart_collection :: "media_library \<Rightarrow> smart_collection \<Rightarrow> smart_collection option \<times> media_library" where
  "ml_upsert_smart_collection l c =
     (map_of (ml_smart_collections l) (sc_id c), l\<lparr>ml_smart_collections := om_insert (sc_id c) c (ml_smart_collections l)\<rparr>)"

definition ml_remove_smart_collection ::
  "media_library \<Rightarrow> smart_collection_id \<Rightarrow> smart_collection option \<times> media_library" where
  "ml_remove_smart_collection l ident =
     (map_of (ml_smart_collections l) ident, l\<lparr>ml_smart_collections := om_remove ident (ml_smart_collections l)\<rparr>)"

type_synonym media_table = "(media_id \<times> linked_media_reference) list"

definition ml_matching_media ::
  "(string \<Rightarrow> string) \<Rightarrow> media_library \<Rightarrow> smart_collection_id \<Rightarrow> media_table \<Rightarrow> (media_id list) result" where
  "ml_matching_media lower l ident media =
     bindR (ok_or (map_of (ml_smart_collections l) ident)
       (media_not_found ''evaluate_smart_collection'' ''smart collection was not found'' ''smart_collection''
          (id_display SmartCollectionKind ident))) (\<lambda>c.
       Inr (map fst (filter (\<lambda>(_, m). sc_matches lower c m) media)))"

definition validate_bin :: "media_library \<Rightarrow> media_bin \<Rightarrow> unit result" where
  "validate_bin l b =
     bindR (media_require_text ''validate_bin'' ''bin name'' (bn_name b)) (\<lambda>_.
     if bn_parent b = Some (bn_id b)
     then Inl (media_conflict ''validate_bin'' ''media bin cannot be its own parent'' ''bin'' (id_display BinKind (bn_id b)))
     else bindR (ml_bin_path l (bn_id b)) (\<lambda>_. Inr ()))"

fun validate_assigned :: "media_table \<Rightarrow> media_id list \<Rightarrow> media_id set \<Rightarrow> unit result" where
  "validate_assigned media [] assigned = Inr ()"
| "validate_assigned media (m # ms) assigned =
     (if \<not> om_has media m
      then Inl (media_not_found ''validate_bin'' ''media bin references missing linked media'' ''media'' (id_display MediaKind m))
      else if m \<in> assigned
      then Inl (media_conflict ''validate_bin'' ''linked media belongs to more than one manual bin'' ''media'' (id_display MediaKind m))
      else validate_assigned media ms (insert m assigned))"

definition ml_validate :: "media_library \<Rightarrow> media_table \<Rightarrow> unit result" where
  "ml_validate l media =
     bindR (traverse (validate_bin l) (map snd (ml_bins l))) (\<lambda>_.
     bindR (validate_assigned media (concat (map (\<lambda>b. bn_media_ids b) (map snd (ml_bins l)))) {}) (\<lambda>_.
     bindR (traverse sc_validate (map snd (ml_smart_collections l))) (\<lambda>_. Inr ())))"

end
