(* ===== verification/MediaProps.thy ===== *)
theory MediaProps
  imports Media
begin

text \<open>
  The properties of linked media: a fingerprint, once known, decides every relink; a library
  validates exactly when its bins are forests that share no media; moving media keeps that.
\<close>

section \<open>Relinking\<close>

text \<open>
  What an editor does to a reference. Restoring persisted evidence is not among these: it replaces
  the whole state by any that validates, so it starts a run.
\<close>

inductive relink_step :: "linked_media_reference \<Rightarrow> linked_media_reference \<Rightarrow> bool" where
  step_target: "relink_step m (lr_set_target m target)"
| step_missing: "relink_step m (lr_mark_missing m)"
| step_consider: "lr_consider_relink m target fingerprint = Inr (decision, m') \<Longrightarrow> relink_step m m'"
| step_name: "relink_step m (m\<lparr>lr_name := name\<rparr>)"
| step_range: "relink_step m (m\<lparr>lr_available_range := r\<rparr>)"
| step_metadata: "relink_step m (m\<lparr>lr_metadata := d\<rparr>)"

definition relink_trusted :: "string \<Rightarrow> media_relink_state \<Rightarrow> media_relink_state \<Rightarrow> bool" where
  "relink_trusted fingerprint s0 s \<longleftrightarrow> rk_expected_fingerprint s = Some fingerprint \<and> rk_validate s = Inr ()
     \<and> (rk_status s = RelinkOnline \<longrightarrow> rk_observed_fingerprint s = Some fingerprint \<or> s = s0)"

lemma require_text_simps:
  "media_require_text operation field v = Inr u \<longleftrightarrow> \<not> is_blank v \<and> \<not> has_control v"
  by (auto simp: media_require_text_def)

lemma consider_relink_cases:
  assumes "lr_consider_relink m target observed = Inr (decision, m')"
  shows "\<not> is_blank target \<and> \<not> has_control target" "\<not> is_blank observed \<and> \<not> has_control observed"
    and "decision = RejectedFingerprintMismatch \<and> rk_expected_fingerprint (lr_relink_state m) \<notin> {None, Some observed}
         \<and> m' = m\<lparr>lr_relink_state := (lr_relink_state m)\<lparr>rk_status := RelinkFingerprintMismatch,
              rk_observed_fingerprint := Some observed, rk_rejected_target := Some target\<rparr>\<rparr>
       \<or> decision = RelinkAccepted \<and> rk_expected_fingerprint (lr_relink_state m) \<in> {None, Some observed}
         \<and> m' = m\<lparr>lr_target := target, lr_relink_state := \<lparr>rk_status = RelinkOnline, rk_expected_fingerprint = Some observed,
              rk_observed_fingerprint = Some observed, rk_rejected_target = None\<rparr>\<rparr>"
proof -
  show t: "\<not> is_blank target \<and> \<not> has_control target" "\<not> is_blank observed \<and> \<not> has_control observed"
    using assms by (auto simp: lr_consider_relink_def result_simps require_text_simps)
  obtain st ex ob rj where st: "lr_relink_state m = \<lparr>rk_status = st, rk_expected_fingerprint = ex,
      rk_observed_fingerprint = ob, rk_rejected_target = rj\<rparr>" by (cases "lr_relink_state m")
  show "decision = RejectedFingerprintMismatch \<and> rk_expected_fingerprint (lr_relink_state m) \<notin> {None, Some observed}
         \<and> m' = m\<lparr>lr_relink_state := (lr_relink_state m)\<lparr>rk_status := RelinkFingerprintMismatch,
              rk_observed_fingerprint := Some observed, rk_rejected_target := Some target\<rparr>\<rparr>
       \<or> decision = RelinkAccepted \<and> rk_expected_fingerprint (lr_relink_state m) \<in> {None, Some observed}
         \<and> m' = m\<lparr>lr_target := target, lr_relink_state := \<lparr>rk_status = RelinkOnline, rk_expected_fingerprint = Some observed,
              rk_observed_fingerprint = Some observed, rk_rejected_target = None\<rparr>\<rparr>"
    using assms t by (cases ex) (auto simp: lr_consider_relink_def st media_require_text_def Let_def split: if_splits)
qed

lemma relink_step_trusted:
  assumes "relink_step m m'" "relink_trusted fingerprint s0 (lr_relink_state m)"
  shows "relink_trusted fingerprint s0 (lr_relink_state m')"
  using assms
proof cases
  case (step_consider target observed decision)
  note c = consider_relink_cases[OF step_consider]
  have e: "rk_expected_fingerprint (lr_relink_state m) = Some fingerprint" "\<not> is_blank fingerprint \<and> \<not> has_control fingerprint"
    using assms(2) by (auto simp: relink_trusted_def rk_validate_def result_simps require_text_simps)
  show ?thesis
    using c(3)
  proof
    assume "decision = RejectedFingerprintMismatch \<and> rk_expected_fingerprint (lr_relink_state m) \<notin> {None, Some observed}
         \<and> m' = m\<lparr>lr_relink_state := (lr_relink_state m)\<lparr>rk_status := RelinkFingerprintMismatch,
              rk_observed_fingerprint := Some observed, rk_rejected_target := Some target\<rparr>\<rparr>"
    then show ?thesis using c(1,2) e by (auto simp: relink_trusted_def rk_validate_def media_require_text_def)
  next
    assume "decision = RelinkAccepted \<and> rk_expected_fingerprint (lr_relink_state m) \<in> {None, Some observed}
         \<and> m' = m\<lparr>lr_target := target, lr_relink_state := \<lparr>rk_status = RelinkOnline, rk_expected_fingerprint = Some observed,
              rk_observed_fingerprint = Some observed, rk_rejected_target = None\<rparr>\<rparr>"
    then show ?thesis using e by (simp add: relink_trusted_def rk_validate_def media_require_text_def)
  qed
qed (auto simp: relink_trusted_def lr_set_target_def lr_mark_missing_def rk_validate_def result_simps)

lemma restored_relink_validates:
  "lr_restore_relink_state m status expected observed rejected = Inr m' \<Longrightarrow> rk_validate (lr_relink_state m') = Inr ()
     \<and> rk_expected_fingerprint (lr_relink_state m') = expected"
  by (auto simp: lr_restore_relink_state_def result_simps Let_def)

lemma constructed_relink_validates:
  "lr_with_fingerprint ident name target available fingerprint = Inr m \<Longrightarrow> rk_validate (lr_relink_state m) = Inr ()
     \<and> rk_expected_fingerprint (lr_relink_state m) = Some fingerprint"
  by (auto simp: lr_with_fingerprint_def lr_validate_def rk_verified_def result_simps Let_def)

text \<open>
  C23: From any state with an expected fingerprint that validates, be it constructed, restored or
  gained by a first accepted candidate, and until persisted evidence is restored again: the
  expectation stays, the state validates, and the media is online only with that fingerprint
  observed or with the very evidence it started from. A candidate with that fingerprint is accepted,
  any other refused without touching the target. Media without an expectation takes
  the fingerprint of the first candidate.
\<close>

theorem relink_trusts_fingerprint:
  assumes "rk_validate (lr_relink_state m0) = Inr ()" "rk_expected_fingerprint (lr_relink_state m0) = Some fingerprint"
    "relink_step\<^sup>*\<^sup>* m0 m"
  shows "rk_expected_fingerprint (lr_relink_state m) = Some fingerprint \<and> rk_validate (lr_relink_state m) = Inr ()
    \<and> (rk_status (lr_relink_state m) = RelinkOnline \<longrightarrow>
         rk_observed_fingerprint (lr_relink_state m) = Some fingerprint \<or> lr_relink_state m = lr_relink_state m0)
    \<and> (\<forall>candidate observed decision m'. lr_consider_relink m candidate observed = Inr (decision, m') \<longrightarrow>
         (if observed = fingerprint then decision = RelinkAccepted \<and> lr_target m' = candidate
          else decision = RejectedFingerprintMismatch \<and> lr_target m' = lr_target m))
    \<and> (\<forall>n candidate observed decision n'. rk_expected_fingerprint (lr_relink_state n) = None \<longrightarrow>
         lr_consider_relink n candidate observed = Inr (decision, n') \<longrightarrow>
         decision = RelinkAccepted \<and> lr_relink_state n' = rk_verified observed \<and> rk_validate (lr_relink_state n') = Inr ())"
proof -
  have "relink_trusted fingerprint (lr_relink_state m0) (lr_relink_state m)"
    using assms(3)
  proof (induction rule: rtranclp_induct)
    case base
    show ?case by (simp add: relink_trusted_def assms(1,2))
  qed (rule relink_step_trusted)
  moreover have "decision = RelinkAccepted \<and> lr_relink_state n' = rk_verified observed \<and> rk_validate (lr_relink_state n') = Inr ()"
    if "rk_expected_fingerprint (lr_relink_state n) = None" "lr_consider_relink n candidate observed = Inr (decision, n')"
    for n candidate observed decision n'
    using consider_relink_cases[OF that(2)] that(1) by (auto simp: rk_verified_def rk_validate_def media_require_text_def)
  ultimately show ?thesis using consider_relink_cases(3)[of m] unfolding relink_trusted_def by fastforce
qed

definition interview :: linked_media_reference where
  "interview = \<lparr>lr_id = TypedId 9, lr_name = ''interview'', lr_target = ''a.mov'', lr_available_range = None,
     lr_metadata = [], lr_relink_state = rk_verified ''f1''\<rparr>"

lemma interview_new: "lr_with_fingerprint (TypedId 9) ''interview'' ''a.mov'' None ''f1'' = Inr interview"
proof -
  have "returns (lr_with_fingerprint (TypedId 9) ''interview'' ''a.mov'' None ''f1'') interview" by code_simp
  then show ?thesis by (simp add: returns_iff)
qed

theorem relink_trusts_fingerprint_witness:
  "\<exists>m'. lr_consider_relink (lr_mark_missing interview) ''b.mov'' ''f2'' = Inr (RejectedFingerprintMismatch, m')
     \<and> lr_target m' = ''a.mov''"
proof -
  have "case lr_consider_relink (lr_mark_missing interview) ''b.mov'' ''f2'' of
      Inr (RejectedFingerprintMismatch, m') \<Rightarrow> True | _ \<Rightarrow> False" by code_simp
  then obtain m' where m': "lr_consider_relink (lr_mark_missing interview) ''b.mov'' ''f2'' = Inr (RejectedFingerprintMismatch, m')"
    by (auto split: sum.splits prod.splits relink_decision.splits)
  have "relink_step\<^sup>*\<^sup>* interview (lr_mark_missing interview)" using step_missing by blast
  note kept = relink_trusts_fingerprint[OF conjunct1[OF constructed_relink_validates[OF interview_new]]
      conjunct2[OF constructed_relink_validates[OF interview_new]] this, THEN conjunct2, THEN conjunct2, THEN conjunct2, THEN conjunct1]
  from kept[rule_format, OF m']
  have "lr_target m' = lr_target (lr_mark_missing interview)" by simp
  then show ?thesis using m' by (simp add: lr_mark_missing_def interview_def)
qed

section \<open>Bins\<close>

definition bin_parents :: "media_library \<Rightarrow> (bin_id \<times> bin_id) set" where
  "bin_parents l = {(c, p). \<exists>b. map_of (ml_bins l) c = Some b \<and> bn_parent b = Some p}"

definition parents_stored :: "media_library \<Rightarrow> bool" where
  "parents_stored l \<longleftrightarrow> snd ` bin_parents l \<subseteq> dom (map_of (ml_bins l))"

lemma bin_path_ancestors:
  "bin_path_loop l (Some b) seen path = Inr p \<Longrightarrow> (b, x) \<in> (bin_parents l)\<^sup>* \<Longrightarrow> x \<notin> seen \<and> x \<in> dom (map_of (ml_bins l))"
proof (induction l "Some b" seen path arbitrary: b rule: bin_path_loop.induct)
  case (2 l b seen path)
  obtain bin where bin: "b \<notin> seen" "map_of (ml_bins l) b = Some bin"
    "bin_path_loop l (bn_parent bin) (insert b seen) (path @ [b]) = Inr p"
    using "2.prems"(1) by (auto split: if_splits option.splits)
  show ?case
  proof (cases "x = b")
    case True
    then show ?thesis using bin by auto
  next
    case False
    then obtain q where q: "(b, q) \<in> bin_parents l" "(q, x) \<in> (bin_parents l)\<^sup>*"
      using "2.prems"(2) by (auto elim: converse_rtranclE)
    then have "bn_parent bin = Some q" using bin(2) by (auto simp: bin_parents_def)
    then show ?thesis using "2.hyps"[OF bin(1,2)] bin(3) q(2) by simp
  qed
qed

lemma bin_path_complete:
  "acyclic (bin_parents l) \<Longrightarrow> parents_stored l \<Longrightarrow> b \<in> dom (map_of (ml_bins l)) \<Longrightarrow> \<forall>x\<in>seen. (x, b) \<in> (bin_parents l)\<^sup>+ \<Longrightarrow>
     \<exists>p. bin_path_loop l (Some b) seen path = Inr (path @ b # p) \<and> set p = {x. (b, x) \<in> (bin_parents l)\<^sup>+}"
proof (induction l "Some b" seen path arbitrary: b rule: bin_path_loop.induct)
  case (2 l b seen path)
  have new: "b \<notin> seen" using "2.prems"(1,4) by (auto simp: acyclic_def)
  obtain bin where bin: "map_of (ml_bins l) b = Some bin" using "2.prems"(3) by blast
  show ?case
  proof (cases "bn_parent bin")
    case None
    then have "\<not> (b, x) \<in> (bin_parents l)\<^sup>+" for x using bin by (auto simp: bin_parents_def dest!: tranclD)
    then show ?thesis using new bin None by simp
  next
    case (Some q)
    then have q: "(b, q) \<in> bin_parents l" using bin by (auto simp: bin_parents_def)
    have succ: "(b, x) \<in> (bin_parents l)\<^sup>+ \<longleftrightarrow> x = q \<or> (q, x) \<in> (bin_parents l)\<^sup>+" for x
    proof
      assume "(b, x) \<in> (bin_parents l)\<^sup>+"
      then obtain r where r: "(b, r) \<in> bin_parents l" "(r, x) \<in> (bin_parents l)\<^sup>*" by (meson tranclD)
      then have "r = q" using bin Some by (auto simp: bin_parents_def)
      then show "x = q \<or> (q, x) \<in> (bin_parents l)\<^sup>+" using r(2) by (auto dest: rtranclD)
    next
      assume "x = q \<or> (q, x) \<in> (bin_parents l)\<^sup>+"
      then show "(b, x) \<in> (bin_parents l)\<^sup>+" using q by (meson r_into_trancl trancl_into_trancl2)
    qed
    have stored: "q \<in> dom (map_of (ml_bins l))" using q "2.prems"(2) by (force simp: parents_stored_def)
    have "\<forall>x\<in>insert b seen. (x, q) \<in> (bin_parents l)\<^sup>+" using q "2.prems"(4) by (auto intro: trancl_into_trancl)
    from "2.hyps"[OF new bin Some "2.prems"(1,2) stored this] obtain p where
      "bin_path_loop l (Some q) (insert b seen) (path @ [b]) = Inr ((path @ [b]) @ q # p)"
      "set p = {x. (q, x) \<in> (bin_parents l)\<^sup>+}" by auto
    then show ?thesis using new bin Some succ by (intro exI[of _ "q # p"]) auto
  qed
qed

lemma bin_paths_iff:
  "(\<forall>b\<in>dom (map_of (ml_bins l)). \<exists>p. ml_bin_path l b = Inr p) \<longleftrightarrow> acyclic (bin_parents l) \<and> parents_stored l"
proof
  assume all: "\<forall>b\<in>dom (map_of (ml_bins l)). \<exists>p. ml_bin_path l b = Inr p"
  have run: "\<exists>p. bin_path_loop l (Some b) {} [] = Inr p" if "b \<in> dom (map_of (ml_bins l))" for b
    using all that by (auto simp: ml_bin_path_def result_simps)
  have stored: "parents_stored l"
    unfolding parents_stored_def
  proof
    fix q assume "q \<in> snd ` bin_parents l"
    then obtain b where q: "(b, q) \<in> bin_parents l" by auto
    then have "b \<in> dom (map_of (ml_bins l))" by (auto simp: bin_parents_def)
    with run[OF this] bin_path_ancestors q show "q \<in> dom (map_of (ml_bins l))" by (metis r_into_rtrancl)
  qed
  have "(b, b) \<notin> (bin_parents l)\<^sup>+" for b
  proof
    assume "(b, b) \<in> (bin_parents l)\<^sup>+"
    then obtain q where q: "(b, q) \<in> bin_parents l" "(q, b) \<in> (bin_parents l)\<^sup>*" by (meson tranclD)
    then obtain bin where bin: "map_of (ml_bins l) b = Some bin" "bn_parent bin = Some q" by (auto simp: bin_parents_def)
    with run[of b] obtain p where "bin_path_loop l (Some q) {b} [b] = Inr p" by auto
    from bin_path_ancestors[OF this q(2)] show False by simp
  qed
  with stored show "acyclic (bin_parents l) \<and> parents_stored l" by (simp add: acyclic_def)
next
  assume "acyclic (bin_parents l) \<and> parents_stored l"
  then show "\<forall>b\<in>dom (map_of (ml_bins l)). \<exists>p. ml_bin_path l b = Inr p"
    using bin_path_complete[of l _ "{}" "[]"] by (fastforce simp: ml_bin_path_def)
qed

section \<open>The library\<close>

text \<open>Every bin and every collection is stored under its own identity.\<close>

definition library_formed :: "media_library \<Rightarrow> bool" where
  "library_formed l \<longleftrightarrow> om_ok (ml_bins l) \<and> (\<forall>k b. map_of (ml_bins l) k = Some b \<longrightarrow> bn_id b = k \<and> os_ok (bn_media_ids b))"

definition bin_media :: "media_library \<Rightarrow> bin_id \<Rightarrow> media_id set" where
  "bin_media l k = (case map_of (ml_bins l) k of None \<Rightarrow> {} | Some b \<Rightarrow> set (bn_media_ids b))"

lemma validate_assigned_iff:
  "validate_assigned media ms assigned = Inr () \<longleftrightarrow> distinct ms \<and> set ms \<inter> assigned = {} \<and> set ms \<subseteq> dom (map_of media)"
  by (induction ms arbitrary: assigned) (auto simp: om_has_dom result_simps)

lemma traverse_ok: "(\<exists>ys. traverse f xs = Inr ys) \<longleftrightarrow> (\<forall>x\<in>set xs. \<exists>y. f x = Inr y)"
  by (induction xs) (auto simp: result_simps)

lemma distinct_concat_keys:
  "distinct (map fst xs) \<Longrightarrow> distinct (concat (map (\<lambda>x. g (snd x)) xs)) \<longleftrightarrow>
     (\<forall>x\<in>set xs. distinct (g (snd x))) \<and> (\<forall>x\<in>set xs. \<forall>y\<in>set xs. fst x \<noteq> fst y \<longrightarrow> set (g (snd x)) \<inter> set (g (snd y)) = {})"
proof (induction xs)
  case (Cons x xs)
  have key: "fst x \<noteq> fst y" if "y \<in> set xs" for y using Cons.prems that by (auto simp: image_iff)
  have "set (g (snd x)) \<inter> set (concat (map (\<lambda>x. g (snd x)) xs)) = {} \<longleftrightarrow>
      (\<forall>y\<in>set xs. set (g (snd x)) \<inter> set (g (snd y)) = {})" by auto
  moreover have "(\<forall>u\<in>set (x # xs). \<forall>v\<in>set (x # xs). fst u \<noteq> fst v \<longrightarrow> set (g (snd u)) \<inter> set (g (snd v)) = {}) \<longleftrightarrow>
      (\<forall>y\<in>set xs. set (g (snd x)) \<inter> set (g (snd y)) = {})
      \<and> (\<forall>u\<in>set xs. \<forall>v\<in>set xs. fst u \<noteq> fst v \<longrightarrow> set (g (snd u)) \<inter> set (g (snd v)) = {})"
    by (auto simp: key key[symmetric] Int_commute ball_conj_distrib cong: ball_cong)
  ultimately show ?case using Cons by (simp add: conj_ac)
qed simp

lemma bin_media_disjoint:
  assumes "library_formed l"
  shows "distinct (concat (map (\<lambda>b. bn_media_ids b) (map snd (ml_bins l))))
    \<longleftrightarrow> (\<forall>k k'. k \<noteq> k' \<longrightarrow> bin_media l k \<inter> bin_media l k' = {})"
proof -
  have om: "om_ok (ml_bins l)" using assms by (simp add: library_formed_def)
  have each: "distinct (bn_media_ids (snd x))" if "x \<in> set (ml_bins l)" for x
  proof (cases x)
    case (Pair k b)
    then show ?thesis using assms that om_entry[OF om, of k b] by (auto simp: library_formed_def dest: os_distinct)
  qed
  have cc: "concat (map (\<lambda>b. bn_media_ids b) (map snd (ml_bins l))) = concat (map (\<lambda>x. bn_media_ids (snd x)) (ml_bins l))"
    by (simp add: comp_def)
  have "distinct (concat (map (\<lambda>b. bn_media_ids b) (map snd (ml_bins l)))) \<longleftrightarrow>
      (\<forall>x\<in>set (ml_bins l). \<forall>y\<in>set (ml_bins l). fst x \<noteq> fst y \<longrightarrow> set (bn_media_ids (snd x)) \<inter> set (bn_media_ids (snd y)) = {})"
    unfolding cc using distinct_concat_keys[OF om_distinct[OF om], of bn_media_ids] each by blast
  also have "\<dots> \<longleftrightarrow> (\<forall>k b k' b'. map_of (ml_bins l) k = Some b \<longrightarrow> map_of (ml_bins l) k' = Some b' \<longrightarrow> k \<noteq> k'
      \<longrightarrow> set (bn_media_ids b) \<inter> set (bn_media_ids b') = {})"
  proof -
    have "(\<forall>x\<in>set (ml_bins l). P (fst x) (snd x)) \<longleftrightarrow> (\<forall>k b. map_of (ml_bins l) k = Some b \<longrightarrow> P k b)" for P
      by (simp add: om_entry[OF om, symmetric] Ball_def split_paired_all)
    note each_entry = this
    show ?thesis
      unfolding each_entry[of "\<lambda>k b. \<forall>y\<in>set (ml_bins l). k \<noteq> fst y \<longrightarrow> set (bn_media_ids b) \<inter> set (bn_media_ids (snd y)) = {}"]
      unfolding each_entry[of "\<lambda>k' b'. k \<noteq> k' \<longrightarrow> set (bn_media_ids b) \<inter> set (bn_media_ids b') = {}" for k b] by blast
  qed
  also have "\<dots> \<longleftrightarrow> (\<forall>k k'. k \<noteq> k' \<longrightarrow> bin_media l k \<inter> bin_media l k' = {})"
    unfolding bin_media_def by (fastforce split: option.splits)
  finally show ?thesis .
qed

lemma library_validates:
  assumes "library_formed l"
  shows "ml_validate l media = Inr () \<longleftrightarrow>
     (\<forall>k b. map_of (ml_bins l) k = Some b \<longrightarrow> \<not> is_blank (bn_name b) \<and> \<not> has_control (bn_name b))
     \<and> acyclic (bin_parents l) \<and> snd ` bin_parents l \<subseteq> dom (map_of (ml_bins l))
     \<and> (\<forall>k. bin_media l k \<subseteq> dom (map_of media)) \<and> (\<forall>k k'. k \<noteq> k' \<longrightarrow> bin_media l k \<inter> bin_media l k' = {})
     \<and> (\<forall>c\<in>snd ` set (ml_smart_collections l). sc_validate c = Inr ())"
proof -
  have om: "om_ok (ml_bins l)" using assms by (simp add: library_formed_def)
  have bins: "(\<exists>us. traverse (validate_bin l) (map snd (ml_bins l)) = Inr us) \<longleftrightarrow>
      (\<forall>k b. map_of (ml_bins l) k = Some b \<longrightarrow> \<not> is_blank (bn_name b) \<and> \<not> has_control (bn_name b))
      \<and> acyclic (bin_parents l) \<and> parents_stored l" (is "?l \<longleftrightarrow> ?names \<and> _ \<and> _")
  proof -
    have one: "(\<exists>u. validate_bin l b = Inr u) \<longleftrightarrow> \<not> is_blank (bn_name b) \<and> \<not> has_control (bn_name b)
        \<and> bn_parent b \<noteq> Some k \<and> (\<exists>p. ml_bin_path l k = Inr p)" if "map_of (ml_bins l) k = Some b" for k b
      using assms that by (auto simp: validate_bin_def result_simps require_text_simps library_formed_def)
    have "?l \<longleftrightarrow> (\<forall>k b. map_of (ml_bins l) k = Some b \<longrightarrow> (\<exists>u. validate_bin l b = Inr u))"
      unfolding traverse_ok by (auto simp: om_entry[OF om, symmetric] image_iff)
    also have "\<dots> \<longleftrightarrow> ?names \<and> (\<forall>k b. map_of (ml_bins l) k = Some b \<longrightarrow> bn_parent b \<noteq> Some k)
        \<and> (\<forall>k\<in>dom (map_of (ml_bins l)). \<exists>p. ml_bin_path l k = Inr p)"
      using one by (auto simp: dom_def)
    also have "\<dots> \<longleftrightarrow> ?names \<and> acyclic (bin_parents l) \<and> parents_stored l"
      unfolding bin_paths_iff by (auto simp: acyclic_def bin_parents_def) blast
    finally show ?thesis .
  qed
  have members: "set (concat (map (\<lambda>b. bn_media_ids b) (map snd (ml_bins l)))) = (\<Union>k. bin_media l k)"
  proof (rule set_eqI)
    fix m
    have "m \<in> set (concat (map (\<lambda>b. bn_media_ids b) (map snd (ml_bins l)))) \<longleftrightarrow> (\<exists>k b. (k, b) \<in> set (ml_bins l) \<and> m \<in> set (bn_media_ids b))"
      by (auto simp: Bex_def)
    also have "\<dots> \<longleftrightarrow> (\<exists>k. m \<in> bin_media l k)"
      unfolding om_entry[OF om] bin_media_def by (auto split: option.splits)
    finally show "m \<in> set (concat (map (\<lambda>b. bn_media_ids b) (map snd (ml_bins l)))) \<longleftrightarrow> m \<in> (\<Union>k. bin_media l k)" by simp
  qed
  have "ml_validate l media = Inr () \<longleftrightarrow> (\<exists>us. traverse (validate_bin l) (map snd (ml_bins l)) = Inr us)
      \<and> validate_assigned media (concat (map (\<lambda>b. bn_media_ids b) (map snd (ml_bins l)))) {} = Inr ()
      \<and> (\<exists>us. traverse sc_validate (map snd (ml_smart_collections l)) = Inr us)"
    by (auto simp: ml_validate_def result_simps)
  then show ?thesis
    unfolding bins validate_assigned_iff bin_media_disjoint[OF assms] members traverse_ok parents_stored_def
    by (simp add: UN_subset_iff conj_ac)
qed

lemma library_validates_facts:
  assumes "library_formed l" "ml_validate l media = Inr ()"
  shows "\<forall>k b. map_of (ml_bins l) k = Some b \<longrightarrow> \<not> is_blank (bn_name b) \<and> \<not> has_control (bn_name b)"
    and "acyclic (bin_parents l)" and "snd ` bin_parents l \<subseteq> dom (map_of (ml_bins l))"
    and "\<forall>k. bin_media l k \<subseteq> dom (map_of media)" and "\<forall>k k'. k \<noteq> k' \<longrightarrow> bin_media l k \<inter> bin_media l k' = {}"
    and "\<forall>c\<in>snd ` set (ml_smart_collections l). sc_validate c = Inr ()"
proof -
  note valid = assms(2)[unfolded library_validates[OF assms(1)]]
  note rest = valid[THEN conjunct2]
  show "\<forall>k b. map_of (ml_bins l) k = Some b \<longrightarrow> \<not> is_blank (bn_name b) \<and> \<not> has_control (bn_name b)"
    by (rule valid[THEN conjunct1])
  show "acyclic (bin_parents l)" by (rule rest[THEN conjunct1])
  show "snd ` bin_parents l \<subseteq> dom (map_of (ml_bins l))" by (rule rest[THEN conjunct2, THEN conjunct1])
  show "\<forall>k. bin_media l k \<subseteq> dom (map_of media)" by (rule rest[THEN conjunct2, THEN conjunct2, THEN conjunct1])
  show "\<forall>k k'. k \<noteq> k' \<longrightarrow> bin_media l k \<inter> bin_media l k' = {}"
    by (rule rest[THEN conjunct2, THEN conjunct2, THEN conjunct2, THEN conjunct1])
  show "\<forall>c\<in>snd ` set (ml_smart_collections l). sc_validate c = Inr ()"
    by (rule rest[THEN conjunct2, THEN conjunct2, THEN conjunct2, THEN conjunct2])
qed

text \<open>
  C18: A library validates exactly when it is a forest that shares nothing: every bin has a visible
  name, every parent is stored and no chain of parents returns to its bin, every member is linked
  media of the project, no media lies in two bins, and every collection is well formed.
\<close>

theorem library_validates_iff:
  assumes "library_formed l"
  shows "ml_validate l media = Inr () \<longleftrightarrow>
     (\<forall>k b. map_of (ml_bins l) k = Some b \<longrightarrow> \<not> is_blank (bn_name b) \<and> \<not> has_control (bn_name b))
     \<and> acyclic (bin_parents l) \<and> snd ` bin_parents l \<subseteq> dom (map_of (ml_bins l))
     \<and> (\<forall>k. bin_media l k \<subseteq> dom (map_of media)) \<and> (\<forall>k k'. k \<noteq> k' \<longrightarrow> bin_media l k \<inter> bin_media l k' = {})
     \<and> (\<forall>c\<in>snd ` set (ml_smart_collections l). sc_validate c = Inr ())"
  by (rule library_validates[OF assms])

text \<open>Two bins of the demo project: the rushes in a folder.\<close>

definition rushes :: media_library where
  "rushes = \<lparr>ml_bins = [(TypedId 1, \<lparr>bn_id = TypedId 1, bn_name = ''project'', bn_parent = None, bn_media_ids = []\<rparr>),
       (TypedId 2, \<lparr>bn_id = TypedId 2, bn_name = ''rushes'', bn_parent = Some (TypedId 1), bn_media_ids = [TypedId 9]\<rparr>)],
     ml_smart_collections = []\<rparr>"

lemma rushes_formed: "library_formed rushes"
  by (auto simp: library_formed_def rushes_def om_ok_def less_typed_id_def split: if_splits)

theorem library_validates_iff_witness:
  "acyclic (bin_parents rushes) \<and> bin_media rushes (TypedId 1) \<inter> bin_media rushes (TypedId 2) = {}"
proof -
  have "ml_validate rushes [(TypedId 9, interview)] = Inr ()" by code_simp
  with library_validates_iff[OF rushes_formed] show ?thesis by (auto simp del: One_nat_def)
qed

text \<open>What a move does to the members of every bin.\<close>

lemma remove_media_member:
  "os_ok (bn_media_ids b) \<Longrightarrow> set (bn_media_ids (snd (bn_remove_media b m))) = set (bn_media_ids b) - {m}
     \<and> os_ok (bn_media_ids (snd (bn_remove_media b m)))"
  by (auto simp: bn_remove_media_def)

lemma add_media_member:
  "os_ok (bn_media_ids b) \<Longrightarrow> set (bn_media_ids (snd (bn_add_media b m))) = insert m (set (bn_media_ids b))
     \<and> os_ok (bn_media_ids (snd (bn_add_media b m)))"
  by (auto simp: bn_add_media_def)

lemma bin_header [simp]:
  "bn_id (snd (bn_remove_media b m)) = bn_id b" "bn_name (snd (bn_remove_media b m)) = bn_name b"
  "bn_parent (snd (bn_remove_media b m)) = bn_parent b" "bn_id (snd (bn_add_media b m)) = bn_id b"
  "bn_name (snd (bn_add_media b m)) = bn_name b" "bn_parent (snd (bn_add_media b m)) = bn_parent b"
  by (simp_all add: bn_remove_media_def bn_add_media_def)


text \<open>A change that keeps every bin's name and parent keeps the forest.\<close>

lemma same_forest:
  assumes "\<And>k. map_option (\<lambda>b. (bn_name b, bn_parent b)) (map_of (ml_bins l') k)
      = map_option (\<lambda>b. (bn_name b, bn_parent b)) (map_of (ml_bins l) k)"
  shows "bin_parents l' = bin_parents l" "dom (map_of (ml_bins l')) = dom (map_of (ml_bins l))"
    and "(\<forall>k b. map_of (ml_bins l') k = Some b \<longrightarrow> P (bn_name b)) \<longleftrightarrow> (\<forall>k b. map_of (ml_bins l) k = Some b \<longrightarrow> P (bn_name b))"
proof -
  have "(\<exists>b. map_of (ml_bins l') k = Some b \<and> Q (bn_name b) (bn_parent b)) \<longleftrightarrow>
      (\<exists>b. map_of (ml_bins l) k = Some b \<and> Q (bn_name b) (bn_parent b))" for Q k
    using assms[of k] by (cases "map_of (ml_bins l) k"; cases "map_of (ml_bins l') k") auto
  note same = this
  show "bin_parents l' = bin_parents l" unfolding bin_parents_def using same[of _ "\<lambda>_ p. p = Some q" for q] by simp
  show "dom (map_of (ml_bins l')) = dom (map_of (ml_bins l))" using same[of _ "\<lambda>_ _. True"] by (auto simp: dom_def)
  show "(\<forall>k b. map_of (ml_bins l') k = Some b \<longrightarrow> P (bn_name b)) \<longleftrightarrow> (\<forall>k b. map_of (ml_bins l) k = Some b \<longrightarrow> P (bn_name b))"
    using same[of _ "\<lambda>n _. \<not> P n"] by metis
qed

lemma moved_bins:
  assumes "ml_move_media l m target = Some (Inr l')"
  shows "map_of (ml_bins l') k = map_option (\<lambda>b. (if target = Some k then \<lambda>b. snd (bn_add_media b m) else id)
           (snd (bn_remove_media b m))) (map_of (ml_bins l) k)"
    and "map fst (ml_bins l') = map fst (ml_bins l)" "ml_smart_collections l' = ml_smart_collections l"
proof -
  have each: "map_of (map (\<lambda>(k, b). (k, snd (bn_remove_media b m))) bs) k = map_option (\<lambda>b. snd (bn_remove_media b m)) (map_of bs k)"
    for bs k by (induction bs) auto
  have keys: "map fst (map (\<lambda>(k, b). (k, snd (bn_remove_media b m))) bs) = map fst bs" for bs by (induction bs) auto
  show "map_of (ml_bins l') k = map_option (\<lambda>b. (if target = Some k then \<lambda>b. snd (bn_add_media b m) else id)
           (snd (bn_remove_media b m))) (map_of (ml_bins l) k)"
    using assms by (auto simp: ml_move_media_def each Let_def option.map_comp comp_def split: if_splits option.splits)
  show "map fst (ml_bins l') = map fst (ml_bins l)" "ml_smart_collections l' = ml_smart_collections l"
    using assms by (auto simp: ml_move_media_def keys Let_def simp del: map_map split: if_splits option.splits)
qed

text \<open>
  C17: Moving linked media in a library that validates either reports the missing target bin or
  leaves the media in exactly the target bin, or in none, with every other member where it was, and
  the library still validates; the lookup that the code unwraps never fails.
\<close>

theorem move_media_relocates:
  assumes "library_formed l" "ml_validate l media = Inr ()" "om_has media m"
  shows "case ml_move_media l m target of None \<Rightarrow> False
     | Some (Inl e) \<Rightarrow> (\<exists>t. target = Some t \<and> \<not> om_has (ml_bins l) t \<and>
         e = media_not_found ''move_media'' ''target media bin was not found'' ''bin'' (id_display BinKind t))
     | Some (Inr l') \<Rightarrow> (\<forall>k. bin_media l' k = (if target = Some k then insert m (bin_media l k) else bin_media l k - {m}))
         \<and> library_formed l' \<and> ml_validate l' media = Inr ()"
proof -
  have found: "om_has (map (\<lambda>(k, b). (k, snd (bn_remove_media b m))) (ml_bins l)) t \<longleftrightarrow> om_has (ml_bins l) t" for t
    by (force simp: om_has_iff)
  have ok: "library_formed l' \<and> (\<forall>k. bin_media l' k = (if target = Some k then insert m (bin_media l k) else bin_media l k - {m}))"
    if l': "ml_move_media l m target = Some (Inr l')" for l'
  proof -
    note mv = moved_bins[OF l']
    have "om_ok (ml_bins l')" using assms(1) mv(2) by (simp add: library_formed_def om_ok_def)
    moreover have "bn_id b' = k \<and> os_ok (bn_media_ids b')" if "map_of (ml_bins l') k = Some b'" for k b'
      using that assms(1) remove_media_member add_media_member unfolding mv(1)
      by (auto simp: library_formed_def split: if_splits)
    moreover have "bin_media l' k = (if target = Some k then insert m (bin_media l k) else bin_media l k - {m})" for k
    proof (cases "map_of (ml_bins l) k")
      case None
      then have "target \<noteq> Some k" using l' by (auto simp: ml_move_media_def om_has_def)
      then show ?thesis using None mv(1)[of k] by (simp add: bin_media_def)
    next
      case (Some b)
      then have "os_ok (bn_media_ids b)" using assms(1) by (simp add: library_formed_def)
      then show ?thesis using Some mv(1)[of k] remove_media_member add_media_member by (auto simp: bin_media_def)
    qed
    ultimately show ?thesis by (simp add: library_formed_def)
  qed
  have "ml_validate l' media = Inr ()" if l': "ml_move_media l m target = Some (Inr l')" for l'
  proof -
    note mv = moved_bins[OF l']
    have "map_option (\<lambda>b. (bn_name b, bn_parent b)) (map_of (ml_bins l') k)
      = map_option (\<lambda>b. (bn_name b, bn_parent b)) (map_of (ml_bins l) k)" for k
      unfolding mv(1) by (cases "map_of (ml_bins l) k") auto
    note forest = same_forest[OF this]
    have upd: "bin_media l' k = (if target = Some k then insert m (bin_media l k) else bin_media l k - {m})" for k
      using ok[OF l'] by blast
    have members: "\<forall>k. bin_media l' k \<subseteq> dom (map_of media)" "\<forall>k k'. k \<noteq> k' \<longrightarrow> bin_media l' k \<inter> bin_media l' k' = {}"
    proof -
      show "\<forall>k. bin_media l' k \<subseteq> dom (map_of media)"
        using library_validates_facts(4)[OF assms(1,2)] assms(3) unfolding om_has_dom upd by auto
      show "\<forall>k k'. k \<noteq> k' \<longrightarrow> bin_media l' k \<inter> bin_media l' k' = {}"
      proof (intro allI impI)
        fix k k' :: bin_id assume "k \<noteq> k'"
        moreover from this have "bin_media l k \<inter> bin_media l k' = {}"
          using library_validates_facts(5)[OF assms(1,2)] by blast
        ultimately show "bin_media l' k \<inter> bin_media l' k' = {}" unfolding upd by auto
      qed
    qed
    show ?thesis
      using library_validates_facts[OF assms(1,2)] forest(3)[of "\<lambda>n. \<not> is_blank n \<and> \<not> has_control n"] members ok[OF l']
      by (simp add: library_validates forest(1,2) mv(3))
  qed
  with ok show ?thesis
    by (auto simp: ml_move_media_def found Let_def split: option.splits sum.splits if_splits; simp only: option.sel)
qed


theorem move_media_relocates_witness:
  "\<exists>l'. ml_move_media rushes (TypedId 9) (Some (TypedId 1)) = Some (Inr l')
     \<and> bin_media l' (TypedId 1) = {TypedId 9} \<and> bin_media l' (TypedId 2) = {}"
proof -
  have v: "ml_validate rushes [(TypedId 9, interview)] = Inr ()" by code_simp
  have "case ml_move_media rushes (TypedId 9) (Some (TypedId 1)) of Some (Inr l') \<Rightarrow> True | _ \<Rightarrow> False" by code_simp
  then obtain l' where l': "ml_move_media rushes (TypedId 9) (Some (TypedId 1)) = Some (Inr l')"
    by (auto split: option.splits sum.splits)
  have "om_has [(TypedId 9 :: media_id, interview)] (TypedId 9)" by (simp add: om_has_def)
  from move_media_relocates[OF rushes_formed v this, of "Some (TypedId 1)"] l'
  have "bin_media l' k = (if TypedId 1 = k then insert (TypedId 9) (bin_media rushes k) else bin_media rushes k - {TypedId 9})" for k
    by simp
  moreover have "bin_media rushes (TypedId 1) = {}" "bin_media rushes (TypedId 2) = {TypedId 9}"
    by (simp_all add: bin_media_def rushes_def)
  ultimately show ?thesis using l' by simp
qed

end
