(* ===== verification/Multicam.thy ===== *)
theory Multicam
  imports Markers
begin

text \<open>
  \<open>superi-timeline/src/multicam.rs\<close>: a multicam source groups the clips of its timeline into camera
  angles; a multicam clip cuts between the angles by a list of switches that tile its source range.
  An operation that changes a clip in place and then fails returns the state it leaves with the
  error. An outer \<open>None\<close> is a panic.
\<close>

section \<open>Errors\<close>

definition multicam_invalid :: "string \<Rightarrow> string \<Rightarrow> error_value" where
  "multicam_invalid operation message =
     err_with_context (err_new InvalidInput UserCorrectable message) (ctx_new ''superi-timeline.multicam'' operation)"

definition multicam_not_found :: "string \<Rightarrow> string \<Rightarrow> string \<Rightarrow> string \<Rightarrow> error_value" where
  "multicam_not_found operation message field val =
     err_with_context (err_new NotFound UserCorrectable message)
       (ctx_with_field (ctx_new ''superi-timeline.multicam'' operation) field val)"

definition multicam_conflict :: "string \<Rightarrow> string \<Rightarrow> string \<Rightarrow> string \<Rightarrow> error_value" where
  "multicam_conflict operation message field val =
     err_with_context (err_new Conflict UserCorrectable message)
       (ctx_with_field (ctx_new ''superi-timeline.multicam'' operation) field val)"

definition multicam_require_text :: "string \<Rightarrow> string \<Rightarrow> string \<Rightarrow> unit result" where
  "multicam_require_text operation field val =
     (if is_blank val
      then Inl (err_with_context (err_new InvalidInput UserCorrectable ''multicam text value must not be blank'')
             (ctx_with_field (ctx_new ''superi-timeline.multicam'' operation) ''field'' field))
      else Inr ())"

lemma multicam_error_cong [cong]:
  "multicam_invalid operation message = multicam_invalid operation message"
  "multicam_not_found operation message field val = multicam_not_found operation message field val"
  "multicam_conflict operation message field val = multicam_conflict operation message field val"
  by (rule refl)+

lemma multicam_require_text_Inr [result_simps]: "multicam_require_text operation field v = Inr u \<longleftrightarrow> \<not> is_blank v"
  by (auto simp: multicam_require_text_def)

section \<open>Angles\<close>

datatype multicam_sync_method = SyncManual | SyncTimecode | SyncInPoints | SyncOutPoints | SyncClipMarker string | SyncAudio

definition sync_validate :: "multicam_sync_method \<Rightarrow> unit result" where
  "sync_validate m = (case m of
       SyncClipMarker name \<Rightarrow> multicam_require_text ''validate_sync_method'' ''multicam synchronization marker name'' name
     | _ \<Rightarrow> Inr ())"

record multicam_angle =
  ma_id :: multicam_angle_id
  ma_name :: string
  ma_camera_label :: string
  ma_enabled :: bool
  ma_metadata :: timeline_metadata
  ma_source_clips :: "clip_id list"

fun unique_clips :: "clip_id list \<Rightarrow> clip_id set \<Rightarrow> unit result" where
  "unique_clips [] ids = Inr ()"
| "unique_clips (c # cs) ids =
     (if c \<in> ids
      then Inl (multicam_conflict ''validate_angle'' ''duplicate source clip identity within one multicam angle'' ''clip''
             (id_display ClipKind c))
      else unique_clips cs (insert c ids))"

definition validate_unique_clips :: "clip_id list \<Rightarrow> unit result" where
  "validate_unique_clips source_clips = unique_clips source_clips {}"

definition ma_validate :: "multicam_angle \<Rightarrow> unit result" where
  "ma_validate a =
     bindR (multicam_require_text ''validate_angle'' ''multicam angle name'' (ma_name a)) (\<lambda>_.
     bindR (multicam_require_text ''validate_angle'' ''multicam camera label'' (ma_camera_label a)) (\<lambda>_.
       validate_unique_clips (ma_source_clips a)))"

definition ma_new :: "multicam_angle_id \<Rightarrow> string \<Rightarrow> string \<Rightarrow> clip_id list \<Rightarrow> multicam_angle result" where
  "ma_new ident name camera_label source_clips =
     (let a = \<lparr>ma_id = ident, ma_name = name, ma_camera_label = camera_label, ma_enabled = True, ma_metadata = [],
               ma_source_clips = source_clips\<rparr>
      in bindR (ma_validate a) (\<lambda>_. Inr a))"

definition ma_set_name :: "multicam_angle \<Rightarrow> string \<Rightarrow> multicam_angle result" where
  "ma_set_name a name =
     bindR (multicam_require_text ''rename_angle'' ''multicam angle name'' name) (\<lambda>_. Inr (a\<lparr>ma_name := name\<rparr>))"

definition ma_set_camera_label :: "multicam_angle \<Rightarrow> string \<Rightarrow> multicam_angle result" where
  "ma_set_camera_label a camera_label =
     bindR (multicam_require_text ''label_angle'' ''multicam camera label'' camera_label) (\<lambda>_.
       Inr (a\<lparr>ma_camera_label := camera_label\<rparr>))"

definition ma_replace_source_clips :: "multicam_angle \<Rightarrow> clip_id list \<Rightarrow> multicam_angle result" where
  "ma_replace_source_clips a source_clips =
     bindR (validate_unique_clips source_clips) (\<lambda>_. Inr (a\<lparr>ma_source_clips := source_clips\<rparr>))"

text \<open>\<open>Vec::insert\<close> behind the original, and \<open>Vec::dedup\<close>: only adjacent repetitions go.\<close>

fun insert_behind :: "'a \<Rightarrow> 'a \<Rightarrow> 'a list \<Rightarrow> 'a list" where
  "insert_behind original created [] = []"
| "insert_behind original created (x # xs) =
     (if x = original then x # created # xs else x # insert_behind original created xs)"

fun replace_first :: "'a \<Rightarrow> 'a \<Rightarrow> 'a list \<Rightarrow> 'a list" where
  "replace_first removed inserted [] = []"
| "replace_first removed inserted (x # xs) =
     (if x = removed then inserted # xs else x # replace_first removed inserted xs)"

definition ma_inherit_source_fragment :: "multicam_angle \<Rightarrow> clip_id \<Rightarrow> clip_id \<Rightarrow> multicam_angle" where
  "ma_inherit_source_fragment a original created =
     (if List.member (ma_source_clips a) created then a
      else a\<lparr>ma_source_clips := insert_behind original created (ma_source_clips a)\<rparr>)"

definition ma_transfer_source_clip :: "multicam_angle \<Rightarrow> clip_id \<Rightarrow> clip_id \<Rightarrow> multicam_angle" where
  "ma_transfer_source_clip a removed inserted =
     (if List.member (ma_source_clips a) removed
      then a\<lparr>ma_source_clips := remdups_adj (replace_first removed inserted (ma_source_clips a))\<rparr> else a)"

definition ma_reconcile :: "multicam_angle \<Rightarrow> clip_id set \<Rightarrow> multicam_angle" where
  "ma_reconcile a existing = a\<lparr>ma_source_clips := filter (\<lambda>c. c \<in> existing) (ma_source_clips a)\<rparr>"

section \<open>Sources\<close>

record multicam_source =
  ms_sync_method :: multicam_sync_method
  ms_angles :: "multicam_angle list"

fun unshared_clips :: "clip_id list \<Rightarrow> clip_id set \<Rightarrow> (clip_id set) result" where
  "unshared_clips [] ids = Inr ids"
| "unshared_clips (c # cs) ids =
     (if c \<in> ids
      then Inl (multicam_conflict ''validate_source'' ''one source clip cannot belong to multiple multicam angles'' ''clip''
             (id_display ClipKind c))
      else unshared_clips cs (insert c ids))"

fun validate_angles :: "multicam_angle list \<Rightarrow> multicam_angle_id set \<Rightarrow> clip_id set \<Rightarrow> unit result" where
  "validate_angles [] angle_ids clip_ids = Inr ()"
| "validate_angles (a # as) angle_ids clip_ids =
     bindR (ma_validate a) (\<lambda>_.
     if ma_id a \<in> angle_ids
     then Inl (multicam_conflict ''validate_source'' ''duplicate multicam angle identity'' ''angle''
            (id_display MulticamAngleKind (ma_id a)))
     else bindR (unshared_clips (ma_source_clips a) clip_ids) (\<lambda>clip_ids.
       validate_angles as (insert (ma_id a) angle_ids) clip_ids))"

definition ms_validate :: "multicam_source \<Rightarrow> unit result" where
  "ms_validate s =
     bindR (sync_validate (ms_sync_method s)) (\<lambda>_.
     if length (ms_angles s) < 2
     then Inl (multicam_invalid ''validate_source'' ''a multicam source must retain at least two camera angles'')
     else validate_angles (ms_angles s) {} {})"

definition ms_new :: "multicam_sync_method \<Rightarrow> multicam_angle list \<Rightarrow> multicam_source result" where
  "ms_new sync_method angles =
     (let s = \<lparr>ms_sync_method = sync_method, ms_angles = angles\<rparr> in bindR (ms_validate s) (\<lambda>_. Inr s))"

definition ms_angle :: "multicam_source \<Rightarrow> multicam_angle_id \<Rightarrow> multicam_angle option" where
  "ms_angle s ident = find (\<lambda>a. ma_id a = ident) (ms_angles s)"

text \<open>The mutable borrow of the first angle of an identity: the client replaces it by \<open>f\<close> of itself.\<close>

fun update_first :: "('a \<Rightarrow> bool) \<Rightarrow> ('a \<Rightarrow> 'a) \<Rightarrow> 'a list \<Rightarrow> 'a list" where
  "update_first P f [] = []"
| "update_first P f (x # xs) = (if P x then f x # xs else x # update_first P f xs)"

definition ms_angle_mut ::
  "multicam_source \<Rightarrow> multicam_angle_id \<Rightarrow> (multicam_angle \<Rightarrow> multicam_angle) \<Rightarrow> multicam_source result" where
  "ms_angle_mut s ident f =
     (case ms_angle s ident of
        None \<Rightarrow> Inl (multicam_not_found ''find_angle'' ''multicam angle was not found'' ''angle''
          (id_display MulticamAngleKind ident))
      | Some _ \<Rightarrow> Inr (s\<lparr>ms_angles := update_first (\<lambda>a. ma_id a = ident) f (ms_angles s)\<rparr>))"

definition ms_set_sync_method :: "multicam_source \<Rightarrow> multicam_sync_method \<Rightarrow> multicam_source result" where
  "ms_set_sync_method s sync_method = bindR (sync_validate sync_method) (\<lambda>_. Inr (s\<lparr>ms_sync_method := sync_method\<rparr>))"

definition ms_replace_angles :: "multicam_source \<Rightarrow> multicam_angle list \<Rightarrow> multicam_source result" where
  "ms_replace_angles s angles =
     bindR (ms_new (ms_sync_method s) angles) (\<lambda>candidate. Inr (s\<lparr>ms_angles := ms_angles candidate\<rparr>))"

definition ms_inherit_source_fragment :: "multicam_source \<Rightarrow> clip_id \<Rightarrow> clip_id \<Rightarrow> multicam_source" where
  "ms_inherit_source_fragment s original created =
     s\<lparr>ms_angles := map (\<lambda>a. ma_inherit_source_fragment a original created) (ms_angles s)\<rparr>"

definition ms_transfer_source_clip :: "multicam_source \<Rightarrow> clip_id \<Rightarrow> clip_id \<Rightarrow> multicam_source" where
  "ms_transfer_source_clip s removed inserted =
     s\<lparr>ms_angles := map (\<lambda>a. ma_transfer_source_clip a removed inserted) (ms_angles s)\<rparr>"

definition ms_reconcile :: "multicam_source \<Rightarrow> clip_id set \<Rightarrow> multicam_source" where
  "ms_reconcile s existing = s\<lparr>ms_angles := map (\<lambda>a. ma_reconcile a existing) (ms_angles s)\<rparr>"

section \<open>Switches\<close>

datatype multicam_audio_policy = FollowVideo | FixedAudio multicam_angle_id | AllAngles

record multicam_switch =
  sw_source_range :: time_range
  sw_angle_id :: multicam_angle_id

record multicam_clip =
  mc_clip_id :: clip_id
  mc_switches :: "multicam_switch list"
  mc_audio_policy :: multicam_audio_policy

definition mc_new ::
  "clip_id \<Rightarrow> time_range \<Rightarrow> multicam_angle_id \<Rightarrow> multicam_audio_policy \<Rightarrow> multicam_clip result" where
  "mc_new clip_id source_range initial_angle audio_policy =
     (if tr_is_empty source_range \<or> rt_is_negative (tr_start source_range)
      then Inl (multicam_invalid ''create_multicam_clip''
             ''multicam switch coverage must be nonempty and start at or after source zero'')
      else Inr \<lparr>mc_clip_id = clip_id, mc_switches = [\<lparr>sw_source_range = source_range, sw_angle_id = initial_angle\<rparr>],
                mc_audio_policy = audio_policy\<rparr>)"

fun angle_scan :: "multicam_switch list \<Rightarrow> rational_time \<Rightarrow> multicam_angle_id result" where
  "angle_scan [] source_time =
     Inl (multicam_invalid ''resolve_angle'' ''multicam source time lies outside the clip switch program'')"
| "angle_scan (s # ss) source_time =
     bindR (tr_contains (sw_source_range s) source_time) (\<lambda>inside.
       if inside then Inr (sw_angle_id s) else angle_scan ss source_time)"

definition mc_angle_at :: "multicam_clip \<Rightarrow> rational_time \<Rightarrow> multicam_angle_id result" where
  "mc_angle_at c source_time = angle_scan (mc_switches c) source_time"

text \<open>The last switch grows when the next one continues it on the same angle.\<close>

definition push_switch :: "multicam_switch list \<Rightarrow> multicam_switch \<Rightarrow> (multicam_switch list) result" where
  "push_switch output following =
     (if output \<noteq> [] \<and> sw_angle_id (last output) = sw_angle_id following
      then bindR (tr_end_exclusive (sw_source_range (last output))) (\<lambda>last_end.
        if rt_eq last_end (tr_start (sw_source_range following))
        then bindR (tr_end_exclusive (sw_source_range following)) (\<lambda>next_end.
             bindR (tr_from_start_end (tr_start (sw_source_range (last output))) next_end) (\<lambda>r.
               Inr (butlast output @ [(last output)\<lparr>sw_source_range := r\<rparr>])))
        else Inr (output @ [following]))
      else Inr (output @ [following]))"

definition switch_step ::
  "time_range \<Rightarrow> rational_time \<Rightarrow> multicam_angle_id \<Rightarrow> multicam_switch \<Rightarrow> multicam_switch list
     \<Rightarrow> (multicam_switch list) result" where
  "switch_step source_range range_end angle_id s output =
     bindR (tr_end_exclusive (sw_source_range s)) (\<lambda>switch_end.
     if rt_le switch_end (tr_start source_range) \<or> rt_le range_end (tr_start (sw_source_range s))
     then push_switch output s
     else
     bindR (if rt_lt (tr_start (sw_source_range s)) (tr_start source_range)
            then bindR (tr_from_start_end (tr_start (sw_source_range s)) (tr_start source_range)) (\<lambda>r.
                 push_switch output \<lparr>sw_source_range = r, sw_angle_id = sw_angle_id s\<rparr>)
            else Inr output) (\<lambda>output.
     let overlap_start = (if rt_lt (tr_start source_range) (tr_start (sw_source_range s))
                          then tr_start (sw_source_range s) else tr_start source_range);
         overlap_end = (if rt_lt switch_end range_end then switch_end else range_end)
     in
     bindR (tr_from_start_end overlap_start overlap_end) (\<lambda>r.
     bindR (push_switch output \<lparr>sw_source_range = r, sw_angle_id = angle_id\<rparr>) (\<lambda>output.
     if rt_lt range_end switch_end
     then bindR (tr_from_start_end range_end switch_end) (\<lambda>r.
          push_switch output \<lparr>sw_source_range = r, sw_angle_id = sw_angle_id s\<rparr>)
     else Inr output))))"

definition mc_coverage :: "multicam_clip \<Rightarrow> time_range option" where
  "mc_coverage c =
     (if mc_switches c = [] then None
      else case tr_end_exclusive (sw_source_range (last (mc_switches c))) of
        Inl _ \<Rightarrow> None
      | Inr e \<Rightarrow> (case tr_from_start_end (tr_start (sw_source_range (hd (mc_switches c)))) e of
                    Inl _ \<Rightarrow> None | Inr r \<Rightarrow> Some r))"

fun partition_scan :: "multicam_switch list \<Rightarrow> rational_time \<Rightarrow> unit result" where
  "partition_scan [] expected = Inr ()"
| "partition_scan (s # ss) expected =
     (if tr_is_empty (sw_source_range s) \<or> \<not> rt_eq (tr_start (sw_source_range s)) expected
         \<or> tr_timebase (sw_source_range s) \<noteq> rt_timebase expected
      then Inl (multicam_invalid ''validate_switches''
             ''multicam switch intervals must be nonempty, gapless, and use one source clock'')
      else bindR (tr_end_exclusive (sw_source_range s)) (\<lambda>e. partition_scan ss e))"

definition validate_partition :: "multicam_clip \<Rightarrow> unit result" where
  "validate_partition c =
     (case mc_switches c of
        [] \<Rightarrow> Inl (multicam_invalid ''validate_switches'' ''multicam clip must retain one or more switch intervals'')
      | s # ss \<Rightarrow> partition_scan (s # ss) (tr_start (sw_source_range s)))"

definition mc_switch_range ::
  "multicam_clip \<Rightarrow> time_range \<Rightarrow> multicam_angle_id \<Rightarrow> (unit result \<times> multicam_clip) option" where
  "mc_switch_range c source_range angle_id =
     (case mc_coverage c of
        None \<Rightarrow> None
      | Some coverage \<Rightarrow> Some (
          let output =
            bindR (if tr_is_empty source_range \<or> tr_timebase source_range \<noteq> tr_timebase coverage
                      \<or> rt_lt (tr_start source_range) (tr_start coverage) then Inr True
                   else bindR (tr_end_exclusive source_range) (\<lambda>range_end.
                        bindR (tr_end_exclusive coverage) (\<lambda>coverage_end. Inr (rt_lt coverage_end range_end)))) (\<lambda>outside.
            if outside
            then Inl (multicam_invalid ''switch_angle''
                   ''multicam switch range must be a nonempty subrange of complete source coverage'')
            else bindR (tr_end_exclusive source_range) (\<lambda>range_end.
              foldR (switch_step source_range range_end angle_id) (mc_switches c) []))
          in case output of
            Inl e \<Rightarrow> (Inl e, c)
          | Inr output \<Rightarrow> (let c = c\<lparr>mc_switches := output\<rparr> in (validate_partition c, c))))"

fun cut_index :: "multicam_switch list \<Rightarrow> rational_time \<Rightarrow> nat option" where
  "cut_index (s # t # ss) at_time =
     (if (case tr_end_exclusive (sw_source_range s) of Inl _ \<Rightarrow> False | Inr e \<Rightarrow> rt_eq e at_time)
         \<and> rt_eq (tr_start (sw_source_range t)) at_time
      then Some 0 else map_option Suc (cut_index (t # ss) at_time))"
| "cut_index _ at_time = None"

definition mc_move_cut ::
  "multicam_clip \<Rightarrow> rational_time \<Rightarrow> rational_time \<Rightarrow> unit result \<times> multicam_clip" where
  "mc_move_cut c at_time to_time =
     (if rt_timebase at_time \<noteq> rt_timebase to_time
      then (Inl (multicam_invalid ''move_switch_cut'' ''multicam cut coordinates must use one exact source clock''), c)
      else case cut_index (mc_switches c) at_time of
        None \<Rightarrow> (Inl (multicam_not_found ''move_switch_cut'' ''multicam switch cut was not found'' ''cut''
                  (rt_display at_time)), c)
      | Some index \<Rightarrow>
          let left = mc_switches c ! index; right = mc_switches c ! (index + 1); left_start = tr_start (sw_source_range left) in
          case tr_end_exclusive (sw_source_range right) of
            Inl e \<Rightarrow> (Inl e, c)
          | Inr right_end \<Rightarrow>
              if rt_le to_time left_start \<or> rt_le right_end to_time \<or> rt_eq to_time at_time
              then (Inl (multicam_invalid ''move_switch_cut''
                      ''moved multicam cut must stay inside both neighboring switch extents''), c)
              else case tr_from_start_end left_start to_time of
                Inl e \<Rightarrow> (Inl e, c)
              | Inr left_range \<Rightarrow>
                  let c = c\<lparr>mc_switches := (mc_switches c)[index := left\<lparr>sw_source_range := left_range\<rparr>]\<rparr> in
                  case tr_from_start_end to_time right_end of
                    Inl e \<Rightarrow> (Inl e, c)
                  | Inr right_range \<Rightarrow>
                      let c = c\<lparr>mc_switches := (mc_switches c)[index + 1 := right\<lparr>sw_source_range := right_range\<rparr>]\<rparr>
                      in (validate_partition c, c))"

definition require_angle ::
  "multicam_source \<Rightarrow> multicam_angle_id \<Rightarrow> string \<Rightarrow> string \<Rightarrow> unit result" where
  "require_angle source angle_id missing disabled =
     bindR (ok_or (ms_angle source angle_id) (multicam_not_found ''validate_multicam_clip'' missing ''angle''
       (id_display MulticamAngleKind angle_id))) (\<lambda>angle.
     if \<not> ma_enabled angle then Inl (multicam_invalid ''validate_multicam_clip'' disabled) else Inr ())"

definition mc_validate_against :: "multicam_clip \<Rightarrow> multicam_source \<Rightarrow> time_range \<Rightarrow> unit result option" where
  "mc_validate_against c source complete_source_range =
     bindP (Some (validate_partition c)) (\<lambda>_.
     case mc_coverage c of
       None \<Rightarrow> None
     | Some coverage \<Rightarrow> Some (
         if \<not> tr_eq coverage complete_source_range
         then Inl (multicam_invalid ''validate_multicam_clip''
                ''multicam switch program must exactly cover the complete source timeline'')
         else
         bindR (traverse (\<lambda>s. require_angle source (sw_angle_id s) ''multicam switch references a missing source angle''
                  ''multicam switch references a disabled source angle'') (mc_switches c)) (\<lambda>_.
         case mc_audio_policy c of
           FixedAudio angle_id \<Rightarrow> require_angle source angle_id ''fixed multicam audio references a missing source angle''
             ''fixed multicam audio references a disabled source angle''
         | _ \<Rightarrow> Inr ())))"

end
