(* ===== verification/MulticamProps.thy ===== *)
theory MulticamProps
  imports Multicam EditProps
begin

text \<open>
  The properties of multicam: switching a range is a functional override of the angle the clip
  shows, moving a cut changes it only between the two cuts, and the bookkeeping of source clips
  keeps every clip in one angle.
\<close>

section \<open>Switch programs as functions of time\<close>

abbreviation sw_lo :: "multicam_switch \<Rightarrow> int" where
  "sw_lo s \<equiv> rt_value (tr_start (sw_source_range s))"

abbreviation sw_hi :: "multicam_switch \<Rightarrow> int" where
  "sw_hi s \<equiv> tr_end (sw_source_range s)"

fun sw_tiles :: "timebase \<Rightarrow> int \<Rightarrow> multicam_switch list \<Rightarrow> int \<Rightarrow> bool" where
  "sw_tiles tb lo [] hi \<longleftrightarrow> lo = hi"
| "sw_tiles tb lo (s # ss) hi \<longleftrightarrow> tr_ok (sw_source_range s) \<and> tr_timebase (sw_source_range s) = tb
     \<and> sw_lo s = lo \<and> lo < sw_hi s \<and> sw_tiles tb (sw_hi s) ss hi"

fun sw_at :: "multicam_switch list \<Rightarrow> rat \<Rightarrow> multicam_angle_id option" where
  "sw_at [] x = None"
| "sw_at (s # ss) x = (if of_int (sw_lo s) \<le> x \<and> x < of_int (sw_hi s) then Some (sw_angle_id s) else sw_at ss x)"

lemma sw_tiles_append: "sw_tiles tb lo (xs @ ys) hi \<longleftrightarrow> (\<exists>m. sw_tiles tb lo xs m \<and> sw_tiles tb m ys hi)"
  by (induction xs arbitrary: lo) auto

lemma sw_tiles_ok: "sw_tiles tb lo ss hi \<Longrightarrow> \<forall>s\<in>set ss. tr_ok (sw_source_range s) \<and> tr_timebase (sw_source_range s) = tb"
  by (induction ss arbitrary: lo) auto

lemma sw_tiles_le: "sw_tiles tb lo ss hi \<Longrightarrow> lo \<le> hi \<and> (ss \<noteq> [] \<longrightarrow> lo < hi)"
  by (induction ss arbitrary: lo) force+

lemma sw_at_append: "sw_at (xs @ ys) x = (case sw_at xs x of None \<Rightarrow> sw_at ys x | Some a \<Rightarrow> Some a)"
  by (induction xs) auto

lemma sw_at_None: "sw_tiles tb lo ss hi \<Longrightarrow> sw_at ss x = None \<longleftrightarrow> \<not> (of_int lo \<le> x \<and> x < of_int hi)"
proof (induction ss arbitrary: lo)
  case (Cons s ss)
  have "(of_int (sw_lo s) :: rat) < of_int (sw_hi s)" "(of_int (sw_hi s) :: rat) \<le> of_int hi"
    using Cons.prems sw_tiles_le[of tb "sw_hi s" ss hi] by simp_all
  then show ?case using Cons.prems Cons.IH[of "sw_hi s"] by auto
qed auto

lemma ticks_secs: "tb_ok tb \<Longrightarrow> of_int v \<le> secs t * rate tb \<longleftrightarrow> secs (rt_new v tb) \<le> secs t"
  "tb_ok tb \<Longrightarrow> secs t * rate tb < of_int v \<longleftrightarrow> secs t < secs (rt_new v tb)"
  using rate_pos[of tb] by (simp_all add: secs_def[of "rt_new v tb"] field_simps)

lemma tr_contains_ticks:
  assumes "tr_ok r" "rt_ok t"
  shows "tr_contains r t = Inr (of_int (rt_value (tr_start r)) \<le> secs t * rate (tr_timebase r)
     \<and> secs t * rate (tr_timebase r) < of_int (tr_end r))"
proof -
  have tb: "tb_ok (tr_timebase r)" using assms(1) by (simp add: tr_ok_def rt_ok_def tr_timebase_def)
  show ?thesis unfolding tr_contains_ok[OF assms] ticks_secs[OF tb] by (simp add: tr_timebase_def)
qed

lemma angle_scan_at:
  assumes "\<forall>s\<in>set ss. tr_ok (sw_source_range s) \<and> tr_timebase (sw_source_range s) = tb" "rt_ok t"
  shows "angle_scan ss t = ok_or (sw_at ss (secs t * rate tb))
     (multicam_invalid ''resolve_angle'' ''multicam source time lies outside the clip switch program'')"
  using assms(1) by (induction ss) (simp_all add: tr_contains_ticks[OF _ assms(2)])

lemma start_end_range:
  assumes "tr_ok r" "tr_ok r'" "tr_timebase r' = tr_timebase r" "rt_value (tr_start r) \<le> tr_end r'"
    "tr_end r' - rt_value (tr_start r) < 2 ^ 63"
  shows "\<exists>q. tr_from_start_end (tr_start r) (rt_new (tr_end r') (tr_timebase r')) = Inr q \<and> tr_ok q
     \<and> tr_timebase q = tr_timebase r \<and> rt_value (tr_start q) = rt_value (tr_start r) \<and> tr_end q = tr_end r'"
proof -
  have s: "rt_ok (tr_start r)" using assms(1) by (simp add: tr_ok_def)
  note e = tr_end_ok(2)[OF assms(2)]
  obtain q where q: "tr_from_start_end (tr_start r) (rt_new (tr_end r') (tr_timebase r')) = Inr q"
    unfolding tr_from_start_end_iff[OF s e] using assms(3-5) by (auto simp: tr_timebase_def)
  with tr_from_start_end_ok[OF s e q] show ?thesis by (auto simp: tr_timebase_def)
qed

lemma push_switch_spec:
  assumes "sw_tiles tb lo out m" "sw_tiles tb m [s] n" "n - lo < 2 ^ 63" "distinct_adj (map sw_angle_id out)"
  shows "\<exists>out'. push_switch out s = Inr out' \<and> sw_tiles tb lo out' n \<and> distinct_adj (map sw_angle_id out') \<and> out' \<noteq> []
     \<and> (\<forall>x. sw_at out' x = (if of_int m \<le> x \<and> x < of_int n then Some (sw_angle_id s) else sw_at out x))"
proof (cases "out \<noteq> [] \<and> sw_angle_id (last out) = sw_angle_id s")
  case False
  then have "push_switch out s = Inr (out @ [s])" by (auto simp: push_switch_def)
  moreover have "sw_tiles tb lo (out @ [s]) n" using assms(1,2) sw_tiles_append by blast
  moreover have "sw_at (out @ [s]) x = (if of_int m \<le> x \<and> x < of_int n then Some (sw_angle_id s) else sw_at out x)" for x
    using sw_at_None[OF assms(1), of x] assms(2) by (auto simp: sw_at_append split: option.splits)
  moreover have "distinct_adj (map sw_angle_id (out @ [s]))"
    using False assms(4) by (auto simp: distinct_adj_append_iff last_map)
  ultimately show ?thesis by blast
next
  case True
  define p where "p = last out"
  have out: "out = butlast out @ [p]" using True by (simp add: p_def)
  obtain k where k: "sw_tiles tb lo (butlast out) k" "sw_tiles tb k [p] m"
    using assms(1) sw_tiles_append[of tb lo "butlast out" "[p]" m] out by metis
  have lo: "lo \<le> k" using sw_tiles_le[OF k(1)] by blast
  have p: "tr_ok (sw_source_range p)" "tr_timebase (sw_source_range p) = tb" "sw_lo p = k" "sw_hi p = m" "k < m" using k(2) by auto
  have s: "tr_ok (sw_source_range s)" "tr_timebase (sw_source_range s) = tb" "sw_lo s = m" "sw_hi s = n" "m < n" using assms(2) by auto
  obtain q where q: "tr_from_start_end (tr_start (sw_source_range p)) (rt_new n tb) = Inr q" "tr_ok q" "tr_timebase q = tb"
    "rt_value (tr_start q) = k" "tr_end q = n"
    using start_end_range[OF p(1) s(1)] p s lo assms(3) by auto
  have eq: "rt_eq (rt_new m tb) (tr_start (sw_source_range s))"
    using rt_same_timebase(1)[OF tr_end_ok(2)[OF p(1)], of "tr_start (sw_source_range s)"] p s
    by (simp add: tr_ok_def tr_timebase_def)
  let ?out = "butlast out @ [p\<lparr>sw_source_range := q\<rparr>]"
  have "push_switch out s = Inr ?out"
    using True p s q eq by (simp add: push_switch_def p_def[symmetric] tr_end_ok(1))
  moreover have "sw_tiles tb lo ?out n" unfolding sw_tiles_append using k(1) q p(5) s(5) by auto
  moreover have "map sw_angle_id ?out = map sw_angle_id out" by (subst (2) out) simp
  moreover have "sw_at ?out x = (if of_int m \<le> x \<and> x < of_int n then Some (sw_angle_id s) else sw_at out x)" for x
  proof -
    have "(of_int k :: rat) < of_int m" "(of_int m :: rat) < of_int n" using p(5) s(5) by simp_all
    then show ?thesis
      using sw_at_None[OF k(1), of x] True q p
      by (subst (2) out) (auto simp: sw_at_append p_def[symmetric] split: option.splits)
  qed
  ultimately show ?thesis using assms(4) by auto
qed


section \<open>Coverage\<close>

text \<open>What the two scans of a clip establish of its switches.\<close>

lemma partition_scan_tiles:
  assumes "\<forall>s\<in>set ss. tr_ok (sw_source_range s)" "rt_ok expected"
  shows "partition_scan ss expected = Inr () \<longleftrightarrow> (\<exists>hi. sw_tiles (rt_timebase expected) (rt_value expected) ss hi)"
  using assms
proof (induction ss arbitrary: expected)
  case (Cons s ss)
  have s: "tr_ok (sw_source_range s)" "rt_ok (tr_start (sw_source_range s))" using Cons.prems(1) by (simp_all add: tr_ok_def)
  have pos: "\<not> tr_is_empty (sw_source_range s) \<longleftrightarrow> sw_lo s < sw_hi s"
    using s(1) by (auto simp: tr_is_empty_def du_is_zero_def tr_end_def tr_ok_def du_ok_def)
  have same: "rt_eq (tr_start (sw_source_range s)) expected \<longleftrightarrow> sw_lo s = rt_value expected"
    if "tr_timebase (sw_source_range s) = rt_timebase expected"
    using rt_same_timebase(1)[OF s(2) Cons.prems(2)] that by (simp add: tr_timebase_def)
  note IH = Cons.IH[OF _ tr_end_ok(2)[OF s(1)]]
  show ?case
    using Cons.prems(1) same pos s(1) IH by (cases "tr_timebase (sw_source_range s) = rt_timebase expected") (auto simp: tr_end_ok(1))
next
  case Nil
  then show ?case by (auto intro: exI[of _ "rt_value expected"])
qed

definition switches_tile :: "multicam_clip \<Rightarrow> timebase \<Rightarrow> int \<Rightarrow> int \<Rightarrow> bool" where
  "switches_tile c tb lo hi \<longleftrightarrow> mc_switches c \<noteq> [] \<and> sw_tiles tb lo (mc_switches c) hi"

lemma validate_partition_tiles:
  assumes "\<forall>s\<in>set (mc_switches c). tr_ok (sw_source_range s)"
  shows "validate_partition c = Inr () \<longleftrightarrow> (\<exists>tb lo hi. switches_tile c tb lo hi)"
proof (cases "mc_switches c")
  case (Cons s ss)
  have s: "tr_ok (sw_source_range s)" "rt_ok (tr_start (sw_source_range s))" using assms Cons by (simp_all add: tr_ok_def)
  show ?thesis
    using partition_scan_tiles[OF _ s(2), of "s # ss"] assms
    by (auto simp: validate_partition_def Cons switches_tile_def tr_timebase_def)
qed (simp add: validate_partition_def switches_tile_def)

lemma sw_tiles_last: "sw_tiles tb lo ss hi \<Longrightarrow> ss \<noteq> [] \<Longrightarrow> sw_hi (last ss) = hi \<and> sw_lo (hd ss) = lo"
  by (induction ss arbitrary: lo) auto

lemma range_by_ends:
  assumes "tr_ok r" "tr_timebase r = rt_timebase s" "rt_value (tr_start r) = rt_value s"
  shows "r = \<lparr>tr_start = s, tr_duration = \<lparr>du_value = tr_end r - rt_value s, du_timebase = rt_timebase s\<rparr>\<rparr>"
proof -
  obtain t d where r: "r = \<lparr>tr_start = t, tr_duration = d\<rparr>" by (cases r)
  obtain v tb where t: "t = \<lparr>rt_value = v, rt_timebase = tb\<rparr>" by (cases t)
  obtain n tb' where d: "d = \<lparr>du_value = n, du_timebase = tb'\<rparr>" by (cases d)
  show ?thesis using assms by (cases s) (simp add: r t d tr_end_def tr_ok_def tr_timebase_def)
qed

lemma coverage_spec:
  assumes "switches_tile c tb lo hi"
  shows "mc_coverage c = Some r \<longleftrightarrow> hi - lo < 2 ^ 63 \<and> tr_ok r \<and> tr_timebase r = tb \<and> rt_value (tr_start r) = lo \<and> tr_end r = hi"
proof -
  have c: "mc_switches c \<noteq> []" "sw_tiles tb lo (mc_switches c) hi" using assms by (simp_all add: switches_tile_def)
  let ?f = "hd (mc_switches c)" and ?l = "last (mc_switches c)"
  have ok: "tr_ok (sw_source_range ?f)" "tr_ok (sw_source_range ?l)" "tr_timebase (sw_source_range ?f) = tb"
    "tr_timebase (sw_source_range ?l) = tb" using sw_tiles_ok[OF c(2)] c(1) by simp_all
  note ends = sw_tiles_last[OF c(2,1)] and le = sw_tiles_le[OF c(2)]
  have s: "rt_ok (tr_start (sw_source_range ?f))" using ok(1) by (simp add: tr_ok_def)
  have e: "rt_ok (rt_new hi tb)" using tr_end_ok(2)[OF ok(2)] ends ok(4) by simp
  have "mc_coverage c = Some r \<longleftrightarrow> tr_from_start_end (tr_start (sw_source_range ?f)) (rt_new hi tb) = Inr r"
    using c(1) ends ok by (auto simp: mc_coverage_def tr_end_ok(1) split: sum.splits)
  also have "\<dots> \<longleftrightarrow> hi - lo < 2 ^ 63 \<and> r = \<lparr>tr_start = tr_start (sw_source_range ?f), tr_duration = \<lparr>du_value = hi - lo, du_timebase = tb\<rparr>\<rparr>"
    unfolding tr_from_start_end_iff[OF s e] using le ends ok by (auto simp: tr_timebase_def)
  also have "\<dots> \<longleftrightarrow> hi - lo < 2 ^ 63 \<and> tr_ok r \<and> tr_timebase r = tb \<and> rt_value (tr_start r) = lo \<and> tr_end r = hi"
  proof -
    let ?r = "\<lparr>tr_start = tr_start (sw_source_range ?f), tr_duration = \<lparr>du_value = hi - lo, du_timebase = tb\<rparr>\<rparr>"
    have "tr_ok ?r \<and> tr_timebase ?r = tb \<and> rt_value (tr_start ?r) = lo \<and> tr_end ?r = hi" if "hi - lo < 2 ^ 63"
      using that le ends s e ok by (auto simp: tr_ok_def du_ok_def rt_ok_def tr_timebase_def tr_end_def)
    moreover have "r = ?r" if "tr_ok r \<and> tr_timebase r = tb \<and> rt_value (tr_start r) = lo \<and> tr_end r = hi"
      using range_by_ends[of r "tr_start (sw_source_range ?f)"] that ends ok by (simp add: tr_timebase_def)
    ultimately show ?thesis by blast
  qed
  finally show ?thesis .
qed


section \<open>Switching a range\<close>

lemma between_range:
  assumes "rt_ok (rt_new v tb)" "rt_ok (rt_new w tb)" "v < w" "w - v < 2 ^ 63"
  shows "\<exists>q. tr_from_start_end (rt_new v tb) (rt_new w tb) = Inr q
     \<and> sw_tiles tb v [\<lparr>sw_source_range = q, sw_angle_id = a\<rparr>] w"
proof -
  obtain q where q: "tr_from_start_end (rt_new v tb) (rt_new w tb) = Inr q"
    unfolding tr_from_start_end_iff[OF assms(1,2)] using assms(3,4) by auto
  with tr_from_start_end_ok[OF assms(1,2) q] assms(3) show ?thesis by auto
qed

text \<open>One turn of the loop, on a part of the program that the output already covers up to.\<close>

definition overridden :: "int \<Rightarrow> int \<Rightarrow> multicam_angle_id \<Rightarrow> multicam_switch list \<Rightarrow> rat \<Rightarrow> multicam_angle_id option" where
  "overridden v w a ss x =
     (if sw_at ss x \<noteq> None \<and> of_int v \<le> x \<and> x < of_int w then Some a else sw_at ss x)"

lemma switch_step_spec:
  assumes out: "sw_tiles tb lo out m" "distinct_adj (map sw_angle_id out)"
    and s: "sw_tiles tb m [s] n" and n: "n - lo < 2 ^ 63"
    and r: "tr_ok r" "tr_timebase r = tb" "v = rt_value (tr_start r)" "w = tr_end r" "v < w"
  shows "\<exists>out'. switch_step r (rt_new w tb) a s out = Inr out' \<and> sw_tiles tb lo out' n \<and> distinct_adj (map sw_angle_id out') \<and> out' \<noteq> []
     \<and> (\<forall>x. sw_at out' x = (if of_int m \<le> x \<and> x < of_int n
           then Some (if of_int v \<le> x \<and> x < of_int w then a else sw_angle_id s) else sw_at out x))"
proof -
  have sok: "tr_ok (sw_source_range s)" "tr_timebase (sw_source_range s) = tb" "sw_lo s = m" "sw_hi s = n" "m < n" using s by auto
  have starts: "tr_start (sw_source_range s) = rt_new m tb" "tr_start r = rt_new v tb"
    using sok(2,3) r(2,3) by (metis rt_new_eta tr_timebase_def)+
  have ok: "rt_ok (rt_new m tb)" "rt_ok (rt_new n tb)" "rt_ok (rt_new v tb)" "rt_ok (rt_new w tb)"
  proof -
    have "rt_ok (tr_start (sw_source_range s))" "rt_ok (tr_start r)" using sok(1) r(1) by (simp_all only: tr_ok_def)
    then show "rt_ok (rt_new m tb)" "rt_ok (rt_new v tb)" by (simp_all only: starts)
    show "rt_ok (rt_new n tb)" using tr_end_ok(2)[OF sok(1)] by (simp only: sok(2,4))
    show "rt_ok (rt_new w tb)" using tr_end_ok(2)[OF r(1)] by (simp only: r(2,4))
  qed
  have lo: "lo \<le> m" using sw_tiles_le[OF out(1)] by blast
  note cmp = rt_same_timebase(2,3)[OF ok(1) ok(3)] rt_same_timebase(2,3)[OF ok(3) ok(1)]
    rt_same_timebase(2,3)[OF ok(2) ok(4)] rt_same_timebase(2,3)[OF ok(4) ok(2)]
    rt_same_timebase(2,3)[OF ok(2) ok(3)] rt_same_timebase(2,3)[OF ok(4) ok(1)]
  show ?thesis
  proof (cases "n \<le> v \<or> w \<le> m")
    case True
    then have "switch_step r (rt_new w tb) a s out = push_switch out s"
      using starts cmp sok by (simp add: switch_step_def tr_end_ok(1))
    moreover have "(if of_int v \<le> x \<and> x < of_int w then a else sw_angle_id s) = sw_angle_id s"
      if "of_int m \<le> x" "x < of_int n" for x :: rat
    proof -
      have "(of_int n :: rat) \<le> of_int v \<or> (of_int w :: rat) \<le> of_int m" using True by simp
      then show ?thesis using that by auto
    qed
    ultimately show ?thesis using push_switch_spec[OF out(1) s n out(2)] by (auto cong: if_cong)
  next
    case False
    obtain out1 k where o1: "(if m < v then bindR (tr_from_start_end (rt_new m tb) (rt_new v tb)) (\<lambda>q.
           push_switch out \<lparr>sw_source_range = q, sw_angle_id = sw_angle_id s\<rparr>) else Inr out) = Inr out1"
      "k = max m v" "sw_tiles tb lo out1 k" "distinct_adj (map sw_angle_id out1)"
      "\<And>x. sw_at out1 x = (if of_int m \<le> x \<and> x < of_int k then Some (sw_angle_id s) else sw_at out x)"
    proof (cases "m < v")
      case True
      obtain q where q: "tr_from_start_end (rt_new m tb) (rt_new v tb) = Inr q"
        "sw_tiles tb m [\<lparr>sw_source_range = q, sw_angle_id = sw_angle_id s\<rparr>] v"
        using between_range[OF ok(1,3) True] False lo n by fastforce
      show ?thesis
        using push_switch_spec[OF out(1) q(2) _ out(2)] q(1) True False n that[of _ v] by (auto simp: max_def)
    next
      case m: False
      have "sw_at out x = (if of_int m \<le> x \<and> x < of_int m then Some (sw_angle_id s) else sw_at out x)" for x :: rat by auto
      then show ?thesis using that[of out m] out m by (simp add: max_def)
    qed
    define e where "e = min n w"
    have ke: "k < e" "m \<le> k" "e \<le> n" "rt_ok (rt_new k tb)" "rt_ok (rt_new e tb)"
      using False sok(5) r(5) ok o1(2) by (auto simp: e_def max_def min_def)
    obtain q where q: "tr_from_start_end (rt_new k tb) (rt_new e tb) = Inr q" "sw_tiles tb k [\<lparr>sw_source_range = q, sw_angle_id = a\<rparr>] e"
      using between_range[OF ke(4,5,1)] ke lo n by fastforce
    obtain out2 where o2: "push_switch out1 \<lparr>sw_source_range = q, sw_angle_id = a\<rparr> = Inr out2" "sw_tiles tb lo out2 e"
      "distinct_adj (map sw_angle_id out2)" "out2 \<noteq> []"
      "\<And>x. sw_at out2 x = (if of_int k \<le> x \<and> x < of_int e then Some a else sw_at out1 x)"
      using push_switch_spec[OF o1(3) q(2) _ o1(4)] ke(3) n by auto
    have step: "switch_step r (rt_new w tb) a s out = (if w < n
        then bindR (tr_from_start_end (rt_new w tb) (rt_new n tb)) (\<lambda>q.
             push_switch out2 \<lparr>sw_source_range = q, sw_angle_id = sw_angle_id s\<rparr>) else Inr out2)"
    proof -
      have en: "tr_end_exclusive (sw_source_range s) = Inr (rt_new n tb)" using sok by (simp add: tr_end_ok(1))
      have g: "\<not> (rt_le (rt_new n tb) (tr_start r) \<or> rt_le (rt_new w tb) (tr_start (sw_source_range s)))"
        using False starts cmp by simp
      have s1: "(if rt_lt (tr_start (sw_source_range s)) (tr_start r)
          then bindR (tr_from_start_end (tr_start (sw_source_range s)) (tr_start r)) (\<lambda>q.
            push_switch out \<lparr>sw_source_range = q, sw_angle_id = sw_angle_id s\<rparr>) else Inr out) = Inr out1"
        unfolding starts cmp(1)[simplified] using o1(1) by simp
      have ov: "(if rt_lt (tr_start r) (tr_start (sw_source_range s)) then tr_start (sw_source_range s) else tr_start r) = rt_new k tb"
        "(if rt_lt (rt_new n tb) (rt_new w tb) then rt_new n tb else rt_new w tb) = rt_new e tb"
        using starts cmp by (auto simp: o1(2) e_def)
      have c: "rt_lt (rt_new w tb) (rt_new n tb) \<longleftrightarrow> w < n" using cmp by simp
      show ?thesis
        unfolding switch_step_def en bindR_simps if_not_P[OF g] s1 Let_def ov q(1) o2(1) c by (rule refl)
    qed
    obtain out3 where o3: "switch_step r (rt_new w tb) a s out = Inr out3" "sw_tiles tb lo out3 n" "distinct_adj (map sw_angle_id out3)"
      "out3 \<noteq> []" "\<And>x. sw_at out3 x = (if of_int e \<le> x \<and> x < of_int n then Some (sw_angle_id s) else sw_at out2 x)"
    proof (cases "w < n")
      case True
      obtain q where q: "tr_from_start_end (rt_new w tb) (rt_new n tb) = Inr q"
        "sw_tiles tb w [\<lparr>sw_source_range = q, sw_angle_id = sw_angle_id s\<rparr>] n"
        using between_range[OF ok(4,2) True] False lo n by fastforce
      have "sw_tiles tb lo out2 w" using o2(2) True by (simp add: e_def)
      from push_switch_spec[OF this q(2) n o2(3)] show ?thesis using that q(1) step True by (auto simp: e_def)
    next
      case w: False
      then have "e = n" by (simp add: e_def)
      moreover from this have "sw_at out2 x = (if of_int e \<le> x \<and> x < of_int n then Some (sw_angle_id s) else sw_at out2 x)" for x :: rat
        by auto
      ultimately show ?thesis using that[of out2] o2(1-4) w step by simp
    qed
    have point: "sw_at out3 x = (if of_int m \<le> x \<and> x < of_int n
           then Some (if of_int v \<le> x \<and> x < of_int w then a else sw_angle_id s) else sw_at out x)" for x
    proof -
      have "of_int k = max (of_int m :: rat) (of_int v)" "of_int e = min (of_int n :: rat) (of_int w)"
        "(of_int m :: rat) < of_int n" "(of_int v :: rat) < of_int w" "(of_int v :: rat) < of_int n" "(of_int m :: rat) < of_int w"
        using False sok(5) r(5) by (simp_all add: o1(2) e_def)
      then show ?thesis unfolding o3(5) o2(5) o1(5) by (auto simp: max_def min_def split: if_splits)
    qed
    show ?thesis using o3(1-4) point by blast
  qed
qed


text \<open>The whole loop.\<close>

lemma switch_loop_spec:
  assumes r: "tr_ok r" "tr_timebase r = tb" "v = rt_value (tr_start r)" "w = tr_end r" "v < w"
  shows "sw_tiles tb lo out m \<Longrightarrow> distinct_adj (map sw_angle_id out) \<Longrightarrow> sw_tiles tb m ss n \<Longrightarrow> n - lo < 2 ^ 63 \<Longrightarrow>
     \<exists>out'. foldR (switch_step r (rt_new w tb) a) ss out = Inr out' \<and> sw_tiles tb lo out' n
       \<and> distinct_adj (map sw_angle_id out') \<and> (out \<noteq> [] \<or> ss \<noteq> [] \<longrightarrow> out' \<noteq> [])
       \<and> (\<forall>x. sw_at out' x = (case sw_at ss x of None \<Rightarrow> sw_at out x
            | Some b \<Rightarrow> Some (if of_int v \<le> x \<and> x < of_int w then a else b)))"
proof (induction ss arbitrary: out m)
  case (Cons s ss)
  have s: "sw_tiles tb m [s] (sw_hi s)" "sw_tiles tb (sw_hi s) ss n" using Cons.prems(3) by auto
  have "sw_hi s \<le> n" using sw_tiles_le[OF s(2)] by blast
  then have "sw_hi s - lo < 2 ^ 63" using Cons.prems(4) by linarith
  from switch_step_spec[OF Cons.prems(1,2) s(1) this r] obtain out1 where o1:
    "switch_step r (rt_new w tb) a s out = Inr out1" "sw_tiles tb lo out1 (sw_hi s)" "distinct_adj (map sw_angle_id out1)" "out1 \<noteq> []"
    "\<And>x. sw_at out1 x = (if of_int m \<le> x \<and> x < of_int (sw_hi s)
           then Some (if of_int v \<le> x \<and> x < of_int w then a else sw_angle_id s) else sw_at out x)" by blast
  have m: "sw_lo s = m" using Cons.prems(3) by simp
  have rest: "sw_at ss x = None" if "x < of_int (sw_hi s)" for x
    using sw_at_None[OF s(2), of x] that by simp
  from Cons.IH[OF o1(2,3) s(2) Cons.prems(4)] obtain out' where o':
    "foldR (switch_step r (rt_new w tb) a) ss out1 = Inr out'" "sw_tiles tb lo out' n" "distinct_adj (map sw_angle_id out')" "out' \<noteq> []"
    "\<And>x. sw_at out' x = (case sw_at ss x of None \<Rightarrow> sw_at out1 x | Some b \<Rightarrow> Some (if of_int v \<le> x \<and> x < of_int w then a else b))"
    using o1(4) by blast
  have "sw_at out' x = (case sw_at (s # ss) x of None \<Rightarrow> sw_at out x | Some b \<Rightarrow> Some (if of_int v \<le> x \<and> x < of_int w then a else b))" for x
  proof (cases "of_int m \<le> x \<and> x < of_int (sw_hi s)")
    case True
    then show ?thesis using rest[of x] by (simp add: o'(5) o1(5) m)
  next
    case False
    then have "sw_at out1 x = sw_at out x" "sw_at (s # ss) x = sw_at ss x" by (auto simp: o1(5) m)
    then show ?thesis by (simp only: o'(5))
  qed
  then show ?case using o1(1) o'(1-4) by auto
qed auto


text \<open>
  C16: A multicam clip whose switches tile its source range takes a new switch exactly when its
  range is a nonempty part of the coverage on the same clock; then the clip shows the new angle
  inside the range and what it showed before everywhere else, on any clock, the coverage stays, the
  switches tile it, and no cut is left between two switches of one angle. A refused range changes nothing.
\<close>

theorem switch_range_overrides:
  assumes "\<forall>s\<in>set (mc_switches c). tr_ok (sw_source_range s)" "validate_partition c = Inr ()"
    "mc_coverage c = Some coverage" "tr_ok r"
  shows "if \<not> tr_is_empty r \<and> tr_timebase r = tr_timebase coverage \<and> rt_value (tr_start coverage) \<le> rt_value (tr_start r)
        \<and> tr_end r \<le> tr_end coverage
     then \<exists>c'. mc_switch_range c r a = Some (Inr (), c') \<and> validate_partition c' = Inr () \<and> mc_coverage c' = Some coverage
       \<and> distinct_adj (map sw_angle_id (mc_switches c'))
       \<and> (\<forall>t. rt_ok t \<longrightarrow> mc_angle_at c' t = (if tr_contains r t = Inr True then Inr a else mc_angle_at c t))
     else mc_switch_range c r a = Some (Inl (multicam_invalid ''switch_angle''
       ''multicam switch range must be a nonempty subrange of complete source coverage''), c)"
proof -
  obtain tb lo hi where tiles: "switches_tile c tb lo hi" using validate_partition_tiles[OF assms(1)] assms(2) by blast
  note cov = assms(3)[unfolded coverage_spec[OF tiles]]
  have c: "mc_switches c \<noteq> []" "sw_tiles tb lo (mc_switches c) hi" using tiles by (simp_all add: switches_tile_def)
  let ?fits = "\<not> tr_is_empty r \<and> tr_timebase r = tr_timebase coverage \<and> rt_value (tr_start coverage) \<le> rt_value (tr_start r)
        \<and> tr_end r \<le> tr_end coverage"
  have ends: "tr_end_exclusive r = Inr (rt_new (tr_end r) (tr_timebase r))"
    "tr_end_exclusive coverage = Inr (rt_new (tr_end coverage) (tr_timebase coverage))"
    using tr_end_ok(1) assms(4) cov by blast+
  have "(if ?fits then Inr False else Inr True) =
      (if tr_is_empty r \<or> tr_timebase r \<noteq> tr_timebase coverage \<or> rt_lt (tr_start r) (tr_start coverage) then Inr True
       else bindR (tr_end_exclusive r) (\<lambda>range_end. bindR (tr_end_exclusive coverage) (\<lambda>coverage_end.
         Inr (rt_lt coverage_end range_end))) :: bool result)"
  proof (cases "tr_timebase r = tr_timebase coverage")
    case True
    have "rt_ok (tr_start r)" "rt_ok (tr_start coverage)" using assms(4) cov by (simp_all add: tr_ok_def)
    then have "rt_lt (tr_start r) (tr_start coverage) \<longleftrightarrow> rt_value (tr_start r) < rt_value (tr_start coverage)"
      using True by (simp add: rt_same_timebase(2) tr_timebase_def)
    moreover have "rt_lt (rt_new (tr_end coverage) (tr_timebase coverage)) (rt_new (tr_end r) (tr_timebase r)) \<longleftrightarrow> tr_end coverage < tr_end r"
      using rt_same_timebase(2)[OF tr_end_ok(2)[of coverage] tr_end_ok(2)[OF assms(4)]] cov True by simp
    ultimately show ?thesis using True ends by auto
  qed simp
  note outside = this[symmetric]
  show ?thesis
  proof (cases ?fits)
    case False
    show ?thesis unfolding mc_switch_range_def assms(3) option.case outside if_not_P[OF False] by simp
  next
    case True
    have r: "tr_timebase r = tb" "rt_value (tr_start r) < tr_end r"
      using True cov assms(4) by (auto simp: tr_is_empty_def du_is_zero_def tr_end_def tr_ok_def du_ok_def)
    have start: "sw_tiles tb lo [] lo" "distinct_adj (map sw_angle_id ([] :: multicam_switch list))" by simp_all
    from cov have short: "hi - lo < 2 ^ 63" by blast
    obtain out where out: "foldR (switch_step r (rt_new (tr_end r) tb) a) (mc_switches c) [] = Inr out" "sw_tiles tb lo out hi"
      "distinct_adj (map sw_angle_id out)" "out \<noteq> []"
      "\<And>x. sw_at out x = (case sw_at (mc_switches c) x of None \<Rightarrow> None
            | Some b \<Rightarrow> Some (if of_int (rt_value (tr_start r)) \<le> x \<and> x < of_int (tr_end r) then a else b))"
      using switch_loop_spec[OF assms(4) r(1) refl refl r(2) start c(2) short, of a] c(1) unfolding sw_at.simps(1) by blast
    let ?c = "c\<lparr>mc_switches := out\<rparr>"
    have tiles': "switches_tile ?c tb lo hi" using out(2,4) by (simp add: switches_tile_def)
    have ok': "\<forall>s\<in>set (mc_switches ?c). tr_ok (sw_source_range s)" using sw_tiles_ok[OF out(2)] by simp
    have valid: "validate_partition ?c = Inr ()" using validate_partition_tiles[OF ok'] tiles' by blast
    have "mc_switch_range c r a = Some (Inr (), ?c)"
      unfolding mc_switch_range_def assms(3) option.case outside if_P[OF True] using out(1) ends valid r(1) by simp
    moreover have "mc_angle_at ?c t = (if tr_contains r t = Inr True then Inr a else mc_angle_at c t)" if t: "rt_ok t" for t
    proof -
      have "(of_int lo :: rat) \<le> of_int (rt_value (tr_start r))" "(of_int (tr_end r) :: rat) \<le> of_int hi" using True cov by auto
      then show ?thesis
        using sw_at_None[OF c(2), of "secs t * rate tb"]
        by (auto simp: mc_angle_at_def angle_scan_at[OF sw_tiles_ok[OF c(2)] t] angle_scan_at[OF sw_tiles_ok[OF out(2)] t] out(5)
            tr_contains_ticks[OF assms(4) t] r(1) split: option.splits)
    qed
    ultimately show ?thesis using True valid cov out(3) coverage_spec[OF tiles'] by auto
  qed
qed


text \<open>A two-camera program, cut once.\<close>

definition cam_range :: "int \<Rightarrow> int \<Rightarrow> time_range" where
  "cam_range v n = \<lparr>tr_start = rt_new v (tb_from_reduced 24 1), tr_duration = \<lparr>du_value = n, du_timebase = tb_from_reduced 24 1\<rparr>\<rparr>"

definition interview_cut :: multicam_clip where
  "interview_cut = \<lparr>mc_clip_id = TypedId 7, mc_switches = [\<lparr>sw_source_range = cam_range 0 48, sw_angle_id = TypedId 1\<rparr>,
     \<lparr>sw_source_range = cam_range 48 24, sw_angle_id = TypedId 2\<rparr>], mc_audio_policy = FollowVideo\<rparr>"

lemma cam_range_ok: "in_i64 v \<Longrightarrow> 0 \<le> n \<Longrightarrow> n < 2 ^ 63 \<Longrightarrow> in_i64 (v + n) \<Longrightarrow> tr_ok (cam_range v n)"
  by (simp add: cam_range_def tr_ok_def rt_ok_def du_ok_def)

theorem switch_range_overrides_witness:
  "\<exists>c'. mc_switch_range interview_cut (cam_range 24 48) (TypedId 3) = Some (Inr (), c')
     \<and> mc_angle_at c' (rt_new 30 (tb_from_reduced 24 1)) = Inr (TypedId 3)
     \<and> mc_angle_at c' (rt_new 0 tb_seconds) = Inr (TypedId 1)"
proof -
  have ok: "\<forall>s\<in>set (mc_switches interview_cut). tr_ok (sw_source_range s)" "tr_ok (cam_range 24 48)"
    by (simp_all add: interview_cut_def cam_range_ok in_i64_def)
  have valid: "validate_partition interview_cut = Inr ()"
    by (rule returns_iff[THEN iffD1]) code_simp
  have cov: "mc_coverage interview_cut = Some (cam_range 0 72)" by code_simp
  have fits: "\<not> tr_is_empty (cam_range 24 48) \<and> tr_timebase (cam_range 24 48) = tr_timebase (cam_range 0 72)
      \<and> rt_value (tr_start (cam_range 0 72)) \<le> rt_value (tr_start (cam_range 24 48)) \<and> tr_end (cam_range 24 48) \<le> tr_end (cam_range 0 72)"
    by code_simp
  from switch_range_overrides[OF ok(1) valid cov ok(2), of "TypedId 3"] fits obtain c' where
    c': "mc_switch_range interview_cut (cam_range 24 48) (TypedId 3) = Some (Inr (), c')"
    "\<forall>t. rt_ok t \<longrightarrow> mc_angle_at c' t = (if tr_contains (cam_range 24 48) t = Inr True then Inr (TypedId 3) else mc_angle_at interview_cut t)"
    by auto
  have ts: "rt_ok (rt_new 30 (tb_from_reduced 24 1))" "rt_ok (rt_new 0 tb_seconds)" by (simp_all add: rt_ok_def in_i64_def tb_seconds_def)
  have "returns (tr_contains (cam_range 24 48) (rt_new 30 (tb_from_reduced 24 1))) True"
    "returns (tr_contains (cam_range 24 48) (rt_new 0 tb_seconds)) False"
    "returns (mc_angle_at interview_cut (rt_new 0 tb_seconds)) (TypedId 1)" by code_simp+
  then show ?thesis using c' ts by (auto simp: returns_iff)
qed


section \<open>Source clips\<close>

lemma unique_clips_Inr: "unique_clips cs ids = Inr u \<longleftrightarrow> distinct cs \<and> set cs \<inter> ids = {}"
  by (induction cs arbitrary: ids) auto

lemma unshared_clips_Inr: "unshared_clips cs ids = Inr out \<longleftrightarrow> distinct cs \<and> set cs \<inter> ids = {} \<and> out = ids \<union> set cs"
  by (induction cs arbitrary: ids) auto

lemma ma_validate_Inr:
  "ma_validate a = Inr u \<longleftrightarrow> \<not> is_blank (ma_name a) \<and> \<not> is_blank (ma_camera_label a) \<and> distinct (ma_source_clips a)"
  by (auto simp: ma_validate_def validate_unique_clips_def result_simps unique_clips_Inr)

lemma validate_angles_Inr:
  "validate_angles as angle_ids clip_ids = Inr u \<longleftrightarrow>
     (\<forall>a\<in>set as. \<not> is_blank (ma_name a) \<and> \<not> is_blank (ma_camera_label a)) \<and> distinct (map ma_id as) \<and> ma_id ` set as \<inter> angle_ids = {}
     \<and> distinct (concat (map (\<lambda>a. ma_source_clips a) as)) \<and> set (concat (map (\<lambda>a. ma_source_clips a) as)) \<inter> clip_ids = {}"
proof (induction as arbitrary: angle_ids clip_ids)
  case (Cons a as)
  have "validate_angles (a # as) angle_ids clip_ids = Inr u \<longleftrightarrow> ma_validate a = Inr () \<and> ma_id a \<notin> angle_ids
      \<and> distinct (ma_source_clips a) \<and> set (ma_source_clips a) \<inter> clip_ids = {}
      \<and> validate_angles as (insert (ma_id a) angle_ids) (clip_ids \<union> set (ma_source_clips a)) = Inr u"
    by (auto simp: result_simps unshared_clips_Inr)
  also have "\<dots> \<longleftrightarrow> (\<forall>a\<in>set (a # as). \<not> is_blank (ma_name a) \<and> \<not> is_blank (ma_camera_label a)) \<and> distinct (map ma_id (a # as))
      \<and> ma_id ` set (a # as) \<inter> angle_ids = {} \<and> distinct (concat (map (\<lambda>a. ma_source_clips a) (a # as)))
      \<and> set (concat (map (\<lambda>a. ma_source_clips a) (a # as))) \<inter> clip_ids = {}"
    unfolding Cons.IH ma_validate_Inr by auto
  finally show ?case .
qed simp

definition source_clips :: "multicam_source \<Rightarrow> clip_id list" where
  "source_clips s = concat (map (\<lambda>a. ma_source_clips a) (ms_angles s))"

lemma ms_validate_Inr:
  "ms_validate s = Inr () \<longleftrightarrow> sync_validate (ms_sync_method s) = Inr () \<and> 2 \<le> length (ms_angles s)
     \<and> (\<forall>a\<in>set (ms_angles s). \<not> is_blank (ma_name a) \<and> \<not> is_blank (ma_camera_label a))
     \<and> distinct (map ma_id (ms_angles s)) \<and> distinct (source_clips s)"
  by (auto simp: ms_validate_def result_simps validate_angles_Inr source_clips_def)

definition member_of :: "multicam_source \<Rightarrow> (clip_id \<times> multicam_angle_id) set" where
  "member_of s = {(c, ma_id a) |c a. a \<in> set (ms_angles s) \<and> c \<in> set (ma_source_clips a)}"

lemma member_iff: "(c, k) \<in> member_of s \<longleftrightarrow> (\<exists>a\<in>set (ms_angles s). k = ma_id a \<and> c \<in> set (ma_source_clips a))"
  by (auto simp: member_of_def)

lemma members_map:
  "(c, k) \<in> member_of (s\<lparr>ms_angles := map f (ms_angles s)\<rparr>) \<longleftrightarrow>
     (\<exists>a\<in>set (ms_angles s). k = ma_id (f a) \<and> c \<in> set (ma_source_clips (f a)))"
  by (auto simp: member_of_def)

text \<open>A change of the member lists that keeps them disjoint keeps the source valid.\<close>

lemma distinct_concat_members:
  "distinct (map ma_id as) \<Longrightarrow> distinct (concat (map g as)) \<longleftrightarrow>
     (\<forall>a\<in>set as. distinct (g a)) \<and> (\<forall>a\<in>set as. \<forall>b\<in>set as. ma_id a \<noteq> ma_id b \<longrightarrow> set (g a) \<inter> set (g b) = {})"
proof (induction as)
  case (Cons a as)
  have other: "ma_id b \<noteq> ma_id a" if "b \<in> set as" for b
    using Cons.prems that by (metis distinct.simps(2) image_eqI list.simps(9) set_map)
  have "set (concat (map g as)) = (\<Union>b\<in>set as. set (g b))" by simp
  then have "distinct (concat (map g (a # as))) \<longleftrightarrow> distinct (g a) \<and> distinct (concat (map g as)) \<and> (\<forall>b\<in>set as. set (g a) \<inter> set (g b) = {})"
    by auto
  moreover have "distinct (map ma_id as)" using Cons.prems by simp
  note IH = Cons.IH[OF this]
  moreover have "(\<forall>b\<in>set (a # as). ma_id c \<noteq> ma_id b \<longrightarrow> set (g c) \<inter> set (g b) = {}) \<longleftrightarrow>
      (\<forall>b\<in>set as. ma_id c \<noteq> ma_id b \<longrightarrow> set (g c) \<inter> set (g b) = {}) \<and> set (g a) \<inter> set (g c) = {}" if "c \<in> set as" for c
    using other[OF that] by auto
  moreover have "(\<forall>b\<in>set (a # as). ma_id a \<noteq> ma_id b \<longrightarrow> set (g a) \<inter> set (g b) = {}) \<longleftrightarrow>
      (\<forall>b\<in>set as. set (g a) \<inter> set (g b) = {})"
    using other by (metis list.set_intros(2) set_ConsD)
  ultimately show ?case by (simp only: list.set ball_simps cong: ball_cong) blast
qed simp

lemma change_members:
  assumes "ms_validate s = Inr ()"
    and same: "\<And>a. ma_id (f a) = ma_id a \<and> ma_name (f a) = ma_name a \<and> ma_camera_label (f a) = ma_camera_label a"
  shows "ms_validate (s\<lparr>ms_angles := map f (ms_angles s)\<rparr>) = Inr () \<longleftrightarrow>
     (\<forall>a\<in>set (ms_angles s). distinct (ma_source_clips (f a)))
     \<and> (\<forall>a\<in>set (ms_angles s). \<forall>b\<in>set (ms_angles s). ma_id a \<noteq> ma_id b \<longrightarrow> set (ma_source_clips (f a)) \<inter> set (ma_source_clips (f b)) = {})"
proof -
  note v = assms(1)[unfolded ms_validate_Inr source_clips_def]
  have "distinct (map ma_id (ms_angles s))" using v by blast
  from distinct_concat_members[OF this, of "\<lambda>a. ma_source_clips (f a)"] show ?thesis
    using v same by (simp add: ms_validate_Inr source_clips_def comp_def)
qed

lemma set_insert_behind: "set (insert_behind x y xs) = (if x \<in> set xs then insert y (set xs) else set xs)"
  by (induction xs) auto

lemma distinct_insert_behind: "distinct xs \<Longrightarrow> y \<notin> set xs \<Longrightarrow> distinct (insert_behind x y xs)"
  by (induction xs) (auto simp: set_insert_behind)

lemma set_replace_first: "distinct xs \<Longrightarrow> x \<in> set xs \<Longrightarrow> set (replace_first x y xs) = insert y (set xs - {x})"
  by (induction xs) auto

lemma replace_first_subset: "set (replace_first x y xs) \<subseteq> insert y (set xs)"
  by (induction xs) auto

text \<open>The replacement also lies in the list: only beside the replaced element are the two merged.\<close>

definition beside :: "'a list \<Rightarrow> 'a \<Rightarrow> 'a \<Rightarrow> bool" where
  "beside xs x y \<longleftrightarrow> (\<exists>us vs. xs = us @ [x, y] @ vs \<or> xs = us @ [y, x] @ vs)"

lemma replace_first_split: "x \<notin> set us \<Longrightarrow> replace_first x y (us @ x # vs) = us @ y # vs"
  by (induction us) auto

lemma remdups_adj_double: "distinct (us @ y # vs) \<Longrightarrow> remdups_adj (us @ y # y # vs) = us @ y # vs"
  using remdups_adj_append[of us y "y # vs"] by (simp add: remdups_adj_distinct)

lemma remdups_adj_apart:
  assumes "bs \<noteq> []" "y \<notin> set bs"
  shows "\<not> distinct (remdups_adj (us @ y # bs @ y # vs))"
proof -
  obtain z cs where bs: "bs = z # cs" "z \<noteq> y" using assms by (cases bs) auto
  have "remdups_adj (us @ y # bs @ y # vs) = remdups_adj (us @ [y]) @ tl (remdups_adj (y # bs @ y # vs))"
    by (rule remdups_adj_append)
  also have "tl (remdups_adj (y # bs @ y # vs)) = remdups_adj (bs @ y # vs)" using bs by simp
  finally show ?thesis by simp
qed

lemma distinct_transfer:
  assumes "distinct xs" "x \<in> set xs"
  shows "distinct (remdups_adj (replace_first x y xs)) \<longleftrightarrow> y = x \<or> y \<notin> set xs \<or> beside xs x y"
proof
  obtain us vs where xs: "xs = us @ x # vs" "x \<notin> set us" using split_list_first[OF assms(2)] by blast
  have rep: "replace_first x y xs = us @ y # vs" unfolding xs(1) by (rule replace_first_split[OF xs(2)])
  show "y = x \<or> y \<notin> set xs \<or> beside xs x y" if d: "distinct (remdups_adj (replace_first x y xs))"
  proof (rule ccontr)
    assume "\<not> ?thesis"
    then have no: "y \<noteq> x" "\<not> beside xs x y" and "y \<in> set us \<or> y \<in> set vs" using xs(1) by auto
    from this(3) show False
    proof
      assume "y \<in> set us"
      then obtain as bs where us: "us = as @ y # bs" by (auto dest: split_list)
      have "xs = as @ [y, x] @ vs" if "bs = []" using that xs(1) us by simp
      then have "bs \<noteq> []" using no(2) unfolding beside_def by blast
      moreover have "y \<notin> set bs" using assms(1) xs(1) us by simp
      ultimately show False using remdups_adj_apart[of bs y as vs] d rep us by simp
    next
      assume "y \<in> set vs"
      then obtain bs cs where vs: "vs = bs @ y # cs" by (auto dest: split_list)
      have "xs = us @ [x, y] @ cs" if "bs = []" using that xs(1) vs by simp
      then have "bs \<noteq> []" using no(2) unfolding beside_def by blast
      moreover have "y \<notin> set bs" using assms(1) xs(1) vs by simp
      ultimately show False using remdups_adj_apart[of bs y us cs] d rep vs by simp
    qed
  qed
  assume "y = x \<or> y \<notin> set xs \<or> beside xs x y"
  then consider "y = x \<or> y \<notin> set xs" | as bs where "xs = as @ [x, y] @ bs" | as bs where "xs = as @ [y, x] @ bs"
    by (auto simp: beside_def)
  then show "distinct (remdups_adj (replace_first x y xs))"
  proof cases
    case 1
    then have "distinct (us @ y # vs)" using assms(1) xs(1) by auto
    then show ?thesis by (simp add: rep remdups_adj_distinct)
  next
    case 2
    then have "replace_first x y xs = as @ y # y # bs" using replace_first_split[of x as y "y # bs"] assms(1) by simp
    then show ?thesis using remdups_adj_double[of as y bs] assms(1) 2 by simp
  next
    case 3
    then have "replace_first x y xs = as @ y # y # bs" using replace_first_split[of x "as @ [y]" y bs] assms(1) by auto
    then show ?thesis using remdups_adj_double[of as y bs] assms(1) 3 by simp
  qed
qed

lemma inherit_members:
  "ma_source_clips (ma_inherit_source_fragment a original created) =
     (if created \<in> set (ma_source_clips a) then ma_source_clips a else insert_behind original created (ma_source_clips a))"
  "ma_id (ma_inherit_source_fragment a original created) = ma_id a" "ma_name (ma_inherit_source_fragment a original created) = ma_name a"
  "ma_camera_label (ma_inherit_source_fragment a original created) = ma_camera_label a"
  by (simp_all add: ma_inherit_source_fragment_def List.member_iff)

lemma transfer_members:
  "ma_source_clips (ma_transfer_source_clip a removed inserted) =
     (if removed \<in> set (ma_source_clips a) then remdups_adj (replace_first removed inserted (ma_source_clips a)) else ma_source_clips a)"
  "ma_id (ma_transfer_source_clip a removed inserted) = ma_id a" "ma_name (ma_transfer_source_clip a removed inserted) = ma_name a"
  "ma_camera_label (ma_transfer_source_clip a removed inserted) = ma_camera_label a"
  by (simp_all add: ma_transfer_source_clip_def List.member_iff)

lemma reconcile_members:
  "ma_source_clips (ma_reconcile a existing) = filter (\<lambda>c. c \<in> existing) (ma_source_clips a)"
  "ma_id (ma_reconcile a existing) = ma_id a" "ma_name (ma_reconcile a existing) = ma_name a"
  "ma_camera_label (ma_reconcile a existing) = ma_camera_label a"
  by (simp_all add: ma_reconcile_def)

lemma angle_clips:
  assumes "ms_validate s = Inr ()" "a \<in> set (ms_angles s)"
  shows "distinct (ma_source_clips a)" "c \<in> set (ma_source_clips a) \<Longrightarrow> c \<in> set (source_clips s)"
  using assms by (auto simp: ms_validate_Inr source_clips_def distinct_concat_iff)

lemma same_angle:
  assumes "ms_validate s = Inr ()" "a \<in> set (ms_angles s)" "b \<in> set (ms_angles s)"
  shows "c \<in> set (ma_source_clips a) \<Longrightarrow> c \<in> set (ma_source_clips b) \<Longrightarrow> ma_id a = ma_id b"
    and "ma_id a = ma_id b \<Longrightarrow> a = b"
proof -
  have v: "distinct (map ma_id (ms_angles s))" "distinct (concat (map (\<lambda>a. ma_source_clips a) (ms_angles s)))"
    using assms(1) by (simp_all add: ms_validate_Inr source_clips_def)
  show "ma_id a = ma_id b" if "c \<in> set (ma_source_clips a)" "c \<in> set (ma_source_clips b)"
    using v(2) that assms(2,3) unfolding distinct_concat_members[OF v(1)] by blast
  show "a = b" if "ma_id a = ma_id b" using v(1) that assms(2,3) by (auto simp: distinct_map dest: inj_onD)
qed

lemma inherited_clips:
  "set (ma_source_clips (ma_inherit_source_fragment a original created)) =
     set (ma_source_clips a) \<union> (if original \<in> set (ma_source_clips a) then {created} else {})"
  by (auto simp: inherit_members set_insert_behind)

lemma transferred_clips:
  "distinct (ma_source_clips a) \<Longrightarrow> set (ma_source_clips (ma_transfer_source_clip a original created)) =
     (\<lambda>c. if c = original then created else c) ` set (ma_source_clips a)"
  by (auto simp: transfer_members set_replace_first)

definition adjoining :: "multicam_source \<Rightarrow> clip_id \<Rightarrow> clip_id \<Rightarrow> bool" where
  "adjoining s x y \<longleftrightarrow> (\<exists>a\<in>set (ms_angles s). beside (ma_source_clips a) x y)"

lemma inherit_validates:
  assumes "ms_validate s = Inr ()"
  shows "ms_validate (ms_inherit_source_fragment s original created) = Inr () \<longleftrightarrow>
     (\<forall>k k'. (original, k) \<in> member_of s \<and> (created, k') \<in> member_of s \<longrightarrow> k = k')"
proof -
  have "distinct (ma_source_clips (ma_inherit_source_fragment a original created))" if "a \<in> set (ms_angles s)" for a
    using angle_clips(1)[OF assms that] by (simp add: inherit_members distinct_insert_behind)
  moreover have "(\<forall>a\<in>set (ms_angles s). \<forall>b\<in>set (ms_angles s). ma_id a \<noteq> ma_id b \<longrightarrow>
        set (ma_source_clips (ma_inherit_source_fragment a original created)) \<inter> set (ma_source_clips (ma_inherit_source_fragment b original created)) = {})
      \<longleftrightarrow> (\<forall>a\<in>set (ms_angles s). \<forall>b\<in>set (ms_angles s). ma_id a \<noteq> ma_id b \<longrightarrow>
        \<not> (original \<in> set (ma_source_clips a) \<and> created \<in> set (ma_source_clips b)))"
    (is "?l \<longleftrightarrow> ?r")
  proof
    show "?l \<Longrightarrow> ?r" unfolding inherited_clips by fastforce
    assume r: ?r
    show ?l
    proof (intro ballI impI)
      fix a b assume ab: "a \<in> set (ms_angles s)" "b \<in> set (ms_angles s)" "ma_id a \<noteq> ma_id b"
      have "c \<notin> set (ma_source_clips b)" if "c \<in> set (ma_source_clips a)" for c using same_angle(1)[OF assms ab(1,2) that] ab(3) by blast
      moreover have "\<not> (original \<in> set (ma_source_clips a) \<and> created \<in> set (ma_source_clips b))"
        "\<not> (original \<in> set (ma_source_clips b) \<and> created \<in> set (ma_source_clips a))" using r ab by metis+
      ultimately show "set (ma_source_clips (ma_inherit_source_fragment a original created))
          \<inter> set (ma_source_clips (ma_inherit_source_fragment b original created)) = {}"
        unfolding inherited_clips by auto
    qed
  qed
  ultimately show ?thesis
    unfolding ms_inherit_source_fragment_def
    by (subst change_members[OF assms]) (simp_all add: inherit_members(2-4) member_iff, blast)
qed

lemma transfer_validates:
  assumes "ms_validate s = Inr ()"
  shows "ms_validate (ms_transfer_source_clip s original created) = Inr () \<longleftrightarrow>
     created = original \<or> original \<notin> set (source_clips s) \<or> created \<notin> set (source_clips s) \<or> adjoining s original created"
proof -
  let ?in = "\<lambda>c a. c \<in> set (ma_source_clips a)" and ?as = "set (ms_angles s)"
  let ?f = "\<lambda>a. ma_transfer_source_clip a original created"
  note d = angle_clips(1)[OF assms]
  have iff: "ms_validate (ms_transfer_source_clip s original created) = Inr () \<longleftrightarrow>
      (\<forall>a\<in>?as. distinct (ma_source_clips (?f a)))
      \<and> (\<forall>a\<in>?as. \<forall>b\<in>?as. ma_id a \<noteq> ma_id b \<longrightarrow> set (ma_source_clips (?f a)) \<inter> set (ma_source_clips (?f b)) = {})"
    unfolding ms_transfer_source_clip_def by (rule change_members[OF assms]) (simp add: transfer_members(2-4))
  have one: "distinct (ma_source_clips (?f a)) \<longleftrightarrow> \<not> ?in original a \<or> created = original \<or> \<not> ?in created a \<or> beside (ma_source_clips a) original created"
    if "a \<in> ?as" for a
    using distinct_transfer[OF d[OF that]] d[OF that] by (auto simp: transfer_members)
  have two: "set (ma_source_clips (?f a)) \<inter> set (ma_source_clips (?f b)) = {} \<longleftrightarrow>
      created = original \<or> \<not> (?in original a \<and> ?in created b) \<and> \<not> (?in original b \<and> ?in created a)"
    if ab: "a \<in> ?as" "b \<in> ?as" "ma_id a \<noteq> ma_id b" for a b
  proof -
    have "\<not> ?in c b" if "?in c a" for c using same_angle(1)[OF assms ab(1,2) that] ab(3) by blast
    then show ?thesis unfolding transferred_clips[OF d[OF ab(1)]] transferred_clips[OF d[OF ab(2)]]
      by (auto split: if_splits)
  qed
  have sc: "c \<in> set (source_clips s) \<longleftrightarrow> (\<exists>a\<in>?as. ?in c a)" for c by (auto simp: source_clips_def)
  have beside_in: "beside (ma_source_clips a) x y \<Longrightarrow> ?in x a \<and> ?in y a" for a x y by (auto simp: beside_def)
  show ?thesis
  proof (cases "created = original \<or> original \<notin> set (source_clips s) \<or> created \<notin> set (source_clips s)")
    case True
    then show ?thesis unfolding iff using one two sc by blast
  next
    case False
    then obtain a b where ab: "a \<in> ?as" "?in original a" "b \<in> ?as" "?in created b" "created \<noteq> original" using sc by auto
    have only: "c = a" if "c \<in> ?as" "?in original c" for c
      using same_angle[OF assms that(1) ab(1)] that(2) ab(2) by blast
    show ?thesis
    proof (cases "ma_id a = ma_id b")
      case True
      then have "b = a" using same_angle(2)[OF assms ab(1,3)] by simp
      have apart: "set (ma_source_clips (?f c)) \<inter> set (ma_source_clips (?f e)) = {}"
        if "c \<in> ?as" "e \<in> ?as" "ma_id c \<noteq> ma_id e" for c e
      proof -
        have "\<not> (?in original p \<and> ?in created q)" if "p \<in> ?as" "q \<in> ?as" "ma_id p \<noteq> ma_id q" for p q
          using only[OF that(1)] same_angle(1)[OF assms that(2) ab(3) _ ab(4)] that(3) \<open>b = a\<close> by metis
        then show ?thesis using two[OF that] that by metis
      qed
      have "distinct (ma_source_clips (?f c)) \<longleftrightarrow> c = a \<longrightarrow> beside (ma_source_clips a) original created" if "c \<in> ?as" for c
        using one[OF that] only[OF that] ab(2,4,5) \<open>b = a\<close> by metis
      then have "ms_validate (ms_transfer_source_clip s original created) = Inr () \<longleftrightarrow> beside (ma_source_clips a) original created"
        unfolding iff using apart ab(1) by metis
      moreover have "adjoining s original created \<longleftrightarrow> beside (ma_source_clips a) original created"
        using only ab(1) beside_in by (auto simp: adjoining_def)
      ultimately show ?thesis using False by blast
    next
      case no: False
      then have "\<not> adjoining s original created"
        using only same_angle(1)[OF assms ab(1,3), of created] ab(4) beside_in by (auto simp: adjoining_def)
      moreover have "ms_validate (ms_transfer_source_clip s original created) \<noteq> Inr ()"
        unfolding iff using two[OF ab(1,3) no] ab no by blast
      ultimately show ?thesis using False by blast
    qed
  qed
qed

text \<open>
  C33: What the bookkeeping of edits does to a valid multicam source. A fragment joins the angle of its
  original and no other; the source stays valid exactly when the fragment was not already in another
  angle. A replacement takes the place of the clip it replaces; the source stays valid exactly when
  the replacement is new to it, is the clip itself or stood right beside it, or the replaced clip was not in it. Clips that are
  gone leave and the source stays valid.
\<close>

theorem multicam_members_follow:
  assumes "ms_validate s = Inr ()"
  shows "(ms_validate (ms_inherit_source_fragment s original created) = Inr () \<longleftrightarrow>
       (\<forall>k k'. (original, k) \<in> member_of s \<and> (created, k') \<in> member_of s \<longrightarrow> k = k'))
     \<and> member_of (ms_inherit_source_fragment s original created) = member_of s \<union> {(created, k) |k. (original, k) \<in> member_of s}
     \<and> (ms_validate (ms_transfer_source_clip s original created) = Inr () \<longleftrightarrow>
       created = original \<or> original \<notin> set (source_clips s) \<or> created \<notin> set (source_clips s) \<or> adjoining s original created)
     \<and> member_of (ms_transfer_source_clip s original created) = {(if c = original then created else c, k) |c k. (c, k) \<in> member_of s}
     \<and> ms_validate (ms_reconcile s existing) = Inr ()
     \<and> member_of (ms_reconcile s existing) = {(c, k). (c, k) \<in> member_of s \<and> c \<in> existing}"
proof (intro conjI)
  show "ms_validate (ms_inherit_source_fragment s original created) = Inr () \<longleftrightarrow>
      (\<forall>k k'. (original, k) \<in> member_of s \<and> (created, k') \<in> member_of s \<longrightarrow> k = k')" by (rule inherit_validates[OF assms])
  show "ms_validate (ms_transfer_source_clip s original created) = Inr () \<longleftrightarrow>
      created = original \<or> original \<notin> set (source_clips s) \<or> created \<notin> set (source_clips s) \<or> adjoining s original created"
    by (rule transfer_validates[OF assms])
  show "ms_validate (ms_reconcile s existing) = Inr ()"
    unfolding ms_reconcile_def
    by (subst change_members[OF assms]) (use angle_clips(1)[OF assms] same_angle(1)[OF assms] in \<open>auto simp: reconcile_members\<close>)
  show "member_of (ms_inherit_source_fragment s original created) = member_of s \<union> {(created, k) |k. (original, k) \<in> member_of s}"
    unfolding ms_inherit_source_fragment_def
    by (auto simp: members_map member_iff inherit_members(2) inherited_clips split: if_splits)
  have "(c, k) \<in> member_of (ms_transfer_source_clip s original created) \<longleftrightarrow>
      (\<exists>a\<in>set (ms_angles s). k = ma_id a \<and> c \<in> (\<lambda>c. if c = original then created else c) ` set (ma_source_clips a))" for c k
    unfolding ms_transfer_source_clip_def members_map transfer_members(2)
    using transferred_clips[OF angle_clips(1)[OF assms]] by (simp cong: bex_cong)
  then have "(c, k) \<in> member_of (ms_transfer_source_clip s original created) \<longleftrightarrow>
      (c, k) \<in> {(if c = original then created else c, k) |c k. (c, k) \<in> member_of s}" for c k
    by (simp only: member_iff mem_Collect_eq prod.inject image_iff) blast
  then show "member_of (ms_transfer_source_clip s original created) = {(if c = original then created else c, k) |c k. (c, k) \<in> member_of s}"
    by (simp add: set_eq_iff split_paired_All)
  show "member_of (ms_reconcile s existing) = {(c, k). (c, k) \<in> member_of s \<and> c \<in> existing}"
    unfolding ms_reconcile_def by (auto simp: members_map member_iff reconcile_members)
qed

definition two_cameras :: multicam_source where
  "two_cameras = \<lparr>ms_sync_method = SyncAudio, ms_angles =
     [\<lparr>ma_id = TypedId 1, ma_name = ''left'', ma_camera_label = ''A'', ma_enabled = True, ma_metadata = [], ma_source_clips = [TypedId 10, TypedId 11]\<rparr>,
      \<lparr>ma_id = TypedId 2, ma_name = ''right'', ma_camera_label = ''B'', ma_enabled = True, ma_metadata = [], ma_source_clips = [TypedId 12]\<rparr>]\<rparr>"

theorem multicam_members_follow_witness:
  "ms_validate (ms_inherit_source_fragment two_cameras (TypedId 10) (TypedId 13)) = Inr ()
     \<and> (TypedId 13, TypedId 1) \<in> member_of (ms_inherit_source_fragment two_cameras (TypedId 10) (TypedId 13))
     \<and> ms_validate (ms_transfer_source_clip two_cameras (TypedId 10) (TypedId 12)) \<noteq> Inr ()"
proof -
  have valid: "ms_validate two_cameras = Inr ()" by (rule returns_iff[THEN iffD1]) code_simp
  have fresh: "(TypedId 13, k) \<notin> member_of two_cameras" "(TypedId 10, TypedId 1) \<in> member_of two_cameras" for k
    by (auto simp: member_iff two_cameras_def)
  have shared: "TypedId 10 \<in> set (source_clips two_cameras)" "TypedId 12 \<in> set (source_clips two_cameras)" by code_simp+
  have "\<not> beside [TypedId 10, TypedId 11] (TypedId 10) (TypedId 12 :: clip_id)" "\<not> beside [TypedId 12] (TypedId 10) (TypedId 12 :: clip_id)"
    by (auto simp: beside_def append_eq_Cons_conv Cons_eq_append_conv)
  then have "\<not> adjoining two_cameras (TypedId 10) (TypedId 12)" by (simp add: adjoining_def two_cameras_def)
  then show ?thesis
    using multicam_members_follow[OF valid, of "TypedId 10" "TypedId 13" "{}"] multicam_members_follow[OF valid, of "TypedId 10" "TypedId 12" "{}"]
      fresh shared by auto
qed

end
