(* ===== verification/Timeline.thy ===== *)
theory Timeline
  imports EditState Multicam TrackEdits
begin

text \<open>
  The timeline of \<open>superi-timeline/src/model.rs\<close>: tracks in lane order with the edit state, the
  annotations and the multicam state that refer to them. A mutable borrow is the function \<open>f\<close> the
  client applies through it; an outer \<open>None\<close> is a panic.
\<close>

record timeline =
  tl_id :: timeline_id
  tl_name :: string
  tl_edit_rate :: timebase
  tl_global_start :: rational_time
  tl_tracks :: "track list"
  tl_edit_state :: timeline_edit_state
  tl_annotations :: timeline_annotations
  tl_multicam_source :: "multicam_source option"
  tl_multicam_clips :: "(clip_id \<times> multicam_clip) list"

definition tl_new :: "timeline_id \<Rightarrow> string \<Rightarrow> timebase \<Rightarrow> rational_time \<Rightarrow> track list \<Rightarrow> timeline" where
  "tl_new ident name edit_rate global_start tracks =
     \<lparr>tl_id = ident, tl_name = name, tl_edit_rate = edit_rate, tl_global_start = global_start, tl_tracks = tracks,
      tl_edit_state = es_from_tracks tracks, tl_annotations = ta_default, tl_multicam_source = None,
      tl_multicam_clips = []\<rparr>"

section \<open>Clips and tracks\<close>

definition tl_items :: "timeline \<Rightarrow> track_item list" where
  "tl_items t = concat (map (\<lambda>k. tk_items k) (tl_tracks t))"

definition tl_clips :: "timeline \<Rightarrow> clip list" where
  "tl_clips t = List.map_filter item_as_clip (tl_items t)"

definition find_clip :: "timeline \<Rightarrow> clip_id \<Rightarrow> clip option" where
  "find_clip t ident = find (\<lambda>c. cl_id c = ident) (tl_clips t)"

definition tl_track :: "timeline \<Rightarrow> track_id \<Rightarrow> track option" where
  "tl_track t ident = find (\<lambda>k. tk_id k = ident) (tl_tracks t)"

definition tl_track_mut :: "timeline \<Rightarrow> track_id \<Rightarrow> (track \<Rightarrow> track) \<Rightarrow> timeline result" where
  "tl_track_mut t ident f =
     (case tl_track t ident of
        None \<Rightarrow> Inl (model_not_found ''find_track'' ''editorial track was not found'' ''track'' (id_display TrackKind ident))
      | Some _ \<Rightarrow> Inr (t\<lparr>tl_tracks := update_first (\<lambda>k. tk_id k = ident) f (tl_tracks t)\<rparr>))"

definition track_position :: "timeline \<Rightarrow> track_id \<Rightarrow> nat option" where
  "track_position t ident = position (\<lambda>k. tk_id k = ident) (tl_tracks t)"

section \<open>Multicam state\<close>

definition tl_multicam_source_mut :: "timeline \<Rightarrow> (multicam_source \<Rightarrow> multicam_source) \<Rightarrow> timeline result" where
  "tl_multicam_source_mut t f =
     (case tl_multicam_source t of
        None \<Rightarrow> Inl (model_not_found ''find_multicam_source'' ''timeline has no multicam source state'' ''timeline''
          (id_display TimelineKind (tl_id t)))
      | Some s \<Rightarrow> Inr (t\<lparr>tl_multicam_source := Some (f s)\<rparr>))"

definition tl_set_multicam_source ::
  "timeline \<Rightarrow> multicam_source \<Rightarrow> (multicam_source option \<times> timeline) result" where
  "tl_set_multicam_source t source =
     bindR (ms_validate source) (\<lambda>_. Inr (tl_multicam_source t, t\<lparr>tl_multicam_source := Some source\<rparr>))"

definition tl_remove_multicam_source :: "timeline \<Rightarrow> multicam_source option \<times> timeline" where
  "tl_remove_multicam_source t = (tl_multicam_source t, t\<lparr>tl_multicam_source := None\<rparr>)"

definition tl_multicam_clip :: "timeline \<Rightarrow> clip_id \<Rightarrow> multicam_clip option" where
  "tl_multicam_clip t ident = map_of (tl_multicam_clips t) ident"

definition tl_multicam_clip_mut :: "timeline \<Rightarrow> clip_id \<Rightarrow> (multicam_clip \<Rightarrow> multicam_clip) \<Rightarrow> timeline result" where
  "tl_multicam_clip_mut t ident f =
     (if om_has (tl_multicam_clips t) ident
      then Inr (t\<lparr>tl_multicam_clips := om_update ident f (tl_multicam_clips t)\<rparr>)
      else Inl (model_not_found ''find_multicam_clip'' ''multicam clip state was not found'' ''clip'' (id_display ClipKind ident)))"

definition tl_upsert_multicam_clip ::
  "timeline \<Rightarrow> multicam_clip \<Rightarrow> (multicam_clip option \<times> timeline) result" where
  "tl_upsert_multicam_clip t c =
     (let ident = mc_clip_id c in
      bindR (ok_or (find_clip t ident) (model_not_found ''upsert_multicam_clip''
        ''multicam target clip was not found on this timeline'' ''clip'' (id_display ClipKind ident))) (\<lambda>target.
      case cl_source target of
        SourceMedia _ \<Rightarrow> Inl (invalid_model ''upsert_multicam_clip''
          ''multicam target must be an ordinary nested timeline clip'')
      | SourceTimeline _ \<Rightarrow> Inr (map_of (tl_multicam_clips t) ident,
          t\<lparr>tl_multicam_clips := om_insert ident c (tl_multicam_clips t)\<rparr>)))"

definition tl_remove_multicam_clip :: "timeline \<Rightarrow> clip_id \<Rightarrow> multicam_clip option \<times> timeline" where
  "tl_remove_multicam_clip t ident =
     (map_of (tl_multicam_clips t) ident, t\<lparr>tl_multicam_clips := om_remove ident (tl_multicam_clips t)\<rparr>)"

definition mc_clone_with_clip_id :: "multicam_clip \<Rightarrow> clip_id \<Rightarrow> multicam_clip" where
  "mc_clone_with_clip_id c ident = c\<lparr>mc_clip_id := ident\<rparr>"

definition tl_inherit_multicam_fragment :: "timeline \<Rightarrow> clip_id \<Rightarrow> clip_id \<Rightarrow> timeline" where
  "tl_inherit_multicam_fragment t original created =
     (let t = (case map_of (tl_multicam_clips t) original of
                 None \<Rightarrow> t
               | Some state \<Rightarrow>
                   t\<lparr>tl_multicam_clips := om_insert created (mc_clone_with_clip_id state created) (tl_multicam_clips t)\<rparr>)
      in t\<lparr>tl_multicam_source := map_option (\<lambda>s. ms_inherit_source_fragment s original created) (tl_multicam_source t)\<rparr>)"

definition tl_transfer_multicam_clip :: "timeline \<Rightarrow> clip_id \<Rightarrow> clip_id \<Rightarrow> timeline" where
  "tl_transfer_multicam_clip t removed inserted =
     (let t = (case map_of (tl_multicam_clips t) removed of
                 None \<Rightarrow> t
               | Some state \<Rightarrow>
                   t\<lparr>tl_multicam_clips := om_insert inserted (mc_clone_with_clip_id state inserted)
                       (om_remove removed (tl_multicam_clips t))\<rparr>)
      in t\<lparr>tl_multicam_source := map_option (\<lambda>s. ms_transfer_source_clip s removed inserted) (tl_multicam_source t)\<rparr>)"

definition reconcile_multicam_state :: "timeline \<Rightarrow> timeline" where
  "reconcile_multicam_state t =
     (let existing = set (map (\<lambda>c. cl_id c) (tl_clips t)) in
      t\<lparr>tl_multicam_clips := filter (\<lambda>(k, _). k \<in> existing) (tl_multicam_clips t),
        tl_multicam_source := map_option (\<lambda>s. ms_reconcile s existing) (tl_multicam_source t)\<rparr>)"

section \<open>Annotations\<close>

definition tl_marker_mut :: "timeline \<Rightarrow> marker_id \<Rightarrow> (marker \<Rightarrow> marker) \<Rightarrow> timeline result" where
  "tl_marker_mut t ident f = mapR (\<lambda>a. t\<lparr>tl_annotations := a\<rparr>) (ta_marker_mut (tl_annotations t) ident f)"

definition tl_upsert_marker :: "timeline \<Rightarrow> marker \<Rightarrow> (marker option \<times> timeline) result" where
  "tl_upsert_marker t m =
     mapR (\<lambda>(previous, a). (previous, t\<lparr>tl_annotations := a\<rparr>))
       (ta_upsert_marker (tl_annotations t) m (tl_edit_rate t) (tl_tracks t))"

definition tl_set_metadata ::
  "timeline \<Rightarrow> metadata_owner \<Rightarrow> timeline_metadata \<Rightarrow> (timeline_metadata option \<times> timeline) result option" where
  "tl_set_metadata t owner metadata =
     map_option (mapR (\<lambda>(previous, a). (previous, t\<lparr>tl_annotations := a\<rparr>)))
       (ta_set_metadata (tl_annotations t) owner metadata (tl_tracks t))"

definition tl_resolved_marker_range :: "timeline \<Rightarrow> marker_id \<Rightarrow> (time_range option) result option" where
  "tl_resolved_marker_range t ident = ta_resolved_marker_range (tl_annotations t) ident (tl_edit_rate t) (tl_tracks t)"

definition tl_snap :: "timeline \<Rightarrow> snap_request \<Rightarrow> (snap_match option) result option" where
  "tl_snap t req = ta_snap (tl_annotations t) req (tl_edit_rate t) (tl_tracks t)"

definition tl_set_snapping_enabled :: "timeline \<Rightarrow> bool \<Rightarrow> timeline" where
  "tl_set_snapping_enabled t enabled = t\<lparr>tl_annotations := ta_set_snapping_enabled (tl_annotations t) enabled\<rparr>"

definition tl_remove_marker :: "timeline \<Rightarrow> marker_id \<Rightarrow> marker option \<times> timeline" where
  "tl_remove_marker t ident =
     (let (previous, a) = ta_remove_marker (tl_annotations t) ident in (previous, t\<lparr>tl_annotations := a\<rparr>))"

definition tl_metadata :: "timeline \<Rightarrow> metadata_owner \<Rightarrow> timeline_metadata option" where
  "tl_metadata t owner = ta_get_metadata (tl_annotations t) owner"

definition tl_remove_metadata :: "timeline \<Rightarrow> metadata_owner \<Rightarrow> timeline_metadata option \<times> timeline" where
  "tl_remove_metadata t owner =
     (let (previous, a) = ta_remove_metadata (tl_annotations t) owner in (previous, t\<lparr>tl_annotations := a\<rparr>))"

section \<open>Edit state\<close>

definition with_edit_state :: "timeline \<Rightarrow> timeline_edit_state result \<Rightarrow> timeline result" where
  "with_edit_state t r = mapR (\<lambda>s. t\<lparr>tl_edit_state := s\<rparr>) r"

definition tl_set_linked_selection_enabled :: "timeline \<Rightarrow> bool \<Rightarrow> timeline" where
  "tl_set_linked_selection_enabled t enabled = t\<lparr>tl_edit_state := set_linked_selection_enabled (tl_edit_state t) enabled\<rparr>"

definition tl_set_track_targeted :: "timeline \<Rightarrow> track_id \<Rightarrow> bool \<Rightarrow> timeline result" where
  "tl_set_track_targeted t track_id targeted = with_edit_state t (set_track_targeted (tl_edit_state t) track_id targeted)"

definition tl_set_track_height :: "timeline \<Rightarrow> track_id \<Rightarrow> int \<Rightarrow> timeline result" where
  "tl_set_track_height t track_id height = with_edit_state t (set_track_height (tl_edit_state t) track_id height)"

definition tl_set_track_locked :: "timeline \<Rightarrow> track_id \<Rightarrow> bool \<Rightarrow> timeline result" where
  "tl_set_track_locked t track_id locked = with_edit_state t (set_track_locked (tl_edit_state t) track_id locked)"

definition tl_set_track_sync_locked :: "timeline \<Rightarrow> track_id \<Rightarrow> bool \<Rightarrow> timeline result" where
  "tl_set_track_sync_locked t track_id sync_locked =
     with_edit_state t (set_track_sync_locked (tl_edit_state t) track_id sync_locked)"

definition tl_set_track_enabled :: "timeline \<Rightarrow> track_id \<Rightarrow> bool \<Rightarrow> timeline result" where
  "tl_set_track_enabled t track_id enabled = with_edit_state t (set_track_enabled (tl_edit_state t) track_id enabled)"

definition is_audio_track :: "timeline \<Rightarrow> track_id \<Rightarrow> bool" where
  "is_audio_track t ident = (case tl_track t ident of None \<Rightarrow> True | Some k \<Rightarrow> ts_kind (tk_semantics k) = AudioKind)"

definition tl_set_track_muted :: "timeline \<Rightarrow> track_id \<Rightarrow> bool \<Rightarrow> timeline result" where
  "tl_set_track_muted t track_id muted =
     (if muted \<and> \<not> is_audio_track t track_id
      then Inl (invalid_model ''set_track_muted'' ''mute state is supported only for audio tracks'')
      else with_edit_state t (set_track_muted (tl_edit_state t) track_id muted))"

definition tl_set_track_solo :: "timeline \<Rightarrow> track_id \<Rightarrow> bool \<Rightarrow> timeline result" where
  "tl_set_track_solo t track_id solo =
     (if solo \<and> \<not> is_audio_track t track_id
      then Inl (invalid_model ''set_track_solo'' ''solo state is supported only for audio tracks'')
      else with_edit_state t (set_track_solo (tl_edit_state t) track_id solo))"

definition tl_update_selection ::
  "timeline \<Rightarrow> editorial_object_id list \<Rightarrow> selection_update \<Rightarrow> selection_expansion \<Rightarrow> timeline result" where
  "tl_update_selection t objects update expansion =
     with_edit_state t (update_selection (tl_edit_state t) objects update expansion (tl_tracks t))"

definition tl_link_clips :: "timeline \<Rightarrow> clip_id list \<Rightarrow> timeline result option" where
  "tl_link_clips t clips = map_option (with_edit_state t) (link_clips (tl_edit_state t) clips (tl_tracks t))"

definition tl_unlink_clips :: "timeline \<Rightarrow> clip_id list \<Rightarrow> timeline result" where
  "tl_unlink_clips t clips = with_edit_state t (unlink_clips (tl_edit_state t) clips (tl_tracks t))"

definition tl_group_clips :: "timeline \<Rightarrow> clip_id list \<Rightarrow> timeline result" where
  "tl_group_clips t clips = with_edit_state t (group_clips (tl_edit_state t) clips (tl_tracks t))"

definition tl_ungroup_clips :: "timeline \<Rightarrow> clip_id list \<Rightarrow> timeline result" where
  "tl_ungroup_clips t clips = with_edit_state t (ungroup_clips (tl_edit_state t) clips (tl_tracks t))"

definition tl_transfer_clip_intent :: "timeline \<Rightarrow> clip_id \<Rightarrow> clip_id \<Rightarrow> (unit result \<times> timeline) option" where
  "tl_transfer_clip_intent t removed inserted =
     map_option (\<lambda>(r, s). (r, t\<lparr>tl_edit_state := s\<rparr>)) (transfer_clip_intent (tl_edit_state t) removed inserted (tl_tracks t))"

definition track_flag :: "(track_edit_state \<Rightarrow> bool) \<Rightarrow> timeline \<Rightarrow> track_id \<Rightarrow> bool" where
  "track_flag flag t ident = (case map_of (es_tracks (tl_edit_state t)) ident of None \<Rightarrow> False | Some s \<Rightarrow> flag s)"

definition tl_targeted_tracks :: "timeline \<Rightarrow> track list" where
  "tl_targeted_tracks t = filter (\<lambda>k. track_flag te_targeted t (tk_id k)) (tl_tracks t)"

definition tl_targeted_tracks_by_kind :: "timeline \<Rightarrow> track_kind \<Rightarrow> track list" where
  "tl_targeted_tracks_by_kind t kind = filter (\<lambda>k. ts_kind (tk_semantics k) = kind) (tl_targeted_tracks t)"

definition tracks_affected_by_sync :: "timeline \<Rightarrow> track_id list \<Rightarrow> (track_id list) result" where
  "tracks_affected_by_sync t explicit_tracks =
     (let explicit = os_of explicit_tracks in
      case find (\<lambda>k. tl_track t k = None) explicit of
        Some missing \<Rightarrow> Inl (model_not_found ''resolve_sync_tracks'' ''editorial track was not found'' ''track''
          (id_display TrackKind missing))
      | None \<Rightarrow> Inr (map (\<lambda>k. tk_id k) (filter (\<lambda>k. List.member explicit (tk_id k) \<or> track_flag te_sync_locked t (tk_id k)) (tl_tracks t))))"

section \<open>Lanes\<close>

definition tl_insert_track :: "timeline \<Rightarrow> nat \<Rightarrow> track \<Rightarrow> int \<Rightarrow> timeline result" where
  "tl_insert_track t place k height =
     (if \<not> (MIN_TRACK_HEIGHT \<le> height \<and> height \<le> MAX_TRACK_HEIGHT)
      then Inl (invalid_model ''insert_track'' ''track height is outside the supported editor lane bounds'')
      else if place > length (tl_tracks t)
      then Inl (invalid_model ''insert_track'' ''track position must not exceed the current track count'')
      else if tl_track t (tk_id k) \<noteq> None
      then Inl (model_conflict ''insert_track'' ''duplicate track identity on timeline'' ''track'' (id_display TrackKind (tk_id k)))
      else
      let tracks = insert_at place k (tl_tracks t);
          t = t\<lparr>tl_tracks := tracks, tl_edit_state := reconcile (tl_edit_state t) tracks\<rparr>
      in with_edit_state t (set_track_height (tl_edit_state t) (tk_id k) height))"

definition tl_remove_track :: "timeline \<Rightarrow> track_id \<Rightarrow> (track \<times> timeline) result" where
  "tl_remove_track t ident =
     bindR (ok_or (track_position t ident)
       (model_not_found ''remove_track'' ''editorial track was not found'' ''track'' (id_display TrackKind ident))) (\<lambda>place.
     if track_flag te_locked t ident
     then Inl (model_conflict ''remove_track'' ''locked tracks must be unlocked before deletion'' ''track'' (id_display TrackKind ident))
     else
     let tracks = remove_at place (tl_tracks t) in
     Inr (tl_tracks t ! place, reconcile_multicam_state (t\<lparr>tl_tracks := tracks,
       tl_edit_state := reconcile (tl_edit_state t) tracks, tl_annotations := ta_reconcile (tl_annotations t) tracks\<rparr>)))"

definition tl_reorder_track :: "timeline \<Rightarrow> track_id \<Rightarrow> nat \<Rightarrow> timeline result" where
  "tl_reorder_track t ident place =
     (if place \<ge> length (tl_tracks t)
      then Inl (invalid_model ''reorder_track'' ''track position must identify one final position in the timeline'')
      else
      bindR (ok_or (track_position t ident)
        (model_not_found ''reorder_track'' ''editorial track was not found'' ''track'' (id_display TrackKind ident))) (\<lambda>current.
      if current \<noteq> place
      then Inr (t\<lparr>tl_tracks := insert_at place (tl_tracks t ! current) (remove_at current (tl_tracks t))\<rparr>)
      else Inr t))"

definition tl_set_name :: "timeline \<Rightarrow> string \<Rightarrow> timeline" where
  "tl_set_name t name = t\<lparr>tl_name := name\<rparr>"

definition tl_set_global_start :: "timeline \<Rightarrow> rational_time \<Rightarrow> timeline" where
  "tl_set_global_start t global_start = t\<lparr>tl_global_start := global_start\<rparr>"

definition tl_replace_tracks :: "timeline \<Rightarrow> track list \<Rightarrow> timeline" where
  "tl_replace_tracks t tracks = t\<lparr>tl_tracks := tracks\<rparr>"

section \<open>Duration\<close>

definition longest_end :: "track \<Rightarrow> rational_time \<Rightarrow> rational_time result" where
  "longest_end k longest = bindR (tk_end_time k) (\<lambda>e. Inr (if rt_lt longest e then e else longest))"

definition tl_duration :: "timeline \<Rightarrow> duration result" where
  "tl_duration t =
     bindR (foldR longest_end (tl_tracks t) (rt_zero (tl_edit_rate t))) (\<lambda>longest.
     bindR (rt_checked_rescale longest (tl_edit_rate t) RoundExact) (\<lambda>longest.
     bindR (ok_or (checked_u64 (rt_value longest))
       (invalid_model ''timeline_duration'' ''timeline duration must not end before timeline zero'')) (\<lambda>v.
       du_new v (tl_edit_rate t))))"

end
