(* ===== verification/TimelineProps.thy ===== *)
theory TimelineProps
  imports Timeline EditStateProps MulticamProps
begin

text \<open>
  The properties of the lanes of a timeline: inserting, removing and reordering tracks keep the
  order of the others and an edit state that fits, and the duration is the longest track.
\<close>

section \<open>Positions\<close>

lemma position_None: "position p xs = None \<longleftrightarrow> (\<forall>x\<in>set xs. \<not> p x)"
  by (induction xs) auto

lemma track_position_None: "track_position t i = None \<longleftrightarrow> i \<notin> tk_id ` set (tl_tracks t)"
  by (auto simp: track_position_def position_None)

lemma track_position_Some: "track_position t i = Some n \<Longrightarrow> n < length (tl_tracks t) \<and> tk_id (tl_tracks t ! n) = i"
  using position_Some unfolding track_position_def by fastforce

lemma track_position_at:
  assumes "distinct (map tk_id (tl_tracks t))" "n < length (tl_tracks t)"
  shows "track_position t (tk_id (tl_tracks t ! n)) = Some n"
proof (cases "track_position t (tk_id (tl_tracks t ! n))")
  case None
  then show ?thesis using assms(2) by (simp add: track_position_None)
next
  case (Some m)
  from track_position_Some[OF this] have "m < length (tl_tracks t)" "map tk_id (tl_tracks t) ! m = map tk_id (tl_tracks t) ! n"
    using assms(2) by simp_all
  then have "m = n" using assms by (metis length_map nth_eq_iff_index_eq)
  then show ?thesis using Some by simp
qed

lemma tl_track_None: "tl_track t i = None \<longleftrightarrow> i \<notin> tk_id ` set (tl_tracks t)"
  by (auto simp: tl_track_def find_None_iff)

lemma insert_remove_at: "i \<le> length xs \<Longrightarrow> remove_at i (insert_at i x xs) = xs" "i \<le> length xs \<Longrightarrow> insert_at i x xs ! i = x"
  by (simp_all add: insert_at_def remove_at_def nth_append)

lemma remove_insert_at: "i < length xs \<Longrightarrow> insert_at i (xs ! i) (remove_at i xs) = xs"
  by (simp add: insert_at_def remove_at_def id_take_nth_drop[symmetric])

lemma mset_insert_at: "mset (insert_at i x xs) = add_mset x (mset xs)"
proof -
  have "mset xs = mset (take i xs) + mset (drop i xs)" by (metis append_take_drop_id mset_append)
  then show ?thesis by (simp add: insert_at_def)
qed

lemma set_insert_at: "set (insert_at i x xs) = insert x (set xs)"
  using mset_insert_at[of i x xs] by (metis set_mset_mset set_mset_add_mset_insert)

lemma mset_remove_at: "i < length xs \<Longrightarrow> add_mset (xs ! i) (mset (remove_at i xs)) = mset xs"
  using mset_insert_at[of i "xs ! i" "remove_at i xs"] by (simp add: remove_insert_at)


section \<open>Inserting and removing\<close>

lemma reconcile_new_track:
  assumes "om_ok (es_tracks s)" "i \<in> tk_id ` set tracks" "i \<notin> dom (map_of (es_tracks s))"
  shows "map_of (es_tracks (reconcile s tracks)) i = Some (te_new i)"
proof -
  obtain ids known clips where ids: "timeline_ids tracks = (ids, known, clips)" "set ids = tk_id ` set tracks" by (rule timeline_ids_eq)
  let ?kept = "filter (\<lambda>(k, _). List.member ids k) (es_tracks s)"
  let ?m = "fold (\<lambda>k m. if om_has m k then m else om_insert k (te_new k) m) ids ?kept"
  have m: "es_tracks (reconcile s tracks) = ?m" by (simp add: reconcile_def ids(1) Let_def)
  have "om_ok ?kept" using assms(1) by simp
  note e = ensured_states[OF this, of ids]
  have none: "map_of ?kept i = None" using assms(3) by (auto simp: map_of_filter_key)
  have "i \<in> dom (map_of ?m)" using e assms(2) ids(2) by blast
  then show ?thesis unfolding m using e none by fastforce
qed

lemma reconcile_tracks_valid:
  assumes "es_valid tracks s" "links_inside s" "\<forall>k\<in>set tracks'. k \<in> set tracks \<or> tk_id k \<notin> tk_id ` set tracks"
  shows "es_valid tracks' (reconcile s tracks') \<and> links_inside (reconcile s tracks')"
proof -
  have "\<forall>k\<in>set tracks'. \<forall>st. map_of (es_tracks s) (tk_id k) = Some st \<longrightarrow> state_fits k st"
  proof (intro ballI allI impI)
    fix k st assume k: "k \<in> set tracks'" "map_of (es_tracks s) (tk_id k) = Some st"
    then have "tk_id k \<in> tk_id ` set tracks" using assms(1) by (auto simp: es_valid_def)
    then have "k \<in> set tracks" using assms(3) k(1) by blast
    then show "state_fits k st" using assms(1) k(2) by (simp add: es_valid_def)
  qed
  note r = reconcile_valid[OF es_valid_formed[OF assms(1)] _ _ assms(2) this]
  have "relations_ok (timeline_clips tracks) (es_links s)" "relations_ok (timeline_clips tracks) (es_groups s)"
    using assms(1) by (simp_all add: es_valid_def)
  from r[OF this] show ?thesis by blast
qed

lemma inserted_track:
  assumes "es_valid (tl_tracks t) (tl_edit_state t)" "links_inside (tl_edit_state t)"
    "MIN_TRACK_HEIGHT \<le> h" "h \<le> MAX_TRACK_HEIGHT" "i \<le> length (tl_tracks t)" "tk_id k \<notin> tk_id ` set (tl_tracks t)"
  shows "\<exists>t'. tl_insert_track t i k h = Inr t' \<and> tl_tracks t' = insert_at i k (tl_tracks t)
     \<and> es_valid (tl_tracks t') (tl_edit_state t') \<and> links_inside (tl_edit_state t')
     \<and> map_of (es_tracks (tl_edit_state t')) (tk_id k) = Some ((te_new (tk_id k))\<lparr>te_height := h\<rparr>)"
proof -
  let ?tracks = "insert_at i k (tl_tracks t)" and ?f = "te_height_update (\<lambda>_. h)"
  let ?s = "reconcile (tl_edit_state t) ?tracks"
  have ok: "om_ok (es_tracks (tl_edit_state t))" using assms(1) by (simp add: es_valid_def)
  have new: "map_of (es_tracks ?s) (tk_id k) = Some (te_new (tk_id k))"
    using reconcile_new_track[OF ok, of "tk_id k" ?tracks] assms(1,6) by (simp add: set_insert_at es_valid_def)
  have valid: "es_valid ?tracks ?s" "links_inside ?s"
    using reconcile_tracks_valid[OF assms(1,2), of ?tracks] assms(6) by (auto simp: set_insert_at)
  have height: "set_track_height ?s (tk_id k) h = Inr (?s\<lparr>es_tracks := om_update (tk_id k) ?f (es_tracks ?s)\<rparr>)"
    using assms(3,4) new by (simp add: set_track_height_def update_track_state_def om_has_def)
  then have run: "update_track_state ?s ''set_track_height'' (tk_id k) ?f = Inr (?s\<lparr>es_tracks := om_update (tk_id k) ?f (es_tracks ?s)\<rparr>)"
    using assms(3,4) by (simp add: set_track_height_def)
  have "state_fits u (?f st)" if "state_fits u st" for u st using that assms(3,4) by (simp add: state_fits_def)
  from update_track_state_valid[OF valid(1) run this] valid(2)
  have "es_valid ?tracks (?s\<lparr>es_tracks := om_update (tk_id k) ?f (es_tracks ?s)\<rparr>)"
    "links_inside (?s\<lparr>es_tracks := om_update (tk_id k) ?f (es_tracks ?s)\<rparr>)" by simp_all
  moreover have "tl_insert_track t i k h = Inr (t\<lparr>tl_tracks := ?tracks, tl_edit_state := ?s\<lparr>es_tracks := om_update (tk_id k) ?f (es_tracks ?s)\<rparr>\<rparr>)"
    using assms(3-6) height by (simp add: tl_insert_track_def tl_track_None with_edit_state_def Let_def)
  ultimately show ?thesis using new by simp
qed

text \<open>
  C20: On a timeline whose edit state fits its tracks, a track is inserted exactly when its height
  is within the lane bounds, its place within the track list and its identity new on the timeline.
  It then sits at its place between the others, the edit state fits the new tracks, and removing it
  gives back the lanes there were, again with a state that fits.
\<close>

theorem insert_remove_track:
  assumes "es_valid (tl_tracks t) (tl_edit_state t)" "links_inside (tl_edit_state t)" "distinct (map tk_id (tl_tracks t))"
  shows "if MIN_TRACK_HEIGHT \<le> h \<and> h \<le> MAX_TRACK_HEIGHT \<and> i \<le> length (tl_tracks t) \<and> tk_id k \<notin> tk_id ` set (tl_tracks t)
     then \<exists>t' t2. tl_insert_track t i k h = Inr t' \<and> tl_tracks t' = take i (tl_tracks t) @ k # drop i (tl_tracks t)
       \<and> es_validate (tl_edit_state t') (tl_tracks t') = Some (Inr ())
       \<and> tl_remove_track t' (tk_id k) = Inr (k, t2) \<and> tl_tracks t2 = tl_tracks t
       \<and> es_validate (tl_edit_state t2) (tl_tracks t2) = Some (Inr ())
     else \<exists>e. tl_insert_track t i k h = Inl e"
proof (cases "MIN_TRACK_HEIGHT \<le> h \<and> h \<le> MAX_TRACK_HEIGHT \<and> i \<le> length (tl_tracks t) \<and> tk_id k \<notin> tk_id ` set (tl_tracks t)")
  case True
  then obtain t' where t': "tl_insert_track t i k h = Inr t'" "tl_tracks t' = insert_at i k (tl_tracks t)"
    "es_valid (tl_tracks t') (tl_edit_state t')" "links_inside (tl_edit_state t')"
    "map_of (es_tracks (tl_edit_state t')) (tk_id k) = Some ((te_new (tk_id k))\<lparr>te_height := h\<rparr>)"
    using inserted_track[OF assms(1,2)] by blast
  have at: "i < length (tl_tracks t')" "tl_tracks t' ! i = k" "remove_at i (tl_tracks t') = tl_tracks t"
    using True t'(2) by (simp_all add: insert_remove_at) (simp add: insert_at_def)
  have "mset (map tk_id (tl_tracks t')) = mset (tk_id k # map tk_id (tl_tracks t))"
    by (simp add: t'(2) mset_insert_at)
  then have "distinct (map tk_id (tl_tracks t'))" using assms(3) True mset_eq_imp_distinct_iff by fastforce
  then have pos: "track_position t' (tk_id k) = Some i" using track_position_at[of t' i] at by simp
  let ?r = "reconcile (tl_edit_state t') (tl_tracks t)"
  have "\<not> track_flag te_locked t' (tk_id k)" using t'(5) by (simp add: track_flag_def te_new_def)
  then have "tl_remove_track t' (tk_id k) = Inr (k, reconcile_multicam_state (t'\<lparr>tl_tracks := tl_tracks t, tl_edit_state := ?r,
      tl_annotations := ta_reconcile (tl_annotations t') (tl_tracks t)\<rparr>))"
    using pos at by (simp add: tl_remove_track_def Let_def)
  moreover have "es_valid (tl_tracks t) ?r"
    using reconcile_tracks_valid[OF t'(3,4), of "tl_tracks t"] by (auto simp: t'(2) set_insert_at)
  ultimately show ?thesis
    using True t' es_validate_result[OF es_valid_formed[OF t'(3)]] es_validate_result[OF es_valid_formed, of "tl_tracks t" ?r]
    by (simp add: insert_at_def reconcile_multicam_state_def Let_def)
next
  case False
  then show ?thesis by (auto simp: tl_insert_track_def tl_track_None)
qed


definition two_lanes :: timeline where
  "two_lanes = tl_new (TypedId 1) ''cut'' tb24 (rt_zero tb24) [reel, reel2]"

lemma two_lanes_sound: "es_valid (tl_tracks two_lanes) (tl_edit_state two_lanes)" "links_inside (tl_edit_state two_lanes)"
  "distinct (map tk_id (tl_tracks two_lanes))"
  using es_from_tracks_valid[of "[reel, reel2]"] by (simp_all add: two_lanes_def tl_new_def reel_def reel2_def)

theorem insert_remove_track_witness:
  "\<exists>t' t2. tl_insert_track two_lanes 1 (reel\<lparr>tk_id := TypedId 7\<rparr>) 72 = Inr t' \<and> tl_tracks t' = [reel, reel\<lparr>tk_id := TypedId 7\<rparr>, reel2]
     \<and> tl_remove_track t' (TypedId 7) = Inr (reel\<lparr>tk_id := TypedId 7\<rparr>, t2) \<and> tl_tracks t2 = [reel, reel2]"
  using insert_remove_track[OF two_lanes_sound, of 72 1 "reel\<lparr>tk_id := TypedId 7\<rparr>"]
  by (auto simp: MIN_TRACK_HEIGHT_def MAX_TRACK_HEIGHT_def two_lanes_def tl_new_def reel_def reel2_def)

section \<open>Reordering\<close>

text \<open>
  C22: Reordering moves one lane and nothing else. It succeeds exactly when the track is on the
  timeline and the place is one of its positions; the track then sits there, every lane is still
  there, and the others follow one another as before.
\<close>

theorem reorder_moves_one_track:
  "case tl_reorder_track t i place of
     Inl _ \<Rightarrow> \<not> (place < length (tl_tracks t) \<and> i \<in> tk_id ` set (tl_tracks t))
   | Inr t' \<Rightarrow> place < length (tl_tracks t) \<and> tk_id (tl_tracks t' ! place) = i \<and> mset (tl_tracks t') = mset (tl_tracks t)
       \<and> (\<exists>current. track_position t i = Some current \<and> remove_at place (tl_tracks t') = remove_at current (tl_tracks t))
       \<and> t' = t\<lparr>tl_tracks := tl_tracks t'\<rparr>"
proof (cases "place < length (tl_tracks t) \<and> i \<in> tk_id ` set (tl_tracks t)")
  case False
  have "track_position t i = None" if "i \<notin> tk_id ` set (tl_tracks t)" using that track_position_None by blast
  with False show ?thesis by (auto simp: tl_reorder_track_def split: sum.splits)
next
  case True
  then obtain n where n: "track_position t i = Some n" by (cases "track_position t i") (auto simp: track_position_None)
  note at = track_position_Some[OF n]
  define xs where "xs = remove_at n (tl_tracks t)"
  have len: "length xs = length (tl_tracks t) - 1" using at by (simp add: xs_def remove_at_def)
  show ?thesis
  proof (cases "n = place")
    case True
    then show ?thesis using n at by (simp add: tl_reorder_track_def)
  next
    case False
    have "place \<le> length xs" using True len by linarith
    note moved = insert_remove_at[OF this, of "tl_tracks t ! n"]
    have "mset (insert_at place (tl_tracks t ! n) xs) = mset (tl_tracks t)"
      using mset_remove_at[of n "tl_tracks t"] at by (simp add: mset_insert_at xs_def)
    then show ?thesis using True False n at moved by (simp add: tl_reorder_track_def xs_def)
  qed
qed

section \<open>Duration\<close>

lemma longest_fold:
  assumes "\<forall>k\<in>set ks. \<forall>e. tk_end_time k = Inr e \<longrightarrow> rt_ok e" "rt_ok z" "foldR longest_end ks z = Inr m"
  shows "rt_ok m \<and> secs z \<le> secs m \<and> (\<forall>k\<in>set ks. \<exists>e. tk_end_time k = Inr e \<and> secs e \<le> secs m)
     \<and> (m = z \<or> (\<exists>k\<in>set ks. tk_end_time k = Inr m))"
  using assms
proof (induction ks arbitrary: z)
  case (Cons k ks)
  obtain e where e: "tk_end_time k = Inr e" "foldR longest_end ks (if rt_lt z e then e else z) = Inr m"
    using Cons.prems(3) unfolding foldR.simps bindR_Inr by (auto simp: longest_end_def[of k] result_simps)
  have ok: "rt_ok e" "rt_ok (if rt_lt z e then e else z)" using Cons.prems(1,2) e(1) by auto
  have ge: "secs z \<le> secs (if rt_lt z e then e else z)" "secs e \<le> secs (if rt_lt z e then e else z)"
    using rt_time.lt_seconds[OF Cons.prems(2) ok(1)] by auto
  have "\<forall>k\<in>set ks. \<forall>e. tk_end_time k = Inr e \<longrightarrow> rt_ok e" using Cons.prems(1) by simp
  from Cons.IH[OF this ok(2) e(2)] ge e(1) show ?case by (auto split: if_splits)
qed simp

text \<open>
  C21: The duration of a timeline is the end of its longest track in exact time, however the clocks
  of the tracks differ, expressed on the edit rate; an empty timeline has none.
\<close>

theorem duration_is_longest_track:
  assumes "tb_ok (tl_edit_rate t)" "\<forall>k\<in>set (tl_tracks t). \<forall>e. tk_end_time k = Inr e \<longrightarrow> rt_ok e" "tl_duration t = Inr d"
  shows "du_ok d \<and> du_timebase d = tl_edit_rate t
     \<and> (\<forall>k\<in>set (tl_tracks t). \<exists>e. tk_end_time k = Inr e \<and> secs e \<le> secs (du_rational_time d))
     \<and> (du_value d = 0 \<or> (\<exists>k\<in>set (tl_tracks t). \<exists>e. tk_end_time k = Inr e \<and> secs e = secs (du_rational_time d)))"
proof -
  obtain m q where m: "foldR longest_end (tl_tracks t) (rt_zero (tl_edit_rate t)) = Inr m"
    "rt_checked_rescale m (tl_edit_rate t) RoundExact = Inr q" "in_u64 (rt_value q)" "du_new (rt_value q) (tl_edit_rate t) = Inr d"
    using assms(3) by (auto simp: tl_duration_def result_simps)
  note f = longest_fold[OF assms(2) rt_zero_ok[OF assms(1)] m(1)]
  have q: "rt_timebase q = tl_edit_rate t" "secs q = secs m" "rt_ok q"
    using m(2) f unfolding rescale_exact[OF f[THEN conjunct1] assms(1)] by simp_all
  have d: "du_ok d" "du_rational_time d = q" "du_timebase d = tl_edit_rate t" "du_value d = rt_value q"
    using m(3,4) q(1) assms(1) by (auto simp: du_new_ok in_u64_def du_ok_def du_rational_time_def in_i64_def rt_new_def)
  show ?thesis using f q d rate_pos[OF assms(1)] by (auto simp: secs_def)
qed


theorem duration_is_longest_track_witness:
  "\<exists>d. tl_duration two_lanes = Inr d \<and> (\<exists>e. tk_end_time reel2 = Inr e \<and> secs e \<le> secs (du_rational_time d))"
proof -
  have "is_ok (tl_duration two_lanes)" by code_simp
  then obtain d where d: "tl_duration two_lanes = Inr d" by (auto simp: is_ok_iff)
  have ends: "returns (tk_end_time reel) (rt_new 84 tb24)" "returns (tk_end_time reel2) (rt_new 84 tb24)" by code_simp+
  have clock: "tb_ok (tl_edit_rate two_lanes)" "rt_ok (rt_new 84 tb24)"
    by (simp_all add: two_lanes_def tl_new_def tb24_def rt_ok_def in_i64_def)
  have lanes: "tl_tracks two_lanes = [reel, reel2]" by (simp add: two_lanes_def tl_new_def)
  have "\<forall>k\<in>set (tl_tracks two_lanes). \<forall>e. tk_end_time k = Inr e \<longrightarrow> rt_ok e"
    using ends clock(2) by (auto simp: lanes returns_iff)
  from duration_is_longest_track[OF clock(1) this d] d show ?thesis by (auto simp: lanes)
qed

end
