(* ===== verification/Project.thy ===== *)
theory Project
  imports Timeline Media
begin

text \<open>
  The project of \<open>superi-timeline/src/model.rs\<close> and \<open>resolve_multicam_frame\<close> of
  \<open>multicam.rs\<close>: linked media, the media library and the timelines that nest in one another, the
  whole validation, and the edit that commits a draft or changes nothing. The client's closure is a
  function of the draft; an outer \<open>None\<close> is a panic.
\<close>

type_synonym timeline_table = "(timeline_id \<times> timeline) list"

record editorial_project =
  pj_id :: project_id
  pj_name :: string
  pj_revision :: int
  pj_media_references :: media_table
  pj_media_library :: media_library
  pj_timelines :: timeline_table

record project_draft =
  dr_name :: string
  dr_media_references :: media_table
  dr_media_library :: media_library
  dr_timelines :: timeline_table

section \<open>Source links and nesting\<close>

definition validate_source :: "media_table \<Rightarrow> timeline_table \<Rightarrow> clip \<Rightarrow> unit result" where
  "validate_source media timelines c =
     (case cl_source c of
        SourceMedia m \<Rightarrow>
          if om_has media m then Inr ()
          else Inl (model_not_found ''validate_clip_source'' ''clip references missing linked media'' ''media'' (id_display MediaKind m))
      | SourceTimeline t \<Rightarrow>
          if om_has timelines t then Inr ()
          else Inl (model_not_found ''validate_clip_source'' ''clip references missing nested timeline'' ''timeline''
                 (id_display TimelineKind t)))"

definition all_clips :: "timeline_table \<Rightarrow> clip list" where
  "all_clips timelines = concat (map (\<lambda>t. tl_clips t) (map snd timelines))"

definition validate_source_links :: "media_table \<Rightarrow> timeline_table \<Rightarrow> unit result" where
  "validate_source_links media timelines = bindR (traverse (validate_source media timelines) (all_clips timelines)) (\<lambda>_. Inr ())"

definition nested_source :: "clip \<Rightarrow> timeline_id option" where
  "nested_source c = (case cl_source c of SourceMedia _ \<Rightarrow> None | SourceTimeline t \<Rightarrow> Some t)"

text \<open>The timelines a timeline nests, in the order the visit meets them.\<close>

definition nested_timelines :: "timeline \<Rightarrow> timeline_id list" where
  "nested_timelines t = List.map_filter nested_source (tl_clips t)"

function (sequential) visit_timeline ::
    "timeline_table \<Rightarrow> timeline_id \<Rightarrow> timeline_id set \<Rightarrow> timeline_id set \<Rightarrow> (timeline_id set \<times> timeline_id set) result option"
  and visit_nested ::
    "timeline_table \<Rightarrow> timeline_id list \<Rightarrow> timeline_id set \<Rightarrow> timeline_id set \<Rightarrow> (timeline_id set \<times> timeline_id set) result option"
where
  "visit_timeline timelines ident visiting visited =
     (if ident \<in> visited then Some (Inr (visiting, visited))
      else if ident \<in> visiting
      then Some (Inl (model_conflict ''validate_nesting'' ''timeline nesting contains a cycle'' ''timeline''
                  (id_display TimelineKind ident)))
      else case map_of timelines ident of
        None \<Rightarrow> None
      | Some t \<Rightarrow>
          bindP (visit_nested timelines (nested_timelines t) (insert ident visiting) visited) (\<lambda>(visiting, visited).
            Some (Inr (visiting - {ident}, insert ident visited))))"
| "visit_nested timelines [] visiting visited = Some (Inr (visiting, visited))"
| "visit_nested timelines (child # children) visiting visited =
     bindP (visit_timeline timelines child visiting visited) (\<lambda>(visiting, visited).
       visit_nested timelines children visiting visited)"
  by pat_completeness auto

text \<open>A visit that returns leaves the path as it was, so a deeper visit has one more timeline on its path.\<close>

lemma visit_path:
  "visit_timeline_visit_nested_dom (Inl (timelines, ident, visiting, visited)) \<Longrightarrow>
     visit_timeline timelines ident visiting visited = Some (Inr (v, w)) \<Longrightarrow> v = visiting"
  "visit_timeline_visit_nested_dom (Inr (timelines, children, visiting, visited)) \<Longrightarrow>
     visit_nested timelines children visiting visited = Some (Inr (v, w)) \<Longrightarrow> v = visiting"
proof (induction timelines ident visiting visited and timelines children visiting visited
    arbitrary: v w and v w rule: visit_timeline_visit_nested.pinduct)
  case (1 timelines ident visiting visited)
  then show ?case
    by (auto simp: visit_timeline.psimps bindP_Inr split: if_splits option.splits)
next
  case (3 timelines child children visiting visited)
  obtain v1 w1 where c: "visit_timeline timelines child visiting visited = Some (Inr (v1, w1))"
    "visit_nested timelines children v1 w1 = Some (Inr (v, w))"
    using "3.prems" "3.hyps" by (auto simp: visit_nested.psimps bindP_Inr)
  from "3.IH"(1)[OF c(1)] "3.IH"(2)[OF c(1) refl c(2)] show ?case by simp
qed (simp add: visit_nested.psimps)

termination visit_timeline
proof (relation "measures [\<lambda>x. case x of
      Inl (timelines, ident, visiting, visited) \<Rightarrow> card (dom (map_of timelines) - visiting)
    | Inr (timelines, children, visiting, visited) \<Rightarrow> card (dom (map_of timelines) - visiting),
    \<lambda>x. case x of Inl _ \<Rightarrow> 0 | Inr (timelines, children, visiting, visited) \<Rightarrow> Suc (length children)]", goal_cases)
  case (2 timelines ident visiting visited t)
  then have "dom (map_of timelines) - insert ident visiting \<subset> dom (map_of timelines) - visiting" by auto
  then show ?case by (simp add: psubset_card_mono finite_dom_map_of)
next
  case (4 timelines child children visiting visited x v w)
  then have "v = visiting" using visit_path(1) by blast
  then show ?case by simp
qed simp_all


fun visit_all :: "timeline_table \<Rightarrow> timeline_id list \<Rightarrow> timeline_id set \<Rightarrow> timeline_id set \<Rightarrow> unit result option" where
  "visit_all timelines [] visiting visited = Some (Inr ())"
| "visit_all timelines (ident # ids) visiting visited =
     bindP (visit_timeline timelines ident visiting visited) (\<lambda>(visiting, visited). visit_all timelines ids visiting visited)"

definition validate_nesting_cycles :: "timeline_table \<Rightarrow> unit result option" where
  "validate_nesting_cycles timelines = visit_all timelines (map fst timelines) {} {}"

definition validate_nested_range :: "timeline_table \<Rightarrow> clip \<Rightarrow> unit result option" where
  "validate_nested_range timelines c =
     (case nested_source c of
        None \<Rightarrow> Some (Inr ())
      | Some source \<Rightarrow>
          (case map_of timelines source of
             None \<Rightarrow> None
           | Some nested \<Rightarrow> Some (
               if tr_timebase (cl_source_range c) \<noteq> tl_edit_rate nested
               then Inl (invalid_model ''validate_nested_range'' ''nested source range must use the nested timeline edit rate'')
               else if rt_is_negative (tr_start (cl_source_range c))
               then Inl (invalid_model ''validate_nested_range'' ''nested source range must not start before timeline zero'')
               else
               bindR (tr_end_exclusive (cl_source_range c)) (\<lambda>e.
               bindR (tl_duration nested) (\<lambda>d.
               if rt_value e > (case checked_i64 (du_value d) of None \<Rightarrow> 2 ^ 63 - 1 | Some v \<Rightarrow> v)
               then Inl (invalid_model ''validate_nested_range'' ''nested source range exceeds the nested timeline duration'')
               else Inr ())))))"

definition validate_nested_ranges :: "timeline_table \<Rightarrow> unit result option" where
  "validate_nested_ranges timelines = bindP (traverseP (validate_nested_range timelines) (all_clips timelines)) (\<lambda>_. Some (Inr ()))"

section \<open>Multicam\<close>

fun angle_ranges :: "timeline \<Rightarrow> clip_id list \<Rightarrow> (time_range list) result" where
  "angle_ranges t [] = Inr []"
| "angle_ranges t (c # cs) =
     bindR (ok_or (find_clip t c) (model_not_found ''validate_multicam''
       ''multicam angle references a missing local source clip'' ''clip'' (id_display ClipKind c))) (\<lambda>clip.
     if tr_timebase (cl_record_range clip) \<noteq> tl_edit_rate t
     then Inl (invalid_model ''validate_multicam'' ''multicam source clip must use the synchronized timeline clock'')
     else bindR (angle_ranges t cs) (\<lambda>ranges. Inr (cl_record_range clip # ranges)))"

fun require_disjoint :: "time_range list \<Rightarrow> unit result" where
  "require_disjoint (a # b # rs) =
     bindR (tr_end_exclusive a) (\<lambda>e.
     if rt_lt (tr_start b) e
     then Inl (invalid_model ''validate_multicam'' ''source clips in one multicam angle must not overlap'')
     else require_disjoint (b # rs))"
| "require_disjoint _ = Inr ()"

fun validate_angle_clips :: "timeline \<Rightarrow> multicam_angle list \<Rightarrow> multicam_angle_id set \<Rightarrow> (multicam_angle_id set) result" where
  "validate_angle_clips t [] angle_ids = Inr angle_ids"
| "validate_angle_clips t (a # as) angle_ids =
     (if ma_id a \<in> angle_ids
      then Inl (model_conflict ''validate_multicam'' ''duplicate multicam angle identity across project timelines'' ''angle''
             (id_display MulticamAngleKind (ma_id a)))
      else bindR (angle_ranges t (ma_source_clips a)) (\<lambda>ranges.
           bindR (require_disjoint (sort_key (\<lambda>r. rt_value (tr_start r)) ranges)) (\<lambda>_.
             validate_angle_clips t as (insert (ma_id a) angle_ids))))"

definition validate_multicam_source :: "timeline \<Rightarrow> multicam_angle_id set \<Rightarrow> (multicam_angle_id set) result" where
  "validate_multicam_source t angle_ids =
     (case tl_multicam_source t of
        None \<Rightarrow> Inr angle_ids
      | Some source \<Rightarrow> bindR (ms_validate source) (\<lambda>_. validate_angle_clips t (ms_angles source) angle_ids))"

definition validate_multicam_clip :: "timeline_table \<Rightarrow> timeline \<Rightarrow> multicam_clip \<Rightarrow> unit result option" where
  "validate_multicam_clip timelines t state =
     bindP (Some (ok_or (find_clip t (mc_clip_id state)) (model_not_found ''validate_multicam''
       ''multicam target clip was not found on its owning timeline'' ''clip'' (id_display ClipKind (mc_clip_id state))))) (\<lambda>clip.
     case nested_source clip of
       None \<Rightarrow> Some (Inl (invalid_model ''validate_multicam'' ''multicam target must retain an ordinary nested timeline source''))
     | Some source_timeline_id \<Rightarrow>
         (case map_of timelines source_timeline_id of
            None \<Rightarrow> None
          | Some source_timeline \<Rightarrow>
              bindP (Some (ok_or (tl_multicam_source source_timeline) (invalid_model ''validate_multicam''
                ''multicam target source timeline has no synchronized angle state''))) (\<lambda>source.
              bindP (Some (bindR (tl_duration source_timeline) (\<lambda>d. tr_new (rt_zero (tl_edit_rate source_timeline)) d))) (\<lambda>complete.
                mc_validate_against state source complete))))"

definition validate_multicam :: "timeline_table \<Rightarrow> unit result option" where
  "validate_multicam timelines =
     bindP (Some (foldR (\<lambda>t. validate_multicam_source t) (map snd timelines) {})) (\<lambda>_.
     bindP (traverseP (\<lambda>t. bindP (traverseP (validate_multicam_clip timelines t) (map snd (tl_multicam_clips t))) (\<lambda>_. Some (Inr ())))
       (map snd timelines)) (\<lambda>_. Some (Inr ())))"

section \<open>Validation\<close>

text \<open>The track, object and marker identities seen so far, over all timelines.\<close>

type_synonym seen_ids = "track_id set \<times> editorial_object_id set \<times> marker_id set"

fun validate_tracks :: "track list \<Rightarrow> track_id set \<Rightarrow> editorial_object_id set \<Rightarrow> (track_id set \<times> editorial_object_id set) result" where
  "validate_tracks [] track_ids objects = Inr (track_ids, objects)"
| "validate_tracks (k # ks) track_ids objects =
     (if tk_id k \<in> track_ids
      then Inl (model_conflict ''validate_timeline'' ''duplicate track identity'' ''track'' (id_display TrackKind (tk_id k)))
      else bindR (validate_track k objects) (\<lambda>objects. validate_tracks ks (insert (tk_id k) track_ids) objects))"

definition validate_timeline :: "timeline \<Rightarrow> seen_ids \<Rightarrow> seen_ids result option" where
  "validate_timeline t = (\<lambda>(track_ids, objects, marker_ids).
     bindP (Some (require_text ''validate_timeline'' ''timeline name'' (tl_name t))) (\<lambda>_.
     if rt_timebase (tl_global_start t) \<noteq> tl_edit_rate t
     then Some (Inl (invalid_model ''validate_timeline'' ''timeline global start must use its edit rate''))
     else
     bindP (Some (validate_tracks (tl_tracks t) track_ids objects)) (\<lambda>(track_ids, objects).
     bindP (es_validate (tl_edit_state t) (tl_tracks t)) (\<lambda>_.
     bindP (Some (ta_validate (tl_annotations t) (tl_edit_rate t) (tl_tracks t) marker_ids)) (\<lambda>marker_ids.
       Some (Inr (track_ids, objects, marker_ids)))))))"

fun validate_timelines :: "timeline list \<Rightarrow> seen_ids \<Rightarrow> unit result option" where
  "validate_timelines [] seen = Some (Inr ())"
| "validate_timelines (t # ts) seen = bindP (validate_timeline t seen) (\<lambda>seen. validate_timelines ts seen)"

definition pj_validate :: "editorial_project \<Rightarrow> unit result option" where
  "pj_validate p =
     bindP (Some (require_text ''validate_project'' ''project name'' (pj_name p))) (\<lambda>_.
     bindP (Some (traverse (\<lambda>m. lr_validate m) (map snd (pj_media_references p)))) (\<lambda>_.
     bindP (Some (ml_validate (pj_media_library p) (pj_media_references p))) (\<lambda>_.
     bindP (validate_timelines (map snd (pj_timelines p)) ({}, {}, {})) (\<lambda>_.
     bindP (Some (validate_source_links (pj_media_references p) (pj_timelines p))) (\<lambda>_.
     bindP (validate_nesting_cycles (pj_timelines p)) (\<lambda>_.
     bindP (validate_nested_ranges (pj_timelines p)) (\<lambda>_.
       validate_multicam (pj_timelines p))))))))"

section \<open>Projects\<close>

fun media_by_id :: "linked_media_reference list \<Rightarrow> media_table \<Rightarrow> media_table result" where
  "media_by_id [] table = Inr table"
| "media_by_id (m # ms) table =
     (if om_has table (lr_id m)
      then Inl (model_conflict ''create_project'' ''duplicate linked media identity'' ''media'' (id_display MediaKind (lr_id m)))
      else media_by_id ms (om_insert (lr_id m) m table))"

fun timelines_by_id :: "timeline list \<Rightarrow> timeline_table \<Rightarrow> timeline_table result" where
  "timelines_by_id [] table = Inr table"
| "timelines_by_id (t # ts) table =
     (if om_has table (tl_id t)
      then Inl (model_conflict ''create_project'' ''duplicate timeline identity'' ''timeline'' (id_display TimelineKind (tl_id t)))
      else timelines_by_id ts (om_insert (tl_id t) t table))"

definition pj_new ::
  "project_id \<Rightarrow> string \<Rightarrow> linked_media_reference list \<Rightarrow> timeline list \<Rightarrow> editorial_project result option" where
  "pj_new ident name media_references timelines =
     bindP (Some (media_by_id media_references [])) (\<lambda>media.
     bindP (Some (timelines_by_id timelines [])) (\<lambda>timelines.
     let p = \<lparr>pj_id = ident, pj_name = name, pj_revision = 0, pj_media_references = media, pj_media_library = ml_new,
              pj_timelines = timelines\<rparr>
     in bindP (pj_validate p) (\<lambda>_. Some (Inr p))))"

definition pj_smart_collection_members ::
  "(string \<Rightarrow> string) \<Rightarrow> editorial_project \<Rightarrow> smart_collection_id \<Rightarrow> (media_id list) result" where
  "pj_smart_collection_members lower p ident = ml_matching_media lower (pj_media_library p) ident (pj_media_references p)"

definition pj_clip_range_context :: "editorial_project \<Rightarrow> clip_id \<Rightarrow> clip_range_context result" where
  "pj_clip_range_context p ident =
     bindR (ok_or (find (\<lambda>c. cl_id c = ident) (all_clips (pj_timelines p)))
       (model_not_found ''find_clip_ranges'' ''editorial clip was not found'' ''clip'' (id_display ClipKind ident))) (\<lambda>c.
     bindR (case cl_source c of
         SourceMedia m \<Rightarrow>
           bindR (ok_or (map_of (pj_media_references p) m)
             (model_not_found ''resolve_clip_ranges'' ''clip references missing linked media'' ''media'' (id_display MediaKind m)))
             (\<lambda>media. Inr (lr_available_range media))
       | SourceTimeline s \<Rightarrow>
           bindR (ok_or (map_of (pj_timelines p) s)
             (model_not_found ''resolve_clip_ranges'' ''clip references missing nested timeline'' ''timeline''
                (id_display TimelineKind s))) (\<lambda>t.
           bindR (tl_duration t) (\<lambda>d.
           bindR (tr_new (rt_zero (tl_edit_rate t)) d) (\<lambda>r. Inr (Some r))))) (\<lambda>available.
     Inr \<lparr>rc_source = cl_source c, rc_ranges = cl_ranges c, rc_time_map = cl_time_map c, rc_available_range = available\<rparr>))"

definition reconcile_timeline :: "timeline \<Rightarrow> timeline" where
  "reconcile_timeline t = reconcile_multicam_state (t\<lparr>tl_edit_state := reconcile (tl_edit_state t) (tl_tracks t),
     tl_annotations := ta_reconcile (tl_annotations t) (tl_tracks t)\<rparr>)"

definition reconcile_timeline_state :: "editorial_project \<Rightarrow> editorial_project" where
  "reconcile_timeline_state p = p\<lparr>pj_timelines := map (\<lambda>(k, t). (k, reconcile_timeline t)) (pj_timelines p)\<rparr>"

definition stale_revision :: "int \<Rightarrow> int \<Rightarrow> error_value" where
  "stale_revision expected actual =
     err_with_context (model_conflict ''begin_edit'' ''editorial project revision is stale'' ''expected_revision''
       (show_unsigned expected))
       (ctx_with_field (ctx_new ''superi-timeline.model'' ''begin_edit'') ''actual_revision'' (show_unsigned actual))"

text \<open>The edit returns the project it leaves: the candidate, or the project itself.\<close>

definition pj_edit ::
  "editorial_project \<Rightarrow> int \<Rightarrow> (project_draft \<Rightarrow> project_draft result option) \<Rightarrow> (unit result \<times> editorial_project) option" where
  "pj_edit p expected_revision edit =
     (if expected_revision \<noteq> pj_revision p then Some (Inl (stale_revision expected_revision (pj_revision p)), p)
      else
      let draft = \<lparr>dr_name = pj_name p, dr_media_references = pj_media_references p, dr_media_library = pj_media_library p,
                   dr_timelines = pj_timelines p\<rparr>;
          outcome = bindP (edit draft) (\<lambda>draft.
            bindP (Some (ok_or (checked_u64 (pj_revision p + 1)) (model_conflict ''commit_edit''
              ''editorial project revision is exhausted'' ''revision'' (show_unsigned (pj_revision p))))) (\<lambda>revision.
            let candidate = reconcile_timeline_state \<lparr>pj_id = pj_id p, pj_name = dr_name draft, pj_revision = revision,
                  pj_media_references = dr_media_references draft, pj_media_library = dr_media_library draft,
                  pj_timelines = dr_timelines draft\<rparr>
            in bindP (pj_validate candidate) (\<lambda>_. Some (Inr candidate))))
      in case outcome of
        None \<Rightarrow> None
      | Some (Inl e) \<Rightarrow> Some (Inl e, p)
      | Some (Inr candidate) \<Rightarrow> Some (Inr (), candidate))"

definition pj_restore_persisted_state ::
  "editorial_project \<Rightarrow> int \<Rightarrow> media_library \<Rightarrow> (unit result \<times> editorial_project) option" where
  "pj_restore_persisted_state p revision library =
     (let q = p\<lparr>pj_media_library := library, pj_revision := revision\<rparr> in
      case pj_validate q of
        None \<Rightarrow> None
      | Some (Inl e) \<Rightarrow> Some (Inl e, q\<lparr>pj_revision := pj_revision p, pj_media_library := pj_media_library p\<rparr>)
      | Some (Inr _) \<Rightarrow> Some (Inr (), q))"

section \<open>Drafts\<close>

definition dr_set_name :: "project_draft \<Rightarrow> string \<Rightarrow> project_draft" where
  "dr_set_name d name = d\<lparr>dr_name := name\<rparr>"

definition dr_media_reference_mut ::
  "project_draft \<Rightarrow> media_id \<Rightarrow> (linked_media_reference \<Rightarrow> linked_media_reference) \<Rightarrow> project_draft result" where
  "dr_media_reference_mut d ident f =
     (if om_has (dr_media_references d) ident
      then Inr (d\<lparr>dr_media_references := om_update ident f (dr_media_references d)\<rparr>)
      else Inl (model_not_found ''find_media_reference'' ''linked media was not found'' ''media'' (id_display MediaKind ident)))"

definition dr_upsert_media_reference ::
  "project_draft \<Rightarrow> linked_media_reference \<Rightarrow> linked_media_reference option \<times> project_draft" where
  "dr_upsert_media_reference d m =
     (map_of (dr_media_references d) (lr_id m), d\<lparr>dr_media_references := om_insert (lr_id m) m (dr_media_references d)\<rparr>)"

definition dr_remove_media_reference :: "project_draft \<Rightarrow> media_id \<Rightarrow> linked_media_reference option \<times> project_draft" where
  "dr_remove_media_reference d ident =
     (map_of (dr_media_references d) ident, d\<lparr>dr_media_references := om_remove ident (dr_media_references d)\<rparr>)"

definition dr_timeline_mut :: "project_draft \<Rightarrow> timeline_id \<Rightarrow> (timeline \<Rightarrow> timeline) \<Rightarrow> project_draft result" where
  "dr_timeline_mut d ident f =
     (if om_has (dr_timelines d) ident
      then Inr (d\<lparr>dr_timelines := om_update ident f (dr_timelines d)\<rparr>)
      else Inl (model_not_found ''find_timeline'' ''editorial timeline was not found'' ''timeline'' (id_display TimelineKind ident)))"

definition dr_upsert_timeline :: "project_draft \<Rightarrow> timeline \<Rightarrow> timeline option \<times> project_draft" where
  "dr_upsert_timeline d t =
     (map_of (dr_timelines d) (tl_id t), d\<lparr>dr_timelines := om_insert (tl_id t) t (dr_timelines d)\<rparr>)"

definition dr_remove_timeline :: "project_draft \<Rightarrow> timeline_id \<Rightarrow> timeline option \<times> project_draft" where
  "dr_remove_timeline d ident = (map_of (dr_timelines d) ident, d\<lparr>dr_timelines := om_remove ident (dr_timelines d)\<rparr>)"

section \<open>Resolving a multicam frame\<close>

record resolved_multicam_frame =
  rm_target_timeline_id :: timeline_id
  rm_target_clip_id :: clip_id
  rm_source_timeline_id :: timeline_id
  rm_source_timeline_time :: rational_time
  rm_angle_id :: multicam_angle_id
  rm_source_clip_id :: clip_id
  rm_source :: clip_source
  rm_source_time :: rational_time
  rm_audio_angle_ids :: "multicam_angle_id list"

fun active_source_clip :: "timeline \<Rightarrow> clip_id list \<Rightarrow> rational_time \<Rightarrow> (clip option) result option" where
  "active_source_clip t [] time = Some (Inr None)"
| "active_source_clip t (c # cs) time =
     (case find_clip t c of
        None \<Rightarrow> None
      | Some clip \<Rightarrow> bindP (Some (tr_contains (cl_record_range clip) time)) (\<lambda>inside.
          if inside then Some (Inr (Some clip)) else active_source_clip t cs time))"

definition audio_angles :: "multicam_audio_policy \<Rightarrow> multicam_angle_id \<Rightarrow> multicam_source \<Rightarrow> multicam_angle_id list" where
  "audio_angles policy angle_id source =
     (case policy of
        FollowVideo \<Rightarrow> [angle_id]
      | FixedAudio fixed \<Rightarrow> [fixed]
      | AllAngles \<Rightarrow> map (\<lambda>a. ma_id a) (filter (\<lambda>a. ma_enabled a) (ms_angles source)))"

definition resolve_multicam_frame ::
  "editorial_project \<Rightarrow> timeline_id \<Rightarrow> clip_id \<Rightarrow> rational_time \<Rightarrow> resolved_multicam_frame result option" where
  "resolve_multicam_frame p target_timeline_id target_clip_id target_record_time =
     bindP (Some (ok_or (map_of (pj_timelines p) target_timeline_id) (multicam_not_found ''resolve_multicam_frame''
       ''target timeline was not found'' ''timeline'' (id_display TimelineKind target_timeline_id)))) (\<lambda>target_timeline.
     bindP (Some (ok_or (find_clip target_timeline target_clip_id) (multicam_not_found ''resolve_multicam_frame''
       ''target multicam clip was not found'' ''clip'' (id_display ClipKind target_clip_id)))) (\<lambda>target_clip.
     bindP (Some (ok_or (tl_multicam_clip target_timeline target_clip_id) (multicam_not_found ''resolve_multicam_frame''
       ''target clip has no multicam switch state'' ''clip'' (id_display ClipKind target_clip_id)))) (\<lambda>clip_state.
     case nested_source target_clip of
       None \<Rightarrow> Some (Inl (multicam_invalid ''resolve_multicam_frame''
         ''multicam target must retain an ordinary nested timeline source''))
     | Some source_timeline_id \<Rightarrow>
     bindP (Some (mapR (\<lambda>m. mst_time m) (cl_source_time_at target_clip target_record_time RoundExact))) (\<lambda>source_timeline_time.
     bindP (Some (mc_angle_at clip_state source_timeline_time)) (\<lambda>angle_id.
     case map_of (pj_timelines p) source_timeline_id of
       None \<Rightarrow> None
     | Some source_timeline \<Rightarrow>
     (case tl_multicam_source source_timeline of
       None \<Rightarrow> None
     | Some source_state \<Rightarrow>
     (case ms_angle source_state angle_id of
       None \<Rightarrow> None
     | Some angle \<Rightarrow>
     bindP (active_source_clip source_timeline (ma_source_clips angle) source_timeline_time) (\<lambda>selected.
     bindP (Some (ok_or selected (multicam_not_found ''resolve_multicam_frame''
       ''active multicam angle has no source clip at this synchronized time'' ''angle'' (id_display MulticamAngleKind angle_id)))) (\<lambda>source_clip.
     bindP (Some (mapR (\<lambda>m. mst_time m) (cl_source_time_at source_clip source_timeline_time RoundExact))) (\<lambda>source_time.
     Some (Inr \<lparr>rm_target_timeline_id = target_timeline_id, rm_target_clip_id = target_clip_id,
        rm_source_timeline_id = source_timeline_id, rm_source_timeline_time = source_timeline_time, rm_angle_id = angle_id,
        rm_source_clip_id = cl_id source_clip, rm_source = cl_source source_clip, rm_source_time = source_time,
        rm_audio_angle_ids = audio_angles (mc_audio_policy clip_state) angle_id source_state\<rparr>)))))))))))"

end
