(* ===== verification/ProjectProps.thy ===== *)
theory ProjectProps
  imports Project EditStateProps MulticamProps MediaProps
begin

text \<open>
  The properties of projects: the depth-first search decides whether the nesting is acyclic, every
  project that edits can reach is sound, a stale edit changes nothing, and in a validated project a
  multicam frame resolves without a panic to a clip of an enabled angle.
\<close>

section \<open>Nesting\<close>

definition nests :: "timeline_table \<Rightarrow> (timeline_id \<times> timeline_id) set" where
  "nests timelines = {(a, b). \<exists>t. map_of timelines a = Some t \<and> b \<in> set (nested_timelines t)}"

text \<open>What the visit has finished: closed under nesting and without a cycle.\<close>

definition settled :: "timeline_table \<Rightarrow> timeline_id set \<Rightarrow> bool" where
  "settled timelines V \<longleftrightarrow> nests timelines `` V \<subseteq> V \<and> (\<forall>x\<in>V. (x, x) \<notin> (nests timelines)\<^sup>+)"

lemma closed_reaches: "R `` V \<subseteq> V \<Longrightarrow> (x, y) \<in> R\<^sup>* \<Longrightarrow> x \<in> V \<Longrightarrow> y \<in> V"
  by (erule rtrancl_induct) auto

lemma settled_insert:
  assumes "settled timelines V" "map_of timelines i = Some t" "set (nested_timelines t) \<subseteq> V"
  shows "settled timelines (insert i V)"
proof -
  have next_in: "b \<in> V" if "(i, b) \<in> nests timelines" for b using that assms(2,3) by (auto simp: nests_def)
  have closed: "nests timelines `` V \<subseteq> V" using assms(1) by (simp add: settled_def)
  have "(i, i) \<notin> (nests timelines)\<^sup>+"
  proof
    assume cycle: "(i, i) \<in> (nests timelines)\<^sup>+"
    then obtain b where "(i, b) \<in> nests timelines" "(b, i) \<in> (nests timelines)\<^sup>*" by (meson tranclD)
    then have "i \<in> V" using closed_reaches[OF closed] next_in by blast
    then show False using assms(1) cycle by (simp add: settled_def)
  qed
  then show ?thesis using assms(1) next_in by (auto simp: settled_def)
qed

lemma visit_settles:
  "visit_timeline timelines ident visiting visited = Some (Inr (v, w)) \<Longrightarrow> settled timelines visited \<Longrightarrow>
     settled timelines w \<and> visited \<subseteq> w \<and> ident \<in> w"
  "visit_nested timelines children visiting visited = Some (Inr (v, w)) \<Longrightarrow> settled timelines visited \<Longrightarrow>
     settled timelines w \<and> visited \<subseteq> w \<and> set children \<subseteq> w"
proof (induction timelines ident visiting visited and timelines children visiting visited
    arbitrary: v w and v w rule: visit_timeline_visit_nested.induct)
  case (1 timelines ident visiting visited)
  show ?case
  proof (cases "ident \<in> visited")
    case False
    then obtain t v1 w1 where t: "ident \<notin> visiting" "map_of timelines ident = Some t"
      "visit_nested timelines (nested_timelines t) (insert ident visiting) visited = Some (Inr (v1, w1))" "w = insert ident w1"
      using "1.prems"(1) by (auto simp: bindP_Inr split: if_splits option.splits)
    then show ?thesis using "1.IH"[OF False t(1,2,3) "1.prems"(2)] settled_insert by auto
  qed (use "1.prems" in auto)
next
  case (3 timelines child children visiting visited)
  obtain v1 w1 where c: "visit_timeline timelines child visiting visited = Some (Inr (v1, w1))"
    "visit_nested timelines children v1 w1 = Some (Inr (v, w))"
    using "3.prems"(1) by (auto simp: bindP_Inr)
  note one = "3.IH"(1)[OF c(1) "3.prems"(2)]
  from "3.IH"(2)[OF c(1) refl c(2)] one show ?case by auto
qed simp

lemma visit_total:
  assumes links: "Range (nests timelines) \<subseteq> dom (map_of timelines)"
  shows "ident \<in> dom (map_of timelines) \<Longrightarrow> visit_timeline timelines ident visiting visited \<noteq> None
     \<and> (acyclic (nests timelines) \<longrightarrow> (\<forall>x\<in>visiting. (x, ident) \<in> (nests timelines)\<^sup>+) \<longrightarrow>
        (\<exists>w. visit_timeline timelines ident visiting visited = Some (Inr (visiting, w))))"
  "set children \<subseteq> dom (map_of timelines) \<Longrightarrow> visit_nested timelines children visiting visited \<noteq> None
     \<and> (acyclic (nests timelines) \<longrightarrow> (\<forall>c\<in>set children. \<forall>x\<in>visiting. (x, c) \<in> (nests timelines)\<^sup>+) \<longrightarrow>
        (\<exists>w. visit_nested timelines children visiting visited = Some (Inr (visiting, w))))"
  using links
proof (induction timelines ident visiting visited and timelines children visiting visited
    rule: visit_timeline_visit_nested.induct)
  case (1 timelines ident visiting visited)
  obtain t where t: "map_of timelines ident = Some t" using "1.prems"(1) by blast
  have nest: "(ident, c) \<in> nests timelines" if "c \<in> set (nested_timelines t)" for c using that t by (auto simp: nests_def)
  have stored: "set (nested_timelines t) \<subseteq> dom (map_of timelines)" using nest "1.prems"(2) by blast
  show ?case
  proof (cases "ident \<in> visited \<or> ident \<in> visiting")
    case True
    then show ?thesis by (auto simp: acyclic_def)
  next
    case False
    then have new: "ident \<notin> visited" "ident \<notin> visiting" by simp_all
    note IH = "1.IH"[OF new t stored "1.prems"(2)]
    have "\<forall>c\<in>set (nested_timelines t). \<forall>x\<in>insert ident visiting. (x, c) \<in> (nests timelines)\<^sup>+"
      if "\<forall>x\<in>visiting. (x, ident) \<in> (nests timelines)\<^sup>+"
      using that nest by (auto intro: trancl_into_trancl)
    moreover have "visiting = insert ident visiting - {ident}" using new by blast
    ultimately show ?thesis using IH new t by (auto simp: bindP_None)
  qed
next
  case (3 timelines child children visiting visited)
  have c: "child \<in> dom (map_of timelines)" "set children \<subseteq> dom (map_of timelines)" using "3.prems"(1) by auto
  note one = "3.IH"(1)[OF c(1) "3.prems"(2)]
  note two = "3.IH"(2)[OF _ refl c(2) "3.prems"(2)]
  show ?case using one two by (auto simp: bindP_None) 
qed simp


lemma visit_keeps_path:
  "visit_timeline timelines ident visiting visited = Some (Inr (v, w)) \<Longrightarrow> v = visiting"
  "visit_nested timelines children visiting visited = Some (Inr (v, w)) \<Longrightarrow> v = visiting"
proof (induction timelines ident visiting visited and timelines children visiting visited
    arbitrary: v w and v w rule: visit_timeline_visit_nested.induct)
  case (1 timelines ident visiting visited)
  show ?case
  proof (cases "ident \<in> visited")
    case False
    then obtain t v1 w1 where t: "ident \<notin> visiting" "map_of timelines ident = Some t"
      "visit_nested timelines (nested_timelines t) (insert ident visiting) visited = Some (Inr (v1, w1))" "v = v1 - {ident}"
      using "1.prems"(1) by (auto simp: bindP_Inr split: if_splits option.splits)
    then show ?thesis using "1.IH"[OF False t(1,2,3)] by simp
  qed (use "1.prems" in auto)
next
  case (3 timelines child children visiting visited)
  obtain v1 w1 where c: "visit_timeline timelines child visiting visited = Some (Inr (v1, w1))"
    "visit_nested timelines children v1 w1 = Some (Inr (v, w))"
    using "3.prems"(1) by (auto simp: bindP_Inr)
  from "3.IH"(1)[OF c(1)] "3.IH"(2)[OF c(1) refl c(2)] show ?case by simp
qed simp

lemma visit_all_result:
  assumes "Range (nests timelines) \<subseteq> dom (map_of timelines)" "set ids \<subseteq> dom (map_of timelines)" "settled timelines visited"
  shows "visit_all timelines ids {} visited \<noteq> None
     \<and> (visit_all timelines ids {} visited = Some (Inr ()) \<longrightarrow> (\<forall>x\<in>set ids. (x, x) \<notin> (nests timelines)\<^sup>+))
     \<and> (acyclic (nests timelines) \<longrightarrow> visit_all timelines ids {} visited = Some (Inr ()))"
  using assms(2,3)
proof (induction ids arbitrary: visited)
  case (Cons i ids)
  have i: "i \<in> dom (map_of timelines)" "set ids \<subseteq> dom (map_of timelines)" using Cons.prems(1) by auto
  note total = visit_total(1)[OF assms(1) i(1), of "{}" visited]
  have path: "v = {}" if "visit_timeline timelines i {} visited = Some (Inr (v, w))" for v w
    using visit_keeps_path(1)[OF that] .
  show ?case
  proof (cases "\<exists>w. visit_timeline timelines i {} visited = Some (Inr ({}, w))")
    case True
    then obtain w where w: "visit_timeline timelines i {} visited = Some (Inr ({}, w))" by blast
    from visit_settles(1)[OF w Cons.prems(2)] have "settled timelines w" "i \<in> w" by blast+
    then show ?thesis using Cons.IH[OF i(2), of w] w by (auto simp: settled_def)
  next
    case False
    then show ?thesis using total path by (cases "visit_timeline timelines i {} visited") (auto simp: bindP_def split: sum.splits)
  qed
qed simp

lemma traverse_unit: "(\<exists>us. traverse f xs = Inr us) \<longleftrightarrow> (\<forall>x\<in>set xs. \<exists>u. f x = Inr u)"
  by (induction xs) (auto simp: result_simps)

lemma set_all_clips: "set (all_clips timelines) = (\<Union>(k, t)\<in>set timelines. set (tl_clips t))"
  by (auto simp: all_clips_def)

lemma source_links_iff:
  "validate_source_links media timelines = Inr () \<longleftrightarrow> (\<forall>c\<in>set (all_clips timelines).
     case cl_source c of SourceMedia m \<Rightarrow> om_has media m | SourceTimeline t \<Rightarrow> om_has timelines t)"
proof -
  have "validate_source_links media timelines = Inr () \<longleftrightarrow> (\<exists>us. traverse (validate_source media timelines) (all_clips timelines) = Inr us)"
    by (auto simp: validate_source_links_def result_simps)
  then show ?thesis unfolding traverse_unit by (auto simp: validate_source_def split: clip_source.splits)
qed

lemma nested_in: "b \<in> set (nested_timelines t) \<longleftrightarrow> (\<exists>c\<in>set (tl_clips t). cl_source c = SourceTimeline b)"
proof -
  have "nested_source c = Some b \<longleftrightarrow> cl_source c = SourceTimeline b" for c
    by (simp add: nested_source_def split: clip_source.splits)
  then show ?thesis by (simp add: nested_timelines_def set_map_filter_rel)
qed

lemma links_stored:
  assumes "validate_source_links media timelines = Inr ()"
  shows "Range (nests timelines) \<subseteq> dom (map_of timelines)"
proof
  fix b assume "b \<in> Range (nests timelines)"
  then obtain a t c where c: "map_of timelines a = Some t" "c \<in> set (tl_clips t)" "cl_source c = SourceTimeline b"
    by (auto simp: nests_def nested_in)
  then have "c \<in> set (all_clips timelines)" by (auto simp: set_all_clips dest: map_of_SomeD)
  then show "b \<in> dom (map_of timelines)" using assms c(3) unfolding source_links_iff by (force simp: om_has_dom)
qed

lemma visit_cycles_iff:
  assumes "validate_source_links media timelines = Inr ()"
  shows "validate_nesting_cycles timelines \<noteq> None
     \<and> (validate_nesting_cycles timelines = Some (Inr ()) \<longleftrightarrow> acyclic (nests timelines))"
proof -
  have keys: "set (map fst timelines) = dom (map_of timelines)" by (simp add: dom_map_of_conv_image_fst)
  have "settled timelines {}" by (simp add: settled_def)
  note r = visit_all_result[OF links_stored[OF assms] equalityD1[OF keys] this]
  have "(x, x) \<notin> (nests timelines)\<^sup>+" if "x \<notin> set (map fst timelines)" for x
    using that keys by (auto simp: nests_def dom_def dest: tranclD)
  then show ?thesis using r unfolding validate_nesting_cycles_def acyclic_def by blast
qed

text \<open>
  C8: Once every source link resolves, the depth-first search over the timelines never panics, and
  it accepts exactly when no timeline nests itself, directly or through others.
\<close>

theorem nesting_validates_iff_acyclic:
  assumes "validate_source_links media timelines = Inr ()"
  shows "validate_nesting_cycles timelines \<noteq> None
     \<and> (validate_nesting_cycles timelines = Some (Inr ()) \<longleftrightarrow> acyclic (nests timelines))"
  by (rule visit_cycles_iff[OF assms])

section \<open>Edits\<close>

definition all_tracks :: "timeline_table \<Rightarrow> track list" where
  "all_tracks timelines = concat (map (\<lambda>t. tl_tracks t) (map snd timelines))"

definition track_object_ids :: "track list \<Rightarrow> editorial_object_id list" where
  "track_object_ids ks = concat (map (\<lambda>k. map item_id (tk_items k)) ks)"

lemma track_object_ids_simps:
  "track_object_ids [] = []" "track_object_ids (k # ks) = map item_id (tk_items k) @ track_object_ids ks"
  "track_object_ids (ks @ ls) = track_object_ids ks @ track_object_ids ls"
  by (simp_all add: track_object_ids_def)

lemma validate_items_ids:
  "validate_items items tb n rest ids e = Inr ids' \<Longrightarrow> distinct (map item_id rest) \<and> item_id ` set rest \<inter> ids = {}
     \<and> ids' = ids \<union> item_id ` set rest"
  by (induction rest arbitrary: n ids e) (force simp: result_simps)+

lemma validate_track_ids:
  "validate_track k ids = Inr ids' \<Longrightarrow> distinct (map item_id (tk_items k)) \<and> item_id ` set (tk_items k) \<inter> ids = {}
     \<and> ids' = ids \<union> item_id ` set (tk_items k)"
  by (auto simp: validate_track_def result_simps Let_def dest!: validate_items_ids)

lemma validate_tracks_ids:
  "validate_tracks ks T D = Inr (T', D') \<Longrightarrow> distinct (map tk_id ks) \<and> tk_id ` set ks \<inter> T = {} \<and> T' = T \<union> tk_id ` set ks
     \<and> distinct (track_object_ids ks) \<and> set (track_object_ids ks) \<inter> D = {} \<and> D' = D \<union> set (track_object_ids ks)"
proof (induction ks arbitrary: T D)
  case (Cons k ks)
  obtain D1 where k: "tk_id k \<notin> T" "validate_track k D = Inr D1" "validate_tracks ks (insert (tk_id k) T) D1 = Inr (T', D')"
    using Cons.prems by (auto simp: result_simps)
  note one = validate_track_ids[OF k(2)]
  note rest = Cons.IH[OF k(3)]
  have objects: "set (track_object_ids (k # ks)) = item_id ` set (tk_items k) \<union> set (track_object_ids ks)"
    by (simp add: track_object_ids_simps)
  have D: "D1 = D \<union> item_id ` set (tk_items k)" "item_id ` set (tk_items k) \<inter> D = {}" using one by blast+
  have R: "set (track_object_ids ks) \<inter> D1 = {}" "D' = D1 \<union> set (track_object_ids ks)" "distinct (track_object_ids ks)" using rest by blast+
  have "set (track_object_ids (k # ks)) \<inter> D = {}" "D' = D \<union> set (track_object_ids (k # ks))" using D R unfolding objects by blast+
  moreover have "distinct (track_object_ids (k # ks))"
    unfolding track_object_ids_simps distinct_append set_map using one R(1,3) D(1) by blast
  moreover have "distinct (map tk_id (k # ks))" "tk_id ` set (k # ks) \<inter> T = {}" "T' = T \<union> tk_id ` set (k # ks)"
    using rest k(1) by auto
  ultimately show ?case by blast
qed (simp add: track_object_ids_simps)

lemma validate_timelines_ids:
  "validate_timelines ts (T, D, M) = Some (Inr ()) \<Longrightarrow>
     distinct (map tk_id (concat (map (\<lambda>t. tl_tracks t) ts))) \<and> tk_id ` set (concat (map (\<lambda>t. tl_tracks t) ts)) \<inter> T = {}
     \<and> distinct (track_object_ids (concat (map (\<lambda>t. tl_tracks t) ts)))
     \<and> set (track_object_ids (concat (map (\<lambda>t. tl_tracks t) ts))) \<inter> D = {}
     \<and> (\<forall>t\<in>set ts. es_validate (tl_edit_state t) (tl_tracks t) = Some (Inr ()))"
proof (induction ts arbitrary: T D M)
  case (Cons t ts)
  obtain T1 D1 M1 where t: "validate_tracks (tl_tracks t) T D = Inr (T1, D1)" "es_validate (tl_edit_state t) (tl_tracks t) = Some (Inr ())"
    "validate_timelines ts (T1, D1, M1) = Some (Inr ())"
    using Cons.prems by (auto simp: validate_timeline_def result_simps split: if_splits)
  note one = validate_tracks_ids[OF t(1)]
  note rest = Cons.IH[OF t(3)]
  let ?ks = "concat (map (\<lambda>t. tl_tracks t) ts)"
  have "set (track_object_ids (tl_tracks t)) \<inter> set (track_object_ids ?ks) = {}" "set (track_object_ids (tl_tracks t @ ?ks)) \<inter> D = {}"
    "tk_id ` set (tl_tracks t) \<inter> tk_id ` set ?ks = {}" "tk_id ` set (tl_tracks t @ ?ks) \<inter> T = {}"
    using rest one unfolding track_object_ids_simps set_append image_Un by blast+
  then show ?case using rest one t(2) by (simp add: track_object_ids_simps)
qed (simp add: track_object_ids_simps)

lemma validated_project:
  assumes "pj_validate p = Some (Inr ())"
  shows "validate_source_links (pj_media_references p) (pj_timelines p) = Inr ()" "acyclic (nests (pj_timelines p))"
    "validate_timelines (map snd (pj_timelines p)) ({}, {}, {}) = Some (Inr ())" "validate_multicam (pj_timelines p) = Some (Inr ())"
    "validate_nested_ranges (pj_timelines p) = Some (Inr ())"
proof -
  show links: "validate_source_links (pj_media_references p) (pj_timelines p) = Inr ()"
    and "validate_timelines (map snd (pj_timelines p)) ({}, {}, {}) = Some (Inr ())" "validate_multicam (pj_timelines p) = Some (Inr ())"
    "validate_nested_ranges (pj_timelines p) = Some (Inr ())"
    using assms by (auto simp: pj_validate_def bindP_Inr)
  have "validate_nesting_cycles (pj_timelines p) = Some (Inr ())" using assms by (auto simp: pj_validate_def bindP_Inr)
  then show "acyclic (nests (pj_timelines p))" using visit_cycles_iff[OF links] by blast
qed

lemma pj_edit_result:
  assumes "pj_edit p r f = Some (res, q)"
  shows "pj_id q = pj_id p \<and> (case res of Inl e \<Rightarrow> q = p
     | Inr _ \<Rightarrow> r = pj_revision p \<and> pj_revision q = r + 1 \<and> pj_validate q = Some (Inr ()))"
  using assms by (auto simp: pj_edit_def Let_def reconcile_timeline_state_def bindP_Inr result_simps split: if_splits option.splits sum.splits)

text \<open>What a caller can do with a project: any edit, committed or refused, and a restore.\<close>

inductive pj_step :: "editorial_project \<Rightarrow> editorial_project \<Rightarrow> bool" where
  step_edit: "pj_edit p r f = Some (res, q) \<Longrightarrow> pj_step p q"
| step_restore: "pj_restore_persisted_state p r library = Some (res, q) \<Longrightarrow> pj_step p q"

lemma pj_step_valid:
  assumes "pj_step p q" "pj_validate p = Some (Inr ())"
  shows "pj_validate q = Some (Inr ()) \<and> pj_id q = pj_id p"
  using assms
proof cases
  case (step_edit r f res)
  from pj_edit_result[OF step_edit] assms(2) show ?thesis by (auto split: sum.splits)
next
  case (step_restore r library res)
  then show ?thesis using assms(2)
    by (auto simp: pj_restore_persisted_state_def Let_def split: option.splits sum.splits)
qed

text \<open>
  C7: Whatever edits are tried and whatever is restored, a project is sound: it passes its whole
  validation under its own identity, no timeline nests itself, every clip's source is there, no
  two tracks and no two objects anywhere in the project share an identity, and the edit state of
  every timeline fits its tracks.
\<close>

theorem committed_projects_sound:
  assumes "pj_new ident name media timelines = Some (Inr p0)" "pj_step\<^sup>*\<^sup>* p0 p"
  shows "pj_validate p = Some (Inr ()) \<and> pj_id p = ident \<and> acyclic (nests (pj_timelines p))
     \<and> (\<forall>c\<in>set (all_clips (pj_timelines p)). case cl_source c of SourceMedia m \<Rightarrow> om_has (pj_media_references p) m
          | SourceTimeline t \<Rightarrow> om_has (pj_timelines p) t)
     \<and> distinct (map tk_id (all_tracks (pj_timelines p))) \<and> distinct (track_object_ids (all_tracks (pj_timelines p)))
     \<and> (\<forall>t\<in>snd ` set (pj_timelines p). es_validate (tl_edit_state t) (tl_tracks t) = Some (Inr ()))"
proof -
  have "pj_validate p0 = Some (Inr ()) \<and> pj_id p0 = ident" using assms(1) by (auto simp: pj_new_def bindP_Inr Let_def)
  with assms(2) have valid: "pj_validate p = Some (Inr ()) \<and> pj_id p = ident"
    by (induction rule: rtranclp_induct) (use pj_step_valid in auto)
  note v = validated_project[OF valid[THEN conjunct1]]
  note ids = validate_timelines_ids[OF v(3), folded all_tracks_def]
  show ?thesis
  proof (intro conjI)
    show "pj_validate p = Some (Inr ())" "pj_id p = ident" using valid by (rule conjunct1, rule conjunct2)
    show "acyclic (nests (pj_timelines p))" by (rule v(2))
    show "\<forall>c\<in>set (all_clips (pj_timelines p)). case cl_source c of SourceMedia m \<Rightarrow> om_has (pj_media_references p) m
          | SourceTimeline t \<Rightarrow> om_has (pj_timelines p) t"
      using v(1) by (simp only: source_links_iff)
    show "distinct (map tk_id (all_tracks (pj_timelines p)))" by (rule ids[THEN conjunct1])
    show "distinct (track_object_ids (all_tracks (pj_timelines p)))" by (rule ids[THEN conjunct2, THEN conjunct2, THEN conjunct1])
    show "\<forall>t\<in>snd ` set (pj_timelines p). es_validate (tl_edit_state t) (tl_tracks t) = Some (Inr ())"
      by (rule ids[THEN conjunct2, THEN conjunct2, THEN conjunct2, THEN conjunct2, unfolded list.set_map])
  qed
qed

text \<open>
  Edits are serialized by the revision: a committed edit counts it up by one, so any edit
  prepared against the same state is refused as stale and changes nothing; every failed edit leaves
  the project as it was.
\<close>

theorem stale_edit_refused:
  assumes "pj_edit p r f = Some (Inr (), q)"
  shows "pj_revision q = pj_revision p + 1 \<and> pj_edit q r g = Some (Inl (stale_revision r (pj_revision q)), q)
     \<and> (\<forall>e p'. pj_edit q r' h = Some (Inl e, p') \<longrightarrow> p' = q)"
proof (intro conjI allI impI)
  show rev: "pj_revision q = pj_revision p + 1" using pj_edit_result[OF assms] by simp
  have "r = pj_revision p" using pj_edit_result[OF assms] by simp
  then have "r \<noteq> pj_revision q" using rev by simp
  then show "pj_edit q r g = Some (Inl (stale_revision r (pj_revision q)), q)" by (simp add: pj_edit_def)
  show "p' = q" if "pj_edit q r' h = Some (Inl e, p')" for e p'
    using pj_edit_result[OF that] by simp
qed


section \<open>Multicam frames\<close>

text \<open>
  A switch program stored under one clip that is for another: the timeline stores it under its own
  clip, but the draft's mutable access to the stored program can replace it by one for another clip.
\<close>

definition misnamed_program :: "timeline_table \<Rightarrow> timeline_id \<Rightarrow> clip_id \<Rightarrow> bool" where
  "misnamed_program timelines target c \<longleftrightarrow>
     (case map_of timelines target of
        None \<Rightarrow> False
      | Some t \<Rightarrow> (case tl_multicam_clip t c of None \<Rightarrow> False | Some s \<Rightarrow> mc_clip_id s \<noteq> c))"

lemma traverseP_unit: "(\<exists>us. traverseP f xs = Some (Inr us)) \<longleftrightarrow> (\<forall>x\<in>set xs. \<exists>u. f x = Some (Inr u))"
  by (induction xs) (auto simp: bindP_Inr)

lemma angle_ranges_found: "angle_ranges t cs = Inr rs \<Longrightarrow> \<forall>c\<in>set cs. find_clip t c \<noteq> None"
  by (induction cs arbitrary: rs) (auto simp: result_simps)

lemma angle_clips_found:
  "validate_angle_clips t as ids = Inr ids' \<Longrightarrow> \<forall>a\<in>set as. \<forall>c\<in>set (ma_source_clips a). find_clip t c \<noteq> None"
  by (induction as arbitrary: ids) (fastforce simp: result_simps dest: angle_ranges_found)+

lemma source_members_found:
  "foldR (\<lambda>t. validate_multicam_source t) ts ids = Inr ids' \<Longrightarrow> t \<in> set ts \<Longrightarrow> tl_multicam_source t = Some s \<Longrightarrow>
     ms_validate s = Inr () \<and> (\<forall>a\<in>set (ms_angles s). \<forall>c\<in>set (ma_source_clips a). find_clip t c \<noteq> None)"
proof (induction ts arbitrary: ids)
  case (Cons u ts)
  obtain ids1 where one: "validate_multicam_source u ids = Inr ids1" "foldR (\<lambda>t. validate_multicam_source t) ts ids1 = Inr ids'"
    using Cons.prems(1) by (auto simp: result_simps)
  show ?case
  proof (cases "t \<in> set ts")
    case True
    from Cons.IH[OF one(2) this Cons.prems(3)] show ?thesis .
  next
    case False
    then have "t = u" using Cons.prems(2) by simp
    then have "ms_validate s = Inr ()" "validate_angle_clips t (ms_angles s) ids = Inr ids1"
      using one(1) Cons.prems(3) by (auto simp: validate_multicam_source_def result_simps)
    then show ?thesis using angle_clips_found by blast
  qed
qed simp

lemma require_angle_Inr:
  "require_angle s i missing disabled = Inr u \<longleftrightarrow> (\<exists>a. ms_angle s i = Some a \<and> ma_enabled a)"
  by (auto simp: require_angle_def result_simps)

lemma validated_angles:
  assumes "mc_validate_against c s r = Some (Inr u)"
  shows "\<forall>w\<in>set (mc_switches c). \<exists>a. ms_angle s (sw_angle_id w) = Some a \<and> ma_enabled a"
    "mc_audio_policy c = FixedAudio i \<Longrightarrow> \<exists>a. ms_angle s i = Some a \<and> ma_enabled a"
proof -
  have *: "\<exists>us. traverse (\<lambda>w. require_angle s (sw_angle_id w) ''multicam switch references a missing source angle''
      ''multicam switch references a disabled source angle'') (mc_switches c) = Inr us"
    "mc_audio_policy c = FixedAudio i \<Longrightarrow> \<exists>u. require_angle s i ''fixed multicam audio references a missing source angle''
             ''fixed multicam audio references a disabled source angle'' = Inr u"
    using assms by (auto simp: mc_validate_against_def bindP_Inr result_simps split: option.splits if_splits)
  then show "\<forall>w\<in>set (mc_switches c). \<exists>a. ms_angle s (sw_angle_id w) = Some a \<and> ma_enabled a"
    "mc_audio_policy c = FixedAudio i \<Longrightarrow> \<exists>a. ms_angle s i = Some a \<and> ma_enabled a"
    unfolding traverse_unit require_angle_Inr by blast+
qed

lemma angle_scan_switch: "angle_scan ss t = Inr a \<Longrightarrow> \<exists>w\<in>set ss. sw_angle_id w = a"
  by (induction ss) (auto simp: result_simps split: if_splits)

lemma find_clip_id: "find_clip t c = Some clip \<Longrightarrow> cl_id clip = c"
  by (auto simp: find_clip_def find_Some_iff)

lemma ms_angle_in: "ms_angle s i = Some a \<Longrightarrow> a \<in> set (ms_angles s) \<and> ma_id a = i"
  by (auto simp: ms_angle_def find_Some_iff)

lemma active_clip:
  assumes "\<forall>c\<in>set cs. find_clip t c \<noteq> None"
  shows "active_source_clip t cs time \<noteq> None \<and> (\<forall>clip. active_source_clip t cs time = Some (Inr (Some clip)) \<longrightarrow>
     cl_id clip \<in> set cs \<and> find_clip t (cl_id clip) = Some clip \<and> tr_contains (cl_record_range clip) time = Inr True)"
  using assms
proof (induction cs)
  case (Cons c cs)
  then obtain clip where "find_clip t c = Some clip" by auto
  with Cons find_clip_id[OF this] show ?case
    by (cases "tr_contains (cl_record_range clip) time") (auto simp: bindP_def)
qed simp

lemma unique_angle:
  assumes "distinct (map ma_id as)" "a \<in> set as"
  shows "find (\<lambda>b. ma_id b = ma_id a) as = Some a"
  using assms by (induction as) auto

lemma audible_angles:
  assumes "mc_validate_against c s r = Some (Inr u)" "ms_validate s = Inr ()" "ms_angle s i = Some a" "ma_enabled a"
  shows "\<forall>k\<in>set (audio_angles (mc_audio_policy c) i s). \<exists>b. ms_angle s k = Some b \<and> ma_enabled b"
proof (cases "mc_audio_policy c")
  case (FixedAudio k)
  then show ?thesis using validated_angles(2)[OF assms(1) FixedAudio] by (simp add: audio_angles_def)
next
  case AllAngles
  have "distinct (map ma_id (ms_angles s))" using assms(2) by (simp add: ms_validate_Inr)
  then show ?thesis using AllAngles unique_angle by (fastforce simp: audio_angles_def ms_angle_def)
qed (use assms in \<open>simp add: audio_angles_def\<close>)

text \<open>What the validation gives for the target of a multicam clip.\<close>

lemma validated_target:
  assumes "validate_multicam timelines = Some (Inr ())" "\<not> misnamed_program timelines i c" "map_of timelines i = Some t"
    "find_clip t c = Some clip" "tl_multicam_clip t c = Some state" "nested_source clip = Some src"
  obtains st s r where "map_of timelines src = Some st" "tl_multicam_source st = Some s" "mc_validate_against state s r = Some (Inr ())"
    "ms_validate s = Inr ()" "\<forall>a\<in>set (ms_angles s). \<forall>c\<in>set (ma_source_clips a). find_clip st c \<noteq> None"
proof -
  have t: "t \<in> set (map snd timelines)" using map_of_SomeD[OF assms(3)] by force
  have state: "state \<in> set (map snd (tl_multicam_clips t))" "map_of (tl_multicam_clips t) c = Some state"
    using assms(5) map_of_SomeD by (force simp: tl_multicam_clip_def)+
  have id: "mc_clip_id state = c" using assms(2,3,5) by (simp add: misnamed_program_def)
  obtain ids us where v: "foldR (\<lambda>t. validate_multicam_source t) (map snd timelines) {} = Inr ids"
    "traverseP (\<lambda>t. bindP (traverseP (validate_multicam_clip timelines t) (map snd (tl_multicam_clips t))) (\<lambda>_. Some (Inr ())))
       (map snd timelines) = Some (Inr us)"
    using assms(1) by (auto simp: validate_multicam_def bindP_Inr)
  have "\<exists>us. traverseP (validate_multicam_clip timelines t) (map snd (tl_multicam_clips t)) = Some (Inr us)"
    using v(2) t traverseP_unit by (metis (no_types, lifting) bindP_Inr)
  then have "validate_multicam_clip timelines t state = Some (Inr ())" using state(1) unfolding traverseP_unit by auto
  then obtain st s r where st: "map_of timelines src = Some st" "tl_multicam_source st = Some s" "mc_validate_against state s r = Some (Inr ())"
    using assms(4,6) id by (auto simp: validate_multicam_clip_def bindP_Inr result_simps split: option.splits)
  have "st \<in> set (map snd timelines)" using map_of_SomeD[OF st(1)] by force
  from source_members_found[OF v(1) this st(2)] st that show thesis by blast
qed

text \<open>
  C15: In a project that validates, resolving a multicam frame of a clip whose stored switch program
  is for that clip never panics: every lookup the code expects to succeed does. A frame it returns
  shows a clip of an enabled angle of the nested timeline whose record range holds the synchronized
  time, and every angle it plays audio from exists and is enabled. The one case left open is a
  stored program for another clip, which the mutable access of a draft allows, and there it can
  panic (misnamed_program_panics).
\<close>

theorem multicam_frame_resolves:
  assumes "pj_validate p = Some (Inr ())"
  shows "misnamed_program (pj_timelines p) target clip_id \<or> (case resolve_multicam_frame p target clip_id time of
      None \<Rightarrow> False
    | Some (Inl _) \<Rightarrow> True
    | Some (Inr f) \<Rightarrow> \<exists>st s a c. map_of (pj_timelines p) (rm_source_timeline_id f) = Some st \<and> tl_multicam_source st = Some s
        \<and> ms_angle s (rm_angle_id f) = Some a \<and> ma_enabled a \<and> rm_source_clip_id f \<in> set (ma_source_clips a)
        \<and> find_clip st (rm_source_clip_id f) = Some c \<and> rm_source f = cl_source c
        \<and> tr_contains (cl_record_range c) (rm_source_timeline_time f) = Inr True
        \<and> (\<forall>k\<in>set (rm_audio_angle_ids f). \<exists>b. ms_angle s k = Some b \<and> ma_enabled b))"
proof (cases "misnamed_program (pj_timelines p) target clip_id")
  case named: False
  note multicam = validated_project(4)[OF assms]
  show ?thesis
  proof (cases "\<exists>t clip state src x angle_id. map_of (pj_timelines p) target = Some t \<and> find_clip t clip_id = Some clip
      \<and> tl_multicam_clip t clip_id = Some state \<and> nested_source clip = Some src
      \<and> cl_source_time_at clip time RoundExact = Inr x \<and> mc_angle_at state (mst_time x) = Inr angle_id")
    case False
    then show ?thesis
      by (auto simp: resolve_multicam_frame_def bindP_def mapR_def ok_or_def split: option.splits sum.splits)
  next
    case True
    then obtain t clip state src x angle_id where t: "map_of (pj_timelines p) target = Some t" "find_clip t clip_id = Some clip"
      "tl_multicam_clip t clip_id = Some state" "nested_source clip = Some src"
      "cl_source_time_at clip time RoundExact = Inr x" "mc_angle_at state (mst_time x) = Inr angle_id" by blast
    obtain st s r where st: "map_of (pj_timelines p) src = Some st" "tl_multicam_source st = Some s"
      "mc_validate_against state s r = Some (Inr ())" "ms_validate s = Inr ()"
      "\<forall>a\<in>set (ms_angles s). \<forall>c\<in>set (ma_source_clips a). find_clip st c \<noteq> None"
      by (rule validated_target[OF multicam named t(1-4)])
    obtain a where a: "ms_angle s angle_id = Some a" "ma_enabled a"
      using validated_angles(1)[OF st(3)] angle_scan_switch t(6) unfolding mc_angle_at_def by blast
    note audio = audible_angles[OF st(3,4) a]
    have "\<forall>c\<in>set (ma_source_clips a). find_clip st c \<noteq> None" using st(5) ms_angle_in[OF a(1)] by blast
    note active = active_clip[OF this, of "mst_time x"]
    show ?thesis using t st a audio active
      by (auto simp: resolve_multicam_frame_def bindP_def ok_or_def split: option.splits sum.splits)
  qed
qed simp


section \<open>A project\<close>

text \<open>Two cameras on their own timeline, and a program that cuts between them.\<close>

definition one_clip_track :: "128 word \<Rightarrow> clip \<Rightarrow> track" where
  "one_clip_track ident c = \<lparr>tk_id = TypedId ident, tk_name = ''V'', tk_semantics = VideoSemantics (vs_new fps_24 CompositeOver),
     tk_items = [IClip c]\<rparr>"

definition cameras :: timeline where
  "cameras = (tl_new (TypedId 2) ''cameras'' tb24 (rt_zero tb24) [one_clip_track 1 (shot 10 100 0 48), one_clip_track 2 (shot 12 500 0 48)])
     \<lparr>tl_multicam_source := Some \<lparr>ms_sync_method = SyncAudio, ms_angles =
       [\<lparr>ma_id = TypedId 1, ma_name = ''left'', ma_camera_label = ''A'', ma_enabled = True, ma_metadata = [], ma_source_clips = [TypedId 10]\<rparr>,
        \<lparr>ma_id = TypedId 2, ma_name = ''right'', ma_camera_label = ''B'', ma_enabled = True, ma_metadata = [], ma_source_clips = [TypedId 12]\<rparr>]\<rparr>\<rparr>"

definition program :: timeline where
  "program = (tl_new (TypedId 1) ''program'' tb24 (rt_zero tb24)
       [one_clip_track 3 ((shot 20 0 0 48)\<lparr>cl_source := SourceTimeline (TypedId 2)\<rparr>)])
     \<lparr>tl_multicam_clips := [(TypedId 20, \<lparr>mc_clip_id = TypedId 20, mc_switches =
        [\<lparr>sw_source_range = range24 0 24, sw_angle_id = TypedId 1\<rparr>, \<lparr>sw_source_range = range24 24 24, sw_angle_id = TypedId 2\<rparr>],
        mc_audio_policy = AllAngles\<rparr>)]\<rparr>"

definition show_project :: editorial_project where
  "show_project = \<lparr>pj_id = TypedId 5, pj_name = ''show'', pj_revision = 0, pj_media_references = [(TypedId 9, interview)],
     pj_media_library = ml_new, pj_timelines = [(TypedId 1, program), (TypedId 2, cameras)]\<rparr>"

definition passes :: "unit result option \<Rightarrow> bool" where
  "passes r \<longleftrightarrow> (case r of Some (Inr _) \<Rightarrow> True | _ \<Rightarrow> False)"

lemma passes_iff: "passes r \<longleftrightarrow> r = Some (Inr ())"
  by (auto simp: passes_def split: option.splits sum.splits)

lemma show_nests: "acyclic (nests (pj_timelines show_project))"
proof -
  have "nested_timelines program = [TypedId 2]" "nested_timelines cameras = []" by code_simp+
  then have "nests (pj_timelines show_project) \<subseteq> {(TypedId 1, TypedId 2)}"
    by (auto simp: nests_def show_project_def split: if_splits)
  moreover have "acyclic {(TypedId 1 :: timeline_id, TypedId 2)}" by (auto simp: acyclic_def trancl_insert)
  ultimately show ?thesis by (rule acyclic_subset[rotated])
qed

lemma show_links: "validate_source_links (pj_media_references show_project) (pj_timelines show_project) = Inr ()"
proof -
  have "is_ok (validate_source_links (pj_media_references show_project) (pj_timelines show_project))" by code_simp
  then show ?thesis by (simp add: is_ok_iff)
qed

lemma show_multicam: "validate_multicam (pj_timelines show_project) = Some (Inr ())"
proof -
  define c where "c = snd (hd (tl_multicam_clips program))"
  define s where "s = the (tl_multicam_source cameras)"
  have one: "find_clip program (TypedId 20) = Some ((shot 20 0 0 48)\<lparr>cl_source := SourceTimeline (TypedId 2)\<rparr>)" by code_simp
  have "returns (bindR (tl_duration cameras) (\<lambda>d. tr_new (rt_zero (tl_edit_rate cameras)) d)) (range24 0 48)" by code_simp
  then have complete: "bindR (tl_duration cameras) (\<lambda>d. tr_new (rt_zero (tl_edit_rate cameras)) d) = Inr (range24 0 48)"
    by (simp add: returns_iff)
  have "is_ok (validate_partition c)" unfolding c_def by code_simp
  moreover have "mc_coverage c = Some (range24 0 48)" unfolding c_def by code_simp
  moreover have "tr_eq (range24 0 48) (range24 0 48)" by code_simp
  moreover have "require_angle s (sw_angle_id w) m d = Inr ()" if "w \<in> set (mc_switches c)" for w m d
    using that by (auto simp: require_angle_Inr c_def s_def program_def cameras_def tl_new_def ms_angle_def)
  moreover have "mc_audio_policy c = AllAngles" by (simp add: c_def program_def)
  ultimately have "mc_validate_against c s (range24 0 48) = Some (Inr ())"
    by (auto simp: mc_validate_against_def is_ok_iff bindP_Inr result_simps traverse_unit)
  then have two: "validate_multicam_clip (pj_timelines show_project) program c = Some (Inr ())"
    using one complete
    by (simp add: validate_multicam_clip_def c_def s_def program_def cameras_def show_project_def nested_source_def)
  have "is_ok (foldR (\<lambda>t. validate_multicam_source t) (map snd (pj_timelines show_project)) {})" by code_simp
  then show ?thesis
    using two by (auto simp: validate_multicam_def is_ok_iff show_project_def c_def program_def cameras_def tl_new_def)
qed

lemma show_valid: "pj_validate show_project = Some (Inr ())"
proof -
  have "is_ok (require_text ''validate_project'' ''project name'' (pj_name show_project))"
    "is_ok (traverse (\<lambda>m. lr_validate m) (map snd (pj_media_references show_project)))"
    "is_ok (ml_validate (pj_media_library show_project) (pj_media_references show_project))"
    by code_simp+
  moreover have "passes (validate_timelines (map snd (pj_timelines show_project)) ({}, {}, {}))"
    "passes (validate_nested_ranges (pj_timelines show_project))"
    by code_simp+
  moreover note visit_cycles_iff[OF show_links] show_nests show_links show_multicam
  ultimately show ?thesis by (auto simp: pj_validate_def passes_iff is_ok_iff)
qed

lemma show_named: "\<not> misnamed_program (pj_timelines show_project) (TypedId 1) (TypedId 20)"
  by code_simp

text \<open>
  The finding on misnamed programs: a second nested clip of the program plays a timeline without
  angles, and the switch program stored for it is the one for the first clip. The validation checks
  the program against the first clip, so the project validates; resolving a frame of the second
  clip looks for angles its source timeline does not have, and panics.
\<close>

definition plain :: timeline where
  "plain = tl_new (TypedId 3) ''plain'' tb24 (rt_zero tb24) [one_clip_track 4 (shot 30 0 0 48)]"

definition misnamed :: timeline where
  "misnamed = (tl_new (TypedId 1) ''program'' tb24 (rt_zero tb24)
       [one_clip_track 3 ((shot 20 0 0 48)\<lparr>cl_source := SourceTimeline (TypedId 2)\<rparr>),
        one_clip_track 5 ((shot 22 0 0 48)\<lparr>cl_source := SourceTimeline (TypedId 3)\<rparr>)])
     \<lparr>tl_multicam_clips := [(TypedId 22, snd (hd (tl_multicam_clips program)))]\<rparr>"

definition misnamed_project :: editorial_project where
  "misnamed_project = show_project\<lparr>pj_timelines := [(TypedId 1, misnamed), (TypedId 2, cameras), (TypedId 3, plain)]\<rparr>"

lemma misnamed_nests: "acyclic (nests (pj_timelines misnamed_project))"
proof -
  have "nested_timelines misnamed = [TypedId 2, TypedId 3]" "nested_timelines cameras = []" "nested_timelines plain = []" by code_simp+
  then have "nests (pj_timelines misnamed_project) \<subseteq> {(TypedId 1, TypedId 2), (TypedId 1, TypedId 3)}"
    by (auto simp: nests_def misnamed_project_def split: if_splits)
  moreover have "acyclic {(TypedId 1 :: timeline_id, TypedId 2), (TypedId 1, TypedId 3)}"
    by (rule acyclicI_order[where f = "\<lambda>i. if i = TypedId 1 then 1 else 0 :: nat"]) auto
  ultimately show ?thesis by (rule acyclic_subset[rotated])
qed

lemma misnamed_links: "validate_source_links (pj_media_references misnamed_project) (pj_timelines misnamed_project) = Inr ()"
proof -
  have "is_ok (validate_source_links (pj_media_references misnamed_project) (pj_timelines misnamed_project))" by code_simp
  then show ?thesis by (simp add: is_ok_iff)
qed

lemma misnamed_multicam: "validate_multicam (pj_timelines misnamed_project) = Some (Inr ())"
proof -
  define c where "c = snd (hd (tl_multicam_clips program))"
  have "validate_multicam_clip (pj_timelines show_project) program c = Some (Inr ())"
    using show_multicam by (auto simp: validate_multicam_def bindP_Inr c_def program_def show_project_def tl_new_def
      split: option.splits sum.splits)
  moreover have "find_clip misnamed (TypedId 20) = find_clip program (TypedId 20)" by code_simp
  moreover have "mc_clip_id c = TypedId 20" by (simp add: c_def program_def)
  moreover have "nested_source clip = Some (TypedId 2)" if "find_clip program (TypedId 20) = Some clip" for clip
  proof -
    have "find_clip program (TypedId 20) = Some ((shot 20 0 0 48)\<lparr>cl_source := SourceTimeline (TypedId 2)\<rparr>)" by code_simp
    then show ?thesis using that by (auto simp: nested_source_def)
  qed
  ultimately have two: "validate_multicam_clip (pj_timelines misnamed_project) misnamed c = Some (Inr ())"
    by (auto simp: validate_multicam_clip_def misnamed_project_def show_project_def bindP_Inr ok_or_def split: option.splits)
  have "is_ok (foldR (\<lambda>t. validate_multicam_source t) (map snd (pj_timelines misnamed_project)) {})" by code_simp
  then show ?thesis
    using two by (auto simp: validate_multicam_def is_ok_iff misnamed_project_def c_def misnamed_def cameras_def plain_def tl_new_def)
qed

lemma misnamed_valid: "pj_validate misnamed_project = Some (Inr ())"
proof -
  have "is_ok (require_text ''validate_project'' ''project name'' (pj_name misnamed_project))"
    "is_ok (traverse (\<lambda>m. lr_validate m) (map snd (pj_media_references misnamed_project)))"
    "is_ok (ml_validate (pj_media_library misnamed_project) (pj_media_references misnamed_project))"
    by code_simp+
  moreover have "passes (validate_timelines (map snd (pj_timelines misnamed_project)) ({}, {}, {}))"
    "passes (validate_nested_ranges (pj_timelines misnamed_project))"
    by code_simp+
  moreover note visit_cycles_iff[OF misnamed_links] misnamed_nests misnamed_links misnamed_multicam
  ultimately show ?thesis by (auto simp: pj_validate_def passes_iff is_ok_iff)
qed

lemma misnamed_program_panics:
  "pj_validate misnamed_project = Some (Inr ())
   \<and> resolve_multicam_frame misnamed_project (TypedId 1) (TypedId 22) (rt_new 30 tb24) = None"
proof
  show "resolve_multicam_frame misnamed_project (TypedId 1) (TypedId 22) (rt_new 30 tb24) = None" by code_simp
qed (rule misnamed_valid)

theorem nesting_validates_iff_acyclic_witness:
  "validate_nesting_cycles (pj_timelines show_project) = Some (Inr ())"
  using nesting_validates_iff_acyclic[OF show_links] show_nests by blast

theorem multicam_frame_resolves_witness:
  "\<exists>f s b. resolve_multicam_frame show_project (TypedId 1) (TypedId 20) (rt_new 30 tb24) = Some (Inr f)
     \<and> rm_angle_id f = TypedId 2 \<and> ms_angle s (TypedId 2) = Some b \<and> ma_enabled b"
proof -
  have "case resolve_multicam_frame show_project (TypedId 1) (TypedId 20) (rt_new 30 tb24) of
      Some (Inr f) \<Rightarrow> rm_angle_id f = TypedId 2 | _ \<Rightarrow> False" by code_simp
  then obtain f where f: "resolve_multicam_frame show_project (TypedId 1) (TypedId 20) (rt_new 30 tb24) = Some (Inr f)"
    "rm_angle_id f = TypedId 2" by (auto split: option.splits sum.splits)
  with multicam_frame_resolves[OF show_valid, of "TypedId 1" "TypedId 20" "rt_new 30 tb24"]
  show ?thesis using show_named by auto
qed

lemma show_built: "pj_new (TypedId 5) ''show'' [interview] [cameras, program] = Some (Inr show_project)"
proof -
  have "media_by_id [interview] [] = Inr (pj_media_references show_project)"
    "timelines_by_id [cameras, program] [] = Inr (pj_timelines show_project)"
    by (simp_all add: om_has_def interview_def show_project_def cameras_def program_def tl_new_def less_typed_id_def)
  then show ?thesis using show_valid by (simp add: pj_new_def show_project_def)
qed

text \<open>The program is renamed; a second edit prepared against the same revision is stale.\<close>

definition rename :: "string \<Rightarrow> project_draft \<Rightarrow> project_draft result option" where
  "rename name d = Some (Inr (d\<lparr>dr_name := name\<rparr>))"


lemma show_renamed: "pj_edit show_project 0 (rename ''cut'') = Some (Inr (), show_project\<lparr>pj_name := ''cut'', pj_revision := 1\<rparr>)"
proof -
  have "reconcile_timeline program = program" "reconcile_timeline cameras = cameras" by code_simp+
  then have same: "map (\<lambda>(k, t). (k, reconcile_timeline t)) (pj_timelines show_project) = pj_timelines show_project"
    by (simp add: show_project_def)
  have named: "require_text ''validate_project'' ''project name'' name = Inr ()" if "name \<in> {''show'', ''cut''}" for name
  proof -
    have "is_ok (require_text ''validate_project'' ''project name'' ''show'')" "is_ok (require_text ''validate_project'' ''project name'' ''cut'')"
      by code_simp+
    then show ?thesis using that by (auto simp: is_ok_iff)
  qed
  have "pj_validate (show_project\<lparr>pj_name := ''cut'', pj_revision := 1\<rparr>) = pj_validate show_project"
    using named by (simp add: pj_validate_def show_project_def)
  then show ?thesis
    using show_valid same
    by (simp add: pj_edit_def rename_def reconcile_timeline_state_def Let_def in_u64_def show_project_def)
qed

theorem stale_edit_refused_witness:
  "pj_edit (show_project\<lparr>pj_name := ''cut'', pj_revision := 1\<rparr>) 0 (rename ''again'')
     = Some (Inl (stale_revision 0 1), show_project\<lparr>pj_name := ''cut'', pj_revision := 1\<rparr>)"
  using stale_edit_refused[OF show_renamed, of "rename ''again''"] by (simp add: show_project_def)

theorem committed_projects_sound_witness:
  "pj_validate (show_project\<lparr>pj_name := ''cut'', pj_revision := 1\<rparr>) = Some (Inr ())
     \<and> pj_id (show_project\<lparr>pj_name := ''cut'', pj_revision := 1\<rparr>) = TypedId 5"
  using committed_projects_sound[OF show_built r_into_rtranclp[where r = pj_step, OF step_edit[OF show_renamed]]] by blast

end
