(* ===== verification/History.thy ===== *)
theory History
  imports Prelude
begin

text \<open>
  The snapshot history of \<open>superi-engine/src/history.rs\<close>: a bounded queue of committed steps to undo
  and one of reversed steps to redo, each step with the state before and after it. Its contract is
  a tape: the states before the current one, and those after it that redo would reach.
\<close>

section \<open>Snapshot history\<close>

record ('s, 'm) history_entry =
  he_before :: 's
  he_after :: 's
  he_metadata :: 'm

text \<open>Both queues are listed from front to back; their back is the next step to undo or redo.\<close>

record ('s, 'm) snapshot_history =
  sh_capacity :: nat
  sh_undo :: "('s, 'm) history_entry list"
  sh_redo :: "('s, 'm) history_entry list"

text \<open>The assertion on the capacity is one of debug builds only.\<close>

definition sh_new :: "nat \<Rightarrow> ('s, 'm) snapshot_history" where
  "sh_new capacity = \<lparr>sh_capacity = capacity, sh_undo = [], sh_redo = []\<rparr>"

definition queue_back :: "'a list \<Rightarrow> 'a option" where
  "queue_back q = (if q = [] then None else Some (last q))"

definition sh_undo_depth :: "('s, 'm) snapshot_history \<Rightarrow> nat" where
  "sh_undo_depth h = length (sh_undo h)"

definition sh_redo_depth :: "('s, 'm) snapshot_history \<Rightarrow> nat" where
  "sh_redo_depth h = length (sh_redo h)"

definition sh_next_undo :: "('s, 'm) snapshot_history \<Rightarrow> 'm option" where
  "sh_next_undo h = map_option he_metadata (queue_back (sh_undo h))"

definition sh_next_redo :: "('s, 'm) snapshot_history \<Rightarrow> 'm option" where
  "sh_next_redo h = map_option he_metadata (queue_back (sh_redo h))"

definition sh_undo_target :: "('s, 'm) snapshot_history \<Rightarrow> 's option" where
  "sh_undo_target h = map_option he_before (queue_back (sh_undo h))"

definition sh_redo_target :: "('s, 'm) snapshot_history \<Rightarrow> 's option" where
  "sh_redo_target h = map_option he_after (queue_back (sh_redo h))"

definition sh_record :: "('s, 'm) snapshot_history \<Rightarrow> 's \<Rightarrow> 's \<Rightarrow> 'm \<Rightarrow> ('s, 'm) snapshot_history" where
  "sh_record h before after metadata =
     (let kept = (if length (sh_undo h) = sh_capacity h then tl (sh_undo h) else sh_undo h) in
      h\<lparr>sh_undo := kept @ [\<lparr>he_before = before, he_after = after, he_metadata = metadata\<rparr>], sh_redo := []\<rparr>)"

definition sh_commit_undo :: "('s, 'm) snapshot_history \<Rightarrow> ('s, 'm) snapshot_history option" where
  "sh_commit_undo h =
     (case queue_back (sh_undo h) of
        None \<Rightarrow> None
      | Some entry \<Rightarrow> Some (h\<lparr>sh_undo := butlast (sh_undo h), sh_redo := sh_redo h @ [entry]\<rparr>))"

definition sh_commit_redo :: "('s, 'm) snapshot_history \<Rightarrow> ('s, 'm) snapshot_history option" where
  "sh_commit_redo h =
     (case queue_back (sh_redo h) of
        None \<Rightarrow> None
      | Some entry \<Rightarrow> Some (h\<lparr>sh_redo := butlast (sh_redo h), sh_undo := sh_undo h @ [entry]\<rparr>))"

section \<open>Tapes\<close>

text \<open>The states before the current one, oldest first, the current one, and those after it, next first.\<close>

type_synonym 's tape = "'s list \<times> 's \<times> 's list"

datatype 's tape_command = Perform 's | StepBack | StepForward

definition keep_last :: "nat \<Rightarrow> 'a list \<Rightarrow> 'a list" where
  "keep_last n xs = drop (length xs - n) xs"

fun tape_step :: "nat \<Rightarrow> 's tape_command \<Rightarrow> 's tape \<Rightarrow> 's tape" where
  "tape_step n (Perform y) (past, x, future) = (keep_last n (past @ [x]), y, [])"
| "tape_step n StepBack (past, x, future) =
     (if past = [] then (past, x, future) else (butlast past, last past, x # future))"
| "tape_step n StepForward (past, x, future) =
     (case future of [] \<Rightarrow> (past, x, future) | y # later \<Rightarrow> (past @ [x], y, later))"

definition tape_room :: "nat \<Rightarrow> 's tape \<Rightarrow> bool" where
  "tape_room n t = (case t of (past, x, future) \<Rightarrow> length past + length future \<le> n)"

lemma tape_step_room: "tape_room n t \<Longrightarrow> tape_room n (tape_step n c t)"
  by (cases t; cases c; cases "fst t") (auto simp: tape_room_def keep_last_def split: list.split)

lemma steps_back:
  "k \<le> length past \<Longrightarrow> (tape_step n StepBack ^^ k) (past, x, future) =
     (take (length past - k) past, (past @ [x]) ! (length past - k), drop (length past - k + 1) (past @ [x]) @ future)"
proof (induction k arbitrary: past x future)
  case (Suc k)
  then obtain ps p where past: "past = ps @ [p]" by (cases past rule: rev_cases) auto
  have k: "k \<le> length ps" using Suc.prems past by simp
  have "(tape_step n StepBack ^^ Suc k) (past, x, future) = (tape_step n StepBack ^^ k) (ps, p, x # future)"
    by (simp add: funpow_swap1 past)
  also have "\<dots> = (take (length ps - k) ps, (ps @ [p]) ! (length ps - k), drop (length ps - k + 1) (ps @ [p]) @ x # future)"
    by (rule Suc.IH[OF k])
  finally show ?case using k by (simp add: past nth_append Suc_diff_le)
qed simp

lemma steps_forward:
  "j \<le> length future \<Longrightarrow> (tape_step n StepForward ^^ j) (past, x, future) =
     (past @ take j (x # future), (x # future) ! j, drop j future)"
proof (induction j arbitrary: past x future)
  case (Suc j)
  then obtain f fs where future: "future = f # fs" by (cases future) auto
  have "(tape_step n StepForward ^^ Suc j) (past, x, future) = (tape_step n StepForward ^^ j) (past @ [x], f, fs)"
    by (simp add: funpow_swap1 future)
  then show ?case using Suc by (simp add: future)
qed simp

lemma keep_last_append: "keep_last n (keep_last n xs @ ys) = keep_last n (xs @ ys)"
proof (cases "length xs \<le> n")
  case False
  then have "length xs + length ys - (length xs - n + n) + (length xs - n) = length xs + length ys - n" by simp
  then show ?thesis using False by (simp add: keep_last_def)
qed (simp add: keep_last_def)

lemma keep_last_nth:
  assumes "k \<le> n" "k \<le> length ys" "i < k"
  shows "keep_last n (xs @ ys) ! (length (keep_last n (xs @ ys)) - k + i) = ys ! (length ys - k + i)"
proof -
  define zs where "zs = xs @ ys"
  have "length (keep_last n zs) - k + i = length zs - k + i - (length zs - n)"
    using assms by (simp add: zs_def keep_last_def)
  moreover have "length zs - n \<le> length zs - k + i" "length zs - k + i < length zs" using assms by (simp_all add: zs_def)
  ultimately have "keep_last n zs ! (length (keep_last n zs) - k + i) = zs ! (length zs - k + i)"
    by (simp add: keep_last_def)
  also have "length zs - k + i = length xs + (length ys - k + i)" using assms by (simp add: zs_def)
  also have "zs ! \<dots> = ys ! (length ys - k + i)" unfolding zs_def by (rule nth_append_length_plus)
  finally show ?thesis by (simp add: zs_def)
qed

text \<open>
  The tape of a client that performed \<open>xs\<close> and then \<open>x\<close>: within the bound, steps back and forward
  move along them.
\<close>

lemma walk_tape:
  assumes past: "past = keep_last n (older @ xs)" and k: "k \<le> n" "k \<le> length xs" and j: "j \<le> k"
  shows "k \<le> length past"
    and "\<exists>p f. (tape_step n StepBack ^^ k) (past, x, future) = (p, (xs @ [x]) ! (length xs - k), f) \<and> k \<le> length f
      \<and> fst (snd ((tape_step n StepForward ^^ j) (p, (xs @ [x]) ! (length xs - k), f))) = (xs @ [x]) ! (length xs - k + j)"
proof -
  show len: "k \<le> length past" using k by (simp add: past keep_last_def)
  let ?q = "past @ [x]"
  have at: "?q ! (length past - k + i) = (xs @ [x]) ! (length xs - k + i)" if "i \<le> k" for i
  proof (cases "i = k")
    case True
    then show ?thesis using len k(2) by simp
  next
    case False
    then have "past ! (length past - k + i) = xs ! (length xs - k + i)"
      using keep_last_nth[OF k, of i older] that by (simp add: past)
    moreover have "length past - k + i < length past" "length xs - k + i < length xs" using False that len k(2) by simp_all
    ultimately show ?thesis by (simp only: nth_append if_True)
  qed
  let ?f = "drop (length past - k + 1) ?q @ future" and ?y = "(xs @ [x]) ! (length xs - k)"
  have y: "?q ! (length past - k) = ?y" using at[of 0] by simp
  have f: "k \<le> length ?f" using len by (simp del: drop_append)
  have "?y # ?f = drop (length past - k) ?q @ future"
    using len Cons_nth_drop_Suc[of "length past - k" ?q] by (simp del: drop_append flip: y)
  moreover have "(drop (length past - k) ?q @ future) ! j = ?q ! (length past - k + j)"
  proof -
    have "j < length (drop (length past - k) ?q)" using j len by simp
    moreover have "length past - k \<le> length ?q" by simp
    ultimately show ?thesis by (simp only: nth_append[of "drop (length past - k) ?q" future] if_True nth_drop)
  qed
  ultimately have "(?y # ?f) ! j = ?q ! (length past - k + j)" by (simp only:)
  then have "(?y # ?f) ! j = (xs @ [x]) ! (length xs - k + j)" by (simp only: at[OF j])
  then show "\<exists>p f. (tape_step n StepBack ^^ k) (past, x, future) = (p, ?y, f) \<and> k \<le> length f
      \<and> fst (snd ((tape_step n StepForward ^^ j) (p, ?y, f))) = (xs @ [x]) ! (length xs - k + j)"
    using f j by (intro exI[of _ "take (length past - k) past"] exI[of _ ?f])
      (simp only: steps_back[OF len] y steps_forward[OF order_trans[OF j f]] fst_conv snd_conv)
qed

section \<open>The contract\<close>

text \<open>
  What a client that keeps a current state beside its history relies on. \<open>linked x h\<close> says that the
  history was recorded by a client whose current state is \<open>x\<close>.
\<close>

locale undo_store =
  fixes record_step :: "'h \<Rightarrow> 's \<Rightarrow> 's \<Rightarrow> 'm \<Rightarrow> 'h"
    and undo_target :: "'h \<Rightarrow> 's option" and redo_target :: "'h \<Rightarrow> 's option"
    and commit_undo :: "'h \<Rightarrow> 'h option" and commit_redo :: "'h \<Rightarrow> 'h option"
    and capacity :: "'h \<Rightarrow> nat" and past :: "'h \<Rightarrow> 's list" and future :: "'h \<Rightarrow> 's list"
    and linked :: "'s \<Rightarrow> 'h \<Rightarrow> bool"
  assumes room: "linked x h \<Longrightarrow> tape_room (capacity h) (past h, x, future h)"
    and record_law: "linked x h \<Longrightarrow> h' = record_step h x y m \<Longrightarrow>
      linked y h' \<and> capacity h' = capacity h \<and> past h' = keep_last (capacity h) (past h @ [x]) \<and> future h' = []"
    and undo_none: "linked x h \<Longrightarrow> undo_target h = None \<longleftrightarrow> past h = []"
    and undo_law: "linked x h \<Longrightarrow> undo_target h = Some s \<Longrightarrow> \<exists>h'. commit_undo h = Some h' \<and> linked s h'
      \<and> capacity h' = capacity h \<and> past h = past h' @ [s] \<and> future h' = x # future h"
    and redo_none: "linked x h \<Longrightarrow> redo_target h = None \<longleftrightarrow> future h = []"
    and redo_law: "linked x h \<Longrightarrow> redo_target h = Some s \<Longrightarrow> \<exists>h'. commit_redo h = Some h' \<and> linked s h'
      \<and> capacity h' = capacity h \<and> past h' = past h @ [x] \<and> future h = s # future h'"
begin

definition tape_of :: "'s \<Rightarrow> 'h \<Rightarrow> 's tape" where
  "tape_of x h = (past h, x, future h)"

lemma record_tape:
  assumes "linked x h"
  shows "tape_of y (record_step h x y m) = tape_step (capacity h) (Perform y) (tape_of x h)"
    "linked y (record_step h x y m)" "capacity (record_step h x y m) = capacity h"
  using record_law[OF assms refl] by (simp_all add: tape_of_def)

lemma undo_tape:
  assumes "linked x h" "undo_target h = Some s"
  obtains h' where "commit_undo h = Some h'" "linked s h'" "capacity h' = capacity h"
    "tape_of s h' = tape_step (capacity h) StepBack (tape_of x h)"
  using undo_law[OF assms] by (fastforce simp: tape_of_def)

lemma redo_tape:
  assumes "linked x h" "redo_target h = Some s"
  obtains h' where "commit_redo h = Some h'" "linked s h'" "capacity h' = capacity h"
    "tape_of s h' = tape_step (capacity h) StepForward (tape_of x h)"
  using redo_law[OF assms] by (fastforce simp: tape_of_def)

lemma nothing_to_do:
  assumes "linked x h"
  shows "undo_target h = None \<Longrightarrow> tape_step n StepBack (tape_of x h) = tape_of x h"
    "redo_target h = None \<Longrightarrow> tape_step n StepForward (tape_of x h) = tape_of x h"
  using undo_none[OF assms] redo_none[OF assms] by (simp_all add: tape_of_def)

end

section \<open>The history keeps the contract\<close>

text \<open>Each step ends where the next one starts, the last one to undo and the last one to redo at the current state.\<close>

fun chained :: "('s, 'm) history_entry list \<Rightarrow> 's \<Rightarrow> bool" where
  "chained [] x \<longleftrightarrow> True"
| "chained [e] x \<longleftrightarrow> he_after e = x"
| "chained (e # f # es) x \<longleftrightarrow> he_after e = he_before f \<and> chained (f # es) x"

definition sh_past :: "('s, 'm) snapshot_history \<Rightarrow> 's list" where
  "sh_past h = map he_before (sh_undo h)"

definition sh_future :: "('s, 'm) snapshot_history \<Rightarrow> 's list" where
  "sh_future h = map he_after (rev (sh_redo h))"

definition sh_end :: "'s \<Rightarrow> ('s, 'm) snapshot_history \<Rightarrow> 's" where
  "sh_end x h = (if sh_redo h = [] then x else he_after (hd (sh_redo h)))"

definition sh_linked :: "'s \<Rightarrow> ('s, 'm) snapshot_history \<Rightarrow> bool" where
  "sh_linked x h \<longleftrightarrow> 0 < sh_capacity h \<and> length (sh_undo h) + length (sh_redo h) \<le> sh_capacity h
     \<and> chained (sh_undo h) x \<and> (sh_redo h \<noteq> [] \<longrightarrow> he_before (last (sh_redo h)) = x)
     \<and> chained (rev (sh_redo h)) (sh_end x h)"

lemma chained_append: "chained (es @ [e]) x \<longleftrightarrow> chained es (he_before e) \<and> he_after e = x"
proof (induction es)
  case (Cons a es)
  then show ?case by (cases es) auto
qed simp

lemma chained_Cons: "chained (e # es) x \<longleftrightarrow> (if es = [] then he_after e = x else he_after e = he_before (hd es) \<and> chained es x)"
  by (cases es) auto

lemma chained_tl: "chained es x \<Longrightarrow> chained (tl es) x"
  by (cases es) (auto simp: chained_Cons split: if_splits)

lemma sh_new_linked: "0 < n \<Longrightarrow> sh_linked x (sh_new n)"
  by (simp add: sh_linked_def sh_new_def)

interpretation history: undo_store sh_record sh_undo_target sh_redo_target sh_commit_undo sh_commit_redo
    sh_capacity sh_past sh_future sh_linked
proof unfold_locales
  fix x :: 's and h :: "('s, 'm) snapshot_history"
  assume linked: "sh_linked x h"
  show "tape_room (sh_capacity h) (sh_past h, x, sh_future h)"
    using linked by (simp add: tape_room_def sh_linked_def sh_past_def sh_future_def)
  show "sh_undo_target h = None \<longleftrightarrow> sh_past h = []" "sh_redo_target h = None \<longleftrightarrow> sh_future h = []"
    by (simp_all add: sh_undo_target_def sh_redo_target_def queue_back_def sh_past_def sh_future_def)
next
  fix x y :: 's and h h' :: "('s, 'm) snapshot_history" and m
  assume linked: "sh_linked x h" and h': "h' = sh_record h x y m"
  have "length (sh_undo h) \<le> sh_capacity h" "0 < sh_capacity h" using linked by (simp_all add: sh_linked_def)
  then have "map he_before (if length (sh_undo h) = sh_capacity h then tl (sh_undo h) else sh_undo h) @ [x]
      = keep_last (sh_capacity h) (sh_past h @ [x])"
    by (cases "sh_undo h") (auto simp: keep_last_def sh_past_def)
  then show "sh_linked y h' \<and> sh_capacity h' = sh_capacity h \<and> sh_past h' = keep_last (sh_capacity h) (sh_past h @ [x])
      \<and> sh_future h' = []"
    using linked chained_tl[of "sh_undo h" x]
    by (auto simp: h' sh_linked_def sh_record_def Let_def sh_past_def sh_future_def sh_end_def chained_append)
next
  fix x s :: 's and h :: "('s, 'm) snapshot_history"
  assume h: "sh_linked x h" "sh_undo_target h = Some s"
  then obtain es e where e: "sh_undo h = es @ [e]" "he_before e = s"
    by (cases "sh_undo h" rule: rev_cases) (auto simp: sh_undo_target_def queue_back_def)
  have x: "he_after e = x" "chained es s" using h(1) e by (simp_all add: sh_linked_def chained_append)
  let ?h' = "h\<lparr>sh_undo := es, sh_redo := sh_redo h @ [e]\<rparr>"
  have "sh_end s ?h' = sh_end x h" using x by (simp add: sh_end_def hd_append)
  then have "sh_linked s ?h'"
    using h(1) e x by (auto simp: sh_linked_def chained_Cons hd_rev sh_end_def)
  then show "\<exists>h'. sh_commit_undo h = Some h' \<and> sh_linked s h' \<and> sh_capacity h' = sh_capacity h
      \<and> sh_past h = sh_past h' @ [s] \<and> sh_future h' = x # sh_future h"
    using e x by (simp add: sh_commit_undo_def queue_back_def sh_past_def sh_future_def)
next
  fix x s :: 's and h :: "('s, 'm) snapshot_history"
  assume h: "sh_linked x h" "sh_redo_target h = Some s"
  then obtain es e where e: "sh_redo h = es @ [e]" "he_after e = s"
    by (cases "sh_redo h" rule: rev_cases) (auto simp: sh_redo_target_def queue_back_def)
  have "chained (e # rev es) (sh_end x h)" "he_before e = x" using h(1) e by (simp_all add: sh_linked_def)
  then have x: "he_before e = x" "chained (rev es) (sh_end x h)" "es \<noteq> [] \<Longrightarrow> he_before (last es) = s"
    using e(2) by (simp_all add: chained_Cons hd_rev split: if_splits)
  then have "sh_linked s (h\<lparr>sh_redo := es, sh_undo := sh_undo h @ [e]\<rparr>)"
    using h(1) e by (cases "es = []") (simp_all add: sh_linked_def chained_append sh_end_def hd_append)
  then show "\<exists>h'. sh_commit_redo h = Some h' \<and> sh_linked s h' \<and> sh_capacity h' = sh_capacity h
      \<and> sh_past h' = sh_past h @ [x] \<and> sh_future h = s # sh_future h'"
    using e x by (simp add: sh_commit_redo_def queue_back_def sh_past_def sh_future_def)
qed

end
