(* ===== verification/Scenario.thy ===== *)
theory Scenario
  imports History CoreIds CoreTime
begin

text \<open>
  The scenario engine of \<open>superi-engine/src/command.rs\<close>: a project of one clip that is imported,
  placed, trimmed and given an effect, each step in its phase, with transactions of several steps
  and a bounded undo. The file system and the digest of the crate \<open>sha2\<close> are arguments.
\<close>

section \<open>Bounds\<close>

definition SCENARIO_HISTORY_CAPACITY :: nat where "SCENARIO_HISTORY_CAPACITY = 4"
definition MAX_SCENARIO_TRANSACTION_ACTIONS :: nat where "MAX_SCENARIO_TRANSACTION_ACTIONS = 64"
definition CANONICAL_FIXTURE_ID :: string where "CANONICAL_FIXTURE_ID = ''slice/video-cfr''"
definition CANONICAL_FIXTURE_VERSION :: int where "CANONICAL_FIXTURE_VERSION = 1"
definition CANONICAL_WIDTH :: int where "CANONICAL_WIDTH = 96"
definition CANONICAL_HEIGHT :: int where "CANONICAL_HEIGHT = 54"
definition CANONICAL_SOURCE_FRAMES :: int where "CANONICAL_SOURCE_FRAMES = 96"
definition MAX_SCENARIO_SOURCE_BYTES :: int where "MAX_SCENARIO_SOURCE_BYTES = 64 * 1024 * 1024"

section \<open>State\<close>

datatype slice_implementation = ReferenceImplementation

fun slice_implementation_code :: "slice_implementation \<Rightarrow> string" where
  "slice_implementation_code ReferenceImplementation = ''reference''"

datatype graph_effect = HorizontalMirror

fun graph_effect_code :: "graph_effect \<Rightarrow> string" where
  "graph_effect_code HorizontalMirror = ''horizontal_mirror''"

datatype scenario_phase = EmptyPhase | ImportedPhase | PlacedPhase | TrimmedPhase | EffectedPhase

fun scenario_phase_code :: "scenario_phase \<Rightarrow> string" where
  "scenario_phase_code EmptyPhase = ''empty''"
| "scenario_phase_code ImportedPhase = ''imported''"
| "scenario_phase_code PlacedPhase = ''placed''"
| "scenario_phase_code TrimmedPhase = ''trimmed''"
| "scenario_phase_code EffectedPhase = ''effected''"

text \<open>The fields of an import, in the order of the source.\<close>

record scenario_import =
  si_path :: string
  si_fixture_id :: string
  si_fixture_version :: int
  si_manifest_sha256 :: string
  si_payload_sha256 :: string
  si_frame_rate :: frame_rate
  si_frame_count :: int
  si_width :: int
  si_height :: int

datatype scenario_action =
    ImportClip scenario_import
  | PlaceClip int
  | TrimClip int int
  | ApplyGraphEffect graph_effect
  | ScenarioUndo
  | ScenarioRedo

fun scenario_action_code :: "scenario_action \<Rightarrow> string" where
  "scenario_action_code (ImportClip i) = ''import_clip''"
| "scenario_action_code (PlaceClip start) = ''place_clip''"
| "scenario_action_code (TrimClip source_start source_end) = ''trim_clip''"
| "scenario_action_code (ApplyGraphEffect effect) = ''apply_graph_effect''"
| "scenario_action_code ScenarioUndo = ''undo''"
| "scenario_action_code ScenarioRedo = ''redo''"

record imported_media_state =
  im_id :: media_id
  im_path :: string
  im_fixture_id :: string
  im_fixture_version :: int
  im_manifest_sha256 :: string
  im_payload_sha256 :: string
  im_frame_rate :: frame_rate
  im_frame_count :: int
  im_width :: int
  im_height :: int
  im_implementation :: slice_implementation

record timeline_state =
  ts_track_id :: track_id
  ts_clip_id :: clip_id
  ts_timeline_start_frame :: int
  ts_source_start_frame :: int
  ts_source_end_frame :: int
  ts_implementation :: slice_implementation

text \<open>The subtraction and the addition are unchecked in the source; the states below keep them in range.\<close>

definition ts_timeline_range :: "timeline_state \<Rightarrow> int \<times> int" where
  "ts_timeline_range t =
     (ts_timeline_start_frame t,
      wrap_i64 (ts_timeline_start_frame t + wrap_i64 ((ts_source_end_frame t - ts_source_start_frame t) mod 2 ^ 64)))"

datatype graph_node_kind = SourceNode | EffectNode | OutputNode

record graph_node_state =
  gn_id :: node_id
  gn_instance_id :: string
  gn_kind :: graph_node_kind
  gn_node_type :: string
  gn_schema_version :: int

fun gn_input_ports :: "graph_node_kind \<Rightarrow> string list" where
  "gn_input_ports SourceNode = []"
| "gn_input_ports EffectNode = [''image'']"
| "gn_input_ports OutputNode = [''image'']"

fun gn_output_ports :: "graph_node_kind \<Rightarrow> string list" where
  "gn_output_ports SourceNode = [''image'']"
| "gn_output_ports EffectNode = [''image'']"
| "gn_output_ports OutputNode = []"

record graph_edge_state =
  gx_from_node :: string
  gx_to_node :: string

text \<open>The matrix entries are integers stored as \<open>f64\<close>, so they are exact.\<close>

record graph_state =
  gs_nodes :: "graph_node_state list"
  gs_edges :: "graph_edge_state list"
  gs_effect :: graph_effect
  gs_matrix :: "int list"
  gs_implementation :: slice_implementation

datatype operation_arguments =
    ImportArguments string int string string
  | InsertArguments int
  | TrimArguments int int
  | EffectArguments graph_effect

record operation_record =
  or_operation_id :: string
  or_resulting_revision :: int
  or_arguments :: operation_arguments
  or_prior_phase :: scenario_phase
  or_result_phase :: scenario_phase

record scenario_content =
  sn_project_id :: project_id
  sn_phase :: scenario_phase
  sn_media :: "imported_media_state option"
  sn_timeline :: "timeline_state option"
  sn_graph :: "graph_state option"
  sn_operation_log :: "operation_record list"

definition sn_default :: scenario_content where
  "sn_default = \<lparr>sn_project_id = TypedId 1, sn_phase = EmptyPhase, sn_media = None, sn_timeline = None,
                sn_graph = None, sn_operation_log = []\<rparr>"

section \<open>Errors\<close>

definition scenario_error :: "error_category \<Rightarrow> string \<Rightarrow> string \<Rightarrow> error_value" where
  "scenario_error category operation message =
     err_with_context (err_new category UserCorrectable message) (ctx_new ''superi-engine.command'' operation)"

definition scenario_invalid :: "string \<Rightarrow> string \<Rightarrow> error_value" where
  "scenario_invalid operation message = scenario_error InvalidInput operation message"

definition scenario_conflict :: "string \<Rightarrow> string \<Rightarrow> error_value" where
  "scenario_conflict operation message = scenario_error Conflict operation message"

definition scenario_exhausted :: "string \<Rightarrow> string \<Rightarrow> error_value" where
  "scenario_exhausted operation message = scenario_error ResourceExhausted operation message"

definition scenario_corrupt :: "string \<Rightarrow> string \<Rightarrow> error_value" where
  "scenario_corrupt operation message = scenario_error CorruptData operation message"

definition path_context :: "string \<Rightarrow> string \<Rightarrow> error_context" where
  "path_context operation path = ctx_with_field (ctx_new ''superi-engine.command'' operation) ''path'' path"

definition scenario_next_revision :: "int \<Rightarrow> int result" where
  "scenario_next_revision current =
     ok_or (checked_u64 (current + 1))
       (err_with_context (err_new Internal Terminal ''scenario revision is exhausted'')
          (ctx_new ''superi-engine.command'' ''advance_revision''))"

section \<open>Reading the source\<close>

text \<open>
  An error of the operating system by its kind and its text. The world of a call answers the
  metadata of a path (whether it is a regular file, and its length), opens it, reads at most so
  many bytes of it, and takes the digest of bytes.
\<close>

record io_failure =
  io_not_found :: bool
  io_text :: string

record scenario_world =
  sw_metadata :: "string \<Rightarrow> io_failure + bool \<times> int"
  sw_open :: "string \<Rightarrow> io_failure + unit"
  sw_read :: "string \<Rightarrow> nat \<Rightarrow> io_failure + 8 word list"
  sw_sha256 :: "8 word list \<Rightarrow> 8 word list"

definition source_io_error :: "string \<Rightarrow> string \<Rightarrow> io_failure \<Rightarrow> error_value" where
  "source_io_error path operation source =
     (let (category, message) =
            (if io_not_found source then (NotFound, ''import source does not exist'')
             else (Unavailable, ''import source could not be read''))
      in err_with_context (err_with_source category UserCorrectable message (io_text source)) (path_context operation path))"

definition read_bounded_source :: "scenario_world \<Rightarrow> string \<Rightarrow> 8 word list result" where
  "read_bounded_source w path =
     bindR (map_errR (source_io_error path ''inspect_source'') (sw_metadata w path)) (\<lambda>(is_file, size).
     if \<not> is_file
     then Inl (err_with_context (scenario_invalid ''import_clip'' ''import source must be a regular file'')
                 (path_context ''inspect_source'' path))
     else if size > MAX_SCENARIO_SOURCE_BYTES
     then Inl (err_with_context (scenario_exhausted ''import_clip'' ''import source exceeds the canonical scenario byte bound'')
                 (path_context ''inspect_source'' path))
     else
     bindR (map_errR (source_io_error path ''open_source'') (sw_open w path)) (\<lambda>_.
     bindR (map_errR (source_io_error path ''read_source'') (sw_read w path (nat (MAX_SCENARIO_SOURCE_BYTES + 1)))) (\<lambda>bytes.
     if int (length bytes) > MAX_SCENARIO_SOURCE_BYTES
     then Inl (err_with_context (scenario_exhausted ''import_clip''
                 ''import source grew beyond the canonical scenario byte bound while reading'')
                 (path_context ''read_source'' path))
     else Inr bytes)))"

definition sha256_hex :: "scenario_world \<Rightarrow> 8 word list \<Rightarrow> string" where
  "sha256_hex w bytes = concat (map (\<lambda>b. map hex_char (hex_digits 2 (unat b))) (sw_sha256 w bytes))"

definition is_lower_sha256 :: "string \<Rightarrow> bool" where
  "is_lower_sha256 s \<longleftrightarrow> length s = 64 \<and>
     list_all (\<lambda>c. let n = of_char c :: nat in (48 \<le> n \<and> n \<le> 57) \<or> (97 \<le> n \<and> n \<le> 102)) s"

section \<open>Actions\<close>

definition require_phase :: "scenario_content \<Rightarrow> scenario_phase \<Rightarrow> string \<Rightarrow> unit result" where
  "require_phase current required operation =
     (if sn_phase current \<noteq> required
      then Inl (err_with_context (scenario_conflict operation ''scenario action is not valid in the current phase'')
             (ctx_with_field (ctx_with_field (ctx_new ''superi-engine.command'' ''inspect_phase'')
                ''current'' (scenario_phase_code (sn_phase current)))
                ''required'' (scenario_phase_code required)))
      else Inr ())"

definition require_canonical_import :: "scenario_import \<Rightarrow> unit result" where
  "require_canonical_import contract =
     (if si_fixture_id contract \<noteq> CANONICAL_FIXTURE_ID \<or> si_fixture_version contract \<noteq> CANONICAL_FIXTURE_VERSION
       \<or> si_frame_rate contract \<noteq> fps_24 \<or> si_frame_count contract \<noteq> CANONICAL_SOURCE_FRAMES
       \<or> si_width contract \<noteq> CANONICAL_WIDTH \<or> si_height contract \<noteq> CANONICAL_HEIGHT
      then Inl (scenario_invalid ''import_clip'' ''import arguments do not match the canonical fixture contract'')
      else if \<not> is_lower_sha256 (si_manifest_sha256 contract) \<or> \<not> is_lower_sha256 (si_payload_sha256 contract)
      then Inl (scenario_invalid ''import_clip''
             ''canonical manifest and payload identities must be lowercase SHA-256 digests'')
      else Inr ())"

definition canonical_graph :: "graph_effect \<Rightarrow> graph_state" where
  "canonical_graph effect =
     \<lparr>gs_nodes =
        [\<lparr>gn_id = TypedId 1, gn_instance_id = ''slice.node.source'', gn_kind = SourceNode,
          gn_node_type = ''superi.source.fixture'', gn_schema_version = 1\<rparr>,
         \<lparr>gn_id = TypedId 2, gn_instance_id = ''slice.node.effect'', gn_kind = EffectNode,
          gn_node_type = ''superi.effect.transform'', gn_schema_version = 1\<rparr>,
         \<lparr>gn_id = TypedId 3, gn_instance_id = ''slice.node.output'', gn_kind = OutputNode,
          gn_node_type = ''superi.output.image'', gn_schema_version = 1\<rparr>],
      gs_edges =
        [\<lparr>gx_from_node = ''slice.node.source'', gx_to_node = ''slice.node.effect''\<rparr>,
         \<lparr>gx_from_node = ''slice.node.effect'', gx_to_node = ''slice.node.output''\<rparr>],
      gs_effect = effect, gs_matrix = [-1, 0, 95, 0, 1, 0, 0, 0, 1],
      gs_implementation = ReferenceImplementation\<rparr>"

text \<open>What one action makes of the content, with the identity and the arguments of its log entry.\<close>

fun action_result :: "scenario_world \<Rightarrow> scenario_content \<Rightarrow> scenario_action
    \<Rightarrow> (string \<times> operation_arguments \<times> scenario_content) result option" where
  "action_result w current (ImportClip i) = Some (
     bindR (require_phase current EmptyPhase ''import_clip'') (\<lambda>_.
     bindR (require_canonical_import i) (\<lambda>_.
     bindR (read_bounded_source w (si_path i)) (\<lambda>bytes.
     if bytes = [] then Inl (scenario_corrupt ''import_clip'' ''canonical fixture payload must not be empty'')
     else if sha256_hex w bytes \<noteq> si_payload_sha256 i
     then Inl (scenario_corrupt ''import_clip''
            ''canonical fixture payload digest does not match the manifest identity'')
     else Inr (''slice.op.import'',
            ImportArguments (si_fixture_id i) (si_fixture_version i) (si_manifest_sha256 i) (si_payload_sha256 i),
            current\<lparr>sn_media := Some \<lparr>im_id = TypedId 1, im_path = si_path i, im_fixture_id = si_fixture_id i,
                im_fixture_version = si_fixture_version i, im_manifest_sha256 = si_manifest_sha256 i,
                im_payload_sha256 = si_payload_sha256 i, im_frame_rate = si_frame_rate i,
                im_frame_count = si_frame_count i, im_width = si_width i, im_height = si_height i,
                im_implementation = ReferenceImplementation\<rparr>,
              sn_phase := ImportedPhase\<rparr>)))))"
| "action_result w current (PlaceClip timeline_start_frame) = Some (
     bindR (require_phase current ImportedPhase ''place_clip'') (\<lambda>_.
     if timeline_start_frame \<noteq> 0
     then Inl (scenario_invalid ''place_clip'' ''canonical clip must start at timeline frame zero'')
     else Inr (''slice.op.insert'', InsertArguments timeline_start_frame,
            current\<lparr>sn_timeline := Some \<lparr>ts_track_id = TypedId 1, ts_clip_id = TypedId 1,
                ts_timeline_start_frame = timeline_start_frame, ts_source_start_frame = 0,
                ts_source_end_frame = CANONICAL_SOURCE_FRAMES, ts_implementation = ReferenceImplementation\<rparr>,
              sn_phase := PlacedPhase\<rparr>)))"
| "action_result w current (TrimClip source_start_frame source_end_frame) =
     bindP (Some (require_phase current PlacedPhase ''trim_clip'')) (\<lambda>_.
     if (source_start_frame, source_end_frame) \<noteq> (24, 72)
     then Some (Inl (scenario_invalid ''trim_clip''
            ''canonical source trim must be the half-open frame range 24 through 72''))
     else case sn_timeline current of
       None \<Rightarrow> None
     | Some t \<Rightarrow> Some (Inr (''slice.op.trim'', TrimArguments source_start_frame source_end_frame,
            current\<lparr>sn_timeline := Some (t\<lparr>ts_source_start_frame := source_start_frame,
                ts_source_end_frame := source_end_frame\<rparr>),
              sn_phase := TrimmedPhase\<rparr>)))"
| "action_result w current (ApplyGraphEffect effect) = Some (
     bindR (require_phase current TrimmedPhase ''apply_graph_effect'') (\<lambda>_.
     Inr (''slice.op.effect'', EffectArguments effect,
       current\<lparr>sn_graph := Some (canonical_graph effect), sn_phase := EffectedPhase\<rparr>)))"
| "action_result w current ScenarioUndo = None"
| "action_result w current ScenarioRedo = None"

definition scenario_apply ::
  "scenario_world \<Rightarrow> scenario_content \<Rightarrow> scenario_action \<Rightarrow> int \<Rightarrow> scenario_content result option" where
  "scenario_apply w current action revision =
     bindP (action_result w current action) (\<lambda>(operation_id, arguments, next).
       Some (Inr (next\<lparr>sn_operation_log := sn_operation_log next @
         [\<lparr>or_operation_id = operation_id, or_resulting_revision = revision, or_arguments = arguments,
           or_prior_phase = sn_phase current, or_result_phase = sn_phase next\<rparr>]\<rparr>)))"

section \<open>The engine\<close>

record scenario_engine =
  se_revision :: int
  se_content :: scenario_content
  se_history :: "(scenario_content, unit) snapshot_history"

record scenario_snapshot =
  ss_revision :: int
  ss_content :: scenario_content
  ss_undo_depth :: nat
  ss_redo_depth :: nat

definition se_new :: scenario_engine where
  "se_new = \<lparr>se_revision = 0, se_content = sn_default, se_history = sh_new SCENARIO_HISTORY_CAPACITY\<rparr>"

definition se_snapshot :: "scenario_engine \<Rightarrow> scenario_snapshot" where
  "se_snapshot e = \<lparr>ss_revision = se_revision e, ss_content = se_content e,
     ss_undo_depth = sh_undo_depth (se_history e), ss_redo_depth = sh_redo_depth (se_history e)\<rparr>"

fun apply_actions ::
  "scenario_world \<Rightarrow> scenario_action list \<Rightarrow> int \<Rightarrow> scenario_content \<Rightarrow> scenario_content result option" where
  "apply_actions w [] revision after = Some (Inr after)"
| "apply_actions w (action # actions) revision after =
     bindP (scenario_apply w after action revision) (apply_actions w actions revision)"

text \<open>A call answers with the snapshot of the engine it leaves; an error leaves the engine as it was.\<close>

type_synonym scenario_answer = "(scenario_snapshot result \<times> scenario_engine) option"

definition answer :: "scenario_engine \<Rightarrow> scenario_engine result option \<Rightarrow> scenario_answer" where
  "answer e outcome = map_option (\<lambda>r. case r of Inl err \<Rightarrow> (Inl err, e) | Inr e' \<Rightarrow> (Inr (se_snapshot e'), e')) outcome"

definition commit_transaction :: "scenario_world \<Rightarrow> scenario_engine \<Rightarrow> scenario_action list \<Rightarrow> scenario_answer" where
  "commit_transaction w e actions = answer e (
     bindP (Some (scenario_next_revision (se_revision e))) (\<lambda>next_revision.
     bindP (apply_actions w actions next_revision (se_content e)) (\<lambda>after.
     Some (Inr (e\<lparr>se_content := after, se_revision := next_revision,
       se_history := sh_record (se_history e) (se_content e) after ()\<rparr>)))))"

definition se_undo :: "scenario_engine \<Rightarrow> scenario_answer" where
  "se_undo e = answer e (
     bindP (Some (scenario_next_revision (se_revision e))) (\<lambda>next_revision.
     bindP (Some (ok_or (sh_undo_target (se_history e))
       (scenario_conflict ''undo'' ''no committed scenario action is available to undo''))) (\<lambda>before.
     map_option (\<lambda>h. Inr (e\<lparr>se_content := before, se_revision := next_revision, se_history := h\<rparr>))
       (sh_commit_undo (se_history e)))))"

definition se_redo :: "scenario_engine \<Rightarrow> scenario_answer" where
  "se_redo e = answer e (
     bindP (Some (scenario_next_revision (se_revision e))) (\<lambda>next_revision.
     bindP (Some (ok_or (sh_redo_target (se_history e))
       (scenario_conflict ''redo'' ''no reversed scenario action is available to redo''))) (\<lambda>after.
     map_option (\<lambda>h. Inr (e\<lparr>se_content := after, se_revision := next_revision, se_history := h\<rparr>))
       (sh_commit_redo (se_history e)))))"

definition se_execute :: "scenario_world \<Rightarrow> scenario_engine \<Rightarrow> scenario_action \<Rightarrow> scenario_answer" where
  "se_execute w e action =
     (case action of
        ScenarioUndo \<Rightarrow> se_undo e
      | ScenarioRedo \<Rightarrow> se_redo e
      | _ \<Rightarrow> commit_transaction w e [action])"

definition is_history_action :: "scenario_action \<Rightarrow> bool" where
  "is_history_action action \<longleftrightarrow> action = ScenarioUndo \<or> action = ScenarioRedo"

definition se_execute_transaction :: "scenario_world \<Rightarrow> scenario_engine \<Rightarrow> scenario_action list \<Rightarrow> scenario_answer" where
  "se_execute_transaction w e actions =
     (if actions = []
      then Some (Inl (scenario_invalid ''execute_transaction''
             ''scenario transaction must contain at least one action''), e)
      else if length actions > MAX_SCENARIO_TRANSACTION_ACTIONS
      then Some (Inl (scenario_exhausted ''execute_transaction'' ''scenario transaction exceeds the action bound''), e)
      else if length actions = 1 then se_execute w e (hd actions)
      else if list_ex is_history_action actions
      then Some (Inl (scenario_invalid ''execute_transaction''
             ''history actions must be dispatched in a one-action transaction''), e)
      else commit_transaction w e actions)"

end
