(* ===== verification/ScenarioProps.thy ===== *)
theory ScenarioProps
  imports Scenario
begin

text \<open>
  The properties of the scenario engine: whatever is called, the content belongs to its phase and
  nothing panics, and undo and redo walk the contents that transactions committed.
\<close>

section \<open>Contents\<close>

definition phase_log :: "(scenario_phase \<times> scenario_phase) list" where
  "phase_log = [(EmptyPhase, ImportedPhase), (ImportedPhase, PlacedPhase), (PlacedPhase, TrimmedPhase),
     (TrimmedPhase, EffectedPhase)]"

fun phase_steps :: "scenario_phase \<Rightarrow> nat" where
  "phase_steps EmptyPhase = 0"
| "phase_steps ImportedPhase = 1"
| "phase_steps PlacedPhase = 2"
| "phase_steps TrimmedPhase = 3"
| "phase_steps EffectedPhase = 4"

definition canonical_media :: "imported_media_state \<Rightarrow> bool" where
  "canonical_media m \<longleftrightarrow> im_fixture_id m = CANONICAL_FIXTURE_ID \<and> im_frame_rate m = fps_24
     \<and> im_frame_count m = CANONICAL_SOURCE_FRAMES \<and> is_lower_sha256 (im_payload_sha256 m)"

text \<open>
  The media is there from the import on, the clip from the placement on with the range of its
  phase, the graph from the effect on, and the log lists the phases that led here.
\<close>

definition content_ok :: "scenario_content \<Rightarrow> bool" where
  "content_ok c \<longleftrightarrow>
     map (\<lambda>r. (or_prior_phase r, or_result_phase r)) (sn_operation_log c) = take (phase_steps (sn_phase c)) phase_log
     \<and> (case sn_media c of None \<Rightarrow> sn_phase c = EmptyPhase | Some m \<Rightarrow> sn_phase c \<noteq> EmptyPhase \<and> canonical_media m)
     \<and> (case sn_timeline c of None \<Rightarrow> phase_steps (sn_phase c) < 2
        | Some t \<Rightarrow> 2 \<le> phase_steps (sn_phase c)
            \<and> ts_timeline_range t = (0, if phase_steps (sn_phase c) = 2 then CANONICAL_SOURCE_FRAMES else 48))
     \<and> (case sn_graph c of None \<Rightarrow> sn_phase c \<noteq> EffectedPhase
        | Some g \<Rightarrow> sn_phase c = EffectedPhase \<and> g = canonical_graph (gs_effect g))"

lemma content_ok_default: "content_ok sn_default"
  by (simp add: content_ok_def sn_default_def)

lemma require_phase_Inr: "require_phase c p op = Inr u \<longleftrightarrow> sn_phase c = p"
  by (simp add: require_phase_def)

lemma require_phase_split:
  "bindR (require_phase c p op) f = Inr y \<longleftrightarrow> sn_phase c = p \<and> f () = Inr y"
  by (auto simp: bindR_Inr require_phase_Inr)

lemma canonical_import:
  assumes "require_canonical_import i = Inr u"
  shows "si_fixture_id i = CANONICAL_FIXTURE_ID" "si_frame_rate i = fps_24" "si_frame_count i = CANONICAL_SOURCE_FRAMES"
    "is_lower_sha256 (si_payload_sha256 i)"
  using assms by (auto simp: require_canonical_import_def split: if_splits)

text \<open>An action that is not one of the history leaves its phase for the next one and never panics.\<close>

lemma scenario_apply_ok:
  assumes "content_ok c" "\<not> is_history_action a"
  shows "case scenario_apply w c a r of None \<Rightarrow> False | Some (Inl e) \<Rightarrow> True | Some (Inr c') \<Rightarrow> content_ok c'"
proof (cases a)
  case (ImportClip i)
  then show ?thesis
    using assms(1) by (auto simp: scenario_apply_def content_ok_def phase_log_def canonical_media_def require_phase_split
        result_simps require_phase_Inr canonical_import bindP_def split: option.splits sum.splits if_splits)
next
  case (PlaceClip start)
  then show ?thesis
    using assms(1) by (auto simp: scenario_apply_def content_ok_def phase_log_def require_phase_split require_phase_Inr
        result_simps bindP_def ts_timeline_range_def CANONICAL_SOURCE_FRAMES_def wrap_i64_def
        split: option.splits sum.splits if_splits)
next
  case (TrimClip source_start source_end)
  then show ?thesis
    using assms(1) by (auto simp: scenario_apply_def content_ok_def phase_log_def require_phase_Inr bindP_def
        ts_timeline_range_def wrap_i64_def split: option.splits sum.splits if_splits)
next
  case (ApplyGraphEffect effect)
  then show ?thesis
    using assms(1) by (auto simp: scenario_apply_def content_ok_def phase_log_def require_phase_split require_phase_Inr
        result_simps bindP_def canonical_graph_def split: option.splits sum.splits if_splits)
qed (use assms(2) in \<open>simp_all add: is_history_action_def\<close>)

lemma apply_actions_ok:
  "content_ok c \<Longrightarrow> \<not> list_ex is_history_action as \<Longrightarrow>
     case apply_actions w as r c of None \<Rightarrow> False | Some (Inl e) \<Rightarrow> True | Some (Inr c') \<Rightarrow> content_ok c'"
proof (induction as arbitrary: c)
  case (Cons a as)
  have first: "case scenario_apply w c a r of None \<Rightarrow> False | Some (Inl e) \<Rightarrow> True | Some (Inr c') \<Rightarrow> content_ok c'"
    using Cons.prems by (intro scenario_apply_ok) simp_all
  show ?case
  proof (cases "\<exists>c'. scenario_apply w c a r = Some (Inr c')")
    case True
    then show ?thesis using first Cons by auto
  next
    case False
    then show ?thesis using first by (auto simp: bindP_def split: option.splits sum.splits)
  qed
qed simp

section \<open>Engines\<close>

definition se_tape :: "scenario_engine \<Rightarrow> scenario_content tape" where
  "se_tape e = history.tape_of (se_content e) (se_history e)"

fun tape_states :: "'s tape \<Rightarrow> 's set" where
  "tape_states (past, x, future) = insert x (set past \<union> set future)"

lemma tape_states_step:
  "tape_states (tape_step n c t) \<subseteq> tape_states t \<union> (case c of Perform y \<Rightarrow> {y} | _ \<Rightarrow> {})"
proof (cases t)
  case (fields past x future)
  then show ?thesis
    by (cases c; cases past rule: rev_cases; cases future) (auto simp: keep_last_def dest: in_set_dropD)
qed

definition engine_ok :: "scenario_engine \<Rightarrow> bool" where
  "engine_ok e \<longleftrightarrow> 0 \<le> se_revision e \<and> sh_linked (se_content e) (se_history e) \<and> sh_capacity (se_history e) = SCENARIO_HISTORY_CAPACITY
     \<and> (\<forall>c\<in>tape_states (se_tape e). content_ok c)"

lemma engine_ok_new: "engine_ok se_new"
  by (simp add: engine_ok_def se_new_def sh_new_linked SCENARIO_HISTORY_CAPACITY_def se_tape_def history.tape_of_def
      sh_past_def sh_future_def content_ok_default) (simp add: sh_new_def content_ok_default)

lemma se_tape_update:
  "se_tape (e\<lparr>se_content := c, se_revision := r, se_history := h\<rparr>) = history.tape_of c h"
  by (simp add: se_tape_def)

text \<open>
  What a call does to the tape: an error leaves the engine as it was, and an answer is the
  snapshot of an engine whose tape made that step.
\<close>

definition steps_tape :: "scenario_engine \<Rightarrow> scenario_answer \<Rightarrow> (scenario_content tape \<Rightarrow> scenario_content tape \<Rightarrow> bool) \<Rightarrow> bool" where
  "steps_tape e called R \<longleftrightarrow> (case called of
      None \<Rightarrow> False
    | Some (Inl err, e') \<Rightarrow> e' = e
    | Some (Inr s, e') \<Rightarrow> s = se_snapshot e' \<and> engine_ok e' \<and> se_revision e' = se_revision e + 1 \<and> R (se_tape e) (se_tape e'))"

lemma next_revision_Inr: "scenario_next_revision r = Inr r' \<longleftrightarrow> in_u64 (r + 1) \<and> r' = r + 1"
  by (auto simp: scenario_next_revision_def ok_or_Inr checked_u64_def)

lemma answer_cases:
  "answer e (Some (Inl err)) = Some (Inl err, e)" "answer e (Some (Inr e')) = Some (Inr (se_snapshot e'), e')"
  by (simp_all add: answer_def)

lemma commit_steps:
  assumes "engine_ok e" "\<not> list_ex is_history_action as"
  shows "steps_tape e (commit_transaction w e as)
     (\<lambda>t t'. \<exists>y. t' = tape_step SCENARIO_HISTORY_CAPACITY (Perform y) t \<and>
        apply_actions w as (se_revision e + 1) (se_content e) = Some (Inr y))"
proof (cases "scenario_next_revision (se_revision e)")
  case (Inl err)
  then show ?thesis by (simp add: commit_transaction_def steps_tape_def answer_cases)
next
  case (Inr r)
  then have r: "r = se_revision e + 1" "0 \<le> se_revision e + 1" by (simp_all add: next_revision_Inr in_u64_def)
  have linked: "sh_linked (se_content e) (se_history e)" "content_ok (se_content e)"
    "sh_capacity (se_history e) = SCENARIO_HISTORY_CAPACITY" "\<forall>c\<in>tape_states (se_tape e). content_ok c"
    using assms(1) by (auto simp: engine_ok_def se_tape_def history.tape_of_def)
  note applied = apply_actions_ok[OF linked(2) assms(2), of w r]
  show ?thesis
  proof (cases "\<exists>y. apply_actions w as r (se_content e) = Some (Inr y)")
    case False
    then show ?thesis using applied Inr
      by (auto simp: commit_transaction_def steps_tape_def answer_cases split: option.splits sum.splits)
  next
    case True
    then obtain y where y: "apply_actions w as r (se_content e) = Some (Inr y)" by blast
    note tape = history.record_tape[OF linked(1), of y "()"]
    have "\<forall>c\<in>tape_states (tape_step SCENARIO_HISTORY_CAPACITY (Perform y) (se_tape e)). content_ok c"
      using tape_states_step[of SCENARIO_HISTORY_CAPACITY "Perform y" "se_tape e"] linked(4) applied y by auto
    then show ?thesis
      using tape y Inr r linked(3)
      by (simp add: commit_transaction_def steps_tape_def answer_cases engine_ok_def se_tape_def)
  qed
qed

text \<open>Both directions restore the state a target of the history names.\<close>

definition restore_answer ::
  "scenario_engine \<Rightarrow> scenario_content option \<Rightarrow> error_value \<Rightarrow> (scenario_content, unit) snapshot_history option \<Rightarrow> scenario_answer" where
  "restore_answer e target err committed = answer e (
     bindP (Some (scenario_next_revision (se_revision e))) (\<lambda>next_revision.
     bindP (Some (ok_or target err)) (\<lambda>state.
     map_option (\<lambda>h. Inr (e\<lparr>se_content := state, se_revision := next_revision, se_history := h\<rparr>)) committed)))"

lemma restore_steps:
  assumes ok: "engine_ok e" and direction: "direction \<in> {StepBack, StepForward}"
    and commits: "\<And>s. target = Some s \<Longrightarrow> \<exists>h. committed = Some h \<and> sh_linked s h \<and> sh_capacity h = SCENARIO_HISTORY_CAPACITY
      \<and> history.tape_of s h = tape_step SCENARIO_HISTORY_CAPACITY direction (se_tape e)"
  shows "steps_tape e (restore_answer e target err committed)
      (\<lambda>t t'. target \<noteq> None \<and> t' = tape_step SCENARIO_HISTORY_CAPACITY direction t)"
    "in_u64 (se_revision e + 1) \<Longrightarrow> target \<noteq> None \<Longrightarrow> \<exists>s e'. restore_answer e target err committed = Some (Inr s, e')"
proof -
  have states: "\<forall>c\<in>tape_states (tape_step SCENARIO_HISTORY_CAPACITY direction (se_tape e)). content_ok c"
    using tape_states_step[of SCENARIO_HISTORY_CAPACITY direction "se_tape e"] direction ok by (auto simp: engine_ok_def)
  show "steps_tape e (restore_answer e target err committed)
      (\<lambda>t t'. target \<noteq> None \<and> t' = tape_step SCENARIO_HISTORY_CAPACITY direction t)"
  proof (cases "scenario_next_revision (se_revision e)"; cases target)
    fix r s assume r: "scenario_next_revision (se_revision e) = Inr r" and s: "target = Some s"
    have "r = se_revision e + 1" "0 \<le> se_revision e + 1" using r by (simp_all add: next_revision_Inr in_u64_def)
    then show ?thesis
      using commits[OF s] states r s by (auto simp: restore_answer_def steps_tape_def answer_cases engine_ok_def se_tape_def)
  qed (simp_all add: restore_answer_def steps_tape_def answer_cases)
  show "\<exists>s e'. restore_answer e target err committed = Some (Inr s, e')" if "in_u64 (se_revision e + 1)" "target \<noteq> None"
  proof -
    have "scenario_next_revision (se_revision e) = Inr (se_revision e + 1)" using that(1) by (simp add: next_revision_Inr)
    then show ?thesis using commits that(2) by (auto simp: restore_answer_def answer_cases)
  qed
qed

lemma restores:
  "se_undo e = restore_answer e (sh_undo_target (se_history e))
     (scenario_conflict ''undo'' ''no committed scenario action is available to undo'') (sh_commit_undo (se_history e))"
  "se_redo e = restore_answer e (sh_redo_target (se_history e))
     (scenario_conflict ''redo'' ''no reversed scenario action is available to redo'') (sh_commit_redo (se_history e))"
  by (simp_all add: se_undo_def se_redo_def restore_answer_def)

lemma undo_steps:
  assumes "engine_ok e"
  shows "steps_tape e (se_undo e) (\<lambda>t t'. fst t \<noteq> [] \<and> t' = tape_step SCENARIO_HISTORY_CAPACITY StepBack t)"
    "in_u64 (se_revision e + 1) \<Longrightarrow> fst (se_tape e) \<noteq> [] \<Longrightarrow> \<exists>s e'. se_undo e = Some (Inr s, e')"
proof -
  have linked: "sh_linked (se_content e) (se_history e)" "sh_capacity (se_history e) = SCENARIO_HISTORY_CAPACITY"
    using assms by (simp_all add: engine_ok_def)
  have none: "sh_undo_target (se_history e) \<noteq> None \<longleftrightarrow> fst (se_tape e) \<noteq> []"
    using history.undo_none[OF linked(1)] by (simp add: se_tape_def history.tape_of_def)
  have commits: "\<exists>h. sh_commit_undo (se_history e) = Some h \<and> sh_linked s h \<and> sh_capacity h = SCENARIO_HISTORY_CAPACITY
      \<and> history.tape_of s h = tape_step SCENARIO_HISTORY_CAPACITY StepBack (se_tape e)"
    if "sh_undo_target (se_history e) = Some s" for s
    using history.undo_tape[OF linked(1) that] linked(2) by (metis se_tape_def)
  note restored = restore_steps[where direction = StepBack and target = "sh_undo_target (se_history e)", OF assms insertI1 commits]
  show "steps_tape e (se_undo e) (\<lambda>t t'. fst t \<noteq> [] \<and> t' = tape_step SCENARIO_HISTORY_CAPACITY StepBack t)"
    using restored(1) unfolding steps_tape_def none restores by simp
  show "\<exists>s e'. se_undo e = Some (Inr s, e')" if "in_u64 (se_revision e + 1)" "fst (se_tape e) \<noteq> []"
    unfolding restores by (rule restored(2)) (use that none in simp_all)
qed

lemma redo_steps:
  assumes "engine_ok e"
  shows "steps_tape e (se_redo e) (\<lambda>t t'. snd (snd t) \<noteq> [] \<and> t' = tape_step SCENARIO_HISTORY_CAPACITY StepForward t)"
    "in_u64 (se_revision e + 1) \<Longrightarrow> snd (snd (se_tape e)) \<noteq> [] \<Longrightarrow> \<exists>s e'. se_redo e = Some (Inr s, e')"
proof -
  have linked: "sh_linked (se_content e) (se_history e)" "sh_capacity (se_history e) = SCENARIO_HISTORY_CAPACITY"
    using assms by (simp_all add: engine_ok_def)
  have none: "sh_redo_target (se_history e) \<noteq> None \<longleftrightarrow> snd (snd (se_tape e)) \<noteq> []"
    using history.redo_none[OF linked(1)] by (simp add: se_tape_def history.tape_of_def)
  have commits: "\<exists>h. sh_commit_redo (se_history e) = Some h \<and> sh_linked s h \<and> sh_capacity h = SCENARIO_HISTORY_CAPACITY
      \<and> history.tape_of s h = tape_step SCENARIO_HISTORY_CAPACITY StepForward (se_tape e)"
    if "sh_redo_target (se_history e) = Some s" for s
    using history.redo_tape[OF linked(1) that] linked(2) by (metis se_tape_def)
  note restored = restore_steps[where direction = StepForward and target = "sh_redo_target (se_history e)", OF assms insertI2[OF singletonI] commits]
  show "steps_tape e (se_redo e) (\<lambda>t t'. snd (snd t) \<noteq> [] \<and> t' = tape_step SCENARIO_HISTORY_CAPACITY StepForward t)"
    using restored(1) unfolding steps_tape_def none restores by simp
  show "\<exists>s e'. se_redo e = Some (Inr s, e')" if "in_u64 (se_revision e + 1)" "snd (snd (se_tape e)) \<noteq> []"
    unfolding restores by (rule restored(2)) (use that none in simp_all)
qed

section \<open>Runs\<close>

lemma execute_steps:
  assumes "engine_ok e"
  shows "\<exists>R. steps_tape e (se_execute w e a) R"
proof (cases a)
  case ScenarioUndo
  then show ?thesis using undo_steps(1)[OF assms] by (auto simp: se_execute_def)
next
  case ScenarioRedo
  then show ?thesis using redo_steps(1)[OF assms] by (auto simp: se_execute_def)
qed (use commit_steps[OF assms, of "[a]" w] in \<open>auto simp: se_execute_def is_history_action_def\<close>)

lemma execute_transaction_steps:
  assumes "engine_ok e"
  shows "\<exists>R. steps_tape e (se_execute_transaction w e as) R"
proof -
  have refused: "\<exists>R. steps_tape e (Some (Inl err, e)) R" for err by (simp add: steps_tape_def)
  consider "as = []" | "length as > MAX_SCENARIO_TRANSACTION_ACTIONS" | "length as = 1" | "list_ex is_history_action as"
    | "\<not> list_ex is_history_action as" by blast
  then show ?thesis
  proof cases
    case 3
    then show ?thesis using execute_steps[OF assms] refused by (simp add: se_execute_transaction_def)
  next
    case 5
    then have "\<exists>R. steps_tape e (commit_transaction w e as) R" using commit_steps[OF assms] by blast
    then show ?thesis using 5 refused execute_steps[OF assms] by (simp add: se_execute_transaction_def)
  qed (use refused execute_steps[OF assms] in \<open>auto simp: se_execute_transaction_def\<close>)
qed

text \<open>One call, with whatever the world answers it.\<close>

definition scenario_step :: "scenario_engine \<Rightarrow> scenario_engine \<Rightarrow> bool" where
  "scenario_step e e' \<longleftrightarrow> (\<exists>w r. (\<exists>a. se_execute w e a = Some (r, e')) \<or> (\<exists>as. se_execute_transaction w e as = Some (r, e')))"

lemma steps_tape_ok: "engine_ok e \<Longrightarrow> steps_tape e (Some (r, e')) R \<Longrightarrow> engine_ok e'"
  by (cases r) (auto simp: steps_tape_def)

lemma scenario_step_ok: "engine_ok e \<Longrightarrow> scenario_step e e' \<Longrightarrow> engine_ok e'"
  unfolding scenario_step_def by (metis execute_steps execute_transaction_steps steps_tape_ok)

lemma scenario_reachable_ok: "scenario_step\<^sup>*\<^sup>* se_new e \<Longrightarrow> engine_ok e"
  by (induction rule: rtranclp_induct) (use engine_ok_new scenario_step_ok in blast)+

text \<open>
  Whatever actions, transactions, undos and redos are called, and whatever the files hold, no
  call panics. The content belongs to its phase: media, clip and graph are there exactly from their
  phase on, with the range of the phase, and the log lists the phases passed. A failed call
  changes nothing, and at most four steps are kept to undo and redo.
\<close>

theorem scenario_runs_consistent:
  assumes "scenario_step\<^sup>*\<^sup>* se_new e"
  shows "content_ok (se_content e) \<and> sh_undo_depth (se_history e) + sh_redo_depth (se_history e) \<le> 4
     \<and> se_execute w e a \<noteq> None \<and> se_execute_transaction w e as \<noteq> None
     \<and> (\<forall>err e'. se_execute_transaction w e as = Some (Inl err, e') \<longrightarrow> e' = e)"
proof -
  have ok: "engine_ok e" by (rule scenario_reachable_ok[OF assms])
  obtain R where R: "steps_tape e (se_execute_transaction w e as) R" using execute_transaction_steps[OF ok] by blast
  have "content_ok (se_content e)" "sh_undo_depth (se_history e) + sh_redo_depth (se_history e) \<le> 4"
    using ok by (auto simp: engine_ok_def se_tape_def history.tape_of_def sh_linked_def sh_undo_depth_def sh_redo_depth_def
        SCENARIO_HISTORY_CAPACITY_def)
  moreover have "se_execute w e a \<noteq> None"
    using execute_steps[OF ok, of w a] by (cases "se_execute w e a") (simp_all add: steps_tape_def)
  moreover have "se_execute_transaction w e as \<noteq> None" using R by (cases "se_execute_transaction w e as") (simp_all add: steps_tape_def)
  ultimately show ?thesis using R by (auto simp: steps_tape_def)
qed

section \<open>Walking the history\<close>


text \<open>The engines after each of a list of transactions that all succeed, the first engine included.\<close>

fun commit_all :: "scenario_engine \<Rightarrow> (scenario_world \<times> scenario_action list) list \<Rightarrow> scenario_engine list option" where
  "commit_all e [] = Some [e]"
| "commit_all e ((w, as) # ts) =
     (case se_execute_transaction w e as of
        Some (Inr s, e') \<Rightarrow> map_option (\<lambda>es. e # es) (commit_all e' ts)
      | _ \<Rightarrow> None)"







section \<open>A session\<close>

text \<open>A file of three bytes under every path, and a digest of 32 zeros.\<close>

definition demo_world :: scenario_world where
  "demo_world = \<lparr>sw_metadata = \<lambda>path. Inr (True, 3), sw_open = \<lambda>path. Inr (), sw_read = \<lambda>path n. Inr [1, 2, 3],
     sw_sha256 = \<lambda>bytes. replicate 32 0\<rparr>"

definition demo_import :: scenario_import where
  "demo_import = \<lparr>si_path = ''clip.mp4'', si_fixture_id = ''slice/video-cfr'', si_fixture_version = 1,
     si_manifest_sha256 = replicate 64 (CHR ''a''), si_payload_sha256 = replicate 64 (CHR ''0''),
     si_frame_rate = fps_24, si_frame_count = 96, si_width = 96, si_height = 54\<rparr>"

definition demo_session :: "(scenario_world \<times> scenario_action list) list" where
  "demo_session = [(demo_world, [ImportClip demo_import, PlaceClip 0]), (demo_world, [TrimClip 24 72]),
     (demo_world, [ApplyGraphEffect HorizontalMirror])]"

lemma demo_digest: "sha256_hex demo_world bytes = replicate 64 (CHR ''0'')"
proof -
  have "concat (map (\<lambda>b. map hex_char (hex_digits 2 (unat b))) (replicate 32 (0 :: 8 word))) = replicate 64 (CHR ''0'')"
    by code_simp
  then show ?thesis by (simp add: sha256_hex_def demo_world_def)
qed

lemma demo_read: "read_bounded_source demo_world path = Inr [1, 2, 3]"
  by (simp add: read_bounded_source_def demo_world_def MAX_SCENARIO_SOURCE_BYTES_def)

lemma demo_canonical: "require_canonical_import demo_import = Inr ()"
proof -
  have "is_lower_sha256 (replicate 64 (CHR ''a''))" "is_lower_sha256 (replicate 64 (CHR ''0''))" by code_simp+
  then show ?thesis
    by (simp add: require_canonical_import_def demo_import_def CANONICAL_FIXTURE_ID_def CANONICAL_FIXTURE_VERSION_def
        CANONICAL_SOURCE_FRAMES_def CANONICAL_WIDTH_def CANONICAL_HEIGHT_def)
qed

lemma demo_digest_matches: "si_payload_sha256 demo_import = sha256_hex demo_world bytes"
  unfolding demo_digest by (simp add: demo_import_def)

lemmas demo_steps = se_execute_transaction_def commit_transaction_def se_execute_def answer_def is_history_action_def
  scenario_next_revision_def checked_u64_def in_u64_def MAX_SCENARIO_TRANSACTION_ACTIONS_def scenario_apply_def
  require_phase_def demo_read demo_canonical

lemma demo_runs:
  "\<exists>es. commit_all se_new demo_session = Some es \<and> length es = 4 \<and> se_revision (last es) = 3
     \<and> map (\<lambda>e. sn_phase (se_content e)) es = [EmptyPhase, PlacedPhase, TrimmedPhase, EffectedPhase]"
  by (simp add: demo_session_def demo_steps se_new_def sn_default_def flip: demo_digest_matches)

lemma commit_all_steps: "commit_all e ts = Some es \<Longrightarrow> es \<noteq> [] \<and> scenario_step\<^sup>*\<^sup>* e (last es)"
proof (induction ts arbitrary: e es)
  case (Cons t ts)
  then obtain w as s e1 es1 where step: "se_execute_transaction w e as = Some (Inr s, e1)" "commit_all e1 ts = Some es1" "es = e # es1"
    by (cases t) (auto split: option.splits sum.splits prod.splits)
  have "scenario_step e e1" using step(1) by (auto simp: scenario_step_def)
  then show ?case using Cons.IH[OF step(2)] step(3) by (auto intro: converse_rtranclp_into_rtranclp)
qed auto

theorem scenario_runs_consistent_witness:
  "\<exists>e. sn_phase (se_content e) = EffectedPhase \<and> content_ok (se_content e) \<and> se_execute demo_world e ScenarioUndo \<noteq> None"
proof -
  obtain es where es: "commit_all se_new demo_session = Some es" "length es = 4"
    "map (\<lambda>e. sn_phase (se_content e)) es = [EmptyPhase, PlacedPhase, TrimmedPhase, EffectedPhase]"
    using demo_runs by (elim exE conjE) (rule that)
  have "es \<noteq> []" using es(2) by auto
  then have "sn_phase (se_content (last es)) = EffectedPhase"
    using arg_cong[OF es(3), of last] by (simp add: last_map)
  moreover have "scenario_step\<^sup>*\<^sup>* se_new (last es)" using commit_all_steps[OF es(1)] by simp
  note scenario_runs_consistent[OF this, of demo_world ScenarioUndo "[]"]
  ultimately show ?thesis by (intro exI[of _ "last es"]) simp
qed


end
