(* ===== verification/Spec2Isabelle.thy ===== *)
theory Spec2Isabelle
  imports CoreTimecode TrackValid InvalidationProps EditStateProps SchedulerProps CacheBudgetProps LruCacheProps LifecycleProps
    MarkerProps MediaProps MulticamProps TimelineProps ProjectProps ScenarioProps
begin

text \<open>
  A model of the core of Superi, a video editor written in Rust, with the theorems that make it
  correct. The sources are under \<open>src/open/crates/\<close>; every path below is relative to that directory.

  \<^bold>\<open>The program.\<close> An editing project is a set of timelines that share linked media. A timeline has
  tracks, a track a list of items (clips, gaps, captions, generators, transitions) that tile its
  record clock, and a clip maps its record clock to the clock of its source through a retiming map.
  Edits rewrite one track; beside the tracks the timeline keeps the state of the editor (locks,
  selection, links, groups), markers and multicam switch programs, which are reconciled after each
  edit. A project commits an edit only if the whole project still validates. What is shown is
  computed by a graph of nodes: an edit dirties regions of some nodes, and the invalidation carries
  them along the edges in topological order. The work is queued in classes of priority, its results
  are kept in caches under a memory budget, and the subsystems start, pause and stop together under
  a lifecycle coordinator. Everything rests on exact time: integer coordinates on rational clocks.

  \<^bold>\<open>The theories and the code they model.\<close>

  \<^item> \<open>Prelude\<close>, \<open>Ordered\<close>: results (\<open>error_value + 'a\<close>), the \<open>?\<close> operator (\<open>bindR\<close>, and \<open>bindP\<close> where
    the code can panic), the fallible loops (\<open>foldR\<close>, \<open>mapMR\<close>), checked and wrapping integers, digit
    strings; \<open>BTreeMap\<close> and \<open>BTreeSet\<close> as sorted lists without duplicates.
  \<^item> \<open>CoreError\<close>, \<open>CoreIds\<close>, \<open>CoreTime\<close>, \<open>CoreTimecode\<close>: \<open>superi-core/src/error.rs\<close>, \<open>ids.rs\<close>, \<open>time.rs\<close>,
    \<open>timecode.rs\<close>. \<open>CoreTimeLaws\<close> gives each coordinate its rational number of seconds (\<open>secs\<close>) and
    proves the operations against it; \<open>CoreTimeProps\<close> holds the properties.
  \<^item> \<open>Retime\<close>: \<open>superi-timeline/src/retime.rs\<close>, rates, segments and time maps. \<open>RetimeLaws\<close>, \<open>RetimeProps\<close>.
  \<^item> \<open>TrackSemantics\<close>, \<open>Model\<close>, \<open>Timeline\<close>, \<open>Project\<close>: \<open>superi-timeline/src/model.rs\<close>, from the semantics
    of a track to items, tracks, timelines and the project with its validation, edits and drafts.
  \<^item> \<open>EditOps\<close>, \<open>TrackEdits\<close>: the edits of one track in \<open>superi-timeline/src/edit_ops.rs\<close>: insert,
    overwrite, append, place, replace, lift, extract, razor, trim, ripple, roll, slip, slide. \<open>Tiling\<close>,
    \<open>ItemLaws\<close>, \<open>TrackLaws\<close>, \<open>EditLaws\<close>, \<open>EditProps\<close> and \<open>TrackValid\<close> prove them.
  \<^item> \<open>EditState\<close>: \<open>superi-timeline/src/edit_state.rs\<close>. \<open>EditStateLaws\<close>, \<open>EditStateProps\<close>.
  \<^item> \<open>Markers\<close>, \<open>Media\<close>, \<open>Multicam\<close>: \<open>markers.rs\<close>, \<open>media.rs\<close> and \<open>multicam.rs\<close> of \<open>superi-timeline\<close>, each
    with its \<open>Props\<close>.
  \<^item> \<open>Dag\<close>, \<open>Regions\<close>, \<open>Invalidation\<close>: \<open>superi-graph/src/dag.rs\<close> and \<open>invalidation.rs\<close>, with the pixel
    rectangles of \<open>superi-core/src/geometry.rs\<close>. \<open>DagLaws\<close>, \<open>DagProps\<close>, \<open>RegionLaws\<close>, \<open>InvalidationProps\<close>.
  \<^item> \<open>Scheduler\<close>, \<open>Lifecycle\<close>: \<open>jobs/priority.rs\<close> and \<open>lifecycle.rs\<close> of \<open>superi-concurrency/src\<close>.
  \<^item> \<open>CacheBudget\<close>, \<open>LruCache\<close>: \<open>superi-cache/src/eviction.rs\<close>, the ledger of reservations and the map
    ordered by recency.
  \<^item> \<open>History\<close>, \<open>Scenario\<close>, \<open>ScenarioProps\<close>: the bounded snapshot history of \<open>superi-engine/src/history.rs\<close>,
    with its contract as a locale, and the scenario engine of \<open>command.rs\<close>, its client.
  A struct is a record with the fields of the source (prefixed, since record fields share one name
  space), an enum a datatype with its constructors, a Rust integer an \<open>int\<close> whose range is stated
  and whose checked, saturating and wrapping operations are written out, and \<open>Result\<close> a sum with the
  error value the code builds, contexts included. An assertion, an \<open>unwrap\<close> or an index that can
  fail is the value \<open>None\<close> of an outer option. A method that changes its receiver returns it.

  \<^bold>\<open>What the lemmas show.\<close>

  \<^item> Time: comparison across clocks is the order of seconds; the 128-bit products never wrap; rescaling
    is the rounding of the exact position and fails exactly when that does not fit or the exact rule
    meets a position between units; every operation
    keeps the ranges of its types. Frame labels print and parse back, drop-frame labels included.
  \<^item> Retiming: the constructor accepts exactly the contiguous, continuous maps, and slicing
    preserves what is played.
  \<^item> Track edits: the abstraction of a track is what it plays at a tick. \<open>spliced\<close>, \<open>closed_up\<close> and
    \<open>patched\<close> are the abstract edits; insert, overwrite, extract, ripple and razor refine them, and the
    whole validation of the track accepts the result of an insert.
  \<^item> Editor state: an invariant (links and groups are partial equivalences, no link straddles a
    group) kept by every call, where a transfer of a clip's intent keeps the second part only if it
    goes to a clip outside every relation; the selection is a closure.
  \<^item> Projects: the invariant of every reachable project; the nesting search decides acyclicity; the
    frame of a multicam clip resolves without a panic, unless its stored switch program names another
    clip (\<open>misnamed_program_panics\<close> is such a project).
  \<^item> Graph: the adjacency invariant, the cycle test, the stable topological order, and propagation
    as the solution of the dataflow equations, with the errors of the client's edge map passed on;
    normalized regions are canonical.
  \<^item> Scheduling, budgets, caches, lifecycle: refinement of four queues with no starvation, exact
    accounting within the limits, refinement of the list by recency, and a protocol in which a phase
    settles by all participants and only by them.
  \<^item> Undo: the history is a tape of states that undo and redo walk; the scenario engine never panics
    and its content belongs to its phase.

  The locales are the interfaces: \<open>physical_time\<close> (types compared as their seconds), \<open>tiling\<close> (items
  that tile ticks), and those of the theories of components, each interpreted on the model's own
  definitions by the theory that provides them. \<open>timing\<close>, \<open>result_simps\<close> and the other named
  collections carry the proofs.

  \<^bold>\<open>Loops, fuel and bounds.\<close> The searches (\<open>reaches\<close>, \<open>topo_loop\<close>, \<open>expand_loop\<close>, \<open>bin_path_loop\<close>,
  \<open>visit_timeline\<close>) terminate by measures on what is not yet visited, so they are total functions and no
  fuel is assumed. \<open>ps_serve\<close> has the fifteen slots of the service pattern as its fuel, as the code's
  loop has, and the property shows that it never runs out while a job waits. Lifecycle revisions are
  56 bits of the packed signal and the code refuses the one past; the liveness property is stated
  below that bound. The recency map renumbers its stamps when they reach 64 bits, and the refinement
  holds for maps with fewer entries than stamps.

  \<^bold>\<open>Not modelled.\<close> Floating point (geometry transforms, audio and colour processing, expressions), the
  project documents and the command history over them, file formats and databases, codecs, plugins, windows and the GPU: their logic is arithmetic on \<open>f32\<close> and
  \<open>f64\<close> or calls of foreign code. Threads are modelled by the sequence of their calls, since every
  modelled object is behind one lock; blocking waits and wake-ups are not. The roots of an
  invalidation, computed from two snapshots of the graph's values, are an argument. The edge map
  of the propagation, the pool of the graphics device and the lower-casing of Unicode text are
  arguments of the definitions that use them, since they stand for code the caller supplies.
\<close>

end
